(* ===== verification/Prelude.thy ===== *)
theory Prelude
  imports "HOL-Library.Word" "HOL-Library.Monad_Syntax"
begin

text \<open>
  What the component theories share: the names of the C integer types, the result type
  of an operation that may touch memory out of bounds or fail to return, its
  total-correctness calculus, bounds-checked arrays and byte buffers, the
  little-endian encoding of the C structures, and arithmetic facts on words.

  An operation has a result in \<open>'a option\<close>: \<^term>\<open>None\<close> means that the C code would
  read or write outside an object, or would loop for ever.  Errors that the code
  itself reports (error numbers, \<open>false\<close>) are ordinary results.
  \<^term>\<open>Some\<close> therefore carries a safety and a termination statement.
\<close>

unbundle bit_operations_syntax

type_synonym u8 = "8 word"
type_synonym u16 = "16 word"
type_synonym u32 = "32 word"
type_synonym u64 = "64 word"

text \<open>A C string: its bytes before the terminating null byte.\<close>

type_synonym cstr = "u8 list"

named_theorems posts "total-correctness facts of the operations"
named_theorems geom "arithmetic of the block and page geometry"

section \<open>Total correctness\<close>

definition post :: "'a option \<Rightarrow> ('a \<Rightarrow> bool) \<Rightarrow> bool" where
  "post m P \<longleftrightarrow> (case m of None \<Rightarrow> False | Some x \<Rightarrow> P x)"

lemma post_Some [simp]: "post (Some x) P \<longleftrightarrow> P x"
  by (simp add: post_def)

lemma post_None [simp]: "\<not> post None P"
  by (simp add: post_def)

lemma post_bind [simp]: "post (Option.bind m f) P \<longleftrightarrow> post m (\<lambda>x. post (f x) P)"
  by (cases m) (simp_all add: post_def)

lemma post_mono: "post m Q \<Longrightarrow> (\<And>x. Q x \<Longrightarrow> P x) \<Longrightarrow> post m P"
  by (cases m) simp_all

lemma post_bindI: "post m Q \<Longrightarrow> (\<And>x. Q x \<Longrightarrow> post (f x) P) \<Longrightarrow> post (Option.bind m f) P"
  by (cases m) simp_all

lemma post_iff: "post m P \<longleftrightarrow> (\<exists>x. m = Some x \<and> P x)"
  by (cases m) simp_all

lemma postI: "m = Some x \<Longrightarrow> P x \<Longrightarrow> post m P"
  by simp

lemma postD: "post m P \<Longrightarrow> m = Some x \<Longrightarrow> P x"
  by simp

lemma postE: "post m P \<Longrightarrow> (\<And>x. m = Some x \<Longrightarrow> P x \<Longrightarrow> R) \<Longrightarrow> R"
  by (cases m) simp_all

lemma post_pairE: "post m (\<lambda>(a, b). Q a b) \<Longrightarrow> (\<And>a b. m = Some (a, b) \<Longrightarrow> Q a b \<Longrightarrow> R) \<Longrightarrow> R"
  by (cases m) auto

lemma post_pairI: "m = Some (a, b) \<Longrightarrow> Q a b \<Longrightarrow> post m (\<lambda>(a, b). Q a b)"
  by simp

lemma post_conj: "post m P \<Longrightarrow> post m Q \<Longrightarrow> post m (\<lambda>x. P x \<and> Q x)"
  by (cases m) simp_all

section \<open>Arrays and byte buffers\<close>

definition arr_get :: "'a list \<Rightarrow> nat \<Rightarrow> 'a option" where
  "arr_get xs i = (if i < length xs then Some (xs ! i) else None)"

definition arr_set :: "'a list \<Rightarrow> nat \<Rightarrow> 'a \<Rightarrow> 'a list option" where
  "arr_set xs i v = (if i < length xs then Some (xs[i := v]) else None)"

text \<open>\<open>mem_get buf off n\<close> reads \<open>n\<close> bytes, \<open>mem_put buf off bs\<close> is
  \<open>memcpy(buf + off, bs, length bs)\<close>.\<close>

definition mem_get :: "'a list \<Rightarrow> nat \<Rightarrow> nat \<Rightarrow> 'a list option" where
  "mem_get buf off n = (if off + n \<le> length buf then Some (take n (drop off buf)) else None)"

definition mem_put :: "'a list \<Rightarrow> nat \<Rightarrow> 'a list \<Rightarrow> 'a list option" where
  "mem_put buf off bs =
     (if off + length bs \<le> length buf
      then Some (take off buf @ bs @ drop (off + length bs) buf) else None)"

lemma post_arr_get [simp]: "post (arr_get xs i) P \<longleftrightarrow> i < length xs \<and> P (xs ! i)"
  by (simp add: arr_get_def)

lemma post_arr_set [simp]: "post (arr_set xs i v) P \<longleftrightarrow> i < length xs \<and> P (xs[i := v])"
  by (simp add: arr_set_def)

lemma post_mem_get [simp]:
  "post (mem_get buf off n) P \<longleftrightarrow> off + n \<le> length buf \<and> P (take n (drop off buf))"
  by (simp add: mem_get_def)

lemma post_mem_put [simp]:
  "post (mem_put buf off bs) P \<longleftrightarrow>
     off + length bs \<le> length buf \<and> P (take off buf @ bs @ drop (off + length bs) buf)"
  by (simp add: mem_put_def)

lemma mem_put_length: "mem_put buf off bs = Some buf' \<Longrightarrow> length buf' = length buf"
  by (auto simp: mem_put_def split: if_splits)

lemma mem_get_put_same:
  "mem_put buf off bs = Some buf' \<Longrightarrow> mem_get buf' off (length bs) = Some bs"
  by (auto simp: mem_put_def mem_get_def split: if_splits)

lemma mem_get_put_before:
  "mem_put buf off bs = Some buf' \<Longrightarrow> o2 + n \<le> off \<Longrightarrow> mem_get buf' o2 n = mem_get buf o2 n"
  by (auto simp: mem_put_def mem_get_def drop_take split: if_splits)

lemma mem_get_put_after:
  assumes "mem_put buf off bs = Some buf'" and "off + length bs \<le> o2"
  shows "mem_get buf' o2 n = mem_get buf o2 n"
proof -
  from assms have b: "buf' = take off buf @ bs @ drop (off + length bs) buf"
    and l: "off + length bs \<le> length buf"
    by (auto simp: mem_put_def split: if_splits)
  have "drop o2 buf' = drop o2 buf"
    using assms(2) l by (simp add: b)
  moreover have "length buf' = length buf" using b l by simp
  ultimately show ?thesis by (simp add: mem_get_def)
qed

section \<open>Little-endian integers in memory\<close>

fun le_bytes :: "nat \<Rightarrow> 'n::len word \<Rightarrow> u8 list" where
  "le_bytes 0 w = []"
| "le_bytes (Suc n) w = ucast w # le_bytes n (drop_bit 8 w)"

definition bytes_of_u32 :: "u32 \<Rightarrow> u8 list" where
  "bytes_of_u32 w = le_bytes 4 w"

definition bytes_of_u64 :: "u64 \<Rightarrow> u8 list" where
  "bytes_of_u64 w = le_bytes 8 w"

fun le_word :: "u8 list \<Rightarrow> 'n::len word" where
  "le_word [] = 0"
| "le_word (b # bs) = ucast b OR push_bit 8 (le_word bs)"

definition rd32 :: "u8 list \<Rightarrow> nat \<Rightarrow> u32 option" where
  "rd32 buf off = map_option le_word (mem_get buf off 4)"

definition rd64 :: "u8 list \<Rightarrow> nat \<Rightarrow> u64 option" where
  "rd64 buf off = map_option le_word (mem_get buf off 8)"

definition wr32 :: "u8 list \<Rightarrow> nat \<Rightarrow> u32 \<Rightarrow> u8 list option" where
  "wr32 buf off w = mem_put buf off (bytes_of_u32 w)"

fun words_of_bytes :: "u8 list \<Rightarrow> u32 list" where
  "words_of_bytes (a # b # c # d # bs) = le_word [a, b, c, d] # words_of_bytes bs"
| "words_of_bytes _ = []"

definition bytes_of_words :: "u32 list \<Rightarrow> u8 list" where
  "bytes_of_words ws = concat (map bytes_of_u32 ws)"

lemma length_le_bytes [simp]: "length (le_bytes n w) = n"
  by (induction n w rule: le_bytes.induct) simp_all

lemma length_bytes_of_u32 [simp]: "length (bytes_of_u32 w) = 4"
  by (simp add: bytes_of_u32_def)

lemma length_bytes_of_u64 [simp]: "length (bytes_of_u64 w) = 8"
  by (simp add: bytes_of_u64_def)

lemma length_bytes_of_words [simp]: "length (bytes_of_words ws) = 4 * length ws"
  by (induction ws) (simp_all add: bytes_of_words_def)

lemma length_words_of_bytes [simp]: "length (words_of_bytes bs) = length bs div 4"
  by (induction bs rule: words_of_bytes.induct) auto

lemma le_step:
  fixes w :: "'n::len word"
  shows "ucast (ucast w :: u8) OR push_bit 8 (take_bit n (drop_bit 8 w)) = take_bit (8 + n) w"
  by (rule bit_word_eqI) (auto simp: bit_simps)

lemma le_word_le_bytes: "le_word (le_bytes n w) = take_bit (8 * n) w"
proof (induction n w rule: le_bytes.induct)
  case (2 n w)
  have "le_word (le_bytes (Suc n) w) = ucast (ucast w :: u8) OR push_bit 8 (take_bit (8 * n) (drop_bit 8 w))"
    by (simp add: "2.IH")
  then show ?case by (simp add: le_step)
qed simp

lemma le_word_bytes_of_u32 [simp]: "le_word (bytes_of_u32 w) = w"
  by (simp add: bytes_of_u32_def le_word_le_bytes take_bit_word_eq_self)

lemma le_word_bytes_of_u64 [simp]: "le_word (bytes_of_u64 w) = w"
  by (simp add: bytes_of_u64_def le_word_le_bytes take_bit_word_eq_self)

lemma words_of_bytes_of_words [simp]: "words_of_bytes (bytes_of_words ws) = ws"
proof (induction ws)
  case (Cons w ws)
  obtain a b c d where bs: "bytes_of_u32 w = [a, b, c, d]"
    by (simp add: bytes_of_u32_def numeral_eq_Suc)
  then have "le_word [a, b, c, d] = w" by (metis le_word_bytes_of_u32)
  with Cons bs show ?case by (simp add: bytes_of_words_def)
qed (simp add: bytes_of_words_def)

lemma bytes_of_u32_alt:
  "bytes_of_u32 w = [ucast w, ucast (drop_bit 8 w), ucast (drop_bit 16 w), ucast (drop_bit 24 w)]"
proof -
  have "(4::nat) = Suc (Suc (Suc (Suc 0)))" by simp
  then show ?thesis by (simp only: bytes_of_u32_def le_bytes.simps) (simp add: ac_simps)
qed

lemma le_word4:
  fixes a b c d :: u8
  shows "le_word [a, b, c, d] = (ucast a OR push_bit 8 (ucast b) OR push_bit 16 (ucast c) OR push_bit 24 (ucast d) :: u32)"
  by (simp add: push_bit_or ac_simps)

lemma bytes_of_le_word:
  assumes "length bs = 4"
  shows "bytes_of_u32 (le_word bs) = bs"
proof -
  obtain a b c d where bs: "bs = [a, b, c, d]"
    using assms by (auto simp: numeral_eq_Suc length_Suc_conv)
  show ?thesis
    unfolding bs bytes_of_u32_alt le_word4 list.inject
    by (intro conjI refl; rule bit_word_eqI; auto simp: bit_simps dest: bit_imp_le_length)
qed

lemma post_rd32 [simp]:
  "post (rd32 buf off) P \<longleftrightarrow> off + 4 \<le> length buf \<and> P (le_word (take 4 (drop off buf)))"
  by (simp add: rd32_def mem_get_def)

lemma post_wr32 [simp]:
  "post (wr32 buf off w) P \<longleftrightarrow>
     off + 4 \<le> length buf \<and> P (take off buf @ bytes_of_u32 w @ drop (off + 4) buf)"
  by (simp add: wr32_def)

section \<open>Counters and loops over words\<close>

lemma unat_inc:
  fixes a b :: "'n::len word"
  assumes "a < b"
  shows "unat (a + 1) = Suc (unat a)"
proof -
  have "unat a < unat b" using assms by (simp add: word_less_nat_alt)
  moreover have "unat b < 2 ^ LENGTH('n)" by (metis unsigned_less)
  ultimately have "Suc (unat a) < 2 ^ LENGTH('n)" by linarith
  then show ?thesis by (simp add: unat_word_ariths)
qed

lemma unat_dec: "(a::'n::len word) < b \<Longrightarrow> unat (b - 1) = unat b - 1"
  by (rule unat_minus_one) auto

lemma unat_inc_measure: "(a::'n::len word) < b \<Longrightarrow> unat b - unat (a + 1) < unat b - unat a"
  by (simp add: unat_inc word_less_nat_alt)

lemma unat_dec_measure: "(a::'n::len word) < b \<Longrightarrow> unat (b - 1) < unat b"
  by (simp add: unat_dec word_less_nat_alt)

lemma pow2_u32:
  fixes w :: u32
  assumes "unat w = 2 ^ k"
  shows "k \<le> 31" and "unat w \<le> 2 ^ 31"
proof -
  have "(2::nat) ^ k < 2 ^ 32" using unsigned_less [of w, where ?'a = nat] assms by simp
  then have "k < 32" by (rule power_less_imp_less_exp [rotated]) simp
  then show "k \<le> 31" by simp
  then have "(2::nat) ^ k \<le> 2 ^ 31" by (intro power_increasing) simp_all
  then show "unat w \<le> 2 ^ 31" using assms by simp
qed

lemma unat_add_no_wrap: "unat (a::'n::len word) + unat b < 2 ^ LENGTH('n) \<Longrightarrow> unat (a + b) = unat a + unat b"
  by (simp add: unat_add_lem)

lemma page_step:
  fixes off step total :: u32
  assumes "off < total" and "unat total = 2 ^ k" and "unat step = 2 ^ j"
  shows "unat (off + step) = unat off + unat step"
proof -
  have "unat off < unat total" using assms(1) by (simp add: word_less_nat_alt)
  with pow2_u32(2) [OF assms(2)] pow2_u32(2) [OF assms(3)]
  have "unat off + unat step < 2 ^ 32" by simp
  then show ?thesis by (intro unat_add_no_wrap) simp
qed

lemma bit31: "bit (w::u32) 31 \<longleftrightarrow> 2 ^ 31 \<le> unat w"
proof -
  have "bit w 31 \<longleftrightarrow> bit (unat w) 31" by (simp add: bit_unsigned_iff)
  also have "\<dots> \<longleftrightarrow> odd (unat w div 2147483648)" by (simp add: bit_iff_odd)
  finally have "bit w 31 \<longleftrightarrow> odd (unat w div 2147483648)" .
  moreover have "unat w div 2147483648 < 2"
    using unsigned_less [of w, where ?'a = nat] by (simp add: less_mult_imp_div_less)
  ultimately show ?thesis
    by (cases "unat w div 2147483648") (auto simp: div_eq_0_iff)
qed

lemma sless0: "(w::u32) <s 0 \<longleftrightarrow> 2 ^ 31 \<le> unat w"
  using bit_last_iff [of w] by (simp add: word_sless_alt bit31)

lemma upto_insert: "(a::u32) < j \<Longrightarrow> a \<le> b \<longleftrightarrow> b = a \<or> a + 1 \<le> b"
  by (auto simp: inc_less_eq_iff)

lemma unat_u32_u64 [simp]: "unat (ucast (w::u32) :: u64) = unat w"
proof -
  have "unat w < 2 ^ 64" using unsigned_less [of w, where ?'a = nat] by simp
  then show ?thesis by (simp add: unsigned_ucast_eq take_bit_nat_eq_self)
qed

lemma unat_u64_u32: "unat (w::u64) < 2 ^ 32 \<Longrightarrow> unat (ucast w :: u32) = unat w"
  by (simp add: unsigned_ucast_eq take_bit_nat_eq_self)

lemma page_step64:
  fixes off :: u64 and total step :: u32
  assumes "off < ucast total" and "unat total = 2 ^ k" and "unat step = 2 ^ j"
  shows "unat (off + ucast step) = unat off + unat step"
proof -
  have "unat off < unat total" using assms(1) by (simp add: word_less_nat_alt)
  with pow2_u32(2) [OF assms(2)] pow2_u32(2) [OF assms(3)]
  show ?thesis by (simp add: unat_word_ariths)
qed

lemma and_pow2_mask:
  fixes off :: u64 and w :: u32
  assumes "unat w = 2 ^ k"
  shows "unat (ucast (off AND ucast (w - 1)) :: u32) = unat off mod unat w"
    and "unat (off AND ucast (w - 1)) = unat off mod unat w"
proof -
  have k: "k \<le> 31" using assms by (rule pow2_u32)
  have "unat (w - 1) = 2 ^ k - 1" using assms by (metis power_eq_0_iff unat_eq_zero unat_minus_one zero_neq_numeral)
  then have "unat (ucast (w - 1) :: u64) = 2 ^ k - 1" by simp
  then have "(ucast (w - 1) :: u64) = of_nat (2 ^ k - 1)" by (metis of_nat_unat ucast_id unat_u32_u64)
  then have "(ucast (w - 1) :: u64) = mask k" by (simp add: mask_eq_exp_minus_1 of_nat_diff)
  then have "off AND ucast (w - 1) = take_bit k off" by (simp add: take_bit_eq_mask)
  moreover have "unat (take_bit k off) = unat off mod 2 ^ k"
    by (subst unsigned_take_bit_eq) (rule take_bit_eq_mod)
  ultimately show 2: "unat (off AND ucast (w - 1)) = unat off mod unat w" by (simp add: assms)
  moreover have "unat off mod unat w < unat w" using assms by (intro mod_less_divisor) simp
  then have "unat off mod unat w < 2 ^ 32" using pow2_u32(2) [OF assms] by (simp del: mod_less)
  ultimately show "unat (ucast (off AND ucast (w - 1)) :: u32) = unat off mod unat w"
    by (metis unat_u64_u32)
qed

lemma and_not_mask:
  fixes off :: u64 and w :: u32
  assumes "unat w = 2 ^ k" and "unat off < 2 ^ 32"
  shows "unat (off AND ucast (NOT (w - 1))) = unat off - unat off mod unat w"
proof -
  let ?m = "ucast (w - 1) :: u64"
  have low: "n < 32" if "bit off n" for n
  proof (rule ccontr)
    assume "\<not> n < 32"
    then have "2 ^ 32 \<le> (2::nat) ^ n" by (intro power_increasing) auto
    moreover have "bit (unat off) n" using that by (simp add: bit_unsigned_iff)
    ultimately show False using assms(2) by (simp add: bit_nat_iff bit_iff_odd)
  qed
  have eq: "off AND ucast (NOT (w - 1)) = off AND NOT ?m"
    by (rule bit_word_eqI) (auto simp: bit_simps dest: low)
  have "(off AND ?m) AND (off AND NOT ?m) = 0" "(off AND ?m) OR (off AND NOT ?m) = off"
    by (auto intro!: bit_word_eqI simp: bit_simps)
  then have "(off AND ?m) + (off AND NOT ?m) = off"
    by (metis add.left_neutral word_plus_and_or)
  then have "off AND NOT ?m = off - (off AND ?m)" by (simp add: algebra_simps)
  then show ?thesis
    unfolding eq using and_pow2_mask(2) [OF assms(1), of off] word_and_le2 [of off ?m]
    by (simp add: unat_sub)
qed

text \<open>\<open>isdigit\<close> of the C library and of the kernel.\<close>

definition isdigit :: "u8 \<Rightarrow> bool" where
  "isdigit c \<longleftrightarrow> 48 \<le> c \<and> c \<le> 57"

end
