(* ===== verification/Nmbm_Types.thy ===== *)
theory Nmbm_Types
  imports Prelude
begin

text \<open>
  The data of the NAND mapped-block management layer (NMBM): the constants and
  structures of \<open>include/nmbm/nmbm.h\<close> and \<open>nmbm-private.h\<close>, and the image of
  the two on-flash structures in memory.

  The lower NAND device is outside NMBM.  Its callbacks are fields of
  \<open>nmbm_lower_device\<close>, as in C, and are functions on an abstract device state \<open>'c\<close>
  that stands for what the pointer \<open>arg\<close> reaches.  A callback that fills a buffer gets
  the bytes from the pointer to the end of the buffer's object and returns
  them updated.  \<open>os_crc32_le\<close> is the kernel's \<open>crc32_le\<close>, which \<open>nmbm-os.h\<close> calls.
\<close>

section \<open>Constants\<close>

abbreviation (input) EIO :: int where "EIO \<equiv> 5"
abbreviation (input) ENODEV :: int where "ENODEV \<equiv> 19"
abbreviation (input) EINVAL :: int where "EINVAL \<equiv> 22"
abbreviation (input) EROFS :: int where "EROFS \<equiv> 30"
abbreviation (input) EBADMSG :: int where "EBADMSG \<equiv> 74"

definition NMBM_MAGIC_SIGNATURE :: u32 where "NMBM_MAGIC_SIGNATURE = 0x304d4d4e"
definition NMBM_MAGIC_INFO_TABLE :: u32 where "NMBM_MAGIC_INFO_TABLE = 0x314d4d4e"

definition NMBM_VERSION_MAKE :: "u32 \<Rightarrow> u32 \<Rightarrow> u32" where
  "NMBM_VERSION_MAKE major minor = (major AND 0xffff) OR push_bit 16 (minor AND 0xffff)"

definition NMBM_VERSION_MAJOR_GET :: "u32 \<Rightarrow> u32" where
  "NMBM_VERSION_MAJOR_GET ver = drop_bit 0 ver AND 0xffff"

definition NMBM_VERSION_MINOR_GET :: "u32 \<Rightarrow> u32" where
  "NMBM_VERSION_MINOR_GET ver = drop_bit 16 ver AND 0xffff"

definition NMBM_VER :: u32 where "NMBM_VER = NMBM_VERSION_MAKE 1 0"

abbreviation (input) NMBM_BITMAP_UNIT_SIZE :: u32 where "NMBM_BITMAP_UNIT_SIZE \<equiv> 4"
abbreviation (input) NMBM_BITMAP_BITS_PER_BLOCK :: u32 where "NMBM_BITMAP_BITS_PER_BLOCK \<equiv> 2"
abbreviation (input) NMBM_BITMAP_BLOCKS_PER_UNIT :: u32 where "NMBM_BITMAP_BLOCKS_PER_UNIT \<equiv> 16"

abbreviation (input) NMBM_SPARE_BLOCK_MULTI :: u32 where "NMBM_SPARE_BLOCK_MULTI \<equiv> 1"
abbreviation (input) NMBM_SPARE_BLOCK_DIV :: u32 where "NMBM_SPARE_BLOCK_DIV \<equiv> 2"
abbreviation (input) NMBM_SPARE_BLOCK_MIN :: u32 where "NMBM_SPARE_BLOCK_MIN \<equiv> 2"

abbreviation (input) NMBM_MGMT_DIV :: u32 where "NMBM_MGMT_DIV \<equiv> 16"
abbreviation (input) NMBM_MGMT_BLOCKS_MIN :: u32 where "NMBM_MGMT_BLOCKS_MIN \<equiv> 32"

abbreviation (input) NMBM_TRY_COUNT :: nat where "NMBM_TRY_COUNT \<equiv> 3"

abbreviation (input) BLOCK_ST_BAD :: u32 where "BLOCK_ST_BAD \<equiv> 0"
abbreviation (input) BLOCK_ST_NEED_REMAP :: u32 where "BLOCK_ST_NEED_REMAP \<equiv> 2"
abbreviation (input) BLOCK_ST_GOOD :: u32 where "BLOCK_ST_GOOD \<equiv> 3"
abbreviation (input) BLOCK_ST_MASK :: u32 where "BLOCK_ST_MASK \<equiv> 3"

definition NMBM_F_CREATE :: u32 where "NMBM_F_CREATE = 0x01"
definition NMBM_F_EMPTY_PAGE_ECC_OK :: u32 where "NMBM_F_EMPTY_PAGE_ECC_OK = 0x02"
definition NMBM_F_READ_ONLY :: u32 where "NMBM_F_READ_ONLY = 0x04"

definition NMBM_ALIGN :: "u32 \<Rightarrow> u32 \<Rightarrow> u32" where
  "NMBM_ALIGN v a = (v + a - 1) AND NOT (a - 1)"

datatype nmbm_log_category =
  NMBM_LOG_DEBUG | NMBM_LOG_INFO | NMBM_LOG_WARN | NMBM_LOG_ERR | NMBM_LOG_EMERG | NMBM_LOG_MAX

datatype nmbm_oob_mode =
  NMBM_MODE_PLACE_OOB | NMBM_MODE_AUTO_OOB | NMBM_MODE_RAW | NMBM_MODE_MAX

section \<open>Structures\<close>

record nmbm_header =
  magic :: u32
  version :: u32
  hsize :: u32
  checksum :: u32

text \<open>\<open>sig_padding\<close> holds the three bytes of \<open>padding\<close> and the four of the structure's
  tail, so that the image of a signature in memory is exactly 48 bytes.\<close>

record nmbm_signature =
  sig_header :: nmbm_header
  nand_size :: u64
  block_size :: u32
  page_size :: u32
  spare_size :: u32
  mgmt_start_pb :: u32
  max_try_count :: u8
  sig_padding :: "u8 list"

record nmbm_info_table_header =
  ift_header :: nmbm_header
  write_count :: u32
  state_table_off :: u32
  mapping_table_off :: u32
  ift_padding :: u32

record 'c nmbm_lower_device =
  max_ratio :: u32
  max_reserved_blocks :: u32
  nflags :: u32
  nsize :: u64
  erasesize :: u32
  writesize :: u32
  oobsize :: u32
  oobavail :: u32
  reset_chip :: "('c \<Rightarrow> 'c) option"
  read_page :: "('c \<Rightarrow> u64 \<Rightarrow> u8 list option \<Rightarrow> u8 list option \<Rightarrow> nmbm_oob_mode \<Rightarrow>
                   int \<times> u8 list option \<times> u8 list option \<times> 'c) option"
  write_page :: "('c \<Rightarrow> u64 \<Rightarrow> u8 list option \<Rightarrow> u8 list option \<Rightarrow> nmbm_oob_mode \<Rightarrow> int \<times> 'c) option"
  erase_block :: "('c \<Rightarrow> u64 \<Rightarrow> int \<times> 'c) option"
  is_bad_block :: "('c \<Rightarrow> u64 \<Rightarrow> int \<times> 'c) option"
  mark_bad_block :: "('c \<Rightarrow> u64 \<Rightarrow> int \<times> 'c) option"
  os_crc32_le :: "u32 \<Rightarrow> u8 list \<Rightarrow> u32"

text \<open>\<open>protected\<close> is an \<open>int\<close> that the code only sets to one and tests.  The entries of
  \<open>block_mapping\<close> are \<open>int32_t\<close>: a negative entry is a block without a mapping.\<close>

record 'c nmbm_instance =
  lower :: "'c nmbm_lower_device"
  arg :: 'c
  rawpage_size :: u32
  rawblock_size :: u32
  rawchip_size :: u32
  writesize_mask :: u32
  erasesize_mask :: u32
  writesize_shift :: u16
  erasesize_shift :: u16
  signature :: nmbm_signature
  info_table_cache :: "u8 list"
  info_table_size :: u32
  info_table_spare_blocks :: u32
  info_table :: nmbm_info_table_header
  block_state :: "u32 list"
  block_state_changed :: u32
  state_table_size :: u32
  block_mapping :: "u32 list"
  block_mapping_changed :: u32
  mapping_table_size :: u32
  page_cache :: "u8 list"
  protected :: bool
  block_count :: u32
  data_block_count :: u32
  mgmt_start_ba :: u32
  main_table_ba :: u32
  backup_table_ba :: u32
  mapping_blocks_ba :: u32
  mapping_blocks_top_ba :: u32
  signature_ba :: u32
  log_display_level :: nmbm_log_category

definition read_only :: "'c nmbm_lower_device \<Rightarrow> bool" where
  "read_only ld \<longleftrightarrow> nflags ld AND NMBM_F_READ_ONLY \<noteq> 0"

section \<open>On-flash images\<close>

definition header_bytes :: "nmbm_header \<Rightarrow> u8 list" where
  "header_bytes h = bytes_of_u32 (magic h) @ bytes_of_u32 (version h) @
     bytes_of_u32 (hsize h) @ bytes_of_u32 (checksum h)"

definition header_of_bytes :: "u8 list \<Rightarrow> nmbm_header" where
  "header_of_bytes bs = \<lparr>magic = le_word (take 4 bs), version = le_word (take 4 (drop 4 bs)),
     hsize = le_word (take 4 (drop 8 bs)), checksum = le_word (take 4 (drop 12 bs))\<rparr>"

definition signature_bytes :: "nmbm_signature \<Rightarrow> u8 list" where
  "signature_bytes s = header_bytes (sig_header s) @ bytes_of_u64 (nand_size s) @
     bytes_of_u32 (block_size s) @ bytes_of_u32 (page_size s) @ bytes_of_u32 (spare_size s) @
     bytes_of_u32 (mgmt_start_pb s) @ max_try_count s # sig_padding s"

definition signature_of_bytes :: "u8 list \<Rightarrow> nmbm_signature" where
  "signature_of_bytes bs = \<lparr>sig_header = header_of_bytes (take 16 bs),
     nand_size = le_word (take 8 (drop 16 bs)), block_size = le_word (take 4 (drop 24 bs)),
     page_size = le_word (take 4 (drop 28 bs)), spare_size = le_word (take 4 (drop 32 bs)),
     mgmt_start_pb = le_word (take 4 (drop 36 bs)), max_try_count = le_word (take 1 (drop 40 bs)),
     sig_padding = drop 41 bs\<rparr>"

definition info_table_bytes :: "nmbm_info_table_header \<Rightarrow> u8 list" where
  "info_table_bytes t = header_bytes (ift_header t) @ bytes_of_u32 (write_count t) @
     bytes_of_u32 (state_table_off t) @ bytes_of_u32 (mapping_table_off t) @
     bytes_of_u32 (ift_padding t)"

definition info_table_of_bytes :: "u8 list \<Rightarrow> nmbm_info_table_header" where
  "info_table_of_bytes bs = \<lparr>ift_header = header_of_bytes (take 16 bs),
     write_count = le_word (take 4 (drop 16 bs)), state_table_off = le_word (take 4 (drop 20 bs)),
     mapping_table_off = le_word (take 4 (drop 24 bs)), ift_padding = le_word (take 4 (drop 28 bs))\<rparr>"

abbreviation (input) sizeof_header :: nat where "sizeof_header \<equiv> 16"
abbreviation (input) sizeof_signature :: nat where "sizeof_signature \<equiv> 48"
abbreviation (input) sizeof_info_table_header :: nat where "sizeof_info_table_header \<equiv> 32"

text \<open>What the code relies on when it copies a structure to a buffer and back.\<close>

locale mem_image =
  fixes enc :: "'s \<Rightarrow> u8 list" and dec :: "u8 list \<Rightarrow> 's" and sz :: nat and good :: "'s \<Rightarrow> bool"
  assumes enc_length: "good x \<Longrightarrow> length (enc x) = sz"
    and dec_enc: "good x \<Longrightarrow> dec (enc x) = x"
begin

lemma enc_inj: "good x \<Longrightarrow> good y \<Longrightarrow> enc x = enc y \<Longrightarrow> x = y"
  by (metis dec_enc)

lemma store_load: "good x \<Longrightarrow> mem_put buf off (enc x) = Some buf' \<Longrightarrow>
    map_option dec (mem_get buf' off sz) = Some x"
  using mem_get_put_same [of buf off "enc x" buf'] by (simp add: enc_length dec_enc)

lemma store_fits: "good x \<Longrightarrow> off + sz \<le> length buf \<Longrightarrow> \<exists>buf'. mem_put buf off (enc x) = Some buf'"
  by (simp add: mem_put_def enc_length)

end

lemma length_header_bytes [simp]: "length (header_bytes h) = 16"
  by (simp add: header_bytes_def)

lemma header_of_header_bytes [simp]: "header_of_bytes (header_bytes h) = h"
  by (simp add: header_bytes_def header_of_bytes_def)

lemma length_info_table_bytes [simp]: "length (info_table_bytes t) = 32"
  by (simp add: info_table_bytes_def)

lemma length_signature_bytes [simp]: "length (signature_bytes s) = 41 + length (sig_padding s)"
  by (simp add: signature_bytes_def)

interpretation header_image: mem_image header_bytes header_of_bytes 16 "\<lambda>_. True"
  by unfold_locales simp_all

interpretation info_table_image: mem_image info_table_bytes info_table_of_bytes 32 "\<lambda>_. True"
  by unfold_locales (simp_all add: info_table_bytes_def info_table_of_bytes_def)

interpretation signature_image: mem_image signature_bytes signature_of_bytes 48
    "\<lambda>s. length (sig_padding s) = 7"
  by unfold_locales (simp_all add: signature_bytes_def signature_of_bytes_def)

end
