(* ===== verification/Nmbm_Chip.thy ===== *)
theory Nmbm_Chip
  imports Nmbm_Types
begin

text \<open>
  The address conversions and the high-level NAND chip operations of \<open>nmbm-core.c\<close>:
  page read, page write and block erase with retries, the bad-block check and the
  marking of a bad block.  Logging has no effect on the instance but for its display
  level, so of the log functions only \<open>nmbm_set_log_level\<close> is modelled.
\<close>

section \<open>Addresses\<close>

definition addr2ba :: "'c nmbm_instance \<Rightarrow> u64 \<Rightarrow> u32" where
  "addr2ba ni addr = ucast (drop_bit (unat (erasesize_shift ni)) addr)"

definition ba2addr :: "'c nmbm_instance \<Rightarrow> u32 \<Rightarrow> u64" where
  "ba2addr ni ba = push_bit (unat (erasesize_shift ni)) (ucast ba)"

definition size2blk :: "'c nmbm_instance \<Rightarrow> u64 \<Rightarrow> u32" where
  "size2blk ni sz =
     ucast (drop_bit (unat (erasesize_shift ni)) (sz + ucast (erasesize (lower ni)) - 1))"

definition nmbm_set_log_level ::
    "'c nmbm_instance option \<Rightarrow> nmbm_log_category \<Rightarrow> nmbm_log_category \<times> 'c nmbm_instance option" where
  "nmbm_set_log_level pni level =
     (case pni of
        None \<Rightarrow> (NMBM_LOG_MAX, None)
      | Some ni \<Rightarrow> (log_display_level ni, Some (ni\<lparr>log_display_level := level\<rparr>)))"

section \<open>Page and block operations with retry\<close>

definition nmbm_reset_chip :: "'c nmbm_instance \<Rightarrow> 'c nmbm_instance" where
  "nmbm_reset_chip ni =
     (case reset_chip (lower ni) of None \<Rightarrow> ni | Some f \<Rightarrow> ni\<lparr>arg := f (arg ni)\<rparr>)"

text \<open>A buffer handed to the driver must have room for what the driver transfers: a page of
  main data, or the spare bytes of a page.  A missing callback is a null function pointer.\<close>

definition room :: "u32 \<Rightarrow> u8 list option \<Rightarrow> bool" where
  "room n buf = (case buf of None \<Rightarrow> True | Some b \<Rightarrow> unat n \<le> length b)"

fun read_tries :: "nat \<Rightarrow> int \<Rightarrow> 'c nmbm_instance \<Rightarrow> u64 \<Rightarrow> u8 list option \<Rightarrow> u8 list option \<Rightarrow>
    nmbm_oob_mode \<Rightarrow> (int \<times> u8 list option \<times> u8 list option \<times> 'c nmbm_instance) option" where
  "read_tries 0 ret ni addr data oob mode = Some (ret, data, oob, ni)"
| "read_tries (Suc n) _ ni addr data oob mode =
     (case read_page (lower ni) of
        None \<Rightarrow> None
      | Some f \<Rightarrow>
          if room (writesize (lower ni)) data \<and> room (oobsize (lower ni)) oob then
            (let (ret, data, oob, a) = f (arg ni) addr data oob mode; ni = ni\<lparr>arg := a\<rparr> in
             if ret \<ge> 0 then Some (ret, data, oob, ni)
             else read_tries n ret (nmbm_reset_chip ni) addr data oob mode)
          else None)"

definition nmbm_read_phys_page :: "'c nmbm_instance \<Rightarrow> u64 \<Rightarrow> u8 list option \<Rightarrow> u8 list option \<Rightarrow>
    nmbm_oob_mode \<Rightarrow> (int \<times> u8 list option \<times> u8 list option \<times> 'c nmbm_instance) option" where
  "nmbm_read_phys_page ni addr data oob mode = read_tries NMBM_TRY_COUNT 0 ni addr data oob mode"

fun write_tries :: "nat \<Rightarrow> 'c nmbm_instance \<Rightarrow> u64 \<Rightarrow> u8 list option \<Rightarrow> u8 list option \<Rightarrow>
    nmbm_oob_mode \<Rightarrow> (bool \<times> 'c nmbm_instance) option" where
  "write_tries 0 ni addr data oob mode = Some (False, ni)"
| "write_tries (Suc n) ni addr data oob mode =
     (case write_page (lower ni) of
        None \<Rightarrow> None
      | Some f \<Rightarrow>
          if room (writesize (lower ni)) data \<and> room (oobsize (lower ni)) oob then
            (let (ret, a) = f (arg ni) addr data oob mode; ni = ni\<lparr>arg := a\<rparr> in
             if ret = 0 then Some (True, ni)
             else write_tries n (nmbm_reset_chip ni) addr data oob mode)
          else None)"

definition nmbm_write_phys_page :: "'c nmbm_instance \<Rightarrow> u64 \<Rightarrow> u8 list option \<Rightarrow> u8 list option \<Rightarrow>
    nmbm_oob_mode \<Rightarrow> (bool \<times> 'c nmbm_instance) option" where
  "nmbm_write_phys_page ni addr data oob mode =
     (if read_only (lower ni) then Some (False, ni)
      else write_tries NMBM_TRY_COUNT ni addr data oob mode)"

fun erase_tries :: "nat \<Rightarrow> 'c nmbm_instance \<Rightarrow> u64 \<Rightarrow> (bool \<times> 'c nmbm_instance) option" where
  "erase_tries 0 ni addr = Some (False, ni)"
| "erase_tries (Suc n) ni addr =
     (case erase_block (lower ni) of
        None \<Rightarrow> None
      | Some f \<Rightarrow>
          (let (ret, a) = f (arg ni) addr; ni = ni\<lparr>arg := a\<rparr> in
           if ret = 0 then Some (True, ni) else erase_tries n (nmbm_reset_chip ni) addr))"

definition nmbm_erase_phys_block :: "'c nmbm_instance \<Rightarrow> u64 \<Rightarrow> (bool \<times> 'c nmbm_instance) option" where
  "nmbm_erase_phys_block ni addr =
     (if read_only (lower ni) then Some (False, ni) else erase_tries NMBM_TRY_COUNT ni addr)"

section \<open>Bad blocks on the chip\<close>

definition nmbm_check_bad_phys_block :: "'c nmbm_instance \<Rightarrow> u32 \<Rightarrow> (bool \<times> 'c nmbm_instance) option" where
  "nmbm_check_bad_phys_block ni ba =
     (let addr = ba2addr ni ba; ws = unat (writesize (lower ni)) in
      case is_bad_block (lower ni) of
        Some f \<Rightarrow> (let (r, a) = f (arg ni) addr in Some (r \<noteq> 0, ni\<lparr>arg := a\<rparr>))
      | None \<Rightarrow> do {
          (ret, _, oob, ni) \<leftarrow>
            nmbm_read_phys_page ni addr None (Some (drop ws (page_cache ni))) NMBM_MODE_RAW;
          let ni = ni\<lparr>page_cache := take ws (page_cache ni) @ (case oob of None \<Rightarrow> [] | Some b \<Rightarrow> b)\<rparr>;
          if ret < 0 \<and> ret \<noteq> - EBADMSG then Some (True, ni)
          else do {
            b \<leftarrow> arr_get (page_cache ni) ws;
            Some (b \<noteq> 0xff, ni)
          }
        })"

partial_function (option) mark_bad_pages :: "'c nmbm_instance \<Rightarrow> u64 \<Rightarrow> u32 \<Rightarrow> 'c nmbm_instance option" where
  "mark_bad_pages ni addr off =
     (if off < erasesize (lower ni) then do {
        (_, ni) \<leftarrow> nmbm_write_phys_page ni (addr + ucast off) (Some (page_cache ni))
          (Some (drop (unat (writesize (lower ni))) (page_cache ni))) NMBM_MODE_RAW;
        mark_bad_pages ni addr (off + writesize (lower ni))
      } else Some ni)"

definition nmbm_mark_phys_bad_block :: "'c nmbm_instance \<Rightarrow> u32 \<Rightarrow> (int \<times> 'c nmbm_instance) option" where
  "nmbm_mark_phys_bad_block ni ba =
     (let addr = ba2addr ni ba in
      if read_only (lower ni) then Some (0, ni)
      else case mark_bad_block (lower ni) of
        Some f \<Rightarrow> (let (r, a) = f (arg ni) addr in Some (r, ni\<lparr>arg := a\<rparr>))
      | None \<Rightarrow> do {
          pc \<leftarrow> mem_put (page_cache ni) 0 (replicate (unat (rawpage_size ni)) 0);
          let ni = ni\<lparr>page_cache := pc\<rparr>;
          let level = log_display_level ni;
          ni \<leftarrow> mark_bad_pages (ni\<lparr>log_display_level := NMBM_LOG_MAX\<rparr>) addr 0;
          Some (0, ni\<lparr>log_display_level := level\<rparr>)
        })"

declare mark_bad_pages.simps [code]

section \<open>What the driver and the geometry guarantee\<close>

text \<open>\<open>driver_ok\<close> is what the code relies on in the driver's callbacks: they exist where the
  code calls them, and a read stores into the buffers it was given without changing their size.\<close>

fun same_shape :: "u8 list option \<Rightarrow> u8 list option \<Rightarrow> bool" where
  "same_shape None None = True"
| "same_shape (Some x) (Some y) = (length x = length y)"
| "same_shape _ _ = False"

definition driver_ok :: "'c nmbm_lower_device \<Rightarrow> bool" where
  "driver_ok ld \<longleftrightarrow>
     (\<exists>f. read_page ld = Some f \<and>
        (\<forall>a addr d ob m. case f a addr d ob m of (r, d', ob', a') \<Rightarrow> same_shape d d' \<and> same_shape ob ob')) \<and>
     (read_only ld \<or> write_page ld \<noteq> None \<and> erase_block ld \<noteq> None)"

text \<open>\<open>chip_ok\<close> is the part of the instance that \<open>nmbm_init_structure\<close> fixes and that the chip
  operations rely on: the driver, powers of two for page and block, and a page cache for one
  page with its spare bytes.\<close>

definition chip_ok :: "'c nmbm_instance \<Rightarrow> bool" where
  "chip_ok ni \<longleftrightarrow>
     driver_ok (lower ni) \<and>
     unat (writesize (lower ni)) = 2 ^ unat (writesize_shift ni) \<and>
     unat (erasesize (lower ni)) = 2 ^ unat (erasesize_shift ni) \<and>
     writesize_mask ni = writesize (lower ni) - 1 \<and>
     erasesize_mask ni = erasesize (lower ni) - 1 \<and>
     0 < unat (oobsize (lower ni)) \<and>
     unat (rawpage_size ni) = unat (writesize (lower ni)) + unat (oobsize (lower ni)) \<and>
     length (page_cache ni) = unat (rawpage_size ni)"

text \<open>\<open>dev_le ni ni'\<close>: from \<open>ni\<close> to \<open>ni'\<close> only the device and the page cache changed.\<close>

definition dev_le :: "'c nmbm_instance \<Rightarrow> 'c nmbm_instance \<Rightarrow> bool" where
  "dev_le ni ni' \<longleftrightarrow>
     (\<exists>a pc. ni' = ni\<lparr>arg := a, page_cache := pc\<rparr> \<and> length pc = length (page_cache ni))"

lemma dev_le_refl [simp]: "dev_le ni ni"
  unfolding dev_le_def by (rule exI [of _ "arg ni"], rule exI [of _ "page_cache ni"]) simp

lemma dev_le_trans: "dev_le a b \<Longrightarrow> dev_le b c \<Longrightarrow> dev_le a c"
  unfolding dev_le_def by (elim exE conjE) auto

lemma dev_le_arg [simp]: "dev_le ni (ni\<lparr>arg := a\<rparr>)"
  unfolding dev_le_def by (rule exI [of _ a], rule exI [of _ "page_cache ni"]) simp

lemma dev_le_cache: "length pc = length (page_cache ni) \<Longrightarrow> dev_le ni (ni\<lparr>page_cache := pc\<rparr>)"
  unfolding dev_le_def by (rule exI [of _ "arg ni"], rule exI [of _ pc]) simp

definition arg_le :: "'c nmbm_instance \<Rightarrow> 'c nmbm_instance \<Rightarrow> bool" where
  "arg_le ni ni' \<longleftrightarrow> (\<exists>a. ni' = ni\<lparr>arg := a\<rparr>)"

lemma dev_leI: "length pc = length (page_cache ni) \<Longrightarrow> dev_le ni (ni\<lparr>arg := a, page_cache := pc\<rparr>)"
  unfolding dev_le_def by (intro exI conjI, rule refl)

lemma arg_leE:
  assumes "arg_le ni ni'"
  obtains a where "ni' = ni\<lparr>arg := a\<rparr>"
  using assms unfolding arg_le_def by (rule exE)

lemma arg_leI [simp]: "arg_le ni (ni\<lparr>arg := a\<rparr>)"
  by (auto simp: arg_le_def)

lemma arg_le_refl [simp]: "arg_le ni ni"
  unfolding arg_le_def by (rule exI [of _ "arg ni"]) simp

lemma arg_le_trans: "arg_le a b \<Longrightarrow> arg_le b c \<Longrightarrow> arg_le a c"
  by (auto simp: arg_le_def)

lemma arg_le_upd [simp]: "arg_le (ni\<lparr>arg := a\<rparr>) ni' \<longleftrightarrow> arg_le ni ni'"
  by (simp add: arg_le_def)

lemma arg_le_dev_le: "arg_le ni ni' \<Longrightarrow> dev_le ni ni'"
  by (auto simp: arg_le_def)

lemma nmbm_reset_chip_arg_le: "arg_le ni (nmbm_reset_chip ni)"
  by (cases "reset_chip (lower ni)") (simp_all add: nmbm_reset_chip_def)

lemma dev_leE:
  assumes "dev_le ni ni'"
  obtains a pc where "ni' = ni\<lparr>arg := a, page_cache := pc\<rparr>" "length pc = length (page_cache ni)"
  using assms unfolding dev_le_def by blast

lemma chip_ok_dev_le: "dev_le ni ni' \<Longrightarrow> chip_ok ni \<Longrightarrow> chip_ok ni'"
  by (elim dev_leE) (simp add: chip_ok_def)

lemma nmbm_reset_chip_arg: "\<exists>b. nmbm_reset_chip (ni\<lparr>arg := a\<rparr>) = ni\<lparr>arg := b\<rparr>"
  using nmbm_reset_chip_arg_le [of "ni\<lparr>arg := a\<rparr>"] by (simp add: arg_le_def)

lemma same_shape_refl [simp]: "same_shape d d"
  by (cases d) simp_all

lemma same_shape_trans: "same_shape a b \<Longrightarrow> same_shape b c \<Longrightarrow> same_shape a c"
  by (cases a; cases b; cases c) simp_all

lemma same_shape_room: "same_shape a b \<Longrightarrow> room n b = room n a"
  by (cases a; cases b) (simp_all add: room_def)

lemma same_shape_Some: "same_shape (Some x) d \<longleftrightarrow> (\<exists>y. d = Some y \<and> length y = length x)"
  by (cases d) auto

lemma same_shape_None [simp]: "same_shape None d \<longleftrightarrow> d = None"
  by (cases d) auto

lemma driver_read:
  assumes "driver_ok ld"
  obtains f where "read_page ld = Some f"
    and "\<And>a addr d ob m r d' ob' a'. f a addr d ob m = (r, d', ob', a') \<Longrightarrow> same_shape d d' \<and> same_shape ob ob'"
  using assms unfolding driver_ok_def by (metis (no_types, lifting) case_prod_conv)

lemma read_tries_post:
  assumes "driver_ok (lower ni)" and "room (writesize (lower ni)) data" and "room (oobsize (lower ni)) oob"
  shows "post (read_tries n ret ni addr data oob mode)
    (\<lambda>(r, d, ob, ni'). same_shape data d \<and> same_shape oob ob \<and> arg_le ni ni')"
  using assms
proof (induction n arbitrary: ret ni data oob)
  case 0
  then show ?case by simp
next
  case (Suc n)
  obtain f where f: "read_page (lower ni) = Some f"
    and fs: "\<And>a addr d ob m r d' ob' a'. f a addr d ob m = (r, d', ob', a') \<Longrightarrow> same_shape d d' \<and> same_shape ob ob'"
    using driver_read [OF Suc.prems(1)] by blast
  obtain r d' ob' a' where c: "f (arg ni) addr data oob mode = (r, d', ob', a')"
    by (cases "f (arg ni) addr data oob mode")
  have sh: "same_shape data d'" "same_shape oob ob'" using fs [OF c] by auto
  show ?case
  proof (cases "r \<ge> 0")
    case True
    then show ?thesis using f c sh Suc.prems by simp
  next
    case False
    obtain b where b: "nmbm_reset_chip (ni\<lparr>arg := a'\<rparr>) = ni\<lparr>arg := b\<rparr>"
      by (rule exE [OF nmbm_reset_chip_arg])
    have "post (read_tries n r (ni\<lparr>arg := b\<rparr>) addr d' ob' mode)
        (\<lambda>(r, d, ob, ni'). same_shape d' d \<and> same_shape ob' ob \<and> arg_le (ni\<lparr>arg := b\<rparr>) ni')"
      using Suc.prems sh by (intro Suc.IH) (simp_all add: same_shape_room)
    then have "post (read_tries n r (ni\<lparr>arg := b\<rparr>) addr d' ob' mode)
        (\<lambda>(r, d, ob, ni'). same_shape data d \<and> same_shape oob ob \<and> arg_le ni ni')"
      by (rule post_mono) (use sh in \<open>auto intro: same_shape_trans\<close>)
    then show ?thesis using False f c b Suc.prems by simp
  qed
qed

lemma nmbm_read_phys_page_post:
  assumes "chip_ok ni" and "room (writesize (lower ni)) data" and "room (oobsize (lower ni)) oob"
  shows "post (nmbm_read_phys_page ni addr data oob mode)
    (\<lambda>(r, d, ob, ni'). same_shape data d \<and> same_shape oob ob \<and> arg_le ni ni')"
  using assms unfolding nmbm_read_phys_page_def by (intro read_tries_post) (simp_all add: chip_ok_def)

lemma write_tries_post:
  assumes "write_page (lower ni) \<noteq> None" and "room (writesize (lower ni)) data" and "room (oobsize (lower ni)) oob"
  shows "post (write_tries n ni addr data oob mode) (\<lambda>(r, ni'). arg_le ni ni')"
  using assms
proof (induction n arbitrary: ni)
  case 0
  then show ?case by simp
next
  case (Suc n)
  obtain f where f: "write_page (lower ni) = Some f" using Suc.prems(1) by blast
  obtain r a' where c: "f (arg ni) addr data oob mode = (r, a')"
    by (cases "f (arg ni) addr data oob mode")
  obtain b where b: "nmbm_reset_chip (ni\<lparr>arg := a'\<rparr>) = ni\<lparr>arg := b\<rparr>"
    by (rule exE [OF nmbm_reset_chip_arg])
  have "post (write_tries n (ni\<lparr>arg := b\<rparr>) addr data oob mode) (\<lambda>(r, ni'). arg_le (ni\<lparr>arg := b\<rparr>) ni')"
    using Suc.prems by (intro Suc.IH) simp_all
  then show ?case using f c b Suc.prems by (simp add: Let_def)
qed

lemma nmbm_write_phys_page_post:
  assumes "chip_ok ni" and "room (writesize (lower ni)) data" and "room (oobsize (lower ni)) oob"
  shows "post (nmbm_write_phys_page ni addr data oob mode) (\<lambda>(r, ni'). arg_le ni ni')"
  using assms write_tries_post [of ni data oob]
  by (auto simp: nmbm_write_phys_page_def chip_ok_def driver_ok_def)

lemma erase_tries_post:
  "erase_block (lower ni) \<noteq> None \<Longrightarrow> post (erase_tries n ni addr) (\<lambda>(r, ni'). arg_le ni ni')"
proof (induction n arbitrary: ni)
  case 0
  then show ?case by simp
next
  case (Suc n)
  obtain f where f: "erase_block (lower ni) = Some f" using Suc.prems(1) by blast
  obtain r a' where c: "f (arg ni) addr = (r, a')" by (cases "f (arg ni) addr")
  obtain b where b: "nmbm_reset_chip (ni\<lparr>arg := a'\<rparr>) = ni\<lparr>arg := b\<rparr>"
    by (rule exE [OF nmbm_reset_chip_arg])
  have "post (erase_tries n (ni\<lparr>arg := b\<rparr>) addr) (\<lambda>(r, ni'). arg_le (ni\<lparr>arg := b\<rparr>) ni')"
    using Suc.prems by (intro Suc.IH) simp_all
  then show ?case using f c b by (simp add: Let_def)
qed

lemma nmbm_erase_phys_block_post:
  "chip_ok ni \<Longrightarrow> post (nmbm_erase_phys_block ni addr) (\<lambda>(r, ni'). arg_le ni ni')"
  using erase_tries_post [of ni]
  by (auto simp: nmbm_erase_phys_block_def chip_ok_def driver_ok_def)

lemma chip_ok_upd [simp]:
  "chip_ok (ni\<lparr>arg := a\<rparr>) = chip_ok ni"
  "chip_ok (ni\<lparr>log_display_level := l\<rparr>) = chip_ok ni"
  "length pc = length (page_cache ni) \<Longrightarrow> chip_ok (ni\<lparr>page_cache := pc\<rparr>) = chip_ok ni"
  by (simp_all add: chip_ok_def)

lemma chip_ok_geometry:
  assumes "chip_ok ni"
  shows "unat (writesize (lower ni)) = 2 ^ unat (writesize_shift ni)"
    and "unat (erasesize (lower ni)) = 2 ^ unat (erasesize_shift ni)"
    and "length (page_cache ni) = unat (writesize (lower ni)) + unat (oobsize (lower ni))"
    and "0 < unat (oobsize (lower ni))"
    and "unat (rawpage_size ni) = length (page_cache ni)"
  using assms by (simp_all add: chip_ok_def)

lemma chip_ok_page_pos: "chip_ok ni \<Longrightarrow> 0 < unat (writesize (lower ni))"
  by (simp add: chip_ok_geometry(1))

lemma nmbm_check_bad_phys_block_post:
  assumes "chip_ok ni"
  shows "post (nmbm_check_bad_phys_block ni ba) (\<lambda>(b, ni'). dev_le ni ni')"
proof (cases "is_bad_block (lower ni)")
  case (Some f)
  then show ?thesis
    by (simp add: nmbm_check_bad_phys_block_def Let_def split: prod.split)
next
  case None
  let ?ws = "unat (writesize (lower ni))" and ?oob = "Some (drop (unat (writesize (lower ni))) (page_cache ni))"
  note g = chip_ok_geometry [OF assms]
  have "post (nmbm_read_phys_page ni (ba2addr ni ba) None ?oob NMBM_MODE_RAW)
    (\<lambda>(r, d, ob, ni'). same_shape None d \<and> same_shape ?oob ob \<and> arg_le ni ni')"
    using assms g by (intro nmbm_read_phys_page_post) (simp_all add: room_def)
  then show ?thesis
    unfolding nmbm_check_bad_phys_block_def Let_def None option.case post_bind
  proof (rule post_mono, clarify)
    fix r d ob ni'
    assume "same_shape ?oob ob" and "arg_le ni ni'"
    then obtain b a where b: "ob = Some b" "length b = length (page_cache ni) - ?ws" "ni' = ni\<lparr>arg := a\<rparr>"
      by (auto simp: same_shape_Some elim: arg_leE)
    let ?n = "ni\<lparr>arg := a, page_cache := take ?ws (page_cache ni) @ b\<rparr>"
    have "dev_le ni ?n"
      using b g by (intro dev_leI) simp
    then show "post (if r < 0 \<and> r \<noteq> - EBADMSG
        then Some (True, ni'\<lparr>page_cache := take ?ws (page_cache ni') @ (case ob of None \<Rightarrow> [] | Some b \<Rightarrow> b)\<rparr>)
        else Option.bind (arr_get (page_cache (ni'\<lparr>page_cache := take ?ws (page_cache ni') @ (case ob of None \<Rightarrow> [] | Some b \<Rightarrow> b)\<rparr>)) ?ws)
          (\<lambda>b. Some (b \<noteq> 255, ni'\<lparr>page_cache := take ?ws (page_cache ni') @ (case ob of None \<Rightarrow> [] | Some b \<Rightarrow> b)\<rparr>)))
        (\<lambda>(b, ni'). dev_le ni ni')"
      using b g by simp
  qed
qed

lemma mark_bad_pages_post:
  assumes "chip_ok ni"
  shows "post (mark_bad_pages ni addr off) (\<lambda>ni'. arg_le ni ni')"
  using assms
proof (induction "unat (erasesize (lower ni)) - unat off" arbitrary: ni off rule: less_induct)
  case less
  note g = chip_ok_geometry [OF less.prems]
  show ?case
  proof (cases "off < erasesize (lower ni)")
    case False
    then show ?thesis by (subst mark_bad_pages.simps) simp
  next
    case True
    let ?w = "nmbm_write_phys_page ni (addr + ucast off) (Some (page_cache ni))
          (Some (drop (unat (writesize (lower ni))) (page_cache ni))) NMBM_MODE_RAW"
    have "post ?w (\<lambda>(r, ni'). arg_le ni ni')"
      using less.prems g by (intro nmbm_write_phys_page_post) (simp_all add: room_def)
    moreover have "post (mark_bad_pages ni' addr (off + writesize (lower ni'))) (\<lambda>ni''. arg_le ni ni'')"
      if le: "arg_le ni ni'" for ni'
    proof -
      obtain a where a: "ni' = ni\<lparr>arg := a\<rparr>" using le by (rule arg_leE)
      have "unat (off + writesize (lower ni)) = unat off + unat (writesize (lower ni))"
        using True g(2) g(1) by (rule page_step)
      then have "unat (erasesize (lower ni)) - unat (off + writesize (lower ni)) < unat (erasesize (lower ni)) - unat off"
        using True [unfolded word_less_nat_alt] chip_ok_page_pos [OF less.prems] by linarith
      then have "post (mark_bad_pages (ni\<lparr>arg := a\<rparr>) addr (off + writesize (lower ni))) (\<lambda>ni''. arg_le (ni\<lparr>arg := a\<rparr>) ni'')"
        using less.prems by (intro less.hyps) simp_all
      then show ?thesis by (simp add: a)
    qed
    ultimately show ?thesis
      using True by (subst mark_bad_pages.simps) (auto elim: post_mono)
  qed
qed

lemma nmbm_mark_phys_bad_block_post:
  assumes "chip_ok ni"
  shows "post (nmbm_mark_phys_bad_block ni ba) (\<lambda>(r, ni'). dev_le ni ni')"
proof (cases "read_only (lower ni) \<or> mark_bad_block (lower ni) \<noteq> None")
  case True
  then show ?thesis
    by (auto simp: nmbm_mark_phys_bad_block_def Let_def split: option.split prod.split)
next
  case False
  let ?pc = "replicate (unat (rawpage_size ni)) 0"
  let ?n = "ni\<lparr>page_cache := ?pc, log_display_level := NMBM_LOG_MAX\<rparr>"
  note g = chip_ok_geometry [OF assms]
  have "post (mark_bad_pages ?n (ba2addr ni ba) 0) (\<lambda>ni'. arg_le ?n ni')"
    using assms g by (intro mark_bad_pages_post) simp
  moreover have "dev_le ni (ni'\<lparr>log_display_level := log_display_level ni\<rparr>)" if le: "arg_le ?n ni'" for ni'
  proof -
    obtain a where "ni' = ?n\<lparr>arg := a\<rparr>" using le by (rule arg_leE)
    then have "ni'\<lparr>log_display_level := log_display_level ni\<rparr> = ni\<lparr>arg := a, page_cache := ?pc\<rparr>" by simp
    then show ?thesis using g(5) by (simp only:) (rule dev_leI, simp)
  qed
  ultimately show ?thesis
    using False g by (auto simp: nmbm_mark_phys_bad_block_def Let_def elim: post_mono)
qed

end
