(* ===== verification/Nmbm_State.thy ===== *)
theory Nmbm_State
  imports Nmbm_Chip
begin

text \<open>
  The parts of \<open>nmbm-core.c\<close> that keep NMBM's bookkeeping in memory: checksums of the
  on-flash structures, the block state table (a bitmap with two bits per block), the walk
  over good blocks, the bad-block scan and the initial block mapping table.
\<close>

section \<open>Checksums\<close>

function nmbm_crc32 :: "(u32 \<Rightarrow> u8 list \<Rightarrow> u32) \<Rightarrow> u32 \<Rightarrow> u8 list \<Rightarrow> u32" where
  "nmbm_crc32 crc32_le crcval buf =
     (if buf = [] then crcval
      else (let chksz = (if length buf > 0xffffffff then 0xffffffff else length buf) in
            nmbm_crc32 crc32_le (crc32_le crcval (take chksz buf)) (drop chksz buf)))"
  by pat_completeness auto
termination
  by (relation "measure (\<lambda>(_, _, buf). length buf)") auto

declare nmbm_crc32.simps [simp del]

definition nmbm_check_header :: "(u32 \<Rightarrow> u8 list \<Rightarrow> u32) \<Rightarrow> u8 list \<Rightarrow> u32 \<Rightarrow> bool option" where
  "nmbm_check_header crc32_le data sz = do {
     hb \<leftarrow> mem_get data 0 sizeof_header;
     let header = header_of_bytes hb;
     if hsize header > sz then Some False
     else do {
       let nhdr = header\<lparr>checksum := 0\<rparr>;
       let c = nmbm_crc32 crc32_le 0 (header_bytes nhdr);
       new_checksum \<leftarrow>
         (if hsize header > 16 then do {
            rest \<leftarrow> mem_get data sizeof_header (unat (hsize header - 16));
            Some (nmbm_crc32 crc32_le c rest)
          } else Some c);
       Some (checksum header = new_checksum)
     }
   }"

definition nmbm_update_checksum :: "(u32 \<Rightarrow> u8 list \<Rightarrow> u32) \<Rightarrow> u8 list \<Rightarrow> u8 list option" where
  "nmbm_update_checksum crc32_le data = do {
     hb \<leftarrow> mem_get data 0 sizeof_header;
     data \<leftarrow> wr32 data 12 0;
     whole \<leftarrow> mem_get data 0 (unat (hsize (header_of_bytes hb)));
     wr32 data 12 (nmbm_crc32 crc32_le 0 whole)
   }"

definition nmbm_get_spare_block_count :: "u32 \<Rightarrow> u32" where
  "nmbm_get_spare_block_count cnt =
     (let val = (cnt + NMBM_SPARE_BLOCK_DIV div 2) div NMBM_SPARE_BLOCK_DIV;
          val = val * NMBM_SPARE_BLOCK_MULTI in
      if val < NMBM_SPARE_BLOCK_MIN then NMBM_SPARE_BLOCK_MIN else val)"

section \<open>The block state table\<close>

definition nmbm_get_block_state_raw :: "u32 list \<Rightarrow> u32 \<Rightarrow> u32 option" where
  "nmbm_get_block_state_raw bs ba =
     (let unit = ba div NMBM_BITMAP_BLOCKS_PER_UNIT;
          shift = (ba mod NMBM_BITMAP_BLOCKS_PER_UNIT) * NMBM_BITMAP_BITS_PER_BLOCK in do {
        uv \<leftarrow> arr_get bs (unat unit);
        Some (drop_bit (unat shift) uv AND BLOCK_ST_MASK)
      })"

definition nmbm_get_block_state :: "'c nmbm_instance \<Rightarrow> u32 \<Rightarrow> u32 option" where
  "nmbm_get_block_state ni ba = nmbm_get_block_state_raw (block_state ni) ba"

definition nmbm_set_block_state ::
    "'c nmbm_instance \<Rightarrow> u32 \<Rightarrow> u32 \<Rightarrow> (bool \<times> 'c nmbm_instance) option" where
  "nmbm_set_block_state ni ba state =
     (let unit = ba div NMBM_BITMAP_BLOCKS_PER_UNIT;
          shift = (ba mod NMBM_BITMAP_BLOCKS_PER_UNIT) * NMBM_BITMAP_BITS_PER_BLOCK in do {
        old \<leftarrow> arr_get (block_state ni) (unat unit);
        let orig = drop_bit (unat shift) old AND BLOCK_ST_MASK;
        let state = state AND BLOCK_ST_MASK;
        let uv = old AND NOT (push_bit (unat shift) BLOCK_ST_MASK);
        let uv = uv OR push_bit (unat shift) state;
        bs \<leftarrow> arr_set (block_state ni) (unat unit) uv;
        let ni = ni\<lparr>block_state := bs\<rparr>;
        if orig \<noteq> state then Some (True, ni\<lparr>block_state_changed := block_state_changed ni + 1\<rparr>)
        else Some (False, ni)
      })"

section \<open>Walking over good blocks\<close>

text \<open>\<open>None\<close> inside the result is the C function's \<open>false\<close>: the out-parameter stays unset.\<close>

function walk_asc_loop :: "'c nmbm_instance \<Rightarrow> u32 \<Rightarrow> u32 \<Rightarrow> u32 \<Rightarrow> u32 option option" where
  "walk_asc_loop ni ba nblock limit =
     (if ba < limit then do {
        st \<leftarrow> nmbm_get_block_state ni ba;
        let nblock = (if st = BLOCK_ST_GOOD then nblock - 1 else nblock);
        if nblock <s 0 then Some (Some ba)
        else walk_asc_loop ni (ba + 1) nblock limit
      } else Some None)"
  by pat_completeness auto
termination
  by (relation "measure (\<lambda>(ni, ba, nblock, limit). unat limit - unat ba)")
    (auto intro: unat_inc_measure)

definition nmbm_block_walk_asc :: "'c nmbm_instance \<Rightarrow> u32 \<Rightarrow> u32 \<Rightarrow> u32 \<Rightarrow> u32 option option" where
  "nmbm_block_walk_asc ni ba count limit =
     walk_asc_loop ni ba count (if limit \<ge> block_count ni then block_count ni - 1 else limit)"

function walk_desc_loop :: "'c nmbm_instance \<Rightarrow> u32 \<Rightarrow> u32 \<Rightarrow> u32 \<Rightarrow> u32 option option" where
  "walk_desc_loop ni ba nblock limit =
     (if ba > limit then do {
        st \<leftarrow> nmbm_get_block_state ni ba;
        let nblock = (if st = BLOCK_ST_GOOD then nblock - 1 else nblock);
        if nblock <s 0 then Some (Some ba)
        else walk_desc_loop ni (ba - 1) nblock limit
      } else Some None)"
  by pat_completeness auto
termination
  by (relation "measure (\<lambda>(ni, ba, nblock, limit). unat ba)") (auto intro: unat_dec_measure)

declare walk_asc_loop.simps [simp del] walk_desc_loop.simps [simp del]

definition nmbm_block_walk_desc :: "'c nmbm_instance \<Rightarrow> u32 \<Rightarrow> u32 \<Rightarrow> u32 \<Rightarrow> u32 option option" where
  "nmbm_block_walk_desc ni ba count limit =
     walk_desc_loop ni ba count (if limit \<ge> block_count ni then block_count ni - 1 else limit)"

definition nmbm_block_walk :: "'c nmbm_instance \<Rightarrow> bool \<Rightarrow> u32 \<Rightarrow> u32 \<Rightarrow> u32 \<Rightarrow> u32 option option" where
  "nmbm_block_walk ni ascending ba count limit =
     (if ascending then nmbm_block_walk_asc ni ba count limit
      else nmbm_block_walk_desc ni ba count limit)"

section \<open>Scanning and mapping\<close>

partial_function (option) scan_loop :: "'c nmbm_instance \<Rightarrow> u32 \<Rightarrow> 'c nmbm_instance option" where
  "scan_loop ni ba =
     (if ba < block_count ni then do {
        (bad, ni) \<leftarrow> nmbm_check_bad_phys_block ni ba;
        (_, ni) \<leftarrow> (if bad then nmbm_set_block_state ni ba BLOCK_ST_BAD else Some (False, ni));
        scan_loop ni (ba + 1)
      } else Some ni)"

definition nmbm_scan_badblocks :: "'c nmbm_instance \<Rightarrow> 'c nmbm_instance option" where
  "nmbm_scan_badblocks ni = scan_loop ni 0"

partial_function (option) build_loop ::
    "'c nmbm_instance \<Rightarrow> u32 \<Rightarrow> u32 \<Rightarrow> (u32 \<times> 'c nmbm_instance) option" where
  "build_loop ni pb lb =
     (if pb < mgmt_start_ba ni then do {
        st \<leftarrow> nmbm_get_block_state ni pb;
        if st = BLOCK_ST_BAD then build_loop ni (pb + 1) lb
        else do {
          m \<leftarrow> arr_set (block_mapping ni) (unat lb) pb;
          build_loop (ni\<lparr>block_mapping := m\<rparr>) (pb + 1) (lb + 1)
        }
      } else Some (lb, ni))"

partial_function (option) unmap_loop :: "'c nmbm_instance \<Rightarrow> u32 \<Rightarrow> 'c nmbm_instance option" where
  "unmap_loop ni pb =
     (if pb < block_count ni then do {
        m \<leftarrow> arr_set (block_mapping ni) (unat pb) (- 1);
        unmap_loop (ni\<lparr>block_mapping := m\<rparr>) (pb + 1)
      } else Some ni)"

definition nmbm_build_mapping_table :: "'c nmbm_instance \<Rightarrow> 'c nmbm_instance option" where
  "nmbm_build_mapping_table ni = do {
     (lb, ni) \<leftarrow> build_loop ni 0 0;
     unmap_loop (ni\<lparr>data_block_count := lb\<rparr>) lb
   }"

declare scan_loop.simps [code] build_loop.simps [code] unmap_loop.simps [code]

section \<open>Laws of the block state table\<close>

text \<open>\<open>st_of bs ba\<close> is the state recorded for block \<open>ba\<close>; \<open>in_table bs ba\<close> says that the
  table has an entry for it.\<close>

definition in_table :: "u32 list \<Rightarrow> u32 \<Rightarrow> bool" where
  "in_table bs ba \<longleftrightarrow> unat ba div 16 < length bs"

definition st_of :: "u32 list \<Rightarrow> u32 \<Rightarrow> u32" where
  "st_of bs ba = drop_bit (2 * (unat ba mod 16)) (bs ! (unat ba div 16)) AND 3"

lemma unit_index [simp]: "unat (ba div 16 :: u32) = unat ba div 16"
  by (simp add: unat_div_distrib)

lemma unit_shift [simp]: "unat (ba mod 16 * 2 :: u32) = 2 * (unat ba mod 16)"
proof -
  have "unat (ba mod 16) = unat ba mod 16" by (simp add: unat_mod_distrib)
  moreover have "unat ba mod 16 < 16" by simp
  ultimately show ?thesis by (simp add: unat_word_ariths)
qed

lemma bit_3 [simp]: "bit (3::int) n \<longleftrightarrow> n < 2"
proof -
  have "(3::int) = mask 2" by (simp add: mask_eq_exp_minus_1)
  then show ?thesis by (simp only: bit_mask_iff) simp
qed

lemma field_same:
  fixes x v :: u32
  assumes "s + 2 \<le> 32"
  shows "drop_bit s (x AND NOT (push_bit s 3) OR push_bit s (v AND 3)) AND 3 = v AND 3"
  by (rule bit_word_eqI) (use assms in \<open>auto simp: bit_simps\<close>)

lemma field_other:
  fixes x v :: u32
  assumes "s + 2 \<le> t \<or> t + 2 \<le> s"
  shows "drop_bit t (x AND NOT (push_bit s 3) OR push_bit s (v AND 3)) AND 3 = drop_bit t x AND 3"
  by (rule bit_word_eqI) (use assms in \<open>auto simp: bit_simps dest: bit_imp_le_length\<close>)

lemma st_of_le: "st_of bs ba \<le> 3"
  unfolding st_of_def by (rule word_and_le1)

lemma get_state_raw [simp]:
  "nmbm_get_block_state_raw bs ba = (if in_table bs ba then Some (st_of bs ba) else None)"
  by (simp add: nmbm_get_block_state_raw_def arr_get_def in_table_def st_of_def)

lemma get_state [simp]:
  "nmbm_get_block_state ni ba = (if in_table (block_state ni) ba then Some (st_of (block_state ni) ba) else None)"
  by (simp add: nmbm_get_block_state_def)

definition put_state :: "u32 list \<Rightarrow> u32 \<Rightarrow> u32 \<Rightarrow> u32 list" where
  "put_state bs ba v = bs[unat ba div 16 :=
     bs ! (unat ba div 16) AND NOT (push_bit (2 * (unat ba mod 16)) 3) OR push_bit (2 * (unat ba mod 16)) (v AND 3)]"

lemma length_put_state [simp]: "length (put_state bs ba v) = length bs"
  by (simp add: put_state_def)

lemma in_table_put_state [simp]: "in_table (put_state bs ba v) b = in_table bs b"
  by (simp add: in_table_def)

lemma st_of_put_same [simp]: "in_table bs ba \<Longrightarrow> st_of (put_state bs ba v) ba = v AND 3"
  unfolding put_state_def st_of_def in_table_def
  by (simp only: nth_list_update_eq) (rule field_same, auto)

lemma st_of_put_other [simp]:
  assumes "b \<noteq> ba"
  shows "st_of (put_state bs ba v) b = st_of bs b"
proof (cases "unat b div 16 = unat ba div 16")
  case True
  have "unat b \<noteq> unat ba" using assms word_unat_eq_iff by blast
  with True have "unat b mod 16 \<noteq> unat ba mod 16" by (metis div_mult_mod_eq)
  then have "2 * (unat ba mod 16) + 2 \<le> 2 * (unat b mod 16) \<or> 2 * (unat b mod 16) + 2 \<le> 2 * (unat ba mod 16)"
    by auto
  then show ?thesis
    unfolding put_state_def st_of_def True
    by (cases "unat ba div 16 < length bs")
      (simp_all only: nth_list_update_eq list_update_beyond not_less field_other simp_thms)
qed (simp add: put_state_def st_of_def)

lemma set_state:
  "nmbm_set_block_state ni ba v =
     (if in_table (block_state ni) ba
      then if st_of (block_state ni) ba \<noteq> v AND 3
           then Some (True, ni\<lparr>block_state := put_state (block_state ni) ba v,
                               block_state_changed := block_state_changed ni + 1\<rparr>)
           else Some (False, ni\<lparr>block_state := put_state (block_state ni) ba v\<rparr>)
      else None)"
  by (simp add: nmbm_set_block_state_def Let_def arr_get_def arr_set_def in_table_def st_of_def put_state_def)

text \<open>What the operations of NMBM rely on in the state table, as an interface.\<close>

locale state_table =
  fixes get :: "'t \<Rightarrow> u32 \<Rightarrow> u32 option"
    and set :: "'t \<Rightarrow> u32 \<Rightarrow> u32 \<Rightarrow> (bool \<times> 't) option"
    and entry :: "'t \<Rightarrow> u32 \<Rightarrow> bool"
  assumes get_entry: "entry t b \<Longrightarrow> \<exists>v. get t b = Some v"
    and set_entry: "entry t b \<Longrightarrow> \<exists>c t'. set t b v = Some (c, t')"
    and get_set_same: "set t b v = Some (c, t') \<Longrightarrow> get t' b = Some (v AND 3)"
    and get_set_other: "set t b v = Some (c, t') \<Longrightarrow> b' \<noteq> b \<Longrightarrow> get t' b' = get t b'"
    and set_changed: "set t b v = Some (c, t') \<Longrightarrow> c \<longleftrightarrow> get t b \<noteq> Some (v AND 3)"
    and entry_set: "set t b v = Some (c, t') \<Longrightarrow> entry t' b' = entry t b'"
begin

lemma set_twice:
  "set t b v = Some (c, t') \<Longrightarrow> set t' b v = Some (c', t'') \<Longrightarrow> \<not> c' \<and> get t'' b' = get t' b'"
  by (metis get_set_other get_set_same set_changed)

lemma set_overwrite:
  "set t b v = Some (c, t') \<Longrightarrow> set t' b w = Some (c', t'') \<Longrightarrow> set t b w = Some (c'', u) \<Longrightarrow>
   get t'' b' = get u b'"
  by (metis get_set_other get_set_same)

lemma set_commute:
  assumes "a \<noteq> b" and "set t a v = Some (c1, t1)" and "set t1 b w = Some (c2, t2)"
    and "set t b w = Some (c3, t3)" and "set t3 a v = Some (c4, t4)"
  shows "get t2 b' = get t4 b'"
  using assms by (metis get_set_other get_set_same)

end

interpretation block_states: state_table nmbm_get_block_state nmbm_set_block_state
    "\<lambda>ni. in_table (block_state ni)"
  by unfold_locales (auto simp: set_state split: if_splits)

section \<open>What the walks return\<close>

abbreviation (input) good :: "u32 list \<Rightarrow> u32 \<Rightarrow> bool" where
  "good bs b \<equiv> st_of bs b = BLOCK_ST_GOOD"

definition goods :: "u32 list \<Rightarrow> u32 \<Rightarrow> u32 \<Rightarrow> nat" where
  "goods bs i j = card {b. i \<le> b \<and> b < j \<and> good bs b}"

lemma goods_empty [simp]: "\<not> i < j \<Longrightarrow> goods bs i j = 0"
  by (auto simp: goods_def)

lemma goods_low: "i < j \<Longrightarrow> goods bs i j = (if good bs i then 1 else 0) + goods bs (i + 1) j"
proof -
  assume a: "i < j"
  let ?R = "{b. i + 1 \<le> b \<and> b < j \<and> good bs b}"
  have "{b. i \<le> b \<and> b < j \<and> good bs b} = (if good bs i then insert i ?R else ?R)"
    using a upto_insert [OF a] by auto
  moreover have "\<not> i + 1 \<le> i" using a by (auto simp: inc_less_eq_iff)
  ultimately show ?thesis by (simp add: goods_def)
qed

lemma dec_range: "(i::u32) < j \<Longrightarrow> b < j \<longleftrightarrow> b = j - 1 \<or> b < j - 1"
  by (auto simp: word_less_nat_alt unat_dec word_unat_eq_iff)

lemma goods_high: "i < j \<Longrightarrow> goods bs i j = goods bs i (j - 1) + (if good bs (j - 1) then 1 else 0)"
proof -
  assume a: "i < j"
  let ?R = "{b. i \<le> b \<and> b < j - 1 \<and> good bs b}"
  have "i \<le> j - 1" using a by (simp add: word_le_nat_alt word_less_nat_alt unat_dec)
  then have "{b. i \<le> b \<and> b < j \<and> good bs b} = (if good bs (j - 1) then insert (j - 1) ?R else ?R)"
    using dec_range [OF a] by auto
  then show ?thesis by (simp add: goods_def)
qed

lemma nblock_step:
  fixes n :: u32
  assumes "unat n < 2 ^ 31"
  shows "\<not> n <s 0" and "n - 1 <s 0 \<longleftrightarrow> unat n = 0" and "unat n \<noteq> 0 \<Longrightarrow> unat (n - 1) = unat n - 1"
proof -
  show "\<not> n <s 0" using assms by (simp add: sless0)
  show m: "unat (n - 1) = unat n - 1" if "unat n \<noteq> 0"
    using that by (intro unat_minus_one) auto
  show "n - 1 <s 0 \<longleftrightarrow> unat n = 0"
  proof (cases "unat n = 0")
    case True
    then have "n = 0" by (simp add: unat_eq_zero)
    then show ?thesis by simp
  next
    case False
    then show ?thesis using m assms by (simp add: sless0)
  qed
qed

lemma walk_asc_loop_post:
  assumes "unat nblock < 2 ^ 31" and "\<And>b. ba \<le> b \<Longrightarrow> b < limit \<Longrightarrow> in_table (block_state ni) b"
  shows "post (walk_asc_loop ni ba nblock limit)
    (\<lambda>r. case r of
        Some x \<Rightarrow> ba \<le> x \<and> x < limit \<and> good (block_state ni) x \<and> goods (block_state ni) ba x = unat nblock
      | None \<Rightarrow> goods (block_state ni) ba limit \<le> unat nblock)"
  using assms
proof (induction ni ba nblock limit rule: walk_asc_loop.induct)
  case (1 ni ba nblock limit)
  let ?bs = "block_state ni"
  note n = nblock_step [OF "1.prems"(1)]
  show ?case
  proof (cases "ba < limit")
    case False
    then show ?thesis by (subst walk_asc_loop.simps) simp
  next
    case lt: True
    let ?n = "if good ?bs ba then nblock - 1 else nblock"
    have t: "in_table ?bs ba" using "1.prems"(2) lt by simp
    have eq: "walk_asc_loop ni ba nblock limit =
        (if ?n <s 0 then Some (Some ba) else walk_asc_loop ni (ba + 1) ?n limit)"
      using lt t by (subst walk_asc_loop.simps) simp
    show ?thesis
    proof (cases "?n <s 0")
      case True
      then have "good ?bs ba" "unat nblock = 0" using n by (auto split: if_splits)
      then show ?thesis using True lt by (simp add: eq)
    next
      case False
      then have u: "unat nblock = unat ?n + (if good ?bs ba then 1 else 0)"
        using n by (auto split: if_splits)
      have "post (walk_asc_loop ni (ba + 1) ?n limit)
        (\<lambda>r. case r of
          Some x \<Rightarrow> ba + 1 \<le> x \<and> x < limit \<and> good ?bs x \<and> goods ?bs (ba + 1) x = unat ?n
        | None \<Rightarrow> goods ?bs (ba + 1) limit \<le> unat ?n)"
        using lt t False "1.prems" u upto_insert [OF lt]
        by (intro "1.IH" [OF _ _ refl, of "st_of ?bs ba"]) (auto split: if_splits)
      then show ?thesis
        unfolding eq if_not_P [OF False]
      proof (rule post_mono)
        fix r
        assume "case r of
            Some x \<Rightarrow> ba + 1 \<le> x \<and> x < limit \<and> good ?bs x \<and> goods ?bs (ba + 1) x = unat ?n
          | None \<Rightarrow> goods ?bs (ba + 1) limit \<le> unat ?n"
        moreover have "ba < x" if "ba + 1 \<le> x" "x < limit" for x
          using that lt by (auto simp: inc_less_eq_iff)
        ultimately show "case r of
            Some x \<Rightarrow> ba \<le> x \<and> x < limit \<and> good ?bs x \<and> goods ?bs ba x = unat nblock
          | None \<Rightarrow> goods ?bs ba limit \<le> unat nblock"
          using u lt goods_low [of ba limit ?bs] goods_low [of ba "the r" ?bs]
          by (cases r) (auto intro: less_imp_le)
      qed
    qed
  qed
qed

definition goods_below :: "u32 list \<Rightarrow> u32 \<Rightarrow> u32 \<Rightarrow> nat" where
  "goods_below bs i j = card {b. i < b \<and> b \<le> j \<and> good bs b}"

lemma goods_below_step:
  assumes "i < j"
  shows "goods_below bs i j = goods_below bs i (j - 1) + (if good bs j then 1 else 0)"
proof -
  let ?R = "{b. i < b \<and> b \<le> j - 1 \<and> good bs b}"
  have r: "b \<le> j \<longleftrightarrow> b = j \<or> b \<le> j - 1" for b
    using assms by (auto simp: word_le_nat_alt word_less_nat_alt unat_dec word_unat_eq_iff)
  then have "{b. i < b \<and> b \<le> j \<and> good bs b} = (if good bs j then insert j ?R else ?R)"
    using assms by auto
  moreover have "\<not> j \<le> j - 1"
    using assms by (simp add: word_le_nat_alt word_less_nat_alt unat_dec)
  ultimately show ?thesis by (simp add: goods_below_def)
qed

lemma walk_desc_loop_post:
  assumes "unat nblock < 2 ^ 31" and "\<And>b. limit < b \<Longrightarrow> b \<le> ba \<Longrightarrow> in_table (block_state ni) b"
  shows "post (walk_desc_loop ni ba nblock limit)
    (\<lambda>r. case r of
        Some x \<Rightarrow> limit < x \<and> x \<le> ba \<and> good (block_state ni) x \<and> goods_below (block_state ni) x ba = unat nblock
      | None \<Rightarrow> goods_below (block_state ni) limit ba \<le> unat nblock)"
  using assms
proof (induction ni ba nblock limit rule: walk_desc_loop.induct)
  case (1 ni ba nblock limit)
  let ?bs = "block_state ni"
  note n = nblock_step [OF "1.prems"(1)]
  show ?case
  proof (cases "limit < ba")
    case False
    then have "goods_below ?bs limit ba = 0" by (auto simp: goods_below_def)
    then show ?thesis using False by (subst walk_desc_loop.simps) simp
  next
    case lt: True
    let ?n = "if good ?bs ba then nblock - 1 else nblock"
    have t: "in_table ?bs ba" using "1.prems"(2) lt by simp
    have eq: "walk_desc_loop ni ba nblock limit =
        (if ?n <s 0 then Some (Some ba) else walk_desc_loop ni (ba - 1) ?n limit)"
      using lt t by (subst walk_desc_loop.simps) simp
    have down: "b \<le> ba - 1 \<Longrightarrow> b < ba" for b
      using lt by (auto simp: word_le_nat_alt word_less_nat_alt unat_dec)
    show ?thesis
    proof (cases "?n <s 0")
      case True
      then have "good ?bs ba" "unat nblock = 0" using n by (auto split: if_splits)
      moreover have "goods_below ?bs ba ba = 0" by (auto simp: goods_below_def)
      ultimately show ?thesis using True lt by (simp add: eq)
    next
      case False
      then have u: "unat nblock = unat ?n + (if good ?bs ba then 1 else 0)"
        using n by (auto split: if_splits)
      have "post (walk_desc_loop ni (ba - 1) ?n limit)
        (\<lambda>r. case r of
          Some x \<Rightarrow> limit < x \<and> x \<le> ba - 1 \<and> good ?bs x \<and> goods_below ?bs x (ba - 1) = unat ?n
        | None \<Rightarrow> goods_below ?bs limit (ba - 1) \<le> unat ?n)"
        using lt t False u "1.prems"(1)
        by (intro "1.IH" [OF _ _ refl, of "st_of ?bs ba"] "1.prems"(2))
          (auto split: if_splits intro: less_imp_le [OF down])
      then show ?thesis
        unfolding eq if_not_P [OF False]
      proof (rule post_mono)
        fix r
        assume "case r of
            Some x \<Rightarrow> limit < x \<and> x \<le> ba - 1 \<and> good ?bs x \<and> goods_below ?bs x (ba - 1) = unat ?n
          | None \<Rightarrow> goods_below ?bs limit (ba - 1) \<le> unat ?n"
        then show "case r of
            Some x \<Rightarrow> limit < x \<and> x \<le> ba \<and> good ?bs x \<and> goods_below ?bs x ba = unat nblock
          | None \<Rightarrow> goods_below ?bs limit ba \<le> unat nblock"
          using u lt down [of "the r"] goods_below_step [of limit ba ?bs] goods_below_step [of "the r" ba ?bs]
          by (cases r) auto
      qed
    qed
  qed
qed


section \<open>The table only wears out\<close>

text \<open>\<open>nonbad\<close> counts the blocks that are not recorded bad.  \<open>wear ni ni'\<close> says that from
  \<open>ni\<close> to \<open>ni'\<close> only the device, the page cache and the block state table changed, that a
  block state only changed to bad, and that \<open>block_state_changed\<close> counts the changes.\<close>

definition nonbad :: "u32 \<Rightarrow> u32 list \<Rightarrow> nat" where
  "nonbad cnt bs = card {b. b < cnt \<and> st_of bs b \<noteq> BLOCK_ST_BAD}"

definition wears :: "u32 \<Rightarrow> u32 list \<Rightarrow> u32 list \<Rightarrow> bool" where
  "wears cnt bs bs' \<longleftrightarrow> length bs' = length bs \<and>
     (\<forall>b. st_of bs' b = st_of bs b \<or> b < cnt \<and> st_of bs' b = BLOCK_ST_BAD)"

definition wear :: "'c nmbm_instance \<Rightarrow> 'c nmbm_instance \<Rightarrow> bool" where
  "wear ni ni' \<longleftrightarrow> (\<exists>a pc bs n.
     ni' = ni\<lparr>arg := a, page_cache := pc, block_state := bs,
              block_state_changed := block_state_changed ni + of_nat n\<rparr> \<and>
     length pc = length (page_cache ni) \<and>
     wears (block_count ni) (block_state ni) bs \<and>
     nonbad (block_count ni) bs + n = nonbad (block_count ni) (block_state ni))"

definition state_ok :: "'c nmbm_instance \<Rightarrow> bool" where
  "state_ok ni \<longleftrightarrow> chip_ok ni \<and> unat (block_count ni) \<le> 16 * length (block_state ni)"

lemma wearI:
  "length pc = length (page_cache ni) \<Longrightarrow> wears (block_count ni) (block_state ni) bs \<Longrightarrow>
   nonbad (block_count ni) bs + n = nonbad (block_count ni) (block_state ni) \<Longrightarrow>
   wear ni (ni\<lparr>arg := a, page_cache := pc, block_state := bs,
     block_state_changed := block_state_changed ni + of_nat n\<rparr>)"
  unfolding wear_def by (intro exI conjI) (rule refl)

lemma wearE:
  assumes "wear ni ni'"
  obtains a pc bs n where
    "ni' = ni\<lparr>arg := a, page_cache := pc, block_state := bs,
       block_state_changed := block_state_changed ni + of_nat n\<rparr>"
    "length pc = length (page_cache ni)" "wears (block_count ni) (block_state ni) bs"
    "nonbad (block_count ni) bs + n = nonbad (block_count ni) (block_state ni)"
  using assms unfolding wear_def by (elim exE conjE)

lemma wears_refl [simp]: "wears cnt bs bs"
  by (simp add: wears_def)

lemma wears_trans: "wears cnt a b \<Longrightarrow> wears cnt b c \<Longrightarrow> wears cnt a c"
  unfolding wears_def by metis

lemma dev_le_wear: "dev_le ni ni' \<Longrightarrow> wear ni ni'"
proof (erule dev_leE)
  fix a pc
  assume "ni' = ni\<lparr>arg := a, page_cache := pc\<rparr>" and l: "length pc = length (page_cache ni)"
  then have "ni' = ni\<lparr>arg := a, page_cache := pc, block_state := block_state ni,
       block_state_changed := block_state_changed ni + of_nat 0\<rparr>" by simp
  then show "wear ni ni'" using l by (simp only:) (rule wearI, simp_all)
qed

lemma wear_refl [simp]: "wear ni ni"
  by (rule dev_le_wear) simp

lemma wear_trans:
  assumes "wear x y" and "wear y z"
  shows "wear x z"
proof -
  obtain a pc bs n where y: "y = x\<lparr>arg := a, page_cache := pc, block_state := bs,
       block_state_changed := block_state_changed x + of_nat n\<rparr>"
    "length pc = length (page_cache x)" "wears (block_count x) (block_state x) bs"
    "nonbad (block_count x) bs + n = nonbad (block_count x) (block_state x)"
    using assms(1) by (rule wearE)
  obtain a' pc' bs' n' where z: "z = y\<lparr>arg := a', page_cache := pc', block_state := bs',
       block_state_changed := block_state_changed y + of_nat n'\<rparr>"
    "length pc' = length (page_cache y)" "wears (block_count y) (block_state y) bs'"
    "nonbad (block_count y) bs' + n' = nonbad (block_count y) (block_state y)"
    using assms(2) by (rule wearE)
  have "z = x\<lparr>arg := a', page_cache := pc', block_state := bs',
       block_state_changed := block_state_changed x + of_nat (n + n')\<rparr>"
    by (simp add: y(1) z(1))
  moreover have "length pc' = length (page_cache x)" using y z(2) by simp
  moreover have "wears (block_count x) (block_state x) bs'" using y(1,3) z(3) by (auto intro: wears_trans)
  moreover have "nonbad (block_count x) bs' + (n + n') = nonbad (block_count x) (block_state x)"
    using y(1,4) z(4) by simp
  ultimately show ?thesis by (simp only:) (rule wearI)
qed

lemma state_ok_chip: "state_ok ni \<Longrightarrow> chip_ok ni"
  by (simp add: state_ok_def)

lemma state_ok_wear: "wear ni ni' \<Longrightarrow> state_ok ni \<Longrightarrow> state_ok ni'"
  by (erule wearE) (simp add: state_ok_def chip_ok_def wears_def)

lemma state_ok_table: "state_ok ni \<Longrightarrow> b < block_count ni \<Longrightarrow> in_table (block_state ni) b"
  by (auto simp: state_ok_def in_table_def word_less_nat_alt)

lemma st_of_put_bad: "in_table bs b \<Longrightarrow> st_of (put_state bs b BLOCK_ST_BAD) x = (if x = b then 0 else st_of bs x)"
  by (cases "x = b") simp_all

lemma nonbad_put_bad:
  assumes "b < cnt" and "in_table bs b"
  shows "nonbad cnt (put_state bs b BLOCK_ST_BAD) + (if st_of bs b \<noteq> BLOCK_ST_BAD then 1 else 0) = nonbad cnt bs"
proof -
  let ?S = "{x. x < cnt \<and> st_of bs x \<noteq> 0}"
  have "{x. x < cnt \<and> st_of (put_state bs b 0) x \<noteq> 0} = ?S - {b}"
    using assms by (auto simp: st_of_put_bad)
  moreover have "card ?S = card (?S - {b}) + (if b \<in> ?S then 1 else 0)"
  proof (cases "b \<in> ?S")
    case True
    then show ?thesis using card.remove [OF finite True] by simp
  next
    case False
    then have "?S - {b} = ?S" by blast
    with False show ?thesis by (simp only: if_False add_0_right)
  qed
  ultimately show ?thesis using assms by (simp add: nonbad_def)
qed

lemma wears_put_bad: "b < cnt \<Longrightarrow> in_table bs b \<Longrightarrow> wears cnt bs (put_state bs b BLOCK_ST_BAD)"
  by (simp add: wears_def st_of_put_bad)

lemma set_bad_post:
  assumes "state_ok ni" and "ba < block_count ni"
  shows "post (nmbm_set_block_state ni ba BLOCK_ST_BAD)
    (\<lambda>(c, ni'). wear ni ni' \<and> st_of (block_state ni') ba = BLOCK_ST_BAD)"
proof -
  have t: "in_table (block_state ni) ba" using assms by (rule state_ok_table)
  let ?n = "if st_of (block_state ni) ba \<noteq> BLOCK_ST_BAD then 1 else 0 :: nat"
  have "wear ni (ni\<lparr>arg := arg ni, page_cache := page_cache ni,
      block_state := put_state (block_state ni) ba BLOCK_ST_BAD,
      block_state_changed := block_state_changed ni + of_nat ?n\<rparr>)"
    using assms t by (intro wearI wears_put_bad nonbad_put_bad) simp_all
  then show ?thesis using t by (auto simp: set_state split: if_splits)
qed

section \<open>Bad-block scan and the initial mapping\<close>

lemma scan_loop_post:
  assumes "state_ok ni"
  shows "post (scan_loop ni ba) (wear ni)"
  using assms
proof (induction "unat (block_count ni) - unat ba" arbitrary: ni ba rule: less_induct)
  case less
  show ?case
  proof (cases "ba < block_count ni")
    case False
    then show ?thesis by (subst scan_loop.simps) simp
  next
    case True
    have step: "post (scan_loop ni2 (ba + 1)) (wear ni)" if w: "wear ni ni2" for ni2
    proof -
      have c: "block_count ni2 = block_count ni" using w by (auto elim: wearE)
      have "post (scan_loop ni2 (ba + 1)) (wear ni2)"
        using True w less.prems unat_inc_measure [OF True] by (intro less.hyps) (simp_all add: c state_ok_wear)
      then show ?thesis using w by (auto elim: post_mono intro: wear_trans)
    qed
    have set: "post (nmbm_set_block_state ni1 ba BLOCK_ST_BAD)
        (\<lambda>x. post (case x of (_, ni2) \<Rightarrow> scan_loop ni2 (ba + 1)) (wear ni))" if w: "wear ni ni1" for ni1
    proof -
      have "block_count ni1 = block_count ni" using w by (auto elim: wearE)
      then have "post (nmbm_set_block_state ni1 ba BLOCK_ST_BAD) (\<lambda>(c, ni2). wear ni1 ni2 \<and> st_of (block_state ni2) ba = BLOCK_ST_BAD)"
        using True w less.prems by (intro set_bad_post) (auto intro: state_ok_wear)
      then show ?thesis using w by (auto elim!: post_mono intro!: step intro: wear_trans)
    qed
    have "post (nmbm_check_bad_phys_block ni ba) (\<lambda>(b, ni1). wear ni ni1)"
      using nmbm_check_bad_phys_block_post [OF state_ok_chip [OF less.prems], of ba]
      by (auto elim!: post_mono intro: dev_le_wear)
    then show ?thesis
      using True step set by (subst scan_loop.simps) (auto elim!: post_mono)
  qed
qed

lemma nmbm_scan_badblocks_post: "state_ok ni \<Longrightarrow> post (nmbm_scan_badblocks ni) (wear ni)"
  by (simp add: nmbm_scan_badblocks_def scan_loop_post)

text \<open>The blocks from \<open>i\<close> to before \<open>j\<close> that are not recorded bad, in ascending order.\<close>

definition nonbad_list :: "u32 list \<Rightarrow> nat \<Rightarrow> nat \<Rightarrow> u32 list" where
  "nonbad_list bs i j = filter (\<lambda>b. st_of bs b \<noteq> BLOCK_ST_BAD) (map of_nat [i..<j])"

lemma nonbad_list_step:
  "i < j \<Longrightarrow> nonbad_list bs i j =
     (if st_of bs (of_nat i) \<noteq> BLOCK_ST_BAD then [of_nat i] else []) @ nonbad_list bs (Suc i) j"
  by (simp add: nonbad_list_def upt_conv_Cons)

lemma nonbad_list_length: "length (nonbad_list bs i j) \<le> j - i"
  unfolding nonbad_list_def by (metis length_filter_le length_map length_upt)

lemma build_loop_post:
  assumes "unat (mgmt_start_ba ni) \<le> 16 * length (block_state ni)"
    and "unat (mgmt_start_ba ni) \<le> length (block_mapping ni)"
    and "unat lb \<le> unat pb" and "unat pb \<le> unat (mgmt_start_ba ni)"
  shows "post (build_loop ni pb lb) (\<lambda>(lb', ni').
     let L = nonbad_list (block_state ni) (unat pb) (unat (mgmt_start_ba ni)) in
     unat lb' = unat lb + length L \<and>
     ni' = ni\<lparr>block_mapping := take (unat lb) (block_mapping ni) @ L @
                drop (unat lb + length L) (block_mapping ni)\<rparr>)"
  using assms
proof (induction "unat (mgmt_start_ba ni) - unat pb" arbitrary: ni pb lb rule: less_induct)
  case less
  show ?case
  proof (cases "pb < mgmt_start_ba ni")
    case False
    then have "nonbad_list (block_state ni) (unat pb) (unat (mgmt_start_ba ni)) = []"
      by (simp add: nonbad_list_def word_less_nat_alt)
    then show ?thesis using False by (subst build_loop.simps) simp
  next
    case True
    let ?m = "unat (mgmt_start_ba ni)" and ?bs = "block_state ni" and ?bm = "block_mapping ni"
    have lt: "unat pb < ?m" using True by (simp add: word_less_nat_alt)
    have t: "in_table ?bs pb" using lt less.prems(1) by (auto simp: in_table_def)
    have i: "unat (pb + 1) = Suc (unat pb)" using True by (rule unat_inc)
    note st = nonbad_list_step [OF lt, of ?bs]
    show ?thesis
    proof (cases "st_of ?bs pb = BLOCK_ST_BAD")
      case bad: True
      have "build_loop ni pb lb = build_loop ni (pb + 1) lb"
        using True t bad by (subst build_loop.simps) simp
      moreover have "post (build_loop ni (pb + 1) lb) (\<lambda>(lb', ni').
        let L = nonbad_list ?bs (unat (pb + 1)) ?m in
         unat lb' = unat lb + length L \<and>
         ni' = ni\<lparr>block_mapping := take (unat lb) ?bm @ L @ drop (unat lb + length L) ?bm\<rparr>)"
        using less.prems lt i unat_inc_measure [OF True] by (intro less.hyps) simp_all
      ultimately show ?thesis using bad st i by simp
    next
      case good: False
      let ?n = "ni\<lparr>block_mapping := ?bm[unat lb := pb]\<rparr>"
      have lbl: "unat lb < length ?bm" using lt less.prems by linarith
      have "lb < mgmt_start_ba ni" using lt less.prems(3) by (simp add: word_less_nat_alt)
      then have j: "unat (lb + 1) = Suc (unat lb)" by (rule unat_inc)
      have "build_loop ni pb lb = build_loop ?n (pb + 1) (lb + 1)"
        using True t good lbl by (subst build_loop.simps) (simp add: arr_set_def)
      moreover have "post (build_loop ?n (pb + 1) (lb + 1)) (\<lambda>(lb', ni').
        let L = nonbad_list (block_state ?n) (unat (pb + 1)) (unat (mgmt_start_ba ?n)) in
         unat lb' = unat (lb + 1) + length L \<and>
         ni' = ?n\<lparr>block_mapping := take (unat (lb + 1)) (block_mapping ?n) @ L @
                    drop (unat (lb + 1) + length L) (block_mapping ?n)\<rparr>)"
        using less.prems lt i j unat_inc_measure [OF True] by (intro less.hyps) simp_all
      moreover have "take (Suc (unat lb)) (?bm[unat lb := pb]) = take (unat lb) ?bm @ [pb]"
        using lbl by (simp add: take_Suc_conv_app_nth)
      ultimately show ?thesis using good st i j by (simp add: Let_def)
    qed
  qed
qed

lemma unmap_loop_post:
  assumes "length (block_mapping ni) = unat (block_count ni)" and "unat pb \<le> unat (block_count ni)"
  shows "unmap_loop ni pb = Some (ni\<lparr>block_mapping :=
     take (unat pb) (block_mapping ni) @ replicate (unat (block_count ni) - unat pb) (- 1)\<rparr>)"
  using assms
proof (induction "unat (block_count ni) - unat pb" arbitrary: ni pb rule: less_induct)
  case less
  let ?bm = "block_mapping ni"
  show ?case
  proof (cases "pb < block_count ni")
    case False
    then have "unat pb = unat (block_count ni)" using less.prems(2) by (simp add: word_less_nat_alt)
    then show ?thesis using False less.prems(1) by (subst unmap_loop.simps) simp
  next
    case True
    have lt: "unat pb < unat (block_count ni)" using True by (simp add: word_less_nat_alt)
    have i: "unat (pb + 1) = Suc (unat pb)" using True by (rule unat_inc)
    let ?n = "ni\<lparr>block_mapping := ?bm[unat pb := - 1]\<rparr>"
    have "unmap_loop ni pb = unmap_loop ?n (pb + 1)"
      using True lt less.prems(1) by (subst unmap_loop.simps) (simp add: arr_set_def)
    also have "\<dots> = Some (?n\<lparr>block_mapping :=
        take (unat (pb + 1)) (block_mapping ?n) @ replicate (unat (block_count ?n) - unat (pb + 1)) (- 1)\<rparr>)"
      using less.prems lt i unat_inc_measure [OF True] by (intro less.hyps) simp_all
    also have "unat (block_count ni) - unat pb = Suc (unat (block_count ni) - Suc (unat pb))"
      using lt by simp
    ultimately show ?thesis
      using i lt less.prems(1) by (simp add: take_Suc_conv_app_nth replicate_app_Cons_same)
  qed
qed

lemma nmbm_build_mapping_table_eq:
  assumes "state_ok ni" and "length (block_mapping ni) = unat (block_count ni)"
    and "mgmt_start_ba ni \<le> block_count ni"
  defines "L \<equiv> nonbad_list (block_state ni) 0 (unat (mgmt_start_ba ni))"
  shows "nmbm_build_mapping_table ni = Some (ni\<lparr>data_block_count := of_nat (length L),
     block_mapping := L @ replicate (unat (block_count ni) - length L) (- 1)\<rparr>)"
proof -
  have m: "unat (mgmt_start_ba ni) \<le> unat (block_count ni)" using assms(3) by (simp add: word_le_nat_alt)
  have "post (build_loop ni 0 0) (\<lambda>(lb', ni').
     let L = nonbad_list (block_state ni) (unat (0::u32)) (unat (mgmt_start_ba ni)) in
     unat lb' = unat (0::u32) + length L \<and>
     ni' = ni\<lparr>block_mapping := take (unat (0::u32)) (block_mapping ni) @ L @
                drop (unat (0::u32) + length L) (block_mapping ni)\<rparr>)"
    using assms(1,2) m by (intro build_loop_post) (auto simp: state_ok_def)
  then obtain lb where lb: "build_loop ni 0 0 = Some (lb, ni\<lparr>block_mapping := L @ drop (length L) (block_mapping ni)\<rparr>)"
    and u: "unat lb = length L"
    by (auto simp: post_iff Let_def L_def)
  have le: "length L \<le> unat (block_count ni)"
    using nonbad_list_length [of "block_state ni" 0 "unat (mgmt_start_ba ni)"] m by (simp add: L_def)
  have "lb = of_nat (length L)" by (simp flip: u)
  then show ?thesis
    using assms(2) le u by (simp add: nmbm_build_mapping_table_def lb unmap_loop_post)
qed

section \<open>What a checksum guarantees\<close>

text \<open>\<open>crc_chains\<close> is the documented behaviour of \<open>crc32_le\<close> the code relies on: the checksum
  of a buffer can be computed piece by piece.\<close>

definition crc_chains :: "(u32 \<Rightarrow> u8 list \<Rightarrow> u32) \<Rightarrow> bool" where
  "crc_chains f \<longleftrightarrow> (\<forall>s a b. f (f s a) b = f s (a @ b))"

lemma nmbm_crc32_eq:
  assumes "crc_chains f"
  shows "nmbm_crc32 f s buf = (if buf = [] then s else f s buf)"
  using assms
proof (induction f s buf rule: nmbm_crc32.induct)
  case (1 f s buf)
  show ?case
  proof (cases "length buf > 0xffffffff")
    case True
    then have n: "buf \<noteq> []" "drop 0xffffffff buf \<noteq> []" by auto
    have "nmbm_crc32 f (f s (take 0xffffffff buf)) (drop 0xffffffff buf) = f (f s (take 0xffffffff buf)) (drop 0xffffffff buf)"
      using "1.IH" [OF n(1) refl] "1.prems" True n by simp
    also have "\<dots> = f s buf" using "1.prems" by (simp add: crc_chains_def)
    finally show ?thesis using True n by (subst nmbm_crc32.simps) simp
  next
    case False
    then show ?thesis by (subst nmbm_crc32.simps) (simp add: nmbm_crc32.simps [of _ _ "[]"])
  qed
qed

lemma header_of_header_put:
  "length h = 12 \<Longrightarrow> length c = 4 \<Longrightarrow>
   header_of_bytes (h @ c) = (header_of_bytes (h @ c'))\<lparr>checksum := le_word c\<rparr>"
  by (simp add: header_of_bytes_def)

lemma header_bytes_of_bytes:
  "length bs = 16 \<Longrightarrow> header_bytes ((header_of_bytes bs)\<lparr>checksum := w\<rparr>) = take 12 bs @ bytes_of_u32 w"
  using take_add [of 4 4 bs] take_add [of 8 4 bs]
  by (simp add: header_bytes_def header_of_bytes_def bytes_of_le_word)

text \<open>A structure whose checksum was updated passes the check.\<close>

lemma update_checksum_check:
  assumes "crc_chains f" and "nmbm_update_checksum f data = Some data'"
    and "16 \<le> unat (hsize (header_of_bytes (take 16 data)))"
    and "hsize (header_of_bytes (take 16 data)) \<le> sz"
  shows "nmbm_check_header f data' sz = Some True"
proof -
  let ?h = "header_of_bytes (take 16 data)"
  let ?H = "unat (hsize ?h)" and ?z = "take 12 data @ bytes_of_u32 0 @ drop 16 data"
  obtain c where c: "c = nmbm_crc32 f 0 (take ?H ?z)" by simp
  have l: "16 \<le> length data" "?H \<le> length data"
    and d: "data' = take 12 data @ bytes_of_u32 c @ drop 16 data"
    using assms(2) by (auto simp: c nmbm_update_checksum_def mem_get_def mem_put_def wr32_def split: if_splits Option.bind_splits)
  have t: "take 16 data = take 12 data @ take 4 (drop 12 data)"
    using take_add [of 12 4 data] by simp
  have h': "header_of_bytes (take 16 data') = ?h\<lparr>checksum := c\<rparr>"
    using l header_of_header_put [of "take 12 data" "bytes_of_u32 c" "take 4 (drop 12 data)"] by (simp add: d t)
  have z: "take ?H ?z = (take 12 data @ bytes_of_u32 0) @ take (?H - 16) (drop 16 data)"
    using l assms(3) by simp
  have rest: "take (?H - 16) (drop 16 data') = take (?H - 16) (drop 16 data)" using l by (simp add: d)
  have hb: "header_bytes (?h\<lparr>checksum := 0\<rparr>) = take 12 data @ bytes_of_u32 0"
    using l header_bytes_of_bytes [of "take 16 data" 0] by simp
  have s: "unat (hsize ?h - 16) = ?H - 16" "hsize ?h > 16 \<longleftrightarrow> ?H > 16"
    using assms(3) by (subst unat_sub) (simp_all add: word_le_nat_alt word_less_nat_alt)
  have "length data' = length data" using l by (simp add: d)
  then have "nmbm_check_header f data' sz = Some (c = (if ?H > 16
      then nmbm_crc32 f (nmbm_crc32 f 0 (header_bytes (?h\<lparr>checksum := 0\<rparr>))) (take (?H - 16) (drop 16 data))
      else nmbm_crc32 f 0 (header_bytes (?h\<lparr>checksum := 0\<rparr>))))"
    using assms(3) l leD [OF assms(4)]
    by (simp add: nmbm_check_header_def mem_get_def h' rest s Let_def del: take_all take_all_iff)
  then show ?thesis
    using l assms(1,3) unfolding c z hb by (simp add: nmbm_crc32_eq crc_chains_def)
qed

end
