(* ===== verification/Nmbm_Mgmt.thy ===== *)
theory Nmbm_Mgmt
  imports Nmbm_State
begin

text \<open>
  How \<open>nmbm-core.c\<close> writes management data to the chip and reads it back: erasing with a
  usability check, the signature block, page-wise reads, verified writes, and the info
  table image.  \<open>WATCHDOG_RESET\<close> is empty (\<open>nmbm-os.h\<close>).
\<close>

section \<open>Erasing\<close>

definition put_cache :: "'c nmbm_instance \<Rightarrow> u8 list option \<Rightarrow> 'c nmbm_instance" where
  "put_cache ni d = (case d of None \<Rightarrow> ni | Some b \<Rightarrow> ni\<lparr>page_cache := b\<rparr>)"

partial_function (option) check_empty_pages ::
    "'c nmbm_instance \<Rightarrow> u64 \<Rightarrow> u64 \<Rightarrow> (bool \<times> 'c nmbm_instance) option" where
  "check_empty_pages ni addr off =
     (if off < ucast (erasesize (lower ni)) then do {
        (ret, d, _, ni) \<leftarrow>
          nmbm_read_phys_page ni (addr + off) (Some (page_cache ni)) None NMBM_MODE_PLACE_OOB;
        let ni = put_cache ni d;
        if ret = - EBADMSG then Some (False, ni)
        else check_empty_pages ni addr (off + ucast (writesize (lower ni)))
      } else Some (True, ni))"

definition nmbm_erase_block_and_check ::
    "'c nmbm_instance \<Rightarrow> u32 \<Rightarrow> (bool \<times> 'c nmbm_instance) option" where
  "nmbm_erase_block_and_check ni ba = do {
     (success, ni) \<leftarrow> nmbm_erase_phys_block ni (ba2addr ni ba);
     if \<not> success then Some (False, ni)
     else if nflags (lower ni) AND NMBM_F_EMPTY_PAGE_ECC_OK = 0 then Some (True, ni)
     else check_empty_pages ni (ba2addr ni ba) 0
   }"

text \<open>The sequence behind the labels \<open>skip_bad_block\<close>: mark the block bad on the chip
  and in the state table.\<close>

definition retire_block :: "'c nmbm_instance \<Rightarrow> u32 \<Rightarrow> 'c nmbm_instance option" where
  "retire_block ni ba = do {
     (_, ni) \<leftarrow> nmbm_mark_phys_bad_block ni ba;
     (_, ni) \<leftarrow> nmbm_set_block_state ni ba BLOCK_ST_BAD;
     Some ni
   }"

text \<open>One iteration of \<open>nmbm_erase_range\<close>.\<close>

definition erase_range_block :: "'c nmbm_instance \<Rightarrow> u32 \<Rightarrow> 'c nmbm_instance option" where
  "erase_range_block ni ba = do {
     st \<leftarrow> nmbm_get_block_state ni ba;
     if st \<noteq> BLOCK_ST_GOOD then Some ni
     else do {
       (bad, ni) \<leftarrow> nmbm_check_bad_phys_block ni ba;
       if bad then nmbm_set_block_state ni ba BLOCK_ST_BAD \<bind> (\<lambda>(_, ni). Some ni)
       else do {
         (success, ni) \<leftarrow> nmbm_erase_block_and_check ni ba;
         if success then Some ni else retire_block ni ba
       }
     }
   }"

partial_function (option) nmbm_erase_range ::
    "'c nmbm_instance \<Rightarrow> u32 \<Rightarrow> u32 \<Rightarrow> 'c nmbm_instance option" where
  "nmbm_erase_range ni ba limit =
     (if ba < limit then do {
        ni \<leftarrow> erase_range_block ni ba;
        nmbm_erase_range ni (ba + 1) limit
      } else Some ni)"

section \<open>The signature block\<close>

partial_function (option) write_repeated_pages ::
    "'c nmbm_instance \<Rightarrow> u64 \<Rightarrow> u8 list \<Rightarrow> u32 \<Rightarrow> u64 \<Rightarrow> (bool \<times> 'c nmbm_instance) option" where
  "write_repeated_pages ni addr data sz off =
     (if off < ucast (erasesize (lower ni)) then do {
        src \<leftarrow> mem_get data 0 (unat sz);
        pc \<leftarrow> mem_put (page_cache ni) 0 src;
        pc \<leftarrow> mem_put pc (unat sz) (replicate (unat (rawpage_size ni - sz)) 0xff);
        (success, ni) \<leftarrow>
          nmbm_write_phys_page (ni\<lparr>page_cache := pc\<rparr>) (addr + off) (Some pc) None NMBM_MODE_PLACE_OOB;
        if \<not> success then Some (False, ni)
        else do {
          (ret, d, _, ni) \<leftarrow>
            nmbm_read_phys_page ni (addr + off) (Some (page_cache ni)) None NMBM_MODE_PLACE_OOB;
          let ni = put_cache ni d;
          if ret < 0 then Some (False, ni)
          else do {
            got \<leftarrow> mem_get (page_cache ni) 0 (unat sz);
            if got \<noteq> src then Some (False, ni)
            else write_repeated_pages ni addr data sz (off + ucast (writesize (lower ni)))
          }
        }
      } else Some (True, ni))"

definition nmbm_write_repeated_data ::
    "'c nmbm_instance \<Rightarrow> u32 \<Rightarrow> u8 list \<Rightarrow> u32 \<Rightarrow> (bool \<times> 'c nmbm_instance) option" where
  "nmbm_write_repeated_data ni ba data sz =
     (if sz > writesize (lower ni) then Some (False, ni)
      else write_repeated_pages ni (ba2addr ni ba) data sz 0)"

text \<open>One iteration of \<open>nmbm_write_signature\<close>: whether the signature went into block \<open>ba\<close>.\<close>

definition write_signature_block ::
    "'c nmbm_instance \<Rightarrow> u32 \<Rightarrow> nmbm_signature \<Rightarrow> (bool \<times> 'c nmbm_instance) option" where
  "write_signature_block ni ba sig = do {
     st \<leftarrow> nmbm_get_block_state ni ba;
     if st \<noteq> BLOCK_ST_GOOD then Some (False, ni)
     else do {
       (bad, ni) \<leftarrow> nmbm_check_bad_phys_block ni ba;
       if bad then nmbm_set_block_state ni ba BLOCK_ST_BAD \<bind> (\<lambda>(_, ni). Some (False, ni))
       else do {
         (success, ni) \<leftarrow> nmbm_erase_block_and_check ni ba;
         (success, ni) \<leftarrow>
           (if success then nmbm_write_repeated_data ni ba (signature_bytes sig) 48
            else Some (False, ni));
         if success then Some (True, ni)
         else retire_block ni ba \<bind> (\<lambda>ni. Some (False, ni))
       }
     }
   }"

partial_function (option) write_signature_loop ::
    "'c nmbm_instance \<Rightarrow> u32 \<Rightarrow> nmbm_signature \<Rightarrow> u32 \<Rightarrow> (u32 option \<times> 'c nmbm_instance) option" where
  "write_signature_loop ni limit sig ba =
     (if ba > limit then do {
        (written, ni) \<leftarrow> write_signature_block ni ba sig;
        if written then Some (Some ba, ni)
        else write_signature_loop ni limit sig (ba - 1)
      } else Some (None, ni))"

definition nmbm_write_signature ::
    "'c nmbm_instance \<Rightarrow> u32 \<Rightarrow> nmbm_signature \<Rightarrow> (u32 option \<times> 'c nmbm_instance) option" where
  "nmbm_write_signature ni limit sig = write_signature_loop ni limit sig (block_count ni - 1)"

section \<open>Reading and writing ranges of the chip\<close>

text \<open>The offset of an address in its page, and the bytes of a transfer that fall in it.\<close>

definition page_leading :: "'c nmbm_instance \<Rightarrow> u64 \<Rightarrow> u32" where
  "page_leading ni off = ucast (off AND ucast (writesize_mask ni))"

definition page_chunk :: "'c nmbm_instance \<Rightarrow> u32 \<Rightarrow> u32 \<Rightarrow> u32" where
  "page_chunk ni leading sizeremain =
     (let chunksize = writesize (lower ni) - leading in
      if chunksize > sizeremain then sizeremain else chunksize)"

text \<open>\<open>data\<close> is the caller's buffer and \<open>ptr\<close> the offset the C pointer has reached in it.\<close>

partial_function (option) read_data_loop ::
    "'c nmbm_instance \<Rightarrow> u64 \<Rightarrow> u8 list \<Rightarrow> nat \<Rightarrow> u32 \<Rightarrow> (int \<times> u8 list \<times> 'c nmbm_instance) option" where
  "read_data_loop ni off data ptr sizeremain =
     (if sizeremain \<noteq> 0 then do {
        let leading = page_leading ni off;
        let chunksize = page_chunk ni leading sizeremain;
        (ret, data, ni) \<leftarrow>
          (if chunksize = writesize (lower ni) then do {
             (ret, d, _, ni) \<leftarrow>
               nmbm_read_phys_page ni (off - ucast leading) (Some (drop ptr data)) None NMBM_MODE_PLACE_OOB;
             Some (ret, take ptr data @ (case d of None \<Rightarrow> [] | Some b \<Rightarrow> b), ni)
           } else do {
             (ret, d, _, ni) \<leftarrow>
               nmbm_read_phys_page ni (off - ucast leading) (Some (page_cache ni)) None NMBM_MODE_PLACE_OOB;
             let ni = put_cache ni d;
             if ret < 0 then Some (ret, data, ni)
             else do {
               src \<leftarrow> mem_get (page_cache ni) (unat leading) (unat chunksize);
               data \<leftarrow> mem_put data ptr src;
               Some (ret, data, ni)
             }
           });
        if ret < 0 then Some (ret, data, ni)
        else read_data_loop ni (off + ucast chunksize) data (ptr + unat chunksize) (sizeremain - chunksize)
      } else Some (0, data, ni))"

definition nmbn_read_data ::
    "'c nmbm_instance \<Rightarrow> u64 \<Rightarrow> u8 list \<Rightarrow> u32 \<Rightarrow> (int \<times> u8 list \<times> 'c nmbm_instance) option" where
  "nmbn_read_data ni addr data sz = read_data_loop ni addr data 0 sz"

partial_function (option) write_verify_loop ::
    "'c nmbm_instance \<Rightarrow> u64 \<Rightarrow> u8 list \<Rightarrow> nat \<Rightarrow> u32 \<Rightarrow> (bool \<times> 'c nmbm_instance) option" where
  "write_verify_loop ni off data ptr sizeremain =
     (if sizeremain \<noteq> 0 then do {
        let leading = page_leading ni off;
        let chunksize = page_chunk ni leading sizeremain;
        src \<leftarrow> mem_get data ptr (unat chunksize);
        pc \<leftarrow> mem_put (page_cache ni) 0 (replicate (unat (rawpage_size ni)) 0xff);
        pc \<leftarrow> mem_put pc (unat leading) src;
        (success, ni) \<leftarrow>
          nmbm_write_phys_page (ni\<lparr>page_cache := pc\<rparr>) (off - ucast leading) (Some pc) None NMBM_MODE_PLACE_OOB;
        if \<not> success then Some (False, ni)
        else do {
          (ret, d, _, ni) \<leftarrow>
            nmbm_read_phys_page ni (off - ucast leading) (Some (page_cache ni)) None NMBM_MODE_PLACE_OOB;
          let ni = put_cache ni d;
          if ret < 0 then Some (False, ni)
          else do {
            got \<leftarrow> mem_get (page_cache ni) (unat leading) (unat chunksize);
            if got \<noteq> src then Some (False, ni)
            else write_verify_loop ni (off + ucast chunksize) data (ptr + unat chunksize) (sizeremain - chunksize)
          }
        }
      } else Some (True, ni))"

definition nmbn_write_verify_data ::
    "'c nmbm_instance \<Rightarrow> u64 \<Rightarrow> u8 list \<Rightarrow> u32 \<Rightarrow> (bool \<times> 'c nmbm_instance) option" where
  "nmbn_write_verify_data ni addr data sz = write_verify_loop ni addr data 0 sz"

text \<open>One iteration of \<open>nmbm_write_mgmt_range\<close>: whether the chunk went into block \<open>ba\<close>.\<close>

definition write_mgmt_block ::
    "'c nmbm_instance \<Rightarrow> u32 \<Rightarrow> u8 list \<Rightarrow> u32 \<Rightarrow> (bool \<times> 'c nmbm_instance) option" where
  "write_mgmt_block ni ba ptr chunksize = do {
     st \<leftarrow> nmbm_get_block_state ni ba;
     if st \<noteq> BLOCK_ST_GOOD then Some (False, ni)
     else do {
       (bad, ni) \<leftarrow> nmbm_check_bad_phys_block ni ba;
       if bad then nmbm_set_block_state ni ba BLOCK_ST_BAD \<bind> (\<lambda>(_, ni). Some (False, ni))
       else do {
         (success, ni) \<leftarrow> nmbm_erase_block_and_check ni ba;
         (success, ni) \<leftarrow>
           (if success then nmbn_write_verify_data ni (ba2addr ni ba) ptr chunksize
            else Some (False, ni));
         if success then Some (True, ni)
         else retire_block ni ba \<bind> (\<lambda>ni. Some (False, ni))
       }
     }
   }"

text \<open>The result is the pair of \<open>actual_start_ba\<close> and \<open>actual_end_ba\<close>, or \<open>None\<close> for
  \<open>false\<close>.  \<open>start\<close> is \<open>None\<close> as long as \<open>actual_start_ba\<close> is not assigned.\<close>

partial_function (option) write_mgmt_loop ::
    "'c nmbm_instance \<Rightarrow> u32 \<Rightarrow> u32 \<Rightarrow> u8 list \<Rightarrow> u32 \<Rightarrow> u32 \<Rightarrow> u32 option \<Rightarrow>
     ((u32 \<times> u32) option \<times> 'c nmbm_instance) option" where
  "write_mgmt_loop ni ba limit ptr sz sizeremain start =
     (if sizeremain \<noteq> 0 \<and> ba < limit then do {
        let chunksize = (if sizeremain > erasesize (lower ni) then erasesize (lower ni) else sizeremain);
        (written, ni) \<leftarrow> write_mgmt_block ni ba ptr chunksize;
        if written then
          write_mgmt_loop ni (ba + 1) limit (drop (unat chunksize) ptr) sz (sizeremain - chunksize)
            (if sizeremain = sz then Some ba else start)
        else write_mgmt_loop ni (ba + 1) limit ptr sz sizeremain start
      }
      else if sizeremain \<noteq> 0 then Some (None, ni)
      else (case start of None \<Rightarrow> None | Some s \<Rightarrow> Some (Some (s, ba), ni)))"

definition nmbm_write_mgmt_range ::
    "'c nmbm_instance \<Rightarrow> u32 \<Rightarrow> u32 \<Rightarrow> u8 list \<Rightarrow> u32 \<Rightarrow>
     ((u32 \<times> u32) option \<times> 'c nmbm_instance) option" where
  "nmbm_write_mgmt_range ni ba limit data sz = write_mgmt_loop ni ba limit data sz sz None"

section \<open>The info table image\<close>

definition nmbm_generate_info_table_cache ::
    "'c nmbm_instance \<Rightarrow> (bool \<times> 'c nmbm_instance) option" where
  "nmbm_generate_info_table_cache ni = do {
     let it = info_table ni;
     c \<leftarrow> mem_put (info_table_cache ni) 0 (replicate (unat (info_table_size ni)) 0xff);
     bs \<leftarrow> mem_get (bytes_of_words (block_state ni)) 0 (unat (state_table_size ni));
     c \<leftarrow> mem_put c (unat (state_table_off it)) bs;
     bm \<leftarrow> mem_get (bytes_of_words (block_mapping ni)) 0 (unat (mapping_table_size ni));
     c \<leftarrow> mem_put c (unat (mapping_table_off it)) bm;
     let it = it\<lparr>ift_header := (ift_header it)\<lparr>magic := NMBM_MAGIC_INFO_TABLE,
                version := NMBM_VER, hsize := info_table_size ni\<rparr>\<rparr>;
     let changed = (block_state_changed ni \<noteq> 0 \<or> block_mapping_changed ni \<noteq> 0);
     let it = (if changed then it\<lparr>write_count := write_count it + 1\<rparr> else it);
     c \<leftarrow> mem_put c 0 (info_table_bytes it);
     c \<leftarrow> nmbm_update_checksum (os_crc32_le (lower ni)) c;
     Some (changed, ni\<lparr>info_table := it, info_table_cache := c\<rparr>)
   }"

definition nmbm_write_info_table ::
    "'c nmbm_instance \<Rightarrow> u32 \<Rightarrow> u32 \<Rightarrow> ((u32 \<times> u32) option \<times> 'c nmbm_instance) option" where
  "nmbm_write_info_table ni ba limit =
     nmbm_write_mgmt_range ni ba limit (info_table_cache ni) (info_table_size ni)"

definition nmbm_mark_tables_clean :: "'c nmbm_instance \<Rightarrow> 'c nmbm_instance" where
  "nmbm_mark_tables_clean ni = ni\<lparr>block_state_changed := 0, block_mapping_changed := 0\<rparr>"

partial_function (option) try_reserve_loop ::
    "'c nmbm_instance \<Rightarrow> u32 \<Rightarrow> u32 \<Rightarrow> u32 \<Rightarrow> u32 \<Rightarrow> u32 option option" where
  "try_reserve_loop ni ba nblocks min_count limit =
     (if min_count <=s nblocks then do {
        r \<leftarrow> nmbm_block_walk ni True ba nblocks limit;
        (case r of
           Some nba \<Rightarrow> Some (Some nba)
         | None \<Rightarrow> try_reserve_loop ni ba (nblocks - 1) min_count limit)
      } else Some None)"

definition nmbm_try_reserve_blocks ::
    "'c nmbm_instance \<Rightarrow> u32 \<Rightarrow> u32 \<Rightarrow> u32 \<Rightarrow> u32 \<Rightarrow> u32 option option" where
  "nmbm_try_reserve_blocks ni ba count min_count limit = try_reserve_loop ni ba count min_count limit"

declare check_empty_pages.simps [code] nmbm_erase_range.simps [code]
  write_repeated_pages.simps [code] write_signature_loop.simps [code]
  read_data_loop.simps [code] write_verify_loop.simps [code]
  write_mgmt_loop.simps [code] try_reserve_loop.simps [code]

section \<open>Totality and frames: pages\<close>

lemma put_cache_dev_le:
  "arg_le ni ni1 \<Longrightarrow> same_shape (Some (page_cache ni)) d \<Longrightarrow> dev_le ni (put_cache ni1 d)"
  by (auto simp: put_cache_def same_shape_Some elim!: arg_leE intro: dev_leI)

lemma read_cache_post:
  assumes "chip_ok ni"
  shows "post (nmbm_read_phys_page ni addr (Some (page_cache ni)) None mode)
    (\<lambda>(r, d, ob, ni1). dev_le ni (put_cache ni1 d))"
proof -
  have "post (nmbm_read_phys_page ni addr (Some (page_cache ni)) None mode)
    (\<lambda>(r, d, ob, ni1). same_shape (Some (page_cache ni)) d \<and> same_shape None ob \<and> arg_le ni ni1)"
    using assms chip_ok_geometry(3) [OF assms]
    by (intro nmbm_read_phys_page_post) (simp_all add: room_def)
  then show ?thesis by (auto elim!: post_mono intro: put_cache_dev_le)
qed

lemma write_cache_post:
  assumes "chip_ok ni" and "length pc = length (page_cache ni)"
  shows "post (nmbm_write_phys_page (ni\<lparr>page_cache := pc\<rparr>) addr (Some pc) None mode)
    (\<lambda>(r, ni'). dev_le ni ni')"
proof -
  have "post (nmbm_write_phys_page (ni\<lparr>page_cache := pc\<rparr>) addr (Some pc) None mode)
    (\<lambda>(r, ni'). arg_le (ni\<lparr>page_cache := pc\<rparr>) ni')"
    using assms chip_ok_geometry(3) [OF assms(1)]
    by (intro nmbm_write_phys_page_post) (simp_all add: room_def)
  moreover have "dev_le ni (ni\<lparr>page_cache := pc\<rparr>)" using assms(2) by (rule dev_le_cache)
  ultimately show ?thesis by (auto elim!: post_mono intro: dev_le_trans arg_le_dev_le)
qed

lemma dev_le_cong:
  assumes "dev_le ni ni'"
  shows "lower ni' = lower ni" and "block_count ni' = block_count ni" and "block_state ni' = block_state ni"
    and "length (page_cache ni') = length (page_cache ni)" and "rawpage_size ni' = rawpage_size ni"
    and "writesize_mask ni' = writesize_mask ni" and "erasesize_shift ni' = erasesize_shift ni"
  using assms by (auto elim!: dev_leE)

lemma check_empty_pages_post:
  assumes "chip_ok ni"
  shows "post (check_empty_pages ni addr off) (\<lambda>(r, ni'). dev_le ni ni')"
  using assms
proof (induction "unat (erasesize (lower ni)) - unat off" arbitrary: ni off rule: less_induct)
  case less
  note g = chip_ok_geometry [OF less.prems]
  show ?case
  proof (cases "off < ucast (erasesize (lower ni))")
    case False
    then show ?thesis by (subst check_empty_pages.simps) simp
  next
    case True
    have lt: "unat off < unat (erasesize (lower ni))" using True by (simp add: word_less_nat_alt)
    have next_off: "unat (off + ucast (writesize (lower ni))) = unat off + unat (writesize (lower ni))"
      using True g(2) g(1) by (rule page_step64)
    have step: "post (check_empty_pages ni1 addr (off + ucast (writesize (lower ni)))) (\<lambda>(r, ni'). dev_le ni ni')"
      if le: "dev_le ni ni1" for ni1
    proof -
      have "post (check_empty_pages ni1 addr (off + ucast (writesize (lower ni)))) (\<lambda>(r, ni'). dev_le ni1 ni')"
        using less.prems le lt next_off chip_ok_page_pos [OF less.prems]
        by (intro less.hyps) (auto simp: dev_le_cong [OF le] intro: chip_ok_dev_le)
      then show ?thesis using le by (auto elim!: post_mono intro: dev_le_trans)
    qed
    show ?thesis
      using read_cache_post [OF less.prems, of "addr + off" NMBM_MODE_PLACE_OOB] True
      by (subst check_empty_pages.simps)
        (auto simp: Let_def dev_le_cong elim!: post_mono intro!: step)
  qed
qed

lemma nmbm_erase_block_and_check_post:
  assumes "chip_ok ni"
  shows "post (nmbm_erase_block_and_check ni ba) (\<lambda>(r, ni'). dev_le ni ni')"
proof -
  have "post (check_empty_pages ni1 addr 0) (\<lambda>(r, ni'). dev_le ni ni')" if le: "arg_le ni ni1" for ni1 addr
  proof -
    have d: "dev_le ni ni1" using le by (rule arg_le_dev_le)
    then have "post (check_empty_pages ni1 addr 0) (\<lambda>(r, ni'). dev_le ni1 ni')"
      using assms by (intro check_empty_pages_post) (rule chip_ok_dev_le)
    then show ?thesis using d by (auto elim!: post_mono intro: dev_le_trans)
  qed
  then show ?thesis
    using nmbm_erase_phys_block_post [OF assms, of "ba2addr ni ba"]
    by (auto simp: nmbm_erase_block_and_check_def elim!: post_mono intro: arg_le_dev_le)
qed

lemma write_repeated_pages_post:
  assumes "chip_ok ni" and "sz \<le> writesize (lower ni)" and "unat sz \<le> length data"
  shows "post (write_repeated_pages ni addr data sz off) (\<lambda>(r, ni'). dev_le ni ni')"
  using assms
proof (induction "unat (erasesize (lower ni)) - unat off" arbitrary: ni off rule: less_induct)
  case less
  note g = chip_ok_geometry [OF less.prems(1)]
  show ?case
  proof (cases "off < ucast (erasesize (lower ni))")
    case False
    then show ?thesis by (subst write_repeated_pages.simps) simp
  next
    case True
    let ?src = "take (unat sz) data" and ?n = "unat (rawpage_size ni) - unat sz"
    let ?pc = "?src @ replicate ?n 255"
    have szw: "unat sz \<le> unat (writesize (lower ni))" using less.prems(2) by (simp add: word_le_nat_alt)
    have raw: "unat (rawpage_size ni - sz) = ?n"
      using szw g by (intro unat_sub) (simp add: word_le_nat_alt)
    have lt: "unat off < unat (erasesize (lower ni))" using True by (simp add: word_less_nat_alt)
    have next_off: "unat (off + ucast (writesize (lower ni))) = unat off + unat (writesize (lower ni))"
      using True g(2) g(1) by (rule page_step64)
    have step: "post (write_repeated_pages ni1 addr data sz (off + ucast (writesize (lower ni)))) (\<lambda>(r, ni'). dev_le ni ni')"
      if le: "dev_le ni ni1" for ni1
    proof -
      have "post (write_repeated_pages ni1 addr data sz (off + ucast (writesize (lower ni)))) (\<lambda>(r, ni'). dev_le ni1 ni')"
        using less.prems le lt next_off chip_ok_page_pos [OF less.prems(1)]
        by (intro less.hyps) (auto simp: dev_le_cong [OF le] intro: chip_ok_dev_le)
      then show ?thesis using le by (auto elim!: post_mono intro: dev_le_trans)
    qed
    have read: "post (nmbm_read_phys_page ni1 a (Some (page_cache ni1)) None m)
        (\<lambda>(r, d, ob, ni2). dev_le ni (put_cache ni2 d))" if le: "dev_le ni ni1" for ni1 a m
      using read_cache_post [OF chip_ok_dev_le [OF le less.prems(1)], of a m] le
      by (auto elim!: post_mono intro: dev_le_trans)
    have eq: "write_repeated_pages ni addr data sz off = do {
        (success, ni) \<leftarrow>
          nmbm_write_phys_page (ni\<lparr>page_cache := ?pc\<rparr>) (addr + off) (Some ?pc) None NMBM_MODE_PLACE_OOB;
        if \<not> success then Some (False, ni)
        else do {
          (ret, d, _, ni) \<leftarrow>
            nmbm_read_phys_page ni (addr + off) (Some (page_cache ni)) None NMBM_MODE_PLACE_OOB;
          let ni = put_cache ni d;
          if ret < 0 then Some (False, ni)
          else do {
            got \<leftarrow> mem_get (page_cache ni) 0 (unat sz);
            if got \<noteq> ?src then Some (False, ni)
            else write_repeated_pages ni addr data sz (off + ucast (writesize (lower ni)))
          }
        }
      }"
      using True szw g raw less.prems(3) by (subst write_repeated_pages.simps) (simp add: mem_get_def mem_put_def)
    have "post (nmbm_write_phys_page (ni\<lparr>page_cache := ?pc\<rparr>) (addr + off) (Some ?pc) None NMBM_MODE_PLACE_OOB)
        (\<lambda>(r, ni'). dev_le ni ni')"
      using less.prems szw g by (intro write_cache_post) simp_all
    then show ?thesis
      unfolding eq post_bind
    proof (rule post_mono, clarify)
      fix s ni1
      assume le: "dev_le ni ni1"
      have "post (mem_get (page_cache ni2) 0 (unat sz)) (\<lambda>got. post (if got \<noteq> ?src then Some (False, ni2)
            else write_repeated_pages ni2 addr data sz (off + ucast (writesize (lower ni2)))) (\<lambda>(r, ni'). dev_le ni ni'))"
        if d: "dev_le ni ni2" for ni2
        using step [OF d] d szw g by (simp add: dev_le_cong [OF d])
      then show "post (if \<not> s then Some (False, ni1) else do {
          (ret, d, _, ni) \<leftarrow>
            nmbm_read_phys_page ni1 (addr + off) (Some (page_cache ni1)) None NMBM_MODE_PLACE_OOB;
          let ni = put_cache ni d;
          if ret < 0 then Some (False, ni)
          else do {
            got \<leftarrow> mem_get (page_cache ni) 0 (unat sz);
            if got \<noteq> ?src then Some (False, ni)
            else write_repeated_pages ni addr data sz (off + ucast (writesize (lower ni)))
          }
        }) (\<lambda>(r, ni'). dev_le ni ni')"
        using le read [OF le, of "addr + off" NMBM_MODE_PLACE_OOB]
        by (auto simp: Let_def simp del: post_mem_get elim!: post_mono)
    qed
  qed
qed

section \<open>Totality and frames: blocks\<close>

text \<open>\<open>touched S ni ni'\<close>: \<open>wear\<close>, and only blocks of \<open>S\<close> changed their recorded state.\<close>

definition touched :: "u32 set \<Rightarrow> 'c nmbm_instance \<Rightarrow> 'c nmbm_instance \<Rightarrow> bool" where
  "touched S ni ni' \<longleftrightarrow> wear ni ni' \<and>
     (\<forall>b. b \<notin> S \<longrightarrow> st_of (block_state ni') b = st_of (block_state ni) b)"

lemma touched_wear: "touched S ni ni' \<Longrightarrow> wear ni ni'"
  by (simp add: touched_def)

lemma touched_refl [simp]: "touched S ni ni"
  by (simp add: touched_def)

lemma touched_trans: "touched S x y \<Longrightarrow> touched T y z \<Longrightarrow> S \<subseteq> U \<Longrightarrow> T \<subseteq> U \<Longrightarrow> touched U x z"
  unfolding touched_def by (metis subsetD wear_trans)

lemma touched_mono: "touched S x y \<Longrightarrow> S \<subseteq> U \<Longrightarrow> touched U x y"
  by (rule touched_trans [OF _ touched_refl]) auto

lemma dev_le_touched: "dev_le ni ni' \<Longrightarrow> touched S ni ni'"
  by (simp add: touched_def dev_le_wear dev_le_cong(3))

lemma touched_other: "touched S ni ni' \<Longrightarrow> b \<notin> S \<Longrightarrow> st_of (block_state ni') b = st_of (block_state ni) b"
  by (simp add: touched_def)

lemma wear_cong:
  assumes "wear ni ni'"
  shows "lower ni' = lower ni" and "block_count ni' = block_count ni"
    and "length (block_state ni') = length (block_state ni)"
    and "length (page_cache ni') = length (page_cache ni)" and "rawpage_size ni' = rawpage_size ni"
    and "writesize_mask ni' = writesize_mask ni" and "erasesize_shift ni' = erasesize_shift ni"
    and "block_mapping ni' = block_mapping ni" and "mapping_blocks_ba ni' = mapping_blocks_ba ni"
    and "signature_ba ni' = signature_ba ni" and "info_table ni' = info_table ni"
    and "info_table_cache ni' = info_table_cache ni" and "info_table_size ni' = info_table_size ni"
    and "info_table_spare_blocks ni' = info_table_spare_blocks ni"
    and "state_table_size ni' = state_table_size ni" and "mapping_table_size ni' = mapping_table_size ni"
    and "main_table_ba ni' = main_table_ba ni" and "backup_table_ba ni' = backup_table_ba ni"
    and "mapping_blocks_top_ba ni' = mapping_blocks_top_ba ni" and "mgmt_start_ba ni' = mgmt_start_ba ni"
    and "block_mapping_changed ni' = block_mapping_changed ni" and "protected ni' = protected ni"
    and "data_block_count ni' = data_block_count ni" and "writesize_shift ni' = writesize_shift ni"
  using assms by (auto elim!: wearE simp: wears_def)

lemmas touched_cong = wear_cong [OF touched_wear]

lemma state_ok_touched: "touched S ni ni' \<Longrightarrow> state_ok ni \<Longrightarrow> state_ok ni'"
  by (auto intro: state_ok_wear touched_wear)

lemma touched_bad: "touched S ni ni' \<Longrightarrow> st_of (block_state ni) b = 0 \<Longrightarrow> st_of (block_state ni') b = 0"
  by (auto dest!: touched_wear elim!: wearE simp: wears_def) metis

lemma set_bad_touched:
  assumes "state_ok ni" and "ba < block_count ni"
  shows "post (nmbm_set_block_state ni ba BLOCK_ST_BAD)
    (\<lambda>(c, ni'). touched {ba} ni ni' \<and> st_of (block_state ni') ba = BLOCK_ST_BAD)"
proof -
  have t: "in_table (block_state ni) ba" using assms by (rule state_ok_table)
  have "post (nmbm_set_block_state ni ba BLOCK_ST_BAD)
      (\<lambda>(c, ni'). \<forall>b. b \<notin> {ba} \<longrightarrow> st_of (block_state ni') b = st_of (block_state ni) b)"
    using t by (simp add: set_state st_of_put_bad)
  from post_conj [OF set_bad_post [OF assms] this] show ?thesis
    by (rule post_mono) (auto simp: touched_def)
qed

lemma check_bad_touched:
  "state_ok ni \<Longrightarrow> post (nmbm_check_bad_phys_block ni ba) (\<lambda>(b, ni'). dev_le ni ni')"
  by (simp add: nmbm_check_bad_phys_block_post state_ok_chip)

lemma state_ok_dev_le: "dev_le ni ni' \<Longrightarrow> state_ok ni \<Longrightarrow> state_ok ni'"
  by (auto intro: state_ok_wear dev_le_wear)

lemma after_dev_le:
  assumes "dev_le ni ni1" and "post m (\<lambda>x. touched S ni1 (snd x) \<and> P x)"
  shows "post m (\<lambda>x. touched S ni (snd x) \<and> P x)"
  using assms(2) by (rule post_mono) (auto intro: touched_trans [OF dev_le_touched [OF assms(1)]])

lemma retire_block_post:
  assumes "state_ok ni" and "ba < block_count ni"
  shows "post (retire_block ni ba) (\<lambda>ni'. touched {ba} ni ni' \<and> st_of (block_state ni') ba = BLOCK_ST_BAD)"
proof -
  have "post (nmbm_set_block_state ni1 ba BLOCK_ST_BAD)
    (\<lambda>x. post (case x of (_, ni2) \<Rightarrow> Some ni2) (\<lambda>ni'. touched {ba} ni ni' \<and> st_of (block_state ni') ba = BLOCK_ST_BAD))"
    if d: "dev_le ni ni1" for ni1
  proof -
    have "post (nmbm_set_block_state ni1 ba BLOCK_ST_BAD)
      (\<lambda>(c, ni'). touched {ba} ni1 ni' \<and> st_of (block_state ni') ba = BLOCK_ST_BAD)"
      using assms d by (intro set_bad_touched) (simp_all add: state_ok_dev_le dev_le_cong(2))
    then show ?thesis
      by (rule post_mono) (auto intro: touched_trans [OF dev_le_touched [OF d]])
  qed
  then show ?thesis
    unfolding retire_block_def post_bind
    by (auto intro: post_mono [OF nmbm_mark_phys_bad_block_post [OF state_ok_chip [OF assms(1)]]])
qed

lemma mid_index: "(i::u32) < b \<Longrightarrow> b \<le> j \<Longrightarrow> {i<..b - 1} \<subseteq> {i<..j}"
  by (auto simp: word_le_nat_alt word_less_nat_alt unat_dec)

text \<open>A block that was skipped, retired or used: the shape shared by the three loops that
  look for a usable block.\<close>

lemma good_after:
  assumes "dev_le ni ni'"
  shows "st_of (block_state ni') b = st_of (block_state ni) b"
  by (simp add: dev_le_cong(3) [OF assms])

lemma mark_if_bad_post:
  assumes "state_ok ni" and "ba < block_count ni" and "dev_le ni ni1"
  shows "post (nmbm_set_block_state ni1 ba BLOCK_ST_BAD)
    (\<lambda>(c, ni'). touched {ba} ni ni' \<and> st_of (block_state ni') ba = BLOCK_ST_BAD)"
proof -
  have "post (nmbm_set_block_state ni1 ba BLOCK_ST_BAD)
      (\<lambda>(c, ni'). touched {ba} ni1 ni' \<and> st_of (block_state ni') ba = BLOCK_ST_BAD)"
    using assms by (intro set_bad_touched) (simp_all add: state_ok_dev_le dev_le_cong(2) [OF assms(3)])
  then show ?thesis by (rule post_mono) (auto intro: touched_trans [OF dev_le_touched [OF assms(3)]])
qed

lemma retire_after_post:
  assumes "state_ok ni" and "ba < block_count ni" and "dev_le ni ni1"
  shows "post (retire_block ni1 ba) (\<lambda>ni'. touched {ba} ni ni' \<and> st_of (block_state ni') ba = BLOCK_ST_BAD)"
proof -
  have "post (retire_block ni1 ba) (\<lambda>ni'. touched {ba} ni1 ni' \<and> st_of (block_state ni') ba = BLOCK_ST_BAD)"
    using assms by (intro retire_block_post) (simp_all add: state_ok_dev_le dev_le_cong(2) [OF assms(3)])
  then show ?thesis by (rule post_mono) (auto intro: touched_trans [OF dev_le_touched [OF assms(3)]])
qed

lemma erase_range_block_post:
  assumes "state_ok ni" and "ba < block_count ni"
  shows "post (erase_range_block ni ba) (touched {ba} ni)"
proof -
  have erase: "post (nmbm_erase_block_and_check ni1 ba) (\<lambda>(r, ni'). dev_le ni ni')" if d: "dev_le ni ni1" for ni1
    using nmbm_erase_block_and_check_post [OF chip_ok_dev_le [OF d state_ok_chip [OF assms(1)]], of ba]
    by (rule post_mono) (auto intro: dev_le_trans [OF d])
  show ?thesis
    using assms state_ok_table [OF assms]
    by (auto simp: erase_range_block_def dev_le_touched intro!: post_mono [OF check_bad_touched]
        post_mono [OF mark_if_bad_post] post_mono [OF erase] post_mono [OF retire_after_post])
qed

lemma nmbm_erase_range_post:
  assumes "state_ok ni" and "limit \<le> block_count ni"
  shows "post (nmbm_erase_range ni ba limit) (touched {ba..<limit} ni)"
  using assms
proof (induction "unat limit - unat ba" arbitrary: ni ba rule: less_induct)
  case less
  show ?case
  proof (cases "ba < limit")
    case False
    then show ?thesis by (subst nmbm_erase_range.simps) simp
  next
    case True
    have step: "post (nmbm_erase_range ni1 (ba + 1) limit) (touched {ba..<limit} ni)"
      if w: "touched {ba} ni ni1" for ni1
    proof -
      have "post (nmbm_erase_range ni1 (ba + 1) limit) (touched {ba + 1..<limit} ni1)"
        using True w less.prems unat_inc_measure [OF True]
        by (intro less.hyps) (simp_all add: touched_cong(2) state_ok_touched)
      moreover have sub: "{ba + 1..<limit} \<subseteq> {ba..<limit}" using upto_insert [OF True] by auto
      ultimately show ?thesis
        by (elim post_mono) (rule touched_trans [OF w _ _ sub], simp_all add: True)
    qed
    have "post (erase_range_block ni ba) (touched {ba} ni)"
      using True less.prems by (intro erase_range_block_post) auto
    then show ?thesis
      using True step by (subst nmbm_erase_range.simps) (auto elim: post_mono)
  qed
qed

lemma nmbm_write_repeated_data_post:
  assumes "chip_ok ni" and "unat sz \<le> length data"
  shows "post (nmbm_write_repeated_data ni ba data sz) (\<lambda>(r, ni'). dev_le ni ni')"
  using assms write_repeated_pages_post [OF assms(1) _ assms(2)]
  by (simp add: nmbm_write_repeated_data_def)

lemma write_signature_block_post:
  assumes "state_ok ni" and "ba < block_count ni" and "length (sig_padding sig) = 7"
  shows "post (write_signature_block ni ba sig)
    (\<lambda>(w, ni'). touched {ba} ni ni' \<and> w = good (block_state ni') ba)"
proof -
  have chip: "chip_ok ni1" if "dev_le ni ni1" for ni1
    using chip_ok_dev_le [OF that state_ok_chip [OF assms(1)]] .
  have erase: "post (nmbm_erase_block_and_check ni1 ba) (\<lambda>(r, ni'). dev_le ni ni')" if d: "dev_le ni ni1" for ni1
    using nmbm_erase_block_and_check_post [OF chip [OF d], of ba]
    by (rule post_mono) (auto intro: dev_le_trans [OF d])
  have put: "post (nmbm_write_repeated_data ni1 ba (signature_bytes sig) 48) (\<lambda>(r, ni'). dev_le ni ni')"
    if d: "dev_le ni ni1" for ni1
    by (rule post_mono [OF nmbm_write_repeated_data_post [OF chip [OF d]]])
      (auto simp: assms(3) intro: dev_le_trans [OF d])
  show ?thesis
    using assms state_ok_table [OF assms(1,2)]
    by (auto simp: write_signature_block_def dev_le_touched dev_le_cong(3) intro!: post_mono [OF check_bad_touched]
        post_mono [OF mark_if_bad_post] post_mono [OF erase] post_mono [OF put] post_mono [OF retire_after_post])
qed

lemma write_signature_loop_post:
  assumes "state_ok ni" and "ba < block_count ni" and "length (sig_padding sig) = 7"
  shows "post (write_signature_loop ni limit sig ba) (\<lambda>(r, ni'). touched {limit<..ba} ni ni' \<and>
    (\<forall>b. r = Some b \<longrightarrow> limit < b \<and> b \<le> ba \<and> good (block_state ni') b))"
  using assms
proof (induction "unat ba" arbitrary: ni ba rule: less_induct)
  case less
  show ?case
  proof (cases "ba > limit")
    case False
    then show ?thesis by (subst write_signature_loop.simps) simp
  next
    case True
    have down: "ba - 1 < ba" using True unat_dec_measure [OF True] by (simp add: word_less_nat_alt)
    have step: "post (write_signature_loop ni1 limit sig (ba - 1)) (\<lambda>(r, ni'). touched {limit<..ba} ni ni' \<and>
        (\<forall>b. r = Some b \<longrightarrow> limit < b \<and> b \<le> ba \<and> good (block_state ni') b))"
      if w: "touched {ba} ni ni1" for ni1
    proof -
      have "post (write_signature_loop ni1 limit sig (ba - 1)) (\<lambda>(r, ni'). touched {limit<..ba - 1} ni1 ni' \<and>
          (\<forall>b. r = Some b \<longrightarrow> limit < b \<and> b \<le> ba - 1 \<and> good (block_state ni') b))"
        using w less.prems unat_dec_measure [OF True] down
        by (intro less.hyps) (auto simp: touched_cong(2) [OF w] intro: state_ok_touched)
      moreover have sub: "{limit<..ba - 1} \<subseteq> {limit<..ba}" using down by auto
      ultimately show ?thesis
        using True down by (auto elim!: post_mono intro: touched_trans [OF w _ _ sub])
    qed
    have "touched {ba} ni ni1 \<Longrightarrow> touched {limit<..ba} ni ni1" for ni1
      using True by (elim touched_mono) auto
    then show ?thesis
      using True step write_signature_block_post [OF less.prems]
      by (subst write_signature_loop.simps) (auto elim!: post_mono)
  qed
qed

lemma nmbm_write_signature_post:
  assumes "state_ok ni" and "0 < block_count ni" and "length (sig_padding sig) = 7"
  shows "post (nmbm_write_signature ni limit sig) (\<lambda>(r, ni'). touched {limit<..} ni ni' \<and>
    (\<forall>b. r = Some b \<longrightarrow> limit < b \<and> b < block_count ni \<and> good (block_state ni') b))"
proof -
  have lt: "block_count ni - 1 < block_count ni"
    using unat_dec_measure [OF assms(2)] by (simp add: word_less_nat_alt)
  show ?thesis
    unfolding nmbm_write_signature_def
    by (rule post_mono [OF write_signature_loop_post [OF assms(1) lt assms(3)]])
      (use lt in \<open>auto intro: touched_mono\<close>)
qed

section \<open>Totality and frames: ranges\<close>

lemma chip_ok_masks:
  assumes "chip_ok ni"
  shows "writesize_mask ni = writesize (lower ni) - 1" and "erasesize_mask ni = erasesize (lower ni) - 1"
  using assms by (simp_all add: chip_ok_def)

lemma page_leading_eq:
  "chip_ok ni \<Longrightarrow> unat (page_leading ni off) = unat off mod unat (writesize (lower ni))"
  unfolding page_leading_def chip_ok_masks(1) by (rule and_pow2_mask(1) [OF chip_ok_geometry(1)])

lemma page_leading_less: "chip_ok ni \<Longrightarrow> unat (page_leading ni off) < unat (writesize (lower ni))"
  by (simp add: page_leading_eq chip_ok_page_pos)

lemma page_chunk_facts:
  assumes "chip_ok ni" and "n \<noteq> 0" and "unat l < unat (writesize (lower ni))"
  shows "0 < unat (page_chunk ni l n)" and "unat (page_chunk ni l n) \<le> unat n"
    and "unat l + unat (page_chunk ni l n) \<le> unat (writesize (lower ni))"
    and "unat (n - page_chunk ni l n) = unat n - unat (page_chunk ni l n)"
proof -
  have s: "unat (writesize (lower ni) - l) = unat (writesize (lower ni)) - unat l"
    using assms(3) by (intro unat_sub) (simp add: word_le_nat_alt)
  have "0 < unat n" using assms(2) by (simp add: unat_gt_0)
  with s assms(3) show "0 < unat (page_chunk ni l n)" "unat (page_chunk ni l n) \<le> unat n"
    "unat l + unat (page_chunk ni l n) \<le> unat (writesize (lower ni))"
    by (auto simp: page_chunk_def Let_def word_less_nat_alt)
  then show "unat (n - page_chunk ni l n) = unat n - unat (page_chunk ni l n)"
    by (intro unat_sub) (simp add: word_le_nat_alt)
qed

lemma read_direct_post:
  assumes "chip_ok ni" and "unat (writesize (lower ni)) \<le> length d"
  shows "post (nmbm_read_phys_page ni addr (Some d) None mode)
    (\<lambda>(r, d', ob, ni1). \<exists>b. d' = Some b \<and> length b = length d \<and> arg_le ni ni1)"
  using nmbm_read_phys_page_post [OF assms(1), of "Some d" None addr mode] assms(2)
  by (auto simp: room_def same_shape_Some elim: post_mono)

lemma read_data_loop_post:
  assumes "chip_ok ni" and "ptr + unat n \<le> length data"
  shows "post (read_data_loop ni off data ptr n)
    (\<lambda>(r, data', ni'). dev_le ni ni' \<and> length data' = length data \<and> r \<le> 0)"
  using assms
proof (induction "unat n" arbitrary: ni off data ptr n rule: less_induct)
  case less
  show ?case
  proof (cases "n = 0")
    case True
    then show ?thesis by (subst read_data_loop.simps) simp
  next
    case False
    let ?W = "unat (writesize (lower ni))" and ?l = "page_leading ni off"
    let ?c = "page_chunk ni ?l n"
    note c = page_chunk_facts [OF less.prems(1) False page_leading_less [OF less.prems(1), of off]]
    have step: "post (read_data_loop ni1 (off + ucast ?c) data1 (ptr + unat ?c) (n - ?c))
        (\<lambda>(r, data', ni'). dev_le ni ni' \<and> length data' = length data \<and> r \<le> 0)"
      if le: "dev_le ni ni1" and ld: "length data1 = length data" for data1 ni1
    proof -
      have "post (read_data_loop ni1 (off + ucast ?c) data1 (ptr + unat ?c) (n - ?c))
        (\<lambda>(r, data', ni'). dev_le ni1 ni' \<and> length data' = length data1 \<and> r \<le> 0)"
        using less.prems le ld c by (intro less.hyps) (auto intro: chip_ok_dev_le)
      then show ?thesis using le ld by (auto elim!: post_mono intro: dev_le_trans)
    qed
    have whole: "post (nmbm_read_phys_page ni a (Some (drop ptr data)) None m)
      (\<lambda>(r, d', ob, ni1). \<exists>b. d' = Some b \<and> length b = length data - ptr \<and> arg_le ni ni1)"
      if "?c = writesize (lower ni)" for a m
      using read_direct_post [OF less.prems(1), of "drop ptr data"] that c(2) less.prems(2) by simp
    have partial: "post (nmbm_read_phys_page ni a (Some (page_cache ni)) None m)
      (\<lambda>(r, d, ob, ni1). dev_le ni (put_cache ni1 d))" for a m
      by (rule read_cache_post [OF less.prems(1)])
    have step_whole: "post (read_data_loop ni1 (off + ucast (writesize (lower ni))) data1 (ptr + ?W) (n - writesize (lower ni)))
        (\<lambda>(r, data', ni'). dev_le ni ni' \<and> length data' = length data \<and> r \<le> 0)"
      if "?c = writesize (lower ni)" "arg_le ni ni1" "length data1 = length data" for data1 ni1
      using step [of ni1 data1] that by (simp add: arg_le_dev_le)
    have cache: "unat ?l + unat ?c \<le> length (page_cache ni)"
      using c(3) chip_ok_geometry(3) [OF less.prems(1)] by linarith
    show ?thesis
      using False less.prems(2) c(2) cache
      by (subst read_data_loop.simps)
        (auto simp: Let_def dev_le_cong(4) intro!: step step_whole post_mono [OF whole] post_mono [OF partial] arg_le_dev_le)
  qed
qed

lemma read_cache_after:
  assumes "chip_ok ni" and "dev_le ni ni1"
  shows "post (nmbm_read_phys_page ni1 addr (Some (page_cache ni1)) None mode)
    (\<lambda>(r, d, ob, ni2). dev_le ni (put_cache ni2 d))"
  by (rule post_mono [OF read_cache_post [OF chip_ok_dev_le [OF assms(2,1)]]])
    (auto intro: dev_le_trans [OF assms(2)])

lemma write_verify_loop_post:
  assumes "chip_ok ni" and "ptr + unat n \<le> length data"
  shows "post (write_verify_loop ni off data ptr n) (\<lambda>(r, ni'). dev_le ni ni')"
  using assms
proof (induction "unat n" arbitrary: ni off ptr n rule: less_induct)
  case less
  show ?case
  proof (cases "n = 0")
    case True
    then show ?thesis by (subst write_verify_loop.simps) simp
  next
    case False
    let ?l = "page_leading ni off"
    let ?c = "page_chunk ni ?l n"
    let ?src = "take (unat ?c) (drop ptr data)" and ?ff = "replicate (unat (rawpage_size ni)) (0xff :: u8)"
    let ?pc = "take (unat ?l) ?ff @ ?src @ drop (unat ?l + unat ?c) ?ff"
    note g = chip_ok_geometry [OF less.prems(1)]
    note c = page_chunk_facts [OF less.prems(1) False page_leading_less [OF less.prems(1), of off]]
    have fit: "unat ?l + unat ?c \<le> length (page_cache ni)" using c(3) g(3) by linarith
    have src: "length ?src = unat ?c" using c(2) less.prems(2) by simp
    have pc: "length ?pc = length (page_cache ni)"
      using fit g(5) c(2) less.prems(2) by (simp add: min_absorb2)
    have step: "post (write_verify_loop ni1 (off + ucast ?c) data (ptr + unat ?c) (n - ?c))
        (\<lambda>(r, ni'). dev_le ni ni')" if le: "dev_le ni ni1" for ni1
    proof -
      have "post (write_verify_loop ni1 (off + ucast ?c) data (ptr + unat ?c) (n - ?c)) (\<lambda>(r, ni'). dev_le ni1 ni')"
        using less.prems le c by (intro less.hyps) (auto intro: chip_ok_dev_le)
      then show ?thesis using le by (auto elim!: post_mono intro: dev_le_trans)
    qed
    have eq: "write_verify_loop ni off data ptr n = do {
        (success, ni1) \<leftarrow> nmbm_write_phys_page (ni\<lparr>page_cache := ?pc\<rparr>) (off - ucast ?l) (Some ?pc) None NMBM_MODE_PLACE_OOB;
        if \<not> success then Some (False, ni1)
        else do {
          (ret, d, _, ni1) \<leftarrow>
            nmbm_read_phys_page ni1 (off - ucast ?l) (Some (page_cache ni1)) None NMBM_MODE_PLACE_OOB;
          let ni1 = put_cache ni1 d;
          if ret < 0 then Some (False, ni1)
          else do {
            got \<leftarrow> mem_get (page_cache ni1) (unat ?l) (unat ?c);
            if got \<noteq> ?src then Some (False, ni1)
            else write_verify_loop ni1 (off + ucast ?c) data (ptr + unat ?c) (n - ?c)
          }
        }
      }"
      using False fit g src less.prems(2) c(2)
      by (subst write_verify_loop.simps) (simp add: mem_get_def mem_put_def Let_def)
    show ?thesis
      unfolding eq
      by (rule post_bindI [OF write_cache_post [OF less.prems(1) pc]])
        (auto simp: Let_def dev_le_cong(4) fit intro!: step post_mono [OF read_cache_after [OF less.prems(1)]])
  qed
qed

lemma nmbn_read_data_post:
  assumes "chip_ok ni" and "unat n \<le> length data"
  shows "post (nmbn_read_data ni addr data n)
    (\<lambda>(r, data', ni'). dev_le ni ni' \<and> length data' = length data \<and> r \<le> 0)"
  using assms by (simp add: nmbn_read_data_def read_data_loop_post)

lemma nmbn_write_verify_data_post:
  assumes "chip_ok ni" and "unat n \<le> length data"
  shows "post (nmbn_write_verify_data ni addr data n) (\<lambda>(r, ni'). dev_le ni ni')"
  using assms by (simp add: nmbn_write_verify_data_def write_verify_loop_post)

lemma write_mgmt_block_post:
  assumes "state_ok ni" and "ba < block_count ni" and "unat n \<le> length data"
  shows "post (write_mgmt_block ni ba data n)
    (\<lambda>(w, ni'). touched {ba} ni ni' \<and> w = good (block_state ni') ba)"
proof -
  have chip: "chip_ok ni1" if "dev_le ni ni1" for ni1
    using chip_ok_dev_le [OF that state_ok_chip [OF assms(1)]] .
  have erase: "post (nmbm_erase_block_and_check ni1 ba) (\<lambda>(r, ni'). dev_le ni ni')" if d: "dev_le ni ni1" for ni1
    using nmbm_erase_block_and_check_post [OF chip [OF d], of ba]
    by (rule post_mono) (auto intro: dev_le_trans [OF d])
  have put: "post (nmbn_write_verify_data ni1 (ba2addr ni1 ba) data n) (\<lambda>(r, ni'). dev_le ni ni')"
    if d: "dev_le ni ni1" for ni1
    by (rule post_mono [OF nmbn_write_verify_data_post [OF chip [OF d] assms(3)]])
      (auto intro: dev_le_trans [OF d])
  show ?thesis
    using assms state_ok_table [OF assms(1,2)]
    by (auto simp: write_mgmt_block_def dev_le_touched dev_le_cong(3) intro!: post_mono [OF check_bad_touched]
        post_mono [OF mark_if_bad_post] post_mono [OF erase] post_mono [OF put] post_mono [OF retire_after_post])
qed

text \<open>\<open>chunks e n\<close> is the number of blocks of \<open>e\<close> bytes that \<open>n\<close> bytes need.\<close>

definition chunks :: "nat \<Rightarrow> nat \<Rightarrow> nat" where
  "chunks e n = (n + e - 1) div e"

lemma chunks_0 [simp]: "0 < e \<Longrightarrow> chunks e 0 = 0"
  by (simp add: chunks_def)

lemma chunks_step:
  assumes "0 < n" and "0 < e"
  shows "chunks e n = Suc (chunks e (n - min e n))"
proof -
  have "n + e - 1 = (n - 1) + e" using assms by simp
  then have "chunks e n = ((n - 1) + e) div e" by (simp only: chunks_def)
  also have "\<dots> = (n - 1) div e + 1" by (rule div_add_self2) (use assms in simp)
  finally have l: "chunks e n = Suc ((n - 1) div e)" by simp
  show ?thesis
  proof (cases "n \<le> e")
    case True
    then show ?thesis using l assms by simp
  next
    case False
    then have "n - min e n + e - 1 = n - 1" using assms by simp
    then show ?thesis using l by (simp add: chunks_def)
  qed
qed

lemma chunks_pos: "0 < n \<Longrightarrow> 0 < e \<Longrightarrow> 0 < chunks e n"
  by (simp add: chunks_step)

text \<open>What a run of \<open>nmbm_write_mgmt_range\<close> from block \<open>ba\<close> returns: on success it used
  exactly the good blocks it passed, one per chunk, and \<open>start\<close> is the first of them; it only
  fails when the range has fewer good blocks left than chunks.\<close>

definition mgmt_result ::
    "u32 list \<Rightarrow> u32 \<Rightarrow> u32 \<Rightarrow> nat \<Rightarrow> u32 option \<Rightarrow> (u32 \<times> u32) option \<Rightarrow> bool" where
  "mgmt_result bs ba limit k start r \<longleftrightarrow>
     (case r of
        Some (s, e) \<Rightarrow> ba \<le> e \<and> (e \<le> limit \<or> e = ba) \<and> goods bs ba e = k \<and>
          (case start of
             None \<Rightarrow> ba \<le> s \<and> s < e \<and> good bs s \<and> goods bs ba s = 0
           | Some s0 \<Rightarrow> s = s0)
      | None \<Rightarrow> goods bs ba limit < k)"

lemma mgmt_result_skip:
  assumes "ba < limit" and "\<not> good bs ba" and "0 < k" and "mgmt_result bs (ba + 1) limit k start r"
  shows "mgmt_result bs ba limit k start r"
proof (cases r)
  case None
  then show ?thesis using assms by (simp add: mgmt_result_def goods_low)
next
  case (Some p)
  obtain s e where p: "p = (s, e)" by (cases p)
  have e: "ba + 1 \<le> e" "e \<le> limit \<or> e = ba + 1" "goods bs (ba + 1) e = k"
    and st: "case start of None \<Rightarrow> ba + 1 \<le> s \<and> s < e \<and> good bs s \<and> goods bs (ba + 1) s = 0 | Some s0 \<Rightarrow> s = s0"
    using assms(4) by (simp_all add: mgmt_result_def Some p)
  have u: "ba + 1 \<le> x \<longleftrightarrow> ba < x" for x
    using unat_inc [OF assms(1)] by (auto simp: word_le_nat_alt word_less_nat_alt)
  show ?thesis
    using e st assms(1,2) by (auto simp: mgmt_result_def Some p u goods_low less_imp_le split: option.splits)
qed

lemma mgmt_result_use:
  assumes "ba < limit" and "good bs ba" and "mgmt_result bs (ba + 1) limit k (Some s0) r"
    and "start = Some s0 \<or> start = None \<and> s0 = ba"
  shows "mgmt_result bs ba limit (Suc k) start r"
proof (cases r)
  case None
  then show ?thesis using assms by (simp add: mgmt_result_def goods_low)
next
  case (Some p)
  obtain s e where p: "p = (s, e)" by (cases p)
  have e: "ba + 1 \<le> e" "e \<le> limit \<or> e = ba + 1" "goods bs (ba + 1) e = k" and s: "s = s0"
    using assms(3) by (simp_all add: mgmt_result_def Some p)
  have u: "ba + 1 \<le> x \<longleftrightarrow> ba < x" for x
    using unat_inc [OF assms(1)] by (auto simp: word_le_nat_alt word_less_nat_alt)
  show ?thesis
    using e s assms(1,2,4) by (auto simp: mgmt_result_def Some p u goods_low less_imp_le split: option.splits)
qed

lemma goods_cong:
  "(\<And>b. i \<le> b \<Longrightarrow> b < j \<Longrightarrow> st_of bs b = st_of bs' b) \<Longrightarrow> goods bs i j = goods bs' i j"
  unfolding goods_def by (rule arg_cong [where f = card]) auto

lemma write_mgmt_loop_post:
  assumes "state_ok ni" and "limit \<le> block_count ni" and "unat n \<le> length data"
    and "start = None \<longleftrightarrow> n = sz" and "n \<le> sz" and "0 < sz"
  shows "post (write_mgmt_loop ni ba limit data sz n start) (\<lambda>(r, ni'). touched {ba..<limit} ni ni' \<and>
    mgmt_result (block_state ni') ba limit (chunks (unat (erasesize (lower ni))) (unat n)) start r)"
  using assms
proof (induction "unat limit - unat ba" arbitrary: ni ba data n start rule: less_induct)
  case less
  let ?E = "erasesize (lower ni)"
  have E: "0 < unat ?E" by (simp add: chip_ok_geometry(2) [OF state_ok_chip [OF less.prems(1)]])
  show ?case
  proof (cases "n \<noteq> 0 \<and> ba < limit")
    case False
    then show ?thesis
      using less.prems(4,6) E chunks_pos [of "unat n" "unat ?E"]
      by (subst write_mgmt_loop.simps)
        (auto simp: mgmt_result_def unat_gt_0 split: option.splits)
  next
    case True
    let ?c = "if n > ?E then ?E else n"
    have c: "unat ?c = min (unat ?E) (unat n)" by (auto simp: word_less_nat_alt)
    have nc: "unat (n - ?c) = unat n - unat ?c"
      by (intro unat_sub) (auto simp: word_le_nat_alt word_less_nat_alt)
    have n0: "0 < unat n" using True by (simp add: unat_gt_0)
    have sub: "{ba + 1..<limit} \<subseteq> {ba..<limit}" using upto_insert [of ba limit] True by auto
    have ba: "ba \<notin> {ba + 1..<limit}" using True by (auto simp: word_le_nat_alt unat_inc)
    have skip: "post (write_mgmt_loop ni1 (ba + 1) limit data sz n start) (\<lambda>(r, ni'). touched {ba..<limit} ni ni' \<and>
        mgmt_result (block_state ni') ba limit (chunks (unat ?E) (unat n)) start r)"
      if w: "touched {ba} ni ni1" and g: "\<not> good (block_state ni1) ba" for ni1
    proof -
      have "post (write_mgmt_loop ni1 (ba + 1) limit data sz n start) (\<lambda>(r, ni'). touched {ba + 1..<limit} ni1 ni' \<and>
          mgmt_result (block_state ni') (ba + 1) limit (chunks (unat (erasesize (lower ni1))) (unat n)) start r)"
        using True w less.prems unat_inc_measure [of ba limit]
        by (intro less.hyps) (auto simp: touched_cong(2) [OF w] intro: state_ok_touched)
      then show ?thesis
        by (rule post_mono)
          (use True g w n0 E in \<open>auto simp: touched_cong(1) [OF w] touched_other [OF _ ba]
            intro: touched_trans [OF w _ _ sub] mgmt_result_skip chunks_pos\<close>)
    qed
    have take: "post (write_mgmt_loop ni1 (ba + 1) limit (drop (unat ?c) data) sz (n - ?c) (if n = sz then Some ba else start))
        (\<lambda>(r, ni'). touched {ba..<limit} ni ni' \<and>
          mgmt_result (block_state ni') ba limit (chunks (unat ?E) (unat n)) start r)"
      if w: "touched {ba} ni ni1" and g: "good (block_state ni1) ba" for ni1
    proof -
      obtain s0 where s0: "(if n = sz then Some ba else start) = Some s0" "start = Some s0 \<or> start = None \<and> s0 = ba"
        using less.prems(4) by (cases start) auto
      have "unat (n - ?c) < unat sz" using nc c E n0 less.prems(5) by (simp add: word_le_nat_alt)
      then have "n - ?c < sz" by (simp add: word_less_nat_alt)
      then have "post (write_mgmt_loop ni1 (ba + 1) limit (drop (unat ?c) data) sz (n - ?c) (Some s0))
        (\<lambda>(r, ni'). touched {ba + 1..<limit} ni1 ni' \<and>
          mgmt_result (block_state ni') (ba + 1) limit (chunks (unat (erasesize (lower ni1))) (unat (n - ?c))) (Some s0) r)"
        using True w less.prems unat_inc_measure [of ba limit] nc
        by (intro less.hyps) (auto simp: touched_cong(2) [OF w] intro: state_ok_touched)
      moreover have "chunks (unat ?E) (unat n) = Suc (chunks (unat ?E) (unat (n - ?c)))"
        unfolding nc c using n0 E by (simp add: chunks_step min.commute)
      ultimately show ?thesis
        unfolding s0(1) by (elim post_mono)
          (use True g w s0(2) in \<open>auto simp: touched_cong(1) [OF w] touched_other [OF _ ba]
            intro!: touched_trans [OF w _ _ sub] mgmt_result_use\<close>)
    qed
    have lt: "ba < block_count ni" using True less.prems(2) by (auto intro: less_le_trans)
    have len: "unat ?c \<le> length data" using c less.prems(3) by simp
    have eq: "write_mgmt_loop ni ba limit data sz n start = write_mgmt_block ni ba data ?c \<bind> (\<lambda>(w, ni1).
        if w then write_mgmt_loop ni1 (ba + 1) limit (drop (unat ?c) data) sz (n - ?c) (if n = sz then Some ba else start)
        else write_mgmt_loop ni1 (ba + 1) limit data sz n start)"
      by (subst write_mgmt_loop.simps) (simp only: Let_def if_P [OF True])
    show ?thesis
      unfolding eq
      by (rule post_bindI [OF write_mgmt_block_post [OF less.prems(1) lt len]])
        (clarify, rule conjI [THEN if_split [where P = "\<lambda>m. post m _", THEN iffD2]], blast intro: take, blast intro: skip)
  qed
qed

section \<open>The info table image\<close>

text \<open>\<open>tables_ok\<close> is the layout of the info table that \<open>nmbm_init_structure\<close> computes: the
  header, the state table and the mapping table lie in the cache, in this order, apart.\<close>

definition tables_ok :: "'c nmbm_instance \<Rightarrow> bool" where
  "tables_ok ni \<longleftrightarrow>
     length (info_table_cache ni) = unat (info_table_size ni) \<and>
     unat (state_table_size ni) = 4 * length (block_state ni) \<and>
     unat (mapping_table_size ni) = 4 * length (block_mapping ni) \<and>
     length (block_mapping ni) = unat (block_count ni) \<and>
     32 \<le> unat (state_table_off (info_table ni)) \<and>
     unat (state_table_off (info_table ni)) + unat (state_table_size ni) \<le> unat (mapping_table_off (info_table ni)) \<and>
     unat (mapping_table_off (info_table ni)) + unat (mapping_table_size ni) \<le> unat (info_table_size ni)"

text \<open>The image in \<open>buf\<close> holds the state table, the mapping table and a valid header.\<close>

definition image_of :: "'c nmbm_instance \<Rightarrow> u8 list \<Rightarrow> bool" where
  "image_of ni buf \<longleftrightarrow>
     length buf = unat (info_table_size ni) \<and>
     (\<exists>w. info_table_of_bytes (take 32 buf) = info_table ni\<lparr>ift_header := (ift_header (info_table ni))\<lparr>checksum := w\<rparr>\<rparr>) \<and>
     magic (ift_header (info_table ni)) = NMBM_MAGIC_INFO_TABLE \<and>
     version (ift_header (info_table ni)) = NMBM_VER \<and>
     hsize (ift_header (info_table ni)) = info_table_size ni \<and>
     mem_get buf (unat (state_table_off (info_table ni))) (unat (state_table_size ni)) = Some (bytes_of_words (block_state ni)) \<and>
     mem_get buf (unat (mapping_table_off (info_table ni))) (unat (mapping_table_size ni)) = Some (bytes_of_words (block_mapping ni)) \<and>
     (crc_chains (os_crc32_le (lower ni)) \<longrightarrow>
        nmbm_check_header (os_crc32_le (lower ni)) buf (info_table_size ni) = Some True)"

lemma header_take [simp]:
  "header_of_bytes (take 16 (header_bytes h @ xs)) = h"
  by simp

lemma mem_put_Some: "off + length bs \<le> length buf \<Longrightarrow> \<exists>buf'. mem_put buf off bs = Some buf'"
  by (simp add: mem_put_def)

lemma update_checksum_total:
  assumes "unat (hsize (header_of_bytes (take 16 data))) \<le> length data" and "16 \<le> length data"
  shows "\<exists>c. nmbm_update_checksum f data = Some (take 12 data @ bytes_of_u32 c @ drop 16 data)"
  using assms by (simp add: nmbm_update_checksum_def wr32_def mem_get_def mem_put_def) blast

lemma image_header:
  assumes "take 32 buf = info_table_bytes t"
  shows "header_of_bytes (take 16 buf) = ift_header t"
    and "16 \<le> length buf \<Longrightarrow> info_table_of_bytes (take 32 (take 12 buf @ bytes_of_u32 c @ drop 16 buf)) =
      t\<lparr>ift_header := (ift_header t)\<lparr>checksum := c\<rparr>\<rparr>"
proof -
  have "take 16 buf = take 16 (take 32 buf)" by simp
  then show "header_of_bytes (take 16 buf) = ift_header t"
    by (simp add: assms info_table_bytes_def)
  assume l: "16 \<le> length buf"
  have "take 16 (drop 16 buf) = drop 16 (take 32 buf)" by (simp add: drop_take)
  moreover have "take 12 buf = take 12 (take 32 buf)" by simp
  ultimately have "take 32 (take 12 buf @ bytes_of_u32 c @ drop 16 buf) =
      take 12 (info_table_bytes t) @ bytes_of_u32 c @ drop 16 (info_table_bytes t)"
    using l by (simp add: assms)
  also have "\<dots> = info_table_bytes (t\<lparr>ift_header := (ift_header t)\<lparr>checksum := c\<rparr>\<rparr>)"
    by (simp add: info_table_bytes_def header_bytes_def)
  finally show "info_table_of_bytes (take 32 (take 12 buf @ bytes_of_u32 c @ drop 16 buf)) =
      t\<lparr>ift_header := (ift_header t)\<lparr>checksum := c\<rparr>\<rparr>"
    by (simp add: info_table_image.dec_enc)
qed

lemma mem_get_splice:
  assumes "16 \<le> length buf" and "16 \<le> off"
  shows "mem_get (take 12 buf @ bytes_of_u32 c @ drop 16 buf) off n = mem_get buf off n"
proof -
  have "mem_put buf 12 (bytes_of_u32 c) = Some (take 12 buf @ bytes_of_u32 c @ drop 16 buf)"
    using assms(1) by (simp add: mem_put_def)
  from mem_get_put_after [OF this, of off] assms(2) show ?thesis by simp
qed

lemma generate_image:
  assumes "tables_ok ni"
  shows "\<exists>it c. nmbm_generate_info_table_cache ni =
      Some (block_state_changed ni \<noteq> 0 \<or> block_mapping_changed ni \<noteq> 0, ni\<lparr>info_table := it, info_table_cache := c\<rparr>) \<and>
    image_of (ni\<lparr>info_table := it, info_table_cache := c\<rparr>) c \<and>
    state_table_off it = state_table_off (info_table ni) \<and> mapping_table_off it = mapping_table_off (info_table ni)"
proof -
  note t = assms [unfolded tables_ok_def]
  let ?ch = "block_state_changed ni \<noteq> 0 \<or> block_mapping_changed ni \<noteq> 0"
  let ?so = "unat (state_table_off (info_table ni))" and ?mo = "unat (mapping_table_off (info_table ni))"
  let ?S = "bytes_of_words (block_state ni)" and ?M = "bytes_of_words (block_mapping ni)"
  let ?it0 = "(info_table ni)\<lparr>ift_header := (ift_header (info_table ni))\<lparr>magic := NMBM_MAGIC_INFO_TABLE,
                version := NMBM_VER, hsize := info_table_size ni\<rparr>\<rparr>"
  obtain it where it: "it = (if ?ch then ?it0\<lparr>write_count := write_count ?it0 + 1\<rparr> else ?it0)" by simp
  have off: "unat (state_table_off it) = ?so" "unat (mapping_table_off it) = ?mo"
    "magic (ift_header it) = NMBM_MAGIC_INFO_TABLE" "version (ift_header it) = NMBM_VER"
    "hsize (ift_header it) = info_table_size ni"
    by (simp_all add: it)
  let ?c0 = "replicate (unat (info_table_size ni)) (0xff :: u8)"
  have c0: "mem_put (info_table_cache ni) 0 ?c0 = Some ?c0" using t by (simp add: mem_put_def)
  obtain c1 where c1: "mem_put ?c0 ?so ?S = Some c1" "length c1 = unat (info_table_size ni)"
    using mem_put_Some [of ?so ?S ?c0] mem_put_length [of ?c0 ?so ?S] t by auto
  obtain c2 where c2: "mem_put c1 ?mo ?M = Some c2" "length c2 = unat (info_table_size ni)"
    using mem_put_Some [of ?mo ?M c1] mem_put_length [of c1 ?mo ?M] t c1 by auto
  obtain c3 where c3: "mem_put c2 0 (info_table_bytes it) = Some c3" "length c3 = unat (info_table_size ni)"
    using mem_put_Some [of 0 "info_table_bytes it" c2] mem_put_length [of c2 0 "info_table_bytes it"] t c2 by auto
  have h3: "take 32 c3 = info_table_bytes it" using c3 by (auto simp: mem_put_def split: if_splits)
  have l3: "16 \<le> length c3" using c3 t by simp
  note h = image_header [OF h3]
  obtain w where w: "nmbm_update_checksum (os_crc32_le (lower ni)) c3 = Some (take 12 c3 @ bytes_of_u32 w @ drop 16 c3)"
    using update_checksum_total [of c3] h(1) l3 c3 off(5) by auto
  let ?c = "take 12 c3 @ bytes_of_u32 w @ drop 16 c3"
  let ?n = "ni\<lparr>info_table := it, info_table_cache := ?c\<rparr>"
  have "nmbm_generate_info_table_cache ni = Some (?ch, ?n)"
    using c0 c1(1) c2(1) c3(1) w t
    by (cases ?ch) (simp_all add: nmbm_generate_info_table_cache_def Let_def mem_get_def it)
  moreover have "image_of ?n ?c"
  proof -
    have "mem_get ?c ?so (unat (state_table_size ni)) = Some ?S"
      using mem_get_put_same [OF c1(1)] mem_get_put_before [OF c2(1)] mem_get_put_after [OF c3(1)] t
      by (simp add: mem_get_splice [OF l3])
    moreover have "mem_get ?c ?mo (unat (mapping_table_size ni)) = Some ?M"
      using mem_get_put_same [OF c2(1)] mem_get_put_after [OF c3(1)] t
      by (simp add: mem_get_splice [OF l3])
    moreover have "nmbm_check_header (os_crc32_le (lower ni)) ?c (info_table_size ni) = Some True"
      if "crc_chains (os_crc32_le (lower ni))"
      using that w h(1) off(5) t by (intro update_checksum_check [OF that w]) simp_all
    ultimately show ?thesis using h(2) [OF l3, of w] off c3 l3 by (auto simp: image_of_def)
  qed
  moreover have "state_table_off it = state_table_off (info_table ni)"
    "mapping_table_off it = mapping_table_off (info_table ni)" by (simp_all add: it)
  ultimately show ?thesis by blast
qed

end
