(* ===== verification/Nmbm_Tables.thy ===== *)
theory Nmbm_Tables
  imports Nmbm_Mgmt
begin

text \<open>
  Keeping the main and the backup info table of \<open>nmbm-core.c\<close> up to date: rebuilding them,
  rescuing a table when one cannot be written any more, the update loop, and the mapping of a
  bad logic block to a spare block.  The result pair of an operation is its C return value and
  the instance.  \<open>nmbm_mark_block_color_*\<close> are empty (\<open>nmbm-debug.h\<close>).
\<close>

section \<open>Rebuilding and rescuing\<close>

text \<open>The bound for the spare blocks of a table: the last place where a table still fits.\<close>

definition last_table_ba :: "'c nmbm_instance \<Rightarrow> u32" where
  "last_table_ba ni = mapping_blocks_top_ba ni - size2blk ni (ucast (info_table_size ni))"

text \<open>The part of \<open>nmbm_rebuild_info_table\<close> after the main table is written.\<close>

definition rebuild_backup :: "'c nmbm_instance \<Rightarrow> u32 \<Rightarrow> (bool \<times> 'c nmbm_instance) option" where
  "rebuild_backup ni main_table_end_ba = do {
     nba \<leftarrow> nmbm_try_reserve_blocks ni main_table_end_ba (info_table_spare_blocks ni) 0 (last_table_ba ni);
     (case nba of
        None \<Rightarrow> Some (True, ni)
      | Some next_start_ba \<Rightarrow> do {
          (r, ni) \<leftarrow> nmbm_write_info_table ni next_start_ba (mapping_blocks_top_ba ni);
          (case r of
             None \<Rightarrow> Some (True, ni)
           | Some (table_start_ba, table_end_ba) \<Rightarrow> do {
               let ni = ni\<lparr>backup_table_ba := table_start_ba, mapping_blocks_ba := table_end_ba\<rparr>;
               ni \<leftarrow> nmbm_erase_range ni main_table_end_ba (backup_table_ba ni);
               Some (True, ni)
             })
        })
   }"

definition nmbm_rebuild_info_table :: "'c nmbm_instance \<Rightarrow> (bool \<times> 'c nmbm_instance) option" where
  "nmbm_rebuild_info_table ni = do {
     let ni = ni\<lparr>main_table_ba := 0, backup_table_ba := 0, mapping_blocks_ba := mapping_blocks_top_ba ni\<rparr>;
     (r, ni) \<leftarrow> nmbm_write_info_table ni (mgmt_start_ba ni) (mapping_blocks_top_ba ni);
     (case r of
        None \<Rightarrow> Some (False, ni\<lparr>protected := True\<rparr>)
      | Some (table_start_ba, table_end_ba) \<Rightarrow>
          (let ni = nmbm_mark_tables_clean (ni\<lparr>main_table_ba := table_start_ba, mapping_blocks_ba := table_end_ba\<rparr>) in
           rebuild_backup ni table_end_ba))
   }"

text \<open>The loops that try to write a table at \<open>write_ba\<close> and then at every lower block not below
  \<open>floor\<close>.  \<open>None\<close> in the result is the loop ending without success.\<close>

partial_function (option) write_down_loop ::
    "'c nmbm_instance \<Rightarrow> u32 \<Rightarrow> u32 \<Rightarrow> ((u32 \<times> u32) option \<times> 'c nmbm_instance) option" where
  "write_down_loop ni write_ba floor =
     (if write_ba \<ge> floor then do {
        (r, ni) \<leftarrow> nmbm_write_info_table ni write_ba (mapping_blocks_top_ba ni);
        if r \<noteq> None then Some (r, ni) else write_down_loop ni (write_ba - 1) floor
      } else Some (None, ni))"

text \<open>The part of \<open>nmbm_rescue_single_info_table\<close> that writes behind the existing table.\<close>

definition rescue_behind :: "'c nmbm_instance \<Rightarrow> (bool \<times> 'c nmbm_instance) option" where
  "rescue_behind ni = do {
     nba \<leftarrow> nmbm_try_reserve_blocks ni (mapping_blocks_ba ni) (info_table_spare_blocks ni) 0 (last_table_ba ni);
     (case nba of
        None \<Rightarrow> Some (False, ni)
      | Some write_ba \<Rightarrow> do {
          (r, ni) \<leftarrow> write_down_loop ni write_ba (mapping_blocks_ba ni);
          (case r of
             Some (table_start_ba, table_end_ba) \<Rightarrow> do {
               ni \<leftarrow> nmbm_erase_range ni (mapping_blocks_ba ni) table_start_ba;
               let ni = ni\<lparr>backup_table_ba := table_start_ba, mapping_blocks_ba := table_end_ba\<rparr>;
               Some (True, nmbm_mark_tables_clean ni)
             }
           | None \<Rightarrow> Some (False, ni))
        })
   }"

definition nmbm_rescue_single_info_table :: "'c nmbm_instance \<Rightarrow> (bool \<times> 'c nmbm_instance) option" where
  "nmbm_rescue_single_info_table ni = do {
     (r, ni) \<leftarrow> nmbm_write_info_table ni (mgmt_start_ba ni) (main_table_ba ni);
     (case r of
        Some (table_start_ba, table_end_ba) \<Rightarrow> do {
          let ni = ni\<lparr>backup_table_ba := main_table_ba ni, main_table_ba := table_start_ba\<rparr>;
          let ni = nmbm_mark_tables_clean ni;
          ni \<leftarrow> nmbm_erase_range ni table_end_ba (backup_table_ba ni);
          Some (True, ni)
        }
      | None \<Rightarrow> rescue_behind ni)
   }"

definition nmbm_update_single_info_table ::
    "'c nmbm_instance \<Rightarrow> bool \<Rightarrow> (bool \<times> 'c nmbm_instance) option" where
  "nmbm_update_single_info_table ni update_main_table = do {
     let (write_start_ba, write_limit) =
       (if update_main_table then (main_table_ba ni, backup_table_ba ni)
        else (backup_table_ba ni, mapping_blocks_top_ba ni));
     (r, ni) \<leftarrow> nmbm_write_info_table ni write_start_ba write_limit;
     (case r of
        Some (table_start_ba, table_end_ba) \<Rightarrow>
          (let ni = (if update_main_table then ni\<lparr>main_table_ba := table_start_ba\<rparr>
                     else ni\<lparr>backup_table_ba := table_start_ba, mapping_blocks_ba := table_end_ba\<rparr>) in
           Some (True, nmbm_mark_tables_clean ni))
      | None \<Rightarrow>
          if update_main_table then
            nmbm_rescue_single_info_table (ni\<lparr>main_table_ba := backup_table_ba ni, backup_table_ba := 0\<rparr>)
          else Some (False, ni\<lparr>mapping_blocks_ba := backup_table_ba ni, backup_table_ba := 0\<rparr>))
   }"

section \<open>Updating both tables\<close>

text \<open>The part of \<open>nmbm_rescue_main_info_table\<close> after the new main table has overwritten the
  temporary one: a new backup table behind it.\<close>

definition rescue_new_backup :: "'c nmbm_instance \<Rightarrow> u32 \<Rightarrow> (bool \<times> 'c nmbm_instance) option" where
  "rescue_new_backup ni main_table_end_ba = do {
     let ni = ni\<lparr>mapping_blocks_ba := main_table_end_ba\<rparr>;
     nba \<leftarrow> nmbm_try_reserve_blocks ni main_table_end_ba (info_table_spare_blocks ni) 0 (last_table_ba ni);
     (case nba of
        None \<Rightarrow> Some (True, ni\<lparr>backup_table_ba := 0\<rparr>)
      | Some write_ba \<Rightarrow> do {
          (r, ni) \<leftarrow> write_down_loop ni write_ba main_table_end_ba;
          (case r of
             None \<Rightarrow> Some (True, ni\<lparr>backup_table_ba := 0\<rparr>)
           | Some (tmp_table_start_ba, tmp_table_end_ba) \<Rightarrow> do {
               let ni = ni\<lparr>backup_table_ba := tmp_table_start_ba, mapping_blocks_ba := tmp_table_end_ba\<rparr>;
               ni \<leftarrow> nmbm_erase_range ni main_table_end_ba (backup_table_ba ni);
               Some (True, ni)
             })
        })
   }"

definition nmbm_rescue_main_info_table :: "'c nmbm_instance \<Rightarrow> (bool \<times> 'c nmbm_instance) option" where
  "nmbm_rescue_main_info_table ni = do {
     nba \<leftarrow> nmbm_try_reserve_blocks ni (mapping_blocks_ba ni) (info_table_spare_blocks ni) 0 (last_table_ba ni);
     (case nba of
        None \<Rightarrow> Some (True, ni\<lparr>main_table_ba := backup_table_ba ni, backup_table_ba := 0\<rparr>)
      | Some write_ba \<Rightarrow> do {
          (r, ni) \<leftarrow> write_down_loop ni write_ba (mapping_blocks_ba ni);
          (case r of
             None \<Rightarrow> Some (True, ni\<lparr>main_table_ba := backup_table_ba ni, backup_table_ba := 0\<rparr>)
           | Some (tmp_table_start_ba, tmp_table_end_ba) \<Rightarrow> do {
               let ni = ni\<lparr>mapping_blocks_ba := tmp_table_end_ba\<rparr>;
               (r, ni) \<leftarrow> nmbm_write_info_table ni (mgmt_start_ba ni) tmp_table_start_ba;
               (case r of
                  None \<Rightarrow>
                    Some (True, nmbm_mark_tables_clean (ni\<lparr>main_table_ba := tmp_table_start_ba, backup_table_ba := 0\<rparr>))
                | Some (main_table_start_ba, main_table_end_ba) \<Rightarrow>
                    let ni = nmbm_mark_tables_clean (ni\<lparr>main_table_ba := main_table_start_ba\<rparr>) in
                    if main_table_end_ba \<le> tmp_table_start_ba
                    then Some (True, ni\<lparr>backup_table_ba := tmp_table_start_ba\<rparr>)
                    else rescue_new_backup ni main_table_end_ba)
             })
        })
   }"

text \<open>The code from the label \<open>write_main_table\<close> on.\<close>

definition write_main_table :: "'c nmbm_instance \<Rightarrow> u32 \<Rightarrow> (bool \<times> 'c nmbm_instance) option" where
  "write_main_table ni main_table_limit =
     (if main_table_ba ni = 0 then nmbm_rebuild_info_table ni
      else do {
        (r, ni) \<leftarrow> nmbm_write_info_table ni (main_table_ba ni) main_table_limit;
        (case r of
           None \<Rightarrow>
             if backup_table_ba ni = 0 then nmbm_rebuild_info_table ni
             else nmbm_rescue_main_info_table ni
         | Some (table_start_ba, table_end_ba) \<Rightarrow>
             (let ni = ni\<lparr>main_table_ba := table_start_ba\<rparr>;
                  ni = (if backup_table_ba ni = 0 then ni\<lparr>mapping_blocks_ba := table_end_ba\<rparr> else ni) in
              Some (True, nmbm_mark_tables_clean ni)))
      })"

definition nmbm_update_info_table_once ::
    "'c nmbm_instance \<Rightarrow> bool \<Rightarrow> (bool \<times> 'c nmbm_instance) option" where
  "nmbm_update_info_table_once ni force = do {
     (changed, ni) \<leftarrow> nmbm_generate_info_table_cache ni;
     if \<not> changed \<and> \<not> force then Some (True, ni)
     else if backup_table_ba ni = 0 then write_main_table ni (mapping_blocks_top_ba ni)
     else do {
       (r, ni) \<leftarrow> nmbm_write_info_table ni (backup_table_ba ni) (mapping_blocks_top_ba ni);
       (case r of
          None \<Rightarrow>
            write_main_table (ni\<lparr>mapping_blocks_ba := backup_table_ba ni, backup_table_ba := 0\<rparr>)
              (mapping_blocks_top_ba ni)
        | Some (table_start_ba, table_end_ba) \<Rightarrow>
            (let ni = nmbm_mark_tables_clean
               (ni\<lparr>backup_table_ba := table_start_ba, mapping_blocks_ba := table_end_ba\<rparr>) in
             write_main_table ni (backup_table_ba ni)))
     }
   }"

partial_function (option) update_info_table_loop ::
    "'c nmbm_instance \<Rightarrow> (bool \<times> 'c nmbm_instance) option" where
  "update_info_table_loop ni =
     (if block_state_changed ni \<noteq> 0 \<or> block_mapping_changed ni \<noteq> 0 then do {
        (success, ni) \<leftarrow> nmbm_update_info_table_once ni False;
        if \<not> success then Some (False, ni) else update_info_table_loop ni
      } else Some (True, ni))"

definition nmbm_update_info_table :: "'c nmbm_instance \<Rightarrow> (bool \<times> 'c nmbm_instance) option" where
  "nmbm_update_info_table ni =
     (if protected ni then Some (True, ni) else update_info_table_loop ni)"

section \<open>Mapping a block\<close>

definition nmbm_map_block :: "'c nmbm_instance \<Rightarrow> u32 \<Rightarrow> (bool \<times> 'c nmbm_instance) option" where
  "nmbm_map_block ni lb =
     (if mapping_blocks_ba ni = mapping_blocks_top_ba ni then Some (False, ni)
      else do {
        r \<leftarrow> nmbm_block_walk ni False (mapping_blocks_top_ba ni) 0 (mapping_blocks_ba ni);
        (case r of
           None \<Rightarrow> do {
             (_, ni) \<leftarrow> nmbm_update_info_table ni;
             Some (False, ni\<lparr>mapping_blocks_top_ba := mapping_blocks_ba ni\<rparr>)
           }
         | Some pb \<Rightarrow> do {
             m \<leftarrow> arr_set (block_mapping ni) (unat lb) pb;
             Some (True, ni\<lparr>block_mapping := m, mapping_blocks_top_ba := mapping_blocks_top_ba ni - 1,
               block_mapping_changed := block_mapping_changed ni + 1\<rparr>)
           })
      })"

declare write_down_loop.simps [code] update_info_table_loop.simps [code]

section \<open>What table maintenance may change\<close>

text \<open>\<open>upd ni ni'\<close>: from \<open>ni\<close> to \<open>ni'\<close> only the device, the caches, the bookkeeping of the
  tables and the states of blocks changed, and a block state only changed to bad.\<close>

definition upd :: "'c nmbm_instance \<Rightarrow> 'c nmbm_instance \<Rightarrow> bool" where
  "upd ni ni' \<longleftrightarrow>
     ni' = ni\<lparr>arg := arg ni', page_cache := page_cache ni', block_state := block_state ni',
       block_state_changed := block_state_changed ni', block_mapping_changed := block_mapping_changed ni',
       info_table := info_table ni', info_table_cache := info_table_cache ni',
       main_table_ba := main_table_ba ni', backup_table_ba := backup_table_ba ni',
       mapping_blocks_ba := mapping_blocks_ba ni', protected := protected ni'\<rparr> \<and>
     length (page_cache ni') = length (page_cache ni) \<and>
     length (info_table_cache ni') = length (info_table_cache ni) \<and>
     state_table_off (info_table ni') = state_table_off (info_table ni) \<and>
     mapping_table_off (info_table ni') = mapping_table_off (info_table ni) \<and>
     wears (block_count ni) (block_state ni) (block_state ni') \<and>
     (protected ni \<longrightarrow> protected ni')"

lemma upd_cong:
  assumes "upd ni ni'"
  shows "lower ni' = lower ni" and "rawpage_size ni' = rawpage_size ni" and "writesize_mask ni' = writesize_mask ni"
    and "erasesize_mask ni' = erasesize_mask ni" and "writesize_shift ni' = writesize_shift ni"
    and "erasesize_shift ni' = erasesize_shift ni" and "info_table_size ni' = info_table_size ni"
    and "info_table_spare_blocks ni' = info_table_spare_blocks ni" and "state_table_size ni' = state_table_size ni"
    and "mapping_table_size ni' = mapping_table_size ni" and "block_mapping ni' = block_mapping ni"
    and "block_count ni' = block_count ni" and "data_block_count ni' = data_block_count ni"
    and "mgmt_start_ba ni' = mgmt_start_ba ni" and "mapping_blocks_top_ba ni' = mapping_blocks_top_ba ni"
    and "signature_ba ni' = signature_ba ni" and "signature ni' = signature ni"
    and "length (block_state ni') = length (block_state ni)"
    and "length (page_cache ni') = length (page_cache ni)"
    and "length (info_table_cache ni') = length (info_table_cache ni)"
    and "state_table_off (info_table ni') = state_table_off (info_table ni)"
    and "mapping_table_off (info_table ni') = mapping_table_off (info_table ni)"
proof -
  have e: "ni' = ni\<lparr>arg := arg ni', page_cache := page_cache ni', block_state := block_state ni',
       block_state_changed := block_state_changed ni', block_mapping_changed := block_mapping_changed ni',
       info_table := info_table ni', info_table_cache := info_table_cache ni',
       main_table_ba := main_table_ba ni', backup_table_ba := backup_table_ba ni',
       mapping_blocks_ba := mapping_blocks_ba ni', protected := protected ni'\<rparr>"
    using assms by (simp only: upd_def)
  show "lower ni' = lower ni" "rawpage_size ni' = rawpage_size ni" "writesize_mask ni' = writesize_mask ni"
    "erasesize_mask ni' = erasesize_mask ni" "writesize_shift ni' = writesize_shift ni"
    "erasesize_shift ni' = erasesize_shift ni" "info_table_size ni' = info_table_size ni"
    "info_table_spare_blocks ni' = info_table_spare_blocks ni" "state_table_size ni' = state_table_size ni"
    "mapping_table_size ni' = mapping_table_size ni" "block_mapping ni' = block_mapping ni"
    "block_count ni' = block_count ni" "data_block_count ni' = data_block_count ni"
    "mgmt_start_ba ni' = mgmt_start_ba ni" "mapping_blocks_top_ba ni' = mapping_blocks_top_ba ni"
    "signature_ba ni' = signature_ba ni" "signature ni' = signature ni"
    by (subst e, simp)+
  show "length (block_state ni') = length (block_state ni)"
    "length (page_cache ni') = length (page_cache ni)"
    "length (info_table_cache ni') = length (info_table_cache ni)"
    "state_table_off (info_table ni') = state_table_off (info_table ni)"
    "mapping_table_off (info_table ni') = mapping_table_off (info_table ni)"
    using assms by (simp_all only: upd_def wears_def)
qed

lemma upd_wears: "upd ni ni' \<Longrightarrow> wears (block_count ni) (block_state ni) (block_state ni')"
  by (simp only: upd_def)

lemma upd_protected: "upd ni ni' \<Longrightarrow> protected ni \<Longrightarrow> protected ni'"
  by (simp only: upd_def)

lemma upd_refl [simp]: "upd ni ni"
  by (simp add: upd_def)

lemma upd_trans:
  assumes "upd x y" and "upd y z"
  shows "upd x z"
proof -
  have y: "y = x\<lparr>arg := arg y, page_cache := page_cache y, block_state := block_state y,
       block_state_changed := block_state_changed y, block_mapping_changed := block_mapping_changed y,
       info_table := info_table y, info_table_cache := info_table_cache y,
       main_table_ba := main_table_ba y, backup_table_ba := backup_table_ba y,
       mapping_blocks_ba := mapping_blocks_ba y, protected := protected y\<rparr>"
    and z: "z = y\<lparr>arg := arg z, page_cache := page_cache z, block_state := block_state z,
       block_state_changed := block_state_changed z, block_mapping_changed := block_mapping_changed z,
       info_table := info_table z, info_table_cache := info_table_cache z,
       main_table_ba := main_table_ba z, backup_table_ba := backup_table_ba z,
       mapping_blocks_ba := mapping_blocks_ba z, protected := protected z\<rparr>"
    using assms by (simp_all only: upd_def)
  have "z = x\<lparr>arg := arg z, page_cache := page_cache z, block_state := block_state z,
       block_state_changed := block_state_changed z, block_mapping_changed := block_mapping_changed z,
       info_table := info_table z, info_table_cache := info_table_cache z,
       main_table_ba := main_table_ba z, backup_table_ba := backup_table_ba z,
       mapping_blocks_ba := mapping_blocks_ba z, protected := protected z\<rparr>"
    by (subst z, subst y) simp
  moreover have "wears (block_count x) (block_state x) (block_state z)"
    using wears_trans upd_wears [OF assms(1)] upd_wears [OF assms(2)] upd_cong(12) [OF assms(1)] by metis
  ultimately show ?thesis
    using assms unfolding upd_def by metis
qed

lemma wear_upd: "wear ni ni' \<Longrightarrow> upd ni ni'"
  by (erule wearE) (simp add: upd_def)

lemma upd_state_ok: "upd ni ni' \<Longrightarrow> state_ok ni \<Longrightarrow> state_ok ni'"
  by (simp add: state_ok_def chip_ok_def upd_cong)

lemma upd_tables_ok: "upd ni ni' \<Longrightarrow> tables_ok ni \<Longrightarrow> tables_ok ni'"
  by (simp add: tables_ok_def upd_cong)

lemma upd_both: "upd y z \<Longrightarrow> upd z y \<Longrightarrow> upd x z = upd x y"
  by (metis upd_trans)

lemma upd_sets [simp]:
  "upd x (y\<lparr>main_table_ba := a\<rparr>) = upd x y"
  "upd x (y\<lparr>backup_table_ba := a\<rparr>) = upd x y"
  "upd x (y\<lparr>mapping_blocks_ba := a\<rparr>) = upd x y"
  "upd x (nmbm_mark_tables_clean y) = upd x y"
  by (rule upd_both; simp add: upd_def nmbm_mark_tables_clean_def)+

lemma upd_protect: "upd x y \<Longrightarrow> upd x (y\<lparr>protected := True\<rparr>)"
  by (erule upd_trans) (simp add: upd_def)

definition mgmt_ok :: "'c nmbm_instance \<Rightarrow> bool" where
  "mgmt_ok ni \<longleftrightarrow> state_ok ni \<and> tables_ok ni \<and> mapping_blocks_top_ba ni < block_count ni \<and>
     unat (info_table_spare_blocks ni) < 2 ^ 31 \<and> 0 < mgmt_start_ba ni"

lemma mgmt_ok_upd: "upd ni ni' \<Longrightarrow> mgmt_ok ni \<Longrightarrow> mgmt_ok ni'"
  by (simp add: mgmt_ok_def upd_state_ok upd_tables_ok upd_cong)

lemma mgmt_ok_sets [simp]:
  "mgmt_ok (ni\<lparr>main_table_ba := a\<rparr>) = mgmt_ok ni"
  "mgmt_ok (ni\<lparr>backup_table_ba := a\<rparr>) = mgmt_ok ni"
  "mgmt_ok (ni\<lparr>mapping_blocks_ba := a\<rparr>) = mgmt_ok ni"
  "mgmt_ok (nmbm_mark_tables_clean ni) = mgmt_ok ni"
  by (auto simp: mgmt_ok_def state_ok_def tables_ok_def chip_ok_def nmbm_mark_tables_clean_def)

text \<open>\<open>settled n ni\<close>: since the tables had \<open>n\<close> blocks not recorded bad they were marked clean,
  so that only a newly found bad block can have made them dirty again.\<close>

definition settled :: "nat \<Rightarrow> 'c nmbm_instance \<Rightarrow> bool" where
  "settled n ni \<longleftrightarrow> block_mapping_changed ni = 0 \<and> nonbad (block_count ni) (block_state ni) \<le> n \<and>
     (block_state_changed ni \<noteq> 0 \<longrightarrow> nonbad (block_count ni) (block_state ni) < n)"

lemma settled_sets [simp]:
  "settled n (ni\<lparr>main_table_ba := a\<rparr>) = settled n ni"
  "settled n (ni\<lparr>backup_table_ba := a\<rparr>) = settled n ni"
  "settled n (ni\<lparr>mapping_blocks_ba := a\<rparr>) = settled n ni"
  "settled n (nmbm_mark_tables_clean ni) \<longleftrightarrow> nonbad (block_count ni) (block_state ni) \<le> n"
  by (auto simp: settled_def nmbm_mark_tables_clean_def)

lemma nonbad_mono:
  assumes "wears cnt bs bs'"
  shows "nonbad cnt bs' \<le> nonbad cnt bs"
  unfolding nonbad_def by (rule card_mono) (use assms in \<open>auto simp: wears_def\<close>, metis)

lemma upd_nonbad: "upd ni ni' \<Longrightarrow> nonbad (block_count ni') (block_state ni') \<le> nonbad (block_count ni) (block_state ni)"
  using nonbad_mono [OF upd_wears] by (simp add: upd_cong(12))

lemma settled_wear:
  assumes "settled n ni" and "wear ni ni'"
  shows "settled n ni'"
  using assms(2)
proof (rule wearE)
  fix a pc bs k
  assume e: "ni' = ni\<lparr>arg := a, page_cache := pc, block_state := bs,
       block_state_changed := block_state_changed ni + of_nat k\<rparr>"
    and n: "nonbad (block_count ni) bs + k = nonbad (block_count ni) (block_state ni)"
  show ?thesis using assms(1) n by (cases "k = 0") (auto simp: e settled_def)
qed

lemma settled_nonbad: "settled n ni \<Longrightarrow> nonbad (block_count ni) (block_state ni) \<le> n"
  by (simp add: settled_def)

section \<open>Totality of table maintenance\<close>

lemma nmbm_write_info_table_post:
  assumes "mgmt_ok ni" and "limit \<le> block_count ni"
  shows "post (nmbm_write_info_table ni ba limit) (\<lambda>(r, ni'). touched {ba..<limit} ni ni' \<and>
    mgmt_result (block_state ni') ba limit
      (chunks (unat (erasesize (lower ni))) (unat (info_table_size ni))) None r)"
proof -
  have "0 < unat (info_table_size ni)" using assms(1) by (auto simp: mgmt_ok_def tables_ok_def)
  then have "0 < info_table_size ni" by (simp add: word_less_nat_alt)
  then show ?thesis
    unfolding nmbm_write_info_table_def nmbm_write_mgmt_range_def
    using assms by (intro write_mgmt_loop_post) (simp_all add: mgmt_ok_def tables_ok_def)
qed

lemma mgmt_result_Some:
  "mgmt_result bs ba limit k None (Some (s, e)) \<Longrightarrow> 0 < k \<Longrightarrow> ba \<le> s \<and> s < e \<and> ba < e \<and> e \<le> limit"
  by (auto simp: mgmt_result_def)

lemma write_info_upd:
  assumes "mgmt_ok ni" and "limit \<le> block_count ni"
  shows "post (nmbm_write_info_table ni ba limit) (\<lambda>(r, ni'). wear ni ni' \<and>
    (\<forall>s e. r = Some (s, e) \<longrightarrow> ba \<le> s \<and> s < e \<and> e \<le> limit))"
proof -
  have "state_ok ni" "0 < unat (info_table_size ni)" using assms(1) by (auto simp: mgmt_ok_def tables_ok_def)
  moreover from this have "0 < unat (erasesize (lower ni))" by (simp add: chip_ok_geometry(2) [OF state_ok_chip])
  ultimately have "0 < unat (info_table_size ni)" "0 < unat (erasesize (lower ni))" by simp_all
  then have k: "0 < chunks (unat (erasesize (lower ni))) (unat (info_table_size ni))" by (rule chunks_pos)
  show ?thesis
    by (rule post_mono [OF nmbm_write_info_table_post [OF assms]])
      (auto intro: touched_wear dest!: mgmt_result_Some [OF _ k])
qed

lemma sle0: "(0::u32) <=s n \<longleftrightarrow> \<not> n <s 0"
  by (simp only: word_sle_eq word_sless_alt not_less)

lemma try_reserve_loop_post:
  assumes "state_ok ni" and "0 < block_count ni" and "unat n < 2 ^ 31"
  shows "post (try_reserve_loop ni ba n 0 limit)
    (\<lambda>r. \<forall>x. r = Some x \<longrightarrow> ba \<le> x \<and> x < block_count ni \<and> good (block_state ni) x)"
  using assms(3)
proof (induction "unat n" arbitrary: n rule: less_induct)
  case less
  let ?l = "if limit \<ge> block_count ni then block_count ni - 1 else limit"
  have l: "?l \<le> block_count ni"
    using assms(2) unat_dec [OF assms(2)] by (auto simp: word_le_nat_alt word_less_nat_alt)
  have ge: "(0::u32) <=s n" using nblock_step(1) [OF less.prems] by (simp add: sle0)
  have walk: "post (walk_asc_loop ni ba n ?l) (\<lambda>r. case r of
        Some x \<Rightarrow> ba \<le> x \<and> x < ?l \<and> good (block_state ni) x \<and> goods (block_state ni) ba x = unat n
      | None \<Rightarrow> goods (block_state ni) ba ?l \<le> unat n)"
    using less.prems assms(1) l by (intro walk_asc_loop_post state_ok_table) (auto intro: less_le_trans)
  have "post (nmbm_block_walk ni True ba n limit)
      (\<lambda>r. \<forall>x. r = Some x \<longrightarrow> ba \<le> x \<and> x < block_count ni \<and> good (block_state ni) x)"
    unfolding nmbm_block_walk_def nmbm_block_walk_asc_def if_True
    by (rule post_mono [OF walk]) (auto intro: less_le_trans [OF _ l])
  moreover have rest: "post (try_reserve_loop ni ba (n - 1) 0 limit)
    (\<lambda>r. \<forall>x. r = Some x \<longrightarrow> ba \<le> x \<and> x < block_count ni \<and> good (block_state ni) x)"
  proof (cases "unat n = 0")
    case True
    then have "n - 1 <s 0" using nblock_step(2) [OF less.prems] by simp
    then show ?thesis by (subst try_reserve_loop.simps) (simp add: sle0)
  next
    case False
    then show ?thesis using less.prems nblock_step(3) [OF less.prems] by (intro less.hyps) simp_all
  qed
  ultimately show ?case
    using ge by (subst try_reserve_loop.simps) (auto elim!: post_mono split: option.split)
qed

text \<open>\<open>run x n ni\<close>: \<open>ni\<close> was reached from \<open>x\<close> by table maintenance, is well formed, and has at
  most \<open>n\<close> blocks not recorded bad.\<close>

definition run :: "'c nmbm_instance \<Rightarrow> nat \<Rightarrow> 'c nmbm_instance \<Rightarrow> bool" where
  "run x n ni \<longleftrightarrow> upd x ni \<and> mgmt_ok ni \<and> nonbad (block_count ni) (block_state ni) \<le> n"

lemma run_sets [simp]:
  "run x n (ni\<lparr>main_table_ba := a\<rparr>) = run x n ni"
  "run x n (ni\<lparr>backup_table_ba := a\<rparr>) = run x n ni"
  "run x n (ni\<lparr>mapping_blocks_ba := a\<rparr>) = run x n ni"
  "run x n (nmbm_mark_tables_clean ni) = run x n ni"
  by (auto simp: run_def) (simp_all add: nmbm_mark_tables_clean_def)

lemma run_settled [simp]: "run x n ni \<Longrightarrow> settled n (nmbm_mark_tables_clean ni)"
  by (simp add: run_def)

lemma run_protect: "run x n ni \<Longrightarrow> run x n (ni\<lparr>protected := True\<rparr>)"
  by (auto simp: run_def upd_protect mgmt_ok_def state_ok_def tables_ok_def chip_ok_def)

lemma run_wear: "run x n ni \<Longrightarrow> wear ni ni' \<Longrightarrow> run x n ni'"
  unfolding run_def
  by (meson le_trans mgmt_ok_upd upd_nonbad upd_trans wear_upd)

lemma run_start: "mgmt_ok ni \<Longrightarrow> run ni (nonbad (block_count ni) (block_state ni)) ni"
  by (simp add: run_def)

lemma run_facts:
  assumes "run x n ni"
  shows "state_ok ni" and "mgmt_ok ni" and "mapping_blocks_top_ba ni \<le> block_count ni"
    and "0 < block_count ni" and "unat (info_table_spare_blocks ni) < 2 ^ 31" and "0 < mgmt_start_ba ni"
  using assms by (auto simp: run_def mgmt_ok_def intro: less_imp_le le_less_trans [OF word_zero_le])

lemma run_top [intro]: "run x n ni \<Longrightarrow> e \<le> mapping_blocks_top_ba ni \<Longrightarrow> e < block_count ni"
  by (auto simp: run_def mgmt_ok_def)

lemma clean_sels [simp]:
  "main_table_ba (nmbm_mark_tables_clean ni) = main_table_ba ni"
  "backup_table_ba (nmbm_mark_tables_clean ni) = backup_table_ba ni"
  "mapping_blocks_ba (nmbm_mark_tables_clean ni) = mapping_blocks_ba ni"
  "mapping_blocks_top_ba (nmbm_mark_tables_clean ni) = mapping_blocks_top_ba ni"
  "mgmt_start_ba (nmbm_mark_tables_clean ni) = mgmt_start_ba ni"
  "block_count (nmbm_mark_tables_clean ni) = block_count ni"
  "protected (nmbm_mark_tables_clean ni) = protected ni"
  by (simp_all add: nmbm_mark_tables_clean_def)

text \<open>Where the tables lie: in the management area, the main table before the backup table,
  both below the blocks that replace bad ones.\<close>

definition placed :: "'c nmbm_instance \<Rightarrow> bool" where
  "placed ni \<longleftrightarrow> mgmt_start_ba ni \<le> main_table_ba ni \<and> mapping_blocks_ba ni < block_count ni \<and>
     (if backup_table_ba ni = 0 then main_table_ba ni < mapping_blocks_ba ni
      else main_table_ba ni < backup_table_ba ni \<and> backup_table_ba ni < mapping_blocks_ba ni)"

lemma write_run:
  assumes "run x n ni" and "limit \<le> block_count ni"
  shows "post (nmbm_write_info_table ni ba limit) (\<lambda>(r, ni'). run x n ni' \<and> wear ni ni' \<and>
    (\<forall>s e. r = Some (s, e) \<longrightarrow> ba \<le> s \<and> s < e \<and> e \<le> limit))"
  by (rule post_mono [OF write_info_upd [OF run_facts(2) [OF assms(1)] assms(2)]])
    (auto intro: run_wear [OF assms(1)])

lemma write_run_top:
  assumes "run x n ni"
  shows "post (nmbm_write_info_table ni ba (mapping_blocks_top_ba ni)) (\<lambda>(r, ni'). run x n ni' \<and> wear ni ni' \<and>
    (\<forall>s e. r = Some (s, e) \<longrightarrow> ba \<le> s \<and> s < e \<and> e \<le> mapping_blocks_top_ba ni))"
  by (rule write_run [OF assms run_facts(3) [OF assms]])

lemma erase_run:
  assumes "run x n ni" and "limit \<le> block_count ni"
  shows "post (nmbm_erase_range ni ba limit) (\<lambda>ni'. run x n ni' \<and> wear ni ni')"
  by (rule post_mono [OF nmbm_erase_range_post [OF run_facts(1) [OF assms(1)] assms(2)]])
    (auto intro: touched_wear run_wear [OF assms(1)])

lemma reserve_run:
  assumes "run x n ni"
  shows "post (nmbm_try_reserve_blocks ni ba (info_table_spare_blocks ni) 0 limit) (\<lambda>r. \<forall>b. r = Some b \<longrightarrow> ba \<le> b)"
  unfolding nmbm_try_reserve_blocks_def
  by (rule post_mono [OF try_reserve_loop_post [OF run_facts(1,4,5) [OF assms]]]) simp

lemma write_down_loop_post:
  assumes "run x n ni" and "0 < low"
  shows "post (write_down_loop ni ba low) (\<lambda>(r, ni'). run x n ni' \<and> wear ni ni' \<and>
    (\<forall>s e. r = Some (s, e) \<longrightarrow> low \<le> s \<and> s < e \<and> e \<le> mapping_blocks_top_ba ni))"
  using assms(1)
proof (induction "unat ba" arbitrary: ba ni rule: less_induct)
  case less
  show ?case
  proof (cases "low \<le> ba")
    case False
    then show ?thesis using less.prems by (subst write_down_loop.simps) simp
  next
    case True
    with assms(2) have lt: "unat (ba - 1) < unat ba" by (intro unat_dec_measure [of 0]) simp
    have step: "post (write_down_loop ni1 (ba - 1) low) (\<lambda>(r, ni'). run x n ni' \<and> wear ni ni' \<and>
        (\<forall>s e. r = Some (s, e) \<longrightarrow> low \<le> s \<and> s < e \<and> e \<le> mapping_blocks_top_ba ni))"
      if r: "run x n ni1" and w: "wear ni ni1" for ni1
      by (rule post_mono [OF less.hyps [OF lt r]]) (auto simp: wear_cong(19) [OF w] intro: wear_trans [OF w])
    have up: "low \<le> s" if "ba \<le> s" for s using True that by simp
    show ?thesis
      by (subst write_down_loop.simps)
        (auto simp: True up intro!: post_mono [OF write_run_top [OF less.prems]] step)
  qed
qed

lemma run_nonbad [simp]: "run x n ni \<Longrightarrow> nonbad (block_count ni) (block_state ni) \<le> n"
  by (simp add: run_def)

lemma settled_after: "wear ni ni' \<Longrightarrow> settled n ni \<Longrightarrow> settled n ni'"
  by (rule settled_wear)

text \<open>What one round of maintenance leaves behind: on success well-placed tables that only a newly
  found bad block can have made outdated, otherwise a protected device.\<close>

definition maintained :: "'c nmbm_instance \<Rightarrow> nat \<Rightarrow> bool \<times> 'c nmbm_instance \<Rightarrow> bool" where
  "maintained x n = (\<lambda>(r, ni'). run x n ni' \<and> (r \<longrightarrow> settled n ni' \<and> placed ni') \<and> 
    (\<not> r \<longrightarrow> protected ni' \<and> mapping_blocks_ba ni' < block_count ni'))"

lemma maintainedI: "run x n ni \<Longrightarrow> settled n ni \<Longrightarrow> placed ni \<Longrightarrow> maintained x n (True, ni)"
  by (simp add: maintained_def)

lemma maintained_protect: "run x n ni \<Longrightarrow> mapping_blocks_ba ni < block_count ni \<Longrightarrow> maintained x n (False, ni\<lparr>protected := True\<rparr>)"
  by (simp add: maintained_def run_protect)

lemma placed_wear: "wear ni ni' \<Longrightarrow> placed ni' = placed ni"
  by (simp add: placed_def wear_cong)

lemma rebuild_erase_post:
  assumes r: "run x n ni" and s: "settled n ni" and b: "mgmt_start_ba ni \<le> main_table_ba ni"
    "main_table_ba ni < s2" "s2 < e2" "e2 \<le> mapping_blocks_top_ba ni"
  shows "post (nmbm_erase_range (ni\<lparr>backup_table_ba := s2, mapping_blocks_ba := e2\<rparr>) e1 s2)
    (\<lambda>ni'. maintained x n (True, ni'))"
proof -
  have "s2 \<noteq> 0" using b(2) by auto
  moreover have "s2 \<le> block_count ni" using b(3,4) run_facts(3) [OF r] by simp
  ultimately show ?thesis
    using r s b by (intro post_mono [OF erase_run [of x n]])
      (auto simp: maintained_def placed_def wear_cong(9,17-20) intro: settled_after)
qed

lemma rebuild_backup_post:
  assumes r: "run x n ni" and s: "settled n ni" and p: "placed ni" and m: "main_table_ba ni < e1"
  shows "post (rebuild_backup ni e1) (maintained x n)"
proof -
  have kept: "settled n ni1 \<and> placed ni1 \<and> mgmt_start_ba ni1 \<le> main_table_ba ni1 \<and>
      main_table_ba ni1 = main_table_ba ni \<and> mapping_blocks_top_ba ni1 = mapping_blocks_top_ba ni"
    if w: "wear ni ni1" for ni1
    using s p settled_after [OF w] by (simp add: placed_wear [OF w] wear_cong [OF w]) (simp add: placed_def)
  show ?thesis
    unfolding rebuild_backup_def
    by (auto simp: Let_def s p r dest!: kept split: option.splits
        intro!: post_mono [OF reserve_run [OF r]] post_mono [OF write_run_top [OF r]] maintainedI rebuild_erase_post, use m in order)
qed

lemma nmbm_rebuild_info_table_post:
  assumes "run x n ni"
  shows "post (nmbm_rebuild_info_table ni) (maintained x n)"
proof -
  let ?n0 = "ni\<lparr>main_table_ba := 0, backup_table_ba := 0, mapping_blocks_ba := mapping_blocks_top_ba ni\<rparr>"
  have r0: "run x n ?n0" using assms by simp
  have tb: "e < block_count b" if "wear ?n0 b" "e \<le> mapping_blocks_top_ba ni" for b e
    using wear_cong(2) [OF that(1)] run_top [OF assms that(2)] by simp
  show ?thesis
    unfolding nmbm_rebuild_info_table_def Let_def
    by (rule post_bindI [OF write_run_top [OF r0]])
      (auto simp: placed_def wear_cong(9,17-20) split: option.splits intro!: maintained_protect rebuild_backup_post tb)
qed

definition rescued :: "'c nmbm_instance \<Rightarrow> nat \<Rightarrow> bool \<times> 'c nmbm_instance \<Rightarrow> bool" where
  "rescued x n = (\<lambda>(r, ni'). run x n ni' \<and> (r \<longrightarrow> settled n ni' \<and> placed ni'))"

lemma rescued_fail: "run x n ni \<Longrightarrow> rescued x n (False, ni)"
  by (simp add: rescued_def)

lemma erase_placed:
  assumes "run x n ni" and "limit \<le> block_count ni"
  shows "post (nmbm_erase_range ni ba limit) (\<lambda>ni'. run x n ni' \<and> (\<forall>m. settled m ni \<longrightarrow> settled m ni') \<and>
    main_table_ba ni' = main_table_ba ni \<and> mgmt_start_ba ni' = mgmt_start_ba ni \<and>
    backup_table_ba ni' = backup_table_ba ni \<and> mapping_blocks_ba ni' = mapping_blocks_ba ni \<and>
    mapping_blocks_top_ba ni' = mapping_blocks_top_ba ni \<and> block_count ni' = block_count ni \<and>
    nonbad (block_count ni) (block_state ni') \<le> n)"
  by (rule post_mono [OF erase_run [OF assms]]) (auto simp: wear_cong(2,9,17-20) dest: run_nonbad intro: settled_after)

lemma write_placed:
  assumes "run x n ni" and "limit \<le> block_count ni"
  shows "post (nmbm_write_info_table ni ba limit) (\<lambda>(r, ni'). run x n ni' \<and> (\<forall>m. settled m ni \<longrightarrow> settled m ni') \<and>
    main_table_ba ni' = main_table_ba ni \<and> mgmt_start_ba ni' = mgmt_start_ba ni \<and>
    backup_table_ba ni' = backup_table_ba ni \<and> mapping_blocks_ba ni' = mapping_blocks_ba ni \<and>
    mapping_blocks_top_ba ni' = mapping_blocks_top_ba ni \<and> block_count ni' = block_count ni \<and>
    nonbad (block_count ni) (block_state ni') \<le> n \<and>
    (\<forall>s e. r = Some (s, e) \<longrightarrow> ba \<le> s \<and> s < e \<and> e \<le> limit))"
  by (rule post_mono [OF write_run [OF assms]])
    (auto simp: wear_cong(2,9,17-20) dest: run_nonbad intro: settled_after)

lemma write_down_placed:
  assumes "run x n ni" and "0 < low"
  shows "post (write_down_loop ni ba low) (\<lambda>(r, ni'). run x n ni' \<and> (\<forall>m. settled m ni \<longrightarrow> settled m ni') \<and>
    main_table_ba ni' = main_table_ba ni \<and> mgmt_start_ba ni' = mgmt_start_ba ni \<and>
    backup_table_ba ni' = backup_table_ba ni \<and> mapping_blocks_ba ni' = mapping_blocks_ba ni \<and>
    mapping_blocks_top_ba ni' = mapping_blocks_top_ba ni \<and> block_count ni' = block_count ni \<and>
    nonbad (block_count ni) (block_state ni') \<le> n \<and>
    (\<forall>s e. r = Some (s, e) \<longrightarrow> low \<le> s \<and> s < e \<and> e \<le> mapping_blocks_top_ba ni))"
  by (rule post_mono [OF write_down_loop_post [OF assms]])
    (auto simp: wear_cong(2,9,17-20) dest: run_nonbad intro: settled_after)

lemma rescue_behind_post:
  assumes r: "run x n ni" and m: "mgmt_start_ba ni \<le> main_table_ba ni" "main_table_ba ni < mapping_blocks_ba ni"
  shows "post (rescue_behind ni) (rescued x n)"
proof -
  have low: "0 < mapping_blocks_ba ni" using m(2) by (rule le_less_trans [OF word_zero_le])
  have tc: "mapping_blocks_top_ba ni \<le> block_count ni" using r by (rule run_facts(3))
  have erase: "post (nmbm_erase_range ni1 b s) (\<lambda>ni2.
      rescued x n (True, nmbm_mark_tables_clean (ni2\<lparr>backup_table_ba := s, mapping_blocks_ba := e\<rparr>)))"
    if "run x n ni1" "main_table_ba ni1 = main_table_ba ni" "mgmt_start_ba ni1 = mgmt_start_ba ni"
      "mapping_blocks_top_ba ni1 = mapping_blocks_top_ba ni" "block_count ni1 = block_count ni"
      "mapping_blocks_ba ni \<le> s" "s < e" "e \<le> mapping_blocks_top_ba ni" for ni1 b s e
  proof -
    have "s \<le> block_count ni1" "main_table_ba ni < s" "s \<noteq> 0"
      using that(5-8) tc m(2) low by (auto intro: order_trans less_imp_le)
    moreover have "e < block_count ni" using run_top [OF that(1)] that(4,5,8) by simp
    ultimately show ?thesis
      by (intro post_mono [OF erase_placed [OF that(1)]]) (use that m(1) in \<open>auto simp: rescued_def placed_def\<close>)
  qed
  show ?thesis
    unfolding rescue_behind_def
    by (auto simp: Let_def r split: option.splits
        intro!: rescued_fail post_mono [OF reserve_run [OF r]] post_mono [OF write_down_placed [OF r low]] erase)
qed

lemma nmbm_rescue_single_info_table_post:
  assumes r: "run x n ni" and m: "mgmt_start_ba ni \<le> main_table_ba ni"
    "main_table_ba ni < mapping_blocks_ba ni" "mapping_blocks_ba ni < block_count ni"
  shows "post (nmbm_rescue_single_info_table ni) (rescued x n)"
proof -
  have lim: "main_table_ba ni \<le> block_count ni" and m0: "main_table_ba ni \<noteq> 0"
    using m run_facts(3,6) [OF r] by (auto intro: less_imp_le order_trans)
  have erase: "post (nmbm_erase_range (nmbm_mark_tables_clean (ni1\<lparr>backup_table_ba := main_table_ba ni, main_table_ba := s\<rparr>)) e
      (main_table_ba ni)) (\<lambda>ni2. rescued x n (True, ni2))"
    if "run x n ni1" "main_table_ba ni1 = main_table_ba ni" "mgmt_start_ba ni1 = mgmt_start_ba ni"
      "mapping_blocks_top_ba ni1 = mapping_blocks_top_ba ni" "block_count ni1 = block_count ni"
      "mapping_blocks_ba ni1 = mapping_blocks_ba ni"
      "mgmt_start_ba ni \<le> s" "s < e" "e \<le> main_table_ba ni" for ni1 s e
  proof -
    have "s < main_table_ba ni" using that(8,9) by simp
    moreover have "nonbad (block_count ni) (block_state ni1) \<le> n" using run_nonbad [OF that(1)] that(5) by simp
    ultimately show ?thesis
      by (intro post_mono [OF erase_placed [of x n]])
        (use that lim m m0 in \<open>auto simp: rescued_def placed_def\<close>)
  qed
  show ?thesis
    unfolding nmbm_rescue_single_info_table_def
    by (auto simp: Let_def m split: option.splits
        intro!: post_mono [OF write_placed [OF r lim]] erase rescue_behind_post)
qed

lemma nmbm_update_single_info_table_post:
  assumes r: "run x n ni" and p: "placed ni" and b: "backup_table_ba ni \<noteq> 0"
  shows "post (nmbm_update_single_info_table ni main) (rescued x n)"
proof -
  have pl: "mgmt_start_ba ni \<le> main_table_ba ni" "main_table_ba ni < backup_table_ba ni"
    "backup_table_ba ni < mapping_blocks_ba ni" "mapping_blocks_ba ni < block_count ni"
    using p b by (auto simp: placed_def)
  have tc: "mapping_blocks_top_ba ni \<le> block_count ni" using r by (rule run_facts(3))
  have bc: "backup_table_ba ni \<le> block_count ni" using pl by order
  show ?thesis
  proof (cases main)
    case True
    have ok: "rescued x n (True, nmbm_mark_tables_clean (ni1\<lparr>main_table_ba := s\<rparr>))"
      if "run x n ni1" "mgmt_start_ba ni1 = mgmt_start_ba ni" "mapping_blocks_top_ba ni1 = mapping_blocks_top_ba ni"
        "backup_table_ba ni1 = backup_table_ba ni" "mapping_blocks_ba ni1 = mapping_blocks_ba ni" "block_count ni1 = block_count ni"
        "main_table_ba ni \<le> s" "s < e" "e \<le> backup_table_ba ni" for ni1 s e
    proof -
      have "mgmt_start_ba ni \<le> s" "s < backup_table_ba ni" using that(7-9) pl(1) by auto
      then show ?thesis using that(1-6) run_nonbad [OF that(1)] pl b by (simp add: rescued_def placed_def)
    qed
    have fail: "post (nmbm_rescue_single_info_table (ni1\<lparr>main_table_ba := backup_table_ba ni, backup_table_ba := 0\<rparr>)) (rescued x n)"
      if "run x n ni1" "mgmt_start_ba ni1 = mgmt_start_ba ni" "mapping_blocks_top_ba ni1 = mapping_blocks_top_ba ni"
        "mapping_blocks_ba ni1 = mapping_blocks_ba ni" "block_count ni1 = block_count ni" for ni1
      using that pl by (intro nmbm_rescue_single_info_table_post) auto
    show ?thesis
      unfolding nmbm_update_single_info_table_def
      by (auto simp: Let_def True split: option.splits intro!: post_mono [OF write_placed [OF r bc]] ok fail)
  next
    case False
    have ok: "rescued x n (True, nmbm_mark_tables_clean (ni1\<lparr>backup_table_ba := s, mapping_blocks_ba := e\<rparr>))"
      if "run x n ni1" "main_table_ba ni1 = main_table_ba ni" "mgmt_start_ba ni1 = mgmt_start_ba ni"
        "mapping_blocks_top_ba ni1 = mapping_blocks_top_ba ni" "block_count ni1 = block_count ni"
        "backup_table_ba ni \<le> s" "s < e" "e \<le> mapping_blocks_top_ba ni" for ni1 s e
    proof -
      have "main_table_ba ni < s" using that(6) pl(2) by simp
      moreover from this have "s \<noteq> 0" by auto
      moreover have "e < block_count ni" using r that(8) by (rule run_top)
      ultimately show ?thesis using that run_nonbad [OF that(1)] pl by (simp add: rescued_def placed_def)
    qed
    show ?thesis
      unfolding nmbm_update_single_info_table_def
      by (auto simp: Let_def False split: option.splits intro!: post_mono [OF write_placed [OF r tc]] ok rescued_fail)
  qed
qed

text \<open>The new main table ends before the temporary table starts, as it is written below it: the
  code for a main table that overwrote the temporary one, \<open>rescue_new_backup\<close>, never runs.\<close>

lemma nmbm_rescue_main_info_table_post:
  assumes r: "run x n ni" and s: "settled n ni" and p: "placed ni" and b: "backup_table_ba ni \<noteq> 0"
  shows "post (nmbm_rescue_main_info_table ni) (maintained x n)"
proof -
  have pl: "mgmt_start_ba ni \<le> main_table_ba ni" "main_table_ba ni < backup_table_ba ni"
    "backup_table_ba ni < mapping_blocks_ba ni" "mapping_blocks_ba ni < block_count ni"
    using p b by (auto simp: placed_def)
  have low: "0 < mapping_blocks_ba ni" using pl(3) by (rule le_less_trans [OF word_zero_le])
  have tc: "mapping_blocks_top_ba ni \<le> block_count ni" using r by (rule run_facts(3))
  have only_backup: "maintained x n (True, ni1\<lparr>main_table_ba := backup_table_ba ni, backup_table_ba := 0\<rparr>)"
    if "run x n ni1" "settled n ni1" "mgmt_start_ba ni1 = mgmt_start_ba ni"
      "mapping_blocks_top_ba ni1 = mapping_blocks_top_ba ni" "mapping_blocks_ba ni1 = mapping_blocks_ba ni"
      "block_count ni1 = block_count ni" for ni1
    using that pl by (intro maintainedI) (auto simp: placed_def)
  have main: "post (do {
        (r, ni) \<leftarrow> nmbm_write_info_table (ni1\<lparr>mapping_blocks_ba := e\<rparr>) (mgmt_start_ba ni) s;
        (case r of
           None \<Rightarrow> Some (True, nmbm_mark_tables_clean (ni\<lparr>main_table_ba := s, backup_table_ba := 0\<rparr>))
         | Some (ms, me) \<Rightarrow>
             let ni = nmbm_mark_tables_clean (ni\<lparr>main_table_ba := ms\<rparr>) in
             if me \<le> s then Some (True, ni\<lparr>backup_table_ba := s\<rparr>)
             else rescue_new_backup ni me)
      }) (maintained x n)"
    if n1: "run x n ni1" "mgmt_start_ba ni1 = mgmt_start_ba ni" "mapping_blocks_top_ba ni1 = mapping_blocks_top_ba ni"
      "block_count ni1 = block_count ni" and se: "mapping_blocks_ba ni \<le> s" "s < e" "e \<le> mapping_blocks_top_ba ni"
    for ni1 s e
  proof -
    have "s \<le> block_count ni" "mgmt_start_ba ni \<le> s" "s \<noteq> 0" using se tc pl low by order+
    moreover have "a < s" if "a < c" "c \<le> s" for a c using that by simp
    moreover have "run x n (ni1\<lparr>mapping_blocks_ba := e\<rparr>)" using n1(1) by simp
    moreover have "e < block_count ni" using r se(3) by (rule run_top)
    ultimately show ?thesis
      using n1 se
      by (intro post_bindI [OF write_placed [of x n]])
        (auto simp: Let_def split: option.splits intro!: maintainedI, auto simp: placed_def)
  qed
  show ?thesis
    unfolding nmbm_rescue_main_info_table_def
    by (auto simp: Let_def s r simp del: post_bind split: option.splits
        intro!: only_backup post_bindI [OF reserve_run [OF r]] post_bindI [OF write_down_placed [OF r low]] main)
qed

lemma write_main_table_single_post:
  assumes r: "run x n ni" and b: "backup_table_ba ni = 0" and m: "mgmt_start_ba ni \<le> main_table_ba ni"
  shows "post (write_main_table ni (mapping_blocks_top_ba ni)) (maintained x n)"
proof -
  have m0: "main_table_ba ni \<noteq> 0" using m run_facts(6) [OF r] by auto
  have le: "mgmt_start_ba ni \<le> s" if "main_table_ba ni \<le> s" for s using m that by simp
  have top: "e < block_count ni" if "e \<le> mapping_blocks_top_ba ni" for e using r that by (rule run_top)
  show ?thesis
    unfolding write_main_table_def
    by (auto simp: Let_def m0 b split: option.splits
        intro!: post_mono [OF write_placed [OF r run_facts(3) [OF r]]] nmbm_rebuild_info_table_post maintainedI,
        auto simp: placed_def le top)
qed

lemma write_main_table_both_post:
  assumes r: "run x n ni" and s: "settled n ni" and p: "placed ni" and b: "backup_table_ba ni \<noteq> 0"
  shows "post (write_main_table ni (backup_table_ba ni)) (maintained x n)"
proof -
  have pl: "mgmt_start_ba ni \<le> main_table_ba ni" "main_table_ba ni < backup_table_ba ni"
    "backup_table_ba ni < mapping_blocks_ba ni" "mapping_blocks_ba ni < block_count ni"
    using p b by (auto simp: placed_def)
  have m0: "main_table_ba ni \<noteq> 0" using pl run_facts(6) [OF r] by auto
  have bc: "backup_table_ba ni \<le> block_count ni" using pl by order
  have ok: "maintained x n (True, nmbm_mark_tables_clean (ni1\<lparr>main_table_ba := t\<rparr>))"
    if "run x n ni1" "mgmt_start_ba ni1 = mgmt_start_ba ni" "mapping_blocks_top_ba ni1 = mapping_blocks_top_ba ni"
      "backup_table_ba ni1 = backup_table_ba ni" "mapping_blocks_ba ni1 = mapping_blocks_ba ni" "block_count ni1 = block_count ni"
      "main_table_ba ni \<le> t" "t < e" "e \<le> backup_table_ba ni" for ni1 t e
  proof -
    have "mgmt_start_ba ni \<le> t" "t < backup_table_ba ni" using that(7-9) pl(1) by auto
    then show ?thesis using that(1-6) run_nonbad [OF that(1)] pl b by (intro maintainedI) (auto simp: placed_def)
  qed
  have rescue: "post (nmbm_rescue_main_info_table ni1) (maintained x n)"
    if "run x n ni1" "settled n ni1" "main_table_ba ni1 = main_table_ba ni" "mgmt_start_ba ni1 = mgmt_start_ba ni"
      "mapping_blocks_top_ba ni1 = mapping_blocks_top_ba ni"
      "backup_table_ba ni1 = backup_table_ba ni" "mapping_blocks_ba ni1 = mapping_blocks_ba ni"
      "block_count ni1 = block_count ni" for ni1
    using that p b by (intro nmbm_rescue_main_info_table_post) (auto simp: placed_def)
  show ?thesis
    unfolding write_main_table_def
    by (auto simp: Let_def m0 b s split: option.splits
        intro!: post_mono [OF write_placed [OF r bc]] ok rescue)
qed

lemma generate_run:
  assumes "run x n ni"
  shows "post (nmbm_generate_info_table_cache ni) (\<lambda>(c, ni'). run x n ni' \<and>
    c = (block_state_changed ni \<noteq> 0 \<or> block_mapping_changed ni \<noteq> 0) \<and> image_of ni' (info_table_cache ni') \<and>
    block_state ni' = block_state ni \<and> block_mapping ni' = block_mapping ni \<and>
    main_table_ba ni' = main_table_ba ni \<and> mgmt_start_ba ni' = mgmt_start_ba ni \<and>
    backup_table_ba ni' = backup_table_ba ni \<and> mapping_blocks_ba ni' = mapping_blocks_ba ni \<and>
    mapping_blocks_top_ba ni' = mapping_blocks_top_ba ni \<and> block_count ni' = block_count ni \<and>
    data_block_count ni' = data_block_count ni \<and> signature_ba ni' = signature_ba ni)"
proof -
  have t: "tables_ok ni" using run_facts(2) [OF assms] by (simp add: mgmt_ok_def)
  obtain it c where g: "nmbm_generate_info_table_cache ni =
      Some (block_state_changed ni \<noteq> 0 \<or> block_mapping_changed ni \<noteq> 0, ni\<lparr>info_table := it, info_table_cache := c\<rparr>)"
    and i: "image_of (ni\<lparr>info_table := it, info_table_cache := c\<rparr>) c"
    and o: "state_table_off it = state_table_off (info_table ni)" "mapping_table_off it = mapping_table_off (info_table ni)"
    using generate_image [OF t] by (elim exE conjE)
  let ?n = "ni\<lparr>info_table := it, info_table_cache := c\<rparr>"
  have "length c = length (info_table_cache ni)" using i t by (simp add: image_of_def tables_ok_def)
  then have "upd ni ?n" using o by (simp add: upd_def)
  moreover have "run x n ni \<Longrightarrow> upd ni ?n \<Longrightarrow> run x n ?n"
    unfolding run_def by (meson mgmt_ok_upd order_trans upd_nonbad upd_trans)
  ultimately show ?thesis using assms g i by simp
qed

lemma nmbm_update_info_table_once_post:
  assumes r: "run x n ni" and p: "placed ni"
    and c: "force \<or> block_state_changed ni \<noteq> 0 \<or> block_mapping_changed ni \<noteq> 0"
  shows "post (nmbm_update_info_table_once ni force) (maintained x n)"
proof -
  have single: "post (write_main_table ni1 (mapping_blocks_top_ba ni)) (maintained x n)"
    if "run x n ni1" "backup_table_ba ni1 = 0" "mgmt_start_ba ni1 = mgmt_start_ba ni" "main_table_ba ni1 = main_table_ba ni"
      "mapping_blocks_top_ba ni1 = mapping_blocks_top_ba ni" for ni1
    using write_main_table_single_post [OF that(1,2)] that(3-5) p by (simp add: placed_def)
  have both: "post (write_main_table (nmbm_mark_tables_clean (ni1\<lparr>backup_table_ba := s, mapping_blocks_ba := e\<rparr>)) s) (maintained x n)"
    if "run x n ni1" "mgmt_start_ba ni1 = mgmt_start_ba ni" "main_table_ba ni1 = main_table_ba ni"
      "mapping_blocks_top_ba ni1 = mapping_blocks_top_ba ni" "backup_table_ba ni \<noteq> 0" "backup_table_ba ni \<le> s" "s < e"
      "e \<le> mapping_blocks_top_ba ni" for ni1 s e
  proof -
    let ?n = "nmbm_mark_tables_clean (ni1\<lparr>backup_table_ba := s, mapping_blocks_ba := e\<rparr>)"
    have "main_table_ba ni < backup_table_ba ni" "mgmt_start_ba ni \<le> main_table_ba ni" using p that(5) by (auto simp: placed_def)
    then have m: "main_table_ba ni < s" "mgmt_start_ba ni \<le> main_table_ba ni" using that(6) by auto
    then have s0: "s \<noteq> 0" by auto
    have "post (write_main_table ?n (backup_table_ba ?n)) (maintained x n)"
      using that m s0 by (intro write_main_table_both_post) (auto simp: placed_def)
    then show ?thesis by simp
  qed
  have backup: "post (do {
       (r, ni) \<leftarrow> nmbm_write_info_table ni1 (backup_table_ba ni) (mapping_blocks_top_ba ni);
       (case r of
          None \<Rightarrow>
            write_main_table (ni\<lparr>mapping_blocks_ba := backup_table_ba ni, backup_table_ba := 0\<rparr>)
              (mapping_blocks_top_ba ni)
        | Some (table_start_ba, table_end_ba) \<Rightarrow>
            (let ni = nmbm_mark_tables_clean
               (ni\<lparr>backup_table_ba := table_start_ba, mapping_blocks_ba := table_end_ba\<rparr>) in
             write_main_table ni (backup_table_ba ni)))
     }) (maintained x n)"
    if "run x n ni1" "mgmt_start_ba ni1 = mgmt_start_ba ni" "main_table_ba ni1 = main_table_ba ni"
      "backup_table_ba ni1 = backup_table_ba ni" "block_count ni1 = block_count ni"
      "mapping_blocks_top_ba ni1 = mapping_blocks_top_ba ni" "backup_table_ba ni \<noteq> 0" for ni1
    by (rule post_bindI [OF write_placed [OF that(1)]])
      (use that run_facts(3) [OF r] in \<open>auto simp: Let_def split: option.splits intro!: single both\<close>)
  have "block_state_changed ni \<noteq> 0 \<or> block_mapping_changed ni \<noteq> 0 \<or> force" using c by blast
  then show ?thesis
    unfolding nmbm_update_info_table_once_def
    by (intro post_bindI [OF generate_run [OF r]]) (auto simp: Let_def simp del: post_bind intro!: single backup)
qed

text \<open>The tables on the chip are well placed, or the device is protected.\<close>

definition layout_ok :: "'c nmbm_instance \<Rightarrow> bool" where
  "layout_ok ni \<longleftrightarrow> mapping_blocks_ba ni < block_count ni \<and> (protected ni \<or> placed ni)"

lemma placed_layout: "placed ni \<Longrightarrow> layout_ok ni"
  by (simp add: layout_ok_def placed_def)

text \<open>\<open>flushed ni (r, ni')\<close>: what the update loop promises.\<close>

definition flushed :: "'c nmbm_instance \<Rightarrow> bool \<times> 'c nmbm_instance \<Rightarrow> bool" where
  "flushed ni = (\<lambda>(r, ni'). upd ni ni' \<and> layout_ok ni' \<and>
     (r \<longrightarrow> block_state_changed ni' = 0 \<and> block_mapping_changed ni' = 0) \<and>
     (\<not> r \<longrightarrow> protected ni'))"

lemma update_info_table_loop_post:
  assumes "mgmt_ok ni" and "placed ni"
  shows "post (update_info_table_loop ni) (flushed ni)"
  using assms
proof (induction "nonbad (block_count ni) (block_state ni)" arbitrary: ni rule: less_induct)
  case less
  show ?case
  proof (cases "block_state_changed ni \<noteq> 0 \<or> block_mapping_changed ni \<noteq> 0")
    case False
    then show ?thesis using less.prems by (subst update_info_table_loop.simps) (simp add: flushed_def placed_layout)
  next
    case True
    let ?n = "nonbad (block_count ni) (block_state ni)"
    have step: "post (update_info_table_loop ni1) (flushed ni)"
      if m: "run ni ?n ni1" "settled ?n ni1" "placed ni1" for ni1
    proof (cases "block_state_changed ni1 = 0")
      case clean: True
      then show ?thesis using m by (subst update_info_table_loop.simps) (simp add: flushed_def placed_layout run_def settled_def)
    next
      case False
      then have "nonbad (block_count ni1) (block_state ni1) < ?n" using m(2) by (simp add: settled_def)
      then have "post (update_info_table_loop ni1) (flushed ni1)"
        using m by (intro less.hyps) (auto simp: run_def)
      moreover have u: "upd ni ni1" using m(1) by (simp add: run_def)
      ultimately show ?thesis
        using False by (elim post_mono) (auto simp: flushed_def intro: upd_trans [OF u] dest: upd_protected [OF u])
    qed
    have "post (nmbm_update_info_table_once ni False) (maintained ni ?n)"
      using True less.prems by (intro nmbm_update_info_table_once_post run_start) auto
    then have "post (nmbm_update_info_table_once ni False)
        (\<lambda>(r, ni1). post (if \<not> r then Some (False, ni1) else update_info_table_loop ni1) (flushed ni))"
      by (rule post_mono) (auto simp: maintained_def intro!: step, auto simp: flushed_def placed_layout layout_ok_def run_def)
    then show ?thesis
      using True by (subst update_info_table_loop.simps) (auto simp: case_prod_beta elim!: post_mono)
  qed
qed

lemma nmbm_update_info_table_post:
  assumes "mgmt_ok ni" and "layout_ok ni"
  shows "post (nmbm_update_info_table ni) (\<lambda>(r, ni'). upd ni ni' \<and> layout_ok ni' \<and>
     (r \<longrightarrow> ni' = ni \<and> protected ni \<or> block_state_changed ni' = 0 \<and> block_mapping_changed ni' = 0) \<and>
     (\<not> r \<longrightarrow> protected ni'))"
  using assms update_info_table_loop_post [OF assms(1)]
  by (auto simp: nmbm_update_info_table_def flushed_def layout_ok_def elim!: post_mono)

section \<open>The invariant of an attached instance\<close>

text \<open>Every mapped logic block is mapped to a block of the chip.\<close>

definition mapping_ok :: "'c nmbm_instance \<Rightarrow> bool" where
  "mapping_ok ni \<longleftrightarrow> (\<forall>e \<in> set (block_mapping ni). e <s 0 \<or> e < block_count ni)"

definition nmbm_ok :: "'c nmbm_instance \<Rightarrow> bool" where
  "nmbm_ok ni \<longleftrightarrow> mgmt_ok ni \<and> layout_ok ni \<and> mapping_ok ni \<and> data_block_count ni \<le> block_count ni"

lemma nmbm_okD:
  assumes "nmbm_ok ni"
  shows "mgmt_ok ni" and "layout_ok ni" and "mapping_ok ni" and "state_ok ni" and "chip_ok ni"
    and "length (block_mapping ni) = unat (block_count ni)" and "0 < block_count ni"
    and "mapping_blocks_top_ba ni < block_count ni"
  using assms by (auto simp: nmbm_ok_def mgmt_ok_def tables_ok_def state_ok_chip intro: le_less_trans [OF word_zero_le])

lemma nmbm_ok_upd: "upd ni ni' \<Longrightarrow> layout_ok ni' \<Longrightarrow> nmbm_ok ni \<Longrightarrow> nmbm_ok ni'"
  by (simp add: nmbm_ok_def mgmt_ok_upd mapping_ok_def upd_cong)

lemma layout_wear: "wear ni ni' \<Longrightarrow> layout_ok ni' = layout_ok ni"
  by (simp add: layout_ok_def placed_wear wear_cong)

lemma nmbm_ok_wear: "wear ni ni' \<Longrightarrow> nmbm_ok ni \<Longrightarrow> nmbm_ok ni'"
  by (rule nmbm_ok_upd [OF wear_upd]) (simp_all add: layout_wear nmbm_okD)

lemma mapping_entry:
  "nmbm_ok ni \<Longrightarrow> unat lb < length (block_mapping ni) \<Longrightarrow> \<not> block_mapping ni ! unat lb <s 0 \<Longrightarrow>
   block_mapping ni ! unat lb < block_count ni"
  by (auto simp: nmbm_ok_def mapping_ok_def dest: nth_mem)

lemma in_table_ok: "nmbm_ok ni \<Longrightarrow> b < block_count ni \<Longrightarrow> in_table (block_state ni) b"
  by (rule state_ok_table [OF nmbm_okD(4)])

lemma nmbm_ok_set_mapping:
  assumes "nmbm_ok ni" and "e <s 0 \<or> e < block_count ni"
  shows "nmbm_ok (ni\<lparr>block_mapping := (block_mapping ni)[i := e]\<rparr>)"
  using assms
  by (auto simp: nmbm_ok_def mgmt_ok_def state_ok_def chip_ok_def tables_ok_def layout_ok_def placed_def mapping_ok_def
      dest!: set_update_subset_insert [THEN subsetD])

lemma nmbm_ok_sets:
  assumes "nmbm_ok ni"
  shows "t < block_count ni \<Longrightarrow> nmbm_ok (ni\<lparr>mapping_blocks_top_ba := t\<rparr>)"
    and "nmbm_ok (ni\<lparr>block_mapping_changed := c\<rparr>)"
    and "d \<le> block_count ni \<Longrightarrow> nmbm_ok (ni\<lparr>data_block_count := d\<rparr>)"
  using assms
  by (auto simp: nmbm_ok_def mgmt_ok_def state_ok_def chip_ok_def tables_ok_def layout_ok_def placed_def mapping_ok_def)

lemma update_ok_post:
  assumes "nmbm_ok ni"
  shows "post (nmbm_update_info_table ni) (\<lambda>(r, ni'). nmbm_ok ni' \<and> upd ni ni' \<and>
     (r \<longrightarrow> ni' = ni \<and> protected ni \<or> block_state_changed ni' = 0 \<and> block_mapping_changed ni' = 0) \<and>
     (\<not> r \<longrightarrow> protected ni'))"
  by (rule post_mono [OF nmbm_update_info_table_post [OF nmbm_okD(1,2) [OF assms]]])
    (use assms in \<open>auto intro: nmbm_ok_upd\<close>)

text \<open>What \<open>nmbm_map_block\<close> promises: the highest good block above the tables and not above the
  old top of the spare blocks; or no block, and then no spare block is left.\<close>

definition mapped_result :: "'c nmbm_instance \<Rightarrow> u32 \<Rightarrow> bool \<times> 'c nmbm_instance \<Rightarrow> bool" where
  "mapped_result ni lb = (\<lambda>(r, ni').
     if r then \<exists>pb. mapping_blocks_ba ni < pb \<and> pb \<le> mapping_blocks_top_ba ni \<and> good (block_state ni) pb \<and>
         goods_below (block_state ni) pb (mapping_blocks_top_ba ni) = 0 \<and>
         ni' = ni\<lparr>block_mapping := (block_mapping ni)[unat lb := pb],
           mapping_blocks_top_ba := mapping_blocks_top_ba ni - 1, block_mapping_changed := block_mapping_changed ni + 1\<rparr>
     else goods_below (block_state ni) (mapping_blocks_ba ni) (mapping_blocks_top_ba ni) = 0 \<and>
         (ni' = ni \<or> (\<exists>ni1. upd ni ni1 \<and> ni' = ni1\<lparr>mapping_blocks_top_ba := mapping_blocks_ba ni1\<rparr>)))"

lemma goods_below_self [simp]: "goods_below bs i i = 0"
proof -
  have "{b. i < b \<and> b \<le> i \<and> good bs b} = {}" by auto
  then show ?thesis by (simp only: goods_below_def card.empty)
qed

lemma nmbm_map_block_post:
  assumes ok: "nmbm_ok ni" and lb: "unat lb < length (block_mapping ni)"
  shows "post (nmbm_map_block ni lb) (\<lambda>x. nmbm_ok (snd x) \<and> mapped_result ni lb x)"
proof (cases "mapping_blocks_ba ni = mapping_blocks_top_ba ni")
  case True
  then show ?thesis using ok by (simp add: nmbm_map_block_def mapped_result_def)
next
  case False
  let ?top = "mapping_blocks_top_ba ni" and ?mb = "mapping_blocks_ba ni"
  have tc: "?top < block_count ni" using ok by (rule nmbm_okD)
  have mb: "?mb < block_count ni" using nmbm_okD(2) [OF ok] by (simp add: layout_ok_def)
  have eq: "nmbm_block_walk ni False ?top 0 ?mb = walk_desc_loop ni ?top 0 ?mb"
    using mb by (auto simp: nmbm_block_walk_def nmbm_block_walk_desc_def simp flip: not_less)
  have walk: "post (nmbm_block_walk ni False ?top 0 ?mb) (\<lambda>r. case r of
        Some x \<Rightarrow> ?mb < x \<and> x \<le> ?top \<and> good (block_state ni) x \<and> goods_below (block_state ni) x ?top = unat (0::u32)
      | None \<Rightarrow> goods_below (block_state ni) ?mb ?top \<le> unat (0::u32))"
    unfolding eq using tc by (intro walk_desc_loop_post) (auto intro!: in_table_ok [OF ok] intro: le_less_trans)
  have hit: "nmbm_ok (ni\<lparr>block_mapping := (block_mapping ni)[unat lb := pb],
           mapping_blocks_top_ba := ?top - 1, block_mapping_changed := block_mapping_changed ni + 1\<rparr>)"
    if "?mb < pb" "pb \<le> ?top" for pb
  proof -
    have "?mb < ?top" using that by order
    then have t0: "0 < ?top" by (rule le_less_trans [OF word_zero_le])
    have pb: "pb < block_count ni" using that tc by order
    then have "?top - 1 < block_count ni"
      using tc unat_dec [OF t0] by (simp add: word_less_nat_alt)
    with pb show ?thesis using ok
      by (intro nmbm_ok_sets(2) nmbm_ok_sets(1) nmbm_ok_set_mapping) simp_all
  qed
  have miss: "post (nmbm_update_info_table ni) (\<lambda>(r, ni1). nmbm_ok (ni1\<lparr>mapping_blocks_top_ba := mapping_blocks_ba ni1\<rparr>) \<and>
      upd ni ni1)"
    by (rule post_mono [OF update_ok_post [OF ok]])
      (auto intro!: nmbm_ok_sets(1) dest: nmbm_okD(2) simp: layout_ok_def)
  show ?thesis
    unfolding nmbm_map_block_def using False lb
    by (auto split: option.splits simp: mapped_result_def intro!: post_mono [OF walk] post_mono [OF miss] hit)
qed

end
