(* ===== verification/Nmbm_Attach.thy ===== *)
theory Nmbm_Attach
  imports Nmbm_Tables
begin

text \<open>
  Attaching NMBM to a chip (\<open>nmbm-core.c\<close>): creating the management structures on a new chip,
  loading and checking the info tables of an existing one, the search for the signature, the
  checks of the lower device, the layout of the instance, \<open>nmbm_attach\<close> and \<open>nmbm_detach\<close>.
\<close>

section \<open>A new chip\<close>

partial_function (option) remap_tail_loop :: "'c nmbm_instance \<Rightarrow> u32 \<Rightarrow> 'c nmbm_instance option" where
  "remap_tail_loop ni lb =
     (if lb < mgmt_start_ba ni then do {
        (success, ni) \<leftarrow> nmbm_map_block ni lb;
        if \<not> success then Some ni
        else remap_tail_loop (ni\<lparr>data_block_count := data_block_count ni + 1\<rparr>) (lb + 1)
      } else Some ni)"

definition nmbm_create_info_table :: "'c nmbm_instance \<Rightarrow> (bool \<times> 'c nmbm_instance) option" where
  "nmbm_create_info_table ni = do {
     topb \<leftarrow> nmbm_block_walk ni False (signature_ba ni) 1 (mgmt_start_ba ni);
     (case topb of
        None \<Rightarrow> Some (False, ni)
      | Some topb \<Rightarrow> do {
          (_, ni) \<leftarrow> nmbm_generate_info_table_cache (ni\<lparr>mapping_blocks_top_ba := topb\<rparr>);
          (success, ni) \<leftarrow> nmbm_rebuild_info_table ni;
          if \<not> success then Some (False, ni)
          else do {
            ni \<leftarrow> remap_tail_loop ni (data_block_count ni);
            nmbm_update_info_table ni
          }
        })
   }"

definition mgmt_boundary :: "'c nmbm_instance \<Rightarrow> u32" where
  "mgmt_boundary ni =
     (let start = block_count ni * (NMBM_MGMT_DIV - max_ratio (lower ni)) div NMBM_MGMT_DIV in
      if max_reserved_blocks (lower ni) \<noteq> 0 \<and> block_count ni - start > max_reserved_blocks (lower ni)
      then block_count ni - max_reserved_blocks (lower ni) else start)"

definition new_signature :: "'c nmbm_instance \<Rightarrow> nmbm_signature" where
  "new_signature ni = (signature ni)\<lparr>
     sig_header := (sig_header (signature ni))\<lparr>magic := NMBM_MAGIC_SIGNATURE, version := NMBM_VER, hsize := 48\<rparr>,
     nand_size := nsize (lower ni), block_size := erasesize (lower ni), page_size := writesize (lower ni),
     spare_size := oobsize (lower ni), mgmt_start_pb := mgmt_start_ba ni, max_try_count := 3\<rparr>"

definition nmbm_create_new :: "'c nmbm_instance \<Rightarrow> (bool \<times> 'c nmbm_instance) option" where
  "nmbm_create_new ni = do {
     ni \<leftarrow> nmbm_scan_badblocks (ni\<lparr>mgmt_start_ba := mgmt_boundary ni\<rparr>);
     ni \<leftarrow> nmbm_build_mapping_table ni;
     sb \<leftarrow> nmbm_update_checksum (os_crc32_le (lower ni)) (signature_bytes (new_signature ni));
     let ni = ni\<lparr>signature := signature_of_bytes sb\<rparr>;
     if read_only (lower ni) then Some (True, ni)
     else do {
       (r, ni) \<leftarrow> nmbm_write_signature ni (mgmt_start_ba ni) (signature ni);
       (case r of
          None \<Rightarrow> Some (False, ni)
        | Some ba \<Rightarrow> nmbm_create_info_table (ni\<lparr>signature_ba := ba\<rparr>))
     }
   }"

section \<open>Checking and loading info tables\<close>

definition nmbm_check_info_table_header :: "'c nmbm_instance \<Rightarrow> u8 list \<Rightarrow> bool option" where
  "nmbm_check_info_table_header ni data = do {
     hb \<leftarrow> mem_get data 0 sizeof_info_table_header;
     let ifthdr = info_table_of_bytes hb;
     if magic (ift_header ifthdr) \<noteq> NMBM_MAGIC_INFO_TABLE then Some False
     else if hsize (ift_header ifthdr) \<noteq> info_table_size ni then Some False
     else if mapping_table_off ifthdr - state_table_off ifthdr < state_table_size ni then Some False
     else Some (\<not> info_table_size ni - mapping_table_off ifthdr < mapping_table_size ni)
   }"

text \<open>The first loop of \<open>nmbm_check_info_table\<close>.  The comparisons of the signed entries with
  unsigned numbers are unsigned.  The result is \<open>minimum_mapping_pb\<close>.\<close>

partial_function (option) check_mapping_loop ::
    "'c nmbm_instance \<Rightarrow> u8 list \<Rightarrow> nat \<Rightarrow> u32 \<Rightarrow> u32 \<Rightarrow> u32 \<Rightarrow> u32 option option" where
  "check_mapping_loop ni data moff end_ba ba minimum_mapping_pb =
     (if ba < data_block_count ni then do {
        e \<leftarrow> rd32 data (moff + 4 * unat ba);
        if e \<ge> data_block_count ni \<and> e < end_ba \<or> e = signature_ba ni then Some None
        else check_mapping_loop ni data moff end_ba (ba + 1)
          (if e \<ge> end_ba \<and> e < minimum_mapping_pb then e else minimum_mapping_pb)
      } else Some (Some minimum_mapping_pb))"

partial_function (option) check_state_loop ::
    "'c nmbm_instance \<Rightarrow> u32 list \<Rightarrow> u32 \<Rightarrow> u32 \<Rightarrow> bool option" where
  "check_state_loop ni table ba end_ba =
     (if ba < end_ba then do {
        st \<leftarrow> nmbm_get_block_state ni ba;
        if st \<noteq> BLOCK_ST_GOOD then check_state_loop ni table (ba + 1) end_ba
        else do {
          raw \<leftarrow> nmbm_get_block_state_raw table ba;
          if raw \<noteq> BLOCK_ST_GOOD then Some False else check_state_loop ni table (ba + 1) end_ba
        }
      } else Some True)"

text \<open>The inner \<open>None\<close> is \<open>false\<close>; otherwise the result is \<open>*mapping_blocks_top_ba\<close>.\<close>

definition nmbm_check_info_table ::
    "'c nmbm_instance \<Rightarrow> u32 \<Rightarrow> u32 \<Rightarrow> u8 list \<Rightarrow> u32 option option" where
  "nmbm_check_info_table ni start_ba end_ba data = do {
     hb \<leftarrow> mem_get data 0 sizeof_info_table_header;
     let ifthdr = info_table_of_bytes hb;
     m \<leftarrow> check_mapping_loop ni data (unat (mapping_table_off ifthdr)) end_ba 0 (signature_ba ni);
     (case m of
        None \<Rightarrow> Some None
      | Some minimum_mapping_pb \<Rightarrow> do {
          ok \<leftarrow> check_state_loop ni (words_of_bytes (drop (unat (state_table_off ifthdr)) data)) start_ba end_ba;
          Some (if ok then Some (minimum_mapping_pb - 1) else None)
        })
   }"

text \<open>The read loop of \<open>nmbm_try_load_info_table\<close>.  \<open>off\<close> is the offset in the cache; \<open>start\<close>
  is \<open>None\<close> as long as \<open>checkhdr\<close> is true.  The result is \<open>start_ba\<close> and the block address
  after the table, or \<open>None\<close> for \<open>false\<close>.\<close>

partial_function (option) try_load_loop ::
    "'c nmbm_instance \<Rightarrow> u32 \<Rightarrow> u32 \<Rightarrow> nat \<Rightarrow> u32 \<Rightarrow> u32 option \<Rightarrow>
     ((u32 \<times> u32) option \<times> 'c nmbm_instance) option" where
  "try_load_loop ni ba limit off sizeremain start =
     (if sizeremain \<noteq> 0 \<and> ba < limit then do {
        st \<leftarrow> nmbm_get_block_state ni ba;
        if st \<noteq> BLOCK_ST_GOOD then try_load_loop ni (ba + 1) limit off sizeremain start
        else do {
          (bad, ni) \<leftarrow> nmbm_check_bad_phys_block ni ba;
          if bad then do {
            (_, ni) \<leftarrow> nmbm_set_block_state ni ba BLOCK_ST_BAD;
            try_load_loop ni (ba + 1) limit off sizeremain start
          } else do {
            let chunksize = (if sizeremain > erasesize (lower ni) then erasesize (lower ni) else sizeremain);
            (ret, d, ni) \<leftarrow> nmbn_read_data ni (ba2addr ni ba) (drop off (info_table_cache ni)) chunksize;
            let ni = ni\<lparr>info_table_cache := take off (info_table_cache ni) @ d\<rparr>;
            if ret < 0 then do {
              (_, ni) \<leftarrow> nmbm_set_block_state ni ba BLOCK_ST_BAD;
              try_load_loop ni (ba + 1) limit off sizeremain start
            } else if ret > 0 then Some (None, ni)
            else do {
              success \<leftarrow>
                (if start = None then nmbm_check_info_table_header ni (drop off (info_table_cache ni)) else Some True);
              if \<not> success then Some (None, ni)
              else try_load_loop ni (ba + 1) limit (off + unat chunksize) (sizeremain - chunksize)
                (if start = None then Some ba else start)
            }
          }
        }
      }
      else if sizeremain \<noteq> 0 then Some (None, ni)
      else Some (Some (case start of None \<Rightarrow> 0 | Some s \<Rightarrow> s, ba), ni))"

text \<open>\<open>eba\<close>, \<open>write_count\<close> and \<open>mapping_blocks_top_ba\<close>, or \<open>None\<close> for \<open>false\<close>: the callers use
  the out-parameters only after success.\<close>

definition nmbm_try_load_info_table ::
    "'c nmbm_instance \<Rightarrow> u32 \<Rightarrow> bool \<Rightarrow> ((u32 \<times> u32 \<times> u32) option \<times> 'c nmbm_instance) option" where
  "nmbm_try_load_info_table ni ba table_loaded = do {
     (r, ni) \<leftarrow> try_load_loop ni ba (ba + size2blk ni (ucast (info_table_size ni))) 0 (info_table_size ni) None;
     (case r of
        None \<Rightarrow> Some (None, ni)
      | Some (start_ba, eba) \<Rightarrow> do {
          let cache = info_table_cache ni;
          success \<leftarrow> nmbm_check_header (os_crc32_le (lower ni)) cache (info_table_size ni);
          if \<not> success then Some (None, ni)
          else do {
            hb \<leftarrow> mem_get cache 0 sizeof_info_table_header;
            let ifthdr = info_table_of_bytes hb;
            t \<leftarrow> nmbm_check_info_table ni start_ba eba cache;
            (case t of
               None \<Rightarrow> Some (None, ni)
             | Some topb \<Rightarrow> do {
                 ni \<leftarrow>
                   (if \<not> table_loaded \<or> write_count ifthdr > write_count (info_table ni) then do {
                      bs \<leftarrow> mem_get cache (unat (state_table_off ifthdr)) (unat (state_table_size ni));
                      bm \<leftarrow> mem_get cache (unat (mapping_table_off ifthdr)) (unat (mapping_table_size ni));
                      Some (ni\<lparr>info_table := ifthdr, block_state := words_of_bytes bs,
                        block_mapping := words_of_bytes bm\<rparr>)
                    } else Some ni);
                 Some (Some (eba, write_count ifthdr, topb), ni)
               })
          }
        })
   }"

text \<open>\<open>table_start_ba\<close>, \<open>table_end_ba\<close>, \<open>write_count\<close> and \<open>mapping_blocks_top_ba\<close>.\<close>

partial_function (option) nmbm_search_info_table ::
    "'c nmbm_instance \<Rightarrow> u32 \<Rightarrow> u32 \<Rightarrow> bool \<Rightarrow> ((u32 \<times> u32 \<times> u32 \<times> u32) option \<times> 'c nmbm_instance) option" where
  "nmbm_search_info_table ni ba limit table_loaded =
     (if ba < limit - size2blk ni (ucast (info_table_size ni)) then do {
        (r, ni) \<leftarrow> nmbm_try_load_info_table ni ba table_loaded;
        (case r of
           Some (eba, wc, topb) \<Rightarrow> Some (Some (ba, eba, wc, topb), ni)
         | None \<Rightarrow> nmbm_search_info_table ni (ba + 1) limit table_loaded)
      } else Some (None, ni))"

partial_function (option) last_mapped_loop :: "'c nmbm_instance \<Rightarrow> u32 \<Rightarrow> 'c nmbm_instance option" where
  "last_mapped_loop ni i =
     (if i > 0 then do {
        e \<leftarrow> arr_get (block_mapping ni) (unat (i - 1));
        if \<not> e <s 0 then Some (ni\<lparr>data_block_count := i\<rparr>) else last_mapped_loop ni (i - 1)
      } else Some ni)"

text \<open>The end of \<open>nmbm_load_info_table\<close>: bring the second table up to date, and protect the
  device when that is not possible.\<close>

definition complete_tables ::
    "'c nmbm_instance \<Rightarrow> u32 \<Rightarrow> u32 \<Rightarrow> 'c nmbm_instance option" where
  "complete_tables ni main_write_count backup_write_count = do {
     (success, ni) \<leftarrow>
       (if backup_table_ba ni = 0 then nmbm_rescue_single_info_table ni
        else if main_write_count \<noteq> backup_write_count then
          nmbm_update_single_info_table (ni\<lparr>block_state_changed := 1, block_mapping_changed := 1\<rparr>)
            (main_write_count < backup_write_count)
        else Some (True, ni));
     Some (if mapping_blocks_ba ni = mapping_blocks_top_ba ni \<or> \<not> success then ni\<lparr>protected := True\<rparr> else ni)
   }"

definition nmbm_load_info_table ::
    "'c nmbm_instance \<Rightarrow> u32 \<Rightarrow> u32 \<Rightarrow> (bool \<times> 'c nmbm_instance) option" where
  "nmbm_load_info_table ni ba limit = do {
     let ni = ni\<lparr>main_table_ba := 0, backup_table_ba := 0, info_table := (info_table ni)\<lparr>write_count := 0\<rparr>,
       mapping_blocks_top_ba := signature_ba ni - 1, data_block_count := mgmt_start_pb (signature ni)\<rparr>;
     (r, ni) \<leftarrow> nmbm_search_info_table ni ba limit False;
     (case r of
        None \<Rightarrow> Some (False, ni)
      | Some (main_start, main_end, main_wc, main_top) \<Rightarrow> do {
          (r, ni) \<leftarrow> nmbm_search_info_table (ni\<lparr>main_table_ba := main_start\<rparr>) main_end limit True;
          let ni = (case r of None \<Rightarrow> ni | Some (backup_start, _, _, _) \<Rightarrow> ni\<lparr>backup_table_ba := backup_start\<rparr>);
          let table_end = (case r of None \<Rightarrow> main_end | Some (_, backup_end, _, _) \<Rightarrow> backup_end);
          let backup_wc = (case r of None \<Rightarrow> 0 | Some (_, _, wc, _) \<Rightarrow> wc);
          let topb = (case r of
              None \<Rightarrow> main_top
            | Some (_, _, wc, backup_top) \<Rightarrow>
                if backup_table_ba ni = 0 \<or> main_wc \<ge> wc then main_top else backup_top);
          ni \<leftarrow> last_mapped_loop (ni\<lparr>mapping_blocks_top_ba := topb, mapping_blocks_ba := table_end\<rparr>)
            (mgmt_start_pb (signature ni));
          (_, ni) \<leftarrow> nmbm_generate_info_table_cache ni;
          if read_only (lower ni) then Some (True, ni)
          else do {
            ni \<leftarrow> complete_tables ni main_wc backup_wc;
            Some (True, ni)
          }
        })
   }"

definition nmbm_load_existing :: "'c nmbm_instance \<Rightarrow> (bool \<times> 'c nmbm_instance) option" where
  "nmbm_load_existing ni = do {
     let ni = ni\<lparr>mgmt_start_ba := mgmt_start_pb (signature ni)\<rparr>;
     (success, ni) \<leftarrow> nmbm_load_info_table ni (mgmt_start_ba ni) (signature_ba ni);
     if success then Some (True, ni)
     else if nflags (lower ni) AND NMBM_F_CREATE = 0 then Some (False, ni)
     else do {
       ni \<leftarrow> nmbm_scan_badblocks ni;
       ni \<leftarrow> nmbm_build_mapping_table ni;
       if read_only (lower ni) then Some (True, ni)
       else nmbm_create_info_table ni
     }
   }"

section \<open>Finding the signature\<close>

partial_function (option) find_in_block_loop ::
    "'c nmbm_instance \<Rightarrow> u64 \<Rightarrow> u64 \<Rightarrow> (nmbm_signature option \<times> 'c nmbm_instance) option" where
  "find_in_block_loop ni addr off =
     (if off < ucast (erasesize (lower ni)) then do {
        (ret, sig, ni) \<leftarrow> nmbn_read_data ni (addr + off) (replicate sizeof_signature 0) 48;
        success \<leftarrow>
          (if ret \<noteq> 0 then Some False else nmbm_check_header (os_crc32_le (lower ni)) sig 48);
        if success \<and> magic (sig_header (signature_of_bytes sig)) = NMBM_MAGIC_SIGNATURE
        then Some (Some (signature_of_bytes sig), ni)
        else find_in_block_loop ni addr (off + ucast (writesize (lower ni)))
      } else Some (None, ni))"

partial_function (option) find_signature_loop ::
    "'c nmbm_instance \<Rightarrow> u32 \<Rightarrow> u32 \<Rightarrow> ((nmbm_signature \<times> u32) option \<times> 'c nmbm_instance) option" where
  "find_signature_loop ni ba limit =
     (if ba \<ge> limit then do {
        let ba = ba - 1;
        (bad, ni) \<leftarrow> nmbm_check_bad_phys_block ni ba;
        (r, ni) \<leftarrow> (if bad then Some (None, ni) else find_in_block_loop ni (ba2addr ni ba) 0);
        (case r of
           Some sig \<Rightarrow> Some (Some (sig, ba), ni)
         | None \<Rightarrow> find_signature_loop ni ba limit)
      } else Some (None, ni))"

definition signature_limit :: "'c nmbm_instance \<Rightarrow> u32 \<Rightarrow> u32" where
  "signature_limit ni count =
     (let limit = count div NMBM_MGMT_DIV * (NMBM_MGMT_DIV - max_ratio (lower ni)) in
      if max_reserved_blocks (lower ni) \<noteq> 0 \<and> count - limit > max_reserved_blocks (lower ni)
      then count - max_reserved_blocks (lower ni) else limit)"

definition nmbm_find_signature ::
    "'c nmbm_instance \<Rightarrow> ((nmbm_signature \<times> u32) option \<times> 'c nmbm_instance) option" where
  "nmbm_find_signature ni =
     (let count = ucast (drop_bit (unat (erasesize_shift ni)) (nsize (lower ni))) in
      find_signature_loop ni count (signature_limit ni count))"

section \<open>Checking the lower device and laying out the instance\<close>

definition is_power_of_2_u64 :: "u64 \<Rightarrow> bool" where
  "is_power_of_2_u64 n \<longleftrightarrow> n \<noteq> 0 \<and> n AND (n - 1) = 0"

definition is_power_of_2 :: "u32 \<Rightarrow> bool" where
  "is_power_of_2 n \<longleftrightarrow> n \<noteq> 0 \<and> n AND (n - 1) = 0"

text \<open>The check sets a \<open>max_ratio\<close> of zero to one, also when it then fails.\<close>

definition nmbm_check_lower_members :: "'c nmbm_lower_device \<Rightarrow> bool \<times> 'c nmbm_lower_device" where
  "nmbm_check_lower_members nld =
     (if nsize nld = 0 \<or> \<not> is_power_of_2_u64 (nsize nld) then (False, nld)
      else if erasesize nld = 0 \<or> \<not> is_power_of_2 (erasesize nld) then (False, nld)
      else if writesize nld = 0 \<or> \<not> is_power_of_2 (writesize nld) then (False, nld)
      else if oobsize nld = 0 then (False, nld)
      else if read_page nld = None then (False, nld)
      else if \<not> read_only nld \<and> (write_page nld = None \<or> erase_block nld = None) then (False, nld)
      else
        let nld = (if max_ratio nld = 0 then nld\<lparr>max_ratio := 1\<rparr> else nld) in
        if max_ratio nld \<ge> NMBM_MGMT_DIV - 1 then (False, nld)
        else if max_reserved_blocks nld \<noteq> 0 \<and> max_reserved_blocks nld < NMBM_MGMT_BLOCKS_MIN then (False, nld)
        else (True, nld))"

definition state_table_bytes :: "u32 \<Rightarrow> u32" where
  "state_table_bytes count =
     ((count + NMBM_BITMAP_BLOCKS_PER_UNIT - 1) div NMBM_BITMAP_BLOCKS_PER_UNIT) * NMBM_BITMAP_UNIT_SIZE"

text \<open>\<open>sizeof_instance\<close> is \<open>sizeof(struct nmbm_instance)\<close>; all other terms are \<open>uint32_t\<close>.\<close>

definition nmbm_calc_structure_size :: "u64 \<Rightarrow> 'c nmbm_lower_device \<Rightarrow> u64" where
  "nmbm_calc_structure_size sizeof_instance nld =
     (let count = ucast (nsize nld div ucast (erasesize nld)) :: u32;
          state_size = state_table_bytes count;
          mapping_size = count * 4;
          table_size = NMBM_ALIGN 32 (writesize nld);
          table_size = table_size + NMBM_ALIGN state_size (writesize nld);
          table_size = table_size + NMBM_ALIGN mapping_size (writesize nld) in
      ucast (table_size + state_size + mapping_size + writesize nld + oobsize nld) + sizeof_instance)"

definition ffs :: "u32 \<Rightarrow> nat" where
  "ffs w = (if w = 0 then 0 else Suc (length (takeWhile Not (map (bit w) [0..<32]))))"

text \<open>\<open>mem\<close> is the memory behind the instance structure: the buffers are carved out of it.\<close>

definition nmbm_init_structure :: "'c nmbm_instance \<Rightarrow> u8 list \<Rightarrow> 'c nmbm_instance option" where
  "nmbm_init_structure ni mem = do {
     let ld = lower ni;
     let pages_per_block = erasesize ld div writesize ld;
     let blocks_per_chip = (ucast (nsize ld div ucast (erasesize ld)) :: u32);
     let raw_page = writesize ld + oobsize ld;
     let raw_block = pages_per_block * raw_page;
     let eshift = of_nat (ffs (erasesize ld)) - (1 :: u16);
     let count = (ucast (drop_bit (unat eshift) (nsize ld)) :: u32);
     let ssize = state_table_bytes count;
     let msize = count * 4;
     let soff = NMBM_ALIGN 32 (writesize ld);
     let moff = soff + NMBM_ALIGN ssize (writesize ld);
     let tsize = moff + NMBM_ALIGN msize (writesize ld);
     let ni = ni\<lparr>rawpage_size := raw_page, rawblock_size := raw_block, rawchip_size := blocks_per_chip * raw_block,
       writesize_mask := writesize ld - 1, erasesize_mask := erasesize ld - 1,
       writesize_shift := of_nat (ffs (writesize ld)) - 1, erasesize_shift := eshift,
       block_count := count, state_table_size := ssize, mapping_table_size := msize,
       info_table_size := tsize,
       info_table := (info_table ni)\<lparr>state_table_off := soff, mapping_table_off := moff\<rparr>\<rparr>;
     let ni = ni\<lparr>info_table_spare_blocks := nmbm_get_spare_block_count (size2blk ni (ucast tsize))\<rparr>;
     cache \<leftarrow> mem_get mem 0 (unat tsize);
     _ \<leftarrow> mem_get mem (unat tsize) (unat ssize);
     maps \<leftarrow> mem_get mem (unat tsize + unat ssize) (unat msize);
     Some (ni\<lparr>info_table_cache := cache,
       block_state := words_of_bytes (replicate (unat ssize) 0xff), block_state_changed := 0,
       block_mapping := words_of_bytes maps, block_mapping_changed := 0,
       page_cache := drop (unat tsize + unat ssize + unat msize) mem\<rparr>)
   }"

section \<open>Attach and detach\<close>

definition nmbm_attach :: "'c nmbm_lower_device option \<Rightarrow> 'c nmbm_instance option \<Rightarrow> u8 list \<Rightarrow>
    (int \<times> 'c nmbm_lower_device option \<times> 'c nmbm_instance option) option" where
  "nmbm_attach pnld pni mem =
     (case (pnld, pni) of
        (Some nld, Some ni) \<Rightarrow> do {
          let ni = ni\<lparr>log_display_level := NMBM_LOG_INFO\<rparr>;
          let (success, nld) = nmbm_check_lower_members nld;
          if \<not> success then Some (- EINVAL, Some nld, Some ni)
          else do {
            ni \<leftarrow> nmbm_init_structure (ni\<lparr>lower := nld\<rparr>) mem;
            (r, ni) \<leftarrow> nmbm_find_signature ni;
            (ret, ni) \<leftarrow>
              (case r of
                 None \<Rightarrow>
                   if nflags nld AND NMBM_F_CREATE = 0 then Some (- ENODEV, ni)
                   else do {
                     (success, ni) \<leftarrow> nmbm_create_new ni;
                     Some (if success then 0 else - ENODEV, ni)
                   }
               | Some (sig, ba) \<Rightarrow>
                   let ni = ni\<lparr>signature := sig, signature_ba := ba\<rparr> in
                   if version (sig_header sig) \<noteq> NMBM_VER then Some (- EINVAL, ni)
                   else if nand_size sig \<noteq> nsize nld \<or> block_size sig \<noteq> erasesize nld \<or>
                     page_size sig \<noteq> writesize nld \<or> spare_size sig \<noteq> oobsize nld then Some (- EINVAL, ni)
                   else do {
                     (success, ni) \<leftarrow> nmbm_load_existing ni;
                     Some (if success then 0 else - ENODEV, ni)
                   });
            Some (ret, Some nld, Some ni)
          }
        }
      | _ \<Rightarrow> Some (- EINVAL, pnld, pni))"

definition nmbm_detach :: "'c nmbm_instance option \<Rightarrow> (int \<times> 'c nmbm_instance option) option" where
  "nmbm_detach pni =
     (case pni of
        None \<Rightarrow> Some (- EINVAL, None)
      | Some ni \<Rightarrow>
          if read_only (lower ni) then Some (0, Some ni)
          else do {
            (_, ni) \<leftarrow> nmbm_update_info_table ni;
            Some (0, Some ni)
          })"

declare remap_tail_loop.simps [code] check_mapping_loop.simps [code] check_state_loop.simps [code]
  try_load_loop.simps [code] nmbm_search_info_table.simps [code] last_mapped_loop.simps [code]
  find_in_block_loop.simps [code] find_signature_loop.simps [code]

end
