(* ===== verification/Nmbm_Api.thy ===== *)
theory Nmbm_Api
  imports Nmbm_Attach
begin

text \<open>
  The operations of \<open>nmbm.h\<close> on an attached instance (\<open>nmbm-core.c\<close>): erasing, reading and
  writing by logic address, bad-block queries and marking.  Each comes in two definitions:
  the work on an instance, and the function of the interface, which first tests the pointer.
\<close>

section \<open>Erasing\<close>

text \<open>The part of \<open>nmbm_erase_logic_block\<close> up to the label \<open>remap_logic_block\<close>: whether the
  physical block was erased.\<close>

definition erase_current_block :: "'c nmbm_instance \<Rightarrow> u32 \<Rightarrow> (bool \<times> 'c nmbm_instance) option" where
  "erase_current_block ni pb = do {
     st \<leftarrow> nmbm_get_block_state ni pb;
     if st = BLOCK_ST_BAD \<or> st = BLOCK_ST_NEED_REMAP then Some (False, ni)
     else do {
       (bad, ni) \<leftarrow> nmbm_check_bad_phys_block ni pb;
       if bad then nmbm_set_block_state ni pb BLOCK_ST_BAD \<bind> (\<lambda>(_, ni). Some (False, ni))
       else do {
         (success, ni) \<leftarrow> nmbm_erase_block_and_check ni pb;
         if success then Some (True, ni)
         else retire_block ni pb \<bind> (\<lambda>ni. Some (False, ni))
       }
     }
   }"

text \<open>Both branches behind the label end the same way: the old block is recorded bad, unless it
  only waited for being remapped, and the info tables are updated.\<close>

definition retire_old_block :: "'c nmbm_instance \<Rightarrow> u32 \<Rightarrow> 'c nmbm_instance option" where
  "retire_old_block ni pb = do {
     st \<leftarrow> nmbm_get_block_state ni pb;
     (_, ni) \<leftarrow> (if st \<noteq> BLOCK_ST_NEED_REMAP then nmbm_set_block_state ni pb BLOCK_ST_BAD else Some (False, ni));
     (_, ni) \<leftarrow> nmbm_update_info_table ni;
     Some ni
   }"

text \<open>The part from the label on: whether a new block was assigned.\<close>

definition remap_logic_block :: "'c nmbm_instance \<Rightarrow> u32 \<Rightarrow> u32 \<Rightarrow> (bool \<times> 'c nmbm_instance) option" where
  "remap_logic_block ni block_addr pb = do {
     (success, ni) \<leftarrow> nmbm_map_block ni block_addr;
     if \<not> success then do {
       m \<leftarrow> arr_set (block_mapping ni) (unat block_addr) (- 1);
       ni \<leftarrow> retire_old_block (ni\<lparr>block_mapping := m\<rparr>) pb;
       Some (False, ni)
     } else do {
       ni \<leftarrow> retire_old_block ni pb;
       Some (True, ni)
     }
   }"

partial_function (option) nmbm_erase_logic_block ::
    "'c nmbm_instance \<Rightarrow> u32 \<Rightarrow> (int \<times> 'c nmbm_instance) option" where
  "nmbm_erase_logic_block ni block_addr = do {
     pb \<leftarrow> arr_get (block_mapping ni) (unat block_addr);
     if pb <s 0 then Some (- EIO, ni)
     else do {
       (erased, ni) \<leftarrow> erase_current_block ni pb;
       if erased then Some (0, ni)
       else do {
         (success, ni) \<leftarrow> remap_logic_block ni block_addr pb;
         if \<not> success then Some (- EIO, ni) else nmbm_erase_logic_block ni block_addr
       }
     }
   }"

text \<open>The second component is what is stored in \<open>*failed_addr\<close>.\<close>

partial_function (option) erase_range_loop ::
    "'c nmbm_instance \<Rightarrow> u32 \<Rightarrow> u32 \<Rightarrow> (int \<times> u64 option \<times> 'c nmbm_instance) option" where
  "erase_range_loop ni start_ba end_ba =
     (if start_ba \<le> end_ba then do {
        (ret, ni) \<leftarrow> nmbm_erase_logic_block ni start_ba;
        if ret \<noteq> 0 then Some (ret, Some (ba2addr ni start_ba), ni)
        else erase_range_loop ni (start_ba + 1) end_ba
      } else Some (0, None, ni))"

definition erase_block_range :: "'c nmbm_instance \<Rightarrow> u64 \<Rightarrow> u64 \<Rightarrow> (int \<times> u64 option \<times> 'c nmbm_instance) option" where
  "erase_block_range ni addr sz =
     (if protected ni \<or> read_only (lower ni) then Some (- EROFS, None, ni)
      else if addr \<ge> ba2addr ni (data_block_count ni) then Some (- EINVAL, None, ni)
      else if addr + sz > ba2addr ni (data_block_count ni) then Some (- EINVAL, None, ni)
      else if sz = 0 then Some (0, None, ni)
      else erase_range_loop ni (addr2ba ni addr) (addr2ba ni (addr + sz - 1)))"

definition nmbm_erase_block_range ::
    "'c nmbm_instance option \<Rightarrow> u64 \<Rightarrow> u64 \<Rightarrow> (int \<times> u64 option \<times> 'c nmbm_instance option) option" where
  "nmbm_erase_block_range pni addr sz =
     (case pni of
        None \<Rightarrow> Some (- EINVAL, None, None)
      | Some ni \<Rightarrow> do {
          (ret, failed, ni) \<leftarrow> erase_block_range ni addr sz;
          Some (ret, failed, Some ni)
        })"

section \<open>Reading\<close>

definition nmbm_read_logic_page :: "'c nmbm_instance \<Rightarrow> u64 \<Rightarrow> u8 list option \<Rightarrow> u8 list option \<Rightarrow>
    nmbm_oob_mode \<Rightarrow> (int \<times> u8 list option \<times> u8 list option \<times> 'c nmbm_instance) option" where
  "nmbm_read_logic_page ni addr data oob mode = do {
     let lb = addr2ba ni addr;
     let offset = (ucast (addr AND ucast (erasesize_mask ni)) :: u32);
     pb \<leftarrow> arr_get (block_mapping ni) (unat lb);
     if pb <s 0 then Some (- EIO, data, oob, ni)
     else do {
       st \<leftarrow> nmbm_get_block_state ni pb;
       if st = BLOCK_ST_BAD then Some (- EIO, data, oob, ni)
       else nmbm_read_phys_page ni (ba2addr ni pb + ucast offset) data oob mode
     }
   }"

definition read_single_page :: "'c nmbm_instance \<Rightarrow> u64 \<Rightarrow> u8 list option \<Rightarrow> u8 list option \<Rightarrow>
    nmbm_oob_mode \<Rightarrow> (int \<times> u8 list option \<times> u8 list option \<times> 'c nmbm_instance) option" where
  "read_single_page ni addr data oob mode =
     (if protected ni then Some (- EROFS, data, oob, ni)
      else if addr \<ge> ba2addr ni (data_block_count ni) then Some (- EINVAL, data, oob, ni)
      else nmbm_read_logic_page ni addr data oob mode)"

definition nmbm_read_single_page :: "'c nmbm_instance option \<Rightarrow> u64 \<Rightarrow> u8 list option \<Rightarrow> u8 list option \<Rightarrow>
    nmbm_oob_mode \<Rightarrow> (int \<times> u8 list option \<times> u8 list option \<times> 'c nmbm_instance option) option" where
  "nmbm_read_single_page pni addr data oob mode =
     (case pni of
        None \<Rightarrow> Some (- EINVAL, data, oob, None)
      | Some ni \<Rightarrow> do {
          (ret, data, oob, ni) \<leftarrow> read_single_page ni addr data oob mode;
          Some (ret, data, oob, Some ni)
        })"

text \<open>The offset in the page and the length of the next piece of a \<open>size_t\<close> range.\<close>

definition range_leading :: "'c nmbm_instance \<Rightarrow> u64 \<Rightarrow> u64" where
  "range_leading ni off = off AND ucast (writesize_mask ni)"

definition range_chunk :: "'c nmbm_instance \<Rightarrow> u64 \<Rightarrow> u64 \<Rightarrow> u64" where
  "range_chunk ni leading sizeremain =
     (let chunksize = ucast (writesize (lower ni)) - leading in
      if chunksize > sizeremain then sizeremain else chunksize)"

text \<open>The result is \<open>ret\<close>, \<open>has_ecc_err\<close>, \<open>max_bitflips\<close>, \<open>sizeremain\<close> and the buffer at the
  end of the loop.\<close>

partial_function (option) read_range_loop ::
    "'c nmbm_instance \<Rightarrow> u64 \<Rightarrow> u8 list \<Rightarrow> nat \<Rightarrow> u64 \<Rightarrow> nmbm_oob_mode \<Rightarrow> int \<Rightarrow> bool \<Rightarrow> int \<Rightarrow>
     (int \<times> bool \<times> int \<times> u64 \<times> u8 list \<times> 'c nmbm_instance) option" where
  "read_range_loop ni off data ptr sizeremain mode ret has_ecc_err max_bitflips =
     (if sizeremain \<noteq> 0 then do {
        let leading = range_leading ni off;
        let chunksize = range_chunk ni leading sizeremain;
        (ret, data, ni) \<leftarrow>
          (if chunksize = ucast (writesize (lower ni)) then do {
             (ret, d, _, ni) \<leftarrow> nmbm_read_logic_page ni (off - leading) (Some (drop ptr data)) None mode;
             Some (ret, take ptr data @ (case d of None \<Rightarrow> [] | Some b \<Rightarrow> b), ni)
           } else do {
             (ret, d, _, ni) \<leftarrow> nmbm_read_logic_page ni (off - leading) (Some (page_cache ni)) None mode;
             let ni = put_cache ni d;
             if ret < 0 \<and> ret \<noteq> - EBADMSG then Some (ret, data, ni)
             else do {
               src \<leftarrow> mem_get (page_cache ni) (unat leading) (unat chunksize);
               data \<leftarrow> mem_put data ptr src;
               Some (ret, data, ni)
             }
           });
        if ret < 0 \<and> ret \<noteq> - EBADMSG then Some (ret, has_ecc_err, max_bitflips, sizeremain, data, ni)
        else read_range_loop ni (off + chunksize) data (ptr + unat chunksize) (sizeremain - chunksize) mode
          ret (has_ecc_err \<or> ret = - EBADMSG) (if ret > max_bitflips then ret else max_bitflips)
      } else Some (ret, has_ecc_err, max_bitflips, sizeremain, data, ni))"

text \<open>The result is the return value, what is stored in \<open>*retlen\<close>, the buffer and the instance.\<close>

definition read_range :: "'c nmbm_instance \<Rightarrow> u64 \<Rightarrow> u64 \<Rightarrow> u8 list \<Rightarrow> nmbm_oob_mode \<Rightarrow>
    (int \<times> u64 option \<times> u8 list \<times> 'c nmbm_instance) option" where
  "read_range ni addr sz data mode =
     (if protected ni then Some (- EROFS, None, data, ni)
      else if addr \<ge> ba2addr ni (data_block_count ni) then Some (- EINVAL, None, data, ni)
      else if addr + sz > ba2addr ni (data_block_count ni) then Some (- EINVAL, None, data, ni)
      else if sz = 0 then Some (0, None, data, ni)
      else do {
        (ret, has_ecc_err, max_bitflips, sizeremain, data, ni) \<leftarrow>
          read_range_loop ni addr data 0 sz mode 0 False 0;
        Some (if ret < 0 \<and> ret \<noteq> - EBADMSG then ret else if has_ecc_err then - EBADMSG else max_bitflips,
          Some (sz - sizeremain), data, ni)
      })"

definition nmbm_read_range :: "'c nmbm_instance option \<Rightarrow> u64 \<Rightarrow> u64 \<Rightarrow> u8 list \<Rightarrow> nmbm_oob_mode \<Rightarrow>
    (int \<times> u64 option \<times> u8 list \<times> 'c nmbm_instance option) option" where
  "nmbm_read_range pni addr sz data mode =
     (case pni of
        None \<Rightarrow> Some (- EINVAL, None, data, None)
      | Some ni \<Rightarrow> do {
          (ret, retlen, data, ni) \<leftarrow> read_range ni addr sz data mode;
          Some (ret, retlen, data, Some ni)
        })"

section \<open>Writing\<close>

definition nmbm_write_logic_page :: "'c nmbm_instance \<Rightarrow> u64 \<Rightarrow> u8 list option \<Rightarrow> u8 list option \<Rightarrow>
    nmbm_oob_mode \<Rightarrow> (int \<times> 'c nmbm_instance) option" where
  "nmbm_write_logic_page ni addr data oob mode = do {
     let lb = addr2ba ni addr;
     let offset = (ucast (addr AND ucast (erasesize_mask ni)) :: u32);
     pb \<leftarrow> arr_get (block_mapping ni) (unat lb);
     if pb <s 0 then Some (- EIO, ni)
     else do {
       st \<leftarrow> nmbm_get_block_state ni pb;
       if st = BLOCK_ST_BAD then Some (- EIO, ni)
       else do {
         (success, ni) \<leftarrow> nmbm_write_phys_page ni (ba2addr ni pb + ucast offset) data oob mode;
         if success then Some (0, ni)
         else do {
           (_, ni) \<leftarrow> nmbm_set_block_state ni pb BLOCK_ST_NEED_REMAP;
           (_, ni) \<leftarrow> nmbm_update_info_table ni;
           Some (- EIO, ni)
         }
       }
     }
   }"

definition write_single_page :: "'c nmbm_instance \<Rightarrow> u64 \<Rightarrow> u8 list option \<Rightarrow> u8 list option \<Rightarrow>
    nmbm_oob_mode \<Rightarrow> (int \<times> 'c nmbm_instance) option" where
  "write_single_page ni addr data oob mode =
     (if protected ni \<or> read_only (lower ni) then Some (- EROFS, ni)
      else if addr \<ge> ba2addr ni (data_block_count ni) then Some (- EINVAL, ni)
      else nmbm_write_logic_page ni addr data oob mode)"

definition nmbm_write_single_page :: "'c nmbm_instance option \<Rightarrow> u64 \<Rightarrow> u8 list option \<Rightarrow> u8 list option \<Rightarrow>
    nmbm_oob_mode \<Rightarrow> (int \<times> 'c nmbm_instance option) option" where
  "nmbm_write_single_page pni addr data oob mode =
     (case pni of
        None \<Rightarrow> Some (- EINVAL, None)
      | Some ni \<Rightarrow> do {
          (ret, ni) \<leftarrow> write_single_page ni addr data oob mode;
          Some (ret, Some ni)
        })"

partial_function (option) write_range_loop ::
    "'c nmbm_instance \<Rightarrow> u64 \<Rightarrow> u8 list \<Rightarrow> nat \<Rightarrow> u64 \<Rightarrow> nmbm_oob_mode \<Rightarrow>
     (int \<times> u64 \<times> 'c nmbm_instance) option" where
  "write_range_loop ni off data ptr sizeremain mode =
     (if sizeremain \<noteq> 0 then do {
        let leading = range_leading ni off;
        let chunksize = range_chunk ni leading sizeremain;
        (ret, ni) \<leftarrow>
          (if chunksize = ucast (writesize (lower ni))
           then nmbm_write_logic_page ni (off - leading) (Some (drop ptr data)) None mode
           else do {
             pc \<leftarrow> mem_put (page_cache ni) 0 (replicate (unat leading) 0xff);
             src \<leftarrow> mem_get data ptr (unat chunksize);
             pc \<leftarrow> mem_put pc (unat leading) src;
             nmbm_write_logic_page (ni\<lparr>page_cache := pc\<rparr>) (off - leading) (Some pc) None mode
           });
        if ret \<noteq> 0 then Some (ret, sizeremain, ni)
        else write_range_loop ni (off + chunksize) data (ptr + unat chunksize) (sizeremain - chunksize) mode
      } else Some (0, sizeremain, ni))"

definition write_range :: "'c nmbm_instance \<Rightarrow> u64 \<Rightarrow> u64 \<Rightarrow> u8 list \<Rightarrow> nmbm_oob_mode \<Rightarrow>
    (int \<times> u64 option \<times> 'c nmbm_instance) option" where
  "write_range ni addr sz data mode =
     (if protected ni \<or> read_only (lower ni) then Some (- EROFS, None, ni)
      else if addr \<ge> ba2addr ni (data_block_count ni) then Some (- EINVAL, None, ni)
      else if addr + sz > ba2addr ni (data_block_count ni) then Some (- EINVAL, None, ni)
      else if sz = 0 then Some (0, None, ni)
      else do {
        (ret, sizeremain, ni) \<leftarrow> write_range_loop ni addr data 0 sz mode;
        Some (ret, Some (sz - sizeremain), ni)
      })"

definition nmbm_write_range :: "'c nmbm_instance option \<Rightarrow> u64 \<Rightarrow> u64 \<Rightarrow> u8 list \<Rightarrow> nmbm_oob_mode \<Rightarrow>
    (int \<times> u64 option \<times> 'c nmbm_instance option) option" where
  "nmbm_write_range pni addr sz data mode =
     (case pni of
        None \<Rightarrow> Some (- EINVAL, None, None)
      | Some ni \<Rightarrow> do {
          (ret, retlen, ni) \<leftarrow> write_range ni addr sz data mode;
          Some (ret, retlen, Some ni)
        })"

section \<open>Bad blocks and geometry\<close>

definition nmbm_check_bad_block :: "'c nmbm_instance option \<Rightarrow> u64 \<Rightarrow> int option" where
  "nmbm_check_bad_block pni addr =
     (case pni of
        None \<Rightarrow> Some (- EINVAL)
      | Some ni \<Rightarrow>
          if addr \<ge> ba2addr ni (data_block_count ni) then Some (- EINVAL)
          else do {
            pb \<leftarrow> arr_get (block_mapping ni) (unat (addr2ba ni addr));
            if pb <s 0 then Some 1
            else do {
              st \<leftarrow> nmbm_get_block_state ni pb;
              Some (if st = BLOCK_ST_BAD then 1 else 0)
            }
          })"

definition mark_logic_bad :: "'c nmbm_instance \<Rightarrow> u64 \<Rightarrow> (int \<times> 'c nmbm_instance) option" where
  "mark_logic_bad ni addr =
     (if protected ni \<or> read_only (lower ni) then Some (- EROFS, ni)
      else if addr \<ge> ba2addr ni (data_block_count ni) then Some (- EINVAL, ni)
      else do {
        let lb = addr2ba ni addr;
        pb \<leftarrow> arr_get (block_mapping ni) (unat lb);
        if pb <s 0 then Some (0, ni)
        else do {
          m \<leftarrow> arr_set (block_mapping ni) (unat lb) (- 1);
          ni \<leftarrow> retire_block (ni\<lparr>block_mapping := m\<rparr>) pb;
          (_, ni) \<leftarrow> nmbm_update_info_table ni;
          Some (0, ni)
        }
      })"

definition nmbm_mark_bad_block :: "'c nmbm_instance option \<Rightarrow> u64 \<Rightarrow> (int \<times> 'c nmbm_instance option) option" where
  "nmbm_mark_bad_block pni addr =
     (case pni of
        None \<Rightarrow> Some (- EINVAL, None)
      | Some ni \<Rightarrow> do {
          (ret, ni) \<leftarrow> mark_logic_bad ni addr;
          Some (ret, Some ni)
        })"

definition nmbm_get_avail_size :: "'c nmbm_instance option \<Rightarrow> u64" where
  "nmbm_get_avail_size pni =
     (case pni of
        None \<Rightarrow> 0
      | Some ni \<Rightarrow> push_bit (unat (erasesize_shift ni)) (ucast (data_block_count ni)))"

text \<open>The second argument tells whether \<open>nld\<close> is not null; the result holds what is stored there.\<close>

definition nmbm_get_lower_device ::
    "'c nmbm_instance option \<Rightarrow> bool \<Rightarrow> int \<times> 'c nmbm_lower_device option" where
  "nmbm_get_lower_device pni has_nld =
     (case pni of
        None \<Rightarrow> (- EINVAL, None)
      | Some ni \<Rightarrow> (0, if has_nld then Some (lower ni) else None))"

declare nmbm_erase_logic_block.simps [code] erase_range_loop.simps [code]
  read_range_loop.simps [code] write_range_loop.simps [code]

section \<open>Erasing is total and keeps the invariant\<close>

text \<open>What no operation on an attached instance changes.\<close>

definition same_device :: "'c nmbm_instance \<Rightarrow> 'c nmbm_instance \<Rightarrow> bool" where
  "same_device ni ni' \<longleftrightarrow> lower ni' = lower ni \<and> block_count ni' = block_count ni \<and>
     data_block_count ni' = data_block_count ni \<and> erasesize_shift ni' = erasesize_shift ni \<and>
     erasesize_mask ni' = erasesize_mask ni \<and> writesize_mask ni' = writesize_mask ni \<and>
     mgmt_start_ba ni' = mgmt_start_ba ni \<and> signature_ba ni' = signature_ba ni \<and>
     length (page_cache ni') = length (page_cache ni) \<and> length (block_mapping ni') = length (block_mapping ni)"

lemma same_device_refl [simp]: "same_device ni ni"
  by (simp add: same_device_def)

lemma same_device_trans: "same_device x y \<Longrightarrow> same_device y z \<Longrightarrow> same_device x z"
  by (simp add: same_device_def)

lemma upd_same_device: "upd ni ni' \<Longrightarrow> same_device ni ni'"
  by (simp add: same_device_def upd_cong)

lemma same_device_sets [simp]:
  "same_device x (y\<lparr>mapping_blocks_top_ba := t\<rparr>) = same_device x y"
  "same_device x (y\<lparr>block_mapping_changed := c\<rparr>) = same_device x y"
  "length m = length (block_mapping y) \<Longrightarrow> same_device x (y\<lparr>block_mapping := m\<rparr>) = same_device x y"
  by (simp_all add: same_device_def)

lemma nonbad_less:
  assumes w: "wears cnt a b" and x: "x < cnt" "st_of a x \<noteq> 0" "st_of b x = 0"
  shows "nonbad cnt b < nonbad cnt a"
proof -
  have "{y. y < cnt \<and> st_of b y \<noteq> 0} \<subset> {y. y < cnt \<and> st_of a y \<noteq> 0}"
  proof
    have "st_of a y \<noteq> 0" if "st_of b y \<noteq> 0" for y
      using w that unfolding wears_def by metis
    then show "{y. y < cnt \<and> st_of b y \<noteq> 0} \<subseteq> {y. y < cnt \<and> st_of a y \<noteq> 0}" by auto
    show "{y. y < cnt \<and> st_of b y \<noteq> 0} \<noteq> {y. y < cnt \<and> st_of a y \<noteq> 0}" using x by blast
  qed
  then show ?thesis unfolding nonbad_def by (intro psubset_card_mono) simp_all
qed

lemma wear_wears: "wear ni ni' \<Longrightarrow> wears (block_count ni) (block_state ni) (block_state ni')"
  by (erule wearE) simp

lemma erase_current_block_post:
  assumes ok: "nmbm_ok ni" and pb: "pb < block_count ni"
  shows "post (erase_current_block ni pb) (\<lambda>(e, ni'). wear ni ni' \<and>
    (e \<longrightarrow> st_of (block_state ni) pb \<noteq> 0 \<and> block_state ni' = block_state ni) \<and>
    (\<not> e \<longrightarrow> st_of (block_state ni') pb = 0 \<or> st_of (block_state ni') pb = 2 \<and> st_of (block_state ni) pb = 2))"
proof -
  have s: "state_ok ni" using ok by (rule nmbm_okD)
  have erase: "post (nmbm_erase_block_and_check ni1 pb) (\<lambda>(r, ni'). dev_le ni ni')" if d: "dev_le ni ni1" for ni1
    using nmbm_erase_block_and_check_post [OF chip_ok_dev_le [OF d nmbm_okD(5) [OF ok]], of pb]
    by (rule post_mono) (auto intro: dev_le_trans [OF d])
  show ?thesis
    using in_table_ok [OF ok pb]
    by (auto simp: erase_current_block_def dev_le_wear dev_le_cong(3) intro!: post_mono [OF check_bad_touched [OF s]]
        post_mono [OF mark_if_bad_post [OF s pb]] post_mono [OF erase] post_mono [OF retire_after_post [OF s pb]])
      (erule touched_wear)+
qed

text \<open>A logic block is remapped to a block that was good, or loses its mapping.\<close>

definition remapped :: "'c nmbm_instance \<Rightarrow> u32 \<Rightarrow> bool \<times> 'c nmbm_instance \<Rightarrow> bool" where
  "remapped ni lb = (\<lambda>(s, ni'). nmbm_ok ni' \<and> same_device ni ni' \<and>
     wears (block_count ni) (block_state ni) (block_state ni') \<and>
     (if s then \<exists>pb. pb < block_count ni \<and> good (block_state ni) pb \<and>
         block_mapping ni' = (block_mapping ni)[unat lb := pb]
      else block_mapping ni' = (block_mapping ni)[unat lb := - 1]))"

lemma minus_one_neg [simp]: "(- 1 :: u32) <s 0"
  by simp

lemma retire_old_block_post:
  assumes ok: "nmbm_ok ni1" and sd: "same_device ni ni1" and pb: "pb < block_count ni"
    and w: "wears (block_count ni) (block_state ni) (block_state ni1)"
  shows "post (retire_old_block ni1 pb) (\<lambda>ni'. nmbm_ok ni' \<and> same_device ni ni' \<and>
    block_mapping ni' = block_mapping ni1 \<and> wears (block_count ni) (block_state ni) (block_state ni'))"
proof -
  have c: "block_count ni1 = block_count ni" using sd by (simp add: same_device_def)
  then have t: "in_table (block_state ni1) pb" using ok pb by (intro in_table_ok) simp_all
  have uw: "wears (block_count ni) (block_state ni1) (block_state z)" if "upd ni1 z" for z
    using upd_wears [OF that] by (simp add: c)
  have upd: "post (nmbm_update_info_table ni2) (\<lambda>(r, ni'). nmbm_ok ni' \<and> same_device ni ni' \<and>
      block_mapping ni' = block_mapping ni1 \<and> wears (block_count ni) (block_state ni) (block_state ni'))"
    if wr: "wear ni1 ni2" for ni2
    by (rule post_mono [OF update_ok_post [OF nmbm_ok_wear [OF wr ok]]])
      (use upd_trans [OF wear_upd [OF wr]] wear_upd [OF wr] in
        \<open>auto intro: same_device_trans [OF sd upd_same_device] dest: upd_cong(11) intro!: wears_trans [OF w] uw\<close>)
  have st: "state_ok ni1" using ok by (rule nmbm_okD)
  have set: "post (nmbm_set_block_state ni1 pb BLOCK_ST_BAD) (\<lambda>(c, ni2). wear ni1 ni2)"
    by (rule post_mono [OF set_bad_post [OF st]]) (use pb c in auto)
  show ?thesis
    using t by (auto simp: retire_old_block_def intro!: post_mono [OF set] post_mono [OF upd])
qed

lemma remap_logic_block_post:
  assumes ok: "nmbm_ok ni" and pb: "pb < block_count ni" and lb: "unat lb < length (block_mapping ni)"
  shows "post (remap_logic_block ni lb pb) (remapped ni lb)"
proof -
  have hit: "post (retire_old_block ni1 pb) (\<lambda>ni'. remapped ni lb (True, ni'))"
    if ok1: "nmbm_ok ni1" and m: "mapped_result ni lb (True, ni1)" for ni1
  proof -
    obtain q where q: "q \<le> mapping_blocks_top_ba ni" "good (block_state ni) q"
      and n1: "ni1 = ni\<lparr>block_mapping := (block_mapping ni)[unat lb := q],
           mapping_blocks_top_ba := mapping_blocks_top_ba ni - 1, block_mapping_changed := block_mapping_changed ni + 1\<rparr>"
      using m by (auto simp: mapped_result_def)
    have n: "same_device ni ni1" "block_mapping ni1 = (block_mapping ni)[unat lb := q]" "block_state ni1 = block_state ni"
      by (simp_all add: n1 same_device_def)
    have "q < block_count ni" using q(1) nmbm_okD(8) [OF ok] by simp
    then show ?thesis
      by (intro post_mono [OF retire_old_block_post [OF ok1 n(1) pb]]) (use n(2,3) q(2) in \<open>auto simp: remapped_def\<close>)
  qed
  have miss: "post (retire_old_block (ni1\<lparr>block_mapping := (block_mapping ni1)[unat lb := - 1]\<rparr>) pb)
      (\<lambda>ni'. remapped ni lb (False, ni'))" and len: "unat lb < length (block_mapping ni1)"
    if ok1: "nmbm_ok ni1" and m: "mapped_result ni lb (False, ni1)" for ni1
  proof -
    have n: "same_device ni ni1" "block_mapping ni1 = block_mapping ni"
      and w: "wears (block_count ni) (block_state ni) (block_state ni1)"
      using m by (auto simp: mapped_result_def upd_same_device upd_wears upd_cong(11))
    have "nmbm_ok (ni1\<lparr>block_mapping := (block_mapping ni1)[unat lb := - 1]\<rparr>)"
      using ok1 by (rule nmbm_ok_set_mapping) simp
    then show "post (retire_old_block (ni1\<lparr>block_mapping := (block_mapping ni1)[unat lb := - 1]\<rparr>) pb)
      (\<lambda>ni'. remapped ni lb (False, ni'))"
      by (intro post_mono [OF retire_old_block_post [of _ ni pb]]) (use n w pb in \<open>auto simp: remapped_def\<close>)
    show "unat lb < length (block_mapping ni1)" using n lb by simp
  qed
  show ?thesis
    unfolding remap_logic_block_def
    by (rule post_bindI [OF nmbm_map_block_post [OF ok lb]]) (use hit miss len in \<open>auto split: prod.split\<close>)
qed

lemma remapped_next:
  assumes m: "remapped ni lb (True, ni')" and lb: "unat lb < length (block_mapping ni)"
  obtains pb where "block_mapping ni' ! unat lb = pb" and "pb < block_count ni"
    and "good (block_state ni') pb \<or> nonbad (block_count ni) (block_state ni') < nonbad (block_count ni) (block_state ni)"
proof -
  have w: "wears (block_count ni) (block_state ni) (block_state ni')" using m by (simp add: remapped_def)
  obtain pb where p: "pb < block_count ni" "good (block_state ni) pb" "block_mapping ni' = (block_mapping ni)[unat lb := pb]"
    using m by (auto simp: remapped_def)
  have "good (block_state ni') pb \<or> st_of (block_state ni') pb = 0" using w p(2) unfolding wears_def by metis
  then have "good (block_state ni') pb \<or> nonbad (block_count ni) (block_state ni') < nonbad (block_count ni) (block_state ni)"
    using nonbad_less [OF w p(1)] p(2) by auto
  with p lb that show ?thesis by simp
qed

text \<open>What \<open>nmbm_erase_logic_block\<close> promises: after success the logic block is mapped to a block
  that is not recorded bad, otherwise it has no mapping; no other mapping changed.\<close>

definition erased :: "'c nmbm_instance \<Rightarrow> u32 \<Rightarrow> int \<times> 'c nmbm_instance \<Rightarrow> bool" where
  "erased ni lb = (\<lambda>(r, ni'). nmbm_ok ni' \<and> same_device ni ni' \<and>
     wears (block_count ni) (block_state ni) (block_state ni') \<and>
     (\<forall>i. i \<noteq> unat lb \<longrightarrow> block_mapping ni' ! i = block_mapping ni ! i) \<and>
     (if r = 0 then \<not> block_mapping ni' ! unat lb <s 0 \<and> st_of (block_state ni') (block_mapping ni' ! unat lb) \<noteq> BLOCK_ST_BAD
      else r = - EIO \<and> block_mapping ni' ! unat lb <s 0))"

lemma erased_trans:
  assumes m: "remapped ni lb (True, ni1)" and e: "erased ni1 lb (r, ni')"
  shows "erased ni lb (r, ni')"
proof -
  have c: "block_count ni1 = block_count ni" "length (block_mapping ni1) = length (block_mapping ni)"
    using m by (simp_all add: remapped_def same_device_def)
  have "block_mapping ni1 ! i = block_mapping ni ! i" if "i \<noteq> unat lb" for i
    using m that by (auto simp: remapped_def)
  then show ?thesis
    using m e c by (auto simp: erased_def remapped_def intro: same_device_trans wears_trans)
qed

lemma nmbm_erase_logic_block_post:
  assumes "nmbm_ok ni" and "unat lb < length (block_mapping ni)"
  shows "post (nmbm_erase_logic_block ni lb) (erased ni lb)"
  using assms
proof (induction "nonbad (block_count ni) (block_state ni) +
    (if good (block_state ni) (block_mapping ni ! unat lb) then 0 else 1)" arbitrary: ni rule: less_induct)
  case less
  let ?pb = "block_mapping ni ! unat lb" and ?bc = "block_count ni"
  note ok = less.prems(1) and lb = less.prems(2)
  show ?case
  proof (cases "?pb <s 0")
    case True
    then show ?thesis using less.prems by (subst nmbm_erase_logic_block.simps) (simp add: arr_get_def erased_def)
  next
    case False
    have pb: "?pb < ?bc" using ok lb False by (rule mapping_entry)
    have retry: "post (nmbm_erase_logic_block ni2 lb) (erased ni lb)"
      if w: "wear ni ni1" and b: "\<not> good (block_state ni1) ?pb" and m: "remapped ni1 lb (True, ni2)" for ni1 ni2
    proof -
      note c = wear_cong(2,8) [OF w]
      have n1: "nonbad ?bc (block_state ni1) + (if good (block_state ni) ?pb then 1 else 0) \<le> nonbad ?bc (block_state ni)"
        using nonbad_mono [OF wear_wears [OF w]] nonbad_less [OF wear_wears [OF w] pb] b wear_wears [OF w]
        unfolding wears_def by (cases "good (block_state ni) ?pb") (simp_all, metis Suc_leI)
      have n2: "nonbad ?bc (block_state ni2) \<le> nonbad ?bc (block_state ni1)"
        using m c by (auto simp: remapped_def dest: nonbad_mono)
      obtain q where q: "block_mapping ni2 ! unat lb = q" "q < ?bc"
        "good (block_state ni2) q \<or> nonbad ?bc (block_state ni2) < nonbad ?bc (block_state ni1)"
        using remapped_next [OF m] lb c by metis
      have n2ok: "nmbm_ok ni2" "block_count ni2 = ?bc" "unat lb < length (block_mapping ni2)"
        using m c lb by (auto simp: remapped_def same_device_def)
      have "post (nmbm_erase_logic_block ni2 lb) (erased ni2 lb)"
        using n1 n2 q n2ok by (intro less.hyps) (auto split: if_splits)
      moreover have "remapped ni lb (True, ni2) \<or> True" by simp
      moreover have e: "erased ni1 lb x \<Longrightarrow> erased ni lb x" for x
        using c upd_same_device [OF wear_upd [OF w]] wear_wears [OF w]
        by (auto simp: erased_def split: prod.splits intro: same_device_trans wears_trans)
      ultimately show ?thesis
        by (auto elim!: post_mono intro!: e erased_trans [OF m])
    qed
    have fail: "erased ni lb (- EIO, ni2)" if w: "wear ni ni1" and m: "remapped ni1 lb (False, ni2)" for ni1 ni2
      using m wear_cong(2,8) [OF w] upd_same_device [OF wear_upd [OF w]] wear_wears [OF w] lb
      by (auto simp: erased_def remapped_def intro: same_device_trans wears_trans)
    have fin: "erased ni lb (0, ni1)"
      if w: "wear ni ni1" and s: "st_of (block_state ni) ?pb \<noteq> 0" "block_state ni1 = block_state ni" for ni1
      using wear_cong(8) [OF w] s False upd_same_device [OF wear_upd [OF w]] wear_wears [OF w] nmbm_ok_wear [OF w ok]
      by (simp add: erased_def)
    have remap: "post (remap_logic_block ni1 lb ?pb) (\<lambda>(s, ni2). remapped ni1 lb (s, ni2))" if w: "wear ni ni1" for ni1
      using remap_logic_block_post [OF nmbm_ok_wear [OF w ok], of ?pb lb] wear_cong(2,8) [OF w] pb lb by simp
    have step: "post (if e then Some (0, ni1) else do {
         (success, ni) \<leftarrow> remap_logic_block ni1 lb ?pb;
         if \<not> success then Some (- EIO, ni) else nmbm_erase_logic_block ni lb }) (erased ni lb)"
      if w: "wear ni ni1" and e: "e \<Longrightarrow> st_of (block_state ni) ?pb \<noteq> 0 \<and> block_state ni1 = block_state ni"
        and b: "\<not> e \<Longrightarrow> \<not> good (block_state ni1) ?pb" for e ni1
      using e b by (cases e) (auto intro!: fin [OF w] post_mono [OF remap [OF w]] fail [OF w] retry [OF w])
    have "nmbm_erase_logic_block ni lb = do {
       (e, ni) \<leftarrow> erase_current_block ni ?pb;
       if e then Some (0, ni) else do {
         (success, ni) \<leftarrow> remap_logic_block ni lb ?pb;
         if \<not> success then Some (- EIO, ni) else nmbm_erase_logic_block ni lb } }"
      using False lb by (subst nmbm_erase_logic_block.simps) (simp add: arr_get_def)
    then show ?thesis
      by (simp only:) (rule post_bindI [OF erase_current_block_post [OF ok pb]], auto simp del: post_bind intro!: step)
  qed
qed

section \<open>Addresses\<close>

lemma eshift_bound: "chip_ok ni \<Longrightarrow> unat (erasesize_shift ni) \<le> 31"
  by (rule pow2_u32(1) [OF chip_ok_geometry(2)])

lemma ba2addr_eq:
  assumes "chip_ok ni"
  shows "unat (ba2addr ni b) = unat b * unat (erasesize (lower ni))"
proof -
  let ?k = "unat (erasesize_shift ni)"
  have k: "(2::nat) ^ ?k \<le> 2 ^ 31" using eshift_bound [OF assms] by (intro power_increasing) simp_all
  have "unat b < 2 ^ 32" using unsigned_less [of b, where ?'a = nat] by simp
  then have "unat b * 2 ^ ?k < 2 ^ 32 * 2 ^ 31" using k by (intro mult_less_le_imp_less) simp_all
  then have "unat b * 2 ^ ?k < 2 ^ 64" by simp
  moreover have "unat (push_bit ?k (ucast b :: u64)) = take_bit 64 (push_bit ?k (unat b))"
    by (simp add: unsigned_push_bit_eq)
  then have "unat (push_bit ?k (ucast b :: u64)) = take_bit 64 (unat b * 2 ^ ?k)" by (simp only: push_bit_eq_mult)
  ultimately show ?thesis
    by (simp add: ba2addr_def chip_ok_geometry(2) [OF assms] take_bit_nat_eq_self)
qed

lemma addr2ba_below:
  assumes "chip_ok ni" and "addr < ba2addr ni n"
  shows "unat (addr2ba ni addr) = unat addr div unat (erasesize (lower ni))" and "addr2ba ni addr < n"
proof -
  let ?E = "unat (erasesize (lower ni))"
  have "unat addr < unat n * ?E" using assms by (simp add: word_less_nat_alt ba2addr_eq)
  then have d: "unat addr div ?E < unat n" by (simp add: less_mult_imp_div_less)
  then have "unat addr div ?E < 2 ^ 32" using unsigned_less [of n, where ?'a = nat] by simp
  moreover have "unat (drop_bit (unat (erasesize_shift ni)) addr) = drop_bit (unat (erasesize_shift ni)) (unat addr)"
    using unsigned_less [of addr, where ?'a = nat] by (simp add: unsigned_drop_bit_eq take_bit_nat_eq_self)
  then have "unat (drop_bit (unat (erasesize_shift ni)) addr) = unat addr div ?E"
    by (simp only: drop_bit_eq_div chip_ok_geometry(2) [OF assms(1)])
  ultimately show e: "unat (addr2ba ni addr) = unat addr div ?E"
    by (simp add: addr2ba_def unat_u64_u32)
  show "addr2ba ni addr < n" using d by (simp add: word_less_nat_alt e)
qed

lemma data_block_in:
  assumes "nmbm_ok ni" and "addr < ba2addr ni (data_block_count ni)"
  shows "addr2ba ni addr < data_block_count ni" and "unat (addr2ba ni addr) < length (block_mapping ni)"
proof -
  show l: "addr2ba ni addr < data_block_count ni"
    using addr2ba_below(2) [OF nmbm_okD(5) [OF assms(1)] assms(2)] .
  then show "unat (addr2ba ni addr) < length (block_mapping ni)"
    using assms(1) nmbm_okD(6) [OF assms(1)] by (auto simp: nmbm_ok_def word_less_nat_alt word_le_nat_alt)
qed

section \<open>The interface is total and keeps the invariant\<close>

lemma erased_device: "erased ni lb (r, ni') \<Longrightarrow> nmbm_ok ni' \<and> same_device ni ni' \<and> (r = 0 \<or> r = - EIO)"
  by (auto simp: erased_def split: if_splits)

definition erase_result :: "'c nmbm_instance \<Rightarrow> int \<times> u64 option \<times> 'c nmbm_instance \<Rightarrow> bool" where
  "erase_result ni = (\<lambda>(r, f, ni'). nmbm_ok ni' \<and> same_device ni ni' \<and>
     (r = 0 \<and> f = None \<or> r = - EIO \<and> (\<exists>b < data_block_count ni. f = Some (ba2addr ni b))))"

lemma same_device_ba2addr: "same_device ni ni' \<Longrightarrow> ba2addr ni' b = ba2addr ni b"
  by (simp add: same_device_def ba2addr_def)

lemma erase_range_loop_post:
  assumes "nmbm_ok ni" and "end_ba < data_block_count ni"
  shows "post (erase_range_loop ni start end_ba) (erase_result ni)"
  using assms
proof (induction "Suc (unat end_ba) - unat start" arbitrary: ni start rule: less_induct)
  case less
  show ?case
  proof (cases "start \<le> end_ba")
    case False
    then show ?thesis using less.prems by (subst erase_range_loop.simps) (simp add: erase_result_def)
  next
    case True
    have s: "start < data_block_count ni" using True less.prems(2) by simp
    have lb: "unat start < length (block_mapping ni)"
      using s less.prems(1) nmbm_okD(6) [OF less.prems(1)] by (auto simp: nmbm_ok_def word_less_nat_alt word_le_nat_alt)
    have i: "unat (start + 1) = Suc (unat start)" using s by (rule unat_inc)
    have m: "Suc (unat end_ba) - unat (start + 1) < Suc (unat end_ba) - unat start"
      using True by (simp add: i word_le_nat_alt)
    have step: "post (erase_range_loop ni1 (start + 1) end_ba) (erase_result ni)"
      if "nmbm_ok ni1" and d: "same_device ni ni1" for ni1
    proof -
      have "end_ba < data_block_count ni1" using less.prems(2) d by (simp add: same_device_def)
      from less.hyps [OF m that(1) this] show ?thesis
        using d by (auto simp: erase_result_def same_device_ba2addr [OF d] elim!: post_mono intro: same_device_trans)
          (auto simp: same_device_def)
    qed
    show ?thesis
      using True s
      by (subst erase_range_loop.simps)
        (auto simp: same_device_ba2addr erase_result_def dest!: erased_device
          intro!: post_mono [OF nmbm_erase_logic_block_post [OF less.prems(1) lb]] step [unfolded erase_result_def])
  qed
qed

lemma erase_block_range_post:
  assumes ok: "nmbm_ok ni" and nw: "unat addr + unat sz < 2 ^ 64"
  shows "post (erase_block_range ni addr sz) (\<lambda>(r, f, ni'). nmbm_ok ni' \<and> same_device ni ni' \<and>
    (r = 0 \<or> r = - EIO \<or> ni' = ni \<and> (r = - EROFS \<or> r = - EINVAL)))"
proof -
  have inside: "addr2ba ni (addr + sz - 1) < data_block_count ni"
    if "\<not> addr + sz > ba2addr ni (data_block_count ni)" and "sz \<noteq> 0"
  proof -
    have "unat (addr + sz) = unat addr + unat sz" using nw by (intro unat_add_no_wrap) simp
    moreover have "0 < unat sz" using that(2) by (simp add: unat_gt_0)
    ultimately have "0 < addr + sz" by (simp add: word_less_nat_alt)
    then have "unat (addr + sz - 1) < unat (addr + sz)" by (rule unat_dec_measure)
    then have "addr + sz - 1 < ba2addr ni (data_block_count ni)" using that(1) by (simp add: word_less_nat_alt)
    then show ?thesis by (rule data_block_in(1) [OF ok])
  qed
  show ?thesis
    unfolding erase_block_range_def
    using ok inside
    by (auto intro!: post_mono [OF erase_range_loop_post [OF ok]] simp: erase_result_def)
qed

lemma nmbm_read_logic_page_post:
  assumes ok: "nmbm_ok ni" and addr: "addr < ba2addr ni (data_block_count ni)"
    and room: "room (writesize (lower ni)) data" "room (oobsize (lower ni)) oob"
  shows "post (nmbm_read_logic_page ni addr data oob mode)
    (\<lambda>(r, d, ob, ni'). same_shape data d \<and> same_shape oob ob \<and> arg_le ni ni')"
proof -
  note lb = data_block_in [OF ok addr]
  have "in_table (block_state ni) (block_mapping ni ! unat (addr2ba ni addr))"
    if "\<not> block_mapping ni ! unat (addr2ba ni addr) <s 0"
    using mapping_entry [OF ok lb(2) that] by (rule in_table_ok [OF ok])
  then show ?thesis
    using lb(2) nmbm_read_phys_page_post [OF nmbm_okD(5) [OF ok] room, of _ mode]
    by (auto simp: nmbm_read_logic_page_def)
qed

lemma dev_le_nmbm_ok: "dev_le ni ni' \<Longrightarrow> nmbm_ok ni \<Longrightarrow> nmbm_ok ni'"
  by (rule nmbm_ok_wear [OF dev_le_wear])

lemma dev_le_same_device: "dev_le ni ni' \<Longrightarrow> same_device ni ni'"
  by (rule upd_same_device [OF wear_upd [OF dev_le_wear]])

lemma read_single_page_post:
  assumes ok: "nmbm_ok ni" and room: "room (writesize (lower ni)) data" "room (oobsize (lower ni)) oob"
  shows "post (read_single_page ni addr data oob mode)
    (\<lambda>(r, d, ob, ni'). same_shape data d \<and> same_shape oob ob \<and> arg_le ni ni')"
  using nmbm_read_logic_page_post [OF ok _ room, of addr mode] by (auto simp: read_single_page_def)

text \<open>Pieces of a range that lie in one page.\<close>

lemma range_leading_eq:
  "chip_ok ni \<Longrightarrow> unat (range_leading ni off) = unat off mod unat (writesize (lower ni))"
  unfolding range_leading_def chip_ok_masks(1) by (rule and_pow2_mask(2) [OF chip_ok_geometry(1)])

lemma range_chunk_eq:
  assumes "chip_ok ni"
  shows "unat (range_chunk ni (range_leading ni off) n) =
    min (unat n) (unat (writesize (lower ni)) - unat off mod unat (writesize (lower ni)))"
proof -
  have l: "unat (range_leading ni off) < unat (writesize (lower ni))"
    by (simp add: range_leading_eq [OF assms] chip_ok_page_pos [OF assms])
  then have "unat (ucast (writesize (lower ni)) - range_leading ni off) = unat (writesize (lower ni)) - unat (range_leading ni off)"
    by (subst unat_sub) (simp_all add: word_le_nat_alt)
  then show ?thesis
    using l by (auto simp: range_chunk_def Let_def range_leading_eq [OF assms] word_less_nat_alt)
qed

lemma range_chunk_facts:
  fixes off n :: u64
  assumes ok: "chip_ok ni" and n: "n \<noteq> 0"
  defines "c \<equiv> range_chunk ni (range_leading ni off) n"
  shows "0 < unat c" and "unat c \<le> unat n" and "unat (range_leading ni off) + unat c \<le> unat (writesize (lower ni))"
    and "unat (n - c) = unat n - unat c"
proof -
  have W: "0 < unat (writesize (lower ni))" using ok by (rule chip_ok_page_pos)
  have "0 < unat n" using n by (simp add: unat_gt_0)
  moreover have "unat off mod unat (writesize (lower ni)) < unat (writesize (lower ni))" using W by simp
  ultimately show "0 < unat c" "unat c \<le> unat n" "unat (range_leading ni off) + unat c \<le> unat (writesize (lower ni))"
    by (simp_all add: c_def range_chunk_eq [OF ok] range_leading_eq [OF ok])
  then show "unat (n - c) = unat n - unat c" by (intro unat_sub) (simp add: word_le_nat_alt)
qed

lemma range_page_addr:
  assumes "chip_ok ni"
  shows "unat (off - range_leading ni off) = unat off - unat off mod unat (writesize (lower ni))"
  using range_leading_eq [OF assms, of off] by (subst unat_sub) (simp_all add: word_le_nat_alt)

text \<open>A range that ends inside the logic address space.\<close>

definition range_in :: "'c nmbm_instance \<Rightarrow> u64 \<Rightarrow> u64 \<Rightarrow> bool" where
  "range_in ni off n \<longleftrightarrow> unat off + unat n \<le> unat (ba2addr ni (data_block_count ni))"

lemma range_in_page:
  assumes "chip_ok ni" and "range_in ni off n" and "n \<noteq> 0"
  shows "off - range_leading ni off < ba2addr ni (data_block_count ni)"
proof -
  have "0 < unat n" using assms(3) by (simp add: unat_gt_0)
  then show ?thesis
    using assms(2) by (simp add: range_in_def word_less_nat_alt range_page_addr [OF assms(1)])
qed

lemma range_in_next:
  assumes ok: "chip_ok ni" and r: "range_in ni off n" and n: "n \<noteq> 0"
  defines "c \<equiv> range_chunk ni (range_leading ni off) n"
  shows "range_in ni (off + c) (n - c)" and "unat (off + c) = unat off + unat c"
proof -
  note f = range_chunk_facts [OF ok n, of off, folded c_def]
  have "unat off + unat n < 2 ^ 64"
    using r unsigned_less [of "ba2addr ni (data_block_count ni)", where ?'a = nat] by (simp add: range_in_def)
  then show u: "unat (off + c) = unat off + unat c"
    using f(2) by (intro unat_add_no_wrap) simp
  then show "range_in ni (off + c) (n - c)"
    using r f(2,4) by (simp add: range_in_def)
qed

lemma range_in_device: "same_device ni ni' \<Longrightarrow> range_in ni' off n = range_in ni off n"
  by (simp add: range_in_def same_device_ba2addr) (simp add: same_device_def)

lemma read_logic_cache_post:
  assumes ok: "nmbm_ok ni" and addr: "addr < ba2addr ni (data_block_count ni)"
  shows "post (nmbm_read_logic_page ni addr (Some (page_cache ni)) None mode) (\<lambda>(r, d, ob, ni1). dev_le ni (put_cache ni1 d))"
proof -
  have "room (writesize (lower ni)) (Some (page_cache ni))"
    using chip_ok_geometry(3) [OF nmbm_okD(5) [OF ok]] by (simp add: room_def)
  from nmbm_read_logic_page_post [OF ok addr this, of None mode] show ?thesis
    by (auto simp: room_def elim!: post_mono intro: put_cache_dev_le)
qed

lemma read_logic_direct_post:
  assumes ok: "nmbm_ok ni" and addr: "addr < ba2addr ni (data_block_count ni)"
    and "unat (writesize (lower ni)) \<le> length d"
  shows "post (nmbm_read_logic_page ni addr (Some d) None mode)
    (\<lambda>(r, d', ob, ni1). \<exists>b. d' = Some b \<and> length b = length d \<and> arg_le ni ni1)"
  using nmbm_read_logic_page_post [OF ok addr, of "Some d" None mode] assms(3)
  by (auto simp: room_def same_shape_Some elim!: post_mono)

lemma read_range_loop_post:
  assumes "nmbm_ok ni" and "range_in ni off n" and "ptr + unat n \<le> length data"
  shows "post (read_range_loop ni off data ptr n mode ret ecc mb)
    (\<lambda>(ret', ecc', mb', rem, data', ni'). dev_le ni ni' \<and> length data' = length data \<and> rem \<le> n)"
  using assms
proof (induction "unat n" arbitrary: ni off data ptr n ret ecc mb rule: less_induct)
  case less
  show ?case
  proof (cases "n = 0")
    case True
    then show ?thesis by (subst read_range_loop.simps) simp
  next
    case False
    let ?W = "unat (writesize (lower ni))" and ?l = "range_leading ni off"
    let ?c = "range_chunk ni ?l n"
    note chip = nmbm_okD(5) [OF less.prems(1)]
    note c = range_chunk_facts [OF chip False, of off]
    note addr = range_in_page [OF chip less.prems(2) False]
    have le_n: "rem \<le> n - ?c \<Longrightarrow> rem \<le> n" for rem using c by (simp add: word_le_nat_alt)
    have step: "post (read_range_loop ni1 (off + ?c) data1 (ptr + unat ?c) (n - ?c) mode r e m)
        (\<lambda>(ret', ecc', mb', rem, data', ni'). dev_le ni ni' \<and> length data' = length data \<and> rem \<le> n)"
      if le: "dev_le ni ni1" and ld: "length data1 = length data" for data1 ni1 r e m
    proof -
      have "post (read_range_loop ni1 (off + ?c) data1 (ptr + unat ?c) (n - ?c) mode r e m)
        (\<lambda>(ret', ecc', mb', rem, data', ni'). dev_le ni1 ni' \<and> length data' = length data1 \<and> rem \<le> n - ?c)"
        using less.prems le ld c range_in_next(1) [OF chip less.prems(2) False]
        by (intro less.hyps) (auto intro: dev_le_nmbm_ok simp: range_in_device [OF dev_le_same_device [OF le]])
      then show ?thesis using le ld le_n by (auto elim!: post_mono intro: dev_le_trans)
    qed
    have whole: "post (nmbm_read_logic_page ni (off - ?l) (Some (drop ptr data)) None mode)
      (\<lambda>(r, d', ob, ni1). \<exists>b. d' = Some b \<and> length b = length data - ptr \<and> arg_le ni ni1)"
      if w: "?c = ucast (writesize (lower ni))"
    proof -
      have "?W \<le> unat n" using c(2) by (simp add: w)
      then show ?thesis using read_logic_direct_post [OF less.prems(1) addr, of "drop ptr data" mode] less.prems(3) by simp
    qed
    have step_whole: "post (read_range_loop ni1 (off + ucast (writesize (lower ni))) data1 (ptr + ?W) (n - ucast (writesize (lower ni))) mode r e m)
        (\<lambda>(ret', ecc', mb', rem, data', ni'). dev_le ni ni' \<and> length data' = length data \<and> rem \<le> n)"
      if "?c = ucast (writesize (lower ni))" "arg_le ni ni1" "length data1 = length data" for data1 ni1 r e m
      using step [of ni1 data1] that by (simp add: arg_le_dev_le)
    have cache: "unat ?l + unat ?c \<le> length (page_cache ni)"
      using c(3) chip_ok_geometry(3) [OF chip] by linarith
    show ?thesis
      using False less.prems(3) c(2) cache
      by (subst read_range_loop.simps)
        (auto simp: Let_def dev_le_cong(4) intro!: step step_whole post_mono [OF whole]
          post_mono [OF read_logic_cache_post [OF less.prems(1) addr]] arg_le_dev_le)
  qed
qed

lemma read_range_post:
  assumes ok: "nmbm_ok ni" and nw: "unat addr + unat sz < 2 ^ 64" and len: "unat sz \<le> length data"
  shows "post (read_range ni addr sz data mode) (\<lambda>(r, retlen, data', ni'). dev_le ni ni' \<and>
    length data' = length data \<and> (\<forall>k. retlen = Some k \<longrightarrow> k \<le> sz))"
proof -
  have "range_in ni addr sz" if "\<not> addr + sz > ba2addr ni (data_block_count ni)"
    using that nw by (simp add: range_in_def word_less_nat_alt unat_add_no_wrap)
  moreover have "sz - rem \<le> sz" if "rem \<le> sz" for rem using that by (simp add: word_sub_le_iff)
  ultimately show ?thesis
    unfolding read_range_def using len
    by (auto intro!: post_mono [OF read_range_loop_post [OF ok]])
qed

lemma set_state_ok:
  assumes ok: "nmbm_ok ni" and pb: "pb < block_count ni"
  shows "post (nmbm_set_block_state ni pb v) (\<lambda>(c, ni'). nmbm_ok ni' \<and> same_device ni ni' \<and>
    block_mapping ni' = block_mapping ni)"
proof -
  have "nmbm_ok (ni\<lparr>block_state := put_state (block_state ni) pb v\<rparr>)"
    "nmbm_ok (ni\<lparr>block_state := put_state (block_state ni) pb v, block_state_changed := k\<rparr>)" for k
    using ok by (auto simp: nmbm_ok_def mgmt_ok_def state_ok_def chip_ok_def tables_ok_def layout_ok_def placed_def mapping_ok_def)
  then show ?thesis
    using in_table_ok [OF ok pb] by (simp add: set_state same_device_def)
qed

lemma nmbm_write_logic_page_post:
  assumes ok: "nmbm_ok ni" and addr: "addr < ba2addr ni (data_block_count ni)"
    and room: "room (writesize (lower ni)) data" "room (oobsize (lower ni)) oob"
  shows "post (nmbm_write_logic_page ni addr data oob mode)
    (\<lambda>(r, ni'). nmbm_ok ni' \<and> same_device ni ni' \<and> block_mapping ni' = block_mapping ni \<and> (r = 0 \<or> r = - EIO))"
proof (cases "block_mapping ni ! unat (addr2ba ni addr) <s 0")
  case True
  then show ?thesis using ok data_block_in [OF ok addr] by (simp add: nmbm_write_logic_page_def)
next
  case False
  let ?pb = "block_mapping ni ! unat (addr2ba ni addr)"
  note lb = data_block_in [OF ok addr]
  have pb: "?pb < block_count ni" using mapping_entry [OF ok lb(2) False] .
  have upd: "post (nmbm_update_info_table ni2) (\<lambda>(r, ni'). nmbm_ok ni' \<and> same_device ni ni' \<and> block_mapping ni' = block_mapping ni)"
    if "nmbm_ok ni2" "same_device ni ni2" "block_mapping ni2 = block_mapping ni" for ni2
    by (rule post_mono [OF update_ok_post [OF that(1)]])
      (use that in \<open>auto intro: same_device_trans [OF that(2) upd_same_device] dest: upd_cong(11)\<close>)
  have set: "post (nmbm_set_block_state ni1 ?pb BLOCK_ST_NEED_REMAP) (\<lambda>(c, ni2). nmbm_ok ni2 \<and> same_device ni ni2 \<and>
      block_mapping ni2 = block_mapping ni)" if d: "dev_le ni ni1" for ni1
    by (rule post_mono [OF set_state_ok [OF dev_le_nmbm_ok [OF d ok]]])
      (use pb d in \<open>auto simp: dev_le_cong(2) [OF d] wear_cong(8) [OF dev_le_wear [OF d]]
        intro: same_device_trans [OF dev_le_same_device [OF d]]\<close>)
  have put: "post (nmbm_write_phys_page ni a data oob mode) (\<lambda>(r, ni'). dev_le ni ni')" for a
    by (rule post_mono [OF nmbm_write_phys_page_post [OF nmbm_okD(5) [OF ok] room]]) (auto intro: arg_le_dev_le)
  show ?thesis
    using False lb(2) in_table_ok [OF ok pb] ok
    by (auto simp: nmbm_write_logic_page_def dev_le_nmbm_ok dev_le_same_device wear_cong(8) [OF dev_le_wear]
        intro!: post_mono [OF put] post_mono [OF set] post_mono [OF upd])
qed

lemma write_single_page_post:
  assumes ok: "nmbm_ok ni" and room: "room (writesize (lower ni)) data" "room (oobsize (lower ni)) oob"
  shows "post (write_single_page ni addr data oob mode) (\<lambda>(r, ni'). nmbm_ok ni' \<and> same_device ni ni' \<and>
    block_mapping ni' = block_mapping ni \<and> (r = 0 \<or> r = - EIO \<or> ni' = ni \<and> (r = - EROFS \<or> r = - EINVAL)))"
  unfolding write_single_page_def using ok
  by (auto intro!: post_mono [OF nmbm_write_logic_page_post [OF ok _ room]])

lemma write_range_loop_post:
  assumes "nmbm_ok ni" and "range_in ni off n" and "ptr + unat n \<le> length data"
  shows "post (write_range_loop ni off data ptr n mode) (\<lambda>(r, rem, ni'). nmbm_ok ni' \<and> same_device ni ni' \<and>
    block_mapping ni' = block_mapping ni \<and> rem \<le> n \<and> (r = 0 \<and> rem = 0 \<or> r = - EIO \<and> rem \<noteq> 0))"
  using assms
proof (induction "unat n" arbitrary: ni off ptr n rule: less_induct)
  case less
  show ?case
  proof (cases "n = 0")
    case True
    then show ?thesis using less.prems by (subst write_range_loop.simps) simp
  next
    case False
    let ?W = "unat (writesize (lower ni))" and ?l = "range_leading ni off"
    let ?c = "range_chunk ni ?l n"
    note chip = nmbm_okD(5) [OF less.prems(1)]
    note c = range_chunk_facts [OF chip False, of off]
    note addr = range_in_page [OF chip less.prems(2) False]
    note g = chip_ok_geometry [OF chip]
    define P where "P = (\<lambda>(r :: int, rem, ni'). nmbm_ok ni' \<and> same_device ni ni' \<and>
      block_mapping ni' = block_mapping ni \<and> rem \<le> n \<and> (r = 0 \<and> rem = 0 \<or> r = - EIO \<and> rem \<noteq> 0))"
    have step: "post (if r \<noteq> 0 then Some (r, n, ni1)
        else write_range_loop ni1 (off + ?c) data (ptr + unat ?c) (n - ?c) mode) P"
      if ok1: "nmbm_ok ni1" and d: "same_device ni ni1" and b: "block_mapping ni1 = block_mapping ni" and r: "r = 0 \<or> r = - EIO"
      for ni1 and r :: int
    proof -
      have "n - ?c \<le> n" using c by (simp add: word_le_nat_alt)
      moreover have "post (write_range_loop ni1 (off + ?c) data (ptr + unat ?c) (n - ?c) mode) (\<lambda>(r, rem, ni'). nmbm_ok ni' \<and> same_device ni1 ni' \<and>
          block_mapping ni' = block_mapping ni1 \<and> rem \<le> n - ?c \<and> (r = 0 \<and> rem = 0 \<or> r = - EIO \<and> rem \<noteq> 0))"
        using less.prems ok1 d c range_in_next(1) [OF chip less.prems(2) False]
        by (intro less.hyps) (auto simp: range_in_device [OF d])
      ultimately show ?thesis
        using ok1 d b r False by (auto simp: P_def elim!: post_mono intro: same_device_trans)
    qed
    let ?src = "take (unat ?c) (drop ptr data)"
    let ?pc = "take (unat ?l) (replicate (unat ?l) 0xff @ drop (unat ?l) (page_cache ni)) @ ?src @
      drop (unat ?l + unat ?c) (replicate (unat ?l) 0xff @ drop (unat ?l) (page_cache ni))"
    have page: "post (nmbm_write_logic_page ni1 (off - ?l) (Some d) None mode)
        (\<lambda>(r, ni'). nmbm_ok ni' \<and> same_device ni ni' \<and> block_mapping ni' = block_mapping ni \<and> (r = 0 \<or> r = - EIO))"
      if "dev_le ni ni1" "?W \<le> length d" for ni1 d
      by (rule post_mono [OF nmbm_write_logic_page_post [OF dev_le_nmbm_ok [OF that(1) less.prems(1)]]])
        (use that addr in \<open>auto simp: room_def dev_le_cong(1) [OF that(1)] same_device_ba2addr [OF dev_le_same_device [OF that(1)]]
          wear_cong(8,23) [OF dev_le_wear [OF that(1)]] intro: same_device_trans [OF dev_le_same_device [OF that(1)]]\<close>)
    have fit: "unat ?l + unat ?c \<le> length (page_cache ni)" using c(3) g(3) by linarith
    have src: "length ?src = unat ?c" using c(2) less.prems(3) by simp
    have pc: "length ?pc = length (page_cache ni)" using fit c(2) less.prems(3) by (simp add: min_absorb2)
    have eq: "write_range_loop ni off data ptr n mode =
      (if ?c = ucast (writesize (lower ni))
       then nmbm_write_logic_page ni (off - ?l) (Some (drop ptr data)) None mode
       else nmbm_write_logic_page (ni\<lparr>page_cache := ?pc\<rparr>) (off - ?l) (Some ?pc) None mode) \<bind>
      (\<lambda>(r, ni1). if r \<noteq> 0 then Some (r, n, ni1)
        else write_range_loop ni1 (off + ?c) data (ptr + unat ?c) (n - ?c) mode)"
      using False fit src less.prems(3) c(2)
      by (subst write_range_loop.simps) (simp add: mem_get_def mem_put_def Let_def)
    have "?W \<le> length (drop ptr data)" if "?c = ucast (writesize (lower ni))"
      using that c(2) less.prems(3) by simp
    moreover have "?W \<le> length ?pc" unfolding pc using g(3) by simp
    moreover have "dev_le ni (ni\<lparr>page_cache := ?pc\<rparr>)" using pc by (rule dev_le_cache)
    ultimately have "post (if ?c = ucast (writesize (lower ni))
       then nmbm_write_logic_page ni (off - ?l) (Some (drop ptr data)) None mode
       else nmbm_write_logic_page (ni\<lparr>page_cache := ?pc\<rparr>) (off - ?l) (Some ?pc) None mode)
        (\<lambda>(r, ni'). nmbm_ok ni' \<and> same_device ni ni' \<and> block_mapping ni' = block_mapping ni \<and> (r = 0 \<or> r = - EIO))"
      using page [OF dev_le_refl, of "drop ptr data"] page [of "ni\<lparr>page_cache := ?pc\<rparr>" ?pc] by (simp only: split: if_split) blast
    then show ?thesis
      unfolding eq P_def [symmetric] by (rule post_bindI) (clarify, rule step, assumption+)
  qed
qed

lemma range_in_sum:
  "unat addr + unat sz < 2 ^ 64 \<Longrightarrow> \<not> addr + sz > ba2addr ni (data_block_count ni) \<Longrightarrow> range_in ni addr sz"
  by (simp add: range_in_def word_less_nat_alt unat_add_no_wrap)

lemma write_range_post:
  assumes ok: "nmbm_ok ni" and nw: "unat addr + unat sz < 2 ^ 64" and len: "unat sz \<le> length data"
  shows "post (write_range ni addr sz data mode) (\<lambda>(r, retlen, ni'). nmbm_ok ni' \<and> same_device ni ni' \<and>
    block_mapping ni' = block_mapping ni \<and>
    (r = 0 \<and> retlen = (if sz = 0 then None else Some sz) \<or> r = - EIO \<and> (\<exists>k < sz. retlen = Some k) \<or>
     ni' = ni \<and> retlen = None \<and> (r = - EROFS \<or> r = - EINVAL)))"
proof -
  have "sz - rem < sz" if "rem \<le> sz" "rem \<noteq> 0" for rem
  proof -
    have "0 < unat rem" using that(2) by (simp add: unat_gt_0)
    then show ?thesis using that(1) by (simp add: word_less_nat_alt word_le_nat_alt unat_sub)
  qed
  then show ?thesis
    unfolding write_range_def using ok len
    by (auto intro!: post_mono [OF write_range_loop_post [OF ok range_in_sum [OF nw]]])
qed

lemma mark_logic_bad_post:
  assumes ok: "nmbm_ok ni"
  shows "post (mark_logic_bad ni addr) (\<lambda>(r, ni'). nmbm_ok ni' \<and> same_device ni ni' \<and>
    (r = 0 \<and> block_mapping ni' ! unat (addr2ba ni addr) <s 0 \<or> ni' = ni \<and> (r = - EROFS \<or> r = - EINVAL)) \<and>
    (\<forall>i. i \<noteq> unat (addr2ba ni addr) \<longrightarrow> block_mapping ni' ! i = block_mapping ni ! i))"
proof -
  let ?lb = "unat (addr2ba ni addr)" let ?n = "ni\<lparr>block_mapping := (block_mapping ni)[?lb := - 1]\<rparr>"
  have n: "nmbm_ok ?n" using ok by (rule nmbm_ok_set_mapping) simp
  have retire: "post (retire_block ?n pb) (\<lambda>ni1. nmbm_ok ni1 \<and> same_device ni ni1 \<and> block_mapping ni1 = block_mapping ?n)"
    if "pb < block_count ni" for pb
    by (rule post_mono [OF retire_block_post [OF nmbm_okD(4) [OF n]]])
      (use that in \<open>auto dest!: touched_wear intro: nmbm_ok_wear [OF _ n]
        same_device_trans [OF _ upd_same_device [OF wear_upd], where y = ?n] dest: wear_cong(8)\<close>)
  have upd: "post (nmbm_update_info_table ni1) (\<lambda>(r, ni2). nmbm_ok ni2 \<and> same_device ni ni2 \<and> block_mapping ni2 = block_mapping ?n)"
    if "nmbm_ok ni1" "same_device ni ni1" "block_mapping ni1 = block_mapping ?n" for ni1
    by (rule post_mono [OF update_ok_post [OF that(1)]])
      (use that in \<open>auto intro: same_device_trans [OF that(2) upd_same_device] dest: upd_cong(11)\<close>)
  show ?thesis
    unfolding mark_logic_bad_def using ok data_block_in [OF ok, of addr] mapping_entry [OF ok, of "addr2ba ni addr"]
    by (auto simp: arr_set_def Let_def intro!: post_mono [OF retire] post_mono [OF upd])
qed

lemma nmbm_detach_post:
  assumes "nmbm_ok ni"
  shows "post (nmbm_detach (Some ni)) (\<lambda>(r, pni'). r = 0 \<and>
    (\<exists>ni'. pni' = Some ni' \<and> nmbm_ok ni' \<and> same_device ni ni' \<and> block_mapping ni' = block_mapping ni \<and>
      (read_only (lower ni) \<and> ni' = ni \<or> protected ni' \<or> block_state_changed ni' = 0 \<and> block_mapping_changed ni' = 0)))"
  using assms unfolding nmbm_detach_def
  by (auto dest: upd_cong(11) intro!: post_mono [OF update_ok_post [OF assms]] upd_same_device)

section \<open>What a read returns\<close>

text \<open>\<open>reads_pages ld page\<close>: the driver's page read succeeds and stores \<open>page a addr\<close>, the
  page at \<open>addr\<close> of the chip in state \<open>a\<close>.  \<open>logic_byte\<close> is the byte at a logic address.\<close>

definition reads_pages :: "'c nmbm_lower_device \<Rightarrow> ('c \<Rightarrow> u64 \<Rightarrow> u8 list) \<Rightarrow> bool" where
  "reads_pages ld page \<longleftrightarrow> (\<forall>a addr. length (page a addr) = unat (writesize ld)) \<and>
     (\<exists>f. read_page ld = Some f \<and> (\<forall>a addr d m. unat (writesize ld) \<le> length d \<longrightarrow>
        f a addr (Some d) None m = (0, Some (page a addr @ drop (unat (writesize ld)) d), None, a)))"

definition logic_page :: "'c nmbm_instance \<Rightarrow> ('c \<Rightarrow> u64 \<Rightarrow> u8 list) \<Rightarrow> nat \<Rightarrow> u8 list" where
  "logic_page ni page p =
     (let E = unat (erasesize (lower ni)) in
      page (arg ni) (ba2addr ni (block_mapping ni ! (p div E)) + of_nat (p mod E)))"

definition logic_byte :: "'c nmbm_instance \<Rightarrow> ('c \<Rightarrow> u64 \<Rightarrow> u8 list) \<Rightarrow> nat \<Rightarrow> u8" where
  "logic_byte ni page x =
     (let W = unat (writesize (lower ni)) in logic_page ni page (x - x mod W) ! (x mod W))"

text \<open>The logic blocks of a range are mapped to blocks that are not recorded bad.\<close>

definition readable :: "'c nmbm_instance \<Rightarrow> nat \<Rightarrow> nat \<Rightarrow> bool" where
  "readable ni a b \<longleftrightarrow> (\<forall>x. a \<le> x \<and> x < b \<longrightarrow>
     (let e = block_mapping ni ! ((x - x mod unat (writesize (lower ni))) div unat (erasesize (lower ni))) in
      \<not> e <s 0 \<and> st_of (block_state ni) e \<noteq> BLOCK_ST_BAD))"

lemma nmbm_read_phys_page_value:
  assumes "reads_pages (lower ni) page" and "unat (writesize (lower ni)) \<le> length d"
  shows "nmbm_read_phys_page ni addr (Some d) None mode =
    Some (0, Some (page (arg ni) addr @ drop (unat (writesize (lower ni))) d), None, ni)"
proof -
  obtain f where f: "read_page (lower ni) = Some f"
    "f (arg ni) addr (Some d) None mode = (0, Some (page (arg ni) addr @ drop (unat (writesize (lower ni))) d), None, arg ni)"
    using assms by (auto simp: reads_pages_def)
  have "(3::nat) = Suc 2" by simp
  then show ?thesis
    using f assms(2) by (simp only: nmbm_read_phys_page_def read_tries.simps) (simp add: room_def)
qed

lemma logic_page_address:
  assumes ok: "nmbm_ok ni" and addr: "addr < ba2addr ni (data_block_count ni)"
  shows "ba2addr ni (block_mapping ni ! unat (addr2ba ni addr)) + ucast (ucast (addr AND ucast (erasesize_mask ni)) :: u32) =
    ba2addr ni (block_mapping ni ! (unat addr div unat (erasesize (lower ni)))) + of_nat (unat addr mod unat (erasesize (lower ni)))"
proof -
  note chip = nmbm_okD(5) [OF ok]
  have "unat (ucast (addr AND ucast (erasesize_mask ni)) :: u32) = unat addr mod unat (erasesize (lower ni))"
    unfolding chip_ok_masks(2) [OF chip] by (rule and_pow2_mask(1) [OF chip_ok_geometry(2) [OF chip]])
  then have "ucast (ucast (addr AND ucast (erasesize_mask ni)) :: u32) = (of_nat (unat addr mod unat (erasesize (lower ni))) :: u64)"
    by (metis of_nat_unat ucast_id unat_u32_u64)
  then show ?thesis by (simp add: addr2ba_below(1) [OF chip addr])
qed

lemma nmbm_read_logic_page_value:
  assumes ok: "nmbm_ok ni" and addr: "addr < ba2addr ni (data_block_count ni)"
    and r: "reads_pages (lower ni) page" and d: "unat (writesize (lower ni)) \<le> length d"
    and m: "\<not> block_mapping ni ! (unat addr div unat (erasesize (lower ni))) <s 0"
      "st_of (block_state ni) (block_mapping ni ! (unat addr div unat (erasesize (lower ni)))) \<noteq> BLOCK_ST_BAD"
  shows "nmbm_read_logic_page ni addr (Some d) None mode =
    Some (0, Some (logic_page ni page (unat addr) @ drop (unat (writesize (lower ni))) d), None, ni)"
proof -
  note chip = nmbm_okD(5) [OF ok]
  note lb = data_block_in [OF ok addr]
  have e: "unat (addr2ba ni addr) = unat addr div unat (erasesize (lower ni))" by (rule addr2ba_below(1) [OF chip addr])
  have "block_mapping ni ! unat (addr2ba ni addr) < block_count ni"
    using m(1) by (intro mapping_entry [OF ok lb(2)]) (simp add: e)
  then have t: "in_table (block_state ni) (block_mapping ni ! unat (addr2ba ni addr))" by (rule in_table_ok [OF ok])
  show ?thesis
    using lb(2) t m nmbm_read_phys_page_value [OF r d, of _ mode] logic_page_address [OF ok addr]
    by (simp add: nmbm_read_logic_page_def arr_get_def e logic_page_def Let_def)
qed

lemma logic_page_cache [simp]: "logic_page (ni\<lparr>page_cache := pc\<rparr>) page p = logic_page ni page p"
  by (simp add: logic_page_def ba2addr_def)

lemma logic_byte_cache [simp]: "logic_byte (ni\<lparr>page_cache := pc\<rparr>) page = logic_byte ni page"
  by (rule ext) (simp add: logic_byte_def)

lemma readable_cache [simp]: "readable (ni\<lparr>page_cache := pc\<rparr>) a b = readable ni a b"
  by (simp add: readable_def)

lemma length_logic_page: "reads_pages (lower ni) page \<Longrightarrow> length (logic_page ni page p) = unat (writesize (lower ni))"
  by (simp add: logic_page_def reads_pages_def Let_def)

text \<open>The bytes of a piece that lies in one page.\<close>

lemma page_piece:
  assumes r: "reads_pages (lower ni) page" and fit: "x mod unat (writesize (lower ni)) + c \<le> unat (writesize (lower ni))"
  shows "take c (drop (x mod unat (writesize (lower ni))) (logic_page ni page (x - x mod unat (writesize (lower ni))))) =
    map (logic_byte ni page) [x..<x + c]"
proof (rule nth_equalityI)
  let ?W = "unat (writesize (lower ni))"
  show "length (take c (drop (x mod ?W) (logic_page ni page (x - x mod ?W)))) = length (map (logic_byte ni page) [x..<x + c])"
    using fit by (simp add: length_logic_page [OF r])
  fix i assume "i < length (take c (drop (x mod ?W) (logic_page ni page (x - x mod ?W))))"
  then have i: "i < c" by simp
  then have "x mod ?W + i < ?W" using fit by simp
  moreover have "x + i = x - x mod ?W + (x mod ?W + i)" by simp
  moreover have "(x - x mod ?W) mod ?W = 0" by (simp add: minus_mod_eq_mult_div)
  ultimately have "(x + i) mod ?W = x mod ?W + i" by (metis add_0 mod_add_left_eq mod_less)
  then have "logic_byte ni page (x + i) = logic_page ni page (x - x mod ?W) ! (x mod ?W + i)"
    by (simp add: logic_byte_def Let_def)
  then show "take c (drop (x mod ?W) (logic_page ni page (x - x mod ?W))) ! i = map (logic_byte ni page) [x..<x + c] ! i"
    using i fit by (simp add: length_logic_page [OF r])
qed

text \<open>The buffer while the pieces are stored.\<close>

lemma put_next:
  assumes "length bs = c" and "ptr + c \<le> length data"
  shows "take (ptr + c) (take ptr data @ bs @ drop (ptr + c) data) = take ptr data @ bs"
    and "drop (ptr + c + k) (take ptr data @ bs @ drop (ptr + c) data) = drop (ptr + c + k) data"
  using assms by (simp_all add: ac_simps)

lemma page_boundary:
  fixes W :: nat
  assumes "0 < W" and "(x mod W) + c \<le> W"
  shows "a \<le> y \<and> y < x + c \<Longrightarrow> x \<le> y \<Longrightarrow> y - y mod W = x - x mod W"
proof -
  assume y: "a \<le> y \<and> y < x + c" "x \<le> y"
  then have "y = x - x mod W + (x mod W + (y - x))" "x mod W + (y - x) < W" using assms(2) by auto
  moreover have "(x - x mod W) mod W = 0" by (simp add: minus_mod_eq_mult_div)
  ultimately have "y mod W = x mod W + (y - x)" by (metis add_0 mod_add_left_eq mod_less)
  then show ?thesis using y by simp
qed

lemma read_range_loop_value:
  assumes "nmbm_ok ni" and "range_in ni off n" and "ptr + unat n \<le> length data"
    and "reads_pages (lower ni) page" and "readable ni (unat off) (unat off + unat n)" and "0 \<le> mb" and "n = 0 \<longrightarrow> ret = 0"
  shows "post (read_range_loop ni off data ptr n mode ret ecc mb)
    (\<lambda>(ret', ecc', mb', rem, data', ni'). ret' = 0 \<and> ecc' = ecc \<and> mb' = mb \<and> rem = 0 \<and>
      data' = take ptr data @ map (logic_byte ni page) [unat off..<unat off + unat n] @ drop (ptr + unat n) data \<and>
      (\<exists>pc. length pc = length (page_cache ni) \<and> ni' = ni\<lparr>page_cache := pc\<rparr>))"
  using assms
proof (induction "unat n" arbitrary: ni off data ptr n ret rule: less_induct)
  case less
  show ?case
  proof (cases "n = 0")
    case True
    then show ?thesis using less.prems(7) by (subst read_range_loop.simps) (auto intro: exI [of _ "page_cache ni"])
  next
    case False
    let ?W = "unat (writesize (lower ni))" and ?l = "range_leading ni off"
    let ?c = "range_chunk ni ?l n"
    note chip = nmbm_okD(5) [OF less.prems(1)]
    note c = range_chunk_facts [OF chip False, of off]
    note nx = range_in_next [OF chip less.prems(2) False]
    note addr = range_in_page [OF chip less.prems(2) False]
    have l: "unat ?l = unat off mod ?W" and pa: "unat (off - ?l) = unat off - unat off mod ?W"
      using range_leading_eq [OF chip] range_page_addr [OF chip] by simp_all
    have m: "\<not> block_mapping ni ! (unat (off - ?l) div unat (erasesize (lower ni))) <s 0"
      "st_of (block_state ni) (block_mapping ni ! (unat (off - ?l) div unat (erasesize (lower ni)))) \<noteq> 0"
      using less.prems(5) c(1,2) by (auto simp: readable_def pa Let_def)
    let ?bs = "map (logic_byte ni page) [unat off..<unat off + unat ?c]"
    let ?data1 = "take ptr data @ ?bs @ drop (ptr + unat ?c) data"
    have piece: "take (unat ?c) (drop (unat ?l) (logic_page ni page (unat (off - ?l)))) = ?bs"
      unfolding pa l using page_piece [OF less.prems(4)] c(3) by (simp add: l)
    have read: "nmbm_read_logic_page ni (off - ?l) (Some d) None mode =
        Some (0, Some (logic_page ni page (unat (off - ?l)) @ drop ?W d), None, ni)" if "?W \<le> length d" for d
      using nmbm_read_logic_page_value [OF less.prems(1) addr less.prems(4) that m] .
    have rd: "readable ni (unat off + unat ?c) (unat off + unat n)"
      using less.prems(5) by (auto simp: readable_def)
    have step: "post (read_range_loop (ni\<lparr>page_cache := pc\<rparr>) (off + ?c) ?data1 (ptr + unat ?c) (n - ?c) mode 0 ecc mb)
       (\<lambda>(ret', ecc', mb', rem, data', ni'). ret' = 0 \<and> ecc' = ecc \<and> mb' = mb \<and> rem = 0 \<and>
        data' = take ptr data @ map (logic_byte ni page) [unat off..<unat off + unat n] @ drop (ptr + unat n) data \<and>
        (\<exists>pc. length pc = length (page_cache ni) \<and> ni' = ni\<lparr>page_cache := pc\<rparr>))"
      if pc: "length pc = length (page_cache ni)" for pc
    proof -
      let ?n = "ni\<lparr>page_cache := pc\<rparr>"
      have d: "dev_le ni ?n" using pc by (rule dev_le_cache)
      have split: "[unat off..<unat off + unat n] = [unat off..<unat off + unat ?c] @ [unat (off + ?c)..<unat (off + ?c) + unat (n - ?c)]"
        using c(2,4) nx(2) upt_add_eq_append [of "unat off" "unat off + unat ?c" "unat n - unat ?c"] by simp
      have len: "length ?bs = unat ?c" "ptr + unat ?c \<le> length data" using c(2) less.prems(3) by simp_all
      have dn: "ptr + unat ?c + unat (n - ?c) = ptr + unat n" using c(2,4) by simp
      have dr: "drop (ptr + unat n) ?data1 = drop (ptr + unat n) data"
        using put_next(2) [OF len, of "unat (n - ?c)"] by (simp only: dn)
      have "post (read_range_loop ?n (off + ?c) ?data1 (ptr + unat ?c) (n - ?c) mode 0 ecc mb)
       (\<lambda>(ret', ecc', mb', rem, data', ni'). ret' = 0 \<and> ecc' = ecc \<and> mb' = mb \<and> rem = 0 \<and>
        data' = take (ptr + unat ?c) ?data1 @ map (logic_byte ?n page) [unat (off + ?c)..<unat (off + ?c) + unat (n - ?c)] @
          drop (ptr + unat ?c + unat (n - ?c)) ?data1 \<and>
        (\<exists>pc. length pc = length (page_cache ?n) \<and> ni' = ?n\<lparr>page_cache := pc\<rparr>))"
        using less.prems c nx rd dev_le_nmbm_ok [OF d] range_in_device [OF dev_le_same_device [OF d]]
        by (intro less.hyps) simp_all
      then show ?thesis
        unfolding put_next(1) [OF len] dn dr logic_byte_cache split map_append
        by (rule post_mono) (auto simp: pc)
    qed
    have whole: "logic_page ni page (unat (off - ?l)) = ?bs" if w: "?c = ucast (writesize (lower ni))"
    proof -
      have "unat ?l = 0" "unat ?c = ?W" using c(3) by (simp_all add: w)
      with piece show ?thesis by (simp add: length_logic_page [OF less.prems(4)])
    qed
    let ?pc = "logic_page ni page (unat (off - ?l)) @ drop ?W (page_cache ni)"
    have pcl: "length ?pc = length (page_cache ni)" "?W \<le> length (page_cache ni)"
      using chip_ok_geometry(3) [OF chip] by (simp_all add: length_logic_page [OF less.prems(4)])
    have src: "take (unat ?c) (drop (unat ?l) ?pc) = ?bs"
      using piece c(3) by (simp add: length_logic_page [OF less.prems(4)])
    have len: "length ?bs = unat ?c" "ptr + unat ?c \<le> length data" using c(2) less.prems(3) by simp_all
    have same: "ni\<lparr>page_cache := page_cache ni\<rparr> = ni" by simp
    have eq: "read_range_loop ni off data ptr n mode ret ecc mb = read_range_loop
        (if ?c = ucast (writesize (lower ni)) then ni else ni\<lparr>page_cache := ?pc\<rparr>)
        (off + ?c) ?data1 (ptr + unat ?c) (n - ?c) mode 0 ecc mb"
    proof (cases "?c = ucast (writesize (lower ni))")
      case True
      then have "unat ?c = ?W" by simp
      then have "?W \<le> length (drop ptr data)" using len(2) by simp
      from read [OF this] show ?thesis
        using False less.prems(6) whole [OF True] \<open>unat ?c = ?W\<close>
        by (subst read_range_loop.simps) (simp add: Let_def True add.commute)
    next
      case part: False
      have "unat ?l + unat ?c \<le> length ?pc" using pcl c(3) by simp
      then show ?thesis
        using False part less.prems(6) read [OF pcl(2)] src len
        by (subst read_range_loop.simps) (simp add: Let_def put_cache_def mem_get_def mem_put_def)
    qed
    show ?thesis
    proof (cases "?c = ucast (writesize (lower ni))")
      case True
      show ?thesis unfolding eq if_P [OF True] by (rule step [OF refl, unfolded same])
    next
      case False
      show ?thesis unfolding eq if_not_P [OF False] by (rule step [OF pcl(1)])
    qed
  qed
qed

lemma read_range_value:
  assumes ok: "nmbm_ok ni" and nw: "unat addr + unat sz < 2 ^ 64" and len: "unat sz \<le> length data"
    and r: "reads_pages (lower ni) page" and rd: "readable ni (unat addr) (unat addr + unat sz)"
    and up: "\<not> protected ni" and sz: "sz \<noteq> 0"
    and inside: "unat addr + unat sz \<le> unat (data_block_count ni) * unat (erasesize (lower ni))"
  shows "post (read_range ni addr sz data mode) (\<lambda>(ret, retlen, data', ni'). ret = 0 \<and> retlen = Some sz \<and>
    data' = map (logic_byte ni page) [unat addr..<unat addr + unat sz] @ drop (unat sz) data \<and>
    (\<exists>pc. length pc = length (page_cache ni) \<and> ni' = ni\<lparr>page_cache := pc\<rparr>))"
proof -
  have b: "unat (ba2addr ni (data_block_count ni)) = unat (data_block_count ni) * unat (erasesize (lower ni))"
    using nmbm_okD(5) [OF ok] by (rule ba2addr_eq)
  have "0 < unat sz" using sz by (simp add: unat_gt_0)
  then have lim: "\<not> addr \<ge> ba2addr ni (data_block_count ni)" "\<not> addr + sz > ba2addr ni (data_block_count ni)"
    using inside nw by (simp_all add: word_less_nat_alt word_le_nat_alt b unat_add_no_wrap)
  have "range_in ni addr sz" using inside by (simp add: range_in_def b)
  then show ?thesis
    unfolding read_range_def using up lim sz len
    by (auto intro!: post_mono [OF read_range_loop_value [OF ok _ _ r rd]])
qed

end
