(* ===== verification/Nmbm_Sample.thy ===== *)
theory Nmbm_Sample
  imports Nmbm_Api
begin

text \<open>
  A small concrete chip for closed instances of the theorems: 64 blocks of four 32-byte pages,
  a driver that keeps its pages in a function from addresses to bytes, and an attached instance
  with management blocks from block 48 on, both info tables, and the signature in block 63.
\<close>

section \<open>A driver\<close>

type_synonym chip = "u64 \<Rightarrow> u8 list"

definition chip_page :: "chip \<Rightarrow> u64 \<Rightarrow> u8 list" where
  "chip_page c addr = take 32 (c addr @ replicate 32 0xff)"

definition chip_read :: "chip \<Rightarrow> u64 \<Rightarrow> u8 list option \<Rightarrow> u8 list option \<Rightarrow> nmbm_oob_mode \<Rightarrow>
    int \<times> u8 list option \<times> u8 list option \<times> chip" where
  "chip_read c addr buf oob mode =
     (0, map_option (\<lambda>b. take (length b) (chip_page c addr @ drop 32 b)) buf,
      map_option (\<lambda>b. replicate (length b) 0xff) oob, c)"

definition chip_write :: "chip \<Rightarrow> u64 \<Rightarrow> u8 list option \<Rightarrow> u8 list option \<Rightarrow> nmbm_oob_mode \<Rightarrow> int \<times> chip" where
  "chip_write c addr buf oob mode = (0, case buf of None \<Rightarrow> c | Some b \<Rightarrow> c(addr := take 32 b))"

definition chip_erase :: "chip \<Rightarrow> u64 \<Rightarrow> int \<times> chip" where
  "chip_erase c addr = (0, \<lambda>a. if addr \<le> a \<and> a < addr + 128 then [] else c a)"

definition sample_lower :: "chip nmbm_lower_device" where
  "sample_lower = \<lparr>max_ratio = 4, max_reserved_blocks = 0, nflags = 1, nsize = 8192, erasesize = 128,
     writesize = 32, oobsize = 16, oobavail = 16, reset_chip = None, read_page = Some chip_read,
     write_page = Some chip_write, erase_block = Some chip_erase, is_bad_block = Some (\<lambda>c a. (0, c)),
     mark_bad_block = Some (\<lambda>c a. (0, c)), os_crc32_le = (\<lambda>s bs. s + of_nat (sum_list (map unat bs)))\<rparr>"

section \<open>An attached instance\<close>

definition sample_signature :: nmbm_signature where
  "sample_signature = \<lparr>sig_header = \<lparr>magic = NMBM_MAGIC_SIGNATURE, version = NMBM_VER, hsize = 48, checksum = 0\<rparr>,
     nand_size = 8192, block_size = 128, page_size = 32, spare_size = 16, mgmt_start_pb = 48,
     max_try_count = 3, sig_padding = replicate 7 0\<rparr>"

definition instance_on :: "'c nmbm_lower_device \<Rightarrow> 'c \<Rightarrow> 'c nmbm_instance" where
  "instance_on ld a = \<lparr>lower = ld, arg = a, rawpage_size = 48, rawblock_size = 192,
     rawchip_size = 12288, writesize_mask = 31, erasesize_mask = 127, writesize_shift = 5, erasesize_shift = 7,
     signature = sample_signature, info_table_cache = replicate 320 0xff, info_table_size = 320,
     info_table_spare_blocks = 2,
     info_table = \<lparr>ift_header = \<lparr>magic = NMBM_MAGIC_INFO_TABLE, version = NMBM_VER, hsize = 320, checksum = 0\<rparr>,
       write_count = 1, state_table_off = 32, mapping_table_off = 64, ift_padding = 0\<rparr>,
     block_state = replicate 4 (- 1), block_state_changed = 0, state_table_size = 16,
     block_mapping = map of_nat [0..<48] @ replicate 16 (- 1), block_mapping_changed = 0,
     mapping_table_size = 256, page_cache = replicate 48 0xff, protected = False, block_count = 64,
     data_block_count = 48, mgmt_start_ba = 48, main_table_ba = 48, backup_table_ba = 53,
     mapping_blocks_ba = 56, mapping_blocks_top_ba = 62, signature_ba = 63, log_display_level = NMBM_LOG_INFO\<rparr>"

definition sample :: "chip nmbm_instance" where
  "sample = instance_on sample_lower (\<lambda>a. replicate 32 (ucast a))"

lemma sample_driver_ok [simp]: "driver_ok sample_lower"
  by (auto simp: driver_ok_def sample_lower_def chip_read_def map_option_case chip_page_def read_only_def
      NMBM_F_READ_ONLY_def split: option.split)

lemma instance_on_ok:
  assumes "driver_ok ld" and "erasesize ld = 128" and "writesize ld = 32" and "oobsize ld = 16"
  shows "nmbm_ok (instance_on ld a)"
proof -
  have c: "chip_ok (instance_on ld a)" using assms by (simp add: chip_ok_def instance_on_def)
  have m: "mapping_ok (instance_on ld a)"
    by (simp add: mapping_ok_def instance_on_def) (simp add: word_less_nat_alt unat_of_nat)
  show ?thesis
    using c m by (simp add: nmbm_ok_def mgmt_ok_def state_ok_def layout_ok_def placed_def tables_ok_def)
      (simp add: instance_on_def)
qed

lemma sample_ok [simp]: "nmbm_ok sample"
  unfolding sample_def by (rule instance_on_ok [OF sample_driver_ok]) (simp_all add: sample_lower_def)

lemma sample_chip_ok [simp]: "chip_ok sample"
  by (rule nmbm_okD(5) [OF sample_ok])

lemma sample_sels [simp]:
  "lower sample = sample_lower" "length (block_mapping sample) = 64" "length (block_state sample) = 4"
  "block_count sample = 64" "data_block_count sample = 48" "protected sample = False"
  "mgmt_start_ba sample = 48" "main_table_ba sample = 48" "backup_table_ba sample = 53"
  "mapping_blocks_ba sample = 56" "mapping_blocks_top_ba sample = 62" "signature_ba sample = 63"
  "erasesize_shift sample = 7" "erasesize sample_lower = 128" "writesize sample_lower = 32"
  "oobsize sample_lower = 16" "block_state sample = replicate 4 (- 1)"
  "info_table_size sample = 320" "length (page_cache sample) = 48" "length (info_table_cache sample) = 320"
  by (simp_all add: sample_def instance_on_def sample_lower_def)

lemma sample_good: "unat b < 64 \<Longrightarrow> st_of (replicate 4 (- 1)) b = BLOCK_ST_GOOD"
  by (simp add: st_of_def word_size)
    (auto intro!: bit_word_eqI simp: bit_simps)

lemma sample_reads: "reads_pages sample_lower chip_page"
  by (auto simp: reads_pages_def sample_lower_def chip_read_def chip_page_def)

lemma sample_mapping: "i < 48 \<Longrightarrow> block_mapping sample ! i = of_nat i"
  by (simp add: sample_def instance_on_def nth_append)

lemma sample_readable:
  assumes "b \<le> 6144"
  shows "readable sample a b"
  using assms
  by (auto simp: readable_def Let_def sample_mapping sample_good sless0 unat_of_nat)

lemma sample_tables_ok [simp]: "tables_ok sample"
  using nmbm_okD(1) [OF sample_ok] by (simp add: mgmt_ok_def)

lemma sample_crc [simp]: "crc_chains (os_crc32_le sample_lower)"
  by (simp add: crc_chains_def sample_lower_def add.assoc)

end
