(* ===== verification/Nmbm_Attach_Spec.thy ===== *)
theory Nmbm_Attach_Spec
  imports Nmbm_Attach
begin

text \<open>
  Attaching a new chip: on a chip that is erased the search for the signature ends without one, the
  layout of the instance fits in the memory that \<open>nmbm_calc_structure_size\<close> asks for, and creating the
  management structures leaves an instance with the invariant that the operations of \<open>nmbm.h\<close> need.
\<close>

section \<open>An erased chip\<close>

text \<open>The driver keeps the states \<open>B\<close> of the chip when it reads, resets or looks for bad blocks, and in these
  states a page that is read successfully has the bytes \<open>0xff\<close>.\<close>

definition reads_erased :: "'c nmbm_lower_device \<Rightarrow> ('c \<Rightarrow> bool) \<Rightarrow> bool" where
  "reads_erased ld B \<longleftrightarrow> (\<forall>a. B a \<longrightarrow>
     (\<forall>f addr d ob m r d' ob' a'. read_page ld = Some f \<longrightarrow> f a addr d ob m = (r, d', ob', a') \<longrightarrow> B a' \<and>
        (0 \<le> r \<and> room (writesize ld) d \<longrightarrow>
           (\<forall>p. d' = Some p \<longrightarrow> take (unat (writesize ld)) p = replicate (unat (writesize ld)) 0xff))) \<and>
     (\<forall>f. reset_chip ld = Some f \<longrightarrow> B (f a)) \<and>
     (\<forall>f addr. is_bad_block ld = Some f \<longrightarrow> B (snd (f a addr))))"

definition erased_chip :: "'c nmbm_lower_device \<Rightarrow> 'c \<Rightarrow> bool" where
  "erased_chip ld a \<longleftrightarrow> (\<exists>B. B a \<and> reads_erased ld B)"

lemma reads_erasedD:
  assumes "reads_erased ld B" and "B a"
  shows "read_page ld = Some f \<Longrightarrow> f a addr d ob m = (r, d', ob', a') \<Longrightarrow> B a'"
    and "read_page ld = Some f \<Longrightarrow> f a addr d ob m = (r, Some p, ob', a') \<Longrightarrow> 0 \<le> r \<Longrightarrow>
      room (writesize ld) d \<Longrightarrow>
      take (unat (writesize ld)) p = replicate (unat (writesize ld)) 0xff"
    and "reset_chip ld = Some f' \<Longrightarrow> B (f' a)"
    and "is_bad_block ld = Some f'' \<Longrightarrow> f'' a addr = (i, a'') \<Longrightarrow> B a''"
  using assms unfolding reads_erased_def by (blast, blast, blast, metis snd_conv)

lemma reset_erased: "reads_erased (lower ni) B \<Longrightarrow> B (arg ni) \<Longrightarrow> B (arg (nmbm_reset_chip ni))"
  by (auto simp: nmbm_reset_chip_def reads_erasedD(3) split: option.split)

lemma reset_lower [simp]: "lower (nmbm_reset_chip ni) = lower ni"
  by (simp add: nmbm_reset_chip_def split: option.split)

lemma read_tries_erased:
  assumes "reads_erased (lower ni) B" and "B (arg ni)" and "read_tries n r0 ni addr data oob mode = Some (r, d, ob, ni')"
    and "0 < n \<or> r0 < 0"
  shows "B (arg ni') \<and> (0 \<le> r \<longrightarrow> (\<forall>p. d = Some p \<longrightarrow>
    take (unat (writesize (lower ni))) p = replicate (unat (writesize (lower ni))) 0xff))"
  using assms
proof (induction n arbitrary: r0 ni data oob)
  case 0
  then show ?case by simp
next
  case (Suc n)
  from Suc.prems(3) obtain f r1 d1 ob1 a1 where f: "read_page (lower ni) = Some f"
    "f (arg ni) addr data oob mode = (r1, d1, ob1, a1)" and room: "room (writesize (lower ni)) data"
    and rest: "(if 0 \<le> r1 then Some (r1, d1, ob1, ni\<lparr>arg := a1\<rparr>)
       else read_tries n r1 (nmbm_reset_chip (ni\<lparr>arg := a1\<rparr>)) addr d1 ob1 mode) = Some (r, d, ob, ni')"
    by (auto simp: Let_def split: option.splits if_splits prod.splits)
  have B: "B a1" by (rule reads_erasedD(1) [OF Suc.prems(1,2) f])
  show ?case
  proof (cases "0 \<le> r1")
    case True
    then show ?thesis using rest B f room reads_erasedD(2) [OF Suc.prems(1,2)] by auto
  next
    case False
    then show ?thesis
      using rest B Suc.IH [of "nmbm_reset_chip (ni\<lparr>arg := a1\<rparr>)" r1 d1 ob1] Suc.prems(1)
        reset_erased [of "ni\<lparr>arg := a1\<rparr>" B] by simp
  qed
qed

lemma read_page_erased:
  assumes "reads_erased (lower ni) B" and "B (arg ni)" and "nmbm_read_phys_page ni addr data oob mode = Some (r, d, ob, ni')"
  shows "B (arg ni')" and "0 \<le> r \<Longrightarrow> d = Some p \<Longrightarrow>
    take (unat (writesize (lower ni))) p = replicate (unat (writesize (lower ni))) 0xff"
  using read_tries_erased [OF assms(1,2), of 3 0 addr data oob mode r d ob ni'] assms(3)
  by (simp_all add: nmbm_read_phys_page_def)

lemma check_bad_erased:
  assumes "reads_erased (lower ni) B" and "B (arg ni)" and "nmbm_check_bad_phys_block ni ba = Some (b, ni')"
  shows "B (arg ni')"
  using assms(3) reads_erasedD(4) [OF assms(1,2)] read_page_erased(1) [OF assms(1,2)]
  by (fastforce simp: nmbm_check_bad_phys_block_def Let_def split: option.splits prod.splits if_splits Option.bind_splits)

lemma read_page_erased_post:
  assumes "chip_ok ni" and "reads_erased (lower ni) B" and "B (arg ni)"
    and "room (writesize (lower ni)) data" and "room (oobsize (lower ni)) oob"
  shows "post (nmbm_read_phys_page ni addr data oob mode) (\<lambda>(r, d, ob, ni'). same_shape data d \<and> arg_le ni ni' \<and> B (arg ni') \<and>
    (0 \<le> r \<longrightarrow> (\<forall>p. d = Some p \<longrightarrow> take (unat (writesize (lower ni))) p = replicate (unat (writesize (lower ni))) 0xff)))"
proof -
  obtain r d ob ni' where e: "nmbm_read_phys_page ni addr data oob mode = Some (r, d, ob, ni')"
    and "same_shape data d \<and> same_shape oob ob \<and> arg_le ni ni'"
    using nmbm_read_phys_page_post [OF assms(1,4,5), of addr mode] by (auto simp: post_iff)
  then show ?thesis using read_page_erased [OF assms(2,3) e] by simp
qed

section \<open>The search for the signature\<close>

text \<open>A range that was read without an error is filled with \<open>0xff\<close>.\<close>

lemma read_data_erased_post:
  assumes "chip_ok ni" and "reads_erased (lower ni) B" and "B (arg ni)" and "ptr + unat n \<le> length data"
  shows "post (read_data_loop ni off data ptr n) (\<lambda>(r, data', ni'). dev_le ni ni' \<and> length data' = length data \<and> B (arg ni') \<and>
    (r = 0 \<longrightarrow> take (ptr + unat n) data' = take ptr data @ replicate (unat n) 0xff))"
  using assms
proof (induction "unat n" arbitrary: ni off data ptr n rule: less_induct)
  case less
  show ?case
  proof (cases "n = 0")
    case True
    then show ?thesis using less.prems by (subst read_data_loop.simps) simp
  next
    case False
    let ?W = "unat (writesize (lower ni))" and ?l = "page_leading ni off" and ?c = "page_chunk ni (page_leading ni off) n"
    let ?P = "\<lambda>(r, data', ni'). dev_le ni ni' \<and> length data' = length data \<and> B (arg ni') \<and>
      (r = 0 \<longrightarrow> take (ptr + unat n) data' = take ptr data @ replicate (unat n) 0xff)"
    note c = page_chunk_facts [OF less.prems(1) False page_leading_less [OF less.prems(1), of off]]
    have step: "post (read_data_loop ni1 (off + ucast ?c) data1 (ptr + unat ?c) (n - ?c)) ?P"
      if le: "dev_le ni ni1" and b: "B (arg ni1)" and ld: "length data1 = length data"
        and fill: "take (ptr + unat ?c) data1 = take ptr data @ replicate (unat ?c) 0xff" for data1 ni1
    proof -
      have "replicate (unat ?c) (0xff :: u8) @ replicate (unat n - unat ?c) 0xff = replicate (unat n) 0xff"
        using c(2) by (simp flip: replicate_add)
      moreover have "lower ni1 = lower ni" using le by (rule dev_le_cong(1))
      ultimately show ?thesis
        using less.prems le ld c b fill
        by (intro post_mono [OF less.hyps [of "n - ?c" ni1 "ptr + unat ?c" data1]]) (auto intro: chip_ok_dev_le dev_le_trans [OF le])
    qed
    have whole: "post (nmbm_read_phys_page ni a (Some (drop ptr data)) None m)
      (\<lambda>(r, d, ob, ni1). \<exists>b. d = Some b \<and> length b = length data - ptr \<and> arg_le ni ni1 \<and> B (arg ni1) \<and>
        (0 \<le> r \<longrightarrow> take ?W b = replicate ?W 0xff))"
      if "?c = writesize (lower ni)" for a m
      using that c(2) less.prems
      by (intro post_mono [OF read_page_erased_post [OF less.prems(1-3)]]) (auto simp: room_def same_shape_Some)
    have part: "post (nmbm_read_phys_page ni a (Some (page_cache ni)) None m)
      (\<lambda>(r, d, ob, ni1). dev_le ni (put_cache ni1 d) \<and> B (arg (put_cache ni1 d)) \<and>
        (0 \<le> r \<longrightarrow> take ?W (page_cache (put_cache ni1 d)) = replicate ?W 0xff))" for a m
      using less.prems chip_ok_geometry(3) [OF less.prems(1)]
      by (intro post_mono [OF post_conj [OF read_cache_post [OF less.prems(1)] read_page_erased_post [OF less.prems(1-3)]]])
        (auto simp: room_def same_shape_Some put_cache_def)
    have cache: "unat ?l + unat ?c \<le> length (page_cache ni)"
      using c(3) chip_ok_geometry(3) [OF less.prems(1)] by linarith
    have piece: "take (unat ?c) (drop (unat ?l) pc) = replicate (unat ?c) 0xff" if "take ?W pc = replicate ?W (0xff :: u8)" for pc
    proof -
      have "take (unat ?c) (drop (unat ?l) pc) = take (unat ?c) (drop (unat ?l) (take ?W pc))"
        using c(3) by (simp add: drop_take min_absorb1)
      then show ?thesis using that c(3) by (simp add: min_absorb1)
    qed
    let ?Q = "\<lambda>(r, data1, ni1). dev_le ni ni1 \<and> B (arg ni1) \<and> length data1 = length data \<and>
      (0 \<le> r \<longrightarrow> take (ptr + unat ?c) data1 = take ptr data @ replicate (unat ?c) (0xff :: u8))"
    let ?read = "if ?c = writesize (lower ni) then do {
        (ret, d, _, ni) \<leftarrow> nmbm_read_phys_page ni (off - ucast ?l) (Some (drop ptr data)) None NMBM_MODE_PLACE_OOB;
        Some (ret, take ptr data @ (case d of None \<Rightarrow> [] | Some b \<Rightarrow> b), ni)
      } else do {
        (ret, d, _, ni) \<leftarrow> nmbm_read_phys_page ni (off - ucast ?l) (Some (page_cache ni)) None NMBM_MODE_PLACE_OOB;
        let ni = put_cache ni d;
        if ret < 0 then Some (ret, data, ni)
        else do {
          src \<leftarrow> mem_get (page_cache ni) (unat ?l) (unat ?c);
          data \<leftarrow> mem_put data ptr src;
          Some (ret, data, ni)
        }
      }"
    have "post ?read ?Q"
    proof (cases "?c = writesize (lower ni)")
      case True
      have "min (length data) ptr = ptr" using less.prems(4) by simp
      then show ?thesis using True less.prems(4)
        by (auto intro!: post_mono [OF whole [OF True]] arg_le_dev_le)
    next
      case False
      then show ?thesis using less.prems(4) c(2) cache
        by (auto simp: Let_def dev_le_cong(4) mem_get_def mem_put_def piece intro!: post_mono [OF part])
    qed
    then have "post (do { (ret, data, ni) \<leftarrow> ?read;
        if ret < 0 then Some (ret, data, ni) else read_data_loop ni (off + ucast ?c) data (ptr + unat ?c) (n - ?c) }) ?P"
      by (rule post_bindI) (auto intro!: step)
    then show ?thesis using False by (subst read_data_loop.simps) (simp only: Let_def if_True not_False_eq_True)
  qed
qed

lemma check_header_erased: "nmbm_check_header f (replicate 48 0xff) 48 = Some False"
proof -
  have "hsize (header_of_bytes (replicate 16 0xff)) = 0xffffffff" by code_simp
  then show ?thesis by (simp add: nmbm_check_header_def mem_get_def Let_def)
qed

lemma find_in_block_erased:
  assumes "chip_ok ni" and "reads_erased (lower ni) B" and "B (arg ni)"
  shows "post (find_in_block_loop ni addr off) (\<lambda>(r, ni'). r = None \<and> dev_le ni ni' \<and> B (arg ni'))"
  using assms
proof (induction "unat (erasesize (lower ni)) - unat off" arbitrary: ni off rule: less_induct)
  case less
  show ?case
  proof (cases "off < ucast (erasesize (lower ni))")
    case False
    then show ?thesis using less.prems by (subst find_in_block_loop.simps) simp
  next
    case True
    let ?off = "off + ucast (writesize (lower ni)) :: u64"
    note g = chip_ok_geometry [OF less.prems(1)]
    have "unat ?off = unat off + unat (writesize (lower ni))" by (rule page_step64 [OF True g(2,1)])
    then have lt: "unat (erasesize (lower ni)) - unat ?off < unat (erasesize (lower ni)) - unat off"
      using True chip_ok_page_pos [OF less.prems(1)] by (simp add: word_less_nat_alt)
    have next_page: "post (find_in_block_loop ni1 addr (off + ucast (writesize (lower ni)))) (\<lambda>(r, ni'). r = None \<and> dev_le ni ni' \<and> B (arg ni'))"
      if le: "dev_le ni ni1" and b: "B (arg ni1)" for ni1
      using less.prems b lt by (intro post_mono [OF less.hyps [of ni1]])
        (auto simp: dev_le_cong(1) [OF le] intro: chip_ok_dev_le [OF le] dev_le_trans [OF le])
    have read: "post (nmbn_read_data ni (addr + off) (replicate 48 0) 48) (\<lambda>(r, sig, ni1). dev_le ni ni1 \<and> length sig = 48 \<and> B (arg ni1) \<and>
        (r = 0 \<longrightarrow> sig = replicate 48 0xff))"
      unfolding nmbn_read_data_def
      by (rule post_mono [OF read_data_erased_post [OF less.prems, where ptr = 0]]) auto
    show ?thesis
      by (subst find_in_block_loop.simps)
        (auto simp: True check_header_erased dev_le_cong(1) intro!: next_page post_mono [OF read])
  qed
qed

lemma find_signature_loop_erased:
  assumes "chip_ok ni" and "reads_erased (lower ni) B" and "B (arg ni)" and "0 < limit"
  shows "post (find_signature_loop ni ba limit) (\<lambda>(r, ni'). r = None \<and> dev_le ni ni' \<and> B (arg ni'))"
  using assms
proof (induction "unat ba" arbitrary: ni ba rule: less_induct)
  case less
  show ?case
  proof (cases "limit \<le> ba")
    case False
    then show ?thesis using less.prems by (subst find_signature_loop.simps) simp
  next
    case True
    have "0 < ba" using True less.prems(4) by order
    then have lt: "unat (ba - 1) < unat ba" by (rule unat_dec_measure)
    have below: "post (find_signature_loop ni1 (ba - 1) limit) (\<lambda>(r, ni'). r = None \<and> dev_le ni ni' \<and> B (arg ni'))"
      if le: "dev_le ni ni1" and b: "B (arg ni1)" for ni1
      using less.prems b lt by (intro post_mono [OF less.hyps [of "ba - 1" ni1]])
        (auto simp: dev_le_cong(1) [OF le] intro: chip_ok_dev_le [OF le] dev_le_trans [OF le])
    have block: "post (find_in_block_loop ni1 addr 0) (\<lambda>(r, ni'). r = None \<and> dev_le ni ni' \<and> B (arg ni'))"
      if le: "dev_le ni ni1" and b: "B (arg ni1)" for ni1 addr
      using less.prems b by (intro post_mono [OF find_in_block_erased [where B = B]])
        (auto simp: dev_le_cong(1) [OF le] intro: chip_ok_dev_le [OF le] dev_le_trans [OF le])
    have bad: "post (nmbm_check_bad_phys_block ni (ba - 1)) (\<lambda>(b, ni1). dev_le ni ni1 \<and> B (arg ni1))"
      using nmbm_check_bad_phys_block_post [OF less.prems(1), of "ba - 1"] check_bad_erased [OF less.prems(2,3)]
      by (auto simp: post_iff)
    show ?thesis
      by (subst find_signature_loop.simps)
        (auto simp: True Let_def intro!: below post_mono [OF bad] post_mono [OF block])
  qed
qed

text \<open>On fewer than sixteen blocks the limit is zero, and the search goes on below block zero.\<close>

lemma signature_limit_pos:
  assumes "16 \<le> unat count" and "0 < unat (max_ratio (lower ni))" and "unat (max_ratio (lower ni)) < 16"
  shows "0 < signature_limit ni count"
proof -
  let ?k = "count div 16" and ?r = "16 - max_ratio (lower ni)"
  have k: "unat ?k = unat count div 16" by (simp add: unat_div_distrib)
  have r: "unat ?r = 16 - unat (max_ratio (lower ni))" using assms(3) by (simp add: unat_sub word_le_nat_alt)
  have le: "unat ?k * unat ?r \<le> unat count div 16 * 16" unfolding k r by (intro mult_left_mono) simp_all
  moreover have "unat count div 16 * 16 \<le> unat count" by simp
  moreover have "unat count < 2 ^ 32" using unsigned_less [of count, where ?'a = nat] by simp
  ultimately have lt: "unat ?k * unat ?r \<le> unat count" "unat ?k * unat ?r < 2 ^ 32" by linarith+
  then have m: "unat (?k * ?r) = unat ?k * unat ?r" by (subst unat_mult_lem [THEN iffD1]) simp_all
  have "0 < unat ?k" "0 < unat ?r" using assms k r by simp_all
  then have pos: "0 < unat (?k * ?r)" unfolding m by (rule mult_pos_pos)
  have "?k * ?r \<le> count" using lt(1) unfolding m [symmetric] by (simp only: word_le_nat_alt)
  then have "unat (count - ?k * ?r) < unat count" using pos assms(1) by (simp add: unat_sub)
  then have "0 < unat (count - m)" if "unat m < unat (count - ?k * ?r)" for m
    using that by (subst unat_sub) (simp_all add: word_le_nat_alt)
  then show ?thesis using pos by (simp add: signature_limit_def Let_def word_less_nat_alt)
qed

lemma find_signature_erased:
  assumes "chip_ok ni" and "erased_chip (lower ni) (arg ni)" and "block_count ni = ucast (drop_bit (unat (erasesize_shift ni)) (nsize (lower ni)))"
    and "16 \<le> unat (block_count ni)" and "0 < unat (max_ratio (lower ni))" and "unat (max_ratio (lower ni)) < 16"
  shows "post (nmbm_find_signature ni) (\<lambda>(r, ni'). r = None \<and> dev_le ni ni')"
proof -
  obtain B where "B (arg ni)" "reads_erased (lower ni) B" using assms(2) by (auto simp: erased_chip_def)
  then show ?thesis
    using find_signature_loop_erased [OF assms(1), of B "signature_limit ni (block_count ni)" "block_count ni"]
      signature_limit_pos [OF assms(4-6)]
    by (auto simp: nmbm_find_signature_def Let_def assms(3) elim: post_mono)
qed

section \<open>The layout of the instance\<close>

unbundle bit_operations_syntax

lemma pow2_nat: "n AND (n - 1) = 0 \<Longrightarrow> 0 < n \<Longrightarrow> \<exists>k. n = 2 ^ k" for n :: nat
proof (induction n rule: less_induct)
  case (less n)
  have rec: "n AND (n - 1) = of_bool (odd n \<and> odd (n - 1)) + 2 * ((n div 2) AND ((n - 1) div 2))" by (rule and_rec)
  show ?case
  proof (cases "odd n")
    case True
    then have "(n - 1) div 2 = n div 2" by presburger
    then have "n div 2 = 0" using less.prems(1) rec by simp
    then have "n = 2 ^ 0" using less.prems(2) by simp
    then show ?thesis ..
  next
    case False
    then have "(n - 1) div 2 = n div 2 - 1" "0 < n div 2" "n div 2 < n" using less.prems(2) by presburger+
    moreover have "n div 2 AND (n div 2 - 1) = 0" using less.prems(1) rec calculation(1) by simp
    ultimately obtain k where "n div 2 = 2 ^ k" using less.IH by blast
    then have "n = 2 ^ Suc k" using False by (metis dvd_mult_div_cancel power_Suc)
    then show ?thesis ..
  qed
qed

lemma pow2_word:
  fixes w :: "'n::len word"
  assumes "w \<noteq> 0" and "w AND (w - 1) = 0"
  shows "\<exists>k. unat w = 2 ^ k"
proof (rule pow2_nat)
  have "unat (w AND (w - 1)) = unat w AND unat (w - 1)" by (rule unsigned_and_eq)
  then show "unat w AND (unat w - 1) = 0" using assms by (simp add: unat_minus_one)
  show "0 < unat w" using assms(1) by (simp add: unat_gt_0)
qed

lemma ffs_pow2:
  assumes "unat w = 2 ^ k"
  shows "ffs w = Suc k"
proof -
  have k: "k < 32" using pow2_u32(1) [OF assms] by simp
  have w: "w = 2 ^ k" using assms by (metis of_nat_numeral of_nat_power of_nat_unat ucast_id)
  have "[0..<32] = [0..<k] @ k # [Suc k..<32]" 
    using k upt_add_eq_append [of 0 k "32 - k"] by (simp add: upt_conv_Cons)
  moreover have "takeWhile Not (map (bit w) ([0..<k] @ k # [Suc k..<32])) = map (bit w) [0..<k]"
    using k by (simp add: w bit_simps takeWhile_append)
  ultimately show ?thesis using w k by (simp add: ffs_def)
qed

lemma align_pow2:
  fixes v a :: u32
  assumes "unat a = 2 ^ k" and "unat v + unat a \<le> 2 ^ 32"
  shows "unat (NMBM_ALIGN v a) = (unat v + unat a - 1) div unat a * unat a"
proof -
  have a: "1 \<le> unat a" using assms(1) by simp
  have "unat (a - 1) = unat a - 1" using a by (intro unat_minus_one) auto
  then have s: "unat (v + (a - 1)) = unat v + unat a - 1"
    using assms(2) a by (subst unat_add_no_wrap) simp_all
  have "unat (x AND NOT (a - 1)) = unat x - unat x mod unat a" for x :: u32
    using and_not_mask [OF assms(1), of "ucast x"] unsigned_less [of x, where ?'a = nat]
    by (simp flip: unsigned_and_eq)
  moreover have "unat (v + a - 1) = unat v + unat a - 1" using s by (simp add: add_diff_eq)
  ultimately show ?thesis unfolding NMBM_ALIGN_def by (simp only: minus_mod_eq_div_mult)
qed

lemma align_bounds:
  fixes v a :: u32
  assumes "unat a = 2 ^ k" and "unat v + unat a \<le> 2 ^ 32"
  shows "unat v \<le> unat (NMBM_ALIGN v a)" and "unat (NMBM_ALIGN v a) < unat v + unat a"
proof -
  have a: "0 < unat a" using assms(1) by simp
  let ?s = "unat v + unat a - 1"
  have e: "?s div unat a * unat a + ?s mod unat a = ?s" by simp
  moreover have "?s mod unat a < unat a" using a by simp
  ultimately show "unat v \<le> unat (NMBM_ALIGN v a)" "unat (NMBM_ALIGN v a) < unat v + unat a"
    unfolding align_pow2 [OF assms] using a by linarith+
qed

text \<open>The sizes for which the numbers of the layout do not wrap.\<close>

definition sizes_fit :: "'c nmbm_lower_device \<Rightarrow> bool" where
  "sizes_fit ld \<longleftrightarrow> 16 \<le> unat (nsize ld) div unat (erasesize ld) \<and> unat (nsize ld) div unat (erasesize ld) \<le> 2 ^ 26 \<and>
     unat (writesize ld) \<le> 2 ^ 26 \<and> unat (oobsize ld) \<le> 2 ^ 26"

text \<open>What the layout promises.\<close>

definition laid_out :: "'c nmbm_instance \<Rightarrow> bool" where
  "laid_out ni \<longleftrightarrow> state_ok ni \<and> tables_ok ni \<and> unat (info_table_spare_blocks ni) < 2 ^ 31 \<and>
     16 \<le> unat (block_count ni) \<and> unat (block_count ni) \<le> 2 ^ 26 \<and>
     block_count ni = ucast (drop_bit (unat (erasesize_shift ni)) (nsize (lower ni)))"

lemma check_members_ok:
  assumes "nmbm_check_lower_members nld = (True, nld')"
  shows "\<exists>k. unat (writesize nld) = 2 ^ k" and "\<exists>k. unat (erasesize nld) = 2 ^ k" and "0 < unat (oobsize nld)"
    and "0 < unat (max_ratio nld')" and "unat (max_ratio nld') < 15" and "\<exists>r. nld' = nld\<lparr>max_ratio := r\<rparr>"
proof -
  have *: "is_power_of_2 (writesize nld)" "is_power_of_2 (erasesize nld)" "oobsize nld \<noteq> 0"
    and r: "nld' = (if max_ratio nld = 0 then nld\<lparr>max_ratio := 1\<rparr> else nld)" "\<not> 15 \<le> max_ratio nld'"
    using assms by (auto simp: nmbm_check_lower_members_def Let_def split: if_splits)
  from * show "\<exists>k. unat (writesize nld) = 2 ^ k" "\<exists>k. unat (erasesize nld) = 2 ^ k" "0 < unat (oobsize nld)"
    by (auto simp: is_power_of_2_def unat_gt_0 intro!: pow2_word)
  from r show "0 < unat (max_ratio nld')" "unat (max_ratio nld') < 15"
    by (auto simp: unat_gt_0 word_le_nat_alt split: if_splits)
  from r(1) show "\<exists>r. nld' = nld\<lparr>max_ratio := r\<rparr>"
    by (metis nmbm_lower_device.surjective nmbm_lower_device.update_convs(1))
qed

lemma layout_sizes:
  fixes count ws oob :: u32
  assumes w: "unat ws = 2 ^ k" "unat ws \<le> 2 ^ 26" and n: "unat count \<le> 2 ^ 26"
  defines "ssize \<equiv> state_table_bytes count" and "msize \<equiv> count * 4"
  defines "soff \<equiv> NMBM_ALIGN 32 ws"
  defines "moff \<equiv> soff + NMBM_ALIGN ssize ws"
  defines "tsize \<equiv> moff + NMBM_ALIGN msize ws"
  shows "unat ssize = (unat count + 15) div 16 * 4" and "unat msize = 4 * unat count"
    and "32 \<le> unat soff" and "unat soff + unat ssize \<le> unat moff" and "unat moff + unat msize \<le> unat tsize"
    and "unat tsize \<le> 2 ^ 30"
proof -
  have c: "unat (count + 15) = unat count + 15" using n by (subst unat_add_no_wrap) simp_all
  then have d: "unat ((count + 15) div 16) = (unat count + 15) div 16" by (simp add: unat_div_distrib)
  have e: "count + 16 - 1 = count + 15" by simp
  show s: "unat ssize = (unat count + 15) div 16 * 4"
    unfolding ssize_def state_table_bytes_def e using n d by (subst unat_mult_lem [THEN iffD1]) simp_all
  show m: "unat msize = 4 * unat count"
    unfolding msize_def using n by (subst unat_mult_lem [THEN iffD1]) simp_all
  have ss: "unat ssize \<le> 2 ^ 26" using n unfolding s by simp
  note a1 = align_bounds [OF w(1), of 32] and a2 = align_bounds [OF w(1), of ssize] and a3 = align_bounds [OF w(1), of msize]
  show "32 \<le> unat soff" unfolding soff_def using a1(1) w(2) by simp
  have so: "unat soff < 32 + 2 ^ 26" unfolding soff_def using a1(2) w(2) by simp
  have x2: "unat ssize \<le> unat (NMBM_ALIGN ssize ws)" "unat (NMBM_ALIGN ssize ws) < 2 ^ 27" using a2 w(2) ss by simp_all
  have mo: "unat moff = unat soff + unat (NMBM_ALIGN ssize ws)"
    unfolding moff_def using so x2 by (intro unat_add_no_wrap) simp
  then show "unat soff + unat ssize \<le> unat moff" using x2 by simp
  have x3: "unat msize \<le> unat (NMBM_ALIGN msize ws)" "unat (NMBM_ALIGN msize ws) < 2 ^ 28 + 2 ^ 26" using a3 w(2) n m by simp_all
  have ts: "unat tsize = unat moff + unat (NMBM_ALIGN msize ws)"
    unfolding tsize_def using so x2 x3 mo by (intro unat_add_no_wrap) simp
  then show "unat moff + unat msize \<le> unat tsize" using x3 by simp
  show "unat tsize \<le> 2 ^ 30" using ts mo so x2 x3 by simp
qed

lemma shift_of_pow2:
  assumes "unat (w :: u32) = 2 ^ k"
  shows "unat (of_nat (ffs w) - 1 :: u16) = k"
proof -
  have "k \<le> 31" using assms by (rule pow2_u32)
  then show ?thesis unfolding ffs_pow2 [OF assms] by (simp add: unat_of_nat)
qed

lemma block_count_eq:
  assumes "unat (e :: u32) = 2 ^ k" and "unat (s :: u64) div unat e < 2 ^ 32"
  shows "unat (ucast (drop_bit k s) :: u32) = unat s div unat e" and "(ucast (s div ucast e) :: u32) = ucast (drop_bit k s)"
proof -
  have "unat (drop_bit k s) = drop_bit k (unat s)" 
    using unsigned_less [of s, where ?'a = nat] by (simp add: unsigned_drop_bit_eq take_bit_nat_eq_self)
  then have "unat (drop_bit k s) = unat s div unat e" by (simp add: assms(1) drop_bit_eq_div [of k "unat s"])
  moreover have "unat (s div ucast e) = unat s div unat e" by (simp add: unat_div_distrib)
  ultimately have "unat (drop_bit k s) = unat s div unat e" "s div ucast e = drop_bit k s"
    by (simp_all add: unsigned_word_eqI [where ?'a = nat])
  then show "unat (ucast (drop_bit k s) :: u32) = unat s div unat e" "(ucast (s div ucast e) :: u32) = ucast (drop_bit k s)"
    using assms(2) by (simp_all add: unat_u64_u32)
qed

lemma init_structure_post:
  assumes check: "nmbm_check_lower_members nld = (True, nld')" and drv: "driver_ok nld" and fit: "sizes_fit nld"
    and mem: "length mem = unat (nmbm_calc_structure_size 0 nld')" and low: "lower ni = nld'"
  shows "post (nmbm_init_structure ni mem) (\<lambda>ni'. laid_out ni' \<and> lower ni' = nld' \<and> arg ni' = arg ni \<and>
    signature ni' = signature ni)"
proof -
  obtain k e where k: "unat (writesize nld) = 2 ^ k" and e: "unat (erasesize nld) = 2 ^ e"
    using check_members_ok(1,2) [OF check] by blast
  obtain r where r: "nld' = nld\<lparr>max_ratio := r\<rparr>" using check_members_ok(6) [OF check] by blast
  let ?count = "ucast (drop_bit e (nsize nld)) :: u32"
  let ?ss = "state_table_bytes ?count" and ?ms = "?count * 4" and ?so = "NMBM_ALIGN 32 (writesize nld)"
  let ?mo = "?so + NMBM_ALIGN ?ss (writesize nld)"
  let ?ts = "?mo + NMBM_ALIGN ?ms (writesize nld)"
  have n: "16 \<le> unat (nsize nld) div unat (erasesize nld)" "unat (nsize nld) div unat (erasesize nld) \<le> 2 ^ 26"
    "unat (writesize nld) \<le> 2 ^ 26" "unat (oobsize nld) \<le> 2 ^ 26" using fit by (simp_all add: sizes_fit_def)
  have "unat (nsize nld) div unat (erasesize nld) < 2 ^ 32" using n(2) by simp
  note cnt = block_count_eq [OF e this]
  have c26: "unat ?count \<le> 2 ^ 26" using n(2) cnt(1) by simp
  note z = layout_sizes [OF k n(3) c26]
  have raw: "unat (writesize nld + oobsize nld) = unat (writesize nld) + unat (oobsize nld)"
    using n by (intro unat_add_no_wrap) simp
  have ss: "unat ?ss \<le> 2 ^ 26" using c26 unfolding z(1) by simp
  have sums: "unat (?ts + ?ss) = unat ?ts + unat ?ss" "unat (?ts + ?ss + ?ms) = unat ?ts + unat ?ss + unat ?ms"
    "unat (?ts + ?ss + ?ms + writesize nld) = unat ?ts + unat ?ss + unat ?ms + unat (writesize nld)"
    "unat (?ts + ?ss + ?ms + writesize nld + oobsize nld) = unat ?ts + unat ?ss + unat ?ms + unat (writesize nld) + unat (oobsize nld)"
    using z(6) ss c26 n z(2) by ((subst unat_add_no_wrap; simp)+)
  have len: "length mem = unat ?ts + unat ?ss + unat ?ms + unat (writesize nld) + unat (oobsize nld)"
    using mem sums(4) by (simp add: r nmbm_calc_structure_size_def Let_def cnt(2) add.assoc)
  have sh: "unat (of_nat (ffs (writesize nld)) - 1 :: u16) = k" "unat (of_nat (ffs (erasesize nld)) - 1 :: u16) = e"
    by (rule shift_of_pow2 [OF k], rule shift_of_pow2 [OF e])
  have spare: "unat (nmbm_get_spare_block_count c) < 2 ^ 31" for c
  proof -
    have "unat ((c + 1) div 2) < 2 ^ 31" using unsigned_less [of "c + 1", where ?'a = nat] by (simp add: unat_div_distrib)
    then show ?thesis by (simp add: nmbm_get_spare_block_count_def Let_def)
  qed
  have round: "x \<le> 16 * ((x + 15) div 16)" for x :: nat by presburger
  have drv': "driver_ok nld'" using drv by (simp add: driver_ok_def r read_only_def)
  show ?thesis
    unfolding nmbm_init_structure_def
    using z len n cnt(1) raw k e check_members_ok(3) [OF check]
    by (simp add: Let_def mem_get_def low r sh) (simp add: laid_out_def state_ok_def chip_ok_def tables_ok_def drv' [unfolded r] low r sh spare [simplified] round)
qed

section \<open>Creating the management structures\<close>

text \<open>Every logic block of the data area has a physical block.\<close>

definition all_mapped :: "'c nmbm_instance \<Rightarrow> bool" where
  "all_mapped ni \<longleftrightarrow> (\<forall>i < unat (data_block_count ni). block_mapping ni ! i < block_count ni)"

text \<open>The instance when the first mapping is built.\<close>

definition mapped :: "'c nmbm_instance \<Rightarrow> bool" where
  "mapped ni \<longleftrightarrow> state_ok ni \<and> tables_ok ni \<and> unat (info_table_spare_blocks ni) < 2 ^ 31 \<and>
     0 < mgmt_start_ba ni \<and> mgmt_start_ba ni < block_count ni \<and> data_block_count ni \<le> mgmt_start_ba ni \<and>
     mapping_ok ni \<and> all_mapped ni"

lemma boundary_bounds:
  assumes "16 \<le> unat (block_count ni)" and "unat (block_count ni) \<le> 2 ^ 26"
    and "0 < unat (max_ratio (lower ni))" and "unat (max_ratio (lower ni)) < 15"
  shows "0 < mgmt_boundary ni" and "mgmt_boundary ni < block_count ni"
proof -
  let ?c = "block_count ni" and ?r = "16 - max_ratio (lower ni)"
  have r: "unat ?r = 16 - unat (max_ratio (lower ni))" using assms(4) by (simp add: unat_sub word_le_nat_alt)
  have r2: "2 \<le> unat ?r" "unat ?r \<le> 15" using assms(3,4) unfolding r by simp_all
  have hi: "unat ?c * unat ?r \<le> unat ?c * 15" and lo: "unat ?c * 2 \<le> unat ?c * unat ?r" using r2 by simp_all
  have "unat ?c * unat ?r < 2 ^ 32" by (rule le_less_trans [OF hi]) (use assms(2) in simp)
  then have m: "unat (?c * ?r) = unat ?c * unat ?r" by (subst unat_mult_lem [THEN iffD1]) simp_all
  have s: "unat (?c * ?r div 16) = unat ?c * unat ?r div 16" unfolding m [symmetric] by (simp add: unat_div_distrib)
  have lt: "unat (?c * ?r div 16) < unat ?c" "0 < unat (?c * ?r div 16)" using hi lo assms(1) unfolding s by linarith+
  have "0 < unat (?c - m) \<and> unat (?c - m) < unat ?c" if "unat m < unat (?c - ?c * ?r div 16)" "m \<noteq> 0" for m
  proof -
    have "unat (?c - ?c * ?r div 16) = unat ?c - unat (?c * ?r div 16)" using lt(1) by (intro unat_sub) (simp add: word_le_nat_alt)
    moreover from this have "unat (?c - m) = unat ?c - unat m" using that(1) by (intro unat_sub) (simp add: word_le_nat_alt)
    moreover have "0 < unat m" using that(2) by (simp add: unat_gt_0)
    ultimately show ?thesis using that(1) by linarith
  qed
  then have "0 < unat (mgmt_boundary ni) \<and> unat (mgmt_boundary ni) < unat ?c"
    using lt by (simp add: mgmt_boundary_def Let_def word_less_nat_alt)
  then show "0 < mgmt_boundary ni" "mgmt_boundary ni < ?c" by (simp_all add: word_less_nat_alt)
qed

lemma all_mapped_upd: "upd ni ni' \<Longrightarrow> all_mapped ni' = all_mapped ni"
  by (simp add: all_mapped_def upd_cong)

lemma remap_tail_post:
  assumes "nmbm_ok ni" and "all_mapped ni" and "mgmt_start_ba ni \<le> block_count ni" and "data_block_count ni = lb"
  shows "post (remap_tail_loop ni lb) (\<lambda>ni'. nmbm_ok ni' \<and> all_mapped ni')"
  using assms
proof (induction "unat (mgmt_start_ba ni) - unat lb" arbitrary: ni lb rule: less_induct)
  case less
  show ?case
  proof (cases "lb < mgmt_start_ba ni")
    case False
    then show ?thesis using less.prems by (subst remap_tail_loop.simps) simp
  next
    case True
    have lb: "lb < block_count ni" using True less.prems(3) by order
    then have len: "unat lb < length (block_mapping ni)"
      using nmbm_okD(6) [OF less.prems(1)] by (simp add: word_less_nat_alt)
    have inc: "unat (lb + 1) = Suc (unat lb)" using unat_inc [OF lb] by simp
    have again: "post (remap_tail_loop (ni1\<lparr>data_block_count := data_block_count ni1 + 1\<rparr>) (lb + 1)) (\<lambda>ni'. nmbm_ok ni' \<and> all_mapped ni')"
      if ok: "nmbm_ok ni1" and m: "mapped_result ni lb (True, ni1)" for ni1
    proof -
      from m obtain pb where pb: "pb \<le> mapping_blocks_top_ba ni" and e: "ni1 = ni\<lparr>block_mapping := (block_mapping ni)[unat lb := pb],
           mapping_blocks_top_ba := mapping_blocks_top_ba ni - 1, block_mapping_changed := block_mapping_changed ni + 1\<rparr>"
        by (auto simp: mapped_result_def)
      have "pb < block_count ni" using pb nmbm_okD(8) [OF less.prems(1)] by order
      then have "all_mapped (ni1\<lparr>data_block_count := lb + 1\<rparr>)"
        using less.prems(2,4) len by (auto simp: all_mapped_def e inc less_Suc_eq)
      moreover have "lb + 1 \<le> block_count ni" using lb inc by (simp add: word_less_nat_alt word_le_nat_alt)
      moreover have "unat (mgmt_start_ba ni) - unat (lb + 1) < unat (mgmt_start_ba ni) - unat lb"
        using True inc by (simp add: word_less_nat_alt)
      ultimately show ?thesis using less.prems ok
        by (intro less.hyps) (simp_all add: e nmbm_ok_sets)
    qed
    have stop: "all_mapped ni1" if "mapped_result ni lb (False, ni1)" for ni1
      using that less.prems(2) by (auto simp: mapped_result_def all_mapped_def upd_cong)
    show ?thesis
      by (subst remap_tail_loop.simps)
        (auto simp: True intro!: post_mono [OF nmbm_map_block_post [OF less.prems(1) len]] again stop)
  qed
qed

lemma create_info_table_post:
  assumes "mapped ni" and "mgmt_start_ba ni < signature_ba ni" and "signature_ba ni < block_count ni"
  shows "post (nmbm_create_info_table ni) (\<lambda>(r, ni'). r \<longrightarrow> nmbm_ok ni' \<and> all_mapped ni' \<and>
    (protected ni' \<or> block_state_changed ni' = 0 \<and> block_mapping_changed ni' = 0))"
proof -
  note m = assms(1) [unfolded mapped_def]
  have walk: "post (nmbm_block_walk ni False (signature_ba ni) 1 (mgmt_start_ba ni))
      (\<lambda>r. case r of None \<Rightarrow> True | Some x \<Rightarrow> x < block_count ni)"
  proof -
    have "nmbm_block_walk ni False (signature_ba ni) 1 (mgmt_start_ba ni) = walk_desc_loop ni (signature_ba ni) 1 (mgmt_start_ba ni)"
      using m by (auto simp: nmbm_block_walk_def nmbm_block_walk_desc_def simp flip: not_less)
    then show ?thesis
      using assms(3) m by (simp, intro post_mono [OF walk_desc_loop_post])
        (auto intro: state_ok_table order.strict_trans1 split: option.splits)
  qed
  have built: "post (remap_tail_loop n2 (data_block_count n2)) (\<lambda>n3. post (nmbm_update_info_table n3) (\<lambda>(r, ni'). r \<longrightarrow>
      nmbm_ok ni' \<and> all_mapped ni' \<and> (protected ni' \<or> block_state_changed ni' = 0 \<and> block_mapping_changed ni' = 0)))"
    if "maintained n1 n (True, n2)" "n1 = ni\<lparr>mapping_blocks_top_ba := topb\<rparr>" for n1 n n2 topb
  proof -
    have u: "upd n1 n2" and g: "mgmt_ok n2" "placed n2" using that(1) by (simp_all add: maintained_def run_def)
    have "mapping_ok n2" "data_block_count n2 \<le> block_count n2" "mgmt_start_ba n2 \<le> block_count n2" "all_mapped n2"
      using m by (auto simp: mapping_ok_def all_mapped_def upd_cong [OF u] that(2))
    then have "nmbm_ok n2" using g by (simp add: nmbm_ok_def placed_layout)
    then show ?thesis
      using \<open>all_mapped n2\<close> \<open>mgmt_start_ba n2 \<le> block_count n2\<close>
      by (intro post_mono [OF remap_tail_post])
        (auto intro!: post_mono [OF update_ok_post] dest: all_mapped_upd)
  qed
  have tables: "post (nmbm_generate_info_table_cache n1) (\<lambda>(_, n2). post (nmbm_rebuild_info_table n2)
      (maintained n1 (nonbad (block_count n1) (block_state n1))))"
    if "n1 = ni\<lparr>mapping_blocks_top_ba := topb\<rparr>" "topb < block_count ni" for n1 topb
  proof -
    have "mgmt_ok n1" using m that by (auto simp: mgmt_ok_def state_ok_def tables_ok_def chip_ok_def)
    from run_start [OF this] show ?thesis
      by (intro post_mono [OF generate_run]) (auto intro: nmbm_rebuild_info_table_post)
  qed
  show ?thesis
    unfolding nmbm_create_info_table_def
    by (rule post_bindI [OF walk])
      (auto split: option.splits intro!: post_mono [OF tables [OF refl]] elim!: post_mono built [OF _ refl])
qed

lemma of_nat_block:
  assumes "i < unat (n :: u32)"
  shows "(of_nat i :: u32) < n"
  using assms unsigned_less [of n, where ?'a = nat] by (simp add: word_less_nat_alt unat_of_nat)

lemma laid_outD:
  assumes "laid_out ni"
  shows "state_ok ni" and "tables_ok ni" and "unat (info_table_spare_blocks ni) < 2 ^ 31" and "16 \<le> unat (block_count ni)"
    and "unat (block_count ni) \<le> 2 ^ 26" and "block_count ni = ucast (drop_bit (unat (erasesize_shift ni)) (nsize (lower ni)))"
  using assms unfolding laid_out_def by blast+

lemma mapped_upd: "upd ni ni' \<Longrightarrow> mapped ni \<Longrightarrow> mapped ni'"
  by (simp add: mapped_def upd_state_ok upd_tables_ok upd_cong mapping_ok_def all_mapped_upd)

lemma mapped_sets [simp]:
  "mapped (ni\<lparr>signature := s\<rparr>) = mapped ni" "mapped (ni\<lparr>signature_ba := b\<rparr>) = mapped ni"
  by (simp_all add: mapped_def state_ok_def chip_ok_def tables_ok_def mapping_ok_def all_mapped_def)

lemma set_nonbad_list: "e \<in> set (nonbad_list bs i (unat (n :: u32))) \<Longrightarrow> e < n"
  by (auto simp: nonbad_list_def intro: of_nat_block)

lemma build_mapped:
  assumes "state_ok ni" and "tables_ok ni" and "unat (info_table_spare_blocks ni) < 2 ^ 31"
    and "0 < mgmt_start_ba ni" and "mgmt_start_ba ni < block_count ni"
  shows "post (nmbm_build_mapping_table ni) (\<lambda>ni'. mapped ni' \<and> lower ni' = lower ni \<and> signature ni' = signature ni)"
proof -
  let ?L = "nonbad_list (block_state ni) 0 (unat (mgmt_start_ba ni))"
  have len: "length (block_mapping ni) = unat (block_count ni)" using assms(2) by (simp add: tables_ok_def)
  have le: "length ?L \<le> unat (mgmt_start_ba ni)" using nonbad_list_length [of "block_state ni" 0] by simp
  have lt: "unat (mgmt_start_ba ni) < unat (block_count ni)" using assms(5) by (simp add: word_less_nat_alt)
  have "length ?L < 2 ^ 32" using le unsigned_less [of "mgmt_start_ba ni", where ?'a = nat] by simp
  then have n: "unat (of_nat (length ?L) :: u32) = length ?L" by (simp add: unat_of_nat)
  have in_L: "e < block_count ni" if "e \<in> set ?L" for e using set_nonbad_list [OF that] assms(5) by order
  let ?ni = "ni\<lparr>data_block_count := of_nat (length ?L), block_mapping := ?L @ replicate (unat (block_count ni) - length ?L) (- 1)\<rparr>"
  have "tables_ok ?ni" using assms(2) le lt len by (simp add: tables_ok_def)
  moreover have "state_ok ?ni" using assms(1) by (simp add: state_ok_def chip_ok_def)
  moreover have "mapping_ok ?ni" using in_L by (auto simp: mapping_ok_def)
  moreover have "all_mapped ?ni" using in_L by (auto simp: all_mapped_def n nth_append)
  ultimately have "mapped ?ni" using assms le by (simp add: mapped_def n word_le_nat_alt)
  moreover have "mgmt_start_ba ni \<le> block_count ni" using assms(5) by order
  ultimately show ?thesis by (simp add: nmbm_build_mapping_table_eq [OF assms(1) len])
qed

text \<open>The signature with its checksum still is an image of forty-eight bytes.\<close>

lemma signature_checksum:
  assumes "length (sig_padding (signature ni)) = 7"
  shows "post (nmbm_update_checksum f (signature_bytes (new_signature ni)))
    (\<lambda>sb. length (sig_padding (signature_of_bytes sb)) = 7)"
proof -
  let ?d = "signature_bytes (new_signature ni)"
  have len: "length ?d = 48" using assms by (simp add: new_signature_def)
  have "take 16 ?d = header_bytes (sig_header (new_signature ni))" by (simp add: signature_bytes_def)
  then have "hsize (header_of_bytes (take 16 ?d)) = 48" by (simp add: new_signature_def)
  then obtain c where "nmbm_update_checksum f ?d = Some (take 12 ?d @ bytes_of_u32 c @ drop 16 ?d)"
    using update_checksum_total [of ?d f] len by auto
  then show ?thesis using len by (simp add: signature_of_bytes_def)
qed

definition new_instance :: "bool \<times> 'c nmbm_instance \<Rightarrow> bool" where
  "new_instance = (\<lambda>(r, ni). r \<longrightarrow> nmbm_ok ni \<and> all_mapped ni \<and>
     (protected ni \<or> block_state_changed ni = 0 \<and> block_mapping_changed ni = 0))"

lemma create_new_post:
  assumes l: "laid_out ni" and "\<not> read_only (lower ni)" and "0 < unat (max_ratio (lower ni))" "unat (max_ratio (lower ni)) < 15"
    and "length (sig_padding (signature ni)) = 7"
  shows "post (nmbm_create_new ni) new_instance"
proof -
  let ?n0 = "ni\<lparr>mgmt_start_ba := mgmt_boundary ni\<rparr>"
  have s0: "state_ok ?n0" "tables_ok ?n0" using laid_outD(1,2) [OF l] by (auto simp: state_ok_def chip_ok_def tables_ok_def)
  have scan: "post (nmbm_scan_badblocks ?n0) (\<lambda>n1. state_ok n1 \<and> tables_ok n1 \<and> unat (info_table_spare_blocks n1) < 2 ^ 31 \<and>
      0 < mgmt_start_ba n1 \<and> mgmt_start_ba n1 < block_count n1 \<and> lower n1 = lower ni \<and> signature n1 = signature ni)"
    using laid_outD [OF l] boundary_bounds [OF laid_outD(4,5) [OF l] assms(3,4)]
    by (intro post_mono [OF nmbm_scan_badblocks_post [OF s0(1)]], drule_tac wear_upd)
      (simp add: upd_state_ok [OF _ s0(1)] upd_tables_ok [OF _ s0(2)] upd_cong)
  have writes: "post (nmbm_write_signature n2 (mgmt_start_ba n2) sg) (\<lambda>(r, n3). \<forall>ba. r = Some ba \<longrightarrow>
      post (nmbm_create_info_table (n3\<lparr>signature_ba := ba\<rparr>)) new_instance)"
    if m: "mapped n2" and p: "length (sig_padding sg) = 7" for n2 sg
  proof -
    have "state_ok n2" "0 < block_count n2" using m by (auto simp: mapped_def intro: le_less_trans [OF word_zero_le])
    from nmbm_write_signature_post [OF this p] show ?thesis
    proof (rule post_mono, clarify)
      fix r n3 ba
      assume t: "touched {mgmt_start_ba n2<..} n2 n3" and "\<forall>b. Some ba = Some b \<longrightarrow> mgmt_start_ba n2 < b \<and> b < block_count n2 \<and> good (block_state n3) b"
      moreover have u: "upd n2 n3" by (rule wear_upd [OF touched_wear [OF t]])
      ultimately show "post (nmbm_create_info_table (n3\<lparr>signature_ba := ba\<rparr>)) new_instance"
        using mapped_upd [OF u m] unfolding new_instance_def
        by (intro create_info_table_post) (simp_all add: upd_cong [OF u])
    qed
  qed
  have finish: "post (nmbm_update_checksum f (signature_bytes (new_signature n2))) (\<lambda>sb.
      let n3 = n2\<lparr>signature := signature_of_bytes sb\<rparr> in
      post (nmbm_write_signature n3 (mgmt_start_ba n3) (signature n3)) (\<lambda>(r, n4). \<forall>ba. r = Some ba \<longrightarrow>
        post (nmbm_create_info_table (n4\<lparr>signature_ba := ba\<rparr>)) new_instance))"
    if "mapped n2" and "length (sig_padding (signature n2)) = 7" for n2 f
    using that writes [of "n2\<lparr>signature := signature_of_bytes sb\<rparr>" "signature_of_bytes sb" for sb]
    by (intro post_mono [OF signature_checksum]) (simp_all add: Let_def)
  show ?thesis
    unfolding nmbm_create_new_def
    apply (rule post_bindI [OF scan])
    apply (rule post_bindI [OF build_mapped], simp_all)
    apply (rule post_mono [OF finish], simp, simp add: assms)
    apply (auto simp: Let_def assms(2) new_instance_def split: option.splits elim!: post_mono)
    done
qed

section \<open>Attaching\<close>

lemma laid_out_upd:
  assumes "upd ni ni'" and "laid_out ni"
  shows "laid_out ni'"
  using laid_outD [OF assms(2)] upd_state_ok [OF assms(1)] upd_tables_ok [OF assms(1)]
  unfolding laid_out_def upd_cong [OF assms(1)] by blast

lemma attach_new_post:
  assumes check: "nmbm_check_lower_members nld = (True, nld')" and "driver_ok nld" and "sizes_fit nld"
    and "\<not> read_only nld" and create: "nflags nld AND NMBM_F_CREATE \<noteq> 0" and er: "erased_chip nld (arg ni)"
    and "length mem = unat (nmbm_calc_structure_size 0 nld')" and "length (sig_padding (signature ni)) = 7"
  shows "post (nmbm_attach (Some nld) (Some ni) mem) (\<lambda>(ret, pnld, pni). pnld = Some nld' \<and> (\<exists>ni'. pni = Some ni' \<and>
    (ret = 0 \<or> ret = - ENODEV) \<and> new_instance (ret = 0, ni')))"
proof -
  obtain r where r: "nld' = nld\<lparr>max_ratio := r\<rparr>" using check_members_ok(6) [OF check] by blast
  note ratio = check_members_ok(4,5) [OF check]
  have er': "erased_chip nld' (arg ni)" using er by (simp add: erased_chip_def reads_erased_def r)
  let ?n0 = "ni\<lparr>log_display_level := NMBM_LOG_INFO, lower := nld'\<rparr>"
  have init: "post (nmbm_init_structure ?n0 mem) (\<lambda>n1. laid_out n1 \<and> lower n1 = nld' \<and> arg n1 = arg ni \<and> signature n1 = signature ni)"
    by (rule post_mono [OF init_structure_post [OF assms(1-3,7)]]) simp_all
  have find: "post (nmbm_find_signature n1) (\<lambda>(r, n2). r = None \<and> laid_out n2 \<and> lower n2 = nld' \<and> signature n2 = signature ni)"
    if "laid_out n1 \<and> lower n1 = nld' \<and> arg n1 = arg ni \<and> signature n1 = signature ni" for n1
  proof -
    have "post (nmbm_find_signature n1) (\<lambda>(r, n2). r = None \<and> dev_le n1 n2)"
      using that er' ratio laid_outD [of n1] by (intro find_signature_erased) (auto intro: state_ok_chip)
    then show ?thesis
    proof (rule post_mono, clarify)
      fix n2 assume "dev_le n1 n2"
      then have u: "upd n1 n2" by (intro wear_upd dev_le_wear)
      show "None = None \<and> laid_out n2 \<and> lower n2 = nld' \<and> signature n2 = signature ni"
        using that laid_out_upd [OF u] by (simp add: upd_cong [OF u])
    qed
  qed
  have new: "post (nmbm_create_new n2) new_instance"
    if "laid_out n2 \<and> lower n2 = nld' \<and> signature n2 = signature ni" for n2
    using that ratio assms(4,8) by (intro create_new_post) (simp_all add: r read_only_def)
  have "nflags nld' AND NMBM_F_CREATE \<noteq> 0" using create by (simp add: r)
  then show ?thesis
    unfolding nmbm_attach_def
    by (auto simp: check new_instance_def intro!: post_mono [OF init] post_mono [OF find] post_mono [OF new])
qed

end
