(* ===== verification/Nmbm_Properties.thy ===== *)
theory Nmbm_Properties
  imports Nmbm_Sample Nmbm_Attach_Spec
begin

text \<open>
  The properties of the NMBM core, each with an instance on the chip of \<open>Nmbm_Sample\<close>.
  They are read off the component theories, where the invariants and the lemmas are.
\<close>

section \<open>Logic blocks\<close>

text \<open>C1: Erasing a logic block always returns and stays in bounds.  It keeps the invariant of
  the instance; after success the block is mapped to a physical block that is not recorded bad,
  after failure (\<open>-EIO\<close>) it has no mapping; no other mapping changes, and a physical block's
  recorded state only changes to bad.\<close>

theorem erase_logic_block_correct:
  assumes "nmbm_ok ni" and "unat lb < length (block_mapping ni)"
  shows "post (nmbm_erase_logic_block ni lb) (\<lambda>(r, ni'). nmbm_ok ni' \<and> same_device ni ni' \<and>
     wears (block_count ni) (block_state ni) (block_state ni') \<and>
     (\<forall>i. i \<noteq> unat lb \<longrightarrow> block_mapping ni' ! i = block_mapping ni ! i) \<and>
     (if r = 0 then \<not> block_mapping ni' ! unat lb <s 0 \<and>
         st_of (block_state ni') (block_mapping ni' ! unat lb) \<noteq> BLOCK_ST_BAD
      else r = - EIO \<and> block_mapping ni' ! unat lb <s 0))"
  using nmbm_erase_logic_block_post [OF assms] by (simp add: erased_def)

lemma erase_logic_block_sample: "\<exists>r ni'. nmbm_erase_logic_block sample 5 = Some (r, ni') \<and> nmbm_ok ni' \<and> same_device sample ni'"
  using erase_logic_block_correct [of sample 5] by (auto simp: post_iff)

text \<open>C3: Updating the info tables always terminates, although every round may find new bad
  blocks.  It reports success only when both change counters are zero (or the device was already
  protected), and otherwise it leaves the device protected; the invariant holds in both cases.\<close>

theorem update_info_table_terminates:
  assumes "nmbm_ok ni"
  shows "post (nmbm_update_info_table ni) (\<lambda>(r, ni'). nmbm_ok ni' \<and> upd ni ni' \<and>
     (r \<longrightarrow> ni' = ni \<and> protected ni \<or> block_state_changed ni' = 0 \<and> block_mapping_changed ni' = 0) \<and>
     (\<not> r \<longrightarrow> protected ni'))"
  by (rule update_ok_post [OF assms])

lemma update_info_table_sample: "\<exists>r ni'. nmbm_update_info_table sample = Some (r, ni') \<and> nmbm_ok ni' \<and> upd sample ni'"
  using update_info_table_terminates [of sample] by (auto simp: post_iff)

text \<open>C4: When the lower device reads its pages without error, reading a range of logic
  addresses whose blocks are mapped to blocks that are not bad returns exactly the bytes at
  these addresses: byte \<open>x\<close> of the range is the byte of the mapped page.  The rest of the buffer
  is untouched, and the instance changes in its page cache only.\<close>

theorem read_range_bytes:
  assumes "nmbm_ok ni" and "unat addr + unat sz < 2 ^ 64" and "unat sz \<le> length data"
    and "reads_pages (lower ni) page" and "readable ni (unat addr) (unat addr + unat sz)"
    and "\<not> protected ni" and "sz \<noteq> 0"
    and "unat addr + unat sz \<le> unat (data_block_count ni) * unat (erasesize (lower ni))"
  shows "\<exists>pc. nmbm_read_range (Some ni) addr sz data mode = Some (0, Some sz,
    map (logic_byte ni page) [unat addr..<unat addr + unat sz] @ drop (unat sz) data,
    Some (ni\<lparr>page_cache := pc\<rparr>))"
  using read_range_value [OF assms, of mode] by (auto simp: nmbm_read_range_def post_iff)

lemma read_range_bytes_sample: "\<exists>pc. nmbm_read_range (Some sample) 100 60 (replicate 64 0) NMBM_MODE_PLACE_OOB =
   Some (0, Some 60, map (logic_byte sample chip_page) [unat (100::u64)..<unat (100::u64) + unat (60::u64)] @
     drop (unat (60::u64)) (replicate 64 0), Some (sample\<lparr>page_cache := pc\<rparr>))"
  by (rule read_range_bytes [OF sample_ok _ _ _ sample_readable]) (simp, simp, simp add: sample_reads, simp, simp, simp, simp)

text \<open>C5: A logic block that needs a new physical block gets the highest good block between the
  info tables and the top of the spare blocks; when the mapping fails, no good block is left
  there, and the mapping of no block has changed.\<close>

theorem map_block_highest:
  assumes "nmbm_ok ni" and "unat lb < length (block_mapping ni)"
  shows "post (nmbm_map_block ni lb) (\<lambda>(r, ni'). nmbm_ok ni' \<and>
     (if r then \<exists>pb. mapping_blocks_ba ni < pb \<and> pb \<le> mapping_blocks_top_ba ni \<and> good (block_state ni) pb \<and>
         goods_below (block_state ni) pb (mapping_blocks_top_ba ni) = 0 \<and>
         ni' = ni\<lparr>block_mapping := (block_mapping ni)[unat lb := pb],
           mapping_blocks_top_ba := mapping_blocks_top_ba ni - 1,
           block_mapping_changed := block_mapping_changed ni + 1\<rparr>
      else goods_below (block_state ni) (mapping_blocks_ba ni) (mapping_blocks_top_ba ni) = 0 \<and>
         block_mapping ni' = block_mapping ni))"
proof (rule post_mono [OF nmbm_map_block_post [OF assms]], clarify)
  fix r ni'
  assume "nmbm_ok (snd (r, ni'))" and m: "mapped_result ni lb (r, ni')"
  moreover have "block_mapping ni' = block_mapping ni" if "\<not> r"
    using m that by (auto simp: mapped_result_def upd_cong)
  ultimately show "nmbm_ok ni' \<and>
     (if r then \<exists>pb. mapping_blocks_ba ni < pb \<and> pb \<le> mapping_blocks_top_ba ni \<and> good (block_state ni) pb \<and>
         goods_below (block_state ni) pb (mapping_blocks_top_ba ni) = 0 \<and>
         ni' = ni\<lparr>block_mapping := (block_mapping ni)[unat lb := pb],
           mapping_blocks_top_ba := mapping_blocks_top_ba ni - 1,
           block_mapping_changed := block_mapping_changed ni + 1\<rparr>
      else goods_below (block_state ni) (mapping_blocks_ba ni) (mapping_blocks_top_ba ni) = 0 \<and>
         block_mapping ni' = block_mapping ni)"
    by (simp add: mapped_result_def)
qed

lemma map_block_sample: "\<exists>r ni'. nmbm_map_block sample 5 = Some (r, ni') \<and> nmbm_ok ni'"
  using map_block_highest [of sample 5] by (auto simp: post_iff)

section \<open>The interface\<close>





text \<open>C8: Marking a logic block bad is total and keeps the invariant; it removes the mapping of
  the addressed block and of no other, or refuses and changes nothing.\<close>

theorem mark_bad_block_unmaps:
  assumes "nmbm_ok ni"
  shows "post (nmbm_mark_bad_block (Some ni) addr) (\<lambda>(r, pni). \<exists>ni'. pni = Some ni' \<and> nmbm_ok ni' \<and> same_device ni ni' \<and>
    (r = 0 \<and> block_mapping ni' ! unat (addr2ba ni addr) <s 0 \<or> ni' = ni \<and> (r = - EROFS \<or> r = - EINVAL)) \<and>
    (\<forall>i. i \<noteq> unat (addr2ba ni addr) \<longrightarrow> block_mapping ni' ! i = block_mapping ni ! i))"
  using mark_logic_bad_post [OF assms, of addr] by (fastforce simp: nmbm_mark_bad_block_def post_iff)

lemma mark_bad_block_sample: "\<exists>r ni'. nmbm_mark_bad_block (Some sample) 640 = Some (r, Some ni') \<and> nmbm_ok ni'"
  using mark_bad_block_unmaps [of sample 640] by (auto simp: post_iff)



section \<open>Management data\<close>

text \<open>C10: Writing management data to the blocks from \<open>ba\<close> to before \<open>limit\<close> is total.  On
  success the good blocks passed are exactly one per erase-block-sized chunk, the first of them
  is the reported start and the reported end lies behind the last; it fails only when fewer good
  blocks than chunks are left.  Only blocks of the range change their state, and only to bad.\<close>

theorem write_mgmt_range_blocks:
  assumes "state_ok ni" and "limit \<le> block_count ni" and "unat sz \<le> length data" and "0 < sz"
  shows "post (nmbm_write_mgmt_range ni ba limit data sz) (\<lambda>(r, ni'). touched {ba..<limit} ni ni' \<and>
    (let need = chunks (unat (erasesize (lower ni))) (unat sz); bs = block_state ni' in
     case r of
       Some (s, e) \<Rightarrow> ba \<le> s \<and> s < e \<and> e \<le> limit \<and> good bs s \<and> goods bs ba s = 0 \<and> goods bs ba e = need
     | None \<Rightarrow> goods bs ba limit < need))"
proof -
  have k: "0 < chunks (unat (erasesize (lower ni))) (unat sz)"
    using assms(4) chip_ok_geometry(2) [OF state_ok_chip [OF assms(1)]]
    by (intro chunks_pos) (simp_all add: word_less_nat_alt)
  have "post (nmbm_write_mgmt_range ni ba limit data sz) (\<lambda>(r, ni'). touched {ba..<limit} ni ni' \<and>
      mgmt_result (block_state ni') ba limit (chunks (unat (erasesize (lower ni))) (unat sz)) None r)"
    unfolding nmbm_write_mgmt_range_def using assms by (intro write_mgmt_loop_post) auto
  then show ?thesis
    by (rule post_mono) (use k in \<open>auto simp: mgmt_result_def Let_def split: option.splits\<close>)
qed

lemma write_mgmt_range_sample: "\<exists>r ni'. nmbm_write_mgmt_range sample 48 62 (replicate 320 7) 320 = Some (r, ni') \<and> touched {48..<62} sample ni'"
  using write_mgmt_range_blocks [of sample 62 320 "replicate 320 7" 48] nmbm_okD(4) [OF sample_ok]
  by (auto simp: post_iff)

text \<open>C11: The generated info table image holds the block state table and the block mapping
  table at the recorded offsets, and it passes the check of its header.\<close>

theorem generated_image_checks:
  assumes "tables_ok ni" and "crc_chains (os_crc32_le (lower ni))"
  shows "\<exists>changed it c. nmbm_generate_info_table_cache ni =
      Some (changed, ni\<lparr>info_table := it, info_table_cache := c\<rparr>) \<and>
    mem_get c (unat (state_table_off it)) (unat (state_table_size ni)) = Some (bytes_of_words (block_state ni)) \<and>
    mem_get c (unat (mapping_table_off it)) (unat (mapping_table_size ni)) = Some (bytes_of_words (block_mapping ni)) \<and>
    nmbm_check_header (os_crc32_le (lower ni)) c (info_table_size ni) = Some True"
  using generate_image [OF assms(1)] assms(2) by (fastforce simp: image_of_def)

lemma generated_image_sample: "\<exists>changed it c. nmbm_generate_info_table_cache sample =
    Some (changed, sample\<lparr>info_table := it, info_table_cache := c\<rparr>) \<and>
    nmbm_check_header (os_crc32_le sample_lower) c 320 = Some True"
  using generated_image_checks [of sample] by (auto simp: sample_crc sample_tables_ok)

text \<open>A structure whose checksum was updated passes the check of its header.\<close>

theorem checksum_update_check:
  assumes "crc_chains f" and "nmbm_update_checksum f data = Some data'"
    and "16 \<le> unat (hsize (header_of_bytes (take 16 data)))" and "hsize (header_of_bytes (take 16 data)) \<le> sz"
  shows "nmbm_check_header f data' sz = Some True"
  by (rule update_checksum_check [OF assms])

lemma checksum_update_sample:
  "nmbm_check_header (\<lambda>s bs. s + of_nat (sum_list (map unat bs)))
     (the (nmbm_update_checksum (\<lambda>s bs. s + of_nat (sum_list (map unat bs)))
        (header_bytes \<lparr>magic = 1, version = 2, hsize = 16, checksum = 0\<rparr>))) 16 = Some True"
proof -
  have "\<exists>d. nmbm_update_checksum (\<lambda>s bs. s + of_nat (sum_list (map unat bs)))
        (header_bytes \<lparr>magic = 1, version = 2, hsize = 16, checksum = 0\<rparr>) = Some d"
    using update_checksum_total [of "header_bytes \<lparr>magic = 1, version = 2, hsize = 16, checksum = 0\<rparr>"] by auto
  then obtain d where d: "nmbm_update_checksum (\<lambda>s bs. s + of_nat (sum_list (map unat bs)))
        (header_bytes \<lparr>magic = 1, version = 2, hsize = 16, checksum = 0\<rparr>) = Some d" ..
  show ?thesis
    using checksum_update_check [OF _ d] sample_crc by (simp add: d sample_lower_def)
qed

section \<open>Bookkeeping\<close>

text \<open>Recording the state of a block changes the state of this block and of no other; the
  result tells whether it changed, and the change counter counts it.\<close>

theorem set_block_state_laws:
  assumes "unat ba < 16 * length (block_state ni)"
  shows "\<exists>c ni'. nmbm_set_block_state ni ba v = Some (c, ni') \<and>
    nmbm_get_block_state ni' ba = Some (v AND BLOCK_ST_MASK) \<and>
    (\<forall>b. b \<noteq> ba \<longrightarrow> nmbm_get_block_state ni' b = nmbm_get_block_state ni b) \<and>
    (c \<longleftrightarrow> nmbm_get_block_state ni ba \<noteq> Some (v AND BLOCK_ST_MASK)) \<and>
    block_state_changed ni' = block_state_changed ni + (if c then 1 else 0)"
proof -
  have "in_table (block_state ni) ba" using assms by (simp add: in_table_def less_mult_imp_div_less mult.commute)
  then show ?thesis by (auto simp: set_state)
qed

lemma set_block_state_sample: "\<exists>c ni'. nmbm_set_block_state sample 33 BLOCK_ST_NEED_REMAP = Some (c, ni') \<and> nmbm_get_block_state ni' 33 = Some 2"
  using set_block_state_laws [of 33 sample BLOCK_ST_NEED_REMAP]
  by (auto simp del: get_state)

text \<open>The upward walk returns the block after which \<open>count\<close> good blocks were skipped: a good
  block below the limit with exactly \<open>count\<close> good blocks between the start and it; it fails only
  when the range has no more than \<open>count\<close> good blocks.\<close>

theorem block_walk_asc_finds:
  assumes "state_ok ni" and "0 < block_count ni" and "unat count < 2 ^ 31"
  shows "post (nmbm_block_walk_asc ni ba count limit) (\<lambda>r.
    let lim = (if limit \<ge> block_count ni then block_count ni - 1 else limit) in
    case r of
      Some x \<Rightarrow> ba \<le> x \<and> x < lim \<and> good (block_state ni) x \<and> goods (block_state ni) ba x = unat count
    | None \<Rightarrow> goods (block_state ni) ba lim \<le> unat count)"
proof -
  let ?lim = "if limit \<ge> block_count ni then block_count ni - 1 else limit"
  have "?lim < block_count ni" using assms(2) unat_dec [OF assms(2)] by (auto simp: word_less_nat_alt not_le)
  then show ?thesis
    unfolding nmbm_block_walk_asc_def Let_def
    by (intro walk_asc_loop_post) (use assms(3) in \<open>auto intro: state_ok_table [OF assms(1)] order.strict_trans\<close>)
qed

lemma block_walk_asc_sample: "\<exists>r. nmbm_block_walk_asc sample 50 3 60 = Some r"
  using block_walk_asc_finds [of sample 3 50 60] nmbm_okD(4) [OF sample_ok] by (auto simp: post_iff)

text \<open>The downward walk, likewise, between the start and a limit of the chip.\<close>

theorem block_walk_desc_finds:
  assumes "state_ok ni" and "ba < block_count ni" and "limit < block_count ni" and "unat count < 2 ^ 31"
  shows "post (nmbm_block_walk_desc ni ba count limit) (\<lambda>r. case r of
      Some x \<Rightarrow> limit < x \<and> x \<le> ba \<and> good (block_state ni) x \<and> goods_below (block_state ni) x ba = unat count
    | None \<Rightarrow> goods_below (block_state ni) limit ba \<le> unat count)"
  using assms unfolding nmbm_block_walk_desc_def
  by (auto intro!: walk_desc_loop_post intro: state_ok_table [OF assms(1)] order.strict_trans1)

lemma block_walk_desc_sample: "\<exists>r. nmbm_block_walk_desc sample 62 3 50 = Some r"
  using block_walk_desc_finds [of sample 62 50 3] nmbm_okD(4) [OF sample_ok] by (auto simp: post_iff)

text \<open>The initial mapping maps the logic blocks, in order, to the blocks below the management
  area that are not bad, and leaves all other entries without a mapping.\<close>

theorem initial_mapping:
  assumes "state_ok ni" and "length (block_mapping ni) = unat (block_count ni)" and "mgmt_start_ba ni \<le> block_count ni"
  shows "nmbm_build_mapping_table ni = (let L = nonbad_list (block_state ni) 0 (unat (mgmt_start_ba ni)) in
    Some (ni\<lparr>data_block_count := of_nat (length L),
      block_mapping := L @ replicate (unat (block_count ni) - length L) (- 1)\<rparr>))"
  unfolding Let_def by (rule nmbm_build_mapping_table_eq [OF assms])

lemma initial_mapping_sample: "\<exists>ni'. nmbm_build_mapping_table sample = Some ni' \<and> length (block_mapping ni') \<ge> 16"
  using initial_mapping [of sample] nmbm_okD(4) [OF sample_ok] by (auto simp: Let_def)

text \<open>Block numbers and addresses convert into each other: every address in a block of the
  chip has this block's number.\<close>

theorem address_round_trip:
  assumes "chip_ok ni" and "unat off < unat (erasesize (lower ni))"
  shows "addr2ba ni (ba2addr ni b + off) = b"
proof -
  have e: "unat (erasesize (lower ni)) = 2 ^ unat (erasesize_shift ni)" by (rule chip_ok_geometry(2) [OF assms(1)])
  have k: "unat (erasesize_shift ni) \<le> 31" by (rule eshift_bound [OF assms(1)])
  have "unat b * 2 ^ unat (erasesize_shift ni) + unat off < (unat b + 1) * 2 ^ unat (erasesize_shift ni)"
    using assms(2) e by simp
  also have "\<dots> \<le> 2 ^ 32 * 2 ^ 31"
    using unsigned_less [of b, where ?'a = nat] power_increasing [OF k, of "2::nat"] by (intro mult_mono) auto
  finally have "unat b * 2 ^ unat (erasesize_shift ni) + unat off < 2 ^ 64" by simp
  then have s: "unat (ba2addr ni b + off) = unat b * 2 ^ unat (erasesize_shift ni) + unat off"
    using ba2addr_eq [OF assms(1), of b] e by (simp add: unat_add_no_wrap)
  have "unat (drop_bit (unat (erasesize_shift ni)) (ba2addr ni b + off)) = unat b"
    using assms(2) e by (simp only: unat_drop_bit_eq s) (simp add: drop_bit_eq_div)
  then show ?thesis
    using unsigned_less [of b, where ?'a = nat] unfolding addr2ba_def word_unat_eq_iff by (subst unat_u64_u32) simp_all
qed

lemma address_round_trip_sample: "addr2ba sample (ba2addr sample 17 + 100) = 17"
  by (rule address_round_trip) simp_all

section \<open>Attaching\<close>


lemma sample_erased: "erased_chip sample_lower (\<lambda>_. [])"
proof -
  let ?c = "(\<lambda>_. []) :: chip"
  have read: "d' = map_option (\<lambda>b. take (length b) (replicate 32 0xff @ drop 32 b)) d \<and> a' = ?c"
    if "chip_read ?c addr d ob m = (r, d', ob', a')" for addr d ob m r d' ob' a'
    using that by (auto simp: chip_read_def chip_page_def)
  have page: "take 32 p = replicate 32 (0xff :: u8)"
    if "Some p = map_option (\<lambda>b. take (length b) (replicate 32 0xff @ drop 32 b)) d" and "room 32 d" for p d
  proof (cases d)
    case (Some b)
    then have p: "p = take (length b) (replicate 32 0xff @ drop 32 b)" and "32 \<le> length b" using that by (simp_all add: room_def)
    then show ?thesis unfolding p by (simp add: min_absorb1)
  qed (use that in simp)
  have ld: "writesize sample_lower = 32" "read_page sample_lower = Some chip_read" "reset_chip sample_lower = None"
    "is_bad_block sample_lower = Some (\<lambda>c a. (0, c))" by (simp_all add: sample_lower_def)
  have "reads_erased sample_lower (\<lambda>c. c = ?c)"
    unfolding reads_erased_def ld
  proof (intro allI impI conjI)
    fix a f addr d ob m r d' ob' a' p
    assume "a = ?c" "Some chip_read = Some f" "f a addr d ob m = (r, d', ob', a')"
    then have rd: "chip_read ?c addr d ob m = (r, d', ob', a')" by simp
    show "a' = ?c" using read [OF rd] ..
    show "take (unat (32 :: u32)) p = replicate (unat (32 :: u32)) 0xff" if "0 \<le> r \<and> room 32 d" "d' = Some p"
      using page [of p d] read [OF rd] that by simp
  qed auto
  then show ?thesis unfolding erased_chip_def by (intro exI [of _ "\<lambda>c. c = ?c"] conjI refl)
qed

end
