(* ===== verification/Nmbm_Mtd.thy ===== *)
theory Nmbm_Mtd
  imports Nmbm_Api
begin

text \<open>
  The MTD layer on top of NMBM (\<open>nmbm-mtd.c\<close>): the callbacks through which NMBM reaches the
  lower MTD device, the locking of the device, the operations of the upper MTD device, and the
  part of probing that builds the lower device and attaches NMBM.

  The MTD core of the kernel is outside the repository: \<open>'d mtd_core\<close> holds the functions of
  it that the code calls, on an abstract state \<open>'d\<close> of the lower device.  In C the argument of
  the callbacks is the \<open>struct nmbm_mtd\<close> itself; what they change of it is kept in
  \<open>nmbm_arg\<close>, which is the argument of the instance.  \<open>size_t\<close> has 64 bits.
\<close>

section \<open>The MTD core\<close>

abbreviation (input) ENOMEM :: int where "ENOMEM \<equiv> 12"
abbreviation (input) EUCLEAN :: int where "EUCLEAN \<equiv> 117"
abbreviation (input) EPROBE_DEFER :: int where "EPROBE_DEFER \<equiv> 517"
abbreviation (input) ENOTSUPP :: int where "ENOTSUPP \<equiv> 524"

datatype mtd_mode = MTD_OPS_PLACE_OOB | MTD_OPS_AUTO_OOB | MTD_OPS_RAW | MTD_OPS_other u32

record mtd_oob_ops =
  ops_mode :: mtd_mode
  ops_len :: u64
  ops_retlen :: u64
  ops_ooblen :: u64
  ops_oobretlen :: u64
  ops_ooboffs :: u32
  ops_datbuf :: "u8 list option"
  ops_oobbuf :: "u8 list option"

record erase_info =
  ei_addr :: u64
  ei_len :: u64
  ei_fail_addr :: u64

record mtd_info =
  mtd_size :: u64
  mtd_erasesize :: u32
  mtd_writesize :: u32
  mtd_writebufsize :: u32
  mtd_oobsize :: u32
  mtd_oobavail :: u32
  mtd_erasesize_shift :: u32
  mtd_writesize_shift :: u32
  mtd_erasesize_mask :: u32
  mtd_writesize_mask :: u32
  mtd_bitflip_threshold :: u32
  mtd_ecc_step_size :: u32
  mtd_ecc_strength :: u32
  mtd_type :: u8
  mtd_flags :: u32

record 'd mtd_core =
  core_read_oob :: "'d \<Rightarrow> u64 \<Rightarrow> mtd_oob_ops \<Rightarrow> int \<times> mtd_oob_ops \<times> 'd"
  core_write_oob :: "'d \<Rightarrow> u64 \<Rightarrow> mtd_oob_ops \<Rightarrow> int \<times> mtd_oob_ops \<times> 'd"
  core_erase :: "'d \<Rightarrow> erase_info \<Rightarrow> int \<times> erase_info \<times> 'd"
  core_block_isbad :: "'d \<Rightarrow> u64 \<Rightarrow> int \<times> 'd"
  core_block_markbad :: "'d \<Rightarrow> u64 \<Rightarrow> int \<times> 'd"
  core_oobavail :: "mtd_info \<Rightarrow> mtd_oob_ops \<Rightarrow> u32"
  core_corrected :: "'d \<Rightarrow> u32"
  core_failed :: "'d \<Rightarrow> u32"

record 'd nmbm_arg =
  lower_dev :: 'd
  upper_corrected :: u32
  upper_failed :: u32

datatype flstate = FL_READY | FL_READING | FL_WRITING | FL_ERASING | FL_PM_SUSPENDED

record 'd nmbm_mtd =
  upper :: mtd_info
  lower_mtd :: mtd_info
  nm_ni :: "'d nmbm_arg nmbm_instance option"
  nm_page_cache :: "u8 list"
  nm_state :: flstate

section \<open>The callbacks of the lower device\<close>

definition mtd_mode_of :: "nmbm_oob_mode \<Rightarrow> mtd_mode option" where
  "mtd_mode_of mode =
     (case mode of
        NMBM_MODE_PLACE_OOB \<Rightarrow> Some MTD_OPS_PLACE_OOB
      | NMBM_MODE_AUTO_OOB \<Rightarrow> Some MTD_OPS_AUTO_OOB
      | NMBM_MODE_RAW \<Rightarrow> Some MTD_OPS_RAW
      | NMBM_MODE_MAX \<Rightarrow> None)"

text \<open>The request both page callbacks build.\<close>

definition page_ops :: "'d mtd_core \<Rightarrow> mtd_info \<Rightarrow> mtd_mode \<Rightarrow> u8 list option \<Rightarrow> u8 list option \<Rightarrow> mtd_oob_ops" where
  "page_ops core low m buf oob =
     (let ops = \<lparr>ops_mode = m, ops_len = 0, ops_retlen = 0, ops_ooblen = 0, ops_oobretlen = 0,
                 ops_ooboffs = 0, ops_datbuf = None, ops_oobbuf = None\<rparr>;
          ops = (if buf \<noteq> None then ops\<lparr>ops_datbuf := buf, ops_len := ucast (mtd_writesize low)\<rparr> else ops) in
      if oob \<noteq> None then ops\<lparr>ops_oobbuf := oob, ops_ooblen := ucast (core_oobavail core low (ops\<lparr>ops_oobbuf := oob\<rparr>))\<rparr>
      else ops)"

definition nmbm_lower_read_page :: "'d mtd_core \<Rightarrow> mtd_info \<Rightarrow> 'd nmbm_arg \<Rightarrow> u64 \<Rightarrow> u8 list option \<Rightarrow>
    u8 list option \<Rightarrow> nmbm_oob_mode \<Rightarrow> int \<times> u8 list option \<times> u8 list option \<times> 'd nmbm_arg" where
  "nmbm_lower_read_page core low nm addr buf oob mode =
     (case mtd_mode_of mode of
        None \<Rightarrow> (- ENOTSUPP, buf, oob, nm)
      | Some m \<Rightarrow>
          (let (ret, ops, d) = core_read_oob core (lower_dev nm) addr (page_ops core low m buf oob);
               nm = nm\<lparr>lower_dev := d, upper_corrected := core_corrected core d,
                       upper_failed := core_failed core d\<rparr>;
               out = (\<lambda>r. (r, ops_datbuf ops, ops_oobbuf ops, nm)) in
           if ret < 0 \<and> ret \<noteq> - EUCLEAN then out ret
           else if ret = - EUCLEAN then out (sint (min (mtd_bitflip_threshold low + 1) (mtd_ecc_strength low)))
           else out 0))"

definition nmbm_lower_write_page :: "'d mtd_core \<Rightarrow> mtd_info \<Rightarrow> 'd nmbm_arg \<Rightarrow> u64 \<Rightarrow> u8 list option \<Rightarrow>
    u8 list option \<Rightarrow> nmbm_oob_mode \<Rightarrow> int \<times> 'd nmbm_arg" where
  "nmbm_lower_write_page core low nm addr buf oob mode =
     (case mtd_mode_of mode of
        None \<Rightarrow> (- ENOTSUPP, nm)
      | Some m \<Rightarrow>
          (let (ret, _, d) = core_write_oob core (lower_dev nm) addr (page_ops core low m buf oob) in
           (ret, nm\<lparr>lower_dev := d\<rparr>)))"

definition nmbm_lower_erase_block :: "'d mtd_core \<Rightarrow> mtd_info \<Rightarrow> 'd nmbm_arg \<Rightarrow> u64 \<Rightarrow> int \<times> 'd nmbm_arg" where
  "nmbm_lower_erase_block core low nm addr =
     (let (ret, _, d) = core_erase core (lower_dev nm)
            \<lparr>ei_addr = addr, ei_len = ucast (mtd_erasesize low), ei_fail_addr = 0\<rparr> in
      (ret, nm\<lparr>lower_dev := d\<rparr>))"

definition nmbm_lower_is_bad_block :: "'d mtd_core \<Rightarrow> 'd nmbm_arg \<Rightarrow> u64 \<Rightarrow> int \<times> 'd nmbm_arg" where
  "nmbm_lower_is_bad_block core nm addr =
     (let (ret, d) = core_block_isbad core (lower_dev nm) addr in (ret, nm\<lparr>lower_dev := d\<rparr>))"

definition nmbm_lower_mark_bad_block :: "'d mtd_core \<Rightarrow> 'd nmbm_arg \<Rightarrow> u64 \<Rightarrow> int \<times> 'd nmbm_arg" where
  "nmbm_lower_mark_bad_block core nm addr =
     (let (ret, d) = core_block_markbad core (lower_dev nm) addr in (ret, nm\<lparr>lower_dev := d\<rparr>))"

section \<open>The lock of the device\<close>

text \<open>One pass of the loop of \<open>nmbm_get_device\<close>.  \<^term>\<open>None\<close> means that the caller goes to
  sleep on the wait queue and starts over when it is woken.\<close>

definition nmbm_get_device :: "'d nmbm_mtd \<Rightarrow> flstate \<Rightarrow> 'd nmbm_mtd option" where
  "nmbm_get_device nm new_state =
     (if nm_state nm = FL_READY then Some (nm\<lparr>nm_state := new_state\<rparr>)
      else if new_state = FL_PM_SUSPENDED \<and> nm_state nm = FL_PM_SUSPENDED then Some nm
      else None)"

definition nmbm_release_device :: "'d nmbm_mtd \<Rightarrow> 'd nmbm_mtd" where
  "nmbm_release_device nm = nm\<lparr>nm_state := FL_READY\<rparr>"

section \<open>Operations of the upper device\<close>

definition nmbm_mtd_erase :: "'d nmbm_mtd \<Rightarrow> erase_info \<Rightarrow> (int \<times> erase_info \<times> 'd nmbm_mtd) option" where
  "nmbm_mtd_erase nm instr = do {
     nm \<leftarrow> nmbm_get_device nm FL_ERASING;
     (ret, failed, pni) \<leftarrow> nmbm_erase_block_range (nm_ni nm) (ei_addr instr) (ei_len instr);
     let nm = nmbm_release_device (nm\<lparr>nm_ni := pni\<rparr>);
     let instr = (case failed of None \<Rightarrow> instr | Some a \<Rightarrow> instr\<lparr>ei_fail_addr := a\<rparr>);
     Some (if ret = 0 then 0 else - EIO, instr, nm)
   }"

definition nmbm_mode_of :: "mtd_mode \<Rightarrow> nmbm_oob_mode option" where
  "nmbm_mode_of mode =
     (case mode of
        MTD_OPS_PLACE_OOB \<Rightarrow> Some NMBM_MODE_PLACE_OOB
      | MTD_OPS_AUTO_OOB \<Rightarrow> Some NMBM_MODE_AUTO_OOB
      | MTD_OPS_RAW \<Rightarrow> Some NMBM_MODE_RAW
      | MTD_OPS_other _ \<Rightarrow> None)"

text \<open>\<open>chklen\<close> for the main data and for the spare bytes of a page.\<close>

definition dat_chunk :: "'d nmbm_mtd \<Rightarrow> u32 \<Rightarrow> u64 \<Rightarrow> u64" where
  "dat_chunk nm col len =
     (let chklen = ucast (mtd_writesize (lower_mtd nm) - col) in if chklen > len then len else chklen)"

definition oob_chunk :: "u64 \<Rightarrow> u32 \<Rightarrow> u64 \<Rightarrow> u64" where
  "oob_chunk maxooblen ooboffs ooblen =
     (let chklen = maxooblen - ucast ooboffs in if chklen > ooblen then ooblen else chklen)"

text \<open>Copying a piece of the page cache to the caller, for the data and for the spare bytes.\<close>

definition move_dat :: "'d nmbm_mtd \<Rightarrow> u32 \<Rightarrow> u64 \<Rightarrow> mtd_oob_ops \<Rightarrow> mtd_oob_ops option" where
  "move_dat nm col chklen ops = do {
     buf \<leftarrow> ops_datbuf ops;
     src \<leftarrow> mem_get (nm_page_cache nm) (unat col) (unat chklen);
     buf \<leftarrow> mem_put buf (unat (ops_retlen ops)) src;
     Some (ops\<lparr>ops_datbuf := Some buf, ops_retlen := ops_retlen ops + chklen\<rparr>)
   }"

definition move_oob :: "'d nmbm_mtd \<Rightarrow> u32 \<Rightarrow> u64 \<Rightarrow> mtd_oob_ops \<Rightarrow> mtd_oob_ops option" where
  "move_oob nm ooboffs chklen ops = do {
     buf \<leftarrow> ops_oobbuf ops;
     src \<leftarrow> mem_get (nm_page_cache nm) (unat (mtd_writesize (lower_mtd nm)) + unat ooboffs) (unat chklen);
     buf \<leftarrow> mem_put buf (unat (ops_oobretlen ops)) src;
     Some (ops\<lparr>ops_oobbuf := Some buf, ops_oobretlen := ops_oobretlen ops + chklen\<rparr>)
   }"

text \<open>The two halves of the page cache are handed to NMBM as the data and the spare buffer, and
  put together again; \<open>dat\<close> and \<open>oob\<close> tell whether \<open>datcache\<close> and \<open>oobcache\<close> are not null.\<close>

definition cache_dat :: "'d nmbm_mtd \<Rightarrow> bool \<Rightarrow> u8 list option" where
  "cache_dat nm dat = (if dat then Some (take (unat (mtd_writesize (lower_mtd nm))) (nm_page_cache nm)) else None)"

definition cache_oob :: "'d nmbm_mtd \<Rightarrow> bool \<Rightarrow> u8 list option" where
  "cache_oob nm oob = (if oob then Some (drop (unat (mtd_writesize (lower_mtd nm))) (nm_page_cache nm)) else None)"

definition put_caches :: "'d nmbm_mtd \<Rightarrow> u8 list option \<Rightarrow> u8 list option \<Rightarrow> 'd nmbm_mtd" where
  "put_caches nm d ob =
     (let ws = unat (mtd_writesize (lower_mtd nm)); pc = nm_page_cache nm in
      nm\<lparr>nm_page_cache := (case d of None \<Rightarrow> take ws pc | Some b \<Rightarrow> b) @ (case ob of None \<Rightarrow> drop ws pc | Some b \<Rightarrow> b)\<rparr>)"

partial_function (option) mtd_read_loop ::
    "'d nmbm_mtd \<Rightarrow> u64 \<Rightarrow> mtd_oob_ops \<Rightarrow> nmbm_oob_mode \<Rightarrow> bool \<Rightarrow> bool \<Rightarrow> u64 \<Rightarrow> u32 \<Rightarrow> u64 \<Rightarrow> u64 \<Rightarrow> u32 \<Rightarrow>
     bool \<Rightarrow> int \<Rightarrow> (int \<times> mtd_oob_ops \<times> 'd nmbm_mtd) option" where
  "mtd_read_loop nm addr ops mode dat oob len col ooblen maxooblen ooboffs has_ecc_err max_bitflips =
     (if len \<noteq> 0 \<or> ooblen \<noteq> 0 then do {
        (ret, d, ob, pni) \<leftarrow> nmbm_read_single_page (nm_ni nm) addr (cache_dat nm dat) (cache_oob nm oob) mode;
        let nm = put_caches (nm\<lparr>nm_ni := pni\<rparr>) d ob;
        if ret < 0 \<and> ret \<noteq> - EBADMSG then Some (ret, ops, nm)
        else do {
          let dlen = (if len \<noteq> 0 then dat_chunk nm col len else 0);
          ops \<leftarrow> (if len \<noteq> 0 then move_dat nm col dlen ops else Some ops);
          let olen = (if ooblen \<noteq> 0 then oob_chunk maxooblen ooboffs ooblen else 0);
          ops \<leftarrow> (if ooblen \<noteq> 0 then move_oob nm ooboffs olen ops else Some ops);
          mtd_read_loop nm (addr + ucast (mtd_writesize (lower_mtd nm))) ops mode dat oob
            (len - dlen) (if len \<noteq> 0 then 0 else col) (ooblen - olen) maxooblen (if ooblen \<noteq> 0 then 0 else ooboffs)
            (has_ecc_err \<or> ret = - EBADMSG) (if ret > max_bitflips then ret else max_bitflips)
        }
      } else Some (if has_ecc_err then - EBADMSG else max_bitflips, ops, nm))"

text \<open>\<open>~nm->lower->writesize_mask\<close> is a 32-bit value: the mask also clears the upper half of
  the address.\<close>

definition page_address :: "'d nmbm_mtd \<Rightarrow> u64 \<Rightarrow> u64" where
  "page_address nm addr = addr AND ucast (NOT (mtd_writesize_mask (lower_mtd nm)))"

definition page_column :: "'d nmbm_mtd \<Rightarrow> u64 \<Rightarrow> u32" where
  "page_column nm addr = ucast (addr AND ucast (mtd_writesize_mask (lower_mtd nm)))"

definition nmbm_mtd_read_data :: "'d mtd_core \<Rightarrow> 'd nmbm_mtd \<Rightarrow> u64 \<Rightarrow> mtd_oob_ops \<Rightarrow> nmbm_oob_mode \<Rightarrow>
    (int \<times> mtd_oob_ops \<times> 'd nmbm_mtd) option" where
  "nmbm_mtd_read_data core nm addr ops mode =
     mtd_read_loop nm (page_address nm addr) (ops\<lparr>ops_oobretlen := 0, ops_retlen := 0\<rparr>) mode
       (ops_len ops \<noteq> 0) (ops_ooblen ops \<noteq> 0) (ops_len ops) (page_column nm addr) (ops_ooblen ops)
       (ucast (core_oobavail core (lower_mtd nm) ops)) (ops_ooboffs ops) False 0"

text \<open>The checks that \<open>nmbm_mtd_read_oob\<close> and \<open>nmbm_mtd_write_oob\<close> share: an error, or the
  mode of the transfer.  \<open>oob_beyond\<close> is the check of a transfer with spare bytes.\<close>

definition oob_beyond :: "mtd_info \<Rightarrow> u64 \<Rightarrow> u32 \<Rightarrow> mtd_oob_ops \<Rightarrow> bool" where
  "oob_beyond mtd from maxooblen ops \<longleftrightarrow>
     from \<ge> mtd_size mtd \<or>
     ucast (ops_ooboffs ops) + ops_ooblen ops >
       (drop_bit (unat (mtd_writesize_shift mtd)) (mtd_size mtd) -
        signed_drop_bit (unat (mtd_writesize_shift mtd)) from) * ucast maxooblen"

definition nmbm_mtd_read_oob :: "'d mtd_core \<Rightarrow> 'd nmbm_mtd \<Rightarrow> u64 \<Rightarrow> mtd_oob_ops \<Rightarrow>
    (int \<times> mtd_oob_ops \<times> 'd nmbm_mtd) option" where
  "nmbm_mtd_read_oob core nm from ops =
     (if ops_oobbuf ops = None \<and> ops_datbuf ops = None then
        Some (if ops_ooblen ops \<noteq> 0 \<or> ops_len ops \<noteq> 0 then - EINVAL else 0, ops, nm)
      else case nmbm_mode_of (ops_mode ops) of
        None \<Rightarrow> Some (- ENOTSUPP, ops, nm)
      | Some mode \<Rightarrow>
          let maxooblen = core_oobavail core (upper nm) ops in
          if ops_datbuf ops \<noteq> None \<and> from + ops_len ops > mtd_size (upper nm) then Some (- EINVAL, ops, nm)
          else case ops_oobbuf ops of
            None \<Rightarrow> do {
              nm \<leftarrow> nmbm_get_device nm FL_READING;
              buf \<leftarrow> ops_datbuf ops;
              (ret, retlen, buf, pni) \<leftarrow> nmbm_read_range (nm_ni nm) from (ops_len ops) buf mode;
              let ops = ops\<lparr>ops_datbuf := Some buf\<rparr>;
              let ops = (case retlen of None \<Rightarrow> ops | Some n \<Rightarrow> ops\<lparr>ops_retlen := n\<rparr>);
              Some (ret, ops, nmbm_release_device (nm\<lparr>nm_ni := pni\<rparr>))
            }
          | Some _ \<Rightarrow>
              if ops_ooboffs ops \<ge> maxooblen then Some (- EINVAL, ops, nm)
              else if oob_beyond (upper nm) from maxooblen ops then Some (- EINVAL, ops, nm)
              else do {
                nm \<leftarrow> nmbm_get_device nm FL_READING;
                (ret, ops, nm) \<leftarrow> nmbm_mtd_read_data core nm from ops mode;
                Some (ret, ops, nmbm_release_device nm)
              })"

text \<open>Filling the page cache with a piece of the caller's data, \<open>0xff\<close> around it.\<close>

definition fill_dat :: "'d nmbm_mtd \<Rightarrow> u32 \<Rightarrow> u64 \<Rightarrow> mtd_oob_ops \<Rightarrow> (mtd_oob_ops \<times> 'd nmbm_mtd) option" where
  "fill_dat nm col chklen ops = do {
     buf \<leftarrow> ops_datbuf ops;
     pc \<leftarrow> mem_put (nm_page_cache nm) 0 (replicate (unat col) 0xff);
     src \<leftarrow> mem_get buf (unat (ops_retlen ops)) (unat chklen);
     pc \<leftarrow> mem_put pc (unat col) src;
     pc \<leftarrow> mem_put pc (unat col + unat chklen)
       (replicate (unat (ucast (mtd_writesize (lower_mtd nm) - col) - chklen :: u64)) 0xff);
     Some (ops\<lparr>ops_retlen := ops_retlen ops + chklen\<rparr>, nm\<lparr>nm_page_cache := pc\<rparr>)
   }"

definition fill_oob :: "'d nmbm_mtd \<Rightarrow> u32 \<Rightarrow> u64 \<Rightarrow> mtd_oob_ops \<Rightarrow> (mtd_oob_ops \<times> 'd nmbm_mtd) option" where
  "fill_oob nm ooboffs chklen ops = do {
     buf \<leftarrow> ops_oobbuf ops;
     let ws = unat (mtd_writesize (lower_mtd nm));
     pc \<leftarrow> mem_put (nm_page_cache nm) ws (replicate (unat ooboffs) 0xff);
     src \<leftarrow> mem_get buf (unat (ops_oobretlen ops)) (unat chklen);
     pc \<leftarrow> mem_put pc (ws + unat ooboffs) src;
     pc \<leftarrow> mem_put pc (ws + unat ooboffs + unat chklen)
       (replicate (unat (ucast (mtd_oobsize (lower_mtd nm) - ooboffs) - chklen :: u64)) 0xff);
     Some (ops\<lparr>ops_oobretlen := ops_oobretlen ops + chklen\<rparr>, nm\<lparr>nm_page_cache := pc\<rparr>)
   }"

partial_function (option) mtd_write_loop ::
    "'d nmbm_mtd \<Rightarrow> u64 \<Rightarrow> mtd_oob_ops \<Rightarrow> nmbm_oob_mode \<Rightarrow> bool \<Rightarrow> bool \<Rightarrow> u64 \<Rightarrow> u32 \<Rightarrow> u64 \<Rightarrow> u64 \<Rightarrow> u32 \<Rightarrow>
     (int \<times> mtd_oob_ops \<times> 'd nmbm_mtd) option" where
  "mtd_write_loop nm addr ops mode dat oob len col ooblen maxooblen ooboffs =
     (if len \<noteq> 0 \<or> ooblen \<noteq> 0 then do {
        let dlen = (if len \<noteq> 0 then dat_chunk nm col len else 0);
        (ops, nm) \<leftarrow> (if len \<noteq> 0 then fill_dat nm col dlen ops else Some (ops, nm));
        let olen = (if ooblen \<noteq> 0 then oob_chunk maxooblen ooboffs ooblen else 0);
        (ops, nm) \<leftarrow> (if ooblen \<noteq> 0 then fill_oob nm ooboffs olen ops else Some (ops, nm));
        (ret, pni) \<leftarrow> nmbm_write_single_page (nm_ni nm) addr (cache_dat nm dat) (cache_oob nm oob) mode;
        let nm = nm\<lparr>nm_ni := pni\<rparr>;
        if ret \<noteq> 0 then Some (ret, ops, nm)
        else mtd_write_loop nm (addr + ucast (mtd_writesize (lower_mtd nm))) ops mode dat oob
          (len - dlen) (if len \<noteq> 0 then 0 else col) (ooblen - olen) maxooblen (if ooblen \<noteq> 0 then 0 else ooboffs)
      } else Some (0, ops, nm))"

definition nmbm_mtd_write_data :: "'d mtd_core \<Rightarrow> 'd nmbm_mtd \<Rightarrow> u64 \<Rightarrow> mtd_oob_ops \<Rightarrow> nmbm_oob_mode \<Rightarrow>
    (int \<times> mtd_oob_ops \<times> 'd nmbm_mtd) option" where
  "nmbm_mtd_write_data core nm addr ops mode =
     mtd_write_loop nm (page_address nm addr) (ops\<lparr>ops_oobretlen := 0, ops_retlen := 0\<rparr>) mode
       (ops_len ops \<noteq> 0) (ops_ooblen ops \<noteq> 0) (ops_len ops) (page_column nm addr) (ops_ooblen ops)
       (ucast (core_oobavail core (lower_mtd nm) ops)) (ops_ooboffs ops)"

definition nmbm_mtd_write_oob :: "'d mtd_core \<Rightarrow> 'd nmbm_mtd \<Rightarrow> u64 \<Rightarrow> mtd_oob_ops \<Rightarrow>
    (int \<times> mtd_oob_ops \<times> 'd nmbm_mtd) option" where
  "nmbm_mtd_write_oob core nm to ops =
     (if ops_oobbuf ops = None \<and> ops_datbuf ops = None then
        Some (if ops_ooblen ops \<noteq> 0 \<or> ops_len ops \<noteq> 0 then - EINVAL else 0, ops, nm)
      else case nmbm_mode_of (ops_mode ops) of
        None \<Rightarrow> Some (- ENOTSUPP, ops, nm)
      | Some mode \<Rightarrow>
          let maxooblen = core_oobavail core (upper nm) ops in
          if ops_datbuf ops \<noteq> None \<and> to + ops_len ops > mtd_size (upper nm) then Some (- EINVAL, ops, nm)
          else case ops_oobbuf ops of
            None \<Rightarrow> do {
              nm \<leftarrow> nmbm_get_device nm FL_WRITING;
              buf \<leftarrow> ops_datbuf ops;
              (ret, retlen, pni) \<leftarrow> nmbm_write_range (nm_ni nm) to (ops_len ops) buf mode;
              let ops = (case retlen of None \<Rightarrow> ops | Some n \<Rightarrow> ops\<lparr>ops_retlen := n\<rparr>);
              Some (ret, ops, nmbm_release_device (nm\<lparr>nm_ni := pni\<rparr>))
            }
          | Some _ \<Rightarrow>
              if ops_ooboffs ops \<ge> maxooblen then Some (- EINVAL, ops, nm)
              else if oob_beyond (upper nm) to maxooblen ops then Some (- EINVAL, ops, nm)
              else do {
                nm \<leftarrow> nmbm_get_device nm FL_WRITING;
                (ret, ops, nm) \<leftarrow> nmbm_mtd_write_data core nm to ops mode;
                Some (ret, ops, nmbm_release_device nm)
              })"

definition nmbm_mtd_block_isbad :: "'d nmbm_mtd \<Rightarrow> u64 \<Rightarrow> (int \<times> 'd nmbm_mtd) option" where
  "nmbm_mtd_block_isbad nm offs = do {
     nm \<leftarrow> nmbm_get_device nm FL_READING;
     ret \<leftarrow> nmbm_check_bad_block (nm_ni nm) offs;
     Some (ret, nmbm_release_device nm)
   }"

definition nmbm_mtd_block_markbad :: "'d nmbm_mtd \<Rightarrow> u64 \<Rightarrow> (int \<times> 'd nmbm_mtd) option" where
  "nmbm_mtd_block_markbad nm offs = do {
     nm \<leftarrow> nmbm_get_device nm FL_WRITING;
     (ret, pni) \<leftarrow> nmbm_mark_bad_block (nm_ni nm) offs;
     Some (ret, nmbm_release_device (nm\<lparr>nm_ni := pni\<rparr>))
   }"

definition nmbm_mtd_shutdown :: "'d nmbm_mtd \<Rightarrow> 'd nmbm_mtd option" where
  "nmbm_mtd_shutdown nm = nmbm_get_device nm FL_PM_SUSPENDED"

section \<open>Probing and removing\<close>

text \<open>Finding the lower device.  \<open>by_node\<close> is \<^term>\<open>None\<close> without the property
  \<open>lower-mtd-device\<close>, \<open>by_name\<close> without \<open>lower-mtd-name\<close>; inside, \<^term>\<open>None\<close> stands for an
  error pointer.  With neither property the code goes on with an uninitialised pointer.\<close>

definition probe_find_lower :: "'l option option \<Rightarrow> 'l option option \<Rightarrow> (int + 'l) option" where
  "probe_find_lower by_node by_name =
     (case by_node of
        Some (Some l) \<Rightarrow> Some (Inr l)
      | Some None \<Rightarrow> Some (Inl (- EPROBE_DEFER))
      | None \<Rightarrow>
          (case by_name of
             Some (Some l) \<Rightarrow> Some (Inr l)
           | Some None \<Rightarrow> Some (Inl (- EPROBE_DEFER))
           | None \<Rightarrow> None))"

text \<open>The device-tree properties that probing reads.\<close>

record nmbm_props =
  prop_max_ratio :: "u32 option"
  prop_max_reserved_blocks :: "u32 option"
  prop_forced_create :: bool
  prop_empty_page_ecc :: bool

definition probe_lower_device :: "'d mtd_core \<Rightarrow> (u32 \<Rightarrow> u8 list \<Rightarrow> u32) \<Rightarrow> mtd_info \<Rightarrow> nmbm_props \<Rightarrow>
    'd nmbm_arg nmbm_lower_device" where
  "probe_lower_device core crc low props =
     \<lparr>max_ratio = (case prop_max_ratio props of None \<Rightarrow> 1 | Some r \<Rightarrow> r),
      max_reserved_blocks = (case prop_max_reserved_blocks props of None \<Rightarrow> 256 | Some n \<Rightarrow> n),
      nflags = (if prop_forced_create props then NMBM_F_CREATE else 0) OR
        (if prop_empty_page_ecc props then NMBM_F_EMPTY_PAGE_ECC_OK else 0),
      nsize = mtd_size low, erasesize = mtd_erasesize low, writesize = mtd_writesize low,
      oobsize = mtd_oobsize low, oobavail = mtd_oobavail low,
      reset_chip = None,
      read_page = Some (nmbm_lower_read_page core low),
      write_page = Some (nmbm_lower_write_page core low),
      erase_block = Some (nmbm_lower_erase_block core low),
      is_bad_block = Some (nmbm_lower_is_bad_block core),
      mark_bad_block = Some (nmbm_lower_mark_bad_block core),
      os_crc32_le = crc\<rparr>"

text \<open>The upper device after a successful attach.\<close>

definition probe_upper :: "'c nmbm_instance \<Rightarrow> mtd_info \<Rightarrow> mtd_info" where
  "probe_upper ni low = low\<lparr>
     mtd_size := ucast (data_block_count ni) * ucast (mtd_erasesize low),
     mtd_writebufsize := mtd_writesize low\<rparr>"

declare mtd_read_loop.simps [code] mtd_write_loop.simps [code]

section \<open>Mutual exclusion on the device\<close>

text \<open>Any number of tasks call the operations.  A task that wants the device tries to get it,
  sleeps when it is taken, and tries again when a release wakes it; inside, it works on the
  instance.  A task that shuts the device down returns without releasing it.\<close>

datatype task = Outside | Trying flstate | Asleep flstate | Inside flstate

fun wake :: "task \<Rightarrow> task" where
  "wake (Asleep st) = Trying st"
| "wake t = t"

inductive lock_step :: "'d nmbm_mtd \<times> (nat \<Rightarrow> task) \<Rightarrow> 'd nmbm_mtd \<times> (nat \<Rightarrow> task) \<Rightarrow> bool" where
  call: "t i = Outside \<Longrightarrow> st \<noteq> FL_READY \<Longrightarrow> lock_step (nm, t) (nm, t(i := Trying st))"
| acquire: "t i = Trying st \<Longrightarrow> nmbm_get_device nm st = Some nm' \<Longrightarrow> lock_step (nm, t) (nm', t(i := Inside st))"
| sleep: "t i = Trying st \<Longrightarrow> nmbm_get_device nm st = None \<Longrightarrow> lock_step (nm, t) (nm, t(i := Asleep st))"
| work: "t i = Inside st \<Longrightarrow> st \<noteq> FL_PM_SUSPENDED \<Longrightarrow> nm_state nm' = nm_state nm \<Longrightarrow> lock_step (nm, t) (nm', t)"
| release: "t i = Inside st \<Longrightarrow> st \<noteq> FL_PM_SUSPENDED \<Longrightarrow>
    lock_step (nm, t) (nmbm_release_device nm, (\<lambda>j. wake (t j))(i := Outside))"
| shut: "t i = Inside FL_PM_SUSPENDED \<Longrightarrow> lock_step (nm, t) (nm, t(i := Outside))"

inductive lock_reach :: "'d nmbm_mtd \<times> (nat \<Rightarrow> task) \<Rightarrow> bool" where
  start: "nm_state nm = FL_READY \<Longrightarrow> lock_reach (nm, \<lambda>_. Outside)"
| step: "lock_reach s \<Longrightarrow> lock_step s s' \<Longrightarrow> lock_reach s'"

inductive_cases lock_stepE: "lock_step (nm, t) (nm', t')"

text \<open>The state of the device names what the one task inside does; a ready device has no task
  inside and none asleep.\<close>

definition lock_inv :: "'d nmbm_mtd \<times> (nat \<Rightarrow> task) \<Rightarrow> bool" where
  "lock_inv = (\<lambda>(nm, t).
     (\<forall>i st. t i = Inside st \<longrightarrow> nm_state nm = st \<and> st \<noteq> FL_READY) \<and>
     (\<forall>i j st. t i = Inside st \<longrightarrow> t j = Inside st \<longrightarrow> st \<noteq> FL_PM_SUSPENDED \<longrightarrow> i = j) \<and>
     (\<forall>i st. t i = Asleep st \<longrightarrow> nm_state nm \<noteq> FL_READY) \<and>
     (\<forall>i st. t i = Trying st \<or> t i = Asleep st \<longrightarrow> st \<noteq> FL_READY))"

text \<open>A device that is neither ready nor suspended has a task inside, which will release it.\<close>

definition lock_busy :: "'d nmbm_mtd \<times> (nat \<Rightarrow> task) \<Rightarrow> bool" where
  "lock_busy = (\<lambda>(nm, t). nm_state nm \<noteq> FL_READY \<and> nm_state nm \<noteq> FL_PM_SUSPENDED \<longrightarrow> (\<exists>i. t i = Inside (nm_state nm)))"

lemma get_device_Some:
  "nmbm_get_device nm st = Some nm' \<longleftrightarrow>
     nm_state nm = FL_READY \<and> nm' = nm\<lparr>nm_state := st\<rparr> \<or>
     st = FL_PM_SUSPENDED \<and> nm_state nm = FL_PM_SUSPENDED \<and> nm' = nm"
  by (auto simp: nmbm_get_device_def)

lemma get_device_None:
  "nmbm_get_device nm st = None \<longleftrightarrow>
     nm_state nm \<noteq> FL_READY \<and> \<not> (st = FL_PM_SUSPENDED \<and> nm_state nm = FL_PM_SUSPENDED)"
  by (auto simp: nmbm_get_device_def)

lemma wake_eq [simp]:
  "wake x = Inside st \<longleftrightarrow> x = Inside st" "wake x \<noteq> Asleep st"
  "wake x = Trying st \<longleftrightarrow> x = Trying st \<or> x = Asleep st"
  by (cases x; auto)+

lemma lock_inv_step: "lock_step s s' \<Longrightarrow> lock_inv s \<Longrightarrow> lock_inv s'"
proof (induction rule: lock_step.induct)
  case (call t i st nm)
  then show ?case by (auto simp: lock_inv_def)
next
  case (acquire t i st nm nm')
  then show ?case by (auto simp: lock_inv_def get_device_Some)
next
  case (sleep t i st nm)
  then show ?case by (auto simp: lock_inv_def get_device_None)
next
  case (work t i st nm' nm)
  show ?case using work(4) unfolding lock_inv_def case_prod_conv work(3) .
next
  case (release t i st nm)
  then have "nm_state nm = st" by (simp add: lock_inv_def)
  then have "t j \<noteq> Inside s" if "j \<noteq> i" for j s
    using release that unfolding lock_inv_def case_prod_conv by metis
  then show ?case using release by (auto simp: lock_inv_def nmbm_release_device_def)
next
  case (shut t i nm)
  then have "nm_state nm = FL_PM_SUSPENDED" by (simp add: lock_inv_def)
  with shut show ?case by (fastforce simp: lock_inv_def)
qed

lemma lock_busy_step: "lock_step s s' \<Longrightarrow> lock_busy s \<Longrightarrow> lock_busy s'"
proof (induction rule: lock_step.induct)
  case (call t i st nm)
  then show ?case unfolding lock_busy_def case_prod_conv by (metis fun_upd_other task.distinct(5))
next
  case (acquire t i st nm nm')
  then show ?case by (auto simp: lock_busy_def get_device_Some)
next
  case (sleep t i st nm)
  then show ?case unfolding lock_busy_def case_prod_conv by (metis fun_upd_other task.distinct(9))
next
  case (work t i st nm' nm)
  then show ?case by (simp add: lock_busy_def)
next
  case (release t i st nm)
  then show ?case by (simp add: lock_busy_def nmbm_release_device_def)
next
  case (shut t i nm)
  then show ?case unfolding lock_busy_def case_prod_conv by (metis fun_upd_other task.inject(3))
qed

lemma lock_reach_inv: "lock_reach s \<Longrightarrow> lock_inv s \<and> lock_busy s"
proof (induction rule: lock_reach.induct)
  case (start nm)
  then show ?case by (simp add: lock_inv_def lock_busy_def)
next
  case (step s s')
  then show ?case by (blast intro: lock_inv_step lock_busy_step)
qed

text \<open>A suspended device stays suspended.\<close>

lemma lock_suspended_step:
  assumes "lock_step (nm, t) (nm', t')" and "lock_inv (nm, t)" and "nm_state nm = FL_PM_SUSPENDED"
  shows "nm_state nm' = FL_PM_SUSPENDED"
  using assms by (auto elim!: lock_stepE simp: lock_inv_def get_device_Some)

section \<open>The operations are total\<close>

text \<open>\<open>mtd_ok\<close>: the device has an attached instance for its lower device, and a page cache of
  its own.  \<open>oobavail_ok\<close> is the documented behaviour of \<open>mtd_oobavail\<close>: it returns the size of
  the spare area or the smaller number of bytes of it that are free.\<close>

definition mtd_ok :: "'d nmbm_mtd \<Rightarrow> bool" where
  "mtd_ok nm \<longleftrightarrow> (\<exists>ni. nm_ni nm = Some ni \<and> nmbm_ok ni \<and>
     mtd_writesize (lower_mtd nm) = writesize (lower ni) \<and> mtd_oobsize (lower_mtd nm) = oobsize (lower ni) \<and>
     mtd_writesize_mask (lower_mtd nm) = writesize (lower ni) - 1 \<and>
     length (nm_page_cache nm) = unat (writesize (lower ni)) + unat (oobsize (lower ni)))"

definition oobavail_ok :: "'d mtd_core \<Rightarrow> mtd_info \<Rightarrow> bool" where
  "oobavail_ok core low \<longleftrightarrow> (\<forall>ops. core_oobavail core low ops \<le> mtd_oobsize low)"

text \<open>What an operation of the upper device keeps.\<close>

definition mtd_same :: "'d nmbm_mtd \<Rightarrow> 'd nmbm_mtd \<Rightarrow> bool" where
  "mtd_same nm nm' \<longleftrightarrow> mtd_ok nm' \<and> upper nm' = upper nm \<and> lower_mtd nm' = lower_mtd nm \<and> nm_state nm' = nm_state nm"

lemma mtd_okE:
  assumes "mtd_ok nm"
  obtains ni where "nm_ni nm = Some ni" "nmbm_ok ni" "mtd_writesize (lower_mtd nm) = writesize (lower ni)"
    "mtd_oobsize (lower_mtd nm) = oobsize (lower ni)" "mtd_writesize_mask (lower_mtd nm) = writesize (lower ni) - 1"
    "length (nm_page_cache nm) = unat (writesize (lower ni)) + unat (oobsize (lower ni))"
  using assms by (auto simp: mtd_ok_def)

lemma mtd_ok_instance:
  assumes "mtd_ok nm" and "nm_ni nm = Some ni" and "nmbm_ok ni'" and "same_device ni ni'"
  shows "mtd_ok (nm\<lparr>nm_ni := Some ni'\<rparr>)"
  using assms by (auto simp: mtd_ok_def same_device_def)

lemma mtd_ok_state [simp]: "mtd_ok (nm\<lparr>nm_state := st\<rparr>) = mtd_ok nm"
  by (simp add: mtd_ok_def)

lemma mtd_ok_cache: "length pc = length (nm_page_cache nm) \<Longrightarrow> mtd_ok (nm\<lparr>nm_page_cache := pc\<rparr>) = mtd_ok nm"
  by (simp add: mtd_ok_def)

lemma mtd_same_trans: "mtd_same x y \<Longrightarrow> mtd_same y z \<Longrightarrow> mtd_same x z"
  by (simp add: mtd_same_def)

lemma mtd_same_cache: "mtd_ok nm \<Longrightarrow> length pc = length (nm_page_cache nm) \<Longrightarrow> mtd_same nm (nm\<lparr>nm_page_cache := pc\<rparr>)"
  by (simp add: mtd_same_def mtd_ok_cache)

lemma nmbm_mtd_erase_post:
  assumes ok: "mtd_ok nm" and st: "nm_state nm = FL_READY" and nw: "unat (ei_addr instr) + unat (ei_len instr) < 2 ^ 64"
  shows "post (nmbm_mtd_erase nm instr) (\<lambda>(r, instr', nm'). mtd_same nm nm' \<and> (r = 0 \<or> r = - EIO))"
proof -
  from ok obtain ni where ni: "nm_ni nm = Some ni" "nmbm_ok ni" by (rule mtd_okE)
  show ?thesis
    unfolding nmbm_mtd_erase_def nmbm_erase_block_range_def nmbm_get_device_def
    using ok st ni
    by (auto simp: Let_def nmbm_release_device_def mtd_same_def
        intro!: post_mono [OF erase_block_range_post [OF ni(2) nw]] mtd_ok_instance)
qed

lemma nmbm_mtd_block_markbad_post:
  assumes ok: "mtd_ok nm" and st: "nm_state nm = FL_READY"
  shows "post (nmbm_mtd_block_markbad nm offs) (\<lambda>(r, nm'). mtd_same nm nm')"
proof -
  from ok obtain ni where ni: "nm_ni nm = Some ni" "nmbm_ok ni" by (rule mtd_okE)
  show ?thesis
    unfolding nmbm_mtd_block_markbad_def nmbm_mark_bad_block_def nmbm_get_device_def
    using ok st ni
    by (auto simp: nmbm_release_device_def mtd_same_def
        intro!: post_mono [OF mark_logic_bad_post [OF ni(2)]] mtd_ok_instance)
qed

subsection \<open>Reading pages with spare bytes\<close>

text \<open>The pieces of a transfer stay inside the page and inside the spare area, and are not empty.\<close>

lemma dat_chunk_facts:
  assumes "len \<noteq> 0" and "unat col < unat (mtd_writesize (lower_mtd nm))"
  shows "unat (dat_chunk nm col len) = min (unat len) (unat (mtd_writesize (lower_mtd nm)) - unat col)"
proof -
  have "unat (mtd_writesize (lower_mtd nm) - col) = unat (mtd_writesize (lower_mtd nm)) - unat col"
    using assms(2) by (simp add: unat_sub word_le_nat_alt)
  then show ?thesis by (auto simp: dat_chunk_def Let_def word_less_nat_alt min_def)
qed

lemma oob_chunk_facts:
  assumes "ooblen \<noteq> 0" and "unat ooboffs < unat maxooblen"
  shows "unat (oob_chunk maxooblen ooboffs ooblen) = min (unat ooblen) (unat maxooblen - unat ooboffs)"
proof -
  have "unat (maxooblen - ucast ooboffs) = unat maxooblen - unat ooboffs"
    using assms(2) by (simp add: unat_sub word_le_nat_alt)
  then show ?thesis by (auto simp: oob_chunk_def Let_def word_less_nat_alt min_def)
qed

lemma cache_rooms:
  assumes "mtd_ok nm" and "nm_ni nm = Some ni"
  shows "room (writesize (lower ni)) (cache_dat nm dat)" and "room (oobsize (lower ni)) (cache_oob nm oob)"
  using assms by (auto simp: mtd_ok_def room_def cache_dat_def cache_oob_def)

lemma put_caches_length:
  assumes "mtd_ok nm" and "same_shape (cache_dat nm dat) d" and "same_shape (cache_oob nm oob) ob"
  shows "length (nm_page_cache (put_caches (nm\<lparr>nm_ni := p\<rparr>) d ob)) = length (nm_page_cache nm)"
  using assms
  by (auto simp: put_caches_def cache_dat_def cache_oob_def mtd_ok_def Let_def same_shape_Some split: if_splits option.splits)

lemma put_caches_same:
  assumes ok: "mtd_ok nm" and ni: "nm_ni nm = Some ni" and le: "arg_le ni ni'"
    and s: "same_shape (cache_dat nm dat) d" "same_shape (cache_oob nm oob) ob"
  shows "mtd_same nm (put_caches (nm\<lparr>nm_ni := Some ni'\<rparr>) d ob)"
proof -
  obtain pc where p: "put_caches (nm\<lparr>nm_ni := Some ni'\<rparr>) d ob = nm\<lparr>nm_ni := Some ni', nm_page_cache := pc\<rparr>"
    by (simp add: put_caches_def Let_def)
  have l: "length pc = length (nm_page_cache nm)"
    using put_caches_length [OF ok s, of "Some ni'"] unfolding p by simp
  have "nmbm_ok ni" using ok ni by (auto elim: mtd_okE)
  then have "mtd_ok (nm\<lparr>nm_ni := Some ni'\<rparr>)"
    using dev_le_nmbm_ok [OF arg_le_dev_le [OF le]] dev_le_same_device [OF arg_le_dev_le [OF le]] ok ni
    by (auto intro: mtd_ok_instance)
  then show ?thesis unfolding p using l by (simp add: mtd_same_def mtd_ok_def)
qed

text \<open>The buffers of a request hold the bytes that are still to come.\<close>

definition dat_room :: "mtd_oob_ops \<Rightarrow> u64 \<Rightarrow> bool" where
  "dat_room ops len \<longleftrightarrow> len = 0 \<or> (\<exists>b. ops_datbuf ops = Some b \<and> unat (ops_retlen ops) + unat len \<le> length b) \<and>
     unat (ops_retlen ops) + unat len < 2 ^ 64"

definition oob_room :: "mtd_oob_ops \<Rightarrow> u64 \<Rightarrow> bool" where
  "oob_room ops len \<longleftrightarrow> len = 0 \<or> (\<exists>b. ops_oobbuf ops = Some b \<and> unat (ops_oobretlen ops) + unat len \<le> length b) \<and>
     unat (ops_oobretlen ops) + unat len < 2 ^ 64"
text \<open>A step of the transfer: the rest of the request after a piece of \<open>c\<close> bytes.\<close>

lemma dat_room_step:
  assumes "dat_room ops len" and "len \<noteq> 0" and "unat c \<le> unat len" and "ops_retlen ops' = ops_retlen ops + c"
    and "\<And>b. ops_datbuf ops = Some b \<Longrightarrow> \<exists>b'. ops_datbuf ops' = Some b' \<and> length b' = length b"
  shows "dat_room ops' (len - c)" and "ops_retlen ops' + (len - c) = ops_retlen ops + len"
proof -
  obtain b where b: "ops_datbuf ops = Some b" "unat (ops_retlen ops) + unat len \<le> length b" "unat (ops_retlen ops) + unat len < 2 ^ 64"
    using assms(1,2) by (auto simp: dat_room_def)
  have u: "unat (ops_retlen ops + c) = unat (ops_retlen ops) + unat c" "unat (len - c) = unat len - unat c"
    using b(3) assms(3) by (simp_all add: unat_add_no_wrap unat_sub word_le_nat_alt)
  show "dat_room ops' (len - c)" using b assms(3,4,5) u by (fastforce simp: dat_room_def)
  show "ops_retlen ops' + (len - c) = ops_retlen ops + len" using assms(4) by simp
qed

lemma oob_room_step:
  assumes "oob_room ops len" and "len \<noteq> 0" and "unat c \<le> unat len" and "ops_oobretlen ops' = ops_oobretlen ops + c"
    and "\<And>b. ops_oobbuf ops = Some b \<Longrightarrow> \<exists>b'. ops_oobbuf ops' = Some b' \<and> length b' = length b"
  shows "oob_room ops' (len - c)" and "ops_oobretlen ops' + (len - c) = ops_oobretlen ops + len"
proof -
  obtain b where b: "ops_oobbuf ops = Some b" "unat (ops_oobretlen ops) + unat len \<le> length b" "unat (ops_oobretlen ops) + unat len < 2 ^ 64"
    using assms(1,2) by (auto simp: oob_room_def)
  have u: "unat (ops_oobretlen ops + c) = unat (ops_oobretlen ops) + unat c" "unat (len - c) = unat len - unat c"
    using b(3) assms(3) by (simp_all add: unat_add_no_wrap unat_sub word_le_nat_alt)
  show "oob_room ops' (len - c)" using b assms(3,4,5) u by (fastforce simp: oob_room_def)
  show "ops_oobretlen ops' + (len - c) = ops_oobretlen ops + len" using assms(4) by simp
qed

text \<open>\<open>dat_moved c ops ops'\<close>: only the data buffer and its counter changed, by \<open>c\<close> bytes.\<close>

definition dat_moved :: "u64 \<Rightarrow> mtd_oob_ops \<Rightarrow> mtd_oob_ops \<Rightarrow> bool" where
  "dat_moved c ops ops' \<longleftrightarrow> ops_retlen ops' = ops_retlen ops + c \<and> ops_oobretlen ops' = ops_oobretlen ops \<and>
     ops_oobbuf ops' = ops_oobbuf ops \<and>
     (\<forall>b. ops_datbuf ops = Some b \<longrightarrow> (\<exists>b'. ops_datbuf ops' = Some b' \<and> length b' = length b))"

definition oob_moved :: "u64 \<Rightarrow> mtd_oob_ops \<Rightarrow> mtd_oob_ops \<Rightarrow> bool" where
  "oob_moved c ops ops' \<longleftrightarrow> ops_oobretlen ops' = ops_oobretlen ops + c \<and> ops_retlen ops' = ops_retlen ops \<and>
     ops_datbuf ops' = ops_datbuf ops \<and>
     (\<forall>b. ops_oobbuf ops = Some b \<longrightarrow> (\<exists>b'. ops_oobbuf ops' = Some b' \<and> length b' = length b))"

lemma move_dat_post:
  assumes "dat_room ops len" and "len \<noteq> 0" and "unat c \<le> unat len" and "unat col + unat c \<le> length (nm_page_cache nm)"
  shows "post (move_dat nm col c ops) (dat_moved c ops)"
  using assms by (auto simp: move_dat_def dat_room_def dat_moved_def)

lemma move_oob_post:
  assumes "oob_room ops len" and "len \<noteq> 0" and "unat c \<le> unat len"
    and "unat (mtd_writesize (lower_mtd nm)) + unat ooboffs + unat c \<le> length (nm_page_cache nm)"
  shows "post (move_oob nm ooboffs c ops) (oob_moved c ops)"
  using assms by (auto simp: move_oob_def oob_room_def oob_moved_def)

lemma dat_move_step:
  assumes room: "dat_room ops len" "oob_room ops ooblen"
    and fit: "len \<noteq> 0 \<longrightarrow> unat col < unat (mtd_writesize (lower_mtd nm))"
    and cache: "unat (mtd_writesize (lower_mtd nm)) \<le> length (nm_page_cache nm)"
    and c_def: "c = (if len \<noteq> 0 then dat_chunk nm col len else 0)"
  shows "post (if len \<noteq> 0 then move_dat nm col c ops else Some ops) (\<lambda>ops'. dat_room ops' (len - c) \<and>
     oob_room ops' ooblen \<and> ops_retlen ops' + (len - c) = ops_retlen ops + len \<and> ops_oobretlen ops' = ops_oobretlen ops)"
    and "len \<noteq> 0 \<Longrightarrow> unat (len - c) < unat len" and "len = 0 \<Longrightarrow> len - c = 0"
proof -
  show "len = 0 \<Longrightarrow> len - c = 0" by (simp add: c_def)
  have c: "0 < unat c" "unat c \<le> unat len" "unat col + unat c \<le> length (nm_page_cache nm)" if "len \<noteq> 0"
    using that fit cache dat_chunk_facts [OF that, of col nm] by (auto simp: c_def unat_gt_0)
  show "unat (len - c) < unat len" if "len \<noteq> 0" using c [OF that] by (simp add: unat_sub word_le_nat_alt)
  show "post (if len \<noteq> 0 then move_dat nm col c ops else Some ops) (\<lambda>ops'. dat_room ops' (len - c) \<and>
     oob_room ops' ooblen \<and> ops_retlen ops' + (len - c) = ops_retlen ops + len \<and> ops_oobretlen ops' = ops_oobretlen ops)"
  proof (cases "len = 0")
    case True
    then show ?thesis using room by (simp add: c_def)
  next
    case False
    have "post (move_dat nm col c ops) (dat_moved c ops)"
      using move_dat_post [OF room(1) False] c [OF False] by blast
    then show ?thesis
      using False dat_room_step [OF room(1) False c(2) [OF False]] room(2)
      by (auto elim!: post_mono simp: dat_moved_def oob_room_def)
  qed
qed

lemma oob_move_step:
  assumes room: "oob_room ops len" "dat_room ops dlen"
    and fit: "len \<noteq> 0 \<longrightarrow> unat off < unat mx" and mx: "unat (mtd_writesize (lower_mtd nm)) + unat mx \<le> length (nm_page_cache nm)"
    and c_def: "c = (if len \<noteq> 0 then oob_chunk mx off len else 0)"
  shows "post (if len \<noteq> 0 then move_oob nm off c ops else Some ops) (\<lambda>ops'. oob_room ops' (len - c) \<and>
     dat_room ops' dlen \<and> ops_oobretlen ops' + (len - c) = ops_oobretlen ops + len \<and> ops_retlen ops' = ops_retlen ops)"
    and "len \<noteq> 0 \<Longrightarrow> unat (len - c) < unat len" and "len = 0 \<Longrightarrow> len - c = 0"
proof -
  show "len = 0 \<Longrightarrow> len - c = 0" by (simp add: c_def)
  have c: "0 < unat c" "unat c \<le> unat len" "unat (mtd_writesize (lower_mtd nm)) + unat off + unat c \<le> length (nm_page_cache nm)" if "len \<noteq> 0"
    using that fit mx oob_chunk_facts [OF that, of off mx] by (auto simp: c_def unat_gt_0)
  show "unat (len - c) < unat len" if "len \<noteq> 0" using c [OF that] by (simp add: unat_sub word_le_nat_alt)
  show "post (if len \<noteq> 0 then move_oob nm off c ops else Some ops) (\<lambda>ops'. oob_room ops' (len - c) \<and>
     dat_room ops' dlen \<and> ops_oobretlen ops' + (len - c) = ops_oobretlen ops + len \<and> ops_retlen ops' = ops_retlen ops)"
  proof (cases "len = 0")
    case True
    then show ?thesis using room by (simp add: c_def)
  next
    case False
    have "post (move_oob nm off c ops) (oob_moved c ops)"
      using move_oob_post [OF room(1) False] c [OF False] by blast
    then show ?thesis
      using False oob_room_step [OF room(1) False c(2) [OF False]] room(2)
      by (auto elim!: post_mono simp: oob_moved_def dat_room_def)
  qed
qed

text \<open>\<open>mtd_done\<close>: the result of a transfer: the device is unchanged but for the instance and the
  page cache, and unless an error is reported everything was transferred.\<close>

definition mtd_done :: "'d nmbm_mtd \<Rightarrow> u64 \<Rightarrow> u64 \<Rightarrow> int \<times> mtd_oob_ops \<times> 'd nmbm_mtd \<Rightarrow> bool" where
  "mtd_done nm n k = (\<lambda>(r, ops', nm'). mtd_same nm nm' \<and>
     (0 \<le> r \<or> r = - EBADMSG \<longrightarrow> ops_retlen ops' = n \<and> ops_oobretlen ops' = k))"

lemma mtd_read_loop_post:
  assumes "mtd_ok nm" and "dat_room ops len" and "oob_room ops ooblen"
    and "len \<noteq> 0 \<longrightarrow> unat col < unat (mtd_writesize (lower_mtd nm))"
    and "ooblen \<noteq> 0 \<longrightarrow> unat ooboffs < unat maxooblen" and "unat maxooblen \<le> unat (mtd_oobsize (lower_mtd nm))"
  shows "post (mtd_read_loop nm addr ops mode dat oob len col ooblen maxooblen ooboffs ecc mb)
    (mtd_done nm (ops_retlen ops + len) (ops_oobretlen ops + ooblen))"
  using assms
proof (induction "unat len + unat ooblen" arbitrary: nm addr ops len col ooblen ooboffs ecc mb rule: less_induct)
  case less
  show ?case
  proof (cases "len \<noteq> 0 \<or> ooblen \<noteq> 0")
    case False
    then show ?thesis
      using less.prems(1) by (subst mtd_read_loop.simps) (simp add: mtd_done_def mtd_same_def)
  next
    case True
    from less.prems(1) obtain ni where ni: "nm_ni nm = Some ni" "nmbm_ok ni"
      and geo: "length (nm_page_cache nm) = unat (mtd_writesize (lower_mtd nm)) + unat (mtd_oobsize (lower_mtd nm))"
      by (auto elim: mtd_okE)
    have read: "post (nmbm_read_single_page (nm_ni nm) addr (cache_dat nm dat) (cache_oob nm oob) mode)
        (\<lambda>(r, d, ob, pni). mtd_same nm (put_caches (nm\<lparr>nm_ni := pni\<rparr>) d ob) \<and>
           length (nm_page_cache (put_caches (nm\<lparr>nm_ni := pni\<rparr>) d ob)) = length (nm_page_cache nm))"
      unfolding nmbm_read_single_page_def ni option.case
      using cache_rooms(1) [OF less.prems(1) ni(1), of dat] cache_rooms(2) [OF less.prems(1) ni(1), of oob] put_caches_length [OF less.prems(1)]
      by (auto intro!: post_mono [OF read_single_page_post [OF ni(2)]] put_caches_same [OF less.prems(1) ni(1)])
    have step: "post (do {
          ops \<leftarrow> (if len \<noteq> 0 then move_dat nm1 col c ops else Some ops);
          ops \<leftarrow> (if ooblen \<noteq> 0 then move_oob nm1 ooboffs k ops else Some ops);
          mtd_read_loop nm1 a ops mode dat oob (len - c) (if len \<noteq> 0 then 0 else col) (ooblen - k)
            maxooblen (if ooblen \<noteq> 0 then 0 else ooboffs) e m
        }) (mtd_done nm (ops_retlen ops + len) (ops_oobretlen ops + ooblen))"
      if s: "mtd_same nm nm1" and l: "length (nm_page_cache nm1) = length (nm_page_cache nm)"
        and c: "c = (if len \<noteq> 0 then dat_chunk nm1 col len else 0)"
        and k: "k = (if ooblen \<noteq> 0 then oob_chunk maxooblen ooboffs ooblen else 0)" for nm1 a e m c k
    proof -
      from s have nm1: "mtd_ok nm1" "lower_mtd nm1 = lower_mtd nm" by (auto simp: mtd_same_def)
      have fits: "unat (mtd_writesize (lower_mtd nm1)) \<le> length (nm_page_cache nm1)"
        "unat (mtd_writesize (lower_mtd nm1)) + unat maxooblen \<le> length (nm_page_cache nm1)"
        "len \<noteq> 0 \<longrightarrow> unat col < unat (mtd_writesize (lower_mtd nm1))"
        using less.prems(4,6) geo l nm1(2) by auto
      have pos: "0 < unat (mtd_writesize (lower_mtd nm1))"
        using nm1(1) chip_ok_page_pos [OF nmbm_okD(5)] by (auto elim!: mtd_okE)
      note d = dat_move_step [OF less.prems(2,3) fits(3,1) c]
      show ?thesis
      proof (rule post_bindI [OF d(1)], elim conjE)
        fix ops1
        assume o1: "dat_room ops1 (len - c)" "oob_room ops1 ooblen" "ops_retlen ops1 + (len - c) = ops_retlen ops + len"
          "ops_oobretlen ops1 = ops_oobretlen ops"
        note o = oob_move_step [OF o1(2,1) less.prems(5) fits(2) k]
        show "post (Option.bind (if ooblen \<noteq> 0 then move_oob nm1 ooboffs k ops1 else Some ops1)
            (\<lambda>ops. mtd_read_loop nm1 a ops mode dat oob (len - c) (if len \<noteq> 0 then 0 else col) (ooblen - k)
                maxooblen (if ooblen \<noteq> 0 then 0 else ooboffs) e m))
            (mtd_done nm (ops_retlen ops + len) (ops_oobretlen ops + ooblen))"
        proof (rule post_bindI [OF o(1)], elim conjE)
          fix ops2
          assume o2: "oob_room ops2 (ooblen - k)" "dat_room ops2 (len - c)"
            "ops_oobretlen ops2 + (ooblen - k) = ops_oobretlen ops1 + ooblen" "ops_retlen ops2 = ops_retlen ops1"
          have smaller: "unat (len - c) + unat (ooblen - k) < unat len + unat ooblen"
            using True d(2,3) o(2,3) by (cases "len = 0"; cases "ooblen = 0") (auto intro: add_strict_mono)
          have "post (mtd_read_loop nm1 a ops2 mode dat oob (len - c) (if len \<noteq> 0 then 0 else col) (ooblen - k)
                maxooblen (if ooblen \<noteq> 0 then 0 else ooboffs) e m)
            (mtd_done nm1 (ops_retlen ops2 + (len - c)) (ops_oobretlen ops2 + (ooblen - k)))"
          proof (rule less.hyps [OF smaller nm1(1) o2(2,1)])
            show "len - c \<noteq> 0 \<longrightarrow> unat (if len \<noteq> 0 then 0 else col) < unat (mtd_writesize (lower_mtd nm1))"
              using pos d(3) by simp
            show "ooblen - k \<noteq> 0 \<longrightarrow> unat (if ooblen \<noteq> 0 then 0 else ooboffs) < unat maxooblen"
              using less.prems(5) o(3) by auto
            show "unat maxooblen \<le> unat (mtd_oobsize (lower_mtd nm1))"
              using less.prems(6) nm1(2) by simp
          qed
          then show "post (mtd_read_loop nm1 a ops2 mode dat oob (len - c) (if len \<noteq> 0 then 0 else col) (ooblen - k)
                maxooblen (if ooblen \<noteq> 0 then 0 else ooboffs) e m)
            (mtd_done nm (ops_retlen ops + len) (ops_oobretlen ops + ooblen))"
            using o1(3,4) o2(3,4) s by (auto elim!: post_mono intro: mtd_same_trans simp: mtd_done_def)
        qed
      qed
    qed
    show ?thesis
      using True less.prems(1) step
      by (subst mtd_read_loop.simps)
        (auto simp: Let_def mtd_done_def intro!: post_mono [OF read])
  qed
qed
text \<open>What the MTD core passes to \<open>_read_oob\<close> and \<open>_write_oob\<close>: buffers as long as the request
  says, and no length without a buffer.\<close>

definition request_ok :: "u64 \<Rightarrow> mtd_oob_ops \<Rightarrow> bool" where
  "request_ok from ops \<longleftrightarrow> unat from + unat (ops_len ops) < 2 ^ 64 \<and>
     (case ops_datbuf ops of None \<Rightarrow> ops_len ops = 0 | Some b \<Rightarrow> unat (ops_len ops) \<le> length b) \<and>
     (case ops_oobbuf ops of None \<Rightarrow> ops_ooblen ops = 0 | Some b \<Rightarrow> unat (ops_ooblen ops) \<le> length b)"

text \<open>The upper device reports the same free spare bytes as the lower one: probing copies the sizes.\<close>

definition same_oobavail :: "'d mtd_core \<Rightarrow> 'd nmbm_mtd \<Rightarrow> bool" where
  "same_oobavail core nm \<longleftrightarrow> (\<forall>ops. core_oobavail core (upper nm) ops = core_oobavail core (lower_mtd nm) ops)"

lemma request_rooms:
  assumes "request_ok from ops"
  shows "dat_room (ops\<lparr>ops_oobretlen := 0, ops_retlen := 0\<rparr>) (ops_len ops)"
    and "oob_room (ops\<lparr>ops_oobretlen := 0, ops_retlen := 0\<rparr>) (ops_ooblen ops)"
  using assms unsigned_less [of "ops_len ops", where ?'a = nat] unsigned_less [of "ops_ooblen ops", where ?'a = nat]
  by (auto simp: request_ok_def dat_room_def oob_room_def split: option.splits)

lemma page_column_less:
  assumes "mtd_ok nm"
  shows "unat (page_column nm addr) < unat (mtd_writesize (lower_mtd nm))"
proof -
  from assms obtain ni where "nm_ni nm = Some ni" and ok: "nmbm_ok ni" and w: "mtd_writesize (lower_mtd nm) = writesize (lower ni)"
    and m: "mtd_writesize_mask (lower_mtd nm) = writesize (lower ni) - 1" by (auto simp: mtd_ok_def)
  have c: "unat (writesize (lower ni)) = 2 ^ unat (writesize_shift ni)" "0 < unat (writesize (lower ni))"
    using chip_ok_geometry(1) [OF nmbm_okD(5) [OF ok]] by simp_all
  show ?thesis unfolding page_column_def m w and_pow2_mask(1) [OF c(1)] using c(2) by (rule mod_less_divisor)
qed

lemma get_ready: "nm_state nm = FL_READY \<Longrightarrow> nmbm_get_device nm st = Some (nm\<lparr>nm_state := st\<rparr>)"
  by (simp add: nmbm_get_device_def)

lemma mtd_same_release:
  assumes "mtd_same (nm\<lparr>nm_state := st\<rparr>) nm'" and "nm_state nm = FL_READY"
  shows "mtd_same nm (nmbm_release_device nm')"
  using assms by (simp add: mtd_same_def nmbm_release_device_def)

lemma mtd_state_sels [simp]:
  "nm_ni (nm\<lparr>nm_state := st\<rparr>) = nm_ni nm" "lower_mtd (nm\<lparr>nm_state := st\<rparr>) = lower_mtd nm"
  "upper (nm\<lparr>nm_state := st\<rparr>) = upper nm"
  by simp_all

lemma nmbm_mtd_read_data_post:
  assumes ok: "mtd_ok nm" and oob: "oobavail_ok core (lower_mtd nm)" and rq: "request_ok from ops"
    and fit: "ops_ooblen ops \<noteq> 0 \<longrightarrow> ops_ooboffs ops < core_oobavail core (lower_mtd nm) ops"
  shows "post (nmbm_mtd_read_data core nm from ops mode) (mtd_done nm (ops_len ops) (ops_ooblen ops))"
  unfolding nmbm_mtd_read_data_def
  using mtd_read_loop_post [OF ok request_rooms [OF rq], of "page_column nm from" "ops_ooboffs ops"
      "ucast (core_oobavail core (lower_mtd nm) ops)"] page_column_less [OF ok] oob fit
  by (simp add: oobavail_ok_def word_less_nat_alt word_le_nat_alt)

text \<open>\<open>mtd_served\<close>: after the operation the device is released and unchanged but for the
  instance and the page cache; a transfer with spare bytes that reports no error is complete.\<close>

definition mtd_served :: "'d nmbm_mtd \<Rightarrow> mtd_oob_ops \<Rightarrow> int \<times> mtd_oob_ops \<times> 'd nmbm_mtd \<Rightarrow> bool" where
  "mtd_served nm ops = (\<lambda>(r, ops', nm'). mtd_same nm nm' \<and>
     (ops_oobbuf ops \<noteq> None \<and> (0 \<le> r \<or> r = - EBADMSG) \<longrightarrow>
        ops_retlen ops' = ops_len ops \<and> ops_oobretlen ops' = ops_ooblen ops))"

lemma served_refused: "mtd_ok nm \<Longrightarrow> r < 0 \<Longrightarrow> r \<noteq> - EBADMSG \<Longrightarrow> mtd_served nm ops (r, ops, nm)"
  by (simp add: mtd_served_def mtd_same_def)

lemma served_release:
  assumes "mtd_done (nm\<lparr>nm_state := st\<rparr>) (ops_len ops) (ops_ooblen ops) (r, ops', nm')" and "nm_state nm = FL_READY"
  shows "mtd_served nm ops (r, ops', nmbm_release_device nm')"
  using assms mtd_same_release [of st nm nm'] by (auto simp: mtd_served_def mtd_done_def)

lemma served_range:
  assumes "mtd_ok nm" and "nm_state nm = FL_READY" and "nm_ni nm = Some ni" and "nmbm_ok ni'" and "same_device ni ni'"
    and "ops_oobbuf ops = None"
  shows "mtd_served nm ops (r, ops', nmbm_release_device (nm\<lparr>nm_state := st, nm_ni := Some ni'\<rparr>))"
  using mtd_ok_instance [OF assms(1,3,4,5)] assms(2,6)
  by (simp add: mtd_served_def mtd_same_def nmbm_release_device_def mtd_ok_def)

lemma nmbm_mtd_read_oob_post:
  assumes ok: "mtd_ok nm" and st: "nm_state nm = FL_READY" and oob: "oobavail_ok core (lower_mtd nm)" "same_oobavail core nm"
    and rq: "request_ok from ops"
  shows "post (nmbm_mtd_read_oob core nm from ops) (mtd_served nm ops)"
proof -
  from ok obtain ni where ni: "nm_ni nm = Some ni" "nmbm_ok ni" by (rule mtd_okE)
  have range: "post (do {
        (ret, retlen, buf, pni) \<leftarrow> nmbm_read_range (nm_ni nm) from (ops_len ops) b mode;
        let ops = ops\<lparr>ops_datbuf := Some buf\<rparr>;
        let ops = (case retlen of None \<Rightarrow> ops | Some n \<Rightarrow> ops\<lparr>ops_retlen := n\<rparr>);
        Some (ret, ops, nmbm_release_device (nm\<lparr>nm_state := FL_READING, nm_ni := pni\<rparr>))
      }) (mtd_served nm ops)" if b: "ops_datbuf ops = Some b" "ops_oobbuf ops = None" for b mode
  proof -
    have len: "unat from + unat (ops_len ops) < 2 ^ 64" "unat (ops_len ops) \<le> length b"
      using rq b by (auto simp: request_ok_def)
    show ?thesis
      unfolding ni nmbm_read_range_def option.case Let_def
      by (auto intro!: post_mono [OF read_range_post [OF ni(2) len]] served_range [OF ok st ni(1) _ _ b(2)]
          intro: dev_le_nmbm_ok [OF _ ni(2)] dev_le_same_device)
  qed
  have pages: "post (do {
        (ret, ops, nm) \<leftarrow> nmbm_mtd_read_data core (nm\<lparr>nm_state := FL_READING\<rparr>) from ops mode;
        Some (ret, ops, nmbm_release_device nm)
      }) (mtd_served nm ops)" if "\<not> ops_ooboffs ops \<ge> core_oobavail core (upper nm) ops" for mode
    using that oob ok rq
    by (auto simp: same_oobavail_def intro!: post_mono [OF nmbm_mtd_read_data_post] served_release [OF _ st])
  show ?thesis
    unfolding nmbm_mtd_read_oob_def get_ready [OF st] Let_def
    using ok served_refused [OF ok] range pages
    by (auto simp: Let_def mtd_served_def mtd_same_def split: option.split)
qed

subsection \<open>Writing pages with spare bytes\<close>

lemma fill_rest:
  fixes w col :: u32 and c :: u64
  assumes "unat col + unat c \<le> unat w"
  shows "unat (ucast (w - col) - c :: u64) = unat w - unat col - unat c"
  using assms by (simp add: unat_sub word_le_nat_alt)

text \<open>What filling the page cache does to the device.\<close>

definition cache_filled :: "'d nmbm_mtd \<Rightarrow> 'd nmbm_mtd \<Rightarrow> bool" where
  "cache_filled nm nm' \<longleftrightarrow> mtd_same nm nm' \<and> nm_ni nm' = nm_ni nm \<and> length (nm_page_cache nm') = length (nm_page_cache nm)"

lemma cache_filledI:
  "mtd_ok nm \<Longrightarrow> length pc = length (nm_page_cache nm) \<Longrightarrow> cache_filled nm (nm\<lparr>nm_page_cache := pc\<rparr>)"
  by (simp add: cache_filled_def mtd_same_cache)

lemma cache_filled_trans: "cache_filled x y \<Longrightarrow> cache_filled y z \<Longrightarrow> cache_filled x z"
  by (auto simp: cache_filled_def intro: mtd_same_trans)

lemma cache_filled_refl: "mtd_ok nm \<Longrightarrow> cache_filled nm nm"
  by (simp add: cache_filled_def mtd_same_def)

lemma fill_dat_post:
  assumes ok: "mtd_ok nm" and room: "dat_room ops len" "len \<noteq> 0" and c: "unat c \<le> unat len"
    "unat col + unat c \<le> unat (mtd_writesize (lower_mtd nm))" and cache: "unat (mtd_writesize (lower_mtd nm)) \<le> length (nm_page_cache nm)"
  shows "post (fill_dat nm col c ops) (\<lambda>(ops', nm'). dat_moved c ops ops' \<and> cache_filled nm nm')"
  using assms by (auto simp: fill_dat_def dat_room_def dat_moved_def fill_rest intro!: cache_filledI)

lemma fill_oob_post:
  assumes ok: "mtd_ok nm" and room: "oob_room ops len" "len \<noteq> 0" and c: "unat c \<le> unat len"
    "unat off + unat c \<le> unat (mtd_oobsize (lower_mtd nm))"
    and cache: "unat (mtd_writesize (lower_mtd nm)) + unat (mtd_oobsize (lower_mtd nm)) \<le> length (nm_page_cache nm)"
  shows "post (fill_oob nm off c ops) (\<lambda>(ops', nm'). oob_moved c ops ops' \<and> cache_filled nm nm')"
  using assms by (auto simp: fill_oob_def Let_def oob_room_def oob_moved_def fill_rest intro!: cache_filledI)

lemma dat_fill_step:
  assumes ok: "mtd_ok nm" and room: "dat_room ops len" "oob_room ops ooblen"
    and fit: "len \<noteq> 0 \<longrightarrow> unat col < unat (mtd_writesize (lower_mtd nm))"
    and cache: "unat (mtd_writesize (lower_mtd nm)) \<le> length (nm_page_cache nm)"
    and c_def: "c = (if len \<noteq> 0 then dat_chunk nm col len else 0)"
  shows "post (if len \<noteq> 0 then fill_dat nm col c ops else Some (ops, nm)) (\<lambda>(ops', nm'). dat_room ops' (len - c) \<and>
     oob_room ops' ooblen \<and> ops_retlen ops' + (len - c) = ops_retlen ops + len \<and> ops_oobretlen ops' = ops_oobretlen ops \<and>
     cache_filled nm nm')"
    and "len \<noteq> 0 \<Longrightarrow> unat (len - c) < unat len" and "len = 0 \<Longrightarrow> len - c = 0"
proof -
  show "len = 0 \<Longrightarrow> len - c = 0" by (simp add: c_def)
  have c: "0 < unat c" "unat c \<le> unat len" "unat col + unat c \<le> unat (mtd_writesize (lower_mtd nm))" if "len \<noteq> 0"
    using that fit dat_chunk_facts [OF that, of col nm] by (auto simp: c_def unat_gt_0)
  show "unat (len - c) < unat len" if "len \<noteq> 0" using c [OF that] by (simp add: unat_sub word_le_nat_alt)
  show "post (if len \<noteq> 0 then fill_dat nm col c ops else Some (ops, nm)) (\<lambda>(ops', nm'). dat_room ops' (len - c) \<and>
     oob_room ops' ooblen \<and> ops_retlen ops' + (len - c) = ops_retlen ops + len \<and> ops_oobretlen ops' = ops_oobretlen ops \<and>
     cache_filled nm nm')"
  proof (cases "len = 0")
    case True
    then show ?thesis using room ok by (simp add: c_def cache_filled_refl)
  next
    case False
    then show ?thesis
      using fill_dat_post [OF ok room(1) False c(2,3) cache] dat_room_step [OF room(1) False c(2) [OF False]] room(2)
      by (auto elim!: post_mono simp: dat_moved_def oob_room_def)
  qed
qed

lemma oob_fill_step:
  assumes ok: "mtd_ok nm" and room: "oob_room ops len" "dat_room ops dlen"
    and fit: "len \<noteq> 0 \<longrightarrow> unat off < unat mx" and mx: "unat mx \<le> unat (mtd_oobsize (lower_mtd nm))"
    and cache: "unat (mtd_writesize (lower_mtd nm)) + unat (mtd_oobsize (lower_mtd nm)) \<le> length (nm_page_cache nm)"
    and c_def: "c = (if len \<noteq> 0 then oob_chunk mx off len else 0)"
  shows "post (if len \<noteq> 0 then fill_oob nm off c ops else Some (ops, nm)) (\<lambda>(ops', nm'). oob_room ops' (len - c) \<and>
     dat_room ops' dlen \<and> ops_oobretlen ops' + (len - c) = ops_oobretlen ops + len \<and> ops_retlen ops' = ops_retlen ops \<and>
     cache_filled nm nm')"
    and "len \<noteq> 0 \<Longrightarrow> unat (len - c) < unat len" and "len = 0 \<Longrightarrow> len - c = 0"
proof -
  show "len = 0 \<Longrightarrow> len - c = 0" by (simp add: c_def)
  have c: "0 < unat c" "unat c \<le> unat len" "unat off + unat c \<le> unat (mtd_oobsize (lower_mtd nm))" if "len \<noteq> 0"
    using that fit mx oob_chunk_facts [OF that, of off mx] by (auto simp: c_def unat_gt_0)
  show "unat (len - c) < unat len" if "len \<noteq> 0" using c [OF that] by (simp add: unat_sub word_le_nat_alt)
  show "post (if len \<noteq> 0 then fill_oob nm off c ops else Some (ops, nm)) (\<lambda>(ops', nm'). oob_room ops' (len - c) \<and>
     dat_room ops' dlen \<and> ops_oobretlen ops' + (len - c) = ops_oobretlen ops + len \<and> ops_retlen ops' = ops_retlen ops \<and>
     cache_filled nm nm')"
  proof (cases "len = 0")
    case True
    then show ?thesis using room ok by (simp add: c_def cache_filled_refl)
  next
    case False
    then show ?thesis
      using fill_oob_post [OF ok room(1) False c(2,3) cache] oob_room_step [OF room(1) False c(2) [OF False]] room(2)
      by (auto elim!: post_mono simp: oob_moved_def dat_room_def)
  qed
qed

text \<open>Writing one page and going on.\<close>

lemma write_page_step:
  assumes ok: "mtd_ok nm" and next_page: "\<And>nm'. mtd_same nm nm' \<Longrightarrow> length (nm_page_cache nm') = length (nm_page_cache nm) \<Longrightarrow> post (f nm') P"
    and stop: "\<And>r nm'. mtd_same nm nm' \<Longrightarrow> r < 0 \<Longrightarrow> r \<noteq> - EBADMSG \<Longrightarrow> P (r, ops, nm')"
  shows "post (do {
      (ret, pni) \<leftarrow> nmbm_write_single_page (nm_ni nm) addr (cache_dat nm dat) (cache_oob nm oob) mode;
      let nm = nm\<lparr>nm_ni := pni\<rparr>;
      if ret \<noteq> 0 then Some (ret, ops, nm) else f nm
    }) P"
proof -
  from ok obtain ni where ni: "nm_ni nm = Some ni" "nmbm_ok ni" by (rule mtd_okE)
  have same: "mtd_same nm (nm\<lparr>nm_ni := Some ni'\<rparr>)" if "nmbm_ok ni'" "same_device ni ni'" for ni'
    using mtd_ok_instance [OF ok ni(1) that] by (simp add: mtd_same_def)
  show ?thesis
    unfolding nmbm_write_single_page_def ni option.case Let_def
    by (auto intro!: post_mono [OF write_single_page_post [OF ni(2) cache_rooms [OF ok ni(1)]]] next_page stop same ni(2))
qed

lemma mtd_write_loop_post:
  assumes "mtd_ok nm" and "dat_room ops len" and "oob_room ops ooblen"
    and "len \<noteq> 0 \<longrightarrow> unat col < unat (mtd_writesize (lower_mtd nm))"
    and "ooblen \<noteq> 0 \<longrightarrow> unat ooboffs < unat maxooblen" and "unat maxooblen \<le> unat (mtd_oobsize (lower_mtd nm))"
  shows "post (mtd_write_loop nm addr ops mode dat oob len col ooblen maxooblen ooboffs)
    (mtd_done nm (ops_retlen ops + len) (ops_oobretlen ops + ooblen))"
  using assms
proof (induction "unat len + unat ooblen" arbitrary: nm addr ops len col ooblen ooboffs rule: less_induct)
  case less
  show ?case
  proof (cases "len \<noteq> 0 \<or> ooblen \<noteq> 0")
    case False
    then show ?thesis
      using less.prems(1) by (subst mtd_write_loop.simps) (simp add: mtd_done_def mtd_same_def)
  next
    case True
    have geo: "length (nm_page_cache nm) = unat (mtd_writesize (lower_mtd nm)) + unat (mtd_oobsize (lower_mtd nm))"
      and pos: "0 < unat (mtd_writesize (lower_mtd nm))"
      using less.prems(1) chip_ok_page_pos [OF nmbm_okD(5)] by (auto elim!: mtd_okE)
    define c where "c = (if len \<noteq> 0 then dat_chunk nm col len else 0)"
    define k where "k = (if ooblen \<noteq> 0 then oob_chunk maxooblen ooboffs ooblen else 0)"
    note d = dat_fill_step [OF less.prems(1-4) _ c_def]
    have body: "post (do {
        (ops, nm) \<leftarrow> (if len \<noteq> 0 then fill_dat nm col c ops else Some (ops, nm));
        (ops, nm) \<leftarrow> (if ooblen \<noteq> 0 then fill_oob nm ooboffs k ops else Some (ops, nm));
        (ret, pni) \<leftarrow> nmbm_write_single_page (nm_ni nm) addr (cache_dat nm dat) (cache_oob nm oob) mode;
        let nm = nm\<lparr>nm_ni := pni\<rparr>;
        if ret \<noteq> 0 then Some (ret, ops, nm)
        else mtd_write_loop nm (addr + ucast (mtd_writesize (lower_mtd nm))) ops mode dat oob
          (len - c) (if len \<noteq> 0 then 0 else col) (ooblen - k) maxooblen (if ooblen \<noteq> 0 then 0 else ooboffs)
      }) (mtd_done nm (ops_retlen ops + len) (ops_oobretlen ops + ooblen))"
    proof (rule post_bindI [OF d(1)], use geo in simp, clarify)
      fix ops1 nm1
      assume o1: "dat_room ops1 (len - c)" "oob_room ops1 ooblen" "ops_retlen ops1 + (len - c) = ops_retlen ops + len"
        "ops_oobretlen ops1 = ops_oobretlen ops" and f1: "cache_filled nm nm1"
      from f1 have nm1: "mtd_ok nm1" "lower_mtd nm1 = lower_mtd nm" "length (nm_page_cache nm1) = length (nm_page_cache nm)"
        by (auto simp: cache_filled_def mtd_same_def)
      note o = oob_fill_step [OF nm1(1) o1(2,1) less.prems(5) _ _ k_def]
      show "post (do {
          (ops, nm) \<leftarrow> (if ooblen \<noteq> 0 then fill_oob nm1 ooboffs k ops1 else Some (ops1, nm1));
          (ret, pni) \<leftarrow> nmbm_write_single_page (nm_ni nm) addr (cache_dat nm dat) (cache_oob nm oob) mode;
          let nm = nm\<lparr>nm_ni := pni\<rparr>;
          if ret \<noteq> 0 then Some (ret, ops, nm)
          else mtd_write_loop nm (addr + ucast (mtd_writesize (lower_mtd nm))) ops mode dat oob
            (len - c) (if len \<noteq> 0 then 0 else col) (ooblen - k) maxooblen (if ooblen \<noteq> 0 then 0 else ooboffs)
        }) (mtd_done nm (ops_retlen ops + len) (ops_oobretlen ops + ooblen))"
      proof (rule post_bindI [OF o(1)], use less.prems(6) nm1 geo in simp, use nm1 geo in simp, clarify)
        fix ops2 nm2
        assume o2: "oob_room ops2 (ooblen - k)" "dat_room ops2 (len - c)"
          "ops_oobretlen ops2 + (ooblen - k) = ops_oobretlen ops1 + ooblen" "ops_retlen ops2 = ops_retlen ops1" and f2: "cache_filled nm1 nm2"
        have f: "mtd_same nm nm2" "mtd_ok nm2" "lower_mtd nm2 = lower_mtd nm"
          using cache_filled_trans [OF f1 f2] by (auto simp: cache_filled_def mtd_same_def)
        have smaller: "unat (len - c) + unat (ooblen - k) < unat len + unat ooblen"
          using True d(2,3) o(2,3) less.prems(6) nm1 geo
          by (cases "len = 0"; cases "ooblen = 0") (auto intro: add_strict_mono)
        show "post (do {
            (ret, pni) \<leftarrow> nmbm_write_single_page (nm_ni nm2) addr (cache_dat nm2 dat) (cache_oob nm2 oob) mode;
            let nm = nm2\<lparr>nm_ni := pni\<rparr>;
            if ret \<noteq> 0 then Some (ret, ops2, nm)
            else mtd_write_loop nm (addr + ucast (mtd_writesize (lower_mtd nm))) ops2 mode dat oob
              (len - c) (if len \<noteq> 0 then 0 else col) (ooblen - k) maxooblen (if ooblen \<noteq> 0 then 0 else ooboffs)
          }) (mtd_done nm (ops_retlen ops + len) (ops_oobretlen ops + ooblen))"
        proof (rule write_page_step [OF f(2)])
          fix nm3
          assume "mtd_same nm2 nm3"
          then have nm3: "mtd_same nm nm3" "mtd_ok nm3" "lower_mtd nm3 = lower_mtd nm"
            using f by (auto simp: mtd_same_def)
          have "post (mtd_write_loop nm3 (addr + ucast (mtd_writesize (lower_mtd nm3))) ops2 mode dat oob
              (len - c) (if len \<noteq> 0 then 0 else col) (ooblen - k) maxooblen (if ooblen \<noteq> 0 then 0 else ooboffs))
            (mtd_done nm3 (ops_retlen ops2 + (len - c)) (ops_oobretlen ops2 + (ooblen - k)))"
          proof (rule less.hyps [OF smaller nm3(2) o2(2,1)])
            show "len - c \<noteq> 0 \<longrightarrow> unat (if len \<noteq> 0 then 0 else col) < unat (mtd_writesize (lower_mtd nm3))"
              using pos nm3(3) by (simp add: c_def)
            show "ooblen - k \<noteq> 0 \<longrightarrow> unat (if ooblen \<noteq> 0 then 0 else ooboffs) < unat maxooblen"
              using less.prems(5) by (auto simp: k_def)
            show "unat maxooblen \<le> unat (mtd_oobsize (lower_mtd nm3))"
              using less.prems(6) nm3(3) by simp
          qed
          then show "post (mtd_write_loop nm3 (addr + ucast (mtd_writesize (lower_mtd nm3))) ops2 mode dat oob
              (len - c) (if len \<noteq> 0 then 0 else col) (ooblen - k) maxooblen (if ooblen \<noteq> 0 then 0 else ooboffs))
            (mtd_done nm (ops_retlen ops + len) (ops_oobretlen ops + ooblen))"
            using o1(3,4) o2(3,4) nm3(1) by (auto elim!: post_mono intro: mtd_same_trans simp: mtd_done_def)
        next
          fix r nm3
          assume "mtd_same nm2 nm3" "r < 0" "r \<noteq> - EBADMSG"
          then show "mtd_done nm (ops_retlen ops + len) (ops_oobretlen ops + ooblen) (r, ops2, nm3)"
            using f(1) by (auto simp: mtd_done_def intro: mtd_same_trans)
        qed
      qed
    qed
    show ?thesis
      using True body unfolding c_def k_def by (subst mtd_write_loop.simps) (simp add: Let_def)
  qed
qed

lemma nmbm_mtd_write_data_post:
  assumes ok: "mtd_ok nm" and oob: "oobavail_ok core (lower_mtd nm)" and rq: "request_ok to ops"
    and fit: "ops_ooblen ops \<noteq> 0 \<longrightarrow> ops_ooboffs ops < core_oobavail core (lower_mtd nm) ops"
  shows "post (nmbm_mtd_write_data core nm to ops mode) (mtd_done nm (ops_len ops) (ops_ooblen ops))"
  unfolding nmbm_mtd_write_data_def
  using mtd_write_loop_post [OF ok request_rooms [OF rq], of "page_column nm to" "ops_ooboffs ops"
      "ucast (core_oobavail core (lower_mtd nm) ops)"] page_column_less [OF ok] oob fit
  by (simp add: oobavail_ok_def word_less_nat_alt word_le_nat_alt)

lemma nmbm_mtd_write_oob_post:
  assumes ok: "mtd_ok nm" and st: "nm_state nm = FL_READY" and oob: "oobavail_ok core (lower_mtd nm)" "same_oobavail core nm"
    and rq: "request_ok to ops"
  shows "post (nmbm_mtd_write_oob core nm to ops) (mtd_served nm ops)"
proof -
  from ok obtain ni where ni: "nm_ni nm = Some ni" "nmbm_ok ni" by (rule mtd_okE)
  have range: "post (do {
        (ret, retlen, pni) \<leftarrow> nmbm_write_range (nm_ni nm) to (ops_len ops) b mode;
        let ops = (case retlen of None \<Rightarrow> ops | Some n \<Rightarrow> ops\<lparr>ops_retlen := n\<rparr>);
        Some (ret, ops, nmbm_release_device (nm\<lparr>nm_state := FL_WRITING, nm_ni := pni\<rparr>))
      }) (mtd_served nm ops)" if b: "ops_datbuf ops = Some b" "ops_oobbuf ops = None" for b mode
  proof -
    have len: "unat to + unat (ops_len ops) < 2 ^ 64" "unat (ops_len ops) \<le> length b"
      using rq b by (auto simp: request_ok_def)
    show ?thesis
      unfolding ni nmbm_write_range_def option.case Let_def
      by (auto intro!: post_mono [OF write_range_post [OF ni(2) len]] served_range [OF ok st ni(1) _ _ b(2)])
  qed
  have pages: "post (do {
        (ret, ops, nm) \<leftarrow> nmbm_mtd_write_data core (nm\<lparr>nm_state := FL_WRITING\<rparr>) to ops mode;
        Some (ret, ops, nmbm_release_device nm)
      }) (mtd_served nm ops)" if "\<not> ops_ooboffs ops \<ge> core_oobavail core (upper nm) ops" for mode
    using that oob ok rq
    by (auto simp: same_oobavail_def intro!: post_mono [OF nmbm_mtd_write_data_post] served_release [OF _ st])
  show ?thesis
    unfolding nmbm_mtd_write_oob_def get_ready [OF st] Let_def
    using ok served_refused [OF ok] range pages
    by (auto simp: Let_def mtd_served_def mtd_same_def split: option.split)
qed

section \<open>The lower device that probing builds\<close>

text \<open>The MTD core stores into the buffers of a request without changing their size.\<close>

definition core_keeps_buffers :: "'d mtd_core \<Rightarrow> bool" where
  "core_keeps_buffers core \<longleftrightarrow> (\<forall>d addr ops. case core_read_oob core d addr ops of (r, ops', d') \<Rightarrow>
     same_shape (ops_datbuf ops) (ops_datbuf ops') \<and> same_shape (ops_oobbuf ops) (ops_oobbuf ops'))"

lemma page_ops_buffers [simp]:
  "ops_datbuf (page_ops core low m buf oob) = buf" "ops_oobbuf (page_ops core low m buf oob) = oob"
  by (auto simp: page_ops_def Let_def)

lemma lower_read_page_shape:
  assumes "core_keeps_buffers core" and "nmbm_lower_read_page core low a addr d ob m = (r, d', ob', a')"
  shows "same_shape d d' \<and> same_shape ob ob'"
proof (cases "mtd_mode_of m")
  case None
  then show ?thesis using assms(2) by (simp add: nmbm_lower_read_page_def)
next
  case (Some md)
  obtain r1 ops1 d1 where c: "core_read_oob core (lower_dev a) addr (page_ops core low md d ob) = (r1, ops1, d1)"
    by (metis prod_cases3)
  have "same_shape d (ops_datbuf ops1) \<and> same_shape ob (ops_oobbuf ops1)"
    using assms(1) c unfolding core_keeps_buffers_def by (metis (mono_tags, lifting) case_prod_conv page_ops_buffers)
  moreover have "d' = ops_datbuf ops1 \<and> ob' = ops_oobbuf ops1"
    using assms(2) unfolding nmbm_lower_read_page_def Some option.case c Let_def case_prod_conv
    by (simp split: if_split_asm)
  ultimately show ?thesis by simp
qed

lemma probe_driver_ok:
  assumes "core_keeps_buffers core"
  shows "driver_ok (probe_lower_device core crc low props)"
  by (auto simp: driver_ok_def probe_lower_device_def dest: lower_read_page_shape [OF assms] split: prod.split)

end
