(* ===== verification/Mtd_Properties.thy ===== *)
theory Mtd_Properties
  imports Nmbm_Mtd Nmbm_Sample
begin

text \<open>
  The properties of the MTD layer on NMBM: the lock of the device and the operations of the upper
  device, with instances on a small MTD device built on the chip of \<open>Nmbm_Sample\<close>.
\<close>

section \<open>A small MTD device\<close>

definition sample_core :: "chip mtd_core" where
  "sample_core = \<lparr>
     core_read_oob = (\<lambda>c addr ops. (0, ops\<lparr>ops_datbuf := map_option (\<lambda>b. take (length b) (chip_page c addr @ drop 32 b)) (ops_datbuf ops)\<rparr>, c)),
     core_write_oob = (\<lambda>c addr ops. (0, ops, case ops_datbuf ops of None \<Rightarrow> c | Some b \<Rightarrow> c(addr := take 32 b))),
     core_erase = (\<lambda>c ei. (0, ei, snd (chip_erase c (ei_addr ei)))),
     core_block_isbad = (\<lambda>c a. (0, c)), core_block_markbad = (\<lambda>c a. (0, c)),
     core_oobavail = (\<lambda>m ops. if ops_mode ops = MTD_OPS_AUTO_OOB then mtd_oobavail m else mtd_oobsize m),
     core_corrected = (\<lambda>c. 0), core_failed = (\<lambda>c. 0)\<rparr>"

definition sample_info :: mtd_info where
  "sample_info = \<lparr>mtd_size = 8192, mtd_erasesize = 128, mtd_writesize = 32, mtd_writebufsize = 32, mtd_oobsize = 16,
     mtd_oobavail = 8, mtd_erasesize_shift = 7, mtd_writesize_shift = 5, mtd_erasesize_mask = 127,
     mtd_writesize_mask = 31, mtd_bitflip_threshold = 1, mtd_ecc_step_size = 32, mtd_ecc_strength = 4,
     mtd_type = 4, mtd_flags = 0\<rparr>"

definition sample_props :: nmbm_props where
  "sample_props = \<lparr>prop_max_ratio = Some 4, prop_max_reserved_blocks = Some 0, prop_forced_create = True,
     prop_empty_page_ecc = False\<rparr>"

definition sample_mtd_lower :: "chip nmbm_arg nmbm_lower_device" where
  "sample_mtd_lower = probe_lower_device sample_core (os_crc32_le sample_lower) sample_info sample_props"

definition sample_mtd :: "chip nmbm_mtd" where
  "sample_mtd = (let ni = instance_on sample_mtd_lower
       \<lparr>lower_dev = (\<lambda>a. replicate 32 (ucast a)), upper_corrected = 0, upper_failed = 0\<rparr> in
     \<lparr>upper = probe_upper ni sample_info, lower_mtd = sample_info, nm_ni = Some ni,
      nm_page_cache = replicate 48 0, nm_state = FL_READY\<rparr>)"

lemma sample_mtd_driver: "driver_ok sample_mtd_lower"
  unfolding sample_mtd_lower_def
  by (rule probe_driver_ok)
    (auto simp: core_keeps_buffers_def sample_core_def map_option_case chip_page_def split: option.split)

lemma sample_mtd_ok [simp]: "mtd_ok sample_mtd"
proof -
  have "nmbm_ok (instance_on sample_mtd_lower a)" for a
    by (rule instance_on_ok [OF sample_mtd_driver]) (simp_all add: sample_mtd_lower_def probe_lower_device_def sample_info_def)
  then show ?thesis
    by (simp add: mtd_ok_def sample_mtd_def Let_def) (simp add: instance_on_def sample_mtd_lower_def probe_lower_device_def sample_info_def)
qed

lemma sample_mtd_sels [simp]:
  "nm_state sample_mtd = FL_READY" "lower_mtd sample_mtd = sample_info"
  by (simp_all add: sample_mtd_def Let_def)

lemma sample_oobavail [simp]: "oobavail_ok sample_core sample_info" "same_oobavail sample_core sample_mtd"
  by (auto simp: oobavail_ok_def same_oobavail_def sample_core_def sample_info_def sample_mtd_def probe_upper_def Let_def)

definition sample_request :: mtd_oob_ops where
  "sample_request = \<lparr>ops_mode = MTD_OPS_PLACE_OOB, ops_len = 40, ops_retlen = 0, ops_ooblen = 20, ops_oobretlen = 0,
     ops_ooboffs = 4, ops_datbuf = Some (replicate 40 1), ops_oobbuf = Some (replicate 20 2)\<rparr>"

lemma sample_request_ok [simp]: "request_ok 96 sample_request"
  by (simp add: request_ok_def sample_request_def)

section \<open>Runs of the small device\<close>

lemma sample_inside: "lock_reach (sample_mtd\<lparr>nm_state := st\<rparr>, (\<lambda>_. Outside)(1 := Inside st))" if "st \<noteq> FL_READY"
proof -
  have "lock_reach (sample_mtd, (\<lambda>_. Outside)(1 := Trying st))"
    by (rule lock_reach.step [OF lock_reach.start [of sample_mtd]]) (simp, rule lock_step.call, simp, rule that)
  then have "lock_reach (sample_mtd\<lparr>nm_state := st\<rparr>, ((\<lambda>_. Outside)(1 := Trying st))(1 := Inside st))"
    by (rule lock_reach.step) (rule lock_step.acquire, auto simp: nmbm_get_device_def)
  then show ?thesis by simp
qed

lemma sample_asleep: "lock_reach (sample_mtd\<lparr>nm_state := FL_READING\<rparr>, (\<lambda>_. Outside)(1 := Inside FL_READING, 2 := Asleep FL_WRITING))"
proof -
  have "lock_reach (sample_mtd\<lparr>nm_state := FL_READING\<rparr>, (\<lambda>_. Outside)(1 := Inside FL_READING, 2 := Trying FL_WRITING))"
    by (rule lock_reach.step [OF sample_inside [of FL_READING]]) (auto intro: lock_step.call)
  then have "lock_reach (sample_mtd\<lparr>nm_state := FL_READING\<rparr>,
      ((\<lambda>_. Outside)(1 := Inside FL_READING, 2 := Trying FL_WRITING))(2 := Asleep FL_WRITING))"
    by (rule lock_reach.step) (rule lock_step.sleep, auto simp: nmbm_get_device_def)
  then show ?thesis by simp
qed

section \<open>The lock of the device\<close>

text \<open>C12: At most one task works on the device: if a task is inside the device, other than to shut
  it down, then no other task is inside.\<close>

theorem device_mutual_exclusion:
  assumes "lock_reach (nm, t)" and "t i = Inside a" and "t j = Inside b" and "a \<noteq> FL_PM_SUSPENDED"
  shows "i = j"
proof -
  have "lock_inv (nm, t)" using lock_reach_inv [OF assms(1)] by simp
  then have "a = b" and "\<And>i j st. t i = Inside st \<Longrightarrow> t j = Inside st \<Longrightarrow> st \<noteq> FL_PM_SUSPENDED \<Longrightarrow> i = j"
    using assms(2,3) unfolding lock_inv_def case_prod_conv by (metis, blast)
  then show ?thesis using assms(2,3,4) by blast
qed

lemma device_mutual_exclusion_sample:
  "\<exists>(nm :: chip nmbm_mtd) t. lock_reach (nm, t) \<and> {j. \<exists>b. t j = Inside b} = {1}"
proof (intro exI conjI)
  let ?t = "(\<lambda>_. Outside)(1 := Inside FL_READING)"
  show r: "lock_reach (sample_mtd\<lparr>nm_state := FL_READING\<rparr>, ?t)" by (rule sample_inside) simp
  have "1 = j" if "?t j = Inside b" for j :: nat and b
    by (rule device_mutual_exclusion [OF r, of 1 FL_READING j b]) (use that in simp_all)
  then show "{j. \<exists>b. ?t j = Inside b} = {1}" by auto
qed

text \<open>C13: No wake-up is lost: as long as a task sleeps, the device is suspended, or another task is
  inside whose release wakes the sleeper.\<close>

theorem device_no_lost_wakeup:
  assumes "lock_reach (nm, t)" and "t i = Asleep st"
  shows "nm_state nm = FL_PM_SUSPENDED \<or>
    (\<exists>j. t j = Inside (nm_state nm) \<and>
       lock_step (nm, t) (nmbm_release_device nm, (\<lambda>k. wake (t k))(j := Outside)) \<and> wake (t i) = Trying st)"
proof -
  have "lock_inv (nm, t)" "lock_busy (nm, t)" using lock_reach_inv [OF assms(1)] by simp_all
  then have "nm_state nm \<noteq> FL_READY" and "nm_state nm \<noteq> FL_PM_SUSPENDED \<longrightarrow> (\<exists>j. t j = Inside (nm_state nm))"
    using assms(2) unfolding lock_inv_def lock_busy_def case_prod_conv by blast+
  then show ?thesis using assms(2) by (auto intro: lock_step.release)
qed

lemma device_no_lost_wakeup_sample:
  "\<exists>j. ((\<lambda>_. Outside)(1 := Inside FL_READING, (2::nat) := Asleep FL_WRITING)) j = Inside FL_READING"
  using device_no_lost_wakeup [OF sample_asleep, of 2 FL_WRITING] by auto

text \<open>A device that was shut down stays suspended, whatever the tasks do.\<close>

theorem device_stays_suspended:
  assumes "lock_reach (nm, t)" and "nm_state nm = FL_PM_SUSPENDED" and "lock_step (nm, t) (nm', t')"
  shows "nm_state nm' = FL_PM_SUSPENDED"
  using lock_suspended_step [OF assms(3) _ assms(2)] lock_reach_inv [OF assms(1)] by simp

lemma device_stays_suspended_sample: "nm_state (sample_mtd\<lparr>nm_state := FL_PM_SUSPENDED\<rparr>) = FL_PM_SUSPENDED"
  by (rule device_stays_suspended [OF sample_inside _ lock_step.call [of _ 2 FL_READING]]) simp_all

section \<open>Operations of the upper device\<close>



text \<open>Writing with spare bytes through the upper device, likewise.\<close>

theorem mtd_write_oob_served:
  assumes "mtd_ok nm" and "nm_state nm = FL_READY" and "oobavail_ok core (lower_mtd nm)" and "same_oobavail core nm"
    and "request_ok to ops"
  shows "post (nmbm_mtd_write_oob core nm to ops) (\<lambda>(r, ops', nm'). mtd_same nm nm' \<and> nm_state nm' = FL_READY \<and>
     (ops_oobbuf ops \<noteq> None \<and> (0 \<le> r \<or> r = - EBADMSG) \<longrightarrow>
        ops_retlen ops' = ops_len ops \<and> ops_oobretlen ops' = ops_ooblen ops))"
  by (rule post_mono [OF nmbm_mtd_write_oob_post [OF assms]]) (use assms(2) in \<open>auto simp: mtd_served_def mtd_same_def\<close>)

lemma mtd_write_oob_sample: "\<exists>r ops' nm'. nmbm_mtd_write_oob sample_core sample_mtd 96 sample_request = Some (r, ops', nm') \<and>
   mtd_ok nm' \<and> nm_state nm' = FL_READY"
  using mtd_write_oob_served [of sample_mtd sample_core 96 sample_request] by (auto simp: post_iff mtd_same_def)

text \<open>For an address below four gigabytes the page address of a transfer with spare bytes is the
  start of its page; but the inverted page mask is only 32 bits wide, so that every page address
  lies in the first four gigabytes, whatever address was requested.\<close>

theorem page_address_32_bits:
  assumes "mtd_ok nm"
  shows "unat (page_address nm addr) < 2 ^ 32 \<and> (unat addr < 2 ^ 32 \<longrightarrow>
    unat (page_address nm addr) = unat addr - unat addr mod unat (mtd_writesize (lower_mtd nm)))"
proof -
  from assms obtain ni where "nm_ni nm = Some ni" and ok: "nmbm_ok ni"
    and w: "mtd_writesize (lower_mtd nm) = writesize (lower ni)"
    and m: "mtd_writesize_mask (lower_mtd nm) = writesize (lower ni) - 1" by (auto simp: mtd_ok_def)
  have pow: "unat (writesize (lower ni)) = 2 ^ unat (writesize_shift ni)"
    by (rule chip_ok_geometry(1) [OF nmbm_okD(5) [OF ok]])
  have "page_address nm addr \<le> ucast (NOT (mtd_writesize_mask (lower_mtd nm)))"
    unfolding page_address_def by (rule word_and_le1)
  then have "unat (page_address nm addr) < 2 ^ 32"
    using unsigned_less [of "NOT (mtd_writesize_mask (lower_mtd nm))", where ?'a = nat] by (simp add: word_le_nat_alt)
  moreover have "unat (page_address nm addr) = unat addr - unat addr mod unat (mtd_writesize (lower_mtd nm))"
    if "unat addr < 2 ^ 32"
    unfolding page_address_def m w by (rule and_not_mask [OF pow that])
  ultimately show ?thesis by simp
qed

lemma page_address_sample: "unat (page_address sample_mtd 0x1234567890) < 2 ^ 32"
  using page_address_32_bits [of sample_mtd "0x1234567890"] by simp

end
