(* ===== verification/Kvc.thy ===== *)
theory Kvc
  imports Prelude
begin

text \<open>
  The key-value configuration library of datconf (\<open>libkvcutil.c\<close>): parsing a configuration file
  into items, looking keys up, setting and deleting them, enumerating and writing them back.

  A C string is the list of its bytes before the terminating null byte; a null pointer is
  \<^term>\<open>None\<close>.  \<open>allocs\<close> holds the outcomes of the coming memory allocations; when it is empty
  they all succeed.  A result \<^term>\<open>None\<close> is a memory access out of bounds or through a null
  pointer.  Freeing memory is not modelled.
\<close>

section \<open>Characters and strings\<close>

abbreviation (input) LF :: u8 where "LF \<equiv> 10"
abbreviation (input) CR :: u8 where "CR \<equiv> 13"
abbreviation (input) EQ :: u8 where "EQ \<equiv> 61"
abbreviation (input) HASH :: u8 where "HASH \<equiv> 35"

definition is_eol :: "u8 \<Rightarrow> bool" where
  "is_eol c \<longleftrightarrow> c = CR \<or> c = LF"

definition is_ws :: "u8 \<Rightarrow> bool" where
  "is_ws c \<longleftrightarrow> c = 0x20 \<or> c = 9"

abbreviation (input) EOL_LF :: u32 where "EOL_LF \<equiv> 0"
abbreviation (input) EOL_CR :: u32 where "EOL_CR \<equiv> 1"
abbreviation (input) EOL_CRLF :: u32 where "EOL_CRLF \<equiv> 2"

definition eol_str :: "u32 \<Rightarrow> cstr option" where
  "eol_str e = (if e = EOL_LF then Some [LF] else if e = EOL_CR then Some [CR]
     else if e = EOL_CRLF then Some [CR, LF] else None)"

text \<open>\<open>strcrlf\<close> and \<open>strnull\<close> return the distance of the character they find from the start of
  the string.  The argument is the memory from the pointer to the end of its object.\<close>

fun strcrlf :: "u8 list \<Rightarrow> nat option option" where
  "strcrlf [] = None"
| "strcrlf (c # s) =
     (if c = 0 then Some None
      else if is_eol c then Some (Some 0)
      else do { r \<leftarrow> strcrlf s; Some (map_option Suc r) })"

fun strnull :: "u8 list \<Rightarrow> nat \<Rightarrow> nat option option" where
  "strnull s 0 = Some None"
| "strnull [] (Suc n) = None"
| "strnull (c # s) (Suc n) =
     (if c = 0 then Some (Some 0) else do { r \<leftarrow> strnull s n; Some (map_option Suc r) })"

definition ltrim :: "cstr \<Rightarrow> cstr" where
  "ltrim s = dropWhile is_ws s"

definition rtrim_len :: "cstr \<Rightarrow> cstr" where
  "rtrim_len s = rev (dropWhile is_ws (rev s))"

definition is_string_in_list :: "cstr \<Rightarrow> cstr list option \<Rightarrow> bool" where
  "is_string_in_list s l = (case l of None \<Rightarrow> False | Some xs \<Rightarrow> s \<in> set xs)"

definition to_lower :: "u8 \<Rightarrow> u8" where
  "to_lower c = (if 65 \<le> c \<and> c \<le> 90 then c + 32 else c)"

section \<open>The context\<close>

definition LF_FLOCK :: u32 where "LF_FLOCK = 0x01"
definition LF_STRIP_KEY_WHITESPACE :: u32 where "LF_STRIP_KEY_WHITESPACE = 0x02"
definition LF_STRIP_VALUE_WHITESPACE :: u32 where "LF_STRIP_VALUE_WHITESPACE = 0x04"
definition LF_STRIP_COMMENTS :: u32 where "LF_STRIP_COMMENTS = 0x08"
definition LF_STRIP_INVALID :: u32 where "LF_STRIP_INVALID = 0x10"
definition LF_PRESERVE_LINE_ENDING :: u32 where "LF_PRESERVE_LINE_ENDING = 0x20"
definition LF_KEY_CASE_SENSITIVE :: u32 where "LF_KEY_CASE_SENSITIVE = 0x40"

text \<open>The two fields of \<open>union conf_item\<close> are \<open>it_key\<close> and \<open>it_value\<close>.  The array of a group has
  \<open>capacity\<close> items; \<open>size_t\<close> counters of items are natural numbers.\<close>

record conf_item2 =
  it_key :: "cstr option"
  it_value :: "cstr option"
  it_deleted :: bool
  it_invalid :: bool
  it_dirty :: bool
  it_nostrip :: bool
  it_eol :: u32

record conf_item_group =
  g_items :: "conf_item2 list"
  g_used :: nat

text \<open>An open file: the bytes it holds, and the outcomes of the coming \<open>fwrite\<close> calls (the number of
  bytes accepted and \<open>errno\<close>); when there are none they accept everything.\<close>

record cfile =
  f_data :: "u8 list"
  f_writes :: "(nat \<times> int) list"

record kvc_context =
  k_file :: "cfile option"
  k_flags :: u32
  k_data :: "u8 list"
  k_size :: nat
  k_nostrip :: "cstr list option"
  k_eol :: u32
  k_og :: conf_item_group
  k_ng :: conf_item_group
  allocs :: "bool list"

definition blank_item :: conf_item2 where
  "blank_item = \<lparr>it_key = None, it_value = None, it_deleted = False, it_invalid = False, it_dirty = False,
     it_nostrip = False, it_eol = 0\<rparr>"

definition has_flag :: "kvc_context \<Rightarrow> u32 \<Rightarrow> bool" where
  "has_flag ctx f \<longleftrightarrow> k_flags ctx AND f \<noteq> 0"

text \<open>Whether the next allocation succeeds.\<close>

definition alloc :: "kvc_context \<Rightarrow> bool \<times> kvc_context" where
  "alloc ctx = (case allocs ctx of [] \<Rightarrow> (True, ctx) | ok # rest \<Rightarrow> (ok, ctx\<lparr>allocs := rest\<rparr>))"

section \<open>Parsing\<close>

text \<open>The first step of \<open>kvc_parse_content\<close>: the number of lines.  \<open>ptr\<close> is the memory from the
  C pointer to the end of the buffer.\<close>

function count_lines :: "u8 list \<Rightarrow> nat \<Rightarrow> nat option" where
  "count_lines ptr capacity = do {
     r \<leftarrow> strcrlf ptr;
     (case r of
        None \<Rightarrow> Some capacity
      | Some n \<Rightarrow> do {
          c0 \<leftarrow> arr_get ptr n;
          c1 \<leftarrow> (if c0 = CR then arr_get ptr (n + 1) else Some 0);
          count_lines (drop (if c0 = CR \<and> c1 = LF then n + 2 else n + 1) ptr) (capacity + 1)
        })
   }"
  by pat_completeness auto
termination
  by (relation "measure (length \<circ> fst)") (auto simp: arr_get_def bind_eq_Some_conv split: if_splits)

declare count_lines.simps [simp del]

text \<open>One line of the second step: the bytes before the line ending, the line ending, and the
  length of both.  \<open>remain\<close> is \<open>file_size - (ptr - file_data) + 1\<close>.\<close>

definition split_line :: "u8 list \<Rightarrow> u32 \<Rightarrow> nat \<Rightarrow> (cstr \<times> u32 \<times> nat) option" where
  "split_line ptr dfl remain = do {
     r \<leftarrow> strcrlf ptr;
     (case r of
        Some n \<Rightarrow> do {
          c0 \<leftarrow> arr_get ptr n;
          c1 \<leftarrow> (if c0 = CR then arr_get ptr (n + 1) else Some 0);
          if c0 = CR \<and> c1 = LF then Some (take n ptr, EOL_CRLF, n + 2)
          else Some (take n ptr, if c0 = CR then EOL_CR else EOL_LF, n + 1)
        }
      | None \<Rightarrow> do {
          z \<leftarrow> strnull ptr remain;
          n \<leftarrow> z;
          Some (take n ptr, dfl, n + 1)
        })
   }"

text \<open>The item of a line.\<close>

definition parse_line :: "kvc_context \<Rightarrow> cstr \<Rightarrow> u32 \<Rightarrow> conf_item2" where
  "parse_line ctx line eol =
     (let pkey = (if has_flag ctx LF_STRIP_KEY_WHITESPACE then ltrim line else line) in
      if take 1 (ltrim line) = [HASH] \<or> EQ \<notin> set pkey
      then blank_item\<lparr>it_key := Some line, it_invalid := True, it_eol := eol\<rparr>
      else
        let key = takeWhile (\<lambda>c. c \<noteq> EQ) pkey;
            val = drop (length key + 1) pkey;
            key = (if has_flag ctx LF_STRIP_KEY_WHITESPACE then rtrim_len key else key);
            nostrip = is_string_in_list key (k_nostrip ctx);
            val = (if has_flag ctx LF_STRIP_VALUE_WHITESPACE \<and> \<not> nostrip then rtrim_len (ltrim val) else val) in
        blank_item\<lparr>it_key := Some key, it_value := Some val, it_eol := eol, it_nostrip := nostrip\<rparr>)"

text \<open>The second step.  Storing an item beyond the array is out of bounds.\<close>

function parse_lines :: "kvc_context \<Rightarrow> u8 list \<Rightarrow> kvc_context option" where
  "parse_lines ctx ptr = do {
     (line, eol, n) \<leftarrow> split_line ptr (k_eol ctx) (length ptr);
     its \<leftarrow> arr_set (g_items (k_og ctx)) (g_used (k_og ctx)) (parse_line ctx line eol);
     let ctx = ctx\<lparr>k_og := \<lparr>g_items = its, g_used = g_used (k_og ctx) + 1\<rparr>\<rparr>;
     if length (drop n ptr) \<le> 1 then Some ctx else parse_lines ctx (drop n ptr)
   }"
  by pat_completeness auto
termination
  by (relation "measure (\<lambda>(ctx, ptr). length ptr)")
    (auto simp: split_line_def bind_eq_Some_conv split: option.splits if_splits)

declare parse_lines.simps [simp del]

definition kvc_parse_content :: "kvc_context \<Rightarrow> (int \<times> kvc_context) option" where
  "kvc_parse_content ctx =
     (if k_size ctx = 0 then Some (0, ctx)
      else do {
        cap \<leftarrow> count_lines (k_data ctx) 1;
        let (ok, ctx) = alloc ctx;
        if \<not> ok then Some (- 12, ctx)
        else do {
          ctx \<leftarrow> parse_lines (ctx\<lparr>k_og := \<lparr>g_items = replicate cap blank_item, g_used = 0\<rparr>\<rparr>) (k_data ctx);
          Some (0, ctx)
        }
      })"

section \<open>Loading\<close>

text \<open>\<open>strdup\<close> of every string of a list: whether all of them could be allocated.\<close>

fun dup_strings :: "cstr list \<Rightarrow> kvc_context \<Rightarrow> bool \<times> kvc_context" where
  "dup_strings [] ctx = (True, ctx)"
| "dup_strings (s # l) ctx =
     (let (ok, ctx) = alloc ctx in if ok then dup_strings l ctx else (False, ctx))"

definition dup_nostrip_list :: "cstr list option \<Rightarrow> kvc_context \<Rightarrow> cstr list option \<times> kvc_context" where
  "dup_nostrip_list nostrip_list ctx =
     (case nostrip_list of
        None \<Rightarrow> (None, ctx)
      | Some l \<Rightarrow>
          let (ok, ctx) = alloc ctx in
          if \<not> ok then (None, ctx)
          else let (ok, ctx) = dup_strings l ctx in (if ok then Some l else None, ctx))"

definition new_context :: "u32 \<Rightarrow> bool list \<Rightarrow> kvc_context" where
  "new_context flags al = \<lparr>k_file = None, k_flags = flags, k_data = [], k_size = 0, k_nostrip = None,
     k_eol = EOL_LF, k_og = \<lparr>g_items = [], g_used = 0\<rparr>, k_ng = \<lparr>g_items = [], g_used = 0\<rparr>, allocs = al\<rparr>"

text \<open>The system calls that \<open>kvc_load_opt\<close> makes on the file: whether they succeed, what the file
  holds, and how much of it \<open>fread\<close> returns.\<close>

record file_env =
  fe_open :: bool
  fe_flock :: bool
  fe_fstat :: bool
  fe_fdopen :: bool
  fe_data :: "u8 list"
  fe_read :: nat
  fe_writes :: "(nat \<times> int) list"

definition LONG_MAX :: nat where "LONG_MAX = 2 ^ 63 - 1"

text \<open>The part that both load functions start with: the context and the copy of \<open>nostrip_list\<close>.\<close>

definition load_start :: "u32 \<Rightarrow> cstr list option \<Rightarrow> bool list \<Rightarrow> kvc_context option" where
  "load_start flags nostrip_list al =
     (let (ok, ctx) = alloc (new_context flags al) in
      if \<not> ok then None
      else let (l, ctx) = dup_nostrip_list nostrip_list ctx in
        if nostrip_list \<noteq> None \<and> l = None then None
        else Some (ctx\<lparr>k_nostrip := l\<rparr>))"

text \<open>The part that both end with: the buffer, its contents, and the parser.\<close>

definition load_contents :: "kvc_context \<Rightarrow> u8 list \<Rightarrow> kvc_context option option" where
  "load_contents ctx buf =
     (let (ok, ctx) = alloc ctx in
      if \<not> ok then Some None
      else do {
        (ret, ctx) \<leftarrow> kvc_parse_content (ctx\<lparr>k_data := buf @ [0], k_size := length buf\<rparr>);
        Some (if ret \<noteq> 0 then None else Some ctx)
      })"

definition kvc_load_opt :: "file_env \<Rightarrow> u32 \<Rightarrow> cstr list option \<Rightarrow> bool list \<Rightarrow> kvc_context option option" where
  "kvc_load_opt fe flags nostrip_list al =
     (case load_start flags nostrip_list al of
        None \<Rightarrow> Some None
      | Some ctx \<Rightarrow>
          let (ok, ctx) = alloc ctx in
          if \<not> ok then Some None
          else if \<not> fe_open fe then Some None
          else if has_flag ctx LF_FLOCK \<and> \<not> fe_flock fe then Some None
          else if \<not> fe_fstat fe then Some None
          else if LONG_MAX \<le> length (fe_data fe) then Some None
          else if \<not> fe_fdopen fe then Some None
          else if fe_read fe \<noteq> length (fe_data fe) then Some None
          else load_contents (ctx\<lparr>k_file := Some \<lparr>f_data = fe_data fe, f_writes = fe_writes fe\<rparr>\<rparr>) (fe_data fe))"

definition kvc_load :: "file_env \<Rightarrow> u32 \<Rightarrow> bool list \<Rightarrow> kvc_context option option" where
  "kvc_load fe flags al = kvc_load_opt fe flags None al"

definition kvc_load_buf_opt :: "u8 list \<Rightarrow> u32 \<Rightarrow> cstr list option \<Rightarrow> bool list \<Rightarrow> kvc_context option option" where
  "kvc_load_buf_opt buf flags nostrip_list al =
     (case load_start flags nostrip_list al of
        None \<Rightarrow> Some None
      | Some ctx \<Rightarrow> load_contents ctx buf)"

definition kvc_load_buf :: "u8 list \<Rightarrow> u32 \<Rightarrow> bool list \<Rightarrow> kvc_context option option" where
  "kvc_load_buf buf flags al = kvc_load_buf_opt buf flags None al"

section \<open>Writing back\<close>

text \<open>\<open>fwrite\<close>: the number of bytes it accepts, and \<open>errno\<close>.\<close>

definition fwrite :: "cfile \<Rightarrow> u8 list \<Rightarrow> nat \<times> int \<times> cfile" where
  "fwrite f bs =
     (case f_writes f of
        [] \<Rightarrow> (length bs, 0, f\<lparr>f_data := f_data f @ bs\<rparr>)
      | (n, e) # rest \<Rightarrow>
          (min n (length bs), e, f\<lparr>f_data := f_data f @ take n bs, f_writes := rest\<rparr>))"

text \<open>A write of the library: whether it was complete, and otherwise minus \<open>errno\<close>.\<close>

definition put_str :: "cfile \<Rightarrow> u8 list \<Rightarrow> bool \<times> int \<times> cfile" where
  "put_str f bs = (let (n, e, f) = fwrite f bs in if n \<noteq> length bs then (False, - e, f) else (True, 0, f))"

definition and_then :: "bool \<times> int \<times> cfile \<Rightarrow> (cfile \<Rightarrow> (bool \<times> int \<times> cfile) option) \<Rightarrow> (bool \<times> int \<times> cfile) option" where
  "and_then r g = (case r of (complete, ret, f) \<Rightarrow> if complete then g f else Some r)"

definition skip_item :: "kvc_context \<Rightarrow> conf_item2 \<Rightarrow> bool option" where
  "skip_item ctx it =
     (if it_deleted it then Some True
      else if it_invalid it then do {
        k \<leftarrow> it_key it;
        let comment = take 1 (ltrim k) = [HASH];
        Some ((comment \<and> has_flag ctx LF_STRIP_COMMENTS) \<or> (\<not> comment \<and> has_flag ctx LF_STRIP_INVALID))
      }
      else Some False)"

definition write_item :: "cfile \<Rightarrow> kvc_context \<Rightarrow> conf_item2 \<Rightarrow> (bool \<times> int \<times> cfile) option" where
  "write_item f ctx it = do {
     k \<leftarrow> it_key it;
     and_then (put_str f k) (\<lambda>f. do {
       r \<leftarrow> (if it_invalid it then Some (True, 0, f)
            else and_then (put_str f [EQ]) (\<lambda>f. do { v \<leftarrow> it_value it; Some (put_str f v) }));
       and_then r (\<lambda>f. do {
         eol \<leftarrow> eol_str (if has_flag ctx LF_PRESERVE_LINE_ENDING then it_eol it else k_eol ctx);
         Some (put_str f eol)
       })
     })
   }"

fun write_items :: "cfile \<Rightarrow> kvc_context \<Rightarrow> conf_item2 list \<Rightarrow> (int \<times> cfile) option" where
  "write_items f ctx [] = Some (0, f)"
| "write_items f ctx (it # its) = do {
     skip \<leftarrow> skip_item ctx it;
     if skip then write_items f ctx its
     else do {
       (complete, ret, f) \<leftarrow> write_item f ctx it;
       if complete then write_items f ctx its else Some (ret, f)
     }
   }"

text \<open>The items of a group that are in use.\<close>

definition used_items :: "conf_item_group \<Rightarrow> conf_item2 list option" where
  "used_items g = mem_get (g_items g) 0 (g_used g)"

definition write_conf_items :: "cfile \<Rightarrow> kvc_context \<Rightarrow> conf_item_group \<Rightarrow> (int \<times> cfile) option" where
  "write_conf_items f ctx g = do { its \<leftarrow> used_items g; write_items f ctx its }"

text \<open>What the calls of \<open>kvc_commit\<close> on the file return: \<open>fileno\<close> and \<open>errno\<close>, \<open>fseek\<close>, \<open>ferror\<close>,
  \<open>ftruncate\<close>.  Its calls of \<open>fflush\<close> and \<open>fsync\<close> are not checked.\<close>

record commit_env =
  ce_fileno :: int
  ce_errno :: int
  ce_fseek :: int
  ce_ferror :: int
  ce_ftruncate :: int

definition kvc_commit :: "commit_env \<Rightarrow> kvc_context option \<Rightarrow> (int \<times> kvc_context option) option" where
  "kvc_commit ce c =
     (case c of
        None \<Rightarrow> Some (- 22, None)
      | Some ctx \<Rightarrow>
          (case k_file ctx of
             None \<Rightarrow> Some (0, c)
           | Some f \<Rightarrow>
               if ce_fileno ce < 0 then Some (- ce_errno ce, c)
               else if ce_fseek ce \<noteq> 0 then Some (- ce_ferror ce, c)
               else if ce_ftruncate ce \<noteq> 0 then Some (0, c)
               else do {
                 (ret, f) \<leftarrow> write_conf_items (f\<lparr>f_data := []\<rparr>) ctx (k_og ctx);
                 if ret \<noteq> 0 then Some (ret, Some (ctx\<lparr>k_file := Some f\<rparr>))
                 else do {
                   (ret, f) \<leftarrow> write_conf_items f ctx (k_ng ctx);
                   Some (ret, Some (ctx\<lparr>k_file := Some f\<rparr>))
                 }
               }))"

section \<open>Looking up\<close>

definition same_key :: "kvc_context \<Rightarrow> cstr \<Rightarrow> cstr \<Rightarrow> bool" where
  "same_key ctx a b =
     (if has_flag ctx LF_KEY_CASE_SENSITIVE then a = b else map to_lower a = map to_lower b)"

fun find_key_in :: "kvc_context \<Rightarrow> conf_item2 list \<Rightarrow> cstr \<Rightarrow> bool \<Rightarrow> nat option option" where
  "find_key_in ctx [] key with_deleted = Some None"
| "find_key_in ctx (it # its) key with_deleted =
     (if it_invalid it \<or> (it_deleted it \<and> \<not> with_deleted)
      then do { r \<leftarrow> find_key_in ctx its key with_deleted; Some (map_option Suc r) }
      else do {
        k \<leftarrow> it_key it;
        if same_key ctx key k then Some (Some 0)
        else do { r \<leftarrow> find_key_in ctx its key with_deleted; Some (map_option Suc r) }
      })"

definition find_key :: "kvc_context \<Rightarrow> conf_item_group \<Rightarrow> cstr \<Rightarrow> bool \<Rightarrow> nat option option" where
  "find_key ctx g key with_deleted = do { its \<leftarrow> used_items g; find_key_in ctx its key with_deleted }"

definition kvc_get_count :: "kvc_context option \<Rightarrow> nat option" where
  "kvc_get_count c =
     (case c of
        None \<Rightarrow> Some 0
      | Some ctx \<Rightarrow> do {
          og \<leftarrow> used_items (k_og ctx);
          ng \<leftarrow> used_items (k_ng ctx);
          Some (length (filter (\<lambda>it. \<not> (it_invalid it \<or> it_deleted it)) og) +
                length (filter (\<lambda>it. \<not> it_deleted it) ng))
        })"

text \<open>The key without surrounding white space.  The test of the last character reads
  \<open>keys[len - 1]\<close>, which for the empty key lies before the string.\<close>

definition get_key_stripped :: "kvc_context \<Rightarrow> cstr \<Rightarrow> (cstr \<times> kvc_context) option" where
  "get_key_stripped ctx key =
     (if has_flag ctx LF_STRIP_KEY_WHITESPACE
      then do {
        let keys = ltrim key;
        last \<leftarrow> (if key = [] then None else Some (last key));
        if is_ws last
        then let (ok, ctx) = alloc ctx in if ok then Some (rtrim_len keys, ctx) else None
        else Some (keys, ctx)
      }
      else Some (key, ctx))"

definition kvc_get :: "kvc_context option \<Rightarrow> cstr option \<Rightarrow> (cstr option \<times> kvc_context option) option" where
  "kvc_get c key =
     (case (c, key) of
        (Some ctx, Some key) \<Rightarrow> do {
          (keys, ctx) \<leftarrow> get_key_stripped ctx key;
          r \<leftarrow> find_key ctx (k_og ctx) keys False;
          (case r of
             Some i \<Rightarrow> do { it \<leftarrow> arr_get (g_items (k_og ctx)) i; Some (it_value it, Some ctx) }
           | None \<Rightarrow> do {
               r \<leftarrow> find_key ctx (k_ng ctx) keys False;
               (case r of
                  Some i \<Rightarrow> do { it \<leftarrow> arr_get (g_items (k_ng ctx)) i; Some (it_value it, Some ctx) }
                | None \<Rightarrow> Some (None, Some ctx))
             })
        }
      | _ \<Rightarrow> Some (None, c))"

text \<open>The loops of \<open>kvc_get_all\<close>: each item kept is stored at the next index of the array.\<close>

fun store_items :: "(conf_item2 \<Rightarrow> bool) \<Rightarrow> conf_item2 list \<Rightarrow> nat \<Rightarrow> (cstr option \<times> cstr option) list \<Rightarrow>
    (nat \<times> (cstr option \<times> cstr option) list) option" where
  "store_items keep [] idx arr = Some (idx, arr)"
| "store_items keep (it # its) idx arr =
     (if keep it then do {
        arr \<leftarrow> arr_set arr idx (it_key it, it_value it);
        store_items keep its (idx + 1) arr
      } else store_items keep its idx arr)"

definition kvc_get_all :: "kvc_context option \<Rightarrow>
    (nat \<times> (cstr option \<times> cstr option) list option \<times> kvc_context option) option" where
  "kvc_get_all c =
     (case c of
        None \<Rightarrow> Some (0, None, c)
      | Some ctx \<Rightarrow> do {
          n \<leftarrow> kvc_get_count c;
          if n = 0 then Some (0, None, c)
          else let (ok, ctx) = alloc ctx in
            if \<not> ok then Some (0, None, Some ctx)
            else do {
              og \<leftarrow> used_items (k_og ctx);
              ng \<leftarrow> used_items (k_ng ctx);
              (idx, arr) \<leftarrow> store_items (\<lambda>it. \<not> (it_invalid it \<or> it_deleted it)) og 0 (replicate n (None, None));
              (idx, arr) \<leftarrow> store_items (\<lambda>it. \<not> it_deleted it) ng idx arr;
              Some (n, Some arr, Some ctx)
            }
        })"

section \<open>Changing\<close>

definition NEW_CONF_GROUP_INCREMENT :: nat where "NEW_CONF_GROUP_INCREMENT = 5"

definition new_conf_group_extend :: "kvc_context \<Rightarrow> nat \<Rightarrow> int \<times> kvc_context" where
  "new_conf_group_extend ctx increment =
     (let (ok, ctx) = alloc ctx in
      if \<not> ok then (- 12, ctx)
      else (0, ctx\<lparr>k_ng := (k_ng ctx)\<lparr>g_items := g_items (k_ng ctx) @ replicate increment blank_item\<rparr>\<rparr>))"

definition get_new_item :: "kvc_context \<Rightarrow> int \<times> nat \<times> kvc_context" where
  "get_new_item ctx =
     (let (ret, ctx) = (if length (g_items (k_ng ctx)) \<le> g_used (k_ng ctx)
                        then new_conf_group_extend ctx NEW_CONF_GROUP_INCREMENT else (0, ctx)) in
      if ret \<noteq> 0 then (ret, 0, ctx)
      else (0, g_used (k_ng ctx), ctx\<lparr>k_ng := (k_ng ctx)\<lparr>g_used := g_used (k_ng ctx) + 1\<rparr>\<rparr>))"

definition overwrite_key :: "kvc_context \<Rightarrow> conf_item2 \<Rightarrow> cstr \<Rightarrow> (int \<times> conf_item2 \<times> kvc_context) option" where
  "overwrite_key ctx it value = do {
     let strip = (has_flag ctx LF_STRIP_VALUE_WHITESPACE \<and> \<not> it_nostrip it);
     let it = it\<lparr>it_deleted := False\<rparr>;
     let value = (if strip then ltrim value else value);
     old \<leftarrow> it_value it;
     if value = old then Some (0, it, ctx)
     else if length value \<le> length old
     then Some (0, it\<lparr>it_value := Some (if strip then rtrim_len value else value)\<rparr>, ctx)
     else let (ok, ctx) = alloc ctx in
       if \<not> ok then Some (- 12, it, ctx)
       else Some (0, it\<lparr>it_value := Some (if strip then rtrim_len value else value), it_dirty := True\<rparr>, ctx)
   }"

definition create_key :: "kvc_context \<Rightarrow> cstr \<Rightarrow> cstr \<Rightarrow> (int \<times> kvc_context) option" where
  "create_key ctx key value =
     (let nostrip = is_string_in_list key (k_nostrip ctx);
          strip = (has_flag ctx LF_STRIP_VALUE_WHITESPACE \<and> \<not> nostrip);
          nv = (if strip then ltrim value else value);
          (ok, ctx) = alloc ctx in
      if \<not> ok then Some (- 12, ctx)
      else let (ok, ctx) = alloc ctx in
        if \<not> ok then Some (- 12, ctx)
        else let (ret, idx, ctx) = get_new_item ctx in
          if ret \<noteq> 0 then Some (ret, ctx)
          else do {
            let nv = (if strip then rtrim_len nv else nv);
            it \<leftarrow> arr_get (g_items (k_ng ctx)) idx;
            its \<leftarrow> arr_set (g_items (k_ng ctx)) idx
              (it\<lparr>it_key := Some key, it_value := Some nv, it_eol := k_eol ctx, it_nostrip := nostrip, it_dirty := True\<rparr>);
            Some (0, ctx\<lparr>k_ng := (k_ng ctx)\<lparr>g_items := its\<rparr>\<rparr>)
          })"

text \<open>The callers of \<open>kvc_set\<close> pass a key and a value.\<close>

definition kvc_set :: "kvc_context option \<Rightarrow> cstr \<Rightarrow> cstr \<Rightarrow> (int \<times> kvc_context option) option" where
  "kvc_set c key value =
     (case c of
        None \<Rightarrow> Some (- 22, c)
      | Some ctx \<Rightarrow> do {
          (keys, ctx) \<leftarrow> get_key_stripped ctx key;
          r \<leftarrow> find_key ctx (k_og ctx) keys True;
          (case r of
             Some i \<Rightarrow> do {
               it \<leftarrow> arr_get (g_items (k_og ctx)) i;
               (ret, it, ctx) \<leftarrow> overwrite_key ctx it value;
               its \<leftarrow> arr_set (g_items (k_og ctx)) i it;
               Some (ret, Some (ctx\<lparr>k_og := (k_og ctx)\<lparr>g_items := its\<rparr>\<rparr>))
             }
           | None \<Rightarrow> do {
               r \<leftarrow> find_key ctx (k_ng ctx) keys True;
               (case r of
                  Some i \<Rightarrow> do {
                    it \<leftarrow> arr_get (g_items (k_ng ctx)) i;
                    (ret, it, ctx) \<leftarrow> overwrite_key ctx it value;
                    its \<leftarrow> arr_set (g_items (k_ng ctx)) i it;
                    Some (ret, Some (ctx\<lparr>k_ng := (k_ng ctx)\<lparr>g_items := its\<rparr>\<rparr>))
                  }
                | None \<Rightarrow> do {
                    (ret, ctx) \<leftarrow> create_key ctx keys value;
                    Some (ret, Some ctx)
                  })
             })
        })"

fun set_batch_loop :: "kvc_context \<Rightarrow> (cstr option \<times> cstr option) list \<Rightarrow> kvc_context option" where
  "set_batch_loop ctx [] = Some ctx"
| "set_batch_loop ctx ((key, value) # items) =
     (case key of
        None \<Rightarrow> set_batch_loop ctx items
      | Some key \<Rightarrow> do {
          (_, c) \<leftarrow> kvc_set (Some ctx) key (case value of Some v \<Rightarrow> v | None \<Rightarrow> []);
          ctx \<leftarrow> c;
          set_batch_loop ctx items
        })"

definition kvc_set_batch :: "kvc_context option \<Rightarrow> (cstr option \<times> cstr option) list option \<Rightarrow> nat \<Rightarrow>
    (int \<times> kvc_context option) option" where
  "kvc_set_batch c items num =
     (case (c, items) of
        (Some ctx, Some its) \<Rightarrow>
          if num = 0 then Some (- 22, c)
          else do {
            its \<leftarrow> mem_get its 0 num;
            ctx \<leftarrow> set_batch_loop ctx its;
            Some (0, Some ctx)
          }
      | _ \<Rightarrow> Some (- 22, c))"

definition kvc_unset :: "kvc_context option \<Rightarrow> cstr option \<Rightarrow> (int \<times> kvc_context option) option" where
  "kvc_unset c key =
     (case (c, key) of
        (Some ctx, Some key) \<Rightarrow> do {
          (keys, ctx) \<leftarrow> get_key_stripped ctx key;
          r \<leftarrow> find_key ctx (k_og ctx) keys False;
          (case r of
             Some i \<Rightarrow> do {
               it \<leftarrow> arr_get (g_items (k_og ctx)) i;
               its \<leftarrow> arr_set (g_items (k_og ctx)) i (it\<lparr>it_deleted := True\<rparr>);
               Some (0, Some (ctx\<lparr>k_og := (k_og ctx)\<lparr>g_items := its\<rparr>\<rparr>))
             }
           | None \<Rightarrow> do {
               r \<leftarrow> find_key ctx (k_ng ctx) keys False;
               (case r of
                  Some i \<Rightarrow> do {
                    it \<leftarrow> arr_get (g_items (k_ng ctx)) i;
                    its \<leftarrow> arr_set (g_items (k_ng ctx)) i (it\<lparr>it_deleted := True\<rparr>);
                    Some (0, Some (ctx\<lparr>k_ng := (k_ng ctx)\<lparr>g_items := its\<rparr>\<rparr>))
                  }
                | None \<Rightarrow> Some (0, Some ctx))
             })
        }
      | _ \<Rightarrow> Some (- 22, c))"

definition kvc_set_default_eol :: "kvc_context option \<Rightarrow> u32 \<Rightarrow> int \<times> kvc_context option" where
  "kvc_set_default_eol c eol =
     (case c of
        None \<Rightarrow> (- 22, c)
      | Some ctx \<Rightarrow>
          if eol = EOL_LF \<or> eol = EOL_CR \<or> eol = EOL_CRLF then (0, Some (ctx\<lparr>k_eol := eol\<rparr>)) else (- 22, c))"

section \<open>Enumerating\<close>

record kvc_enum_context =
  e_first :: bool
  e_ng :: bool
  e_idx :: nat

definition kvc_enum_init :: "kvc_context option \<Rightarrow> kvc_enum_context option \<times> kvc_context option" where
  "kvc_enum_init c =
     (case c of
        None \<Rightarrow> (None, c)
      | Some ctx \<Rightarrow>
          let (ok, ctx) = alloc ctx in
          (if ok then Some \<lparr>e_first = True, e_ng = False, e_idx = 0\<rparr> else None, Some ctx))"

text \<open>The first index from \<open>i\<close> on whose item is to be shown.\<close>

definition next_item :: "(conf_item2 \<Rightarrow> bool) \<Rightarrow> conf_item2 list \<Rightarrow> nat \<Rightarrow> nat option" where
  "next_item keep its i = (case filter (\<lambda>j. keep (its ! j)) [i..<length its] of [] \<Rightarrow> None | j # _ \<Rightarrow> Some j)"

text \<open>The result is the return value, the item shown, and the new enumeration context.\<close>

definition kvc_enum_next :: "kvc_context \<Rightarrow> kvc_enum_context option \<Rightarrow>
    (int \<times> (cstr option \<times> cstr option) option \<times> kvc_enum_context option) option" where
  "kvc_enum_next ctx e =
     (case e of
        None \<Rightarrow> Some (- 22, None, e)
      | Some ectx \<Rightarrow> do {
          og \<leftarrow> used_items (k_og ctx);
          ng \<leftarrow> used_items (k_ng ctx);
          let init = (if \<not> e_ng ectx \<and> e_first ectx then 0 else 1);
          let ectx' = (if e_ng ectx then ectx else ectx\<lparr>e_first := False\<rparr>);
          (case (if e_ng ectx then None
                 else next_item (\<lambda>it. \<not> it_deleted it \<and> \<not> it_invalid it) og (e_idx ectx + init)) of
             Some i \<Rightarrow> Some (0, Some (it_key (og ! i), it_value (og ! i)), Some (ectx'\<lparr>e_idx := i\<rparr>))
           | None \<Rightarrow>
               (case next_item (\<lambda>it. \<not> it_deleted it) ng (e_idx ectx + init) of
                  Some i \<Rightarrow> Some (0, Some (it_key (ng ! i), it_value (ng ! i)), Some (ectx'\<lparr>e_ng := True, e_idx := i\<rparr>))
                | None \<Rightarrow> Some (1, None, Some (ectx'\<lparr>e_ng := True\<rparr>))))
        })"

definition kvc_enum_end :: "kvc_enum_context option \<Rightarrow> int" where
  "kvc_enum_end e = (if e = None then - 22 else 0)"

end
