(* ===== verification/Kvc_Store.thy ===== *)
theory Kvc_Store
  imports Kvc "HOL-Library.Sublist"
begin

text \<open>
  The key-value library as a store: the invariant of a context, the map from keys to values that it
  stands for, and what looking up, setting and deleting do to that map.  The locale \<open>keyed_store\<close>
  is the interface that the batch operation relies on; it is interpreted on \<open>kvc_set\<close>.
\<close>

section \<open>The first index that satisfies a predicate\<close>

fun index_of :: "('a \<Rightarrow> bool) \<Rightarrow> 'a list \<Rightarrow> nat option" where
  "index_of P [] = None"
| "index_of P (x # xs) = (if P x then Some 0 else map_option Suc (index_of P xs))"

lemma index_of_Some: "index_of P xs = Some i \<longleftrightarrow> i < length xs \<and> P (xs ! i) \<and> (\<forall>j < i. \<not> P (xs ! j))"
proof (induction xs arbitrary: i)
  case (Cons x xs)
  then show ?case by (cases i) (auto simp: less_Suc_eq_0_disj)
qed simp

lemma index_of_None: "index_of P xs = None \<longleftrightarrow> (\<forall>x \<in> set xs. \<not> P x)"
  by (induction xs) auto

lemma find_index_of: "List.find P xs = map_option ((!) xs) (index_of P xs)"
  by (induction xs) (auto simp: option.map_comp o_def)

lemma find_append: "List.find P (xs @ ys) = (case List.find P xs of None \<Rightarrow> List.find P ys | Some x \<Rightarrow> Some x)"
  by (induction xs) auto

lemma find_None: "List.find P xs = None \<longleftrightarrow> (\<forall>x \<in> set xs. \<not> P x)"
  by (induction xs) auto

lemma find_update_hit:
  assumes "index_of Q xs = Some i" and "\<And>x. P x \<Longrightarrow> Q x" and "P y"
  shows "List.find P (xs[i := y]) = Some y"
  using assms(1)
proof (induction xs arbitrary: i)
  case (Cons x xs)
  then show ?case using assms(2,3) by (auto split: if_splits)
qed simp

lemma find_update_miss:
  assumes "\<not> P (xs ! i)" and "\<not> P y"
  shows "List.find P (xs[i := y]) = List.find P xs"
  using assms(1)
proof (induction xs arbitrary: i)
  case (Cons x xs)
  then show ?case using assms(2) by (cases i) auto
qed simp

section \<open>The invariant\<close>

definition item_strip :: "kvc_context \<Rightarrow> conf_item2 \<Rightarrow> bool" where
  "item_strip ctx it \<longleftrightarrow> has_flag ctx LF_STRIP_VALUE_WHITESPACE \<and> \<not> it_nostrip it"

definition item_ok :: "kvc_context \<Rightarrow> conf_item2 \<Rightarrow> bool" where
  "item_ok ctx it \<longleftrightarrow> it_key it \<noteq> None \<and> it_eol it \<le> EOL_CRLF \<and>
     (\<not> it_invalid it \<longrightarrow>
        (\<exists>v. it_value it = Some v \<and> (item_strip ctx it \<longrightarrow> rtrim_len v = v)) \<and>
        (\<forall>k. it_key it = Some k \<longrightarrow> it_nostrip it = is_string_in_list k (k_nostrip ctx)))"

definition group_ok :: "kvc_context \<Rightarrow> conf_item_group \<Rightarrow> bool" where
  "group_ok ctx g \<longleftrightarrow> g_used g \<le> length (g_items g) \<and> (\<forall>it \<in> set (take (g_used g) (g_items g)). item_ok ctx it)"

definition kvc_ok :: "kvc_context \<Rightarrow> bool" where
  "kvc_ok ctx \<longleftrightarrow> group_ok ctx (k_og ctx) \<and> group_ok ctx (k_ng ctx) \<and> k_eol ctx \<le> EOL_CRLF \<and>
     (\<forall>it \<in> set (take (g_used (k_ng ctx)) (g_items (k_ng ctx))). \<not> it_invalid it) \<and>
     (\<forall>it \<in> set (drop (g_used (k_ng ctx)) (g_items (k_ng ctx))). it = blank_item)"

text \<open>What no operation after the load changes.\<close>

definition same_settings :: "kvc_context \<Rightarrow> kvc_context \<Rightarrow> bool" where
  "same_settings a b \<longleftrightarrow> k_flags b = k_flags a \<and> k_nostrip b = k_nostrip a"

lemma same_settings_trans: "same_settings a b \<Longrightarrow> same_settings b c \<Longrightarrow> same_settings a c"
  by (simp add: same_settings_def)

lemma same_settings_cong:
  assumes "same_settings a b"
  shows "has_flag b f = has_flag a f" and "same_key b = same_key a" and "item_strip b = item_strip a"
    and "item_ok b = item_ok a" and "group_ok b = group_ok a"
proof -
  show f: "has_flag b f = has_flag a f" for f using assms by (simp add: same_settings_def has_flag_def)
  show "same_key b = same_key a" by (intro ext) (simp add: same_key_def f)
  show s: "item_strip b = item_strip a" by (intro ext) (simp add: item_strip_def f)
  have "k_nostrip b = k_nostrip a" using assms by (simp add: same_settings_def)
  then show i: "item_ok b = item_ok a" by (intro ext) (simp add: item_ok_def s)
  show "group_ok b = group_ok a" by (intro ext) (simp add: group_ok_def i)
qed

section \<open>The map that a context stands for\<close>

definition og_items :: "kvc_context \<Rightarrow> conf_item2 list" where
  "og_items ctx = take (g_used (k_og ctx)) (g_items (k_og ctx))"

definition ng_items :: "kvc_context \<Rightarrow> conf_item2 list" where
  "ng_items ctx = take (g_used (k_ng ctx)) (g_items (k_ng ctx))"

definition all_items :: "kvc_context \<Rightarrow> conf_item2 list" where
  "all_items ctx = og_items ctx @ ng_items ctx"

definition live :: "conf_item2 \<Rightarrow> bool" where
  "live it \<longleftrightarrow> \<not> it_invalid it \<and> \<not> it_deleted it"

definition matches :: "kvc_context \<Rightarrow> cstr \<Rightarrow> conf_item2 \<Rightarrow> bool" where
  "matches ctx key it \<longleftrightarrow> \<not> it_invalid it \<and> (\<exists>k. it_key it = Some k \<and> same_key ctx key k)"

definition lookup_in :: "kvc_context \<Rightarrow> conf_item2 list \<Rightarrow> cstr \<Rightarrow> cstr option" where
  "lookup_in ctx its key = Option.bind (List.find (\<lambda>it. live it \<and> matches ctx key it) its) it_value"

definition lookup :: "kvc_context \<Rightarrow> cstr \<Rightarrow> cstr option" where
  "lookup ctx = lookup_in ctx (all_items ctx)"

text \<open>At most one item for each key, deleted ones included.\<close>

definition distinct_keys :: "kvc_context \<Rightarrow> bool" where
  "distinct_keys ctx \<longleftrightarrow>
     (\<forall>i j key. i < length (all_items ctx) \<longrightarrow> j < length (all_items ctx) \<longrightarrow>
        matches ctx key (all_items ctx ! i) \<longrightarrow> matches ctx key (all_items ctx ! j) \<longrightarrow> i = j)"

lemma same_key_refl [simp]: "same_key ctx k k"
  by (simp add: same_key_def)

lemma same_key_sym: "same_key ctx a b \<longleftrightarrow> same_key ctx b a"
  by (auto simp: same_key_def)

lemma same_key_trans: "same_key ctx a b \<Longrightarrow> same_key ctx b c \<Longrightarrow> same_key ctx a c"
  by (auto simp: same_key_def split: if_splits)

lemma matches_same: "same_key ctx a b \<Longrightarrow> matches ctx a it \<longleftrightarrow> matches ctx b it"
  unfolding matches_def by (metis same_key_sym same_key_trans)

lemma matches_both: "matches ctx a it \<Longrightarrow> matches ctx b it \<Longrightarrow> same_key ctx a b"
  unfolding matches_def by (metis option.inject same_key_sym same_key_trans)

lemma used_items_ok: "group_ok ctx g \<Longrightarrow> used_items g = Some (take (g_used g) (g_items g))"
  by (simp add: used_items_def mem_get_def group_ok_def)

lemma kvc_ok_items:
  assumes "kvc_ok ctx"
  shows "used_items (k_og ctx) = Some (og_items ctx)" and "used_items (k_ng ctx) = Some (ng_items ctx)"
    and "\<forall>it \<in> set (og_items ctx). item_ok ctx it" and "\<forall>it \<in> set (ng_items ctx). item_ok ctx it"
    and "\<forall>it \<in> set (ng_items ctx). \<not> it_invalid it"
    and "length (og_items ctx) = g_used (k_og ctx)" and "length (ng_items ctx) = g_used (k_ng ctx)"
    and "g_used (k_og ctx) \<le> length (g_items (k_og ctx))" and "g_used (k_ng ctx) \<le> length (g_items (k_ng ctx))"
  using assms by (auto simp: kvc_ok_def og_items_def ng_items_def used_items_ok) (simp_all add: group_ok_def)

lemma alloc_ok [simp]: "allocs ctx = [] \<Longrightarrow> alloc ctx = (True, ctx)"
  by (simp add: alloc_def)

section \<open>Finding a key\<close>

lemma find_key_in_spec:
  assumes "\<forall>it \<in> set its. item_ok ctx it"
  shows "find_key_in ctx its key d = Some (index_of (\<lambda>it. matches ctx key it \<and> (d \<or> \<not> it_deleted it)) its)"
  using assms by (induction its) (auto simp: matches_def item_ok_def)

lemma find_key_spec:
  assumes "kvc_ok ctx"
  shows "find_key ctx (k_og ctx) key d = Some (index_of (\<lambda>it. matches ctx key it \<and> (d \<or> \<not> it_deleted it)) (og_items ctx))"
    and "find_key ctx (k_ng ctx) key d = Some (index_of (\<lambda>it. matches ctx key it \<and> (d \<or> \<not> it_deleted it)) (ng_items ctx))"
  using kvc_ok_items [OF assms] by (simp_all add: find_key_def find_key_in_spec)

definition strip_key :: "kvc_context \<Rightarrow> cstr \<Rightarrow> cstr" where
  "strip_key ctx key = (if has_flag ctx LF_STRIP_KEY_WHITESPACE then rtrim_len (ltrim key) else key)"

text \<open>The keys for which \<open>get_key_stripped\<close> stays inside the string: not the empty one, and the copy
  that white space at the end requires can be allocated.\<close>

definition key_ok :: "kvc_context \<Rightarrow> cstr \<Rightarrow> bool" where
  "key_ok ctx key \<longleftrightarrow> (has_flag ctx LF_STRIP_KEY_WHITESPACE \<longrightarrow> key \<noteq> [] \<and> (is_ws (last key) \<longrightarrow> fst (alloc ctx)))"

lemma rtrim_len_last: "s \<noteq> [] \<Longrightarrow> \<not> is_ws (last s) \<Longrightarrow> rtrim_len s = s"
  by (cases s rule: rev_cases) (auto simp: rtrim_len_def)

lemma rtrim_len_Nil [simp]: "rtrim_len [] = []"
  by (simp add: rtrim_len_def)

lemma rtrim_rtrim [simp]: "rtrim_len (rtrim_len s) = rtrim_len s"
  by (simp add: rtrim_len_def)

lemma ltrim_ltrim [simp]: "ltrim (ltrim s) = ltrim s"
  by (simp add: ltrim_def)

lemma ltrim_last:
  assumes "s \<noteq> []" and "\<not> is_ws (last s)"
  shows "ltrim s \<noteq> []" and "last (ltrim s) = last s"
proof -
  show n: "ltrim s \<noteq> []" using assms unfolding ltrim_def by (metis dropWhile_eq_Nil_conv last_in_set)
  then show "last (ltrim s) = last s" unfolding ltrim_def
    by (metis last_append takeWhile_dropWhile_id)
qed

lemma alloc_cases:
  obtains ok al where "alloc ctx = (ok, ctx\<lparr>allocs := al\<rparr>)" and "allocs ctx = [] \<Longrightarrow> ok \<and> al = []"
  by (cases "allocs ctx") (auto simp: alloc_def)

lemma get_key_stripped_spec:
  assumes "key_ok ctx key"
  obtains al where "get_key_stripped ctx key = Some (strip_key ctx key, ctx\<lparr>allocs := al\<rparr>)"
    and "allocs ctx = [] \<Longrightarrow> al = []"
proof (rule alloc_cases [of ctx])
  fix ok al assume a: "alloc ctx = (ok, ctx\<lparr>allocs := al\<rparr>)" "allocs ctx = [] \<Longrightarrow> ok \<and> al = []"
  let ?copied = "has_flag ctx LF_STRIP_KEY_WHITESPACE \<and> is_ws (last key)"
  show thesis
  proof (rule that [of "if ?copied then al else allocs ctx"])
    show "get_key_stripped ctx key = Some (strip_key ctx key, ctx\<lparr>allocs := if ?copied then al else allocs ctx\<rparr>)"
      using assms a ltrim_last [of key] rtrim_len_last [of "ltrim key"]
      by (auto simp: get_key_stripped_def strip_key_def key_ok_def Let_def)
    show "(if ?copied then al else allocs ctx) = []" if "allocs ctx = []" using a(2) that by simp
  qed
qed

lemma allocs_frame [simp]:
  "same_settings ctx (ctx\<lparr>allocs := al\<rparr>)" "og_items (ctx\<lparr>allocs := al\<rparr>) = og_items ctx"
  "ng_items (ctx\<lparr>allocs := al\<rparr>) = ng_items ctx" "all_items (ctx\<lparr>allocs := al\<rparr>) = all_items ctx"
  by (simp_all add: same_settings_def og_items_def ng_items_def all_items_def)

lemma same_settings_refl [simp]: "same_settings ctx ctx"
  by (simp add: same_settings_def)

lemma matches_cong: "same_settings a b \<Longrightarrow> matches b = matches a"
  by (intro ext) (simp add: matches_def same_settings_cong)

lemma lookup_in_cong: "same_settings a b \<Longrightarrow> lookup_in b = lookup_in a"
  by (intro ext) (simp add: lookup_in_def matches_cong)

lemma distinct_keys_cong:
  "same_settings a b \<Longrightarrow> all_items b = all_items a \<Longrightarrow> distinct_keys b = distinct_keys a"
  by (simp add: distinct_keys_def matches_cong)

lemma strip_key_cong: "same_settings a b \<Longrightarrow> strip_key b = strip_key a"
  by (intro ext) (simp add: strip_key_def same_settings_cong)

lemma allocs_same [simp]:
  "kvc_ok (ctx\<lparr>allocs := al\<rparr>) = kvc_ok ctx" "lookup (ctx\<lparr>allocs := al\<rparr>) = lookup ctx"
  "distinct_keys (ctx\<lparr>allocs := al\<rparr>) = distinct_keys ctx" "matches (ctx\<lparr>allocs := al\<rparr>) = matches ctx"
  "has_flag (ctx\<lparr>allocs := al\<rparr>) = has_flag ctx" "same_key (ctx\<lparr>allocs := al\<rparr>) = same_key ctx"
  using same_settings_cong [of ctx "ctx\<lparr>allocs := al\<rparr>"] lookup_in_cong [of ctx "ctx\<lparr>allocs := al\<rparr>"]
    distinct_keys_cong [of ctx "ctx\<lparr>allocs := al\<rparr>"] matches_cong [of ctx "ctx\<lparr>allocs := al\<rparr>"]
  by (simp_all add: kvc_ok_def lookup_def fun_eq_iff)

section \<open>Getting\<close>

lemma lookup_in_index:
  "lookup_in ctx its key = Option.bind (index_of (\<lambda>it. matches ctx key it \<and> \<not> it_deleted it) its) (\<lambda>i. it_value (its ! i))"
proof -
  have "(\<lambda>it. live it \<and> matches ctx key it) = (\<lambda>it. matches ctx key it \<and> \<not> it_deleted it)"
    by (auto simp: live_def matches_def fun_eq_iff)
  then show ?thesis
    by (simp add: lookup_in_def find_index_of) (cases "index_of (\<lambda>it. matches ctx key it \<and> \<not> it_deleted it) its"; simp)
qed

lemma index_of_append:
  "index_of P (xs @ ys) = (case index_of P xs of Some i \<Rightarrow> Some i | None \<Rightarrow> map_option ((+) (length xs)) (index_of P ys))"
  by (induction xs; cases "index_of P ys") (auto split: option.split)

lemma item_at:
  assumes "kvc_ok ctx"
  shows "i < length (og_items ctx) \<Longrightarrow> arr_get (g_items (k_og ctx)) i = Some (og_items ctx ! i)"
    and "i < length (ng_items ctx) \<Longrightarrow> arr_get (g_items (k_ng ctx)) i = Some (ng_items ctx ! i)"
  using kvc_ok_items [OF assms] by (auto simp: arr_get_def og_items_def ng_items_def)

lemma kvc_get_lookup:
  assumes "kvc_ok ctx" and "key_ok ctx key"
  obtains al where "kvc_get (Some ctx) (Some key) = Some (lookup ctx (strip_key ctx key), Some (ctx\<lparr>allocs := al\<rparr>))"
    and "allocs ctx = [] \<Longrightarrow> al = []"
proof -
  obtain al where s: "get_key_stripped ctx key = Some (strip_key ctx key, ctx\<lparr>allocs := al\<rparr>)"
    and al: "allocs ctx = [] \<Longrightarrow> al = []"
    using get_key_stripped_spec [OF assms(2)] by blast
  let ?c = "ctx\<lparr>allocs := al\<rparr>" and ?k = "strip_key ctx key"
  have ok: "kvc_ok ?c" using assms(1) by simp
  note f = find_key_spec [OF ok, of ?k False] item_at [OF ok]
  have "kvc_get (Some ctx) (Some key) = Some (lookup ctx ?k, Some ?c)"
    using f s assms(1)
    by (auto simp: kvc_get_def lookup_def lookup_in_index all_items_def index_of_append nth_append
        split: option.split dest: index_of_Some [THEN iffD1])
  then show thesis using that al by blast
qed

section \<open>Replacing one item of a list\<close>

lemma lookup_in_overwrite:
  assumes "index_of (matches ctx key) its = Some i" and "matches ctx key it" and "live it"
  shows "lookup_in ctx (its[i := it]) k = (if same_key ctx k key then it_value it else lookup_in ctx its k)"
proof (cases "same_key ctx k key")
  case True
  have "List.find (\<lambda>it. live it \<and> matches ctx k it) (its[i := it]) = Some it"
    by (rule find_update_hit [OF assms(1)]) (use matches_same [OF True] assms(2,3) in auto)
  with True show ?thesis by (simp add: lookup_in_def)
next
  case False
  have "matches ctx key (its ! i)" using assms(1) by (simp add: index_of_Some)
  then have "\<not> matches ctx k (its ! i)" "\<not> matches ctx k it" using False assms(2) matches_both by blast+
  then have "List.find (\<lambda>it. live it \<and> matches ctx k it) (its[i := it]) = List.find (\<lambda>it. live it \<and> matches ctx k it) its"
    by (intro find_update_miss) auto
  with False show ?thesis by (simp add: lookup_in_def)
qed

lemma lookup_in_hide:
  assumes "i < length its" and "matches ctx key (its ! i)" and "matches ctx key it" and "\<not> live it"
    and "\<And>j. j < length its \<Longrightarrow> matches ctx key (its ! j) \<Longrightarrow> j = i"
  shows "lookup_in ctx (its[i := it]) k = (if same_key ctx k key then None else lookup_in ctx its k)"
proof (cases "same_key ctx k key")
  case True
  have "\<not> (live x \<and> matches ctx k x)" if "x \<in> set (its[i := it])" for x
  proof -
    from that obtain j where j: "j < length its" "x = its[i := it] ! j" by (auto simp: in_set_conv_nth)
    show ?thesis
    proof (cases "j = i")
      case True
      then show ?thesis using j assms(4) by simp
    next
      case False
      then have "\<not> matches ctx key x" using j assms(5) by auto
      then show ?thesis using matches_same [OF True] by blast
    qed
  qed
  then have "List.find (\<lambda>it. live it \<and> matches ctx k it) (its[i := it]) = None" by (simp add: find_None)
  with True show ?thesis by (simp add: lookup_in_def)
next
  case False
  then have "\<not> matches ctx k (its ! i)" "\<not> matches ctx k it" using assms(2,3) matches_both by blast+
  then have "List.find (\<lambda>it. live it \<and> matches ctx k it) (its[i := it]) = List.find (\<lambda>it. live it \<and> matches ctx k it) its"
    by (intro find_update_miss) auto
  with False show ?thesis by (simp add: lookup_in_def)
qed

lemma lookup_in_add:
  assumes "\<forall>x \<in> set its. \<not> matches ctx key x" and "matches ctx key it" and "live it"
  shows "lookup_in ctx (its @ [it]) k = (if same_key ctx k key then it_value it else lookup_in ctx its k)"
proof (cases "same_key ctx k key")
  case True
  have "List.find (\<lambda>it. live it \<and> matches ctx k it) its = None"
    using assms(1) matches_same [OF True] by (auto simp: find_None)
  with True show ?thesis using assms(2,3) matches_same [OF True] by (simp add: lookup_in_def find_append)
next
  case False
  then have "\<not> matches ctx k it" using assms(2) matches_both by blast
  with False show ?thesis by (simp add: lookup_in_def find_append split: option.split)
qed

definition one_each :: "kvc_context \<Rightarrow> conf_item2 list \<Rightarrow> bool" where
  "one_each ctx its \<longleftrightarrow> (\<forall>i j key. i < length its \<longrightarrow> j < length its \<longrightarrow>
     matches ctx key (its ! i) \<longrightarrow> matches ctx key (its ! j) \<longrightarrow> i = j)"

lemma distinct_keys_one_each: "distinct_keys ctx = one_each ctx (all_items ctx)"
  by (simp add: distinct_keys_def one_each_def)

lemma one_each_update:
  assumes "one_each ctx its" and "\<And>k. matches ctx k it \<Longrightarrow> matches ctx k (its ! i)"
  shows "one_each ctx (its[i := it])"
  unfolding one_each_def
proof (intro allI impI)
  fix a b k assume "a < length (its[i := it])" "b < length (its[i := it])"
    and "matches ctx k (its[i := it] ! a)" "matches ctx k (its[i := it] ! b)"
  then have "a < length its" "b < length its" "matches ctx k (its ! a)" "matches ctx k (its ! b)"
    using assms(2) by (cases "a = i"; cases "b = i"; simp)+
  then show "a = b" using assms(1) by (simp add: one_each_def)
qed

lemma one_each_add:
  assumes "one_each ctx its" and "\<forall>x \<in> set its. \<not> matches ctx key x" and "matches ctx key it"
  shows "one_each ctx (its @ [it])"
  unfolding one_each_def
proof (intro allI impI)
  fix i j k assume b: "i < length (its @ [it])" "j < length (its @ [it])"
    and m: "matches ctx k ((its @ [it]) ! i)" "matches ctx k ((its @ [it]) ! j)"
  have n: "\<not> (matches ctx k (its ! l) \<and> matches ctx k it)" if "l < length its" for l
    using assms(2,3) that by (meson matches_both matches_same nth_mem)
  show "i = j"
  proof (cases "i < length its \<and> j < length its")
    case True
    then show ?thesis using assms(1) m unfolding one_each_def by (auto simp: nth_append)
  next
    case False
    then show ?thesis using b m n [of i] n [of j] by (auto simp: nth_append less_Suc_eq split: if_splits)
  qed
qed

text \<open>The two groups together.\<close>

definition with_og :: "kvc_context \<Rightarrow> nat \<Rightarrow> conf_item2 \<Rightarrow> kvc_context" where
  "with_og ctx i it = ctx\<lparr>k_og := (k_og ctx)\<lparr>g_items := (g_items (k_og ctx))[i := it]\<rparr>\<rparr>"

definition with_ng :: "kvc_context \<Rightarrow> nat \<Rightarrow> conf_item2 \<Rightarrow> kvc_context" where
  "with_ng ctx i it = ctx\<lparr>k_ng := (k_ng ctx)\<lparr>g_items := (g_items (k_ng ctx))[i := it]\<rparr>\<rparr>"

lemma with_settings [simp]: "same_settings ctx (with_og ctx i it)" "same_settings ctx (with_ng ctx i it)"
  by (simp_all add: same_settings_def with_og_def with_ng_def)

lemma with_allocs [simp]: "allocs (with_og ctx i it) = allocs ctx" "allocs (with_ng ctx i it) = allocs ctx"
  by (simp_all add: with_og_def with_ng_def)

lemma with_og_items:
  assumes "i < length (og_items ctx)"
  shows "all_items (with_og ctx i it) = (all_items ctx)[i := it]"
proof -
  have "og_items (with_og ctx i it) = (og_items ctx)[i := it]" "ng_items (with_og ctx i it) = ng_items ctx"
    by (simp_all add: with_og_def og_items_def ng_items_def take_update_swap)
  then show ?thesis using assms by (simp add: all_items_def list_update_append)
qed

lemma with_ng_items:
  assumes "i < length (ng_items ctx)"
  shows "all_items (with_ng ctx i it) = (all_items ctx)[length (og_items ctx) + i := it]"
proof -
  have "ng_items (with_ng ctx i it) = (ng_items ctx)[i := it]" "og_items (with_ng ctx i it) = og_items ctx"
    by (simp_all add: with_ng_def og_items_def ng_items_def take_update_swap)
  then show ?thesis by (simp add: all_items_def list_update_append)
qed

lemma group_ok_update:
  assumes "group_ok ctx g" and "item_ok ctx it"
  shows "group_ok ctx (g\<lparr>g_items := (g_items g)[i := it]\<rparr>)"
  using assms set_update_subset_insert [of "take (g_used g) (g_items g)" i it]
  by (auto simp: group_ok_def take_update_swap)

lemma with_og_ok:
  assumes "kvc_ok ctx" and "item_ok ctx it"
  shows "kvc_ok (with_og ctx i it)"
proof -
  have "group_ok ctx (k_og (with_og ctx i it))"
    using assms by (simp add: with_og_def kvc_ok_def group_ok_update)
  moreover have "k_ng (with_og ctx i it) = k_ng ctx" "k_eol (with_og ctx i it) = k_eol ctx"
    by (simp_all add: with_og_def)
  ultimately show ?thesis
    using assms(1) same_settings_cong(5) [OF with_settings(1)] by (simp add: kvc_ok_def)
qed

lemma with_ng_ok:
  assumes "kvc_ok ctx" and "item_ok ctx it" and "\<not> it_invalid it" and "i < length (ng_items ctx)"
  shows "kvc_ok (with_ng ctx i it)"
proof -
  have g: "group_ok ctx (k_ng (with_ng ctx i it))"
    using assms by (simp add: with_ng_def kvc_ok_def group_ok_update)
  have u: "i < g_used (k_ng ctx)" using assms(4) by (simp add: ng_items_def)
  have "set (take (g_used (k_ng ctx)) ((g_items (k_ng ctx))[i := it])) \<subseteq> insert it (set (take (g_used (k_ng ctx)) (g_items (k_ng ctx))))"
    by (simp add: take_update_swap set_update_subset_insert)
  moreover have "drop (g_used (k_ng ctx)) ((g_items (k_ng ctx))[i := it]) = drop (g_used (k_ng ctx)) (g_items (k_ng ctx))"
    using u by simp
  moreover have "k_og (with_ng ctx i it) = k_og ctx" "k_eol (with_ng ctx i it) = k_eol ctx"
    "k_ng (with_ng ctx i it) = (k_ng ctx)\<lparr>g_items := (g_items (k_ng ctx))[i := it]\<rparr>"
    by (simp_all add: with_ng_def)
  ultimately show ?thesis
    using assms(1,3) g same_settings_cong(5) [OF with_settings(2)] unfolding kvc_ok_def by auto
qed

section \<open>Items that a line of text can hold\<close>

text \<open>No line ending and no null byte anywhere, no \<open>=\<close> in a key, no key that looks like a comment, and
  the white space already gone where the flags remove it.\<close>

definition trim_value :: "bool \<Rightarrow> cstr \<Rightarrow> cstr" where
  "trim_value strip v = (if strip then rtrim_len (ltrim v) else v)"

definition plain_text :: "cstr \<Rightarrow> bool" where
  "plain_text s \<longleftrightarrow> (\<forall>c \<in> set s. \<not> is_eol c \<and> c \<noteq> 0)"

definition clean_key :: "kvc_context \<Rightarrow> cstr \<Rightarrow> bool" where
  "clean_key ctx k \<longleftrightarrow> plain_text k \<and> EQ \<notin> set k \<and> take 1 (ltrim k) \<noteq> [HASH] \<and> strip_key ctx k = k"

definition clean_item :: "kvc_context \<Rightarrow> conf_item2 \<Rightarrow> bool" where
  "clean_item ctx it \<longleftrightarrow> (\<exists>k. it_key it = Some k \<and>
     (if it_invalid it then plain_text k \<and> (take 1 (ltrim k) = [HASH] \<or> EQ \<notin> set k)
      else clean_key ctx k \<and> it_nostrip it = is_string_in_list k (k_nostrip ctx) \<and>
        (\<exists>v. it_value it = Some v \<and> plain_text v \<and> trim_value (item_strip ctx it) v = v)))"

definition clean :: "kvc_context \<Rightarrow> bool" where
  "clean ctx \<longleftrightarrow> (\<forall>it \<in> set (all_items ctx). clean_item ctx it)"

lemma strip_key_trimmed:
  assumes "rtrim_len (ltrim k) = k"
  shows "ltrim k = k" and "rtrim_len k = k"
proof -
  have "length (rtrim_len (ltrim k)) \<le> length (ltrim k)" "length (ltrim k) \<le> length k"
    using length_dropWhile_le [of is_ws "rev (ltrim k)"] by (simp_all add: rtrim_len_def ltrim_def length_dropWhile_le)
  then have "length (ltrim k) = length k" using assms by simp
  moreover have "suffix (ltrim k) k" by (simp add: ltrim_def suffix_dropWhile)
  ultimately show l: "ltrim k = k" by (metis suffix_order.dual_order.refl suffix_length_less nat_less_le suffix_order.less_le)
  then show "rtrim_len k = k" using assms by simp
qed

lemma ltrim_rtrim: "ltrim s = s \<Longrightarrow> ltrim (rtrim_len s) = rtrim_len s"
proof (cases s)
  case (Cons c r)
  assume "ltrim s = s"
  with Cons have "\<not> is_ws c" by (metis dropWhile.simps(2) impossible_Cons length_dropWhile_le ltrim_def)
  have "rtrim_len s = c # rtrim_len r"
  proof (cases "\<exists>x \<in> set (rev r). \<not> is_ws x")
    case True
    then have "dropWhile is_ws (rev r @ [c]) = dropWhile is_ws (rev r) @ [c]" by (metis dropWhile_append1)
    then show ?thesis by (simp add: Cons rtrim_len_def)
  next
    case False
    then have "dropWhile is_ws (rev r @ [c]) = dropWhile is_ws [c]" "dropWhile is_ws (rev r) = []"
      by (metis dropWhile_append2, metis dropWhile_eq_Nil_conv)
    then show ?thesis using \<open>\<not> is_ws c\<close> by (simp add: Cons rtrim_len_def)
  qed
  with \<open>\<not> is_ws c\<close> show ?thesis by (simp add: ltrim_def)
qed simp

lemma trim_trim [simp]: "trim_value b (trim_value b v) = trim_value b v"
  by (simp add: trim_value_def ltrim_rtrim)

lemma clean_cong:
  assumes "same_settings a b"
  shows "clean_key b = clean_key a" and "clean_item b = clean_item a"
proof -
  have n: "k_nostrip b = k_nostrip a" using assms by (simp add: same_settings_def)
  show k: "clean_key b = clean_key a" by (intro ext) (simp add: clean_key_def strip_key_cong [OF assms])
  show "clean_item b = clean_item a"
    by (intro ext) (simp add: clean_item_def k n same_settings_cong(3) [OF assms])
qed

section \<open>Setting\<close>

text \<open>What is stored for a value: without surrounding white space, unless the flag is off or the key is
  in \<open>nostrip_list\<close>, which is decided when the item is created.\<close>

definition nostrip_of :: "kvc_context \<Rightarrow> cstr \<Rightarrow> bool" where
  "nostrip_of ctx key = (case List.find (matches ctx key) (all_items ctx) of
     Some it \<Rightarrow> it_nostrip it | None \<Rightarrow> is_string_in_list key (k_nostrip ctx))"

definition stored_value :: "kvc_context \<Rightarrow> cstr \<Rightarrow> cstr \<Rightarrow> cstr" where
  "stored_value ctx key = trim_value (has_flag ctx LF_STRIP_VALUE_WHITESPACE \<and> \<not> nostrip_of ctx key)"

text \<open>The outcome of setting \<open>key\<close>, to be stored as \<open>w\<close>: other keys keep their values, and when the
  operation succeeds the key has the new one.\<close>

definition set_result :: "kvc_context \<Rightarrow> cstr \<Rightarrow> cstr \<Rightarrow> int \<Rightarrow> kvc_context \<Rightarrow> bool" where
  "set_result ctx key w r ctx' \<longleftrightarrow> kvc_ok ctx' \<and> same_settings ctx ctx' \<and>
     (allocs ctx = [] \<longrightarrow> r = 0 \<and> allocs ctx' = []) \<and> (distinct_keys ctx \<longrightarrow> distinct_keys ctx') \<and>
     k_file ctx' = k_file ctx \<and> k_eol ctx' = k_eol ctx \<and>
     (clean ctx \<and> clean_key ctx key \<and> plain_text w \<longrightarrow> clean ctx') \<and>
     (\<forall>k. \<not> same_key ctx k key \<longrightarrow> lookup ctx' k = lookup ctx k) \<and>
     (r = 0 \<longrightarrow> (\<forall>k. same_key ctx k key \<longrightarrow> lookup ctx' k = Some w))"

lemma overwrite_key_spec:
  assumes "item_ok ctx it" and "\<not> it_invalid it"
  obtains r it' al where "overwrite_key ctx it v = Some (r, it', ctx\<lparr>allocs := al\<rparr>)"
    and "item_ok ctx it'" and "it_key it' = it_key it" and "live it'"
    and "r = 0 \<Longrightarrow> it_value it' = Some (trim_value (item_strip ctx it) v)"
    and "allocs ctx = [] \<Longrightarrow> r = 0 \<and> al = []"
    and "clean_item ctx it \<Longrightarrow> plain_text (trim_value (item_strip ctx it) v) \<Longrightarrow> clean_item ctx it'"
proof (rule alloc_cases [of ctx])
  fix ok al assume a: "alloc ctx = (ok, ctx\<lparr>allocs := al\<rparr>)" "allocs ctx = [] \<Longrightarrow> ok \<and> al = []"
  obtain old where old: "it_value it = Some old" "item_strip ctx it \<Longrightarrow> rtrim_len old = old"
    using assms by (auto simp: item_ok_def)
  let ?v = "if item_strip ctx it then ltrim v else v"
  have key: "it_key it \<noteq> None" "it_eol it \<le> EOL_CRLF" using assms(1) by (simp_all add: item_ok_def)
  have strip: "(has_flag ctx LF_STRIP_VALUE_WHITESPACE \<and> \<not> it_nostrip it) = item_strip ctx it"
    by (simp add: item_strip_def)
  show thesis
  proof (cases "?v = old")
    case True
    then have "overwrite_key ctx it v = Some (0, it\<lparr>it_deleted := False\<rparr>, ctx\<lparr>allocs := allocs ctx\<rparr>)"
      using old(1) by (simp add: overwrite_key_def strip)
    then show thesis
      by (rule that) (use True assms old key in \<open>auto simp: item_ok_def live_def trim_value_def item_strip_def clean_item_def\<close>)
  next
    case False
    let ?it = "it\<lparr>it_deleted := False, it_value := Some (trim_value (item_strip ctx it) v)\<rparr>"
    have ok: "item_ok ctx ?it" "item_ok ctx (?it\<lparr>it_dirty := True\<rparr>)"
      using key assms by (auto simp: item_ok_def item_strip_def trim_value_def)
    have st: "item_strip ctx ?it = item_strip ctx it" "item_strip ctx (?it\<lparr>it_dirty := True\<rparr>) = item_strip ctx it"
      by (simp_all add: item_strip_def)
    have cl: "clean_item ctx ?it" "clean_item ctx (?it\<lparr>it_dirty := True\<rparr>)"
      if "clean_item ctx it" "plain_text (trim_value (item_strip ctx it) v)"
      using that assms(2) unfolding clean_item_def st by auto
    have tv: "(if item_strip ctx it then rtrim_len ?v else ?v) = trim_value (item_strip ctx it) v"
      by (simp add: trim_value_def)
    show thesis
    proof (cases "length ?v \<le> length old")
      case True
      then have "overwrite_key ctx it v = Some (0, ?it, ctx\<lparr>allocs := allocs ctx\<rparr>)"
        using False old(1) tv by (simp add: overwrite_key_def strip)
      then show thesis by (rule that) (use ok assms(2) cl in \<open>simp_all add: live_def\<close>)
    next
      case long: False
      show thesis
      proof (cases ok)
        case True
        then have "overwrite_key ctx it v = Some (0, ?it\<lparr>it_dirty := True\<rparr>, ctx\<lparr>allocs := al\<rparr>)"
          using False long old(1) a(1) tv by (simp add: overwrite_key_def strip Let_def)
        then show thesis by (rule that) (use ok assms(2) a(2) cl in \<open>simp_all add: live_def\<close>)
      next
        case fail: False
        then have "overwrite_key ctx it v = Some (- 12, it\<lparr>it_deleted := False\<rparr>, ctx\<lparr>allocs := al\<rparr>)"
          using False long old(1) a(1) by (simp add: overwrite_key_def strip Let_def)
        then show thesis
          by (rule that) (use assms fail a(2) old in \<open>auto simp: live_def item_ok_def item_strip_def clean_item_def\<close>)
      qed
    qed
  qed
qed

lemma replaced_result:
  assumes "kvc_ok ctx'" and "same_settings ctx ctx'" and "allocs ctx = [] \<Longrightarrow> r = 0 \<and> allocs ctx' = []"
    and "all_items ctx' = (all_items ctx)[i := it]" and i: "index_of (matches ctx key) (all_items ctx) = Some i"
    and "it_key it = it_key (all_items ctx ! i)" and "live it" and "r = 0 \<Longrightarrow> it_value it = Some w"
    and "clean_item ctx (all_items ctx ! i) \<Longrightarrow> plain_text w \<Longrightarrow> clean_item ctx it"
    and "k_file ctx' = k_file ctx" and "k_eol ctx' = k_eol ctx"
  shows "set_result ctx key w r ctx'"
proof -
  have m: "matches ctx k it = matches ctx k (all_items ctx ! i)" for k
    using i assms(6,7) by (auto simp: index_of_Some matches_def live_def)
  have mk: "matches ctx key it" using i m by (simp add: index_of_Some)
  have l: "lookup ctx' k = (if same_key ctx k key then it_value it else lookup ctx k)" for k
    using lookup_in_overwrite [OF i mk assms(7)] lookup_in_cong [OF assms(2)] assms(4) by (simp add: lookup_def)
  have "distinct_keys ctx \<Longrightarrow> distinct_keys ctx'"
    using one_each_update [of ctx "all_items ctx" it i] m assms(4) matches_cong [OF assms(2)]
    by (simp add: distinct_keys_one_each) (simp add: one_each_def)
  moreover have "clean ctx'" if "clean ctx" "plain_text w"
  proof -
    have "i < length (all_items ctx)" using i by (simp add: index_of_Some)
    then have "clean_item ctx it" using that assms(9) by (simp add: clean_def)
    then show ?thesis using that(1) set_update_subset_insert [of "all_items ctx" i it]
      unfolding clean_def assms(4) clean_cong(2) [OF assms(2)] by blast
  qed
  ultimately show ?thesis unfolding set_result_def using assms(1,2,3,8,10,11) l by auto
qed

lemma added_result:
  assumes "kvc_ok ctx'" and "same_settings ctx ctx'" and "allocs ctx = [] \<Longrightarrow> allocs ctx' = []"
    and "all_items ctx' = all_items ctx @ [it]" and none: "\<forall>x \<in> set (all_items ctx). \<not> matches ctx key x"
    and "matches ctx key it" and "live it" and "it_value it = Some w"
    and "clean_key ctx key \<Longrightarrow> plain_text w \<Longrightarrow> clean_item ctx it"
    and "k_file ctx' = k_file ctx" and "k_eol ctx' = k_eol ctx"
  shows "set_result ctx key w 0 ctx'"
proof -
  have l: "lookup ctx' k = (if same_key ctx k key then it_value it else lookup ctx k)" for k
    using lookup_in_add [OF none assms(6,7)] lookup_in_cong [OF assms(2)] assms(4) by (simp add: lookup_def)
  have "distinct_keys ctx \<Longrightarrow> distinct_keys ctx'"
    using one_each_add [OF _ none assms(6)] assms(4) matches_cong [OF assms(2)]
    by (simp add: distinct_keys_one_each) (simp add: one_each_def)
  moreover have "clean ctx'" if "clean ctx" "clean_key ctx key" "plain_text w"
    using that assms(9) unfolding clean_def assms(4) clean_cong(2) [OF assms(2)] by auto
  ultimately show ?thesis unfolding set_result_def using assms(1,2,3,8,10,11) l by auto
qed

lemma failed_result:
  assumes "kvc_ok ctx" and "allocs ctx \<noteq> []" and "r \<noteq> 0"
  shows "set_result ctx key w r (ctx\<lparr>allocs := al\<rparr>)"
  using assms clean_cong(2) [of ctx "ctx\<lparr>allocs := al\<rparr>"] by (simp add: set_result_def clean_def)

text \<open>The array of new items grows by blank items.\<close>

lemma get_new_item_spec:
  assumes "kvc_ok ctx"
  obtains al where "allocs ctx \<noteq> []" and "get_new_item ctx = (- 12, 0, ctx\<lparr>allocs := al\<rparr>)"
  | al xs where "allocs ctx = [] \<Longrightarrow> al = []" and "take (g_used (k_ng ctx)) xs = ng_items ctx"
    and "g_used (k_ng ctx) < length xs" and "\<forall>it \<in> set (drop (g_used (k_ng ctx)) xs). it = blank_item"
    and "get_new_item ctx = (0, g_used (k_ng ctx), ctx\<lparr>allocs := al, k_ng := \<lparr>g_items = xs, g_used = g_used (k_ng ctx) + 1\<rparr>\<rparr>)"
proof (rule alloc_cases [of ctx])
  fix ok al assume a: "alloc ctx = (ok, ctx\<lparr>allocs := al\<rparr>)" "allocs ctx = [] \<Longrightarrow> ok \<and> al = []"
  let ?u = "g_used (k_ng ctx)" and ?xs = "g_items (k_ng ctx)"
  have u: "?u \<le> length ?xs" and b: "\<forall>it \<in> set (drop ?u ?xs). it = blank_item"
    using assms by (simp_all add: kvc_ok_def group_ok_def)
  show thesis
  proof (cases "?u < length ?xs")
    case True
    then have "get_new_item ctx = (0, ?u, ctx\<lparr>allocs := allocs ctx, k_ng := \<lparr>g_items = ?xs, g_used = ?u + 1\<rparr>\<rparr>)"
      by (simp add: get_new_item_def)
    then show thesis using that(2) [of "allocs ctx" ?xs] True b by (simp add: ng_items_def)
  next
    case full: False
    show thesis
    proof (cases ok)
      case True
      let ?ys = "?xs @ replicate 5 blank_item"
      have "get_new_item ctx = (0, ?u, ctx\<lparr>allocs := al, k_ng := \<lparr>g_items = ?ys, g_used = ?u + 1\<rparr>\<rparr>)"
        using full a(1) True
        by (simp add: get_new_item_def new_conf_group_extend_def NEW_CONF_GROUP_INCREMENT_def Let_def)
      then show thesis using that(2) [of al ?ys] full u a(2) by (simp add: ng_items_def)
    next
      case False
      then have "get_new_item ctx = (- 12, 0, ctx\<lparr>allocs := al\<rparr>)"
        using full a(1) by (simp add: get_new_item_def new_conf_group_extend_def Let_def)
      then show thesis using that(1) False a(2) by blast
    qed
  qed
qed

lemma create_key_spec:
  assumes "kvc_ok ctx" and none: "\<forall>x \<in> set (all_items ctx). \<not> matches ctx key x"
  obtains r ctx' where "create_key ctx key value = Some (r, ctx')"
    and "set_result ctx key (stored_value ctx key value) r ctx'"
proof (rule alloc_cases [of ctx])
  fix ok1 a1 assume 1: "alloc ctx = (ok1, ctx\<lparr>allocs := a1\<rparr>)" "allocs ctx = [] \<Longrightarrow> ok1 \<and> a1 = []"
  show thesis
  proof (rule alloc_cases [of "ctx\<lparr>allocs := a1\<rparr>"])
    fix ok2 a2 assume 2: "alloc (ctx\<lparr>allocs := a1\<rparr>) = (ok2, ctx\<lparr>allocs := a1\<rparr>\<lparr>allocs := a2\<rparr>)"
      "allocs (ctx\<lparr>allocs := a1\<rparr>) = [] \<Longrightarrow> ok2 \<and> a2 = []"
    let ?c = "ctx\<lparr>allocs := a2\<rparr>" and ?w = "stored_value ctx key value"
    have w: "?w = (if has_flag ctx LF_STRIP_VALUE_WHITESPACE \<and> \<not> is_string_in_list key (k_nostrip ctx)
        then rtrim_len (ltrim value) else value)"
      using none find_None [of "matches ctx key" "all_items ctx"]
      by (simp add: stored_value_def trim_value_def nostrip_of_def)
    show thesis
    proof (cases "ok1 \<and> ok2")
      case False
      then have "\<exists>al. create_key ctx key value = Some (- 12, ctx\<lparr>allocs := al\<rparr>)"
        using 1(1) 2(1) by (auto simp: create_key_def Let_def)
      moreover have "allocs ctx \<noteq> []" using False 1(2) 2(2) by auto
      ultimately show thesis using that failed_result [OF assms(1)] by auto
    next
      case True
      have ok: "kvc_ok ?c" using assms(1) by simp
      show thesis
      proof (rule get_new_item_spec [OF ok])
        fix al assume "allocs ?c \<noteq> []" and g: "get_new_item ?c = (- 12, 0, ?c\<lparr>allocs := al\<rparr>)"
        then have "allocs ctx \<noteq> []" using 1(2) 2(2) by auto
        moreover have "create_key ctx key value = Some (- 12, ctx\<lparr>allocs := al\<rparr>)"
          using 1(1) 2(1) True g by (simp add: create_key_def Let_def)
        ultimately show thesis using that failed_result [OF assms(1)] by auto
      next
        fix al xs
        let ?u = "g_used (k_ng ctx)"
        let ?it = "blank_item\<lparr>it_key := Some key, it_value := Some ?w, it_eol := k_eol ctx,
            it_nostrip := is_string_in_list key (k_nostrip ctx), it_dirty := True\<rparr>"
        let ?ctx' = "ctx\<lparr>allocs := al, k_ng := \<lparr>g_items = xs[?u := ?it], g_used = ?u + 1\<rparr>\<rparr>"
        assume "allocs ?c = [] \<Longrightarrow> al = []" and "take (g_used (k_ng ?c)) xs = ng_items ?c"
          and "g_used (k_ng ?c) < length xs" and "\<forall>it \<in> set (drop (g_used (k_ng ?c)) xs). it = blank_item"
          and g: "get_new_item ?c = (0, g_used (k_ng ?c), ?c\<lparr>allocs := al, k_ng := \<lparr>g_items = xs, g_used = g_used (k_ng ?c) + 1\<rparr>\<rparr>)"
        then have al: "allocs ctx = [] \<Longrightarrow> al = []" and t: "take ?u xs = ng_items ctx" and u: "?u < length xs"
          and b: "\<forall>it \<in> set (drop ?u xs). it = blank_item"
          using 1(2) 2(2) by auto
        have d: "drop ?u xs = blank_item # drop (?u + 1) xs"
          using u b Cons_nth_drop_Suc [of ?u xs] by (metis Suc_eq_plus1 list.set_intros(1))
        then have x: "xs ! ?u = blank_item" by (metis hd_drop_conv_nth list.sel(1) u)
        have tk: "take (?u + 1) (xs[?u := ?it]) = ng_items ctx @ [?it]"
          using u t by (simp add: take_Suc_conv_app_nth)
        have "create_key ctx key value = Some (0, ?ctx')"
          using 1(1) 2(1) True g u x w by (simp add: create_key_def Let_def arr_get_def arr_set_def)
        moreover have "set_result ctx key ?w 0 ?ctx'"
        proof (rule added_result [OF _ _ _ _ none, where it = ?it])
          have s: "same_settings ctx ?ctx'" by (simp add: same_settings_def)
          then show "same_settings ctx ?ctx'" .
          show "all_items ?ctx' = all_items ctx @ [?it]"
            using tk by (simp add: all_items_def og_items_def ng_items_def)
          have "item_ok ctx ?it" using assms(1) w by (auto simp: item_ok_def item_strip_def kvc_ok_def)
          moreover have "\<forall>it \<in> set (drop (?u + 1) (xs[?u := ?it])). it = blank_item"
            using b d by simp
          ultimately show "kvc_ok ?ctx'"
            using assms(1) tk u kvc_ok_items [OF assms(1)] same_settings_cong(5) [OF s]
            unfolding kvc_ok_def by (auto simp: group_ok_def blank_item_def)
          show "clean_item ctx ?it" if "clean_key ctx key" "plain_text ?w"
            using that w by (auto simp: clean_item_def item_strip_def blank_item_def trim_value_def ltrim_rtrim)
        qed (use al in \<open>simp_all add: matches_def live_def blank_item_def\<close>)
        ultimately show thesis using that by blast
      qed
    qed
  qed
qed

lemma set_result_allocs:
  assumes "set_result (ctx\<lparr>allocs := al\<rparr>) key w r ctx'" and "allocs ctx = [] \<Longrightarrow> al = []"
  shows "set_result ctx key w r ctx'"
proof -
  have "clean (ctx\<lparr>allocs := al\<rparr>) = clean ctx" "clean_key (ctx\<lparr>allocs := al\<rparr>) = clean_key ctx"
    using clean_cong [of ctx "ctx\<lparr>allocs := al\<rparr>"] by (simp_all add: clean_def)
  then show ?thesis using assms by (auto simp: set_result_def same_settings_def)
qed

lemma stored_value_first:
  assumes "index_of (matches ctx key) (all_items ctx) = Some i"
  shows "stored_value ctx key = trim_value (item_strip ctx (all_items ctx ! i))"
  using assms by (simp add: stored_value_def nostrip_of_def find_index_of item_strip_def fun_eq_iff)

lemma stored_value_cong:
  assumes "same_settings a b" and "all_items b = all_items a"
  shows "stored_value b = stored_value a"
proof -
  have "k_nostrip b = k_nostrip a" using assms(1) by (simp add: same_settings_def)
  then show ?thesis
    using assms
    by (simp add: stored_value_def nostrip_of_def matches_cong same_settings_cong(1) fun_eq_iff cong: option.case_cong)
qed

lemma kvc_set_spec:
  assumes "kvc_ok ctx" and "key_ok ctx key"
  obtains r ctx' where "kvc_set (Some ctx) key value = Some (r, Some ctx')"
    and "set_result ctx (strip_key ctx key) (stored_value ctx (strip_key ctx key) value) r ctx'"
proof -
  let ?k = "strip_key ctx key"
  obtain al where s: "get_key_stripped ctx key = Some (?k, ctx\<lparr>allocs := al\<rparr>)"
    and al: "allocs ctx = [] \<Longrightarrow> al = []"
    using get_key_stripped_spec [OF assms(2)] by blast
  let ?c = "ctx\<lparr>allocs := al\<rparr>"
  have ok: "kvc_ok ?c" using assms(1) by simp
  have sv: "stored_value ?c = stored_value ctx" by (rule stored_value_cong) simp_all
  note I = kvc_ok_items [OF ok]
  have f: "find_key ?c (k_og ?c) ?k True = Some (index_of (matches ?c ?k) (og_items ?c))"
    "find_key ?c (k_ng ?c) ?k True = Some (index_of (matches ?c ?k) (ng_items ?c))"
    using find_key_spec [OF ok, of ?k True] by simp_all
  have "\<exists>r ctx'. kvc_set (Some ctx) key value = Some (r, Some ctx') \<and>
      set_result ?c ?k (stored_value ?c ?k value) r ctx'"
  proof (cases "index_of (matches ?c ?k) (og_items ?c)")
    case (Some i)
    let ?it = "og_items ?c ! i"
    have i: "i < length (og_items ?c)" "matches ?c ?k ?it" using Some by (simp_all only: index_of_Some)
    have a: "index_of (matches ?c ?k) (all_items ?c) = Some i" "all_items ?c ! i = ?it"
      using Some i(1) by (simp_all add: all_items_def index_of_append nth_append)
    have io: "item_ok ?c ?it" "\<not> it_invalid ?it" using I(3) i by (auto simp: matches_def)
    obtain r it' al' where o: "overwrite_key ?c ?it value = Some (r, it', ?c\<lparr>allocs := al'\<rparr>)"
      and p: "item_ok ?c it'" "it_key it' = it_key ?it" "live it'"
        "r = 0 \<Longrightarrow> it_value it' = Some (trim_value (item_strip ?c ?it) value)"
        "allocs ?c = [] \<Longrightarrow> r = 0 \<and> al' = []"
        "clean_item ?c ?it \<Longrightarrow> plain_text (trim_value (item_strip ?c ?it) value) \<Longrightarrow> clean_item ?c it'"
      using overwrite_key_spec [OF io] by blast
    let ?c' = "with_og (?c\<lparr>allocs := al'\<rparr>) i it'"
    have "kvc_set (Some ctx) key value = Some (r, Some ?c')"
      using s f(1) Some o item_at(1) [OF ok i(1)] i(1) I(6,8)
      by (simp add: kvc_set_def arr_set_def with_og_def)
    moreover have "set_result ?c ?k (stored_value ?c ?k value) r ?c'"
    proof (rule replaced_result [where it = it', OF _ _ _ _ a(1)])
      have "same_settings ?c (?c\<lparr>allocs := al'\<rparr>)" by (rule allocs_frame)
      note c = same_settings_cong [OF this]
      show "kvc_ok ?c'" by (rule with_og_ok) (use ok p(1) c in simp_all)
      show "same_settings ?c ?c'" by (simp add: same_settings_def with_og_def)
      show "all_items ?c' = (all_items ?c)[i := it']"
        by (subst with_og_items) (use i(1) in simp_all)
    qed (use p a in \<open>simp_all add: stored_value_first [OF a(1)] with_og_def\<close>)
    ultimately show ?thesis by blast
  next
    case no_og: None
    show ?thesis
    proof (cases "index_of (matches ?c ?k) (ng_items ?c)")
      case (Some i)
      let ?it = "ng_items ?c ! i" and ?n = "length (og_items ?c)"
      have i: "i < length (ng_items ?c)" "matches ?c ?k ?it" using Some by (simp_all only: index_of_Some)
      have a: "index_of (matches ?c ?k) (all_items ?c) = Some (?n + i)" "all_items ?c ! (?n + i) = ?it"
        using no_og Some i(1) by (simp_all add: all_items_def index_of_append nth_append)
      have io: "item_ok ?c ?it" "\<not> it_invalid ?it" using I(4) i by (auto simp: matches_def)
      obtain r it' al' where o: "overwrite_key ?c ?it value = Some (r, it', ?c\<lparr>allocs := al'\<rparr>)"
        and p: "item_ok ?c it'" "it_key it' = it_key ?it" "live it'"
          "r = 0 \<Longrightarrow> it_value it' = Some (trim_value (item_strip ?c ?it) value)"
          "allocs ?c = [] \<Longrightarrow> r = 0 \<and> al' = []"
          "clean_item ?c ?it \<Longrightarrow> plain_text (trim_value (item_strip ?c ?it) value) \<Longrightarrow> clean_item ?c it'"
        using overwrite_key_spec [OF io] by blast
      let ?c' = "with_ng (?c\<lparr>allocs := al'\<rparr>) i it'"
      have "kvc_set (Some ctx) key value = Some (r, Some ?c')"
        using s f no_og Some o item_at(2) [OF ok i(1)] i(1) I(7,9)
        by (simp add: kvc_set_def arr_set_def with_ng_def)
      moreover have "set_result ?c ?k (stored_value ?c ?k value) r ?c'"
      proof (rule replaced_result [where it = it', OF _ _ _ _ a(1)])
        have "same_settings ?c (?c\<lparr>allocs := al'\<rparr>)" by (rule allocs_frame)
        note c = same_settings_cong [OF this]
        show "kvc_ok ?c'" by (rule with_ng_ok) (use ok p(1,3) c i in \<open>simp_all add: live_def\<close>)
        show "same_settings ?c ?c'" by (simp add: same_settings_def with_ng_def)
        show "all_items ?c' = (all_items ?c)[?n + i := it']"
          by (subst with_ng_items) (use i(1) in simp_all)
      qed (use p a in \<open>simp_all add: stored_value_first [OF a(1)] with_ng_def\<close>)
      ultimately show ?thesis by blast
    next
      case None
      have none: "\<forall>x \<in> set (all_items ?c). \<not> matches ?c ?k x"
        using no_og None by (auto simp: all_items_def index_of_None)
      obtain r ctx' where "create_key ?c ?k value = Some (r, ctx')" "set_result ?c ?k (stored_value ?c ?k value) r ctx'"
        using create_key_spec [OF ok none] by blast
      then show ?thesis using s f no_og None by (auto simp: kvc_set_def)
    qed
  qed
  then show thesis using that set_result_allocs [OF _ al] sv by metis
qed

section \<open>Deleting\<close>

text \<open>The outcome of deleting \<open>key\<close>.\<close>

definition unset_result :: "kvc_context \<Rightarrow> cstr \<Rightarrow> kvc_context \<Rightarrow> bool" where
  "unset_result ctx key ctx' \<longleftrightarrow> kvc_ok ctx' \<and> same_settings ctx ctx' \<and> distinct_keys ctx' \<and>
     (allocs ctx = [] \<longrightarrow> allocs ctx' = []) \<and> (clean ctx \<longrightarrow> clean ctx') \<and>
     k_file ctx' = k_file ctx \<and> k_eol ctx' = k_eol ctx \<and>
     (\<forall>k. lookup ctx' k = (if same_key ctx k key then None else lookup ctx k))"

lemma clean_deleted: "clean_item ctx (it\<lparr>it_deleted := True\<rparr>) = clean_item ctx it"
  by (simp add: clean_item_def item_strip_def)

lemma hidden_result:
  assumes "kvc_ok ctx'" and "same_settings ctx ctx'" and "allocs ctx = [] \<Longrightarrow> allocs ctx' = []"
    and items: "all_items ctx' = (all_items ctx)[i := (all_items ctx ! i)\<lparr>it_deleted := True\<rparr>]"
    and i: "i < length (all_items ctx)" "matches ctx key (all_items ctx ! i)" and d: "distinct_keys ctx"
    and "k_file ctx' = k_file ctx" and "k_eol ctx' = k_eol ctx"
  shows "unset_result ctx key ctx'"
proof -
  let ?it = "(all_items ctx ! i)\<lparr>it_deleted := True\<rparr>"
  have m: "matches ctx k ?it = matches ctx k (all_items ctx ! i)" for k by (simp add: matches_def)
  have l: "lookup ctx' k = (if same_key ctx k key then None else lookup ctx k)" for k
    unfolding lookup_def lookup_in_cong [OF assms(2)] items
    by (rule lookup_in_hide [OF i]) (use m i d in \<open>auto simp: live_def distinct_keys_def\<close>)
  have "one_each ctx (all_items ctx')"
    unfolding items by (rule one_each_update) (use d m in \<open>simp_all add: distinct_keys_one_each\<close>)
  then have "distinct_keys ctx'" by (simp add: distinct_keys_def one_each_def matches_cong [OF assms(2)])
  moreover have "clean ctx'" if "clean ctx"
  proof -
    have "clean_item ctx (all_items ctx ! i)" using that i(1) by (simp add: clean_def)
    then have "clean_item ctx ?it" by (simp only: clean_deleted)
    then show ?thesis using that set_update_subset_insert [of "all_items ctx" i ?it]
      unfolding clean_def items clean_cong(2) [OF assms(2)] by blast
  qed
  ultimately show ?thesis unfolding unset_result_def using assms(1,2,3,8,9) l by auto
qed

lemma unset_result_allocs:
  assumes "unset_result (ctx\<lparr>allocs := al\<rparr>) key ctx'" and "allocs ctx = [] \<Longrightarrow> al = []"
  shows "unset_result ctx key ctx'"
proof -
  have "clean (ctx\<lparr>allocs := al\<rparr>) = clean ctx"
    using clean_cong [of ctx "ctx\<lparr>allocs := al\<rparr>"] by (simp add: clean_def)
  then show ?thesis using assms by (auto simp: unset_result_def same_settings_def)
qed

lemma deleted_ok: "item_ok ctx it \<Longrightarrow> item_ok ctx (it\<lparr>it_deleted := True\<rparr>)"
  by (simp add: item_ok_def item_strip_def)

lemma kvc_unset_spec:
  assumes "kvc_ok ctx" and "key_ok ctx key" and "distinct_keys ctx"
  obtains ctx' where "kvc_unset (Some ctx) (Some key) = Some (0, Some ctx')" and "unset_result ctx (strip_key ctx key) ctx'"
proof -
  let ?k = "strip_key ctx key"
  obtain al where s: "get_key_stripped ctx key = Some (?k, ctx\<lparr>allocs := al\<rparr>)"
    and al: "allocs ctx = [] \<Longrightarrow> al = []"
    using get_key_stripped_spec [OF assms(2)] by blast
  let ?c = "ctx\<lparr>allocs := al\<rparr>" and ?P = "\<lambda>it. matches (ctx\<lparr>allocs := al\<rparr>) (strip_key ctx key) it \<and> \<not> it_deleted it"
  have ok: "kvc_ok ?c" "distinct_keys ?c" using assms(1,3) by simp_all
  note I = kvc_ok_items [OF ok(1)]
  note f = find_key_spec [OF ok(1), of ?k False, unfolded simp_thms]
  have "\<exists>ctx'. kvc_unset (Some ctx) (Some key) = Some (0, Some ctx') \<and> unset_result ?c ?k ctx'"
  proof (cases "index_of ?P (og_items ?c)")
    case (Some i)
    let ?it = "og_items ?c ! i" and ?c' = "with_og ?c i ((og_items ?c ! i)\<lparr>it_deleted := True\<rparr>)"
    have i: "i < length (og_items ?c)" "matches ?c ?k ?it" using Some unfolding index_of_Some by blast+
    have a: "i < length (all_items ?c)" "all_items ?c ! i = ?it" using i(1) by (simp_all add: all_items_def nth_append)
    have "kvc_unset (Some ctx) (Some key) = Some (0, Some ?c')"
      using s f(1) Some item_at(1) [OF ok(1) i(1)] i(1) I(6,8)
      by (simp add: kvc_unset_def arr_set_def with_og_def)
    moreover have "unset_result ?c ?k ?c'"
    proof (rule hidden_result [OF _ _ _ _ a(1) _ ok(2)])
      show "kvc_ok ?c'" using ok(1) I(3) i(1) by (simp add: with_og_ok deleted_ok)
      show "all_items ?c' = (all_items ?c)[i := (all_items ?c ! i)\<lparr>it_deleted := True\<rparr>]"
        unfolding a(2) by (rule with_og_items [OF i(1)])
      show "matches ?c ?k (all_items ?c ! i)" unfolding a(2) by (rule i(2))
    qed (simp_all add: with_og_def same_settings_def)
    ultimately show ?thesis by blast
  next
    case no_og: None
    show ?thesis
    proof (cases "index_of ?P (ng_items ?c)")
      case (Some i)
      let ?it = "ng_items ?c ! i" and ?c' = "with_ng ?c i ((ng_items ?c ! i)\<lparr>it_deleted := True\<rparr>)"
        and ?n = "length (og_items ?c)"
      have i: "i < length (ng_items ?c)" "matches ?c ?k ?it" using Some unfolding index_of_Some by blast+
      have a: "?n + i < length (all_items ?c)" "all_items ?c ! (?n + i) = ?it"
        using i(1) by (simp_all add: all_items_def nth_append)
      have "kvc_unset (Some ctx) (Some key) = Some (0, Some ?c')"
        using s f no_og Some item_at(2) [OF ok(1) i(1)] i(1) I(7,9)
        by (simp add: kvc_unset_def arr_set_def with_ng_def)
      moreover have "unset_result ?c ?k ?c'"
      proof (rule hidden_result [OF _ _ _ _ a(1) _ ok(2)])
        show "kvc_ok ?c'" using ok(1) I(4,5) i by (intro with_ng_ok) (simp_all add: deleted_ok)
        show "all_items ?c' = (all_items ?c)[?n + i := (all_items ?c ! (?n + i))\<lparr>it_deleted := True\<rparr>]"
          unfolding a(2) by (rule with_ng_items [OF i(1)])
        show "matches ?c ?k (all_items ?c ! (?n + i))" unfolding a(2) by (rule i(2))
      qed (simp_all add: with_ng_def same_settings_def)
      ultimately show ?thesis by blast
    next
      case None
      have "lookup ?c k = None" if "same_key ?c k ?k" for k
        using no_og None matches_same [OF that]
        by (simp add: lookup_def lookup_in_index all_items_def index_of_append del: allocs_frame allocs_same)
      then have "unset_result ?c ?k ?c" using ok by (simp add: unset_result_def)
      moreover have "kvc_unset (Some ctx) (Some key) = Some (0, Some ?c)"
        using s f no_og None by (simp add: kvc_unset_def)
      ultimately show ?thesis by blast
    qed
  qed
  then show thesis using that unset_result_allocs [OF _ al] by blast
qed

section \<open>A store with a batch operation\<close>

text \<open>What the batch operation needs of setting one key, and what it then promises itself.\<close>

locale keyed_store =
  fixes lookup_s :: "'s \<Rightarrow> 'k \<Rightarrow> 'v option"
    and put :: "'s \<Rightarrow> 'k \<Rightarrow> 'v \<Rightarrow> 's option"
    and invar :: "'s \<Rightarrow> bool"
    and good_key :: "'k \<Rightarrow> bool"
    and same :: "'k \<Rightarrow> 'k \<Rightarrow> bool"
    and norm :: "'k \<Rightarrow> 'v \<Rightarrow> 'v"
  assumes put_ok: "invar s \<Longrightarrow> good_key k \<Longrightarrow>
    post (put s k v) (\<lambda>s'. invar s' \<and> lookup_s s' = (\<lambda>k'. if same k' k then Some (norm k v) else lookup_s s k'))"
begin

fun put_all :: "'s \<Rightarrow> ('k \<times> 'v) list \<Rightarrow> 's option" where
  "put_all s [] = Some s"
| "put_all s ((k, v) # kvs) = do { s \<leftarrow> put s k v; put_all s kvs }"

lemma put_all_ok:
  "invar s \<Longrightarrow> \<forall>(k, v) \<in> set kvs. good_key k \<Longrightarrow>
   post (put_all s kvs) (\<lambda>s'. invar s' \<and>
     lookup_s s' = fold (\<lambda>(k, v) m k'. if same k' k then Some (norm k v) else m k') kvs (lookup_s s))"
proof (induction kvs arbitrary: s)
  case (Cons kv kvs)
  obtain k v where kv: "kv = (k, v)" by (cases kv)
  have "post (put s k v) (\<lambda>s'. invar s' \<and> lookup_s s' = (\<lambda>k'. if same k' k then Some (norm k v) else lookup_s s k'))"
    using Cons.prems kv by (intro put_ok) auto
  then have "post (put s k v) (\<lambda>s1. post (put_all s1 kvs) (\<lambda>s'. invar s' \<and> lookup_s s' =
      fold (\<lambda>(k, v) m k'. if same k' k then Some (norm k v) else m k') (kv # kvs) (lookup_s s)))"
    by (rule post_mono) (use Cons.IH Cons.prems(2) kv in force)
  then show ?case by (simp add: kv)
qed simp

end

text \<open>The interface on \<open>kvc_set\<close>.  \<open>r\<close> is any context with the settings of the store; keys that
  differ only in case must not be told apart by \<open>nostrip_list\<close>.\<close>

definition plain_keys :: "kvc_context \<Rightarrow> bool" where
  "plain_keys ctx \<longleftrightarrow> has_flag ctx LF_KEY_CASE_SENSITIVE \<or> k_nostrip ctx = None"

definition plain_norm :: "kvc_context \<Rightarrow> cstr \<Rightarrow> cstr \<Rightarrow> cstr" where
  "plain_norm ctx key = trim_value (has_flag ctx LF_STRIP_VALUE_WHITESPACE \<and>
     \<not> is_string_in_list (strip_key ctx key) (k_nostrip ctx))"

definition kvc_put :: "kvc_context \<Rightarrow> cstr \<Rightarrow> cstr \<Rightarrow> kvc_context option" where
  "kvc_put ctx key value = do { (_, c) \<leftarrow> kvc_set (Some ctx) key value; c }"

definition store_inv :: "kvc_context \<Rightarrow> kvc_context \<Rightarrow> bool" where
  "store_inv r ctx \<longleftrightarrow> kvc_ok ctx \<and> allocs ctx = [] \<and> same_settings r ctx \<and> plain_keys r"

definition nonempty_key :: "kvc_context \<Rightarrow> cstr \<Rightarrow> bool" where
  "nonempty_key ctx key \<longleftrightarrow> (has_flag ctx LF_STRIP_KEY_WHITESPACE \<longrightarrow> key \<noteq> [])"

lemma plain_stored_value:
  assumes "kvc_ok ctx" and "plain_keys ctx"
  shows "stored_value ctx (strip_key ctx key) = plain_norm ctx key"
proof -
  let ?k = "strip_key ctx key"
  have "nostrip_of ctx ?k = is_string_in_list ?k (k_nostrip ctx)"
  proof (cases "index_of (matches ctx ?k) (all_items ctx)")
    case (Some i)
    let ?it = "all_items ctx ! i"
    have i: "?it \<in> set (all_items ctx)" "matches ctx ?k ?it"
      using Some unfolding index_of_Some by (auto intro: nth_mem)
    moreover have "item_ok ctx ?it" using i(1) kvc_ok_items(3,4) [OF assms(1)] by (auto simp: all_items_def)
    ultimately have "it_nostrip ?it = is_string_in_list ?k (k_nostrip ctx)"
      using assms(2) by (auto simp: matches_def item_ok_def plain_keys_def same_key_def is_string_in_list_def)
    then show ?thesis using Some by (simp add: nostrip_of_def find_index_of)
  qed (simp add: nostrip_of_def find_index_of)
  then show ?thesis by (simp add: stored_value_def plain_norm_def)
qed

lemma settings_functions:
  assumes "same_settings a b"
  shows "strip_key b = strip_key a" "plain_norm b = plain_norm a" "plain_keys b = plain_keys a"
    "nonempty_key b = nonempty_key a"
proof -
  have "k_nostrip b = k_nostrip a" using assms by (simp add: same_settings_def)
  then show "plain_norm b = plain_norm a" "plain_keys b = plain_keys a" "strip_key b = strip_key a"
    "nonempty_key b = nonempty_key a"
    using assms by (simp_all add: plain_norm_def plain_keys_def nonempty_key_def strip_key_cong same_settings_cong(1) fun_eq_iff)
qed

lemma kvc_put_ok:
  assumes "store_inv r ctx" and "nonempty_key r key"
  shows "post (kvc_put ctx key value) (\<lambda>ctx'. store_inv r ctx' \<and>
    lookup ctx' = (\<lambda>k. if same_key r k (strip_key r key) then Some (plain_norm r key value) else lookup ctx k))"
proof -
  have ok: "kvc_ok ctx" "allocs ctx = []" "same_settings r ctx" "plain_keys r"
    using assms(1) by (simp_all add: store_inv_def)
  note c = settings_functions [OF ok(3)] same_settings_cong(2) [OF ok(3)]
  have "key_ok ctx key" using assms(2) ok(2) c(4) by (simp add: key_ok_def nonempty_key_def fun_eq_iff)
  then obtain e ctx' where s: "kvc_set (Some ctx) key value = Some (e, Some ctx')"
    and p: "set_result ctx (strip_key ctx key) (stored_value ctx (strip_key ctx key) value) e ctx'"
    using kvc_set_spec [OF ok(1)] by blast
  have "stored_value ctx (strip_key ctx key) = plain_norm r key"
    using plain_stored_value [OF ok(1)] ok(4) c by simp
  with p have l: "lookup ctx' = (\<lambda>k. if same_key r k (strip_key r key) then Some (plain_norm r key value) else lookup ctx k)"
    using ok(2) c unfolding set_result_def by auto
  have "store_inv r ctx'" using p ok same_settings_trans by (auto simp: store_inv_def set_result_def)
  then show ?thesis using s l by (simp add: kvc_put_def)
qed

interpretation kv: keyed_store lookup kvc_put "store_inv r" "nonempty_key r"
    "\<lambda>k' k. same_key r k' (strip_key r k)" "plain_norm r" for r
  by unfold_locales (rule kvc_put_ok)

text \<open>The pairs that the loop of \<open>kvc_set_batch\<close> sets.\<close>

definition batch_pairs :: "(cstr option \<times> cstr option) list \<Rightarrow> (cstr \<times> cstr) list" where
  "batch_pairs items = map (\<lambda>(k, v). (the k, case v of Some v \<Rightarrow> v | None \<Rightarrow> [])) (filter (\<lambda>(k, v). k \<noteq> None) items)"

lemma set_batch_loop_step:
  "set_batch_loop ctx ((Some k, v) # items) =
     do { ctx \<leftarrow> kvc_put ctx k (case v of Some v \<Rightarrow> v | None \<Rightarrow> []); set_batch_loop ctx items }"
  by (simp add: kvc_put_def) (cases "kvc_set (Some ctx) k (case v of Some v \<Rightarrow> v | None \<Rightarrow> [])"; auto)

lemma set_batch_loop_put_all: "set_batch_loop ctx items = kv.put_all ctx (batch_pairs items)"
proof (induction items arbitrary: ctx)
  case (Cons p items)
  obtain k v where p: "p = (k, v)" by (cases p)
  show ?case
  proof (cases k)
    case None
    then show ?thesis using Cons p by (simp add: batch_pairs_def)
  next
    case (Some key)
    have "batch_pairs (p # items) = (key, case v of Some v \<Rightarrow> v | None \<Rightarrow> []) # batch_pairs items"
      by (simp add: batch_pairs_def p Some)
    then show ?thesis unfolding p Some set_batch_loop_step by (simp add: Cons)
  qed
qed (simp add: batch_pairs_def)

lemma kvc_set_batch_spec:
  assumes "kvc_ok ctx" and "allocs ctx = []" and "plain_keys ctx"
    and "num \<noteq> 0" and "num \<le> length items"
    and "\<forall>(k, v) \<in> set (batch_pairs (take num items)). nonempty_key ctx k"
  shows "post (kvc_set_batch (Some ctx) (Some items) num) (\<lambda>(r, c). r = 0 \<and> (\<exists>ctx'. c = Some ctx' \<and> kvc_ok ctx' \<and>
    lookup ctx' = fold (\<lambda>(k, v) m k'. if same_key ctx k' (strip_key ctx k) then Some (plain_norm ctx k v) else m k')
      (batch_pairs (take num items)) (lookup ctx)))"
proof -
  have "store_inv ctx ctx" using assms(1-3) by (simp add: store_inv_def)
  from kv.put_all_ok [OF this assms(6)] show ?thesis
    using assms(4,5) by (auto simp: kvc_set_batch_def mem_get_def set_batch_loop_put_all store_inv_def elim!: post_mono)
qed

end
