(* ===== verification/Kvc_Text.thy ===== *)
theory Kvc_Text
  imports Kvc_Store
begin

text \<open>
  The text of a configuration file: the lines that the parser sees, what it makes of them, what
  writing the items back produces, and that a written file loads to the same store.
\<close>

section \<open>Lines\<close>

text \<open>The lines of a text with their endings; \<open>d\<close> is the ending given to an unterminated last line.\<close>

function text_lines :: "u32 \<Rightarrow> u8 list \<Rightarrow> (cstr \<times> u32) list" where
  "text_lines d s =
     (if s = [] then []
      else case index_of is_eol s of
        None \<Rightarrow> [(s, d)]
      | Some n \<Rightarrow>
          if s ! n = CR \<and> n + 1 < length s \<and> s ! (n + 1) = LF
          then (take n s, EOL_CRLF) # text_lines d (drop (n + 2) s)
          else (take n s, if s ! n = CR then EOL_CR else EOL_LF) # text_lines d (drop (n + 1) s))"
  by pat_completeness auto
termination
  by (relation "measure (length \<circ> snd)") auto

declare text_lines.simps [simp del]

lemma text_lines_Nil [simp]: "text_lines d [] = []"
  by (simp add: text_lines.simps)

lemma strcrlf_text: "0 \<notin> set s \<Longrightarrow> strcrlf (s @ [0]) = Some (index_of is_eol s)"
  by (induction s) auto

lemma strnull_text: "0 \<notin> set s \<Longrightarrow> length s < n \<Longrightarrow> strnull (s @ [0]) n = Some (Some (length s))"
proof (induction s arbitrary: n)
  case Nil
  then show ?case by (cases n) auto
next
  case (Cons c s)
  then show ?case by (cases n) auto
qed

text \<open>The first line of a text, as both loops of the parser find it.\<close>

definition first_line :: "u32 \<Rightarrow> u8 list \<Rightarrow> cstr \<times> u32 \<times> nat" where
  "first_line d s = (case index_of is_eol s of
     None \<Rightarrow> (s, d, length s + 1)
   | Some n \<Rightarrow>
       if s ! n = CR \<and> n + 1 < length s \<and> s ! (n + 1) = LF then (take n s, EOL_CRLF, n + 2)
       else (take n s, if s ! n = CR then EOL_CR else EOL_LF, n + 1))"

lemma after_cr:
  assumes "n < length s"
  shows "arr_get (s @ [0]) (n + 1) = Some (if n + 1 < length s then s ! (n + 1) else 0)"
  using assms by (auto simp: arr_get_def nth_append less_Suc_eq)

lemma split_line_text:
  assumes "0 \<notin> set s"
  shows "split_line (s @ [0]) d (length (s @ [0])) = Some (first_line d s)"
proof (cases "index_of is_eol s")
  case None
  then show ?thesis using assms by (simp add: split_line_def first_line_def strcrlf_text strnull_text)
next
  case (Some n)
  then have n: "n < length s" by (simp add: index_of_Some)
  then have "arr_get (s @ [0]) n = Some (s ! n)" by (simp add: arr_get_def nth_append)
  then show ?thesis using Some n assms after_cr [OF n]
    by (auto simp: split_line_def first_line_def strcrlf_text)
qed

lemma drop_text: "n \<le> length s \<Longrightarrow> drop n (s @ [0]) = drop n s @ [0]"
  by simp

lemma first_line_length:
  assumes "index_of is_eol s = Some n"
  shows "snd (snd (first_line d s)) \<le> length s" and "0 < snd (snd (first_line d s))"
proof -
  have "n < length s" using assms by (simp add: index_of_Some)
  then show "snd (snd (first_line d s)) \<le> length s" "0 < snd (snd (first_line d s))"
    using assms by (simp_all add: first_line_def)
qed

lemma text_lines_step:
  assumes "s \<noteq> []"
  shows "text_lines d s = (case first_line d s of (l, e, n) \<Rightarrow> (l, e) # text_lines d (drop n s))"
  using assms by (subst text_lines.simps) (auto simp: first_line_def split: option.split)

text \<open>The count of the first loop is enough for the lines.\<close>

lemma count_lines_text:
  assumes "0 \<notin> set s"
  shows "\<exists>m. count_lines (s @ [0]) c = Some m \<and> c + length (text_lines d s) \<le> m + 1 \<and> c \<le> m"
  using assms
proof (induction "length s" arbitrary: s c rule: less_induct)
  case less
  show ?case
  proof (cases "index_of is_eol s")
    case None
    then show ?thesis using less.prems
      by (subst count_lines.simps) (auto simp: strcrlf_text text_lines.simps [of d s])
  next
    case (Some n)
    let ?k = "snd (snd (first_line d s))"
    have n: "n < length s" using Some by (simp add: index_of_Some)
    have a: "arr_get (s @ [0]) n = Some (s ! n)" using n by (simp add: arr_get_def nth_append)
    have k: "?k \<le> length s" "0 < ?k" by (rule first_line_length [OF Some])+
    have "count_lines (s @ [0]) c = count_lines (drop ?k (s @ [0])) (c + 1)"
      using Some n less.prems after_cr [OF n] a
      by (subst count_lines.simps) (auto simp: strcrlf_text first_line_def)
    also have "drop ?k (s @ [0]) = drop ?k s @ [0]" using k(1) by (rule drop_text)
    finally have c: "count_lines (s @ [0]) c = count_lines (drop ?k s @ [0]) (c + 1)" .
    have "0 \<notin> set (drop ?k s)" using less.prems by (metis in_set_dropD)
    then obtain m where "count_lines (drop ?k s @ [0]) (c + 1) = Some m"
      "c + 1 + length (text_lines d (drop ?k s)) \<le> m + 1" "c + 1 \<le> m"
      using less.hyps [of "drop ?k s" "c + 1"] k n by (metis diff_less length_drop length_greater_0_conv list.size(3) not_less0)
    moreover have "length (text_lines d s) = Suc (length (text_lines d (drop ?k s)))"
      using n by (subst text_lines_step) (auto split: prod.split)
    ultimately show ?thesis using c by auto
  qed
qed

text \<open>The second loop stores one item for each line.\<close>

lemma parse_line_cong:
  assumes "same_settings a b"
  shows "parse_line b = parse_line a"
proof -
  have "has_flag b = has_flag a" "k_nostrip b = k_nostrip a"
    using assms by (simp_all add: same_settings_def has_flag_def fun_eq_iff)
  then show ?thesis unfolding parse_line_def fun_eq_iff by (simp only: simp_thms)
qed

lemma k_og_settings [simp]: "same_settings ctx (ctx\<lparr>k_og := g\<rparr>)"
  by (simp add: same_settings_def)

lemma parse_lines_text:
  assumes "0 \<notin> set s" and "s \<noteq> []"
    and "k_og ctx = \<lparr>g_items = its @ rest, g_used = length its\<rparr>" and "length (text_lines (k_eol ctx) s) \<le> length rest"
  shows "parse_lines ctx (s @ [0]) =
    Some (ctx\<lparr>k_og := \<lparr>g_items = its @ map (\<lambda>(l, e). parse_line ctx l e) (text_lines (k_eol ctx) s) @
        drop (length (text_lines (k_eol ctx) s)) rest,
      g_used = length its + length (text_lines (k_eol ctx) s)\<rparr>\<rparr>)"
  using assms
proof (induction "length s" arbitrary: s ctx its rest rule: less_induct)
  case less
  let ?d = "k_eol ctx"
  obtain l e n where f: "first_line ?d s = (l, e, n)" by (cases "first_line ?d s")
  have t: "text_lines ?d s = (l, e) # text_lines ?d (drop n s)"
    using less.prems(2) by (subst text_lines_step) (simp_all add: f)
  then obtain r rest' where rest: "rest = r # rest'" using less.prems(4) by (cases rest) auto
  let ?it = "parse_line ctx l e"
  let ?ctx = "ctx\<lparr>k_og := \<lparr>g_items = (its @ [?it]) @ rest', g_used = length (its @ [?it])\<rparr>\<rparr>"
  have "arr_set (g_items (k_og ctx)) (g_used (k_og ctx)) ?it = Some ((its @ [?it]) @ rest')"
    by (simp add: less.prems(3) rest arr_set_def list_update_append)
  then have p: "parse_lines ctx (s @ [0]) =
      (if length (drop n (s @ [0])) \<le> 1 then Some ?ctx else parse_lines ?ctx (drop n (s @ [0])))"
    using less.prems split_line_text [of s ?d] f
    by (subst parse_lines.simps) (simp add: Let_def del: drop_append)
  have pl: "parse_line ?ctx = parse_line ctx" by (rule parse_line_cong) simp
  show ?case
  proof (cases "drop n s = []")
    case True
    then have "length (drop n (s @ [0])) \<le> 1" by simp
    then show ?thesis using p t True rest by simp
  next
    case False
    then have "index_of is_eol s \<noteq> None" using f by (cases "index_of is_eol s") (auto simp: first_line_def)
    then obtain j where "index_of is_eol s = Some j" by blast
    from first_line_length [OF this, of ?d] f have n: "n \<le> length s" "0 < n" by simp_all
    then have d: "drop n (s @ [0]) = drop n s @ [0]" by simp
    have "length (drop n s) < length s" using n less.prems(2) by simp
    then have "parse_lines ?ctx (drop n s @ [0]) =
        Some (?ctx\<lparr>k_og := \<lparr>g_items = (its @ [?it]) @ map (\<lambda>(l, e). parse_line ?ctx l e) (text_lines (k_eol ?ctx) (drop n s)) @
            drop (length (text_lines (k_eol ?ctx) (drop n s))) rest',
          g_used = length (its @ [?it]) + length (text_lines (k_eol ?ctx) (drop n s))\<rparr>\<rparr>)"
      using less.prems False t rest by (intro less.hyps) (auto dest: in_set_dropD)
    then show ?thesis using p d False t rest pl by simp
  qed
qed

text \<open>Loading a text without null bytes: the items of its lines, in order, and nothing else.\<close>

definition parsed :: "kvc_context \<Rightarrow> u8 list \<Rightarrow> conf_item2 list" where
  "parsed ctx s = map (\<lambda>(l, e). parse_line ctx l e) (text_lines (k_eol ctx) s)"

lemma kvc_parse_text:
  assumes "0 \<notin> set s" and "k_data ctx = s @ [0]" and "k_size ctx = length s" and "k_og ctx = \<lparr>g_items = [], g_used = 0\<rparr>"
  obtains al where "kvc_parse_content ctx = Some (- 12, ctx\<lparr>allocs := al\<rparr>)" and "allocs ctx \<noteq> []"
  | al rest where "kvc_parse_content ctx =
        Some (0, ctx\<lparr>allocs := al, k_og := \<lparr>g_items = parsed ctx s @ rest, g_used = length (parsed ctx s)\<rparr>\<rparr>)"
      and "allocs ctx = [] \<Longrightarrow> al = []"
proof (rule alloc_cases [of ctx])
  fix ok al assume a: "alloc ctx = (ok, ctx\<lparr>allocs := al\<rparr>)" "allocs ctx = [] \<Longrightarrow> ok \<and> al = []"
  show thesis
  proof (cases "s = []")
    case True
    then have "kvc_parse_content ctx =
        Some (0, ctx\<lparr>allocs := allocs ctx, k_og := \<lparr>g_items = parsed ctx s @ [], g_used = length (parsed ctx s)\<rparr>\<rparr>)"
      using assms(3,4) by (simp add: kvc_parse_content_def parsed_def)
    then show thesis by (rule that(2)) simp
  next
    case False
    obtain m where m: "count_lines (s @ [0]) 1 = Some m" "length (text_lines (k_eol ctx) s) \<le> m"
      using count_lines_text [OF assms(1), of 1 "k_eol ctx"] by auto
    show thesis
    proof (cases ok)
      case ok: True
      let ?c = "ctx\<lparr>allocs := al, k_og := \<lparr>g_items = replicate m blank_item, g_used = 0\<rparr>\<rparr>"
      have c: "parse_line ?c = parse_line ctx" by (rule parse_line_cong) (simp add: same_settings_def)
      have "parse_lines ?c (s @ [0]) = Some (?c\<lparr>k_og := \<lparr>g_items = parsed ctx s @ drop (length (parsed ctx s)) (replicate m blank_item),
          g_used = length (parsed ctx s)\<rparr>\<rparr>)"
        using parse_lines_text [OF assms(1) False, of ?c "[]" "replicate m blank_item"] m(2)
        by (simp add: parsed_def c del: drop_replicate)
      then have "kvc_parse_content ctx = Some (0, ctx\<lparr>allocs := al,
          k_og := \<lparr>g_items = parsed ctx s @ drop (length (parsed ctx s)) (replicate m blank_item), g_used = length (parsed ctx s)\<rparr>\<rparr>)"
        using False assms(2,3) a(1) ok m(1) by (simp add: kvc_parse_content_def del: drop_replicate)
      then show thesis by (rule that(2)) (use a(2) in simp)
    next
      case False
      then have "kvc_parse_content ctx = Some (- 12, ctx\<lparr>allocs := al\<rparr>)"
        using \<open>s \<noteq> []\<close> assms(2,3) a(1) m(1) by (simp add: kvc_parse_content_def)
      then show thesis by (rule that(1)) (use False a(2) in auto)
    qed
  qed
qed

section \<open>What loading establishes\<close>

lemma first_line_pos: "s \<noteq> [] \<Longrightarrow> 0 < snd (snd (first_line d s))"
  by (cases "index_of is_eol s") (simp add: first_line_def, rule first_line_length)

lemma text_lines_induct [case_names Nil line]:
  assumes "P []" and step: "\<And>s l e n. s \<noteq> [] \<Longrightarrow> first_line d s = (l, e, n) \<Longrightarrow> P (drop n s) \<Longrightarrow> P s"
  shows "P s"
proof (induction "length s" arbitrary: s rule: less_induct)
  case less
  show ?case
  proof (cases "s = []")
    case False
    obtain l e n where f: "first_line d s = (l, e, n)" by (cases "first_line d s")
    have "0 < n" using first_line_pos [OF False, of d] f by simp
    then show ?thesis using False by (intro step [OF False f] less.hyps) simp
  qed (simp add: assms(1))
qed

lemma text_lines_first:
  "s \<noteq> [] \<Longrightarrow> first_line d s = (l, e, n) \<Longrightarrow> text_lines d s = (l, e) # text_lines d (drop n s)"
  by (simp add: text_lines_step)

lemma first_line_facts:
  assumes "s \<noteq> []" and "first_line d s = (l, e, n)"
  shows "\<forall>c \<in> set l. \<not> is_eol c" and "set l \<subseteq> set s" and "d \<le> EOL_CRLF \<Longrightarrow> e \<le> EOL_CRLF"
    and "n \<le> length s \<Longrightarrow> eol_str e \<noteq> None \<and> l @ the (eol_str e) @ drop n s = s"
    and "\<not> n \<le> length s \<Longrightarrow> l = s \<and> e = d"
proof -
  have cases: "index_of is_eol s = None \<and> l = s \<and> e = d \<and> n = length s + 1 \<or>
    (\<exists>i. index_of is_eol s = Some i \<and> l = take i s \<and>
      (s ! i = CR \<and> i + 1 < length s \<and> s ! (i + 1) = LF \<and> e = EOL_CRLF \<and> n = i + 2 \<or>
       s ! i = CR \<and> e = EOL_CR \<and> n = i + 1 \<or> s ! i = LF \<and> e = EOL_LF \<and> n = i + 1))"
    using assms(2) by (auto simp: first_line_def index_of_Some is_eol_def split: option.splits if_splits)
  then show "\<forall>c \<in> set l. \<not> is_eol c"
    by (auto simp: index_of_None index_of_Some in_set_conv_nth)
  show "set l \<subseteq> set s" using cases by (auto dest: in_set_takeD)
  show "e \<le> EOL_CRLF" if "d \<le> EOL_CRLF" using cases that by auto
  show "eol_str e \<noteq> None \<and> l @ the (eol_str e) @ drop n s = s" if n: "n \<le> length s"
  proof -
    from cases n obtain i where i: "i < length s" "l = take i s"
      and c: "s ! i = CR \<and> i + 1 < length s \<and> s ! (i + 1) = LF \<and> e = EOL_CRLF \<and> n = i + 2 \<or>
       s ! i = CR \<and> e = EOL_CR \<and> n = i + 1 \<or> s ! i = LF \<and> e = EOL_LF \<and> n = i + 1"
      by (auto simp: index_of_Some)
    have s1: "s = take i s @ [s ! i] @ drop (i + 1) s" using i(1) by (simp add: id_take_nth_drop)
    have s2: "drop (i + 1) s = [s ! (i + 1)] @ drop (i + 2) s" if "i + 1 < length s"
      using that Cons_nth_drop_Suc [of "i + 1" s] by simp
    from c show ?thesis
    proof (elim disjE conjE)
      assume "s ! i = CR" "i + 1 < length s" "s ! (i + 1) = LF" "e = EOL_CRLF" "n = i + 2"
      then show ?thesis using s1 s2 i(2) by (simp add: eol_str_def)
    next
      assume "s ! i = CR" "e = EOL_CR" "n = i + 1"
      then show ?thesis using s1 i(2) by (simp add: eol_str_def)
    next
      assume "s ! i = LF" "e = EOL_LF" "n = i + 1"
      then show ?thesis using s1 i(2) by (simp add: eol_str_def)
    qed
  qed
  show "l = s \<and> e = d" if "\<not> n \<le> length s"
    using cases that by (auto simp: index_of_Some)
qed

lemma text_lines_all:
  assumes "(l, e) \<in> set (text_lines d s)" and "d \<le> EOL_CRLF"
  shows "e \<le> EOL_CRLF" and "\<forall>c \<in> set l. \<not> is_eol c" and "set l \<subseteq> set s"
proof -
  have "\<forall>(l, e) \<in> set (text_lines d s). e \<le> EOL_CRLF \<and> (\<forall>c \<in> set l. \<not> is_eol c) \<and> set l \<subseteq> set s"
  proof (induction s rule: text_lines_induct [where d = d])
    case (line s l e n)
    have "set (drop n s) \<subseteq> set s" by (rule set_drop_subset)
    then show ?case
      using line first_line_facts(1-3) [OF line(1,2)] assms(2) by (fastforce simp: text_lines_first [OF line(1,2)])
  qed simp
  then show "e \<le> EOL_CRLF" "\<forall>c \<in> set l. \<not> is_eol c" "set l \<subseteq> set s" using assms(1) by auto
qed

lemma parse_line_ok: "e \<le> EOL_CRLF \<Longrightarrow> item_ok ctx (parse_line ctx l e)"
  by (auto simp: parse_line_def item_ok_def item_strip_def blank_item_def Let_def)

lemma parsed_ok: "k_eol ctx \<le> EOL_CRLF \<Longrightarrow> \<forall>it \<in> set (parsed ctx s). item_ok ctx it"
  by (auto simp: parsed_def intro: parse_line_ok text_lines_all(1))

text \<open>The load functions on a text without null bytes.\<close>

definition loaded :: "kvc_context \<Rightarrow> u8 list \<Rightarrow> kvc_context \<Rightarrow> bool" where
  "loaded r s ctx \<longleftrightarrow> same_settings r ctx \<and> k_eol ctx = k_eol r \<and> k_file ctx = k_file r \<and>
     kvc_ok ctx \<and> og_items ctx = parsed r s \<and> ng_items ctx = []"

definition settings :: "u32 \<Rightarrow> cstr list option \<Rightarrow> kvc_context" where
  "settings flags nostrip_list = (new_context flags [])\<lparr>k_nostrip := nostrip_list\<rparr>"

lemma load_contents_text:
  assumes "0 \<notin> set s" and "k_eol ctx \<le> EOL_CRLF"
    and "k_og ctx = \<lparr>g_items = [], g_used = 0\<rparr>" and "k_ng ctx = \<lparr>g_items = [], g_used = 0\<rparr>"
  shows "post (load_contents ctx s) (\<lambda>c. (c = None \<longrightarrow> allocs ctx \<noteq> []) \<and>
    (\<forall>ctx'. c = Some ctx' \<longrightarrow> loaded ctx s ctx' \<and> (allocs ctx = [] \<longrightarrow> allocs ctx' = [])))"
proof (rule alloc_cases [of ctx])
  fix ok al assume a: "alloc ctx = (ok, ctx\<lparr>allocs := al\<rparr>)" "allocs ctx = [] \<Longrightarrow> ok \<and> al = []"
  show ?thesis
  proof (cases ok)
    case False
    then show ?thesis using a by (auto simp: load_contents_def)
  next
    case True
    let ?c = "ctx\<lparr>allocs := al, k_data := s @ [0], k_size := length s\<rparr>"
    have l: "load_contents ctx s = do { (ret, ctx) \<leftarrow> kvc_parse_content ?c; Some (if ret \<noteq> 0 then None else Some ctx) }"
      using True a(1) by (simp add: load_contents_def)
    show ?thesis
    proof (rule kvc_parse_text [of s ?c])
      fix al' assume "kvc_parse_content ?c = Some (- 12, ?c\<lparr>allocs := al'\<rparr>)" "allocs ?c \<noteq> []"
      then show ?thesis using l a(2) by auto
    next
      fix al' rest
      let ?ctx' = "?c\<lparr>allocs := al', k_og := \<lparr>g_items = parsed ?c s @ rest, g_used = length (parsed ?c s)\<rparr>\<rparr>"
      assume p: "kvc_parse_content ?c = Some (0, ?ctx')" and al': "allocs ?c = [] \<Longrightarrow> al' = []"
      have "same_settings ctx ?ctx'" by (simp add: same_settings_def)
      note cong = same_settings_cong(4,5) [OF this]
      have "same_settings ctx ?c" by (simp add: same_settings_def)
      then have pc: "parsed ?c s = parsed ctx s" by (simp add: parsed_def parse_line_cong)
      have "kvc_ok ?ctx'"
        unfolding kvc_ok_def cong using assms(2,4) parsed_ok [OF assms(2), of s] by (simp add: group_ok_def pc)
      then have "loaded ctx s ?ctx'"
        using assms(4) pc by (simp add: loaded_def same_settings_def og_items_def ng_items_def)
      then show ?thesis using l p a(2) al' by simp
    qed (use assms in simp_all)
  qed
qed

lemma dup_strings_spec:
  obtains ok al where "dup_strings l ctx = (ok, ctx\<lparr>allocs := al\<rparr>)" and "allocs ctx = [] \<Longrightarrow> ok \<and> al = []"
proof -
  have "\<exists>ok al. dup_strings l ctx = (ok, ctx\<lparr>allocs := al\<rparr>) \<and> (allocs ctx = [] \<longrightarrow> ok \<and> al = [])"
  proof (induction l arbitrary: ctx)
    case Nil
    have "dup_strings [] ctx = (True, ctx\<lparr>allocs := allocs ctx\<rparr>)" by simp
    then show ?case by blast
  next
    case (Cons s l)
    obtain ok al where a: "alloc ctx = (ok, ctx\<lparr>allocs := al\<rparr>)" "allocs ctx = [] \<Longrightarrow> ok \<and> al = []"
      using alloc_cases by blast
    then show ?case using Cons.IH [of "ctx\<lparr>allocs := al\<rparr>"] by (cases ok) auto
  qed
  then show thesis using that by blast
qed

lemma load_start_spec:
  obtains "load_start flags l al = None" and "al \<noteq> []"
  | al' where "load_start flags l al = Some ((settings flags l)\<lparr>allocs := al'\<rparr>)" and "al = [] \<Longrightarrow> al' = []"
proof (rule alloc_cases [of "new_context flags al"])
  fix ok a1
  assume "alloc (new_context flags al) = (ok, (new_context flags al)\<lparr>allocs := a1\<rparr>)"
    and 1: "allocs (new_context flags al) = [] \<Longrightarrow> ok \<and> a1 = []"
  then have a: "alloc (new_context flags al) = (ok, new_context flags a1)" by (simp add: new_context_def)
  have 1: "al = [] \<Longrightarrow> ok \<and> a1 = []" using 1 by (simp add: new_context_def)
  show thesis
  proof (cases "ok \<and> l \<noteq> None")
    case False
    then show thesis
      using a 1 that(1) that(2) [of a1] by (cases ok) (auto simp: load_start_def dup_nostrip_list_def settings_def new_context_def)
  next
    case True
    then obtain xs where xs: "l = Some xs" and ok by auto
    obtain ok2 a2 where b: "alloc (new_context flags a1) = (ok2, new_context flags a2)" "a1 = [] \<Longrightarrow> ok2 \<and> a2 = []"
      by (rule alloc_cases [of "new_context flags a1"]) (auto simp: new_context_def)
    obtain ok3 a3 where c: "dup_strings xs (new_context flags a2) = (ok3, new_context flags a3)" "a2 = [] \<Longrightarrow> ok3 \<and> a3 = []"
      by (rule dup_strings_spec [of xs "new_context flags a2"]) (auto simp: new_context_def)
    show thesis
    proof (cases "ok2 \<and> ok3")
      case True
      then have "load_start flags l al = Some ((settings flags l)\<lparr>allocs := a3\<rparr>)"
        using a b(1) c(1) xs \<open>ok\<close> by (simp add: load_start_def dup_nostrip_list_def settings_def new_context_def)
      then show thesis using that(2) 1 b(2) c(2) by blast
    next
      case False
      then have "load_start flags l al = None"
        using a b(1) c(1) xs \<open>ok\<close> by (auto simp: load_start_def dup_nostrip_list_def Let_def)
      then show thesis using that(1) False 1 b(2) c(2) by blast
    qed
  qed
qed

lemma kvc_load_buf_text:
  assumes "0 \<notin> set s"
  shows "post (kvc_load_buf_opt s flags l al) (\<lambda>c. (c = None \<longrightarrow> al \<noteq> []) \<and>
    (\<forall>ctx. c = Some ctx \<longrightarrow> loaded (settings flags l) s ctx \<and> (al = [] \<longrightarrow> allocs ctx = [])))"
proof (rule load_start_spec [of flags l al])
  assume "load_start flags l al = None" and "al \<noteq> []"
  then show ?thesis by (simp add: kvc_load_buf_opt_def)
next
  fix al' let ?c = "(settings flags l)\<lparr>allocs := al'\<rparr>"
  assume s: "load_start flags l al = Some ?c" and al: "al = [] \<Longrightarrow> al' = []"
  have p: "parsed ?c s = parsed (settings flags l) s"
    by (simp add: parsed_def parse_line_cong [OF allocs_frame(1)])
  have "post (load_contents ?c s) (\<lambda>c. (c = None \<longrightarrow> allocs ?c \<noteq> []) \<and>
      (\<forall>ctx'. c = Some ctx' \<longrightarrow> loaded ?c s ctx' \<and> (allocs ?c = [] \<longrightarrow> allocs ctx' = [])))"
    by (rule load_contents_text [OF assms]) (simp_all add: settings_def new_context_def)
  then show ?thesis
    using s al p by (auto simp: kvc_load_buf_opt_def loaded_def same_settings_def elim!: post_mono)
qed

section \<open>The text written back\<close>

definition printed :: "kvc_context \<Rightarrow> conf_item2 \<Rightarrow> bool" where
  "printed ctx it \<longleftrightarrow> skip_item ctx it = Some False"

definition item_line :: "conf_item2 \<Rightarrow> cstr" where
  "item_line it = the (it_key it) @ (if it_invalid it then [] else EQ # the (it_value it))"

definition item_end :: "kvc_context \<Rightarrow> conf_item2 \<Rightarrow> cstr" where
  "item_end ctx it = the (eol_str (if has_flag ctx LF_PRESERVE_LINE_ENDING then it_eol it else k_eol ctx))"

definition items_text :: "kvc_context \<Rightarrow> conf_item2 list \<Rightarrow> u8 list" where
  "items_text ctx its = concat (map (\<lambda>it. item_line it @ item_end ctx it) (filter (printed ctx) its))"

definition context_text :: "kvc_context \<Rightarrow> u8 list" where
  "context_text ctx = items_text ctx (all_items ctx)"

lemma eol_str_Some: "e \<le> EOL_CRLF \<Longrightarrow> eol_str e = Some (the (eol_str e))"
proof -
  assume "e \<le> EOL_CRLF"
  then have "unat e \<le> 2" by (simp add: word_le_nat_alt)
  then have "unat e = unat (0::u32) \<or> unat e = unat (1::u32) \<or> unat e = unat (2::u32)" by auto
  then have "e = 0 \<or> e = 1 \<or> e = 2" by (simp only: word_unat_eq_iff)
  then show ?thesis by (auto simp: eol_str_def)
qed

text \<open>The outcome of a series of writes: all of the text, or a part of it and an error of the device.\<close>

definition wrote :: "cfile \<Rightarrow> u8 list \<Rightarrow> bool \<times> int \<times> cfile \<Rightarrow> bool" where
  "wrote f txt r \<longleftrightarrow> (case r of (complete, ret, f') \<Rightarrow>
     set (f_writes f') \<subseteq> set (f_writes f) \<and> (f_writes f = [] \<longrightarrow> complete) \<and>
     (if complete then ret = 0 \<and> f_data f' = f_data f @ txt
      else (\<exists>n. f_data f' = f_data f @ take n txt) \<and> - ret \<in> snd ` set (f_writes f)))"

lemma put_str_wrote: "wrote f bs (put_str f bs)"
  by (auto simp: wrote_def put_str_def fwrite_def split: list.split prod.split)

lemma wrote_stop:
  assumes "wrote f a (False, ret, f')"
  shows "wrote f (a @ b) (False, ret, f')"
proof -
  obtain n where "f_data f' = f_data f @ take n a" using assms by (auto simp: wrote_def)
  then have "f_data f' = f_data f @ take (min n (length a)) (a @ b)" by (simp add: min_def)
  then have "\<exists>n. f_data f' = f_data f @ take n (a @ b)" by blast
  then show ?thesis using assms by (simp add: wrote_def)
qed

lemma wrote_go:
  assumes "wrote f a (True, 0, f')" and "wrote f' b x"
  shows "wrote f (a @ b) x"
proof -
  obtain c r f2 where x: "x = (c, r, f2)" by (cases x)
  have "\<exists>n. f_data f' @ take m b = f_data f @ take n (a @ b)" for m
    using assms(1) by (intro exI [of _ "length a + m"]) (simp add: wrote_def)
  then show ?thesis using assms unfolding x wrote_def by (auto split: if_splits)
qed

lemma and_then_wrote:
  assumes "wrote f a r" and "\<And>f'. wrote f a (True, 0, f') \<Longrightarrow> post (g f') (wrote f' b)"
  shows "post (and_then r g) (wrote f (a @ b))"
proof -
  obtain c ret f' where r: "r = (c, ret, f')" by (cases r)
  show ?thesis
  proof (cases c)
    case False
    then show ?thesis using assms(1) wrote_stop r by (simp add: and_then_def)
  next
    case True
    with assms(1) r have w: "wrote f a (True, 0, f')" by (simp add: wrote_def)
    have "post (g f') (wrote f (a @ b))" by (rule post_mono [OF assms(2) [OF w]]) (rule wrote_go [OF w])
    with True r show ?thesis by (simp add: and_then_def)
  qed
qed

lemma write_item_wrote:
  assumes "item_ok ctx it" and "k_eol ctx \<le> EOL_CRLF"
  shows "post (write_item f ctx it) (wrote f (item_line it @ item_end ctx it))"
proof -
  obtain k where k: "it_key it = Some k" using assms(1) by (auto simp: item_ok_def)
  let ?e = "if has_flag ctx LF_PRESERVE_LINE_ENDING then it_eol it else k_eol ctx"
  have e: "eol_str ?e = Some (item_end ctx it)"
    unfolding item_end_def using assms by (intro eol_str_Some) (simp add: item_ok_def)
  have last: "post (do { eol \<leftarrow> eol_str ?e; Some (put_str f eol) }) (wrote f (item_end ctx it))" for f
    by (simp add: e put_str_wrote)
  show ?thesis
  proof (cases "it_invalid it")
    case True
    have "post (and_then (True, 0, f) (\<lambda>f. do { eol \<leftarrow> eol_str ?e; Some (put_str f eol) })) (wrote f (item_end ctx it))" for f
      using last by (simp add: and_then_def)
    then have "post (and_then (put_str f k) (\<lambda>f. do { r \<leftarrow> Some (True, 0, f);
        and_then r (\<lambda>f. do { eol \<leftarrow> eol_str ?e; Some (put_str f eol) }) })) (wrote f (k @ item_end ctx it))"
      by (intro and_then_wrote put_str_wrote) simp
    then show ?thesis using True k by (simp add: write_item_def item_line_def)
  next
    case False
    then obtain v where v: "it_value it = Some v" using assms(1) by (auto simp: item_ok_def)
    have mid: "post (and_then (put_str f [EQ]) (\<lambda>f. do { v \<leftarrow> it_value it; Some (put_str f v) })) (wrote f (EQ # v))" for f
      using and_then_wrote [OF put_str_wrote [of f "[EQ]"], of "\<lambda>f. Some (put_str f v)" v] v by (simp add: put_str_wrote)
    have "post (do { r \<leftarrow> and_then (put_str f [EQ]) (\<lambda>f. do { v \<leftarrow> it_value it; Some (put_str f v) });
        and_then r (\<lambda>f. do { eol \<leftarrow> eol_str ?e; Some (put_str f eol) }) }) (wrote f ((EQ # v) @ item_end ctx it))" for f
      by (rule post_bindI [OF mid]) (rule and_then_wrote [OF _ last])
    then have "post (and_then (put_str f k) (\<lambda>f. do { r \<leftarrow> and_then (put_str f [EQ]) (\<lambda>f. do { v \<leftarrow> it_value it; Some (put_str f v) });
        and_then r (\<lambda>f. do { eol \<leftarrow> eol_str ?e; Some (put_str f eol) }) })) (wrote f (k @ (EQ # v) @ item_end ctx it))"
      by (intro and_then_wrote put_str_wrote)
    then show ?thesis using False k v by (simp add: write_item_def item_line_def)
  qed
qed

lemma skip_item_ok: "item_ok ctx it \<Longrightarrow> skip_item ctx it = Some (\<not> printed ctx it)"
  by (auto simp: item_ok_def skip_item_def printed_def Let_def)

lemma write_items_wrote:
  assumes "\<forall>it \<in> set its. item_ok ctx it" and "k_eol ctx \<le> EOL_CRLF"
  shows "post (write_items f ctx its) (\<lambda>(ret, f'). \<exists>complete. wrote f (items_text ctx its) (complete, ret, f'))"
  using assms(1)
proof (induction its arbitrary: f)
  case Nil
  have "wrote f (items_text ctx []) (True, 0, f)" by (simp add: wrote_def items_text_def)
  then show ?case by auto
next
  case (Cons it its)
  show ?case
  proof (cases "printed ctx it")
    case False
    then show ?thesis using Cons skip_item_ok [of ctx it] by (simp add: items_text_def)
  next
    case True
    let ?t = "item_line it @ item_end ctx it"
    have t: "items_text ctx (it # its) = ?t @ items_text ctx its" using True by (simp add: items_text_def)
    have rest: "post (case r of (complete, ret, f) \<Rightarrow> if complete then write_items f ctx its else Some (ret, f))
        (\<lambda>(ret, f'). \<exists>complete. wrote f (?t @ items_text ctx its) (complete, ret, f'))" if w: "wrote f ?t r" for r
    proof -
      obtain c ret f' where r: "r = (c, ret, f')" by (cases r)
      show ?thesis
      proof (cases c)
        case False
        then show ?thesis using wrote_stop [of f ?t] w r by (simp only: case_prod_conv if_False post_Some) blast
      next
        case c: True
        then have "wrote f ?t (True, 0, f')" using w r by (simp add: wrote_def)
        note go = wrote_go [OF this]
        have "post (write_items f' ctx its) (\<lambda>(ret, f'). \<exists>complete. wrote f (?t @ items_text ctx its) (complete, ret, f'))"
        proof (rule post_mono [OF Cons.IH])
          show "\<forall>it \<in> set its. item_ok ctx it" using Cons.prems by simp
        qed (clarify, blast intro: go)
        with c r show ?thesis by simp
      qed
    qed
    have "item_ok ctx it" using Cons.prems by simp
    note w = write_item_wrote [OF this assms(2), of f] and skip = skip_item_ok [OF this]
    have "write_items f ctx (it # its) = do { r \<leftarrow> write_item f ctx it;
        (case r of (complete, ret, f) \<Rightarrow> if complete then write_items f ctx its else Some (ret, f)) }"
      using True skip by simp
    moreover have "post \<dots> (\<lambda>(ret, f'). \<exists>complete. wrote f (?t @ items_text ctx its) (complete, ret, f'))"
      by (subst post_bind) (rule post_mono [OF w rest])
    ultimately show ?thesis by (simp only: t)
  qed
qed

lemma kvc_ok_all_items: "kvc_ok ctx \<Longrightarrow> \<forall>it \<in> set (all_items ctx). item_ok ctx it"
  using kvc_ok_items [of ctx] by (auto simp: all_items_def)

lemma items_text_append: "items_text ctx (a @ b) = items_text ctx a @ items_text ctx b"
  by (simp add: items_text_def)

text \<open>A commit whose calls on the file succeed: the file then holds the text of the context, or a
  beginning of it and an error number of the device is returned.\<close>

lemma kvc_commit_spec:
  assumes "kvc_ok ctx" and "k_file ctx = Some f"
    and "0 \<le> ce_fileno ce" and "ce_fseek ce = 0" and "ce_ftruncate ce = 0"
    and "\<forall>(n, e) \<in> set (f_writes f). e \<noteq> 0"
  shows "post (kvc_commit ce (Some ctx)) (\<lambda>(ret, c). \<exists>f'. c = Some (ctx\<lparr>k_file := Some f'\<rparr>) \<and>
    (f_writes f = [] \<longrightarrow> ret = 0) \<and>
    (if ret = 0 then f_data f' = context_text ctx
     else (\<exists>n. f_data f' = take n (context_text ctx)) \<and> - ret \<in> snd ` set (f_writes f)))"
proof -
  let ?f = "f\<lparr>f_data := []\<rparr>" and ?T = "context_text ctx"
  note I = kvc_ok_items [OF assms(1)]
  have eol: "k_eol ctx \<le> EOL_CRLF" using assms(1) by (simp add: kvc_ok_def)
  have t: "?T = items_text ctx (og_items ctx) @ items_text ctx (ng_items ctx)"
    by (simp add: context_text_def all_items_def items_text_append)
  obtain r1 f1 c1 where 1: "write_items ?f ctx (og_items ctx) = Some (r1, f1)"
    "wrote ?f (items_text ctx (og_items ctx)) (c1, r1, f1)"
    using write_items_wrote [OF I(3) eol, of ?f] by (auto simp: post_iff)
  obtain r2 f2 c2 where 2: "write_items f1 ctx (ng_items ctx) = Some (r2, f2)"
    "wrote f1 (items_text ctx (ng_items ctx)) (c2, r2, f2)"
    using write_items_wrote [OF I(4) eol, of f1] by (auto simp: post_iff)
  have nz: "c = (r = 0)" if "wrote g x (c, r, f')" "set (f_writes g) \<subseteq> set (f_writes f)" for g x c r f'
    using that assms(6) by (auto simp: wrote_def split: if_splits)
  have c1: "c1 = (r1 = 0)" using nz [OF 1(2)] by simp
  have res: "post (kvc_commit ce (Some ctx)) (\<lambda>x. x = (if r1 \<noteq> 0 then (r1, Some (ctx\<lparr>k_file := Some f1\<rparr>))
      else (r2, Some (ctx\<lparr>k_file := Some f2\<rparr>))))"
    using assms(2-5) 1(1) 2(1) I(1,2) by (simp add: kvc_commit_def write_conf_items_def)
  have fin: "(f_writes f = [] \<longrightarrow> r = 0) \<and> (if r = 0 then f_data f' = ?T
     else (\<exists>n. f_data f' = take n ?T) \<and> - r \<in> snd ` set (f_writes f))" if w: "wrote ?f ?T (c, r, f')" for c r f'
  proof -
    have "c = (r = 0)" by (rule nz [OF w]) simp
    then show ?thesis using w by (cases "r = 0") (simp_all add: wrote_def)
  qed
  show ?thesis
  proof (cases "r1 = 0")
    case True
    with 1(2) c1 have g: "wrote ?f (items_text ctx (og_items ctx)) (True, 0, f1)" by simp
    have "wrote ?f ?T (c2, r2, f2)" unfolding t by (rule wrote_go [OF g 2(2)])
    from fin [OF this] res True show ?thesis by (auto elim!: post_mono)
  next
    case False
    with 1(2) c1 have g: "wrote ?f (items_text ctx (og_items ctx)) (False, r1, f1)" by simp
    have "wrote ?f ?T (False, r1, f1)" unfolding t by (rule wrote_stop [OF g])
    from fin [OF this] res False show ?thesis by (auto elim!: post_mono)
  qed
qed

section \<open>Loading and writing back changes nothing\<close>

lemma split_at_eq: "EQ \<in> set l \<Longrightarrow> takeWhile (\<lambda>c. c \<noteq> EQ) l @ EQ # drop (length (takeWhile (\<lambda>c. c \<noteq> EQ) l) + 1) l = l"
proof (induction l)
  case (Cons c l)
  then show ?case by auto
qed simp

lemma item_line_parse_line:
  assumes "\<not> has_flag ctx LF_STRIP_KEY_WHITESPACE" and "\<not> has_flag ctx LF_STRIP_VALUE_WHITESPACE"
  shows "item_line (parse_line ctx l e) = l"
  using assms split_at_eq [of l] by (auto simp: parse_line_def item_line_def blank_item_def Let_def)

lemma parse_line_eol [simp]: "it_eol (parse_line ctx l e) = e" "it_deleted (parse_line ctx l e) = False"
  by (simp_all add: parse_line_def blank_item_def Let_def)

lemma printed_parse_line:
  assumes "\<not> has_flag ctx LF_STRIP_COMMENTS" and "\<not> has_flag ctx LF_STRIP_INVALID"
  shows "printed ctx (parse_line ctx l e)"
  using assms by (auto simp: printed_def skip_item_def parse_line_def blank_item_def Let_def)

lemma last_index_eol:
  assumes "s \<noteq> []" and "first_line d s = (l, e, n)"
  shows "\<not> n \<le> length s \<Longrightarrow> \<not> is_eol (last s)"
  using first_line_facts(1,5) [OF assms] assms(1) by auto

lemma lines_text:
  "concat (map (\<lambda>(l, e). l @ the (eol_str e)) (text_lines d s)) =
     s @ (if s = [] \<or> is_eol (last s) then [] else the (eol_str d))"
proof (induction s rule: text_lines_induct [where d = d])
  case (line s l e n)
  note t = text_lines_first [OF line(1,2)] and f = first_line_facts(4,5) [OF line(1,2)]
  show ?case
  proof (cases "n \<le> length s")
    case True
    have e: "s = l @ the (eol_str e) @ drop n s" using f(1) [OF True] by simp
    have "is_eol (last s) = (drop n s = [] \<or> is_eol (last (drop n s)))"
    proof (cases "drop n s = []")
      case True
      with e have "s = l @ the (eol_str e)" by simp
      moreover have "the (eol_str e) \<noteq> [] \<and> is_eol (last (the (eol_str e)))"
        using f(1) \<open>n \<le> length s\<close> by (auto simp: eol_str_def is_eol_def split: if_splits)
      ultimately show ?thesis using True by (metis last_appendR)
    next
      case False
      then show ?thesis by (simp add: last_drop)
    qed
    then show ?thesis using line(1,3) e t by (auto simp flip: append_assoc)
  next
    case False
    then show ?thesis using t f(2) line(1) last_index_eol [OF line(1,2)] by simp
  qed
qed simp

lemma loaded_text:
  assumes "loaded r s ctx" and "\<not> has_flag r LF_STRIP_KEY_WHITESPACE" and "\<not> has_flag r LF_STRIP_VALUE_WHITESPACE"
    and "\<not> has_flag r LF_STRIP_COMMENTS" and "\<not> has_flag r LF_STRIP_INVALID" and "has_flag r LF_PRESERVE_LINE_ENDING"
  shows "context_text ctx = s @ (if s = [] \<or> is_eol (last s) then [] else the (eol_str (k_eol r)))"
proof -
  have s: "same_settings r ctx" using assms(1) by (simp add: loaded_def)
  have "printed ctx = printed r"
    by (intro ext) (simp add: printed_def skip_item_def same_settings_cong(1) [OF s])
  moreover have "item_end ctx = item_end r"
    using assms(6) by (intro ext) (simp add: item_end_def same_settings_cong(1) [OF s])
  ultimately have "context_text ctx = concat (map (\<lambda>it. item_line it @ item_end r it) (filter (printed r) (parsed r s)))"
    using assms(1) by (simp add: context_text_def items_text_def all_items_def loaded_def)
  also have "filter (printed r) (parsed r s) = parsed r s"
    using assms(4,5) by (auto simp: parsed_def printed_parse_line filter_id_conv)
  also have "map (\<lambda>it. item_line it @ item_end r it) (parsed r s) = map (\<lambda>(l, e). l @ the (eol_str e)) (text_lines (k_eol r) s)"
    using assms(2,3,6) by (auto simp: parsed_def item_line_parse_line item_end_def)
  finally show ?thesis by (simp add: lines_text)
qed

section \<open>Writing back and loading again\<close>

lemma length_eol: "length (the (eol_str e)) > 0" if "e \<le> EOL_CRLF"
  using eol_str_Some [OF that] by (auto simp: eol_str_def split: if_splits)

lemma index_of_first: "\<forall>c \<in> set l. \<not> P c \<Longrightarrow> P c \<Longrightarrow> index_of P (l @ c # r) = Some (length l)"
  by (induction l) auto

lemma first_line_of_line:
  assumes "\<forall>c \<in> set l. \<not> is_eol c" and "e \<le> EOL_CRLF" and "e = EOL_CR \<Longrightarrow> take 1 rest \<noteq> [LF]"
  shows "first_line d (l @ the (eol_str e) @ rest) = (l, e, length l + length (the (eol_str e)))"
proof -
  have "e = EOL_LF \<or> e = EOL_CR \<or> e = EOL_CRLF"
    using eol_str_Some [OF assms(2)] by (auto simp: eol_str_def split: if_splits)
  then show ?thesis
  proof (elim disjE)
    assume e: "e = EOL_LF"
    then show ?thesis
      using assms(1) index_of_first [of l is_eol LF rest] by (simp add: eol_str_def first_line_def is_eol_def nth_append)
  next
    assume e: "e = EOL_CR"
    then have "rest = [] \<or> hd rest \<noteq> LF" using assms(3) by (cases rest) auto
    then show ?thesis
      using e assms(1) index_of_first [of l is_eol CR rest]
      by (cases rest) (simp_all add: eol_str_def first_line_def is_eol_def nth_append)
  next
    assume e: "e = EOL_CRLF"
    then show ?thesis
      using assms(1) index_of_first [of l is_eol CR "LF # rest"]
      by (simp add: eol_str_def first_line_def is_eol_def nth_append)
  qed
qed

lemma text_lines_of_lines:
  assumes "\<forall>l \<in> set ls. \<forall>c \<in> set l. \<not> is_eol c" and "e \<le> EOL_CRLF"
  shows "text_lines d (concat (map (\<lambda>l. l @ the (eol_str e)) ls)) = map (\<lambda>l. (l, e)) ls"
  using assms(1)
proof (induction ls)
  case (Cons l ls)
  let ?E = "the (eol_str e)" and ?rest = "concat (map (\<lambda>l. l @ the (eol_str e)) ls)"
  have "take 1 ?rest \<noteq> [LF]" if "e = EOL_CR"
  proof (cases ls)
    case (Cons l' ls')
    have "?rest = l' @ CR # concat (map (\<lambda>l. l @ the (eol_str e)) ls')" using that Cons by (simp add: eol_str_def)
    moreover have "\<forall>c \<in> set l'. c \<noteq> LF" using Cons.prems \<open>ls = l' # ls'\<close> by (auto simp: is_eol_def)
    ultimately show ?thesis by (cases l') auto
  qed simp
  then have f: "first_line d (l @ ?E @ ?rest) = (l, e, length l + length ?E)"
    using Cons.prems assms(2) by (intro first_line_of_line) auto
  have "l @ ?E @ ?rest \<noteq> []" using length_eol [OF assms(2)] by auto
  from text_lines_first [OF this f] Cons show ?case by simp
qed simp

lemma clean_item_line:
  assumes "clean_item ctx it"
  shows "\<forall>c \<in> set (item_line it). \<not> is_eol c \<and> c \<noteq> 0"
proof (cases "it_invalid it")
  case True
  then show ?thesis using assms by (auto simp: clean_item_def clean_key_def plain_text_def item_line_def)
next
  case False
  then obtain k v where "it_key it = Some k" "it_value it = Some v" "plain_text k" "plain_text v"
    using assms by (auto simp: clean_item_def clean_key_def)
  moreover have "\<not> is_eol EQ" by (simp add: is_eol_def)
  ultimately show ?thesis using False by (auto simp: plain_text_def item_line_def)
qed

lemma takeWhile_key: "EQ \<notin> set k \<Longrightarrow> takeWhile (\<lambda>c. c \<noteq> EQ) (k @ EQ # v) = k"
  by (induction k) auto

lemma ltrim_key:
  assumes "ltrim k = k"
  shows "ltrim (k @ EQ # v) = k @ EQ # v"
proof (cases k)
  case (Cons c k')
  then have "\<not> is_ws c" using assms by (metis dropWhile.simps(2) impossible_Cons length_dropWhile_le ltrim_def)
  then show ?thesis using Cons by (simp add: ltrim_def)
qed (simp add: ltrim_def is_ws_def)

lemma take_ltrim_key: "take 1 (ltrim (k @ EQ # v)) = [HASH] \<longleftrightarrow> take 1 (ltrim k) = [HASH]"
proof (cases "ltrim k")
  case Nil
  then have "\<forall>c \<in> set k. is_ws c" by (simp add: ltrim_def dropWhile_eq_Nil_conv)
  then have "ltrim (k @ EQ # v) = ltrim (EQ # v)" by (simp add: ltrim_def dropWhile_append2)
  then have "take 1 (ltrim (k @ EQ # v)) = [EQ]" by (simp add: ltrim_def is_ws_def)
  then show ?thesis using Nil by simp
next
  case (Cons c r)
  then have "\<exists>c \<in> set k. \<not> is_ws c" by (metis dropWhile_eq_Nil_conv list.distinct(1) ltrim_def)
  then have "ltrim (k @ EQ # v) = ltrim k @ EQ # v" by (auto simp: ltrim_def dropWhile_append1)
  then show ?thesis using Cons by simp
qed

text \<open>The line of a clean item parses to an item with the same key, value and kind.\<close>

lemma parse_line_of_item:
  assumes "clean_item ctx it"
  shows "it_key (parse_line ctx (item_line it) e) = it_key it"
    and "it_invalid (parse_line ctx (item_line it) e) = it_invalid it"
    and "\<not> it_invalid it \<Longrightarrow> it_value (parse_line ctx (item_line it) e) = it_value it"
proof -
  obtain k where k: "it_key it = Some k" using assms by (auto simp: clean_item_def)
  have "it_key (parse_line ctx (item_line it) e) = it_key it \<and> it_invalid (parse_line ctx (item_line it) e) = it_invalid it \<and>
    (\<not> it_invalid it \<longrightarrow> it_value (parse_line ctx (item_line it) e) = it_value it)"
  proof (cases "it_invalid it")
    case True
    have "set (ltrim k) \<subseteq> set k" by (auto simp: ltrim_def dest: set_dropWhileD)
    then have "take 1 (ltrim k) = [HASH] \<or> EQ \<notin> set k \<and> EQ \<notin> set (ltrim k)"
      using assms True k by (auto simp: clean_item_def)
    then show ?thesis using True k by (auto simp: parse_line_def item_line_def blank_item_def Let_def)
  next
    case False
    then obtain v where v: "it_value it = Some v" "trim_value (item_strip ctx it) v = v"
      and ns: "it_nostrip it = is_string_in_list k (k_nostrip ctx)"
      and kk: "EQ \<notin> set k" "take 1 (ltrim k) \<noteq> [HASH]" "strip_key ctx k = k"
      using assms k by (auto simp: clean_item_def clean_key_def)
    let ?l = "k @ EQ # v"
    have l: "item_line it = ?l" using False k v by (simp add: item_line_def)
    have p: "(if has_flag ctx LF_STRIP_KEY_WHITESPACE then ltrim ?l else ?l) = ?l"
    proof (cases "has_flag ctx LF_STRIP_KEY_WHITESPACE")
      case True
      then show ?thesis using kk(3) ltrim_key [OF strip_key_trimmed(1)] by (simp add: strip_key_def)
    qed simp
    have r: "(if has_flag ctx LF_STRIP_KEY_WHITESPACE then rtrim_len k else k) = k"
      using kk(3) strip_key_trimmed(2) [of k] unfolding strip_key_def by argo
    have val: "(if has_flag ctx LF_STRIP_VALUE_WHITESPACE \<and> \<not> is_string_in_list k (k_nostrip ctx) then rtrim_len (ltrim v) else v) = v"
      using v(2) ns by (simp add: trim_value_def item_strip_def)
    have "parse_line ctx ?l e = blank_item\<lparr>it_key := Some k, it_value := Some v, it_eol := e,
        it_nostrip := is_string_in_list k (k_nostrip ctx)\<rparr>"
    proof -
      have d: "drop (length k + 1) ?l = v" by simp
      have c: "(take 1 (ltrim ?l) = [HASH] \<or> EQ \<notin> set ?l) = False" using kk(2) take_ltrim_key [of k v] by simp
      show ?thesis by (simp only: parse_line_def Let_def p takeWhile_key [OF kk(1)] r d val c if_False)
    qed
    then show ?thesis using l k v False by (simp add: blank_item_def)
  qed
  then show "it_key (parse_line ctx (item_line it) e) = it_key it"
    "it_invalid (parse_line ctx (item_line it) e) = it_invalid it"
    "\<not> it_invalid it \<Longrightarrow> it_value (parse_line ctx (item_line it) e) = it_value it" by blast+
qed

lemma lookup_in_printed: "lookup_in ctx (filter (printed ctx) its) key = lookup_in ctx its key"
proof -
  have "live it \<Longrightarrow> printed ctx it" for it by (simp add: live_def printed_def skip_item_def)
  then have "List.find (\<lambda>it. live it \<and> matches ctx key it) (filter (printed ctx) its) =
      List.find (\<lambda>it. live it \<and> matches ctx key it) its" by (induction its) auto
  then show ?thesis by (simp add: lookup_in_def)
qed

lemma printed_not_deleted: "printed ctx it \<Longrightarrow> \<not> it_deleted it"
  by (auto simp: printed_def skip_item_def)

lemma lookup_in_reparsed:
  assumes "\<forall>it \<in> set its. clean_item ctx it \<and> \<not> it_deleted it"
  shows "lookup_in ctx (map (\<lambda>it. parse_line ctx (item_line it) e) its) key = lookup_in ctx its key"
  using assms
proof (induction its)
  case (Cons it its)
  note p = parse_line_of_item [of ctx it e]
  have "live (parse_line ctx (item_line it) e) = live it" "matches ctx key (parse_line ctx (item_line it) e) = matches ctx key it"
    using p(1,2) Cons.prems by (simp_all add: live_def matches_def)
  then show ?case using Cons p(3) by (auto simp: lookup_in_def live_def)
qed (simp add: lookup_in_def)

lemma reload_lookup:
  assumes "clean ctx" and "k_eol ctx \<le> EOL_CRLF" and "\<not> has_flag ctx LF_PRESERVE_LINE_ENDING"
    and "same_settings ctx r" and "loaded r (context_text ctx) ctx'"
  shows "lookup ctx' = lookup ctx"
proof
  fix key
  let ?its = "filter (printed ctx) (all_items ctx)" and ?e = "k_eol ctx"
  have c: "\<forall>it \<in> set ?its. clean_item ctx it \<and> \<not> it_deleted it"
    using assms(1) printed_not_deleted by (auto simp: clean_def)
  have ls: "\<forall>l \<in> set (map item_line ?its). \<forall>c \<in> set l. \<not> is_eol c"
    using c clean_item_line by auto
  have "context_text ctx = concat (map (\<lambda>l. l @ the (eol_str ?e)) (map item_line ?its))"
    using assms(3) by (simp add: context_text_def items_text_def item_end_def o_def)
  then have "text_lines (k_eol r) (context_text ctx) = map (\<lambda>it. (item_line it, ?e)) ?its"
    using text_lines_of_lines [OF ls assms(2), of "k_eol r"] by (simp add: o_def)
  then have p: "all_items ctx' = map (\<lambda>it. parse_line ctx (item_line it) ?e) ?its"
    using assms(5) parse_line_cong [OF assms(4)] by (simp add: loaded_def all_items_def parsed_def o_def)
  have "same_settings ctx ctx'" using assms(4,5) same_settings_trans by (auto simp: loaded_def)
  then show "lookup ctx' key = lookup ctx key"
    unfolding lookup_def lookup_in_cong [OF \<open>same_settings ctx ctx'\<close>] p
    by (simp only: lookup_in_reparsed [OF c] lookup_in_printed)
qed

text \<open>Everything that loading produces is clean.\<close>

lemma ltrim_first: "ltrim s = s \<Longrightarrow> take 1 (ltrim (rtrim_len s)) = [HASH] \<Longrightarrow> take 1 s = [HASH]"
proof -
  assume l: "ltrim s = s" and h: "take 1 (ltrim (rtrim_len s)) = [HASH]"
  then have "take 1 (rtrim_len s) = [HASH]" by (simp add: ltrim_rtrim)
  moreover have "prefix (rtrim_len s) s"
    using suffix_dropWhile [of is_ws "rev s"] by (simp add: rtrim_len_def suffix_to_prefix)
  ultimately show ?thesis by (cases s; cases "rtrim_len s") auto
qed

lemma set_trims: "set (ltrim s) \<subseteq> set s" "set (rtrim_len s) \<subseteq> set s" "set (trim_value b s) \<subseteq> set s"
proof -
  show l: "set (ltrim s) \<subseteq> set s" for s by (auto simp: ltrim_def dest: set_dropWhileD)
  show r: "set (rtrim_len s) \<subseteq> set s" for s by (auto simp: rtrim_len_def dest: set_dropWhileD)
  show "set (trim_value b s) \<subseteq> set s" using l [of s] r [of "ltrim s"] by (auto simp: trim_value_def)
qed

lemma plain_text_sub: "plain_text s \<Longrightarrow> set t \<subseteq> set s \<Longrightarrow> plain_text t"
  by (auto simp: plain_text_def)

lemma ltrim_takeWhile: "ltrim s = s \<Longrightarrow> ltrim (takeWhile P s) = takeWhile P s"
proof (cases s)
  case (Cons c r)
  assume "ltrim s = s"
  with Cons have "\<not> is_ws c" by (metis dropWhile.simps(2) impossible_Cons length_dropWhile_le ltrim_def)
  then show ?thesis using Cons by (simp add: ltrim_def)
qed (simp add: ltrim_def)

lemma parse_line_clean:
  assumes "plain_text l"
  shows "clean_item ctx (parse_line ctx l e)"
proof -
  let ?p = "if has_flag ctx LF_STRIP_KEY_WHITESPACE then ltrim l else l"
  let ?raw = "takeWhile (\<lambda>c. c \<noteq> EQ) ?p"
  let ?k = "if has_flag ctx LF_STRIP_KEY_WHITESPACE then rtrim_len ?raw else ?raw"
  let ?v = "drop (length ?raw + 1) ?p"
  let ?ns = "is_string_in_list ?k (k_nostrip ctx)"
  let ?w = "trim_value (has_flag ctx LF_STRIP_VALUE_WHITESPACE \<and> \<not> ?ns) ?v"
  have sp: "set ?p \<subseteq> set l" using set_trims(1) by auto
  have raw: "set ?raw \<subseteq> set ?p" "EQ \<notin> set ?raw" by (auto dest: set_takeWhileD)
  have "set ?k \<subseteq> set ?raw" by (cases "has_flag ctx LF_STRIP_KEY_WHITESPACE") (simp_all only: if_True if_False set_trims(2) subset_refl)
  then have sk: "set ?k \<subseteq> set ?p" "EQ \<notin> set ?k" using raw by blast+
  have sv: "set ?w \<subseteq> set ?p" using set_trims(3) [of _ ?v] by (meson set_drop_subset subset_trans)
  note plain = plain_text_sub [OF assms subset_trans [OF sk(1) sp]] plain_text_sub [OF assms subset_trans [OF sv sp]]
  show ?thesis
  proof (cases "take 1 (ltrim l) = [HASH] \<or> EQ \<notin> set ?p")
    case True
    have "EQ \<notin> set l \<or> take 1 (ltrim l) = [HASH]"
    proof (cases "take 1 (ltrim l) = [HASH]")
      case False
      have "EQ \<in> set (ltrim l)" if "EQ \<in> set l"
      proof -
        have "EQ \<notin> set (takeWhile is_ws l)" by (auto simp: is_ws_def dest: set_takeWhileD)
        then show ?thesis using that unfolding ltrim_def by (metis UnE set_append takeWhile_dropWhile_id)
      qed
      then show ?thesis using True False by (auto split: if_splits)
    qed simp
    moreover have "parse_line ctx l e = blank_item\<lparr>it_key := Some l, it_invalid := True, it_eol := e\<rparr>"
      using True by (simp add: parse_line_def Let_def)
    ultimately show ?thesis using assms by (auto simp: clean_item_def blank_item_def)
  next
    case False
    then have h: "take 1 (ltrim l) \<noteq> [HASH]" and eq: "EQ \<in> set ?p" by auto
    have "parse_line ctx l e = blank_item\<lparr>it_key := Some ?k, it_value := Some ?w, it_eol := e, it_nostrip := ?ns\<rparr>"
      unfolding parse_line_def Let_def trim_value_def if_not_P [OF False] by (rule refl)
    moreover have "take 1 (ltrim ?k) \<noteq> [HASH] \<and> strip_key ctx ?k = ?k"
    proof (cases "has_flag ctx LF_STRIP_KEY_WHITESPACE")
      case True
      have r: "ltrim ?raw = ?raw" using True by (simp add: ltrim_takeWhile)
      have "take 1 ?raw \<noteq> [HASH]"
      proof
        assume "take 1 ?raw = [HASH]"
        then have "take 1 (ltrim l) = [HASH]" using True by (cases "ltrim l") (auto split: if_splits)
        then show False using h by simp
      qed
      then show ?thesis using True ltrim_first [OF r] r by (auto simp: strip_key_def ltrim_rtrim)
    next
      case False
      have "ltrim l = ltrim (?raw @ EQ # drop (length ?raw + 1) l)"
        using split_at_eq [of l] eq False by simp
      then have "take 1 (ltrim ?raw) \<noteq> [HASH]" using h take_ltrim_key by metis
      then show ?thesis using False by (simp add: strip_key_def)
    qed
    ultimately show ?thesis
      using plain sk(2) by (simp add: clean_item_def clean_key_def blank_item_def item_strip_def)
  qed
qed

lemma loaded_clean:
  assumes "loaded r s ctx" and "0 \<notin> set s" and "k_eol r \<le> EOL_CRLF"
  shows "clean ctx"
proof -
  have c: "clean_item r it" if m: "it \<in> set (parsed r s)" for it
  proof -
    obtain le where "it = (case le of (l, e) \<Rightarrow> parse_line r l e)" "le \<in> set (text_lines (k_eol r) s)"
      using m unfolding parsed_def by auto
    then obtain l e where it: "it = parse_line r l e" "(l, e) \<in> set (text_lines (k_eol r) s)" by (cases le) simp
    have "plain_text l" using text_lines_all(2,3) [OF it(2) assms(3)] assms(2) by (auto simp: plain_text_def)
    then show ?thesis unfolding it(1) by (rule parse_line_clean)
  qed
  have s: "same_settings r ctx" "all_items ctx = parsed r s" using assms(1) by (simp_all add: loaded_def all_items_def)
  show ?thesis unfolding clean_def s(2) clean_cong(2) [OF s(1)] using c by blast
qed

lemma context_text_plain:
  assumes "clean ctx" and "kvc_ok ctx"
  shows "0 \<notin> set (context_text ctx)"
proof -
  have "0 \<notin> set (item_line it) \<and> 0 \<notin> set (item_end ctx it)" if "it \<in> set (all_items ctx)" for it
  proof
    show "0 \<notin> set (item_line it)" using clean_item_line [of ctx it] that assms(1) by (auto simp: clean_def)
    let ?e = "if has_flag ctx LF_PRESERVE_LINE_ENDING then it_eol it else k_eol ctx"
    have "?e \<le> EOL_CRLF" using that assms(2) kvc_ok_all_items [OF assms(2)] by (auto simp: item_ok_def kvc_ok_def)
    from eol_str_Some [OF this] show "0 \<notin> set (item_end ctx it)"
      by (auto simp: item_end_def eol_str_def split: if_splits)
  qed
  then show ?thesis by (auto simp: context_text_def items_text_def)
qed

end
