(* ===== verification/Kvc_Enum.thy ===== *)
theory Kvc_Enum
  imports Kvc_Store
begin

text \<open>
  Counting, collecting and enumerating the pairs of a context.
\<close>

definition item_pair :: "conf_item2 \<Rightarrow> cstr option \<times> cstr option" where
  "item_pair it = (it_key it, it_value it)"

definition live_pairs :: "kvc_context \<Rightarrow> (cstr option \<times> cstr option) list" where
  "live_pairs ctx = map item_pair (filter live (all_items ctx))"

section \<open>Counting and collecting\<close>

lemma live_filters:
  assumes "kvc_ok ctx"
  shows "filter (\<lambda>it. \<not> (it_invalid it \<or> it_deleted it)) (og_items ctx) = filter live (og_items ctx)"
    and "filter (\<lambda>it. \<not> it_deleted it) (ng_items ctx) = filter live (ng_items ctx)"
  using kvc_ok_items(5) [OF assms] by (auto simp: live_def intro: filter_cong)

lemma kvc_get_count_spec:
  assumes "kvc_ok ctx"
  shows "kvc_get_count (Some ctx) = Some (length (live_pairs ctx))"
  using kvc_ok_items(1,2) [OF assms] live_filters [OF assms]
  by (simp add: kvc_get_count_def live_pairs_def all_items_def)

lemma store_items_spec:
  assumes "idx + length (filter keep its) \<le> length arr"
  shows "store_items keep its idx arr =
    Some (idx + length (filter keep its), take idx arr @ map item_pair (filter keep its) @ drop (idx + length (filter keep its)) arr)"
  using assms
proof (induction keep its idx arr rule: store_items.induct)
  case (2 keep it its idx arr)
  show ?case
  proof (cases "keep it")
    case True
    with 2(3) have i: "idx < length arr" by simp
    then have "arr_set arr idx (item_pair it) = Some (arr[idx := item_pair it])" by (simp add: arr_set_def)
    moreover have "take (idx + 1) (arr[idx := item_pair it]) = take idx arr @ [item_pair it]"
      using i by (simp add: take_Suc_conv_app_nth)
    ultimately show ?thesis using 2(1) [OF True] 2(3) True by (simp add: item_pair_def)
  qed (use 2 in simp)
qed simp

lemma kvc_get_all_spec:
  assumes "kvc_ok ctx"
  shows "kvc_get_all (Some ctx) =
    (if live_pairs ctx = [] then Some (0, None, Some ctx)
     else case alloc ctx of (ok, ctx') \<Rightarrow>
       Some (if ok then (length (live_pairs ctx), Some (live_pairs ctx), Some ctx') else (0, None, Some ctx')))"
proof (rule alloc_cases [of ctx])
  fix ok al assume a: "alloc ctx = (ok, ctx\<lparr>allocs := al\<rparr>)"
  let ?og = "filter live (og_items ctx)" and ?ng = "filter live (ng_items ctx)"
  let ?n = "length (live_pairs ctx)" and ?k = "\<lambda>it. \<not> (it_invalid it \<or> it_deleted it)"
  have n: "?n = length ?og + length ?ng" by (simp add: live_pairs_def all_items_def)
  have u: "used_items (k_og (ctx\<lparr>allocs := al\<rparr>)) = Some (og_items ctx)" "used_items (k_ng (ctx\<lparr>allocs := al\<rparr>)) = Some (ng_items ctx)"
    using kvc_ok_items(1,2) [OF assms] by simp_all
  let ?arr = "map item_pair ?og @ replicate (length ?ng) (None, None)"
  have 1: "store_items ?k (og_items ctx) 0 (replicate ?n (None, None)) = Some (length ?og, ?arr)"
    using store_items_spec [of 0 ?k "og_items ctx" "replicate ?n (None, None)"] live_filters(1) [OF assms] n by simp
  have 2: "store_items (\<lambda>it. \<not> it_deleted it) (ng_items ctx) (length ?og) ?arr = Some (?n, live_pairs ctx)"
    using store_items_spec [of "length ?og" "\<lambda>it. \<not> it_deleted it" "ng_items ctx" ?arr] live_filters(2) [OF assms] n
    by (simp add: live_pairs_def all_items_def)
  show ?thesis
    using a u 1 2 kvc_get_count_spec [OF assms] by (auto simp: kvc_get_all_def)
qed

section \<open>Enumerating\<close>

text \<open>A caller that asks for pairs until there are no more.\<close>

partial_function (option) enum_all :: "kvc_context \<Rightarrow> kvc_enum_context option \<Rightarrow> (cstr option \<times> cstr option) list option" where
  "enum_all ctx e = do {
     (ret, item, e) \<leftarrow> kvc_enum_next ctx e;
     if ret \<noteq> 0 then Some []
     else do { item \<leftarrow> item; items \<leftarrow> enum_all ctx e; Some (item # items) }
   }"

declare enum_all.simps [code]

lemma next_item_spec:
  "filter P (drop i its) =
     (case next_item P its i of None \<Rightarrow> [] | Some j \<Rightarrow> its ! j # filter P (drop (Suc j) its))"
  and next_item_bound: "next_item P its i = Some j \<Longrightarrow> i \<le> j \<and> j < length its"
proof (induction "length its - i" arbitrary: i)
  case 0
  { case 1 show ?case using 0 by (simp add: next_item_def) }
  { case 2 then show ?case using 0 by (simp add: next_item_def) }
next
  case (Suc n)
  then have i: "i < length its" and n: "n = length its - Suc i" by simp_all
  have step: "next_item P its i = (if P (its ! i) then Some i else next_item P its (Suc i))"
    using i by (simp add: next_item_def upt_conv_Cons)
  have d: "drop i its = its ! i # drop (Suc i) its" using i by (simp add: Cons_nth_drop_Suc)
  { case 1 show ?case using Suc(1) [OF n] d step by simp }
  { case 2 then show ?case using Suc(2) [OF n] step i by (auto split: if_splits) }
qed

lemma next_item_cases:
  obtains "next_item P its i = None" and "filter P (drop i its) = []"
  | j where "next_item P its i = Some j" and "i \<le> j" and "j < length its"
      and "filter P (drop i its) = its ! j # filter P (drop (Suc j) its)"
  using next_item_spec [of P i its] next_item_bound [of P its i] by (cases "next_item P its i") auto

text \<open>Once the enumeration is at the new items, it shows those behind its index.\<close>

lemma enum_new:
  assumes "kvc_ok ctx"
  shows "enum_all ctx (Some \<lparr>e_first = False, e_ng = True, e_idx = i\<rparr>) =
    Some (map item_pair (filter live (drop (Suc i) (ng_items ctx))))"
proof (induction "length (ng_items ctx) - i" arbitrary: i rule: less_induct)
  case less
  let ?P = "\<lambda>it. \<not> it_deleted it"
  have l: "filter live (drop k (ng_items ctx)) = filter ?P (drop k (ng_items ctx))" for k
    using kvc_ok_items(5) [OF assms] by (intro filter_cong) (auto simp: live_def dest: in_set_dropD)
  show ?case
  proof (rule next_item_cases [of ?P "ng_items ctx" "Suc i"])
    assume "next_item ?P (ng_items ctx) (Suc i) = None" "filter ?P (drop (Suc i) (ng_items ctx)) = []"
    then show ?thesis using kvc_ok_items(1,2) [OF assms] l
      by (subst enum_all.simps) (simp add: kvc_enum_next_def)
  next
    fix j assume j: "next_item ?P (ng_items ctx) (Suc i) = Some j" "Suc i \<le> j" "j < length (ng_items ctx)"
      "filter ?P (drop (Suc i) (ng_items ctx)) = ng_items ctx ! j # filter ?P (drop (Suc j) (ng_items ctx))"
    have "length (ng_items ctx) - j < length (ng_items ctx) - i" using j by linarith
    from less [OF this] show ?thesis using kvc_ok_items(1,2) [OF assms] j l
      by (subst enum_all.simps) (simp add: kvc_enum_next_def item_pair_def)
  qed
qed

text \<open>While it is at the original items: those that remain, and then the new items, but only from behind
  the index of the last original item on.\<close>

definition last_live :: "conf_item2 list \<Rightarrow> nat \<Rightarrow> nat" where
  "last_live its i = (case filter (\<lambda>j. live (its ! j)) [Suc i..<length its] of [] \<Rightarrow> i | js \<Rightarrow> last js)"

lemma next_item_upt:
  "filter (\<lambda>j. P (its ! j)) [i..<length its] =
     (case next_item P its i of None \<Rightarrow> [] | Some j \<Rightarrow> j # filter (\<lambda>j. P (its ! j)) [Suc j..<length its])"
proof (induction "length its - i" arbitrary: i)
  case (Suc n)
  then have i: "i < length its" and n: "n = length its - Suc i" by simp_all
  have "next_item P its i = (if P (its ! i) then Some i else next_item P its (Suc i))"
    using i by (simp add: next_item_def upt_conv_Cons)
  then show ?case using Suc(1) [OF n] i by (simp add: upt_conv_Cons)
qed (simp add: next_item_def)

lemma last_live_step: "next_item live its (Suc i) = Some j \<Longrightarrow> last_live its i = last_live its j"
  by (simp add: last_live_def next_item_upt [of live its "Suc i"] split: list.split)

lemma last_live_end: "next_item live its (Suc i) = None \<Longrightarrow> last_live its i = i"
  by (auto simp: next_item_def last_live_def split: list.splits)

lemma enum_next_og:
  assumes "kvc_ok ctx" and "next_item live (og_items ctx) (i + (if b then 0 else 1)) = Some j"
  shows "kvc_enum_next ctx (Some \<lparr>e_first = b, e_ng = False, e_idx = i\<rparr>) =
    Some (0, Some (item_pair (og_items ctx ! j)), Some \<lparr>e_first = False, e_ng = False, e_idx = j\<rparr>)"
proof -
  have "(\<lambda>it. \<not> it_deleted it \<and> \<not> it_invalid it) = live" by (auto simp: live_def)
  then show ?thesis using kvc_ok_items(1,2) [OF assms(1)] assms(2)
    by (simp add: kvc_enum_next_def item_pair_def)
qed

lemma enum_next_ng:
  assumes "kvc_ok ctx" and "next_item live (og_items ctx) (i + (if b then 0 else 1)) = None"
  shows "enum_all ctx (Some \<lparr>e_first = b, e_ng = False, e_idx = i\<rparr>) =
    Some (map item_pair (filter live (drop (i + (if b then 0 else 1)) (ng_items ctx))))"
proof -
  let ?P = "\<lambda>it. \<not> it_deleted it" and ?k = "i + (if b then 0 else 1)"
  have e: "(\<lambda>it. \<not> it_deleted it \<and> \<not> it_invalid it) = live" by (auto simp: live_def)
  have l: "filter live (drop k (ng_items ctx)) = filter ?P (drop k (ng_items ctx))" for k
    using kvc_ok_items(5) [OF assms(1)] by (intro filter_cong) (auto simp: live_def dest: in_set_dropD)
  show ?thesis
  proof (rule next_item_cases [of ?P "ng_items ctx" ?k])
    assume "next_item ?P (ng_items ctx) ?k = None" "filter ?P (drop ?k (ng_items ctx)) = []"
    then show ?thesis using kvc_ok_items(1,2) [OF assms(1)] assms(2) l e
      by (subst enum_all.simps) (simp add: kvc_enum_next_def)
  next
    fix j assume j: "next_item ?P (ng_items ctx) ?k = Some j" "?k \<le> j" "j < length (ng_items ctx)"
      "filter ?P (drop ?k (ng_items ctx)) = ng_items ctx ! j # filter ?P (drop (Suc j) (ng_items ctx))"
    then show ?thesis using kvc_ok_items(1,2) [OF assms(1)] assms(2) l e enum_new [OF assms(1), of j]
      by (subst enum_all.simps) (simp add: kvc_enum_next_def item_pair_def)
  qed
qed

lemma enum_old:
  assumes "kvc_ok ctx"
  shows "enum_all ctx (Some \<lparr>e_first = False, e_ng = False, e_idx = i\<rparr>) =
    Some (map item_pair (filter live (drop (Suc i) (og_items ctx)) @
      filter live (drop (Suc (last_live (og_items ctx) i)) (ng_items ctx))))"
proof (induction "length (og_items ctx) - i" arbitrary: i rule: less_induct)
  case less
  show ?case
  proof (rule next_item_cases [of live "og_items ctx" "Suc i"])
    assume "next_item live (og_items ctx) (Suc i) = None" "filter live (drop (Suc i) (og_items ctx)) = []"
    then show ?thesis using enum_next_ng [OF assms, of i False] by (simp add: last_live_end)
  next
    fix j assume j: "next_item live (og_items ctx) (Suc i) = Some j" "Suc i \<le> j" "j < length (og_items ctx)"
      "filter live (drop (Suc i) (og_items ctx)) = og_items ctx ! j # filter live (drop (Suc j) (og_items ctx))"
    have "length (og_items ctx) - j < length (og_items ctx) - i" using j by linarith
    from less [OF this] show ?thesis
      using enum_next_og [OF assms, of i False j] j last_live_step [OF j(1)]
      by (subst enum_all.simps) simp
  qed
qed

text \<open>The whole enumeration.\<close>

definition new_from :: "kvc_context \<Rightarrow> nat" where
  "new_from ctx = (case next_item live (og_items ctx) 0 of
     None \<Rightarrow> 0 | Some j \<Rightarrow> Suc (last_live (og_items ctx) j))"

lemma enum_all_spec:
  assumes "kvc_ok ctx"
  shows "enum_all ctx (Some \<lparr>e_first = True, e_ng = False, e_idx = 0\<rparr>) =
    Some (map item_pair (filter live (og_items ctx) @ filter live (drop (new_from ctx) (ng_items ctx))))"
proof (rule next_item_cases [of live "og_items ctx" 0])
  assume "next_item live (og_items ctx) 0 = None" "filter live (drop 0 (og_items ctx)) = []"
  then show ?thesis using enum_next_ng [OF assms, of 0 True] by (simp add: new_from_def)
next
  fix j assume j: "next_item live (og_items ctx) 0 = Some j"
    "filter live (drop 0 (og_items ctx)) = og_items ctx ! j # filter live (drop (Suc j) (og_items ctx))"
  then show ?thesis
    using enum_next_og [OF assms, of 0 True j] enum_old [OF assms, of j]
    by (subst enum_all.simps) (simp add: new_from_def)
qed

end
