(* ===== verification/Datconf.thy ===== *)
theory Datconf
  imports Kvc_Text Kvc_Enum
begin

text \<open>
  The datconf library (\<open>libdatconf.c\<close>) and the commands of its tool (\<open>datconf.c\<close>): values that are lists
  of fields, the profile table that names the configuration files, and getting, setting and deleting
  values in a file.  Printing is modelled by the text printed, on success only.
\<close>

section \<open>Strings\<close>

abbreviation (input) SEMI :: u8 where "SEMI \<equiv> 59"

definition cs :: "string \<Rightarrow> cstr" where
  "cs s = map of_char s"

text \<open>\<open>%u\<close>\<close>

fun udec :: "nat \<Rightarrow> cstr" where
  "udec n = (if n < 10 then [of_nat (48 + n)] else udec (n div 10) @ [of_nat (48 + n mod 10)])"

declare udec.simps [simp del]

definition digits_value :: "cstr \<Rightarrow> nat" where
  "digits_value ds = foldl (\<lambda>n c. 10 * n + (unat c - 48)) 0 ds"

definition dat_nostrip_list :: "cstr list" where
  "dat_nostrip_list = map cs [''SSID'', ''SSID1'', ''SSID2'', ''SSID3'', ''SSID4'', ''SSID5'', ''SSID6'',
     ''SSID7'', ''SSID8'', ''SSID9'', ''SSID10'', ''SSID11'', ''SSID12'', ''SSID13'', ''SSID14'', ''SSID15'',
     ''SSID16'', ''ApCliSsid'']"

definition LF_STRIP_WHITESPACE :: u32 where
  "LF_STRIP_WHITESPACE = LF_STRIP_KEY_WHITESPACE OR LF_STRIP_VALUE_WHITESPACE"

definition DATCONF_LF_FLAGS :: u32 where
  "DATCONF_LF_FLAGS = LF_FLOCK OR LF_KEY_CASE_SENSITIVE OR LF_STRIP_WHITESPACE"

section \<open>Fields of a value\<close>

text \<open>\<open>strchr (s, ';')\<close>\<close>

fun strsemi :: "cstr \<Rightarrow> nat option" where
  "strsemi [] = None"
| "strsemi (c # s) = (if c = SEMI then Some 0 else map_option Suc (strsemi s))"

lemma strsemi_less: "strsemi s = Some i \<Longrightarrow> i < length s"
  by (induction s arbitrary: i) (auto split: if_splits)

function get_field_loop :: "cstr \<Rightarrow> nat \<Rightarrow> nat \<Rightarrow> cstr option" where
  "get_field_loop ph n idx =
     (let pt = strsemi ph in
      if n = idx then Some (case pt of None \<Rightarrow> ph | Some i \<Rightarrow> take i ph)
      else case pt of None \<Rightarrow> None | Some i \<Rightarrow> get_field_loop (drop (i + 1) ph) (n + 1) idx)"
  by pat_completeness auto
termination
  by (relation "measure (\<lambda>(ph, _). length ph)") (auto dest!: strsemi_less [OF sym])

declare get_field_loop.simps [simp del]

text \<open>\<open>ok\<close> is the outcome of the allocation of the result.\<close>

definition dat_get_indexed_value :: "cstr \<Rightarrow> nat \<Rightarrow> bool \<Rightarrow> cstr option" where
  "dat_get_indexed_value str idx ok = (if ok then get_field_loop str 0 idx else None)"

text \<open>\<open>pos\<close> is \<open>ph - str\<close>.\<close>

function set_field_loop :: "cstr \<Rightarrow> nat \<Rightarrow> nat \<Rightarrow> nat \<Rightarrow> cstr \<Rightarrow> cstr" where
  "set_field_loop str pos n idx val =
     (let pt = strsemi (drop pos str) in
      if n = idx then
        (let lend = (case pt of None \<Rightarrow> length str - pos | Some i \<Rightarrow> i) in
         take pos str @ val @ drop (pos + lend) str)
      else case pt of
        None \<Rightarrow> str @ replicate (idx - n) SEMI @ val
      | Some i \<Rightarrow> set_field_loop str (pos + i + 1) (n + 1) idx val)"
  by pat_completeness auto
termination
  by (relation "measure (\<lambda>(str, pos, _). length str - pos)") (auto dest!: strsemi_less [OF sym])

declare set_field_loop.simps [simp del]

definition dat_set_indexed_value :: "cstr \<Rightarrow> nat \<Rightarrow> cstr option \<Rightarrow> bool \<Rightarrow> cstr option" where
  "dat_set_indexed_value str idx val ok =
     (if ok then Some (set_field_loop str 0 0 idx (case val of None \<Rightarrow> [] | Some v \<Rightarrow> v)) else None)"

section \<open>The profile table\<close>

definition profile_key :: "u32 \<Rightarrow> cstr" where
  "profile_key index = cs ''INDEX'' @ udec (unat index) @ cs ''_profile_path''"

text \<open>\<open>fe\<close> is what happens to the calls on the file \<open>L1PROFILE_PATH\<close>, and \<open>al\<close> the allocations.\<close>

definition get_dat_path_by_index :: "file_env \<Rightarrow> bool list \<Rightarrow> u32 \<Rightarrow> cstr option option" where
  "get_dat_path_by_index fe al index = do {
     c \<leftarrow> kvc_load fe LF_STRIP_WHITESPACE al;
     (case c of
        None \<Rightarrow> Some None
      | Some ctx \<Rightarrow> do {
          (path, c) \<leftarrow> kvc_get (Some ctx) (Some (profile_key index));
          ctx \<leftarrow> c;
          Some (case path of None \<Rightarrow> None | Some p \<Rightarrow> if fst (alloc ctx) then Some p else None)
        })
   }"

text \<open>The index that a key \<open>INDEX<digits>\<close> names, as \<open>strtoul\<close> and the assignment to 32 bits give it.\<close>

definition index_of_key :: "cstr \<Rightarrow> u32 option" where
  "index_of_key key =
     (if take 5 key \<noteq> cs ''INDEX'' then None
      else
        let digits = takeWhile isdigit (drop 5 key) in
        if digits = [] then None
        else if drop (5 + length digits) key \<noteq> [] then None
        else Some (of_nat (min (digits_value digits) (2 ^ 64 - 1))))"

partial_function (option) path_by_name_loop :: "kvc_context \<Rightarrow> kvc_enum_context option \<Rightarrow> cstr \<Rightarrow> cstr option option" where
  "path_by_name_loop ctx e name = do {
     (ret, item, e) \<leftarrow> kvc_enum_next ctx e;
     if ret \<noteq> 0 then Some None
     else do {
       (k, v) \<leftarrow> item;
       key \<leftarrow> k;
       (case index_of_key key of
          None \<Rightarrow> path_by_name_loop ctx e name
        | Some index \<Rightarrow> do {
            val \<leftarrow> v;
            if val \<noteq> name then path_by_name_loop ctx e name
            else do {
              (path, c) \<leftarrow> kvc_get (Some ctx) (Some (profile_key index));
              ctx \<leftarrow> c;
              (case path of
                 None \<Rightarrow> path_by_name_loop ctx e name
               | Some p \<Rightarrow> Some (if fst (alloc ctx) then Some p else None))
            }
          })
     }
   }"

declare path_by_name_loop.simps [code]

definition get_dat_path_by_name :: "file_env \<Rightarrow> bool list \<Rightarrow> cstr \<Rightarrow> cstr option option" where
  "get_dat_path_by_name fe al name = do {
     c \<leftarrow> kvc_load fe LF_STRIP_WHITESPACE al;
     (case c of
        None \<Rightarrow> Some None
      | Some ctx \<Rightarrow> do {
          let (e, c) = kvc_enum_init (Some ctx);
          ctx \<leftarrow> c;
          path_by_name_loop ctx e name
        })
   }"

definition is_path_key :: "cstr \<Rightarrow> bool" where
  "is_path_key key \<longleftrightarrow> take 5 key = cs ''INDEX'' \<and> takeWhile isdigit (drop 5 key) \<noteq> [] \<and>
     dropWhile isdigit (drop 5 key) = cs ''_profile_path''"

text \<open>The number of semicolons, counted in 32 bits.\<close>

definition semicolons :: "cstr \<Rightarrow> u32" where
  "semicolons s = of_nat (length (filter (\<lambda>c. c = SEMI) s))"

partial_function (option) path_by_ord_loop :: "kvc_context \<Rightarrow> kvc_enum_context option \<Rightarrow> u32 \<Rightarrow> u32 \<Rightarrow> cstr option option" where
  "path_by_ord_loop ctx e ord curidx = do {
     (ret, item, e) \<leftarrow> kvc_enum_next ctx e;
     if ret \<noteq> 0 then Some None
     else do {
       (k, v) \<leftarrow> item;
       key \<leftarrow> k;
       if \<not> is_path_key key then path_by_ord_loop ctx e ord curidx
       else do {
         val \<leftarrow> v;
         if strsemi val = None then
           (if curidx < ord then path_by_ord_loop ctx e ord (curidx + 1)
            else Some (if fst (alloc ctx) then Some val else None))
         else if semicolons val < ord - curidx then path_by_ord_loop ctx e ord (curidx + (semicolons val + 1))
         else Some (dat_get_indexed_value val (unat (ord - curidx)) (fst (alloc ctx)))
       }
     }
   }"

declare path_by_ord_loop.simps [code]

definition get_dat_path_by_ord :: "file_env \<Rightarrow> bool list \<Rightarrow> u32 \<Rightarrow> cstr option option" where
  "get_dat_path_by_ord fe al ord = do {
     c \<leftarrow> kvc_load fe LF_STRIP_WHITESPACE al;
     (case c of
        None \<Rightarrow> Some None
      | Some ctx \<Rightarrow> do {
          let (e, c) = kvc_enum_init (Some ctx);
          ctx \<leftarrow> c;
          path_by_ord_loop ctx e ord 0
        })
   }"

section \<open>Loading configuration files\<close>

text \<open>\<open>files\<close> gives what happens to the calls on the file of a path.\<close>

definition dat_load :: "file_env \<Rightarrow> bool list \<Rightarrow> kvc_context option option" where
  "dat_load fe al = kvc_load_opt fe DATCONF_LF_FLAGS (Some dat_nostrip_list) al"

definition dat_load_by_index :: "(cstr \<Rightarrow> file_env) \<Rightarrow> file_env \<Rightarrow> bool list \<Rightarrow> bool list \<Rightarrow> u32 \<Rightarrow> kvc_context option option" where
  "dat_load_by_index files fe al al2 index = do {
     path \<leftarrow> get_dat_path_by_index fe al index;
     (case path of None \<Rightarrow> Some None | Some p \<Rightarrow> dat_load (files p) al2)
   }"

definition dat_load_by_name :: "(cstr \<Rightarrow> file_env) \<Rightarrow> file_env \<Rightarrow> bool list \<Rightarrow> bool list \<Rightarrow> cstr \<Rightarrow> kvc_context option option" where
  "dat_load_by_name files fe al al2 name = do {
     path \<leftarrow> get_dat_path_by_name fe al name;
     (case path of None \<Rightarrow> Some None | Some p \<Rightarrow> dat_load (files p) al2)
   }"

definition dat_load_raw :: "u8 list \<Rightarrow> bool list \<Rightarrow> kvc_context option option" where
  "dat_load_raw str al = kvc_load_buf_opt str DATCONF_LF_FLAGS (Some dat_nostrip_list) al"

section \<open>Commands of the tool\<close>

definition do_list :: "kvc_context \<Rightarrow> (cstr option \<times> cstr option) list option" where
  "do_list ctx = do {
     let (e, c) = kvc_enum_init (Some ctx);
     ctx \<leftarrow> c;
     enum_all ctx e
   }"

definition do_count :: "kvc_context \<Rightarrow> nat option" where
  "do_count ctx = kvc_get_count (Some ctx)"

text \<open>Return value and what is printed.\<close>

definition do_get :: "kvc_context \<Rightarrow> cstr \<Rightarrow> int \<Rightarrow> (int \<times> cstr option) option" where
  "do_get ctx key findex = do {
     (val, c) \<leftarrow> kvc_get (Some ctx) (Some key);
     ctx \<leftarrow> c;
     Some (case val of
       None \<Rightarrow> (1, None)
     | Some val \<Rightarrow>
         (0, if findex < 0 then Some val else dat_get_indexed_value val (nat findex) (fst (alloc ctx))))
   }"

definition do_set :: "commit_env \<Rightarrow> kvc_context \<Rightarrow> cstr \<Rightarrow> int \<Rightarrow> cstr \<Rightarrow> (int \<times> kvc_context) option" where
  "do_set ce ctx key findex val = do {
     (newval, ctx) \<leftarrow>
       (if findex < 0 then Some (Some val, ctx)
        else do {
          (oldval, c) \<leftarrow> kvc_get (Some ctx) (Some key);
          ctx \<leftarrow> c;
          let (ok, ctx) = alloc ctx;
          Some (dat_set_indexed_value (case oldval of None \<Rightarrow> [] | Some v \<Rightarrow> v) (nat findex) (Some val) ok, ctx)
        });
     (case newval of
        None \<Rightarrow> Some (1, ctx)
      | Some newval \<Rightarrow> do {
          (ret, c) \<leftarrow> kvc_set (Some ctx) key newval;
          if ret \<noteq> 0 then do { ctx \<leftarrow> c; Some (1, ctx) }
          else do {
            (_, c) \<leftarrow> kvc_commit ce c;
            ctx \<leftarrow> c;
            Some (0, ctx)
          }
        })
   }"

definition do_unset :: "commit_env \<Rightarrow> kvc_context \<Rightarrow> cstr \<Rightarrow> kvc_context option" where
  "do_unset ce ctx key = do {
     (_, c) \<leftarrow> kvc_unset (Some ctx) (Some key);
     (_, c) \<leftarrow> kvc_commit ce c;
     c
   }"

definition BATCH_STDIN_BUF_INCREMENT :: nat where "BATCH_STDIN_BUF_INCREMENT = 1024"

text \<open>Reading standard input into a buffer that grows: \<open>ins\<close> are the results of the coming \<open>read\<close> calls
  (bytes or an error number), \<open>room\<close> is \<open>capacity - len\<close>.  A call returns at most \<open>room\<close> bytes and leaves
  the others for the next one; no bytes are the end of the input.\<close>

function read_stdin :: "(u8 list + int) list \<Rightarrow> bool list \<Rightarrow> nat \<Rightarrow> u8 list \<Rightarrow> int + u8 list" where
  "read_stdin ins al room buf =
     (let grow = (room = 0);
          ok = (grow \<longrightarrow> al = [] \<or> hd al);
          al = (if grow then tl al else al);
          room = (if grow then BATCH_STDIN_BUF_INCREMENT else room) in
      if \<not> ok then Inl 12
      else case ins of
        [] \<Rightarrow> Inr buf
      | Inr e # rest \<Rightarrow> Inl e
      | Inl bs # rest \<Rightarrow>
          if bs = [] then Inr buf
          else let k = min room (length bs) in
            read_stdin (if k < length bs then Inl (drop k bs) # rest else rest) al (room - k) (buf @ take k bs))"
  by pat_completeness auto
termination
  by (relation "measure (\<lambda>(ins, al, room, buf). sum_list (map (\<lambda>x. case x of Inl bs \<Rightarrow> Suc (length bs) | Inr _ \<Rightarrow> 0) ins))")
    (auto simp: BATCH_STDIN_BUF_INCREMENT_def split: if_splits)

declare read_stdin.simps [simp del]

partial_function (option) batch_loop :: "kvc_context \<Rightarrow> kvc_context \<Rightarrow> kvc_enum_context option \<Rightarrow> kvc_context option" where
  "batch_loop ctx ctx2 e = do {
     (ret, item, e) \<leftarrow> kvc_enum_next ctx2 e;
     if ret \<noteq> 0 then Some ctx
     else do {
       (k, v) \<leftarrow> item;
       key \<leftarrow> k;
       val \<leftarrow> v;
       (_, c) \<leftarrow> kvc_set (Some ctx) key val;
       ctx \<leftarrow> c;
       batch_loop ctx ctx2 e
     }
   }"

declare batch_loop.simps [code]

definition do_batch :: "commit_env \<Rightarrow> kvc_context \<Rightarrow> (u8 list + int) list \<Rightarrow> bool list \<Rightarrow> bool list \<Rightarrow> (int \<times> kvc_context) option" where
  "do_batch ce ctx ins al al2 =
     (case read_stdin ins al 0 [] of
        Inl e \<Rightarrow> Some (e, ctx)
      | Inr buf \<Rightarrow> do {
          c2 \<leftarrow> dat_load_raw buf al2;
          (case c2 of
             None \<Rightarrow> Some (12, ctx)
           | Some ctx2 \<Rightarrow> do {
               let (e, c2) = kvc_enum_init (Some ctx2);
               ctx2 \<leftarrow> c2;
               ctx \<leftarrow> batch_loop ctx ctx2 e;
               (_, c) \<leftarrow> kvc_commit ce (Some ctx);
               ctx \<leftarrow> c;
               Some (0, ctx)
             })
        })"

section \<open>Fields as lists\<close>

text \<open>The fields of a value and the value of a list of fields.\<close>

fun fields :: "cstr \<Rightarrow> cstr list" where
  "fields [] = [[]]"
| "fields (c # s) = (if c = SEMI then [] # fields s else (c # hd (fields s)) # tl (fields s))"

fun join_fields :: "cstr list \<Rightarrow> cstr" where
  "join_fields [] = []"
| "join_fields [f] = f"
| "join_fields (f # g # fs) = f @ SEMI # join_fields (g # fs)"

lemma fields_not_Nil [simp]: "fields s \<noteq> []"
  by (induction s) auto

lemma strsemi_None: "strsemi s = None \<Longrightarrow> fields s = [s]"
  by (induction s) (auto split: if_splits)

lemma strsemi_Some: "strsemi s = Some i \<Longrightarrow> fields s = take i s # fields (drop (Suc i) s)"
  by (induction s arbitrary: i) (auto split: if_splits)

lemma strsemi_at: "strsemi s = Some i \<Longrightarrow> s ! i = SEMI"
  by (induction s arbitrary: i) (auto split: if_splits)

lemma get_field_loop_spec:
  "n \<le> idx \<Longrightarrow> get_field_loop ph n idx = (if idx - n < length (fields ph) then Some (fields ph ! (idx - n)) else None)"
proof (induction ph n idx rule: get_field_loop.induct)
  case (1 ph n idx)
  show ?case
  proof (cases "strsemi ph")
    case None
    then show ?thesis using 1(2) by (subst get_field_loop.simps) (auto simp: strsemi_None)
  next
    case (Some i)
    note f = strsemi_Some [OF Some]
    show ?thesis
    proof (cases "n = idx")
      case True
      then show ?thesis using Some f by (subst get_field_loop.simps) simp
    next
      case False
      then have n: "n + 1 \<le> idx" using 1(2) by simp
      then have "idx - n = Suc (idx - (n + 1))" by simp
      then show ?thesis using False Some f 1(1) [OF refl False Some n]
        by (subst get_field_loop.simps) simp
    qed
  qed
qed

lemma join_Cons: "fs \<noteq> [] \<Longrightarrow> join_fields (f # fs) = f @ SEMI # join_fields fs"
  by (cases fs) simp_all

lemma join_fields_fields [simp]: "join_fields (fields s) = s"
proof (induction s)
  case (Cons c s)
  obtain f fs where fs: "fields s = f # fs" by (cases "fields s") auto
  then show ?case using Cons by (cases fs) (auto simp: join_Cons)
qed simp

lemma fields_append_semi: "fields (f @ SEMI # s) = (if SEMI \<in> set f then fields (f @ SEMI # s) else f # fields s)"
  by (induction f) auto

lemma fields_join:
  assumes "fs \<noteq> []" and "\<forall>f \<in> set fs. SEMI \<notin> set f"
  shows "fields (join_fields fs) = fs"
  using assms
proof (induction fs rule: join_fields.induct)
  case (2 f)
  then have "strsemi f = None" by (induction f) auto
  then show ?case by (simp add: strsemi_None)
next
  case (3 f g fs)
  then show ?case using fields_append_semi [of f] by simp
qed simp

lemma fields_no_semi: "f \<in> set (fields s) \<Longrightarrow> SEMI \<notin> set f"
proof (induction s arbitrary: f)
  case (Cons c s)
  then show ?case using hd_in_set [OF fields_not_Nil, of s] list.set_sel(2) [of "fields s"]
    by (auto split: if_splits)
qed simp

text \<open>Setting a field: fields that do not exist yet are added, empty.\<close>

definition set_nth :: "nat \<Rightarrow> cstr \<Rightarrow> cstr list \<Rightarrow> cstr list" where
  "set_nth i v fs = (if i < length fs then fs[i := v] else fs @ replicate (i - length fs) [] @ [v])"

lemma join_append: "fs \<noteq> [] \<Longrightarrow> gs \<noteq> [] \<Longrightarrow> join_fields (fs @ gs) = join_fields fs @ SEMI # join_fields gs"
  by (induction fs rule: join_fields.induct) (auto simp: join_Cons)

lemma join_padding: "join_fields (replicate k [] @ [v]) = replicate k SEMI @ v"
  by (induction k) (auto simp: join_Cons)

lemma set_field_loop_spec:
  assumes "n \<le> idx" and "pos \<le> length str"
  shows "set_field_loop str pos n idx val = take pos str @ join_fields (set_nth (idx - n) val (fields (drop pos str)))"
  using assms
proof (induction str pos n idx val rule: set_field_loop.induct)
  case (1 str pos n idx val)
  let ?ph = "drop pos str"
  show ?case
  proof (cases "strsemi ?ph")
    case None
    note f = strsemi_None [OF None]
    show ?thesis
    proof (cases "n = idx")
      case True
      then show ?thesis using None f 1(3) by (subst set_field_loop.simps) (simp add: set_nth_def)
    next
      case False
      then have k: "idx - n = Suc (idx - n - 1)" using 1(2) by simp
      have "join_fields (set_nth (idx - n) val [?ph]) = ?ph @ SEMI # replicate (idx - n - 1) SEMI @ val"
        using False 1(2) join_padding [of "idx - n - 1" val]
        by (simp add: set_nth_def join_append [of "[?ph]"] join_Cons)
      also have "\<dots> = ?ph @ replicate (idx - n) SEMI @ val" by (subst (2) k) simp
      finally have "join_fields (set_nth (idx - n) val [?ph]) = ?ph @ replicate (idx - n) SEMI @ val" .
      moreover have "take pos str @ ?ph @ x = str @ x" for x by (metis append.assoc append_take_drop_id)
      ultimately show ?thesis using None False f by (subst set_field_loop.simps) simp
    qed
  next
    case (Some i)
    note f = strsemi_Some [OF Some]
    have i: "pos + i < length str" using strsemi_less [OF Some] by simp
    have at: "?ph ! i = SEMI" "i < length ?ph" using strsemi_at [OF Some] strsemi_less [OF Some] by simp_all
    have d: "drop (Suc i) ?ph = drop (pos + i + 1) str" by (simp add: add.commute)
    have d0: "drop (pos + i) str = SEMI # drop (Suc i) ?ph"
    proof -
      have "drop (pos + i) str = drop i ?ph" by (simp add: add.commute)
      then show ?thesis by (simp only: Cons_nth_drop_Suc [OF at(2), symmetric] at(1))
    qed
    have t: "take (pos + i + 1) str = take pos str @ take i ?ph @ [SEMI]"
    proof -
      have "take (pos + i + 1) str = take pos str @ take (Suc i) ?ph" by (metis add.assoc Suc_eq_plus1 take_add)
      then show ?thesis by (simp only: take_Suc_conv_app_nth [OF at(2)] at(1))
    qed
    show ?thesis
    proof (cases "n = idx")
      case True
      have "set_nth 0 val (fields ?ph) = val # fields (drop (Suc i) ?ph)" by (simp add: set_nth_def f)
      then show ?thesis using True Some d0
        by (subst set_field_loop.simps) (simp add: join_Cons)
    next
      case False
      then have n: "n + 1 \<le> idx" "idx - n = Suc (idx - (n + 1))" using 1(2) by simp_all
      have p: "pos + i + 1 \<le> length str" using i by simp
      have "set_nth (idx - n) val (fields ?ph) = take i ?ph # set_nth (idx - (n + 1)) val (fields (drop (Suc i) ?ph))"
        by (simp add: f n(2) set_nth_def)
      moreover have "set_nth k val gs \<noteq> []" for k gs by (auto simp: set_nth_def)
      ultimately have "join_fields (set_nth (idx - n) val (fields ?ph)) =
          take i ?ph @ SEMI # join_fields (set_nth (idx - (n + 1)) val (fields (drop (Suc i) ?ph)))"
        by (simp add: join_Cons)
      then show ?thesis using False Some 1(1) [OF refl False Some n(1) p] t d
        by (subst set_field_loop.simps) simp
    qed
  qed
qed

lemma set_field_loop_chars: "set (set_field_loop str pos n idx val) \<subseteq> set str \<union> set val \<union> {SEMI}"
proof (induction str pos n idx val rule: set_field_loop.induct)
  case (1 str pos n idx val)
  show ?case
  proof (cases "strsemi (drop pos str) = None \<or> n = idx")
    case True
    then show ?thesis
      by (subst set_field_loop.simps) (auto simp: Let_def dest: in_set_takeD in_set_dropD split: option.splits)
  next
    case False
    then obtain i where "strsemi (drop pos str) = Some i" "n \<noteq> idx" by auto
    with 1 show ?thesis by (subst set_field_loop.simps) simp
  qed
qed

section \<open>Walking the profile table\<close>

lemma enum_all_Nil:
  assumes "enum_all ctx e = Some []"
  obtains ret item e' where "kvc_enum_next ctx e = Some (ret, item, e')" and "ret \<noteq> 0"
  using assms by (subst (asm) enum_all.simps) (auto simp: bind_eq_Some_conv split: if_splits)

lemma enum_all_Cons:
  assumes "enum_all ctx e = Some (it # its)"
  obtains e' where "kvc_enum_next ctx e = Some (0, Some it, e')" and "enum_all ctx e' = Some its"
  using assms by (subst (asm) enum_all.simps) (auto simp: bind_eq_Some_conv split: if_splits)

text \<open>The fields of all values whose keys are of the form \<open>INDEX<digits>_profile_path\<close>, in order.\<close>

definition path_fields :: "(cstr option \<times> cstr option) list \<Rightarrow> cstr list" where
  "path_fields items = concat (map (\<lambda>(k, v). if is_path_key (the k) then fields (the v) else []) items)"

lemma length_fields: "length (fields s) = Suc (length (filter (\<lambda>c. c = SEMI) s))"
  by (induction s) auto

lemma semicolons_length:
  assumes "length s < 2 ^ 32"
  shows "unat (semicolons s) = length (fields s) - 1"
proof -
  have "length (filter (\<lambda>c. c = SEMI) s) < 2 ^ 32" using assms by (meson length_filter_le order_le_less_trans)
  then show ?thesis by (simp add: semicolons_def length_fields unat_of_nat)
qed

lemma strsemi_None_iff: "strsemi s = None \<longleftrightarrow> length (fields s) = 1"
  by (induction s) auto

lemma path_by_ord_loop_spec:
  assumes "enum_all ctx e = Some items" and "\<forall>(k, v) \<in> set items. k \<noteq> None \<and> (\<exists>x. v = Some x \<and> length x < 2 ^ 32)"
    and "cur \<le> ord"
  shows "path_by_ord_loop ctx e ord cur = Some
    (if unat (ord - cur) < length (path_fields items) \<and> fst (alloc ctx) then Some (path_fields items ! unat (ord - cur)) else None)"
  using assms
proof (induction items arbitrary: e cur)
  case Nil
  obtain ret item e' where "kvc_enum_next ctx e = Some (ret, item, e')" "ret \<noteq> 0" by (rule enum_all_Nil [OF Nil(1)]) blast
  then show ?case by (subst path_by_ord_loop.simps) (simp add: path_fields_def)
next
  case (Cons it items)
  obtain e' where n: "kvc_enum_next ctx e = Some (0, Some it, e')" and r: "enum_all ctx e' = Some items"
    by (rule enum_all_Cons [OF Cons(2)]) blast
  obtain key val where it: "it = (Some key, Some val)" and len: "length val < 2 ^ 32" using Cons(3) by auto
  have ok: "\<forall>(k, v) \<in> set items. k \<noteq> None \<and> (\<exists>x. v = Some x \<and> length x < 2 ^ 32)" using Cons(3) by simp
  note IH = Cons.IH [OF r ok]
  let ?fs = "path_fields items" and ?m = "length (fields val)"
  have m: "unat (semicolons val) = ?m - 1" "0 < ?m" using semicolons_length [OF len] by simp_all
  have dist: "unat (ord - cur) = unat ord - unat cur" "unat cur \<le> unat ord"
    using Cons(4) by (simp_all add: unat_sub word_le_nat_alt)
  have u: "path_by_ord_loop ctx e ord cur =
      (if \<not> is_path_key key then path_by_ord_loop ctx e' ord cur
       else if strsemi val = None then
         (if cur < ord then path_by_ord_loop ctx e' ord (cur + 1)
          else Some (if fst (alloc ctx) then Some val else None))
       else if semicolons val < ord - cur then path_by_ord_loop ctx e' ord (cur + (semicolons val + 1))
       else Some (dat_get_indexed_value val (unat (ord - cur)) (fst (alloc ctx))))"
    by (subst path_by_ord_loop.simps) (simp add: n it)
  have step: "path_by_ord_loop ctx e' ord (cur + (semicolons val + 1)) = Some
      (if unat (ord - cur) < length (fields val @ ?fs) \<and> fst (alloc ctx) then Some ((fields val @ ?fs) ! unat (ord - cur)) else None)"
    if lt: "semicolons val < ord - cur"
  proof -
    have "?m - 1 < unat ord - unat cur" using lt m dist by (simp add: word_less_nat_alt)
    then have le: "unat cur + ?m \<le> unat ord" using m(2) by linarith
    then have b: "unat cur + ?m < 2 ^ 32" using unsigned_less [of ord, where ?'a = nat] by simp
    have c1: "unat (semicolons val + 1) = ?m"
      using m b by (subst unat_add_no_wrap) auto
    then have c: "unat (cur + (semicolons val + 1)) = unat cur + ?m"
      using b by (subst unat_add_no_wrap) auto
    then have cle: "cur + (semicolons val + 1) \<le> ord" using le by (simp add: word_le_nat_alt)
    then have d: "unat (ord - (cur + (semicolons val + 1))) = unat (ord - cur) - ?m"
      using c dist by (simp add: unat_sub)
    have "?m \<le> unat (ord - cur)" using le dist by linarith
    then show ?thesis using IH [OF cle] d by (auto simp: nth_append)
  qed
  show ?case
  proof (cases "is_path_key key")
    case False
    then show ?thesis using u IH [OF Cons(4)] it by (simp add: path_fields_def)
  next
    case True
    then have pf: "path_fields (it # items) = fields val @ ?fs" by (simp add: path_fields_def it)
    show ?thesis
    proof (cases "strsemi val = None")
      case none: True
      then have f: "fields val = [val]" "?m = 1" by (simp_all add: strsemi_None)
      then have s0: "semicolons val = 0" using m by (simp add: unat_eq_zero)
      show ?thesis
      proof (cases "cur < ord")
        case lt: True
        then have "semicolons val < ord - cur" using s0 dist by (simp add: word_less_nat_alt)
        from step [OF this] show ?thesis using u True none lt s0 pf by simp
      next
        case False
        then have "cur = ord" using Cons(4) by simp
        then show ?thesis using u True none pf f by simp
      qed
    next
      case some: False
      show ?thesis
      proof (cases "semicolons val < ord - cur")
        case True
        from step [OF this] show ?thesis using u \<open>is_path_key key\<close> some True pf by simp
      next
        case False
        then have "unat (ord - cur) \<le> ?m - 1" using m(1) by (simp add: word_less_nat_alt)
        with m(2) have "unat (ord - cur) < ?m" by linarith
        then show ?thesis using u True some False pf
          by (auto simp: dat_get_indexed_value_def get_field_loop_spec nth_append)
      qed
    qed
  qed
qed

section \<open>Loading from files\<close>

text \<open>The calls on the file succeed, and it holds no null byte.\<close>

definition file_ok :: "file_env \<Rightarrow> bool" where
  "file_ok fe \<longleftrightarrow> fe_open fe \<and> fe_flock fe \<and> fe_fstat fe \<and> fe_fdopen fe \<and> fe_read fe = length (fe_data fe) \<and>
     length (fe_data fe) < LONG_MAX \<and> 0 \<notin> set (fe_data fe)"

definition on_file :: "kvc_context \<Rightarrow> file_env \<Rightarrow> kvc_context" where
  "on_file r fe = r\<lparr>k_file := Some \<lparr>f_data = fe_data fe, f_writes = fe_writes fe\<rparr>\<rparr>"

lemma kvc_load_opt_text:
  assumes "file_ok fe"
  shows "\<exists>ctx. kvc_load_opt fe flags l [] = Some (Some ctx) \<and> allocs ctx = [] \<and>
    loaded (on_file (settings flags l) fe) (fe_data fe) ctx"
proof (rule load_start_spec [of flags l "[]"])
  fix al' assume s: "load_start flags l [] = Some ((settings flags l)\<lparr>allocs := al'\<rparr>)" and al: "[] = [] \<Longrightarrow> al' = []"
  let ?c = "on_file (settings flags l) fe"
  have e: "(settings flags l)\<lparr>allocs := al'\<rparr> = settings flags l" using al by (simp add: settings_def new_context_def)
  have "post (load_contents ?c (fe_data fe)) (\<lambda>c. (c = None \<longrightarrow> allocs ?c \<noteq> []) \<and>
      (\<forall>ctx'. c = Some ctx' \<longrightarrow> loaded ?c (fe_data fe) ctx' \<and> (allocs ?c = [] \<longrightarrow> allocs ctx' = [])))"
    using assms by (intro load_contents_text) (simp_all add: file_ok_def on_file_def settings_def new_context_def)
  moreover have "allocs ?c = []" by (simp add: on_file_def settings_def new_context_def)
  moreover have "kvc_load_opt fe flags l [] = load_contents ?c (fe_data fe)"
    using assms s e by (simp add: kvc_load_opt_def file_ok_def on_file_def settings_def new_context_def)
  ultimately show ?thesis by (auto simp: post_iff)
qed simp

lemma loaded_enum:
  assumes "loaded r s ctx"
  shows "enum_all ctx (Some \<lparr>e_first = True, e_ng = False, e_idx = 0\<rparr>) = Some (map item_pair (filter live (parsed r s)))"
  using assms enum_all_spec [of ctx] by (simp add: loaded_def)

lemma live_pair_values:
  assumes "kvc_ok ctx" and "it \<in> set (all_items ctx)" and "live it"
  shows "it_key it \<noteq> None" and "it_value it \<noteq> None"
proof -
  have "item_ok ctx it" using kvc_ok_all_items [OF assms(1)] assms(2) by blast
  then show "it_key it \<noteq> None" "it_value it \<noteq> None" using assms(3) by (auto simp: item_ok_def live_def)
qed

text \<open>The pairs of a profile table.\<close>

definition profile_pairs :: "u8 list \<Rightarrow> (cstr option \<times> cstr option) list" where
  "profile_pairs s = map item_pair (filter live (parsed (settings LF_STRIP_WHITESPACE None) s))"

lemma parsed_on_file [simp]: "parsed (on_file r fe) = parsed r"
proof -
  have "same_settings r (on_file r fe)" by (simp add: same_settings_def on_file_def)
  then show ?thesis by (intro ext) (simp add: parsed_def parse_line_cong on_file_def)
qed

lemma value_length:
  assumes "(l, e) \<in> set (text_lines d s)"
  shows "length l \<le> length s"
  using assms
proof (induction s rule: text_lines_induct [where d = d])
  case (line s l' e' n)
  note f = first_line_facts(4,5) [OF line(1,2)]
  have "length l' \<le> length s"
  proof (cases "n \<le> length s")
    case True
    then show ?thesis using f(1) by (metis length_append le_add1)
  qed (use f in simp)
  then show ?case using line text_lines_first [OF line(1,2)] by auto
qed simp

lemma parse_line_length:
  assumes "it_value (parse_line ctx l e) = Some v"
  shows "length v \<le> length l"
proof -
  have t: "length (ltrim x) \<le> length x" "length (rtrim_len x) \<le> length x" for x
    using length_dropWhile_le [of is_ws x] length_dropWhile_le [of is_ws "rev x"]
    by (simp_all add: ltrim_def rtrim_len_def)
  have d: "length (drop k (ltrim l)) \<le> length l" "length (drop k l) \<le> length l" for k using t(1) [of l] by simp_all
  have "length (rtrim_len (ltrim (drop k (ltrim l)))) \<le> length l" "length (rtrim_len (ltrim (drop k l))) \<le> length l" for k
    by (rule order_trans [OF t(2)], rule order_trans [OF t(1)], rule d)+
  with d show ?thesis using assms
    by (auto simp: parse_line_def blank_item_def Let_def simp del: length_drop split: if_splits)
qed

lemma profile_pairs_ok:
  assumes "length s < 2 ^ 32" and "loaded (on_file (settings LF_STRIP_WHITESPACE None) fe) s ctx"
  shows "\<forall>(k, v) \<in> set (profile_pairs s). k \<noteq> None \<and> (\<exists>x. v = Some x \<and> length x < 2 ^ 32)"
proof (intro ballI, clarify)
  let ?r = "settings LF_STRIP_WHITESPACE None"
  fix k v assume "(k, v) \<in> set (profile_pairs s)"
  then obtain it where it: "it \<in> set (parsed ?r s)" "live it" "k = it_key it" "v = it_value it"
    by (auto simp: profile_pairs_def item_pair_def)
  have a: "all_items ctx = parsed ?r s" "kvc_ok ctx" using assms(2) by (simp_all add: loaded_def all_items_def)
  note nn = live_pair_values [OF a(2), of it, unfolded a(1), OF it(1,2)]
  then obtain x where x: "v = Some x" using it(4) by auto
  obtain l e where le: "it = parse_line ?r l e" "(l, e) \<in> set (text_lines (k_eol ?r) s)"
    using it(1) by (auto simp: parsed_def)
  have "length x \<le> length s" using parse_line_length [of ?r l e x] value_length [OF le(2)] le(1) x it(4) by simp
  then show "k \<noteq> None \<and> (\<exists>x. v = Some x \<and> length x < 2 ^ 32)" using nn(1) it(3) x assms(1) by auto
qed

lemma get_dat_path_by_ord_spec:
  assumes "file_ok fe" and "length (fe_data fe) < 2 ^ 32"
  shows "get_dat_path_by_ord fe [] ord = Some
    (let paths = path_fields (profile_pairs (fe_data fe)) in
     if unat ord < length paths then Some (paths ! unat ord) else None)"
proof -
  obtain ctx where l: "kvc_load fe LF_STRIP_WHITESPACE [] = Some (Some ctx)" "allocs ctx = []"
    "loaded (on_file (settings LF_STRIP_WHITESPACE None) fe) (fe_data fe) ctx"
    using kvc_load_opt_text [OF assms(1)] by (auto simp: kvc_load_def)
  have e: "enum_all ctx (Some \<lparr>e_first = True, e_ng = False, e_idx = 0\<rparr>) = Some (profile_pairs (fe_data fe))"
    using loaded_enum [OF l(3)] by (simp add: profile_pairs_def)
  have "get_dat_path_by_ord fe [] ord = path_by_ord_loop ctx (Some \<lparr>e_first = True, e_ng = False, e_idx = 0\<rparr>) ord 0"
    using l(1,2) by (simp add: get_dat_path_by_ord_def kvc_enum_init_def)
  then show ?thesis
    using path_by_ord_loop_spec [OF e profile_pairs_ok [OF assms(2) l(3)], of 0 ord] l(2) by (simp add: Let_def)
qed

section \<open>Setting a value in a file\<close>

definition dat_settings :: kvc_context where
  "dat_settings = settings DATCONF_LF_FLAGS (Some dat_nostrip_list)"

lemma dat_flags [simp]:
  "has_flag dat_settings LF_KEY_CASE_SENSITIVE" "has_flag dat_settings LF_STRIP_KEY_WHITESPACE"
  "has_flag dat_settings LF_STRIP_VALUE_WHITESPACE" "\<not> has_flag dat_settings LF_PRESERVE_LINE_ENDING"
  "k_eol dat_settings = EOL_LF" "allocs dat_settings = []"
  by (simp_all add: dat_settings_def settings_def new_context_def has_flag_def DATCONF_LF_FLAGS_def LF_STRIP_WHITESPACE_def
      LF_FLOCK_def LF_KEY_CASE_SENSITIVE_def LF_STRIP_KEY_WHITESPACE_def LF_STRIP_VALUE_WHITESPACE_def LF_PRESERVE_LINE_ENDING_def)

lemma dat_load_text:
  assumes "file_ok fe"
  obtains ctx where "dat_load fe [] = Some (Some ctx)" and "allocs ctx = []"
    and "loaded (on_file dat_settings fe) (fe_data fe) ctx"
  using kvc_load_opt_text [OF assms, of DATCONF_LF_FLAGS "Some dat_nostrip_list"] that
  by (auto simp: dat_load_def dat_settings_def)

text \<open>A context of the tool that has been loaded from a file, and perhaps changed.\<close>

definition dat_context :: "kvc_context \<Rightarrow> bool" where
  "dat_context ctx \<longleftrightarrow> kvc_ok ctx \<and> clean ctx \<and> same_settings dat_settings ctx \<and> allocs ctx = [] \<and> k_eol ctx = EOL_LF"

lemma dat_context_loaded:
  assumes "loaded (on_file dat_settings fe) (fe_data fe) ctx" and "file_ok fe" and "allocs ctx = []"
  shows "dat_context ctx"
proof -
  have "clean ctx" by (rule loaded_clean [OF assms(1)]) (use assms(2) in \<open>simp_all add: file_ok_def on_file_def\<close>)
  then show ?thesis using assms by (simp add: dat_context_def loaded_def same_settings_def on_file_def)
qed

lemma dat_same_key: "dat_context ctx \<Longrightarrow> same_key ctx = (=)"
  using same_settings_cong(1,2) [of dat_settings ctx]
  by (auto simp: dat_context_def same_key_def fun_eq_iff)

definition commit_ok :: "commit_env \<Rightarrow> bool" where
  "commit_ok ce \<longleftrightarrow> 0 \<le> ce_fileno ce \<and> ce_fseek ce = 0 \<and> ce_ftruncate ce = 0"

text \<open>A file with the contents of a context loads to the same map.\<close>

lemma dat_reload:
  assumes "dat_context ctx" and "file_ok fe" and "fe_data fe = context_text ctx"
  obtains ctx2 where "dat_load fe [] = Some (Some ctx2)" and "lookup ctx2 = lookup ctx" and "dat_context ctx2"
proof -
  obtain ctx2 where l: "dat_load fe [] = Some (Some ctx2)" "allocs ctx2 = []" "loaded (on_file dat_settings fe) (fe_data fe) ctx2"
    by (rule dat_load_text [OF assms(2)])
  have s: "same_settings dat_settings ctx" using assms(1) by (simp add: dat_context_def)
  have "lookup ctx2 = lookup ctx"
  proof (rule reload_lookup [where r = "on_file dat_settings fe"])
    show "\<not> has_flag ctx LF_PRESERVE_LINE_ENDING" using same_settings_cong(1) [OF s] by simp
    show "same_settings ctx (on_file dat_settings fe)" using s by (simp add: same_settings_def on_file_def)
  qed (use assms l in \<open>auto simp: dat_context_def\<close>)
  then show thesis using that l(1) dat_context_loaded [OF l(3) assms(2) l(2)] by blast
qed

lemma dat_commit:
  assumes "dat_context ctx" and "k_file ctx = Some f" and "f_writes f = []" and "commit_ok ce"
  shows "\<exists>f'. kvc_commit ce (Some ctx) = Some (0, Some (ctx\<lparr>k_file := Some f'\<rparr>)) \<and> f_data f' = context_text ctx"
  using kvc_commit_spec [of ctx f ce] assms by (auto simp: dat_context_def commit_ok_def post_iff)

lemma k_file_same [simp]:
  "lookup (ctx\<lparr>k_file := f\<rparr>) = lookup ctx" "dat_context (ctx\<lparr>k_file := f\<rparr>) = dat_context ctx"
  "context_text (ctx\<lparr>k_file := f\<rparr>) = context_text ctx"
proof -
  have s: "same_settings ctx (ctx\<lparr>k_file := f\<rparr>)" by (simp add: same_settings_def)
  have i: "all_items (ctx\<lparr>k_file := f\<rparr>) = all_items ctx" by (simp add: all_items_def og_items_def ng_items_def)
  show "lookup (ctx\<lparr>k_file := f\<rparr>) = lookup ctx" by (simp add: lookup_def i lookup_in_cong [OF s])
  show "dat_context (ctx\<lparr>k_file := f\<rparr>) = dat_context ctx"
    by (simp add: dat_context_def kvc_ok_def clean_def i clean_cong [OF s] same_settings_cong(5) [OF s])
      (simp add: same_settings_def)
  have "printed (ctx\<lparr>k_file := f\<rparr>) = printed ctx" "item_end (ctx\<lparr>k_file := f\<rparr>) = item_end ctx"
    by (intro ext; simp add: printed_def skip_item_def item_end_def same_settings_cong(1) [OF s])+
  then show "context_text (ctx\<lparr>k_file := f\<rparr>) = context_text ctx" by (simp add: context_text_def items_text_def i)
qed

lemma dat_set_key:
  assumes "dat_context ctx" and "clean_key dat_settings key" and "key \<noteq> []" and "plain_text v"
  obtains ctx' where "kvc_set (Some ctx) key v = Some (0, Some ctx')" and "dat_context ctx'"
    and "k_file ctx' = k_file ctx" and "lookup ctx' = (lookup ctx)(key := Some (plain_norm dat_settings key v))"
proof -
  have c: "kvc_ok ctx" "clean ctx" "same_settings dat_settings ctx" "allocs ctx = []"
    using assms(1) by (simp_all add: dat_context_def)
  have k: "strip_key ctx key = key"
    using assms(2) settings_functions(1) [OF c(3)] by (simp add: clean_key_def)
  have ko: "key_ok ctx key" using assms(3) c(4) by (simp add: key_ok_def)
  have w: "stored_value ctx key = plain_norm dat_settings key"
    using plain_stored_value [OF c(1), of key] k settings_functions(2,3) [OF c(3)] by (simp add: plain_keys_def)
  obtain r ctx' where s: "kvc_set (Some ctx) key v = Some (r, Some ctx')"
    and p: "set_result ctx key (plain_norm dat_settings key v) r ctx'"
    using kvc_set_spec [OF c(1) ko, of v] unfolding k w by blast
  have "plain_text (plain_norm dat_settings key v)"
    unfolding plain_norm_def by (rule plain_text_sub [OF assms(4) set_trims(3)])
  then have "clean ctx'" using p c(2) assms(2) clean_cong(1) [OF c(3)] by (simp add: set_result_def)
  then have "dat_context ctx'"
    using p c assms(1) same_settings_trans by (auto simp: set_result_def dat_context_def)
  moreover have "lookup ctx' = (lookup ctx)(key := Some (plain_norm dat_settings key v))"
    using p c(4) dat_same_key [OF assms(1)] by (auto simp: set_result_def fun_eq_iff)
  ultimately show thesis using that s p c(4) by (auto simp: set_result_def)
qed

text \<open>The value that the command stores.\<close>

definition dat_new_value :: "kvc_context \<Rightarrow> cstr \<Rightarrow> int \<Rightarrow> cstr \<Rightarrow> cstr" where
  "dat_new_value ctx key findex val =
     (if findex < 0 then val
      else join_fields (set_nth (nat findex) val (fields (case lookup ctx key of None \<Rightarrow> [] | Some v \<Rightarrow> v))))"

lemma set_field_fields: "set_field_loop str 0 0 idx val = join_fields (set_nth idx val (fields str))"
  using set_field_loop_spec [of 0 idx 0 str val] by simp

lemma lookup_plain:
  assumes "clean ctx" and "lookup ctx key = Some v"
  shows "plain_text v"
proof -
  obtain it where f: "List.find (\<lambda>it. live it \<and> matches ctx key it) (all_items ctx) = Some it" and v: "it_value it = Some v"
    using assms(2) by (auto simp: lookup_def lookup_in_def bind_eq_Some_conv)
  have "it \<in> set (all_items ctx)" "live it"
    using f by (auto simp: find_Some_iff)
  then show ?thesis using assms(1) v by (auto simp: clean_def clean_item_def live_def)
qed

lemma dat_new_value_plain:
  assumes "clean ctx" and "plain_text val"
  shows "plain_text (dat_new_value ctx key findex val)"
proof (cases "findex < 0")
  case False
  let ?old = "case lookup ctx key of None \<Rightarrow> [] | Some v \<Rightarrow> v"
  have "plain_text ?old"
    using lookup_plain [OF assms(1), of key] by (cases "lookup ctx key") (simp_all add: plain_text_def)
  moreover have "dat_new_value ctx key findex val = set_field_loop ?old 0 0 (nat findex) val"
    using False by (simp add: dat_new_value_def set_field_fields)
  moreover have "\<not> is_eol SEMI" by (simp add: is_eol_def)
  ultimately show ?thesis
    using set_field_loop_chars [of ?old 0 0 "nat findex" val] assms(2) unfolding plain_text_def by fastforce
qed (simp add: dat_new_value_def assms(2))

text \<open>The whole command, and what the file holds for the next load.\<close>

lemma do_set_spec:
  assumes "dat_context ctx" and "k_file ctx = Some f" and "f_writes f = []" and "commit_ok ce"
    and "clean_key dat_settings key" and "key \<noteq> []" and "plain_text val"
  obtains ctx' f' where "do_set ce ctx key findex val = Some (0, ctx')" and "k_file ctx' = Some f'"
    and "f_data f' = context_text ctx'" and "dat_context ctx'"
    and "lookup ctx' = (lookup ctx)(key := Some (plain_norm dat_settings key (dat_new_value ctx key findex val)))"
proof -
  have c: "kvc_ok ctx" "clean ctx" "same_settings dat_settings ctx" "allocs ctx = []"
    using assms(1) by (simp_all add: dat_context_def)
  let ?w = "dat_new_value ctx key findex val"
  have k: "strip_key ctx key = key" using assms(5) settings_functions(1) [OF c(3)] by (simp add: clean_key_def)
  have "key_ok ctx key" using assms(6) c(4) by (simp add: key_ok_def)
  then have g: "kvc_get (Some ctx) (Some key) = Some (lookup ctx key, Some ctx)"
    using kvc_get_lookup [OF c(1), of key] c(4) k by (metis kvc_context.surjective kvc_context.update_convs(9))
  obtain ctx1 where s: "kvc_set (Some ctx) key ?w = Some (0, Some ctx1)" "dat_context ctx1" "k_file ctx1 = k_file ctx"
    "lookup ctx1 = (lookup ctx)(key := Some (plain_norm dat_settings key ?w))"
    by (rule dat_set_key [OF assms(1,5,6) dat_new_value_plain [OF c(2) assms(7)]])
  obtain f' where f': "kvc_commit ce (Some ctx1) = Some (0, Some (ctx1\<lparr>k_file := Some f'\<rparr>))" "f_data f' = context_text ctx1"
    using dat_commit [OF s(2) _ assms(3,4)] s(3) assms(2) by auto
  have "do_set ce ctx key findex val = Some (0, ctx1\<lparr>k_file := Some f'\<rparr>)"
    using g s(1) f'(1) c(4)
    by (auto simp: do_set_def dat_new_value_def dat_set_indexed_value_def set_field_fields split: if_splits)
  then show thesis using that [of "ctx1\<lparr>k_file := Some f'\<rparr>" f'] f'(2) s(2,4) by simp
qed

section \<open>Reading standard input\<close>

fun until_eof :: "(u8 list + int) list \<Rightarrow> int + u8 list" where
  "until_eof [] = Inr []"
| "until_eof (Inr e # _) = Inl e"
| "until_eof (Inl bs # rest) =
     (if bs = [] then Inr [] else case until_eof rest of Inl e \<Rightarrow> Inl e | Inr buf \<Rightarrow> Inr (bs @ buf))"

lemma until_eof_split:
  "k < length bs \<Longrightarrow> 0 < k \<Longrightarrow>
   until_eof (Inl bs # rest) = (case until_eof (Inl (drop k bs) # rest) of Inl e \<Rightarrow> Inl e | Inr buf \<Rightarrow> Inr (take k bs @ buf))"
  by (auto split: sum.split)

lemma read_stdin_spec:
  "read_stdin ins [] room buf = (case until_eof ins of Inl e \<Rightarrow> Inl e | Inr s \<Rightarrow> Inr (buf @ s))"
proof (induction "sum_list (map (\<lambda>x. case x of Inl bs \<Rightarrow> Suc (length bs) | Inr _ \<Rightarrow> 0) ins)" arbitrary: ins room buf rule: less_induct)
  case less
  let ?room = "if room = 0 then 1024 else room"
  show ?case
  proof (cases ins)
    case Nil
    then show ?thesis by (subst read_stdin.simps) simp
  next
    case (Cons x rest)
    show ?thesis
    proof (cases x)
      case (Inr e)
      then show ?thesis using Cons by (subst read_stdin.simps) simp
    next
      case (Inl bs)
      show ?thesis
      proof (cases "bs = []")
        case True
        then show ?thesis using Cons Inl by (subst read_stdin.simps) simp
      next
        case False
        let ?k = "min ?room (length bs)" and ?ins = "if min (if room = 0 then 1024 else room) (length bs) < length bs
          then Inl (drop (min (if room = 0 then 1024 else room) (length bs)) bs) # rest else rest"
        have k: "0 < ?k" using False by simp
        have u: "read_stdin ins [] room buf = read_stdin ?ins [] (?room - ?k) (buf @ take ?k bs)"
          using Cons Inl False by (subst read_stdin.simps) (simp add: Let_def BATCH_STDIN_BUF_INCREMENT_def)
        have "read_stdin ?ins [] (?room - ?k) (buf @ take ?k bs) =
            (case until_eof ?ins of Inl e \<Rightarrow> Inl e | Inr s \<Rightarrow> Inr ((buf @ take ?k bs) @ s))"
          by (rule less) (use Cons Inl False k in auto)
        also have "\<dots> = (case until_eof ins of Inl e \<Rightarrow> Inl e | Inr s \<Rightarrow> Inr (buf @ s))"
        proof (cases "?k < length bs")
          case True
          then show ?thesis unfolding Cons Inl using until_eof_split [OF True k, of rest]
            by (simp only: if_True) (auto split: sum.split)
        next
          case False
          then have "?k = length bs" by simp
          then show ?thesis unfolding Cons Inl using \<open>bs \<noteq> []\<close> by (auto split: sum.split)
        qed
        finally show ?thesis using u by simp
      qed
    qed
  qed
qed

end
