(* ===== verification/Kvc_Properties.thy ===== *)
theory Kvc_Properties
  imports Datconf
begin

text \<open>
  The properties of the key-value library and of datconf, each with an instance on a small file.
\<close>

section \<open>Small texts\<close>

lemma matches_code [code]:
  "matches ctx key it = (\<not> it_invalid it \<and> (case it_key it of None \<Rightarrow> False | Some k \<Rightarrow> same_key ctx key k))"
  by (simp add: matches_def split: option.split)

definition two_lines :: "u8 list" where
  "two_lines = cs ''a=1'' @ [LF] @ cs ''b=2'' @ [LF]"

definition two_pairs :: kvc_context where
  "two_pairs = (settings 0 None)\<lparr>k_data := two_lines @ [0], k_size := 8,
     k_og := \<lparr>g_items = parsed (settings 0 None) two_lines @ [blank_item], g_used = 2\<rparr>\<rparr>"

lemma load_two_lines: "kvc_load_buf two_lines 0 [] = Some (Some two_pairs)"
  by code_simp

lemma two_pairs_ok [simp]: "kvc_ok two_pairs" "distinct_keys two_pairs" "allocs two_pairs = []"
  "plain_keys two_pairs" "key_ok two_pairs k" "strip_key two_pairs = (\<lambda>k. k)"
proof -
  have "0 \<notin> set two_lines" by code_simp
  from kvc_load_buf_text [OF this, of 0 None "[]"]
  have l: "loaded (settings 0 None) two_lines two_pairs" using load_two_lines by (simp add: kvc_load_buf_def)
  then show "kvc_ok two_pairs" by (simp add: loaded_def)
  have f: "\<not> has_flag two_pairs f" for f by (simp add: two_pairs_def settings_def new_context_def has_flag_def)
  show "allocs two_pairs = []" by (simp add: two_pairs_def settings_def new_context_def)
  show "plain_keys two_pairs" by (simp add: plain_keys_def two_pairs_def settings_def new_context_def)
  show "key_ok two_pairs k" "strip_key two_pairs = (\<lambda>k. k)" by (simp_all add: key_ok_def strip_key_def f fun_eq_iff)
  have n: "length (all_items two_pairs) = 2" by code_simp
  have k: "map it_key (all_items two_pairs) = [Some (cs ''a''), Some (cs ''b'')]" by code_simp
  have "it_key (all_items two_pairs ! 0) = Some (cs ''a'')" "it_key (all_items two_pairs ! 1) = Some (cs ''b'')"
    using arg_cong [OF k, of "\<lambda>l. l ! 0"] arg_cong [OF k, of "\<lambda>l. l ! 1"] n by simp_all
  moreover have "map to_lower (cs ''a'') \<noteq> map to_lower (cs ''b'')" by code_simp
  ultimately show "distinct_keys two_pairs"
    unfolding distinct_keys_def n by (auto simp: less_2_cases_iff matches_def same_key_def f)
qed

section \<open>Looking up what was set\<close>

text \<open>\<open>gets c k v\<close>: \<open>kvc_get\<close> of \<open>k\<close> returns \<open>v\<close>.\<close>

definition gets :: "kvc_context option \<Rightarrow> cstr \<Rightarrow> cstr option \<Rightarrow> bool" where
  "gets c k v \<longleftrightarrow> (\<exists>c'. kvc_get c (Some k) = Some (v, c'))"

lemma gets_lookup: "kvc_ok ctx \<Longrightarrow> key_ok ctx k \<Longrightarrow> gets (Some ctx) k (lookup ctx (strip_key ctx k))"
  using kvc_get_lookup [of ctx k] unfolding gets_def by metis



text \<open>Deleting a key of a well-formed context whose keys are distinct succeeds; the key then has no
  value, every other key keeps its own, and keys stay distinct.\<close>

theorem kvc_unset_then_get:
  assumes "kvc_ok ctx" and "key_ok ctx key" and "distinct_keys ctx"
  shows "post (kvc_unset (Some ctx) (Some key)) (\<lambda>(ret, c). ret = 0 \<and> (\<exists>ctx'. c = Some ctx' \<and> kvc_ok ctx' \<and> distinct_keys ctx' \<and>
    (\<forall>k. key_ok ctx' k \<longrightarrow>
       gets c k (if same_key ctx (strip_key ctx k) (strip_key ctx key) then None else lookup ctx (strip_key ctx k)))))"
proof -
  obtain ctx' where s: "kvc_unset (Some ctx) (Some key) = Some (0, Some ctx')" and p: "unset_result ctx (strip_key ctx key) ctx'"
    using kvc_unset_spec [OF assms] by blast
  have sk: "strip_key ctx' = strip_key ctx" using p strip_key_cong by (auto simp: unset_result_def)
  have ok: "kvc_ok ctx'" using p by (simp add: unset_result_def)
  have g: "gets (Some ctx') k (if same_key ctx (strip_key ctx k) (strip_key ctx key) then None else lookup ctx (strip_key ctx k))"
    if "key_ok ctx' k" for k
    using gets_lookup [OF ok that] p by (simp add: unset_result_def sk)
  show ?thesis
    by (rule post_pairI [OF s], intro exI [of _ ctx'] conjI allI impI refl)
      (use p g in \<open>simp_all add: unset_result_def\<close>)
qed

lemma kvc_unset_then_get_sample:
  "\<exists>ctx'. kvc_unset (Some two_pairs) (Some (cs ''a'')) = Some (0, Some ctx') \<and>
    gets (Some ctx') (cs ''a'') None \<and> gets (Some ctx') (cs ''b'') (Some (cs ''2''))"
proof -
  obtain ctx' where s: "kvc_unset (Some two_pairs) (Some (cs ''a'')) = Some (0, Some ctx')"
    and g: "\<forall>k. key_ok ctx' k \<longrightarrow>
       gets (Some ctx') k (if same_key two_pairs (strip_key two_pairs k) (strip_key two_pairs (cs ''a''))
         then None else lookup two_pairs (strip_key two_pairs k))"
    by (rule post_pairE [OF kvc_unset_then_get [OF two_pairs_ok(1) two_pairs_ok(5) two_pairs_ok(2), of "cs ''a''"]]) blast
  have e: "lookup two_pairs (cs ''b'') = Some (cs ''2'')"
    "same_key two_pairs (cs ''a'') (cs ''a'') \<and> \<not> same_key two_pairs (cs ''b'') (cs ''a'')" by code_simp+
  have "map_option (\<lambda>(_, c). map_option k_flags c) (kvc_unset (Some two_pairs) (Some (cs ''a''))) = Some (Some 0)" by code_simp
  with s have "k_flags ctx' = 0" by simp
  then have "key_ok ctx' k" for k by (simp add: key_ok_def has_flag_def)
  with g [rule_format, of "cs ''a''"] g [rule_format, of "cs ''b''"] s e show ?thesis by simp
qed

section \<open>Counting, listing and enumerating\<close>

text \<open>The count of a well-formed context is the number of its pairs that are neither deleted nor
  invalid, and \<open>kvc_get_all\<close> fills an array of exactly that many entries with them, in order.\<close>

theorem kvc_get_all_complete:
  assumes "kvc_ok ctx" and "allocs ctx = []"
  shows "kvc_get_count (Some ctx) = Some (length (live_pairs ctx)) \<and>
    kvc_get_all (Some ctx) = Some (length (live_pairs ctx), if live_pairs ctx = [] then None else Some (live_pairs ctx), Some ctx)"
  using kvc_get_count_spec [OF assms(1)] kvc_get_all_spec [OF assms(1)] assms(2) by simp_all

lemma kvc_get_all_sample:
  "kvc_get_all (Some two_pairs) = Some (2, Some [(Some (cs ''a''), Some (cs ''1'')), (Some (cs ''b''), Some (cs ''2''))], Some two_pairs)"
proof -
  have "live_pairs two_pairs = [(Some (cs ''a''), Some (cs ''1'')), (Some (cs ''b''), Some (cs ''2''))]" by code_simp
  then show ?thesis using kvc_get_all_complete [OF two_pairs_ok(1,3)] by simp
qed

text \<open>Enumerating a well-formed context to the end shows the pairs of the file that are neither deleted
  nor invalid, in order, and then new pairs, but only those whose index among the new pairs is larger than the
  index of the last pair shown from the file: the others are never shown.\<close>

theorem enumeration_shows:
  assumes "kvc_ok ctx" and "allocs ctx = []"
  shows "do_list ctx = Some (map item_pair (filter live (og_items ctx) @ filter live (drop (new_from ctx) (ng_items ctx))))"
  using enum_all_spec [OF assms(1)] assms(2) by (simp add: do_list_def kvc_enum_init_def)

lemma enumeration_misses_new_key:
  "\<exists>ctx. kvc_set (Some two_pairs) (cs ''c'') (cs ''3'') = Some (0, Some ctx) \<and> kvc_get_count (Some ctx) = Some 3 \<and>
    do_list ctx = Some [(Some (cs ''a''), Some (cs ''1'')), (Some (cs ''b''), Some (cs ''2''))]"
proof -
  obtain r ctx where s: "kvc_set (Some two_pairs) (cs ''c'') (cs ''3'') = Some (r, Some ctx)"
    and p: "set_result two_pairs (cs ''c'') (stored_value two_pairs (cs ''c'') (cs ''3'')) r ctx"
    using kvc_set_spec [OF two_pairs_ok(1,5), of "cs ''c''" "cs ''3''"] by auto
  then have ok: "kvc_ok ctx" "allocs ctx = []" "r = 0" by (simp_all add: set_result_def)
  have "(do { (r, c) \<leftarrow> kvc_set (Some two_pairs) (cs ''c'') (cs ''3''); ctx \<leftarrow> c; Some (length (live_pairs ctx), map item_pair (filter live (og_items ctx)),
      map item_pair (filter live (drop (new_from ctx) (ng_items ctx)))) }) =
      Some (3, [(Some (cs ''a''), Some (cs ''1'')), (Some (cs ''b''), Some (cs ''2''))], [])" by code_simp
  then show ?thesis using s ok enumeration_shows [OF ok(1,2)] kvc_get_count_spec [OF ok(1)] by simp
qed

section \<open>Setting many keys\<close>

text \<open>C16: Setting a list of pairs in a well-formed context, when no allocation fails, no key is empty and
  keys that differ only in case are not told apart by the exception list, leaves the map that results from
  setting them one after the other; entries without a key are skipped, and a missing value is the empty
  string.\<close>

theorem kvc_set_batch_sets_all:
  assumes "kvc_ok ctx" and "allocs ctx = []" and "plain_keys ctx" and "num \<noteq> 0" and "num \<le> length items"
    and "\<forall>(k, v) \<in> set (batch_pairs (take num items)). nonempty_key ctx k"
  shows "post (kvc_set_batch (Some ctx) (Some items) num) (\<lambda>(ret, c). ret = 0 \<and> (\<exists>ctx'. c = Some ctx' \<and> kvc_ok ctx' \<and>
    lookup ctx' = fold (\<lambda>(k, v) m k'. if same_key ctx k' (strip_key ctx k) then Some (plain_norm ctx k v) else m k')
      (batch_pairs (take num items)) (lookup ctx)))"
  by (rule kvc_set_batch_spec [OF assms])

lemma kvc_set_batch_sample:
  "\<exists>ctx'. kvc_set_batch (Some two_pairs) (Some [(Some (cs ''a''), Some (cs ''5'')), (None, None), (Some (cs ''d''), None)]) 3 = Some (0, Some ctx') \<and>
    lookup ctx' (cs ''a'') = Some (cs ''5'') \<and> lookup ctx' (cs ''b'') = Some (cs ''2'') \<and> lookup ctx' (cs ''d'') = Some []"
proof -
  let ?items = "[(Some (cs ''a''), Some (cs ''5'')), (None, None), (Some (cs ''d''), None)]"
  let ?m = "fold (\<lambda>(k, v) m k'. if same_key two_pairs k' (strip_key two_pairs k) then Some (plain_norm two_pairs k v) else m k')
      (batch_pairs (take 3 ?items)) (lookup two_pairs)"
  have "\<forall>(k, v) \<in> set (batch_pairs (take 3 ?items)). nonempty_key two_pairs k"
    by (simp add: batch_pairs_def nonempty_key_def two_pairs_def settings_def new_context_def has_flag_def)
  then have "post (kvc_set_batch (Some two_pairs) (Some ?items) 3) (\<lambda>(ret, c). ret = 0 \<and> (\<exists>ctx'. c = Some ctx' \<and> kvc_ok ctx' \<and> lookup ctx' = ?m))"
    by (intro kvc_set_batch_sets_all two_pairs_ok) simp_all
  moreover have "?m (cs ''a'') = Some (cs ''5'')" "?m (cs ''b'') = Some (cs ''2'')" "?m (cs ''d'') = Some []" by code_simp+
  ultimately show ?thesis by (auto simp: post_iff)
qed

section \<open>Loading\<close>

text \<open>C17: Loading a text without null bytes from memory never touches memory outside the buffer and the
  array of items.  It fails only when an allocation fails; otherwise the context is well formed and holds one
  item for each line, in order, made of the line as \<open>parse_line\<close> says.\<close>

theorem kvc_load_buf_lines:
  assumes "0 \<notin> set s"
  shows "post (kvc_load_buf_opt s flags l al) (\<lambda>c. case c of
      None \<Rightarrow> al \<noteq> []
    | Some ctx \<Rightarrow> kvc_ok ctx \<and> ng_items ctx = [] \<and>
        og_items ctx = map (\<lambda>(line, eol). parse_line (settings flags l) line eol) (text_lines EOL_LF s))"
  by (rule post_mono [OF kvc_load_buf_text [OF assms]])
    (auto simp: loaded_def parsed_def settings_def new_context_def split: option.split)

lemma kvc_load_buf_sample:
  "\<exists>ctx. kvc_load_buf_opt (cs ''a=1'' @ [CR, LF] @ cs ''# x'') 0 None [] = Some (Some ctx) \<and>
    map it_key (og_items ctx) = [Some (cs ''a''), Some (cs ''# x'')] \<and> map it_eol (og_items ctx) = [EOL_CRLF, EOL_LF]"
proof -
  let ?s = "cs ''a=1'' @ [CR, LF] @ cs ''# x''"
  have z: "0 \<notin> set ?s" by code_simp
  have "map (\<lambda>(line, eol). it_key (parse_line (settings 0 None) line eol)) (text_lines EOL_LF ?s) = [Some (cs ''a''), Some (cs ''# x'')]"
    "map (\<lambda>(line, eol). it_eol (parse_line (settings 0 None) line eol)) (text_lines EOL_LF ?s) = [EOL_CRLF, EOL_LF]" by code_simp+
  then show ?thesis using kvc_load_buf_lines [OF z, of 0 None "[]"]
    by (auto simp: post_iff o_def case_prod_unfold split: option.splits)
qed

text \<open>A null byte in the text breaks the bound: the lines are counted up to the null byte only, but items
  are stored for the lines behind it too, so loading the three bytes \<open>a\<close>, null, \<open>b\<close> writes beyond the array
  of items.\<close>

theorem kvc_load_null_byte: "kvc_load_buf [97, 0, 98] flags [] = None"
proof -
  have "parse_line c [97] e = blank_item\<lparr>it_key := Some [97], it_invalid := True, it_eol := e\<rparr>" for c e
    by (simp add: parse_line_def ltrim_def is_ws_def)
  note p = this
  have "split_line [97, 0, 98, 0] 0 (Suc (Suc (Suc (Suc 0)))) = Some ([97], 0, 2)"
    "split_line [98, 0] 0 (Suc (Suc 0)) = Some ([98], 0, 2)" "count_lines [97, 0, 98, 0] (Suc 0) = Some (Suc 0)"
    by code_simp+
  then show ?thesis
    by (simp add: kvc_load_buf_def kvc_load_buf_opt_def load_start_def dup_nostrip_list_def new_context_def alloc_def
        load_contents_def kvc_parse_content_def parse_lines.simps arr_set_def p)
qed

section \<open>Writing back\<close>

text \<open>C18: A commit whose calls on the file succeed writes exactly the text of the context and returns zero,
  or it returns a negative error number that \<open>fwrite\<close> gave, and then the file holds a beginning of that text:
  the old contents are lost.\<close>

theorem kvc_commit_all_or_error:
  assumes "kvc_ok ctx" and "k_file ctx = Some f" and "commit_ok ce" and "\<forall>(n, e) \<in> set (f_writes f). e \<noteq> 0"
  shows "post (kvc_commit ce (Some ctx)) (\<lambda>(ret, c). \<exists>f'. c = Some (ctx\<lparr>k_file := Some f'\<rparr>) \<and>
    (f_writes f = [] \<longrightarrow> ret = 0) \<and>
    (if ret = 0 then f_data f' = context_text ctx
     else (\<exists>n. f_data f' = take n (context_text ctx)) \<and> - ret \<in> snd ` set (f_writes f)))"
  using kvc_commit_spec [OF assms(1,2) _ _ _ assms(4)] assms(3) by (simp add: commit_ok_def)

definition good_calls :: commit_env where
  "good_calls = \<lparr>ce_fileno = 3, ce_errno = 0, ce_fseek = 0, ce_ferror = 0, ce_ftruncate = 0\<rparr>"

lemma good_calls_ok [simp]: "commit_ok good_calls"
  by (simp add: commit_ok_def good_calls_def)

lemma kvc_ok_file [simp]: "kvc_ok (ctx\<lparr>k_file := f\<rparr>) = kvc_ok ctx"
proof -
  have "same_settings ctx (ctx\<lparr>k_file := f\<rparr>)" by (simp add: same_settings_def)
  then show ?thesis by (simp add: kvc_ok_def same_settings_cong(5))
qed

lemma kvc_commit_sample:
  "\<exists>f'. kvc_commit good_calls (Some (two_pairs\<lparr>k_file := Some \<lparr>f_data = two_lines, f_writes = [(1, 28), (0, 28)]\<rparr>\<rparr>)) =
      Some (- 28, Some (two_pairs\<lparr>k_file := Some f'\<rparr>)) \<and> f_data f' = cs ''a'' \<and> (\<exists>n. f_data f' = take n two_lines)"
proof -
  let ?f = "\<lparr>f_data = two_lines, f_writes = [(1, 28), (0, 28)]\<rparr>"
  let ?ctx = "two_pairs\<lparr>k_file := Some ?f\<rparr>"
  have t: "context_text ?ctx = two_lines" by code_simp
  have "map_option (\<lambda>(r, c). (r, map_option (\<lambda>c. map_option f_data (k_file c)) c)) (kvc_commit good_calls (Some ?ctx)) =
      Some (- 28, Some (Some (cs ''a'')))" by code_simp
  moreover have "post (kvc_commit good_calls (Some ?ctx)) (\<lambda>(ret, c). \<exists>f'. c = Some (?ctx\<lparr>k_file := Some f'\<rparr>) \<and>
      (f_writes ?f = [] \<longrightarrow> ret = 0) \<and> (if ret = 0 then f_data f' = context_text ?ctx
       else (\<exists>n. f_data f' = take n (context_text ?ctx)) \<and> - ret \<in> snd ` set (f_writes ?f)))"
    by (rule kvc_commit_all_or_error) simp_all
  ultimately show ?thesis unfolding t by (auto simp: post_iff)
qed

text \<open>C19: Loading a file and committing it unchanged reproduces it byte for byte, with its mixture of line
  endings, its comments and its malformed lines, when line endings are preserved and nothing is stripped; a
  last line without an ending gets the default one.\<close>

theorem kvc_load_commit_lossless:
  assumes "file_ok fe" and "fe_writes fe = []" and "commit_ok ce"
    and "flags AND LF_PRESERVE_LINE_ENDING \<noteq> 0" and "flags AND LF_STRIP_KEY_WHITESPACE = 0"
    and "flags AND LF_STRIP_VALUE_WHITESPACE = 0" and "flags AND LF_STRIP_COMMENTS = 0" and "flags AND LF_STRIP_INVALID = 0"
  shows "\<exists>ctx f'. kvc_load fe flags [] = Some (Some ctx) \<and>
    kvc_commit ce (Some ctx) = Some (0, Some (ctx\<lparr>k_file := Some f'\<rparr>)) \<and>
    f_data f' = fe_data fe @ (if fe_data fe = [] \<or> is_eol (last (fe_data fe)) then [] else [LF])"
proof -
  let ?r = "on_file (settings flags None) fe"
  obtain ctx where l: "kvc_load fe flags [] = Some (Some ctx)" "loaded ?r (fe_data fe) ctx"
    using kvc_load_opt_text [OF assms(1), of flags None] by (auto simp: kvc_load_def)
  have f: "has_flag ?r f = (flags AND f \<noteq> 0)" for f by (simp add: has_flag_def on_file_def settings_def new_context_def)
  have t: "context_text ctx = fe_data fe @ (if fe_data fe = [] \<or> is_eol (last (fe_data fe)) then [] else [LF])"
    using loaded_text [OF l(2)] assms(4-8) by (simp add: f) (simp add: on_file_def settings_def new_context_def eol_str_def)
  have k: "kvc_ok ctx" "k_file ctx = Some \<lparr>f_data = fe_data fe, f_writes = []\<rparr>"
    using l(2) assms(2) by (simp_all add: loaded_def on_file_def)
  show ?thesis using kvc_commit_spec [OF k, of ce] assms(3) l(1) t by (auto simp: commit_ok_def post_iff)
qed

definition good_file :: "u8 list \<Rightarrow> file_env" where
  "good_file s = \<lparr>fe_open = True, fe_flock = True, fe_fstat = True, fe_fdopen = True, fe_data = s, fe_read = length s, fe_writes = []\<rparr>"

lemma good_file_ok [simp]: "file_ok (good_file s) \<longleftrightarrow> length s < LONG_MAX \<and> 0 \<notin> set s" "fe_writes (good_file s) = []"
  "fe_data (good_file s) = s"
  by (auto simp: file_ok_def good_file_def)

lemma kvc_lossless_sample:
  "\<exists>ctx f'. kvc_load (good_file (cs ''# x'' @ [CR, LF] @ cs '' a = 1'' @ [CR] @ cs ''junk'')) LF_PRESERVE_LINE_ENDING [] = Some (Some ctx) \<and>
    kvc_commit good_calls (Some ctx) = Some (0, Some (ctx\<lparr>k_file := Some f'\<rparr>)) \<and>
    f_data f' = cs ''# x'' @ [CR, LF] @ cs '' a = 1'' @ [CR] @ cs ''junk'' @ [LF]"
proof -
  let ?s = "cs ''# x'' @ [CR, LF] @ cs '' a = 1'' @ [CR] @ cs ''junk''"
  have s: "0 \<notin> set ?s" "?s \<noteq> []" "\<not> is_eol (last ?s)" by code_simp+
  have n: "length ?s < LONG_MAX" by (simp add: LONG_MAX_def cs_def)
  have "\<exists>ctx f'. kvc_load (good_file ?s) LF_PRESERVE_LINE_ENDING [] = Some (Some ctx) \<and>
    kvc_commit good_calls (Some ctx) = Some (0, Some (ctx\<lparr>k_file := Some f'\<rparr>)) \<and>
    f_data f' = fe_data (good_file ?s) @ (if fe_data (good_file ?s) = [] \<or> is_eol (last (fe_data (good_file ?s))) then [] else [LF])"
    by (rule kvc_load_commit_lossless) (use s n in \<open>simp_all add: LF_PRESERVE_LINE_ENDING_def LF_STRIP_KEY_WHITESPACE_def
        LF_STRIP_VALUE_WHITESPACE_def LF_STRIP_COMMENTS_def LF_STRIP_INVALID_def\<close>)
  then show ?thesis using s(2,3) by simp
qed

text \<open>Overwriting a deleted key when memory runs out returns an error but brings the old value back.\<close>

theorem failed_set_resurrects:
  "(do { (_, c) \<leftarrow> kvc_unset (Some two_pairs) (Some (cs ''a'')); ctx \<leftarrow> c;
         (v1, _) \<leftarrow> kvc_get (Some ctx) (Some (cs ''a''));
         (ret, c) \<leftarrow> kvc_set (Some (ctx\<lparr>allocs := [False]\<rparr>)) (cs ''a'') (cs ''long'');
         (v2, _) \<leftarrow> kvc_get c (Some (cs ''a''));
         Some (v1, ret, v2) }) = Some (None, - 12, Some (cs ''1''))"
  by code_simp

section \<open>Fields and profiles\<close>

text \<open>Reading a field of a value back after setting it yields the new field; the other fields are what they
  were, and fields that setting had to add before it are empty.\<close>

theorem dat_indexed_round_trip:
  assumes "SEMI \<notin> set v"
  shows "\<exists>s. dat_set_indexed_value str i (Some v) True = Some s \<and>
    dat_get_indexed_value s j True =
      (if j = i then Some v else if j < length (fields str) then dat_get_indexed_value str j True
       else if j < i then Some [] else None)"
proof -
  let ?fs = "set_nth i v (fields str)"
  have s: "dat_set_indexed_value str i (Some v) True = Some (join_fields ?fs)"
    by (simp add: dat_set_indexed_value_def set_field_fields)
  have "set ?fs \<subseteq> insert v (insert [] (set (fields str)))"
    using set_update_subset_insert [of "fields str" i v] by (auto simp: set_nth_def)
  then have "\<forall>f \<in> set ?fs. SEMI \<notin> set f" using assms fields_no_semi by fastforce
  then have "fields (join_fields ?fs) = ?fs" by (intro fields_join) (auto simp: set_nth_def)
  then have "dat_get_indexed_value (join_fields ?fs) j True = (if j < length ?fs then Some (?fs ! j) else None)"
    by (simp add: dat_get_indexed_value_def get_field_loop_spec)
  then show ?thesis using s
    by (auto simp: dat_get_indexed_value_def get_field_loop_spec set_nth_def nth_append nth_list_update nth_Cons')
qed

lemma dat_indexed_sample:
  "\<exists>s. dat_set_indexed_value (cs ''a;b'') 3 (Some (cs ''d'')) True = Some s \<and> dat_get_indexed_value s 2 True = Some []"
  using dat_indexed_round_trip [of "cs ''d''" "cs ''a;b''" 3 2]
proof -
  have "SEMI \<notin> set (cs ''d'')" "length (fields (cs ''a;b'')) = 2" by code_simp+
  then show ?thesis using dat_indexed_round_trip [of "cs ''d''" "cs ''a;b''" 3 2] by simp
qed

text \<open>The path with a given ordinal is the one at that position when the fields of all values whose keys have
  the form \<open>INDEX<digits>_profile_path\<close> are listed in the order of the profile table; beyond the list there is
  none.\<close>

theorem dat_path_by_ord_nth:
  assumes "file_ok fe" and "length (fe_data fe) < 2 ^ 32"
  shows "get_dat_path_by_ord fe [] ord = Some
    (let paths = path_fields (profile_pairs (fe_data fe)) in
     if unat ord < length paths then Some (paths ! unat ord) else None)"
  by (rule get_dat_path_by_ord_spec [OF assms])

definition profile_table :: "u8 list" where
  "profile_table = cs ''INDEX0=x'' @ [LF] @ cs ''INDEX0_profile_path=/p0;/p1'' @ [LF] @ cs ''INDEX1_profile_path=/p2'' @ [LF]"

lemma dat_path_by_ord_sample:
  "get_dat_path_by_ord (good_file profile_table) [] 1 = Some (Some (cs ''/p1'')) \<and>
   get_dat_path_by_ord (good_file profile_table) [] 2 = Some (Some (cs ''/p2''))"
proof -
  have "0 \<notin> set profile_table" by code_simp
  then have f: "file_ok (good_file profile_table)" "length (fe_data (good_file profile_table)) < 2 ^ 32"
    by (simp_all add: LONG_MAX_def) (simp_all add: profile_table_def cs_def)
  have "path_fields (profile_pairs profile_table) = [cs ''/p0'', cs ''/p1'', cs ''/p2'']" by code_simp
  then show ?thesis using dat_path_by_ord_nth [OF f] by simp
qed



end
