(* ===== verification/Pc_Utils.thy ===== *)
theory Pc_Utils
  imports Prelude
begin

text \<open>
  The string helpers of the parental-control module (\<open>pc_utils.c\<close>), the character array
  functions of C on byte lists, and the scanning loop that its parsers share.  The scanning functions of the kernel,
  which are not part of this repository, are the record \<open>klib\<close>.
\<close>

section \<open>Character arrays\<close>

text \<open>\<open>cstr_of a\<close> is the string that starts at the memory \<open>a\<close>, \<^term>\<open>None\<close> when the memory
  ends before a null byte.\<close>

definition cstr_of :: "u8 list \<Rightarrow> cstr option" where
  "cstr_of a = (if 0 \<in> set a then Some (takeWhile (\<lambda>c. c \<noteq> 0) a) else None)"

definition c_strcpy :: "u8 list \<Rightarrow> cstr \<Rightarrow> u8 list option" where
  "c_strcpy a s = mem_put a 0 (s @ [0])"

text \<open>\<open>strncpy(a, s, n)\<close> writes \<open>n\<close> bytes.\<close>

definition c_strncpy :: "u8 list \<Rightarrow> cstr \<Rightarrow> nat \<Rightarrow> u8 list option" where
  "c_strncpy a s n = mem_put a 0 (take n (s @ replicate n 0))"

text \<open>\<open>strcmp(a, b) == 0\<close> on the memories behind two pointers.\<close>

fun c_streq :: "u8 list \<Rightarrow> u8 list \<Rightarrow> bool option" where
  "c_streq [] b = None"
| "c_streq a [] = None"
| "c_streq (x # a) (y # b) = (if x \<noteq> y then Some False else if x = 0 then Some True else c_streq a b)"

definition isspace :: "u8 \<Rightarrow> bool" where
  "isspace c \<longleftrightarrow> 9 \<le> c \<and> c \<le> 13 \<or> c = 32 \<or> c = 160"

definition isxdigit :: "u8 \<Rightarrow> bool" where
  "isxdigit c \<longleftrightarrow> isdigit c \<or> 65 \<le> c \<and> c \<le> 70 \<or> 97 \<le> c \<and> c \<le> 102"

section \<open>Trimming and skipping\<close>

definition k_trim :: "cstr \<Rightarrow> cstr" where
  "k_trim s = (let start = dropWhile isspace s in rev (dropWhile isspace (rev start)))"

definition skip_spaces :: "cstr \<Rightarrow> cstr" where
  "skip_spaces s = dropWhile (\<lambda>c. isspace c \<and> c \<noteq> 160) s"

text \<open>The value and the rest of the string.\<close>

fun skip_atoi :: "int \<Rightarrow> cstr \<Rightarrow> int \<times> cstr" where
  "skip_atoi i [] = (i, [])"
| "skip_atoi i (c # s) =
     (if isdigit c then skip_atoi (sint (of_int (i * 10 + uint c - 48) :: u32)) s else (i, c # s))"

definition check_local_network_ip :: "u32 \<Rightarrow> bool" where
  "check_local_network_ip ip \<longleftrightarrow>
     (if ip AND 0xffff0000 = 0xc0a80000 then True
      else if ip AND 0xfff00000 = 0xac100000 then True
      else ip AND 0xff000000 = 0x0a000000)"

section \<open>Formatted scanning\<close>

text \<open>What a scan stores.  The functions of the kernel: \<open>sscanf\<close>, given the format and the string,
  lists what it stores, and the \<open>simple_strto\<close> functions return the number and how many
  characters they took.\<close>

datatype scan_val = Scan_Int int | Scan_Str cstr

record klib =
  kl_sscanf :: "cstr \<Rightarrow> cstr \<Rightarrow> scan_val list"
  simple_strtol :: "cstr \<Rightarrow> nat \<Rightarrow> int \<times> nat"
  simple_strtoul :: "cstr \<Rightarrow> nat \<Rightarrow> nat \<times> nat"
  simple_strtoull :: "cstr \<Rightarrow> nat \<Rightarrow> nat \<times> nat"

definition k_simple_strtoll :: "klib \<Rightarrow> cstr \<Rightarrow> nat \<Rightarrow> int \<times> nat" where
  "k_simple_strtoll lib cp base =
     (if take 1 cp = [45]
      then (let (v, n) = simple_strtoull lib (tl cp) base in (- int v, n + 1))
      else (let (v, n) = simple_strtoull lib cp base in (int v, n)))"

text \<open>The length modifier: the character \<open>qualifier\<close>, 255 when there is none, and the rest of the format.\<close>

definition scan_qualifier :: "cstr \<Rightarrow> u8 \<times> cstr" where
  "scan_qualifier f =
     (let c = hd (f @ [0]) in
      if c = 104 \<or> c OR 0x20 = 108 \<or> c OR 0x20 = 122
      then (if take 1 (tl f) = [c]
            then (if c = 104 then (72, drop 2 f) else if c = 108 then (76, drop 2 f) else (c, tl f))
            else (c, tl f))
      else (255, f))"

text \<open>The number that a conversion stores, in the width of its type, and the characters taken.\<close>

definition scan_number :: "klib \<Rightarrow> u8 \<Rightarrow> bool \<Rightarrow> nat \<Rightarrow> cstr \<Rightarrow> int \<times> nat" where
  "scan_number lib qualifier is_sign base s =
     (let (sv, sn) = simple_strtol lib s base; (uv, un) = simple_strtoul lib s base in
      if qualifier = 72 then (if is_sign then (sint (of_int sv :: u8), sn) else (uint (of_nat uv :: u8), un))
      else if qualifier = 104 then (if is_sign then (sint (of_int sv :: u16), sn) else (uint (of_nat uv :: u16), un))
      else if qualifier = 108 then (if is_sign then (sint (of_int sv :: u64), sn) else (uint (of_nat uv :: u64), un))
      else if qualifier = 76 then
        (if is_sign then (let (v, n) = k_simple_strtoll lib s base in (sint (of_int v :: u64), n))
         else (let (v, n) = simple_strtoull lib s base in (uint (of_nat v :: u64), n)))
      else if qualifier = 90 \<or> qualifier = 122 then (uint (of_nat uv :: u64), un)
      else (if is_sign then (sint (of_int sv :: u32), sn) else (uint (of_nat uv :: u32), un)))"

text \<open>Whether a number in the base can start with the string.\<close>

definition scan_digit_ok :: "bool \<Rightarrow> nat \<Rightarrow> cstr \<Rightarrow> bool" where
  "scan_digit_ok is_sign base s =
     (let digit = hd (s @ [0]); digit = (if is_sign \<and> digit = 45 then hd (tl s @ [0]) else digit) in
      \<not> (digit = 0 \<or> (base = 16 \<and> \<not> isxdigit digit) \<or> (base = 10 \<and> \<not> isdigit digit) \<or>
         (base = 8 \<and> (\<not> isdigit digit \<or> digit > 55)) \<or> (base = 0 \<and> \<not> isdigit digit)))"

text \<open>One turn of the loop of \<open>k_vsscanf\<close>.  \<open>pos\<close> is the offset of \<open>str\<close> in the string \<open>buf\<close>; the
  result holds the rest of the format, the new offset, what is stored, whether a conversion is
  counted, and how the loop goes on.\<close>

datatype scan_next = Scan_Continue | Scan_Break | Scan_Return

text \<open>The conversion with the letter \<open>c\<close>, where \<open>f\<close> is the format behind it and \<open>str\<close> is not empty.\<close>

definition scan_conv ::
  "klib \<Rightarrow> u16 \<Rightarrow> u8 \<Rightarrow> u8 \<Rightarrow> nat \<Rightarrow> cstr \<Rightarrow> nat \<times> scan_val list \<times> nat \<times> scan_next" where
  "scan_conv lib width qualifier c pos str =
     (if c = 99 then
        (let w = (if width = 0x8000 then 32768 else nat (max 1 (sint (if width = - 1 then 1 else width))));
             s = take w str in
         (pos + length s, [Scan_Str s], 1, Scan_Continue))
      else if c = 115 then
        (let w = unat (if width = - 1 then 32767 else width);
             skip = length str - length (skip_spaces str);
             s = take w (takeWhile (\<lambda>c. \<not> isspace c \<or> c = 160) (skip_spaces str)) in
         (pos + skip + length s, [Scan_Str s], 1, Scan_Continue))
      else if c = 110 then (pos, [Scan_Int (int pos)], 0, Scan_Continue)
      else if c = 37 then (pos + 1, [], 0, if take 1 str = [37] then Scan_Continue else Scan_Return)
      else if c \<notin> {111, 120, 88, 105, 100, 117} then (pos, [], 0, Scan_Return)
      else
        let base = (if c = 111 then 8 else if c = 120 \<or> c = 88 then 16 else if c = 105 then 0 else 10);
            is_sign = (c = 105 \<or> c = 100);
            pos = pos + (length str - length (skip_spaces str));
            str = skip_spaces str in
        if \<not> scan_digit_ok is_sign base str then (pos, [], 0, Scan_Break)
        else (let (v, n) = scan_number lib qualifier is_sign base str in
              (pos + n, [Scan_Int v], 1, Scan_Continue)))"

definition scan_step :: "klib \<Rightarrow> cstr \<Rightarrow> cstr \<Rightarrow> nat \<Rightarrow> cstr \<times> nat \<times> scan_val list \<times> nat \<times> scan_next" where
  "scan_step lib buf fmt0 pos0 =
     (let sp = isspace (hd fmt0);
          f = (if sp then skip_spaces (tl fmt0) else fmt0);
          pos = (if sp then length buf - length (skip_spaces (drop pos0 buf)) else pos0);
          str = drop pos buf in
      if f = [] then (f, pos, [], 0, Scan_Break)
      else if hd f \<noteq> 37 then
        (tl f, pos + 1, [], 0, if take 1 str = [hd f] then Scan_Continue else Scan_Break)
      else if take 1 (tl f) = [42] then
        (dropWhile (\<lambda>c. \<not> isspace c \<and> c \<noteq> 37) (tl f),
         pos + length (takeWhile (\<lambda>c. \<not> isspace c) str), [], 0, Scan_Continue)
      else
        let f = tl f;
            (i, g) = skip_atoi 0 f;
            width = (if f \<noteq> [] \<and> isdigit (hd f) then of_int i else - 1 :: u16);
            (qualifier, f) = scan_qualifier g in
        if f = [] \<or> str = [] then (f, pos, [], 0, Scan_Break)
        else (tl f, scan_conv lib width qualifier (hd f) pos str))"

text \<open>The format gets shorter in every turn, so the loop ends.\<close>

lemma skip_spaces_length: "length (skip_spaces s) \<le> length s"
  by (simp add: skip_spaces_def length_dropWhile_le)

lemma skip_atoi_length: "skip_atoi i s = (v, t) \<Longrightarrow> length t \<le> length s"
  by (induction i s rule: skip_atoi.induct) (auto split: if_splits)

lemma scan_qualifier_length: "scan_qualifier f = (q, g) \<Longrightarrow> length g \<le> length f"
  by (auto simp: scan_qualifier_def Let_def split: if_splits)

lemma scan_step_length:
  assumes "scan_step lib buf fmt pos = (fmt', pos', vs, k, next)" and "fmt \<noteq> []"
  shows "length fmt' < length fmt \<or> next = Scan_Break"
proof -
  define f where "f = (if isspace (hd fmt) then skip_spaces (tl fmt) else fmt)"
  have f: "length f \<le> length fmt"
    using assms(2) skip_spaces_length [of "tl fmt"] by (cases fmt) (auto simp: f_def)
  show ?thesis
  proof (cases f)
    case Nil
    with assms(1) show ?thesis by (simp add: scan_step_def f_def [symmetric])
  next
    case (Cons c g)
    obtain i h where h: "skip_atoi 0 g = (i, h)" by force
    obtain q h' where h': "scan_qualifier h = (q, h')" by force
    have "length (tl h') \<le> length g"
      using skip_atoi_length [OF h] scan_qualifier_length [OF h'] by simp
    then show ?thesis
      using assms(1) f length_dropWhile_le [of "\<lambda>c. \<not> isspace c \<and> c \<noteq> 37" g]
      by (auto simp: scan_step_def f_def [symmetric] Cons h h' Let_def split: if_splits)
  qed
qed

function scanf_loop :: "klib \<Rightarrow> cstr \<Rightarrow> cstr \<Rightarrow> nat \<Rightarrow> nat \<Rightarrow> scan_val list \<Rightarrow> nat \<times> scan_val list" where
  "scanf_loop lib buf fmt pos num outs =
     (if fmt = [] \<or> drop pos buf = []
      then (num, if take 2 fmt = [37, 110] then outs @ [Scan_Int (int pos)] else outs)
      else
        (case scan_step lib buf fmt pos of
           (fmt, pos, vs, k, Scan_Continue) \<Rightarrow> scanf_loop lib buf fmt pos (num + k) (outs @ vs)
         | (fmt, pos, vs, k, Scan_Break) \<Rightarrow>
             (num + k, if take 2 fmt = [37, 110] then outs @ vs @ [Scan_Int (int pos)] else outs @ vs)
         | (fmt, pos, vs, k, Scan_Return) \<Rightarrow> (num + k, outs @ vs)))"
  by pat_completeness auto
termination
  by (relation "measure (\<lambda>(lib, buf, fmt, pos, num, outs). length fmt)") (auto dest!: scan_step_length [OF sym])

declare scanf_loop.simps [simp del]

definition k_sscanf :: "klib \<Rightarrow> cstr \<Rightarrow> cstr \<Rightarrow> nat \<times> scan_val list" where
  "k_sscanf lib buf fmt = scanf_loop lib buf fmt 0 0 []"

section \<open>Scanning for separators\<close>

text \<open>The parsers of the module share the loop
  \<^verbatim>\<open>while (*p++) { if (*p == sep) { ... begin = p + 1; } }\<close>: the fields that end with a separator, and
  what is behind the last one.  The first character is never compared with the separator.\<close>

fun split_rest :: "u8 \<Rightarrow> cstr \<Rightarrow> cstr \<Rightarrow> cstr list \<times> cstr" where
  "split_rest sep cur [] = ([], cur)"
| "split_rest sep cur (c # s) =
     (if c = sep then (let (fs, t) = split_rest sep [] s in (cur # fs, t))
      else split_rest sep (cur @ [c]) s)"

definition scan_fields :: "u8 \<Rightarrow> cstr \<Rightarrow> cstr list \<times> cstr" where
  "scan_fields sep s = (case s of [] \<Rightarrow> ([], []) | c # s \<Rightarrow> split_rest sep [c] s)"

end
