(* ===== verification/Pc_App.thy ===== *)
theory Pc_App
  imports Pc_Utils
begin

text \<open>
  The application features of the parental-control module (\<open>pc_app.c\<close>): parsing the feature strings
  and the feature file into the list of applications.  Numbers that the code keeps in \<open>int\<close>
  variables and only compares are integers; the fields of fixed width are words.  A buffer
  that a copy fills without a null byte is an access out of bounds once it is read as a
  string.
\<close>

section \<open>Data\<close>

abbreviation (input) IPPROTO_ICMP :: u32 where "IPPROTO_ICMP \<equiv> 1"
abbreviation (input) IPPROTO_TCP :: u32 where "IPPROTO_TCP \<equiv> 6"
abbreviation (input) IPPROTO_UDP :: u32 where "IPPROTO_UDP \<equiv> 17"

definition MAX_PORT_RANGE_NUM :: nat where "MAX_PORT_RANGE_NUM = 5"
definition MAX_POS_INFO_PER_FEATURE :: nat where "MAX_POS_INFO_PER_FEATURE = 16"
definition MAX_APP_NAME_LEN :: nat where "MAX_APP_NAME_LEN = 64"
definition MAX_HOST_URL_LEN :: nat where "MAX_HOST_URL_LEN = 254"
definition MAX_REQUEST_URL_LEN :: nat where "MAX_REQUEST_URL_LEN = 128"
definition MIN_FEATURE_STR_LEN :: nat where "MIN_FEATURE_STR_LEN = 8"
definition MAX_FEATURE_STR_LEN :: nat where "MAX_FEATURE_STR_LEN = 128"
definition MAX_FEATURE_LINE_LEN :: nat where "MAX_FEATURE_LINE_LEN = 256"
definition MIN_FEATURE_LINE_LEN :: nat where "MIN_FEATURE_LINE_LEN = 16"
definition PC_DICT_PARAM_INDEX :: nat where "PC_DICT_PARAM_INDEX = 5"

record range_value =
  rv_not :: bool
  rv_start :: int
  rv_end :: int

record port_info =
  pi_num :: nat
  range_list :: "range_value list"

text \<open>The arrays of a C structure have their full length; \<open>feature_str\<close> and \<open>dport\<close> are never used.\<close>

record pc_app =
  app_id :: u32
  app_name :: "u8 list"
  proto :: u32
  sport :: u32
  dport_info :: port_info
  host_url :: "u8 list"
  request_url :: "u8 list"
  pos_num :: nat
  pos_info :: "(int \<times> u8) list"

definition zero_range :: range_value where
  "zero_range = \<lparr>rv_not = False, rv_start = 0, rv_end = 0\<rparr>"

definition zero_port_info :: port_info where
  "zero_port_info = \<lparr>pi_num = 0, range_list = replicate MAX_PORT_RANGE_NUM zero_range\<rparr>"

text \<open>The result of \<open>kzalloc\<close>.\<close>

definition zero_app :: pc_app where
  "zero_app = \<lparr>app_id = 0, app_name = replicate MAX_APP_NAME_LEN 0, proto = 0, sport = 0,
     dport_info = zero_port_info, host_url = replicate MAX_HOST_URL_LEN 0,
     request_url = replicate MAX_REQUEST_URL_LEN 0, pos_num = 0,
     pos_info = replicate MAX_POS_INFO_PER_FEATURE (0, 0)\<rparr>"

text \<open>The list of applications, the newest first, and the outcomes of the coming memory
  allocations; when there are none left they all succeed.\<close>

record pc_apps_state =
  pc_apps :: "pc_app list"
  pc_allocs :: "bool list"

definition pc_alloc :: "'a pc_apps_state_scheme \<Rightarrow> bool \<times> 'a pc_apps_state_scheme" where
  "pc_alloc st = (case pc_allocs st of [] \<Rightarrow> (True, st) | ok # rest \<Rightarrow> (ok, st\<lparr>pc_allocs := rest\<rparr>))"

section \<open>Setting the features of an application\<close>

text \<open>The formats \<open>"%d"\<close>, \<open>"%d-%d"\<close>, \<open>"%d:%x"\<close> and \<open>"%d%127[^:]"\<close>.\<close>

definition fmt_d :: cstr where "fmt_d = [37, 100]"
definition fmt_d_d :: cstr where "fmt_d_d = [37, 100, 45, 37, 100]"
definition fmt_d_x :: cstr where "fmt_d_x = [37, 100, 58, 37, 120]"
definition fmt_id_name :: cstr where "fmt_id_name = [37, 100, 37, 49, 50, 55, 91, 94, 58, 93]"

definition POS_SIZE :: nat where "POS_SIZE = 32"

definition push_pos :: "klib \<Rightarrow> cstr \<Rightarrow> pc_app \<Rightarrow> pc_app option" where
  "push_pos lib s node =
     (case k_sscanf lib s fmt_d_x of
        (n, [Scan_Int index, Scan_Int val]) \<Rightarrow>
          if n = 2 then do {
            a \<leftarrow> arr_set (pos_info node) (pos_num node) (index, of_int val);
            Some (node\<lparr>pos_info := a, pos_num := pos_num node + 1\<rparr>)
          }
          else Some node
      | _ \<Rightarrow> Some node)"

text \<open>The entries of the data dictionary that end with a separator, and the buffer \<open>pos\<close>.\<close>

fun dict_loop :: "klib \<Rightarrow> cstr list \<Rightarrow> u8 list \<Rightarrow> pc_app \<Rightarrow> (u8 list \<times> pc_app) option" where
  "dict_loop lib [] pos node = Some (pos, node)"
| "dict_loop lib (f # fs) pos node = do {
     pos \<leftarrow> c_strncpy (replicate POS_SIZE 0) f (length f);
     s \<leftarrow> cstr_of pos;
     node \<leftarrow> push_pos lib s node;
     dict_loop lib fs pos node
   }"

definition set_app_feature ::
  "klib \<Rightarrow> pc_app \<Rightarrow> u32 \<Rightarrow> cstr \<Rightarrow> u32 \<Rightarrow> int \<Rightarrow> port_info \<Rightarrow> cstr \<Rightarrow> cstr \<Rightarrow> cstr \<Rightarrow> pc_app option" where
  "set_app_feature lib node appid nm pr src_port dport host request dict = do {
     nm \<leftarrow> c_strcpy (app_name node) nm;
     host \<leftarrow> c_strcpy (host_url node) host;
     request \<leftarrow> c_strcpy (request_url node) request;
     let node = node\<lparr>app_id := appid, app_name := nm, proto := pr, dport_info := dport,
       sport := of_int src_port, host_url := host, request_url := request\<rparr>;
     let (fs, t) = scan_fields 124 dict;
     (pos, node) \<leftarrow> dict_loop lib fs (replicate POS_SIZE 0) node;
     pos \<leftarrow> (if fs \<noteq> [] then c_strncpy pos t (length t + 1) else c_strcpy pos dict);
     s \<leftarrow> cstr_of pos;
     push_pos lib s node
   }"

definition add_app_feature ::
  "klib \<Rightarrow> u32 \<Rightarrow> cstr \<Rightarrow> u32 \<Rightarrow> int \<Rightarrow> port_info \<Rightarrow> cstr \<Rightarrow> cstr \<Rightarrow> cstr \<Rightarrow>
     'a pc_apps_state_scheme \<Rightarrow> (int \<times> 'a pc_apps_state_scheme) option" where
  "add_app_feature lib appid nm pr src_port dport host request dict st =
     (let (ok, st) = pc_alloc st in
      if \<not> ok then Some (-1, st)
      else do {
        node \<leftarrow> set_app_feature lib zero_app appid nm pr src_port dport host request dict;
        Some (0, st\<lparr>pc_apps := node # pc_apps st\<rparr>)
      })"

section \<open>Ports\<close>

definition validate_range_value :: "cstr \<Rightarrow> bool" where
  "validate_range_value s \<longleftrightarrow> list_all (\<lambda>c. c = 32 \<or> c = 33 \<or> c = 45 \<or> isdigit c) s"

text \<open>Parses the range \<open>s\<close> into the entry \<open>i\<close> of the array; false for the result -1.\<close>

definition parse_range_value ::
  "klib \<Rightarrow> cstr \<Rightarrow> range_value list \<Rightarrow> nat \<Rightarrow> (bool \<times> range_value list) option" where
  "parse_range_value lib s ranges i =
     (if \<not> validate_range_value s then Some (False, ranges)
      else do {
        let s = k_trim s;
        let neg = (take 1 s = [33]);
        r \<leftarrow> arr_get ranges i;
        ranges \<leftarrow> arr_set ranges i (r\<lparr>rv_not := neg\<rparr>);
        pure_range \<leftarrow> c_strcpy (replicate 128 0) (if neg then tl s else s);
        p \<leftarrow> cstr_of pure_range;
        let p = k_trim p;
        let vals = (if 45 \<in> set p
                    then (case kl_sscanf lib fmt_d_d p of [Scan_Int a, Scan_Int b] \<Rightarrow> Some (a, b) | _ \<Rightarrow> None)
                    else (case kl_sscanf lib fmt_d p of [Scan_Int a] \<Rightarrow> Some (a, a) | _ \<Rightarrow> None));
        (case vals of
           None \<Rightarrow> Some (False, ranges)
         | Some (a, b) \<Rightarrow> do {
             ranges \<leftarrow> arr_set ranges i (r\<lparr>rv_not := neg, rv_start := a, rv_end := b\<rparr>);
             Some (True, ranges)
           })
      })"

definition port_one :: "klib \<Rightarrow> cstr \<Rightarrow> nat \<Rightarrow> port_info \<Rightarrow> port_info option" where
  "port_one lib f n info = do {
     buf \<leftarrow> c_strncpy (replicate 128 0) f n;
     s \<leftarrow> cstr_of buf;
     (ok, rs) \<leftarrow> parse_range_value lib s (range_list info) (pi_num info);
     Some (info\<lparr>range_list := rs, pi_num := pi_num info + (if ok then 1 else 0)\<rparr>)
   }"

fun port_loop :: "klib \<Rightarrow> cstr list \<Rightarrow> port_info \<Rightarrow> port_info option" where
  "port_loop lib [] info = Some info"
| "port_loop lib (f # fs) info = do { info \<leftarrow> port_one lib f (length f) info; port_loop lib fs info }"

definition parse_port_info :: "klib \<Rightarrow> cstr \<Rightarrow> port_info \<Rightarrow> (int \<times> port_info) option" where
  "parse_port_info lib port_str info =
     (let s = k_trim port_str; (fs, t) = scan_fields 124 s in
      if s = [] then Some (-1, info)
      else do { info \<leftarrow> port_loop lib fs info; info \<leftarrow> port_one lib t (length t + 1) info; Some (0, info) })"

section \<open>Feature strings\<close>

text \<open>A field is copied into a buffer of \<open>sz\<close> zero bytes and cut to leave room for the null byte;
  a missing field leaves the empty string.\<close>

definition feature_field :: "cstr list \<Rightarrow> nat \<Rightarrow> nat \<Rightarrow> cstr" where
  "feature_field fs i sz = (if i < length fs then take (sz - 1) (fs ! i) else [])"

record app_feature =
  af_proto :: u32
  af_sport :: int
  af_dport :: port_info
  af_host :: cstr
  af_request :: cstr
  af_dict :: cstr

text \<open>The part of \<open>parse_app_str\<close> before the result is stored; the inner \<^term>\<open>None\<close> is the result -1.\<close>

definition parse_feature :: "klib \<Rightarrow> cstr \<Rightarrow> app_feature option option" where
  "parse_feature lib feature =
     (let (fs, t) = scan_fields 59 feature;
          proto_str = feature_field fs 0 16 in
      if length fs \<noteq> PC_DICT_PARAM_INDEX \<and> length feature > MIN_FEATURE_STR_LEN then Some None
      else if proto_str \<noteq> [116, 99, 112] \<and> proto_str \<noteq> [117, 100, 112] then Some None
      else do {
        let src_port = (case kl_sscanf lib fmt_d (feature_field fs 1 16) of [Scan_Int v] \<Rightarrow> v | _ \<Rightarrow> 0);
        (_, dport) \<leftarrow> parse_port_info lib (feature_field fs 2 16) zero_port_info;
        Some (Some \<lparr>af_proto = (if proto_str = [116, 99, 112] then IPPROTO_TCP else IPPROTO_UDP),
          af_sport = src_port, af_dport = dport,
          af_host = feature_field fs 3 MAX_HOST_URL_LEN,
          af_request = feature_field fs 4 MAX_REQUEST_URL_LEN,
          af_dict = take 127 t\<rparr>)
      })"

definition pc_set_app_by_str :: "klib \<Rightarrow> pc_app \<Rightarrow> u32 \<Rightarrow> cstr \<Rightarrow> cstr option \<Rightarrow> (int \<times> pc_app) option" where
  "pc_set_app_by_str lib app appid nm feature =
     (case feature of
        None \<Rightarrow> Some (-1, app)
      | Some f \<Rightarrow> do {
          r \<leftarrow> parse_feature lib f;
          (case r of
             None \<Rightarrow> Some (-1, app)
           | Some a \<Rightarrow> do {
               app \<leftarrow> set_app_feature lib app appid nm (af_proto a) (af_sport a) (af_dport a)
                        (af_host a) (af_request a) (af_dict a);
               Some (0, app)
             })
        })"

definition pc_add_app ::
  "klib \<Rightarrow> u32 \<Rightarrow> cstr \<Rightarrow> cstr \<Rightarrow> 'a pc_apps_state_scheme \<Rightarrow> (int \<times> 'a pc_apps_state_scheme) option" where
  "pc_add_app lib appid nm feature st = do {
     r \<leftarrow> parse_feature lib feature;
     (case r of
        None \<Rightarrow> Some (-1, st)
      | Some a \<Rightarrow> do {
          (_, st) \<leftarrow> add_app_feature lib appid nm (af_proto a) (af_sport a) (af_dport a)
                       (af_host a) (af_request a) (af_dict a) st;
          Some (0, st)
        })
   }"

section \<open>The feature file\<close>

text \<open>Where the last opening bracket is, and the length up to a closing bracket; \<open>i\<close> is the index of
  the next character.\<close>

fun bracket_loop :: "nat \<Rightarrow> cstr \<Rightarrow> nat option \<Rightarrow> nat \<Rightarrow> nat option \<times> nat" where
  "bracket_loop i [] pos len = (pos, len)"
| "bracket_loop i (c # s) pos len =
     (if c = 91 then bracket_loop (i + 1) s (Some (i + 1)) len
      else (case pos of
              Some b \<Rightarrow> bracket_loop (i + 1) s pos (if c = 93 then i - b else len)
            | None \<Rightarrow> bracket_loop (i + 1) s pos len))"

definition feature_one ::
  "klib \<Rightarrow> u32 \<Rightarrow> cstr \<Rightarrow> cstr \<Rightarrow> nat \<Rightarrow> 'a pc_apps_state_scheme \<Rightarrow> 'a pc_apps_state_scheme option" where
  "feature_one lib appid nm f n st = do {
     buf \<leftarrow> c_strncpy (replicate MAX_FEATURE_STR_LEN 0) f n;
     s \<leftarrow> cstr_of buf;
     (_, st) \<leftarrow> pc_add_app lib appid nm s st;
     Some st
   }"

fun feature_loop ::
  "klib \<Rightarrow> u32 \<Rightarrow> cstr \<Rightarrow> cstr list \<Rightarrow> 'a pc_apps_state_scheme \<Rightarrow> 'a pc_apps_state_scheme option" where
  "feature_loop lib appid nm [] st = Some st"
| "feature_loop lib appid nm (f # fs) st = do {
     st \<leftarrow> feature_one lib appid nm f (length f) st;
     feature_loop lib appid nm fs st
   }"

text \<open>One line.  When \<open>sscanf\<close> finds no number, \<open>app_id\<close> is used without a value.\<close>

definition pc_init_feature :: "klib \<Rightarrow> cstr \<Rightarrow> 'a pc_apps_state_scheme \<Rightarrow> 'a pc_apps_state_scheme option" where
  "pc_init_feature lib line st =
     (if 35 \<in> set line then Some st
      else do {
        (appid, nm) \<leftarrow> (case kl_sscanf lib fmt_id_name line of
                          [Scan_Int i] \<Rightarrow> Some (i, [])
                        | [Scan_Int i, Scan_Str s] \<Rightarrow> Some (i, s)
                        | _ \<Rightarrow> None);
        let (pos, len) = bracket_loop 1 (tl line) None 0;
        buf \<leftarrow> (case pos of
                  Some b \<Rightarrow> c_strncpy (replicate MAX_FEATURE_LINE_LEN 0) (drop b line) len
                | None \<Rightarrow> Some (replicate MAX_FEATURE_LINE_LEN 0));
        s \<leftarrow> cstr_of buf;
        let (fs, t) = scan_fields 44 s;
        st \<leftarrow> feature_loop lib (of_int appid) nm fs st;
        feature_one lib (of_int appid) nm t (length t + 1) st
      })"

text \<open>One line of the file with \<open>n = p - begin\<close>; a line of a length out of the limits is skipped.\<close>

definition feature_line ::
  "klib \<Rightarrow> cstr \<Rightarrow> nat \<Rightarrow> 'a pc_apps_state_scheme \<Rightarrow> 'a pc_apps_state_scheme option" where
  "feature_line lib l n st =
     (if n < MIN_FEATURE_LINE_LEN \<or> n > MAX_FEATURE_LINE_LEN then Some st
      else do {
        buf \<leftarrow> c_strncpy (replicate MAX_FEATURE_LINE_LEN 0) l n;
        s \<leftarrow> cstr_of buf;
        pc_init_feature lib s st
      })"

fun line_loop :: "klib \<Rightarrow> cstr list \<Rightarrow> 'a pc_apps_state_scheme \<Rightarrow> 'a pc_apps_state_scheme option" where
  "line_loop lib [] st = Some st"
| "line_loop lib (l # ls) st = do { st \<leftarrow> feature_line lib l (length l) st; line_loop lib ls st }"

text \<open>The buffer with the contents of the file.  \<open>file\<close> is \<^term>\<open>None\<close> when it cannot be opened;
  \<open>slack\<close> zero bytes follow the requested size in the memory that \<open>kzalloc\<close> returns.\<close>

definition load_feature_buf_from_file ::
  "u8 list option \<Rightarrow> nat \<Rightarrow> 'a pc_apps_state_scheme \<Rightarrow> u8 list option \<times> 'a pc_apps_state_scheme" where
  "load_feature_buf_from_file file slack st =
     (case file of
        None \<Rightarrow> (None, st)
      | Some d \<Rightarrow>
          if d = [] then (None, st)
          else (let (ok, st) = pc_alloc st in if \<not> ok then (None, st) else (Some (d @ replicate slack 0), st)))"

definition pc_load_app_feature_list ::
  "klib \<Rightarrow> u8 list option \<Rightarrow> nat \<Rightarrow> 'a pc_apps_state_scheme \<Rightarrow> (int \<times> 'a pc_apps_state_scheme) option" where
  "pc_load_app_feature_list lib file slack st =
     (let (buf, st) = load_feature_buf_from_file file slack st in
      case buf of
        None \<Rightarrow> Some (0, st)
      | Some mem \<Rightarrow> do {
          s \<leftarrow> cstr_of mem;
          let (ls, t) = scan_fields 10 s;
          st \<leftarrow> line_loop lib ls st;
          st \<leftarrow> feature_line lib t (length t + 1) st;
          Some (0, st)
        })"

definition pc_clean_app_feature_list :: "'a pc_apps_state_scheme \<Rightarrow> 'a pc_apps_state_scheme" where
  "pc_clean_app_feature_list st = st\<lparr>pc_apps := []\<rparr>"

end
