(* ===== verification/Pc_Json.thy ===== *)
theory Pc_Json
  imports Pc_Utils
begin

text \<open>
  The JSON parser and printer that the parental-control module is built with (\<open>cJSON.c\<close>, a version for
  integers only): parsing the text of a configuration, the accessors, and printing.  A pointer into a
  text is the memory from the pointer to the end of its object, \<^term>\<open>None\<close> is an access outside of an
  object or through a null pointer.  The links \<open>next\<close> and \<open>prev\<close> are the order of a list.
\<close>

section \<open>Items\<close>

definition cJSON_False :: nat where "cJSON_False = 0"
definition cJSON_True :: nat where "cJSON_True = 1"
definition cJSON_NULL :: nat where "cJSON_NULL = 2"
definition cJSON_Number :: nat where "cJSON_Number = 3"
definition cJSON_String :: nat where "cJSON_String = 4"
definition cJSON_Array :: nat where "cJSON_Array = 5"
definition cJSON_Object :: nat where "cJSON_Object = 6"

datatype cjson = CJson (cj_type: nat) (cj_string: "cstr option") (cj_valuestring: "u8 list option")
  (cj_valueint: int) (cj_child: "cjson list")

definition cJSON_GetArraySize :: "cjson \<Rightarrow> nat" where
  "cJSON_GetArraySize array = length (cj_child array)"

definition cJSON_GetArrayItem :: "cjson \<Rightarrow> nat \<Rightarrow> cjson option" where
  "cJSON_GetArrayItem array item =
     (if item < length (cj_child array) then Some (cj_child array ! item) else None)"

definition ch_lower :: "u8 \<Rightarrow> u8" where
  "ch_lower c = (if 65 \<le> c \<and> c \<le> 90 then c + 32 else c)"

fun find_item :: "cstr \<Rightarrow> cjson list \<Rightarrow> cjson option option" where
  "find_item nm [] = Some None"
| "find_item nm (c # cs) = do {
     s \<leftarrow> cj_string c;
     if map ch_lower s = map ch_lower nm then Some (Some c) else find_item nm cs
   }"

definition cJSON_GetObjectItem :: "cjson \<Rightarrow> cstr \<Rightarrow> cjson option option" where
  "cJSON_GetObjectItem object nm = find_item nm (cj_child object)"

section \<open>Memory\<close>

text \<open>\<open>jm_block m k n\<close> is what the \<open>k\<close>-th call of \<open>cJSON_malloc\<close>, for \<open>n\<close> bytes, returns: a block of at least
  \<open>n\<close> bytes with whatever they held before, or a null pointer.  \<open>jm_uc\<close> is what the variable \<open>uc\<close> of
  \<open>parse_string\<close> holds before it is written.\<close>

record json_mem =
  jm_block :: "nat \<Rightarrow> nat \<Rightarrow> u8 list option"
  jm_uc :: u32

text \<open>The size of \<open>struct cJSON\<close> on a 64-bit target.\<close>

definition CJSON_SIZE :: nat where "CJSON_SIZE = 64"

definition cJSON_New_Item :: "json_mem \<Rightarrow> nat \<Rightarrow> bool" where
  "cJSON_New_Item mem k \<longleftrightarrow> jm_block mem k CJSON_SIZE \<noteq> None"

section \<open>Numbers and strings\<close>

fun parse_digits :: "u32 \<Rightarrow> u8 list \<Rightarrow> (u32 \<times> u8 list) option" where
  "parse_digits n [] = None"
| "parse_digits n (c # s) =
     (if 48 \<le> c \<and> c \<le> 57 then parse_digits (n * 10 + (ucast c - 48)) s else Some (n, c # s))"

text \<open>The sign is skipped.\<close>

definition parse_number :: "u8 list \<Rightarrow> (int \<times> u8 list) option" where
  "parse_number num = do {
     c \<leftarrow> arr_get num 0;
     let num = (if c = 45 then drop 1 num else num);
     c \<leftarrow> arr_get num 0;
     let num = (if c = 48 then drop 1 num else num);
     c \<leftarrow> arr_get num 0;
     (n, num) \<leftarrow> (if 49 \<le> c \<and> c \<le> 57 then parse_digits 0 num else Some (0, num));
     Some (sint n, num)
   }"

text \<open>The first loop of \<open>parse_string\<close>, which counts, and the second one, which writes to the block \<open>out\<close> at
  the index \<open>j\<close>.\<close>

fun str_scan :: "nat \<Rightarrow> u8 list \<Rightarrow> nat option" where
  "str_scan len [] = None"
| "str_scan len (c # s) =
     (if c = 34 \<or> c \<le> 31 then Some len else str_scan (len + 1) (if c = 92 then drop 1 s else s))"

definition fmt_4x :: cstr where "fmt_4x = [37, 52, 120]"

definition utf8_len :: "u32 \<Rightarrow> nat" where
  "utf8_len uc = (if uc < 0x80 then 1 else if uc < 0x800 then 2 else 3)"

text \<open>The bytes of a code point and what is left of it.\<close>

definition utf8_bytes :: "u32 \<Rightarrow> u8 list \<times> u32" where
  "utf8_bytes uc =
     (let low = (\<lambda>c. (ucast c OR 0x80) AND 0xBF :: u8) in
      if utf8_len uc = 3
      then ([ucast (drop_bit 12 uc) OR 0xE0, low (drop_bit 6 uc), low uc], drop_bit 12 uc)
      else if utf8_len uc = 2 then ([ucast (drop_bit 6 uc) OR 0xC0, low uc], drop_bit 6 uc)
      else ([ucast uc], uc))"

definition unescape :: "u8 \<Rightarrow> u8" where
  "unescape c = (if c = 98 then 8 else if c = 102 then 12 else if c = 110 then 10
     else if c = 114 then 13 else if c = 116 then 9 else c)"

function str_copy :: "klib \<Rightarrow> u32 \<Rightarrow> u8 list \<Rightarrow> nat \<Rightarrow> u8 list \<Rightarrow> (u8 list \<times> nat \<times> u8 list) option" where
  "str_copy lib uc out j p = do {
     c \<leftarrow> arr_get p 0;
     if c = 34 \<or> c \<le> 31 then Some (out, j, p)
     else if c \<noteq> 92 then do { out \<leftarrow> arr_set out j c; str_copy lib uc out (j + 1) (drop 1 p) }
     else do {
       e \<leftarrow> arr_get p 1;
       if e = 117 then do {
         let uc = (case kl_sscanf lib fmt_4x (takeWhile (\<lambda>c. c \<noteq> 0) (drop 2 p)) of
                     [Scan_Int v] \<Rightarrow> of_int v | _ \<Rightarrow> uc);
         let (bs, uc) = utf8_bytes uc;
         out \<leftarrow> mem_put out j bs;
         str_copy lib uc out (j + length bs) (drop 6 p)
       }
       else do { out \<leftarrow> arr_set out j (unescape e); str_copy lib uc out (j + 1) (drop 2 p) }
     }
   }"
  by pat_completeness auto
termination
  by (relation "measure (\<lambda>(lib, uc, out, j, p). length p)") (auto simp: arr_get_def split: if_splits)

declare str_copy.simps [simp del]

text \<open>The number of calls of \<open>cJSON_malloc\<close> so far, and the string and the rest of the text; \<open>str\<close> is no string
  or there is no memory when these are missing.\<close>

definition parse_string :: "klib \<Rightarrow> json_mem \<Rightarrow> nat \<Rightarrow> u8 list \<Rightarrow> (nat \<times> (u8 list \<times> u8 list) option) option" where
  "parse_string lib mem k str = do {
     c \<leftarrow> arr_get str 0;
     if c \<noteq> 34 then Some (k, None)
     else do {
       len \<leftarrow> str_scan 0 (drop 1 str);
       (case jm_block mem k (len + 1) of
          None \<Rightarrow> Some (k + 1, None)
        | Some out \<Rightarrow> do {
            (out, j, ptr) \<leftarrow> str_copy lib (jm_uc mem) out 0 (drop 1 str);
            out \<leftarrow> arr_set out j 0;
            c \<leftarrow> arr_get ptr 0;
            Some (k + 1, Some (out, if c = 34 then drop 1 ptr else ptr))
          })
     }
   }"

section \<open>Values\<close>

text \<open>\<open>skip\<close> does not stop at the null byte.\<close>

fun json_skip :: "u8 list \<Rightarrow> u8 list option" where
  "json_skip [] = None"
| "json_skip (c # s) = (if c \<le> 32 then json_skip s else Some (c # s))"

text \<open>\<open>strncmp(m, s, length s) == 0\<close>.\<close>

fun prefix_eq :: "u8 list \<Rightarrow> u8 list \<Rightarrow> bool option" where
  "prefix_eq m [] = Some True"
| "prefix_eq [] (x # s) = None"
| "prefix_eq (c # m) (x # s) = (if c = x then prefix_eq m s else Some False)"

definition str_null :: cstr where "str_null = [110, 117, 108, 108]"
definition str_false :: cstr where "str_false = [102, 97, 108, 115, 101]"
definition str_true :: cstr where "str_true = [116, 114, 117, 101]"

lemma str_scan_length: "str_scan n p = Some m \<Longrightarrow> p \<noteq> []"
  by (cases p) auto

lemma parse_digits_length: "parse_digits n s = Some (m, r) \<Longrightarrow> length r \<le> length s"
  by (induction n s rule: parse_digits.induct) (auto split: if_splits)

lemma parse_number_length: "parse_number s = Some (n, r) \<Longrightarrow> length r \<le> length s"
  by (auto simp: parse_number_def Let_def split: if_splits bind_splits dest!: parse_digits_length)

lemma json_skip_length: "json_skip s = Some r \<Longrightarrow> length r \<le> length s \<and> r \<noteq> []"
  by (induction s) (auto split: if_splits)

lemma str_copy_length: "str_copy lib uc out j p = Some (out', j', r) \<Longrightarrow> length r \<le> length p"
proof (induction lib uc out j p arbitrary: r rule: str_copy.induct)
  case (1 lib uc out j p)
  from "1.prems" show ?case
    by (subst (asm) str_copy.simps)
       (fastforce simp: Let_def split: if_splits bind_splits prod.splits dest: "1.IH")
qed

lemma parse_string_length: "parse_string lib mem k s = Some (k', Some (out, r)) \<Longrightarrow> length r < length s"
  by (cases s) (fastforce simp: parse_string_def arr_get_def split: if_splits bind_splits option.splits
    dest!: str_copy_length)+

text \<open>\<open>parse_value\<close> fills the new item \<open>nm\<close> names: an item of an object has its \<open>string\<close> already, and every
  result overwrites its type.  \<open>parse_elems\<close> is \<open>parse_array\<close> from the first element on; each item is
  allocated before the text is looked at.  \<open>parse_members\<close> is \<open>parse_object\<close> from the first member on, whose
  allocation is not checked.\<close>

type_synonym 'a json_result = "(nat \<times> ('a \<times> u8 list) option) option"

function parse_value :: "klib \<Rightarrow> json_mem \<Rightarrow> cstr option \<Rightarrow> nat \<Rightarrow> u8 list \<Rightarrow> cjson json_result"
  and parse_elems :: "klib \<Rightarrow> json_mem \<Rightarrow> nat \<Rightarrow> u8 list \<Rightarrow> cjson list json_result"
  and parse_members :: "klib \<Rightarrow> json_mem \<Rightarrow> bool \<Rightarrow> nat \<Rightarrow> u8 list \<Rightarrow> cjson list json_result" where
  "parse_value lib mem nm k v = do {
     is_null \<leftarrow> prefix_eq v str_null;
     if is_null then Some (k, Some (CJson cJSON_NULL nm None 0 [], drop 4 v))
     else do {
       is_false \<leftarrow> prefix_eq v str_false;
       if is_false then Some (k, Some (CJson cJSON_False nm None 0 [], drop 5 v))
       else do {
         is_true \<leftarrow> prefix_eq v str_true;
         if is_true then Some (k, Some (CJson cJSON_True nm None 1 [], drop 4 v))
         else do {
           c \<leftarrow> arr_get v 0;
           if c = 34 then do {
             (k, r) \<leftarrow> parse_string lib mem k v;
             Some (k, map_option (\<lambda>(out, rest). (CJson cJSON_String nm (Some out) 0 [], rest)) r)
           }
           else if c = 45 \<or> 48 \<le> c \<and> c \<le> 57 then do {
             (n, rest) \<leftarrow> parse_number v;
             Some (k, Some (CJson cJSON_Number nm None n [], rest))
           }
           else if c = 91 then do {
             s \<leftarrow> json_skip (drop 1 v);
             c \<leftarrow> arr_get s 0;
             if c = 93 then Some (k, Some (CJson cJSON_Array nm None 0 [], drop 1 s))
             else do {
               (k, r) \<leftarrow> parse_elems lib mem k s;
               Some (k, map_option (\<lambda>(cs, rest). (CJson cJSON_Array nm None 0 cs, rest)) r)
             }
           }
           else if c = 123 then do {
             s \<leftarrow> json_skip (drop 1 v);
             c \<leftarrow> arr_get s 0;
             if c = 125 then Some (k, Some (CJson cJSON_Object nm None 0 [], drop 1 s))
             else do {
               (k, r) \<leftarrow> parse_members lib mem True k s;
               Some (k, map_option (\<lambda>(cs, rest). (CJson cJSON_Object nm None 0 cs, rest)) r)
             }
           }
           else Some (k, None)
         }
       }
     }
   }"
| "parse_elems lib mem k v =
     (if \<not> cJSON_New_Item mem k then Some (k + 1, None)
      else do {
        v \<leftarrow> json_skip v;
        (k, r) \<leftarrow> parse_value lib mem None (k + 1) v;
        (case r of
           None \<Rightarrow> Some (k, None)
         | Some (item, rest) \<Rightarrow> do {
             rest \<leftarrow> json_skip rest;
             c \<leftarrow> arr_get rest 0;
             if c = 44 then do {
               (k, r) \<leftarrow> parse_elems lib mem k (drop 1 rest);
               Some (k, map_option (\<lambda>(cs, rest). (item # cs, rest)) r)
             }
             else Some (k, if c = 93 then Some ([item], drop 1 rest) else None)
           })
      })"
| "parse_members lib mem first k v =
     (if \<not> cJSON_New_Item mem k \<and> \<not> first then Some (k + 1, None)
      else do {
        s \<leftarrow> json_skip v;
        (k', r) \<leftarrow> parse_string lib mem (k + 1) s;
        (case r of
           None \<Rightarrow> Some (k', None)
         | Some (out, rest) \<Rightarrow> do {
             _ \<leftarrow> (if cJSON_New_Item mem k then Some () else None);
             nm \<leftarrow> cstr_of out;
             rest \<leftarrow> json_skip rest;
             c \<leftarrow> arr_get rest 0;
             if c \<noteq> 58 then Some (k', None)
             else do {
               rest \<leftarrow> json_skip (drop 1 rest);
               (k', r) \<leftarrow> parse_value lib mem (Some nm) k' rest;
               (case r of
                  None \<Rightarrow> Some (k', None)
                | Some (item, rest) \<Rightarrow> do {
                    rest \<leftarrow> json_skip rest;
                    c \<leftarrow> arr_get rest 0;
                    if c = 44 then do {
                      (k', r) \<leftarrow> parse_members lib mem False k' (drop 1 rest);
                      Some (k', map_option (\<lambda>(cs, rest). (item # cs, rest)) r)
                    }
                    else Some (k', if c = 125 then Some ([item], drop 1 rest) else None)
                  })
             }
           })
      })"
  by pat_completeness auto

text \<open>The rest of the text is never longer than the text, so the recursion ends.\<close>

lemma parse_dom_length:
  "parse_value_parse_elems_parse_members_dom (Inl (lib, mem, nm, k, v)) \<Longrightarrow>
     \<forall>k' c r. parse_value lib mem nm k v = Some (k', Some (c, r)) \<longrightarrow> length r \<le> length v"
  "parse_value_parse_elems_parse_members_dom (Inr (Inl (lib, mem, k, v))) \<Longrightarrow>
     \<forall>k' c r. parse_elems lib mem k v = Some (k', Some (c, r)) \<longrightarrow> length r \<le> length v"
  "parse_value_parse_elems_parse_members_dom (Inr (Inr (lib, mem, first, k, v))) \<Longrightarrow>
     \<forall>k' c r. parse_members lib mem first k v = Some (k', Some (c, r)) \<longrightarrow> length r \<le> length v"
proof (induction lib mem nm k v and lib mem k v and lib mem first k v
    rule: parse_value_parse_elems_parse_members.pinduct)
  case (1 lib mem nm k v)
  have elems: "length r \<le> length s"
    if "prefix_eq v str_null = Some False" "prefix_eq v str_false = Some False" "prefix_eq v str_true = Some False"
      "arr_get v 0 = Some 91" "json_skip (drop (Suc 0) v) = Some s" "arr_get s 0 = Some c" "c \<noteq> 93"
      "parse_elems lib mem k s = Some (k', Some (cs, r))" for s c k' cs r
    using "1.IH"(1) [of False False False 91 s c] that by simp
  have members: "length r \<le> length s"
    if "prefix_eq v str_null = Some False" "prefix_eq v str_false = Some False" "prefix_eq v str_true = Some False"
      "arr_get v 0 = Some 123" "json_skip (drop (Suc 0) v) = Some s" "arr_get s 0 = Some c" "c \<noteq> 125"
      "parse_members lib mem True k s = Some (k', Some (cs, r))" for s c k' cs r
    using "1.IH"(2) [of False False False 123 s c] that by simp
  show ?case
  proof (intro allI impI)
    fix k' c r
    assume "parse_value lib mem nm k v = Some (k', Some (c, r))"
    then show "length r \<le> length v"
      by (auto simp: parse_value.psimps [OF "1.hyps"] split: if_splits bind_splits
            dest!: parse_string_length parse_number_length)
        (frule json_skip_length, (drule (7) elems members)?, simp)+
  qed
next
  case (2 lib mem k v)
  have first: "length r \<le> length s"
    if "cJSON_New_Item mem k" "json_skip v = Some s" "parse_value lib mem None (Suc k) s = Some (k', Some (c, r))"
    for s k' c r
    using "2.IH"(1) [of s] that by simp
  have next_elems: "length r \<le> length u"
    if "cJSON_New_Item mem k" "json_skip v = Some s" "parse_value lib mem None (Suc k) s = Some (k', Some (c, t))"
      "json_skip t = Some u" "arr_get u 0 = Some 44" "parse_elems lib mem k' (drop (Suc 0) u) = Some (k'', Some (cs, r))"
    for s k' c t u k'' cs r
    using "2.IH"(2) [of s "(k', Some (c, t))" k' "Some (c, t)" "(c, t)" c t u 44] that by simp
  show ?case
  proof (intro allI impI)
    fix k' c r
    assume "parse_elems lib mem k v = Some (k', Some (c, r))"
    then show "length r \<le> length v"
      apply (auto simp: parse_elems.psimps [OF "2.hyps"] split: if_splits bind_splits option.splits)
       apply (frule (2) first, drule (5) next_elems, (drule json_skip_length)+, auto)
      apply (frule (2) first, (drule json_skip_length)+, auto)
      done
  qed
next
  case (3 lib mem first k v)
  have member: "length r \<le> length t"
    if "cJSON_New_Item mem k" "json_skip v = Some s" "parse_string lib mem (Suc k) s = Some (k', Some (out, p))"
      "cstr_of out = Some nm" "json_skip p = Some q" "arr_get q 0 = Some 58" "json_skip (drop (Suc 0) q) = Some t"
      "parse_value lib mem (Some nm) k' t = Some (k'', Some (c, r))"
    for s k' out p nm q t k'' c r
    using "3.IH"(1) [of s "(k', Some (out, p))" k' "Some (out, p)" "(out, p)" out p "()" nm q 58 t] that by simp
  have next_members: "length r \<le> length w"
    if "cJSON_New_Item mem k" "json_skip v = Some s" "parse_string lib mem (Suc k) s = Some (k', Some (out, p))"
      "cstr_of out = Some nm" "json_skip p = Some q" "arr_get q 0 = Some 58" "json_skip (drop (Suc 0) q) = Some t"
      "parse_value lib mem (Some nm) k' t = Some (k'', Some (c, u))"
      "json_skip u = Some w" "arr_get w 0 = Some 44" "parse_members lib mem False k'' (drop (Suc 0) w) = Some (k3, Some (cs, r))"
    for s k' out p nm q t k'' c u w k3 cs r
    using "3.IH"(2) [of s "(k', Some (out, p))" k' "Some (out, p)" "(out, p)" out p "()" nm q 58 t
      "(k'', Some (c, u))" k'' "Some (c, u)" "(c, u)" c u w 44] that by simp
  show ?case
  proof (intro allI impI)
    fix k' c r
    assume "parse_members lib mem first k v = Some (k', Some (c, r))"
    then show "length r \<le> length v"
      apply (auto simp: parse_members.psimps [OF "3.hyps"] split: if_splits bind_splits option.splits)
       apply (frule (7) member, drule (10) next_members, drule parse_string_length, (drule json_skip_length)+, auto)
      apply (frule (7) member, drule parse_string_length, (drule json_skip_length)+, auto)
      done
  qed
qed

lemma parse_value_dom_length:
  "parse_value lib mem nm k v = Some (k', Some (c, r)) \<Longrightarrow>
     parse_value_parse_elems_parse_members_dom (Inl (lib, mem, nm, k, v)) \<Longrightarrow> length r \<le> length v"
  using parse_dom_length(1) by blast

lemma arr_get_index: "arr_get a i = Some x \<Longrightarrow> i < length a"
  by (simp add: arr_get_def split: if_splits)

termination parse_value
  apply (relation "measures
        [\<lambda>x. case x of
             Inl (lib, mem, nm, k, v) \<Rightarrow> length v
           | Inr (Inl (lib, mem, k, v)) \<Rightarrow> length v
           | Inr (Inr (lib, mem, first, k, v)) \<Rightarrow> length v,
         \<lambda>x. case x of Inl _ \<Rightarrow> 0 | Inr _ \<Rightarrow> 1]")
   apply simp
  apply (auto split: if_splits dest!: parse_value_dom_length json_skip_length parse_string_length arr_get_index
      simp: eq_commute [of "(_, _)"])
    apply (auto simp: neq_Nil_conv)
  done

declare parse_value.simps [simp del] parse_elems.simps [simp del] parse_members.simps [simp del]

text \<open>The item, or \<^term>\<open>None\<close> for a null pointer.\<close>

definition cJSON_Parse :: "klib \<Rightarrow> json_mem \<Rightarrow> u8 list \<Rightarrow> cjson option option" where
  "cJSON_Parse lib mem s =
     (if \<not> cJSON_New_Item mem 0 then Some None
      else do {
        v \<leftarrow> json_skip s;
        (_, r) \<leftarrow> parse_value lib mem None 1 v;
        Some (map_option fst r)
      })"

section \<open>Printing\<close>

text \<open>What a print function leaves in a block of \<open>n\<close> bytes from \<open>cJSON_malloc\<close>, whose result is not checked: the text
  \<open>s\<close> and its null byte have to fit.\<close>

definition in_block :: "json_mem \<Rightarrow> nat \<Rightarrow> nat \<Rightarrow> cstr \<Rightarrow> cstr option" where
  "in_block mem k n s = (case jm_block mem k n of None \<Rightarrow> None | Some _ \<Rightarrow> if length s < n then Some s else None)"

fun dec_nat :: "nat \<Rightarrow> cstr" where
  "dec_nat n = (if n < 10 then [of_nat (48 + n)] else dec_nat (n div 10) @ [of_nat (48 + n mod 10)])"

declare dec_nat.simps [simp del]

text \<open>\<open>sprintf\<close> with the format \<open>"%d"\<close>, and with a text for a format and no arguments.\<close>

definition dec_int :: "int \<Rightarrow> cstr" where
  "dec_int i = (if i < 0 then 45 # dec_nat (nat (- i)) else dec_nat (nat i))"

fun sprintf_text :: "cstr \<Rightarrow> cstr option" where
  "sprintf_text [] = Some []"
| "sprintf_text (c # s) =
     (if c \<noteq> 37 then map_option ((#) c) (sprintf_text s)
      else (case s of [] \<Rightarrow> None | d # t \<Rightarrow> if d = 37 then map_option ((#) 37) (sprintf_text t) else None))"

definition print_number :: "json_mem \<Rightarrow> nat \<Rightarrow> cjson \<Rightarrow> (nat \<times> cstr option) option" where
  "print_number mem k item =
     (case jm_block mem k 21 of
        None \<Rightarrow> Some (k + 1, None)
      | Some _ \<Rightarrow> do { s \<leftarrow> in_block mem k 21 (dec_int (cj_valueint item)); Some (k + 1, Some s) })"

fun print_len :: "nat \<Rightarrow> cstr \<Rightarrow> nat" where
  "print_len len [] = len"
| "print_len len (c # s) = print_len (if c < 32 \<or> c = 34 \<or> c = 92 then len + 2 else len + 1) s"

text \<open>What a character is printed as: a control character without an escape is left out.\<close>

definition print_char :: "u8 \<Rightarrow> cstr" where
  "print_char c =
     (if c > 31 \<and> c \<noteq> 34 \<and> c \<noteq> 92 then [c]
      else if c = 92 then [92, 92]
      else if c = 34 then [92, 34]
      else if c = 8 then [92, 98]
      else if c = 12 then [92, 102]
      else if c = 10 then [92, 110]
      else if c = 13 then [92, 114]
      else if c = 9 then [92, 116]
      else [])"

definition print_string_ptr :: "json_mem \<Rightarrow> nat \<Rightarrow> cstr \<Rightarrow> (nat \<times> cstr) option" where
  "print_string_ptr mem k s = do {
     out \<leftarrow> in_block mem k (print_len 0 s + 3) (34 # concat (map print_char s) @ [34]);
     Some (k + 1, out)
   }"

text \<open>Printing a value.  \<open>print_elems\<close> and \<open>print_members\<close> go on with the items that are left, where \<open>len\<close> is the size
  of the block and \<open>out\<close> is what it holds; \<open>cJSON_realloc\<close> keeps it.\<close>

fun print_value :: "json_mem \<Rightarrow> nat \<Rightarrow> nat \<Rightarrow> cjson \<Rightarrow> (nat \<times> cstr option) option"
  and print_elems :: "json_mem \<Rightarrow> nat \<Rightarrow> nat \<Rightarrow> nat \<Rightarrow> cstr \<Rightarrow> cjson list \<Rightarrow> (nat \<times> cstr option) option"
  and print_members :: "json_mem \<Rightarrow> nat \<Rightarrow> nat \<Rightarrow> nat \<Rightarrow> cstr \<Rightarrow> cjson list \<Rightarrow> (nat \<times> cstr option) option" where
  "print_value mem depth k (CJson t nm vs n cs) =
     (if t = cJSON_NULL then Some (k + 1, map_option (\<lambda>_. str_null) (jm_block mem k 5))
      else if t = cJSON_False then Some (k + 1, map_option (\<lambda>_. str_false) (jm_block mem k 6))
      else if t = cJSON_True then Some (k + 1, map_option (\<lambda>_. str_true) (jm_block mem k 5))
      else if t = cJSON_Number then print_number mem k (CJson t nm vs n cs)
      else if t = cJSON_String then do {
        m \<leftarrow> vs;
        s \<leftarrow> cstr_of m;
        (k, out) \<leftarrow> print_string_ptr mem k s;
        Some (k, Some out)
      }
      else if t = cJSON_Array then do {
        out \<leftarrow> in_block mem k 5 [91];
        print_elems mem depth (k + 1) 5 out cs
      }
      else if t = cJSON_Object then do {
        out \<leftarrow> in_block mem k (7 + (depth + 1)) [123, 10];
        print_members mem (depth + 1) (k + 1) (7 + (depth + 1)) out cs
      }
      else Some (k, None))"
| "print_elems mem depth k len out [] =
     (if length out + 1 < len then Some (k, Some (out @ [93])) else None)"
| "print_elems mem depth k len out (c # cs) = do {
     (k, ret) \<leftarrow> print_value mem (depth + 1) k c;
     (case ret of
        None \<Rightarrow> Some (k, None)
      | Some ret \<Rightarrow> do {
          let len = len + length ret + 3;
          ret \<leftarrow> sprintf_text ret;
          out \<leftarrow> in_block mem k len (out @ ret @ (if cs \<noteq> [] then [44, 32] else []));
          print_elems mem depth (k + 1) len out cs
        })
   }"
| "print_members mem depth k len out [] =
     (let out = out @ replicate (depth - 1) 9 @ [125] in if length out < len then Some (k, Some out) else None)"
| "print_members mem depth k len out (c # cs) = do {
     nm \<leftarrow> cj_string c;
     (k, str) \<leftarrow> print_string_ptr mem k nm;
     (k, ret) \<leftarrow> print_value mem depth k c;
     (case ret of
        None \<Rightarrow> Some (k, None)
      | Some ret \<Rightarrow> do {
          let len = len + length ret + length str + 4 + depth;
          str \<leftarrow> sprintf_text str;
          ret \<leftarrow> sprintf_text ret;
          out \<leftarrow> in_block mem k len
                   (out @ replicate depth 9 @ str @ [58, 9] @ ret @ (if cs \<noteq> [] then [44] else []) @ [10]);
          print_members mem depth (k + 1) len out cs
        })
   }"

definition cJSON_Print :: "json_mem \<Rightarrow> cjson \<Rightarrow> cstr option option" where
  "cJSON_Print mem item = do { (_, s) \<leftarrow> print_value mem 0 0 item; Some s }"

end
