(* ===== verification/Pc_Policy.thy ===== *)
theory Pc_Policy
  imports Pc_App Pc_Json
begin

text \<open>
  The rules and groups of the parental-control module (\<open>pc_policy.c\<close>).  A rule is an object with an address: a group
  points to a rule, and a pointer to a rule that has been freed cannot be followed.  Addresses are not
  reused.  The module takes its locks around single steps; the configuration commands come one
  after the other, so that each operation is one step here.  A pointer to characters is the
  memory from the pointer to the end of its object.
\<close>

section \<open>State\<close>

abbreviation (input) PC_DROP :: int where "PC_DROP \<equiv> 0"
abbreviation (input) PC_ACCEPT :: int where "PC_ACCEPT \<equiv> 1"
abbreviation (input) PC_POLICY_DROP :: int where "PC_POLICY_DROP \<equiv> 2"
abbreviation (input) PC_POLICY_ACCEPT :: int where "PC_POLICY_ACCEPT \<equiv> 3"
abbreviation (input) PC_DROP_ANONYMOUS :: int where "PC_DROP_ANONYMOUS \<equiv> 4"

definition BLIST_ID :: u32 where "BLIST_ID = 0xffffffff"
definition RULE_ID_SIZE :: nat where "RULE_ID_SIZE = 32"
definition GROUP_ID_SIZE :: nat where "GROUP_ID_SIZE = 32"
definition MAX_SRC_DEVNAME_SIZE :: nat where "MAX_SRC_DEVNAME_SIZE = 129"

record pc_rule =
  r_id :: "u8 list"
  refer_count :: u32
  r_action :: int
  blist :: "pc_app list"
  applist :: "u32 list"

record pc_group =
  g_id :: "u8 list"
  macs :: "u8 list list"
  g_rule :: "nat option"

record pc_state = pc_apps_state +
  pc_rules :: "(nat \<times> pc_rule) list"
  pc_groups :: "pc_group list"
  pc_next :: nat
  pc_drop_anonymous :: u8
  pc_src_dev :: "u8 list"

section \<open>Rules\<close>

text \<open>The contents of a blacklist and of a list of applications, and the state of the allocator.\<close>

definition rule_add_blist_item ::
  "klib \<Rightarrow> u8 list option \<Rightarrow> pc_app list \<Rightarrow> pc_state \<Rightarrow> (int \<times> pc_app list \<times> pc_state) option" where
  "rule_add_blist_item lib str bl st =
     (let (ok, st) = pc_alloc st in
      if \<not> ok then Some (-1, bl, st)
      else do {
        feature \<leftarrow> (case str of None \<Rightarrow> Some None | Some m \<Rightarrow> map_option Some (cstr_of m));
        (ret, node) \<leftarrow> pc_set_app_by_str lib zero_app BLIST_ID [98, 108, 97, 99, 107, 108, 105, 115, 116] feature;
        if ret = 0 then Some (0, node # bl, st) else Some (-1, bl, st)
      })"

fun rule_add_blist_loop :: "klib \<Rightarrow> cjson list \<Rightarrow> pc_app list \<Rightarrow> pc_state \<Rightarrow> (pc_app list \<times> pc_state) option" where
  "rule_add_blist_loop lib [] bl st = Some (bl, st)"
| "rule_add_blist_loop lib (it # its) bl st = do {
     (_, bl, st) \<leftarrow> rule_add_blist_item lib (cj_valuestring it) bl st;
     rule_add_blist_loop lib its bl st
   }"

definition rule_add_blist :: "klib \<Rightarrow> cjson option \<Rightarrow> pc_app list \<Rightarrow> pc_state \<Rightarrow> (pc_app list \<times> pc_state) option" where
  "rule_add_blist lib list bl st =
     (case list of None \<Rightarrow> Some (bl, st) | Some l \<Rightarrow> rule_add_blist_loop lib (cj_child l) bl st)"

definition rule_add_applist_item :: "u32 \<Rightarrow> u32 list \<Rightarrow> pc_state \<Rightarrow> int \<times> u32 list \<times> pc_state" where
  "rule_add_applist_item appid al st =
     (let (ok, st) = pc_alloc st in if \<not> ok then (-1, al, st) else (0, appid # al, st))"

fun rule_add_applist_loop :: "cjson list \<Rightarrow> u32 list \<Rightarrow> pc_state \<Rightarrow> u32 list \<times> pc_state" where
  "rule_add_applist_loop [] al st = (al, st)"
| "rule_add_applist_loop (it # its) al st =
     (let (_, al, st) = rule_add_applist_item (of_int (cj_valueint it)) al st in
      rule_add_applist_loop its al st)"

definition rule_add_applist :: "cjson option \<Rightarrow> u32 list \<Rightarrow> pc_state \<Rightarrow> u32 list \<times> pc_state" where
  "rule_add_applist list al st =
     (case list of None \<Rightarrow> (al, st) | Some l \<Rightarrow> rule_add_applist_loop (cj_child l) al st)"

definition add_pc_rule ::
  "klib \<Rightarrow> u8 list option \<Rightarrow> cjson option \<Rightarrow> int \<Rightarrow> cjson option \<Rightarrow> pc_state \<Rightarrow> (int \<times> pc_state) option" where
  "add_pc_rule lib id_str apps action bl st =
     (let (ok, st) = pc_alloc st in
      if \<not> ok then Some (-1, st)
      else do {
        m \<leftarrow> id_str;
        ident \<leftarrow> mem_get m 0 RULE_ID_SIZE;
        (bl, st) \<leftarrow> rule_add_blist lib bl [] st;
        let (al, st) = rule_add_applist apps [] st;
        let rule = \<lparr>r_id = ident, refer_count = 0, r_action = action, blist = bl, applist = al\<rparr>;
        Some (0, st\<lparr>pc_rules := (pc_next st, rule) # pc_rules st, pc_next := pc_next st + 1\<rparr>)
      })"

fun remove_rule_loop :: "u8 list \<Rightarrow> (nat \<times> pc_rule) list \<Rightarrow> (int \<times> (nat \<times> pc_rule) list) option" where
  "remove_rule_loop ident [] = Some (0, [])"
| "remove_rule_loop ident ((a, r) # rs) = do {
     eq \<leftarrow> c_streq (r_id r) ident;
     if eq then
       (if refer_count r > 0 then Some (-1, (a, r) # rs) else remove_rule_loop ident rs)
     else do { (ret, rs) \<leftarrow> remove_rule_loop ident rs; Some (ret, (a, r) # rs) }
   }"

definition remove_pc_rule :: "u8 list \<Rightarrow> pc_state \<Rightarrow> (int \<times> pc_state) option" where
  "remove_pc_rule ident st = do {
     (ret, rs) \<leftarrow> remove_rule_loop ident (pc_rules st);
     Some (ret, st\<lparr>pc_rules := rs\<rparr>)
   }"

definition clean_pc_rule :: "pc_state \<Rightarrow> pc_state" where
  "clean_pc_rule st = st\<lparr>pc_rules := []\<rparr>"

text \<open>\<open>set_pc_rule\<close> changes every rule with the identifier in place.\<close>

fun set_rule_loop ::
  "klib \<Rightarrow> u8 list option \<Rightarrow> cjson option \<Rightarrow> int \<Rightarrow> cjson option \<Rightarrow> (nat \<times> pc_rule) list \<Rightarrow> pc_state \<Rightarrow>
     ((nat \<times> pc_rule) list \<times> pc_state) option" where
  "set_rule_loop lib id_str apps action bl [] st = Some ([], st)"
| "set_rule_loop lib id_str apps action bl ((a, r) # rs) st = do {
     m \<leftarrow> id_str;
     eq \<leftarrow> c_streq (r_id r) m;
     (r, st) \<leftarrow>
       (if eq then do {
          ident \<leftarrow> mem_get m 0 RULE_ID_SIZE;
          (b, st) \<leftarrow> rule_add_blist lib bl [] st;
          let (al, st) = rule_add_applist apps [] st;
          Some (r\<lparr>r_id := ident, blist := b, applist := al, r_action := action\<rparr>, st)
        }
        else Some (r, st));
     (rs, st) \<leftarrow> set_rule_loop lib id_str apps action bl rs st;
     Some ((a, r) # rs, st)
   }"

definition set_pc_rule ::
  "klib \<Rightarrow> u8 list option \<Rightarrow> cjson option \<Rightarrow> int \<Rightarrow> cjson option \<Rightarrow> pc_state \<Rightarrow> (int \<times> pc_state) option" where
  "set_pc_rule lib id_str apps action bl st = do {
     (rs, st) \<leftarrow> set_rule_loop lib id_str apps action bl (pc_rules st) st;
     Some (0, st\<lparr>pc_rules := rs\<rparr>)
   }"

fun find_rule_loop :: "u8 list option \<Rightarrow> (nat \<times> pc_rule) list \<Rightarrow> nat option option" where
  "find_rule_loop id_str [] = Some None"
| "find_rule_loop id_str ((a, r) # rs) = do {
     m \<leftarrow> id_str;
     eq \<leftarrow> c_streq (r_id r) m;
     if eq then Some (Some a) else find_rule_loop id_str rs
   }"

definition find_rule_by_id :: "u8 list option \<Rightarrow> pc_state \<Rightarrow> nat option option" where
  "find_rule_by_id id_str st = find_rule_loop id_str (pc_rules st)"

text \<open>Following the pointer of a group to its rule.\<close>

definition rule_at :: "pc_state \<Rightarrow> nat \<Rightarrow> pc_rule option" where
  "rule_at st a = map_of (pc_rules st) a"

text \<open>\<open>rule->refer_count += d\<close>; nothing for a null pointer.\<close>

definition add_refer :: "u32 \<Rightarrow> nat option \<Rightarrow> pc_state \<Rightarrow> pc_state option" where
  "add_refer d rule st =
     (case rule of
        None \<Rightarrow> Some st
      | Some a \<Rightarrow> do {
          _ \<leftarrow> rule_at st a;
          Some (st\<lparr>pc_rules := map (\<lambda>(b, r). (b, if b = a then r\<lparr>refer_count := refer_count r + d\<rparr> else r)) (pc_rules st)\<rparr>)
        })"

section \<open>Groups\<close>

text \<open>The format \<open>"%02x:%02x:%02x:%02x:%02x:%02x"\<close>.\<close>

definition fmt_mac :: cstr where
  "fmt_mac = concat (replicate 5 [37, 48, 50, 120, 58]) @ [37, 48, 50, 120]"

fun scan_ints :: "scan_val list \<Rightarrow> int list" where
  "scan_ints (Scan_Int i # vs) = i # scan_ints vs"
| "scan_ints _ = []"

definition mac_to_hex :: "klib \<Rightarrow> cstr \<Rightarrow> u8 list option" where
  "mac_to_hex lib mac =
     (let vs = scan_ints (kl_sscanf lib fmt_mac mac) in
      if length vs \<noteq> 6 then None else Some (map of_int vs))"

definition group_add_mac_item ::
  "klib \<Rightarrow> u8 list option \<Rightarrow> u8 list list \<Rightarrow> pc_state \<Rightarrow> (int \<times> u8 list list \<times> pc_state) option" where
  "group_add_mac_item lib str ms st =
     (let (ok, st) = pc_alloc st in
      if \<not> ok then Some (-1, ms, st)
      else do {
        m \<leftarrow> str;
        s \<leftarrow> cstr_of m;
        (case mac_to_hex lib s of
           Some mac \<Rightarrow> Some (0, mac # ms, st)
         | None \<Rightarrow> Some (-1, ms, st))
      })"

fun group_add_macs_loop :: "klib \<Rightarrow> cjson list \<Rightarrow> u8 list list \<Rightarrow> pc_state \<Rightarrow> (u8 list list \<times> pc_state) option" where
  "group_add_macs_loop lib [] ms st = Some (ms, st)"
| "group_add_macs_loop lib (it # its) ms st = do {
     (_, ms, st) \<leftarrow> group_add_mac_item lib (cj_valuestring it) ms st;
     group_add_macs_loop lib its ms st
   }"

definition group_add_macs :: "klib \<Rightarrow> cjson option \<Rightarrow> u8 list list \<Rightarrow> pc_state \<Rightarrow> (u8 list list \<times> pc_state) option" where
  "group_add_macs lib list ms st =
     (case list of None \<Rightarrow> Some (ms, st) | Some l \<Rightarrow> group_add_macs_loop lib (cj_child l) ms st)"

definition add_pc_group ::
  "klib \<Rightarrow> u8 list option \<Rightarrow> cjson option \<Rightarrow> u8 list option \<Rightarrow> pc_state \<Rightarrow> (int \<times> pc_state) option" where
  "add_pc_group lib id_str ms rule_id st =
     (let (ok, st) = pc_alloc st in
      if \<not> ok then Some (-1, st)
      else do {
        m \<leftarrow> id_str;
        ident \<leftarrow> mem_get m 0 GROUP_ID_SIZE;
        (ms, st) \<leftarrow> group_add_macs lib ms [] st;
        rule \<leftarrow> find_rule_by_id rule_id st;
        st \<leftarrow> add_refer 1 rule st;
        Some (0, st\<lparr>pc_groups := \<lparr>g_id = ident, macs = ms, g_rule = rule\<rparr> # pc_groups st\<rparr>)
      })"

text \<open>The loops below go on with the groups \<open>gs\<close>; those before are in their result.\<close>

fun remove_group_loop :: "u8 list \<Rightarrow> pc_group list \<Rightarrow> pc_state \<Rightarrow> (pc_group list \<times> pc_state) option" where
  "remove_group_loop ident [] st = Some ([], st)"
| "remove_group_loop ident (g # gs) st = do {
     eq \<leftarrow> c_streq (g_id g) ident;
     if eq then do { st \<leftarrow> add_refer (- 1) (g_rule g) st; remove_group_loop ident gs st }
     else do { (gs, st) \<leftarrow> remove_group_loop ident gs st; Some (g # gs, st) }
   }"

definition remove_pc_group :: "u8 list \<Rightarrow> pc_state \<Rightarrow> (int \<times> pc_state) option" where
  "remove_pc_group ident st = do {
     (gs, st) \<leftarrow> remove_group_loop ident (pc_groups st) st;
     Some (0, st\<lparr>pc_groups := gs\<rparr>)
   }"

fun clean_group_loop :: "pc_group list \<Rightarrow> pc_state \<Rightarrow> pc_state option" where
  "clean_group_loop [] st = Some st"
| "clean_group_loop (g # gs) st = do { st \<leftarrow> add_refer (- 1) (g_rule g) st; clean_group_loop gs st }"

definition clean_pc_group :: "pc_state \<Rightarrow> pc_state option" where
  "clean_pc_group st = do { st \<leftarrow> clean_group_loop (pc_groups st) st; Some (st\<lparr>pc_groups := []\<rparr>) }"

fun set_group_loop ::
  "klib \<Rightarrow> u8 list option \<Rightarrow> cjson option \<Rightarrow> nat option \<Rightarrow> pc_group list \<Rightarrow> pc_state \<Rightarrow>
     (pc_group list \<times> pc_state) option" where
  "set_group_loop lib id_str ms rule [] st = Some ([], st)"
| "set_group_loop lib id_str ms rule (g # gs) st = do {
     m \<leftarrow> id_str;
     eq \<leftarrow> c_streq (g_id g) m;
     (g, st) \<leftarrow>
       (if eq then do {
          (l, st) \<leftarrow> group_add_macs lib ms [] st;
          st \<leftarrow> add_refer (- 1) (g_rule g) st;
          st \<leftarrow> add_refer 1 rule st;
          Some (g\<lparr>macs := l, g_rule := rule\<rparr>, st)
        }
        else Some (g, st));
     (gs, st) \<leftarrow> set_group_loop lib id_str ms rule gs st;
     Some (g # gs, st)
   }"

definition set_pc_group ::
  "klib \<Rightarrow> u8 list option \<Rightarrow> cjson option \<Rightarrow> u8 list option \<Rightarrow> pc_state \<Rightarrow> (int \<times> pc_state) option" where
  "set_pc_group lib id_str ms rule_id st = do {
     rule \<leftarrow> find_rule_by_id rule_id st;
     (gs, st) \<leftarrow> set_group_loop lib id_str ms rule (pc_groups st) st;
     Some (0, st\<lparr>pc_groups := gs\<rparr>)
   }"

section \<open>Queries\<close>

definition find_group_by_mac :: "pc_state \<Rightarrow> u8 list \<Rightarrow> pc_group option" where
  "find_group_by_mac st mac = find (\<lambda>g. mac \<in> set (macs g)) (pc_groups st)"

definition get_action_by_mac :: "pc_state \<Rightarrow> u8 list \<Rightarrow> int option" where
  "get_action_by_mac st mac =
     (case find_group_by_mac st mac of
        None \<Rightarrow> Some PC_ACCEPT
      | Some g \<Rightarrow>
          (case g_rule g of
             None \<Rightarrow> Some PC_ACCEPT
           | Some a \<Rightarrow> do { r \<leftarrow> rule_at st a; Some (r_action r) }))"

text \<open>The rule and the action.\<close>

definition get_rule_by_mac :: "pc_state \<Rightarrow> u8 list \<Rightarrow> (nat option \<times> int) option" where
  "get_rule_by_mac st mac =
     (case find_group_by_mac st mac of
        Some g \<Rightarrow>
          (case g_rule g of
             Some a \<Rightarrow> do { r \<leftarrow> rule_at st a; Some (Some a, r_action r) }
           | None \<Rightarrow> Some (None, PC_ACCEPT))
      | None \<Rightarrow> Some (None, if pc_drop_anonymous st \<noteq> 0 then PC_DROP_ANONYMOUS else PC_ACCEPT))"

end
