(* ===== verification/Pc_Config.thy ===== *)
theory Pc_Config
  imports Pc_Policy
begin

text \<open>
  The configuration device of the parental-control module (\<open>pc_config.c\<close>): what is written to the
  character device between opening and closing it is one JSON command.  \<open>jm\<close> is the
  memory that the JSON parser works in.
\<close>

section \<open>Commands\<close>

definition str_drop_anonymous :: cstr where
  "str_drop_anonymous = [100, 114, 111, 112, 95, 97, 110, 111, 110, 121, 109, 111, 117, 115]"
definition str_src_dev :: cstr where "str_src_dev = [115, 114, 99, 95, 100, 101, 118]"
definition str_rules :: cstr where "str_rules = [114, 117, 108, 101, 115]"
definition str_groups :: cstr where "str_groups = [103, 114, 111, 117, 112, 115]"
definition str_id :: cstr where "str_id = [105, 100]"
definition str_action :: cstr where "str_action = [97, 99, 116, 105, 111, 110]"
definition str_apps :: cstr where "str_apps = [97, 112, 112, 115]"
definition str_blacklist :: cstr where "str_blacklist = [98, 108, 97, 99, 107, 108, 105, 115, 116]"
definition str_rule :: cstr where "str_rule = [114, 117, 108, 101]"
definition str_macs :: cstr where "str_macs = [109, 97, 99, 115]"
definition str_op :: cstr where "str_op = [111, 112]"
definition str_data :: cstr where "str_data = [100, 97, 116, 97]"

definition pc_set_base_config :: "cjson \<Rightarrow> pc_state \<Rightarrow> (int \<times> pc_state) option" where
  "pc_set_base_config data_obj st = do {
     aouobj \<leftarrow> cJSON_GetObjectItem data_obj str_drop_anonymous;
     (case aouobj of
        None \<Rightarrow> Some (-1, st)
      | Some a \<Rightarrow> do {
          let st = st\<lparr>pc_drop_anonymous := of_int (cj_valueint a)\<rparr>;
          srcobj \<leftarrow> cJSON_GetObjectItem data_obj str_src_dev;
          (case srcobj of
             None \<Rightarrow> Some (-1, st)
           | Some s \<Rightarrow> do {
               m \<leftarrow> cj_valuestring s;
               v \<leftarrow> cstr_of m;
               dev \<leftarrow> c_strncpy (pc_src_dev st) v (MAX_SRC_DEVNAME_SIZE - 1);
               Some (0, st\<lparr>pc_src_dev := dev\<rparr>)
             })
        })
   }"

text \<open>One element of the array of rules, with the result of the whole function when it ends early.\<close>

definition rule_config_one :: "klib \<Rightarrow> bool \<Rightarrow> cjson \<Rightarrow> pc_state \<Rightarrow> (int \<times> pc_state) option" where
  "rule_config_one lib is_add rule_obj st = do {
     id_obj \<leftarrow> cJSON_GetObjectItem rule_obj str_id;
     (case id_obj of
        None \<Rightarrow> Some (-1, st)
      | Some i \<Rightarrow> do {
          action_obj \<leftarrow> cJSON_GetObjectItem rule_obj str_action;
          (case action_obj of
             None \<Rightarrow> Some (-1, st)
           | Some a \<Rightarrow> do {
               apps \<leftarrow> cJSON_GetObjectItem rule_obj str_apps;
               blacklist \<leftarrow> cJSON_GetObjectItem rule_obj str_blacklist;
               (_, st) \<leftarrow> (if is_add
                          then add_pc_rule lib (cj_valuestring i) apps (cj_valueint a) blacklist st
                          else set_pc_rule lib (cj_valuestring i) apps (cj_valueint a) blacklist st);
               Some (0, st)
             })
        })
   }"

definition group_config_one :: "klib \<Rightarrow> bool \<Rightarrow> cjson \<Rightarrow> pc_state \<Rightarrow> (int \<times> pc_state) option" where
  "group_config_one lib is_add group_obj st = do {
     id_obj \<leftarrow> cJSON_GetObjectItem group_obj str_id;
     (case id_obj of
        None \<Rightarrow> Some (-1, st)
      | Some i \<Rightarrow> do {
          rule_obj \<leftarrow> cJSON_GetObjectItem group_obj str_rule;
          (case rule_obj of
             None \<Rightarrow> Some (-1, st)
           | Some r \<Rightarrow> do {
               ms \<leftarrow> cJSON_GetObjectItem group_obj str_macs;
               (_, st) \<leftarrow> (if is_add
                          then add_pc_group lib (cj_valuestring i) ms (cj_valuestring r) st
                          else set_pc_group lib (cj_valuestring i) ms (cj_valuestring r) st);
               Some (0, st)
             })
        })
   }"

text \<open>The loop over an array, which ends at the first element that is not complete.\<close>

fun config_loop :: "(cjson \<Rightarrow> pc_state \<Rightarrow> (int \<times> pc_state) option) \<Rightarrow> cjson list \<Rightarrow> pc_state \<Rightarrow> (int \<times> pc_state) option" where
  "config_loop one [] st = Some (0, st)"
| "config_loop one (c # cs) st = do {
     (ret, st) \<leftarrow> one c st;
     if ret < 0 then Some (ret, st) else config_loop one cs st
   }"

definition pc_set_rule_config :: "klib \<Rightarrow> cjson \<Rightarrow> bool \<Rightarrow> pc_state \<Rightarrow> (int \<times> pc_state) option" where
  "pc_set_rule_config lib data_obj is_add st = do {
     arr \<leftarrow> cJSON_GetObjectItem data_obj str_rules;
     (case arr of
        None \<Rightarrow> Some (-1, st)
      | Some a \<Rightarrow> config_loop (rule_config_one lib is_add) (cj_child a) st)
   }"

definition pc_set_group_config :: "klib \<Rightarrow> cjson \<Rightarrow> bool \<Rightarrow> pc_state \<Rightarrow> (int \<times> pc_state) option" where
  "pc_set_group_config lib data_obj is_add st = do {
     arr \<leftarrow> cJSON_GetObjectItem data_obj str_groups;
     (case arr of
        None \<Rightarrow> Some (-1, st)
      | Some a \<Rightarrow> config_loop (group_config_one lib is_add) (cj_child a) st)
   }"

definition PC_CMD_SET_BASE :: int where "PC_CMD_SET_BASE = 0"
definition PC_CMD_ADD_RULE :: int where "PC_CMD_ADD_RULE = 1"
definition PC_CMD_ADD_GROUP :: int where "PC_CMD_ADD_GROUP = 2"
definition PC_CMD_CLEAN_RULE :: int where "PC_CMD_CLEAN_RULE = 3"
definition PC_CMD_CLEAN_GROUP :: int where "PC_CMD_CLEAN_GROUP = 4"
definition PC_CMD_SET_RULE :: int where "PC_CMD_SET_RULE = 5"
definition PC_CMD_SET_GROUP :: int where "PC_CMD_SET_GROUP = 6"

text \<open>The results of the single commands are not looked at.\<close>

definition pc_command :: "klib \<Rightarrow> int \<Rightarrow> cjson option \<Rightarrow> pc_state \<Rightarrow> (int \<times> pc_state) option" where
  "pc_command lib cmd data_obj st =
     (let with_data = (\<lambda>f. case data_obj of
                             None \<Rightarrow> Some (0, st)
                           | Some d \<Rightarrow> do { (_, st) \<leftarrow> f d; Some (0::int, st) }) in
      if cmd = PC_CMD_SET_BASE then with_data (\<lambda>d. pc_set_base_config d st)
      else if cmd = PC_CMD_ADD_RULE then with_data (\<lambda>d. pc_set_rule_config lib d True st)
      else if cmd = PC_CMD_ADD_GROUP then with_data (\<lambda>d. pc_set_group_config lib d True st)
      else if cmd = PC_CMD_CLEAN_RULE then Some (0, clean_pc_rule st)
      else if cmd = PC_CMD_CLEAN_GROUP then do { st \<leftarrow> clean_pc_group st; Some (0, st) }
      else if cmd = PC_CMD_SET_RULE then with_data (\<lambda>d. pc_set_rule_config lib d False st)
      else if cmd = PC_CMD_SET_GROUP then with_data (\<lambda>d. pc_set_group_config lib d False st)
      else Some (-1, st))"

definition pc_config_handle ::
  "klib \<Rightarrow> json_mem \<Rightarrow> u8 list \<Rightarrow> nat \<Rightarrow> pc_state \<Rightarrow> (int \<times> pc_state) option" where
  "pc_config_handle lib jm config len st =
     (if len = 0 then Some (-1, st)
      else do {
        r \<leftarrow> cJSON_Parse lib jm config;
        (case r of
           None \<Rightarrow> Some (-1, st)
         | Some config_obj \<Rightarrow> do {
             cmd_obj \<leftarrow> cJSON_GetObjectItem config_obj str_op;
             (case cmd_obj of
                None \<Rightarrow> Some (-1, st)
              | Some c \<Rightarrow> do {
                  data_obj \<leftarrow> cJSON_GetObjectItem config_obj str_data;
                  pc_command lib (cj_valueint c) data_obj st
                })
           })
      })"

section \<open>The character device\<close>

definition PC_CDEV_BUF_SIZE :: nat where "PC_CDEV_BUF_SIZE = 256 * 1024"

record pc_cdev_file =
  cf_size :: nat
  cf_buf :: "u8 list"

text \<open>\<open>open\<close> takes a mutex that \<open>release\<close> gives back: the file is the state of the one opener.\<close>

definition pc_cdev_open :: pc_cdev_file where
  "pc_cdev_open = \<lparr>cf_size = 0, cf_buf = replicate PC_CDEV_BUF_SIZE 0\<rparr>"

definition EINVAL_ret :: int where "EINVAL_ret = -22"

text \<open>\<open>copied\<close> is the number of bytes that \<open>copy_from_user\<close> can read; it clears the rest of the
  destination and reports how many are missing.\<close>

definition pc_cdev_write :: "pc_cdev_file \<Rightarrow> u8 list \<Rightarrow> nat \<Rightarrow> (int \<times> pc_cdev_file) option" where
  "pc_cdev_write f bytes copied =
     (if cf_size f + length bytes > length (cf_buf f) then Some (EINVAL_ret, f)
      else do {
        b \<leftarrow> mem_put (cf_buf f) (cf_size f) (take copied bytes @ replicate (length bytes - copied) 0);
        if copied < length bytes then Some (EINVAL_ret, f\<lparr>cf_buf := b\<rparr>)
        else Some (int (length bytes), f\<lparr>cf_buf := b, cf_size := cf_size f + length bytes\<rparr>)
      })"

definition pc_cdev_release ::
  "klib \<Rightarrow> json_mem \<Rightarrow> pc_cdev_file \<Rightarrow> pc_state \<Rightarrow> pc_state option" where
  "pc_cdev_release lib jm f st = do {
     (_, st) \<leftarrow> pc_config_handle lib jm (cf_buf f) (cf_size f) st;
     Some st
   }"

text \<open>The module is unloaded: the groups go before the rules.\<close>

definition pc_policy_exit :: "pc_state \<Rightarrow> pc_state option" where
  "pc_policy_exit st = do {
     st \<leftarrow> clean_pc_group st;
     Some (pc_clean_app_feature_list (clean_pc_rule st))
   }"

end
