(* ===== verification/Pc_Policy_Inv.thy ===== *)
theory Pc_Policy_Inv
  imports Pc_Config
begin

text \<open>
  The reference counts of the rules: the invariant that a rule counts the groups that point to it and
  that no group points to a freed rule, and that the operations keep it.
\<close>

section \<open>The invariant\<close>

abbreviation rule_addrs :: "pc_state \<Rightarrow> nat set" where
  "rule_addrs st \<equiv> fst ` set (pc_rules st)"

fun group_refs :: "pc_group list \<Rightarrow> nat \<Rightarrow> u32" where
  "group_refs [] a = 0"
| "group_refs (g # gs) a = (if g_rule g = Some a then 1 else 0) + group_refs gs a"

definition live_groups :: "pc_group list \<Rightarrow> pc_state \<Rightarrow> bool" where
  "live_groups gs st \<longleftrightarrow> (\<forall>g \<in> set gs. \<forall>a. g_rule g = Some a \<longrightarrow> a \<in> rule_addrs st)"

definition counted :: "(nat \<Rightarrow> u32) \<Rightarrow> pc_state \<Rightarrow> bool" where
  "counted cnt st \<longleftrightarrow> distinct (map fst (pc_rules st)) \<and>
     (\<forall>(a, r) \<in> set (pc_rules st). a < pc_next st \<and> refer_count r = cnt a)"

definition policy_ok :: "pc_state \<Rightarrow> bool" where
  "policy_ok st \<longleftrightarrow> counted (group_refs (pc_groups st)) st \<and> live_groups (pc_groups st) st"

text \<open>What the operations on the applications and the allocator leave alone.\<close>

definition same_policy :: "pc_state \<Rightarrow> pc_state \<Rightarrow> bool" where
  "same_policy st st' \<longleftrightarrow>
     pc_rules st' = pc_rules st \<and> pc_groups st' = pc_groups st \<and> pc_next st' = pc_next st"

lemma same_policy_refl [simp]: "same_policy st st"
  by (simp add: same_policy_def)

lemma same_policy_trans: "same_policy st st' \<Longrightarrow> same_policy st' st'' \<Longrightarrow> same_policy st st''"
  by (simp add: same_policy_def)

lemma same_policy_ok: "same_policy st st' \<Longrightarrow> policy_ok st' = policy_ok st"
  by (simp add: same_policy_def policy_ok_def counted_def live_groups_def)

lemma same_policy_counted: "same_policy st st' \<Longrightarrow> counted cnt st' = counted cnt st"
  by (simp add: same_policy_def counted_def)

lemma same_policy_live: "same_policy st st' \<Longrightarrow> live_groups gs st' = live_groups gs st"
  by (simp add: same_policy_def live_groups_def)

lemma group_refs_append [simp]: "group_refs (gs @ gs') a = group_refs gs a + group_refs gs' a"
  by (induction gs) (simp_all add: add.assoc)

lemma live_groups_Nil [simp]: "live_groups [] st"
  by (simp add: live_groups_def)

lemma live_groups_Cons [simp]:
  "live_groups (g # gs) st \<longleftrightarrow> (\<forall>a. g_rule g = Some a \<longrightarrow> a \<in> rule_addrs st) \<and> live_groups gs st"
  by (auto simp: live_groups_def)

lemma live_groups_cong: "rule_addrs st' = rule_addrs st \<Longrightarrow> live_groups gs st' = live_groups gs st"
  by (simp add: live_groups_def)

section \<open>Allocation and the contents of rules and groups\<close>

lemma pc_alloc_same: "pc_alloc st = (ok, st') \<Longrightarrow> same_policy st st'"
  by (auto simp: pc_alloc_def same_policy_def split: list.splits)

lemma add_blist_item_same: "rule_add_blist_item lib str bl st = Some (ret, bl', st') \<Longrightarrow> same_policy st st'"
  by (auto simp: rule_add_blist_item_def split: prod.splits if_splits bind_splits dest: pc_alloc_same)

lemma add_blist_loop_same: "rule_add_blist_loop lib its bl st = Some (bl', st') \<Longrightarrow> same_policy st st'"
  by (induction lib its bl st rule: rule_add_blist_loop.induct)
     (auto split: bind_splits dest!: add_blist_item_same intro: same_policy_trans)

lemma add_blist_same: "rule_add_blist lib list bl st = Some (bl', st') \<Longrightarrow> same_policy st st'"
  by (auto simp: rule_add_blist_def split: option.splits dest: add_blist_loop_same)

lemma add_applist_loop_same: "rule_add_applist_loop its al st = (al', st') \<Longrightarrow> same_policy st st'"
proof (induction its al st rule: rule_add_applist_loop.induct)
  case (2 it its al st)
  obtain ret al1 st1 where i: "rule_add_applist_item (of_int (cj_valueint it)) al st = (ret, al1, st1)"
    using prod_cases3 by blast
  then have "same_policy st st1"
    by (auto simp: rule_add_applist_item_def split: prod.splits if_splits dest: pc_alloc_same)
  moreover have "same_policy st1 st'"
    using 2 i by (auto simp: Let_def)
  ultimately show ?case by (rule same_policy_trans)
qed simp

lemma add_applist_same: "rule_add_applist list al st = (al', st') \<Longrightarrow> same_policy st st'"
  by (auto simp: rule_add_applist_def split: option.splits dest: add_applist_loop_same)

lemma add_mac_item_same: "group_add_mac_item lib str ms st = Some (ret, ms', st') \<Longrightarrow> same_policy st st'"
  by (auto simp: group_add_mac_item_def split: prod.splits if_splits bind_splits option.splits dest: pc_alloc_same)

lemma add_macs_loop_same: "group_add_macs_loop lib its ms st = Some (ms', st') \<Longrightarrow> same_policy st st'"
  by (induction lib its ms st rule: group_add_macs_loop.induct)
     (auto split: bind_splits dest!: add_mac_item_same intro: same_policy_trans)

lemma add_macs_same: "group_add_macs lib list ms st = Some (ms', st') \<Longrightarrow> same_policy st st'"
  by (auto simp: group_add_macs_def split: option.splits dest: add_macs_loop_same)

section \<open>Counting\<close>

lemma rule_at_iff: "rule_at st a = None \<longleftrightarrow> a \<notin> rule_addrs st"
  by (simp add: rule_at_def map_of_eq_None_iff)

definition bump :: "nat option \<Rightarrow> u32 \<Rightarrow> (nat \<Rightarrow> u32) \<Rightarrow> nat \<Rightarrow> u32" where
  "bump rule d cnt a = cnt a + (if rule = Some a then d else 0)"

lemma add_refer_post:
  assumes "counted cnt st" and "\<And>a. rule = Some a \<Longrightarrow> a \<in> rule_addrs st"
  shows "post (add_refer d rule st) (\<lambda>st'. counted (bump rule d cnt) st' \<and> rule_addrs st' = rule_addrs st \<and>
           pc_groups st' = pc_groups st \<and> pc_next st' = pc_next st)"
proof (cases rule)
  case None
  with assms show ?thesis by (simp add: add_refer_def bump_def [abs_def])
next
  case (Some a)
  with assms(2) rule_at_iff [of st a] obtain r where r: "rule_at st a = Some r" by auto
  let ?f = "\<lambda>(b, r). (b, if b = a then r\<lparr>refer_count := refer_count r + d\<rparr> else r)"
  have fst: "fst \<circ> ?f = fst" by auto
  have "fst ` ?f ` set (pc_rules st) = rule_addrs st" by (simp add: image_image case_prod_beta)
  with assms(1) Some r show ?thesis
    by (auto simp: add_refer_def counted_def bump_def fst)
qed

lemma add_refer_SomeD:
  assumes "add_refer d rule st = Some st'" and "counted cnt st"
  shows "counted (bump rule d cnt) st'" "rule_addrs st' = rule_addrs st" "pc_groups st' = pc_groups st"
    "pc_next st' = pc_next st" "rule = Some a \<Longrightarrow> a \<in> rule_addrs st"
proof -
  have live: "b \<in> rule_addrs st" if "rule = Some b" for b
    using assms(1) that rule_at_iff [of st b] by (auto simp: add_refer_def split: bind_splits)
  then show "rule = Some a \<Longrightarrow> a \<in> rule_addrs st" .
  have "post (add_refer d rule st) (\<lambda>st'. counted (bump rule d cnt) st' \<and> rule_addrs st' = rule_addrs st \<and>
          pc_groups st' = pc_groups st \<and> pc_next st' = pc_next st)"
    using assms(2) live by (rule add_refer_post)
  with assms(1) show "counted (bump rule d cnt) st'" "rule_addrs st' = rule_addrs st"
    "pc_groups st' = pc_groups st" "pc_next st' = pc_next st"
    by simp_all
qed

lemma bump_release: "bump (g_rule g) (- 1) (\<lambda>a. c a + group_refs (g # gs) a) = (\<lambda>a. c a + group_refs gs a)"
  by (rule ext) (simp add: bump_def)

lemma bump_acquire:
  "bump rule 1 (\<lambda>a. c a + group_refs gs a) = (\<lambda>a. (c a + (if rule = Some a then 1 else 0)) + group_refs gs a)"
  by (rule ext) (simp add: bump_def)

lemma find_rule_loop_in: "find_rule_loop id_str rs = Some (Some a) \<Longrightarrow> a \<in> fst ` set rs"
  by (induction id_str rs rule: find_rule_loop.induct) (auto split: bind_splits if_splits)

lemma find_rule_in: "find_rule_by_id id_str st = Some (Some a) \<Longrightarrow> a \<in> rule_addrs st"
  by (simp add: find_rule_by_id_def find_rule_loop_in)

section \<open>Operations on groups\<close>

lemma clean_group_loop_post:
  "counted (\<lambda>a. c a + group_refs gs a) st \<Longrightarrow> live_groups gs st \<Longrightarrow>
     post (clean_group_loop gs st) (\<lambda>st'. counted c st' \<and> rule_addrs st' = rule_addrs st)"
proof (induction gs arbitrary: st)
  case (Cons g gs)
  have "post (add_refer (- 1) (g_rule g) st) (\<lambda>st'. counted (\<lambda>a. c a + group_refs gs a) st' \<and>
      rule_addrs st' = rule_addrs st \<and> pc_groups st' = pc_groups st \<and> pc_next st' = pc_next st)"
    using add_refer_post [OF Cons.prems(1), of "g_rule g" "- 1", unfolded bump_release] Cons.prems(2) by simp
  then obtain st1 where st1: "add_refer (- 1) (g_rule g) st = Some st1" "counted (\<lambda>a. c a + group_refs gs a) st1"
    "rule_addrs st1 = rule_addrs st"
    by (auto simp: post_iff)
  with Cons.IH [of st1] Cons.prems(2) live_groups_cong [OF st1(3), of gs] show ?case by simp
qed simp

lemma clean_pc_group_post:
  assumes "policy_ok st"
  shows "post (clean_pc_group st) (\<lambda>st'. policy_ok st' \<and> pc_groups st' = [])"
proof -
  have "post (clean_group_loop (pc_groups st) st) (\<lambda>st'. counted (\<lambda>a. 0) st' \<and> rule_addrs st' = rule_addrs st)"
    using assms by (intro clean_group_loop_post) (simp_all add: policy_ok_def)
  then show ?thesis
    by (auto simp: clean_pc_group_def policy_ok_def counted_def elim!: post_mono)
qed

lemma remove_group_loop_ok:
  "remove_group_loop ident gs st = Some (gs', st') \<Longrightarrow> counted (\<lambda>a. c a + group_refs gs a) st \<Longrightarrow>
     counted (\<lambda>a. c a + group_refs gs' a) st' \<and> rule_addrs st' = rule_addrs st \<and> set gs' \<subseteq> set gs"
proof (induction ident gs st arbitrary: c gs' st' rule: remove_group_loop.induct)
  case (2 ident g gs st)
  from "2.prems"(1) obtain eq where eq: "c_streq (g_id g) ident = Some eq"
    by (auto split: bind_splits)
  show ?case
  proof (cases eq)
    case True
    with "2.prems"(1) eq obtain st1 where st1: "add_refer (- 1) (g_rule g) st = Some st1"
      and r: "remove_group_loop ident gs st1 = Some (gs', st')"
      by (auto split: bind_splits)
    have "counted (\<lambda>a. c a + group_refs gs a) st1" "rule_addrs st1 = rule_addrs st"
      using add_refer_SomeD [OF st1 "2.prems"(2)] by (simp_all only: bump_release)
    with "2.IH"(1) [OF eq True st1 r, of c] show ?thesis by auto
  next
    case False
    with "2.prems"(1) eq obtain gs1 where r: "remove_group_loop ident gs st = Some (gs1, st')" "gs' = g # gs1"
      by (auto split: bind_splits)
    have "counted (\<lambda>a. (c a + (if g_rule g = Some a then 1 else 0)) + group_refs gs a) st"
      using "2.prems"(2) by (simp add: add.assoc)
    from "2.IH"(2) [OF eq False r(1) this] r(2) show ?thesis by (auto simp: add.assoc)
  qed
qed auto

lemma remove_pc_group_ok:
  assumes "remove_pc_group ident st = Some (ret, st')" and "policy_ok st"
  shows "policy_ok st'"
proof -
  obtain gs st1 where r: "remove_group_loop ident (pc_groups st) st = Some (gs, st1)" "st' = st1\<lparr>pc_groups := gs\<rparr>"
    using assms(1) by (auto simp: remove_pc_group_def split: bind_splits)
  from remove_group_loop_ok [OF r(1), of "\<lambda>a. 0"] assms(2)
  have "counted (group_refs gs) st1" "rule_addrs st1 = rule_addrs st" "set gs \<subseteq> set (pc_groups st)"
    by (simp_all add: policy_ok_def)
  with assms(2) r(2) show ?thesis
    by (auto simp: policy_ok_def counted_def live_groups_def)
qed

lemma set_group_loop_ok:
  "set_group_loop lib id_str ms rule gs st = Some (gs', st') \<Longrightarrow> counted (\<lambda>a. c a + group_refs gs a) st \<Longrightarrow>
     live_groups gs st \<Longrightarrow> (\<And>a. rule = Some a \<Longrightarrow> a \<in> rule_addrs st) \<Longrightarrow>
     counted (\<lambda>a. c a + group_refs gs' a) st' \<and> rule_addrs st' = rule_addrs st \<and> live_groups gs' st'"
proof (induction gs arbitrary: c gs' st st')
  case (Cons g gs)
  from Cons.prems(1) obtain m eq where eq: "id_str = Some m" "c_streq (g_id g) m = Some eq"
    by (auto split: bind_splits)
  show ?case
  proof (cases eq)
    case True
    with Cons.prems(1) eq obtain l st1 st2 st3 gs1 where
      l: "group_add_macs lib ms [] st = Some (l, st1)" and
      dec: "add_refer (- 1) (g_rule g) st1 = Some st2" and
      inc: "add_refer 1 rule st2 = Some st3" and
      r: "set_group_loop lib id_str ms rule gs st3 = Some (gs1, st')" "gs' = g\<lparr>macs := l, g_rule := rule\<rparr> # gs1"
      by (auto split: bind_splits)
    have same: "same_policy st st1" using l by (rule add_macs_same)
    then have "counted (\<lambda>a. c a + group_refs (g # gs) a) st1" using Cons.prems(2) by (simp add: same_policy_counted)
    note c2 = add_refer_SomeD(1,2) [OF dec this, unfolded bump_release]
    note c3 = add_refer_SomeD(1,2) [OF inc c2(1)]
    have "rule_addrs st1 = rule_addrs st" using same by (simp add: same_policy_def)
    with c2 c3 have addrs: "rule_addrs st3 = rule_addrs st" by simp
    have "counted (\<lambda>a. (c a + (if rule = Some a then 1 else 0)) + group_refs gs a) st3"
      using c3(1) by (simp only: bump_acquire)
    then have "counted (\<lambda>a. (c a + (if rule = Some a then 1 else 0)) + group_refs gs1 a) st' \<and>
        rule_addrs st' = rule_addrs st3 \<and> live_groups gs1 st'"
      using Cons.IH [OF r(1)] Cons.prems(3,4) addrs live_groups_cong [OF addrs, of gs] by simp
    with Cons.prems(4) addrs r(2) show ?thesis by (simp add: add.assoc)
  next
    case False
    with Cons.prems(1) eq obtain gs1 where r: "set_group_loop lib id_str ms rule gs st = Some (gs1, st')" "gs' = g # gs1"
      by (auto split: bind_splits)
    have "counted (\<lambda>a. (c a + (if g_rule g = Some a then 1 else 0)) + group_refs gs a) st"
      using Cons.prems(2) by (simp add: add.assoc)
    then have "counted (\<lambda>a. (c a + (if g_rule g = Some a then 1 else 0)) + group_refs gs1 a) st' \<and>
        rule_addrs st' = rule_addrs st \<and> live_groups gs1 st'"
      using Cons.IH [OF r(1)] Cons.prems(3,4) by simp
    with Cons.prems(3) r(2) show ?thesis by (simp add: add.assoc)
  qed
qed simp

lemma set_pc_group_ok:
  assumes "set_pc_group lib id_str ms rule_id st = Some (ret, st')" and "policy_ok st"
  shows "policy_ok st'"
proof -
  obtain rule gs st1 where f: "find_rule_by_id rule_id st = Some rule"
    and r: "set_group_loop lib id_str ms rule (pc_groups st) st = Some (gs, st1)" "st' = st1\<lparr>pc_groups := gs\<rparr>"
    using assms(1) by (auto simp: set_pc_group_def split: bind_splits)
  have "counted (group_refs gs) st1 \<and> live_groups gs st1"
    using set_group_loop_ok [OF r(1), of "\<lambda>a. 0"] assms(2) f find_rule_in by (auto simp: policy_ok_def)
  with r(2) show ?thesis by (simp add: policy_ok_def counted_def live_groups_def)
qed

lemma add_pc_group_ok:
  assumes "add_pc_group lib id_str ms rule_id st = Some (ret, st')" and "policy_ok st"
  shows "policy_ok st'"
proof -
  obtain ok st1 where al: "pc_alloc st = (ok, st1)" by force
  then have ok1: "policy_ok st1" using assms(2) pc_alloc_same same_policy_ok by blast
  show ?thesis
  proof (cases ok)
    case False
    with assms(1) al ok1 show ?thesis by (simp add: add_pc_group_def)
  next
    case True
    with assms(1) al obtain ident l st2 rule st3 where
      m: "group_add_macs lib ms [] st1 = Some (l, st2)" and
      f: "find_rule_by_id rule_id st2 = Some rule" and
      inc: "add_refer 1 rule st2 = Some st3" and
      st': "st' = st3\<lparr>pc_groups := \<lparr>g_id = ident, macs = l, g_rule = rule\<rparr> # pc_groups st3\<rparr>"
      by (auto simp: add_pc_group_def split: bind_splits)
    have ok2: "policy_ok st2" using m ok1 add_macs_same same_policy_ok by blast
    note i = add_refer_SomeD [OF inc, of "group_refs (pc_groups st2)"]
    have "bump rule 1 (group_refs (pc_groups st2)) = group_refs (pc_groups st')"
      using i(3) ok2 st' by (intro ext) (simp add: policy_ok_def bump_def add.commute)
    then have "counted (group_refs (pc_groups st')) st3"
      using i(1) ok2 by (simp add: policy_ok_def)
    then show ?thesis
      using i ok2 st' by (auto simp: policy_ok_def counted_def live_groups_def)
  qed
qed

section \<open>Operations on rules\<close>

lemma group_refs_none: "(\<And>g. g \<in> set gs \<Longrightarrow> g_rule g \<noteq> Some a) \<Longrightarrow> group_refs gs a = 0"
  by (induction gs) auto

lemma group_refs_count: "group_refs gs a = of_nat (length (filter (\<lambda>g. g_rule g = Some a) gs))"
  by (induction gs) simp_all

lemma group_refs_zero:
  assumes "group_refs gs a = 0" and "length gs < 2 ^ 32" and "g \<in> set gs"
  shows "g_rule g \<noteq> Some a"
proof
  assume "g_rule g = Some a"
  let ?n = "length (filter (\<lambda>g. g_rule g = Some a) gs)"
  have "?n < 2 ^ 32" using length_filter_le [of _ gs] assms(2) by (rule le_less_trans)
  moreover have "(of_nat ?n :: u32) = 0" using assms(1) by (simp add: group_refs_count)
  ultimately have "?n = 0" by (auto simp: word_of_nat_eq_0_iff dest: nat_dvd_not_less)
  with assms(3) \<open>g_rule g = Some a\<close> show False by (auto simp: filter_empty_conv)
qed

lemma add_pc_rule_ok:
  assumes "add_pc_rule lib id_str apps action bl st = Some (ret, st')" and "policy_ok st"
  shows "policy_ok st'"
proof -
  obtain ok st1 where al: "pc_alloc st = (ok, st1)" by force
  then have ok1: "policy_ok st1" using assms(2) pc_alloc_same same_policy_ok by blast
  show ?thesis
  proof (cases ok)
    case False
    with assms(1) al ok1 show ?thesis by (simp add: add_pc_rule_def)
  next
    case True
    with assms(1) al obtain ident b st2 where
      m: "rule_add_blist lib bl [] st1 = Some (b, st2)" and
      rest: "(let (al, st) = rule_add_applist apps [] st2;
                rule = \<lparr>r_id = ident, refer_count = 0, r_action = action, blist = b, applist = al\<rparr> in
              Some (0::int, st\<lparr>pc_rules := (pc_next st, rule) # pc_rules st, pc_next := pc_next st + 1\<rparr>)) = Some (ret, st')"
      by (auto simp: add_pc_rule_def split: bind_splits)
    obtain al st3 where al: "rule_add_applist apps [] st2 = (al, st3)" by force
    have ok3: "policy_ok st3"
      using m ok1 add_blist_same same_policy_ok add_applist_same [OF al] by blast
    then have new: "\<forall>a \<in> rule_addrs st3. a < pc_next st3" by (auto simp: policy_ok_def counted_def)
    with ok3 have "group_refs (pc_groups st3) (pc_next st3) = 0"
      unfolding policy_ok_def live_groups_def by (intro group_refs_none) blast
    moreover have "pc_next st3 \<notin> rule_addrs st3" using new by auto
    moreover have "st' = st3\<lparr>pc_rules := (pc_next st3, \<lparr>r_id = ident, refer_count = 0, r_action = action,
        blist = b, applist = al\<rparr>) # pc_rules st3, pc_next := Suc (pc_next st3)\<rparr>"
      using rest al by simp
    ultimately show ?thesis
      using ok3 unfolding policy_ok_def counted_def live_groups_def by (fastforce intro: less_SucI)
  qed
qed

lemma set_rule_loop_same:
  "set_rule_loop lib id_str apps action bl rs st = Some (rs', st') \<Longrightarrow>
     same_policy st st' \<and> map (\<lambda>(a, r). (a, refer_count r)) rs' = map (\<lambda>(a, r). (a, refer_count r)) rs"
proof (induction rs arbitrary: rs' st st')
  case (Cons x rs)
  obtain a r where x: "x = (a, r)" by (cases x)
  with Cons.prems obtain m eq where eq: "id_str = Some m" "c_streq (r_id r) m = Some eq"
    by (auto split: bind_splits)
  show ?case
  proof (cases eq)
    case True
    with Cons.prems eq x obtain ident b st1 where ident: "mem_get m 0 RULE_ID_SIZE = Some ident"
      and m: "rule_add_blist lib bl [] st = Some (b, st1)"
      by (auto split: bind_splits)
    obtain al st2 where al: "rule_add_applist apps [] st1 = (al, st2)" by force
    with Cons.prems eq x True ident m obtain rs1 where r: "set_rule_loop lib id_str apps action bl rs st2 = Some (rs1, st')"
      "rs' = (a, r\<lparr>r_id := ident, blist := b, applist := al, r_action := action\<rparr>) # rs1"
      by (auto split: bind_splits)
    have "same_policy st st2"
      using add_blist_same [OF m] add_applist_same [OF al] by (rule same_policy_trans)
    with Cons.IH [OF r(1)] r(2) x show ?thesis by (auto intro: same_policy_trans)
  next
    case False
    with Cons.prems eq x obtain rs1 where "set_rule_loop lib id_str apps action bl rs st = Some (rs1, st')"
      "rs' = (a, r) # rs1"
      by (auto split: bind_splits)
    with Cons.IH x show ?thesis by auto
  qed
qed simp

lemma set_pc_rule_ok:
  assumes "set_pc_rule lib id_str apps action bl st = Some (ret, st')" and "policy_ok st"
  shows "policy_ok st'"
proof -
  obtain rs st1 where r: "set_rule_loop lib id_str apps action bl (pc_rules st) st = Some (rs, st1)"
    "st' = st1\<lparr>pc_rules := rs\<rparr>"
    using assms(1) by (auto simp: set_pc_rule_def split: bind_splits)
  have same: "same_policy st st1"
    and eq: "map (\<lambda>(a, r). (a, refer_count r)) rs = map (\<lambda>(a, r). (a, refer_count r)) (pc_rules st)"
    using set_rule_loop_same [OF r(1)] by auto
  from arg_cong [OF eq, of "map fst"] have addrs: "map fst rs = map fst (pc_rules st)"
    by (simp add: comp_def case_prod_beta)
  have "(a, refer_count r) \<in> set (map (\<lambda>(a, r). (a, refer_count r)) (pc_rules st))" if "(a, r) \<in> set rs" for a r
    using that unfolding eq [symmetric] by force
  then have "a < pc_next st \<and> refer_count r = group_refs (pc_groups st) a" if "(a, r) \<in> set rs" for a r
    using that assms(2) by (fastforce simp: policy_ok_def counted_def)
  moreover have "fst ` set rs = rule_addrs st" using arg_cong [OF addrs, of set] by simp
  ultimately show ?thesis
    using assms(2) r(2) same addrs by (auto simp: policy_ok_def counted_def live_groups_def same_policy_def)
qed

lemma remove_rule_loop_kept:
  "remove_rule_loop ident rs = Some (ret, rs') \<Longrightarrow>
     set rs' \<subseteq> set rs \<and> (distinct (map fst rs) \<longrightarrow> distinct (map fst rs')) \<and>
     (\<forall>(a, r) \<in> set rs - set rs'. refer_count r = 0)"
proof (induction ident rs arbitrary: ret rs' rule: remove_rule_loop.induct)
  case (2 ident a r rs)
  from "2.prems" obtain eq where eq: "c_streq (r_id r) ident = Some eq" by (auto split: bind_splits)
  show ?case
  proof (cases eq)
    case True
    show ?thesis
    proof (cases "refer_count r > 0")
      case False
      with True eq "2.prems" have "remove_rule_loop ident rs = Some (ret, rs')" by simp
      from "2.IH"(1) [OF eq True False this] False show ?thesis by (auto simp: word_neq_0_conv [symmetric])
    qed (use True eq "2.prems" in auto)
  next
    case False
    with eq "2.prems" obtain rs1 where r: "remove_rule_loop ident rs = Some (ret, rs1)" "rs' = (a, r) # rs1"
      by (auto split: bind_splits)
    from "2.IH"(2) [OF eq False r(1)] have "set rs1 \<subseteq> set rs"
      "distinct (map fst rs) \<Longrightarrow> distinct (map fst rs1)" "\<forall>(a, r) \<in> set rs - set rs1. refer_count r = 0"
      by blast+
    moreover from this(1) have "fst ` set rs1 \<subseteq> fst ` set rs" by (rule image_mono)
    ultimately show ?thesis using r(2) by auto
  qed
qed simp

lemma remove_pc_rule_ok:
  assumes "remove_pc_rule ident st = Some (ret, st')" and "policy_ok st" and "length (pc_groups st) < 2 ^ 32"
  shows "policy_ok st'"
proof -
  obtain rs where r: "remove_rule_loop ident (pc_rules st) = Some (ret, rs)" "st' = st\<lparr>pc_rules := rs\<rparr>"
    using assms(1) by (auto simp: remove_pc_rule_def split: bind_splits)
  note kept = remove_rule_loop_kept [OF r(1)]
  have "a \<in> fst ` set rs" if "g \<in> set (pc_groups st)" "g_rule g = Some a" for g a
  proof (rule ccontr)
    assume a: "a \<notin> fst ` set rs"
    from that assms(2) have "a \<in> rule_addrs st" unfolding policy_ok_def live_groups_def by blast
    then obtain x where x: "(a, x) \<in> set (pc_rules st)" by force
    with a kept have "refer_count x = 0" by force
    with x assms(2) have "group_refs (pc_groups st) a = 0" by (auto simp: policy_ok_def counted_def)
    from group_refs_zero [OF this assms(3) that(1)] that(2) show False by simp
  qed
  with kept r(2) assms(2) show ?thesis by (fastforce simp: policy_ok_def counted_def live_groups_def)
qed

lemma clean_pc_rule_ok:
  "policy_ok st \<Longrightarrow> \<forall>g \<in> set (pc_groups st). g_rule g = None \<Longrightarrow> policy_ok (clean_pc_rule st)"
  by (simp add: clean_pc_rule_def policy_ok_def counted_def live_groups_def)

section \<open>Commands\<close>

lemma config_loop_ok:
  assumes "\<And>c st ret st'. one c st = Some (ret, st') \<Longrightarrow> policy_ok st \<Longrightarrow> policy_ok st'"
  shows "config_loop one cs st = Some (ret, st') \<Longrightarrow> policy_ok st \<Longrightarrow> policy_ok st'"
proof (induction cs arbitrary: st)
  case (Cons c cs)
  then obtain r st1 where o: "one c st = Some (r, st1)" by (auto split: bind_splits)
  from assms [OF o Cons.prems(2)] Cons.IH Cons.prems(1) o show ?case by (auto split: if_splits)
qed simp

lemma rule_config_one_ok:
  assumes "rule_config_one lib is_add c st = Some (ret, st')" and "policy_ok st"
  shows "policy_ok st'"
  using assms by (auto simp: rule_config_one_def split: bind_splits option.splits if_splits
      intro: add_pc_rule_ok set_pc_rule_ok)

lemma group_config_one_ok:
  assumes "group_config_one lib is_add c st = Some (ret, st')" and "policy_ok st"
  shows "policy_ok st'"
  using assms by (auto simp: group_config_one_def split: bind_splits option.splits if_splits
      intro: add_pc_group_ok set_pc_group_ok)

lemma set_base_config_same: "pc_set_base_config d st = Some (ret, st') \<Longrightarrow> same_policy st st'"
  by (auto simp: pc_set_base_config_def same_policy_def Let_def split: bind_splits option.splits)

lemma pc_command_ok:
  assumes "pc_command lib cmd data st = Some (ret, st')" and "policy_ok st"
    and "cmd = PC_CMD_CLEAN_RULE \<Longrightarrow> \<forall>g \<in> set (pc_groups st). g_rule g = None"
  shows "policy_ok st'"
proof -
  have rule: "policy_ok st1" if "pc_set_rule_config lib d b st = Some (r, st1)" for d b r st1
    using that assms(2) by (auto simp: pc_set_rule_config_def split: bind_splits option.splits
        intro: config_loop_ok [OF rule_config_one_ok])
  have group: "policy_ok st1" if "pc_set_group_config lib d b st = Some (r, st1)" for d b r st1
    using that assms(2) by (auto simp: pc_set_group_config_def split: bind_splits option.splits
        intro: config_loop_ok [OF group_config_one_ok])
  have base: "policy_ok st1" if "pc_set_base_config d st = Some (r, st1)" for d r st1
    using set_base_config_same [OF that] assms(2) by (simp add: same_policy_ok)
  have clean: "policy_ok st1" if "clean_pc_group st = Some st1" for st1
    using clean_pc_group_post [OF assms(2)] that by simp
  show ?thesis
    using assms clean_pc_rule_ok
    by (auto simp: pc_command_def Let_def split: if_splits option.splits bind_splits intro: rule group base clean)
qed

section \<open>Loading the applications\<close>

lemma add_app_same: "pc_add_app lib i nm f st = Some (ret, st') \<Longrightarrow> same_policy st st'"
  by (auto simp: pc_add_app_def add_app_feature_def same_policy_def pc_alloc_def Let_def
      split: bind_splits option.splits prod.splits if_splits list.splits)

lemma feature_one_same: "feature_one lib i nm f n st = Some st' \<Longrightarrow> same_policy st st'"
  by (auto simp: feature_one_def split: bind_splits dest: add_app_same)

lemma feature_loop_same: "feature_loop lib i nm fs st = Some st' \<Longrightarrow> same_policy st st'"
  by (induction fs arbitrary: st)
     (auto split: bind_splits dest!: feature_one_same intro: same_policy_trans)

lemma init_feature_same: "pc_init_feature lib line st = Some st' \<Longrightarrow> same_policy st st'"
  by (auto simp: pc_init_feature_def split: if_splits bind_splits prod.splits
      dest!: feature_loop_same feature_one_same intro: same_policy_trans)

lemma feature_line_same: "feature_line lib l n st = Some st' \<Longrightarrow> same_policy st st'"
  by (auto simp: feature_line_def split: if_splits bind_splits dest: init_feature_same)

lemma line_loop_same: "line_loop lib ls st = Some st' \<Longrightarrow> same_policy st st'"
  by (induction ls arbitrary: st)
     (auto split: bind_splits dest!: feature_line_same intro: same_policy_trans)

lemma load_features_same:
  assumes "pc_load_app_feature_list lib file slack st = Some (ret, st')"
  shows "same_policy st st'"
proof -
  obtain buf st1 where b: "load_feature_buf_from_file file slack st = (buf, st1)" by force
  then have "same_policy st st1"
    by (auto simp: load_feature_buf_from_file_def split: option.splits if_splits prod.splits dest: pc_alloc_same)
  moreover have "same_policy st1 st'"
    using assms b by (auto simp: pc_load_app_feature_list_def split: option.splits bind_splits prod.splits
        dest!: line_loop_same feature_line_same intro: same_policy_trans)
  ultimately show ?thesis by (rule same_policy_trans)
qed

section \<open>Reachable states\<close>

text \<open>The commands of the device, the loading of the applications, and the two functions to remove
  rules and groups.  The command that frees all rules may come only when no group points to one.\<close>

inductive pc_step :: "klib \<Rightarrow> pc_state \<Rightarrow> pc_state \<Rightarrow> bool" for lib where
  step_command: "pc_command lib cmd data st = Some (ret, st') \<Longrightarrow>
     (cmd = PC_CMD_CLEAN_RULE \<Longrightarrow> \<forall>g \<in> set (pc_groups st). g_rule g = None) \<Longrightarrow> pc_step lib st st'"
| step_load: "pc_load_app_feature_list lib file slack st = Some (ret, st') \<Longrightarrow> pc_step lib st st'"
| step_remove_rule: "remove_pc_rule ident st = Some (ret, st') \<Longrightarrow> length (pc_groups st) < 2 ^ 32 \<Longrightarrow> pc_step lib st st'"
| step_remove_group: "remove_pc_group ident st = Some (ret, st') \<Longrightarrow> pc_step lib st st'"

inductive pc_reach :: "klib \<Rightarrow> pc_state \<Rightarrow> bool" for lib where
  reach_init: "pc_rules st = [] \<Longrightarrow> pc_groups st = [] \<Longrightarrow> pc_reach lib st"
| reach_step: "pc_reach lib st \<Longrightarrow> pc_step lib st st' \<Longrightarrow> pc_reach lib st'"

inductive_cases pc_stepE: "pc_step lib st st'"

lemma pc_step_ok: "pc_step lib st st' \<Longrightarrow> policy_ok st \<Longrightarrow> policy_ok st'"
  by (erule pc_stepE)
     (auto intro: pc_command_ok remove_pc_rule_ok remove_pc_group_ok dest: load_features_same simp: same_policy_ok)

lemma pc_reach_ok: "pc_reach lib st \<Longrightarrow> policy_ok st"
proof (induction rule: pc_reach.induct)
  case (reach_init st)
  then show ?case by (simp add: policy_ok_def counted_def)
qed (rule pc_step_ok)

section \<open>The interface to the filter\<close>

text \<open>What the filter relies on: the lookup of an address succeeds, it returns a rule that is still
  there, with the action it returns, and without a rule it returns an action that needs none.\<close>

locale rule_lookup =
  fixes ok :: "'st \<Rightarrow> bool" and lookup :: "'st \<Rightarrow> u8 list \<Rightarrow> ('ptr option \<times> int) option"
    and deref :: "'st \<Rightarrow> 'ptr \<Rightarrow> 'rule option" and act :: "'rule \<Rightarrow> int"
  assumes lookup_total: "ok st \<Longrightarrow> \<exists>p a. lookup st mac = Some (p, a)"
    and lookup_live: "ok st \<Longrightarrow> lookup st mac = Some (Some p, a) \<Longrightarrow> \<exists>r. deref st p = Some r \<and> act r = a"
    and lookup_none: "ok st \<Longrightarrow> lookup st mac = Some (None, a) \<Longrightarrow> a = PC_ACCEPT \<or> a = PC_DROP_ANONYMOUS"
begin

lemma policy_rule_live:
  assumes "ok st" and "lookup st mac = Some (p, a)" and "a = PC_POLICY_DROP \<or> a = PC_POLICY_ACCEPT"
  shows "\<exists>q r. p = Some q \<and> deref st q = Some r \<and> act r = a"
proof (cases p)
  case None
  with lookup_none [OF assms(1), of mac a] assms(2,3) show ?thesis by auto
next
  case (Some q)
  with lookup_live [OF assms(1)] assms(2) show ?thesis by auto
qed

end

lemma linked_rule_at:
  assumes "policy_ok st" and "g \<in> set (pc_groups st)" and "g_rule g = Some a"
  shows "\<exists>r. rule_at st a = Some r"
  using assms rule_at_iff [of st a] by (auto simp: policy_ok_def live_groups_def)

lemma get_rule_by_mac_cases:
  assumes "policy_ok st"
  shows "(\<exists>a r. get_rule_by_mac st mac = Some (Some a, r_action r) \<and> rule_at st a = Some r) \<or>
    get_rule_by_mac st mac = Some (None, PC_ACCEPT) \<or> get_rule_by_mac st mac = Some (None, PC_DROP_ANONYMOUS)"
proof (cases "find_group_by_mac st mac")
  case None
  then show ?thesis by (simp add: get_rule_by_mac_def)
next
  case (Some g)
  then have g: "g \<in> set (pc_groups st)" by (auto simp: find_group_by_mac_def find_Some_iff)
  show ?thesis
  proof (cases "g_rule g")
    case None
    with Some show ?thesis by (simp add: get_rule_by_mac_def)
  next
    case (Some a)
    with linked_rule_at [OF assms g] obtain r where "rule_at st a = Some r" by blast
    with \<open>find_group_by_mac st mac = Some g\<close> Some show ?thesis by (simp add: get_rule_by_mac_def)
  qed
qed

interpretation pol: rule_lookup policy_ok get_rule_by_mac rule_at r_action
proof unfold_locales
  fix st mac p a
  show "policy_ok st \<Longrightarrow> \<exists>p a. get_rule_by_mac st mac = Some (p, a)"
    using get_rule_by_mac_cases by blast
  show "policy_ok st \<Longrightarrow> get_rule_by_mac st mac = Some (Some p, a) \<Longrightarrow> \<exists>r. rule_at st p = Some r \<and> r_action r = a"
    using get_rule_by_mac_cases [of st mac] by auto
  show "policy_ok st \<Longrightarrow> get_rule_by_mac st mac = Some (None, a) \<Longrightarrow> a = PC_ACCEPT \<or> a = PC_DROP_ANONYMOUS"
    using get_rule_by_mac_cases [of st mac] by auto
qed

end
