(* ===== verification/Pc_Regexp.thy ===== *)
theory Pc_Regexp
  imports Prelude
begin

text \<open>
  The regular expressions of the parental-control module (\<open>regexp.c\<close>): compiling a pattern into
  a list of nodes and the backtracking matcher.  A pattern is the memory from its pointer to the
  end of its object, so that the reads behind the terminating null byte show; a text is a C
  string.  Plain \<open>char\<close> is unsigned on the target.
\<close>

section \<open>Nodes\<close>

datatype re_type = RE_CHAR | RE_DOT | RE_BEGIN | RE_END | RE_STAR | RE_PLUS | RE_QUES | RE_LIST

text \<open>\<open>struct RE\<close>; the pointer \<open>next\<close> is the order of a list.\<close>

record re_node =
  re_type :: re_type
  re_ch :: int
  re_ccl :: "u8 list"
  re_nccl :: bool

text \<open>The memory allocator: what the coming calls of \<open>getmem\<close> return.  A node holds whatever its
  memory held before, until its fields are written; \<^term>\<open>None\<close> is a null pointer.\<close>

type_synonym re_heap = "nat \<Rightarrow> re_node option"

section \<open>Compiling\<close>

text \<open>\<open>creat_list\<close> writes the characters from \<open>start\<close> to \<open>stop\<close> behind the \<open>acc\<close> bytes that the
  buffer of \<open>cap\<close> bytes holds, and the caller advances its pointer by the count, an unsigned
  number: for an inverted range the pointer moves backwards.  The result is what the
  buffer holds before the pointer.\<close>

definition creat_list :: "nat \<Rightarrow> u8 list \<Rightarrow> int \<Rightarrow> int \<Rightarrow> u8 list option" where
  "creat_list cap acc start stop =
     (let cnt = stop - start + 1 in
      if 0 \<le> cnt
      then (if length acc + nat cnt \<le> cap then Some (acc @ map of_int [start..stop]) else None)
      else (if nat (- cnt) \<le> length acc then Some (take (length acc - nat (- cnt)) acc) else None))"

abbreviation (input) CCL_SIZE :: nat where "CCL_SIZE \<equiv> 256"

text \<open>The characters of a bracket expression.  \<open>prev\<close> is the character before the pointer; the
  boolean of the result is \<open>err_flag\<close>.\<close>

fun ccl_loop :: "u8 \<Rightarrow> u8 list \<Rightarrow> u8 list \<Rightarrow> (u8 list \<times> bool \<times> u8 list) option" where
  "ccl_loop prev acc [] = None"
| "ccl_loop prev acc (c # s) =
     (if c = 0 \<or> c = 93 then Some (acc, False, c # s)
      else if c \<noteq> 45 then
        (if length acc < CCL_SIZE then ccl_loop c (acc @ [c]) s else None)
      else if acc = [] then Some (acc, True, c # s)
      else
        (case s of
           [] \<Rightarrow> None
         | c1 # s1 \<Rightarrow>
             (if c1 = 93 then Some (acc, True, c # s)
              else do { acc \<leftarrow> creat_list CCL_SIZE acc (uint prev + 1) (uint c1); ccl_loop c1 acc s1 })))"

text \<open>One turn of the loop of \<open>compile\<close>, for the character \<open>c\<close> with \<open>s\<close> behind it: the node, or
  \<^term>\<open>None\<close> when \<open>err_flag\<close> is set, the number of allocations so far, and the rest of the pattern.\<close>

definition compile_node :: "re_heap \<Rightarrow> nat \<Rightarrow> u8 \<Rightarrow> u8 list \<Rightarrow> (re_node option \<times> nat \<times> u8 list) option" where
  "compile_node mem k c s = do {
     tmp \<leftarrow> mem k;
     if c = 92 then do {
       c1 \<leftarrow> arr_get s 0;
       if c1 = 100 \<or> c1 = 68 then do {
         _ \<leftarrow> mem (k + 1);
         ccl \<leftarrow> creat_list 11 [] 48 57;
         buf \<leftarrow> arr_set (ccl @ replicate (11 - length ccl) 0) 11 0;
         Some (Some (tmp\<lparr>re_type := RE_LIST, re_nccl := (c1 = 68), re_ccl := takeWhile (\<lambda>x. x \<noteq> 0) buf\<rparr>),
               k + 2, drop 1 s)
       }
       else do {
         c2 \<leftarrow> arr_get s 1;
         Some (Some (tmp\<lparr>re_type := RE_CHAR, re_ch := uint c2\<rparr>), k + 1, drop 1 s)
       }
     }
     else if c = 46 then Some (Some (tmp\<lparr>re_type := RE_DOT\<rparr>), k + 1, s)
     else if c = 94 then Some (Some (tmp\<lparr>re_type := RE_BEGIN, re_ch := 94\<rparr>), k + 1, s)
     else if c = 36 then Some (Some (tmp\<lparr>re_type := RE_END, re_ch := 36\<rparr>), k + 1, s)
     else if c = 42 then Some (Some (tmp\<lparr>re_type := RE_STAR\<rparr>), k + 1, s)
     else if c = 43 then Some (Some (tmp\<lparr>re_type := RE_PLUS\<rparr>), k + 1, s)
     else if c = 63 then Some (Some (tmp\<lparr>re_type := RE_QUES\<rparr>), k + 1, s)
     else if c = 91 then do {
       _ \<leftarrow> mem (k + 1);
       c1 \<leftarrow> arr_get s 0;
       let nccl = (c1 = 94);
       (acc, err, s) \<leftarrow> ccl_loop (if nccl then 94 else 91) [] (if nccl then drop 1 s else s);
       (if length acc < CCL_SIZE then Some () else None);
       c3 \<leftarrow> arr_get s 0;
       Some (if err \<or> c3 = 0 then None
             else Some (tmp\<lparr>re_type := RE_LIST, re_nccl := nccl, re_ccl := acc\<rparr>), k + 2, drop 1 s)
     }
     else Some (Some (tmp\<lparr>re_type := RE_CHAR, re_ch := uint c\<rparr>), k + 1, s)
   }"

lemma ccl_loop_length: "ccl_loop prev acc s = Some (acc', err, s') \<Longrightarrow> length s' \<le> length s"
  by (induction prev acc s rule: ccl_loop.induct)
     (auto split: if_splits list.splits bind_splits intro: le_SucI)

lemma compile_node_length: "compile_node mem k c s = Some (r, k', s') \<Longrightarrow> length s' \<le> length s"
  by (auto simp: compile_node_def Let_def split: if_splits bind_splits dest!: ccl_loop_length)

text \<open>\<open>compile\<close>; an empty list is the null pointer, for an empty pattern or an error.  The loop reads
  the next character before it looks at \<open>err_flag\<close>.\<close>

function compile_loop :: "re_heap \<Rightarrow> nat \<Rightarrow> u8 list \<Rightarrow> re_node list option option" where
  "compile_loop mem k s = do {
     c \<leftarrow> arr_get s 0;
     if c = 0 then Some (Some [])
     else do {
       (r, k, s) \<leftarrow> compile_node mem k c (drop 1 s);
       (case r of
          None \<Rightarrow> do { _ \<leftarrow> arr_get s 0; Some None }
        | Some n \<Rightarrow> do { ns \<leftarrow> compile_loop mem k s; Some (map_option ((#) n) ns) })
     }
   }"
  by pat_completeness auto
termination
  by (relation "measure (\<lambda>(mem, k, s). length s)")
     (auto simp: arr_get_def neq_Nil_conv split: if_splits dest!: compile_node_length)

declare compile_loop.simps [simp del]

definition compile :: "re_heap \<Rightarrow> u8 list \<Rightarrow> re_node list option" where
  "compile mem s = do { r \<leftarrow> compile_loop mem 0 s; Some (case r of None \<Rightarrow> [] | Some ns \<Rightarrow> ns) }"

section \<open>Matching\<close>

definition in_list :: "u8 \<Rightarrow> re_node \<Rightarrow> bool" where
  "in_list c n \<longleftrightarrow> re_type n = RE_LIST \<and> (c \<in> set (re_ccl n)) \<noteq> re_nccl n"

text \<open>\<open>MATCH_ONE\<close> and \<open>MATCH_ONE_P\<close>, which differ in the step of the text pointer.\<close>

definition match_one :: "re_node \<Rightarrow> u8 \<Rightarrow> bool" where
  "match_one n c \<longleftrightarrow> re_type n = RE_DOT \<or> in_list c n \<or> uint c = re_ch n"

text \<open>\<open>longest\<close> is the global \<open>match_longest\<close>.  \<open>matchback cur re text n lo\<close> is the loop that tries the
  rest of the expression at the positions from \<open>n\<close> down to \<open>lo\<close>.\<close>

declare conj_cong [fundef_cong]

function matchhere :: "bool \<Rightarrow> re_node list \<Rightarrow> cstr \<Rightarrow> bool"
  and matchstar :: "bool \<Rightarrow> re_node \<Rightarrow> re_node list \<Rightarrow> cstr \<Rightarrow> bool"
  and matchplus :: "bool \<Rightarrow> re_node \<Rightarrow> re_node list \<Rightarrow> cstr \<Rightarrow> bool"
  and matchback :: "bool \<Rightarrow> re_node list \<Rightarrow> cstr \<Rightarrow> nat \<Rightarrow> nat \<Rightarrow> bool" where
  "matchhere longest re text =
     (case re of
        [] \<Rightarrow> True
      | cur # next \<Rightarrow>
          if re_type cur = RE_END \<and> next = [] then text = []
          else if next \<noteq> [] \<and> re_type (hd next) = RE_STAR then
            (if longest
             then matchback longest (tl next) text (length (takeWhile (match_one cur) text)) 0
             else matchstar longest cur (tl next) text)
          else if next \<noteq> [] \<and> re_type (hd next) = RE_PLUS then
            (if longest
             then (let n = length (takeWhile (match_one cur) text) in
                   n > 0 \<and> matchback longest (tl next) text n 1)
             else matchplus longest cur (tl next) text)
          else if next \<noteq> [] \<and> re_type (hd next) = RE_QUES then
            matchback longest (tl next) text (if text \<noteq> [] \<and> match_one cur (hd text) then 1 else 0) 0
          else text \<noteq> [] \<and> match_one cur (hd text) \<and> matchhere longest next (tl text))"
| "matchstar longest cur re text =
     (matchhere longest re text \<or>
      (text \<noteq> [] \<and> match_one cur (hd text) \<and> matchstar longest cur re (tl text)))"
| "matchplus longest cur re text =
     (text \<noteq> [] \<and> match_one cur (hd text) \<and>
      (matchhere longest re (tl text) \<or> matchplus longest cur re (tl text)))"
| "matchback longest re text n lo =
     (matchhere longest re (drop n text) \<or> (n > lo \<and> matchback longest re text (n - 1) lo))"
  by pat_completeness auto
termination
  by (relation "measures
        [\<lambda>x. case x of
             Inl (Inl (l, re, t)) \<Rightarrow> 2 * length re
           | Inl (Inr (l, cur, re, t)) \<Rightarrow> 2 * length re + 1
           | Inr (Inl (l, cur, re, t)) \<Rightarrow> 2 * length re + 1
           | Inr (Inr (l, re, t, n, lo)) \<Rightarrow> 2 * length re + 1,
         \<lambda>x. case x of
             Inl (Inl (l, re, t)) \<Rightarrow> length t
           | Inl (Inr (l, cur, re, t)) \<Rightarrow> length t
           | Inr (Inl (l, cur, re, t)) \<Rightarrow> length t
           | Inr (Inr (l, re, t, n, lo)) \<Rightarrow> n]")
     (auto simp: neq_Nil_conv)

declare matchhere.simps [simp del] matchstar.simps [simp del] matchplus.simps [simp del] matchback.simps [simp del]

text \<open>The search of \<open>regexp_match\<close> at every position of the text, its end included.\<close>

fun match_search :: "bool \<Rightarrow> re_node list \<Rightarrow> cstr \<Rightarrow> bool" where
  "match_search longest re [] = matchhere longest re []"
| "match_search longest re (c # text) =
     (matchhere longest re (c # text) \<or> match_search longest re text)"

definition regexp_match :: "re_heap \<Rightarrow> bool \<Rightarrow> u8 list \<Rightarrow> cstr \<Rightarrow> int option" where
  "regexp_match mem longest reg text = do {
     re \<leftarrow> compile mem reg;
     Some (case re of
        [] \<Rightarrow> -1
      | n # ns \<Rightarrow>
          of_bool (if re_type n = RE_BEGIN then matchhere longest ns text
                   else match_search longest re text))
   }"

end
