(* ===== verification/Pc_Filter.thy ===== *)
theory Pc_Filter
  imports Pc_Policy Pc_Regexp
begin

text \<open>
  The packet filter of the parental-control module (\<open>pc_filter.c\<close>): parsing the headers of a packet,
  finding the host and the request in it, matching it with the applications and deciding.
  The data of a packet are the memory from \<open>l4_data\<close> to the end of its object; the pointers into
  it are offsets.  \<open>hp\<close> and \<open>longest\<close> are what the regular expressions depend on.
\<close>

section \<open>Packets and flows\<close>

definition MIN_HTTP_DATA_LEN :: int where "MIN_HTTP_DATA_LEN = 16"
definition MAX_URL_MATCH_LEN :: int where "MAX_URL_MATCH_LEN = 64"
definition HTTPS_URL_OFFSET :: nat where "HTTPS_URL_OFFSET = 9"
definition HTTPS_LEN_OFFSET :: nat where "HTTPS_LEN_OFFSET = 7"
definition MAX_APP_IN_CLASS :: u32 where "MAX_APP_IN_CLASS = 1000"

abbreviation (input) HTTP_METHOD_GET :: nat where "HTTP_METHOD_GET \<equiv> 1"
abbreviation (input) HTTP_METHOD_POST :: nat where "HTTP_METHOD_POST \<equiv> 2"
abbreviation (input) NF_DROP :: nat where "NF_DROP \<equiv> 0"
abbreviation (input) NF_ACCEPT :: nat where "NF_ACCEPT \<equiv> 1"
abbreviation (input) IP_CT_ESTABLISHED :: nat where "IP_CT_ESTABLISHED \<equiv> 0"
abbreviation (input) IP_CT_RELATED :: nat where "IP_CT_RELATED \<equiv> 1"
abbreviation (input) IP_CT_IS_REPLY :: nat where "IP_CT_IS_REPLY \<equiv> 3"

text \<open>A packet: the name of its device, the source address of its Ethernet header, the state of its
  connection, the memory from the network header and from \<open>skb->data\<close>.\<close>

record sk_buff =
  skb_dev :: "cstr option"
  skb_eth_source :: "u8 list option"
  skb_ctinfo :: nat
  skb_network :: "u8 list option"
  skb_data :: "u8 list"

record http_proto =
  h_match :: bool
  h_method :: nat
  h_url_pos :: "nat option"
  h_url_len :: int
  h_host_pos :: "nat option"
  h_host_len :: int
  h_data_pos :: "nat option"
  h_data_len :: int

record https_proto =
  hs_match :: bool
  hs_url_pos :: "nat option"
  hs_url_len :: int

record flow_info =
  smac :: "u8 list"
  f_src :: u32
  f_dst :: u32
  l4_protocol :: u32
  f_sport :: u16
  f_dport :: u16
  l4_data :: "u8 list option"
  l4_len :: int
  http :: http_proto
  https :: https_proto
  f_app_id :: u32
  f_app_name :: "u8 list"
  f_drop :: bool

definition zero_flow :: flow_info where
  "zero_flow = \<lparr>smac = replicate 6 0, f_src = 0, f_dst = 0, l4_protocol = 0, f_sport = 0, f_dport = 0,
     l4_data = None, l4_len = 0,
     http = \<lparr>h_match = False, h_method = 0, h_url_pos = None, h_url_len = 0, h_host_pos = None,
       h_host_len = 0, h_data_pos = None, h_data_len = 0\<rparr>,
     https = \<lparr>hs_match = False, hs_url_pos = None, hs_url_len = 0\<rparr>,
     f_app_id = 0, f_app_name = replicate MAX_APP_NAME_LEN 0, f_drop = False\<rparr>"

text \<open>A 16-bit field in network byte order.\<close>

definition rd_be16 :: "u8 list \<Rightarrow> nat \<Rightarrow> u16 option" where
  "rd_be16 m i = do { a \<leftarrow> arr_get m i; b \<leftarrow> arr_get m (i + 1); Some (push_bit 8 (ucast a) OR ucast b) }"

definition parse_flow_proto :: "sk_buff \<Rightarrow> flow_info \<Rightarrow> (int \<times> flow_info) option" where
  "parse_flow_proto skb flow =
     (case skb_network skb of
        None \<Rightarrow> Some (-1, flow)
      | Some iph \<Rightarrow> do {
          saddr \<leftarrow> rd32 iph 12;
          daddr \<leftarrow> rd32 iph 16;
          pr \<leftarrow> arr_get iph 9;
          let flow = flow\<lparr>f_src := saddr, f_dst := daddr, l4_protocol := ucast pr\<rparr>;
          b0 \<leftarrow> arr_get iph 0;
          let ihl = unat (b0 AND 15) * 4;
          if pr = 6 then do {
            d \<leftarrow> arr_get iph 32;
            let doff = unat (drop_bit 4 d) * 4;
            tot \<leftarrow> rd_be16 iph 2;
            dp \<leftarrow> rd_be16 iph 22;
            sp \<leftarrow> rd_be16 iph 20;
            Some (0, flow\<lparr>l4_data := Some (drop (ihl + doff) (skb_data skb)),
              l4_len := uint tot - int ihl - int doff, f_dport := dp, f_sport := sp\<rparr>)
          }
          else if pr = 17 then do {
            len \<leftarrow> rd_be16 iph 24;
            dp \<leftarrow> rd_be16 iph 22;
            sp \<leftarrow> rd_be16 iph 20;
            Some (0, flow\<lparr>l4_data := Some (drop (ihl + 8) (skb_data skb)),
              l4_len := uint len - 8, f_dport := dp, f_sport := sp\<rparr>)
          }
          else Some (-1, flow)
        })"

section \<open>The host of an HTTPS packet\<close>

text \<open>The loop, with the offset and the length of the host when it is found.\<close>

function https_loop :: "u8 list \<Rightarrow> int \<Rightarrow> nat \<Rightarrow> (nat \<times> int) option option" where
  "https_loop p data_len i =
     (if int i \<ge> data_len then Some None
      else if int (i + HTTPS_URL_OFFSET) \<ge> data_len then Some None
      else do {
        c0 \<leftarrow> arr_get p i;
        c1 \<leftarrow> (if c0 = 0 then arr_get p (i + 1) else Some 1);
        c2 \<leftarrow> (if c1 = 0 then arr_get p (i + 2) else Some 1);
        c3 \<leftarrow> (if c2 = 0 then arr_get p (i + 3) else Some 0);
        if c0 = 0 \<and> c1 = 0 \<and> c2 = 0 \<and> c3 \<noteq> 0 then do {
          url_len \<leftarrow> rd_be16 p (i + HTTPS_LEN_OFFSET);
          if uint url_len \<le> 0 \<or> uint url_len > data_len then https_loop p data_len (i + 1)
          else if int (i + HTTPS_URL_OFFSET) + uint url_len < data_len
          then Some (Some (i + HTTPS_URL_OFFSET, uint url_len))
          else https_loop p data_len (i + 1)
        }
        else https_loop p data_len (i + 1)
      })"
  by pat_completeness auto
termination by (relation "measure (\<lambda>(p, n, i). nat (n - int i))") auto

declare https_loop.simps [simp del]

definition dpi_https_proto :: "flow_info \<Rightarrow> (int \<times> flow_info) option" where
  "dpi_https_proto flow =
     (case l4_data flow of
        None \<Rightarrow> Some (-1, flow)
      | Some p \<Rightarrow>
          if l4_len flow = 0 then Some (-1, flow)
          else do {
            c0 \<leftarrow> arr_get p 0;
            c1 \<leftarrow> (if c0 = 0x16 then arr_get p 1 else Some 0);
            c2 \<leftarrow> (if c1 = 3 then arr_get p 2 else Some 0);
            if \<not> (c0 = 0x16 \<and> c1 = 3 \<and> c2 = 1) then Some (-1, flow)
            else do {
              r \<leftarrow> https_loop p (l4_len flow) 0;
              (case r of
                 None \<Rightarrow> Some (-1, flow)
               | Some (pos, len) \<Rightarrow>
                   Some (0, flow\<lparr>https := \<lparr>hs_match = True, hs_url_pos = Some pos, hs_url_len = len\<rparr>\<rparr>))
            }
          })"

section \<open>The request and the host of an HTTP packet\<close>

text \<open>\<open>memcmp(&data[start], s, length s) == 0\<close>.\<close>

definition mem_eq :: "u8 list \<Rightarrow> nat \<Rightarrow> u8 list \<Rightarrow> bool option" where
  "mem_eq m start s = do { bs \<leftarrow> mem_get m start (length s); Some (bs = s) }"

definition str_post :: "u8 list" where "str_post = [80, 79, 83, 84, 32]"
definition str_get :: "u8 list" where "str_get = [71, 69, 84, 32]"
definition str_host :: "u8 list" where "str_host = [72, 111, 115, 116, 58]"

text \<open>The header line from \<open>start\<close> to \<open>i\<close>.\<close>

definition http_line :: "u8 list \<Rightarrow> nat \<Rightarrow> nat \<Rightarrow> http_proto \<Rightarrow> http_proto option" where
  "http_line data start i h = do {
     post \<leftarrow> mem_eq data start str_post;
     if post then Some (h\<lparr>h_match := True, h_method := HTTP_METHOD_POST, h_url_pos := Some (start + 5),
       h_url_len := int i - int start - 5\<rparr>)
     else do {
       get \<leftarrow> mem_eq data start str_get;
       if get then Some (h\<lparr>h_match := True, h_method := HTTP_METHOD_GET, h_url_pos := Some (start + 4),
         h_url_len := int i - int start - 4\<rparr>)
       else do {
         host \<leftarrow> mem_eq data start str_host;
         Some (if host then h\<lparr>h_host_pos := Some (start + 6), h_host_len := int i - int start - 6\<rparr> else h)
       }
     }
   }"

function http_loop :: "u8 list \<Rightarrow> int \<Rightarrow> nat \<Rightarrow> nat \<Rightarrow> http_proto \<Rightarrow> http_proto option" where
  "http_loop data data_len start i h =
     (if int i \<ge> data_len then Some h
      else do {
        c0 \<leftarrow> arr_get data i;
        c1 \<leftarrow> (if c0 = 0x0d then arr_get data (i + 1) else Some 0);
        if c0 = 0x0d \<and> c1 = 0x0a then do {
          h \<leftarrow> http_line data start i h;
          c2 \<leftarrow> arr_get data (i + 2);
          c3 \<leftarrow> (if c2 = 0x0d then arr_get data (i + 3) else Some 0);
          if c2 = 0x0d \<and> c3 = 0x0a
          then Some (h\<lparr>h_data_pos := Some (i + 4), h_data_len := data_len - int i - 4\<rparr>)
          else http_loop data data_len (i + 2) (i + 1) h
        }
        else http_loop data data_len start (i + 1) h
      })"
  by pat_completeness auto
termination by (relation "measure (\<lambda>(p, n, start, i, h). nat (n - int i))") auto

declare http_loop.simps [simp del]

definition dpi_http_proto :: "flow_info \<Rightarrow> flow_info option" where
  "dpi_http_proto flow =
     (if l4_protocol flow \<noteq> IPPROTO_TCP then Some flow
      else if l4_len flow < MIN_HTTP_DATA_LEN then Some flow
      else if f_sport flow \<noteq> 80 \<and> f_dport flow \<noteq> 80 then Some flow
      else do {
        data \<leftarrow> l4_data flow;
        h \<leftarrow> http_loop data (l4_len flow) 0 0 (http flow);
        Some (flow\<lparr>http := h\<rparr>)
      })"

definition dpi_main :: "flow_info \<Rightarrow> flow_info option" where
  "dpi_main flow = do {
     flow \<leftarrow> dpi_http_proto flow;
     (_, flow) \<leftarrow> dpi_https_proto flow;
     Some flow
   }"

section \<open>Matching an application\<close>

definition in_range :: "range_value \<Rightarrow> int \<Rightarrow> bool" where
  "in_range r port \<longleftrightarrow> port \<ge> rv_start r \<and> port \<le> rv_end r"

text \<open>The two loops of \<open>pc_match_port\<close>.\<close>

fun any_not :: "range_value list \<Rightarrow> bool" where
  "any_not [] \<longleftrightarrow> False"
| "any_not (r # rs) \<longleftrightarrow> (if rv_not r then True else any_not rs)"

fun match_port_loop :: "bool \<Rightarrow> int \<Rightarrow> range_value list \<Rightarrow> bool" where
  "match_port_loop with_not port [] = with_not"
| "match_port_loop with_not port (r # rs) =
     (if with_not then
        (if rv_not r \<and> in_range r port then False else match_port_loop with_not port rs)
      else if in_range r port then True
      else match_port_loop with_not port rs)"

definition pc_match_port :: "port_info \<Rightarrow> int \<Rightarrow> bool option" where
  "pc_match_port info port =
     (if pi_num info = 0 then Some True
      else do {
        rs \<leftarrow> mem_get (range_list info) 0 (pi_num info);
        Some (match_port_loop (any_not rs) port rs)
      })"

text \<open>The entries from the index \<open>i\<close> on.  The length is compared as an unsigned number.\<close>

function match_pos_loop :: "flow_info \<Rightarrow> pc_app \<Rightarrow> nat \<Rightarrow> bool option" where
  "match_pos_loop flow node i =
     (if i \<ge> pos_num node then Some True
      else do {
        (p, v) \<leftarrow> arr_get (pos_info node) i;
        let pos = (if p < 0 then of_int (l4_len flow + p) else of_int p :: u32);
        if pos \<ge> of_int (l4_len flow) then Some False
        else do {
          data \<leftarrow> l4_data flow;
          c \<leftarrow> arr_get data (unat pos);
          if c \<noteq> v then Some False else match_pos_loop flow node (i + 1)
        }
      })"
  by pat_completeness auto
termination by (relation "measure (\<lambda>(flow, node, i). pos_num node - i)") auto

declare match_pos_loop.simps [simp del]

definition pc_match_by_pos :: "flow_info \<Rightarrow> pc_app \<Rightarrow> bool option" where
  "pc_match_by_pos flow node = (if pos_num node > 0 then match_pos_loop flow node 0 else Some False)"

text \<open>What \<open>reg_url_buf\<close> holds after the copy of \<open>len\<close> bytes from \<open>pos\<close>: \<open>strncpy\<close> reads up to a null
  byte, and writes as many bytes as it is told: a negative length is a huge one.\<close>

definition copy_url :: "flow_info \<Rightarrow> nat \<Rightarrow> int \<Rightarrow> cstr option" where
  "copy_url flow pos len =
     (let n = (if len \<ge> MAX_URL_MATCH_LEN then MAX_URL_MATCH_LEN - 1 else len) in
      if n < 0 then None
      else do {
        data \<leftarrow> l4_data flow;
        let s = takeWhile (\<lambda>c. c \<noteq> 0) (take (nat n) (drop pos data));
        if pos + nat n \<le> length data \<or> 0 \<in> set (take (nat n) (drop pos data)) then Some s else None
      })"

text \<open>The test \<open>strlen(...) > 0 && strlen(...) > 0 && regexp_match(...)\<close>: every result of
  \<open>regexp_match\<close> but zero counts as a match.\<close>

definition url_matches :: "re_heap \<Rightarrow> bool \<Rightarrow> u8 list \<Rightarrow> cstr \<Rightarrow> bool option" where
  "url_matches hp longest pat s =
     (if s = [] then Some False
      else do {
        p \<leftarrow> cstr_of pat;
        if p = [] then Some False
        else do { r \<leftarrow> regexp_match hp longest pat s; Some (r \<noteq> 0) }
      })"

definition pc_match_by_url :: "re_heap \<Rightarrow> bool \<Rightarrow> flow_info \<Rightarrow> pc_app \<Rightarrow> bool option" where
  "pc_match_by_url hp longest flow node = do {
     s \<leftarrow> (case (hs_match (https flow), hs_url_pos (https flow)) of
             (True, Some pos) \<Rightarrow> copy_url flow pos (hs_url_len (https flow))
           | _ \<Rightarrow>
               (case (h_match (http flow), h_host_pos (http flow)) of
                  (True, Some pos) \<Rightarrow> copy_url flow pos (h_host_len (http flow))
                | _ \<Rightarrow> Some []));
     m \<leftarrow> url_matches hp longest (host_url node) s;
     if m then Some True
     else
       (case (h_match (http flow), h_url_pos (http flow)) of
          (True, Some pos) \<Rightarrow> do {
            s \<leftarrow> copy_url flow pos (h_url_len (http flow));
            url_matches hp longest (request_url node) s
          }
        | _ \<Rightarrow> Some False)
   }"

definition pc_match_one :: "re_heap \<Rightarrow> bool \<Rightarrow> flow_info \<Rightarrow> pc_app \<Rightarrow> bool option" where
  "pc_match_one hp longest flow node =
     (if proto node > 0 \<and> l4_protocol flow \<noteq> proto node then Some False
      else if l4_len flow = 0 then Some False
      else if sport node \<noteq> 0 \<and> ucast (f_sport flow) \<noteq> sport node then Some False
      else do {
        ok \<leftarrow> pc_match_port (dport_info node) (uint (f_dport flow));
        if \<not> ok then Some False
        else do {
          req \<leftarrow> cstr_of (request_url node);
          host \<leftarrow> cstr_of (host_url node);
          if length req > 0 \<or> length host > 0 then pc_match_by_url hp longest flow node
          else if pos_num node > 0 then pc_match_by_pos flow node
          else Some True
        }
      })"

section \<open>The decision\<close>

definition app_in_rule :: "u32 \<Rightarrow> pc_rule \<Rightarrow> bool" where
  "app_in_rule app rule \<longleftrightarrow>
     (if app < MAX_APP_IN_CLASS then False
      else app \<in> set (applist rule) \<or> app div MAX_APP_IN_CLASS \<in> set (applist rule))"

fun match_blist_app :: "re_heap \<Rightarrow> bool \<Rightarrow> flow_info \<Rightarrow> pc_app list \<Rightarrow> bool option" where
  "match_blist_app hp longest flow [] = Some False"
| "match_blist_app hp longest flow (app # apps) = do {
     m \<leftarrow> pc_match_one hp longest flow app;
     if m then Some True else match_blist_app hp longest flow apps
   }"

text \<open>The first application of the rule that matches.\<close>

fun match_apps :: "re_heap \<Rightarrow> bool \<Rightarrow> flow_info \<Rightarrow> pc_rule \<Rightarrow> pc_app list \<Rightarrow> pc_app option option" where
  "match_apps hp longest flow rule [] = Some None"
| "match_apps hp longest flow rule (node # nodes) =
     (if \<not> app_in_rule (app_id node) rule then match_apps hp longest flow rule nodes
      else do {
        m \<leftarrow> pc_match_one hp longest flow node;
        if m then Some (Some node) else match_apps hp longest flow rule nodes
      })"

definition app_filter_match :: "re_heap \<Rightarrow> bool \<Rightarrow> pc_state \<Rightarrow> flow_info \<Rightarrow> nat \<Rightarrow> flow_info option" where
  "app_filter_match hp longest st flow rule_ptr = do {
     rule \<leftarrow> rule_at st rule_ptr;
     black \<leftarrow> match_blist_app hp longest flow (blist rule);
     if black then Some (flow\<lparr>f_drop := True\<rparr>)
     else do {
       r \<leftarrow> match_apps hp longest flow rule (pc_apps st);
       (case r of
          Some node \<Rightarrow> do {
            nm \<leftarrow> cstr_of (app_name node);
            nm \<leftarrow> c_strcpy (f_app_name flow) nm;
            Some (flow\<lparr>f_drop := (r_action rule = PC_POLICY_DROP), f_app_name := nm, f_app_id := app_id node\<rparr>)
          }
        | None \<Rightarrow> Some (flow\<lparr>f_drop := False\<rparr>))
     }
   }"

text \<open>The names that \<open>strsep\<close> finds in a string.\<close>

fun strsep_all :: "u8 \<Rightarrow> cstr \<Rightarrow> cstr \<Rightarrow> cstr list" where
  "strsep_all sep cur [] = [cur]"
| "strsep_all sep cur (c # s) = (if c = sep then cur # strsep_all sep [] s else strsep_all sep (cur @ [c]) s)"

definition check_source_net_dev :: "pc_state \<Rightarrow> sk_buff \<Rightarrow> bool option" where
  "check_source_net_dev st skb =
     (case skb_dev skb of
        None \<Rightarrow> Some False
      | Some nm \<Rightarrow> do {
          s \<leftarrow> cstr_of (pc_src_dev st);
          if s = [] then Some True
          else do {
            nstr \<leftarrow> c_strcpy (replicate MAX_SRC_DEVNAME_SIZE 0) s;
            ptr \<leftarrow> cstr_of nstr;
            Some (nm \<in> set (strsep_all 32 [] ptr))
          }
        })"

definition pc_get_smac :: "sk_buff \<Rightarrow> u8 list \<Rightarrow> u8 list" where
  "pc_get_smac skb mac = (case skb_eth_source skb of None \<Rightarrow> mac | Some m \<Rightarrow> m)"

text \<open>The packets of a rule that depends on the applications.\<close>

definition pc_filter_policy :: "re_heap \<Rightarrow> bool \<Rightarrow> pc_state \<Rightarrow> sk_buff \<Rightarrow> flow_info \<Rightarrow> nat option \<Rightarrow> nat option" where
  "pc_filter_policy hp longest st skb flow rule =
     (case rule of
        None \<Rightarrow> Some NF_ACCEPT
      | Some a \<Rightarrow> do {
          (ret, flow) \<leftarrow> parse_flow_proto skb flow;
          if ret < 0 then Some NF_ACCEPT
          else do {
            flow \<leftarrow> dpi_main flow;
            flow \<leftarrow> app_filter_match hp longest st flow a;
            Some (if f_drop flow then NF_DROP else NF_ACCEPT)
          }
        })"

definition pc_filter_hook_handle :: "re_heap \<Rightarrow> bool \<Rightarrow> pc_state \<Rightarrow> sk_buff \<Rightarrow> nat option" where
  "pc_filter_hook_handle hp longest st skb = do {
     ok \<leftarrow> check_source_net_dev st skb;
     if \<not> ok then Some NF_ACCEPT
     else do {
       let ctinfo = skb_ctinfo skb;
       let flow = zero_flow\<lparr>smac := pc_get_smac skb (smac zero_flow)\<rparr>;
       if smac flow = replicate 6 0 \<or> smac flow = replicate 6 0xff then Some NF_ACCEPT
       else do {
         (rule, action) \<leftarrow> get_rule_by_mac st (smac flow);
         if action = PC_DROP then Some NF_DROP
         else if action = PC_ACCEPT then Some NF_ACCEPT
         else if action = PC_DROP_ANONYMOUS then
           Some (if ctinfo = IP_CT_ESTABLISHED \<or> ctinfo = IP_CT_RELATED \<or> ctinfo = IP_CT_IS_REPLY
                 then NF_ACCEPT else NF_DROP)
         else if action = PC_POLICY_DROP \<or> action = PC_POLICY_ACCEPT then
           pc_filter_policy hp longest st skb flow rule
         else Some NF_ACCEPT
       }
     }
   }"

end
