(* ===== verification/Pc_Regexp_Lang.thy ===== *)
theory Pc_Regexp_Lang
  imports Pc_Regexp
begin

text \<open>
  What the patterns of the parental-control module mean: an abstract syntax of the patterns, their
  text and their language, and the lemmas that the compiled nodes, and the matcher on them, agree
  with the language for both values of \<open>match_longest\<close>.
\<close>

section \<open>The matcher on nodes\<close>

lemma split_Nil: "(\<exists>u v. [] = u @ v \<and> P u v) \<longleftrightarrow> P [] []"
  by simp

lemma split_Cons:
  "(\<exists>u v. c # t = u @ v \<and> P u v) \<longleftrightarrow> P [] (c # t) \<or> (\<exists>u v. t = u @ v \<and> P (c # u) v)"
  by (auto simp: Cons_eq_append_conv)

lemma matchstar_iff:
  "matchstar l cur re t \<longleftrightarrow> (\<exists>u v. t = u @ v \<and> list_all (match_one cur) u \<and> matchhere l re v)"
proof (induction t)
  case Nil
  then show ?case by (subst matchstar.simps) simp
next
  case (Cons c t)
  have "matchstar l cur re (c # t) \<longleftrightarrow>
      matchhere l re (c # t) \<or> match_one cur c \<and> matchstar l cur re t"
    by (subst matchstar.simps) simp
  with Cons.IH show ?case by (auto simp: split_Cons)
qed

lemma matchplus_star:
  "matchplus l cur re t \<longleftrightarrow> t \<noteq> [] \<and> match_one cur (hd t) \<and> matchstar l cur re (tl t)"
proof (induction t)
  case Nil
  then show ?case by (subst matchplus.simps) simp
next
  case (Cons c t)
  have "matchplus l cur re (c # t) \<longleftrightarrow> match_one cur c \<and> (matchhere l re t \<or> matchplus l cur re t)"
    by (subst matchplus.simps) simp
  with Cons.IH show ?case by (simp add: matchstar.simps [of l cur re t])
qed

lemma matchplus_iff:
  "matchplus l cur re t \<longleftrightarrow>
     (\<exists>u v. t = u @ v \<and> 1 \<le> length u \<and> list_all (match_one cur) u \<and> matchhere l re v)"
  unfolding matchplus_star matchstar_iff
proof (intro iffI; elim conjE exE)
  fix u v
  assume "t \<noteq> []" "match_one cur (hd t)" "tl t = u @ v" "list_all (match_one cur) u" "matchhere l re v"
  then show "\<exists>u v. t = u @ v \<and> 1 \<le> length u \<and> list_all (match_one cur) u \<and> matchhere l re v"
    by (intro exI [of _ "hd t # u"] exI [of _ v]) (cases t; simp)
next
  fix u v
  assume "t = u @ v" "1 \<le> length u" "list_all (match_one cur) u" "matchhere l re v"
  then show "t \<noteq> [] \<and> match_one cur (hd t) \<and>
      (\<exists>u v. tl t = u @ v \<and> list_all (match_one cur) u \<and> matchhere l re v)"
    by (cases u) auto
qed

lemma matchback_iff:
  "lo \<le> n \<Longrightarrow> matchback l re t n lo \<longleftrightarrow> (\<exists>i. lo \<le> i \<and> i \<le> n \<and> matchhere l re (drop i t))"
proof (induction n)
  case 0
  then show ?case by (subst matchback.simps) simp
next
  case (Suc n)
  have eq: "matchback l re t (Suc n) lo \<longleftrightarrow> matchhere l re (drop (Suc n) t) \<or> lo \<le> n \<and> matchback l re t n lo"
    by (subst matchback.simps) (simp add: less_Suc_eq_le)
  show ?case
  proof (cases "lo \<le> n")
    case True
    with Suc.IH eq show ?thesis by (metis Suc.prems le_Suc_eq)
  next
    case False
    with Suc.prems have "lo = Suc n" by simp
    with eq show ?thesis by auto
  qed
qed

lemma takeWhile_split:
  "(\<exists>u v. t = u @ v \<and> lo \<le> length u \<and> list_all P u \<and> Q v) \<longleftrightarrow>
     (\<exists>i. lo \<le> i \<and> i \<le> length (takeWhile P t) \<and> Q (drop i t))"
proof
  assume "\<exists>u v. t = u @ v \<and> lo \<le> length u \<and> list_all P u \<and> Q v"
  then obtain u v where "t = u @ v" "lo \<le> length u" "list_all P u" "Q v" by blast
  then show "\<exists>i. lo \<le> i \<and> i \<le> length (takeWhile P t) \<and> Q (drop i t)"
    by (intro exI [of _ "length u"]) (simp add: list_all_iff)
next
  assume "\<exists>i. lo \<le> i \<and> i \<le> length (takeWhile P t) \<and> Q (drop i t)"
  then obtain i where i: "lo \<le> i" "i \<le> length (takeWhile P t)" "Q (drop i t)" by blast
  then have "take i t = take i (takeWhile P t)"
    by (metis append_Nil2 diff_is_0_eq take0 take_append takeWhile_dropWhile_id)
  then have "list_all P (take i t)"
    by (metis in_set_takeD list_all_iff set_takeWhileD)
  moreover have "length (take i t) = i"
    using i(2) length_takeWhile_le [of P t] by simp
  ultimately show "\<exists>u v. t = u @ v \<and> lo \<le> length u \<and> list_all P u \<and> Q v"
    using i by (intro exI [of _ "take i t"] exI [of _ "drop i t"]) simp
qed

text \<open>How many characters an operator takes.\<close>

datatype re_quant = Q_One | Q_Star | Q_Plus | Q_Ques

fun quant_ok :: "re_quant \<Rightarrow> nat \<Rightarrow> bool" where
  "quant_ok Q_One n \<longleftrightarrow> n = 1"
| "quant_ok Q_Star n \<longleftrightarrow> True"
| "quant_ok Q_Plus n \<longleftrightarrow> 1 \<le> n"
| "quant_ok Q_Ques n \<longleftrightarrow> n \<le> 1"

fun quant_type :: "re_quant \<Rightarrow> re_type list" where
  "quant_type Q_One = []"
| "quant_type Q_Star = [RE_STAR]"
| "quant_type Q_Plus = [RE_PLUS]"
| "quant_type Q_Ques = [RE_QUES]"

abbreviation operators :: "re_type set" where
  "operators \<equiv> {RE_STAR, RE_PLUS, RE_QUES}"

lemma matchhere_one:
  assumes "re_type n \<noteq> RE_END" and "ns = [] \<or> re_type (hd ns) \<notin> operators"
  shows "matchhere l (n # ns) t \<longleftrightarrow> (\<exists>u v. t = u @ v \<and> length u = 1 \<and> list_all (match_one n) u \<and> matchhere l ns v)"
proof -
  have "matchhere l (n # ns) t \<longleftrightarrow> t \<noteq> [] \<and> match_one n (hd t) \<and> matchhere l ns (tl t)"
    using assms by (subst matchhere.simps) auto
  then show ?thesis
    by (cases t) (auto simp: length_Suc_conv intro: exI [of _ "[hd t]"] exI [of _ "tl t"])
qed

lemma matchhere_star:
  assumes "re_type m = RE_STAR"
  shows "matchhere l (n # m # ns) t \<longleftrightarrow> (\<exists>u v. t = u @ v \<and> list_all (match_one n) u \<and> matchhere l ns v)"
proof -
  have "matchhere l (n # m # ns) t \<longleftrightarrow>
      (if l then matchback l ns t (length (takeWhile (match_one n) t)) 0 else matchstar l n ns t)"
    using assms by (subst matchhere.simps) auto
  then show ?thesis
    using takeWhile_split [of t 0 "match_one n" "matchhere l ns"]
    by (cases l) (simp_all add: matchback_iff matchstar_iff)
qed

lemma matchhere_plus:
  assumes "re_type m = RE_PLUS"
  shows "matchhere l (n # m # ns) t \<longleftrightarrow>
     (\<exists>u v. t = u @ v \<and> 1 \<le> length u \<and> list_all (match_one n) u \<and> matchhere l ns v)"
proof -
  have "matchhere l (n # m # ns) t \<longleftrightarrow>
      (if l then (let k = length (takeWhile (match_one n) t) in k > 0 \<and> matchback l ns t k 1)
       else matchplus l n ns t)"
    using assms by (subst matchhere.simps) auto
  moreover have "(k > 0 \<and> matchback l ns t k 1) \<longleftrightarrow> (\<exists>i. 1 \<le> i \<and> i \<le> k \<and> matchhere l ns (drop i t))" for k
    by (cases "1 \<le> k") (auto simp: matchback_iff)
  ultimately show ?thesis
    using takeWhile_split [of t 1 "match_one n" "matchhere l ns"]
    by (cases l) (simp_all only: matchplus_iff Let_def if_True if_False)
qed

lemma matchhere_ques:
  assumes "re_type m = RE_QUES"
  shows "matchhere l (n # m # ns) t \<longleftrightarrow>
     (\<exists>u v. t = u @ v \<and> length u \<le> 1 \<and> list_all (match_one n) u \<and> matchhere l ns v)"
proof -
  have "matchhere l (n # m # ns) t \<longleftrightarrow>
      matchback l ns t (if t \<noteq> [] \<and> match_one n (hd t) then 1 else 0) 0"
    using assms by (subst matchhere.simps) auto
  also have "\<dots> \<longleftrightarrow> matchhere l ns t \<or> (t \<noteq> [] \<and> match_one n (hd t) \<and> matchhere l ns (tl t))"
    by (cases t) (auto simp: matchback_iff le_Suc_eq)
  also have "\<dots> \<longleftrightarrow> (\<exists>u v. t = u @ v \<and> length u \<le> 1 \<and> list_all (match_one n) u \<and> matchhere l ns v)"
    by (cases t) (auto simp: split_Cons)
  finally show ?thesis .
qed


lemmas matchhere_ops = matchhere_star matchhere_plus matchhere_ques

lemma matchhere_Nil [simp]: "matchhere l [] t"
  by (subst matchhere.simps) simp

lemma matchhere_end: "re_type n = RE_END \<Longrightarrow> matchhere l [n] t \<longleftrightarrow> t = []"
  by (subst matchhere.simps) simp

section \<open>Patterns and their language\<close>

datatype ccl_elem = Ccl_One u8 | Ccl_Range u8 u8

datatype re_atom = Atom_Char u8 | Atom_Dot | Atom_Ccl bool "ccl_elem list"

type_synonym re_item = "re_atom \<times> re_quant"

record re_pattern =
  pat_begin :: bool
  pat_items :: "re_item list"
  pat_end :: bool

fun ccl_set :: "ccl_elem \<Rightarrow> u8 set" where
  "ccl_set (Ccl_One c) = {c}"
| "ccl_set (Ccl_Range a b) = {a..b}"

fun atom_ok :: "re_atom \<Rightarrow> u8 \<Rightarrow> bool" where
  "atom_ok (Atom_Char a) c \<longleftrightarrow> c = a"
| "atom_ok Atom_Dot c \<longleftrightarrow> True"
| "atom_ok (Atom_Ccl neg es) c \<longleftrightarrow> (\<exists>e \<in> set es. c \<in> ccl_set e) \<noteq> neg"

fun items_lang :: "re_item list \<Rightarrow> cstr set" where
  "items_lang [] = {[]}"
| "items_lang ((a, q) # is) =
     {u @ v | u v. quant_ok q (length u) \<and> list_all (atom_ok a) u \<and> v \<in> items_lang is}"

definition pat_matches :: "re_pattern \<Rightarrow> cstr \<Rightarrow> bool" where
  "pat_matches p t \<longleftrightarrow>
     (\<exists>u v w. t = u @ v @ w \<and> v \<in> items_lang (pat_items p) \<and> (pat_begin p \<longrightarrow> u = []) \<and> (pat_end p \<longrightarrow> w = []))"

text \<open>The text of a pattern, and which abstract patterns have one: the escapes are left out, since
  \<open>compile\<close> does not treat them as the other programs do.\<close>

fun ccl_elem_text :: "ccl_elem \<Rightarrow> u8 list" where
  "ccl_elem_text (Ccl_One c) = [c]"
| "ccl_elem_text (Ccl_Range a b) = [a, 45, b]"

fun atom_text :: "re_atom \<Rightarrow> u8 list" where
  "atom_text (Atom_Char c) = [c]"
| "atom_text Atom_Dot = [46]"
| "atom_text (Atom_Ccl neg es) = 91 # (if neg then [94] else []) @ concat (map ccl_elem_text es) @ [93]"

fun quant_text :: "re_quant \<Rightarrow> u8 list" where
  "quant_text Q_One = []"
| "quant_text Q_Star = [42]"
| "quant_text Q_Plus = [43]"
| "quant_text Q_Ques = [63]"

definition rx_items_text :: "re_item list \<Rightarrow> u8 list" where
  "rx_items_text is = concat (map (\<lambda>(a, q). atom_text a @ quant_text q) is)"

definition pat_text :: "re_pattern \<Rightarrow> u8 list" where
  "pat_text p = (if pat_begin p then [94] else []) @ rx_items_text (pat_items p) @ (if pat_end p then [36] else [])"

definition plain_char :: "u8 \<Rightarrow> bool" where
  "plain_char c \<longleftrightarrow> c \<notin> {0, 36, 42, 43, 46, 63, 91, 92, 94}"

fun ccl_elem_wf :: "ccl_elem \<Rightarrow> bool" where
  "ccl_elem_wf (Ccl_One c) \<longleftrightarrow> c \<notin> {0, 45, 93}"
| "ccl_elem_wf (Ccl_Range a b) \<longleftrightarrow> a \<notin> {0, 45, 93} \<and> b \<noteq> 93 \<and> a \<le> b"

fun ccl_elem_size :: "ccl_elem \<Rightarrow> nat" where
  "ccl_elem_size (Ccl_One c) = 1"
| "ccl_elem_size (Ccl_Range a b) = unat b - unat a + 1"

fun atom_wf :: "re_atom \<Rightarrow> bool" where
  "atom_wf (Atom_Char c) \<longleftrightarrow> plain_char c"
| "atom_wf Atom_Dot \<longleftrightarrow> True"
| "atom_wf (Atom_Ccl neg es) \<longleftrightarrow>
     list_all ccl_elem_wf es \<and> sum_list (map ccl_elem_size es) < CCL_SIZE \<and>
     (\<not> neg \<longrightarrow> take 1 (concat (map ccl_elem_text es)) \<noteq> [94])"

definition pat_wf :: "re_pattern \<Rightarrow> bool" where
  "pat_wf p \<longleftrightarrow> list_all (\<lambda>(a, q). atom_wf a) (pat_items p) \<and> (pat_begin p \<or> pat_items p \<noteq> [] \<or> pat_end p)"

text \<open>No allocation fails, and the stale field \<open>ch\<close> of a node is not the code of a character.\<close>

definition clean_heap :: "re_heap \<Rightarrow> bool" where
  "clean_heap mem \<longleftrightarrow> (\<forall>i. \<exists>r. mem i = Some r \<and> (re_ch r < 1 \<or> 255 < re_ch r))"

section \<open>Nodes that stand for items\<close>

definition node_of :: "re_atom \<Rightarrow> re_node \<Rightarrow> bool" where
  "node_of a n \<longleftrightarrow> re_type n \<in> {RE_CHAR, RE_DOT, RE_LIST} \<and> (\<forall>c. c \<noteq> 0 \<longrightarrow> match_one n c = atom_ok a c)"

fun denotes :: "re_item list \<Rightarrow> bool \<Rightarrow> re_node list \<Rightarrow> bool" where
  "denotes [] e ns \<longleftrightarrow> (if e then \<exists>n. ns = [n] \<and> re_type n = RE_END else ns = [])"
| "denotes ((a, q) # is) e ns \<longleftrightarrow>
     (\<exists>n ops ns'. ns = n # ops @ ns' \<and> node_of a n \<and> map re_type ops = quant_type q \<and> denotes is e ns')"

lemma denotes_head: "denotes is e ns \<Longrightarrow> ns = [] \<or> re_type (hd ns) \<notin> insert RE_BEGIN operators"
  by (cases "is") (auto simp: node_of_def split: if_splits)

lemma split_assoc:
  "(\<exists>u v. t = u @ v \<and> P u \<and> (\<exists>x w. v = x @ w \<and> Q x \<and> R w)) \<longleftrightarrow>
     (\<exists>y w. t = y @ w \<and> (\<exists>u x. y = u @ x \<and> P u \<and> Q x) \<and> R w)"
  by (metis append_assoc)

lemma node_of_all: "node_of a n \<Longrightarrow> 0 \<notin> set u \<Longrightarrow> list_all (match_one n) u = list_all (atom_ok a) u"
  by (induction u) (auto simp: node_of_def)

lemma matchhere_item:
  assumes "node_of a n" and "map re_type ops = quant_type q" and "denotes is e ns" and "0 \<notin> set t"
  shows "matchhere l (n # ops @ ns) t \<longleftrightarrow>
     (\<exists>u v. t = u @ v \<and> quant_ok q (length u) \<and> list_all (atom_ok a) u \<and> matchhere l ns v)"
proof -
  have "matchhere l (n # ops @ ns) t \<longleftrightarrow>
     (\<exists>u v. t = u @ v \<and> quant_ok q (length u) \<and> list_all (match_one n) u \<and> matchhere l ns v)"
  proof (cases q)
    case Q_One
    moreover have "re_type n \<noteq> RE_END" using assms(1) by (auto simp: node_of_def)
    moreover have "ns = [] \<or> re_type (hd ns) \<notin> operators" using denotes_head [OF assms(3)] by auto
    ultimately show ?thesis using assms(2) by (simp add: matchhere_one)
  qed (use assms(2) in \<open>clarsimp simp: matchhere_ops map_eq_Cons_conv\<close>)+
  also have "\<dots> \<longleftrightarrow> (\<exists>u v. t = u @ v \<and> quant_ok q (length u) \<and> list_all (atom_ok a) u \<and> matchhere l ns v)"
    using assms(4) by (intro ex_cong1 conj_cong refl) (simp add: node_of_all [OF assms(1)])
  finally show ?thesis .
qed

lemma matchhere_denotes:
  "denotes is e ns \<Longrightarrow> 0 \<notin> set t \<Longrightarrow>
     matchhere l ns t \<longleftrightarrow> (\<exists>v w. t = v @ w \<and> v \<in> items_lang is \<and> (e \<longrightarrow> w = []))"
proof (induction "is" e ns arbitrary: t rule: denotes.induct)
  case (1 e ns)
  then show ?case by (auto simp: matchhere_end split: if_splits)
next
  case (2 a q "is" e ns)
  from "2.prems"(1) obtain n ops ns' where ns: "ns = n # ops @ ns'" "node_of a n"
    "map re_type ops = quant_type q" "denotes is e ns'"
    by auto
  have "matchhere l ns t \<longleftrightarrow> (\<exists>u v. t = u @ v \<and> quant_ok q (length u) \<and> list_all (atom_ok a) u \<and> matchhere l ns' v)"
    unfolding ns(1) by (rule matchhere_item [OF ns(2-4) "2.prems"(2)])
  also have "\<dots> \<longleftrightarrow> (\<exists>u v. t = u @ v \<and> quant_ok q (length u) \<and> list_all (atom_ok a) u \<and>
      (\<exists>x w. v = x @ w \<and> x \<in> items_lang is \<and> (e \<longrightarrow> w = [])))"
    using "2.prems"(2) by (intro ex_cong1 conj_cong refl "2.IH" [OF ns]) simp
  also have "\<dots> \<longleftrightarrow> (\<exists>v w. t = v @ w \<and> v \<in> items_lang ((a, q) # is) \<and> (e \<longrightarrow> w = []))"
    using split_assoc [of t "\<lambda>u. quant_ok q (length u) \<and> list_all (atom_ok a) u" "\<lambda>x. x \<in> items_lang is" "\<lambda>w. e \<longrightarrow> w = []"]
    by (simp add: conj_assoc)
  finally show ?case .
qed

section \<open>Compiling the text of a pattern\<close>

fun ccl_chars :: "ccl_elem \<Rightarrow> u8 list" where
  "ccl_chars (Ccl_One c) = [c]"
| "ccl_chars (Ccl_Range a b) = map of_int [uint a..uint b]"

lemma set_ccl_chars: "set (ccl_chars e) = ccl_set e"
proof (cases e)
  case (Ccl_Range a b)
  have "(c::u8) \<in> of_int ` {uint a..uint b} \<longleftrightarrow> a \<le> c \<and> c \<le> b" for c
  proof
    assume "c \<in> of_int ` {uint a..uint b}"
    then obtain i where i: "c = word_of_int i" "uint a \<le> i" "i \<le> uint b" by auto
    moreover have "0 \<le> i" using uint_ge_0 [of a] i(2) by (rule order_trans)
    ultimately have "uint c = i"
      using uint_lt2p [of b] by (simp add: uint_word_of_int)
    with i show "a \<le> c \<and> c \<le> b" by (simp add: word_le_def)
  qed (auto simp: word_le_def intro: image_eqI [of _ _ "uint c"])
  then have "of_int ` {uint a..uint b} = {a..b}" by (simp add: set_eq_iff)
  then show ?thesis using Ccl_Range by simp
qed simp

lemma length_ccl_chars: "ccl_elem_wf e \<Longrightarrow> length (ccl_chars e) = ccl_elem_size e"
  by (cases e) (simp_all add: word_le_def nat_diff_distrib' nat_add_distrib flip: unat_eq_nat_uint)

lemma length_concat_ccl_chars:
  "list_all ccl_elem_wf es \<Longrightarrow> length (concat (map ccl_chars es)) = sum_list (map ccl_elem_size es)"
  by (induction es) (simp_all add: length_ccl_chars)

lemma ccl_range_text:
  assumes "a \<le> b" and "length acc + (unat b - unat a + 1) < CCL_SIZE"
  shows "creat_list CCL_SIZE (acc @ [a]) (uint a + 1) (uint b) = Some (acc @ ccl_chars (Ccl_Range a b))"
proof -
  have "uint a \<le> uint b" using assms(1) by (simp add: word_le_def)
  then have "[uint a..uint b] = uint a # [uint a + 1..uint b]" by (rule upto_rec1)
  moreover have "nat (uint b - uint a) = unat b - unat a"
    using assms(1) by (simp add: nat_diff_distrib' flip: unat_eq_nat_uint)
  ultimately show ?thesis
    using assms \<open>uint a \<le> uint b\<close> by (simp add: creat_list_def Let_def)
qed

lemma ccl_loop_text:
  "list_all ccl_elem_wf es \<Longrightarrow> length acc + sum_list (map ccl_elem_size es) < CCL_SIZE \<Longrightarrow>
     ccl_loop prev acc (concat (map ccl_elem_text es) @ 93 # rest) =
       Some (acc @ concat (map ccl_chars es), False, 93 # rest)"
proof (induction es arbitrary: prev acc)
  case (Cons e es)
  show ?case
  proof (cases e)
    case (Ccl_One c)
    with Cons show ?thesis by simp
  next
    case (Ccl_Range a b)
    with Cons.prems ccl_range_text [of a b acc]
    have "ccl_loop prev acc (concat (map ccl_elem_text (e # es)) @ 93 # rest) =
        ccl_loop b (acc @ ccl_chars e) (concat (map ccl_elem_text es) @ 93 # rest)"
      by simp
    also have "\<dots> = Some ((acc @ ccl_chars e) @ concat (map ccl_chars es), False, 93 # rest)"
    proof (rule Cons.IH)
      have "length (ccl_chars e) = ccl_elem_size e"
        using Cons.prems(1) by (intro length_ccl_chars) simp
      with Cons.prems show "length (acc @ ccl_chars e) + sum_list (map ccl_elem_size es) < CCL_SIZE" by simp
    qed (use Cons.prems in simp)
    finally show ?thesis by simp
  qed
qed simp

lemma compile_loop_step:
  "compile_node mem k c s = Some (Some n, k', s') \<Longrightarrow> c \<noteq> 0 \<Longrightarrow>
     compile_loop mem k (c # s) = do { ns \<leftarrow> compile_loop mem k' s'; Some (map_option ((#) n) ns) }"
  by (subst compile_loop.simps) (simp add: arr_get_def)

lemma compile_loop_end: "compile_loop mem k (0 # s) = Some (Some [])"
  by (subst compile_loop.simps) (simp add: arr_get_def)

lemma clean_heapE:
  assumes "clean_heap mem"
  obtains r where "mem i = Some r" "\<And>c::u8. c \<noteq> 0 \<Longrightarrow> uint c \<noteq> re_ch r"
proof -
  obtain r where r: "mem i = Some r" "re_ch r < 1 \<or> 255 < re_ch r"
    using assms by (auto simp: clean_heap_def)
  have "0 < uint c \<and> uint c < 256" if "c \<noteq> 0" for c :: u8
    using that uint_lt2p [of c] by (simp add: uint_0_iff less_le)
  with r that show ?thesis by fastforce
qed

lemma compile_atom:
  assumes "clean_heap mem" and "atom_wf a"
  shows "\<exists>c s n k'. atom_text a @ rest = c # s \<and> c \<noteq> 0 \<and>
           compile_node mem k c s = Some (Some n, k', rest) \<and> node_of a n"
proof -
  obtain r where r: "mem k = Some r" "\<And>c::u8. c \<noteq> 0 \<Longrightarrow> uint c \<noteq> re_ch r"
    using clean_heapE [OF assms(1)] by blast
  obtain r' where r': "mem (Suc k) = Some r'" using clean_heapE [OF assms(1)] by blast
  show ?thesis
  proof (cases a)
    case (Atom_Char c)
    with assms(2) r show ?thesis
      by (auto simp: compile_node_def plain_char_def node_of_def match_one_def in_list_def word_uint_eq_iff)
  next
    case Atom_Dot
    with r show ?thesis
      by (auto simp: compile_node_def node_of_def match_one_def in_list_def)
  next
    case (Atom_Ccl neg es)
    let ?t = "concat (map ccl_elem_text es) @ 93 # rest"
    let ?n = "r\<lparr>re_type := RE_LIST, re_nccl := neg, re_ccl := concat (map ccl_chars es)\<rparr>"
    have wf: "list_all ccl_elem_wf es" "sum_list (map ccl_elem_size es) < CCL_SIZE"
      using assms(2) Atom_Ccl by simp_all
    have loop: "ccl_loop prev [] ?t = Some (concat (map ccl_chars es), False, 93 # rest)" for prev
      using ccl_loop_text [OF wf(1), of "[]"] wf(2) by simp
    have len: "length (concat (map ccl_chars es)) < CCL_SIZE"
      using wf by (simp add: length_concat_ccl_chars)
    have "hd ?t \<noteq> 94" if "\<not> neg"
      using assms(2) Atom_Ccl that by (cases "concat (map ccl_elem_text es)") (auto simp del: concat_eq_Nil_conv)
    then have "compile_node mem k 91 ((if neg then [94] else []) @ ?t) = Some (Some ?n, k + 2, rest)"
      using r(1) r' loop len by (cases neg) (simp_all add: compile_node_def arr_get_def hd_conv_nth)
    moreover have "node_of a ?n"
      using r(2) Atom_Ccl by (auto simp: node_of_def match_one_def in_list_def set_ccl_chars)
    ultimately show ?thesis using Atom_Ccl by auto
  qed
qed


lemma compile_quant:
  assumes "clean_heap mem"
  shows "\<exists>ops k'. map re_type ops = quant_type q \<and>
           compile_loop mem k (quant_text q @ rest) =
             do { ns \<leftarrow> compile_loop mem k' rest; Some (map_option ((@) ops) ns) }"
proof -
  obtain r where r: "mem k = Some r" using clean_heapE [OF assms] by blast
  have op: "compile_loop mem k (c # rest) =
      do { ns \<leftarrow> compile_loop mem (k + 1) rest; Some (map_option ((#) (r\<lparr>re_type := ty\<rparr>)) ns) }"
    if "(c, ty) \<in> {(42, RE_STAR), (43, RE_PLUS), (63, RE_QUES)}" for c ty
    using that r by (intro compile_loop_step) (auto simp: compile_node_def)
  have "\<exists>ops k'. map re_type ops = [ty] \<and> compile_loop mem k (c # rest) =
      do { ns \<leftarrow> compile_loop mem k' rest; Some (map_option ((@) ops) ns) }"
    if "(c, ty) \<in> {(42, RE_STAR), (43, RE_PLUS), (63, RE_QUES)}" for c ty
    using op [OF that] by (intro exI [of _ "[r\<lparr>re_type := ty\<rparr>]"] exI [of _ "k + 1"]) (simp add: append_Cons [abs_def])
  note ops = this
  show ?thesis
  proof (cases q)
    case Q_One
    then show ?thesis
      by (intro exI [of _ "[]"] exI [of _ k])
         (simp add: append_Nil [abs_def] option.map_ident)
  qed (use ops in auto)
qed

lemma compile_items:
  "clean_heap mem \<Longrightarrow> list_all (\<lambda>(a, q). atom_wf a) is \<Longrightarrow>
     \<exists>ns. compile_loop mem k (rx_items_text is @ (if e then [36] else []) @ 0 # rest) = Some (Some ns) \<and>
       denotes is e ns"
proof (induction "is" arbitrary: k)
  case Nil
  obtain r where "mem k = Some r" using clean_heapE [OF Nil(1)] by blast
  then have "compile_loop mem k (36 # 0 # rest) = Some (Some [r\<lparr>re_type := RE_END, re_ch := 36\<rparr>])"
    by (subst compile_loop_step) (auto simp: compile_node_def compile_loop_end)
  then show ?case by (auto simp: rx_items_text_def compile_loop_end)
next
  case (Cons it "is")
  obtain a q where it: "it = (a, q)" by (cases it)
  let ?rest = "rx_items_text is @ (if e then [36] else []) @ 0 # rest"
  obtain c s n k' where a: "atom_text a @ quant_text q @ ?rest = c # s" "c \<noteq> 0"
    "compile_node mem k c s = Some (Some n, k', quant_text q @ ?rest)" "node_of a n"
    using compile_atom [OF Cons.prems(1), of a "quant_text q @ ?rest" k] Cons.prems(2) it by auto
  obtain ops k'' where q: "map re_type ops = quant_type q"
    "compile_loop mem k' (quant_text q @ ?rest) =
       do { ns \<leftarrow> compile_loop mem k'' ?rest; Some (map_option ((@) ops) ns) }"
    using compile_quant [OF Cons.prems(1)] by blast
  obtain ns where ns: "compile_loop mem k'' ?rest = Some (Some ns)" "denotes is e ns"
    using Cons.IH [OF Cons.prems(1), of k''] Cons.prems(2) by auto
  have "compile_loop mem k (rx_items_text (it # is) @ (if e then [36] else []) @ 0 # rest) = Some (Some (n # ops @ ns))"
    using compile_loop_step [OF a(3,2)] a(1) q(2) ns(1) it by (simp add: rx_items_text_def)
  moreover have "denotes (it # is) e (n # ops @ ns)"
    using a(4) q(1) ns(2) it by auto
  ultimately show ?case by blast
qed

section \<open>Searching\<close>

lemma match_search_iff: "match_search l ns t \<longleftrightarrow> (\<exists>u v. t = u @ v \<and> matchhere l ns v)"
  by (induction t) (auto simp: Cons_eq_append_conv)

lemma compile_pattern:
  assumes "clean_heap mem" and "pat_wf p"
  obtains ns b where "compile mem (pat_text p @ 0 # rest) = Some (if pat_begin p then b # ns else ns)"
    and "denotes (pat_items p) (pat_end p) ns" and "re_type b = RE_BEGIN"
proof -
  have wf: "list_all (\<lambda>(a, q). atom_wf a) (pat_items p)" using assms(2) by (simp add: pat_wf_def)
  obtain r where r: "mem 0 = Some r" using clean_heapE [OF assms(1)] by blast
  let ?b = "r\<lparr>re_type := RE_BEGIN, re_ch := 94\<rparr>"
  let ?k = "if pat_begin p then 1 else 0"
  obtain ns where ns: "compile_loop mem ?k (rx_items_text (pat_items p) @ (if pat_end p then [36] else []) @ 0 # rest) = Some (Some ns)"
    "denotes (pat_items p) (pat_end p) ns"
    using compile_items [OF assms(1) wf] by blast
  have "compile_node mem 0 94 s = Some (Some ?b, 1, s)" for s using r by (simp add: compile_node_def)
  then have "compile_loop mem 0 (94 # s) = do { ns \<leftarrow> compile_loop mem 1 s; Some (map_option ((#) ?b) ns) }" for s
    by (rule compile_loop_step) simp
  with ns(1) have "compile mem (pat_text p @ 0 # rest) = Some (if pat_begin p then ?b # ns else ns)"
    by (cases "pat_begin p"; cases "pat_end p") (simp_all add: compile_def pat_text_def)
  with ns(2) that show ?thesis by simp
qed

lemma regexp_match_pattern:
  assumes "clean_heap mem" and "pat_wf p" and "0 \<notin> set t"
  shows "regexp_match mem longest (pat_text p @ 0 # rest) t = Some (of_bool (pat_matches p t))"
proof -
  obtain ns b where c: "compile mem (pat_text p @ 0 # rest) = Some (if pat_begin p then b # ns else ns)"
    and d: "denotes (pat_items p) (pat_end p) ns" and b: "re_type b = RE_BEGIN"
    using compile_pattern [OF assms(1,2)] .
  have here: "matchhere longest ns v \<longleftrightarrow>
      (\<exists>x w. v = x @ w \<and> x \<in> items_lang (pat_items p) \<and> (pat_end p \<longrightarrow> w = []))"
    if "t = u @ v" for u v
    using that assms(3) by (intro matchhere_denotes [OF d]) simp
  show ?thesis
  proof (cases "pat_begin p")
    case True
    with c b here [of "[]" t] show ?thesis
      by (simp add: regexp_match_def pat_matches_def)
  next
    case False
    then have "ns \<noteq> []"
      using d assms(2) by (cases "pat_items p") (auto simp: pat_wf_def)
    then obtain n ns' where ns: "ns = n # ns'" "re_type n \<noteq> RE_BEGIN"
      using denotes_head [OF d] by (cases ns) auto
    have "match_search longest ns t \<longleftrightarrow> pat_matches p t"
      unfolding match_search_iff pat_matches_def using False here by (metis (no_types, lifting))
    with c False ns show ?thesis by (simp add: regexp_match_def)
  qed
qed

end
