(* ===== verification/Pc_Filter_Spec.thy ===== *)
theory Pc_Filter_Spec
  imports Pc_Filter Pc_Regexp_Lang
begin

text \<open>
  What the steps of the packet filter compute: the ports, the data dictionary, the lines of an HTTP
  request, and the verdict from the applications of a rule.
\<close>

section \<open>Ports\<close>

lemma any_not_iff: "any_not rs \<longleftrightarrow> (\<exists>r \<in> set rs. rv_not r)"
  by (induction rs) auto

lemma match_port_loop_iff:
  "match_port_loop with_not port rs \<longleftrightarrow>
     (if with_not then (\<forall>r \<in> set rs. rv_not r \<longrightarrow> \<not> in_range r port) else (\<exists>r \<in> set rs. in_range r port))"
  by (induction rs) auto

text \<open>The ports a list of ranges stands for: when one is negated, the negated ones alone count.\<close>

definition ports_of :: "range_value list \<Rightarrow> int set" where
  "ports_of rs =
     (if rs = [] then UNIV
      else if \<exists>r \<in> set rs. rv_not r then - (\<Union>r \<in> {r \<in> set rs. rv_not r}. {rv_start r..rv_end r})
      else (\<Union>r \<in> set rs. {rv_start r..rv_end r}))"

lemma match_port_ports_of:
  assumes "pi_num info \<le> length (range_list info)"
  shows "pc_match_port info port = Some (port \<in> ports_of (take (pi_num info) (range_list info)))"
  using assms
  by (auto simp: pc_match_port_def mem_get_def ports_of_def any_not_iff match_port_loop_iff in_range_def)

section \<open>The data dictionary\<close>

text \<open>The offset an entry means; negative positions count from the end.\<close>

definition pos_offset :: "int \<Rightarrow> int \<Rightarrow> int" where
  "pos_offset len p = (if p < 0 then len + p else p)"

definition pos_ok :: "flow_info \<Rightarrow> u8 list \<Rightarrow> int \<times> u8 \<Rightarrow> bool" where
  "pos_ok flow data e \<longleftrightarrow>
     (let q = pos_offset (l4_len flow) (fst e) in 0 \<le> q \<and> q < l4_len flow \<and> data ! nat q = snd e)"

lemma unat_of_int_u32: "0 \<le> i \<Longrightarrow> i < 2 ^ 32 \<Longrightarrow> unat (of_int i :: u32) = nat i"
  by (simp add: unat_eq_nat_uint uint_word_of_int)

lemma pos_ge_len:
  assumes "0 \<le> len" and "len < 2 ^ 31" and "- (2 ^ 31) \<le> q" and "q < 2 ^ 31"
  shows "(of_int q :: u32) \<ge> of_int len \<longleftrightarrow> q < 0 \<or> len \<le> q"
proof (cases "0 \<le> q")
  case True
  with assms show ?thesis by (simp add: word_le_nat_alt unat_of_int_u32 nat_le_eq_zle)
next
  case False
  have "(of_int q :: u32) = of_int (q + 2 ^ 32)" by simp
  moreover have "unat (of_int (q + 2 ^ 32) :: u32) = nat (q + 2 ^ 32)"
    using assms False by (intro unat_of_int_u32) simp_all
  ultimately show ?thesis
    using assms False by (simp only: word_le_nat_alt unat_of_int_u32) (simp add: unat_of_int_u32 nat_le_eq_zle)
qed

lemma all_from: "i < n \<Longrightarrow> (\<forall>j. i \<le> j \<and> j < n \<longrightarrow> P j) \<longleftrightarrow> P i \<and> (\<forall>j. i + 1 \<le> j \<and> j < n \<longrightarrow> P j)"
  for i :: nat
  by (metis Suc_eq_plus1 Suc_leD Suc_leI le_neq_implies_less order_refl)

lemma match_pos_loop_spec:
  assumes "l4_data flow = Some data" and "0 \<le> l4_len flow" and "l4_len flow < 2 ^ 31"
    and "nat (l4_len flow) \<le> length data" and "pos_num node \<le> length (pos_info node)"
    and "\<forall>(p, v) \<in> set (pos_info node). - (2 ^ 31) \<le> p \<and> p < 2 ^ 31"
  shows "match_pos_loop flow node i =
     Some (\<forall>j. i \<le> j \<and> j < pos_num node \<longrightarrow> pos_ok flow data (pos_info node ! j))"
proof (induction "pos_num node - i" arbitrary: i)
  case 0
  then show ?case by (subst match_pos_loop.simps) auto
next
  case (Suc n)
  then have i: "i < pos_num node" by simp
  obtain p v where e: "pos_info node ! i = (p, v)" by force
  let ?q = "pos_offset (l4_len flow) p"
  have p: "- (2 ^ 31) \<le> p" "p < 2 ^ 31"
    using assms(5,6) i e by (auto dest!: nth_mem [of i "pos_info node", OF less_le_trans])
  then have q: "- (2 ^ 31) \<le> ?q" "?q < 2 ^ 31" using assms(2,3) by (auto simp: pos_offset_def)
  have step: "match_pos_loop flow node i =
      (if ?q < 0 \<or> l4_len flow \<le> ?q then Some False
       else if data ! nat ?q \<noteq> v then Some False else match_pos_loop flow node (i + 1))"
  proof -
    have pos: "(if p < 0 then of_int (l4_len flow + p) else of_int p :: u32) = of_int ?q"
      by (simp add: pos_offset_def)
    have ge: "(of_int ?q :: u32) \<ge> of_int (l4_len flow) \<longleftrightarrow> ?q < 0 \<or> l4_len flow \<le> ?q"
      using assms(2,3) q by (rule pos_ge_len)
    have e': "arr_get (pos_info node) i = Some (p, v)"
      using i e assms(5) by (simp add: arr_get_def)
    show ?thesis
    proof (cases "?q < 0 \<or> l4_len flow \<le> ?q")
      case True
      with ge i e' show ?thesis by (subst match_pos_loop.simps) (simp add: Let_def pos)
    next
      case False
      with q have u: "unat (of_int ?q :: u32) = nat ?q" by (intro unat_of_int_u32) simp_all
      have "arr_get data (nat ?q) = Some (data ! nat ?q)"
        using False assms(4) by (simp add: arr_get_def; linarith)
      with False ge i e' u assms(1) show ?thesis
        by (subst match_pos_loop.simps) (simp add: Let_def pos)
    qed
  qed
  have split: "(\<forall>j. i \<le> j \<and> j < pos_num node \<longrightarrow> pos_ok flow data (pos_info node ! j)) \<longleftrightarrow>
      pos_ok flow data (p, v) \<and> (\<forall>j. i + 1 \<le> j \<and> j < pos_num node \<longrightarrow> pos_ok flow data (pos_info node ! j))"
    using all_from [OF i, of "\<lambda>j. pos_ok flow data (pos_info node ! j)"] e by simp
  have "n = pos_num node - (i + 1)" using Suc.hyps(2) by simp
  from Suc.hyps(1) [OF this] show ?case
    unfolding step split by (auto simp: pos_ok_def Let_def)
qed


section \<open>HTTP\<close>

text \<open>Where the fields of a request may point: inside the \<open>n\<close> bytes of the packet; the length of the
  host is -1 when the line ends right behind the colon.\<close>

definition http_in :: "int \<Rightarrow> http_proto \<Rightarrow> bool" where
  "http_in n h \<longleftrightarrow>
     (\<forall>p. h_url_pos h = Some p \<longrightarrow> 0 \<le> h_url_len h \<and> int p + h_url_len h < n) \<and>
     (\<forall>p. h_host_pos h = Some p \<longrightarrow> - 1 \<le> h_host_len h \<and> int p + h_host_len h < n)"

text \<open>A line starts with a string that holds no carriage return, so it is at least as long.\<close>

lemma line_prefix_length:
  assumes "mem_eq data start s = Some True" and "arr_get data i = Some 13" and "13 \<notin> set s" and "start \<le> i"
  shows "start + length s \<le> i"
proof (rule ccontr)
  assume "\<not> start + length s \<le> i"
  moreover from assms(1) have s: "take (length s) (drop start data) = s" "start + length s \<le> length data"
    by (auto simp: mem_eq_def mem_get_def split: if_splits)
  ultimately have "take (length s) (drop start data) ! (i - start) = data ! i"
    using assms(4) by (subst nth_take) auto
  then have "s ! (i - start) = data ! i" unfolding s(1) .
  moreover have "data ! i = 13" using assms(2) by (auto simp: arr_get_def split: if_splits)
  moreover have "i - start < length s" using \<open>\<not> start + length s \<le> i\<close> assms(4) by simp
  ultimately show False using assms(3) nth_mem [of "i - start" s] by simp
qed

lemma http_line_post:
  assumes "start \<le> i" and "start + 5 \<le> length data" and "arr_get data i = Some 13" and "int i < n" and "http_in n h"
  shows "post (http_line data start i h) (http_in n)"
proof -
  have eq: "\<exists>b. mem_eq data start s = Some b" if "length s \<le> 5" for s
    using that assms(2) by (simp add: mem_eq_def mem_get_def)
  obtain b1 b2 b3 where b: "mem_eq data start str_post = Some b1" "mem_eq data start str_get = Some b2"
    "mem_eq data start str_host = Some b3"
    using eq [of str_post] eq [of str_get] eq [of str_host] by (auto simp: str_post_def str_get_def str_host_def)
  have "b1 \<Longrightarrow> start + 5 \<le> i" "b2 \<Longrightarrow> start + 4 \<le> i" "b3 \<Longrightarrow> start + 5 \<le> i"
    using b line_prefix_length [OF _ assms(3) _ assms(1), of str_post] line_prefix_length [OF _ assms(3) _ assms(1), of str_get]
      line_prefix_length [OF _ assms(3) _ assms(1), of str_host]
    by (simp_all add: str_post_def str_get_def str_host_def)
  with b assms(4,5) show ?thesis
    by (auto simp: http_line_def http_in_def)
qed

lemma http_loop_post:
  "nat n + 4 \<le> length data \<Longrightarrow> start \<le> i \<or> start = i + 1 \<and> data ! i = 10 \<Longrightarrow> http_in n h \<Longrightarrow> post (http_loop data n start i h) (http_in n)"
proof (induction data n start i h rule: http_loop.induct)
  case (1 data n start i h)
  show ?case
  proof (cases "int i \<ge> n")
    case True
    with "1.prems" show ?thesis by (subst http_loop.simps) simp
  next
    case False
    then have i: "i + 3 < length data" "int i < n" using "1.prems"(1) by linarith+
    then have get: "arr_get data i = Some (data ! i)" "arr_get data (i + 1) = Some (data ! (i + 1))"
      "arr_get data (i + 2) = Some (data ! (i + 2))" "arr_get data (i + 3) = Some (data ! (i + 3))"
      by (simp_all add: arr_get_def)
    show ?thesis
    proof (cases "data ! i = 13 \<and> data ! (i + 1) = 10")
      case True
      then have start: "start \<le> i" using "1.prems"(2) by auto
      have "post (http_line data start i h) (http_in n)"
        using start i get(1) True "1.prems" by (intro http_line_post) auto
      then obtain h' where h': "http_line data start i h = Some h'" "http_in n h'"
        by (auto simp: post_iff)
      have "post (http_loop data n (i + 2) (i + 1) h') (http_in n)"
        if "\<not> (data ! (i + 2) = 13 \<and> data ! (i + 3) = 10)"
        using "1.IH" [OF \<open>\<not> n \<le> int i\<close>] that True h' get "1.prems"(1)
        by (cases "data ! (i + 2) = 13") auto
      with True i get h' show ?thesis
        by (subst http_loop.simps) (auto simp: http_in_def)
    next
      case False
      have "post (http_loop data n start (i + 1) h) (http_in n)"
        using "1.IH" [OF \<open>\<not> n \<le> int i\<close>] False get "1.prems" by (cases "data ! i = 13") auto
      with False i get show ?thesis by (subst http_loop.simps) auto
    qed
  qed
qed

section \<open>The verdict\<close>

lemma match_blist_app_eq:
  "(\<And>a. a \<in> set apps \<Longrightarrow> pc_match_one hp longest flow a = Some (M a)) \<Longrightarrow>
     match_blist_app hp longest flow apps = Some (\<exists>a \<in> set apps. M a)"
  by (induction apps) auto

lemma match_apps_eq:
  "(\<And>a. a \<in> set apps \<Longrightarrow> app_in_rule (app_id a) rule \<Longrightarrow> pc_match_one hp longest flow a = Some (M a)) \<Longrightarrow>
     match_apps hp longest flow rule apps = Some (find (\<lambda>a. app_in_rule (app_id a) rule \<and> M a) apps)"
  by (induction apps) auto

lemma cstr_copy_fits:
  "0 \<in> set a \<Longrightarrow> length a \<le> length b \<Longrightarrow> \<exists>s c. cstr_of a = Some s \<and> c_strcpy b s = Some c"
proof -
  assume a: "0 \<in> set a" "length a \<le> length b"
  have "length (takeWhile (\<lambda>c. c \<noteq> 0) a) < length a"
    using a(1) by (induction a) auto
  with a show ?thesis by (simp add: cstr_of_def c_strcpy_def mem_put_def)
qed

definition names_ok :: "pc_state \<Rightarrow> bool" where
  "names_ok st \<longleftrightarrow> (\<forall>a \<in> set (pc_apps st). length (app_name a) = MAX_APP_NAME_LEN \<and> 0 \<in> set (app_name a))"

lemma app_filter_match_verdict:
  assumes "rule_at st a = Some rule" and "names_ok st" and "length (f_app_name flow) = MAX_APP_NAME_LEN"
    and "\<And>x. x \<in> set (blist rule) \<union> set (pc_apps st) \<Longrightarrow> pc_match_one hp longest flow x = Some (M x)"
  shows "post (app_filter_match hp longest st flow a) (\<lambda>f. f_drop f \<longleftrightarrow>
     (\<exists>x \<in> set (blist rule). M x) \<or>
     (r_action rule = PC_POLICY_DROP \<and> (\<exists>x \<in> set (pc_apps st). app_in_rule (app_id x) rule \<and> M x)))"
proof -
  have b: "match_blist_app hp longest flow (blist rule) = Some (\<exists>x \<in> set (blist rule). M x)"
    using assms(4) by (intro match_blist_app_eq) simp
  have m: "match_apps hp longest flow rule (pc_apps st) =
      Some (find (\<lambda>x. app_in_rule (app_id x) rule \<and> M x) (pc_apps st))"
    using assms(4) by (intro match_apps_eq) simp
  show ?thesis
  proof (cases "find (\<lambda>x. app_in_rule (app_id x) rule \<and> M x) (pc_apps st)")
    case None
    then have "\<not> (\<exists>x \<in> set (pc_apps st). app_in_rule (app_id x) rule \<and> M x)"
      by (auto simp: find_None_iff)
    then show ?thesis using assms(1) b m None by (simp add: app_filter_match_def)
  next
    case (Some x)
    then have x: "x \<in> set (pc_apps st)" "app_in_rule (app_id x) rule" "M x"
      by (auto simp: find_Some_iff)
    then have n: "length (app_name x) = MAX_APP_NAME_LEN" "0 \<in> set (app_name x)"
      using assms(2) by (auto simp: names_ok_def)
    then obtain nm arr where nm: "cstr_of (app_name x) = Some nm" "c_strcpy (f_app_name flow) nm = Some arr"
      using cstr_copy_fits [of "app_name x" "f_app_name flow"] assms(3) by auto
    have "(\<exists>x \<in> set (pc_apps st). app_in_rule (app_id x) rule \<and> M x)" using x by blast
    with nm b m Some assms(1) show ?thesis by (simp add: app_filter_match_def)
  qed
qed

end
