(* ===== verification/Pc_Json_Spec.thy ===== *)
theory Pc_Json_Spec
  imports Pc_Json
begin

text \<open>
  Printing and parsing JSON values: the values that items stand for, the text of a value, that the
  printer writes this text without running over its blocks, and that the parser reads it back.
\<close>

section \<open>Values\<close>

datatype json = J_Null | J_Bool bool | J_Num int | J_Str cstr | J_Arr "json list" | J_Obj "(cstr \<times> json) list"

text \<open>The value of an item.\<close>

fun json_of :: "cjson \<Rightarrow> json option"
  and jsons_of :: "cjson list \<Rightarrow> json list option"
  and members_of :: "cjson list \<Rightarrow> (cstr \<times> json) list option" where
  "json_of (CJson t nm vs n cs) =
     (if t = cJSON_NULL then Some J_Null
      else if t = cJSON_False then Some (J_Bool False)
      else if t = cJSON_True then Some (J_Bool True)
      else if t = cJSON_Number then Some (J_Num n)
      else if t = cJSON_String then do { m \<leftarrow> vs; s \<leftarrow> cstr_of m; Some (J_Str s) }
      else if t = cJSON_Array then map_option J_Arr (jsons_of cs)
      else if t = cJSON_Object then map_option J_Obj (members_of cs)
      else None)"
| "jsons_of [] = Some []"
| "jsons_of (c # cs) = do { j \<leftarrow> json_of c; js \<leftarrow> jsons_of cs; Some (j # js) }"
| "members_of [] = Some []"
| "members_of (c # cs) = do { nm \<leftarrow> cj_string c; j \<leftarrow> json_of c; js \<leftarrow> members_of cs; Some ((nm, j) # js) }"

lemmas json_types = cJSON_False_def cJSON_True_def cJSON_NULL_def cJSON_Number_def cJSON_String_def
  cJSON_Array_def cJSON_Object_def

text \<open>The values that survive: numbers that fit into an \<open>int\<close> and are not negative, and strings whose control
  characters have an escape and that hold no percent sign.\<close>

definition char_ok :: "u8 \<Rightarrow> bool" where
  "char_ok c \<longleftrightarrow> c > 31 \<and> c \<noteq> 37 \<or> c \<in> {8, 9, 10, 12, 13}"

definition str_ok :: "cstr \<Rightarrow> bool" where "str_ok s \<longleftrightarrow> list_all char_ok s"

fun json_ok :: "json \<Rightarrow> bool" where
  "json_ok J_Null = True"
| "json_ok (J_Bool b) = True"
| "json_ok (J_Num n) = (0 \<le> n \<and> n < 2 ^ 31)"
| "json_ok (J_Str s) = str_ok s"
| "json_ok (J_Arr js) = list_all json_ok js"
| "json_ok (J_Obj ms) = list_all (\<lambda>(nm, j). str_ok nm \<and> json_ok j) ms"

text \<open>Memory does not run out.\<close>

definition good_mem :: "json_mem \<Rightarrow> bool" where
  "good_mem mem \<longleftrightarrow> (\<forall>k n. \<exists>b. jm_block mem k n = Some b \<and> n \<le> length b)"

lemma good_memE: "good_mem mem \<Longrightarrow> (\<And>b. jm_block mem k n = Some b \<Longrightarrow> n \<le> length b \<Longrightarrow> P) \<Longrightarrow> P"
  by (metis good_mem_def)

lemma good_mem_new [simp]: "good_mem mem \<Longrightarrow> cJSON_New_Item mem k"
  by (auto simp: cJSON_New_Item_def elim: good_memE)

lemma good_mem_in_block: "good_mem mem \<Longrightarrow> in_block mem k n s = (if length s < n then Some s else None)"
  by (auto simp: in_block_def elim!: good_memE [of mem k n])

section \<open>The text of a value\<close>

definition str_text :: "cstr \<Rightarrow> cstr" where "str_text s = 34 # concat (map print_char s) @ [34]"

fun json_text :: "nat \<Rightarrow> json \<Rightarrow> cstr"
  and elems_text :: "nat \<Rightarrow> json list \<Rightarrow> cstr"
  and members_text :: "nat \<Rightarrow> (cstr \<times> json) list \<Rightarrow> cstr" where
  "json_text d J_Null = str_null"
| "json_text d (J_Bool b) = (if b then str_true else str_false)"
| "json_text d (J_Num n) = dec_int n"
| "json_text d (J_Str s) = str_text s"
| "json_text d (J_Arr js) = 91 # elems_text d js"
| "json_text d (J_Obj ms) = 123 # 10 # members_text (d + 1) ms"
| "elems_text d [] = [93]"
| "elems_text d (j # js) = json_text (d + 1) j @ (if js \<noteq> [] then [44, 32] else []) @ elems_text d js"
| "members_text d [] = replicate (d - 1) 9 @ [125]"
| "members_text d ((nm, j) # ms) =
     replicate d 9 @ str_text nm @ [58, 9] @ json_text d j @ (if ms \<noteq> [] then [44] else []) @ [10] @ members_text d ms"

section \<open>Numbers\<close>

lemma digit_facts:
  assumes "m < 10"
  shows "48 \<le> (of_nat (48 + m) :: u8)" and "of_nat (48 + m) \<le> (57::u8)"
    and "ucast (of_nat (48 + m) :: u8) - 48 = (of_nat m :: u32)" and "0 < m \<Longrightarrow> 49 \<le> (of_nat (48 + m) :: u8)"
proof -
  have "m = 0 \<or> m = 1 \<or> m = 2 \<or> m = 3 \<or> m = 4 \<or> m = 5 \<or> m = 6 \<or> m = 7 \<or> m = 8 \<or> m = 9"
    using assms by arith
  then show "48 \<le> (of_nat (48 + m) :: u8)" "of_nat (48 + m) \<le> (57::u8)"
    "ucast (of_nat (48 + m) :: u8) - 48 = (of_nat m :: u32)" "0 < m \<Longrightarrow> 49 \<le> (of_nat (48 + m) :: u8)"
    by (elim disjE; simp)+
qed

lemma dec_nat_digits: "c \<in> set (dec_nat n) \<Longrightarrow> 48 \<le> c \<and> c \<le> (57::u8)"
proof (induction n rule: dec_nat.induct)
  case (1 n)
  then show ?case
    using digit_facts(1,2) [of n] digit_facts(1,2) [of "n mod 10"]
    by (cases "n < 10") (auto simp: dec_nat.simps [of n])
qed

lemma dec_nat_hd: "0 < n \<Longrightarrow> \<exists>c s. dec_nat n = c # s \<and> 49 \<le> c \<and> c \<le> (57::u8)"
proof (induction n rule: dec_nat.induct)
  case (1 n)
  show ?case
  proof (cases "n < 10")
    case True
    with "1.prems" show ?thesis using digit_facts(2,4) [of n] by (simp add: dec_nat.simps [of n])
  next
    case False
    then have "0 < n div 10" by simp
    with "1.IH" [OF False] obtain c s where "dec_nat (n div 10) = c # s \<and> 49 \<le> c \<and> c \<le> 57" by blast
    with False show ?thesis by (simp add: dec_nat.simps [of n])
  qed
qed

lemma parse_digits_append:
  "\<forall>c \<in> set ds. 48 \<le> c \<and> c \<le> 57 \<Longrightarrow>
     parse_digits a (ds @ t) = parse_digits (fold (\<lambda>c a. a * 10 + (ucast c - 48)) ds a) t"
  by (induction ds arbitrary: a) auto

lemma fold_dec_nat: "fold (\<lambda>c a. a * 10 + (ucast c - 48)) (dec_nat n) 0 = (of_nat n :: u32)"
proof (induction n rule: dec_nat.induct)
  case (1 n)
  show ?case
  proof (cases "n < 10")
    case True
    with digit_facts(3) [of n] show ?thesis by (simp add: dec_nat.simps [of n])
  next
    case False
    have "of_nat n = (of_nat (n div 10 * 10 + n mod 10) :: u32)" by simp
    also have "\<dots> = of_nat (n div 10) * 10 + of_nat (n mod 10)" by (simp only: of_nat_add of_nat_mult of_nat_numeral)
    finally show ?thesis using False "1.IH" digit_facts(3) [of "n mod 10"] by (simp add: dec_nat.simps [of n])
  qed
qed

text \<open>A character that ends a number.\<close>

definition ends_number :: "u8 list \<Rightarrow> bool" where
  "ends_number t \<longleftrightarrow> (\<exists>c s. t = c # s \<and> \<not> (48 \<le> c \<and> c \<le> 57))"

lemma parse_number_dec:
  assumes "0 \<le> n" and "n < 2 ^ 31" and t: "ends_number t"
  shows "parse_number (dec_int n @ t) = Some (n, t)"
proof (cases "n = 0")
  case True
  with t show ?thesis
    by (auto simp: parse_number_def dec_int_def dec_nat.simps [of 0] arr_get_def ends_number_def)
next
  case False
  define m where "m = nat n"
  have m: "0 < m" "n = int m" "m < 2 ^ 31" using False assms(1,2) by (auto simp: m_def)
  obtain c s where c: "dec_nat m = c # s" "49 \<le> c" "c \<le> 57" using dec_nat_hd [OF m(1)] by auto
  have "parse_digits 0 (dec_nat m @ t) = parse_digits (of_nat m) t"
    using dec_nat_digits by (subst parse_digits_append) (auto simp: fold_dec_nat)
  also have "\<dots> = Some (of_nat m, t)" using t by (auto simp: ends_number_def)
  finally have p: "parse_digits 0 (c # s @ t) = Some (of_nat m, t)" by (simp add: c)
  have "c \<noteq> 45" "c \<noteq> 48" using c(2) by auto
  moreover have "sint (of_nat m :: u32) = int m" using m(3) by (simp add: signed_of_nat signed_take_bit_int_eq_self)
  ultimately show ?thesis
    using p c by (simp add: parse_number_def dec_int_def m(2) arr_get_def)
qed

section \<open>Strings\<close>

text \<open>A character is printed as itself or as an escape that is read back.\<close>

lemma print_char_cases:
  assumes "char_ok c"
  shows "print_char c = [c] \<and> c > 31 \<and> c \<noteq> 34 \<and> c \<noteq> 92 \<or>
    (\<exists>e. print_char c = [92, e] \<and> e \<noteq> 117 \<and> unescape e = c)"
proof -
  have "c > 31 \<and> c \<noteq> 34 \<and> c \<noteq> 92 \<or> c = 34 \<or> c = 92 \<or> c = 8 \<or> c = 9 \<or> c = 10 \<or> c = 12 \<or> c = 13"
    using assms by (auto simp: char_ok_def)
  then show ?thesis by (elim disjE; simp add: print_char_def unescape_def)
qed

lemma str_scan_text:
  "str_ok s \<Longrightarrow> str_scan n (concat (map print_char s) @ 34 # t) = Some (n + length s)"
proof (induction s arbitrary: n)
  case (Cons c s)
  then have "char_ok c" "str_ok s" by (auto simp: str_ok_def)
  with print_char_cases [of c] Cons.IH [of "Suc n"] show ?case by (auto simp: not_le)
qed simp

lemma str_copy_text:
  "str_ok s \<Longrightarrow> j + length s \<le> length out \<Longrightarrow>
     str_copy lib uc out j (concat (map print_char s) @ 34 # t) =
       Some (take j out @ s @ drop (j + length s) out, j + length s, 34 # t)"
proof (induction s arbitrary: j out)
  case Nil
  then show ?case by (simp add: str_copy.simps arr_get_def)
next
  case (Cons c s)
  then have c: "char_ok c" and s: "str_ok s" and j: "j < length out" by (auto simp: str_ok_def)
  define out' where "out' = out[j := c]"
  have "str_copy lib uc out j (concat (map print_char (c # s)) @ 34 # t) =
      str_copy lib uc out' (j + 1) (concat (map print_char s) @ 34 # t)"
    using print_char_cases [OF c] j
    by (subst str_copy.simps) (auto simp: arr_get_def arr_set_def out'_def not_le)
  also have "\<dots> = Some (take (j + 1) out' @ s @ drop (j + 1 + length s) out', j + 1 + length s, 34 # t)"
    using Cons.prems(2) by (intro Cons.IH s) (simp add: out'_def)
  also have "take (j + 1) out' = take j out @ [c]"
    using j by (simp add: out'_def take_Suc_conv_app_nth)
  finally show ?case by (simp add: out'_def)
qed

lemma str_ok_no_null: "str_ok s \<Longrightarrow> 0 \<notin> set s"
  by (auto simp: str_ok_def list_all_iff char_ok_def)

lemma parse_string_text:
  assumes "good_mem mem" and s: "str_ok s"
  shows "\<exists>out. parse_string lib mem k (str_text s @ t) = Some (k + 1, Some (out, t)) \<and> cstr_of out = Some s"
proof -
  obtain out where out: "jm_block mem k (length s + 1) = Some out" "length s + 1 \<le> length out"
    using good_memE [OF assms(1)] by metis
  have "str_scan 0 (concat (map print_char s) @ 34 # t) = Some (length s)"
    using str_scan_text [OF s, of 0] by simp
  moreover have "str_copy lib (jm_uc mem) out 0 (concat (map print_char s) @ 34 # t) =
      Some (s @ drop (length s) out, length s, 34 # t)"
    using str_copy_text [OF s, of 0 out] out(2) by simp
  moreover have "arr_set (s @ drop (length s) out) (length s) 0 = Some (s @ 0 # drop (length s + 1) out)"
    using out(2) by (simp add: arr_set_def list_update_append Cons_nth_drop_Suc [symmetric])
  ultimately have "parse_string lib mem k (str_text s @ t) = Some (k + 1, Some (s @ 0 # drop (length s + 1) out, t))"
    using out(1) by (simp add: parse_string_def str_text_def arr_get_def)
  moreover have "cstr_of (s @ 0 # drop (length s + 1) out) = Some s"
    using str_ok_no_null [OF s] by (auto simp: cstr_of_def takeWhile_append)
  ultimately show ?thesis by blast
qed

lemma print_len_eq: "print_len n s = n + print_len 0 s"
proof (induction s arbitrary: n)
  case (Cons c s)
  show ?case by (simp add: Cons.IH [of "Suc (Suc n)"] Cons.IH [of "Suc n"] Cons.IH [of "Suc (Suc 0)"] Cons.IH [of "Suc 0"])
qed simp

lemma print_len_bound: "length (concat (map print_char s)) \<le> print_len 0 s"
proof (induction s)
  case (Cons c s)
  have "length (print_char c) \<le> (if c < 32 \<or> c = 34 \<or> c = 92 then 2 else 1)"
    by (auto simp: print_char_def)
  with Cons show ?case using print_len_eq [of "Suc (Suc 0)" s] print_len_eq [of "Suc 0" s] by (auto split: if_splits)
qed simp

lemma print_string_text: "good_mem mem \<Longrightarrow> print_string_ptr mem k s = Some (k + 1, str_text s)"
  using print_len_bound [of s] by (simp add: print_string_ptr_def good_mem_in_block str_text_def)

section \<open>No percent signs\<close>

lemma sprintf_text_plain: "37 \<notin> set s \<Longrightarrow> sprintf_text s = Some s"
  by (induction s rule: sprintf_text.induct) auto

lemma str_text_plain: "str_ok s \<Longrightarrow> 37 \<notin> set (str_text s)"
proof -
  have "37 \<notin> set (print_char c)" if "char_ok c" for c
    using that by (auto simp: print_char_def char_ok_def)
  then show "str_ok s \<Longrightarrow> 37 \<notin> set (str_text s)" by (auto simp: str_text_def str_ok_def list_all_iff)
qed

lemma dec_int_plain: "37 \<notin> set (dec_int n)"
  using dec_nat_digits [of 37] by (auto simp: dec_int_def)

lemma json_text_plain:
  "json_ok j \<Longrightarrow> 37 \<notin> set (json_text d j)"
  "list_all json_ok js \<Longrightarrow> 37 \<notin> set (elems_text d js)"
  "list_all (\<lambda>(nm, j). str_ok nm \<and> json_ok j) ms \<Longrightarrow> 37 \<notin> set (members_text d ms)"
proof (induction d j and d js and d ms rule: json_text_elems_text_members_text.induct)
qed (auto simp: str_null_def str_true_def str_false_def dec_int_plain str_text_plain)

section \<open>Printing\<close>

text \<open>The printer writes the text of the value; the sizes it computes are large enough.\<close>

lemma dec_nat_length: "n < 10 ^ Suc m \<Longrightarrow> length (dec_nat n) \<le> Suc m"
proof (induction m arbitrary: n)
  case 0
  then show ?case by (simp add: dec_nat.simps [of n])
next
  case (Suc m)
  then have "length (dec_nat (n div 10)) \<le> Suc m" by (intro Suc.IH) (simp add: less_mult_imp_div_less)
  then show ?case by (simp add: dec_nat.simps [of n])
qed

lemma print_number_text:
  assumes "good_mem mem" and "0 \<le> cj_valueint c" and "cj_valueint c < 2 ^ 31"
  shows "print_number mem k c = Some (k + 1, Some (dec_int (cj_valueint c)))"
proof -
  have "nat (cj_valueint c) < 10 ^ Suc 9" using assms(3) by simp
  then have "length (dec_nat (nat (cj_valueint c))) \<le> Suc 9" by (rule dec_nat_length)
  then have "length (dec_int (cj_valueint c)) < 21" using assms(2) by (simp add: dec_int_def)
  moreover obtain b where "jm_block mem k 21 = Some b" using good_memE [OF assms(1)] by metis
  ultimately show ?thesis using assms(1) by (simp add: print_number_def good_mem_in_block)
qed

lemma jsons_of_Nil [simp]: "jsons_of cs = Some [] \<longleftrightarrow> cs = []"
  by (cases cs) (auto split: bind_splits)

lemma members_of_Nil [simp]: "members_of cs = Some [] \<longleftrightarrow> cs = []"
  by (cases cs) (auto split: bind_splits)

lemma print_text:
  "good_mem mem \<Longrightarrow> json_of c = Some j \<Longrightarrow> json_ok j \<Longrightarrow>
     \<exists>k'. print_value mem d k c = Some (k', Some (json_text d j))"
  "good_mem mem \<Longrightarrow> jsons_of cs = Some js \<Longrightarrow> list_all json_ok js \<Longrightarrow> length out + 1 < len \<Longrightarrow>
     \<exists>k'. print_elems mem d k len out cs = Some (k', Some (out @ elems_text d js))"
  "good_mem mem \<Longrightarrow> members_of cs = Some ms \<Longrightarrow> list_all (\<lambda>(nm, j). str_ok nm \<and> json_ok j) ms \<Longrightarrow>
     0 < d \<Longrightarrow> length out + d < len \<Longrightarrow>
     \<exists>k'. print_members mem d k len out cs = Some (k', Some (out @ members_text d ms))"
proof (induction mem d k c and mem d k len out cs and mem d k len out cs
    arbitrary: j and js and ms rule: print_value_print_elems_print_members.induct)
  case (1 mem depth k t nm vs n cs)
  have blk: "\<exists>b. jm_block mem k m = Some b" for m using good_memE [OF "1.prems"(1)] by metis
  consider "t = cJSON_NULL" | "t = cJSON_False" | "t = cJSON_True" | "t = cJSON_Number" | "t = cJSON_String"
    | "t = cJSON_Array" | "t = cJSON_Object"
    using "1.prems"(2) by (auto split: if_splits)
  then show ?case
  proof cases
    case 6
    with "1.prems"(2) obtain js where j: "j = J_Arr js" "jsons_of cs = Some js" by (auto simp: json_types)
    have "\<exists>k'. print_elems mem depth (k + 1) 5 [91] cs = Some (k', Some ([91] @ elems_text depth js))"
      using "1.IH"(1) [of "[91]" js] 6 j "1.prems" by (simp add: json_types good_mem_in_block)
    with 6 j "1.prems"(1) show ?thesis by (simp add: json_types good_mem_in_block)
  next
    case 7
    with "1.prems"(2) obtain ms where j: "j = J_Obj ms" "members_of cs = Some ms" by (auto simp: json_types)
    have "\<exists>k'. print_members mem (depth + 1) (k + 1) (7 + (depth + 1)) [123, 10] cs =
        Some (k', Some ([123, 10] @ members_text (depth + 1) ms))"
      using "1.IH"(2) [of "[123, 10]" ms] 7 j "1.prems" by (simp add: json_types good_mem_in_block)
    with 7 j "1.prems"(1) show ?thesis by (simp add: json_types good_mem_in_block)
  qed (use "1.prems" blk [of 5] blk [of 6] print_number_text [of mem "CJson t nm vs n cs" k] in
        \<open>auto simp: json_types print_string_text split: bind_splits\<close>)
next
  case (2 mem depth k len out)
  then show ?case by simp
next
  case (3 mem depth k len out c cs)
  then obtain j' js' where js: "js = j' # js'" "json_of c = Some j'" "jsons_of cs = Some js'" "json_ok j'" "list_all json_ok js'"
    by (auto split: bind_splits)
  define T where "T = json_text (depth + 1) j'"
  obtain k1 where k1: "print_value mem (depth + 1) k c = Some (k1, Some T)"
    using "3.IH"(1) [OF "3.prems"(1) js(2,4)] by (auto simp: T_def)
  define out' where "out' = out @ T @ (if cs \<noteq> [] then [44, 32] else [])"
  define len' where "len' = len + length T + 3"
  have out': "length out' + 1 < len'" using "3.prems"(4) by (simp add: out'_def len'_def)
  have sp: "sprintf_text T = Some T"
    unfolding T_def by (intro sprintf_text_plain json_text_plain js(4))
  have blk: "in_block mem k1 len' out' = Some out'" using "3.prems"(1) out' by (simp add: good_mem_in_block)
  obtain k2 where k2: "print_elems mem depth (k1 + 1) len' out' cs = Some (k2, Some (out' @ elems_text depth js'))"
    using "3.IH"(2) [OF k1 refl refl len'_def sp _ "3.prems"(1) js(3,5) out'] blk by (auto simp: out'_def)
  have "cs = [] \<longleftrightarrow> js' = []" using js(3) by auto
  with k1 k2 sp blk show ?case
    by (cases "js' = []") (simp_all add: js(1) Let_def out'_def len'_def T_def)
next
  case (4 mem depth k len out)
  then show ?case by auto
next
  case (5 mem depth k len out c cs)
  then obtain nm j' ms' where ms: "ms = (nm, j') # ms'" "cj_string c = Some nm" "json_of c = Some j'"
    "members_of cs = Some ms'" "str_ok nm" "json_ok j'" "list_all (\<lambda>(nm, j). str_ok nm \<and> json_ok j) ms'"
    by (auto split: bind_splits)
  define N where "N = str_text nm"
  define T where "T = json_text depth j'"
  have str: "print_string_ptr mem k nm = Some (k + 1, N)"
    unfolding N_def by (rule print_string_text [OF "5.prems"(1)])
  obtain k1 where k1: "print_value mem depth (k + 1) c = Some (k1, Some T)"
    using "5.IH"(1) [OF ms(2) str refl "5.prems"(1) ms(3,6)] by (auto simp: T_def)
  define out' where "out' = out @ replicate depth 9 @ N @ [58, 9] @ T @ (if cs \<noteq> [] then [44] else []) @ [10]"
  define len' where "len' = len + length T + length N + 4 + depth"
  have out': "length out' + depth < len'" using "5.prems"(5) by (simp add: out'_def len'_def)
  have sp: "sprintf_text T = Some T" "sprintf_text N = Some N"
    unfolding T_def N_def by (intro sprintf_text_plain json_text_plain str_text_plain ms(5,6))+
  have blk: "in_block mem k1 len' out' = Some out'" using "5.prems"(1) out' by (simp add: good_mem_in_block)
  obtain k2 where k2: "print_members mem depth (k1 + 1) len' out' cs = Some (k2, Some (out' @ members_text depth ms'))"
    using "5.IH"(2) [OF ms(2) str refl k1 refl refl len'_def sp(2,1) _ "5.prems"(1) ms(4,7) "5.prems"(4) out'] blk
    by (auto simp: out'_def)
  have "cs = [] \<longleftrightarrow> ms' = []" using ms(4) by auto
  with k1 k2 sp blk str ms(2) "5.prems"(5) show ?case
    by (cases "ms' = []") (simp_all add: ms(1) Let_def out'_def len'_def T_def N_def)
qed

section \<open>Parsing\<close>

lemma json_skip_blank: "list_all (\<lambda>c. c \<le> 32) w \<Longrightarrow> c > 32 \<Longrightarrow> json_skip (w @ c # s) = Some (c # s)"
  by (induction w) (auto simp: not_le [symmetric])

lemma json_skip_idem: "json_skip v = Some s \<Longrightarrow> json_skip s = Some s"
  by (induction v) (auto split: if_splits)

lemma parse_elems_skip: "json_skip v = json_skip v' \<Longrightarrow> parse_elems lib mem k v = parse_elems lib mem k v'"
  by (simp add: parse_elems.simps)

lemma parse_members_skip:
  "json_skip v = json_skip v' \<Longrightarrow> parse_members lib mem first k v = parse_members lib mem first k v'"
  by (simp add: parse_members.simps)

lemma dec_int_start: "0 \<le> n \<Longrightarrow> \<exists>c s. dec_int n = c # s \<and> 48 \<le> c \<and> c \<le> (57::u8)"
proof (cases "n = 0")
  case True
  then show ?thesis by (simp add: dec_int_def dec_nat.simps [of 0])
next
  case False
  assume "0 \<le> n"
  with False dec_nat_hd [of "nat n"] obtain c s where "dec_nat (nat n) = c # s" "49 \<le> c" "c \<le> (57::u8)" by auto
  moreover from \<open>49 \<le> c\<close> have "48 \<le> c" by (rule order_trans [rotated]) simp
  ultimately show ?thesis using \<open>0 \<le> n\<close> by (simp add: dec_int_def)
qed

lemma json_text_start:
  assumes "json_ok j"
  shows "\<exists>c s. json_text d j = c # s \<and> c > 32 \<and> c \<noteq> 93"
proof (cases j)
  case (J_Num n)
  with assms dec_int_start [of n] obtain c s where c: "dec_int n = c # s" "48 \<le> c" "c \<le> (57::u8)" by auto
  from c(2) have "c > 32" by (rule less_le_trans [rotated]) simp
  with c J_Num show ?thesis by auto
qed (simp_all add: str_null_def str_true_def str_false_def str_text_def)

lemma json_skip_text: "json_ok j \<Longrightarrow> list_all (\<lambda>c. c \<le> 32) w \<Longrightarrow> json_skip (w @ json_text d j @ t) = Some (json_text d j @ t)"
  using json_text_start [of j d] by (auto simp: json_skip_blank)

text \<open>Which branch of \<open>parse_value\<close> a first character takes.\<close>

lemma prefix_eq_other:
  "c \<noteq> 110 \<Longrightarrow> prefix_eq (c # s) str_null = Some False"
  "c \<noteq> 102 \<Longrightarrow> prefix_eq (c # s) str_false = Some False"
  "c \<noteq> 116 \<Longrightarrow> prefix_eq (c # s) str_true = Some False"
  by (simp_all add: str_null_def str_false_def str_true_def)

lemma parse_value_quote:
  "parse_value lib mem nm k (34 # v) = do {
     (k, r) \<leftarrow> parse_string lib mem k (34 # v);
     Some (k, map_option (\<lambda>(out, rest). (CJson cJSON_String nm (Some out) 0 [], rest)) r)
   }"
  by (simp add: parse_value.simps [of _ _ _ _ "34 # v"] prefix_eq_other arr_get_def)

lemma parse_value_array:
  "parse_value lib mem nm k (91 # v) = do {
     s \<leftarrow> json_skip v;
     c \<leftarrow> arr_get s 0;
     if c = 93 then Some (k, Some (CJson cJSON_Array nm None 0 [], drop 1 s))
     else do {
       (k, r) \<leftarrow> parse_elems lib mem k s;
       Some (k, map_option (\<lambda>(cs, rest). (CJson cJSON_Array nm None 0 cs, rest)) r)
     }
   }"
  by (simp add: parse_value.simps [of _ _ _ _ "91 # v"] prefix_eq_other arr_get_def)

lemma parse_value_object:
  "parse_value lib mem nm k (123 # v) = do {
     s \<leftarrow> json_skip v;
     c \<leftarrow> arr_get s 0;
     if c = 125 then Some (k, Some (CJson cJSON_Object nm None 0 [], drop 1 s))
     else do {
       (k, r) \<leftarrow> parse_members lib mem True k s;
       Some (k, map_option (\<lambda>(cs, rest). (CJson cJSON_Object nm None 0 cs, rest)) r)
     }
   }"
  by (simp add: parse_value.simps [of _ _ _ _ "123 # v"] prefix_eq_other arr_get_def)

lemma parse_value_words:
  "parse_value lib mem nm k (str_null @ t) = Some (k, Some (CJson cJSON_NULL nm None 0 [], t))"
  "parse_value lib mem nm k (str_false @ t) = Some (k, Some (CJson cJSON_False nm None 0 [], t))"
  "parse_value lib mem nm k (str_true @ t) = Some (k, Some (CJson cJSON_True nm None 1 [], t))"
  by (simp_all add: parse_value.simps str_null_def str_false_def str_true_def)

lemma parse_value_number:
  assumes "0 \<le> n" and "n < 2 ^ 31" and "ends_number t"
  shows "parse_value lib mem nm k (dec_int n @ t) = Some (k, Some (CJson cJSON_Number nm None n [], t))"
proof -
  obtain c s where c: "dec_int n = c # s" "48 \<le> c" "c \<le> (57::u8)" using dec_int_start [OF assms(1)] by auto
  then have "c \<noteq> 110" "c \<noteq> 102" "c \<noteq> 116" "c \<noteq> 34" "c \<noteq> 91" "c \<noteq> 123" by auto
  with parse_number_dec [OF assms] c show ?thesis
    by (simp add: parse_value.simps [of _ _ _ _ "c # s @ t"] prefix_eq_other arr_get_def)
qed

lemma parse_value_string:
  assumes "good_mem mem" and "str_ok s"
  shows "\<exists>out. parse_value lib mem nm k (str_text s @ t) = Some (k + 1, Some (CJson cJSON_String nm (Some out) 0 [], t)) \<and>
    cstr_of out = Some s"
proof -
  obtain out where "parse_string lib mem k (str_text s @ t) = Some (k + 1, Some (out, t))" "cstr_of out = Some s"
    using parse_string_text [OF assms] by blast
  then show ?thesis
    by (simp add: str_text_def parse_value_quote)
qed

text \<open>The first element or member, and what follows it.\<close>

lemma parse_elems_text:
  assumes "good_mem mem" and "json_skip v = Some s" and "parse_value lib mem None (k + 1) s = Some (k', Some (c, t))"
  shows "json_skip t = Some (93 # u) \<Longrightarrow> parse_elems lib mem k v = Some (k', Some ([c], u))"
    and "json_skip t = Some (44 # u) \<Longrightarrow> parse_elems lib mem k' u = Some (k'', Some (cs, r)) \<Longrightarrow>
      parse_elems lib mem k v = Some (k'', Some (c # cs, r))"
  using assms by (simp_all add: parse_elems.simps [of _ _ k] arr_get_def)

lemma parse_members_text:
  assumes "good_mem mem" and "str_ok nm" and "json_skip v = Some (str_text nm @ p)"
    and "json_skip p = Some (58 # q)" and "json_skip q = Some s"
    and "\<And>k. \<exists>k' c. parse_value lib mem (Some nm) k s = Some (k', Some (c, t)) \<and> P c"
  shows "json_skip t = Some (125 # u) \<Longrightarrow> \<exists>k' c. parse_members lib mem first k v = Some (k', Some ([c], u)) \<and> P c"
    and "json_skip t = Some (44 # u) \<Longrightarrow> (\<And>k. \<exists>k' cs. parse_members lib mem False k u = Some (k', Some (cs, r)) \<and> Q cs) \<Longrightarrow>
      \<exists>k' c cs. parse_members lib mem first k v = Some (k', Some (c # cs, r)) \<and> P c \<and> Q cs"
proof -
  obtain out where out: "parse_string lib mem (k + 1) (str_text nm @ p) = Some (k + 2, Some (out, p))" "cstr_of out = Some nm"
    using parse_string_text [OF assms(1,2), of lib "k + 1" p] by auto
  obtain k1 c where c: "parse_value lib mem (Some nm) (k + 2) s = Some (k1, Some (c, t))" "P c"
    using assms(6) by blast
  show "json_skip t = Some (125 # u) \<Longrightarrow> \<exists>k' c. parse_members lib mem first k v = Some (k', Some ([c], u)) \<and> P c"
    using assms(1,3-5) out c by (simp add: parse_members.simps [of _ _ _ k] arr_get_def)
  assume t: "json_skip t = Some (44 # u)"
    and "\<And>k. \<exists>k' cs. parse_members lib mem False k u = Some (k', Some (cs, r)) \<and> Q cs"
  then obtain k2 cs where "parse_members lib mem False k1 u = Some (k2, Some (cs, r))" "Q cs" by blast
  with t show "\<exists>k' c cs. parse_members lib mem first k v = Some (k', Some (c # cs, r)) \<and> P c \<and> Q cs"
    using assms(1,3-5) out c by (simp add: parse_members.simps [of _ _ _ k] arr_get_def)
qed

lemma parse_text:
  "good_mem mem \<Longrightarrow> json_ok j \<Longrightarrow> ends_number t \<Longrightarrow>
     \<exists>k' c. parse_value lib mem nm k (json_text d j @ t) = Some (k', Some (c, t)) \<and> json_of c = Some j \<and> cj_string c = nm"
  "good_mem mem \<Longrightarrow> list_all json_ok js \<Longrightarrow> js \<noteq> [] \<Longrightarrow> list_all (\<lambda>c. c \<le> 32) w \<Longrightarrow>
     \<exists>k' cs. parse_elems lib mem k (w @ elems_text d js @ t) = Some (k', Some (cs, t)) \<and> jsons_of cs = Some js"
  "good_mem mem \<Longrightarrow> list_all (\<lambda>(nm, j). str_ok nm \<and> json_ok j) ms \<Longrightarrow> ms \<noteq> [] \<Longrightarrow> list_all (\<lambda>c. c \<le> 32) w \<Longrightarrow>
     \<exists>k' cs. parse_members lib mem first k (w @ members_text d ms @ t) = Some (k', Some (cs, t)) \<and> members_of cs = Some ms"
proof (induction d j and d js and d ms arbitrary: nm k t and w k t and first w k t
    rule: json_text_elems_text_members_text.induct)
  case (4 d s)
  then obtain out where "parse_value lib mem nm k (str_text s @ t) =
      Some (k + 1, Some (CJson cJSON_String nm (Some out) 0 [], t))" "cstr_of out = Some s"
    using parse_value_string by (metis json_ok.simps(4))
  then show ?case by (simp add: json_types)
next
  case (5 d js)
  show ?case
  proof (cases js)
    case Nil
    then show ?thesis by (simp add: parse_value_array arr_get_def json_types)
  next
    case (Cons j js')
    with "5.prems" have ok: "list_all json_ok js" "js \<noteq> []" "json_ok j" by auto
    obtain c s where c: "json_text (d + 1) j = c # s" "c > 32" "c \<noteq> 93" using json_text_start [OF ok(3)] by blast
    obtain k' cs where "parse_elems lib mem k (elems_text d js @ t) = Some (k', Some (cs, t))" "jsons_of cs = Some js"
      using "5.IH" [OF "5.prems"(1) ok(1,2), of "[]" k t] by auto
    moreover have "\<exists>u. elems_text d js @ t = c # u" using c(1) Cons by simp
    then obtain u where "elems_text d js @ t = c # u" ..
    ultimately show ?thesis using c(2,3) by (simp add: parse_value_array arr_get_def json_types not_le [symmetric])
  qed
next
  case (6 d ms)
  show ?case
  proof (cases ms)
    case Nil
    then show ?thesis
      using json_skip_blank [of "10 # replicate d 9" 125 t]
      by (simp add: parse_value_object arr_get_def json_types list_all_iff)
  next
    case (Cons m ms')
    obtain a j where m: "m = (a, j)" by fastforce
    define v where "v = members_text (Suc d) ms @ t"
    with "6.prems" Cons have ok: "list_all (\<lambda>(nm, j). str_ok nm \<and> json_ok j) ms" "ms \<noteq> []" by auto
    have "\<exists>u. v = replicate (d + 1) 9 @ 34 # u" using Cons m by (simp add: v_def str_text_def)
    then obtain u where u: "v = replicate (d + 1) 9 @ 34 # u" ..
    have skip: "json_skip v = Some (34 # u)" unfolding u by (intro json_skip_blank) (simp_all add: list_all_iff)
    then have "json_skip (10 # v) = Some (34 # u)" by simp
    obtain k' cs where "parse_members lib mem True k v = Some (k', Some (cs, t))" "members_of cs = Some ms"
      using "6.IH" [OF "6.prems"(1) ok, of "[]" True k t] by (auto simp: v_def)
    moreover have "parse_members lib mem True k v = parse_members lib mem True k (34 # u)"
      by (rule parse_members_skip) (simp add: skip json_skip_idem [OF skip])
    ultimately show ?thesis
      using \<open>json_skip (10 # v) = Some (34 # u)\<close>
      by (simp add: parse_value_object arr_get_def json_types v_def [symmetric])
  qed
next
  case (8 d j js)
  then have ok: "json_ok j" "list_all json_ok js" by auto
  define p where "p = (if js \<noteq> [] then [44, 32] else []) @ elems_text d js @ t"
  have "ends_number p" by (cases js) (auto simp: p_def ends_number_def)
  then obtain k' c where c: "parse_value lib mem None (k + 1) (json_text (d + 1) j @ p) = Some (k', Some (c, p))" "json_of c = Some j"
    using "8.IH"(1) [OF "8.prems"(1) ok(1), of p None "k + 1"] by blast
  have skip: "json_skip (w @ json_text (d + 1) j @ p) = Some (json_text (d + 1) j @ p)"
    using ok(1) "8.prems"(4) by (rule json_skip_text)
  note elems = parse_elems_text [OF "8.prems"(1) skip c(1)]
  have eqn: "w @ elems_text d (j # js) @ t = w @ json_text (d + 1) j @ p" by (simp add: p_def)
  show ?case
  proof (cases "js = []")
    case True
    then have "json_skip p = Some (93 # t)" by (simp add: p_def)
    from elems(1) [OF this] show ?thesis unfolding eqn using c(2) True by auto
  next
    case False
    then have p: "json_skip p = Some (44 # [32] @ elems_text d js @ t)" by (simp add: p_def)
    obtain k2 cs where "parse_elems lib mem k' ([32] @ elems_text d js @ t) = Some (k2, Some (cs, t))" "jsons_of cs = Some js"
      using "8.IH"(2) [OF "8.prems"(1) ok(2) False, of "[32]" k' t] by auto
    with elems(2) [OF p] c(2) show ?thesis unfolding eqn by auto
  qed
next
  case (10 d nm j ms)
  then have ok: "str_ok nm" "json_ok j" "list_all (\<lambda>(nm, j). str_ok nm \<and> json_ok j) ms" by auto
  define r where "r = (if ms \<noteq> [] then [44] else []) @ [10] @ members_text d ms @ t"
  have "ends_number r" by (cases ms) (auto simp: r_def ends_number_def)
  then have val: "\<exists>k' c. parse_value lib mem (Some nm) k (json_text d j @ r) = Some (k', Some (c, r)) \<and>
      json_of c = Some j \<and> cj_string c = Some nm" for k
    using "10.IH"(1) [OF "10.prems"(1) ok(2), of r "Some nm" k] by blast
  have skip: "json_skip (w @ replicate d 9 @ str_text nm @ [58, 9] @ json_text d j @ r) =
      Some (str_text nm @ [58, 9] @ json_text d j @ r)"
    using json_skip_blank [of "w @ replicate d 9" 34] "10.prems"(4)
    by (auto simp: str_text_def list_all_iff ball_Un)
  have colon: "json_skip ([58, 9] @ json_text d j @ r) = Some (58 # [9] @ json_text d j @ r)" by simp
  have val_skip: "json_skip ([9] @ json_text d j @ r) = Some (json_text d j @ r)"
    using ok(2) by (rule json_skip_text) simp
  note mems = parse_members_text [OF "10.prems"(1) ok(1) skip colon val_skip val]
  have eqn: "w @ members_text d ((nm, j) # ms) @ t = w @ replicate d 9 @ str_text nm @ [58, 9] @ json_text d j @ r"
    by (simp add: r_def)
  show ?case
  proof (cases "ms = []")
    case True
    then have "json_skip r = Some (125 # t)"
      using json_skip_blank [of "10 # replicate (d - 1) 9" 125 t] by (simp add: r_def list_all_iff)
    from mems(1) [OF this, of first k] show ?thesis unfolding eqn using True by force
  next
    case False
    then have r: "json_skip r = Some (44 # [10] @ members_text d ms @ t)" by (simp add: r_def)
    have rest: "\<exists>k' cs. parse_members lib mem False k ([10] @ members_text d ms @ t) = Some (k', Some (cs, t)) \<and>
        members_of cs = Some ms" for k
      using "10.IH"(2) [OF "10.prems"(1) ok(3) False, of "[10]" False k t] by simp
    from mems(2) [OF r rest, of first k] obtain k' c cs
      where "parse_members lib mem first k (w @ replicate d 9 @ str_text nm @ [58, 9] @ json_text d j @ r) = Some (k', Some (c # cs, t))"
        "json_of c = Some j" "cj_string c = Some nm" "members_of cs = Some ms" by blast
    then show ?thesis unfolding eqn by auto
  qed
qed (auto simp: parse_value_words parse_value_number json_types)

end
