(* ===== verification/Pc_Sample.thy ===== *)
theory Pc_Sample
  imports Pc_Policy_Inv Pc_Filter_Spec Pc_Json_Spec
begin

text \<open>
  Concrete inputs of the parental-control module: a library of scanning functions that reads decimal and
  hexadecimal numbers, a configuration with one rule and one group, and packets.
\<close>

section \<open>Scanning\<close>

definition digit_val :: "u8 \<Rightarrow> nat" where
  "digit_val c = (if isdigit c then unat c - 48 else if 97 \<le> c then unat c - 87 else unat c - 55)"

fun scan_num :: "nat \<Rightarrow> nat \<Rightarrow> nat \<Rightarrow> cstr \<Rightarrow> nat \<times> nat" where
  "scan_num base v n [] = (v, n)"
| "scan_num base v n (c # s) =
     (if isxdigit c \<and> digit_val c < base then scan_num base (v * base + digit_val c) (n + 1) s else (v, n))"

definition sample_strtol :: "cstr \<Rightarrow> nat \<Rightarrow> int \<times> nat" where
  "sample_strtol s base =
     (if take 1 s = [45] then (let (v, n) = scan_num base 0 0 (tl s) in (- int v, n + 1))
      else (let (v, n) = scan_num base 0 0 s in (int v, n)))"

definition number_klib :: klib where
  "number_klib = \<lparr>kl_sscanf = (\<lambda>fmt s. []), simple_strtol = sample_strtol,
     simple_strtoul = (\<lambda>s base. scan_num base 0 0 s), simple_strtoull = (\<lambda>s base. scan_num base 0 0 s)\<rparr>"

definition sample_klib :: klib where
  "sample_klib = number_klib\<lparr>kl_sscanf := (\<lambda>fmt s. snd (k_sscanf number_klib s fmt))\<rparr>"

section \<open>A configuration\<close>

definition jstr :: "cstr option \<Rightarrow> cstr \<Rightarrow> cjson" where
  "jstr nm s = CJson cJSON_String nm (Some (s @ replicate 33 0)) 0 []"

definition jnum :: "cstr option \<Rightarrow> int \<Rightarrow> cjson" where
  "jnum nm i = CJson cJSON_Number nm None i []"

definition jarr :: "cstr option \<Rightarrow> cjson list \<Rightarrow> cjson" where
  "jarr nm cs = CJson cJSON_Array nm None 0 cs"

definition jobj :: "cstr option \<Rightarrow> cjson list \<Rightarrow> cjson" where
  "jobj nm cs = CJson cJSON_Object nm None 0 cs"

text \<open>A rule with the identifier \<open>r\<close> that drops the application 1001 and the blacklisted port 443.\<close>

definition sample_rules :: cjson where
  "sample_rules = jobj (Some str_data) [jarr (Some str_rules) [jobj None
     [jstr (Some str_id) [114], jnum (Some str_action) 2, jarr (Some str_apps) [jnum None 1001],
      jarr (Some str_blacklist) [jstr None [116, 99, 112, 59, 59, 52, 52, 51, 59, 59, 59]]]]]"

text \<open>A group with the identifier \<open>g\<close> and the address \<open>02:00:00:00:00:0a\<close>.\<close>

definition sample_groups :: cjson where
  "sample_groups = jobj (Some str_data) [jarr (Some str_groups) [jobj None
     [jstr (Some str_id) [103], jstr (Some str_rule) [114],
      jarr (Some str_macs) [jstr None [48, 50, 58, 48, 48, 58, 48, 48, 58, 48, 48, 58, 48, 48, 58, 48, 97]]]]]"

text \<open>The command that adds the rule, and memory for the parser in blocks of 128 bytes or more.\<close>

definition sample_command :: cjson where
  "sample_command = jobj None [jnum (Some str_op) 1, sample_rules]"

definition sample_json_mem :: json_mem where
  "sample_json_mem = \<lparr>jm_block = (\<lambda>k n. Some (replicate (max 128 n) 0)), jm_uc = 0\<rparr>"

lemma sample_json_mem_good: "good_mem sample_json_mem"
  by (simp add: good_mem_def sample_json_mem_def)

definition sample_init :: pc_state where
  "sample_init = \<lparr>pc_apps = [], pc_allocs = [], pc_rules = [], pc_groups = [], pc_next = 0,
     pc_drop_anonymous = 0, pc_src_dev = replicate MAX_SRC_DEVNAME_SIZE 0\<rparr>"

definition sample_mac :: "u8 list" where "sample_mac = [2, 0, 0, 0, 0, 10]"

definition sample_with_rule :: pc_state where
  "sample_with_rule = snd (the (pc_command sample_klib PC_CMD_ADD_RULE (Some sample_rules) sample_init))"

definition sample_pc :: pc_state where
  "sample_pc = snd (the (pc_command sample_klib PC_CMD_ADD_GROUP (Some sample_groups) sample_with_rule))"

lemma sample_steps:
  "pc_command sample_klib PC_CMD_ADD_RULE (Some sample_rules) sample_init = Some (0, sample_with_rule)"
  "pc_command sample_klib PC_CMD_ADD_GROUP (Some sample_groups) sample_with_rule = Some (0, sample_pc)"
  by code_simp+

lemma sample_reach: "pc_reach sample_klib sample_pc"
proof (rule reach_step [OF reach_step [OF reach_init]])
  show "pc_rules sample_init = []" "pc_groups sample_init = []" by (simp_all add: sample_init_def)
  show "pc_step sample_klib sample_init sample_with_rule"
    by (rule step_command [OF sample_steps(1)]) (simp add: PC_CMD_ADD_RULE_def PC_CMD_CLEAN_RULE_def)
  show "pc_step sample_klib sample_with_rule sample_pc"
    by (rule step_command [OF sample_steps(2)]) (simp add: PC_CMD_ADD_GROUP_def PC_CMD_CLEAN_RULE_def)
qed

definition sample_rule :: pc_rule where "sample_rule = the (rule_at sample_pc 0)"
definition sample_group :: pc_group where "sample_group = hd (pc_groups sample_pc)"

lemma sample_pc_facts:
  "find_group_by_mac sample_pc sample_mac = Some sample_group" "g_rule sample_group = Some 0"
  "rule_at sample_pc 0 = Some sample_rule" "r_action sample_rule = PC_POLICY_DROP" "pc_apps sample_pc = []"
  "check_source_net_dev sample_pc skb = Some (skb_dev skb \<noteq> None)"
proof -
  show "find_group_by_mac sample_pc sample_mac = Some sample_group" by code_simp
  show "g_rule sample_group = Some 0" by code_simp
  show "rule_at sample_pc 0 = Some sample_rule" by code_simp
  show "r_action sample_rule = PC_POLICY_DROP" by code_simp
  show "pc_apps sample_pc = []" by code_simp
  have "cstr_of (pc_src_dev sample_pc) = Some []" by code_simp
  then show "check_source_net_dev sample_pc skb = Some (skb_dev skb \<noteq> None)"
    by (simp add: check_source_net_dev_def split: option.split)
qed

section \<open>Packets\<close>

text \<open>Regular expressions of the samples run in memory that holds zeros.\<close>

definition zero_heap :: re_heap where
  "zero_heap i = Some \<lparr>re_type = RE_CHAR, re_ch = 0, re_ccl = [], re_nccl = False\<rparr>"

lemma zero_heap_clean: "clean_heap zero_heap"
  by (simp add: clean_heap_def zero_heap_def)

text \<open>A TCP packet to the given port.\<close>

definition sample_packet :: "u8 list \<Rightarrow> u8 list \<Rightarrow> u8 list" where
  "sample_packet port payload =
     [0x45, 0, 0, of_nat (40 + length payload), 0, 0, 0, 0, 64, 6, 0, 0, 192, 168, 8, 10, 1, 1, 1, 1,
      0x30, 0x39] @ port @ [0, 0, 0, 0, 0, 0, 0, 0, 0x50, 0, 0, 0, 0, 0, 0, 0] @ payload"

definition sample_skb :: "u8 list \<Rightarrow> u8 list \<Rightarrow> sk_buff" where
  "sample_skb port payload = \<lparr>skb_dev = Some [98, 114], skb_eth_source = Some sample_mac, skb_ctinfo = 2,
     skb_network = Some (sample_packet port payload), skb_data = sample_packet port payload\<rparr>"

text \<open>The text \<open>GET /index.html\<close> and an empty host.\<close>

definition empty_host_request :: "u8 list" where
  "empty_host_request = [71, 69, 84, 32, 47, 105, 110, 100, 101, 120, 46, 104, 116, 109, 108, 13, 10,
     72, 111, 115, 116, 58, 13, 10, 13, 10]"

definition tcp_flow :: "u8 list \<Rightarrow> flow_info" where
  "tcp_flow data = zero_flow\<lparr>smac := sample_mac, l4_protocol := IPPROTO_TCP, f_sport := 12345, f_dport := 80,
     l4_data := Some (data @ [0, 0, 0, 0]), l4_len := int (length data)\<rparr>"

end
