(* ===== verification/Pc_App_Spec.thy ===== *)
theory Pc_App_Spec
  imports Pc_App
begin

text \<open>
  What the parsers of feature strings compute: the fields of a string, lists of ports, and the
  features of an application.
\<close>

section \<open>Fields\<close>

definition join_with :: "u8 \<Rightarrow> cstr \<Rightarrow> cstr list \<Rightarrow> cstr" where
  "join_with sep f fs = f @ concat (map (\<lambda>g. sep # g) fs)"

lemma split_rest_plain: "sep \<notin> set f \<Longrightarrow> split_rest sep cur (f @ s) = split_rest sep (cur @ f) s"
  by (induction f arbitrary: cur) auto

lemma split_rest_join:
  "sep \<notin> set f \<Longrightarrow> \<forall>g \<in> set fs. sep \<notin> set g \<Longrightarrow>
     split_rest sep cur (join_with sep f fs) = (butlast ((cur @ f) # fs), last ((cur @ f) # fs))"
proof (induction fs arbitrary: cur f)
  case Nil
  then show ?case using split_rest_plain [of sep f cur "[]"] by (simp add: join_with_def)
next
  case (Cons g gs)
  then have IH: "split_rest sep [] (join_with sep g gs) = (butlast (g # gs), last (g # gs))" by simp
  have "split_rest sep cur (join_with sep f (g # gs)) = split_rest sep (cur @ f) (sep # join_with sep g gs)"
    using Cons.prems by (simp add: join_with_def split_rest_plain)
  then show ?case by (simp add: IH)
qed

lemma scan_fields_join:
  assumes "f \<noteq> []" and "sep \<notin> set f" and "\<forall>g \<in> set fs. sep \<notin> set g"
  shows "scan_fields sep (join_with sep f fs) = (butlast (f # fs), last (f # fs))"
proof -
  obtain c f' where f: "f = c # f'" using assms(1) by (cases f) auto
  have "join_with sep f fs = c # join_with sep f' fs" by (simp add: f join_with_def)
  moreover have "split_rest sep [c] (join_with sep f' fs) = (butlast (([c] @ f') # fs), last (([c] @ f') # fs))"
    using assms(2,3) f by (intro split_rest_join) auto
  ultimately show ?thesis by (simp add: scan_fields_def f)
qed

lemma dropWhile_none: "\<forall>c \<in> set s. \<not> P c \<Longrightarrow> dropWhile P s = s"
  by (cases s) auto

lemma k_trim_id: "\<forall>c \<in> set s. \<not> isspace c \<Longrightarrow> k_trim s = s"
  by (simp add: k_trim_def dropWhile_none)

lemma cstr_of_append [simp]: "0 \<notin> set s \<Longrightarrow> cstr_of (s @ 0 # r) = Some s"
  by (simp add: cstr_of_def takeWhile_append)

lemma strncpy_cstr:
  assumes "0 \<notin> set s" and "length s < m" and "n = length s \<or> n = length s + 1"
  shows "\<exists>a. c_strncpy (replicate m 0) s n = Some a \<and> cstr_of a = Some s"
proof -
  have n: "take n (s @ replicate n 0) = s @ replicate (n - length s) 0" "n \<le> m"
    using assms(2,3) by auto
  have "c_strncpy (replicate m 0) s n = Some (s @ replicate (n - length s) 0 @ replicate (m - n) 0)"
    using assms(3) n by (auto simp: c_strncpy_def mem_put_def)
  moreover have "replicate (n - length s) (0::u8) @ replicate (m - n) 0 = 0 # replicate (m - length s - 1) 0"
    using assms(2,3) by (auto simp: replicate_append_same simp flip: replicate_Suc replicate_add)
  ultimately show ?thesis using assms(1) by simp
qed

lemma strcpy_cstr:
  assumes "0 \<notin> set s" and "length s < m"
  shows "\<exists>a. c_strcpy (replicate m 0) s = Some a \<and> cstr_of a = Some s"
  using assms by (auto simp: c_strcpy_def mem_put_def)

section \<open>Ports\<close>

text \<open>Numbers without a sign, and what \<open>sscanf\<close> promises for them.\<close>

definition digits :: "cstr \<Rightarrow> bool" where
  "digits s \<longleftrightarrow> s \<noteq> [] \<and> list_all isdigit s \<and> length s < 128"

definition scans_numbers :: "klib \<Rightarrow> (cstr \<Rightarrow> int) \<Rightarrow> bool" where
  "scans_numbers lib val \<longleftrightarrow> (\<forall>s. digits s \<longrightarrow> kl_sscanf lib fmt_d s = [Scan_Int (val s)])"

lemma digits_chars: "digits s \<Longrightarrow> c \<in> set s \<Longrightarrow> isdigit c \<and> \<not> isspace c \<and> c \<noteq> 0 \<and> c \<noteq> 33 \<and> c \<noteq> 45 \<and> c \<noteq> 124"
  by (auto simp: digits_def list_all_iff isdigit_def isspace_def word_le_nat_alt)

definition one_port :: "int \<Rightarrow> range_value" where
  "one_port v = \<lparr>rv_not = False, rv_start = v, rv_end = v\<rparr>"

lemma one_port_update: "r\<lparr>rv_not := False, rv_start := v, rv_end := v\<rparr> = one_port v"
  by (cases r) (simp add: one_port_def)

lemma port_one_digits:
  assumes "scans_numbers lib val" and "digits f" and "n = length f \<or> n = length f + 1"
  shows "port_one lib f n info =
    (if pi_num info < length (range_list info)
     then Some (info\<lparr>range_list := (range_list info)[pi_num info := one_port (val f)], pi_num := pi_num info + 1\<rparr>)
     else None)"
proof -
  note ch = digits_chars [OF assms(2)]
  have z: "0 \<notin> set f" "length f < 128" using ch assms(2) by (auto simp: digits_def)
  obtain a where a: "c_strncpy (replicate 128 0) f n = Some a" "cstr_of a = Some f"
    using strncpy_cstr [OF z assms(3)] by blast
  obtain b where b: "c_strcpy (replicate 128 0) f = Some b" "cstr_of b = Some f"
    using strcpy_cstr [OF z] by blast
  have v: "validate_range_value f" using ch by (auto simp: validate_range_value_def list_all_iff)
  have t: "k_trim f = f" using ch by (intro k_trim_id) blast
  have neg: "take 1 f \<noteq> [33]" using ch assms(2) by (cases f) (auto simp: digits_def)
  have s: "kl_sscanf lib fmt_d f = [Scan_Int (val f)]" using assms(1,2) by (simp add: scans_numbers_def)
  have m: "45 \<notin> set f" using ch by blast
  show ?thesis
    using a b v t neg s m
    by (auto simp: port_one_def parse_range_value_def arr_get_def arr_set_def one_port_update Let_def)
qed

lemma port_loop_digits:
  "scans_numbers lib val \<Longrightarrow> \<forall>f \<in> set fs. digits f \<Longrightarrow> pi_num info \<le> length (range_list info) \<Longrightarrow>
     (if pi_num info + length fs \<le> length (range_list info)
      then \<exists>info'. port_loop lib fs info = Some info' \<and> pi_num info' = pi_num info + length fs \<and>
             length (range_list info') = length (range_list info) \<and>
             take (pi_num info') (range_list info') =
               take (pi_num info) (range_list info) @ map (\<lambda>f. one_port (val f)) fs
      else port_loop lib fs info = None)"
proof (induction fs arbitrary: info)
  case (Cons f fs)
  let ?info = "info\<lparr>range_list := (range_list info)[pi_num info := one_port (val f)], pi_num := pi_num info + 1\<rparr>"
  have one: "port_one lib f (length f) info = (if pi_num info < length (range_list info) then Some ?info else None)"
    using Cons.prems by (intro port_one_digits) simp_all
  show ?case
  proof (cases "pi_num info < length (range_list info)")
    case True
    then have t: "take (pi_num ?info) (range_list ?info) = take (pi_num info) (range_list info) @ [one_port (val f)]"
      by (simp add: take_Suc_conv_app_nth)
    have loop: "port_loop lib (f # fs) info = port_loop lib fs ?info" using one True by simp
    have IH: "if pi_num ?info + length fs \<le> length (range_list ?info)
      then \<exists>info'. port_loop lib fs ?info = Some info' \<and> pi_num info' = pi_num ?info + length fs \<and>
             length (range_list info') = length (range_list ?info) \<and>
             take (pi_num info') (range_list info') =
               take (pi_num ?info) (range_list ?info) @ map (\<lambda>f. one_port (val f)) fs
      else port_loop lib fs ?info = None"
      using Cons.prems True by (intro Cons.IH) simp_all
    show ?thesis
      using IH unfolding t loop by (cases "pi_num info + length (f # fs) \<le> length (range_list info)") simp_all
  next
    case False
    with one show ?thesis by simp
  qed
qed simp

lemma port_loop_snoc:
  "port_loop lib (fs @ [f]) info = do { info \<leftarrow> port_loop lib fs info; port_one lib f (length f) info }"
  by (induction fs arbitrary: info) (simp_all cong: bind_option_cong)

lemma parse_port_info_digits:
  assumes "scans_numbers lib val" and "\<forall>f \<in> set (f0 # fs). digits f"
  shows "parse_port_info lib (join_with 124 f0 fs) info =
    map_option (Pair 0) (port_loop lib (f0 # fs) info)"
proof -
  let ?s = "join_with 124 f0 fs"
  have ch: "isdigit c \<and> \<not> isspace c \<and> c \<noteq> 124" if "f \<in> set (f0 # fs)" "c \<in> set f" for f c
    using that assms(2) digits_chars by blast
  have "\<forall>c \<in> set ?s. \<not> isspace c"
    using ch by (auto simp: join_with_def) (simp add: isspace_def)
  then have t: "k_trim ?s = ?s" by (rule k_trim_id)
  have ne: "f0 \<noteq> []" "?s \<noteq> []" using assms(2) by (auto simp: digits_def join_with_def)
  obtain bs l where all: "f0 # fs = bs @ [l]" by (cases "f0 # fs" rule: rev_cases) auto
  have sc: "scan_fields 124 ?s = (bs, l)"
  proof -
    have "124 \<notin> set f0" "\<forall>g \<in> set fs. 124 \<notin> set g" using ch by auto
    with scan_fields_join [OF ne(1) this] show ?thesis unfolding all by simp
  qed
  have "digits l" using assms(2) all by simp
  then have "port_one lib l (length l + 1) i = port_one lib l (length l) i" for i
    by (simp only: port_one_digits [OF assms(1)] simp_thms)
  then show ?thesis
    using t sc ne by (simp add: parse_port_info_def all port_loop_snoc map_option_bind comp_def
        map_conv_bind_option)
qed

section \<open>Features\<close>

lemma parse_feature_join:
  assumes "length fs = 5" and "\<forall>f \<in> set fs. 59 \<notin> set f" and "59 \<notin> set dict"
    and "fs ! 0 = [116, 99, 112] \<or> fs ! 0 = [117, 100, 112]"
    and "parse_port_info lib (take 15 (fs ! 2)) zero_port_info = Some (r, ports)"
  shows "parse_feature lib (join_with 59 (hd fs) (tl fs @ [dict])) = Some (Some
    \<lparr>af_proto = (if fs ! 0 = [116, 99, 112] then IPPROTO_TCP else IPPROTO_UDP),
     af_sport = (case kl_sscanf lib fmt_d (take 15 (fs ! 1)) of [Scan_Int v] \<Rightarrow> v | _ \<Rightarrow> 0),
     af_dport = ports, af_host = take 253 (fs ! 3), af_request = take 127 (fs ! 4), af_dict = take 127 dict\<rparr>)"
proof -
  obtain f0 f1 f2 f3 f4 where fs: "fs = [f0, f1, f2, f3, f4]"
    using assms(1) by (auto simp: numeral_eq_Suc length_Suc_conv)
  have "f0 \<noteq> []" using assms(4) fs by auto
  then have "scan_fields 59 (join_with 59 f0 [f1, f2, f3, f4, dict]) = (fs, dict)"
    using scan_fields_join [of f0 59 "[f1, f2, f3, f4, dict]"] assms(2,3) fs by auto
  then show ?thesis
    using assms(4,5) fs
    by (auto simp: parse_feature_def feature_field_def PC_DICT_PARAM_INDEX_def MAX_HOST_URL_LEN_def
        MAX_REQUEST_URL_LEN_def)
qed

lemma push_pos_empty: "push_pos lib [] node = Some node"
  by (simp add: push_pos_def k_sscanf_def scanf_loop.simps fmt_d_x_def)

lemma strcpy_into:
  assumes "0 \<notin> set s" and "length s < length a"
  shows "\<exists>b. c_strcpy a s = Some b \<and> cstr_of b = Some s \<and> length b = length a"
  using assms by (auto simp: c_strcpy_def mem_put_def)

lemma set_app_feature_plain:
  assumes "0 \<notin> set nm" and "length nm < MAX_APP_NAME_LEN"
    and "0 \<notin> set host" and "length host < MAX_HOST_URL_LEN"
    and "0 \<notin> set request" and "length request < MAX_REQUEST_URL_LEN"
  shows "\<exists>app. set_app_feature lib zero_app appid nm pr src dport host request [] = Some app \<and>
    app_id app = appid \<and> cstr_of (app_name app) = Some nm \<and> length (app_name app) = MAX_APP_NAME_LEN \<and>
    proto app = pr \<and> sport app = of_int src \<and> dport_info app = dport \<and> cstr_of (host_url app) = Some host \<and>
    cstr_of (request_url app) = Some request \<and> pos_num app = 0"
proof -
  obtain n where n: "c_strcpy (app_name zero_app) nm = Some n" "cstr_of n = Some nm" "length n = MAX_APP_NAME_LEN"
    using strcpy_into [OF assms(1), of "app_name zero_app"] assms(2) by (auto simp: zero_app_def)
  obtain h where h: "c_strcpy (host_url zero_app) host = Some h" "cstr_of h = Some host"
    using strcpy_into [OF assms(3), of "host_url zero_app"] assms(4) by (auto simp: zero_app_def)
  obtain q where q: "c_strcpy (request_url zero_app) request = Some q" "cstr_of q = Some request"
    using strcpy_into [OF assms(5), of "request_url zero_app"] assms(6) by (auto simp: zero_app_def)
  obtain b where b: "c_strcpy (replicate POS_SIZE 0) [] = Some b" "cstr_of b = Some []"
    using strcpy_into [of "[]" "replicate POS_SIZE 0"] by (auto simp: POS_SIZE_def)
  show ?thesis
    using n h q b
    by (simp add: set_app_feature_def scan_fields_def push_pos_empty) (simp add: zero_app_def)
qed

end
