(* ===== verification/Pc_Properties.thy ===== *)
theory Pc_Properties
  imports Pc_Sample Pc_App_Spec
begin

text \<open>
  The properties of the parental-control module, each with an instance on a small configuration or packet.
\<close>

section \<open>Rules and groups\<close>



lemma clean_group_loop_dangling:
  "pc_rules st = [] \<Longrightarrow> \<exists>g \<in> set gs. g_rule g \<noteq> None \<Longrightarrow> clean_group_loop gs st = None"
proof (induction gs)
  case (Cons g gs)
  then show ?case by (cases "g_rule g") (auto simp: add_refer_def rule_at_def)
qed simp

text \<open>The command that frees all rules does not look at the reference counts: when a group still
  points to a rule, the next packet of an address in this group, and unloading the module, follow a
  pointer to freed memory.\<close>

theorem clean_rule_dangles:
  assumes "pc_reach lib st" and "find_group_by_mac st mac = Some g" and "g_rule g = Some a"
  shows "\<exists>st'. pc_command lib PC_CMD_CLEAN_RULE data st = Some (0, st') \<and>
    get_rule_by_mac st mac \<noteq> None \<and> get_rule_by_mac st' mac = None \<and> pc_policy_exit st' = None"
proof (intro exI conjI)
  let ?st = "clean_pc_rule st"
  show "pc_command lib PC_CMD_CLEAN_RULE data st = Some (0, ?st)"
    by (simp add: pc_command_def PC_CMD_SET_BASE_def PC_CMD_ADD_RULE_def PC_CMD_ADD_GROUP_def PC_CMD_CLEAN_RULE_def)
  show "get_rule_by_mac st mac \<noteq> None"
    using pol.lookup_total [OF pc_reach_ok [OF assms(1)], of mac] by auto
  have "find_group_by_mac ?st mac = Some g" using assms(2) by (simp add: clean_pc_rule_def find_group_by_mac_def)
  with assms(3) show "get_rule_by_mac ?st mac = None"
    by (simp add: get_rule_by_mac_def rule_at_def clean_pc_rule_def)
  have "g \<in> set (pc_groups st)" using assms(2) by (auto simp: find_group_by_mac_def find_Some_iff)
  with assms(3) have "\<exists>g \<in> set (pc_groups st). g_rule g \<noteq> None" by force
  then have "clean_group_loop (pc_groups st) ?st = None"
    by (intro clean_group_loop_dangling) (simp_all add: clean_pc_rule_def)
  then show "pc_policy_exit ?st = None"
    by (simp add: pc_policy_exit_def clean_pc_group_def clean_pc_rule_def)
qed

theorem clean_rule_dangles_sample:
  "\<exists>st'. pc_command sample_klib PC_CMD_CLEAN_RULE None sample_pc = Some (0, st') \<and>
    get_rule_by_mac sample_pc sample_mac \<noteq> None \<and> get_rule_by_mac st' sample_mac = None \<and> pc_policy_exit st' = None"
  using clean_rule_dangles [OF sample_reach sample_pc_facts(1,2)] .

section \<open>Regular expressions\<close>


text \<open>The pattern \<open>^[a-c]+.x?$\<close>.\<close>

definition sample_pattern :: re_pattern where
  "sample_pattern = \<lparr>pat_begin = True,
     pat_items = [(Atom_Ccl False [Ccl_Range 97 99], Q_Plus), (Atom_Dot, Q_One), (Atom_Char 120, Q_Ques)],
     pat_end = True\<rparr>"


lemma ccl_loop_open:
  "0 \<notin> set s \<Longrightarrow> 93 \<notin> set s \<Longrightarrow> 45 \<notin> set s \<Longrightarrow> length acc + length s < CCL_SIZE \<Longrightarrow>
     ccl_loop prev acc (s @ 0 # rest) = Some (acc @ s, False, 0 # rest)"
  by (induction s arbitrary: prev acc) auto

text \<open>A bracket expression that is not closed makes the pattern match every host and every request,
  because the result -1 for a malformed pattern is taken for a match.\<close>

theorem open_bracket_matches:
  assumes "{0, 45, 93} \<inter> set s = {}" and "length s < CCL_SIZE" and "\<forall>i. mem i \<noteq> None" and "t \<noteq> []"
  shows "regexp_match mem longest (91 # s @ [0, 0]) t = Some (-1)"
    and "url_matches mem longest (91 # s @ [0, 0]) t = Some True"
proof -
  obtain r where r: "mem 0 = Some r" "\<exists>r'. mem 1 = Some r'" using assms(3) by blast
  have "\<exists>k'. compile_node mem 0 91 (s @ [0, 0]) = Some (None, k', [0])"
  proof (cases "take 1 s = [94]")
    case True
    then obtain s' where "s = 94 # s'" by (cases s) auto
    with assms(1,2) r ccl_loop_open [of s' "[]" 94 "[0]"] show ?thesis
      by (auto simp: compile_node_def arr_get_def)
  next
    case False
    then have "hd (s @ [0, 0]) \<noteq> 94" by (cases s) auto
    with assms(1,2) r ccl_loop_open [of s "[]" 91 "[0]"] show ?thesis
      by (auto simp: compile_node_def arr_get_def hd_conv_nth)
  qed
  then have "compile mem (91 # s @ [0, 0]) = Some []"
    by (auto simp: compile_def compile_loop.simps [of mem 0] arr_get_def)
  then show *: "regexp_match mem longest (91 # s @ [0, 0]) t = Some (-1)"
    by (simp add: regexp_match_def)
  have "takeWhile (\<lambda>c. c \<noteq> 0) (s @ [0, 0]) = s" using assms(1) by (simp add: takeWhile_append)
  then have "cstr_of (91 # s @ [0, 0]) = Some (91 # s)" by (simp add: cstr_of_def)
  then show "url_matches mem longest (91 # s @ [0, 0]) t = Some True"
    using assms(4) * by (simp add: url_matches_def)
qed


theorem open_bracket_matches_sample:
  "url_matches zero_heap False (91 # [97, 98] @ [0, 0]) [120] = Some True"
  by (rule open_bracket_matches(2)) (simp_all add: zero_heap_def)

section \<open>The filter\<close>

lemma parse_flow_name: "parse_flow_proto skb flow = Some (ret, flow') \<Longrightarrow> f_app_name flow' = f_app_name flow"
  by (auto simp: parse_flow_proto_def Let_def split: option.splits bind_splits if_splits)

lemma dpi_main_name: "dpi_main flow = Some flow' \<Longrightarrow> f_app_name flow' = f_app_name flow"
  by (auto simp: dpi_main_def dpi_http_proto_def dpi_https_proto_def
      split: option.splits bind_splits if_splits prod.splits)


text \<open>A packet to port 443, which the blacklist of the sample names.\<close>

definition skb443 :: sk_buff where "skb443 = sample_skb [1, 0xbb] [1, 2, 3]"
definition flow443 :: flow_info where
  "flow443 = snd (the (parse_flow_proto skb443 (zero_flow\<lparr>smac := sample_mac\<rparr>)))"

lemma flow443_facts:
  "parse_flow_proto skb443 (zero_flow\<lparr>smac := sample_mac\<rparr>) = Some (0, flow443)"
  "dpi_main flow443 = Some flow443"
  "list_all (\<lambda>app. pc_match_one zero_heap False flow443 app = Some True) (blist sample_rule)"
  "blist sample_rule \<noteq> []" "map fst (pc_rules sample_pc) = [0]"
  by code_simp+


text \<open>C24: In a TCP packet from or to port 80 with four readable bytes behind its data the search for the
  request and the host ends, stays inside the memory, and every request and host it finds lies inside the
  packet; a host may have the length -1.\<close>

theorem http_fields_inside:
  assumes "l4_protocol flow = IPPROTO_TCP" and "l4_len flow \<ge> MIN_HTTP_DATA_LEN"
    and "f_sport flow = 80 \<or> f_dport flow = 80" and "l4_data flow = Some data"
    and "nat (l4_len flow) + 4 \<le> length data"
    and "h_url_pos (http flow) = None" and "h_host_pos (http flow) = None"
  shows "\<exists>h. dpi_http_proto flow = Some (flow\<lparr>http := h\<rparr>) \<and>
    (\<forall>p. h_url_pos h = Some p \<longrightarrow> 0 \<le> h_url_len h \<and> int p + h_url_len h < l4_len flow) \<and>
    (\<forall>p. h_host_pos h = Some p \<longrightarrow> - 1 \<le> h_host_len h \<and> int p + h_host_len h < l4_len flow)"
proof -
  have "post (http_loop data (l4_len flow) 0 0 (http flow)) (http_in (l4_len flow))"
    using assms(5-7) by (intro http_loop_post) (simp_all add: http_in_def)
  then obtain h where "http_loop data (l4_len flow) 0 0 (http flow) = Some h" "http_in (l4_len flow) h"
    by (auto simp: post_iff)
  with assms(1-4) show ?thesis
    by (auto simp: dpi_http_proto_def http_in_def)
qed

theorem http_fields_inside_sample:
  "\<exists>h. dpi_http_proto (tcp_flow empty_host_request) = Some (tcp_flow empty_host_request\<lparr>http := h\<rparr>) \<and>
    (\<forall>p. h_url_pos h = Some p \<longrightarrow> 0 \<le> h_url_len h \<and> int p + h_url_len h < l4_len (tcp_flow empty_host_request)) \<and>
    (\<forall>p. h_host_pos h = Some p \<longrightarrow> - 1 \<le> h_host_len h \<and> int p + h_host_len h < l4_len (tcp_flow empty_host_request))"
  by (rule http_fields_inside [where data = "empty_host_request @ [0, 0, 0, 0]"])
     (simp_all add: tcp_flow_def zero_flow_def MIN_HTTP_DATA_LEN_def empty_host_request_def)

text \<open>A request whose host line is empty gives the host the length -1, and matching any
  application with a host or a request by it overflows the buffer for the host.\<close>

theorem empty_host_overflows:
  "\<exists>flow. dpi_main (tcp_flow empty_host_request) = Some flow \<and> h_host_len (http flow) = - 1 \<and>
     (\<forall>hp longest node. pc_match_by_url hp longest flow node = None)"
proof (intro exI conjI allI)
  let ?h = "\<lparr>h_match = True, h_method = HTTP_METHOD_GET, h_url_pos = Some 4, h_url_len = 11, h_host_pos = Some 23,
    h_host_len = - 1, h_data_pos = Some 26, h_data_len = 0\<rparr>"
  let ?f = "tcp_flow empty_host_request\<lparr>http := ?h\<rparr>"
  show "dpi_main (tcp_flow empty_host_request) = Some ?f" by code_simp
  show "h_host_len (http ?f) = - 1" by simp
  show "pc_match_by_url hp longest ?f node = None" for hp longest node
    by (simp add: pc_match_by_url_def copy_url_def MAX_URL_MATCH_LEN_def tcp_flow_def zero_flow_def)
qed

text \<open>A port matches a list of ranges exactly if it is in the set the list stands for: every port for
  the empty list, the union of the ranges when none is negated, and else the complement of the union of
  the negated ranges.\<close>

theorem match_port_set:
  assumes "pi_num info \<le> length (range_list info)"
  shows "pc_match_port info port = Some (port \<in>
    (let rs = take (pi_num info) (range_list info) in
     if pi_num info = 0 then UNIV
     else if \<exists>r \<in> set rs. rv_not r then - (\<Union>r \<in> {r \<in> set rs. rv_not r}. {rv_start r..rv_end r})
     else (\<Union>r \<in> set rs. {rv_start r..rv_end r})))"
  using match_port_ports_of [OF assms, of port] assms by (auto simp: ports_of_def)


theorem match_port_set_sample:
  "pc_match_port (zero_port_info\<lparr>pi_num := 1\<rparr>) 0 = Some (0 \<in>
    (let rs = take 1 (range_list (zero_port_info\<lparr>pi_num := 1\<rparr>)) in
     if (1::nat) = 0 then UNIV
     else if \<exists>r \<in> set rs. rv_not r then - (\<Union>r \<in> {r \<in> set rs. rv_not r}. {rv_start r..rv_end r})
     else (\<Union>r \<in> set rs. {rv_start r..rv_end r})))"
  using match_port_set [of "zero_port_info\<lparr>pi_num := 1\<rparr>" 0]
  by (simp add: zero_port_info_def MAX_PORT_RANGE_NUM_def)

text \<open>In a packet with a length that is not negative the entries of a data dictionary match exactly if each
  position, counted from the end when it is negative, is inside the data and holds the value.\<close>

theorem match_by_pos_entries:
  assumes "l4_data flow = Some data" and "0 \<le> l4_len flow" and "l4_len flow < 2 ^ 31"
    and "nat (l4_len flow) \<le> length data" and "0 < pos_num node" and "pos_num node \<le> length (pos_info node)"
    and "\<forall>(p, v) \<in> set (pos_info node). - (2 ^ 31) \<le> p \<and> p < 2 ^ 31"
  shows "pc_match_by_pos flow node =
    Some (\<forall>j < pos_num node. let (p, v) = pos_info node ! j; q = (if p < 0 then l4_len flow + p else p) in
            0 \<le> q \<and> q < l4_len flow \<and> data ! nat q = v)"
  using match_pos_loop_spec [OF assms(1-4,6,7), of 0] assms(5)
  by (simp add: pc_match_by_pos_def pos_ok_def pos_offset_def Let_def case_prod_beta)

theorem match_by_pos_entries_sample:
  "pc_match_by_pos flow443 (zero_app\<lparr>pos_num := 2, pos_info := [(0, 1), (-1, 3)]\<rparr>) = Some True"
proof -
  have f: "l4_data flow443 = Some [1, 2, 3]" "l4_len flow443 = 3" by code_simp+
  show ?thesis
    by (subst match_by_pos_entries [of flow443 "[1, 2, 3]"]) (auto simp: f less_2_cases_iff Let_def)
qed


section \<open>Features\<close>

text \<open>A list of up to five port numbers is parsed into as many ranges, and a port matches them exactly if
  it is one of the numbers; a list of more numbers makes the parser write behind its array of ranges.\<close>

theorem port_list_parsed:
  assumes "scans_numbers lib val" and "\<forall>f \<in> set (f0 # fs). digits f"
  shows "if length (f0 # fs) \<le> MAX_PORT_RANGE_NUM
    then \<exists>info. parse_port_info lib (join_with 124 f0 fs) zero_port_info = Some (0, info) \<and>
           pi_num info = length (f0 # fs) \<and>
           take (pi_num info) (range_list info) = map (\<lambda>f. one_port (val f)) (f0 # fs) \<and>
           pc_match_port info port = Some (port \<in> val ` set (f0 # fs))
    else parse_port_info lib (join_with 124 f0 fs) zero_port_info = None"
proof (cases "length (f0 # fs) \<le> MAX_PORT_RANGE_NUM")
  case True
  then obtain info where i: "port_loop lib (f0 # fs) zero_port_info = Some info" "pi_num info = length (f0 # fs)"
    "length (range_list info) = MAX_PORT_RANGE_NUM"
    "take (pi_num info) (range_list info) = map (\<lambda>f. one_port (val f)) (f0 # fs)"
    using port_loop_digits [OF assms, of zero_port_info] by (auto simp: zero_port_info_def)
  have "pc_match_port info port = Some (port \<in> val ` set (f0 # fs))"
    using match_port_ports_of [of info port] True i by (auto simp: ports_of_def one_port_def)
  with True i parse_port_info_digits [OF assms] show ?thesis by auto
next
  case False
  then have "port_loop lib (f0 # fs) zero_port_info = None"
    using port_loop_digits [OF assms, of zero_port_info] by (simp add: zero_port_info_def)
  with False parse_port_info_digits [OF assms] show ?thesis by simp
qed

definition decimal_klib :: klib where
  "decimal_klib = number_klib\<lparr>kl_sscanf :=
     (\<lambda>fmt s. if digits s then [Scan_Int (int (fst (scan_num 10 0 0 s)))] else [])\<rparr>"

lemma decimal_klib_scans: "scans_numbers decimal_klib (\<lambda>s. int (fst (scan_num 10 0 0 s)))"
  by (simp add: scans_numbers_def decimal_klib_def)

theorem port_list_parsed_sample:
  "parse_port_info decimal_klib [49, 124, 50, 124, 51, 124, 52, 124, 53, 124, 54] zero_port_info = None"
  using port_list_parsed [OF decimal_klib_scans, of "[49]" "[[50], [51], [52], [53], [54]]"]
  by (simp add: digits_def isdigit_def MAX_PORT_RANGE_NUM_def join_with_def)



end
