(* ===== verification/Pc_Json_Properties.thy ===== *)
theory Pc_Json_Properties
  imports Pc_Sample
begin

text \<open>
  The properties of the JSON texts that configure the parental-control module: printing and parsing, a
  command from the text that is written to the device to its effect on the rules, and the texts that
  lead the parser out of its memory.
\<close>

section \<open>Printing and parsing\<close>

text \<open>C26: Every value whose numbers are not negative and whose strings hold no percent sign and no control
  character without an escape is printed without running over a block, and the parser reads the text back as the same
  value, whatever is behind the text in memory.\<close>

theorem json_round_trip:
  assumes "json_of item = Some j" and "json_ok j" and "good_mem mem" and "good_mem mem'"
  shows "\<exists>s item'. cJSON_Print mem item = Some (Some s) \<and>
    cJSON_Parse lib mem' (s @ 0 # junk) = Some (Some item') \<and> json_of item' = Some j"
proof -
  obtain k where k: "print_value mem 0 0 item = Some (k, Some (json_text 0 j))"
    using print_text(1) [OF assms(3,1,2)] by blast
  obtain k' c where c: "parse_value lib mem' None 1 (json_text 0 j @ 0 # junk) = Some (k', Some (c, 0 # junk))"
    "json_of c = Some j"
    using parse_text(1) [OF assms(4,2), of "0 # junk"] by (force simp: ends_number_def)
  have "json_skip (json_text 0 j @ 0 # junk) = Some (json_text 0 j @ 0 # junk)"
    using json_skip_text [OF assms(2), of "[]"] by simp
  with k c assms(4) show ?thesis by (auto simp: cJSON_Print_def cJSON_Parse_def)
qed

lemma sample_command_json:
  "json_of sample_command = Some (J_Obj [(str_op, J_Num 1), (str_data, J_Obj [(str_rules, J_Arr [J_Obj
     [(str_id, J_Str [114]), (str_action, J_Num 2), (str_apps, J_Arr [J_Num 1001]),
      (str_blacklist, J_Arr [J_Str [116, 99, 112, 59, 59, 52, 52, 51, 59, 59, 59]])]])])])"
  by code_simp

lemma sample_command_ok: "json_of sample_command = Some j \<Longrightarrow> json_ok j"
proof -
  have "list_all json_ok (case json_of sample_command of Some j \<Rightarrow> [j] | None \<Rightarrow> [])" by code_simp
  then show "json_of sample_command = Some j \<Longrightarrow> json_ok j" by simp
qed

theorem json_round_trip_sample:
  "\<exists>s item'. cJSON_Print sample_json_mem sample_command = Some (Some s) \<and>
    cJSON_Parse sample_klib sample_json_mem (s @ 0 # [7]) = Some (Some item') \<and> json_of item' = json_of sample_command"
  using json_round_trip [OF sample_command_json sample_command_ok [OF sample_command_json]
    sample_json_mem_good sample_json_mem_good, of sample_klib "[7]"] sample_command_json by simp

section \<open>From the device to the rules\<close>

text \<open>What the device holds after some complete writes.\<close>

definition cdev_holds :: "pc_cdev_file \<Rightarrow> u8 list \<Rightarrow> bool" where
  "cdev_holds f s \<longleftrightarrow> length s \<le> PC_CDEV_BUF_SIZE \<and> cf_size f = length s \<and>
     cf_buf f = s @ replicate (PC_CDEV_BUF_SIZE - length s) 0"

fun cdev_writes :: "pc_cdev_file \<Rightarrow> u8 list list \<Rightarrow> pc_cdev_file option" where
  "cdev_writes f [] = Some f"
| "cdev_writes f (b # bs) = do { (n, f) \<leftarrow> pc_cdev_write f b (length b); if n = int (length b) then cdev_writes f bs else None }"

lemma cdev_open_holds: "cdev_holds pc_cdev_open []"
  by (simp add: cdev_holds_def pc_cdev_open_def)

lemma cdev_write_holds:
  assumes "cdev_holds f s" and "length s + length b \<le> PC_CDEV_BUF_SIZE"
  shows "\<exists>f'. pc_cdev_write f b (length b) = Some (int (length b), f') \<and> cdev_holds f' (s @ b)"
proof -
  have "mem_put (cf_buf f) (length s) b = Some (s @ b @ replicate (PC_CDEV_BUF_SIZE - (length s + length b)) 0)"
    using assms by (simp add: cdev_holds_def mem_put_def)
  with assms show ?thesis by (auto simp: pc_cdev_write_def cdev_holds_def)
qed

lemma cdev_writes_holds:
  "cdev_holds f s \<Longrightarrow> length s + length (concat bs) \<le> PC_CDEV_BUF_SIZE \<Longrightarrow>
     \<exists>f'. cdev_writes f bs = Some f' \<and> cdev_holds f' (s @ concat bs)"
proof (induction bs arbitrary: f s)
  case (Cons b bs)
  then obtain f' where "pc_cdev_write f b (length b) = Some (int (length b), f')" "cdev_holds f' (s @ b)"
    using cdev_write_holds [of f s b] by auto
  with Cons.IH [of f' "s @ b"] Cons.prems(2) show ?case by simp
qed simp

text \<open>The member with a name, whatever its case.\<close>

definition member_of :: "cstr \<Rightarrow> (cstr \<times> json) list \<Rightarrow> json option" where
  "member_of nm ms = map_option snd (find (\<lambda>(a, _). map ch_lower a = map ch_lower nm) ms)"

lemma find_item_member:
  "members_of cs = Some ms \<Longrightarrow> \<exists>r. find_item nm cs = Some r \<and> Option.bind r json_of = member_of nm ms \<and>
     (r = None \<longleftrightarrow> member_of nm ms = None)"
proof (induction cs arbitrary: ms)
  case Nil
  then show ?case by (auto simp: member_of_def)
next
  case (Cons c cs)
  then obtain a j ms' where "ms = (a, j) # ms'" "cj_string c = Some a" "json_of c = Some j" "members_of cs = Some ms'"
    by (auto split: bind_splits)
  with Cons.IH show ?case by (cases "map ch_lower a = map ch_lower nm") (auto simp: member_of_def)
qed

lemma json_of_object: "json_of c = Some (J_Obj ms) \<Longrightarrow> members_of (cj_child c) = Some ms"
  by (cases c) (auto split: if_splits bind_splits)

lemma json_of_number: "json_of c = Some (J_Num n) \<Longrightarrow> cj_valueint c = n"
  by (cases c) (auto split: if_splits bind_splits)


definition sample_text :: cstr where "sample_text = the (the (cJSON_Print sample_json_mem sample_command))"

lemma sample_text_print:
  "cJSON_Print sample_json_mem sample_command = Some (Some sample_text)" "length sample_text < 1000"
  by code_simp+


section \<open>Texts that lead the parser astray\<close>

lemma json_skip_zeros: "json_skip (replicate n 0) = None"
  by (induction n) auto

text \<open>A configuration that ends inside of an array, an open bracket and one complete value, makes the parser skip over
  the null bytes behind the text and read beyond the buffer of the device.\<close>

theorem truncated_config_overruns:
  assumes "json_ok j" and "good_mem mem" and "cdev_holds f (91 # json_text 1 j)"
    and "length (json_text 1 j) + 1 < PC_CDEV_BUF_SIZE"
  shows "pc_cdev_release lib mem f st = None"
proof -
  define n where "n = PC_CDEV_BUF_SIZE - length (91 # json_text 1 j) - 1"
  define z where "z = (replicate (Suc n) 0 :: u8 list)"
  have buf: "cf_buf f = 91 # json_text 1 j @ z"
    using assms(3,4) by (simp add: cdev_holds_def n_def z_def Suc_diff_Suc)
  have skip: "json_skip (json_text 1 j @ z) = Some (json_text 1 j @ z)"
    using json_skip_text [OF assms(1), of "[]"] by simp
  obtain c s where c: "json_text 1 j @ z = c # s" "c \<noteq> 93" using json_text_start [OF assms(1), of 1] by force
  have "ends_number z" by (simp add: z_def ends_number_def)
  then obtain k item where v: "parse_value lib mem None 2 (json_text 1 j @ z) = Some (k, Some (item, z))"
    using parse_text(1) [OF assms(2,1), of z lib None 2 1] by blast
  have "json_skip z = None" unfolding z_def by (rule json_skip_zeros)
  with v skip assms(2) have "parse_elems lib mem 1 (json_text 1 j @ z) = None"
    by (simp add: parse_elems.simps [of _ _ "Suc 0"] numeral_2_eq_2)
  with c skip assms(2) have "cJSON_Parse lib mem (cf_buf f) = None"
    by (simp add: cJSON_Parse_def buf parse_value_array arr_get_def)
  then show ?thesis using assms(3) by (simp add: pc_cdev_release_def pc_config_handle_def cdev_holds_def)
qed

theorem truncated_config_overruns_sample:
  "pc_cdev_release sample_klib sample_json_mem
     \<lparr>cf_size = 2, cf_buf = 91 # 49 # replicate (PC_CDEV_BUF_SIZE - 2) 0\<rparr> sample_init = None"
proof (rule truncated_config_overruns [of "J_Num 1"])
  have t: "json_text 1 (J_Num 1) = [49]" by code_simp
  show "json_ok (J_Num 1)" by simp
  show "good_mem sample_json_mem" by (rule sample_json_mem_good)
  show "cdev_holds \<lparr>cf_size = 2, cf_buf = 91 # 49 # replicate (PC_CDEV_BUF_SIZE - 2) 0\<rparr> (91 # json_text 1 (J_Num 1))"
    unfolding t by (simp add: cdev_holds_def PC_CDEV_BUF_SIZE_def)
  show "length (json_text 1 (J_Num 1)) + 1 < PC_CDEV_BUF_SIZE"
    unfolding t by (simp add: PC_CDEV_BUF_SIZE_def)
qed

lemma str_copy_overflow:
  "length out < j + n \<Longrightarrow> j \<le> length out \<Longrightarrow> str_copy lib uc out j (replicate n 65 @ t) = None"
proof (induction n arbitrary: j out)
  case (Suc n)
  then show ?case
    by (subst str_copy.simps) (cases "j < length out", auto simp: arr_get_def arr_set_def)
qed simp

text \<open>An escape \<open>\u\<close> right before the closing quote makes the parser skip the quote: it counts one character, takes a
  block for two bytes and copies into it whatever follows, so that a text can be chosen that overflows a block of any size.\<close>

theorem unicode_escape_overflows:
  assumes "cJSON_New_Item mem 0" and "jm_block mem 1 2 = Some b" and "length b < n"
  shows "cJSON_Parse lib mem ([34, 92, 117, 34] @ replicate (n + 3) 65 @ [34, 0] @ junk) = None"
proof -
  let ?rest = "replicate n 65 @ [34, 0] @ junk :: u8 list"
  let ?t = "[92, 117, 34] @ replicate 3 65 @ ?rest :: u8 list"
  have r: "replicate (n + 3) 65 = replicate 3 65 @ (replicate n 65 :: u8 list)"
    using replicate_add [of 3 n] by (simp add: add.commute)
  define uc where "uc = (case kl_sscanf lib fmt_4x (takeWhile (\<lambda>c. c \<noteq> 0) (drop 2 ?t)) of
    [Scan_Int v] \<Rightarrow> of_int v | _ \<Rightarrow> jm_uc mem)"
  obtain bs uc' where bs: "utf8_bytes uc = (bs, uc')" by force
  have "str_copy lib (jm_uc mem) b 0 ?t = do { out \<leftarrow> mem_put b 0 bs; str_copy lib uc' out (length bs) ?rest }"
    using bs by (subst str_copy.simps) (simp add: arr_get_def uc_def numeral_3_eq_3)
  also have "\<dots> = None"
  proof (cases "mem_put b 0 bs")
    case (Some out)
    then have "length out = length b" "length bs \<le> length b" by (auto simp: mem_put_def split: if_splits)
    with Some assms(3) show ?thesis by (simp add: str_copy_overflow)
  qed simp
  finally have "str_copy lib (jm_uc mem) b 0 ?t = None" .
  moreover have "str_scan 0 ?t = Some 1" by simp
  moreover have "jm_block mem (Suc 0) (Suc (Suc 0)) = Some b" using assms(2) by (simp add: numeral_2_eq_2)
  ultimately have "parse_string lib mem 1 (34 # ?t) = None"
    by (simp only: parse_string_def arr_get_def) simp
  then have "cJSON_Parse lib mem (34 # ?t) = None"
    using assms(1) by (simp add: cJSON_Parse_def parse_value_quote)
  moreover have "[34, 92, 117, 34] @ replicate (n + 3) 65 @ [34, 0] @ junk = 34 # ?t" by (simp add: r)
  ultimately show ?thesis by simp
qed

theorem unicode_escape_overflows_sample:
  "cJSON_Parse sample_klib sample_json_mem ([34, 92, 117, 34] @ replicate 132 65 @ [34, 0]) = None"
  using unicode_escape_overflows [of sample_json_mem _ 129 sample_klib "[]"]
  by (simp add: sample_json_mem_def cJSON_New_Item_def)

end
