(* ===== verification/Ring.thy ===== *)
theory Ring
  imports Prelude
begin

text \<open>
  The ring buffer of the \<open>conninfra\<close> module (\<open>ring.c\<close>, \<open>ring.h\<close>).  The positions \<open>read\<close> and \<open>write\<close> are
  32-bit numbers that are never reduced to the size of the buffer: they wrap around, and their difference is what the buffer
  holds.  A transfer is cut into segments that do not cross the end of the buffer.
\<close>

section \<open>Rings and segments\<close>

record ring =
  ring_base :: nat
  ring_write :: u32
  ring_read :: u32
  ring_max_size :: u32

record ring_segment =
  ring_pt :: nat
  seg_sz :: u32
  seg_data_pos :: u32
  seg_remain :: u32

definition zero_segment :: ring_segment where
  "zero_segment = \<lparr>ring_pt = 0, seg_sz = 0, seg_data_pos = 0, seg_remain = 0\<rparr>"

text \<open>The checks of \<open>ring_init\<close> only warn.\<close>

definition ring_init :: "nat \<Rightarrow> u32 \<Rightarrow> u32 \<Rightarrow> u32 \<Rightarrow> ring" where
  "ring_init base max_size read write =
     \<lparr>ring_base = base, ring_write = write, ring_read = read, ring_max_size = max_size\<rparr>"

definition RING_EMPTY :: "ring \<Rightarrow> bool" where "RING_EMPTY r \<longleftrightarrow> ring_read r = ring_write r"
definition RING_SIZE :: "ring \<Rightarrow> u32" where "RING_SIZE r = ring_write r - ring_read r"
definition RING_FULL :: "ring \<Rightarrow> bool" where "RING_FULL r \<longleftrightarrow> RING_SIZE r = ring_max_size r"
definition RING_WRITE_REMAIN_SIZE :: "ring \<Rightarrow> u32" where
  "RING_WRITE_REMAIN_SIZE r = ring_max_size r - RING_SIZE r"
definition RING_VALIDATE_SIZE :: "u32 \<Rightarrow> bool" where
  "RING_VALIDATE_SIZE max_size \<longleftrightarrow> \<not> (max_size = 0 \<or> max_size AND (max_size - 1) \<noteq> 0)"

section \<open>Preparing\<close>

definition ring_read_prepare :: "u32 \<Rightarrow> ring \<Rightarrow> u32 \<times> ring_segment" where
  "ring_read_prepare sz r =
     (let wt = ring_write r; rd = ring_read r;
          sz = (if sz > wt - rd then wt - rd else sz) in
      (sz, zero_segment\<lparr>seg_remain := sz\<rparr>))"

definition ring_write_prepare :: "u32 \<Rightarrow> ring \<Rightarrow> u32 \<times> ring_segment" where
  "ring_write_prepare sz r =
     (let wt = ring_write r; rd = ring_read r;
          sz = (if sz > ring_max_size r - (wt - rd) then ring_max_size r - (wt - rd) else sz) in
      (sz, zero_segment\<lparr>seg_remain := sz\<rparr>))"

definition ring_overwrite_prepare :: "u32 \<Rightarrow> ring \<Rightarrow> u32 \<times> ring_segment \<times> ring" where
  "ring_overwrite_prepare sz r =
     (let wt = ring_write r; rd = ring_read r;
          r = (if sz > ring_max_size r - (wt - rd)
               then r\<lparr>ring_read := ring_read r + (sz - (ring_max_size r - (wt - rd)))\<rparr> else r) in
      (sz, zero_segment\<lparr>seg_remain := sz\<rparr>, r))"

text \<open>\<open>__ring_segment_prepare\<close>, \<open>_ring_segment_prepare\<close> and \<open>_ring_segment_prepare_item\<close>.\<close>

definition ring_segment_prepare_sz :: "u32 \<Rightarrow> u32 \<Rightarrow> ring_segment \<Rightarrow> ring \<Rightarrow> ring_segment" where
  "ring_segment_prepare_sz from sz seg r =
     (let ring_pos = from AND (ring_max_size r - 1);
          seg = seg\<lparr>ring_pt := ring_base r + unat ring_pos,
                    seg_data_pos := (if seg_sz seg \<noteq> 0 then seg_data_pos seg + seg_sz seg else 0)\<rparr>;
          seg = seg\<lparr>seg_sz := (if ring_pos + sz \<le> ring_max_size r then sz else ring_max_size r - ring_pos)\<rparr> in
      seg\<lparr>seg_remain := seg_remain seg - seg_sz seg\<rparr>)"

definition ring_segment_prepare :: "u32 \<Rightarrow> ring_segment \<Rightarrow> ring \<Rightarrow> ring_segment" where
  "ring_segment_prepare from seg r = ring_segment_prepare_sz from (seg_remain seg) seg r"

definition ring_segment_prepare_item :: "u32 \<Rightarrow> ring_segment \<Rightarrow> ring \<Rightarrow> ring_segment" where
  "ring_segment_prepare_item from seg r =
     ring_segment_prepare_sz from (if seg_remain seg \<noteq> 0 then 1 else 0) seg r"

definition ring_read_commit :: "ring_segment \<Rightarrow> ring \<Rightarrow> ring" where
  "ring_read_commit seg r = r\<lparr>ring_read := ring_read r + seg_sz seg\<rparr>"

definition ring_write_commit :: "ring_segment \<Rightarrow> ring \<Rightarrow> ring" where
  "ring_write_commit seg r = r\<lparr>ring_write := ring_write r + seg_sz seg\<rparr>"

section \<open>Loops over segments\<close>

text \<open>The loop that the macros \<open>RING_..._FOR_EACH\<close> share: \<open>body\<close> handles a segment, \<open>commit\<close> and \<open>prepare\<close> are the step of
  the loop.  It may run forever for a size that is no power of two.\<close>

partial_function (option) ring_for_each ::
  "(ring_segment \<Rightarrow> ring \<Rightarrow> ring) \<Rightarrow> (ring_segment \<Rightarrow> ring \<Rightarrow> ring_segment) \<Rightarrow> (ring_segment \<Rightarrow> 'a \<Rightarrow> 'a option) \<Rightarrow>
     ring_segment \<Rightarrow> ring \<Rightarrow> 'a \<Rightarrow> (ring \<times> 'a) option" where
  "ring_for_each commit prepare body seg r acc =
     (if seg_sz seg = 0 then Some (r, acc)
      else do {
        acc \<leftarrow> body seg acc;
        let r = commit seg r;
        ring_for_each commit prepare body (prepare seg r) r acc
      })"

definition RING_READ_FOR_EACH ::
  "u32 \<Rightarrow> (ring_segment \<Rightarrow> 'a \<Rightarrow> 'a option) \<Rightarrow> ring \<Rightarrow> 'a \<Rightarrow> (ring \<times> 'a) option" where
  "RING_READ_FOR_EACH sz body r acc =
     (let (_, seg) = ring_read_prepare sz r;
          prepare = (\<lambda>seg r. ring_segment_prepare (ring_read r) seg r) in
      ring_for_each ring_read_commit prepare body (prepare seg r) r acc)"

definition RING_READ_FOR_EACH_ITEM ::
  "u32 \<Rightarrow> (ring_segment \<Rightarrow> 'a \<Rightarrow> 'a option) \<Rightarrow> ring \<Rightarrow> 'a \<Rightarrow> (ring \<times> 'a) option" where
  "RING_READ_FOR_EACH_ITEM sz body r acc =
     (let (_, seg) = ring_read_prepare sz r;
          prepare = (\<lambda>seg r. ring_segment_prepare_item (ring_read r) seg r) in
      ring_for_each ring_read_commit prepare body (prepare seg r) r acc)"

definition RING_WRITE_FOR_EACH ::
  "u32 \<Rightarrow> (ring_segment \<Rightarrow> 'a \<Rightarrow> 'a option) \<Rightarrow> ring \<Rightarrow> 'a \<Rightarrow> (ring \<times> 'a) option" where
  "RING_WRITE_FOR_EACH sz body r acc =
     (let (_, seg) = ring_write_prepare sz r;
          prepare = (\<lambda>seg r. ring_segment_prepare (ring_write r) seg r) in
      ring_for_each ring_write_commit prepare body (prepare seg r) r acc)"

definition RING_OVERWRITE_FOR_EACH ::
  "u32 \<Rightarrow> (ring_segment \<Rightarrow> 'a \<Rightarrow> 'a option) \<Rightarrow> ring \<Rightarrow> 'a \<Rightarrow> (ring \<times> 'a) option" where
  "RING_OVERWRITE_FOR_EACH sz body r acc =
     (let (_, seg, r) = ring_overwrite_prepare sz r;
          prepare = (\<lambda>seg r. ring_segment_prepare (ring_write r) seg r) in
      ring_for_each ring_write_commit prepare body (prepare seg r) r acc)"

end
