(* ===== verification/Op_History.thy ===== *)
theory Op_History
  imports Ring
begin

text \<open>
  The operations that the message threads of \<open>conninfra\<close> pass around (\<open>msg_thread.h\<close>) and the history of the
  operations that a thread has handled (\<open>msg_op_history_save\<close>, and \<open>osal_op_history_init\<close>, \<open>osal_op_history_print\<close>
  and its work function in \<open>osal.c\<close>).  An operation is named by its index among the operations of the thread, its address.
\<close>

section \<open>Operations\<close>

definition MSG_THREAD_OP_DATA_SIZE :: nat where "MSG_THREAD_OP_DATA_SIZE = 8"
definition MSG_THREAD_OP_BUF_SIZE :: nat where "MSG_THREAD_OP_BUF_SIZE = 64"
definition MSG_OP_TIMEOUT :: u32 where "MSG_OP_TIMEOUT = 20000"

record msg_op_data =
  op_id :: u32
  info_bit :: u32
  op_data :: "u64 list"

text \<open>The signal of an operation: the count of the completion and the timeout.\<close>

record osal_signal =
  comp_done :: nat
  timeoutValue :: u32
  timeoutExtension :: u32

record msg_op =
  op_op :: msg_op_data
  op_signal :: osal_signal
  op_result :: int
  op_ref_count :: int

definition zero_op :: msg_op where
  "zero_op = \<lparr>op_op = \<lparr>op_id = 0, info_bit = 0, op_data = replicate MSG_THREAD_OP_DATA_SIZE 0\<rparr>,
     op_signal = \<lparr>comp_done = 0, timeoutValue = 0, timeoutExtension = 0\<rparr>, op_result = 0, op_ref_count = 0\<rparr>"

section \<open>The history\<close>

record osal_op_history_entry =
  opbuf_address :: nat
  he_op_id :: u32
  opbuf_ref_count :: u32
  op_info_bit :: u32
  param_0 :: u64
  param_1 :: u64
  param_2 :: u64
  param_3 :: u64
  he_ts :: u64
  he_usec :: u64

definition zero_entry :: osal_op_history_entry where
  "zero_entry = \<lparr>opbuf_address = 0, he_op_id = 0, opbuf_ref_count = 0, op_info_bit = 0, param_0 = 0, param_1 = 0,
     param_2 = 0, param_3 = 0, he_ts = 0, he_usec = 0\<rparr>"

text \<open>\<open>hist_dump\<close> is the copy that is being printed, with the entries at the base of \<open>dump_ring_buffer\<close>;
  \<^term>\<open>None\<close> when this base is null.\<close>

record osal_op_history =
  ring_buffer :: ring
  hist_queue :: "osal_op_history_entry list option"
  hist_dump :: "(ring \<times> osal_op_history_entry list) option"

text \<open>\<open>addr\<close> is the address of the field \<open>queue\<close>, which serves as the base; \<open>ok\<close> is the outcome of the allocation.\<close>

definition osal_op_history_init :: "nat \<Rightarrow> u32 \<Rightarrow> bool \<Rightarrow> osal_op_history \<Rightarrow> osal_op_history" where
  "osal_op_history_init addr queue_size ok h =
     (if \<not> ok then h\<lparr>hist_queue := None\<rparr>
      else h\<lparr>hist_queue := Some (replicate (unat queue_size) zero_entry), ring_buffer := ring_init addr queue_size 0 0\<rparr>)"

definition history_entry :: "nat \<Rightarrow> msg_op \<Rightarrow> u64 \<Rightarrow> u64 \<Rightarrow> osal_op_history_entry option" where
  "history_entry address op sec usec = do {
     let d = op_data (op_op op);
     p0 \<leftarrow> arr_get d 0;
     p1 \<leftarrow> arr_get d 1;
     p2 \<leftarrow> arr_get d 2;
     p3 \<leftarrow> arr_get d 3;
     Some \<lparr>opbuf_address = address, he_op_id = op_id (op_op op), opbuf_ref_count = of_int (op_ref_count op),
       op_info_bit = info_bit (op_op op), param_0 = p0, param_1 = p1, param_2 = p2, param_3 = p3,
       he_ts = sec, he_usec = usec\<rparr>
   }"

text \<open>The loop leaves the index of the last segment, if there is one.\<close>

definition msg_op_history_save :: "osal_op_history \<Rightarrow> nat \<Rightarrow> msg_op \<Rightarrow> u64 \<Rightarrow> u64 \<Rightarrow> osal_op_history option" where
  "msg_op_history_save h address op sec usec =
     (case hist_queue h of
        None \<Rightarrow> Some h
      | Some q \<Rightarrow> do {
          (r, entry) \<leftarrow> RING_OVERWRITE_FOR_EACH 1 (\<lambda>seg _. Some (Some (ring_pt seg - ring_base (ring_buffer h))))
                         (ring_buffer h) None;
          let h = h\<lparr>ring_buffer := r\<rparr>;
          (case entry of
             None \<Rightarrow> Some h
           | Some index \<Rightarrow> do {
               e \<leftarrow> history_entry address op sec usec;
               q \<leftarrow> arr_set q index e;
               Some (h\<lparr>hist_queue := Some q\<rparr>)
             })
        })"

text \<open>The size \<open>queue_size\<close>, in entries, is read before the lock is taken, so that operations may have been saved in
  between.  \<open>base\<close> is the address of the new block, \<open>ok\<close> the outcome of its allocation.\<close>

definition history_print_locked :: "u32 \<Rightarrow> nat \<Rightarrow> bool \<Rightarrow> osal_op_history \<Rightarrow> osal_op_history option" where
  "history_print_locked queue_size base ok h =
     (case hist_queue h of
        None \<Rightarrow> Some h
      | Some q \<Rightarrow>
          if \<not> ok then Some h
          else if hist_dump h \<noteq> None then Some h
          else do {
            copy \<leftarrow> mem_get q 0 (unat queue_size);
            Some (h\<lparr>hist_dump := Some ((ring_buffer h)\<lparr>ring_base := base\<rparr>, copy)\<rparr>)
          })"

definition osal_op_history_print :: "nat \<Rightarrow> bool \<Rightarrow> osal_op_history \<Rightarrow> osal_op_history option" where
  "osal_op_history_print base ok h = history_print_locked (RING_SIZE (ring_buffer h)) base ok h"

text \<open>The work function: the entries it prints, and the state after it has freed the copy.\<close>

definition osal_op_history_print_work ::
  "osal_op_history \<Rightarrow> (osal_op_history_entry list \<times> osal_op_history) option" where
  "osal_op_history_print_work h =
     (case hist_dump h of
        None \<Rightarrow> Some ([], h)
      | Some (r, queue) \<Rightarrow> do {
          (_, out) \<leftarrow> RING_READ_FOR_EACH_ITEM (RING_SIZE r)
            (\<lambda>seg out. do { e \<leftarrow> arr_get queue (ring_pt seg - ring_base r); Some (out @ [e]) }) r [];
          Some (out, h\<lparr>hist_dump := None\<rparr>)
        })"

end
