(* ===== verification/Ring_Spec.thy ===== *)
theory Ring_Spec
  imports Ring
begin

text \<open>
  What the ring buffer does: a transfer runs over at most two segments, reading takes from the front
  of what the buffer holds and writing appends to it, also when the 32-bit positions wrap around.
\<close>

section \<open>Positions\<close>

lemma and_mask_u32:
  fixes off w :: u32
  assumes "unat w = 2 ^ k"
  shows "unat (off AND (w - 1)) = unat off mod unat w"
proof -
  have "unat (w - 1) = 2 ^ k - 1" using assms by (metis power_eq_0_iff unat_eq_zero unat_minus_one zero_neq_numeral)
  then have "w - 1 = of_nat (2 ^ k - 1)" by (metis of_nat_unat ucast_id)
  then have "off AND (w - 1) = take_bit k off" by (simp add: take_bit_eq_mask mask_eq_exp_minus_1 of_nat_diff)
  moreover have "unat (take_bit k off) = unat off mod 2 ^ k"
    by (subst unsigned_take_bit_eq) (rule take_bit_eq_mod)
  ultimately show ?thesis using assms by simp
qed

lemma unat_plus_mod:
  fixes a b w :: u32
  assumes "unat w = 2 ^ k"
  shows "unat (a + b) mod unat w = (unat a + unat b) mod unat w"
proof -
  have "k \<le> 32" using pow2_u32(1) [OF assms] by simp
  then have "(2::nat) ^ k dvd 2 ^ 32" by (rule le_imp_power_dvd)
  then show ?thesis by (simp add: assms unat_word_ariths mod_mod_cancel)
qed

lemma unat_of_nat_u32: "x < 2 ^ 32 \<Longrightarrow> unat (of_nat x :: u32) = x"
  by (simp add: unsigned_of_nat take_bit_nat_eq_self)

text \<open>The size is a power of two and the buffer holds at most as much.\<close>

definition ring_ok :: "ring \<Rightarrow> bool" where
  "ring_ok r \<longleftrightarrow> (\<exists>k. unat (ring_max_size r) = 2 ^ k) \<and> RING_SIZE r \<le> ring_max_size r"

lemma ring_okE:
  assumes "ring_ok r"
  obtains k where "unat (ring_max_size r) = 2 ^ k" "k \<le> 31" "unat (RING_SIZE r) \<le> 2 ^ k" "unat (ring_max_size r) \<le> 2 ^ 31"
  using assms pow2_u32 by (auto simp: ring_ok_def word_le_nat_alt)

abbreviation (input) rsize :: "ring \<Rightarrow> nat" where "rsize r \<equiv> unat (RING_SIZE r)"
abbreviation (input) rmax :: "ring \<Rightarrow> nat" where "rmax r \<equiv> unat (ring_max_size r)"

lemma prepare_sz:
  assumes "unat (ring_max_size r) = 2 ^ k" and "unat n \<le> rmax r"
  shows "ring_segment_prepare_sz from n seg r =
    (let p = unat from mod rmax r; sz = (if p + unat n \<le> rmax r then n else of_nat (rmax r - p)) in
     \<lparr>ring_pt = ring_base r + p, seg_sz = sz,
      seg_data_pos = (if seg_sz seg \<noteq> 0 then seg_data_pos seg + seg_sz seg else 0),
      seg_remain = seg_remain seg - sz\<rparr>)"
proof -
  define q where "q = from AND (ring_max_size r - 1)"
  have q: "unat q = unat from mod rmax r" unfolding q_def by (rule and_mask_u32 [OF assms(1)])
  have lt: "unat q < rmax r" unfolding q by (intro mod_less_divisor) (simp add: assms(1))
  have "unat (q + n) = unat q + unat n"
    using lt assms(2) pow2_u32(2) [OF assms(1)] by (intro unat_add_no_wrap) simp
  moreover have "ring_max_size r - q = of_nat (rmax r - unat q)"
    using lt by (metis less_imp_le of_nat_diff of_nat_unat ucast_id)
  ultimately show ?thesis
    by (simp add: ring_segment_prepare_sz_def q_def [symmetric] word_le_nat_alt Let_def) (simp add: q)
qed

section \<open>One pass\<close>

lemma zero_segment_sel [simp]:
  "seg_sz zero_segment = 0" "seg_data_pos zero_segment = 0" "seg_remain zero_segment = 0"
  by (simp_all add: zero_segment_def)

definition ring_run :: "(ring \<Rightarrow> u32) \<Rightarrow> (ring_segment \<Rightarrow> ring \<Rightarrow> ring) \<Rightarrow> (ring_segment \<Rightarrow> 'a \<Rightarrow> 'a option) \<Rightarrow>
    ring_segment \<Rightarrow> ring \<Rightarrow> 'a \<Rightarrow> (ring \<times> 'a) option" where
  "ring_run pos commit body seg r acc =
     ring_for_each commit (\<lambda>seg r. ring_segment_prepare (pos r) seg r) body (ring_segment_prepare (pos r) seg r) r acc"

text \<open>The cells of a segment: a position in the data outside, and an index into the buffer.\<close>

definition seg_cells :: "nat \<Rightarrow> ring_segment \<Rightarrow> (nat \<times> nat) list" where
  "seg_cells base seg = map (\<lambda>i. (unat (seg_data_pos seg) + i, ring_pt seg - base + i)) [0..<unat (seg_sz seg)]"

text \<open>Reading and writing differ in the position that moves.\<close>

locale ring_pass =
  fixes pos :: "ring \<Rightarrow> u32" and commit :: "ring_segment \<Rightarrow> ring \<Rightarrow> ring"
  assumes commit_pos: "pos (commit seg r) = pos r + seg_sz seg"
    and commit_max: "ring_max_size (commit seg r) = ring_max_size r"
    and commit_base: "ring_base (commit seg r) = ring_base r"
    and commit_add: "commit seg2 (commit seg1 r) = commit (zero_segment\<lparr>seg_sz := seg_sz seg1 + seg_sz seg2\<rparr>) r"
    and commit_sz: "commit seg r = commit (zero_segment\<lparr>seg_sz := seg_sz seg\<rparr>) r"
    and commit_zero: "seg_sz seg = 0 \<Longrightarrow> commit seg r = r"
begin

text \<open>The loop with a rest of \<open>n\<close> bytes: nothing, one segment, or two.\<close>

lemma run_done:
  "unat (ring_max_size r) = 2 ^ k \<Longrightarrow> seg_remain seg = 0 \<Longrightarrow> ring_run pos commit body seg r = (\<lambda>acc. Some (r, acc))"
  by (rule ext) (simp add: ring_run_def ring_segment_prepare_def prepare_sz [where k = k] ring_for_each.simps Let_def
      mod_le_divisor)

lemma run_step:
  assumes k: "unat (ring_max_size r) = 2 ^ k" and n: "seg_remain seg \<noteq> 0" "unat (seg_remain seg) \<le> rmax r"
    and p: "p = unat (pos r) mod rmax r"
    and sz: "sz = (if p + unat (seg_remain seg) \<le> rmax r then seg_remain seg else of_nat (rmax r - p))"
    and seg': "seg' = \<lparr>ring_pt = ring_base r + p, seg_sz = sz,
      seg_data_pos = (if seg_sz seg \<noteq> 0 then seg_data_pos seg + seg_sz seg else 0), seg_remain = seg_remain seg - sz\<rparr>"
  shows "ring_run pos commit body seg r acc =
    do { acc \<leftarrow> body seg' acc; ring_run pos commit body seg' (commit seg' r) acc }"
proof -
  have e: "ring_segment_prepare (pos r) seg r = seg'"
    by (simp add: ring_segment_prepare_def prepare_sz [OF k n(2)] Let_def seg' sz p)
  have "p < rmax r" unfolding p by (intro mod_less_divisor) (simp add: k)
  moreover have "rmax r < 2 ^ 32" using unsigned_less [of "ring_max_size r", where ?'a = nat] by simp
  ultimately have "unat (of_nat (rmax r - p) :: u32) = rmax r - p" "0 < rmax r - p"
    by (simp_all del: of_nat_diff add: unat_of_nat_u32)
  then have "(of_nat (rmax r - p) :: u32) \<noteq> 0" by (metis unat_0 less_irrefl)
  then have "sz \<noteq> 0" using n(1) by (simp add: sz)
  then show ?thesis
    by (simp add: ring_run_def e ring_for_each.simps [of _ _ _ seg'] Let_def) (simp add: seg')
qed

lemma run_cases:
  assumes k: "unat (ring_max_size r) = 2 ^ k" and n: "unat n \<le> rmax r" and p: "p = unat (pos r) mod rmax r"
  shows "ring_run pos commit body (zero_segment\<lparr>seg_remain := n\<rparr>) r acc =
    (if n = 0 then Some (r, acc)
     else if p + unat n \<le> rmax r then do {
       acc \<leftarrow> body \<lparr>ring_pt = ring_base r + p, seg_sz = n, seg_data_pos = 0, seg_remain = 0\<rparr> acc;
       Some (commit (zero_segment\<lparr>seg_sz := n\<rparr>) r, acc)
     }
     else do {
       let m = of_nat (rmax r - p);
       acc \<leftarrow> body \<lparr>ring_pt = ring_base r + p, seg_sz = m, seg_data_pos = 0, seg_remain = n - m\<rparr> acc;
       acc \<leftarrow> body \<lparr>ring_pt = ring_base r, seg_sz = n - m, seg_data_pos = m, seg_remain = 0\<rparr> acc;
       Some (commit (zero_segment\<lparr>seg_sz := n\<rparr>) r, acc)
     })"
proof -
  let ?z = "zero_segment\<lparr>seg_remain := n\<rparr>"
  have plt: "p < rmax r" unfolding p by (intro mod_less_divisor) (simp add: k)
  have max: "rmax r < 2 ^ 32" using unsigned_less [of "ring_max_size r", where ?'a = nat] by simp
  have kc: "unat (ring_max_size (commit seg r)) = 2 ^ k" for seg by (simp add: commit_max k)
  have kcc: "unat (ring_max_size (commit seg2 (commit seg1 r))) = 2 ^ k" for seg1 seg2 by (simp add: commit_max k)
  have c: "commit \<lparr>ring_pt = x, seg_sz = n, seg_data_pos = y, seg_remain = z\<rparr> r = commit (zero_segment\<lparr>seg_sz := n\<rparr>) r"
    for x y z by (subst commit_sz) simp
  consider "n = 0" | "n \<noteq> 0" "p + unat n \<le> rmax r" | "n \<noteq> 0" "rmax r < p + unat n" by linarith
  then show ?thesis
  proof cases
    case 1
    then show ?thesis by (simp add: run_done [OF k])
  next
    case 2
    then show ?thesis
      by (subst run_step [OF k _ _ p refl refl]) (simp_all add: n run_done [OF kc] c)
  next
    case 3
    define m where "m = (of_nat (rmax r - p) :: u32)"
    have m: "unat m = rmax r - p" 
      using plt max by (simp del: of_nat_diff add: m_def unat_of_nat_u32)
    have m0: "m \<noteq> 0" using m plt by auto
    have mn: "m < n" using m 3(2) plt by (simp add: word_less_nat_alt)
    define seg1 where "seg1 = \<lparr>ring_pt = ring_base r + p, seg_sz = m, seg_data_pos = 0, seg_remain = n - m\<rparr>"
    define seg2 where "seg2 = \<lparr>ring_pt = ring_base r, seg_sz = n - m, seg_data_pos = m, seg_remain = 0\<rparr>"
    have nm: "n - m \<noteq> 0" "unat (n - m) \<le> rmax r" using mn n by (auto simp: unat_sub less_imp_le)
    have "unat (pos r + m) mod rmax r = (unat (pos r) + (rmax r - p)) mod rmax r"
      using unat_plus_mod [OF k, of "pos r" m] by (simp add: m)
    also have "\<dots> = (p + (rmax r - p)) mod rmax r" unfolding p by (rule mod_add_left_eq [symmetric])
    finally have q: "unat (pos r + m) mod rmax r = 0" using plt by simp
    have "ring_run pos commit body seg1 (commit seg1 r) = (\<lambda>acc. do { acc \<leftarrow> body seg2 acc; Some (commit seg2 (commit seg1 r), acc) })"
      by (rule ext, subst run_step [OF kc _ _ refl refl refl])
        (use nm in \<open>simp_all add: seg1_def seg2_def commit_max commit_pos commit_base q m0 run_done [OF kcc]\<close>)
    moreover have "commit seg2 (commit seg1 r) = commit (zero_segment\<lparr>seg_sz := n\<rparr>) r"
      by (simp add: commit_add seg1_def seg2_def)
    ultimately show ?thesis
      using 3 n by (subst run_step [OF k _ _ p refl refl])
        (simp_all add: m_def [symmetric] seg1_def [symmetric] seg2_def [symmetric] Let_def)
  qed
qed

text \<open>The cells of a pass: they are consecutive, modulo the size, and so are the positions in the data.\<close>

lemma run_cells:
  assumes k: "unat (ring_max_size r) = 2 ^ k" and n: "unat n \<le> rmax r"
  shows "\<exists>segs. ring_run pos commit (\<lambda>seg segs. Some (segs @ [seg])) (zero_segment\<lparr>seg_remain := n\<rparr>) r [] =
      Some (commit (zero_segment\<lparr>seg_sz := n\<rparr>) r, segs) \<and> length segs \<le> 2 \<and>
    concat (map (seg_cells (ring_base r)) segs) = map (\<lambda>i. (i, (unat (pos r) + i) mod rmax r)) [0..<unat n]"
proof -
  define p where "p = unat (pos r) mod rmax r"
  have plt: "p < rmax r" unfolding p_def by (intro mod_less_divisor) (simp add: k)
  have max: "rmax r < 2 ^ 32" using unsigned_less [of "ring_max_size r", where ?'a = nat] by simp
  have cell: "(unat (pos r) + i) mod rmax r = (p + i) mod rmax r" for i by (simp add: p_def mod_add_left_eq)
  consider "n = 0" | "n \<noteq> 0" "p + unat n \<le> rmax r" | "n \<noteq> 0" "rmax r < p + unat n" by linarith
  then show ?thesis
  proof cases
    case 1
    then show ?thesis by (intro exI [of _ "[]"]) (simp add: run_done [OF k] commit_zero)
  next
    case 2
    then show ?thesis
      by (simp add: run_cases [OF k n p_def] cell) (auto simp: seg_cells_def)
  next
    case 3
    define m where "m = (of_nat (rmax r - p) :: u32)"
    have m: "unat m = rmax r - p" using plt max by (simp del: of_nat_diff add: m_def unat_of_nat_u32)
    have mn: "m < n" using m 3(2) plt by (simp add: word_less_nat_alt)
    have nm: "unat (n - m) = unat n - (rmax r - p)" using mn by (simp add: unat_sub less_imp_le m)
    have split: "[0..<unat n] = [0..<rmax r - p] @ map (\<lambda>i. i + (rmax r - p)) [0..<unat n - (rmax r - p)]"
      using map_add_upt [of "rmax r - p" "unat n - (rmax r - p)"] 3(2) plt upt_add_eq_append [of 0 "rmax r - p" "unat n - (rmax r - p)"] by simp
    have "(p + (i + (rmax r - p))) mod rmax r = i" if "i < unat n - (rmax r - p)" for i
      using that n plt by (simp add: add.assoc [symmetric])
    with 3 m nm split show ?thesis
      by (simp add: run_cases [OF k n p_def] cell m_def [symmetric] Let_def) (auto simp: seg_cells_def)
  qed
qed

end

interpretation rd: ring_pass ring_read ring_read_commit
  by unfold_locales (simp_all add: ring_read_commit_def zero_segment_def algebra_simps)

interpretation wr: ring_pass ring_write ring_write_commit
  by unfold_locales (simp_all add: ring_write_commit_def zero_segment_def algebra_simps)

text \<open>The loops of the macros are passes.\<close>

lemma if_less_min: "(if m < sz then m else sz) = min sz (m :: u32)"
  by (auto simp: min_def)

lemma RING_READ_run:
  "RING_READ_FOR_EACH sz body r acc =
     ring_run ring_read ring_read_commit body (zero_segment\<lparr>seg_remain := min sz (RING_SIZE r)\<rparr>) r acc"
  by (simp add: RING_READ_FOR_EACH_def ring_run_def ring_read_prepare_def RING_SIZE_def Let_def if_less_min)

lemma RING_WRITE_run:
  "RING_WRITE_FOR_EACH sz body r acc =
     ring_run ring_write ring_write_commit body (zero_segment\<lparr>seg_remain := min sz (RING_WRITE_REMAIN_SIZE r)\<rparr>) r acc"
  by (simp add: RING_WRITE_FOR_EACH_def ring_run_def ring_write_prepare_def RING_WRITE_REMAIN_SIZE_def RING_SIZE_def
      Let_def if_less_min)

end
