(* ===== verification/Msg_Queue.thy ===== *)
theory Msg_Queue
  imports Op_History Ring_Spec
begin

text \<open>
  The queues of operations of \<open>msg_thread.c\<close> (\<open>MSG_OP_PUT\<close>, \<open>MSG_OP_GET\<close> and the functions around them) and that
  they are first-in first-out queues.  An operation is named by its index among the operations of the
  thread; the checks that are compiled only into engineering builds are left out.
\<close>

section \<open>Queues\<close>

record msg_op_q =
  q_write :: u32
  q_read :: u32
  q_size :: u32
  q_queue :: "nat list"

definition MSG_OP_MASK :: "msg_op_q \<Rightarrow> u32" where "MSG_OP_MASK prb = q_size prb - 1"
definition MSG_OP_COUNT :: "msg_op_q \<Rightarrow> u32" where "MSG_OP_COUNT prb = q_write prb - q_read prb"
definition MSG_OP_FULL :: "msg_op_q \<Rightarrow> bool" where "MSG_OP_FULL prb \<longleftrightarrow> MSG_OP_COUNT prb \<ge> q_size prb"
definition MSG_OP_EMPTY :: "msg_op_q \<Rightarrow> bool" where "MSG_OP_EMPTY prb \<longleftrightarrow> q_write prb = q_read prb"

definition MSG_OP_INIT :: "msg_op_q \<Rightarrow> u32 \<Rightarrow> msg_op_q" where
  "MSG_OP_INIT prb qsize = prb\<lparr>q_read := 0, q_write := 0, q_size := qsize\<rparr>"

definition MSG_OP_PUT :: "msg_op_q \<Rightarrow> nat \<Rightarrow> msg_op_q option" where
  "MSG_OP_PUT prb op =
     (if \<not> MSG_OP_FULL prb then do {
        q \<leftarrow> arr_set (q_queue prb) (unat (q_write prb AND MSG_OP_MASK prb)) op;
        Some (prb\<lparr>q_queue := q, q_write := q_write prb + 1\<rparr>)
      }
      else Some prb)"

text \<open>The value is \<^term>\<open>None\<close>, a null pointer, when the queue is empty.\<close>

definition MSG_OP_GET :: "msg_op_q \<Rightarrow> (nat option \<times> msg_op_q) option" where
  "MSG_OP_GET prb =
     (if \<not> MSG_OP_EMPTY prb then do {
        op \<leftarrow> arr_get (q_queue prb) (unat (q_read prb AND MSG_OP_MASK prb));
        let prb = prb\<lparr>q_read := q_read prb + 1\<rparr>;
        let prb = (if MSG_OP_EMPTY prb then prb\<lparr>q_read := 0, q_write := 0\<rparr> else prb);
        Some (Some op, prb)
      }
      else Some (None, prb))"

text \<open>\<open>lk\<close> is what taking the lock of the queue returns: zero, or an error when the task is being killed.\<close>

definition msg_evt_put_op_to_q :: "int \<Rightarrow> msg_op_q \<Rightarrow> nat option \<Rightarrow> (int \<times> msg_op_q) option" where
  "msg_evt_put_op_to_q lk op_q op =
     (case op of
        None \<Rightarrow> Some (- 1, op_q)
      | Some op \<Rightarrow>
          if lk \<noteq> 0 then Some (- 2, op_q)
          else if \<not> MSG_OP_FULL op_q then do { op_q \<leftarrow> MSG_OP_PUT op_q op; Some (0, op_q) }
          else Some (- 4, op_q))"

definition msg_evt_get_op_from_q :: "int \<Rightarrow> msg_op_q \<Rightarrow> (nat option \<times> msg_op_q) option" where
  "msg_evt_get_op_from_q lk op_q = (if lk \<noteq> 0 then Some (None, op_q) else MSG_OP_GET op_q)"

section \<open>First in, first out\<close>

text \<open>What a queue holds, the oldest first, and when it is well-formed.\<close>

definition q_items :: "msg_op_q \<Rightarrow> nat list" where
  "q_items q = map (\<lambda>i. q_queue q ! ((unat (q_read q) + i) mod unat (q_size q))) [0..<unat (MSG_OP_COUNT q)]"

definition q_ok :: "msg_op_q \<Rightarrow> bool" where
  "q_ok q \<longleftrightarrow> (\<exists>k. unat (q_size q) = 2 ^ k) \<and> length (q_queue q) = unat (q_size q) \<and> MSG_OP_COUNT q \<le> q_size q"

lemma q_okE:
  assumes "q_ok q"
  obtains k where "unat (q_size q) = 2 ^ k" "length (q_queue q) = 2 ^ k" "unat (MSG_OP_COUNT q) \<le> 2 ^ k" "0 < q_size q"
proof -
  from assms obtain k where "unat (q_size q) = 2 ^ k" "length (q_queue q) = 2 ^ k" "unat (MSG_OP_COUNT q) \<le> 2 ^ k"
    by (auto simp: q_ok_def word_le_nat_alt)
  moreover from this(1) have "0 < q_size q" by (simp add: word_less_nat_alt)
  ultimately show ?thesis using that by blast
qed

lemma length_q_items [simp]: "length (q_items q) = unat (MSG_OP_COUNT q)"
  by (simp add: q_items_def)

lemma q_items_le: "q_ok q \<Longrightarrow> length (q_items q) \<le> unat (q_size q)"
  by (simp add: q_ok_def word_le_nat_alt)

lemma full_iff: "MSG_OP_FULL q \<longleftrightarrow> unat (q_size q) \<le> length (q_items q)"
  by (simp add: MSG_OP_FULL_def word_le_nat_alt)

lemma empty_iff: "MSG_OP_EMPTY q \<longleftrightarrow> q_items q = []"
  by (auto simp: MSG_OP_EMPTY_def MSG_OP_COUNT_def unat_eq_0 simp flip: length_0_conv)

lemma q_init_ok: "unat qsize = 2 ^ k \<Longrightarrow> length (q_queue q) = 2 ^ k \<Longrightarrow> q_ok (MSG_OP_INIT q qsize)"
  and q_init_items [simp]: "q_items (MSG_OP_INIT q qsize) = []"
  by (auto simp: q_ok_def MSG_OP_INIT_def MSG_OP_COUNT_def q_items_def)

lemma q_index:
  assumes "unat (q_size q) = 2 ^ k"
  shows "unat (off AND MSG_OP_MASK q) = unat off mod unat (q_size q)"
  unfolding MSG_OP_MASK_def by (rule and_mask_u32 [OF assms])

lemma q_get_queue:
  assumes "q_ok q" and "q_items q = x # xs"
  shows "\<exists>q'. MSG_OP_GET q = Some (Some x, q') \<and> q_ok q' \<and> q_items q' = xs \<and> q_size q' = q_size q"
proof -
  obtain k where k: "unat (q_size q) = 2 ^ k" "length (q_queue q) = 2 ^ k" "unat (MSG_OP_COUNT q) \<le> 2 ^ k"
    using assms(1) by (rule q_okE)
  have c: "unat (MSG_OP_COUNT q) = Suc (length xs)" using assms(2) by (metis length_Cons length_q_items)
  define q1 where "q1 = q\<lparr>q_read := q_read q + 1\<rparr>"
  have "MSG_OP_COUNT q1 = MSG_OP_COUNT q - 1" by (simp add: q1_def MSG_OP_COUNT_def)
  moreover have "MSG_OP_COUNT q \<noteq> 0" using c by auto
  ultimately have c1: "unat (MSG_OP_COUNT q1) = length xs" using c by (simp add: unat_minus_one)
  have x: "q_queue q ! (unat (q_read q) mod 2 ^ k) = x"
    using arg_cong [OF assms(2), of "\<lambda>l. l ! 0"] c by (simp add: q_items_def k(1) del: upt_Suc)
  have "(unat (q_read q + 1) + i) mod 2 ^ k = (unat (q_read q) + Suc i) mod 2 ^ k" for i
    using unat_plus_mod [OF k(1), of "q_read q" 1] by (simp add: k(1)) (metis add_Suc mod_add_left_eq)
  moreover have "q_read q1 = q_read q + 1" "q_queue q1 = q_queue q" "q_size q1 = q_size q" by (simp_all add: q1_def)
  ultimately have "q_items q1 = tl (q_items q)"
    by (simp add: q_items_def c1 c k(1) upt_conv_Cons map_Suc_upt [symmetric] del: upt_Suc)
  then have items: "q_items q1 = xs" using assms(2) by simp
  define q' where "q' = (if MSG_OP_EMPTY q1 then q1\<lparr>q_read := 0, q_write := 0\<rparr> else q1)"
  have "q_ok q'" using assms(1) c c1 k by (auto simp: q'_def q1_def q_ok_def MSG_OP_COUNT_def word_le_nat_alt)
  moreover have "q_items q' = xs"
    using items by (auto simp: q'_def empty_iff) (simp add: q_items_def MSG_OP_COUNT_def)
  moreover have "MSG_OP_GET q = Some (Some x, q')"
    using assms(2) k x by (simp add: MSG_OP_GET_def empty_iff q_index [OF k(1)] arr_get_def Let_def q'_def q1_def)
  ultimately show ?thesis by (auto simp: q'_def q1_def)
qed

lemma q_put_queue:
  assumes "q_ok q" and "length (q_items q) < unat (q_size q)"
  shows "\<exists>q'. MSG_OP_PUT q x = Some q' \<and> q_ok q' \<and> q_items q' = q_items q @ [x] \<and> q_size q' = q_size q"
proof -
  obtain k where k: "unat (q_size q) = 2 ^ k" "length (q_queue q) = 2 ^ k" using assms(1) by (rule q_okE)
  define n where "n = unat (MSG_OP_COUNT q)"
  have n: "n < 2 ^ k" using assms(2) k by (simp add: n_def)
  have "q_write q = q_read q + MSG_OP_COUNT q" by (simp add: MSG_OP_COUNT_def)
  then have w: "unat (q_write q) mod 2 ^ k = (unat (q_read q) + n) mod 2 ^ k"
    using unat_plus_mod [OF k(1), of "q_read q" "MSG_OP_COUNT q"] by (simp add: k(1) n_def)
  define q' where "q' = q\<lparr>q_queue := (q_queue q)[unat (q_write q) mod 2 ^ k := x], q_write := q_write q + 1\<rparr>"
  have "unat (MSG_OP_COUNT q + 1) = n + 1"
    using n unsigned_less [of "q_size q", where ?'a = nat] k(1) unat_add_no_wrap [of "MSG_OP_COUNT q" 1] by (simp add: n_def)
  moreover have "MSG_OP_COUNT q' = MSG_OP_COUNT q + 1" by (simp add: q'_def MSG_OP_COUNT_def)
  ultimately have c: "unat (MSG_OP_COUNT q') = Suc n" by simp
  have differ: "(unat (q_read q) + i) mod 2 ^ k \<noteq> (unat (q_read q) + n) mod 2 ^ k" if "i < n" for i
  proof
    assume "(unat (q_read q) + i) mod 2 ^ k = (unat (q_read q) + n) mod 2 ^ k"
    then have "2 ^ k dvd n - i" using that mod_eq_dvd_iff_nat [of "unat (q_read q) + i" "unat (q_read q) + n" "2 ^ k"] by simp
    with that n show False by (auto dest: dvd_imp_le)
  qed
  have "q_items q' = q_items q @ [x]"
    using k c differ by (simp add: q_items_def n_def [symmetric]) (auto simp: q'_def w differ [THEN not_sym])
  moreover have "q_ok q'" using assms(1) c k n by (auto simp: q_ok_def q'_def word_le_nat_alt)
  moreover have "MSG_OP_PUT q x = Some q'"
    using assms(2) k by (simp add: MSG_OP_PUT_def full_iff q_index [OF k(1)] arr_set_def q'_def)
  ultimately show ?thesis by (auto simp: q'_def)
qed

text \<open>What the users of a queue rely on.\<close>

locale op_queue =
  fixes put :: "'q \<Rightarrow> 'a \<Rightarrow> (int \<times> 'q) option" and get :: "'q \<Rightarrow> ('a option \<times> 'q) option"
    and ok :: "'q \<Rightarrow> bool" and items :: "'q \<Rightarrow> 'a list" and capacity :: "'q \<Rightarrow> nat"
  assumes put_room: "ok q \<Longrightarrow> length (items q) < capacity q \<Longrightarrow>
      \<exists>q'. put q x = Some (0, q') \<and> ok q' \<and> items q' = items q @ [x] \<and> capacity q' = capacity q"
    and get_front: "ok q \<Longrightarrow> items q = x # xs \<Longrightarrow>
      \<exists>q'. get q = Some (Some x, q') \<and> ok q' \<and> items q' = xs \<and> capacity q' = capacity q"
    and get_empty: "ok q \<Longrightarrow> items q = [] \<Longrightarrow> get q = Some (None, q)"
begin

lemma get_total:
  assumes "ok q"
  obtains "items q = []" "get q = Some (None, q)"
    | x q' where "get q = Some (Some x, q')" "ok q'" "items q = x # items q'" "capacity q' = capacity q"
  using assms get_front [of q] get_empty [of q] by (cases "items q") blast+

fun put_all :: "'q \<Rightarrow> 'a list \<Rightarrow> 'q option" where
  "put_all q [] = Some q"
| "put_all q (x # xs) = do { (_, q) \<leftarrow> put q x; put_all q xs }"

lemma put_all_items:
  "ok q \<Longrightarrow> length (items q) + length xs \<le> capacity q \<Longrightarrow>
     \<exists>q'. put_all q xs = Some q' \<and> ok q' \<and> items q' = items q @ xs \<and> capacity q' = capacity q"
proof (induction xs arbitrary: q)
  case (Cons x xs)
  from Cons.prems put_room [of q x] obtain q1
    where q1: "put q x = Some (0, q1)" "ok q1" "items q1 = items q @ [x]" "capacity q1 = capacity q" by auto
  from Cons.IH [OF q1(2)] Cons.prems(2) q1 show ?case by auto
qed simp

end

interpretation opq: op_queue "\<lambda>q x. msg_evt_put_op_to_q 0 q (Some x)" "msg_evt_get_op_from_q 0"
  q_ok q_items "\<lambda>q. unat (q_size q)"
proof unfold_locales
  fix q x
  assume a: "q_ok q" "length (q_items q) < unat (q_size q)"
  then obtain q' where "MSG_OP_PUT q x = Some q'" "q_ok q'" "q_items q' = q_items q @ [x]" "q_size q' = q_size q"
    using q_put_queue [OF a] by blast
  with a show "\<exists>q'. msg_evt_put_op_to_q 0 q (Some x) = Some (0, q') \<and> q_ok q' \<and> q_items q' = q_items q @ [x] \<and>
      unat (q_size q') = unat (q_size q)"
    by (simp add: msg_evt_put_op_to_q_def full_iff)
next
  fix q x xs
  assume "q_ok q" "q_items q = x # xs"
  then show "\<exists>q'. msg_evt_get_op_from_q 0 q = Some (Some x, q') \<and> q_ok q' \<and> q_items q' = xs \<and>
      unat (q_size q') = unat (q_size q)"
    using q_get_queue [of q x xs] by (auto simp: msg_evt_get_op_from_q_def)
next
  fix q
  assume "q_ok q" "q_items q = []"
  then show "msg_evt_get_op_from_q 0 q = Some (None, q)"
    by (simp add: msg_evt_get_op_from_q_def MSG_OP_GET_def empty_iff)
qed

lemma put_locked: "lk \<noteq> 0 \<Longrightarrow> msg_evt_put_op_to_q lk q (Some x) = Some (- 2, q)"
  and get_locked: "lk \<noteq> 0 \<Longrightarrow> msg_evt_get_op_from_q lk q = Some (None, q)"
  by (simp_all add: msg_evt_put_op_to_q_def msg_evt_get_op_from_q_def)

end
