(* ===== verification/Msg_Thread.thy ===== *)
theory Msg_Thread
  imports Msg_Queue
begin

text \<open>
  The message threads of \<open>conninfra\<close> (\<open>msg_thread.c\<close>): tasks send operations to a thread, which runs a handler for
  each of them; a sender either goes on at once or waits for the result, with a timeout.  The functions of
  the code are cut into the pieces that run without interference from other tasks, and the steps of a
  sender and of the thread are functions on the shared context; \<^term>\<open>None\<close> is an access outside of an
  object.  The context is never a null pointer here.
\<close>

section \<open>Context\<close>

text \<open>A handler gets the data of the operation, may change them and the rest of the driver, and returns a result.\<close>

type_synonym 's msg_opid_func = "msg_op_data \<Rightarrow> 's \<Rightarrow> int \<times> msg_op_data \<times> 's"

record 's msg_thread_ctx =
  free_op_q :: msg_op_q
  active_op_q :: msg_op_q
  op_q_inst :: "msg_op list"
  cur_op :: "nat option"
  op_func_size :: int
  op_func :: "'s msg_opid_func option list"
  op_history :: osal_op_history
  driver :: 's

text \<open>An update of the operation at index \<open>x\<close>.\<close>

definition upd_op :: "nat \<Rightarrow> (msg_op \<Rightarrow> msg_op) \<Rightarrow> 's msg_thread_ctx \<Rightarrow> 's msg_thread_ctx option" where
  "upd_op x f ctx = do {
     op \<leftarrow> arr_get (op_q_inst ctx) x;
     insts \<leftarrow> arr_set (op_q_inst ctx) x (f op);
     Some (ctx\<lparr>op_q_inst := insts\<rparr>)
   }"

section \<open>Signals and reference counts\<close>

definition osal_signal_init :: "osal_signal \<Rightarrow> osal_signal" where
  "osal_signal_init s = s\<lparr>comp_done := 0\<rparr>"

definition osal_raise_signal :: "osal_signal \<Rightarrow> osal_signal" where
  "osal_raise_signal s = s\<lparr>comp_done := comp_done s + 1\<rparr>"

definition osal_signal_deinit :: "osal_signal \<Rightarrow> osal_signal" where
  "osal_signal_deinit s = s\<lparr>timeoutValue := 0\<rparr>"

text \<open>\<open>osal_wait_for_signal_timeout\<close> takes one completion, or returns zero when the time is up and no extension is left;
  then the count of the extensions has gone below zero.  An operation starts without extensions, so that there is one
  round of waiting.  Whether the time is up is an argument; \<^term>\<open>None\<close>: it goes on waiting.\<close>

definition osal_wait_for_signal_timeout :: "bool \<Rightarrow> osal_signal \<Rightarrow> osal_signal option" where
  "osal_wait_for_signal_timeout timed_out s =
     (if timed_out then Some (s\<lparr>timeoutExtension := - 1\<rparr>)
      else if 0 < comp_done s then Some (s\<lparr>comp_done := comp_done s - 1\<rparr>)
      else None)"

text \<open>\<open>atomic_dec_and_test(&op->ref_count)\<close>\<close>

definition dec_and_test :: "nat \<Rightarrow> 's msg_thread_ctx \<Rightarrow> (bool \<times> 's msg_thread_ctx) option" where
  "dec_and_test x ctx = do {
     op \<leftarrow> arr_get (op_q_inst ctx) x;
     ctx \<leftarrow> upd_op x (\<lambda>op. op\<lparr>op_ref_count := op_ref_count op - 1\<rparr>) ctx;
     Some (op_ref_count op - 1 = 0, ctx)
   }"

section \<open>Requests\<close>

text \<open>What a call of a send function asks for: the id, the first data of the operation, and the timeout,
  which is zero for a sender that does not wait.\<close>

record msg_request =
  rq_opid :: u32
  rq_data :: "u64 list"
  rq_timeout :: u32

definition msg_thread_send_2 :: "u32 \<Rightarrow> u64 \<Rightarrow> u64 \<Rightarrow> msg_request" where
  "msg_thread_send_2 opid param1 param2 = \<lparr>rq_opid = opid, rq_data = [param1, param2], rq_timeout = 0\<rparr>"

definition msg_thread_send_1 :: "u32 \<Rightarrow> u64 \<Rightarrow> msg_request" where
  "msg_thread_send_1 opid param1 = msg_thread_send_2 opid param1 0"

definition msg_thread_send :: "u32 \<Rightarrow> msg_request" where
  "msg_thread_send opid = msg_thread_send_2 opid 0 0"

definition msg_thread_send_wait_3 :: "u32 \<Rightarrow> u32 \<Rightarrow> u64 \<Rightarrow> u64 \<Rightarrow> u64 \<Rightarrow> msg_request" where
  "msg_thread_send_wait_3 opid timeout param1 param2 param3 =
     \<lparr>rq_opid = opid, rq_data = [param1, param2, param3], rq_timeout = (if 0 < sint timeout then timeout else MSG_OP_TIMEOUT)\<rparr>"

definition msg_thread_send_wait_2 :: "u32 \<Rightarrow> u32 \<Rightarrow> u64 \<Rightarrow> u64 \<Rightarrow> msg_request" where
  "msg_thread_send_wait_2 opid timeout param1 param2 = msg_thread_send_wait_3 opid timeout param1 param2 0"

definition msg_thread_send_wait_1 :: "u32 \<Rightarrow> u32 \<Rightarrow> u64 \<Rightarrow> msg_request" where
  "msg_thread_send_wait_1 opid timeout param1 = msg_thread_send_wait_3 opid timeout param1 0 0"

definition msg_thread_send_wait :: "u32 \<Rightarrow> u32 \<Rightarrow> msg_request" where
  "msg_thread_send_wait opid timeout = msg_thread_send_wait_3 opid timeout 0 0 0"

text \<open>The data of the operation of a request, and the operation when it is put into the active queue: zeroed by
  \<open>msg_evt_get_free_op\<close>, filled by the send function, with its signal and its references set by
  \<open>msg_evt_put_op_to_active\<close>.\<close>

definition request_data :: "msg_request \<Rightarrow> msg_op_data" where
  "request_data rq = (op_op zero_op)\<lparr>op_id := rq_opid rq,
     op_data := rq_data rq @ drop (length (rq_data rq)) (op_data (op_op zero_op))\<rparr>"

definition request_op :: "msg_request \<Rightarrow> msg_op" where
  "request_op rq =
     (let op = zero_op\<lparr>op_op := request_data rq\<rparr>;
          op = op\<lparr>op_signal := (op_signal op)\<lparr>timeoutValue := rq_timeout rq\<rparr>\<rparr>;
          op = (if timeoutValue (op_signal op) \<noteq> 0
                then op\<lparr>op_result := - 9, op_signal := osal_signal_init (op_signal op), op_ref_count := 1\<rparr>
                else op\<lparr>op_ref_count := 0\<rparr>) in
      op\<lparr>op_ref_count := op_ref_count op + 1\<rparr>)"

section \<open>Senders\<close>

definition msg_evt_put_op_to_free_queue :: "int \<Rightarrow> nat \<Rightarrow> 's msg_thread_ctx \<Rightarrow> (int \<times> 's msg_thread_ctx) option" where
  "msg_evt_put_op_to_free_queue lk x ctx = do {
     (ret, q) \<leftarrow> msg_evt_put_op_to_q lk (free_op_q ctx) (Some x);
     Some (if ret \<noteq> 0 then - 1 else 0, ctx\<lparr>free_op_q := q\<rparr>)
   }"

text \<open>Where a sender is: before it has taken an operation, with the operation it has taken and fills, puts into the
  active queue, with the reference it holds when it triggers the thread, waits, reads the result, gives its
  reference up and puts the operation back, and at its return, without an operation or with the result.\<close>

datatype sender_pc =
    S_Start | S_Fill nat | S_Enqueue nat | S_Trigger nat | S_Wait nat | S_Result nat | S_Drop nat int | S_Free nat int
  | S_NoOp | S_Done int

text \<open>\<open>lk\<close> is what taking the lock of a queue returns.\<close>

fun sender_step ::
  "int \<Rightarrow> bool \<Rightarrow> msg_request \<Rightarrow> sender_pc \<Rightarrow> 's msg_thread_ctx \<Rightarrow> (sender_pc \<times> 's msg_thread_ctx) option" where
  "sender_step lk timed_out rq S_Start ctx = do {
     (op, q) \<leftarrow> msg_evt_get_op_from_q lk (free_op_q ctx);
     Some (case op of None \<Rightarrow> S_NoOp | Some x \<Rightarrow> S_Fill x, ctx\<lparr>free_op_q := q\<rparr>)
   }"
| "sender_step lk timed_out rq (S_Fill x) ctx = do {
     ctx \<leftarrow> upd_op x (\<lambda>op. request_op rq) ctx;
     Some (S_Enqueue x, ctx)
   }"
| "sender_step lk timed_out rq (S_Enqueue x) ctx = do {
     (ret, q) \<leftarrow> msg_evt_put_op_to_q lk (active_op_q ctx) (Some x);
     if ret \<noteq> 0 then do {
       (_, ctx) \<leftarrow> dec_and_test x ctx;
       Some (S_Drop x ret, ctx)
     }
     else Some (S_Trigger x, ctx\<lparr>active_op_q := q\<rparr>)
   }"
| "sender_step lk timed_out rq (S_Trigger x) ctx = do {
     op \<leftarrow> arr_get (op_q_inst ctx) x;
     Some (if timeoutValue (op_signal op) = 0 then S_Drop x 0 else S_Wait x, ctx)
   }"
| "sender_step lk timed_out rq (S_Wait x) ctx = do {
     op \<leftarrow> arr_get (op_q_inst ctx) x;
     (case osal_wait_for_signal_timeout timed_out (op_signal op) of
        None \<Rightarrow> Some (S_Wait x, ctx)
      | Some s \<Rightarrow> do { ctx \<leftarrow> upd_op x (\<lambda>op. op\<lparr>op_signal := s\<rparr>) ctx; Some (S_Result x, ctx) })
   }"
| "sender_step lk timed_out rq (S_Result x) ctx = do {
     op \<leftarrow> arr_get (op_q_inst ctx) x;
     Some (S_Drop x (op_result op), ctx)
   }"
| "sender_step lk timed_out rq (S_Drop x ret) ctx = do {
     op \<leftarrow> arr_get (op_q_inst ctx) x;
     if timeoutValue (op_signal op) = 0 then Some (S_Done ret, ctx)
     else do {
       (free, ctx) \<leftarrow> dec_and_test x ctx;
       Some (if free then S_Free x ret else S_Done ret, ctx)
     }
   }"
| "sender_step lk timed_out rq (S_Free x ret) ctx = do {
     (_, ctx) \<leftarrow> msg_evt_put_op_to_free_queue lk x ctx;
     Some (S_Done ret, ctx)
   }"
| "sender_step lk timed_out rq pc ctx = Some (pc, ctx)"

section \<open>The thread\<close>

definition msg_evt_wait_event_checker :: "'s msg_thread_ctx \<Rightarrow> bool" where
  "msg_evt_wait_event_checker ctx \<longleftrightarrow> \<not> MSG_OP_EMPTY (active_op_q ctx)"

definition msg_evt_set_current_op :: "'s msg_thread_ctx \<Rightarrow> nat option \<Rightarrow> 's msg_thread_ctx" where
  "msg_evt_set_current_op ctx op = ctx\<lparr>cur_op := op\<rparr>"

text \<open>\<open>opid\<close> is a signed number: a negative one passes the check and reads before the table.\<close>

definition msg_evt_opid_handler ::
  "'s msg_thread_ctx \<Rightarrow> msg_op_data \<Rightarrow> (int \<times> msg_op_data \<times> 's) option" where
  "msg_evt_opid_handler ctx op =
     (let opid = sint (op_id op) in
      if opid \<ge> op_func_size ctx then Some (- 3, op, driver ctx)
      else do {
        f \<leftarrow> (if opid < 0 then None else arr_get (op_func ctx) (nat opid));
        Some (case f of None \<Rightarrow> (- 4, op, driver ctx) | Some f \<Rightarrow> f op (driver ctx))
      })"

text \<open>Where the thread is: waiting for an operation, or with the operation whose handler it runs, whose reference it
  gives up, which it puts back, whose timeout it reads, and whose sender it gives the result and wakes.\<close>

datatype worker_pc = W_Wait | W_Run nat | W_Drop nat int | W_Free nat | W_Check nat int | W_Result nat int | W_Raise nat

text \<open>\<open>sec\<close> and \<open>usec\<close> are the local time that goes into the history.\<close>

fun worker_step :: "int \<Rightarrow> u64 \<Rightarrow> u64 \<Rightarrow> worker_pc \<Rightarrow> 's msg_thread_ctx \<Rightarrow> (worker_pc \<times> 's msg_thread_ctx) option" where
  "worker_step lk sec usec W_Wait ctx = do {
     (op, q) \<leftarrow> msg_evt_get_op_from_q lk (active_op_q ctx);
     Some (case op of None \<Rightarrow> W_Wait | Some x \<Rightarrow> W_Run x, ctx\<lparr>active_op_q := q\<rparr>)
   }"
| "worker_step lk sec usec (W_Run x) ctx = do {
     op \<leftarrow> arr_get (op_q_inst ctx) x;
     h \<leftarrow> msg_op_history_save (op_history ctx) x op sec usec;
     let ctx = ctx\<lparr>op_history := h\<rparr>;
     let ctx = msg_evt_set_current_op ctx (Some x);
     (ret, d, s) \<leftarrow> msg_evt_opid_handler ctx (op_op op);
     ctx \<leftarrow> upd_op x (\<lambda>op. op\<lparr>op_op := d\<rparr>) ctx;
     let ctx = ctx\<lparr>driver := s\<rparr>;
     let ctx = msg_evt_set_current_op ctx None;
     Some (W_Drop x ret, ctx)
   }"
| "worker_step lk sec usec (W_Drop x ret) ctx = do {
     (free, ctx) \<leftarrow> dec_and_test x ctx;
     Some (if free then W_Free x else W_Check x ret, ctx)
   }"
| "worker_step lk sec usec (W_Free x) ctx = do {
     (_, ctx) \<leftarrow> msg_evt_put_op_to_free_queue lk x ctx;
     Some (W_Wait, ctx)
   }"
| "worker_step lk sec usec (W_Check x ret) ctx = do {
     op \<leftarrow> arr_get (op_q_inst ctx) x;
     Some (if timeoutValue (op_signal op) \<noteq> 0 then W_Result x ret else W_Wait, ctx)
   }"
| "worker_step lk sec usec (W_Result x ret) ctx = do {
     ctx \<leftarrow> upd_op x (\<lambda>op. op\<lparr>op_result := ret\<rparr>) ctx;
     Some (W_Raise x, ctx)
   }"
| "worker_step lk sec usec (W_Raise x) ctx = do {
     ctx \<leftarrow> upd_op x (\<lambda>op. op\<lparr>op_signal := osal_raise_signal (op_signal op)\<rparr>) ctx;
     Some (W_Wait, ctx)
   }"

section \<open>Creating a thread\<close>

text \<open>\<open>init_ops\<close> is the loop that fills the free queue.\<close>

fun init_ops :: "nat list \<Rightarrow> 's msg_thread_ctx \<Rightarrow> 's msg_thread_ctx option" where
  "init_ops [] ctx = Some ctx"
| "init_ops (x # xs) ctx = do {
     ctx \<leftarrow> upd_op x (\<lambda>op. op\<lparr>op_signal := osal_signal_init (op_signal op)\<rparr>) ctx;
     (_, ctx) \<leftarrow> msg_evt_put_op_to_free_queue 0 x ctx;
     init_ops xs ctx
   }"

definition zero_queue :: msg_op_q where
  "zero_queue = \<lparr>q_write = 0, q_read = 0, q_size = 0, q_queue = replicate MSG_THREAD_OP_BUF_SIZE 0\<rparr>"

definition zero_history :: osal_op_history where
  "zero_history = \<lparr>ring_buffer = \<lparr>ring_base = 0, ring_write = 0, ring_read = 0, ring_max_size = 0\<rparr>,
     hist_queue = None, hist_dump = None\<rparr>"

definition zero_ctx :: "'s \<Rightarrow> 's msg_thread_ctx" where
  "zero_ctx s = \<lparr>free_op_q = zero_queue, active_op_q = zero_queue, op_q_inst = replicate MSG_THREAD_OP_BUF_SIZE zero_op,
     cur_op = None, op_func_size = 0, op_func = [], op_history = zero_history, driver = s\<rparr>"

text \<open>\<open>create\<close> and \<open>run\<close> are the results of creating and waking the kernel thread, \<open>ok\<close> the outcome of the allocation for
  the history, whose field \<open>queue\<close> has the address \<open>addr\<close>.\<close>

definition msg_thread_init ::
  "int \<Rightarrow> int \<Rightarrow> bool \<Rightarrow> nat \<Rightarrow> 's msg_opid_func option list \<Rightarrow> int \<Rightarrow> 's \<Rightarrow> (int \<times> 's msg_thread_ctx) option" where
  "msg_thread_init create run ok addr funcs op_size s =
     (let ctx = (zero_ctx s)\<lparr>op_func := funcs, op_func_size := op_size\<rparr> in
      if create \<noteq> 0 then Some (- 1, ctx)
      else do {
        let ctx = ctx\<lparr>free_op_q := MSG_OP_INIT (free_op_q ctx) (of_nat MSG_THREAD_OP_BUF_SIZE),
                      active_op_q := MSG_OP_INIT (active_op_q ctx) (of_nat MSG_THREAD_OP_BUF_SIZE)\<rparr>;
        ctx \<leftarrow> init_ops [0..<MSG_THREAD_OP_BUF_SIZE] ctx;
        let ctx = ctx\<lparr>op_history := osal_op_history_init addr 16 ok (op_history ctx)\<rparr>;
        Some (if run \<noteq> 0 then - 2 else run, ctx)
      })"

text \<open>\<open>stop\<close> is the result of stopping the kernel thread; \<open>osal_thread_destroy\<close> always returns zero.\<close>

definition msg_thread_deinit :: "int \<Rightarrow> 's msg_thread_ctx \<Rightarrow> int \<times> 's msg_thread_ctx" where
  "msg_thread_deinit stop ctx =
     (if stop \<noteq> 0 then (- 1, ctx)
      else
        let ctx = ctx\<lparr>op_q_inst := map (\<lambda>op. op\<lparr>op_signal := osal_signal_deinit (op_signal op)\<rparr>) (op_q_inst ctx)\<rparr> in
        (0, zero_ctx (driver ctx)))"

end
