(* ===== verification/Op_History_Spec.thy ===== *)
theory Op_History_Spec
  imports Op_History Ring_Spec
begin

text \<open>
  The history keeps the last operations: whatever the number of operations, printing shows the
  last ones in their order, as many as the queue has entries.
\<close>

section \<open>Reading item by item\<close>

abbreviation (input) prep_item :: "ring_segment \<Rightarrow> ring \<Rightarrow> ring_segment" where
  "prep_item \<equiv> \<lambda>seg r. ring_segment_prepare_item (ring_read r) seg r"

lemma prepare_item:
  assumes "unat (ring_max_size r) = 2 ^ k"
  shows "prep_item seg r = \<lparr>ring_pt = ring_base r + unat (ring_read r) mod rmax r,
    seg_sz = (if seg_remain seg \<noteq> 0 then 1 else 0),
    seg_data_pos = (if seg_sz seg \<noteq> 0 then seg_data_pos seg + seg_sz seg else 0),
    seg_remain = (if seg_remain seg \<noteq> 0 then seg_remain seg - 1 else 0)\<rparr>"
proof -
  have "unat (ring_read r) mod rmax r < rmax r" by (intro mod_less_divisor) (simp add: assms)
  then show ?thesis
    by (simp add: ring_segment_prepare_item_def prepare_sz [OF assms] Let_def Suc_le_eq)
qed

text \<open>A turn of the loop with \<open>n + 1\<close> items to go: one item, and the read position moves by one.\<close>

lemma item_step:
  assumes "unat (ring_max_size r) = 2 ^ k" and "seg_remain seg = of_nat (Suc n)" and "Suc n < 2 ^ 32"
  defines "seg' \<equiv> prep_item seg r"
  defines "r' \<equiv> ring_read_commit seg' r"
  shows "ring_for_each ring_read_commit prep_item
      (\<lambda>seg out. do { e \<leftarrow> f (ring_pt seg - ring_base r); Some (out @ [e]) }) seg' r out =
    do { e \<leftarrow> f (unat (ring_read r) mod rmax r); ring_for_each ring_read_commit prep_item
      (\<lambda>seg out. do { e \<leftarrow> f (ring_pt seg - ring_base r'); Some (out @ [e]) }) (prep_item seg' r') r' (out @ [e]) }"
    and "ring_max_size r' = ring_max_size r" and "ring_base r' = ring_base r"
    and "seg_remain seg' = of_nat n"
    and "(unat (ring_read r') + i) mod rmax r = (unat (ring_read r) + Suc i) mod rmax r"
proof -
  have s: "(of_nat (Suc n) :: u32) \<noteq> 0" "(of_nat (Suc n) :: u32) - 1 = of_nat n"
    using assms(3) unat_of_nat_u32 [of "Suc n"] by auto
  have seg': "seg_sz seg' = 1" "seg_remain seg' = of_nat n" "ring_pt seg' - ring_base r = unat (ring_read r) mod rmax r"
    using s assms(2) by (simp_all add: seg'_def prepare_item [OF assms(1)])
  have r': "ring_max_size r' = ring_max_size r" "ring_base r' = ring_base r" "ring_read r' = ring_read r + 1"
    by (simp_all add: r'_def ring_read_commit_def seg')
  show "ring_max_size r' = ring_max_size r" "ring_base r' = ring_base r" "seg_remain seg' = of_nat n"
    by (fact r'(1) r'(2) seg'(2))+
  have "(unat (ring_read r') + i) mod rmax r = (unat (ring_read r') mod rmax r + i) mod rmax r"
    by (simp add: mod_add_left_eq)
  also have "\<dots> = (unat (ring_read r) + Suc i) mod rmax r"
    using unat_plus_mod [OF assms(1), of "ring_read r" 1] by (simp add: r'(3) mod_add_left_eq)
  finally show "(unat (ring_read r') + i) mod rmax r = (unat (ring_read r) + Suc i) mod rmax r" .
  show "ring_for_each ring_read_commit prep_item
      (\<lambda>seg out. do { e \<leftarrow> f (ring_pt seg - ring_base r); Some (out @ [e]) }) seg' r out =
    do { e \<leftarrow> f (unat (ring_read r) mod rmax r); ring_for_each ring_read_commit prep_item
      (\<lambda>seg out. do { e \<leftarrow> f (ring_pt seg - ring_base r'); Some (out @ [e]) }) (prep_item seg' r') r' (out @ [e]) }"
    by (subst ring_for_each.simps) (simp add: seg' r'(2) r'_def [symmetric] Let_def)
qed

lemma items_loop:
  fixes f :: "nat \<Rightarrow> 'a option"
  assumes "unat (ring_max_size r) = 2 ^ k" and "seg_remain seg = of_nat n" and "n < 2 ^ 32"
    and "\<And>i. i < n \<Longrightarrow> f ((unat (ring_read r) + i) mod rmax r) = Some (g i)"
  shows "\<exists>r'. ring_for_each ring_read_commit prep_item
      (\<lambda>seg out. do { e \<leftarrow> f (ring_pt seg - ring_base r); Some (out @ [e]) }) (prep_item seg r) r out =
    Some (r', out @ map g [0..<n])"
  using assms
proof (induction n arbitrary: r seg out g)
  case 0
  then show ?case by (simp add: prepare_item [OF "0.prems"(1)] ring_for_each.simps)
next
  case (Suc n)
  note step = item_step [OF Suc.prems(1-3)]
  let ?seg = "prep_item seg r"
  let ?r = "ring_read_commit ?seg r"
  have "f ((unat (ring_read ?r) + i) mod rmax ?r) = Some (g (Suc i))" if "i < n" for i
    using Suc.prems(4) [of "Suc i"] that by (simp add: step(2,5))
  then obtain r2 where "ring_for_each ring_read_commit prep_item
      (\<lambda>seg out. do { e \<leftarrow> f (ring_pt seg - ring_base ?r); Some (out @ [e]) }) (prep_item ?seg ?r) ?r (out @ [g 0]) =
    Some (r2, (out @ [g 0]) @ map (\<lambda>i. g (Suc i)) [0..<n])"
    using Suc.IH [of ?r ?seg "\<lambda>i. g (Suc i)" "out @ [g 0]"] Suc.prems(1,3) step(2,4) by auto
  moreover have "map g [0..<Suc n] = g 0 # map (\<lambda>i. g (Suc i)) [0..<n]"
    by (simp only: upt_conv_Cons [of 0 "Suc n"] map_Suc_upt [symmetric] map_map o_def list.map zero_less_Suc if_True)
  ultimately show ?case using Suc.prems(4) [of 0] by (simp add: step(1))
qed

lemma items_fail:
  fixes f :: "nat \<Rightarrow> 'a option"
  assumes "unat (ring_max_size r) = 2 ^ k" and "seg_remain seg = of_nat n" and "n < 2 ^ 32"
    and "i < n" and "f ((unat (ring_read r) + i) mod rmax r) = None"
  shows "ring_for_each ring_read_commit prep_item
      (\<lambda>seg out. do { e \<leftarrow> f (ring_pt seg - ring_base r); Some (out @ [e]) }) (prep_item seg r) r out = None"
  using assms
proof (induction n arbitrary: r seg out i)
  case (Suc n)
  note step = item_step [OF Suc.prems(1-3)]
  show ?case
  proof (cases "f (unat (ring_read r) mod rmax r)")
    case None
    then show ?thesis by (simp add: step(1))
  next
    case (Some e)
    with Suc.prems(5) obtain j where j: "i = Suc j" by (cases i) auto
    let ?r = "ring_read_commit (prep_item seg r) r"
    have "f ((unat (ring_read ?r) + j) mod rmax ?r) = None" using Suc.prems(5) by (simp add: step(2,5) j)
    then show ?thesis
      using Suc.IH [of ?r "prep_item seg r" j] Suc.prems(1,3,4) j Some step(2,4) by (auto simp: step(1))
  qed
qed simp

section \<open>Saving\<close>

text \<open>The history after the operations \<open>es\<close> were saved.\<close>

definition history_holds :: "osal_op_history \<Rightarrow> nat \<Rightarrow> osal_op_history_entry list \<Rightarrow> bool" where
  "history_holds h N es \<longleftrightarrow>
     (\<exists>q. hist_queue h = Some q \<and> length q = N \<and> rmax (ring_buffer h) = N \<and>
        ring_write (ring_buffer h) = of_nat (length es) \<and>
        ring_read (ring_buffer h) = of_nat (length es - min (length es) N) \<and>
        (\<forall>i < length es. length es \<le> i + N \<longrightarrow> q ! (i mod N) = es ! i))"

lemma history_init_holds:
  "history_holds (osal_op_history_init addr queue_size True h) (unat queue_size) []"
  by (simp add: history_holds_def osal_op_history_init_def ring_init_def)

lemma of_nat_mod_u32:
  assumes "unat (w::u32) = 2 ^ k"
  shows "unat (of_nat n :: u32) mod unat w = n mod unat w"
proof -
  have "k \<le> 32" using pow2_u32(1) [OF assms] by simp
  then have "(2::nat) ^ k dvd 2 ^ 32" by (rule le_imp_power_dvd)
  then show ?thesis by (simp add: assms unsigned_of_nat take_bit_eq_mod mod_mod_cancel)
qed

lemma history_size:
  assumes "history_holds h N es" and "N = 2 ^ k"
  shows "unat (RING_SIZE (ring_buffer h)) = min (length es) N" and "N < 2 ^ 32"
proof -
  show N: "N < 2 ^ 32"
    using assms(1) unsigned_less [of "ring_max_size (ring_buffer h)", where ?'a = nat] by (auto simp: history_holds_def)
  have "RING_SIZE (ring_buffer h) = of_nat (length es) - of_nat (length es - min (length es) N)"
    using assms(1) by (auto simp: RING_SIZE_def history_holds_def)
  also have "\<dots> = of_nat (min (length es) N)" by (simp add: of_nat_diff)
  finally show "unat (RING_SIZE (ring_buffer h)) = min (length es) N" using N by (simp add: unat_of_nat_u32)
qed

lemma history_save_holds:
  assumes h: "history_holds h N es" and k: "N = 2 ^ k" and e: "history_entry address op sec usec = Some e"
  shows "\<exists>h'. msg_op_history_save h address op sec usec = Some h' \<and> history_holds h' N (es @ [e])"
proof -
  let ?r = "ring_buffer h"
  obtain q where q: "hist_queue h = Some q" "length q = N" "\<And>i. i < length es \<Longrightarrow> length es \<le> i + N \<Longrightarrow> q ! (i mod N) = es ! i"
    and r: "rmax ?r = N" "ring_write ?r = of_nat (length es)" "ring_read ?r = of_nat (length es - min (length es) N)"
    using h by (auto simp: history_holds_def)
  define full where "full = (length es \<ge> N)"
  have N: "0 < N" "N < 2 ^ 32" using k history_size(2) [OF h k] by auto
  have size: "unat (RING_SIZE ?r) = min (length es) N" by (rule history_size(1) [OF h k])
  have le: "RING_SIZE ?r \<le> ring_max_size ?r" using size r(1) by (simp add: word_le_nat_alt)
  have room: "unat (ring_max_size ?r - RING_SIZE ?r) = N - min (length es) N"
    using le by (simp add: unat_sub size r(1))
  have over: "1 > ring_max_size ?r - RING_SIZE ?r \<longleftrightarrow> full"
    using room by (auto simp: word_less_nat_alt full_def min_def)
  define r1 where "r1 = (if full then ?r\<lparr>ring_read := ring_read ?r + 1\<rparr> else ?r)"
  have "full \<Longrightarrow> ring_max_size ?r - RING_SIZE ?r = 0" using room by (simp add: full_def unat_eq_0 [symmetric] min_def)
  then have prep: "ring_overwrite_prepare 1 ?r = (1, zero_segment\<lparr>seg_remain := 1\<rparr>, r1)"
    unfolding ring_overwrite_prepare_def Let_def RING_SIZE_def [symmetric] using over by (cases full) (simp_all add: r1_def)
  have r1: "rmax r1 = N" "ring_write r1 = of_nat (length es)" "ring_base r1 = ring_base ?r"
    "ring_read r1 = of_nat (length (es @ [e]) - min (length (es @ [e])) N)"
    using r by (auto simp: r1_def full_def min_def Suc_diff_le)
  define p where "p = length es mod N"
  have p: "p = unat (ring_write r1) mod rmax r1" "p < N"
    using of_nat_mod_u32 [of "ring_max_size r1" k "length es"] r1(1,2) k N(1) by (simp_all add: p_def)
  define r2 where "r2 = ring_write_commit (zero_segment\<lparr>seg_sz := 1\<rparr>) r1"
  have "RING_OVERWRITE_FOR_EACH 1 (\<lambda>seg _. Some (Some (ring_pt seg - ring_base ?r))) ?r None = Some (r2, Some p)"
    using wr.run_cases [of r1 k 1 p "\<lambda>seg _. Some (Some (ring_pt seg - ring_base ?r))" None] p r1(1,3) k N
    by (simp add: RING_OVERWRITE_FOR_EACH_def prep ring_run_def r2_def [symmetric] Suc_le_eq)
  moreover have "history_holds (h\<lparr>ring_buffer := r2, hist_queue := Some (q[p := e])\<rparr>) N (es @ [e])"
  proof -
    have "(q[p := e]) ! (i mod N) = (es @ [e]) ! i" if "i < length (es @ [e])" "length (es @ [e]) \<le> i + N" for i
    proof (cases "i = length es")
      case True
      then show ?thesis using p(2) q(2) by (simp add: p_def)
    next
      case False
      with that have i: "i < length es" "length es < i + N" by auto
      have "i mod N \<noteq> p"
      proof
        assume "i mod N = p"
        then have "N dvd length es - i"
          using mod_eq_dvd_iff_nat [of i "length es" N] i(1) by (simp add: p_def)
        with i show False by (auto dest: dvd_imp_le)
      qed
      with i q(3) [of i] show ?thesis by (simp add: nth_append)
    qed
    then show ?thesis
      using q(1,2) r1 by (auto simp: history_holds_def r2_def ring_write_commit_def)
  qed
  ultimately show ?thesis
    using q(1,2) p(2) e by (simp add: msg_op_history_save_def arr_set_def)
qed

text \<open>Printing shows the last operations in their order.\<close>

lemma history_print_last:
  assumes h: "history_holds h N es" and k: "N = 2 ^ k" and "hist_dump h = None"
  shows "\<exists>h'. osal_op_history_print base True h = Some h' \<and>
    osal_op_history_print_work h' = Some (drop (length es - N) es, h)"
proof -
  let ?r = "ring_buffer h"
  obtain q where q: "hist_queue h = Some q" "length q = N" "\<And>i. i < length es \<Longrightarrow> length es \<le> i + N \<Longrightarrow> q ! (i mod N) = es ! i"
    and r: "rmax ?r = N" "ring_write ?r = of_nat (length es)" "ring_read ?r = of_nat (length es - min (length es) N)"
    using h by (auto simp: history_holds_def)
  define n where "n = min (length es) N"
  have size: "unat (RING_SIZE ?r) = n" unfolding n_def by (rule history_size(1) [OF h k])
  have N: "0 < N" "N < 2 ^ 32" using k history_size(2) [OF h k] by auto
  define d where "d = ?r\<lparr>ring_base := base\<rparr>"
  define copy where "copy = take n q"
  have print: "osal_op_history_print base True h = Some (h\<lparr>hist_dump := Some (d, copy)\<rparr>)"
    using q(1,2) assms(3) size by (simp add: osal_op_history_print_def history_print_locked_def d_def copy_def mem_get_def n_def)
  have d: "rmax d = N" "ring_read d = of_nat (length es - n)" "RING_SIZE d = RING_SIZE ?r"
    using r by (simp_all add: d_def n_def RING_SIZE_def)
  have "arr_get copy ((unat (ring_read d) + i) mod rmax d) = Some (es ! (length es - n + i))" if "i < n" for i
  proof -
    have "(unat (ring_read d) + i) mod rmax d = (unat (ring_read d) mod rmax d + i) mod rmax d"
      by (simp add: mod_add_left_eq)
    also have "\<dots> = (length es - n + i) mod N"
      using of_nat_mod_u32 [of "ring_max_size d" k "length es - n"] d k by (simp add: mod_add_left_eq)
    finally have pos: "(unat (ring_read d) + i) mod rmax d = (length es - n + i) mod N" .
    have lt: "(length es - n + i) mod N < n"
    proof (cases "length es \<le> N")
      case True
      with that show ?thesis by (simp add: n_def)
    next
      case False
      with N(1) show ?thesis by (simp add: n_def)
    qed
    have "q ! ((length es - n + i) mod N) = es ! (length es - n + i)"
      using that by (intro q(3)) (auto simp: n_def)
    with lt pos q(2) show ?thesis by (simp add: copy_def arr_get_def n_def)
  qed
  moreover have "seg_remain (zero_segment\<lparr>seg_remain := RING_SIZE d\<rparr>) = (of_nat n :: u32)"
    using size d(3) by (metis ring_segment.select_convs(4) ring_segment.surjective ring_segment.update_convs(4) of_nat_unat ucast_id)
  moreover have "n < 2 ^ 32" using N by (simp add: n_def)
  moreover have kd: "unat (ring_max_size d) = 2 ^ k" using d(1) k by simp
  ultimately obtain r' where "ring_for_each ring_read_commit prep_item
      (\<lambda>seg out. do { e \<leftarrow> arr_get copy (ring_pt seg - ring_base d); Some (out @ [e]) })
      (prep_item (zero_segment\<lparr>seg_remain := RING_SIZE d\<rparr>) d) d [] =
    Some (r', [] @ map (\<lambda>i. es ! (length es - n + i)) [0..<n])"
    using items_loop [of d k _ n "\<lambda>j. arr_get copy j"] by meson
  moreover have "map (\<lambda>i. es ! (length es - n + i)) [0..<n] = drop (length es - N) es"
    by (rule nth_equalityI) (auto simp: n_def min_def)
  moreover have "h\<lparr>hist_dump := None\<rparr> = h" using assms(3) by simp
  ultimately have "osal_op_history_print_work (h\<lparr>hist_dump := Some (d, copy)\<rparr>) = Some (drop (length es - N) es, h)"
    by (simp add: osal_op_history_print_work_def RING_READ_FOR_EACH_ITEM_def ring_read_prepare_def RING_SIZE_def [symmetric] Let_def)
  with print show ?thesis by blast
qed

text \<open>A copy that is shorter than the history is read behind its end.\<close>

lemma history_print_short:
  assumes h: "history_holds h N es" and k: "N = 2 ^ k" and "hist_dump h = None"
    and size: "unat queue_size < length es" and len: "length es \<le> N"
  shows "\<exists>h'. history_print_locked queue_size base True h = Some h' \<and> osal_op_history_print_work h' = None"
proof -
  let ?r = "ring_buffer h"
  obtain q where q: "hist_queue h = Some q" "length q = N"
    and r: "rmax ?r = N" "ring_read ?r = 0"
    using h len by (auto simp: history_holds_def)
  define n where "n = length es"
  define d where "d = ?r\<lparr>ring_base := base\<rparr>"
  define copy where "copy = take (unat queue_size) q"
  have "history_print_locked queue_size base True h = Some (h\<lparr>hist_dump := Some (d, copy)\<rparr>)"
    using q size len assms(3) by (simp add: history_print_locked_def d_def copy_def mem_get_def)
  moreover have "unat (RING_SIZE d) = n" "n < 2 ^ 32"
    using history_size [OF h k] len by (simp_all add: d_def RING_SIZE_def n_def)
  then have "RING_SIZE d = of_nat n" "n < 2 ^ 32" by (metis of_nat_unat ucast_id)+
  moreover have "arr_get copy ((unat (ring_read d) + unat queue_size) mod rmax d) = None"
    using size len q r by (simp add: d_def copy_def arr_get_def)
  ultimately show ?thesis
    using items_fail [of d k "zero_segment\<lparr>seg_remain := RING_SIZE d\<rparr>" n "unat queue_size" "arr_get copy" "[]"] r(1) k size
    by (simp add: d_def osal_op_history_print_work_def RING_READ_FOR_EACH_ITEM_def ring_read_prepare_def
        RING_SIZE_def Let_def n_def)
qed

section \<open>Sequences of operations\<close>

text \<open>An operation to be saved: its address, the operation, and the time.\<close>

type_synonym saved_op = "nat \<times> msg_op \<times> u64 \<times> u64"

fun save_all :: "saved_op list \<Rightarrow> osal_op_history \<Rightarrow> osal_op_history option" where
  "save_all [] h = Some h"
| "save_all ((address, op, sec, usec) # ops) h =
     do { h \<leftarrow> msg_op_history_save h address op sec usec; save_all ops h }"

definition saved_entry :: "saved_op \<Rightarrow> osal_op_history_entry" where
  "saved_entry = (\<lambda>(address, op, sec, usec). the (history_entry address op sec usec))"

definition op_fits :: "saved_op \<Rightarrow> bool" where
  "op_fits = (\<lambda>(address, op, sec, usec). 4 \<le> length (op_data (op_op op)))"

lemma history_entry_fits:
  "op_fits (address, op, sec, usec) \<Longrightarrow> history_entry address op sec usec = Some (saved_entry (address, op, sec, usec))"
  by (auto simp: op_fits_def saved_entry_def history_entry_def arr_get_def Let_def)

lemma history_save_keeps:
  "msg_op_history_save h address op sec usec = Some h' \<Longrightarrow> hist_dump h' = hist_dump h"
  by (auto simp: msg_op_history_save_def Let_def split: option.splits Option.bind_splits)

lemma save_all_holds:
  assumes "history_holds h N es" and "N = 2 ^ k" and "\<forall>op \<in> set ops. op_fits op"
  shows "\<exists>h'. save_all ops h = Some h' \<and> history_holds h' N (es @ map saved_entry ops) \<and> hist_dump h' = hist_dump h"
  using assms
proof (induction ops arbitrary: h es)
  case (Cons op ops)
  obtain address o' sec usec where op: "op = (address, o', sec, usec)" by (cases op)
  have "history_entry address o' sec usec = Some (saved_entry op)"
    using Cons.prems(3) by (simp add: history_entry_fits op)
  from history_save_holds [OF Cons.prems(1,2) this]
  obtain h1 where h1: "msg_op_history_save h address o' sec usec = Some h1" "history_holds h1 N (es @ [saved_entry op])"
    by blast
  from Cons.IH [OF h1(2) Cons.prems(2)] Cons.prems(3) h1(1) show ?case
    by (auto simp: op history_save_keeps [OF h1(1)])
qed simp

end
