(* ===== verification/Msg_Protocol.thy ===== *)
theory Msg_Protocol
  imports Msg_Thread Op_History_Spec "HOL-Library.Multiset"
begin

text \<open>
  Any number of senders and one thread: the step relation, and the invariant that every operation of the
  thread is in one place and counts its references, also when senders stop waiting because their time
  is up or because they are killed.
\<close>

section \<open>Steps\<close>

type_synonym sender = "msg_request \<times> sender_pc"

record 's msg_sys =
  sy_ctx :: "'s msg_thread_ctx"
  sy_senders :: "sender list"
  sy_worker :: worker_pc

text \<open>What a step of the thread handles: the data of an operation and the result of its handler.\<close>

definition handled :: "'s msg_thread_ctx \<Rightarrow> worker_pc \<Rightarrow> worker_pc \<Rightarrow> (msg_op_data \<times> int) list" where
  "handled c w w' =
     (case (w, w') of (W_Run x, W_Drop y ret) \<Rightarrow> [(op_op (op_q_inst c ! x), ret)] | _ \<Rightarrow> [])"

text \<open>With \<open>faults\<close> the time of a sender may be up, and a sender may be killed while it takes the lock of a queue, but not
  while it puts an operation back.  The thread runs when its condition holds.\<close>

definition fault_ok :: "bool \<Rightarrow> sender_pc \<Rightarrow> int \<Rightarrow> bool \<Rightarrow> bool" where
  "fault_ok faults pc lk timed_out \<longleftrightarrow>
     (lk = 0 \<or> faults \<and> (\<forall>x ret. pc \<noteq> S_Free x ret)) \<and> (timed_out \<longrightarrow> faults)"

inductive msg_step :: "bool \<Rightarrow> 's msg_sys \<Rightarrow> (msg_op_data \<times> int) list \<Rightarrow> 's msg_sys \<Rightarrow> bool" for faults where
  by_sender: "i < length (sy_senders s) \<Longrightarrow> sy_senders s ! i = (rq, pc) \<Longrightarrow> fault_ok faults pc lk timed_out \<Longrightarrow>
    sender_step lk timed_out rq pc (sy_ctx s) = Some (pc', c') \<Longrightarrow> pc' \<noteq> pc \<Longrightarrow>
    msg_step faults s [] (s\<lparr>sy_ctx := c', sy_senders := (sy_senders s)[i := (rq, pc')]\<rparr>)"
| by_worker: "(sy_worker s = W_Wait \<Longrightarrow> msg_evt_wait_event_checker (sy_ctx s)) \<Longrightarrow>
    worker_step 0 sec usec (sy_worker s) (sy_ctx s) = Some (w', c') \<Longrightarrow>
    msg_step faults s (handled (sy_ctx s) (sy_worker s) w') (s\<lparr>sy_ctx := c', sy_worker := w'\<rparr>)"

inductive msg_run :: "bool \<Rightarrow> 's msg_sys \<Rightarrow> nat \<Rightarrow> (msg_op_data \<times> int) list \<Rightarrow> 's msg_sys \<Rightarrow> bool" for faults s where
  run_start: "msg_run faults s 0 [] s"
| run_step: "msg_run faults s n evs s' \<Longrightarrow> msg_step faults s' ev s'' \<Longrightarrow> msg_run faults s (Suc n) (evs @ ev) s''"

text \<open>The start: a thread that was created, and senders that have requests for it and wait for the results.\<close>

definition request_ok :: "msg_request \<Rightarrow> bool" where
  "request_ok rq \<longleftrightarrow> 0 \<le> sint (rq_opid rq) \<and> length (rq_data rq) \<le> MSG_THREAD_OP_DATA_SIZE \<and> rq_timeout rq \<noteq> 0"

definition msg_start :: "msg_request list \<Rightarrow> 's msg_sys \<Rightarrow> bool" where
  "msg_start rqs s \<longleftrightarrow>
     (\<exists>ok addr funcs op_size d. msg_thread_init 0 0 ok addr funcs op_size d = Some (0, sy_ctx s) \<and> op_size \<le> int (length funcs)) \<and>
     sy_senders s = map (\<lambda>rq. (rq, S_Start)) rqs \<and> (\<forall>rq \<in> set rqs. request_ok rq) \<and> sy_worker s = W_Wait"

section \<open>Places of an operation\<close>

text \<open>A sender or the thread owns an operation that no other may touch, or holds a reference to it.\<close>

fun own_of :: "sender_pc \<Rightarrow> nat option" where
  "own_of (S_Fill x) = Some x"
| "own_of (S_Enqueue x) = Some x"
| "own_of (S_Free x ret) = Some x"
| "own_of pc = None"

fun ref_of :: "sender_pc \<Rightarrow> nat option" where
  "ref_of (S_Trigger x) = Some x"
| "ref_of (S_Wait x) = Some x"
| "ref_of (S_Result x) = Some x"
| "ref_of (S_Drop x ret) = Some x"
| "ref_of pc = None"

fun wown_of :: "worker_pc \<Rightarrow> nat option" where
  "wown_of (W_Free x) = Some x"
| "wown_of w = None"

fun wref_of :: "worker_pc \<Rightarrow> nat option" where
  "wref_of (W_Run x) = Some x"
| "wref_of (W_Drop x ret) = Some x"
| "wref_of w = None"

text \<open>After it has given its reference up, the thread still uses the operation.\<close>

fun stale_of :: "worker_pc \<Rightarrow> nat option" where
  "stale_of (W_Check x ret) = Some x"
| "stale_of (W_Result x ret) = Some x"
| "stale_of (W_Raise x) = Some x"
| "stale_of w = None"

definition owns :: "sender list \<Rightarrow> nat \<Rightarrow> nat" where
  "owns ss y = sum_list (map (\<lambda>(rq, pc). of_bool (own_of pc = Some y)) ss)"
definition srefs :: "sender list \<Rightarrow> nat \<Rightarrow> nat" where
  "srefs ss y = sum_list (map (\<lambda>(rq, pc). of_bool (ref_of pc = Some y)) ss)"
definition wrefs :: "'s msg_thread_ctx \<Rightarrow> worker_pc \<Rightarrow> nat \<Rightarrow> nat" where
  "wrefs c w y = count_list (q_items (active_op_q c)) y + of_bool (wref_of w = Some y)"
definition frees :: "'s msg_thread_ctx \<Rightarrow> nat \<Rightarrow> nat" where
  "frees c y = count_list (q_items (free_op_q c)) y"

lemma sum_list_at:
  fixes f :: "'a \<Rightarrow> 'b::comm_monoid_add"
  shows "i < length xs \<Longrightarrow> sum_list (map f (xs[i := v])) + f (xs ! i) = sum_list (map f xs) + f v"
proof (induction xs arbitrary: i)
  case (Cons a xs)
  show ?case
  proof (cases i)
    case 0
    then show ?thesis by (simp add: add_ac)
  next
    case (Suc j)
    then show ?thesis using Cons.IH [of j] Cons.prems by (simp add: add_ac)
  qed
qed simp

lemma sum_list_step:
  fixes f f' :: "'a \<Rightarrow> 'b::comm_monoid_add"
  assumes i: "i < length xs" and same: "\<And>j. j < length xs \<Longrightarrow> j \<noteq> i \<Longrightarrow> f' (xs ! j) = f (xs ! j)"
  shows "sum_list (map f' (xs[i := v])) + f (xs ! i) = sum_list (map f xs) + f' v"
proof -
  have "map f' (xs[i := v]) = (map f xs)[i := f' v]"
    using assms by (intro nth_equalityI) (auto simp: nth_list_update)
  then show ?thesis using sum_list_at [of i "map f xs" id "f' v"] i by simp
qed

lemma owns_update:
  "i < length ss \<Longrightarrow> ss ! i = (rq, pc) \<Longrightarrow>
     owns (ss[i := (rq, pc')]) y + of_bool (own_of pc = Some y) = owns ss y + of_bool (own_of pc' = Some y)"
  unfolding owns_def by (frule sum_list_at [where f = "\<lambda>(rq, pc). of_bool (own_of pc = Some y)" and v = "(rq, pc')"]) simp

lemma srefs_update:
  "i < length ss \<Longrightarrow> ss ! i = (rq, pc) \<Longrightarrow>
     srefs (ss[i := (rq, pc')]) y + of_bool (ref_of pc = Some y) = srefs ss y + of_bool (ref_of pc' = Some y)"
  unfolding srefs_def by (frule sum_list_at [where f = "\<lambda>(rq, pc). of_bool (ref_of pc = Some y)" and v = "(rq, pc')"]) simp

lemma owns_pos: "(rq, pc) \<in> set ss \<Longrightarrow> own_of pc = Some y \<Longrightarrow> 0 < owns ss y"
  by (rule ccontr) (force simp: owns_def)

lemma srefs_pos: "(rq, pc) \<in> set ss \<Longrightarrow> ref_of pc = Some y \<Longrightarrow> 0 < srefs ss y"
  by (rule ccontr) (force simp: srefs_def)

abbreviation (input) inst :: "'s msg_thread_ctx \<Rightarrow> nat \<Rightarrow> msg_op" where "inst c x \<equiv> op_q_inst c ! x"
abbreviation (input) tmo :: "'s msg_thread_ctx \<Rightarrow> nat \<Rightarrow> u32" where "tmo c x \<equiv> timeoutValue (op_signal (inst c x))"

definition data_ok :: "msg_op_data \<Rightarrow> bool" where
  "data_ok d \<longleftrightarrow> 0 \<le> sint (op_id d) \<and> 4 \<le> length (op_data d)"

definition places :: "'s msg_thread_ctx \<Rightarrow> sender list \<Rightarrow> worker_pc \<Rightarrow> nat \<Rightarrow> nat" where
  "places c ss w y = frees c y + owns ss y + of_bool (wown_of w = Some y) + max (srefs ss y) (wrefs c w y)"

definition history_ok :: "osal_op_history \<Rightarrow> bool" where
  "history_ok h \<longleftrightarrow> hist_queue h = None \<or> (\<exists>es. history_holds h 16 es)"

definition ctx_ok :: "'s msg_thread_ctx \<Rightarrow> bool" where
  "ctx_ok c \<longleftrightarrow> q_ok (free_op_q c) \<and> q_ok (active_op_q c) \<and> unat (q_size (free_op_q c)) = 64 \<and> unat (q_size (active_op_q c)) = 64 \<and>
     length (op_q_inst c) = 64 \<and> op_func_size c \<le> int (length (op_func c)) \<and> history_ok (op_history c)"

definition own_inv :: "'s msg_thread_ctx \<Rightarrow> sender list \<Rightarrow> worker_pc \<Rightarrow> bool" where
  "own_inv c ss w \<longleftrightarrow> ctx_ok c \<and> (\<forall>y. places c ss w y = of_bool (y < 64)) \<and>
     (\<forall>y. 0 < srefs ss y + wrefs c w y \<longrightarrow>
        op_ref_count (inst c y) = int (srefs ss y + wrefs c w y) \<and> tmo c y \<noteq> 0) \<and>
     (\<forall>rq x. (rq, S_Enqueue x) \<in> set ss \<longrightarrow> op_ref_count (inst c x) = 2 \<and> tmo c x \<noteq> 0 \<and> data_ok (op_op (inst c x))) \<and>
     (\<forall>y. y \<in> set (q_items (active_op_q c)) \<or> w = W_Run y \<longrightarrow> data_ok (op_op (inst c y))) \<and>
     (\<forall>y. stale_of w = Some y \<longrightarrow> y < 64) \<and> (\<forall>(rq, pc) \<in> set ss. request_ok rq)"


section \<open>Keeping the invariant\<close>

lemma own_inv_ctx: "own_inv c ss w \<Longrightarrow> ctx_ok c"
  and own_inv_places: "own_inv c ss w \<Longrightarrow> places c ss w y = of_bool (y < 64)"
  and own_inv_refs: "own_inv c ss w \<Longrightarrow> 0 < srefs ss y + wrefs c w y \<Longrightarrow>
      op_ref_count (inst c y) = int (srefs ss y + wrefs c w y) \<and> tmo c y \<noteq> 0"
  and own_inv_requests: "own_inv c ss w \<Longrightarrow> (rq, pc) \<in> set ss \<Longrightarrow> request_ok rq"
  and own_inv_enqueue: "own_inv c ss w \<Longrightarrow> (rq, S_Enqueue y) \<in> set ss \<Longrightarrow>
      op_ref_count (inst c y) = 2 \<and> tmo c y \<noteq> 0 \<and> data_ok (op_op (inst c y))"
  and own_inv_data: "own_inv c ss w \<Longrightarrow> y \<in> set (q_items (active_op_q c)) \<or> w = W_Run y \<Longrightarrow> data_ok (op_op (inst c y))"
  and own_inv_stale: "own_inv c ss w \<Longrightarrow> stale_of w = Some y \<Longrightarrow> y < 64"
  by (auto simp: own_inv_def)

text \<open>What is known of an operation that somebody owns or refers to.\<close>

lemma own_at:
  assumes "own_inv c ss w" and "(rq, pc) \<in> set ss" and "own_of pc = Some x"
  shows "x < 64" "frees c x = 0" "owns ss x = 1" "wown_of w \<noteq> Some x" "srefs ss x = 0" "wrefs c w x = 0"
  using own_inv_places [OF assms(1), of x] owns_pos [OF assms(2,3)]
  by (auto simp: places_def max_def of_bool_def split: if_splits)

lemma sref_at:
  assumes "own_inv c ss w" and "(rq, pc) \<in> set ss" and "ref_of pc = Some x"
  shows "x < 64" "frees c x = 0" "owns ss x = 0" "wown_of w \<noteq> Some x" "srefs ss x = 1" "wrefs c w x \<le> 1"
    "op_ref_count (inst c x) = 1 + int (wrefs c w x)" "tmo c x \<noteq> 0"
proof -
  have "0 < srefs ss x" by (rule srefs_pos [OF assms(2,3)])
  then show *: "x < 64" "frees c x = 0" "owns ss x = 0" "wown_of w \<noteq> Some x" "srefs ss x = 1" "wrefs c w x \<le> 1"
    using own_inv_places [OF assms(1), of x] by (auto simp: places_def max_def of_bool_def split: if_splits)
  show "op_ref_count (inst c x) = 1 + int (wrefs c w x)" "tmo c x \<noteq> 0"
    using own_inv_refs [OF assms(1), of x] *(5) by simp_all
qed

lemma wref_at:
  assumes "own_inv c ss w" and "0 < wrefs c w x"
  shows "x < 64" "frees c x = 0" "owns ss x = 0" "wown_of w \<noteq> Some x" "wrefs c w x = 1" "srefs ss x \<le> 1"
    "op_ref_count (inst c x) = 1 + int (srefs ss x)" "tmo c x \<noteq> 0"
proof -
  show *: "x < 64" "frees c x = 0" "owns ss x = 0" "wown_of w \<noteq> Some x" "wrefs c w x = 1" "srefs ss x \<le> 1"
    using assms(2) own_inv_places [OF assms(1), of x] by (auto simp: places_def max_def of_bool_def split: if_splits)
  show "op_ref_count (inst c x) = 1 + int (srefs ss x)" "tmo c x \<noteq> 0"
    using own_inv_refs [OF assms(1), of x] *(5) by simp_all
qed

lemma wown_at:
  assumes "own_inv c ss w" and "wown_of w = Some x"
  shows "x < 64" "frees c x = 0" "owns ss x = 0" "srefs ss x = 0" "wrefs c w x = 0"
  using assms(2) own_inv_places [OF assms(1), of x] by (auto simp: places_def of_bool_def split: if_splits)

lemma free_at:
  assumes "own_inv c ss w" and "x \<in> set (q_items (free_op_q c))"
  shows "x < 64" "frees c x = 1" "owns ss x = 0" "wown_of w \<noteq> Some x" "srefs ss x = 0" "wrefs c w x = 0"
proof -
  have "0 < frees c x" using assms(2) by (simp add: frees_def count_list_0_iff [symmetric] gr0_conv_Suc) (metis count_list_0_iff not0_implies_Suc)
  then show "x < 64" "frees c x = 1" "owns ss x = 0" "wown_of w \<noteq> Some x" "srefs ss x = 0" "wrefs c w x = 0"
    using own_inv_places [OF assms(1), of x] by (auto simp: places_def max_def of_bool_def split: if_splits)
qed

text \<open>A step that does not move an operation.\<close>

lemma own_inv_quiet:
  assumes "own_inv c ss w" and "ctx_ok c'"
    and "q_items (free_op_q c') = q_items (free_op_q c)" "q_items (active_op_q c') = q_items (active_op_q c)"
    and "\<And>y. op_op (inst c' y) = op_op (inst c y) \<and> op_ref_count (inst c' y) = op_ref_count (inst c y) \<and> tmo c' y = tmo c y"
    and "\<And>y. owns ss' y = owns ss y" "\<And>y. srefs ss' y = srefs ss y"
    and "wown_of w' = wown_of w" "wref_of w' = wref_of w"
    and "\<And>rq y. (rq, S_Enqueue y) \<in> set ss' \<Longrightarrow> (rq, S_Enqueue y) \<in> set ss" "\<And>y. w' = W_Run y \<Longrightarrow> w = W_Run y"
    and "\<And>y. stale_of w' = Some y \<Longrightarrow> y < 64" "\<forall>(rq, pc) \<in> set ss'. request_ok rq"
  shows "own_inv c' ss' w'"
  using assms(1) unfolding own_inv_def places_def wrefs_def frees_def assms(3,4,6-9)
  using assms(2,5,10-13) by simp blast

text \<open>A step that moves the operation \<open>x\<close>.\<close>

lemma own_inv_move:
  assumes "own_inv c ss w" and "ctx_ok c'" and "x < 64"
    and "\<And>y. y \<noteq> x \<Longrightarrow> inst c' y = inst c y"
    and "\<And>y. y \<noteq> x \<Longrightarrow> frees c' y = frees c y" "\<And>y. y \<noteq> x \<Longrightarrow> owns ss' y = owns ss y"
    and "\<And>y. y \<noteq> x \<Longrightarrow> srefs ss' y = srefs ss y" "\<And>y. y \<noteq> x \<Longrightarrow> wrefs c' w' y = wrefs c w y"
    and "\<And>y. y \<noteq> x \<Longrightarrow> wown_of w' = Some y \<longleftrightarrow> wown_of w = Some y"
    and "\<And>rq y. y \<noteq> x \<Longrightarrow> (rq, S_Enqueue y) \<in> set ss' \<Longrightarrow> (rq, S_Enqueue y) \<in> set ss"
    and "\<And>y. y \<noteq> x \<Longrightarrow> y \<in> set (q_items (active_op_q c')) \<or> w' = W_Run y \<Longrightarrow> y \<in> set (q_items (active_op_q c)) \<or> w = W_Run y"
    and "\<And>y. stale_of w' = Some y \<Longrightarrow> y < 64" and "\<forall>(rq, pc) \<in> set ss'. request_ok rq"
    and "places c' ss' w' x = 1"
    and "0 < srefs ss' x + wrefs c' w' x \<Longrightarrow>
      op_ref_count (inst c' x) = int (srefs ss' x + wrefs c' w' x) \<and> tmo c' x \<noteq> 0"
    and "\<And>rq. (rq, S_Enqueue x) \<in> set ss' \<Longrightarrow> op_ref_count (inst c' x) = 2 \<and> tmo c' x \<noteq> 0 \<and> data_ok (op_op (inst c' x))"
    and "x \<in> set (q_items (active_op_q c')) \<or> w' = W_Run x \<Longrightarrow> data_ok (op_op (inst c' x))"
  shows "own_inv c' ss' w'"
  unfolding own_inv_def
proof (intro conjI allI impI)
  have inv: "own_inv c ss w" by fact
  show "places c' ss' w' y = of_bool (y < 64)" for y
    using own_inv_places [OF inv, of y] assms(3,5-9,14) by (cases "y = x") (simp_all add: places_def)
  show "op_ref_count (inst c' y) = int (srefs ss' y + wrefs c' w' y)" "tmo c' y \<noteq> 0"
    if "0 < srefs ss' y + wrefs c' w' y" for y
    using own_inv_refs [OF inv, of y] assms(4,7,8,15) that by (cases "y = x"; simp)+
  show "op_ref_count (inst c' y) = 2" "tmo c' y \<noteq> 0" "data_ok (op_op (inst c' y))"
    if e: "(rq, S_Enqueue y) \<in> set ss'" for rq y
  proof -
    have "op_ref_count (inst c' y) = 2 \<and> tmo c' y \<noteq> 0 \<and> data_ok (op_op (inst c' y))"
    proof (cases "y = x")
      case True
      with assms(16) e show ?thesis by simp
    next
      case False
      with own_inv_enqueue [OF inv assms(10) [OF False e]] assms(4) show ?thesis by simp
    qed
    then show "op_ref_count (inst c' y) = 2" "tmo c' y \<noteq> 0" "data_ok (op_op (inst c' y))" by simp_all
  qed
  show "data_ok (op_op (inst c' y))" if d: "y \<in> set (q_items (active_op_q c')) \<or> w' = W_Run y" for y
  proof (cases "y = x")
    case True
    with assms(17) d show ?thesis by simp
  next
    case False
    with own_inv_data [OF inv assms(11) [OF False d]] assms(4) show ?thesis by simp
  qed
qed (use assms(2,12,13) in auto)

end
