(* ===== verification/Msg_Protocol_Inv.thy ===== *)
theory Msg_Protocol_Inv
  imports Msg_Protocol
begin

text \<open>
  Every step of a sender and of the thread stays inside of the objects and keeps the places of the
  operations, with and without faults.
\<close>

section \<open>Operations in the context\<close>

lemma upd_op_eq: "x < length (op_q_inst c) \<Longrightarrow> upd_op x f c = Some (c\<lparr>op_q_inst := (op_q_inst c)[x := f (inst c x)]\<rparr>)"
  by (simp add: upd_op_def arr_get_def arr_set_def)

lemma dec_and_test_eq:
  "x < length (op_q_inst c) \<Longrightarrow> dec_and_test x c =
     Some (op_ref_count (inst c x) = 1,
           c\<lparr>op_q_inst := (op_q_inst c)[x := (inst c x)\<lparr>op_ref_count := op_ref_count (inst c x) - 1\<rparr>]\<rparr>)"
  by (simp add: dec_and_test_def upd_op_eq arr_get_def)

lemma ctx_ok_inst [simp]: "length xs = length (op_q_inst c) \<Longrightarrow> ctx_ok (c\<lparr>op_q_inst := xs\<rparr>) \<longleftrightarrow> ctx_ok c"
  by (simp add: ctx_ok_def)

lemma counts_inst [simp]:
  "frees (c\<lparr>op_q_inst := xs\<rparr>) y = frees c y" "wrefs (c\<lparr>op_q_inst := xs\<rparr>) w y = wrefs c w y"
  by (simp_all add: frees_def wrefs_def)

lemma ctx_length: "ctx_ok c \<Longrightarrow> length (op_q_inst c) = 64"
  by (simp add: ctx_ok_def)

lemma wrefs_pos: "0 < wrefs c w y \<longleftrightarrow> y \<in> set (q_items (active_op_q c)) \<or> wref_of w = Some y"
  using count_list_0_iff [of "q_items (active_op_q c)" y] by (auto simp: wrefs_def)

lemma not_active: "wrefs c w x = 0 \<Longrightarrow> x \<notin> set (q_items (active_op_q c)) \<and> wref_of w \<noteq> Some x"
  using wrefs_pos [of c w x] by simp

lemma in_update: "p \<in> set (ss[i := v]) \<Longrightarrow> p = v \<or> p \<in> set ss"
  using set_update_subset_insert [of ss i v] by blast

text \<open>Every operation is in one place, so a queue of 64 has room for one that is somewhere else.\<close>

lemma room:
  fixes x :: nat
  assumes "\<And>y. count_list xs y \<le> of_bool (y < 64)" and "x \<notin> set xs" and "x < 64"
  shows "length xs < 64"
proof -
  have le: "count_list xs y \<le> 1" for y using assms(1) [of y] by (auto simp: of_bool_def split: if_splits)
  have "count (mset xs) y = (if y \<in> set xs then 1 else 0)" for y
    using le [of y] count_list_0_iff [of xs y] by (auto simp: count_mset)
  then have "distinct xs" by (simp add: distinct_count_atmost_1)
  moreover have "set xs \<subseteq> {..<64} - {x}"
  proof
    fix y assume "y \<in> set xs"
    moreover from this have "count_list xs y \<noteq> 0" by (simp add: count_list_0_iff)
    ultimately show "y \<in> {..<64} - {x}" using assms(1) [of y] assms(2) by (cases "y < 64") auto
  qed
  then have "card (set xs) \<le> card ({..<64} - {x})" by (intro card_mono) auto
  then have "card (set xs) < 64" using assms(3) by simp
  ultimately show ?thesis using distinct_card [of xs] by simp
qed

lemma free_room:
  assumes "own_inv c ss w" and "frees c x = 0" and "x < 64"
  shows "length (q_items (free_op_q c)) < 64"
proof (rule room [of _ x])
  show "count_list (q_items (free_op_q c)) y \<le> of_bool (y < 64)" for y
    using own_inv_places [OF assms(1), of y] by (simp add: places_def frees_def)
qed (use assms in \<open>simp_all add: frees_def count_list_0_iff\<close>)

lemma active_room:
  assumes "own_inv c ss w" and "wrefs c w x = 0" and "x < 64"
  shows "length (q_items (active_op_q c)) < 64"
proof (rule room [of _ x])
  show "count_list (q_items (active_op_q c)) y \<le> of_bool (y < 64)" for y
    using own_inv_places [OF assms(1), of y] by (simp add: places_def wrefs_def)
qed (use assms in \<open>simp_all add: wrefs_def count_list_0_iff\<close>)

section \<open>Senders\<close>

lemma own_inv_sender:
  assumes inv: "own_inv c ss w" and i: "i < length ss" "ss ! i = (rq, pc)"
    and c': "ctx_ok c'" and x: "x < 64"
    and pc: "own_of pc \<in> {None, Some x}" "ref_of pc \<in> {None, Some x}" "own_of pc' \<in> {None, Some x}" "ref_of pc' \<in> {None, Some x}"
    and same: "\<And>y. y \<noteq> x \<Longrightarrow> inst c' y = inst c y"
      "\<And>y. y \<noteq> x \<Longrightarrow> frees c' y = frees c y" "\<And>y. y \<noteq> x \<Longrightarrow> wrefs c' w y = wrefs c w y"
    and at: "places c' (ss[i := (rq, pc')]) w x = 1"
      "0 < srefs (ss[i := (rq, pc')]) x + wrefs c' w x \<Longrightarrow>
        op_ref_count (inst c' x) = int (srefs (ss[i := (rq, pc')]) x + wrefs c' w x) \<and> tmo c' x \<noteq> 0"
      "owns (ss[i := (rq, pc')]) x = 0 \<or> owns ss x = 0 \<and> pc' \<noteq> S_Enqueue x \<or>
        op_ref_count (inst c' x) = 2 \<and> tmo c' x \<noteq> 0 \<and> data_ok (op_op (inst c' x))"
      "x \<in> set (q_items (active_op_q c')) \<or> w = W_Run x \<Longrightarrow> data_ok (op_op (inst c' x))"
  shows "own_inv c' (ss[i := (rq, pc')]) w"
proof (rule own_inv_move [OF inv c' x same(1,2) _ _ same(3) _ _ _ own_inv_stale [OF inv] _ at(1,2) _ at(4)])
  let ?ss = "ss[i := (rq, pc')]"
  show "owns ?ss y = owns ss y" "srefs ?ss y = srefs ss y" if "y \<noteq> x" for y
    using owns_update [OF i, of pc' y] srefs_update [OF i, of pc' y] pc that by (auto split: if_splits)
  show "(rq', S_Enqueue y) \<in> set ss" if "y \<noteq> x" "(rq', S_Enqueue y) \<in> set ?ss" for rq' y
    using in_update [OF that(2)] pc(3) that(1) by auto
  show "y \<in> set (q_items (active_op_q c)) \<or> w = W_Run y"
    if "y \<noteq> x" "y \<in> set (q_items (active_op_q c')) \<or> w = W_Run y" for y
  proof -
    have "0 < wrefs c' w y" using that(2) by (auto simp: wrefs_pos)
    then have "0 < wrefs c w y" using same(3) that(1) by simp
    have "count_list (q_items (active_op_q c')) y = count_list (q_items (active_op_q c)) y"
      using same(3) [OF that(1)] by (simp add: wrefs_def)
    with that(2) show ?thesis by (metis count_list_0_iff)
  qed
  show "\<forall>(rq, pc) \<in> set ?ss. request_ok rq"
    using own_inv_requests [OF inv] i nth_mem [OF i(1)] by (auto dest!: in_update)
  show "op_ref_count (inst c' x) = 2 \<and> tmo c' x \<noteq> 0 \<and> data_ok (op_op (inst c' x))"
    if "(rq', S_Enqueue x) \<in> set ?ss" for rq'
    using at(3) owns_pos [OF that, of x] in_update [OF that] owns_pos [of rq' "S_Enqueue x" ss x] by auto
qed simp_all

lemma own_inv_still:
  assumes inv: "own_inv c ss w" and i: "i < length ss" "ss ! i = (rq, pc)"
    and "own_of pc' = own_of pc" "ref_of pc' = ref_of pc" "\<And>x. pc' \<noteq> S_Enqueue x"
  shows "own_inv c (ss[i := (rq, pc')]) w"
proof (rule own_inv_quiet [OF inv own_inv_ctx [OF inv]])
  show "owns (ss[i := (rq, pc')]) y = owns ss y" "srefs (ss[i := (rq, pc')]) y = srefs ss y" for y
    using owns_update [OF i, of pc' y] srefs_update [OF i, of pc' y] assms(4,5) by simp_all
  show "(rq', S_Enqueue y) \<in> set ss" if "(rq', S_Enqueue y) \<in> set (ss[i := (rq, pc')])" for rq' y
    using in_update [OF that] assms(6) by auto
  show "\<forall>(rq, pc) \<in> set (ss[i := (rq, pc')]). request_ok rq"
    using own_inv_requests [OF inv] i nth_mem [OF i(1)] by (auto dest!: in_update)
qed (use own_inv_stale [OF inv] in simp_all)

lemma request_op_facts:
  assumes "request_ok rq"
  shows "op_ref_count (request_op rq) = 2" "timeoutValue (op_signal (request_op rq)) \<noteq> 0"
    "op_op (request_op rq) = request_data rq" "data_ok (request_data rq)" "comp_done (op_signal (request_op rq)) = 0"
  using assms by (auto simp: request_op_def request_ok_def request_data_def zero_op_def data_ok_def Let_def
      osal_signal_init_def MSG_THREAD_OP_DATA_SIZE_def)

lemma start_step_inv:
  assumes inv: "own_inv c ss w" and i: "i < length ss" "ss ! i = (rq, S_Start)"
  shows "\<exists>pc' c'. sender_step lk to rq S_Start c = Some (pc', c') \<and> own_inv c' (ss[i := (rq, pc')]) w"
proof -
  have ok: "ctx_ok c" by (rule own_inv_ctx [OF inv])
  have noop: "own_inv c (ss[i := (rq, S_NoOp)]) w" by (rule own_inv_still [OF inv i]) simp_all
  show ?thesis
  proof (cases "lk = 0")
    case False
    then show ?thesis using noop by (simp add: get_locked)
  next
    case True
    have "q_ok (free_op_q c)" using ok by (simp add: ctx_ok_def)
    then show ?thesis
    proof (cases rule: opq.get_total)
      case 1
      then show ?thesis using noop True by simp
    next
      case (2 x q')
      let ?c = "c\<lparr>free_op_q := q'\<rparr>"
      have f: "x < 64" "frees c x = 1" "owns ss x = 0" "wown_of w \<noteq> Some x" "srefs ss x = 0" "wrefs c w x = 0"
        using free_at [OF inv, of x] 2(3) by simp_all
      have w: "wrefs ?c w y = wrefs c w y" for y by (simp add: wrefs_def)
      have fr: "frees c y = frees ?c y + of_bool (x = y)" for y using 2(3) by (simp add: frees_def)
      have "own_inv ?c (ss[i := (rq, S_Fill x)]) w"
      proof (rule own_inv_sender [OF inv i _ f(1)])
        show "ctx_ok ?c" using ok 2(2,4) by (simp add: ctx_ok_def)
        show "places ?c (ss[i := (rq, S_Fill x)]) w x = 1"
          using owns_update [OF i, of "S_Fill x" x] srefs_update [OF i, of "S_Fill x" x] f fr [of x] by (simp add: places_def w)
        show "op_ref_count (inst ?c x) = int (srefs (ss[i := (rq, S_Fill x)]) x + wrefs ?c w x) \<and> tmo ?c x \<noteq> 0"
          if "0 < srefs (ss[i := (rq, S_Fill x)]) x + wrefs ?c w x"
          using srefs_update [OF i, of "S_Fill x" x] f that by (simp add: w)
        show "data_ok (op_op (inst ?c x))" if "x \<in> set (q_items (active_op_q ?c)) \<or> w = W_Run x"
          using not_active [OF f(6)] that by auto
        show "frees ?c y = frees c y" if "y \<noteq> x" for y using fr [of y] that by simp
      qed (simp_all add: f w)
      then show ?thesis using 2(1) True by simp
    qed
  qed
qed

text \<open>The counts at the operation \<open>x\<close> of a sender before and after its step.\<close>

lemma counts_at:
  assumes "i < length ss" "ss ! i = (rq, pc)"
  shows "owns (ss[i := (rq, pc')]) x = owns ss x + of_bool (own_of pc' = Some x) - of_bool (own_of pc = Some x)"
    and "srefs (ss[i := (rq, pc')]) x = srefs ss x + of_bool (ref_of pc' = Some x) - of_bool (ref_of pc = Some x)"
  using owns_update [OF assms, of pc' x] srefs_update [OF assms, of pc' x] by simp_all

lemma fill_step_inv:
  assumes inv: "own_inv c ss w" and i: "i < length ss" "ss ! i = (rq, S_Fill x)"
  shows "\<exists>pc' c'. sender_step lk to rq (S_Fill x) c = Some (pc', c') \<and> own_inv c' (ss[i := (rq, pc')]) w"
proof -
  have m: "(rq, S_Fill x) \<in> set ss" using i nth_mem by metis
  note a = own_at [OF inv m, of x, simplified]
  have ok: "ctx_ok c" by (rule own_inv_ctx [OF inv])
  have x: "x < length (op_q_inst c)" using a(1) ctx_length [OF ok] by simp
  let ?c = "c\<lparr>op_q_inst := (op_q_inst c)[x := request_op rq]\<rparr>"
  have rq: "request_ok rq" by (rule own_inv_requests [OF inv m])
  have "own_inv ?c (ss[i := (rq, S_Enqueue x)]) w"
  proof (rule own_inv_sender [OF inv i _ a(1)])
    show "places ?c (ss[i := (rq, S_Enqueue x)]) w x = 1"
      using a by (simp add: places_def counts_at [OF i])
  qed (use a x ok rq not_active [OF a(6)] in \<open>auto simp: counts_at [OF i] request_op_facts\<close>)
  then show ?thesis using x by (simp add: upd_op_eq)
qed

lemma enqueue_step_inv:
  assumes inv: "own_inv c ss w" and i: "i < length ss" "ss ! i = (rq, S_Enqueue x)"
  shows "\<exists>pc' c'. sender_step lk to rq (S_Enqueue x) c = Some (pc', c') \<and> own_inv c' (ss[i := (rq, pc')]) w"
proof -
  have m: "(rq, S_Enqueue x) \<in> set ss" using i nth_mem by metis
  note a = own_at [OF inv m, of x, simplified]
  note e = own_inv_enqueue [OF inv m]
  have ok: "ctx_ok c" by (rule own_inv_ctx [OF inv])
  have x: "x < length (op_q_inst c)" using a(1) ctx_length [OF ok] by simp
  show ?thesis
  proof (cases "lk = 0")
    case False
    let ?c = "c\<lparr>op_q_inst := (op_q_inst c)[x := (inst c x)\<lparr>op_ref_count := op_ref_count (inst c x) - 1\<rparr>]\<rparr>"
    have "own_inv ?c (ss[i := (rq, S_Drop x (- 2))]) w"
    proof (rule own_inv_sender [OF inv i _ a(1)])
      show "places ?c (ss[i := (rq, S_Drop x (- 2))]) w x = 1"
        using a by (simp add: places_def counts_at [OF i])
    qed (use a x ok e not_active [OF a(6)] in \<open>auto simp: counts_at [OF i]\<close>)
    then show ?thesis using x False by (simp add: put_locked dec_and_test_eq)
  next
    case True
    have "length (q_items (active_op_q c)) < unat (q_size (active_op_q c))"
      using active_room [OF inv a(6,1)] ok by (simp add: ctx_ok_def)
    then obtain q' where q': "msg_evt_put_op_to_q 0 (active_op_q c) (Some x) = Some (0, q')" "q_ok q'"
      "q_items q' = q_items (active_op_q c) @ [x]" "unat (q_size q') = unat (q_size (active_op_q c))"
      using opq.put_room [of "active_op_q c" x] ok by (auto simp: ctx_ok_def)
    let ?c = "c\<lparr>active_op_q := q'\<rparr>"
    have w: "wrefs ?c w y = wrefs c w y + of_bool (x = y)" for y using q'(3) by (simp add: wrefs_def)
    have "own_inv ?c (ss[i := (rq, S_Trigger x)]) w"
    proof (rule own_inv_sender [OF inv i _ a(1)])
      show "places ?c (ss[i := (rq, S_Trigger x)]) w x = 1"
        using a by (simp add: places_def counts_at [OF i] frees_def w)
      show "ctx_ok ?c" using ok q'(2,4) by (simp add: ctx_ok_def)
    qed (use a e in \<open>auto simp: counts_at [OF i] frees_def w\<close>)
    then show ?thesis using True q'(1) by simp
  qed
qed

lemma wait_step_inv:
  assumes inv: "own_inv c ss w" and i: "i < length ss" "ss ! i = (rq, S_Wait x)"
  shows "\<exists>pc' c'. sender_step lk to rq (S_Wait x) c = Some (pc', c') \<and> own_inv c' (ss[i := (rq, pc')]) w"
proof -
  have m: "(rq, S_Wait x) \<in> set ss" using i nth_mem by metis
  note a = sref_at [OF inv m, of x, simplified]
  have ok: "ctx_ok c" by (rule own_inv_ctx [OF inv])
  have x: "x < length (op_q_inst c)" using a(1) ctx_length [OF ok] by simp
  show ?thesis
  proof (cases "osal_wait_for_signal_timeout to (op_signal (inst c x))")
    case None
    moreover have "ss[i := (rq, S_Wait x)] = ss" using i(2) by (metis list_update_id)
    ultimately show ?thesis using inv x by (simp add: arr_get_def)
  next
    case (Some s)
    let ?c = "c\<lparr>op_q_inst := (op_q_inst c)[x := (inst c x)\<lparr>op_signal := s\<rparr>]\<rparr>"
    have s: "timeoutValue s = tmo c x"
      using Some by (auto simp: osal_wait_for_signal_timeout_def split: if_splits)
    have "own_inv c (ss[i := (rq, S_Result x)]) w" by (rule own_inv_still [OF inv i]) simp_all
    then have "own_inv ?c (ss[i := (rq, S_Result x)]) w"
    proof (rule own_inv_quiet)
      show "op_op (inst ?c y) = op_op (inst c y) \<and> op_ref_count (inst ?c y) = op_ref_count (inst c y) \<and> tmo ?c y = tmo c y" for y
        using x s by (simp add: nth_list_update)
    qed (use ok own_inv_stale [OF inv] own_inv_requests [OF \<open>own_inv c (ss[i := (rq, S_Result x)]) w\<close>] in auto)
    then show ?thesis using x Some by (simp add: arr_get_def upd_op_eq)
  qed
qed

lemma drop_step_inv:
  assumes inv: "own_inv c ss w" and i: "i < length ss" "ss ! i = (rq, S_Drop x ret)"
  shows "\<exists>pc' c'. sender_step lk to rq (S_Drop x ret) c = Some (pc', c') \<and> own_inv c' (ss[i := (rq, pc')]) w"
proof -
  have m: "(rq, S_Drop x ret) \<in> set ss" using i nth_mem by metis
  note a = sref_at [OF inv m, of x, simplified]
  have ok: "ctx_ok c" by (rule own_inv_ctx [OF inv])
  have x: "x < length (op_q_inst c)" using a(1) ctx_length [OF ok] by simp
  let ?c = "c\<lparr>op_q_inst := (op_q_inst c)[x := (inst c x)\<lparr>op_ref_count := op_ref_count (inst c x) - 1\<rparr>]\<rparr>"
  let ?pc = "if op_ref_count (inst c x) = 1 then S_Free x ret else S_Done ret"
  have d: "data_ok (op_op (inst c x))" if "x \<in> set (q_items (active_op_q c)) \<or> w = W_Run x"
    using own_inv_data [OF inv that] .
  have "own_inv ?c (ss[i := (rq, ?pc)]) w"
  proof (cases "wrefs c w x = 0")
    case True
    show ?thesis
    proof (rule own_inv_sender [OF inv i _ a(1)])
      show "places ?c (ss[i := (rq, ?pc)]) w x = 1"
        using a True by (simp add: places_def counts_at [OF i])
    qed (use a x ok True not_active [OF True] in \<open>auto simp: counts_at [OF i]\<close>)
  next
    case False
    then have one: "wrefs c w x = 1" using a(6) by simp
    show ?thesis
    proof (rule own_inv_sender [OF inv i _ a(1)])
      show "places ?c (ss[i := (rq, ?pc)]) w x = 1"
        using a one by (simp add: places_def counts_at [OF i])
    qed (use a x ok one d in \<open>auto simp: counts_at [OF i]\<close>)
  qed
  then show ?thesis using x a(8) by (simp add: dec_and_test_eq arr_get_def)
qed

text \<open>Putting an operation back to the free queue.\<close>

lemma put_free:
  assumes inv: "own_inv c ss w" and "frees c x = 0" "x < 64"
  shows "\<exists>q'. msg_evt_put_op_to_free_queue 0 x c = Some (0, c\<lparr>free_op_q := q'\<rparr>) \<and> ctx_ok (c\<lparr>free_op_q := q'\<rparr>) \<and>
    (\<forall>y. frees (c\<lparr>free_op_q := q'\<rparr>) y = frees c y + of_bool (x = y))"
proof -
  have ok: "ctx_ok c" by (rule own_inv_ctx [OF inv])
  have "length (q_items (free_op_q c)) < unat (q_size (free_op_q c))"
    using free_room [OF assms] ok by (simp add: ctx_ok_def)
  then obtain q' where "msg_evt_put_op_to_q 0 (free_op_q c) (Some x) = Some (0, q')" "q_ok q'"
    "q_items q' = q_items (free_op_q c) @ [x]" "unat (q_size q') = unat (q_size (free_op_q c))"
    using opq.put_room [of "free_op_q c" x] ok by (auto simp: ctx_ok_def)
  with ok show ?thesis by (auto simp: msg_evt_put_op_to_free_queue_def ctx_ok_def frees_def)
qed

lemma wrefs_free [simp]: "wrefs (c\<lparr>free_op_q := q\<rparr>) w y = wrefs c w y"
  by (simp add: wrefs_def)

lemma free_step_inv:
  assumes inv: "own_inv c ss w" and i: "i < length ss" "ss ! i = (rq, S_Free x ret)"
  shows "\<exists>pc' c'. sender_step 0 to rq (S_Free x ret) c = Some (pc', c') \<and> own_inv c' (ss[i := (rq, pc')]) w"
proof -
  have m: "(rq, S_Free x ret) \<in> set ss" using i nth_mem by metis
  note a = own_at [OF inv m, of x, simplified]
  obtain q' where q': "msg_evt_put_op_to_free_queue 0 x c = Some (0, c\<lparr>free_op_q := q'\<rparr>)" "ctx_ok (c\<lparr>free_op_q := q'\<rparr>)"
    "\<And>y. frees (c\<lparr>free_op_q := q'\<rparr>) y = frees c y + of_bool (x = y)"
    using put_free [OF inv a(2,1)] by blast
  have "own_inv (c\<lparr>free_op_q := q'\<rparr>) (ss[i := (rq, S_Done ret)]) w"
  proof (rule own_inv_sender [OF inv i q'(2) a(1)])
    show "places (c\<lparr>free_op_q := q'\<rparr>) (ss[i := (rq, S_Done ret)]) w x = 1"
      using a by (simp add: places_def counts_at [OF i] q'(3))
  qed (use a q'(3) not_active [OF a(6)] in \<open>auto simp: counts_at [OF i]\<close>)
  then show ?thesis using q'(1) by simp
qed

lemma sender_step_inv:
  assumes inv: "own_inv c ss w" and i: "i < length ss" "ss ! i = (rq, pc)"
    and lk: "lk = 0 \<or> (\<forall>x ret. pc \<noteq> S_Free x ret)"
  shows "\<exists>pc' c'. sender_step lk to rq pc c = Some (pc', c') \<and> own_inv c' (ss[i := (rq, pc')]) w"
proof (cases pc)
  case S_Start
  then show ?thesis using start_step_inv [OF inv i(1), of rq lk to] i(2) by simp
next
  case (S_Fill x)
  then show ?thesis using fill_step_inv [OF inv i(1), of rq x lk to] i(2) by simp
next
  case (S_Enqueue x)
  then show ?thesis using enqueue_step_inv [OF inv i(1), of rq x lk to] i(2) by simp
next
  case (S_Wait x)
  then show ?thesis using wait_step_inv [OF inv i(1), of rq x lk to] i(2) by simp
next
  case (S_Drop x ret)
  then show ?thesis using drop_step_inv [OF inv i(1), of rq x ret lk to] i(2) by simp
next
  case (S_Free x ret)
  then show ?thesis using free_step_inv [OF inv i(1), of rq x ret to] i(2) lk by simp
next
  case (S_Trigger x)
  have m: "(rq, S_Trigger x) \<in> set ss" using i nth_mem S_Trigger by metis
  note a = sref_at [OF inv m, of x, simplified]
  have "own_inv c (ss[i := (rq, S_Wait x)]) w" by (rule own_inv_still [OF inv i]) (simp_all add: S_Trigger)
  then show ?thesis using a(1,8) ctx_length [OF own_inv_ctx [OF inv]] S_Trigger by (simp add: arr_get_def)
next
  case (S_Result x)
  have m: "(rq, S_Result x) \<in> set ss" using i nth_mem S_Result by metis
  note a = sref_at [OF inv m, of x, simplified]
  have "own_inv c (ss[i := (rq, S_Drop x (op_result (inst c x)))]) w"
    by (rule own_inv_still [OF inv i]) (simp_all add: S_Result)
  then show ?thesis using a(1) ctx_length [OF own_inv_ctx [OF inv]] S_Result by (simp add: arr_get_def)
qed (use inv i own_inv_still [OF inv i, of pc] in auto)

section \<open>The thread\<close>

lemma own_inv_worker:
  assumes inv: "own_inv c ss w" and c': "ctx_ok c'" and x: "x < 64"
    and w: "wown_of w \<in> {None, Some x}" "wown_of w' \<in> {None, Some x}"
    and same: "\<And>y. y \<noteq> x \<Longrightarrow> inst c' y = inst c y"
      "\<And>y. y \<noteq> x \<Longrightarrow> frees c' y = frees c y" "\<And>y. y \<noteq> x \<Longrightarrow> wrefs c' w' y = wrefs c w y"
      "\<And>y. y \<noteq> x \<Longrightarrow> y \<in> set (q_items (active_op_q c')) \<Longrightarrow> y \<in> set (q_items (active_op_q c))"
    and run: "\<And>y. w' = W_Run y \<Longrightarrow> y = x" and stale: "\<And>y. stale_of w' = Some y \<Longrightarrow> y = x"
    and none: "owns ss x = 0"
    and at: "places c' ss w' x = 1"
      "0 < srefs ss x + wrefs c' w' x \<Longrightarrow>
        op_ref_count (inst c' x) = int (srefs ss x + wrefs c' w' x) \<and> tmo c' x \<noteq> 0"
      "x \<in> set (q_items (active_op_q c')) \<or> w' = W_Run x \<Longrightarrow> data_ok (op_op (inst c' x))"
  shows "own_inv c' ss w'"
proof (rule own_inv_move [OF inv c' x same(1,2) refl refl same(3) _ _ _ _ _ at(1,2) _ at(3)])
  show "wown_of w' = Some y \<longleftrightarrow> wown_of w = Some y" if "y \<noteq> x" for y using w that by auto
  show "op_ref_count (inst c' x) = 2 \<and> tmo c' x \<noteq> 0 \<and> data_ok (op_op (inst c' x))" if "(rq, S_Enqueue x) \<in> set ss" for rq
    using owns_pos [OF that, of x] none by simp
  show "\<forall>(rq, pc) \<in> set ss. request_ok rq" using own_inv_requests [OF inv] by auto
qed (use same(4) run stale x in auto)

lemma wait_event_inv:
  assumes inv: "own_inv c ss W_Wait"
  shows "\<exists>w' c'. worker_step 0 sec usec W_Wait c = Some (w', c') \<and> own_inv c' ss w'"
proof -
  have ok: "ctx_ok c" by (rule own_inv_ctx [OF inv])
  have "q_ok (active_op_q c)" using ok by (simp add: ctx_ok_def)
  then show ?thesis
  proof (cases rule: opq.get_total)
    case 1
    then show ?thesis using inv by simp
  next
    case (2 x q')
    let ?c = "c\<lparr>active_op_q := q'\<rparr>"
    have w: "wrefs ?c (W_Run x) y = wrefs c W_Wait y" for y using 2(3) by (simp add: wrefs_def)
    have p: "0 < wrefs c W_Wait x" using 2(3) by (simp add: wrefs_def)
    note a = wref_at [OF inv p]
    have f: "frees ?c y = frees c y" for y by (simp add: frees_def)
    have "own_inv ?c ss (W_Run x)"
    proof (rule own_inv_worker [OF inv _ a(1)])
      show "ctx_ok ?c" using ok 2(2,4) by (simp add: ctx_ok_def)
      show "places ?c ss (W_Run x) x = 1" using a by (simp add: places_def w f)
      show "data_ok (op_op (inst ?c x))" using own_inv_data [OF inv, of x] 2(3) by simp
      show "y \<in> set (q_items (active_op_q c))" if "y \<in> set (q_items (active_op_q ?c))" for y using 2(3) that by simp
    qed (use a in \<open>simp_all add: w f\<close>)
    then show ?thesis using 2(1) by simp
  qed
qed

lemma handler_total:
  assumes "ctx_ok c" and "data_ok d"
  shows "\<exists>ret d' s. msg_evt_opid_handler c d = Some (ret, d', s)"
proof -
  have "nat (sint (op_id d)) < length (op_func c)" if "\<not> sint (op_id d) \<ge> op_func_size c"
    using assms that by (auto simp: ctx_ok_def data_ok_def)
  then show ?thesis
    using assms(2) by (auto simp: msg_evt_opid_handler_def arr_get_def data_ok_def Let_def split: option.split)
      (metis prod_cases3)+
qed

lemma history_save_ok:
  assumes "history_ok h" and "4 \<le> length (op_data (op_op op))"
  shows "\<exists>h'. msg_op_history_save h address op sec usec = Some h' \<and> history_ok h'"
proof (cases "hist_queue h")
  case None
  then show ?thesis by (simp add: msg_op_history_save_def history_ok_def)
next
  case (Some q)
  then obtain es where es: "history_holds h 16 es" using assms(1) by (auto simp: history_ok_def)
  have "op_fits (address, op, sec, usec)" using assms(2) by (simp add: op_fits_def)
  from history_save_holds [OF es _ history_entry_fits [OF this], of 4] show ?thesis by (auto simp: history_ok_def)
qed

lemma run_step_inv:
  assumes inv: "own_inv c ss (W_Run x)"
  shows "\<exists>w' c'. worker_step 0 sec usec (W_Run x) c = Some (w', c') \<and> own_inv c' ss w' \<and> (\<exists>ret. w' = W_Drop x ret)"
proof -
  have ok: "ctx_ok c" by (rule own_inv_ctx [OF inv])
  have p: "0 < wrefs c (W_Run x) x" by (simp add: wrefs_def)
  note a = wref_at [OF inv p]
  have na: "x \<notin> set (q_items (active_op_q c))" using a(5) by (simp add: wrefs_def count_list_0_iff)
  have x: "x < length (op_q_inst c)" using a(1) ctx_length [OF ok] by simp
  have d: "data_ok (op_op (inst c x))" by (rule own_inv_data [OF inv]) simp
  obtain h where h: "msg_op_history_save (op_history c) x (inst c x) sec usec = Some h" "history_ok h"
    using history_save_ok [of "op_history c" "inst c x" x sec usec] ok d by (auto simp: ctx_ok_def data_ok_def)
  let ?c1 = "c\<lparr>op_history := h, cur_op := Some x\<rparr>"
  have ok1: "ctx_ok ?c1" using ok h(2) by (simp add: ctx_ok_def)
  obtain ret d' s where r: "msg_evt_opid_handler ?c1 (op_op (inst c x)) = Some (ret, d', s)"
    using handler_total [OF ok1 d] by blast
  let ?c = "?c1\<lparr>op_q_inst := (op_q_inst c)[x := (inst c x)\<lparr>op_op := d'\<rparr>], driver := s, cur_op := None\<rparr>"
  have step: "worker_step 0 sec usec (W_Run x) c = Some (W_Drop x ret, ?c)"
    using x h(1) r by (simp add: arr_get_def upd_op_eq msg_evt_set_current_op_def Let_def)
  have w: "wrefs ?c (W_Drop x ret) y = wrefs c (W_Run x) y" "frees ?c y = frees c y" for y
    by (simp_all add: wrefs_def frees_def)
  have "own_inv ?c ss (W_Drop x ret)"
  proof (rule own_inv_worker [OF inv _ a(1)])
    show "ctx_ok ?c" using ok1 by (simp add: ctx_ok_def)
    show "places ?c ss (W_Drop x ret) x = 1" unfolding places_def w using a by simp
    show "op_ref_count (inst ?c x) = int (srefs ss x + wrefs ?c (W_Drop x ret) x) \<and> tmo ?c x \<noteq> 0"
      unfolding w using a x by simp
    show "wrefs ?c (W_Drop x ret) y = wrefs c (W_Run x) y" "frees ?c y = frees c y" for y by (fact w)+
  qed (use a x na in simp_all)
  with step show ?thesis by blast
qed

lemma worker_drop_inv:
  assumes inv: "own_inv c ss (W_Drop x ret)"
  shows "\<exists>w' c'. worker_step 0 sec usec (W_Drop x ret) c = Some (w', c') \<and> own_inv c' ss w'"
proof -
  have ok: "ctx_ok c" by (rule own_inv_ctx [OF inv])
  have p: "0 < wrefs c (W_Drop x ret) x" by (simp add: wrefs_def)
  note a = wref_at [OF inv p]
  have na: "x \<notin> set (q_items (active_op_q c))" "count_list (q_items (active_op_q c)) x = 0"
    using a(5) by (simp_all add: wrefs_def count_list_0_iff)
  have x: "x < length (op_q_inst c)" using a(1) ctx_length [OF ok] by simp
  let ?c = "c\<lparr>op_q_inst := (op_q_inst c)[x := (inst c x)\<lparr>op_ref_count := op_ref_count (inst c x) - 1\<rparr>]\<rparr>"
  let ?w = "if op_ref_count (inst c x) = 1 then W_Free x else W_Check x ret"
  have w: "wrefs c ?w y = (if y = x then 0 else wrefs c (W_Drop x ret) y)" for y
    using na(2) by (auto simp: wrefs_def)
  have "srefs ss x = 0 \<or> srefs ss x = 1" using a(6) by auto
  then have "own_inv ?c ss ?w"
  proof
    assume z: "srefs ss x = 0"
    show ?thesis
    proof (rule own_inv_worker [OF inv _ a(1)])
      show "places ?c ss ?w x = 1" using a z w [of x] by (simp add: places_def)
      show "wrefs ?c ?w y = wrefs c (W_Drop x ret) y" if "y \<noteq> x" for y using w [of y] that by simp
    qed (use a x ok na z w [of x] in auto)
  next
    assume z: "srefs ss x = 1"
    show ?thesis
    proof (rule own_inv_worker [OF inv _ a(1)])
      show "places ?c ss ?w x = 1" using a z w [of x] by (simp add: places_def)
      show "wrefs ?c ?w y = wrefs c (W_Drop x ret) y" if "y \<noteq> x" for y using w [of y] that by simp
    qed (use a x ok na z w [of x] in auto)
  qed
  then show ?thesis using x by (simp add: dec_and_test_eq)
qed

lemma worker_free_inv:
  assumes inv: "own_inv c ss (W_Free x)"
  shows "\<exists>w' c'. worker_step 0 sec usec (W_Free x) c = Some (w', c') \<and> own_inv c' ss w'"
proof -
  note a = wown_at [OF inv, of x, simplified]
  obtain q' where q': "msg_evt_put_op_to_free_queue 0 x c = Some (0, c\<lparr>free_op_q := q'\<rparr>)" "ctx_ok (c\<lparr>free_op_q := q'\<rparr>)"
    "\<And>y. frees (c\<lparr>free_op_q := q'\<rparr>) y = frees c y + of_bool (x = y)"
    using put_free [OF inv a(2,1)] by blast
  have w: "wrefs c W_Wait y = wrefs c (W_Free x) y" for y by (simp add: wrefs_def)
  have "own_inv (c\<lparr>free_op_q := q'\<rparr>) ss W_Wait"
  proof (rule own_inv_worker [OF inv q'(2) a(1)])
    show "places (c\<lparr>free_op_q := q'\<rparr>) ss W_Wait x = 1" using a by (simp add: places_def w q'(3))
  qed (use a q'(3) not_active [OF a(5)] in \<open>simp_all add: w\<close>)
  then show ?thesis using q'(1) by simp
qed

text \<open>What the thread does with an operation after it has given its reference up moves nothing.\<close>

lemma stale_step_inv:
  assumes inv: "own_inv c ss w" and st: "stale_of w = Some x"
  shows "\<exists>w' c'. worker_step 0 sec usec w c = Some (w', c') \<and> own_inv c' ss w'"
proof -
  have ok: "ctx_ok c" by (rule own_inv_ctx [OF inv])
  have x64: "x < 64" by (rule own_inv_stale [OF inv st])
  then have x: "x < length (op_q_inst c)" using ctx_length [OF ok] by simp
  have quiet: "own_inv (c\<lparr>op_q_inst := (op_q_inst c)[x := op]\<rparr>) ss w'"
    if "op_op op = op_op (inst c x)" "op_ref_count op = op_ref_count (inst c x)" "timeoutValue (op_signal op) = tmo c x"
      "wown_of w' = None" "wref_of w' = None" "\<And>y. stale_of w' = Some y \<Longrightarrow> y = x" for op w'
  proof (rule own_inv_quiet [OF inv])
    show "op_op (inst (c\<lparr>op_q_inst := (op_q_inst c)[x := op]\<rparr>) y) = op_op (inst c y) \<and>
      op_ref_count (inst (c\<lparr>op_q_inst := (op_q_inst c)[x := op]\<rparr>) y) = op_ref_count (inst c y) \<and>
      tmo (c\<lparr>op_q_inst := (op_q_inst c)[x := op]\<rparr>) y = tmo c y" for y
      using x that(1-3) by (simp add: nth_list_update)
    show "wown_of w' = wown_of w" "wref_of w' = wref_of w" using that(4,5) st by (cases w; simp)+
    show "\<forall>(rq, pc) \<in> set ss. request_ok rq" using own_inv_requests [OF inv] by auto
  qed (use ok that x64 in auto)
  have same: "c\<lparr>op_q_inst := (op_q_inst c)[x := inst c x]\<rparr> = c" by simp
  from st show ?thesis
  proof (cases w)
    case (W_Check y ret)
    have q: "own_inv c ss (W_Result x ret)" "own_inv c ss W_Wait"
      using quiet [of "inst c x" "W_Result x ret"] quiet [of "inst c x" W_Wait] by (simp_all add: same)
    with W_Check show ?thesis using st x by (auto simp: arr_get_def)
  next
    case (W_Result y ret)
    then show ?thesis using st x quiet [of "(inst c x)\<lparr>op_result := ret\<rparr>" "W_Raise x"] by (auto simp: upd_op_eq)
  next
    case (W_Raise y)
    then show ?thesis
      using st x quiet [of "(inst c x)\<lparr>op_signal := osal_raise_signal (op_signal (inst c x))\<rparr>" W_Wait]
      by (auto simp: upd_op_eq osal_raise_signal_def)
  qed simp_all
qed

lemma worker_step_inv:
  assumes inv: "own_inv c ss w"
  shows "\<exists>w' c'. worker_step 0 sec usec w c = Some (w', c') \<and> own_inv c' ss w'"
proof (cases w)
  case W_Wait
  then show ?thesis using wait_event_inv inv by blast
next
  case (W_Run x)
  then show ?thesis using run_step_inv inv by blast
next
  case (W_Drop x ret)
  then show ?thesis using worker_drop_inv inv by blast
next
  case (W_Free x)
  then show ?thesis using worker_free_inv inv by blast
qed (rule stale_step_inv [OF inv], simp)+

end
