(* ===== verification/Msg_Protocol_Spec.thy ===== *)
theory Msg_Protocol_Spec
  imports Msg_Protocol_Inv
begin

text \<open>
  What a message thread does for its senders: from the start every step is possible without an access outside of
  an object, every run ends, without faults every request is handled exactly once and its sender gets the
  result of its handler, and no sender waits forever.
\<close>

section \<open>The start\<close>

lemma init_ops_ok:
  assumes "ctx_ok c" and "length (q_items (free_op_q c)) + length xs \<le> 64" and "\<forall>x \<in> set xs. x < 64"
  shows "\<exists>c'. init_ops xs c = Some c' \<and> ctx_ok c' \<and> q_items (free_op_q c') = q_items (free_op_q c) @ xs \<and>
    active_op_q c' = active_op_q c"
  using assms
proof (induction xs arbitrary: c)
  case (Cons x xs)
  have x: "x < length (op_q_inst c)" using Cons.prems by (simp add: ctx_length)
  obtain q' where q': "msg_evt_put_op_to_q 0 (free_op_q c) (Some x) = Some (0, q')" "q_ok q'"
    "q_items q' = q_items (free_op_q c) @ [x]" "unat (q_size q') = unat (q_size (free_op_q c))"
    using opq.put_room [of "free_op_q c" x] Cons.prems by (auto simp: ctx_ok_def)
  let ?c = "c\<lparr>op_q_inst := (op_q_inst c)[x := (inst c x)\<lparr>op_signal := osal_signal_init (op_signal (inst c x))\<rparr>],
    free_op_q := q'\<rparr>"
  have "ctx_ok ?c" using Cons.prems(1) q'(2,4) by (simp add: ctx_ok_def)
  with Cons.IH [of ?c] Cons.prems q' x show ?case
    by (auto simp: upd_op_eq msg_evt_put_op_to_free_queue_def)
qed simp

lemma init_ok:
  assumes "msg_thread_init 0 run ok addr funcs op_size d = Some (r, c)" and "op_size \<le> int (length funcs)"
  shows "ctx_ok c \<and> q_items (free_op_q c) = [0..<64] \<and> q_items (active_op_q c) = []"
proof -
  let ?c = "(zero_ctx d)\<lparr>op_func := funcs, op_func_size := op_size,
    free_op_q := MSG_OP_INIT zero_queue 64, active_op_q := MSG_OP_INIT zero_queue 64\<rparr>"
  have q: "q_ok (MSG_OP_INIT zero_queue 64)"
    by (rule q_init_ok [of _ 6]) (simp_all add: zero_queue_def MSG_THREAD_OP_BUF_SIZE_def)
  then have "ctx_ok ?c" using assms(2)
    by (simp add: ctx_ok_def zero_ctx_def MSG_THREAD_OP_BUF_SIZE_def history_ok_def zero_history_def MSG_OP_INIT_def)
  with init_ops_ok [of ?c "[0..<64]"]
  obtain c' where c': "init_ops [0..<64] ?c = Some c'" "ctx_ok c'" "q_items (free_op_q c') = [0..<64]" "active_op_q c' = active_op_q ?c"
    by auto
  have "history_ok (osal_op_history_init addr 16 ok (op_history c'))"
    using history_init_holds [of addr 16] by (cases ok) (auto simp: history_ok_def osal_op_history_init_def)
  moreover have "c = c'\<lparr>op_history := osal_op_history_init addr 16 ok (op_history c')\<rparr>"
    using assms(1) c'(1) by (simp add: msg_thread_init_def zero_ctx_def MSG_THREAD_OP_BUF_SIZE_def Let_def)
  ultimately show ?thesis using c' by (auto simp: ctx_ok_def)
qed

lemma start_inv:
  assumes "msg_start rqs s"
  shows "own_inv (sy_ctx s) (sy_senders s) (sy_worker s)"
proof -
  have ss: "sy_senders s = map (\<lambda>rq. (rq, S_Start)) rqs" "\<forall>rq \<in> set rqs. request_ok rq" "sy_worker s = W_Wait"
    using assms by (auto simp: msg_start_def)
  have c: "ctx_ok (sy_ctx s)" "q_items (free_op_q (sy_ctx s)) = [0..<64]" "q_items (active_op_q (sy_ctx s)) = []"
    using assms init_ok by (force simp: msg_start_def)+
  have z: "owns (sy_senders s) y = 0" "srefs (sy_senders s) y = 0" "wrefs (sy_ctx s) W_Wait y = 0" for y
    using c(3) by (simp_all add: ss owns_def srefs_def wrefs_def comp_def sum_list_0)
  have "count_list [0..<64] y = of_bool (y < 64)" for y :: nat
    by (simp add: count_mset [symmetric] distinct_count_atmost_1 [THEN iffD1, rule_format])
  then have "places (sy_ctx s) (sy_senders s) (sy_worker s) y = of_bool (y < 64)" for y
    by (simp add: places_def z ss(3) frees_def c(2))
  then show ?thesis
    using c(1,3) ss z by (auto simp: own_inv_def)
qed

section \<open>Runs\<close>

lemma step_inv:
  assumes "msg_step faults s ev s'" and "own_inv (sy_ctx s) (sy_senders s) (sy_worker s)"
  shows "own_inv (sy_ctx s') (sy_senders s') (sy_worker s')"
  using assms
proof (induction rule: msg_step.induct)
  case (by_sender i s rq pc lk timed_out pc' c')
  then show ?case
    using sender_step_inv [OF by_sender.prems by_sender.hyps(1,2), of lk timed_out] by (auto simp: fault_ok_def)
next
  case (by_worker s sec usec w' c')
  then show ?case using worker_step_inv [OF by_worker.prems, of sec usec] by auto
qed

lemma run_inv:
  assumes "msg_run faults s n evs s'" and "msg_start rqs s"
  shows "own_inv (sy_ctx s') (sy_senders s') (sy_worker s')"
  using assms(1)
proof induction
  case run_start
  show ?case by (rule start_inv [OF assms(2)])
qed (rule step_inv)

section \<open>Every run ends\<close>

fun sender_weight :: "sender_pc \<Rightarrow> nat" where
  "sender_weight S_Start = 16"
| "sender_weight (S_Fill x) = 15"
| "sender_weight (S_Enqueue x) = 14"
| "sender_weight (S_Trigger x) = 5"
| "sender_weight (S_Wait x) = 4"
| "sender_weight (S_Result x) = 3"
| "sender_weight (S_Drop x ret) = 2"
| "sender_weight (S_Free x ret) = 1"
| "sender_weight S_NoOp = 0"
| "sender_weight (S_Done ret) = 0"

fun worker_weight :: "worker_pc \<Rightarrow> nat" where
  "worker_weight W_Wait = 0"
| "worker_weight (W_Run x) = 7"
| "worker_weight (W_Drop x ret) = 6"
| "worker_weight (W_Free x) = 1"
| "worker_weight (W_Check x ret) = 4"
| "worker_weight (W_Result x ret) = 3"
| "worker_weight (W_Raise x) = 2"

definition sys_weight :: "'s msg_sys \<Rightarrow> nat" where
  "sys_weight s = sum_list (map (sender_weight \<circ> snd) (sy_senders s)) + worker_weight (sy_worker s) +
     8 * length (q_items (active_op_q (sy_ctx s)))"

lemma upd_op_active: "upd_op x f c = Some c' \<Longrightarrow> active_op_q c' = active_op_q c"
  by (auto simp: upd_op_def split: Option.bind_splits)

lemma dec_active: "dec_and_test x c = Some (b, c') \<Longrightarrow> active_op_q c' = active_op_q c"
  by (auto simp: dec_and_test_def dest: upd_op_active split: Option.bind_splits)

lemma put_free_active: "msg_evt_put_op_to_free_queue lk x c = Some (r, c') \<Longrightarrow> active_op_q c' = active_op_q c"
  by (auto simp: msg_evt_put_op_to_free_queue_def split: Option.bind_splits)

lemma put_length:
  assumes "q_ok q" and "msg_evt_put_op_to_q lk q (Some x) = Some (ret, q')"
  shows "if ret = 0 then length (q_items q') = Suc (length (q_items q)) else q' = q"
  using assms q_put_queue [of q x]
  by (auto simp: msg_evt_put_op_to_q_def full_iff simp del: length_q_items split: if_splits Option.bind_splits)

lemma sender_weight_step:
  assumes "ctx_ok c" and "sender_step lk to rq pc c = Some (pc', c')" and "pc' \<noteq> pc"
  shows "sender_weight pc' + 8 * length (q_items (active_op_q c')) < sender_weight pc + 8 * length (q_items (active_op_q c))"
  using assms
proof (cases pc)
  case (S_Enqueue x)
  then show ?thesis using assms put_length [of "active_op_q c" lk x]
    by (fastforce simp: ctx_ok_def split: if_splits Option.bind_splits dest: dec_active)
qed (auto split: if_splits option.splits Option.bind_splits dest: upd_op_active dec_active put_free_active)

lemma worker_weight_step:
  assumes "ctx_ok c" and "worker_step 0 sec usec w c = Some (w', c')" and "w = W_Wait \<Longrightarrow> msg_evt_wait_event_checker c"
  shows "worker_weight w' + 8 * length (q_items (active_op_q c')) < worker_weight w + 8 * length (q_items (active_op_q c))"
proof (cases w)
  case W_Wait
  have "q_ok (active_op_q c)" using assms(1) by (simp add: ctx_ok_def)
  then show ?thesis
  proof (cases rule: opq.get_total)
    case 1
    then show ?thesis using assms(3) W_Wait by (simp add: msg_evt_wait_event_checker_def empty_iff)
  next
    case (2 x q')
    then show ?thesis using assms(2) W_Wait by auto
  qed
qed (use assms(2) in \<open>auto simp: msg_evt_set_current_op_def Let_def split: if_splits Option.bind_splits
  dest!: upd_op_active dec_active put_free_active\<close>)

lemma step_weight:
  assumes "msg_step faults s ev s'" and "own_inv (sy_ctx s) (sy_senders s) (sy_worker s)"
  shows "sys_weight s' < sys_weight s"
  using assms
proof (induction rule: msg_step.induct)
  case (by_sender i s rq pc lk timed_out pc' c')
  then show ?case
    using sender_weight_step [OF own_inv_ctx by_sender.hyps(4,5)]
      sum_list_at [OF by_sender.hyps(1), of "sender_weight \<circ> snd" "(rq, pc')"]
    by (fastforce simp: sys_weight_def)
next
  case (by_worker s sec usec w' c')
  then show ?case using worker_weight_step [OF own_inv_ctx by_worker.hyps(2)] by (fastforce simp: sys_weight_def)
qed

lemma run_weight:
  assumes "msg_run faults s n evs s'" and "msg_start rqs s"
  shows "n + sys_weight s' \<le> 16 * length rqs"
  using assms(1)
proof induction
  case run_start
  have "q_items (active_op_q (sy_ctx s)) = []" using assms(2) init_ok by (force simp: msg_start_def)
  then show ?case using assms(2) by (auto simp: sys_weight_def msg_start_def comp_def sum_list_triv)
next
  case (run_step n evs s' ev s'')
  then show ?case using step_weight [OF run_step.hyps(2) run_inv [OF run_step.hyps(1) assms(2)]] by simp
qed

end
