(* ===== verification/Msg_Results.thy ===== *)
theory Msg_Results
  imports Msg_Protocol_Spec
begin

text \<open>
  Without faults, every request that was handled belongs to one sender, which has got its result or is
  going to get it; and every sender that waits has an operation that the thread is going to handle, or has been
  woken.
\<close>

section \<open>Results\<close>

text \<open>The thread still has the operation \<open>x\<close> before it, or has not woken its sender yet.\<close>

definition busy :: "'s msg_thread_ctx \<Rightarrow> worker_pc \<Rightarrow> nat \<Rightarrow> bool" where
  "busy c w x \<longleftrightarrow> x \<in> set (q_items (active_op_q c)) \<or> wref_of w = Some x \<or> stale_of w = Some x"

definition waiting :: "sender_pc \<Rightarrow> nat \<Rightarrow> bool" where
  "waiting pc x \<longleftrightarrow> pc = S_Trigger x \<or> pc = S_Wait x"

text \<open>The result that a sender has got, or that the thread has for it.\<close>

definition pending :: "worker_pc \<Rightarrow> nat \<Rightarrow> int option" where
  "pending w x = (case w of
     W_Drop y ret \<Rightarrow> if y = x then Some ret else None
   | W_Check y ret \<Rightarrow> if y = x then Some ret else None
   | W_Result y ret \<Rightarrow> if y = x then Some ret else None
   | _ \<Rightarrow> None)"

definition answer :: "'s msg_thread_ctx \<Rightarrow> worker_pc \<Rightarrow> nat \<Rightarrow> int option" where
  "answer c w x =
     (if x \<in> set (q_items (active_op_q c)) \<or> w = W_Run x then None
      else case pending w x of Some ret \<Rightarrow> Some ret | None \<Rightarrow> Some (op_result (inst c x)))"

fun answered :: "'s msg_thread_ctx \<Rightarrow> worker_pc \<Rightarrow> sender_pc \<Rightarrow> int option" where
  "answered c w (S_Trigger x) = answer c w x"
| "answered c w (S_Wait x) = answer c w x"
| "answered c w (S_Result x) = Some (op_result (inst c x))"
| "answered c w (S_Drop x ret) = Some ret"
| "answered c w (S_Free x ret) = Some ret"
| "answered c w (S_Done ret) = Some ret"
| "answered c w pc = None"

definition sender_answer :: "'s msg_thread_ctx \<Rightarrow> worker_pc \<Rightarrow> sender \<Rightarrow> (msg_op_data \<times> int) multiset" where
  "sender_answer c w = (\<lambda>(rq, pc). case answered c w pc of None \<Rightarrow> {#} | Some r \<Rightarrow> {#(request_data rq, r)#})"

definition answers :: "'s msg_thread_ctx \<Rightarrow> sender list \<Rightarrow> worker_pc \<Rightarrow> (msg_op_data \<times> int) multiset" where
  "answers c ss w = sum_list (map (sender_answer c w) ss)"

definition sender_res :: "'s msg_thread_ctx \<Rightarrow> worker_pc \<Rightarrow> sender \<Rightarrow> bool" where
  "sender_res c w = (\<lambda>(rq, pc).
     (\<forall>x. waiting pc x \<longrightarrow> comp_done (op_signal (inst c x)) = of_bool (\<not> busy c w x) \<and>
        (x \<in> set (q_items (active_op_q c)) \<or> w = W_Run x \<longrightarrow> op_op (inst c x) = request_data rq)) \<and>
     (\<forall>x. pc = S_Enqueue x \<longrightarrow> comp_done (op_signal (inst c x)) = 0 \<and> op_op (inst c x) = request_data rq))"

definition res_inv :: "'s msg_thread_ctx \<Rightarrow> sender list \<Rightarrow> worker_pc \<Rightarrow> bool" where
  "res_inv c ss w \<longleftrightarrow> (\<forall>y. busy c w y \<longrightarrow> (\<exists>j < length ss. waiting (snd (ss ! j)) y)) \<and> (\<forall>y. w \<noteq> W_Free y) \<and>
     (\<forall>y. stale_of w = Some y \<longrightarrow> y \<notin> set (q_items (active_op_q c))) \<and> (\<forall>j < length ss. sender_res c w (ss ! j))"

lemma waiting_ref: "waiting pc x \<Longrightarrow> ref_of pc = Some x"
  by (auto simp: waiting_def)

text \<open>An operation that a sender has, or that is free, no other sender has.\<close>

lemma alone:
  assumes inv: "own_inv c ss w" and i: "i < length ss" "ss ! i = (rq, pc)"
    and x: "own_of pc = Some x \<or> ref_of pc = Some x \<or> x \<in> set (q_items (free_op_q c))"
    and j: "j < length ss" "j \<noteq> i"
  shows "own_of (snd (ss ! j)) \<noteq> Some x" "ref_of (snd (ss ! j)) \<noteq> Some x"
proof -
  let ?ss = "ss[i := (rq, S_NoOp)]"
  have m: "(rq, pc) \<in> set ss" using i nth_mem by metis
  obtain rqj pcj where p: "ss ! j = (rqj, pcj)" by fastforce
  have "?ss ! j = (rqj, pcj)" using j p by simp
  then have mj: "(rqj, pcj) \<in> set ?ss" using j nth_mem [of j ?ss] by (metis length_list_update)
  have "owns ?ss x = 0 \<and> srefs ?ss x = 0"
    using x own_at [OF inv m, of x] sref_at [OF inv m, of x] free_at [OF inv, of x]
    by (auto simp: counts_at [OF i])
  then show "own_of (snd (ss ! j)) \<noteq> Some x" "ref_of (snd (ss ! j)) \<noteq> Some x"
    using owns_pos [OF mj, of x] srefs_pos [OF mj, of x] p by auto
qed

lemma sender_res_cong:
  assumes "\<And>y. ref_of pc = Some y \<or> own_of pc = Some y \<Longrightarrow> inst c' y = inst c y \<and>
      (y \<in> set (q_items (active_op_q c')) \<longleftrightarrow> y \<in> set (q_items (active_op_q c))) \<and>
      (busy c' w' y \<longleftrightarrow> busy c w y) \<and> (w' = W_Run y \<longleftrightarrow> w = W_Run y) \<and> pending w' y = pending w y"
  shows "sender_res c' w' (rq, pc) = sender_res c w (rq, pc)" "sender_answer c' w' (rq, pc) = sender_answer c w (rq, pc)"
proof -
  have "answered c' w' pc = answered c w pc"
    using assms by (cases pc) (auto simp: answer_def split: option.split)
  then show "sender_answer c' w' (rq, pc) = sender_answer c w (rq, pc)" by (simp add: sender_answer_def)
  show "sender_res c' w' (rq, pc) = sender_res c w (rq, pc)"
    using assms by (cases pc) (auto simp: sender_res_def waiting_def)
qed

section \<open>Senders\<close>

lemma res_inv_sender:
  assumes inv: "own_inv c ss w" "res_inv c ss w" and i: "i < length ss" "ss ! i = (rq, pc)"
    and x: "own_of pc = Some x \<or> ref_of pc = Some x \<or> x \<in> set (q_items (free_op_q c))"
    and ref: "ref_of pc \<in> {None, Some x}"
    and same: "\<And>y. y \<noteq> x \<Longrightarrow> inst c' y = inst c y"
      "\<And>y. y \<noteq> x \<Longrightarrow> y \<in> set (q_items (active_op_q c')) \<longleftrightarrow> y \<in> set (q_items (active_op_q c))"
    and at: "busy c' w x \<Longrightarrow> waiting pc' x" "stale_of w = Some x \<Longrightarrow> x \<notin> set (q_items (active_op_q c'))"
      "sender_res c' w (rq, pc')" "answered c' w pc' = answered c w pc"
  shows "res_inv c' (ss[i := (rq, pc')]) w \<and> answers c' (ss[i := (rq, pc')]) w = answers c ss w"
proof -
  have other: "sender_res c' w (ss ! j) = sender_res c w (ss ! j)" "sender_answer c' w (ss ! j) = sender_answer c w (ss ! j)"
    if j: "j < length ss" "j \<noteq> i" for j
  proof -
    obtain rqj pcj where p: "ss ! j = (rqj, pcj)" by fastforce
    have "own_of pcj \<noteq> Some x" "ref_of pcj \<noteq> Some x" using alone [OF inv(1) i x j] p by simp_all
    then have "sender_res c' w (rqj, pcj) = sender_res c w (rqj, pcj) \<and> sender_answer c' w (rqj, pcj) = sender_answer c w (rqj, pcj)"
      using same by (intro conjI sender_res_cong) (auto simp: busy_def)
    with p show "sender_res c' w (ss ! j) = sender_res c w (ss ! j)" "sender_answer c' w (ss ! j) = sender_answer c w (ss ! j)"
      by simp_all
  qed
  have "\<exists>j < length ss. waiting (snd (ss[i := (rq, pc')] ! j)) y" if b: "busy c' w y" for y
  proof (cases "y = x")
    case True
    with at(1) b i show ?thesis by (intro exI [of _ i]) simp
  next
    case False
    with same(2) b have "busy c w y" by (simp add: busy_def)
    then obtain j where j: "j < length ss" "waiting (snd (ss ! j)) y" using inv(2) by (auto simp: res_inv_def)
    moreover have "j \<noteq> i" using j(2) i(2) ref False waiting_ref by fastforce
    ultimately show ?thesis by (intro exI [of _ j]) simp
  qed
  moreover have "sender_res c' w (ss[i := (rq, pc')] ! j)" if "j < length ss" for j
    using that inv(2) other(1) [of j] at(3) i by (cases "j = i") (simp_all add: res_inv_def)
  moreover have "y \<notin> set (q_items (active_op_q c'))" if "stale_of w = Some y" for y
    using that inv(2) at(2) same(2) [of y] by (cases "y = x") (simp_all add: res_inv_def)
  ultimately have "res_inv c' (ss[i := (rq, pc')]) w" using inv(2) by (simp add: res_inv_def)
  moreover have "answers c' (ss[i := (rq, pc')]) w = answers c ss w"
    using sum_list_step [OF i(1), of "sender_answer c' w" "sender_answer c w" "(rq, pc')"] other(2) i(2) at(4)
    by (simp add: answers_def sender_answer_def)
  ultimately show ?thesis ..
qed

lemma not_busy:
  assumes inv: "own_inv c ss w" "res_inv c ss w" and i: "i < length ss" "ss ! i = (rq, pc)"
    and x: "own_of pc = Some x \<or> ref_of pc = Some x \<or> x \<in> set (q_items (free_op_q c))" and "\<not> waiting pc x"
  shows "\<not> busy c w x"
proof
  assume "busy c w x"
  then obtain j where j: "j < length ss" "waiting (snd (ss ! j)) x" using inv(2) by (auto simp: res_inv_def)
  have "j \<noteq> i" using j(2) i(2) assms(6) by auto
  from alone(2) [OF inv(1) i x j(1) this] waiting_ref [OF j(2)] show False by simp
qed

lemma sender_step_res:
  assumes inv: "own_inv c ss w" "res_inv c ss w" and i: "i < length ss" "ss ! i = (rq, pc)"
    and step: "sender_step 0 False rq pc c = Some (pc', c')" "pc' \<noteq> pc"
  shows "res_inv c' (ss[i := (rq, pc')]) w \<and> answers c' (ss[i := (rq, pc')]) w = answers c ss w"
proof -
  have m: "(rq, pc) \<in> set ss" using i nth_mem by metis
  have ok: "ctx_ok c" by (rule own_inv_ctx [OF inv(1)])
  have res: "sender_res c w (rq, pc)" using inv(2) i by (metis res_inv_def)
  have len: "x < 64 \<Longrightarrow> x < length (op_q_inst c)" for x using ctx_length [OF ok] by simp
  note rule = res_inv_sender [OF inv i] and quiet = not_busy [OF inv i]
  have fresh: "stale_of w \<noteq> Some x" if "own_of pc = Some x" for x
    using quiet [of x] that waiting_ref [of pc x] by (cases pc) (auto simp: busy_def)
  have keep: "stale_of w = Some x \<Longrightarrow> x \<notin> set (q_items (active_op_q c))" for x using inv(2) by (simp add: res_inv_def)
  show ?thesis
  proof (cases pc)
    case S_Start
    have "q_ok (free_op_q c)" using ok by (simp add: ctx_ok_def)
    then show ?thesis
    proof (cases rule: opq.get_total)
      case 1
      have "sender_answer c w (rq, S_NoOp) = {#} \<and> sender_answer c w (ss ! i) = {#}"
        by (simp add: sender_answer_def i(2) S_Start)
      then have "answers c (ss[i := (rq, S_NoOp)]) w = answers c ss w"
        using sum_list_at [OF i(1), of "sender_answer c w" "(rq, S_NoOp)"] by (simp add: answers_def)
      moreover have "res_inv c (ss[i := (rq, S_NoOp)]) w"
      proof -
        have "\<exists>j < length ss. waiting (snd (ss[i := (rq, S_NoOp)] ! j)) y" if b: "busy c w y" for y
        proof -
          obtain j where j: "j < length ss" "waiting (snd (ss ! j)) y" using inv(2) b by (auto simp: res_inv_def)
          moreover have "j \<noteq> i" using j(2) i(2) S_Start by (auto simp: waiting_def)
          ultimately show ?thesis by (intro exI [of _ j]) simp
        qed
        moreover have "sender_res c w (ss[i := (rq, S_NoOp)] ! j)" if "j < length ss" for j
          using inv(2) that by (cases "j = i") (simp_all add: res_inv_def sender_res_def waiting_def)
        ultimately show ?thesis using inv(2) by (simp add: res_inv_def)
      qed
      ultimately show ?thesis using 1 step(1) S_Start by simp
    next
      case (2 x q')
      then have s: "pc' = S_Fill x" "c' = c\<lparr>free_op_q := q'\<rparr>" using step(1) S_Start by simp_all
      have x: "x \<in> set (q_items (free_op_q c))" using 2(3) by simp
      have "\<not> busy c w x" using quiet [of x] x S_Start by (simp add: waiting_def)
      then show ?thesis using x S_Start
        by (intro rule [of x]) (simp_all add: s busy_def sender_res_def waiting_def)
    qed
  next
    case (S_Fill x)
    note a = own_at [OF inv(1) m, of x, simplified S_Fill, simplified]
    have s: "pc' = S_Enqueue x" "c' = c\<lparr>op_q_inst := (op_q_inst c)[x := request_op rq]\<rparr>"
      using step(1) S_Fill len [OF a(1)] by (simp_all add: upd_op_eq)
    have "\<not> busy c w x" using quiet [of x] S_Fill by (simp add: waiting_def)
    then show ?thesis using S_Fill len [OF a(1)] request_op_facts [OF own_inv_requests [OF inv(1) m]]
      by (intro rule [of x]) (simp_all add: s busy_def sender_res_def waiting_def)
  next
    case (S_Enqueue x)
    note a = own_at [OF inv(1) m, of x, simplified S_Enqueue, simplified]
    have "length (q_items (active_op_q c)) < unat (q_size (active_op_q c))"
      using active_room [OF inv(1) a(6,1)] ok by (simp add: ctx_ok_def)
    then obtain q' where q': "msg_evt_put_op_to_q 0 (active_op_q c) (Some x) = Some (0, q')"
      "q_items q' = q_items (active_op_q c) @ [x]"
      using opq.put_room [of "active_op_q c" x] ok by (auto simp: ctx_ok_def)
    then have s: "pc' = S_Trigger x" "c' = c\<lparr>active_op_q := q'\<rparr>" using step(1) S_Enqueue by simp_all
    show ?thesis using S_Enqueue res q'(2) fresh [of x]
      by (intro rule [of x]) (auto simp: s busy_def sender_res_def waiting_def answer_def)
  next
    case (S_Trigger x)
    note a = sref_at [OF inv(1) m, of x, simplified S_Trigger, simplified]
    have s: "pc' = S_Wait x" "c' = c" using step(1) S_Trigger len [OF a(1)] a(8) by (simp_all add: arr_get_def)
    show ?thesis using S_Trigger res keep [of x] by (intro rule [of x]) (simp_all add: s sender_res_def waiting_def)
  next
    case (S_Wait x)
    note a = sref_at [OF inv(1) m, of x, simplified S_Wait, simplified]
    have d: "0 < comp_done (op_signal (inst c x))" "pc' = S_Result x"
      "c' = c\<lparr>op_q_inst := (op_q_inst c)[x := (inst c x)\<lparr>op_signal := (op_signal (inst c x))\<lparr>comp_done :=
        comp_done (op_signal (inst c x)) - 1\<rparr>\<rparr>]\<rparr>"
      using step S_Wait len [OF a(1)]
      by (auto simp: arr_get_def osal_wait_for_signal_timeout_def upd_op_eq split: if_splits)
    have nb: "\<not> busy c w x" using res d(1) S_Wait by (auto simp: sender_res_def waiting_def)
    moreover have "pending w x = None" "w \<noteq> W_Run x" using nb by (cases w; auto simp: busy_def pending_def)+
    ultimately show ?thesis using S_Wait len [OF a(1)]
      by (intro rule [of x]) (simp_all add: d busy_def sender_res_def waiting_def answer_def)
  next
    case (S_Result x)
    note a = sref_at [OF inv(1) m, of x, simplified S_Result, simplified]
    have s: "pc' = S_Drop x (op_result (inst c x))" "c' = c" using step(1) S_Result len [OF a(1)] by (auto simp: arr_get_def)
    have "\<not> busy c w x" using quiet [of x] S_Result by (simp add: waiting_def)
    then show ?thesis using S_Result by (intro rule [of x]) (simp_all add: s busy_def sender_res_def waiting_def)
  next
    case (S_Drop x ret)
    note a = sref_at [OF inv(1) m, of x, simplified S_Drop, simplified]
    have nb: "\<not> busy c w x" using quiet [of x] S_Drop by (simp add: waiting_def)
    have "pc' = S_Free x ret \<or> pc' = S_Done ret" and
      "c' = c\<lparr>op_q_inst := (op_q_inst c)[x := (inst c x)\<lparr>op_ref_count := op_ref_count (inst c x) - 1\<rparr>]\<rparr>"
      using step(1) S_Drop len [OF a(1)] a(8) by (auto simp: arr_get_def dec_and_test_eq split: if_splits)
    with nb show ?thesis using S_Drop
      by (intro rule [of x]) (auto simp: busy_def sender_res_def waiting_def)
  next
    case (S_Free x ret)
    note a = own_at [OF inv(1) m, of x, simplified S_Free, simplified]
    obtain q' where q': "msg_evt_put_op_to_free_queue 0 x c = Some (0, c\<lparr>free_op_q := q'\<rparr>)"
      using put_free [OF inv(1) a(2,1)] by blast
    then have s: "pc' = S_Done ret" "c' = c\<lparr>free_op_q := q'\<rparr>" using step(1) S_Free by simp_all
    have "\<not> busy c w x" using quiet [of x] S_Free by (simp add: waiting_def)
    then show ?thesis using S_Free by (intro rule [of x]) (simp_all add: s busy_def sender_res_def waiting_def)
  qed (use step in simp_all)
qed

section \<open>The thread\<close>

text \<open>The operation that the thread is at.\<close>

definition at_op :: "worker_pc \<Rightarrow> nat \<Rightarrow> bool" where
  "at_op w x \<longleftrightarrow> wref_of w = Some x \<or> stale_of w = Some x"

lemma res_inv_worker:
  assumes inv: "own_inv c ss w" "res_inv c ss w" and i: "i < length ss" "ss ! i = (rq, pc)" "waiting pc x"
    and w: "\<And>y. at_op w y \<Longrightarrow> y = x" "\<And>y. at_op w' y \<Longrightarrow> y = x" "\<And>y. w' \<noteq> W_Free y"
    and same: "\<And>y. y \<noteq> x \<Longrightarrow> inst c' y = inst c y"
      "\<And>y. y \<noteq> x \<Longrightarrow> y \<in> set (q_items (active_op_q c')) \<longleftrightarrow> y \<in> set (q_items (active_op_q c))"
    and at: "sender_res c' w' (rq, pc)" "stale_of w' = Some x \<Longrightarrow> x \<notin> set (q_items (active_op_q c'))"
  shows "res_inv c' ss w' \<and> answers c' ss w' + sender_answer c w (rq, pc) = answers c ss w + sender_answer c' w' (rq, pc)"
proof -
  have x: "own_of pc = Some x \<or> ref_of pc = Some x \<or> x \<in> set (q_items (free_op_q c))" using waiting_ref [OF i(3)] by simp
  have off: "busy c' w' y = busy c w y" "w' \<noteq> W_Run y" "w \<noteq> W_Run y" "pending w' y = None" "pending w y = None" if "y \<noteq> x" for y
  proof -
    have n: "\<not> at_op w y" "\<not> at_op w' y" using w that by blast+
    then show "busy c' w' y = busy c w y" using same(2) [OF that] by (auto simp: busy_def at_op_def)
    show "w' \<noteq> W_Run y" "w \<noteq> W_Run y" using n by (auto simp: at_op_def)
    show "pending w' y = None" "pending w y = None" using n by (auto simp: at_op_def pending_def split: worker_pc.split)
  qed
  have other: "sender_res c' w' (ss ! j) = sender_res c w (ss ! j)" "sender_answer c' w' (ss ! j) = sender_answer c w (ss ! j)"
    if j: "j < length ss" "j \<noteq> i" for j
  proof -
    obtain rqj pcj where p: "ss ! j = (rqj, pcj)" by fastforce
    have "inst c' y = inst c y \<and> (y \<in> set (q_items (active_op_q c')) \<longleftrightarrow> y \<in> set (q_items (active_op_q c))) \<and>
        (busy c' w' y \<longleftrightarrow> busy c w y) \<and> (w' = W_Run y \<longleftrightarrow> w = W_Run y) \<and> pending w' y = pending w y"
      if "ref_of pcj = Some y \<or> own_of pcj = Some y" for y
    proof -
      have "y \<noteq> x" using alone [OF inv(1) i(1,2) x j] p that by auto
      then show ?thesis using same [of y] off [of y] by simp
    qed
    from sender_res_cong [OF this, where rq = rqj]
    have "sender_res c' w' (rqj, pcj) = sender_res c w (rqj, pcj) \<and>
        sender_answer c' w' (rqj, pcj) = sender_answer c w (rqj, pcj)" by blast
    with p show "sender_res c' w' (ss ! j) = sender_res c w (ss ! j)" "sender_answer c' w' (ss ! j) = sender_answer c w (ss ! j)"
      by simp_all
  qed
  have "\<exists>j < length ss. waiting (snd (ss ! j)) y" if b: "busy c' w' y" for y
    using i inv(2) off(1) [of y] b by (cases "y = x") (auto simp: res_inv_def)
  moreover have "sender_res c' w' (ss ! j)" if "j < length ss" for j
    using that inv(2) other(1) [of j] at(1) i by (cases "j = i") (simp_all add: res_inv_def)
  moreover have "y \<notin> set (q_items (active_op_q c'))" if "stale_of w' = Some y" for y
    using that at(2) w(2) [of y] by (auto simp: at_op_def)
  ultimately have "res_inv c' ss w'" using w(3) by (simp add: res_inv_def)
  moreover have "answers c' ss w' + sender_answer c w (rq, pc) = answers c ss w + sender_answer c' w' (rq, pc)"
    using sum_list_step [OF i(1), of "sender_answer c' w'" "sender_answer c w" "ss ! i"] other(2)
    by (simp add: answers_def i(2) [symmetric])
  ultimately show ?thesis ..
qed

lemma worker_step_res:
  assumes inv: "own_inv c ss w" "res_inv c ss w" and step: "worker_step 0 sec usec w c = Some (w', c')"
    and ev: "w = W_Wait \<Longrightarrow> msg_evt_wait_event_checker c"
  shows "res_inv c' ss w' \<and> answers c' ss w' = answers c ss w + mset (handled c w w')"
proof -
  have ok: "ctx_ok c" by (rule own_inv_ctx [OF inv(1)])
  have "\<exists>x. busy c w x \<and> (\<forall>y. at_op w y \<longrightarrow> y = x) \<and> (w = W_Wait \<longrightarrow> x = hd (q_items (active_op_q c)))"
  proof (cases w)
    case W_Wait
    with ev have "q_items (active_op_q c) \<noteq> []" by (simp add: msg_evt_wait_event_checker_def empty_iff)
    then show ?thesis using W_Wait by (intro exI [of _ "hd (q_items (active_op_q c))"]) (simp add: busy_def at_op_def)
  qed (use inv(2) in \<open>auto simp: busy_def at_op_def res_inv_def\<close>)
  then obtain x where x: "busy c w x" "\<And>y. at_op w y \<Longrightarrow> y = x" "w = W_Wait \<Longrightarrow> x = hd (q_items (active_op_q c))" by blast
  then obtain i rq pc where i: "i < length ss" "ss ! i = (rq, pc)" "waiting pc x"
    using inv(2) unfolding res_inv_def by (metis prod.collapse)
  have m: "(rq, pc) \<in> set ss" using i(1,2) nth_mem by metis
  note a = sref_at [OF inv(1) m waiting_ref [OF i(3)]]
  have len: "x < length (op_q_inst c)" using a(1) ctx_length [OF ok] by simp
  have res: "sender_res c w (rq, pc)" using inv(2) i by (metis res_inv_def)
  have cd0: "comp_done (op_signal (inst c x)) = 0" using res i(3) x(1) by (auto simp: sender_res_def)
  have pc: "pc = S_Trigger x \<or> pc = S_Wait x" using i(3) by (simp add: waiting_def)
  have once: "count_list (q_items (active_op_q c)) x + of_bool (wref_of w = Some x) \<le> 1" using a(6) by (simp add: wrefs_def)
  note rule = res_inv_worker [OF inv i x(2)]
  show ?thesis
  proof (cases w)
    case W_Wait
    have "q_ok (active_op_q c)" using ok by (simp add: ctx_ok_def)
    then show ?thesis
    proof (cases rule: opq.get_total)
      case 1
      then show ?thesis using ev W_Wait by (simp add: msg_evt_wait_event_checker_def empty_iff)
    next
      case (2 y q')
      then have s: "w' = W_Run x" "c' = c\<lparr>active_op_q := q'\<rparr>" using step x(3) W_Wait by simp_all
      have q: "q_items (active_op_q c) = x # q_items q'" using 2(3) x(3) W_Wait by simp
      then have nx: "x \<notin> set (q_items q')" using once by (simp add: count_list_0_iff)
      have "sender_res c' w' (rq, pc)" using res i(3) x(1) q
        by (auto simp: s sender_res_def busy_def waiting_def)
      moreover have "sender_answer c w (rq, pc) = {#} \<and> sender_answer c' w' (rq, pc) = {#}"
        using pc q by (auto simp: s sender_answer_def answer_def)
      ultimately show ?thesis
        using rule [of w' c'] q by (auto simp: s at_op_def handled_def W_Wait)
    qed
  next
    case (W_Run y)
    then have y: "y = x" using x(2) by (simp add: at_op_def)
    have nx: "x \<notin> set (q_items (active_op_q c))" using once W_Run y by (simp add: count_list_0_iff)
    obtain d h ret s where s: "w' = W_Drop x ret" "c' = c\<lparr>op_history := h,
        op_q_inst := (op_q_inst c)[x := (inst c x)\<lparr>op_op := d\<rparr>], driver := s, cur_op := None\<rparr>"
      using step W_Run y len by (auto simp: arr_get_def msg_evt_set_current_op_def upd_op_eq Let_def split: Option.bind_splits)
    have "sender_res c' w' (rq, pc)" using pc nx len cd0
      by (auto simp: s sender_res_def busy_def waiting_def)
    moreover have "sender_answer c w (rq, pc) = {#}" "sender_answer c' w' (rq, pc) = {#(request_data rq, ret)#}"
      using pc nx W_Run y by (auto simp: s sender_answer_def answer_def pending_def)
    moreover have "handled c w w' = [(request_data rq, ret)]"
      using res i(3) W_Run y by (auto simp: s handled_def sender_res_def)
    ultimately show ?thesis using rule [of w' c'] by (auto simp: s at_op_def)
  next
    case (W_Drop y ret)
    then have y: "y = x" using x(2) by (simp add: at_op_def)
    have nx: "x \<notin> set (q_items (active_op_q c))" using once W_Drop y by (simp add: count_list_0_iff)
    have r: "op_ref_count (inst c x) = 2" using a(7) once W_Drop y nx by (simp add: wrefs_def count_list_0_iff)
    have s: "w' = W_Check x ret" "c' = c\<lparr>op_q_inst := (op_q_inst c)[x := (inst c x)\<lparr>op_ref_count := 1\<rparr>]\<rparr>"
      using step W_Drop y len r by (simp_all add: dec_and_test_eq)
    have "sender_res c' w' (rq, pc)" using pc nx len cd0
      by (auto simp: s sender_res_def busy_def waiting_def)
    moreover have "sender_answer c w (rq, pc) = sender_answer c' w' (rq, pc)"
      using pc nx W_Drop y by (auto simp: s sender_answer_def answer_def pending_def)
    ultimately show ?thesis using rule [of w' c'] nx by (auto simp: s at_op_def handled_def W_Drop)
  next
    case (W_Check y ret)
    then have y: "y = x" using x(2) by (simp add: at_op_def)
    have s: "w' = W_Result x ret" "c' = c" using step W_Check y len a(8) by (simp_all add: arr_get_def)
    have nx: "x \<notin> set (q_items (active_op_q c))" using inv(2) W_Check y by (simp add: res_inv_def)
    have "sender_res c' w' (rq, pc)" using pc nx cd0
      by (auto simp: s sender_res_def busy_def waiting_def)
    moreover have "sender_answer c w (rq, pc) = sender_answer c' w' (rq, pc)"
      using pc W_Check y by (auto simp: s sender_answer_def answer_def pending_def)
    ultimately show ?thesis using rule [of w' c'] nx by (auto simp: s at_op_def handled_def W_Check)
  next
    case (W_Result y ret)
    then have y: "y = x" using x(2) by (simp add: at_op_def)
    have s: "w' = W_Raise x" "c' = c\<lparr>op_q_inst := (op_q_inst c)[x := (inst c x)\<lparr>op_result := ret\<rparr>]\<rparr>"
      using step W_Result y len by (simp_all add: upd_op_eq)
    have nx: "x \<notin> set (q_items (active_op_q c))" using inv(2) W_Result y by (simp add: res_inv_def)
    have "sender_res c' w' (rq, pc)" using pc nx len cd0
      by (auto simp: s sender_res_def busy_def waiting_def)
    moreover have "sender_answer c w (rq, pc) = sender_answer c' w' (rq, pc)"
      using pc len W_Result y by (auto simp: s sender_answer_def answer_def pending_def)
    ultimately show ?thesis using rule [of w' c'] nx by (auto simp: s at_op_def handled_def W_Result)
  next
    case (W_Raise y)
    then have y: "y = x" using x(2) by (simp add: at_op_def)
    have s: "w' = W_Wait" "c' = c\<lparr>op_q_inst := (op_q_inst c)[x := (inst c x)\<lparr>op_signal :=
        osal_raise_signal (op_signal (inst c x))\<rparr>]\<rparr>"
      using step W_Raise y len by (simp_all add: upd_op_eq)
    have nx: "x \<notin> set (q_items (active_op_q c))" using inv(2) W_Raise y by (simp add: res_inv_def)
    have "sender_res c' w' (rq, pc)" using pc nx len cd0
      by (auto simp: s sender_res_def busy_def waiting_def osal_raise_signal_def)
    moreover have "sender_answer c w (rq, pc) = sender_answer c' w' (rq, pc)"
      using pc len W_Raise y by (auto simp: s sender_answer_def answer_def pending_def)
    ultimately show ?thesis using rule [of w' c'] nx by (auto simp: s at_op_def handled_def W_Raise)
  qed (use inv(2) in \<open>auto simp: res_inv_def\<close>)
qed

section \<open>Runs without faults\<close>

lemma step_res:
  assumes "msg_step False s ev s'" and "own_inv (sy_ctx s) (sy_senders s) (sy_worker s)"
    and "res_inv (sy_ctx s) (sy_senders s) (sy_worker s)"
  shows "res_inv (sy_ctx s') (sy_senders s') (sy_worker s') \<and>
    answers (sy_ctx s') (sy_senders s') (sy_worker s') = answers (sy_ctx s) (sy_senders s) (sy_worker s) + mset ev"
  using assms
proof (induction rule: msg_step.induct)
  case (by_sender i s rq pc lk timed_out pc' c')
  then show ?case
    using sender_step_res [OF by_sender.prems by_sender.hyps(1,2), of pc' c'] by (auto simp: fault_ok_def)
next
  case (by_worker s sec usec w' c')
  then show ?case using worker_step_res [OF by_worker.prems by_worker.hyps(2)] by simp
qed

lemma start_res:
  assumes "msg_start rqs s"
  shows "res_inv (sy_ctx s) (sy_senders s) (sy_worker s) \<and> answers (sy_ctx s) (sy_senders s) (sy_worker s) = {#}"
proof -
  have ss: "sy_senders s = map (\<lambda>rq. (rq, S_Start)) rqs" "sy_worker s = W_Wait" and "q_items (active_op_q (sy_ctx s)) = []"
    using assms init_ok by (force simp: msg_start_def)+
  then show ?thesis
    by (simp add: res_inv_def busy_def sender_res_def waiting_def answers_def sender_answer_def comp_def sum_list_0)
qed

lemma run_res:
  assumes "msg_run False s n evs s'" and "msg_start rqs s"
  shows "res_inv (sy_ctx s') (sy_senders s') (sy_worker s') \<and> mset evs = answers (sy_ctx s') (sy_senders s') (sy_worker s')"
  using assms(1)
proof induction
  case run_start
  show ?case using start_res [OF assms(2)] by simp
next
  case (run_step n evs s' ev s'')
  then show ?case using step_res [OF run_step.hyps(2) run_inv [OF run_step.hyps(1) assms(2)]] by simp
qed

text \<open>Requests never change, and every event is what the handler of its operation returns.\<close>

lemma run_requests:
  "msg_run faults s n evs s' \<Longrightarrow> map fst (sy_senders s') = map fst (sy_senders s)"
proof (induction rule: msg_run.induct)
  case (run_step n evs s' ev s'')
  from run_step.hyps(2) show ?case
  proof cases
    case (by_sender i rq pc lk timed_out pc' c')
    have "(map fst (sy_senders s'))[i := rq] = map fst (sy_senders s')"
      using by_sender(3,4) by (intro list_update_same_conv [THEN iffD2]) simp_all
    then show ?thesis using by_sender run_step.IH by (simp add: map_update)
  qed (use run_step.IH in simp)
qed simp

lemma step_funcs:
  assumes "msg_step faults s ev s'"
  shows "op_func (sy_ctx s') = op_func (sy_ctx s) \<and> op_func_size (sy_ctx s') = op_func_size (sy_ctx s)"
proof -
  have upd: "op_func c' = op_func c \<and> op_func_size c' = op_func_size c" if "upd_op x f c = Some c'" for x f and c c' :: "'s msg_thread_ctx"
    using that by (auto simp: upd_op_def split: Option.bind_splits)
  have dec: "op_func c' = op_func c \<and> op_func_size c' = op_func_size c" if "dec_and_test x c = Some (b, c')" for x b and c c' :: "'s msg_thread_ctx"
    using that by (auto simp: dec_and_test_def split: Option.bind_splits dest: upd)
  have put: "op_func c' = op_func c \<and> op_func_size c' = op_func_size c" if "msg_evt_put_op_to_free_queue lk x c = Some (r, c')"
    for lk x r and c c' :: "'s msg_thread_ctx"
    using that by (auto simp: msg_evt_put_op_to_free_queue_def split: Option.bind_splits)
  have s: "op_func c' = op_func c \<and> op_func_size c' = op_func_size c" if "sender_step lk to rq pc c = Some (pc', c')"
    for lk to rq pc pc' and c c' :: "'s msg_thread_ctx"
    using that by (cases pc) (auto split: if_splits option.splits Option.bind_splits dest: upd dec put)
  have w: "op_func c' = op_func c \<and> op_func_size c' = op_func_size c" if "worker_step 0 sec usec w c = Some (w', c')"
    for sec usec w w' and c c' :: "'s msg_thread_ctx"
    using that by (cases w) (auto simp: msg_evt_set_current_op_def Let_def split: Option.bind_splits dest!: upd dec put)
  from assms show ?thesis by cases (auto dest: s w)
qed

lemma run_funcs:
  "msg_run faults s n evs s' \<Longrightarrow> op_func (sy_ctx s') = op_func (sy_ctx s) \<and> op_func_size (sy_ctx s') = op_func_size (sy_ctx s)"
  by (induction rule: msg_run.induct) (auto dest: step_funcs)

definition handler_result :: "'s msg_thread_ctx \<Rightarrow> msg_op_data \<times> int \<Rightarrow> bool" where
  "handler_result c = (\<lambda>(d, ret). \<exists>e d' e'. msg_evt_opid_handler (c\<lparr>driver := e\<rparr>) d = Some (ret, d', e'))"

lemma handler_result_cong:
  "op_func c' = op_func c \<Longrightarrow> op_func_size c' = op_func_size c \<Longrightarrow> handler_result c' = handler_result c"
  by (simp add: handler_result_def msg_evt_opid_handler_def fun_eq_iff Let_def cong: if_cong option.case_cong)

lemma step_events:
  assumes "msg_step faults s ev s'"
  shows "\<forall>e \<in> set ev. handler_result (sy_ctx s) e"
proof -
  have "handler_result c (op_op (inst c x), ret)" if "worker_step 0 sec usec (W_Run x) c = Some (W_Drop y ret, c')"
    for sec usec x y ret and c c' :: "'s msg_thread_ctx"
  proof -
    from that obtain h d e where "msg_evt_opid_handler (c\<lparr>op_history := h, cur_op := Some x\<rparr>) (op_op (inst c x)) = Some (ret, d, e)"
      by (auto simp: msg_evt_set_current_op_def Let_def arr_get_def split: if_splits Option.bind_splits)
    then have "msg_evt_opid_handler (c\<lparr>driver := driver c\<rparr>) (op_op (inst c x)) = Some (ret, d, e)"
      by (simp add: msg_evt_opid_handler_def Let_def cong: if_cong option.case_cong)
    then show ?thesis unfolding handler_result_def case_prod_conv by blast
  qed
  with assms show ?thesis by cases (auto simp: handled_def split: worker_pc.splits)
qed

lemma run_events:
  "msg_run faults s n evs s' \<Longrightarrow> \<forall>e \<in> set evs. handler_result (sy_ctx s) e"
proof (induction rule: msg_run.induct)
  case (run_step n evs s' ev s'')
  have "handler_result (sy_ctx s') = handler_result (sy_ctx s)"
    using run_funcs [OF run_step.hyps(1)] by (intro handler_result_cong) simp_all
  then show ?case using run_step.IH step_events [OF run_step.hyps(2)] by auto
qed simp

section \<open>No sender waits forever\<close>

definition returned :: "sender_pc \<Rightarrow> bool" where
  "returned pc \<longleftrightarrow> pc = S_NoOp \<or> (\<exists>ret. pc = S_Done ret)"

lemma sender_moves:
  "sender_step 0 to rq pc c = Some (pc, c') \<Longrightarrow>
     returned pc \<or> (\<exists>x. pc = S_Wait x \<and> \<not> to \<and> comp_done (op_signal (inst c x)) = 0)"
  by (cases pc) (auto simp: returned_def osal_wait_for_signal_timeout_def arr_get_def
      split: if_splits option.splits Option.bind_splits)

lemma stuck:
  assumes inv: "own_inv (sy_ctx s) (sy_senders s) (sy_worker s)"
    and res: "faults \<or> res_inv (sy_ctx s) (sy_senders s) (sy_worker s)"
    and no: "\<And>ev s'. \<not> msg_step faults s ev s'"
  shows "sy_worker s = W_Wait" "q_items (active_op_q (sy_ctx s)) = []" "\<forall>(rq, pc) \<in> set (sy_senders s). returned pc"
proof -
  obtain w' c' where "worker_step 0 0 0 (sy_worker s) (sy_ctx s) = Some (w', c')" using worker_step_inv [OF inv] by blast
  then have "sy_worker s = W_Wait \<and> \<not> msg_evt_wait_event_checker (sy_ctx s)" using no by_worker by blast
  then show w: "sy_worker s = W_Wait" "q_items (active_op_q (sy_ctx s)) = []"
    by (simp_all add: msg_evt_wait_event_checker_def empty_iff)
  show "\<forall>(rq, pc) \<in> set (sy_senders s). returned pc"
  proof (intro ballI case_prodI2 allI impI)
    fix p rq pc
    assume "p \<in> set (sy_senders s)" "p = (rq, pc)"
    then obtain i where i: "i < length (sy_senders s)" "sy_senders s ! i = (rq, pc)" by (metis in_set_conv_nth)
    obtain pc' c' where st: "sender_step 0 faults rq pc (sy_ctx s) = Some (pc', c')"
      using sender_step_inv [OF inv i, of 0 faults] by auto
    then have "pc' = pc" using no by_sender [OF i, of faults 0 faults] by (auto simp: fault_ok_def)
    with sender_moves [of faults rq pc "sy_ctx s" c'] st
    consider "returned pc" | x where "pc = S_Wait x" "\<not> faults" "comp_done (op_signal (inst (sy_ctx s) x)) = 0" by blast
    then show "returned pc"
    proof cases
      case 2
      then have "sender_res (sy_ctx s) (sy_worker s) (rq, S_Wait x)" using res i by (metis res_inv_def)
      with 2 w show ?thesis by (auto simp: sender_res_def waiting_def busy_def)
    qed
  qed
qed

lemma all_free:
  assumes inv: "own_inv c ss W_Wait" and "q_items (active_op_q c) = []" "\<forall>(rq, pc) \<in> set ss. returned pc"
  shows "mset (q_items (free_op_q c)) = mset [0..<64]"
proof (rule multiset_eqI)
  fix y
  have "own_of pc = None \<and> ref_of pc = None" if "(rq, pc) \<in> set ss" for rq pc
    using assms(3) that by (auto simp: returned_def)
  then have "owns ss y = 0 \<and> srefs ss y = 0" by (auto simp: owns_def srefs_def sum_list_eq_0_iff)
  moreover have "wrefs c W_Wait y = 0" using assms(2) by (simp add: wrefs_def)
  ultimately have "frees c y = of_bool (y < 64)" using own_inv_places [OF inv, of y] by (simp add: places_def)
  then show "count (mset (q_items (free_op_q c))) y = count (mset [0..<64]) y"
    by (simp add: frees_def count_mset distinct_count_atmost_1 [THEN iffD1, rule_format, of "[0..<64]" y, unfolded count_mset])
qed

end
