(* ===== verification/Msg_Sample.thy ===== *)
theory Msg_Sample
  imports Msg_Results
begin

text \<open>
  A thread with one handler, and schedules of its steps: a schedule that can be executed is a run.
\<close>

section \<open>Schedules\<close>

datatype choice = By_Sender nat int bool | By_Worker

fun sched_step :: "bool \<Rightarrow> choice \<Rightarrow> 's msg_sys \<Rightarrow> ('s msg_sys \<times> (msg_op_data \<times> int) list) option" where
  "sched_step faults (By_Sender i lk timed_out) s =
     (if i < length (sy_senders s) then
        let (rq, pc) = sy_senders s ! i in
        if (lk = 0 \<or> faults \<and> own_of pc = None) \<and> (timed_out \<longrightarrow> faults) then
          (case sender_step lk timed_out rq pc (sy_ctx s) of
             None \<Rightarrow> None
           | Some (pc', c') \<Rightarrow>
               if pc' = pc then None else Some (s\<lparr>sy_ctx := c', sy_senders := (sy_senders s)[i := (rq, pc')]\<rparr>, []))
        else None
      else None)"
| "sched_step faults By_Worker s =
     (if sy_worker s = W_Wait \<and> \<not> msg_evt_wait_event_checker (sy_ctx s) then None
      else case worker_step 0 0 0 (sy_worker s) (sy_ctx s) of
             None \<Rightarrow> None
           | Some (w', c') \<Rightarrow> Some (s\<lparr>sy_ctx := c', sy_worker := w'\<rparr>, handled (sy_ctx s) (sy_worker s) w'))"

lemma sched_step_ok: "sched_step faults ch s = Some (s', ev) \<Longrightarrow> msg_step faults s ev s'"
proof (cases ch)
  case (By_Sender i lk timed_out)
  assume "sched_step faults ch s = Some (s', ev)"
  with By_Sender obtain rq pc pc' c' where "i < length (sy_senders s)" "sy_senders s ! i = (rq, pc)"
    "lk = 0 \<or> faults \<and> own_of pc = None" "timed_out \<longrightarrow> faults" "sender_step lk timed_out rq pc (sy_ctx s) = Some (pc', c')"
    "pc' \<noteq> pc" and eq: "s' = s\<lparr>sy_ctx := c', sy_senders := (sy_senders s)[i := (rq, pc')]\<rparr>" "ev = []"
    by (auto split: if_splits prod.splits option.splits)
  moreover from this(3,4) have "fault_ok faults pc lk timed_out" by (auto simp: fault_ok_def)
  ultimately show "msg_step faults s ev s'" using by_sender [of i s rq pc faults lk timed_out pc' c'] eq by simp
next
  case By_Worker
  assume "sched_step faults ch s = Some (s', ev)"
  then show "msg_step faults s ev s'"
    using By_Worker by_worker [of s 0 0 _ _ faults] by (auto split: if_splits prod.splits option.splits)
qed

fun sched_run :: "bool \<Rightarrow> choice list \<Rightarrow> 's msg_sys \<Rightarrow> ('s msg_sys \<times> (msg_op_data \<times> int) list) option" where
  "sched_run faults [] s = Some (s, [])"
| "sched_run faults (ch # chs) s =
     (case sched_step faults ch s of
        None \<Rightarrow> None
      | Some (s', ev) \<Rightarrow> (case sched_run faults chs s' of None \<Rightarrow> None | Some (s'', evs) \<Rightarrow> Some (s'', ev @ evs)))"

lemma run_first:
  "msg_run faults s' n evs s'' \<Longrightarrow> msg_step faults s ev s' \<Longrightarrow> msg_run faults s (Suc n) (ev @ evs) s''"
proof (induction rule: msg_run.induct)
  case run_start
  then show ?case using run_step [OF msg_run.run_start] by fastforce
next
  case (run_step n evs s1 ev' s2)
  then show ?case using msg_run.run_step [of faults s "Suc n" "ev @ evs" s1 ev' s2] by simp
qed

lemma sched_run_ok: "sched_run faults chs s = Some (s', evs) \<Longrightarrow> msg_run faults s (length chs) evs s'"
proof (induction chs arbitrary: s evs)
  case Nil
  then show ?case by (auto intro: run_start)
next
  case (Cons ch chs)
  then obtain s1 ev evs' where "sched_step faults ch s = Some (s1, ev)" "sched_run faults chs s1 = Some (s', evs')" "evs = ev @ evs'"
    by (auto split: option.splits prod.splits)
  then show ?case using Cons.IH run_first sched_step_ok by fastforce
qed

section \<open>A thread\<close>

text \<open>The handler with the number one returns the first data of its operation.\<close>

definition sample_funcs :: "unit msg_opid_func option list" where
  "sample_funcs = [None, Some (\<lambda>d e. (sint (hd (op_data d)), d, e))]"

definition sample_thread :: "unit msg_thread_ctx" where
  "sample_thread = snd (the (msg_thread_init 0 0 False 4096 sample_funcs 2 ()))"

definition sample_sys :: "u64 list \<Rightarrow> unit msg_sys" where
  "sample_sys ds = \<lparr>sy_ctx = sample_thread, sy_senders = map (\<lambda>d. (msg_thread_send_wait_1 1 100 d, S_Start)) ds, sy_worker = W_Wait\<rparr>"

lemma sample_init: "msg_thread_init 0 0 False 4096 sample_funcs 2 () = Some (0, sample_thread)"
proof -
  have "msg_thread_init 0 0 False 4096 sample_funcs 2 () \<noteq> None" by code_simp
  moreover have "r = 0" if "msg_thread_init 0 0 False 4096 sample_funcs 2 () = Some (r, c)" for r c
    using that by (auto simp: msg_thread_init_def Let_def split: Option.bind_splits)
  ultimately show ?thesis by (fastforce simp: sample_thread_def)
qed

lemma sample_start: "msg_start (map (msg_thread_send_wait_1 1 100) ds) (sample_sys ds)"
proof -
  have "request_ok (msg_thread_send_wait_1 1 100 d)" for d
    by (simp add: request_ok_def msg_thread_send_wait_1_def msg_thread_send_wait_3_def MSG_THREAD_OP_DATA_SIZE_def)
  then show ?thesis
    using sample_init by (fastforce simp: msg_start_def sample_sys_def sample_funcs_def comp_def)
qed

text \<open>A sender from its request to its return.\<close>

definition sample_run :: "choice list" where
  "sample_run = replicate 3 (By_Sender 0 0 False) @ replicate 2 By_Worker @ [By_Sender 0 0 False] @ replicate 4 By_Worker @
     replicate 4 (By_Sender 0 0 False)"

lemma sample_run_result:
  "map_option (\<lambda>(s, evs). (map snd (sy_senders s), evs)) (sched_run False sample_run (sample_sys [7])) =
     Some ([S_Done 7], [(request_data (msg_thread_send_wait_1 1 100 7), 7)])"
  by code_simp

text \<open>The time of the first sender is up between the thread's giving up its reference and its reading the timeout; the
  operation goes through the free queue, which the other senders empty, to the last sender.\<close>

definition stale_run :: "choice list" where
  "stale_run = replicate 4 (By_Sender 0 0 False) @ replicate 3 By_Worker @ [By_Sender 0 0 True] @
     replicate 3 (By_Sender 0 0 False) @ map (\<lambda>i. By_Sender i 0 False) [1..<64] @
     replicate 4 (By_Sender 64 0 False) @ replicate 3 By_Worker @ replicate 3 (By_Sender 64 0 False)"

lemma stale_run_result:
  "map_option (\<lambda>(s, evs). (snd (sy_senders s ! 0), snd (sy_senders s ! 64), evs))
     (sched_run True stale_run (sample_sys (7 # replicate 63 8 @ [9]))) =
     Some (S_Done (- 9), S_Done 7, [(request_data (msg_thread_send_wait_1 1 100 7), 7)])"
  by code_simp

end
