(* ===== verification/Conn_Properties.thy ===== *)
theory Conn_Properties
  imports Msg_Sample
begin

text \<open>
  The properties of the base library of \<open>conninfra\<close>: the ring buffer, the history of operations and the message
  threads.
\<close>

section \<open>Ring buffer\<close>

text \<open>C28: A pass over the ring for reading or writing \<open>sz\<close> units covers as many as the ring holds, or
  has room for, in at most two segments: the cells follow each other modulo the size of the ring,
  the positions in the data outside follow each other too, and the read or write position moves by
  that number, also when the 32-bit positions wrap around.\<close>

theorem ring_pass_cells:
  assumes "unat (ring_max_size r) = 2 ^ k" and "RING_SIZE r \<le> ring_max_size r"
  shows "(\<exists>segs. RING_READ_FOR_EACH sz (\<lambda>seg segs. Some (segs @ [seg])) r [] =
        Some (r\<lparr>ring_read := ring_read r + min sz (RING_SIZE r)\<rparr>, segs) \<and> length segs \<le> 2 \<and>
      concat (map (seg_cells (ring_base r)) segs) =
        map (\<lambda>i. (i, (unat (ring_read r) + i) mod unat (ring_max_size r))) [0..<unat (min sz (RING_SIZE r))]) \<and>
    (\<exists>segs. RING_WRITE_FOR_EACH sz (\<lambda>seg segs. Some (segs @ [seg])) r [] =
        Some (r\<lparr>ring_write := ring_write r + min sz (RING_WRITE_REMAIN_SIZE r)\<rparr>, segs) \<and> length segs \<le> 2 \<and>
      concat (map (seg_cells (ring_base r)) segs) =
        map (\<lambda>i. (i, (unat (ring_write r) + i) mod unat (ring_max_size r))) [0..<unat (min sz (RING_WRITE_REMAIN_SIZE r))])"
proof -
  have rd: "unat (min sz (RING_SIZE r)) \<le> unat (ring_max_size r)"
    using assms(2) by (auto simp: min_def word_le_nat_alt)
  have wr: "unat (min sz (RING_WRITE_REMAIN_SIZE r)) \<le> unat (ring_max_size r)"
    using assms(2) by (auto simp: min_def word_le_nat_alt RING_WRITE_REMAIN_SIZE_def unat_sub)
  show ?thesis
    using rd.run_cells [OF assms(1) rd] wr.run_cells [OF assms(1) wr]
    unfolding RING_READ_run RING_WRITE_run by (simp add: ring_read_commit_def ring_write_commit_def)
qed

theorem ring_pass_cells_sample:
  "\<exists>segs. RING_READ_FOR_EACH 100 (\<lambda>seg segs. Some (segs @ [seg])) (ring_init 4096 16 0xFFFFFFFE 12) [] =
     Some (ring_init 4096 16 12 12, segs) \<and> length segs \<le> 2 \<and>
   concat (map (seg_cells 4096) segs) = map (\<lambda>i. (i, (14 + i) mod 16)) [0..<14]"
proof -
  have "(4294967294 + i) mod 16 = (14 + i) mod 16" for i :: nat using mod_add_left_eq [of 4294967294 16 i] by simp
  then show ?thesis
    using conjunct1 [OF ring_pass_cells [of "ring_init 4096 16 0xFFFFFFFE 12" 4 100]]
    by (simp add: ring_init_def RING_SIZE_def min_def)
qed

section \<open>History of operations\<close>

text \<open>C29: Whatever operations a thread has handled, printing its history shows the last ones in the
  order they were handled, as many as the history has entries, and leaves the history as it was.\<close>

theorem history_shows_last:
  assumes "unat queue_size = 2 ^ k" and "hist_dump h0 = None" and "\<forall>op \<in> set ops. op_fits op"
  shows "\<exists>h h'. save_all ops (osal_op_history_init addr queue_size True h0) = Some h \<and>
    osal_op_history_print base True h = Some h' \<and>
    osal_op_history_print_work h' = Some (drop (length ops - unat queue_size) (map saved_entry ops), h)"
proof -
  let ?h0 = "osal_op_history_init addr queue_size True h0"
  have dump: "hist_dump ?h0 = None" by (simp add: osal_op_history_init_def assms(2))
  obtain h where h: "save_all ops ?h0 = Some h" "history_holds h (unat queue_size) (map saved_entry ops)"
    "hist_dump h = None"
    using save_all_holds [OF history_init_holds assms(1,3), of addr h0] dump by auto
  then show ?thesis using history_print_last [OF h(2) assms(1) h(3)] by auto
qed

text \<open>The size of the history is read before its lock is taken: when an operation is saved in
  between and the history was not full, the copy that is made is one entry short and printing reads
  behind its end.\<close>

theorem history_print_races:
  assumes "unat queue_size = 2 ^ k" and "hist_dump h0 = None" and "\<forall>op \<in> set (ops @ [(address, op, sec, usec)]). op_fits op"
    and "save_all ops (osal_op_history_init addr queue_size True h0) = Some h" and "length ops < unat queue_size"
  shows "\<exists>h' h''. msg_op_history_save h address op sec usec = Some h' \<and>
    history_print_locked (RING_SIZE (ring_buffer h)) base True h' = Some h'' \<and> osal_op_history_print_work h'' = None"
proof -
  let ?h0 = "osal_op_history_init addr queue_size True h0"
  let ?es = "map saved_entry (ops @ [(address, op, sec, usec)])"
  have h: "history_holds h (unat queue_size) (map saved_entry ops)" "hist_dump h = None"
    using save_all_holds [OF history_init_holds assms(1), of ops addr h0] assms by (auto simp: osal_op_history_init_def)
  have fits: "history_entry address op sec usec = Some (saved_entry (address, op, sec, usec))"
    using assms(3) by (intro history_entry_fits) simp
  obtain h' where h': "msg_op_history_save h address op sec usec = Some h'" "history_holds h' (unat queue_size) ?es"
    using history_save_holds [OF h(1) assms(1) fits] by auto
  have size: "unat (RING_SIZE (ring_buffer h)) = length ops" using history_size(1) [OF h(1) assms(1)] assms(5) by simp
  show ?thesis
    using history_print_short [OF h'(2) assms(1), of "RING_SIZE (ring_buffer h)" base] h'(1) size assms(5)
      history_save_keeps [OF h'(1)] h(2) by auto
qed

section \<open>Samples\<close>

definition sample_op :: "u32 \<Rightarrow> saved_op" where
  "sample_op i = (unat i, zero_op\<lparr>op_op := (op_op zero_op)\<lparr>op_id := i\<rparr>\<rparr>, 5, 0)"

definition empty_history :: osal_op_history where
  "empty_history = \<lparr>ring_buffer = ring_init 0 0 0 0, hist_queue = None, hist_dump = None\<rparr>"

lemma sample_op_fits: "op_fits (sample_op i)"
  by (simp add: sample_op_def op_fits_def zero_op_def MSG_THREAD_OP_DATA_SIZE_def)

theorem history_shows_last_sample:
  "\<exists>h h'. save_all (map sample_op [1, 2, 3, 4, 5, 6]) (osal_op_history_init 64 4 True empty_history) = Some h \<and>
    osal_op_history_print 4096 True h = Some h' \<and>
    osal_op_history_print_work h' = Some (map (\<lambda>i. saved_entry (sample_op i)) [3, 4, 5, 6], h)"
  using history_shows_last [of 4 2 empty_history "map sample_op [1, 2, 3, 4, 5, 6]" 64 4096]
  by (simp add: sample_op_fits empty_history_def)

theorem history_print_races_sample:
  "\<exists>h h' h''. save_all [sample_op 1] (osal_op_history_init 64 4 True empty_history) = Some h \<and>
    msg_op_history_save h 2 (fst (snd (sample_op 2))) 5 0 = Some h' \<and>
    history_print_locked (RING_SIZE (ring_buffer h)) 4096 True h' = Some h'' \<and> osal_op_history_print_work h'' = None"
proof -
  have two: "sample_op 2 = (2, fst (snd (sample_op 2)), 5, 0)" by (simp add: sample_op_def)
  obtain h where h: "save_all [sample_op 1] (osal_op_history_init 64 4 True empty_history) = Some h"
    using save_all_holds [OF history_init_holds, of 4 2 "[sample_op 1]" 64 empty_history] sample_op_fits [of 1] by auto
  with history_print_races [of 4 2 empty_history "[sample_op 1]" 2 "fst (snd (sample_op 2))" 5 0 64 h 4096] two
  show ?thesis by (simp add: sample_op_fits empty_history_def)
qed

section \<open>Message threads\<close>


text \<open>C31: When no sender runs out of time or is killed, a sender that returns a result returns what the handler made of its own
  request, every request is handled at most once, and when all senders have returned, the requests that were handled
  are those of the senders that got an operation, each with its result.\<close>

theorem msg_exactly_once:
  assumes "msg_start rqs s" and "msg_run False s n evs s'"
  shows "map fst (sy_senders s') = rqs \<and> (\<forall>e \<in> set evs. handler_result (sy_ctx s) e) \<and>
    mset [(request_data rq, ret). (rq, S_Done ret) \<leftarrow> sy_senders s'] \<subseteq># mset evs \<and>
    ((\<forall>(rq, pc) \<in> set (sy_senders s'). returned pc) \<longrightarrow>
      mset evs = mset [(request_data rq, ret). (rq, S_Done ret) \<leftarrow> sy_senders s'])"
proof (intro conjI impI)
  let ?c = "sy_ctx s'" and ?w = "sy_worker s'" and ?ss = "sy_senders s'"
  have "map fst (sy_senders s) = rqs" using assms(1) by (auto simp: msg_start_def comp_def)
  then show "map fst ?ss = rqs" using run_requests [OF assms(2)] by simp
  show "\<forall>e \<in> set evs. handler_result (sy_ctx s) e" by (rule run_events [OF assms(2)])
  have evs: "mset evs = answers ?c ?ss ?w" using run_res [OF assms(2,1)] by simp
  have "mset [(request_data rq, ret). (rq, S_Done ret) \<leftarrow> ss] \<subseteq># answers c ss w" for ss w and c :: "'a msg_thread_ctx"
  proof (induction ss)
    case (Cons p ss)
    have "answers c (p # ss) w = sender_answer c w p + answers c ss w" by (simp add: answers_def)
    moreover have "mset [(request_data rq, ret). (rq, S_Done ret) \<leftarrow> [p]] \<subseteq># sender_answer c w p"
      by (cases p; cases "snd p") (auto simp: sender_answer_def)
    ultimately show ?case using subset_mset.add_mono [OF _ Cons.IH] by simp
  qed (simp add: answers_def)
  then show "mset [(request_data rq, ret). (rq, S_Done ret) \<leftarrow> ?ss] \<subseteq># mset evs" by (simp add: evs)
  assume "\<forall>(rq, pc) \<in> set ?ss. returned pc"
  moreover have "answers c ss w = mset [(request_data rq, ret). (rq, S_Done ret) \<leftarrow> ss]"
    if "\<forall>(rq, pc) \<in> set ss. returned pc" for ss w and c :: "'a msg_thread_ctx"
    using that
  proof (induction ss)
    case (Cons p ss)
    then show ?case by (cases p; cases "snd p") (auto simp: answers_def sender_answer_def returned_def)
  qed (simp add: answers_def)
  ultimately show "mset evs = mset [(request_data rq, ret). (rq, S_Done ret) \<leftarrow> ?ss]" by (simp add: evs)
qed


text \<open>C40: With a timeout a sender may get the result of another one: the thread uses the operation after it has given its
  reference up, when the sender whose time is up has put the operation back and another sender has taken it.\<close>

theorem stale_result:
  "\<exists>s'. msg_start (map (msg_thread_send_wait_1 1 100) (7 # replicate 63 8 @ [9])) (sample_sys (7 # replicate 63 8 @ [9])) \<and>
     msg_run True (sample_sys (7 # replicate 63 8 @ [9])) (length stale_run)
       [(request_data (msg_thread_send_wait_1 1 100 7), 7)] s' \<and>
     sy_senders s' ! 64 = (msg_thread_send_wait_1 1 100 9, S_Done 7)"
proof -
  let ?s = "sample_sys (7 # replicate 63 8 @ [9])"
  obtain s' where s': "sched_run True stale_run ?s = Some (s', [(request_data (msg_thread_send_wait_1 1 100 7), 7)])"
    "snd (sy_senders s' ! 64) = S_Done 7"
    using stale_run_result by fastforce
  note run = sched_run_ok [OF s'(1)]
  have "map fst (sy_senders s') = map (msg_thread_send_wait_1 1 100) (7 # replicate 63 8 @ [9])"
    using run_requests [OF run] by (simp add: sample_sys_def comp_def)
  then have "map fst (sy_senders s') ! 64 = msg_thread_send_wait_1 1 100 9" "length (sy_senders s') = 65"
    by (simp_all add: nth_append flip: length_map [of fst])
  then have "fst (sy_senders s' ! 64) = msg_thread_send_wait_1 1 100 9" by simp
  with s'(2) run sample_start show ?thesis by (metis prod.collapse)
qed

text \<open>A thread and one sender, from the start to the return.\<close>

lemma sample_run_ends:
  obtains s' where "msg_run False (sample_sys [7]) 14 [(request_data (msg_thread_send_wait_1 1 100 7), 7)] s'"
    and "map snd (sy_senders s') = [S_Done 7]"
proof -
  obtain s' where "sched_run False sample_run (sample_sys [7]) = Some (s', [(request_data (msg_thread_send_wait_1 1 100 7), 7)])"
    "map snd (sy_senders s') = [S_Done 7]"
    using sample_run_result by fastforce
  then show ?thesis using that sched_run_ok [of False sample_run] by (fastforce simp: sample_run_def)
qed


theorem msg_exactly_once_sample:
  "\<exists>s'. msg_run False (sample_sys [7]) 14 [(request_data (msg_thread_send_wait_1 1 100 7), 7)] s' \<and>
     sy_senders s' = [(msg_thread_send_wait_1 1 100 7, S_Done 7)]"
proof -
  obtain s' where s': "msg_run False (sample_sys [7]) 14 [(request_data (msg_thread_send_wait_1 1 100 7), 7)] s'"
    "map snd (sy_senders s') = [S_Done 7]" by (rule sample_run_ends)
  from msg_exactly_once [OF sample_start s'(1)] have "map fst (sy_senders s') = [msg_thread_send_wait_1 1 100 7]" by simp
  with s' have "sy_senders s' = [(msg_thread_send_wait_1 1 100 7, S_Done 7)]"
    by (auto simp: map_eq_Cons_conv)
  with s'(1) show ?thesis by blast
qed


end
