(* ===== verification/Consys_Hw.thy ===== *)
theory Consys_Hw
  imports Prelude
begin

text \<open>
  The platform layer of \<open>conninfra\<close> (\<open>platform/consys_hw.c\<close>, \<open>pmic_mng.c\<close>, \<open>emi_mng.c\<close>, \<open>consys_reg_mng.c\<close>): the order in
  which the power sequences call the functions of a chip, and the count of the wake-up requests.  The functions
  of a chip come in tables, as in the code, of which the records keep the members that are called here; each is a function on the rest of the world \<open>'w\<close> (the registers, and what
  the subsystem drivers keep), or is not there.  The calls are recorded in \<open>hw_calls\<close>, so that the properties can
  speak of them for every chip.  The delays are left out, and \<open>CONFIG_FPGA_EARLY_PORTING\<close> is off, as in \<open>7981.config\<close>.
\<close>

section \<open>Subsystems\<close>

abbreviation CONNDRV_TYPE_BT :: u32 where "CONNDRV_TYPE_BT \<equiv> 0"
abbreviation CONNDRV_TYPE_FM :: u32 where "CONNDRV_TYPE_FM \<equiv> 1"
abbreviation CONNDRV_TYPE_GPS :: u32 where "CONNDRV_TYPE_GPS \<equiv> 2"
abbreviation CONNDRV_TYPE_WIFI :: u32 where "CONNDRV_TYPE_WIFI \<equiv> 3"
abbreviation CONNDRV_TYPE_CONNINFRA :: u32 where "CONNDRV_TYPE_CONNINFRA \<equiv> 4"
abbreviation CONNDRV_TYPE_MAX :: u32 where "CONNDRV_TYPE_MAX \<equiv> 5"
abbreviation CONNINFRA_BUS_CLOCK_ALL :: u32 where "CONNINFRA_BUS_CLOCK_ALL \<equiv> 1"

section \<open>Functions of a chip\<close>

type_synonym 'w plt = "('w \<Rightarrow> int \<times> 'w) option"
type_synonym 'w plt_switch = "(bool \<Rightarrow> 'w \<Rightarrow> int \<times> 'w) option"

record 'w consys_hw_ops_struct =
  consys_plt_xtal_ctrl_fast_mode :: "'w plt"
  consys_plt_connsys_sw_reset_ctrl :: "'w plt_switch"
  consys_plt_set_if_pinmux :: "(bool \<Rightarrow> 'w \<Rightarrow> 'w) option"
  consys_plt_tx_rx_bus_slp_prot_ctrl :: "'w plt_switch"
  consys_plt_polling_consys_chipid :: "'w plt"
  consys_plt_bus_clock_ctrl :: "(u32 \<Rightarrow> u32 \<Rightarrow> 'w \<Rightarrow> int \<times> 'w) option"
  consys_plt_d_die_cfg :: "'w plt"
  consys_plt_conninfra_sysram_hw_ctrl :: "'w plt"
  consys_plt_spi_master_cfg :: "'w plt"
  consys_plt_a_die_cfg :: "'w plt"
  consys_plt_afe_wbg_cal :: "'w plt"
  consys_plt_subsys_pll_initial :: "'w plt"
  consys_plt_osc_legacy_mode :: "'w plt"
  consys_plt_top_pwr_ctrl :: "'w plt"
  consys_plt_conn_infra_bus_timeout :: "'w plt"
  consys_plt_clkgen_wpll_hw_ctrl :: "'w plt"
  consys_plt_conninfra_wakeup :: "'w plt"
  consys_plt_conninfra_sleep :: "'w plt"
  consys_plt_adie_top_ck_en_on_off_ctrl :: "(u32 \<Rightarrow> bool \<Rightarrow> 'w \<Rightarrow> int \<times> 'w) option"
  consys_plt_wpll_ctrl :: "'w plt_switch"
  consys_plt_conninfra_wf_wakeup :: "'w plt"
  consys_plt_conninfra_wf_sleep :: "'w plt"
  consys_plt_conn_wmcpu_sw_reset :: "'w plt_switch"
  consys_plt_wf_bus_slp_prot_ctrl :: "'w plt_switch"
  consys_plt_wfsys_top_on_ctrl :: "'w plt_switch"
  consys_plt_wfsys_bus_slp_prot_check :: "'w plt_switch"
  consys_plt_wfsys_bus_timeout_ctrl :: "'w plt"
  consys_plt_conn_wmcpu_idle_loop_check :: "'w plt"
  consys_plt_conninfra_wf_req_clr :: "'w plt"
  consys_plt_spi_read :: "(u32 \<Rightarrow> u32 \<Rightarrow> u32 \<Rightarrow> 'w \<Rightarrow> (int \<times> u32) \<times> 'w) option"
  consys_plt_spi_write :: "(u32 \<Rightarrow> u32 \<Rightarrow> u32 \<Rightarrow> 'w \<Rightarrow> int \<times> 'w) option"
  consys_plt_spi_clock_switch :: "(u32 \<Rightarrow> 'w \<Rightarrow> int \<times> 'w) option"
  consys_plt_power_state :: "'w plt"
  consys_plt_adie_type_check :: "'w plt"
  consys_plt_adie_type_cfg :: "'w plt"

record 'w consys_platform_pmic_ops =
  consys_pmic_wifi_power_ctrl :: "'w plt_switch"
  consys_pmic_bt_power_ctrl :: "'w plt_switch"
  consys_pmic_gps_power_ctrl :: "'w plt_switch"
  consys_pmic_fm_power_ctrl :: "'w plt_switch"
  consys_pmic_event_notifier :: "(u32 \<Rightarrow> u32 \<Rightarrow> 'w \<Rightarrow> int \<times> 'w) option"

record 'w consys_platform_emi_ops =
  consys_ic_emi_set_region_protection :: "'w plt"
  consys_ic_emi_set_remapping_reg :: "'w plt"

record 'w consys_reg_mng_ops =
  consys_reg_mng_check_reable :: "'w plt"
  consys_reg_mng_is_consys_reg_op :: "(u32 \<Rightarrow> 'w \<Rightarrow> int \<times> 'w) option"
  consys_reg_mng_is_bus_hang_op :: "'w plt"
  consys_reg_mng_is_host_csr_op :: "(u64 \<Rightarrow> 'w \<Rightarrow> int \<times> 'w) option"

text \<open>A call of one of them, with its switch or its arguments.\<close>

datatype plt_call =
    Xtal_Fast_Mode | Sw_Reset bool | If_Pinmux bool | Bus_Slp_Prot bool | Polling_Chipid
  | Bus_Clock u32 u32 | Emi_Remapping | Emi_Protection | D_Die_Cfg | Sysram_Hw | Spi_Master_Cfg | Adie_Type_Check
  | A_Die_Cfg | Afe_Wbg_Cal | Pll_Initial | Osc_Legacy | Top_Pwr | Bus_Timeout | Wpll_Hw
  | Conninfra_Wakeup | Conninfra_Sleep | Adie_Top_Ck_En u32 bool | Wpll bool
  | Wf_Wakeup | Wf_Sleep | Wmcpu_Sw_Reset bool | Wf_Bus_Slp_Prot bool | Wfsys_Top_On bool | Wfsys_Slp_Prot_Check bool
  | Wfsys_Bus_Timeout | Wmcpu_Idle_Loop_Check | Wf_Req_Clr | Adie_Type_Cfg
  | Spi_Read u32 u32 | Spi_Write u32 u32 u32 | Spi_Clock u32 | Power_State
  | Pmic u32 bool | Pmic_Event u32 u32 | Reg_Readable | Is_Consys_Reg u32 | Is_Bus_Hang | Is_Host_Csr u64
  | Reg_Read u64 u32 | Reg_Write u64 u32 u32

text \<open>The state of the layer: the tables (\<open>consys_hw_ops\<close>, and the three tables that may be missing), the count of wake-up
  requests \<open>g_conninfra_wakeup_ref_cnt\<close>, the world, and the calls made.  \<open>reg_map\<close>, \<open>reg_load\<close> and \<open>reg_store\<close> are
  \<open>ioremap_nocache\<close> and an access to the register at a physical address.\<close>

record 'w consys_hw =
  hw_ops :: "'w consys_hw_ops_struct"
  pmic_ops :: "'w consys_platform_pmic_ops option"
  emi_ops :: "'w consys_platform_emi_ops option"
  reg_ops :: "'w consys_reg_mng_ops option"
  reg_map :: "u64 \<Rightarrow> bool"
  reg_load :: "u64 \<Rightarrow> 'w \<Rightarrow> u32 \<times> 'w"
  reg_store :: "u64 \<Rightarrow> u32 \<Rightarrow> 'w \<Rightarrow> 'w"
  wakeup_ref_cnt :: int
  world :: 'w
  hw_calls :: "plt_call list"

text \<open>\<open>if (f) return f(...); return dflt;\<close> and, in \<open>plt_do\<close>, \<open>if (f) f(...);\<close>\<close>

definition plt_ret :: "plt_call \<Rightarrow> ('w \<Rightarrow> 'r \<times> 'w) option \<Rightarrow> 'r \<Rightarrow> 'w consys_hw \<Rightarrow> 'r \<times> 'w consys_hw" where
  "plt_ret c f dflt hw =
     (case f of
        None \<Rightarrow> (dflt, hw)
      | Some f \<Rightarrow>
          let (r, w) = f (world hw) in
          (r, hw\<lparr>world := w, hw_calls := hw_calls hw @ [c]\<rparr>))"

definition plt_do :: "plt_call \<Rightarrow> 'w plt \<Rightarrow> 'w consys_hw \<Rightarrow> 'w consys_hw" where
  "plt_do c f hw = snd (plt_ret c f 0 hw)"

definition sw :: "bool \<Rightarrow> 'w plt_switch \<Rightarrow> 'w plt" where
  "sw b f = map_option (\<lambda>f. f b) f"

section \<open>Wake-up requests\<close>

text \<open>The result of the wake-up function is kept in a \<open>bool\<close>, so that an error is returned as one.\<close>

definition consys_hw_force_conninfra_wakeup :: "'w consys_hw \<Rightarrow> int \<times> 'w consys_hw" where
  "consys_hw_force_conninfra_wakeup hw =
     (case consys_plt_conninfra_wakeup (hw_ops hw) of
        None \<Rightarrow> (0, hw)
      | Some f \<Rightarrow>
          if wakeup_ref_cnt hw = 0 then
            let (ret, hw) = plt_ret Conninfra_Wakeup (Some f) 0 hw in
            if ret \<noteq> 0 then (1, hw) else (0, hw\<lparr>wakeup_ref_cnt := wakeup_ref_cnt hw + 1\<rparr>)
          else (0, hw\<lparr>wakeup_ref_cnt := wakeup_ref_cnt hw + 1\<rparr>))"

definition consys_hw_force_conninfra_sleep :: "'w consys_hw \<Rightarrow> int \<times> 'w consys_hw" where
  "consys_hw_force_conninfra_sleep hw =
     (let hw = (case consys_plt_conninfra_sleep (hw_ops hw) of
                  None \<Rightarrow> hw
                | Some f \<Rightarrow>
                    let hw = hw\<lparr>wakeup_ref_cnt := wakeup_ref_cnt hw - 1\<rparr> in
                    if wakeup_ref_cnt hw = 0 then plt_do Conninfra_Sleep (Some f) hw else hw) in
      (0, if wakeup_ref_cnt hw < 0 then hw\<lparr>wakeup_ref_cnt := 0\<rparr> else hw))"

definition consys_hw_adie_top_ck_en_on :: "u32 \<Rightarrow> 'w consys_hw \<Rightarrow> int \<times> 'w consys_hw" where
  "consys_hw_adie_top_ck_en_on ty hw =
     plt_ret (Adie_Top_Ck_En ty True)
       (map_option (\<lambda>f. f ty True) (consys_plt_adie_top_ck_en_on_off_ctrl (hw_ops hw))) (- 1) hw"

definition consys_hw_adie_top_ck_en_off :: "u32 \<Rightarrow> 'w consys_hw \<Rightarrow> int \<times> 'w consys_hw" where
  "consys_hw_adie_top_ck_en_off ty hw =
     plt_ret (Adie_Top_Ck_En ty False)
       (map_option (\<lambda>f. f ty False) (consys_plt_adie_top_ck_en_on_off_ctrl (hw_ops hw))) (- 1) hw"

section \<open>Memory regions, registers and regulators\<close>

definition emi_mng_set_region_protection :: "'w consys_hw \<Rightarrow> int \<times> 'w consys_hw" where
  "emi_mng_set_region_protection hw =
     plt_ret Emi_Protection (Option.bind (emi_ops hw) consys_ic_emi_set_region_protection) (- 1) hw"

definition emi_mng_set_remapping_reg :: "'w consys_hw \<Rightarrow> int \<times> 'w consys_hw" where
  "emi_mng_set_remapping_reg hw =
     plt_ret Emi_Remapping (Option.bind (emi_ops hw) consys_ic_emi_set_remapping_reg) (- 1) hw"

definition consys_hw_reg_readable :: "'w consys_hw \<Rightarrow> int \<times> 'w consys_hw" where
  "consys_hw_reg_readable hw = plt_ret Reg_Readable (Option.bind (reg_ops hw) consys_reg_mng_check_reable) (- 1) hw"

definition consys_hw_is_connsys_reg :: "u32 \<Rightarrow> 'w consys_hw \<Rightarrow> int \<times> 'w consys_hw" where
  "consys_hw_is_connsys_reg addr hw =
     plt_ret (Is_Consys_Reg addr)
       (map_option (\<lambda>f. f addr) (Option.bind (reg_ops hw) consys_reg_mng_is_consys_reg_op)) (- 1) hw"

definition consys_hw_is_bus_hang :: "'w consys_hw \<Rightarrow> int \<times> 'w consys_hw" where
  "consys_hw_is_bus_hang hw = plt_ret Is_Bus_Hang (Option.bind (reg_ops hw) consys_reg_mng_is_bus_hang_op) (- 1) hw"

definition consys_reg_mng_is_host_csr :: "u64 \<Rightarrow> 'w consys_hw \<Rightarrow> int \<times> 'w consys_hw" where
  "consys_reg_mng_is_host_csr addr hw =
     plt_ret (Is_Host_Csr addr)
       (map_option (\<lambda>f. f addr) (Option.bind (reg_ops hw) consys_reg_mng_is_host_csr_op)) (- 1) hw"

text \<open>The value is \<^term>\<open>None\<close> when it has not been stored.\<close>

definition consys_reg_mng_reg_read :: "u64 \<Rightarrow> u32 \<Rightarrow> 'w consys_hw \<Rightarrow> (int \<times> u32 option) \<times> 'w consys_hw" where
  "consys_reg_mng_reg_read addr msk hw =
     (if \<not> reg_map hw addr then ((- 1, None), hw)
      else
        let (v, hw) = plt_ret (Reg_Read addr msk) (Some (reg_load hw addr)) 0 hw in
        ((0, Some (v AND msk)), hw))"

definition SET_BIT_MASK :: "u32 \<Rightarrow> u32 \<Rightarrow> u32 \<Rightarrow> u32" where
  "SET_BIT_MASK dest v msk = (dest AND NOT msk) OR (v AND msk)"

definition consys_reg_mng_reg_write :: "u64 \<Rightarrow> u32 \<Rightarrow> u32 \<Rightarrow> 'w consys_hw \<Rightarrow> int \<times> 'w consys_hw" where
  "consys_reg_mng_reg_write addr v msk hw =
     (if \<not> reg_map hw addr then (- 1, hw)
      else plt_ret (Reg_Write addr v msk)
             (Some (\<lambda>w. let (old, w) = reg_load hw addr w in (0, reg_store hw addr (SET_BIT_MASK old v msk) w))) 0 hw)"

definition pmic_mng_wifi_power_ctrl :: "bool \<Rightarrow> 'w consys_hw \<Rightarrow> int \<times> 'w consys_hw" where
  "pmic_mng_wifi_power_ctrl enable hw =
     plt_ret (Pmic CONNDRV_TYPE_WIFI enable) (sw enable (Option.bind (pmic_ops hw) consys_pmic_wifi_power_ctrl)) 0 hw"

definition pmic_mng_bt_power_ctrl :: "bool \<Rightarrow> 'w consys_hw \<Rightarrow> int \<times> 'w consys_hw" where
  "pmic_mng_bt_power_ctrl enable hw =
     plt_ret (Pmic CONNDRV_TYPE_BT enable) (sw enable (Option.bind (pmic_ops hw) consys_pmic_bt_power_ctrl)) 0 hw"

definition pmic_mng_gps_power_ctrl :: "bool \<Rightarrow> 'w consys_hw \<Rightarrow> int \<times> 'w consys_hw" where
  "pmic_mng_gps_power_ctrl enable hw =
     plt_ret (Pmic CONNDRV_TYPE_GPS enable) (sw enable (Option.bind (pmic_ops hw) consys_pmic_gps_power_ctrl)) 0 hw"

definition pmic_mng_fm_power_ctrl :: "bool \<Rightarrow> 'w consys_hw \<Rightarrow> int \<times> 'w consys_hw" where
  "pmic_mng_fm_power_ctrl enable hw =
     plt_ret (Pmic CONNDRV_TYPE_FM enable) (sw enable (Option.bind (pmic_ops hw) consys_pmic_fm_power_ctrl)) 0 hw"

definition consys_hw_pmic_event_cb :: "u32 \<Rightarrow> u32 \<Rightarrow> 'w consys_hw \<Rightarrow> int \<times> 'w consys_hw" where
  "consys_hw_pmic_event_cb i event hw =
     (0, plt_do (Pmic_Event i event)
           (map_option (\<lambda>f. f i event) (Option.bind (pmic_ops hw) consys_pmic_event_notifier)) hw)"

section \<open>Power sequences\<close>

text \<open>Parts 0 and 1, part 2, and part 3 of powering the chip on, and the sequence for WiFi.\<close>

definition pos_enable :: "'w consys_hw \<Rightarrow> 'w consys_hw" where
  "pos_enable hw =
     (let ops = hw_ops hw;
          hw = plt_do Xtal_Fast_Mode (consys_plt_xtal_ctrl_fast_mode ops) hw;
          hw = plt_do (Sw_Reset False) (sw False (consys_plt_connsys_sw_reset_ctrl ops)) hw;
          hw = plt_do (If_Pinmux True) (map_option (\<lambda>f w. (0, f True w)) (consys_plt_set_if_pinmux ops)) hw;
          hw = plt_do (Bus_Slp_Prot True) (sw True (consys_plt_tx_rx_bus_slp_prot_ctrl ops)) hw in
      plt_do Polling_Chipid (consys_plt_polling_consys_chipid ops) hw)"

definition pos_configure :: "u32 \<Rightarrow> 'w consys_hw \<Rightarrow> 'w consys_hw" where
  "pos_configure on_radio hw =
     (let ops = hw_ops hw;
          hw = plt_do (Bus_Clock on_radio CONNINFRA_BUS_CLOCK_ALL)
                 (map_option (\<lambda>f. f on_radio CONNINFRA_BUS_CLOCK_ALL) (consys_plt_bus_clock_ctrl ops)) hw;
          hw = snd (emi_mng_set_remapping_reg hw);
          hw = snd (emi_mng_set_region_protection hw);
          hw = plt_do D_Die_Cfg (consys_plt_d_die_cfg ops) hw;
          hw = plt_do Sysram_Hw (consys_plt_conninfra_sysram_hw_ctrl ops) hw;
          hw = plt_do Spi_Master_Cfg (consys_plt_spi_master_cfg ops) hw;
          hw = plt_do Adie_Type_Check (consys_plt_adie_type_check ops) hw;
          hw = plt_do A_Die_Cfg (consys_plt_a_die_cfg ops) hw;
          hw = plt_do Afe_Wbg_Cal (consys_plt_afe_wbg_cal ops) hw;
          hw = plt_do Pll_Initial (consys_plt_subsys_pll_initial ops) hw;
          hw = plt_do Osc_Legacy (consys_plt_osc_legacy_mode ops) hw;
          hw = plt_do Top_Pwr (consys_plt_top_pwr_ctrl ops) hw;
          hw = plt_do Bus_Timeout (consys_plt_conn_infra_bus_timeout ops) hw in
      plt_do Wpll_Hw (consys_plt_clkgen_wpll_hw_ctrl ops) hw)"

definition pos_low_power :: "u32 \<Rightarrow> 'w consys_hw \<Rightarrow> 'w consys_hw" where
  "pos_low_power on_radio hw =
     (let hw = snd (consys_hw_force_conninfra_wakeup hw);
          hw = snd (consys_hw_adie_top_ck_en_on on_radio hw) in
      snd (consys_hw_force_conninfra_sleep hw))"

definition wfsys_on :: "'w consys_hw \<Rightarrow> 'w consys_hw" where
  "wfsys_on hw =
     (let ops = hw_ops hw;
          hw = plt_do Wf_Wakeup (consys_plt_conninfra_wf_wakeup ops) hw;
          hw = plt_do (Wmcpu_Sw_Reset True) (sw True (consys_plt_conn_wmcpu_sw_reset ops)) hw;
          hw = plt_do (Wf_Bus_Slp_Prot False) (sw False (consys_plt_wf_bus_slp_prot_ctrl ops)) hw;
          hw = plt_do (Wfsys_Top_On True) (sw True (consys_plt_wfsys_top_on_ctrl ops)) hw;
          hw = plt_do (Wfsys_Slp_Prot_Check True) (sw True (consys_plt_wfsys_bus_slp_prot_check ops)) hw;
          hw = plt_do Wfsys_Bus_Timeout (consys_plt_wfsys_bus_timeout_ctrl ops) hw;
          hw = plt_do (Wmcpu_Sw_Reset False) (sw False (consys_plt_conn_wmcpu_sw_reset ops)) hw;
          hw = plt_do Wmcpu_Idle_Loop_Check (consys_plt_conn_wmcpu_idle_loop_check ops) hw in
      plt_do Adie_Type_Cfg (consys_plt_adie_type_cfg ops) hw)"

definition consys_hw_pwr_on :: "u32 \<Rightarrow> u32 \<Rightarrow> 'w consys_hw \<Rightarrow> int \<times> 'w consys_hw" where
  "consys_hw_pwr_on curr_status on_radio hw =
     (if curr_status = 0 then (0, pos_low_power on_radio (pos_configure on_radio (pos_enable hw)))
      else if on_radio = CONNDRV_TYPE_WIFI then (0, wfsys_on hw)
      else (0, hw))"

definition last_off :: "'w consys_hw \<Rightarrow> 'w consys_hw" where
  "last_off hw =
     (let ops = hw_ops hw;
          hw = snd (consys_hw_force_conninfra_wakeup hw);
          hw = snd (consys_hw_force_conninfra_sleep hw);
          hw = plt_do (Bus_Slp_Prot False) (sw False (consys_plt_tx_rx_bus_slp_prot_ctrl ops)) hw in
      plt_do (Sw_Reset True) (sw True (consys_plt_connsys_sw_reset_ctrl ops)) hw)"

definition wfsys_off :: "u32 \<Rightarrow> 'w consys_hw \<Rightarrow> 'w consys_hw" where
  "wfsys_off off_radio hw =
     (let ops = hw_ops hw;
          hw = plt_do Wf_Wakeup (consys_plt_conninfra_wf_wakeup ops) hw;
          hw = plt_do (Wf_Bus_Slp_Prot True) (sw True (consys_plt_wf_bus_slp_prot_ctrl ops)) hw;
          hw = plt_do (Wfsys_Slp_Prot_Check False) (sw False (consys_plt_wfsys_bus_slp_prot_check ops)) hw;
          hw = plt_do (Wpll False) (sw False (consys_plt_wpll_ctrl ops)) hw;
          hw = plt_do (Wfsys_Top_On False) (sw False (consys_plt_wfsys_top_on_ctrl ops)) hw;
          hw = plt_do (Wpll True) (sw True (consys_plt_wpll_ctrl ops)) hw;
          hw = snd (consys_hw_adie_top_ck_en_off off_radio hw);
          hw = plt_do Wf_Req_Clr (consys_plt_conninfra_wf_req_clr ops) hw in
      plt_do Wf_Sleep (consys_plt_conninfra_wf_sleep ops) hw)"

definition other_off :: "u32 \<Rightarrow> 'w consys_hw \<Rightarrow> 'w consys_hw" where
  "other_off off_radio hw =
     (let hw = snd (consys_hw_force_conninfra_wakeup hw);
          hw = snd (consys_hw_adie_top_ck_en_off off_radio hw) in
      snd (consys_hw_force_conninfra_sleep hw))"

definition consys_hw_pwr_off :: "u32 \<Rightarrow> u32 \<Rightarrow> 'w consys_hw \<Rightarrow> int \<times> 'w consys_hw" where
  "consys_hw_pwr_off curr_status off_radio hw =
     (let next_status = curr_status AND NOT (push_bit (unat off_radio) 1) in
      if next_status = 0 then (0, last_off hw)
      else if off_radio = CONNDRV_TYPE_WIFI then (0, wfsys_off off_radio hw)
      else (0, other_off off_radio hw))"

definition consys_hw_dump_power_state :: "'w consys_hw \<Rightarrow> int \<times> 'w consys_hw" where
  "consys_hw_dump_power_state hw = (0, plt_do Power_State (consys_plt_power_state (hw_ops hw)) hw)"

section \<open>SPI\<close>

definition consys_hw_spi_read :: "u32 \<Rightarrow> u32 \<Rightarrow> u32 \<Rightarrow> 'w consys_hw \<Rightarrow> (int \<times> u32) \<times> 'w consys_hw" where
  "consys_hw_spi_read subsystem addr data hw =
     plt_ret (Spi_Read subsystem addr)
       (map_option (\<lambda>f. f subsystem addr data) (consys_plt_spi_read (hw_ops hw))) (- 1, data) hw"

definition consys_hw_spi_write :: "u32 \<Rightarrow> u32 \<Rightarrow> u32 \<Rightarrow> 'w consys_hw \<Rightarrow> int \<times> 'w consys_hw" where
  "consys_hw_spi_write subsystem addr data hw =
     plt_ret (Spi_Write subsystem addr data)
       (map_option (\<lambda>f. f subsystem addr data) (consys_plt_spi_write (hw_ops hw))) (- 1) hw"

definition consys_hw_spi_clock_switch :: "u32 \<Rightarrow> 'w consys_hw \<Rightarrow> int \<times> 'w consys_hw" where
  "consys_hw_spi_clock_switch ty hw =
     plt_ret (Spi_Clock ty) (map_option (\<lambda>f. f ty) (consys_plt_spi_clock_switch (hw_ops hw))) (- 1) hw"

end
