(* ===== verification/Core_Power.thy ===== *)
theory Core_Power
  imports Consys_Hw
begin

text \<open>
  The core of \<open>conninfra\<close> (\<open>core/conninfra_core.c\<close>) and the functions that it exports (\<open>src/conninfra.c\<close>): the power
  states of the subsystems, the operations that its threads run, and the guard of the whole-chip reset.  A
  task that takes the core lock while it is held waits until it is released; an operation that waits for a lock that
  the task itself has left held never returns, which is \<^term>\<open>None\<close>.  \<open>lk\<close> is what taking the lock returns:
  zero, or an error when the task is being killed.  The spin locks around single assignments are left out.
\<close>

section \<open>State\<close>

abbreviation DRV_STS_POWER_OFF :: u32 where "DRV_STS_POWER_OFF \<equiv> 0"
abbreviation DRV_STS_POWER_ON :: u32 where "DRV_STS_POWER_ON \<equiv> 1"
abbreviation DRV_STS_MAX :: u32 where "DRV_STS_MAX \<equiv> 2"

abbreviation CHIP_RST_NONE :: u32 where "CHIP_RST_NONE \<equiv> 0"
abbreviation CHIP_RST_START :: u32 where "CHIP_RST_START \<equiv> 1"
abbreviation CHIP_RST_PRE_CB :: u32 where "CHIP_RST_PRE_CB \<equiv> 2"
abbreviation CHIP_RST_RESET :: u32 where "CHIP_RST_RESET \<equiv> 3"
abbreviation CHIP_RST_POST_CB :: u32 where "CHIP_RST_POST_CB \<equiv> 4"
abbreviation CHIP_RST_DONE :: u32 where "CHIP_RST_DONE \<equiv> 5"

abbreviation EINVAL :: int where "EINVAL \<equiv> 22"
abbreviation CONNINFRA_SPI_OP_FAIL :: int where "CONNINFRA_SPI_OP_FAIL \<equiv> 1"
abbreviation CONNINFRA_ERR_RST_ONGOING :: int where "CONNINFRA_ERR_RST_ONGOING \<equiv> - 0x7788"
abbreviation CHIP_RST_REASON_MAX_LEN :: nat where "CHIP_RST_REASON_MAX_LEN \<equiv> 128"
abbreviation CONNSYS_SPI_SPEED_MAX :: u32 where "CONNSYS_SPI_SPEED_MAX \<equiv> 2"
abbreviation SYS_SPI_MAX :: u32 where "SYS_SPI_MAX \<equiv> 0x18"

text \<open>The callbacks that a subsystem registers for a reset of the chip act on the world.\<close>

record 'w whole_chip_rst_cb =
  pre_whole_chip_rst :: "(u32 \<Rightarrow> cstr \<Rightarrow> 'w \<Rightarrow> int \<times> 'w) option"
  post_whole_chip_rst :: "'w plt"

record 'w subsys_drv_inst =
  drv_status :: u32
  ops_cb :: "'w whole_chip_rst_cb"

record 'w conninfra_ctx =
  infra_drv_status :: u32
  drv_inst :: "'w subsys_drv_inst list"
  core_lock :: bool
  rst_status :: u32
  rst_sema :: nat
  rst_state :: u32
  trg_drv :: u32
  trg_reason :: cstr
  consys :: "'w consys_hw"

definition no_cb :: "'w whole_chip_rst_cb" where
  "no_cb = \<lparr>pre_whole_chip_rst = None, post_whole_chip_rst = None\<rparr>"

definition reset_chip_rst_trg_data :: "'w conninfra_ctx \<Rightarrow> 'w conninfra_ctx" where
  "reset_chip_rst_trg_data ctx = ctx\<lparr>trg_drv := CONNDRV_TYPE_MAX, trg_reason := []\<rparr>"

text \<open>The context after \<open>conninfra_core_init\<close>, its threads apart.\<close>

definition conninfra_core_init :: "'w consys_hw \<Rightarrow> 'w conninfra_ctx" where
  "conninfra_core_init hw =
     reset_chip_rst_trg_data
       \<lparr>infra_drv_status = 0, drv_inst = replicate 5 \<lparr>drv_status = 0, ops_cb = no_cb\<rparr>, core_lock = False,
        rst_status = 0, rst_sema = 0, rst_state = 0, trg_drv = 0, trg_reason = [], consys = hw\<rparr>"

definition osal_lock_sleepable_lock :: "int \<Rightarrow> 'w conninfra_ctx \<Rightarrow> (int \<times> 'w conninfra_ctx) option" where
  "osal_lock_sleepable_lock lk ctx =
     (if lk \<noteq> 0 then Some (lk, ctx)
      else if core_lock ctx then None
      else Some (0, ctx\<lparr>core_lock := True\<rparr>))"

definition osal_unlock_sleepable_lock :: "'w conninfra_ctx \<Rightarrow> 'w conninfra_ctx" where
  "osal_unlock_sleepable_lock ctx = ctx\<lparr>core_lock := False\<rparr>"

text \<open>A function of the platform layer on the context, and the setting of a status.\<close>

definition on_hw :: "('w consys_hw \<Rightarrow> 'r \<times> 'w consys_hw) \<Rightarrow> 'w conninfra_ctx \<Rightarrow> 'r \<times> 'w conninfra_ctx" where
  "on_hw f ctx = (let (r, hw) = f (consys ctx) in (r, ctx\<lparr>consys := hw\<rparr>))"

definition set_drv_status :: "nat \<Rightarrow> u32 \<Rightarrow> 'w conninfra_ctx \<Rightarrow> 'w conninfra_ctx" where
  "set_drv_status i v ctx = ctx\<lparr>drv_inst := (drv_inst ctx)[i := (drv_inst ctx ! i)\<lparr>drv_status := v\<rparr>]\<rparr>"

section \<open>Power on and off\<close>

definition opfunc_get_current_status :: "'w conninfra_ctx \<Rightarrow> u32" where
  "opfunc_get_current_status ctx =
     fold (\<lambda>i ret. ret OR push_bit i (drv_status (drv_inst ctx ! i))) [0..<5] 0"

definition opfunc_vcn_control_internal :: "u32 \<Rightarrow> bool \<Rightarrow> 'w conninfra_ctx \<Rightarrow> 'w conninfra_ctx" where
  "opfunc_vcn_control_internal drv_type on ctx =
     (if drv_type = CONNDRV_TYPE_BT then snd (on_hw (pmic_mng_bt_power_ctrl on) ctx)
      else if drv_type = CONNDRV_TYPE_FM then snd (on_hw (pmic_mng_fm_power_ctrl on) ctx)
      else if drv_type = CONNDRV_TYPE_GPS then snd (on_hw (pmic_mng_gps_power_ctrl on) ctx)
      else if drv_type = CONNDRV_TYPE_WIFI then snd (on_hw (pmic_mng_wifi_power_ctrl on) ctx)
      else ctx)"

definition opfunc_power_on_internal :: "int \<Rightarrow> u32 \<Rightarrow> 'w conninfra_ctx \<Rightarrow> (int \<times> 'w conninfra_ctx) option" where
  "opfunc_power_on_internal lk drv_type ctx =
     (if CONNDRV_TYPE_MAX \<le> drv_type then Some (- EINVAL, ctx)
      else do {
        d \<leftarrow> arr_get (drv_inst ctx) (unat drv_type);
        if drv_status d < DRV_STS_POWER_OFF \<or> DRV_STS_MAX \<le> drv_status d then Some (- EINVAL, ctx)
        else do {
          (ret, ctx) \<leftarrow> osal_lock_sleepable_lock lk ctx;
          if ret \<noteq> 0 then Some (ret, ctx)
          else if drv_status (drv_inst ctx ! unat drv_type) = DRV_STS_POWER_ON then
            Some (0, osal_unlock_sleepable_lock ctx)
          else
            let (ret, ctx) = on_hw (consys_hw_pwr_on (opfunc_get_current_status ctx) drv_type) ctx in
            if ret \<noteq> 0 then Some (- 3, osal_unlock_sleepable_lock ctx)
            else
              let ctx = ctx\<lparr>infra_drv_status := DRV_STS_POWER_ON\<rparr>;
                  ctx = set_drv_status (unat drv_type) DRV_STS_POWER_ON ctx;
                  ctx = opfunc_vcn_control_internal drv_type True ctx in
              Some (0, osal_unlock_sleepable_lock ctx)
        }
      })"

text \<open>The loop that turns every subsystem off.\<close>

definition force_off_subsys :: "'w conninfra_ctx \<Rightarrow> 'w conninfra_ctx" where
  "force_off_subsys ctx =
     fold (\<lambda>i ctx. if drv_status (drv_inst ctx ! i) = DRV_STS_POWER_ON
                   then set_drv_status i DRV_STS_POWER_OFF (opfunc_vcn_control_internal (of_nat i) False ctx)
                   else ctx) [0..<5] ctx"

text \<open>\<open>opfunc_power_off_internal\<close> after it has read the current status, which it does before it takes the lock.  A forced
  power-off that finds the chip off returns with the lock held.\<close>

definition power_off_with :: "u32 \<Rightarrow> int \<Rightarrow> u32 \<Rightarrow> 'w conninfra_ctx \<Rightarrow> (int \<times> 'w conninfra_ctx) option" where
  "power_off_with curr_status lk drv_type ctx =
     (if CONNDRV_TYPE_MAX \<le> drv_type then Some (- EINVAL, ctx)
      else do {
        (ret, ctx) \<leftarrow> osal_lock_sleepable_lock lk ctx;
        if ret \<noteq> 0 then Some (ret, ctx)
        else do {
          d \<leftarrow> arr_get (drv_inst ctx) (unat drv_type);
          if drv_status d < DRV_STS_POWER_OFF \<or> DRV_STS_MAX \<le> drv_status d then
            Some (- 2, osal_unlock_sleepable_lock ctx)
          else if drv_type = CONNDRV_TYPE_CONNINFRA then
            if infra_drv_status ctx = DRV_STS_POWER_OFF then Some (0, ctx)
            else
              let ctx = force_off_subsys ctx;
                  ctx = snd (on_hw (consys_hw_pwr_off 0 drv_type) ctx);
                  ctx = ctx\<lparr>infra_drv_status := DRV_STS_POWER_OFF\<rparr> in
              Some (0, osal_unlock_sleepable_lock ctx)
          else if drv_status d = DRV_STS_POWER_OFF then Some (0, osal_unlock_sleepable_lock ctx)
          else
            let ctx = opfunc_vcn_control_internal drv_type False ctx;
                ctx = set_drv_status (unat drv_type) DRV_STS_POWER_OFF ctx;
                try_power_off = list_all (\<lambda>i. drv_status (drv_inst ctx ! i) \<noteq> DRV_STS_POWER_ON) [0..<5];
                (ret, ctx) = on_hw (consys_hw_pwr_off curr_status drv_type) ctx in
            if ret \<noteq> 0 then Some (- 3, osal_unlock_sleepable_lock ctx)
            else
              let ctx = (if try_power_off then ctx\<lparr>infra_drv_status := DRV_STS_POWER_OFF\<rparr> else ctx) in
              Some (0, osal_unlock_sleepable_lock ctx)
        }
      })"

definition opfunc_power_off_internal :: "int \<Rightarrow> u32 \<Rightarrow> 'w conninfra_ctx \<Rightarrow> (int \<times> 'w conninfra_ctx) option" where
  "opfunc_power_off_internal lk drv_type ctx = power_off_with (opfunc_get_current_status ctx) lk drv_type ctx"

section \<open>Operations on the chip\<close>

text \<open>\<open>opfunc_rfspi_read\<close> gets the value that is at the address of the data, or \<^term>\<open>None\<close> for a null pointer, and returns
  the value that is there at the end.\<close>

definition opfunc_rfspi_read ::
  "int \<Rightarrow> u32 \<Rightarrow> u32 \<Rightarrow> u32 option \<Rightarrow> 'w conninfra_ctx \<Rightarrow> (int \<times> u32 option \<times> 'w conninfra_ctx) option" where
  "opfunc_rfspi_read lk subsystem addr data_pt ctx = do {
     (ret, ctx) \<leftarrow> osal_lock_sleepable_lock lk ctx;
     if ret \<noteq> 0 then Some (CONNINFRA_SPI_OP_FAIL, data_pt, ctx)
     else if infra_drv_status ctx \<noteq> DRV_STS_POWER_ON then
       Some (CONNINFRA_SPI_OP_FAIL, data_pt, osal_unlock_sleepable_lock ctx)
     else
       let (r, ctx) = on_hw consys_hw_reg_readable ctx in
       if r = 0 then Some (CONNINFRA_SPI_OP_FAIL, data_pt, osal_unlock_sleepable_lock ctx)
       else
         let ((ret, data), ctx) = on_hw (consys_hw_spi_read subsystem addr 0) ctx in
         Some (ret, map_option (\<lambda>_. data) data_pt, osal_unlock_sleepable_lock ctx)
   }"

definition opfunc_rfspi_write ::
  "int \<Rightarrow> u32 \<Rightarrow> u32 \<Rightarrow> u32 \<Rightarrow> 'w conninfra_ctx \<Rightarrow> (int \<times> 'w conninfra_ctx) option" where
  "opfunc_rfspi_write lk subsystem addr data ctx = do {
     (ret, ctx) \<leftarrow> osal_lock_sleepable_lock lk ctx;
     if ret \<noteq> 0 then Some (CONNINFRA_SPI_OP_FAIL, ctx)
     else if infra_drv_status ctx \<noteq> DRV_STS_POWER_ON then
       Some (CONNINFRA_SPI_OP_FAIL, osal_unlock_sleepable_lock ctx)
     else
       let (r, ctx) = on_hw consys_hw_reg_readable ctx in
       if r = 0 then Some (CONNINFRA_SPI_OP_FAIL, osal_unlock_sleepable_lock ctx)
       else
         let (ret, ctx) = on_hw (consys_hw_spi_write subsystem addr data) ctx in
         Some (ret, osal_unlock_sleepable_lock ctx)
   }"

text \<open>The clock operations release the lock also when they did not get it.\<close>

definition opfunc_adie_top_ck_en_on :: "int \<Rightarrow> u32 \<Rightarrow> 'w conninfra_ctx \<Rightarrow> (int \<times> 'w conninfra_ctx) option" where
  "opfunc_adie_top_ck_en_on lk ty ctx =
     (if CONNDRV_TYPE_MAX \<le> ty then Some (- EINVAL, ctx)
      else do {
        (ret, ctx) \<leftarrow> osal_lock_sleepable_lock lk ctx;
        if ret \<noteq> 0 then Some (- 1, osal_unlock_sleepable_lock ctx)
        else if infra_drv_status ctx \<noteq> DRV_STS_POWER_ON then Some (- 2, osal_unlock_sleepable_lock ctx)
        else
          let (ret, ctx) = on_hw (consys_hw_adie_top_ck_en_on ty) ctx in
          Some (ret, osal_unlock_sleepable_lock ctx)
      })"

definition opfunc_adie_top_ck_en_off :: "int \<Rightarrow> u32 \<Rightarrow> 'w conninfra_ctx \<Rightarrow> (int \<times> 'w conninfra_ctx) option" where
  "opfunc_adie_top_ck_en_off lk ty ctx =
     (if CONNDRV_TYPE_MAX \<le> ty then Some (- EINVAL, ctx)
      else do {
        (ret, ctx) \<leftarrow> osal_lock_sleepable_lock lk ctx;
        if ret \<noteq> 0 then Some (- 1, osal_unlock_sleepable_lock ctx)
        else if infra_drv_status ctx \<noteq> DRV_STS_POWER_ON then Some (- 2, osal_unlock_sleepable_lock ctx)
        else
          let (ret, ctx) = on_hw (consys_hw_adie_top_ck_en_off ty) ctx in
          Some (ret, osal_unlock_sleepable_lock ctx)
      })"

definition opfunc_spi_clock_switch :: "int \<Rightarrow> u32 \<Rightarrow> 'w conninfra_ctx \<Rightarrow> (int \<times> 'w conninfra_ctx) option" where
  "opfunc_spi_clock_switch lk ty ctx =
     (if CONNSYS_SPI_SPEED_MAX \<le> ty then Some (- EINVAL, ctx)
      else do {
        (ret, ctx) \<leftarrow> osal_lock_sleepable_lock lk ctx;
        if ret \<noteq> 0 then Some (- 2, osal_unlock_sleepable_lock ctx)
        else if infra_drv_status ctx \<noteq> DRV_STS_POWER_ON then Some (- 2, osal_unlock_sleepable_lock ctx)
        else
          let (ret, ctx) = on_hw (consys_hw_spi_clock_switch ty) ctx in
          Some (ret, osal_unlock_sleepable_lock ctx)
      })"

definition opfunc_force_conninfra_wakeup :: "int \<Rightarrow> 'w conninfra_ctx \<Rightarrow> (int \<times> 'w conninfra_ctx) option" where
  "opfunc_force_conninfra_wakeup lk ctx = do {
     (ret, ctx) \<leftarrow> osal_lock_sleepable_lock lk ctx;
     if ret \<noteq> 0 then Some (ret, ctx)
     else if infra_drv_status ctx \<noteq> DRV_STS_POWER_ON then Some (- 1, osal_unlock_sleepable_lock ctx)
     else
       let (ret, ctx) = on_hw consys_hw_force_conninfra_wakeup ctx in
       Some (ret, osal_unlock_sleepable_lock ctx)
   }"

definition opfunc_force_conninfra_sleep :: "int \<Rightarrow> 'w conninfra_ctx \<Rightarrow> (int \<times> 'w conninfra_ctx) option" where
  "opfunc_force_conninfra_sleep lk ctx = do {
     (ret, ctx) \<leftarrow> osal_lock_sleepable_lock lk ctx;
     if ret \<noteq> 0 then Some (ret, ctx)
     else if infra_drv_status ctx \<noteq> DRV_STS_POWER_ON then Some (- 1, osal_unlock_sleepable_lock ctx)
     else
       let (ret, ctx) = on_hw consys_hw_force_conninfra_sleep ctx in
       Some (ret, osal_unlock_sleepable_lock ctx)
   }"

definition opfunc_dump_power_state :: "int \<Rightarrow> 'w conninfra_ctx \<Rightarrow> (int \<times> 'w conninfra_ctx) option" where
  "opfunc_dump_power_state lk ctx = do {
     (ret, ctx) \<leftarrow> osal_lock_sleepable_lock lk ctx;
     if ret \<noteq> 0 then Some (ret, ctx)
     else if infra_drv_status ctx \<noteq> DRV_STS_POWER_ON then Some (- 1, osal_unlock_sleepable_lock ctx)
     else
       let (ret, ctx) = on_hw consys_hw_dump_power_state ctx in
       Some (ret, osal_unlock_sleepable_lock ctx)
   }"

text \<open>The table \<open>conninfra_core_opfunc\<close>: an operation of the core thread with its data.\<close>

datatype core_op =
    CONNINFRA_OPID_PWR_ON u32
  | CONNINFRA_OPID_PWR_OFF u32
  | CONNINFRA_OPID_RFSPI_READ u32 u32 "u32 option"
  | CONNINFRA_OPID_RFSPI_WRITE u32 u32 u32
  | CONNINFRA_OPID_ADIE_TOP_CK_EN_ON u32
  | CONNINFRA_OPID_ADIE_TOP_CK_EN_OFF u32
  | CONNINFRA_OPID_SPI_CLOCK_SWITCH u32
  | CONNINFRA_OPID_FORCE_CONNINFRA_WAKUP
  | CONNINFRA_OPID_FORCE_CONNINFRA_SLEEP
  | CONNINFRA_OPID_DUMP_POWER_STATE

fun conninfra_core_opfunc :: "core_op \<Rightarrow> int \<Rightarrow> 'w conninfra_ctx \<Rightarrow> (int \<times> 'w conninfra_ctx) option" where
  "conninfra_core_opfunc (CONNINFRA_OPID_PWR_ON t) lk ctx = opfunc_power_on_internal lk t ctx"
| "conninfra_core_opfunc (CONNINFRA_OPID_PWR_OFF t) lk ctx = opfunc_power_off_internal lk t ctx"
| "conninfra_core_opfunc (CONNINFRA_OPID_RFSPI_READ s a d) lk ctx =
     map_option (\<lambda>(ret, d, ctx). (ret, ctx)) (opfunc_rfspi_read lk s a d ctx)"
| "conninfra_core_opfunc (CONNINFRA_OPID_RFSPI_WRITE s a d) lk ctx = opfunc_rfspi_write lk s a d ctx"
| "conninfra_core_opfunc (CONNINFRA_OPID_ADIE_TOP_CK_EN_ON t) lk ctx = opfunc_adie_top_ck_en_on lk t ctx"
| "conninfra_core_opfunc (CONNINFRA_OPID_ADIE_TOP_CK_EN_OFF t) lk ctx = opfunc_adie_top_ck_en_off lk t ctx"
| "conninfra_core_opfunc (CONNINFRA_OPID_SPI_CLOCK_SWITCH t) lk ctx = opfunc_spi_clock_switch lk t ctx"
| "conninfra_core_opfunc CONNINFRA_OPID_FORCE_CONNINFRA_WAKUP lk ctx = opfunc_force_conninfra_wakeup lk ctx"
| "conninfra_core_opfunc CONNINFRA_OPID_FORCE_CONNINFRA_SLEEP lk ctx = opfunc_force_conninfra_sleep lk ctx"
| "conninfra_core_opfunc CONNINFRA_OPID_DUMP_POWER_STATE lk ctx = opfunc_dump_power_state lk ctx"

end
