(* ===== verification/Core_Api.thy ===== *)
theory Core_Api
  imports Core_Power
begin

text \<open>
  The functions of \<open>conninfra_core.c\<close> that run in the task of the caller, and those that \<open>src/conninfra.c\<close> exports.
  A function that sends an operation to the core thread and waits is the operation itself, or an error of the
  message layer; \<open>sent\<close> says which.  What happens to an operation whose sender has stopped waiting is the subject of the
  message threads.
\<close>

section \<open>Registers\<close>

definition rst_blocks_regs :: "'w conninfra_ctx \<Rightarrow> bool" where
  "rst_blocks_regs ctx \<longleftrightarrow> CHIP_RST_RESET \<le> rst_status ctx \<and> rst_status ctx < CHIP_RST_POST_CB"

definition conninfra_core_reg_readable :: "int \<Rightarrow> 'w conninfra_ctx \<Rightarrow> (int \<times> 'w conninfra_ctx) option" where
  "conninfra_core_reg_readable lk ctx =
     (if rst_blocks_regs ctx then Some (0, ctx)
      else do {
        (ret, ctx) \<leftarrow> osal_lock_sleepable_lock lk ctx;
        if ret \<noteq> 0 then Some (0, ctx)
        else
          let (ret, ctx) = (if infra_drv_status ctx = DRV_STS_POWER_ON then on_hw consys_hw_reg_readable ctx else (ret, ctx)) in
          Some (ret, osal_unlock_sleepable_lock ctx)
      })"

definition conninfra_core_reg_readable_no_lock :: "'w conninfra_ctx \<Rightarrow> int \<times> 'w conninfra_ctx" where
  "conninfra_core_reg_readable_no_lock ctx =
     (if rst_blocks_regs ctx then (0, ctx) else on_hw consys_hw_reg_readable ctx)"

definition conninfra_core_is_bus_hang :: "int \<Rightarrow> 'w conninfra_ctx \<Rightarrow> (int \<times> 'w conninfra_ctx) option" where
  "conninfra_core_is_bus_hang lk ctx = do {
     (ret, ctx) \<leftarrow> osal_lock_sleepable_lock lk ctx;
     if ret \<noteq> 0 then Some (0, ctx)
     else
       let (ret, ctx) = (if infra_drv_status ctx = DRV_STS_POWER_ON then on_hw consys_hw_is_bus_hang ctx else (ret, ctx)) in
       Some (ret, osal_unlock_sleepable_lock ctx)
   }"

definition conninfra_core_is_consys_reg :: "u32 \<Rightarrow> 'w conninfra_ctx \<Rightarrow> int \<times> 'w conninfra_ctx" where
  "conninfra_core_is_consys_reg addr ctx = on_hw (consys_hw_is_connsys_reg addr) ctx"

text \<open>Whether an access may go on: the chip is on, and the register belongs to the host or the registers of the chip are
  readable.  An access that may not go on returns zero all the same.\<close>

definition reg_allowed :: "u64 \<Rightarrow> 'w conninfra_ctx \<Rightarrow> bool \<times> 'w conninfra_ctx" where
  "reg_allowed addr ctx =
     (if infra_drv_status ctx = DRV_STS_POWER_ON then
        let (host, ctx) = on_hw (consys_reg_mng_is_host_csr addr) ctx in
        if host \<noteq> 0 then (True, ctx)
        else
          let (r, ctx) = on_hw consys_hw_reg_readable ctx in
          (r \<noteq> 0, ctx)
      else (False, ctx))"

definition conninfra_core_reg_read ::
  "int \<Rightarrow> u64 \<Rightarrow> u32 \<Rightarrow> 'w conninfra_ctx \<Rightarrow> ((int \<times> u32 option) \<times> 'w conninfra_ctx) option" where
  "conninfra_core_reg_read lk addr msk ctx = do {
     (ret, ctx) \<leftarrow> osal_lock_sleepable_lock lk ctx;
     if ret \<noteq> 0 then Some ((0, None), ctx)
     else
       let (ok, ctx) = reg_allowed addr ctx;
           (r, ctx) = (if ok then on_hw (consys_reg_mng_reg_read addr msk) ctx else ((ret, None), ctx)) in
       Some (r, osal_unlock_sleepable_lock ctx)
   }"

definition conninfra_core_reg_write ::
  "int \<Rightarrow> u64 \<Rightarrow> u32 \<Rightarrow> u32 \<Rightarrow> 'w conninfra_ctx \<Rightarrow> (int \<times> 'w conninfra_ctx) option" where
  "conninfra_core_reg_write lk addr v msk ctx = do {
     (ret, ctx) \<leftarrow> osal_lock_sleepable_lock lk ctx;
     if ret \<noteq> 0 then Some (0, ctx)
     else
       let (ok, ctx) = reg_allowed addr ctx;
           (r, ctx) = (if ok then on_hw (consys_reg_mng_reg_write addr v msk) ctx else (ret, ctx)) in
       Some (r, osal_unlock_sleepable_lock ctx)
   }"

section \<open>The guard of the reset\<close>

definition conninfra_core_lock_rst :: "'w conninfra_ctx \<Rightarrow> u32 \<times> 'w conninfra_ctx" where
  "conninfra_core_lock_rst ctx =
     (rst_status ctx,
      if CHIP_RST_NONE < rst_status ctx \<and> rst_status ctx < CHIP_RST_DONE then ctx
      else ctx\<lparr>rst_status := CHIP_RST_START\<rparr>)"

definition conninfra_core_unlock_rst :: "'w conninfra_ctx \<Rightarrow> int \<times> 'w conninfra_ctx" where
  "conninfra_core_unlock_rst ctx = (0, ctx\<lparr>rst_status := CHIP_RST_NONE\<rparr>)"

definition conninfra_core_update_rst_status :: "u32 \<Rightarrow> 'w conninfra_ctx \<Rightarrow> 'w conninfra_ctx" where
  "conninfra_core_update_rst_status status ctx = ctx\<lparr>rst_status := status\<rparr>"

definition conninfra_core_is_rst_locking :: "'w conninfra_ctx \<Rightarrow> bool" where
  "conninfra_core_is_rst_locking ctx \<longleftrightarrow> CHIP_RST_NONE < rst_status ctx \<and> rst_status ctx < CHIP_RST_POST_CB"

text \<open>\<open>snprintf\<close> cuts the reason.  \<open>send\<close> is what sending the operation to the callback thread returns.\<close>

definition conninfra_core_trg_chip_rst :: "int \<Rightarrow> u32 \<Rightarrow> cstr \<Rightarrow> 'w conninfra_ctx \<Rightarrow> int \<times> 'w conninfra_ctx" where
  "conninfra_core_trg_chip_rst send drv reason ctx =
     (if send \<noteq> 0 then - 1 else 0,
      ctx\<lparr>trg_drv := drv, trg_reason := take (CHIP_RST_REASON_MAX_LEN - 1) reason\<rparr>)"

text \<open>The result of \<open>conninfra_core_trg_chip_rst\<close> is not looked at.\<close>

definition conninfra_trigger_whole_chip_rst :: "int \<Rightarrow> u32 \<Rightarrow> cstr \<Rightarrow> 'w conninfra_ctx \<Rightarrow> int \<times> 'w conninfra_ctx" where
  "conninfra_trigger_whole_chip_rst send who reason ctx =
     (let (r, ctx) = conninfra_core_lock_rst ctx in
      if CHIP_RST_START \<le> r then (1, ctx)
      else (0, snd (conninfra_core_trg_chip_rst send who reason ctx)))"

definition conninfra_core_pmic_event_cb ::
  "int \<Rightarrow> u32 \<Rightarrow> u32 \<Rightarrow> 'w conninfra_ctx \<Rightarrow> (int \<times> 'w conninfra_ctx) option" where
  "conninfra_core_pmic_event_cb lk i event ctx =
     (if conninfra_core_is_rst_locking ctx then Some (0, ctx)
      else do {
        (ret, ctx) \<leftarrow> osal_lock_sleepable_lock lk ctx;
        if ret \<noteq> 0 then Some (0, ctx)
        else
          let ctx = (if infra_drv_status ctx = DRV_STS_POWER_ON then snd (on_hw (consys_hw_pmic_event_cb i event) ctx) else ctx) in
          Some (0, osal_unlock_sleepable_lock ctx)
      })"

section \<open>Callbacks of the subsystems\<close>

definition conninfra_core_subsys_ops_reg ::
  "u32 \<Rightarrow> 'w whole_chip_rst_cb \<Rightarrow> 'w conninfra_ctx \<Rightarrow> (int \<times> 'w conninfra_ctx) option" where
  "conninfra_core_subsys_ops_reg ty cb ctx = do {
     d \<leftarrow> arr_get (drv_inst ctx) (unat ty);
     ds \<leftarrow> arr_set (drv_inst ctx) (unat ty) (d\<lparr>ops_cb := cb\<rparr>);
     Some (0, ctx\<lparr>drv_inst := ds\<rparr>)
   }"

definition conninfra_core_subsys_ops_unreg :: "u32 \<Rightarrow> 'w conninfra_ctx \<Rightarrow> (int \<times> 'w conninfra_ctx) option" where
  "conninfra_core_subsys_ops_unreg ty ctx = do {
     d \<leftarrow> arr_get (drv_inst ctx) (unat ty);
     ds \<leftarrow> arr_set (drv_inst ctx) (unat ty) (d\<lparr>ops_cb := no_cb\<rparr>);
     Some (0, ctx\<lparr>drv_inst := ds\<rparr>)
   }"

definition conninfra_sub_drv_ops_register ::
  "u32 \<Rightarrow> 'w whole_chip_rst_cb \<Rightarrow> 'w conninfra_ctx \<Rightarrow> (int \<times> 'w conninfra_ctx) option" where
  "conninfra_sub_drv_ops_register ty cb ctx =
     (if CONNDRV_TYPE_MAX \<le> ty then Some (- EINVAL, ctx)
      else do { (_, ctx) \<leftarrow> conninfra_core_subsys_ops_reg ty cb ctx; Some (0, ctx) })"

definition conninfra_sub_drv_ops_unregister :: "u32 \<Rightarrow> 'w conninfra_ctx \<Rightarrow> (int \<times> 'w conninfra_ctx) option" where
  "conninfra_sub_drv_ops_unregister ty ctx =
     (if CONNDRV_TYPE_MAX \<le> ty then Some (- EINVAL, ctx)
      else do { (_, ctx) \<leftarrow> conninfra_core_subsys_ops_unreg ty ctx; Some (0, ctx) })"

section \<open>Sending operations to the core thread\<close>

text \<open>The core thread handles the operation, taking the core lock with the given result, or the message layer fails with
  an error.\<close>

datatype sent = Handled int | Not_Sent int

definition send_core :: "sent \<Rightarrow> core_op \<Rightarrow> 'w conninfra_ctx \<Rightarrow> (int \<times> 'w conninfra_ctx) option" where
  "send_core m op ctx = (case m of Handled lk \<Rightarrow> conninfra_core_opfunc op lk ctx | Not_Sent e \<Rightarrow> Some (e, ctx))"

definition core_call :: "int \<Rightarrow> sent \<Rightarrow> core_op \<Rightarrow> 'w conninfra_ctx \<Rightarrow> (int \<times> 'w conninfra_ctx) option" where
  "core_call fail m op ctx = do {
     (ret, ctx) \<leftarrow> send_core m op ctx;
     Some (if ret \<noteq> 0 then fail else 0, ctx)
   }"

definition conninfra_core_power_on :: "sent \<Rightarrow> u32 \<Rightarrow> 'w conninfra_ctx \<Rightarrow> (int \<times> 'w conninfra_ctx) option" where
  "conninfra_core_power_on m ty = core_call (- 1) m (CONNINFRA_OPID_PWR_ON ty)"

definition conninfra_core_power_off :: "sent \<Rightarrow> u32 \<Rightarrow> 'w conninfra_ctx \<Rightarrow> (int \<times> 'w conninfra_ctx) option" where
  "conninfra_core_power_off m ty = core_call (- 1) m (CONNINFRA_OPID_PWR_OFF ty)"

definition conninfra_core_adie_top_ck_en_on :: "sent \<Rightarrow> u32 \<Rightarrow> 'w conninfra_ctx \<Rightarrow> (int \<times> 'w conninfra_ctx) option" where
  "conninfra_core_adie_top_ck_en_on m ty = core_call (- 1) m (CONNINFRA_OPID_ADIE_TOP_CK_EN_ON ty)"

definition conninfra_core_adie_top_ck_en_off :: "sent \<Rightarrow> u32 \<Rightarrow> 'w conninfra_ctx \<Rightarrow> (int \<times> 'w conninfra_ctx) option" where
  "conninfra_core_adie_top_ck_en_off m ty = core_call (- 1) m (CONNINFRA_OPID_ADIE_TOP_CK_EN_OFF ty)"

definition conninfra_core_spi_clock_switch :: "sent \<Rightarrow> u32 \<Rightarrow> 'w conninfra_ctx \<Rightarrow> (int \<times> 'w conninfra_ctx) option" where
  "conninfra_core_spi_clock_switch m ty = core_call (- 1) m (CONNINFRA_OPID_SPI_CLOCK_SWITCH ty)"

text \<open>A caller that runs in the core thread itself runs the operation at once.\<close>

definition conninfra_core_force_conninfra_wakeup ::
  "bool \<Rightarrow> int \<Rightarrow> sent \<Rightarrow> 'w conninfra_ctx \<Rightarrow> (int \<times> 'w conninfra_ctx) option" where
  "conninfra_core_force_conninfra_wakeup in_core lk m ctx =
     (if in_core then opfunc_force_conninfra_wakeup lk ctx
      else core_call (- 1) m CONNINFRA_OPID_FORCE_CONNINFRA_WAKUP ctx)"

definition conninfra_core_force_conninfra_sleep ::
  "bool \<Rightarrow> int \<Rightarrow> sent \<Rightarrow> 'w conninfra_ctx \<Rightarrow> (int \<times> 'w conninfra_ctx) option" where
  "conninfra_core_force_conninfra_sleep in_core lk m ctx =
     (if in_core then opfunc_force_conninfra_sleep lk ctx
      else core_call (- 1) m CONNINFRA_OPID_FORCE_CONNINFRA_SLEEP ctx)"

text \<open>The name that the message of a failed SPI operation looks up; the table has a name for 17 of the 24 values.\<close>

definition subsys_name :: "string list" where
  "subsys_name =
     [''SYS_SPI_WF1'', ''SYS_SPI_WF'', ''SYS_SPI_BT'', ''SYS_SPI_FM'', ''SYS_SPI_GPS'', ''SYS_SPI_TOP'', ''SYS_SPI_WF2'',
      ''SYS_SPI_WF3'', ''SYS_SPI_2ND_ADIE_WF1'', ''SYS_SPI_2ND_ADIE_WF'', ''SYS_SPI_2ND_ADIE_BT'', ''SYS_SPI_2ND_ADIE_FM'',
      ''SYS_SPI_2ND_ADIE_GPS'', ''SYS_SPI_2ND_ADIE_TOP'', ''SYS_SPI_2ND_ADIE_WF2'', ''SYS_SPI_2ND_ADIE_WF3'', ''SYS_SPI_MAX'']"

definition conninfra_core_spi_subsys_string :: "u32 \<Rightarrow> string option" where
  "conninfra_core_spi_subsys_string subsystem = arr_get subsys_name (unat subsystem)"

definition spi_result :: "u32 \<Rightarrow> int \<Rightarrow> int option" where
  "spi_result subsystem ret =
     (if ret \<noteq> 0 then do { _ \<leftarrow> conninfra_core_spi_subsys_string subsystem; Some CONNINFRA_SPI_OP_FAIL } else Some 0)"

definition conninfra_core_spi_read ::
  "sent \<Rightarrow> u32 \<Rightarrow> u32 \<Rightarrow> u32 option \<Rightarrow> 'w conninfra_ctx \<Rightarrow> ((int \<times> u32 option) \<times> 'w conninfra_ctx) option" where
  "conninfra_core_spi_read m subsystem addr data ctx = do {
     (ret, data, ctx) \<leftarrow> (case m of
         Not_Sent e \<Rightarrow> Some (e, data, ctx)
       | Handled lk \<Rightarrow> opfunc_rfspi_read lk subsystem addr data ctx);
     ret \<leftarrow> spi_result subsystem ret;
     Some ((ret, data), ctx)
   }"

definition conninfra_core_spi_write :: "sent \<Rightarrow> u32 \<Rightarrow> u32 \<Rightarrow> u32 \<Rightarrow> 'w conninfra_ctx \<Rightarrow> (int \<times> 'w conninfra_ctx) option" where
  "conninfra_core_spi_write m subsystem addr data ctx = do {
     (ret, ctx) \<leftarrow> send_core m (CONNINFRA_OPID_RFSPI_WRITE subsystem addr data) ctx;
     ret \<leftarrow> spi_result subsystem ret;
     Some (ret, ctx)
   }"

section \<open>Exported functions\<close>

definition unless_rst :: "('w conninfra_ctx \<Rightarrow> (int \<times> 'w conninfra_ctx) option) \<Rightarrow> 'w conninfra_ctx \<Rightarrow> (int \<times> 'w conninfra_ctx) option" where
  "unless_rst f ctx =
     (if conninfra_core_is_rst_locking ctx then Some (CONNINFRA_ERR_RST_ONGOING, ctx) else f ctx)"

definition conninfra_pwr_on :: "sent \<Rightarrow> u32 \<Rightarrow> 'w conninfra_ctx \<Rightarrow> (int \<times> 'w conninfra_ctx) option" where
  "conninfra_pwr_on m drv_type = unless_rst (conninfra_core_power_on m drv_type)"

definition conninfra_pwr_off :: "sent \<Rightarrow> u32 \<Rightarrow> 'w conninfra_ctx \<Rightarrow> (int \<times> 'w conninfra_ctx) option" where
  "conninfra_pwr_off m drv_type = unless_rst (conninfra_core_power_off m drv_type)"

definition conninfra_is_bus_hang :: "int \<Rightarrow> 'w conninfra_ctx \<Rightarrow> (int \<times> 'w conninfra_ctx) option" where
  "conninfra_is_bus_hang lk = unless_rst (conninfra_core_is_bus_hang lk)"

definition conninfra_adie_top_ck_en_on :: "sent \<Rightarrow> u32 \<Rightarrow> 'w conninfra_ctx \<Rightarrow> (int \<times> 'w conninfra_ctx) option" where
  "conninfra_adie_top_ck_en_on m ty = unless_rst (conninfra_core_adie_top_ck_en_on m ty)"

definition conninfra_adie_top_ck_en_off :: "sent \<Rightarrow> u32 \<Rightarrow> 'w conninfra_ctx \<Rightarrow> (int \<times> 'w conninfra_ctx) option" where
  "conninfra_adie_top_ck_en_off m ty = unless_rst (conninfra_core_adie_top_ck_en_off m ty)"

definition conninfra_spi_clock_switch :: "sent \<Rightarrow> u32 \<Rightarrow> 'w conninfra_ctx \<Rightarrow> (int \<times> 'w conninfra_ctx) option" where
  "conninfra_spi_clock_switch m ty = conninfra_core_spi_clock_switch m ty"

text \<open>The results of the SPI operations are dropped.\<close>

definition conninfra_spi_read ::
  "sent \<Rightarrow> u32 \<Rightarrow> u32 \<Rightarrow> u32 option \<Rightarrow> 'w conninfra_ctx \<Rightarrow> ((int \<times> u32 option) \<times> 'w conninfra_ctx) option" where
  "conninfra_spi_read m subsystem addr data ctx =
     (if conninfra_core_is_rst_locking ctx then Some ((CONNINFRA_ERR_RST_ONGOING, data), ctx)
      else if SYS_SPI_MAX \<le> subsystem then Some ((- EINVAL, data), ctx)
      else do {
        ((ret, data), ctx) \<leftarrow> conninfra_core_spi_read m subsystem addr data ctx;
        Some ((0, data), ctx)
      })"

definition conninfra_spi_write :: "sent \<Rightarrow> u32 \<Rightarrow> u32 \<Rightarrow> u32 \<Rightarrow> 'w conninfra_ctx \<Rightarrow> (int \<times> 'w conninfra_ctx) option" where
  "conninfra_spi_write m subsystem addr data ctx =
     (if conninfra_core_is_rst_locking ctx then Some (CONNINFRA_ERR_RST_ONGOING, ctx)
      else if SYS_SPI_MAX \<le> subsystem then Some (- EINVAL, ctx)
      else do {
        (ret, ctx) \<leftarrow> conninfra_core_spi_write m subsystem addr data ctx;
        Some (0, ctx)
      })"

end
