(* ===== verification/Core_Reset.thy ===== *)
theory Core_Reset
  imports Core_Api
begin

text \<open>
  The reset of the whole chip (\<open>opfunc_chip_rst\<close>, \<open>opfunc_subdrv_pre_reset\<close> and \<open>opfunc_subdrv_post_reset\<close> of
  \<open>conninfra_core.c\<close>): a task triggers it, the callback thread runs it, and it waits for the threads of the five
  subsystems, which run their callbacks before the power is cut and after it is back.  The threads are step functions:
  the callback thread is cut at its sends, its waits and the operations that take the core lock.  What happens is
  recorded in a list of events.
\<close>

section \<open>State\<close>

datatype infra_subdrv_op = INFRA_SUBDRV_OPID_PRE_RESET | INFRA_SUBDRV_OPID_POST_RESET

text \<open>Where the callback thread is: it waits for operations, sends the pre-reset operation to a subsystem, waits for the
  bits of all of them, cuts the power, turns a subsystem on, announces the post-reset phase, sends the post-reset
  operation to a subsystem, waits again.\<close>

datatype cb_pc = Cb_Idle | Cb_Pre nat | Cb_Wait_Pre | Cb_Off | Cb_On nat | Cb_Resume | Cb_Post nat | Cb_Wait_Post

text \<open>The operations that wait in the queue of the callback thread are all \<open>CONNINFRA_CB_OPID_CHIP_RST\<close>, so that
  their number will do.\<close>

record 'w rst_sys =
  core :: "'w conninfra_ctx"
  cb_pc :: cb_pc
  cb_queue :: nat
  drv_queue :: "infra_subdrv_op list list"
  drv_pwr_state :: "u32 list"

datatype rst_event =
    Triggered | Trigger_Lost | Trigger_Busy | Skipped | Taken
  | Pre_Cb nat | Power_Cut int | Power_Restored nat int | Resumed | Post_Cb nat | Finished

abbreviation subdrv_all_done :: u32 where "subdrv_all_done \<equiv> 0x1F"

section \<open>Threads of the subsystems\<close>

definition run_cb :: "'w plt \<Rightarrow> 'w conninfra_ctx \<Rightarrow> 'w conninfra_ctx" where
  "run_cb f ctx =
     (case f of None \<Rightarrow> ctx | Some f \<Rightarrow> ctx\<lparr>consys := (consys ctx)\<lparr>world := snd (f (world (consys ctx)))\<rparr>\<rparr>)"

definition subdrv_done :: "nat \<Rightarrow> 'w conninfra_ctx \<Rightarrow> 'w conninfra_ctx" where
  "subdrv_done i ctx = ctx\<lparr>rst_state := rst_state ctx + push_bit i 1, rst_sema := rst_sema ctx + 1\<rparr>"

definition opfunc_subdrv_pre_reset :: "nat \<Rightarrow> 'w conninfra_ctx \<Rightarrow> (int \<times> 'w conninfra_ctx) option" where
  "opfunc_subdrv_pre_reset i ctx = do {
     d \<leftarrow> arr_get (drv_inst ctx) i;
     let ctx = run_cb (map_option (\<lambda>f. f (trg_drv ctx) (trg_reason ctx)) (pre_whole_chip_rst (ops_cb d))) ctx;
     Some (0, subdrv_done i ctx)
   }"

definition opfunc_subdrv_post_reset :: "nat \<Rightarrow> 'w conninfra_ctx \<Rightarrow> (int \<times> 'w conninfra_ctx) option" where
  "opfunc_subdrv_post_reset i ctx = do {
     d \<leftarrow> arr_get (drv_inst ctx) i;
     let ctx = run_cb (post_whole_chip_rst (ops_cb d)) ctx;
     Some (0, subdrv_done i ctx)
   }"

definition subdrv_step :: "nat \<Rightarrow> 'w rst_sys \<Rightarrow> (rst_event list \<times> 'w rst_sys) option" where
  "subdrv_step i sys =
     (if i < length (drv_queue sys) then
        case drv_queue sys ! i of
          [] \<Rightarrow> None
        | op # ops \<Rightarrow>
            let sys = sys\<lparr>drv_queue := (drv_queue sys)[i := ops]\<rparr> in
            (case op of
               INFRA_SUBDRV_OPID_PRE_RESET \<Rightarrow> do {
                 (_, ctx) \<leftarrow> opfunc_subdrv_pre_reset i (core sys);
                 Some ([Pre_Cb i], sys\<lparr>core := ctx\<rparr>)
               }
             | INFRA_SUBDRV_OPID_POST_RESET \<Rightarrow> do {
                 (_, ctx) \<leftarrow> opfunc_subdrv_post_reset i (core sys);
                 Some ([Post_Cb i], sys\<lparr>core := ctx\<rparr>)
               })
      else None)"

section \<open>Callback thread\<close>

text \<open>The result of sending an operation to a subsystem is not looked at.\<close>

definition send_subdrv :: "int \<Rightarrow> nat \<Rightarrow> infra_subdrv_op \<Rightarrow> 'w rst_sys \<Rightarrow> 'w rst_sys" where
  "send_subdrv send i op sys =
     (if send = 0 then sys\<lparr>drv_queue := (drv_queue sys)[i := drv_queue sys ! i @ [op]]\<rparr> else sys)"

definition update_core :: "('w conninfra_ctx \<Rightarrow> 'w conninfra_ctx) \<Rightarrow> 'w rst_sys \<Rightarrow> 'w rst_sys" where
  "update_core f sys = sys\<lparr>core := f (core sys)\<rparr>"

definition clear_rst_state :: "'w conninfra_ctx \<Rightarrow> 'w conninfra_ctx" where
  "clear_rst_state ctx = ctx\<lparr>rst_state := 0, rst_sema := 1\<rparr>"

definition to_pc :: "cb_pc \<Rightarrow> 'w rst_sys \<Rightarrow> 'w rst_sys" where
  "to_pc pc sys = sys\<lparr>cb_pc := pc\<rparr>"

text \<open>A round of a waiting loop: the loop ends when all bits are set; otherwise \<open>down_timeout\<close> takes the semaphore, or its time
  is up.\<close>

definition wait_done :: "bool \<Rightarrow> (rst_event list \<times> 'w rst_sys) \<Rightarrow> 'w rst_sys \<Rightarrow> (rst_event list \<times> 'w rst_sys) option" where
  "wait_done timed_out end_of_loop sys =
     (if rst_state (core sys) = subdrv_all_done then Some end_of_loop
      else if 0 < rst_sema (core sys) then Some ([], update_core (\<lambda>ctx. ctx\<lparr>rst_sema := rst_sema ctx - 1\<rparr>) sys)
      else if timed_out then Some ([], sys)
      else None)"

text \<open>\<open>lk\<close> is what taking the core lock returns, \<open>send\<close> what sending an operation returns; \<^term>\<open>None\<close>: the thread waits.\<close>

definition cb_step :: "int \<Rightarrow> int \<Rightarrow> bool \<Rightarrow> 'w rst_sys \<Rightarrow> (rst_event list \<times> 'w rst_sys) option" where
  "cb_step lk send timed_out sys =
     (case cb_pc sys of
        Cb_Idle \<Rightarrow>
          if cb_queue sys = 0 then None
          else
            let sys = sys\<lparr>cb_queue := cb_queue sys - 1\<rparr> in
            if infra_drv_status (core sys) = DRV_STS_POWER_OFF then
              Some ([Skipped], update_core (conninfra_core_update_rst_status CHIP_RST_NONE) sys)
            else
              Some ([Taken], to_pc (Cb_Pre 0)
                (update_core (\<lambda>ctx. conninfra_core_update_rst_status CHIP_RST_PRE_CB (clear_rst_state ctx)) sys))
      | Cb_Pre i \<Rightarrow> do {
          d \<leftarrow> arr_get (drv_inst (core sys)) i;
          ss \<leftarrow> arr_set (drv_pwr_state sys) i (drv_status d);
          let sys = send_subdrv send i INFRA_SUBDRV_OPID_PRE_RESET (sys\<lparr>drv_pwr_state := ss\<rparr>);
          Some ([], to_pc (if i + 1 < 5 then Cb_Pre (i + 1) else Cb_Wait_Pre) sys)
        }
      | Cb_Wait_Pre \<Rightarrow>
          wait_done timed_out
            ([], to_pc Cb_Off (update_core (conninfra_core_update_rst_status CHIP_RST_RESET) sys)) sys
      | Cb_Off \<Rightarrow> do {
          (ret, ctx) \<leftarrow> opfunc_power_off_internal lk CONNDRV_TYPE_CONNINFRA (core sys);
          Some ([Power_Cut ret], to_pc (Cb_On 0) (sys\<lparr>core := ctx\<rparr>))
        }
      | Cb_On i \<Rightarrow> do {
          s \<leftarrow> arr_get (drv_pwr_state sys) i;
          let pc = (if i + 1 < 5 then Cb_On (i + 1) else Cb_Resume);
          if s \<noteq> 0 then do {
            (ret, ctx) \<leftarrow> opfunc_power_on_internal lk (of_nat i) (core sys);
            Some ([Power_Restored i ret], to_pc pc (sys\<lparr>core := ctx\<rparr>))
          }
          else Some ([], to_pc pc sys)
        }
      | Cb_Resume \<Rightarrow>
          Some ([Resumed], to_pc (Cb_Post 0)
            (update_core (\<lambda>ctx. clear_rst_state (conninfra_core_update_rst_status CHIP_RST_POST_CB ctx)) sys))
      | Cb_Post i \<Rightarrow>
          Some ([], to_pc (if i + 1 < 5 then Cb_Post (i + 1) else Cb_Wait_Post)
                      (send_subdrv send i INFRA_SUBDRV_OPID_POST_RESET sys))
      | Cb_Wait_Post \<Rightarrow>
          wait_done timed_out
            ([Finished], to_pc Cb_Idle
               (update_core (\<lambda>ctx. conninfra_core_update_rst_status CHIP_RST_NONE (reset_chip_rst_trg_data ctx)) sys)) sys)"

section \<open>Other tasks\<close>

definition trigger_step :: "int \<Rightarrow> u32 \<Rightarrow> cstr \<Rightarrow> 'w rst_sys \<Rightarrow> rst_event list \<times> 'w rst_sys" where
  "trigger_step send who reason sys =
     (let (r, ctx) = conninfra_trigger_whole_chip_rst send who reason (core sys) in
      if r \<noteq> 0 then ([Trigger_Busy], sys\<lparr>core := ctx\<rparr>)
      else if send \<noteq> 0 then ([Trigger_Lost], sys\<lparr>core := ctx\<rparr>)
      else ([Triggered], sys\<lparr>core := ctx, cb_queue := cb_queue sys + 1\<rparr>))"

text \<open>A step of the system.  With \<open>faults\<close>, sending an operation and taking a lock may fail; \<open>allowed\<close> says which operations the
  core thread may run meanwhile.\<close>

inductive rst_step :: "bool \<Rightarrow> (core_op \<Rightarrow> bool) \<Rightarrow> 'w rst_sys \<Rightarrow> rst_event list \<Rightarrow> 'w rst_sys \<Rightarrow> bool"
  for faults :: bool and allowed :: "core_op \<Rightarrow> bool" where
  cb: "cb_step lk send timed_out sys = Some (es, sys') \<Longrightarrow> faults \<or> lk = 0 \<and> send = 0 \<Longrightarrow> rst_step faults allowed sys es sys'"
| subdrv: "subdrv_step i sys = Some (es, sys') \<Longrightarrow> rst_step faults allowed sys es sys'"
| trigger: "trigger_step send who reason sys = (es, sys') \<Longrightarrow> faults \<or> send = 0 \<Longrightarrow> rst_step faults allowed sys es sys'"
| core_op: "conninfra_core_opfunc op lk (core sys) = Some (r, ctx) \<Longrightarrow> allowed op \<Longrightarrow> faults \<or> lk = 0 \<Longrightarrow>
    rst_step faults allowed sys [] (sys\<lparr>core := ctx\<rparr>)"
| register: "conninfra_sub_drv_ops_register ty callbacks (core sys) = Some (r, ctx) \<Longrightarrow>
    rst_step faults allowed sys [] (sys\<lparr>core := ctx\<rparr>)"

inductive rst_run :: "bool \<Rightarrow> (core_op \<Rightarrow> bool) \<Rightarrow> 'w rst_sys \<Rightarrow> rst_event list \<Rightarrow> 'w rst_sys \<Rightarrow> bool"
  for faults :: bool and allowed :: "core_op \<Rightarrow> bool" and sys :: "'w rst_sys" where
  none: "rst_run faults allowed sys [] sys"
| more: "rst_run faults allowed sys es sys' \<Longrightarrow> rst_step faults allowed sys' es' sys'' \<Longrightarrow> rst_run faults allowed sys (es @ es') sys''"

text \<open>The callback thread and the threads of the subsystems have nothing to do, and no reset is asked for.\<close>

definition rst_ready :: "'w rst_sys \<Rightarrow> bool" where
  "rst_ready sys \<longleftrightarrow>
     cb_pc sys = Cb_Idle \<and> cb_queue sys = 0 \<and> drv_queue sys = replicate 5 [] \<and> length (drv_pwr_state sys) = 5 \<and>
     length (drv_inst (core sys)) = 5 \<and> rst_status (core sys) = CHIP_RST_NONE"

section \<open>Specification\<close>

text \<open>What a whole-chip reset promises: the events that may follow each other.  A trigger that gets the guard makes all others
  busy until its reset is over; the power is cut after the five callbacks before the reset, each called once; the
  subsystems are turned on in order; the five callbacks after the reset are called once each, after that.  When the
  operation of a trigger is lost, everything is busy for ever.\<close>

datatype rst_spec = A_Idle | A_Lost | A_Queued | A_Pre "nat set" | A_On nat | A_Post "nat set"

fun spec_step :: "rst_spec \<Rightarrow> rst_event \<Rightarrow> rst_spec option" where
  "spec_step a Trigger_Busy = (if a = A_Idle then None else Some a)"
| "spec_step A_Idle Triggered = Some A_Queued"
| "spec_step A_Idle Trigger_Lost = Some A_Lost"
| "spec_step A_Queued Skipped = Some A_Idle"
| "spec_step A_Queued Taken = Some (A_Pre {})"
| "spec_step (A_Pre S) (Pre_Cb i) = (if i < 5 \<and> i \<notin> S then Some (A_Pre (insert i S)) else None)"
| "spec_step (A_Pre S) (Power_Cut ret) = (if S = {..<5} then Some (A_On 0) else None)"
| "spec_step (A_On m) (Power_Restored i ret) = (if m \<le> i \<and> i < 5 then Some (A_On (i + 1)) else None)"
| "spec_step (A_On m) Resumed = Some (A_Post {})"
| "spec_step (A_Post S) (Post_Cb i) = (if i < 5 \<and> i \<notin> S then Some (A_Post (insert i S)) else None)"
| "spec_step (A_Post S) Finished = (if S = {..<5} then Some A_Idle else None)"
| "spec_step a e = None"

fun spec_run :: "rst_spec \<Rightarrow> rst_event list \<Rightarrow> rst_spec option" where
  "spec_run a [] = Some a"
| "spec_run a (e # es) = Option.bind (spec_step a e) (\<lambda>a. spec_run a es)"

end
