(* ===== verification/Core_Power_Spec.thy ===== *)
theory Core_Power_Spec
  imports Core_Api
begin

text \<open>
  What the operations of the core promise: the subsystems that are on form a set, each operation does to this set what
  its name says, and the chip has power exactly when the set is not empty.
\<close>

section \<open>Platform layer\<close>

text \<open>What the calls say of the power: of the chip, by its software reset, and of the WiFi subsystem.\<close>

fun chip_power :: "plt_call \<Rightarrow> bool \<Rightarrow> bool" where
  "chip_power (Sw_Reset b) p = (\<not> b)"
| "chip_power c p = p"

fun wifi_power :: "plt_call \<Rightarrow> bool \<Rightarrow> bool" where
  "wifi_power (Wfsys_Top_On b) p = b"
| "wifi_power c p = p"

definition chip_powered :: "'w consys_hw \<Rightarrow> bool" where
  "chip_powered hw = fold chip_power (hw_calls hw) False"

definition hw_ok :: "'w consys_hw \<Rightarrow> bool" where
  "hw_ok hw \<longleftrightarrow>
     consys_plt_connsys_sw_reset_ctrl (hw_ops hw) \<noteq> None \<and>
     (consys_plt_conninfra_wakeup (hw_ops hw) = None) = (consys_plt_conninfra_sleep (hw_ops hw) = None) \<and>
     0 \<le> wakeup_ref_cnt hw"

lemma plt_ret_frame [simp]:
  "hw_ops (snd (plt_ret c f d hw)) = hw_ops hw"
  "wakeup_ref_cnt (snd (plt_ret c f d hw)) = wakeup_ref_cnt hw"
  "hw_calls (snd (plt_ret c f d hw)) = hw_calls hw @ (if f = None then [] else [c])"
  by (auto simp: plt_ret_def split: option.splits prod.splits)

lemma plt_do_frame [simp]:
  "hw_ops (plt_do c f hw) = hw_ops hw"
  "wakeup_ref_cnt (plt_do c f hw) = wakeup_ref_cnt hw"
  "hw_calls (plt_do c f hw) = hw_calls hw @ (if f = None then [] else [c])"
  by (simp_all add: plt_do_def)

lemma sw_None [simp]: "sw b f = None \<longleftrightarrow> f = None"
  by (simp add: sw_def)

lemma plt_powered [simp]:
  "(\<And>p. chip_power c p = p) \<Longrightarrow> chip_powered (snd (plt_ret c f d hw)) = chip_powered hw"
  "(\<And>p. chip_power c p = p) \<Longrightarrow> chip_powered (plt_do c f' hw) = chip_powered hw"
  "chip_powered (plt_do (Sw_Reset b) f' hw) = (if f' = None then chip_powered hw else \<not> b)"
  by (simp_all add: chip_powered_def)

text \<open>A function of the layer that keeps its tables, the count of the requests and the power of the chip.\<close>

definition hw_quiet :: "('w consys_hw \<Rightarrow> 'w consys_hw) \<Rightarrow> bool" where
  "hw_quiet f \<longleftrightarrow>
     (\<forall>hw. hw_ok hw \<longrightarrow> hw_ops (f hw) = hw_ops hw \<and> wakeup_ref_cnt (f hw) = wakeup_ref_cnt hw \<and>
        chip_powered (f hw) = chip_powered hw)"

lemma hw_quietD:
  assumes "hw_quiet f" and "hw_ok hw"
  shows "hw_ok (f hw)" "chip_powered (f hw) = chip_powered hw" "hw_ops (f hw) = hw_ops hw"
    "wakeup_ref_cnt (f hw) = wakeup_ref_cnt hw"
  using assms by (auto simp: hw_quiet_def hw_ok_def)

lemma wakeup_frame:
  "hw_ops (snd (consys_hw_force_conninfra_wakeup hw)) = hw_ops hw"
  "chip_powered (snd (consys_hw_force_conninfra_wakeup hw)) = chip_powered hw"
  "consys_plt_conninfra_wakeup (hw_ops hw) = None \<Longrightarrow> snd (consys_hw_force_conninfra_wakeup hw) = hw"
  "wakeup_ref_cnt (snd (consys_hw_force_conninfra_wakeup hw)) \<in> {wakeup_ref_cnt hw, wakeup_ref_cnt hw + 1}"
  "wakeup_ref_cnt (snd (consys_hw_force_conninfra_wakeup hw)) = wakeup_ref_cnt hw \<Longrightarrow>
     wakeup_ref_cnt hw = 0 \<or> consys_plt_conninfra_wakeup (hw_ops hw) = None"
  by (auto simp: consys_hw_force_conninfra_wakeup_def plt_ret_def chip_powered_def split: option.splits prod.splits if_splits)

lemma sleep_frame:
  "hw_ops (snd (consys_hw_force_conninfra_sleep hw)) = hw_ops hw"
  "chip_powered (snd (consys_hw_force_conninfra_sleep hw)) = chip_powered hw"
  "0 \<le> wakeup_ref_cnt hw \<Longrightarrow>
     wakeup_ref_cnt (snd (consys_hw_force_conninfra_sleep hw)) =
       (if consys_plt_conninfra_sleep (hw_ops hw) = None then wakeup_ref_cnt hw else max 0 (wakeup_ref_cnt hw - 1))"
  by (auto simp: consys_hw_force_conninfra_sleep_def Let_def chip_powered_def split: option.splits)

text \<open>A request and its release, with a quiet function between them, keep the count.\<close>

lemma wake_sleep_quiet:
  assumes "hw_quiet f"
  shows "hw_quiet (\<lambda>hw. snd (consys_hw_force_conninfra_sleep (f (snd (consys_hw_force_conninfra_wakeup hw)))))"
proof -
  have "wakeup_ref_cnt (snd (consys_hw_force_conninfra_sleep (f (snd (consys_hw_force_conninfra_wakeup hw))))) = wakeup_ref_cnt hw \<and>
      hw_ops (snd (consys_hw_force_conninfra_sleep (f (snd (consys_hw_force_conninfra_wakeup hw))))) = hw_ops hw \<and>
      chip_powered (snd (consys_hw_force_conninfra_sleep (f (snd (consys_hw_force_conninfra_wakeup hw))))) = chip_powered hw"
    if ok: "hw_ok hw" for hw
  proof -
    let ?h = "snd (consys_hw_force_conninfra_wakeup hw)"
    have ok': "hw_ok ?h" and pos: "0 \<le> wakeup_ref_cnt hw"
      using ok wakeup_frame(1,4)[of hw] by (auto simp: hw_ok_def)
    note q = hw_quietD[OF assms ok']
    have "wakeup_ref_cnt (snd (consys_hw_force_conninfra_sleep (f ?h))) = wakeup_ref_cnt hw"
      using wakeup_frame(3,4,5)[of hw] sleep_frame(3)[of "f ?h"] q ok' ok wakeup_frame(1)[of hw]
      by (auto simp: hw_ok_def)
    then show ?thesis using q wakeup_frame(1,2)[of hw] sleep_frame(1,2)[of "f ?h"] by simp
  qed
  then show ?thesis unfolding hw_quiet_def by blast
qed

lemma pos_low_power_quiet: "hw_quiet (pos_low_power t)"
proof -
  have "hw_quiet (\<lambda>hw. snd (consys_hw_adie_top_ck_en_on t hw))"
    by (simp add: hw_quiet_def consys_hw_adie_top_ck_en_on_def)
  from wake_sleep_quiet[OF this] show ?thesis by (simp add: pos_low_power_def[abs_def] Let_def)
qed

lemma other_off_quiet: "hw_quiet (other_off t)"
proof -
  have "hw_quiet (\<lambda>hw. snd (consys_hw_adie_top_ck_en_off t hw))"
    by (simp add: hw_quiet_def consys_hw_adie_top_ck_en_off_def)
  from wake_sleep_quiet[OF this] show ?thesis by (simp add: other_off_def[abs_def] Let_def)
qed

lemma pos_configure_quiet: "hw_quiet (pos_configure t)"
  by (simp add: hw_quiet_def pos_configure_def Let_def emi_mng_set_remapping_reg_def emi_mng_set_region_protection_def)

lemma wfsys_on_quiet: "hw_quiet wfsys_on"
  by (simp add: hw_quiet_def wfsys_on_def Let_def)

lemma wfsys_off_quiet: "hw_quiet (wfsys_off t)"
  by (simp add: hw_quiet_def wfsys_off_def Let_def consys_hw_adie_top_ck_en_off_def)

lemma pos_enable_power:
  "hw_ok hw \<Longrightarrow> hw_ok (pos_enable hw) \<and> chip_powered (pos_enable hw)"
  by (auto simp: pos_enable_def Let_def hw_ok_def)

lemma last_off_power:
  assumes "hw_ok hw"
  shows "hw_ok (last_off hw) \<and> \<not> chip_powered (last_off hw)"
proof -
  have "hw_quiet (\<lambda>hw. hw)" by (simp add: hw_quiet_def)
  note q = hw_quietD[OF wake_sleep_quiet[OF this] assms]
  have "consys_plt_connsys_sw_reset_ctrl (hw_ops hw) \<noteq> None" using assms by (simp add: hw_ok_def)
  then show ?thesis using q by (auto simp: last_off_def Let_def hw_ok_def)
qed

text \<open>The two power functions never fail, and they change the power of the chip when the set of the subsystems that are on
  becomes or stops being empty.\<close>

lemma pwr_on_spec:
  assumes "hw_ok hw"
  shows "fst (consys_hw_pwr_on s t hw) = 0" and "hw_ok (snd (consys_hw_pwr_on s t hw))"
    and "chip_powered (snd (consys_hw_pwr_on s t hw)) \<longleftrightarrow> s = 0 \<or> chip_powered hw"
proof -
  note a = pos_enable_power[OF assms]
  note b = hw_quietD[OF pos_configure_quiet a[THEN conjunct1], of t]
  note c = hw_quietD[OF pos_low_power_quiet b(1), of t]
  note d = hw_quietD[OF wfsys_on_quiet assms]
  show "fst (consys_hw_pwr_on s t hw) = 0" by (simp add: consys_hw_pwr_on_def)
  show "hw_ok (snd (consys_hw_pwr_on s t hw))"
    and "chip_powered (snd (consys_hw_pwr_on s t hw)) \<longleftrightarrow> s = 0 \<or> chip_powered hw"
    using a b c d assms by (simp_all add: consys_hw_pwr_on_def)
qed

lemma pwr_off_spec:
  assumes "hw_ok hw"
  shows "fst (consys_hw_pwr_off s t hw) = 0" and "hw_ok (snd (consys_hw_pwr_off s t hw))"
    and "chip_powered (snd (consys_hw_pwr_off s t hw)) \<longleftrightarrow> s AND NOT (push_bit (unat t) 1) \<noteq> 0 \<and> chip_powered hw"
  using last_off_power[OF assms] hw_quietD[OF wfsys_off_quiet assms, of t] hw_quietD[OF other_off_quiet assms, of t]
  by (auto simp: consys_hw_pwr_off_def Let_def)

text \<open>What the core relies on: the two functions succeed, and the power follows the status it passes them.\<close>

locale power_layer =
  fixes on_fn off_fn :: "u32 \<Rightarrow> u32 \<Rightarrow> 'h \<Rightarrow> int \<times> 'h" and ok powered :: "'h \<Rightarrow> bool"
  assumes on_ret: "ok h \<Longrightarrow> fst (on_fn s t h) = 0"
    and on_ok: "ok h \<Longrightarrow> ok (snd (on_fn s t h))"
    and on_power: "ok h \<Longrightarrow> powered (snd (on_fn s t h)) \<longleftrightarrow> s = 0 \<or> powered h"
    and off_ret: "ok h \<Longrightarrow> fst (off_fn s t h) = 0"
    and off_ok: "ok h \<Longrightarrow> ok (snd (off_fn s t h))"
    and off_power: "ok h \<Longrightarrow> powered (snd (off_fn s t h)) \<longleftrightarrow> s AND NOT (push_bit (unat t) 1) \<noteq> 0 \<and> powered h"
begin

text \<open>With a status that is zero exactly when there is no power, there is power after a power-on, and after a power-off when
  another subsystem is on.\<close>

lemma on_tracks: "ok h \<Longrightarrow> powered h = (s \<noteq> 0) \<Longrightarrow> powered (snd (on_fn s t h))"
  by (auto simp: on_power)

lemma off_tracks: "ok h \<Longrightarrow> powered h \<Longrightarrow> powered (snd (off_fn s t h)) = (s AND NOT (push_bit (unat t) 1) \<noteq> 0)"
  by (simp add: off_power)

lemma off_all: "ok h \<Longrightarrow> \<not> powered (snd (off_fn 0 t h))"
  by (simp add: off_power)

end

interpretation hw: power_layer consys_hw_pwr_on consys_hw_pwr_off hw_ok chip_powered
  by unfold_locales (simp_all add: pwr_on_spec pwr_off_spec)

lemma other_hw_quiet:
  "hw_quiet (\<lambda>hw. snd (pmic_mng_bt_power_ctrl b hw))" "hw_quiet (\<lambda>hw. snd (pmic_mng_fm_power_ctrl b hw))"
  "hw_quiet (\<lambda>hw. snd (pmic_mng_gps_power_ctrl b hw))" "hw_quiet (\<lambda>hw. snd (pmic_mng_wifi_power_ctrl b hw))"
  "hw_quiet (\<lambda>hw. snd (consys_hw_reg_readable hw))" "hw_quiet (\<lambda>hw. snd (consys_hw_spi_read s a v hw))"
  "hw_quiet (\<lambda>hw. snd (consys_hw_spi_write s a v hw))" "hw_quiet (\<lambda>hw. snd (consys_hw_spi_clock_switch s hw))"
  "hw_quiet (\<lambda>hw. snd (consys_hw_adie_top_ck_en_on s hw))" "hw_quiet (\<lambda>hw. snd (consys_hw_adie_top_ck_en_off s hw))"
  "hw_quiet (\<lambda>hw. snd (consys_hw_dump_power_state hw))"
  by (simp_all add: hw_quiet_def pmic_mng_bt_power_ctrl_def pmic_mng_fm_power_ctrl_def pmic_mng_gps_power_ctrl_def
      pmic_mng_wifi_power_ctrl_def consys_hw_reg_readable_def consys_hw_spi_read_def consys_hw_spi_write_def
      consys_hw_spi_clock_switch_def consys_hw_adie_top_ck_en_on_def consys_hw_adie_top_ck_en_off_def
      consys_hw_dump_power_state_def)

end
