(* ===== verification/Core_State_Spec.thy ===== *)
theory Core_State_Spec
  imports Core_Power_Spec
begin

text \<open>
  The power states as a set: which subsystems are on, that the operations of the core do to this set what their names
  say, and that the chip has power exactly when the set is not empty.
\<close>

section \<open>Subsystems that are on\<close>

definition on_set :: "'w conninfra_ctx \<Rightarrow> nat set" where
  "on_set ctx = {i. i < 5 \<and> drv_status (drv_inst ctx ! i) = DRV_STS_POWER_ON}"

definition status_ok :: "'w conninfra_ctx \<Rightarrow> bool" where
  "status_ok ctx \<longleftrightarrow>
     length (drv_inst ctx) = 5 \<and> (\<forall>i < 5. drv_status (drv_inst ctx ! i) \<in> {DRV_STS_POWER_OFF, DRV_STS_POWER_ON})"

definition core_inv :: "'w conninfra_ctx \<Rightarrow> bool" where
  "core_inv ctx \<longleftrightarrow>
     status_ok ctx \<and> hw_ok (consys ctx) \<and> \<not> core_lock ctx \<and>
     infra_drv_status ctx = (if on_set ctx = {} then DRV_STS_POWER_OFF else DRV_STS_POWER_ON) \<and>
     chip_powered (consys ctx) = (on_set ctx \<noteq> {})"

lemma on_hw_eq [simp]: "on_hw f ctx = (fst (f (consys ctx)), ctx\<lparr>consys := snd (f (consys ctx))\<rparr>)"
  by (simp add: on_hw_def split: prod.splits)

lemma on_set_fields [simp]:
  "on_set (ctx\<lparr>consys := h\<rparr>) = on_set ctx" "on_set (ctx\<lparr>core_lock := b\<rparr>) = on_set ctx"
  "on_set (ctx\<lparr>infra_drv_status := v\<rparr>) = on_set ctx" "on_set (ctx\<lparr>rst_status := v\<rparr>) = on_set ctx"
  "on_set (ctx\<lparr>rst_state := v\<rparr>) = on_set ctx" "on_set (ctx\<lparr>rst_sema := n\<rparr>) = on_set ctx"
  "on_set (ctx\<lparr>trg_drv := v\<rparr>) = on_set ctx" "on_set (ctx\<lparr>trg_reason := r\<rparr>) = on_set ctx"
  by (simp_all add: on_set_def)

lemma status_ok_fields [simp]:
  "status_ok (ctx\<lparr>consys := h\<rparr>) = status_ok ctx" "status_ok (ctx\<lparr>core_lock := b\<rparr>) = status_ok ctx"
  "status_ok (ctx\<lparr>infra_drv_status := v\<rparr>) = status_ok ctx" "status_ok (ctx\<lparr>rst_status := v\<rparr>) = status_ok ctx"
  "status_ok (ctx\<lparr>rst_state := v\<rparr>) = status_ok ctx" "status_ok (ctx\<lparr>rst_sema := n\<rparr>) = status_ok ctx"
  "status_ok (ctx\<lparr>trg_drv := v\<rparr>) = status_ok ctx" "status_ok (ctx\<lparr>trg_reason := r\<rparr>) = status_ok ctx"
  by (simp_all add: status_ok_def)

lemma on_set_subset: "on_set ctx \<subseteq> {..<5}"
  by (auto simp: on_set_def)

lemma all_less_5: "(\<forall>i < (5::nat). P i) \<longleftrightarrow> P 0 \<and> P 1 \<and> P 2 \<and> P 3 \<and> P 4"
proof -
  have "{i. i < (5::nat)} = {0, 1, 2, 3, 4}" by auto
  then show ?thesis by (metis insert_iff mem_Collect_eq empty_iff)
qed

lemma ex_less_5: "(\<exists>i < (5::nat). P i) \<longleftrightarrow> P 0 \<or> P 1 \<or> P 2 \<or> P 3 \<or> P 4"
  using all_less_5[of "\<lambda>i. \<not> P i"] by blast

lemma upt_0_5: "[0..<5] = [0, 1, 2, 3, 4::nat]"
  by (simp add: upt_rec eval_nat_numeral)

lemma sts_max [simp]: "\<not> DRV_STS_MAX \<le> (1 :: u32)"
  by (simp add: word_le_nat_alt)

lemma set_drv_status_fields [simp]:
  "consys (set_drv_status i v ctx) = consys ctx" "core_lock (set_drv_status i v ctx) = core_lock ctx"
  "infra_drv_status (set_drv_status i v ctx) = infra_drv_status ctx"
  "length (drv_inst (set_drv_status i v ctx)) = length (drv_inst ctx)"
  "rst_status (set_drv_status i v ctx) = rst_status ctx"
  "rst_state (set_drv_status i v ctx) = rst_state ctx" "rst_sema (set_drv_status i v ctx) = rst_sema ctx"
  by (simp_all add: set_drv_status_def)

lemma set_drv_status_at:
  "i < length (drv_inst ctx) \<Longrightarrow>
     drv_status (drv_inst (set_drv_status i v ctx) ! j) = (if j = i then v else drv_status (drv_inst ctx ! j))"
  by (simp add: set_drv_status_def nth_list_update)

lemma status_ok_set: "status_ok ctx \<Longrightarrow> i < 5 \<Longrightarrow> v \<in> {0, 1} \<Longrightarrow> status_ok (set_drv_status i v ctx)"
  by (auto simp: status_ok_def set_drv_status_at)

lemma on_set_set:
  "status_ok ctx \<Longrightarrow> i < 5 \<Longrightarrow>
     on_set (set_drv_status i v ctx) = (if v = 1 then insert i (on_set ctx) else on_set ctx - {i})"
  by (auto simp: on_set_def status_ok_def set_drv_status_at split: if_splits)

lemma bit_status: "s \<in> {0, 1 :: u32} \<Longrightarrow> bit s n \<longleftrightarrow> s = 1 \<and> n = 0"
  by (auto simp: bit_1_iff)

text \<open>The current status has the bits of the subsystems that are on.\<close>

lemma bit_current_status:
  assumes "status_ok ctx"
  shows "bit (opfunc_get_current_status ctx) n \<longleftrightarrow> n \<in> on_set ctx"
proof -
  have s: "drv_status (drv_inst ctx ! i) \<in> {0, 1}" if "i < 5" for i
    using assms that by (simp add: status_ok_def)
  have b: "bit (push_bit i (drv_status (drv_inst ctx ! i))) n \<longleftrightarrow> n = i \<and> drv_status (drv_inst ctx ! i) = 1"
    if "i < 5" for i
    using bit_status[OF s[OF that], of "n - i"] that by (auto simp: bit_push_bit_iff)
  have "bit (opfunc_get_current_status ctx) n \<longleftrightarrow> (\<exists>i < 5. n = i \<and> drv_status (drv_inst ctx ! i) = 1)"
    using b[of 0] b[of 1] b[of 2] b[of 3] b[of 4]
    by (simp add: opfunc_get_current_status_def upt_0_5 bit_or_iff ex_less_5)
  then show ?thesis by (auto simp: on_set_def)
qed

lemma current_status_0: "status_ok ctx \<Longrightarrow> opfunc_get_current_status ctx = 0 \<longleftrightarrow> on_set ctx = {}"
  using on_set_subset[of ctx] by (force simp: bit_eq_iff bit_current_status)

lemma current_status_rest:
  assumes "status_ok ctx" and "i < 5"
  shows "opfunc_get_current_status ctx AND NOT (push_bit i 1) = 0 \<longleftrightarrow> on_set ctx - {i} = {}"
proof -
  have "bit (push_bit i 1 :: u32) n \<longleftrightarrow> n = i" for n
    using assms(2) by (auto simp: bit_exp_iff)
  then have "bit (opfunc_get_current_status ctx AND NOT (push_bit i 1)) n \<longleftrightarrow> n \<in> on_set ctx - {i}" for n
    using assms(1) on_set_subset[of ctx] by (auto simp: bit_and_iff bit_not_iff bit_current_status)
  then show ?thesis using on_set_subset[of ctx] by (force simp: bit_eq_iff)
qed

section \<open>Power on and off\<close>

lemma vcn_fields [simp]:
  "drv_inst (opfunc_vcn_control_internal t b ctx) = drv_inst ctx"
  "core_lock (opfunc_vcn_control_internal t b ctx) = core_lock ctx"
  "infra_drv_status (opfunc_vcn_control_internal t b ctx) = infra_drv_status ctx"
  "rst_status (opfunc_vcn_control_internal t b ctx) = rst_status ctx"
  "rst_state (opfunc_vcn_control_internal t b ctx) = rst_state ctx"
  "rst_sema (opfunc_vcn_control_internal t b ctx) = rst_sema ctx"
  by (simp_all add: opfunc_vcn_control_internal_def)

lemma vcn_sets [simp]:
  "on_set (opfunc_vcn_control_internal t b ctx) = on_set ctx"
  "status_ok (opfunc_vcn_control_internal t b ctx) = status_ok ctx"
  by (simp_all add: on_set_def status_ok_def)

lemma vcn_hw:
  assumes "hw_ok (consys ctx)"
  shows "hw_ok (consys (opfunc_vcn_control_internal t b ctx))"
    and "chip_powered (consys (opfunc_vcn_control_internal t b ctx)) = chip_powered (consys ctx)"
proof -
  note q = other_hw_quiet(1-4)[where b = b, THEN hw_quietD(1), OF assms]
    other_hw_quiet(1-4)[where b = b, THEN hw_quietD(2), OF assms]
  show "hw_ok (consys (opfunc_vcn_control_internal t b ctx))"
    and "chip_powered (consys (opfunc_vcn_control_internal t b ctx)) = chip_powered (consys ctx)"
    using q assms by (simp_all add: opfunc_vcn_control_internal_def)
qed

lemma drv_type_index: "(t :: u32) < 5 \<Longrightarrow> unat t < 5"
  by (simp add: word_less_nat_alt)

lemma power_on_ok:
  assumes inv: "core_inv ctx" and t: "t < CONNDRV_TYPE_MAX"
  shows "post (opfunc_power_on_internal 0 t ctx) (\<lambda>(ret, ctx'). ret = 0 \<and> core_inv ctx' \<and> on_set ctx' = insert (unat t) (on_set ctx))"
proof -
  let ?i = "unat t" and ?s = "opfunc_get_current_status ctx"
  have i: "?i < 5" using t by (rule drv_type_index)
  from inv have ok: "status_ok ctx" and hw: "hw_ok (consys ctx)" and l: "\<not> core_lock ctx"
    and pw: "chip_powered (consys ctx) = (on_set ctx \<noteq> {})"
    by (simp_all add: core_inv_def)
  have len: "length (drv_inst ctx) = 5" and st: "drv_status (drv_inst ctx ! ?i) \<in> {0, 1}"
    using ok i by (simp_all add: status_ok_def)
  have len': "length (drv_inst (ctx\<lparr>core_lock := True\<rparr>)) = 5" using len by simp
  have same: "opfunc_get_current_status (ctx\<lparr>core_lock := True\<rparr>) = ?s"
    by (simp add: opfunc_get_current_status_def)
  have unlocked: "core_inv (ctx\<lparr>core_lock := False\<rparr>)" using inv by (simp add: core_inv_def)
  show ?thesis
  proof (cases "drv_status (drv_inst ctx ! ?i) = 1")
    case True
    then have "insert ?i (on_set ctx) = on_set ctx" using i by (auto simp: on_set_def)
    then show ?thesis using True t i len l inv unlocked
      by (simp add: opfunc_power_on_internal_def osal_lock_sleepable_lock_def osal_unlock_sleepable_lock_def not_le[symmetric])
  next
    case False
    have "chip_powered (consys ctx) = (?s \<noteq> 0)" using pw current_status_0[OF ok] by simp
    note p = hw.on_ret[OF hw, of ?s t] hw.on_ok[OF hw, of ?s t] hw.on_tracks[OF hw this, of t]
    define c where "c = set_drv_status ?i 1 (ctx\<lparr>core_lock := True, consys := snd (consys_hw_pwr_on ?s t (consys ctx)), infra_drv_status := 1\<rparr>)"
    have c: "status_ok c" "on_set c = insert ?i (on_set ctx)" "infra_drv_status c = 1" "hw_ok (consys c)"
      "chip_powered (consys c)"
      using ok i p by (auto simp: c_def status_ok_set on_set_set)
    have "core_inv (osal_unlock_sleepable_lock (opfunc_vcn_control_internal t True c))"
      using c vcn_hw[OF c(4)] by (simp add: core_inv_def osal_unlock_sleepable_lock_def)
    then show ?thesis
      using False t i len l st p(1) c(2) same
      by (simp add: opfunc_power_on_internal_def osal_lock_sleepable_lock_def not_le[symmetric] Let_def c_def[symmetric]
          osal_unlock_sleepable_lock_def)
  qed
qed

lemma force_off_ok:
  assumes "status_ok ctx" and "hw_ok (consys ctx)"
  defines "c \<equiv> force_off_subsys ctx"
  shows "status_ok c \<and> hw_ok (consys c) \<and> chip_powered (consys c) = chip_powered (consys ctx) \<and>
    core_lock c = core_lock ctx \<and> on_set c = {}"
proof -
  let ?f = "\<lambda>i ctx. if drv_status (drv_inst ctx ! i) = DRV_STS_POWER_ON
                   then set_drv_status i DRV_STS_POWER_OFF (opfunc_vcn_control_internal (of_nat i) False ctx)
                   else ctx"
  have "n \<le> 5 \<Longrightarrow> status_ok (fold ?f [0..<n] ctx) \<and> hw_ok (consys (fold ?f [0..<n] ctx)) \<and>
      chip_powered (consys (fold ?f [0..<n] ctx)) = chip_powered (consys ctx) \<and>
      core_lock (fold ?f [0..<n] ctx) = core_lock ctx \<and> on_set (fold ?f [0..<n] ctx) = on_set ctx - {..<n}" for n
  proof (induction n)
    case 0
    show ?case using assms by simp
  next
    case (Suc n)
    let ?c = "fold ?f [0..<n] ctx"
    have ih: "status_ok ?c" "hw_ok (consys ?c)" "chip_powered (consys ?c) = chip_powered (consys ctx)"
      "core_lock ?c = core_lock ctx" "on_set ?c = on_set ctx - {..<n}" "n < 5"
      using Suc by auto
    have "drv_status (drv_inst ?c ! n) = 1 \<longleftrightarrow> n \<in> on_set ?c" using ih(6) by (simp add: on_set_def)
    then show ?case using ih vcn_hw[OF ih(2)] by (auto simp: status_ok_set on_set_set lessThan_Suc)
  qed
  from this[of 5] show ?thesis using on_set_subset[of ctx] by (auto simp: c_def force_off_subsys_def)
qed

text \<open>Turning a subsystem off with a status that has been read at some time.\<close>

lemma power_off_with_subsys:
  assumes inv: "core_inv ctx" and t: "t < CONNDRV_TYPE_CONNINFRA" and on: "unat t \<in> on_set ctx"
  shows "post (power_off_with s 0 t ctx) (\<lambda>(ret, ctx').
    ret = 0 \<and> status_ok ctx' \<and> hw_ok (consys ctx') \<and> \<not> core_lock ctx' \<and> on_set ctx' = on_set ctx - {unat t} \<and>
    infra_drv_status ctx' = (if on_set ctx' = {} then DRV_STS_POWER_OFF else DRV_STS_POWER_ON) \<and>
    chip_powered (consys ctx') = (s AND NOT (push_bit (unat t) 1) \<noteq> 0))"
proof -
  let ?i = "unat t"
  have t5: "\<not> 5 \<le> t" "t \<noteq> 4" and i: "?i < 5" using t by (auto simp: word_less_nat_alt word_le_nat_alt)
  from inv have ok: "status_ok ctx" and hw: "hw_ok (consys ctx)" and l: "\<not> core_lock ctx"
    and pw: "chip_powered (consys ctx)" and inf: "infra_drv_status ctx = 1"
    using on by (auto simp: core_inv_def)
  have len: "length (drv_inst ctx) = 5" and st: "drv_status (drv_inst ctx ! ?i) = 1"
    using ok on by (simp_all add: status_ok_def on_set_def)
  define b where "b = set_drv_status ?i 0 (opfunc_vcn_control_internal t False (ctx\<lparr>core_lock := True\<rparr>))"
  have hwc: "hw_ok (consys (ctx\<lparr>core_lock := True\<rparr>))" using hw by simp
  have b: "status_ok b" "hw_ok (consys b)" "chip_powered (consys b)" "on_set b = on_set ctx - {?i}" "infra_drv_status b = 1"
    using ok i pw inf vcn_hw[OF hwc] by (auto simp: b_def status_ok_set on_set_set)
  note p = hw.off_ret[OF b(2), of s t] hw.off_ok[OF b(2), of s t] hw.off_tracks[OF b(2,3), of s t]
  have none_on: "list_all (\<lambda>i. drv_status (drv_inst b ! i) \<noteq> 1) [0..<5] \<longleftrightarrow> on_set b = {}"
    by (auto simp: on_set_def list_all_iff)
  show ?thesis
    using t5 i len st l p b none_on
    by (simp add: power_off_with_def osal_lock_sleepable_lock_def osal_unlock_sleepable_lock_def Let_def
        b_def[symmetric] del: set_drv_status_fields vcn_fields)
qed

lemma power_off_subsys:
  assumes inv: "core_inv ctx" and t: "t < CONNDRV_TYPE_CONNINFRA"
  shows "post (opfunc_power_off_internal 0 t ctx) (\<lambda>(ret, ctx'). ret = 0 \<and> core_inv ctx' \<and> on_set ctx' = on_set ctx - {unat t})"
proof (cases "unat t \<in> on_set ctx")
  case True
  have i: "unat t < 5" using t by (auto simp: word_less_nat_alt)
  from inv have ok: "status_ok ctx" by (simp add: core_inv_def)
  show ?thesis
    unfolding opfunc_power_off_internal_def
    by (rule post_mono[OF power_off_with_subsys[OF inv t True, of "opfunc_get_current_status ctx"]])
      (clarsimp simp: core_inv_def current_status_rest[OF ok i, simplified])
next
  case False
  have t5: "\<not> 5 \<le> t" "t \<noteq> 4" and i: "unat t < 5" using t by (auto simp: word_less_nat_alt word_le_nat_alt)
  from inv have ok: "status_ok ctx" and l: "\<not> core_lock ctx" by (simp_all add: core_inv_def)
  then have len: "length (drv_inst ctx) = 5" and st: "drv_status (drv_inst ctx ! unat t) = 0"
    using False i by (auto simp: status_ok_def on_set_def)
  have "core_inv (ctx\<lparr>core_lock := False\<rparr>)" using inv by (simp add: core_inv_def)
  then show ?thesis using t5 i len st l False
    by (simp add: opfunc_power_off_internal_def power_off_with_def osal_lock_sleepable_lock_def osal_unlock_sleepable_lock_def)
qed

text \<open>The forced power-off.\<close>

lemma power_off_forced:
  assumes inv: "core_inv ctx" and on: "on_set ctx \<noteq> {}"
  shows "post (power_off_with s 0 CONNDRV_TYPE_CONNINFRA ctx) (\<lambda>(ret, ctx'). ret = 0 \<and> core_inv ctx' \<and> on_set ctx' = {})"
proof -
  from inv have ok: "status_ok ctx" and hw: "hw_ok (consys ctx)" and l: "\<not> core_lock ctx" and inf: "infra_drv_status ctx = 1"
    using on by (auto simp: core_inv_def)
  have len: "length (drv_inst ctx) = 5" and st: "\<not> DRV_STS_MAX \<le> drv_status (drv_inst ctx ! 4)"
    using ok by (auto simp: status_ok_def all_less_5)
  define b where "b = force_off_subsys (ctx\<lparr>core_lock := True\<rparr>)"
  have b: "status_ok b" "hw_ok (consys b)" "on_set b = {}"
    using force_off_ok[of "ctx\<lparr>core_lock := True\<rparr>"] ok hw by (simp_all add: b_def)
  note p = hw.off_ret[OF b(2), of 0 CONNDRV_TYPE_CONNINFRA] hw.off_ok[OF b(2), of 0 CONNDRV_TYPE_CONNINFRA]
    hw.off_all[OF b(2), of CONNDRV_TYPE_CONNINFRA]
  show ?thesis
    using len st l inf p b
    by (simp add: power_off_with_def osal_lock_sleepable_lock_def osal_unlock_sleepable_lock_def Let_def
        b_def[symmetric] core_inv_def)
qed

lemma power_off_forced_off:
  assumes inv: "core_inv ctx" and off: "on_set ctx = {}"
  shows "power_off_with s 0 CONNDRV_TYPE_CONNINFRA ctx = Some (0, ctx\<lparr>core_lock := True\<rparr>)"
proof -
  from inv have ok: "status_ok ctx" and l: "\<not> core_lock ctx" and inf: "infra_drv_status ctx = 0"
    using off by (auto simp: core_inv_def)
  have len: "length (drv_inst ctx) = 5" and st: "\<not> DRV_STS_MAX \<le> drv_status (drv_inst ctx ! 4)"
    using ok by (auto simp: status_ok_def all_less_5)
  show ?thesis using len st l inf by (simp add: power_off_with_def osal_lock_sleepable_lock_def arr_get_def)
qed

section \<open>Other operations\<close>

text \<open>An operation under the lock that only calls a quiet function of the platform layer, and only when the chip is on.\<close>

definition hw_keep :: "('w consys_hw \<Rightarrow> 'w consys_hw) \<Rightarrow> bool" where
  "hw_keep f \<longleftrightarrow> (\<forall>hw. hw_ok hw \<longrightarrow> hw_ok (f hw) \<and> chip_powered (f hw) = chip_powered hw)"

lemma hw_quiet_keep: "hw_quiet f \<Longrightarrow> hw_keep f"
  by (simp add: hw_keep_def hw_quietD)

lemma wake_keep: "hw_keep (\<lambda>hw :: 'w consys_hw. snd (consys_hw_force_conninfra_wakeup hw))"
proof -
  have "hw_ok (snd (consys_hw_force_conninfra_wakeup hw))" if "hw_ok hw" for hw :: "'w consys_hw"
    using that wakeup_frame(4)[of hw] by (auto simp: hw_ok_def wakeup_frame(1))
  then show ?thesis by (simp add: hw_keep_def wakeup_frame(2))
qed

lemma sleep_keep: "hw_keep (\<lambda>hw. snd (consys_hw_force_conninfra_sleep hw))"
  by (auto simp: hw_keep_def hw_ok_def sleep_frame)

lemma locked_keep:
  assumes "core_inv ctx" and "hw_keep f"
  shows "core_inv (ctx\<lparr>core_lock := False, consys := f (consys ctx)\<rparr>)"
  using assms by (auto simp: core_inv_def hw_keep_def)

lemma unlocked_inv: "core_inv ctx \<Longrightarrow> core_inv (ctx\<lparr>core_lock := False\<rparr>)"
  by (simp add: core_inv_def)

fun power_spec :: "core_op \<Rightarrow> nat set \<Rightarrow> nat set" where
  "power_spec (CONNINFRA_OPID_PWR_ON t) S = insert (unat t) S"
| "power_spec (CONNINFRA_OPID_PWR_OFF t) S = (if t = CONNDRV_TYPE_CONNINFRA then {} else S - {unat t})"
| "power_spec op S = S"

fun op_type_ok :: "core_op \<Rightarrow> bool" where
  "op_type_ok (CONNINFRA_OPID_PWR_ON t) = (t < CONNDRV_TYPE_MAX)"
| "op_type_ok (CONNINFRA_OPID_PWR_OFF t) = (t < CONNDRV_TYPE_MAX)"
| "op_type_ok (CONNINFRA_OPID_ADIE_TOP_CK_EN_ON t) = (t < CONNDRV_TYPE_MAX)"
| "op_type_ok (CONNINFRA_OPID_ADIE_TOP_CK_EN_OFF t) = (t < CONNDRV_TYPE_MAX)"
| "op_type_ok (CONNINFRA_OPID_SPI_CLOCK_SWITCH t) = (t < CONNSYS_SPI_SPEED_MAX)"
| "op_type_ok op = True"

fun is_power_op :: "core_op \<Rightarrow> bool" where
  "is_power_op (CONNINFRA_OPID_PWR_ON t) = True"
| "is_power_op (CONNINFRA_OPID_PWR_OFF t) = True"
| "is_power_op op = False"

lemmas core_op_defs =
  opfunc_rfspi_read_def opfunc_rfspi_write_def opfunc_adie_top_ck_en_on_def opfunc_adie_top_ck_en_off_def
  opfunc_spi_clock_switch_def opfunc_force_conninfra_wakeup_def opfunc_force_conninfra_sleep_def
  opfunc_dump_power_state_def osal_lock_sleepable_lock_def osal_unlock_sleepable_lock_def

lemma spi_then_keep:
  assumes "hw_keep f" and "hw_keep g"
  shows "hw_keep (\<lambda>hw. g (f hw))"
  using assms by (simp add: hw_keep_def)

lemma other_op_ok:
  assumes inv: "core_inv ctx" and op: "\<not> is_power_op op"
  shows "post (conninfra_core_opfunc op 0 ctx) (\<lambda>(ret, ctx'). core_inv ctx' \<and> on_set ctx' = on_set ctx \<and>
    drv_inst ctx' = drv_inst ctx \<and> rst_status ctx' = rst_status ctx \<and> rst_state ctx' = rst_state ctx \<and> rst_sema ctx' = rst_sema ctx)"
proof -
  have l: "\<not> core_lock ctx" using inv by (simp add: core_inv_def)
  note quiet = other_hw_quiet[THEN hw_quiet_keep]
  note rd = spi_then_keep[OF quiet(5) quiet(6)] and wr = spi_then_keep[OF quiet(5) quiet(7)]
  note keeps = quiet[THEN locked_keep[OF inv]] wake_keep[THEN locked_keep[OF inv]] sleep_keep[THEN locked_keep[OF inv]]
    rd[THEN locked_keep[OF inv]] wr[THEN locked_keep[OF inv]]
  have s: "ctx\<lparr>core_lock := True, consys := h, core_lock := False\<rparr> = ctx\<lparr>core_lock := False, consys := h\<rparr>" for h
    by simp
  show ?thesis using l op keeps unlocked_inv[OF inv]
    by (cases op) (simp_all add: core_op_defs Let_def split_beta inv s)
qed

section \<open>The core lock\<close>

text \<open>The operations that return with the lock held, and those that release the lock without having it.\<close>

fun lock_leaks :: "core_op \<Rightarrow> int \<Rightarrow> 'w conninfra_ctx \<Rightarrow> bool" where
  "lock_leaks (CONNINFRA_OPID_PWR_OFF t) lk ctx =
     (t = CONNDRV_TYPE_CONNINFRA \<and> lk = 0 \<and> drv_status (drv_inst ctx ! 4) < DRV_STS_MAX \<and> infra_drv_status ctx = DRV_STS_POWER_OFF)"
| "lock_leaks op lk ctx = False"

fun lock_stolen :: "core_op \<Rightarrow> int \<Rightarrow> bool" where
  "lock_stolen (CONNINFRA_OPID_ADIE_TOP_CK_EN_ON t) lk = (lk \<noteq> 0 \<and> t < CONNDRV_TYPE_MAX)"
| "lock_stolen (CONNINFRA_OPID_ADIE_TOP_CK_EN_OFF t) lk = (lk \<noteq> 0 \<and> t < CONNDRV_TYPE_MAX)"
| "lock_stolen (CONNINFRA_OPID_SPI_CLOCK_SWITCH t) lk = (lk \<noteq> 0 \<and> t < CONNSYS_SPI_SPEED_MAX)"
| "lock_stolen op lk = False"

lemma power_on_lock:
  assumes "opfunc_power_on_internal lk t ctx = Some (ret, ctx')"
  shows "core_lock ctx' = core_lock ctx"
  using assms unfolding opfunc_power_on_internal_def osal_lock_sleepable_lock_def osal_unlock_sleepable_lock_def
  by (simp add: Let_def split: if_splits option.splits; clarsimp simp: bind_eq_Some_conv Let_def split: if_splits)

lemma power_off_lock:
  assumes "power_off_with s lk t ctx = Some (ret, ctx')"
  shows "core_lock ctx' = (lock_leaks (CONNINFRA_OPID_PWR_OFF t) lk ctx \<or> core_lock ctx)"
  using assms unfolding power_off_with_def osal_lock_sleepable_lock_def osal_unlock_sleepable_lock_def
  by (simp add: Let_def split: if_splits option.splits; clarsimp simp: bind_eq_Some_conv arr_get_def Let_def not_le split: if_splits)
    (auto simp: word_le_nat_alt word_less_nat_alt)

lemma other_op_lock:
  assumes "\<not> is_power_op op" and "conninfra_core_opfunc op lk ctx = Some (ret, ctx')"
  shows "core_lock ctx' = (if lock_stolen op lk then False else core_lock ctx)"
  using assms
  by (cases op) (auto simp: core_op_defs Let_def bind_eq_Some_conv split_beta not_le split: if_splits)

text \<open>Every operation with valid data waits while the lock is held.\<close>

lemma op_waits:
  assumes "core_lock ctx" and "status_ok ctx" and "op_type_ok op"
  shows "conninfra_core_opfunc op 0 ctx = None"
proof -
  have "\<not> DRV_STS_MAX \<le> drv_status (drv_inst ctx ! unat t)" "unat t < length (drv_inst ctx)" if "t < CONNDRV_TYPE_MAX" for t
    using assms(2) drv_type_index[OF that] by (auto simp: status_ok_def)
  then show ?thesis using assms(1,3)
    by (cases op) (auto simp: core_op_defs opfunc_power_on_internal_def opfunc_power_off_internal_def power_off_with_def arr_get_def not_le[symmetric])
qed

end
