(* ===== verification/Core_Reset_Spec.thy ===== *)
theory Core_Reset_Spec
  imports Core_Reset Core_State_Spec
begin

text \<open>
  The chip reset keeps to its specification (a simulation), it ends, and it leaves the same subsystems on.
\<close>

section \<open>What the operations of the core leave alone\<close>

definition rst_frame :: "'w conninfra_ctx \<Rightarrow> 'w conninfra_ctx \<Rightarrow> bool" where
  "rst_frame ctx ctx' \<longleftrightarrow>
     length (drv_inst ctx') = length (drv_inst ctx) \<and> rst_status ctx' = rst_status ctx \<and> rst_state ctx' = rst_state ctx \<and>
     rst_sema ctx' = rst_sema ctx"

lemma rst_frame_refl [simp]: "rst_frame ctx ctx"
  by (simp add: rst_frame_def)

lemma rst_frame_trans: "rst_frame a b \<Longrightarrow> rst_frame b c \<Longrightarrow> rst_frame a c"
  by (simp add: rst_frame_def)

lemma rst_frame_updates [simp]:
  "rst_frame ctx (ctx'\<lparr>core_lock := b\<rparr>) = rst_frame ctx ctx'"
  "rst_frame ctx (ctx'\<lparr>consys := h\<rparr>) = rst_frame ctx ctx'"
  "rst_frame ctx (ctx'\<lparr>infra_drv_status := v\<rparr>) = rst_frame ctx ctx'"
  "rst_frame (ctx\<lparr>core_lock := b\<rparr>) ctx' = rst_frame ctx ctx'"
  "rst_frame (ctx\<lparr>consys := h\<rparr>) ctx' = rst_frame ctx ctx'"
  "rst_frame (ctx\<lparr>infra_drv_status := v\<rparr>) ctx' = rst_frame ctx ctx'"
  "rst_frame ctx (set_drv_status i v ctx') = rst_frame ctx ctx'"
  "rst_frame ctx (opfunc_vcn_control_internal t b ctx') = rst_frame ctx ctx'"
  by (simp_all add: rst_frame_def)

lemma force_off_frame [simp]: "rst_frame ctx (force_off_subsys ctx') = rst_frame ctx ctx'"
proof -
  let ?f = "\<lambda>i ctx. if drv_status (drv_inst ctx ! i) = DRV_STS_POWER_ON
                   then set_drv_status i DRV_STS_POWER_OFF (opfunc_vcn_control_internal (of_nat i) False ctx)
                   else ctx"
  have "rst_frame ctx (fold ?f is ctx') = rst_frame ctx ctx'" for "is"
    by (induction "is" arbitrary: ctx') simp_all
  then show ?thesis by (simp add: force_off_subsys_def)
qed

lemma lock_frame: "osal_lock_sleepable_lock lk ctx = Some (r, ctx') \<Longrightarrow> rst_frame ctx ctx'"
  by (auto simp: osal_lock_sleepable_lock_def split: if_splits)

lemma frame_bind:
  assumes "Option.bind m f = Some (r, c)" and "\<And>x. m = Some x \<Longrightarrow> f x = Some (r, c) \<Longrightarrow> rst_frame ctx c"
  shows "rst_frame ctx c"
  using assms by (cases m) simp_all

lemma frame_if:
  assumes "(if b then Some x else m) = Some (r, c)" and "x = (r, c) \<Longrightarrow> rst_frame ctx c" and "m = Some (r, c) \<Longrightarrow> rst_frame ctx c"
  shows "rst_frame ctx c"
  using assms by (simp split: if_splits)

lemma frame_lock:
  assumes "Option.bind (osal_lock_sleepable_lock lk ctx) f = Some (r, c)"
    and "\<And>ret ctx'. rst_frame ctx ctx' \<Longrightarrow> f (ret, ctx') = Some (r, c) \<Longrightarrow> rst_frame ctx' c"
  shows "rst_frame ctx c"
  by (rule frame_bind[OF assms(1)]) (metis assms(2) lock_frame prod.exhaust rst_frame_trans)

lemma unlock_frame [simp]: "rst_frame ctx (osal_unlock_sleepable_lock ctx') = rst_frame ctx ctx'"
  by (simp add: osal_unlock_sleepable_lock_def)

lemma power_on_frame: "opfunc_power_on_internal lk t ctx = Some (r, ctx') \<Longrightarrow> rst_frame ctx ctx'"
  unfolding opfunc_power_on_internal_def
  by (elim frame_if frame_bind frame_lock; auto simp: Let_def split: if_splits)

lemma power_off_frame: "power_off_with s lk t ctx = Some (r, ctx') \<Longrightarrow> rst_frame ctx ctx'"
  unfolding power_off_with_def
  by (elim frame_if frame_bind frame_lock; auto simp: Let_def split: if_splits elim!: frame_bind)

lemma core_op_frame:
  assumes "conninfra_core_opfunc op lk ctx = Some (r, ctx')"
  shows "rst_frame ctx ctx'"
proof (cases "is_power_op op")
  case True
  then show ?thesis using assms power_on_frame power_off_frame
    by (cases op) (auto simp: opfunc_power_off_internal_def)
next
  case False
  then show ?thesis using assms
    by (cases op) (auto simp: core_op_defs Let_def bind_eq_Some_conv split_beta split: if_splits)
qed

section \<open>Bits of the subsystems\<close>

definition bits :: "nat set \<Rightarrow> u32" where
  "bits S = of_nat (\<Sum>i\<in>S. 2 ^ i)"

lemma bits_empty [simp]: "bits {} = 0"
  by (simp add: bits_def)

lemma bits_insert: "finite S \<Longrightarrow> i \<notin> S \<Longrightarrow> bits (insert i S) = bits S + push_bit i 1"
  by (simp add: bits_def add.commute)

lemma bits_all:
  assumes "S \<subseteq> {..<5}"
  shows "bits S = subdrv_all_done \<longleftrightarrow> S = {..<5}"
proof -
  have all: "(\<Sum>i\<in>{..<5}. 2 ^ i) = (31 :: nat)" by (simp add: lessThan_nat_numeral lessThan_Suc numeral_eq_Suc)
  have le: "(\<Sum>i\<in>S. 2 ^ i) \<le> (31 :: nat)" using sum_mono2[OF _ assms, of "\<lambda>i. 2 ^ i :: nat"] all by simp
  have less: "(\<Sum>i\<in>S. 2 ^ i) < (31 :: nat)" if "S \<noteq> {..<5}"
    using sum_strict_mono2[of "{..<5}" S _ "\<lambda>i. 2 ^ i :: nat"] that assms all by fastforce
  have "bits S = of_nat 31 \<longleftrightarrow> (\<Sum>i\<in>S. 2 ^ i) = (31 :: nat)"
    unfolding bits_def word_of_nat_eq_iff using le by (auto simp: take_bit_nat_eq_self)
  then show ?thesis using less all by (cases "S = {..<5}") (simp_all add: bits_def)
qed

section \<open>Simulation\<close>

text \<open>The operations that wait at the subsystems below \<open>n\<close>, when those in \<open>S\<close> have run theirs.\<close>

definition pending :: "infra_subdrv_op \<Rightarrow> nat \<Rightarrow> nat set \<Rightarrow> infra_subdrv_op list list \<Rightarrow> bool" where
  "pending op n S qs \<longleftrightarrow>
     length qs = 5 \<and> S \<subseteq> {..<n} \<and> (\<forall>j < 5. qs ! j = [] \<or> qs ! j = [op] \<and> j < n \<and> j \<notin> S)"

definition quiet_queues :: "infra_subdrv_op list list \<Rightarrow> bool" where
  "quiet_queues qs \<longleftrightarrow> length qs = 5 \<and> (\<forall>j < 5. qs ! j = [])"

definition sizes_ok :: "'w rst_sys \<Rightarrow> bool" where
  "sizes_ok sys \<longleftrightarrow> length (drv_inst (core sys)) = 5 \<and> length (drv_pwr_state sys) = 5"

fun at_spec :: "cb_pc \<Rightarrow> infra_subdrv_op list list \<Rightarrow> nat \<Rightarrow> u32 \<Rightarrow> u32 \<Rightarrow> rst_spec \<Rightarrow> bool" where
  "at_spec pc qs q st bs A_Idle = (pc = Cb_Idle \<and> q = 0 \<and> quiet_queues qs \<and> st = CHIP_RST_NONE)"
| "at_spec pc qs q st bs A_Lost = (pc = Cb_Idle \<and> q = 0 \<and> quiet_queues qs \<and> st = CHIP_RST_START)"
| "at_spec pc qs q st bs A_Queued = (pc = Cb_Idle \<and> q = 1 \<and> quiet_queues qs \<and> st = CHIP_RST_START)"
| "at_spec pc qs q st bs (A_Pre S) =
     (q = 0 \<and> S \<subseteq> {..<5} \<and> bs = bits S \<and>
      ((\<exists>n < 5. pc = Cb_Pre n \<and> pending INFRA_SUBDRV_OPID_PRE_RESET n S qs) \<and> st = CHIP_RST_PRE_CB \<or>
       pc = Cb_Wait_Pre \<and> pending INFRA_SUBDRV_OPID_PRE_RESET 5 S qs \<and> st = CHIP_RST_PRE_CB \<or>
       pc = Cb_Off \<and> quiet_queues qs \<and> S = {..<5} \<and> st = CHIP_RST_RESET))"
| "at_spec pc qs q st bs (A_On m) =
     (q = 0 \<and> quiet_queues qs \<and> st = CHIP_RST_RESET \<and> ((\<exists>n < 5. m \<le> n \<and> pc = Cb_On n) \<or> pc = Cb_Resume))"
| "at_spec pc qs q st bs (A_Post S) =
     (q = 0 \<and> S \<subseteq> {..<5} \<and> bs = bits S \<and> st = CHIP_RST_POST_CB \<and>
      ((\<exists>n < 5. pc = Cb_Post n \<and> pending INFRA_SUBDRV_OPID_POST_RESET n S qs) \<or>
       pc = Cb_Wait_Post \<and> pending INFRA_SUBDRV_OPID_POST_RESET 5 S qs))"

definition sim :: "'w rst_sys \<Rightarrow> rst_spec \<Rightarrow> bool" where
  "sim sys a \<longleftrightarrow>
     sizes_ok sys \<and> at_spec (cb_pc sys) (drv_queue sys) (cb_queue sys) (rst_status (core sys)) (rst_state (core sys)) a"

lemma pending_none: "quiet_queues qs \<Longrightarrow> pending op n {} qs"
  by (simp add: pending_def quiet_queues_def)

lemma pending_send:
  assumes "pending op n S qs" and "n < 5"
  shows "pending op (Suc n) S (qs[n := qs ! n @ [op]])" "pending op (Suc n) S qs"
proof -
  have "qs ! n = []" "n \<notin> S" using assms by (auto simp: pending_def)
  then show "pending op (Suc n) S (qs[n := qs ! n @ [op]])" "pending op (Suc n) S qs"
    using assms by (auto simp: pending_def nth_list_update less_Suc_eq)
qed

lemma pending_all: "pending op n {..<5} qs \<Longrightarrow> quiet_queues qs"
  by (auto simp: pending_def quiet_queues_def)

lemma pending_run:
  assumes "pending op n S qs" and "i < length qs" and "qs ! i = op' # ops"
  shows "op' = op" "i < n" "i \<notin> S" "i < 5" "pending op n (insert i S) (qs[i := ops])"
proof -
  have "qs ! i = [op]" "i < n" "i \<notin> S" "i < 5" using assms by (auto simp: pending_def)
  then show "op' = op" "i < n" "i \<notin> S" "i < 5" "pending op n (insert i S) (qs[i := ops])"
    using assms by (auto simp: pending_def nth_list_update)
qed

lemma pending_next:
  "pending op n S qs \<Longrightarrow> n < 5 \<Longrightarrow> drv_queue sys = qs \<Longrightarrow> pending op (Suc n) S (drv_queue (send_subdrv send n op sys))"
  by (simp add: send_subdrv_def pending_send)

lemma send_fields [simp]:
  "core (send_subdrv send i op sys) = core sys" "cb_queue (send_subdrv send i op sys) = cb_queue sys"
  "drv_pwr_state (send_subdrv send i op sys) = drv_pwr_state sys" "cb_pc (send_subdrv send i op sys) = cb_pc sys"
  by (simp_all add: send_subdrv_def)

lemma to_pc_fields [simp]:
  "core (to_pc pc sys) = core sys" "cb_queue (to_pc pc sys) = cb_queue sys" "drv_queue (to_pc pc sys) = drv_queue sys"
  "drv_pwr_state (to_pc pc sys) = drv_pwr_state sys" "cb_pc (to_pc pc sys) = pc"
  by (simp_all add: to_pc_def)

lemma update_core_fields [simp]:
  "core (update_core f sys) = f (core sys)" "cb_queue (update_core f sys) = cb_queue sys"
  "drv_queue (update_core f sys) = drv_queue sys" "drv_pwr_state (update_core f sys) = drv_pwr_state sys"
  "cb_pc (update_core f sys) = cb_pc sys"
  by (simp_all add: update_core_def)

lemma run_cb_fields [simp]:
  "drv_inst (run_cb f ctx) = drv_inst ctx" "rst_status (run_cb f ctx) = rst_status ctx"
  "rst_state (run_cb f ctx) = rst_state ctx" "rst_sema (run_cb f ctx) = rst_sema ctx"
  "core_lock (run_cb f ctx) = core_lock ctx" "infra_drv_status (run_cb f ctx) = infra_drv_status ctx"
  by (simp_all add: run_cb_def split: option.splits)

lemma subdrv_sim:
  assumes "sim sys a" and "subdrv_step i sys = Some (es, sys')"
  shows "\<exists>a'. spec_run a es = Some a' \<and> sim sys' a'"
proof -
  obtain op ops where i: "i < length (drv_queue sys)" and q: "drv_queue sys ! i = op # ops"
    using assms(2) by (auto simp: subdrv_step_def split: if_splits list.splits)
  have no: "\<not> quiet_queues (drv_queue sys)" using i q by (auto simp: quiet_queues_def)
  show ?thesis
  proof (cases a)
    case (A_Pre S)
    obtain n where p: "pending INFRA_SUBDRV_OPID_PRE_RESET n S (drv_queue sys)"
      using assms(1) no A_Pre by (auto simp: sim_def)
    note r = pending_run[OF this i q]
    have f: "finite S" using assms(1) A_Pre finite_subset by (auto simp: sim_def)
    have "sizes_ok sys" using assms(1) by (simp add: sim_def)
    then have "es = [Pre_Cb i]"
      using assms(2) i q r(1,4) by (auto simp: subdrv_step_def opfunc_subdrv_pre_reset_def Let_def sizes_ok_def bind_eq_Some_conv)
    moreover have "sim sys' (A_Pre (insert i S))"
      using assms i q r no bits_insert[OF f r(3)] A_Pre pending_run[OF _ i q]
      by (auto simp: subdrv_step_def opfunc_subdrv_pre_reset_def Let_def sizes_ok_def bind_eq_Some_conv sim_def subdrv_done_def)
    ultimately show ?thesis using A_Pre r by auto
  next
    case (A_Post S)
    obtain n where p: "pending INFRA_SUBDRV_OPID_POST_RESET n S (drv_queue sys)"
      using assms(1) no A_Post by (auto simp: sim_def)
    note r = pending_run[OF this i q]
    have f: "finite S" using assms(1) A_Post finite_subset by (auto simp: sim_def)
    have "sizes_ok sys" using assms(1) by (simp add: sim_def)
    then have "es = [Post_Cb i]"
      using assms(2) i q r(1,4) by (auto simp: subdrv_step_def opfunc_subdrv_post_reset_def Let_def sizes_ok_def bind_eq_Some_conv)
    moreover have "sim sys' (A_Post (insert i S))"
      using assms i q r no bits_insert[OF f r(3)] A_Post pending_run[OF _ i q]
      by (auto simp: subdrv_step_def opfunc_subdrv_post_reset_def Let_def sizes_ok_def bind_eq_Some_conv sim_def subdrv_done_def)
    ultimately show ?thesis using A_Post r by auto
  qed (use assms(1) no in \<open>auto simp: sim_def\<close>)
qed

lemma clear_fields [simp]:
  "rst_state (clear_rst_state ctx) = 0" "rst_sema (clear_rst_state ctx) = 1" "rst_status (clear_rst_state ctx) = rst_status ctx"
  "drv_inst (clear_rst_state ctx) = drv_inst ctx" "infra_drv_status (clear_rst_state ctx) = infra_drv_status ctx"
  "consys (clear_rst_state ctx) = consys ctx" "core_lock (clear_rst_state ctx) = core_lock ctx"
  by (simp_all add: clear_rst_state_def)

lemma update_rst_fields [simp]:
  "rst_status (conninfra_core_update_rst_status v ctx) = v" "rst_state (conninfra_core_update_rst_status v ctx) = rst_state ctx"
  "rst_sema (conninfra_core_update_rst_status v ctx) = rst_sema ctx" "drv_inst (conninfra_core_update_rst_status v ctx) = drv_inst ctx"
  "infra_drv_status (conninfra_core_update_rst_status v ctx) = infra_drv_status ctx"
  "consys (conninfra_core_update_rst_status v ctx) = consys ctx" "core_lock (conninfra_core_update_rst_status v ctx) = core_lock ctx"
  by (simp_all add: conninfra_core_update_rst_status_def)

lemma reset_trg_fields [simp]:
  "rst_status (reset_chip_rst_trg_data ctx) = rst_status ctx" "rst_state (reset_chip_rst_trg_data ctx) = rst_state ctx"
  "rst_sema (reset_chip_rst_trg_data ctx) = rst_sema ctx" "drv_inst (reset_chip_rst_trg_data ctx) = drv_inst ctx"
  "infra_drv_status (reset_chip_rst_trg_data ctx) = infra_drv_status ctx"
  "consys (reset_chip_rst_trg_data ctx) = consys ctx" "core_lock (reset_chip_rst_trg_data ctx) = core_lock ctx"
  by (simp_all add: reset_chip_rst_trg_data_def)

lemma wait_done_cases:
  assumes "wait_done timed_out e sys = Some (es, sys')"
  obtains (all_done) "rst_state (core sys) = subdrv_all_done" "e = (es, sys')"
  | (sema) "es = []" "rst_state (core sys) \<noteq> subdrv_all_done" "0 < rst_sema (core sys)"
      "sys' = update_core (\<lambda>ctx. ctx\<lparr>rst_sema := rst_sema ctx - 1\<rparr>) sys"
  | (timeout) "es = []" "rst_state (core sys) \<noteq> subdrv_all_done" "rst_sema (core sys) = 0" "sys' = sys"
  using assms by (auto simp: wait_done_def split: if_splits)

lemma cb_sim:
  assumes s: "sim sys a" and c: "cb_step lk send timed_out sys = Some (es, sys')"
  shows "\<exists>a'. spec_run a es = Some a' \<and> sim sys' a'"
proof (cases "cb_pc sys")
  case Cb_Idle
  then have "a = A_Queued" using s c by (cases a) (auto simp: sim_def cb_step_def)
  then show ?thesis using s c Cb_Idle
    by (auto simp: sim_def cb_step_def sizes_ok_def pending_none Let_def split: if_splits)
next
  case (Cb_Pre n)
  then obtain S where a: "a = A_Pre S" using s by (cases a) (auto simp: sim_def)
  then have n: "n < 5" and p: "pending INFRA_SUBDRV_OPID_PRE_RESET n S (drv_queue sys)" using s Cb_Pre by (auto simp: sim_def)
  define sys1 where "sys1 = sys\<lparr>drv_pwr_state := (drv_pwr_state sys)[n := drv_status (drv_inst (core sys) ! n)]\<rparr>"
  have q: "pending INFRA_SUBDRV_OPID_PRE_RESET (Suc n) S (drv_queue (send_subdrv send n INFRA_SUBDRV_OPID_PRE_RESET sys1))"
    by (rule pending_next[OF p n]) (simp add: sys1_def)
  have "es = []" "sys' = to_pc (if n + 1 < 5 then Cb_Pre (n + 1) else Cb_Wait_Pre) (send_subdrv send n INFRA_SUBDRV_OPID_PRE_RESET sys1)"
    using c Cb_Pre n s by (simp_all add: cb_step_def sizes_ok_def sim_def arr_set_def arr_get_def sys1_def Let_def)
  moreover have "sizes_ok sys1" "core sys1 = core sys" "cb_queue sys1 = cb_queue sys" using s by (simp_all add: sim_def sizes_ok_def sys1_def)
  moreover have "Suc n < 5 \<or> Suc n = 5" using n by linarith
  ultimately show ?thesis using s Cb_Pre a q by (auto simp: sim_def sizes_ok_def)
next
  case Cb_Wait_Pre
  then obtain S where a: "a = A_Pre S" using s by (cases a) (auto simp: sim_def)
  with c Cb_Wait_Pre have "wait_done timed_out ([], to_pc Cb_Off (update_core (conninfra_core_update_rst_status CHIP_RST_RESET) sys)) sys = Some (es, sys')"
    by (simp add: cb_step_def)
  then show ?thesis
    by (cases rule: wait_done_cases) (use s a Cb_Wait_Pre bits_all[of S] pending_all in \<open>auto simp: sim_def sizes_ok_def\<close>)
next
  case Cb_Off
  then obtain S where a: "a = A_Pre S" using s by (cases a) (auto simp: sim_def)
  from c Cb_Off obtain ret ctx where "opfunc_power_off_internal lk CONNDRV_TYPE_CONNINFRA (core sys) = Some (ret, ctx)"
    "es = [Power_Cut ret]" "sys' = to_pc (Cb_On 0) (sys\<lparr>core := ctx\<rparr>)"
    by (auto simp: cb_step_def bind_eq_Some_conv)
  moreover from this have "rst_frame (core sys) ctx" using power_off_frame by (simp add: opfunc_power_off_internal_def)
  ultimately show ?thesis using s a Cb_Off by (auto simp: sim_def sizes_ok_def rst_frame_def)
next
  case (Cb_On n)
  then obtain m where a: "a = A_On m" and n: "n < 5" "m \<le> n" using s by (cases a) (auto simp: sim_def)
  show ?thesis
  proof (cases "drv_pwr_state sys ! n = 0")
    case True
    then show ?thesis using s a c Cb_On n
      by (cases "n < 4") (auto simp: sim_def sizes_ok_def cb_step_def bind_eq_Some_conv arr_get_def)
  next
    case False
    then obtain ret ctx where r: "opfunc_power_on_internal lk (of_nat n) (core sys) = Some (ret, ctx)"
      "es = [Power_Restored n ret]" "sys' = to_pc (if n + 1 < 5 then Cb_On (n + 1) else Cb_Resume) (sys\<lparr>core := ctx\<rparr>)"
      using c Cb_On n s by (auto simp: cb_step_def bind_eq_Some_conv arr_get_def sim_def sizes_ok_def)
    have "rst_frame (core sys) ctx" using r(1) by (rule power_on_frame)
    then show ?thesis using s a Cb_On r n by (cases "n < 4") (auto simp: sim_def sizes_ok_def rst_frame_def)
  qed
next
  case Cb_Resume
  then obtain m where a: "a = A_On m" using s by (cases a) (auto simp: sim_def)
  then show ?thesis using s c Cb_Resume by (auto simp: sim_def cb_step_def sizes_ok_def pending_none)
next
  case (Cb_Post n)
  then obtain S where a: "a = A_Post S" using s by (cases a) (auto simp: sim_def)
  then have n: "n < 5" and p: "pending INFRA_SUBDRV_OPID_POST_RESET n S (drv_queue sys)" using s Cb_Post by (auto simp: sim_def)
  note q = pending_next[OF p n refl, of send]
  have "es = []" "sys' = to_pc (if n + 1 < 5 then Cb_Post (n + 1) else Cb_Wait_Post) (send_subdrv send n INFRA_SUBDRV_OPID_POST_RESET sys)"
    using c Cb_Post by (simp_all add: cb_step_def)
  moreover have "Suc n < 5 \<or> Suc n = 5" using n by linarith
  ultimately show ?thesis using s Cb_Post a q by (auto simp: sim_def sizes_ok_def)
next
  case Cb_Wait_Post
  then obtain S where a: "a = A_Post S" using s by (cases a) (auto simp: sim_def)
  with c Cb_Wait_Post have "wait_done timed_out ([Finished], to_pc Cb_Idle
      (update_core (\<lambda>ctx. conninfra_core_update_rst_status CHIP_RST_NONE (reset_chip_rst_trg_data ctx)) sys)) sys = Some (es, sys')"
    by (simp add: cb_step_def)
  then show ?thesis
    by (cases rule: wait_done_cases) (use s a Cb_Wait_Post bits_all[of S] pending_all in \<open>auto simp: sim_def sizes_ok_def\<close>)
qed

lemma trigger_sim:
  assumes "sim sys a" and "trigger_step send who reason sys = (es, sys')"
  shows "\<exists>a'. spec_run a es = Some a' \<and> sim sys' a'"
  using assms
  by (cases a) (auto simp: trigger_step_def conninfra_trigger_whole_chip_rst_def conninfra_core_lock_rst_def
      conninfra_core_trg_chip_rst_def Let_def sim_def sizes_ok_def split: if_splits)

lemma register_frame: "conninfra_sub_drv_ops_register ty callbacks ctx = Some (r, ctx') \<Longrightarrow> rst_frame ctx ctx'"
  by (auto simp: conninfra_sub_drv_ops_register_def conninfra_core_subsys_ops_reg_def arr_set_def rst_frame_def
      bind_eq_Some_conv split: if_splits)

lemma step_sim:
  assumes "rst_step faults allowed sys es sys'" and "sim sys a"
  shows "\<exists>a'. spec_run a es = Some a' \<and> sim sys' a'"
  using assms
proof (cases rule: rst_step.cases)
  case (core_op op lk r ctx)
  then show ?thesis using core_op_frame[OF core_op(3)] assms(2) by (auto simp: sim_def sizes_ok_def rst_frame_def)
next
  case (register ty callbacks r ctx)
  then show ?thesis using register_frame[OF register(3)] assms(2) by (auto simp: sim_def sizes_ok_def rst_frame_def)
qed (use assms(2) cb_sim subdrv_sim trigger_sim in \<open>blast+\<close>)

lemma spec_run_append: "spec_run a (es @ es') = Option.bind (spec_run a es) (\<lambda>a. spec_run a es')"
  by (induction es arbitrary: a) (auto split: bind_splits)

lemma ready_sim: "rst_ready sys \<Longrightarrow> sim sys A_Idle"
  by (simp add: rst_ready_def sim_def sizes_ok_def quiet_queues_def)

lemma run_sim:
  assumes "rst_run faults allowed sys es sys'" and "sim sys a"
  shows "\<exists>a'. spec_run a es = Some a' \<and> sim sys' a'"
  using assms
proof (induction rule: rst_run.induct)
  case none
  then show ?case by simp
next
  case (more es sys' es' sys'')
  then obtain a' where "spec_run a es = Some a'" "sim sys' a'" by blast
  with step_sim[OF more(2)] show ?case by (auto simp: spec_run_append)
qed

end
