(* ===== verification/Core_Wifi_Spec.thy ===== *)
theory Core_Wifi_Spec
  imports Core_Reset_Spec
begin

text \<open>
  When the WiFi subsystem is powered: how often the platform function that turns it on has been called, and that only a
  power-on of WiFi with another subsystem on calls it.
\<close>

section \<open>Platform layer\<close>

definition wf_ons :: "'w consys_hw \<Rightarrow> nat" where
  "wf_ons hw = length (filter (\<lambda>c. c = Wfsys_Top_On True) (hw_calls hw))"

definition has_wf :: "'w consys_hw \<Rightarrow> bool" where
  "has_wf hw \<longleftrightarrow> consys_plt_wfsys_top_on_ctrl (hw_ops hw) \<noteq> None"

text \<open>A function that does not turn WiFi on.\<close>

definition wf_frame :: "'w consys_hw \<Rightarrow> 'w consys_hw \<Rightarrow> bool" where
  "wf_frame hw hw' \<longleftrightarrow> hw_ops hw' = hw_ops hw \<and> wf_ons hw' = wf_ons hw"

lemma wf_frame_refl [simp]: "wf_frame hw hw"
  by (simp add: wf_frame_def)

lemma wf_frame_trans: "wf_frame a b \<Longrightarrow> wf_frame b c \<Longrightarrow> wf_frame a c"
  by (simp add: wf_frame_def)

lemma plt_wf [simp]:
  "c \<noteq> Wfsys_Top_On True \<Longrightarrow> wf_frame h (snd (plt_ret c f d hw)) = wf_frame h hw"
  "c \<noteq> Wfsys_Top_On True \<Longrightarrow> wf_frame h (plt_do c f' hw) = wf_frame h hw"
  by (simp_all add: wf_frame_def wf_ons_def)

lemma wf_frame_ref [simp]: "wf_frame h (hw\<lparr>wakeup_ref_cnt := n\<rparr>) = wf_frame h hw"
  by (simp add: wf_frame_def wf_ons_def)

lemma plt_ret_wf: "c \<noteq> Wfsys_Top_On True \<Longrightarrow> plt_ret c f d hw = (r, hw') \<Longrightarrow> wf_frame hw hw'"
  using plt_wf(1)[of c hw f d hw] by simp

lemma wake_wf [simp]: "wf_frame h (snd (consys_hw_force_conninfra_wakeup hw)) = wf_frame h hw"
  by (auto simp: consys_hw_force_conninfra_wakeup_def split_beta Let_def split: option.splits)

lemma sleep_wf [simp]: "wf_frame h (snd (consys_hw_force_conninfra_sleep hw)) = wf_frame h hw"
  by (auto simp: consys_hw_force_conninfra_sleep_def Let_def split: option.splits)

lemma hw_wf [simp]:
  "wf_frame h (snd (consys_hw_adie_top_ck_en_on t hw)) = wf_frame h hw"
  "wf_frame h (snd (consys_hw_adie_top_ck_en_off t hw)) = wf_frame h hw"
  "wf_frame h (snd (emi_mng_set_remapping_reg hw)) = wf_frame h hw"
  "wf_frame h (snd (emi_mng_set_region_protection hw)) = wf_frame h hw"
  "wf_frame h (snd (consys_hw_reg_readable hw)) = wf_frame h hw"
  "wf_frame h (snd (consys_hw_spi_read s a v hw)) = wf_frame h hw"
  "wf_frame h (snd (consys_hw_spi_write s a v hw)) = wf_frame h hw"
  "wf_frame h (snd (consys_hw_spi_clock_switch s hw)) = wf_frame h hw"
  "wf_frame h (snd (consys_hw_dump_power_state hw)) = wf_frame h hw"
  "wf_frame h (snd (pmic_mng_bt_power_ctrl b hw)) = wf_frame h hw"
  "wf_frame h (snd (pmic_mng_fm_power_ctrl b hw)) = wf_frame h hw"
  "wf_frame h (snd (pmic_mng_gps_power_ctrl b hw)) = wf_frame h hw"
  "wf_frame h (snd (pmic_mng_wifi_power_ctrl b hw)) = wf_frame h hw"
  by (simp_all add: consys_hw_adie_top_ck_en_on_def consys_hw_adie_top_ck_en_off_def emi_mng_set_remapping_reg_def
      emi_mng_set_region_protection_def consys_hw_reg_readable_def consys_hw_spi_read_def consys_hw_spi_write_def
      consys_hw_spi_clock_switch_def consys_hw_dump_power_state_def pmic_mng_bt_power_ctrl_def pmic_mng_fm_power_ctrl_def
      pmic_mng_gps_power_ctrl_def pmic_mng_wifi_power_ctrl_def)

lemma pwr_off_wf [simp]: "wf_frame h (snd (consys_hw_pwr_off s t hw)) = wf_frame h hw"
  by (simp add: consys_hw_pwr_off_def last_off_def wfsys_off_def other_off_def Let_def)

lemma wfsys_on_calls: "hw_ops (wfsys_on hw) = hw_ops hw" "wf_ons (wfsys_on hw) = wf_ons hw + (if has_wf hw then 1 else 0)"
  by (simp_all add: wfsys_on_def Let_def wf_ons_def has_wf_def)

lemma pwr_on_wf:
  "hw_ops (snd (consys_hw_pwr_on s t hw)) = hw_ops hw"
  "wf_ons (snd (consys_hw_pwr_on s t hw)) =
     wf_ons hw + (if s \<noteq> 0 \<and> t = CONNDRV_TYPE_WIFI \<and> has_wf hw then 1 else 0)"
proof -
  have "wf_frame hw (pos_low_power t (pos_configure t (pos_enable hw)))"
    by (simp add: pos_low_power_def pos_configure_def pos_enable_def Let_def)
  then show "hw_ops (snd (consys_hw_pwr_on s t hw)) = hw_ops hw"
    "wf_ons (snd (consys_hw_pwr_on s t hw)) =
       wf_ons hw + (if s \<noteq> 0 \<and> t = CONNDRV_TYPE_WIFI \<and> has_wf hw then 1 else 0)"
    by (simp_all add: consys_hw_pwr_on_def wfsys_on_calls wf_frame_def)
qed

section \<open>Operations of the core\<close>

lemma vcn_wf [simp]: "wf_frame h (consys (opfunc_vcn_control_internal t b ctx)) = wf_frame h (consys ctx)"
  by (simp add: opfunc_vcn_control_internal_def)

lemma force_off_wf [simp]: "wf_frame h (consys (force_off_subsys ctx)) = wf_frame h (consys ctx)"
proof -
  let ?f = "\<lambda>i ctx. if drv_status (drv_inst ctx ! i) = DRV_STS_POWER_ON
                   then set_drv_status i DRV_STS_POWER_OFF (opfunc_vcn_control_internal (of_nat i) False ctx)
                   else ctx"
  have "wf_frame h (consys (fold ?f is ctx)) = wf_frame h (consys ctx)" for "is"
    by (induction "is" arbitrary: ctx) simp_all
  then show ?thesis by (simp add: force_off_subsys_def)
qed

lemma power_off_wf:
  assumes "power_off_with s lk t ctx = Some (r, ctx')"
  shows "wf_frame (consys ctx) (consys ctx')"
  using assms unfolding power_off_with_def osal_lock_sleepable_lock_def osal_unlock_sleepable_lock_def
  by (simp add: Let_def split: if_splits option.splits; clarsimp simp: bind_eq_Some_conv Let_def split: if_splits)

lemma vcn_wf_fields [simp]:
  "hw_ops (consys (opfunc_vcn_control_internal t b ctx)) = hw_ops (consys ctx)"
  "wf_ons (consys (opfunc_vcn_control_internal t b ctx)) = wf_ons (consys ctx)"
  using vcn_wf[of "consys ctx" t b ctx] by (simp_all add: wf_frame_def)

lemma power_on_wf:
  assumes inv: "core_inv ctx" and t: "t < CONNDRV_TYPE_MAX" and on: "unat t \<notin> on_set ctx"
    and r: "opfunc_power_on_internal 0 t ctx = Some (ret, ctx')"
  shows "hw_ops (consys ctx') = hw_ops (consys ctx)"
    "wf_ons (consys ctx') = wf_ons (consys ctx) +
       (if on_set ctx \<noteq> {} \<and> t = CONNDRV_TYPE_WIFI \<and> has_wf (consys ctx) then 1 else 0)"
proof -
  have t5: "\<not> 5 \<le> t" and i: "unat t < 5" using t by (auto simp: word_less_nat_alt word_le_nat_alt)
  from inv have ok: "status_ok ctx" and l: "\<not> core_lock ctx" and hw: "hw_ok (consys ctx)" by (simp_all add: core_inv_def)
  have len: "length (drv_inst ctx) = 5" and st: "drv_status (drv_inst ctx ! unat t) = 0"
    using ok on i by (auto simp: status_ok_def on_set_def)
  have same: "opfunc_get_current_status (ctx\<lparr>core_lock := True\<rparr>) = opfunc_get_current_status ctx"
    by (simp add: opfunc_get_current_status_def)
  have "ctx' = opfunc_vcn_control_internal t True (set_drv_status (unat t) 1 (ctx\<lparr>core_lock := True,
      consys := snd (consys_hw_pwr_on (opfunc_get_current_status ctx) t (consys ctx)), infra_drv_status := 1\<rparr>))\<lparr>core_lock := False\<rparr>"
    using r t5 i len st l hw.on_ret[OF hw] same
    by (simp add: opfunc_power_on_internal_def arr_get_def osal_lock_sleepable_lock_def osal_unlock_sleepable_lock_def Let_def)
  then show "hw_ops (consys ctx') = hw_ops (consys ctx)"
    "wf_ons (consys ctx') = wf_ons (consys ctx) +
       (if on_set ctx \<noteq> {} \<and> t = CONNDRV_TYPE_WIFI \<and> has_wf (consys ctx) then 1 else 0)"
    by (simp_all add: pwr_on_wf current_status_0[OF ok])
qed

lemma other_op_wf:
  assumes "conninfra_core_opfunc op lk ctx = Some (r, ctx')" and "\<not> is_power_op op"
  shows "wf_frame (consys ctx) (consys ctx')"
  using assms
  by (cases op) (auto simp: core_op_defs Let_def bind_eq_Some_conv split_beta split: if_splits)

end
