(* ===== verification/Core_Reset_Live.thy ===== *)
theory Core_Reset_Live
  imports Core_Wifi_Spec
begin

text \<open>
  A chip reset ends and turns the same subsystems on again, when no sending fails, no lock is refused, and the core thread
  runs no power operation meanwhile.  Every other task may go on: triggers that are refused, the other operations
  of the core, new callbacks, and rounds of waiting whose time is up.
\<close>

section \<open>Runs of one reset\<close>

definition quiet_op :: "core_op \<Rightarrow> bool" where
  "quiet_op op \<longleftrightarrow> \<not> is_power_op op"

text \<open>A step that brings the reset on, and a run from a state in which it goes on, with the number of such steps.\<close>

definition reset_step :: "'w rst_sys \<Rightarrow> rst_event list \<Rightarrow> 'w rst_sys \<Rightarrow> bool" where
  "reset_step sys es sys' \<longleftrightarrow> cb_step 0 0 False sys = Some (es, sys') \<or> (\<exists>i. subdrv_step i sys = Some (es, sys'))"

inductive reset_run :: "'w rst_sys \<Rightarrow> nat \<Rightarrow> rst_event list \<Rightarrow> 'w rst_sys \<Rightarrow> bool" for sys :: "'w rst_sys" where
  start: "reset_run sys 0 [] sys"
| own: "reset_run sys n es sys' \<Longrightarrow> cb_pc sys' \<noteq> Cb_Idle \<Longrightarrow> reset_step sys' es' sys'' \<Longrightarrow> reset_run sys (Suc n) (es @ es') sys''"
| other: "reset_run sys n es sys' \<Longrightarrow> cb_pc sys' \<noteq> Cb_Idle \<Longrightarrow> rst_step False quiet_op sys' es' sys'' \<Longrightarrow>
    \<not> reset_step sys' es' sys'' \<Longrightarrow> reset_run sys n (es @ es') sys''"

section \<open>Power\<close>

text \<open>What is on, and the calls that turn WiFi on, while a reset runs that began with \<open>S\<close> on and \<open>w\<close> such calls: WiFi is turned on
  again only when one of the subsystems that come before it is.\<close>

definition wf_due :: "nat set \<Rightarrow> bool \<Rightarrow> nat" where
  "wf_due S h = (if 3 \<in> S \<and> S \<inter> {..<3} \<noteq> {} \<and> h then 1 else 0)"

definition saved :: "nat set \<Rightarrow> nat \<Rightarrow> u32 list \<Rightarrow> bool" where
  "saved S n ps \<longleftrightarrow> (\<forall>j < n. ps ! j \<noteq> 0 \<longleftrightarrow> j \<in> S)"

fun on_at :: "nat set \<Rightarrow> cb_pc \<Rightarrow> nat set" where
  "on_at S (Cb_On n) = S \<inter> {..<n}"
| "on_at S pc = S"

fun ons_at :: "nat set \<Rightarrow> bool \<Rightarrow> cb_pc \<Rightarrow> nat" where
  "ons_at S h (Cb_Pre n) = 0"
| "ons_at S h Cb_Wait_Pre = 0"
| "ons_at S h Cb_Off = 0"
| "ons_at S h (Cb_On n) = (if 3 < n then wf_due S h else 0)"
| "ons_at S h pc = wf_due S h"

fun saved_at :: "nat set \<Rightarrow> cb_pc \<Rightarrow> u32 list \<Rightarrow> bool" where
  "saved_at S (Cb_Pre n) ps = saved S n ps"
| "saved_at S Cb_Wait_Pre ps = saved S 5 ps"
| "saved_at S Cb_Off ps = saved S 5 ps"
| "saved_at S (Cb_On n) ps = saved S 5 ps"
| "saved_at S pc ps = True"

definition power_at :: "nat set \<Rightarrow> nat \<Rightarrow> bool \<Rightarrow> 'w rst_sys \<Rightarrow> bool" where
  "power_at S w h sys \<longleftrightarrow>
     core_inv (core sys) \<and> has_wf (consys (core sys)) = h \<and> on_set (core sys) = on_at S (cb_pc sys) \<and>
     wf_ons (consys (core sys)) = w + ons_at S h (cb_pc sys) \<and> saved_at S (cb_pc sys) (drv_pwr_state sys)"

text \<open>A change of the context that the power does not see.\<close>

definition power_frame :: "'w conninfra_ctx \<Rightarrow> 'w conninfra_ctx \<Rightarrow> bool" where
  "power_frame ctx ctx' \<longleftrightarrow>
     (core_inv ctx \<longrightarrow> core_inv ctx' \<and> on_set ctx' = on_set ctx) \<and> wf_frame (consys ctx) (consys ctx')"

lemma power_frameD:
  "power_frame ctx ctx' \<Longrightarrow> has_wf (consys ctx') = has_wf (consys ctx)"
  "power_frame ctx ctx' \<Longrightarrow> wf_ons (consys ctx') = wf_ons (consys ctx)"
  by (simp_all add: power_frame_def wf_frame_def has_wf_def)

lemma power_at_frame:
  "power_at S w h sys \<Longrightarrow> power_frame (core sys) (core sys') \<Longrightarrow> cb_pc sys' = cb_pc sys \<Longrightarrow> drv_pwr_state sys' = drv_pwr_state sys \<Longrightarrow>
     power_at S w h sys'"
  using power_frameD[of "core sys" "core sys'"] by (simp add: power_at_def power_frame_def)

lemma core_inv_fields [simp]:
  "core_inv (ctx\<lparr>rst_status := v\<rparr>) = core_inv ctx" "core_inv (ctx\<lparr>rst_state := v\<rparr>) = core_inv ctx"
  "core_inv (ctx\<lparr>rst_sema := n\<rparr>) = core_inv ctx" "core_inv (ctx\<lparr>trg_drv := v\<rparr>) = core_inv ctx"
  "core_inv (ctx\<lparr>trg_reason := r\<rparr>) = core_inv ctx"
  by (simp_all add: core_inv_def)

lemma power_frame_ctx [simp]:
  "power_frame c (ctx\<lparr>rst_status := v\<rparr>) = power_frame c ctx" "power_frame c (ctx\<lparr>rst_state := v\<rparr>) = power_frame c ctx"
  "power_frame c (ctx\<lparr>rst_sema := n\<rparr>) = power_frame c ctx" "power_frame c (ctx\<lparr>trg_drv := v\<rparr>) = power_frame c ctx"
  "power_frame c (ctx\<lparr>trg_reason := r\<rparr>) = power_frame c ctx" "power_frame ctx ctx"
  by (simp_all add: power_frame_def)

lemma run_cb_power [simp]: "power_frame ctx (run_cb f ctx)"
proof -
  have "chip_powered (hw\<lparr>world := v\<rparr>) = chip_powered hw" "hw_ok (hw\<lparr>world := v\<rparr>) = hw_ok hw"
    "wf_ons (hw\<lparr>world := v\<rparr>) = wf_ons hw" for hw :: "'a consys_hw" and v
    by (simp_all add: chip_powered_def hw_ok_def wf_ons_def)
  then show ?thesis by (auto simp: power_frame_def run_cb_def core_inv_def wf_frame_def split: option.splits)
qed

lemma subdrv_power:
  assumes "subdrv_step i sys = Some (es, sys')"
  shows "power_frame (core sys) (core sys')" "cb_pc sys' = cb_pc sys" "drv_pwr_state sys' = drv_pwr_state sys"
  using assms
  by (auto simp: subdrv_step_def opfunc_subdrv_pre_reset_def opfunc_subdrv_post_reset_def subdrv_done_def Let_def
      bind_eq_Some_conv split: if_splits list.splits infra_subdrv_op.splits)

lemma register_power:
  assumes "conninfra_sub_drv_ops_register ty callbacks ctx = Some (r, ctx')"
  shows "power_frame ctx ctx'"
proof -
  have "drv_status (drv_inst ctx' ! j) = drv_status (drv_inst ctx ! j)" if "j < length (drv_inst ctx)" for j
    using assms that
    by (auto simp: conninfra_sub_drv_ops_register_def conninfra_core_subsys_ops_reg_def arr_set_def arr_get_def
        nth_list_update bind_eq_Some_conv split: if_splits)
  moreover have "length (drv_inst ctx') = length (drv_inst ctx)" "consys ctx' = consys ctx" "core_lock ctx' = core_lock ctx"
    "infra_drv_status ctx' = infra_drv_status ctx"
    using assms
    by (auto simp: conninfra_sub_drv_ops_register_def conninfra_core_subsys_ops_reg_def arr_set_def arr_get_def
        bind_eq_Some_conv split: if_splits)
  ultimately show ?thesis
    by (auto simp: power_frame_def core_inv_def status_ok_def on_set_def wf_frame_def)
qed

lemma other_op_power:
  assumes "conninfra_core_opfunc op 0 ctx = Some (r, ctx')" and "quiet_op op"
  shows "power_frame ctx ctx'"
  using other_op_ok[of ctx op] other_op_wf[OF assms(1)] assms by (auto simp: power_frame_def quiet_op_def)

lemma trigger_power:
  "trigger_step send who reason sys = (es, sys') \<Longrightarrow> power_frame (core sys) (core sys') \<and> cb_pc sys' = cb_pc sys \<and>
     drv_pwr_state sys' = drv_pwr_state sys"
  by (auto simp: trigger_step_def conninfra_trigger_whole_chip_rst_def conninfra_core_lock_rst_def
      conninfra_core_trg_chip_rst_def Let_def split: if_splits)

lemma cb_power:
  assumes p: "power_at S w h sys" and z: "sizes_ok sys" and S: "S \<noteq> {}" "S \<subseteq> {..<5}" and pc: "cb_pc sys \<noteq> Cb_Idle"
    and n: "\<And>n. cb_pc sys \<in> {Cb_Pre n, Cb_On n, Cb_Post n} \<Longrightarrow> n < 5"
    and c: "cb_step 0 0 timed_out sys = Some (es, sys')"
  shows "power_at S w h sys'"
proof (cases "cb_pc sys")
  case (Cb_Pre n)
  with n have n5: "n < 5" by simp
  have s: "drv_status (drv_inst (core sys) ! n) \<noteq> 0 \<longleftrightarrow> n \<in> S"
    using p n5 Cb_Pre by (auto simp: power_at_def core_inv_def status_ok_def on_set_def)
  have "saved S (Suc n) ((drv_pwr_state sys)[n := drv_status (drv_inst (core sys) ! n)])"
    using p s n5 z Cb_Pre by (auto simp: power_at_def saved_def sizes_ok_def nth_list_update less_Suc_eq)
  moreover have "Suc n < 5 \<or> Suc n = 5" using n5 by linarith
  ultimately show ?thesis using p c Cb_Pre
    by (auto simp: power_at_def cb_step_def bind_eq_Some_conv arr_set_def arr_get_def Let_def split: if_splits)
next
  case Cb_Wait_Pre
  with c have "wait_done timed_out ([], to_pc Cb_Off (update_core (conninfra_core_update_rst_status CHIP_RST_RESET) sys)) sys = Some (es, sys')"
    by (simp add: cb_step_def)
  then show ?thesis
    by (cases rule: wait_done_cases) (use p Cb_Wait_Pre in \<open>auto simp: power_at_def conninfra_core_update_rst_status_def\<close>)
next
  case Cb_Off
  from c Cb_Off obtain ret ctx where r: "power_off_with (opfunc_get_current_status (core sys)) 0 CONNDRV_TYPE_CONNINFRA (core sys) = Some (ret, ctx)"
    "sys' = to_pc (Cb_On 0) (sys\<lparr>core := ctx\<rparr>)"
    by (auto simp: cb_step_def bind_eq_Some_conv opfunc_power_off_internal_def)
  have "core_inv (core sys)" "on_set (core sys) \<noteq> {}" using p Cb_Off S by (simp_all add: power_at_def)
  from postD[OF power_off_forced[OF this] r(1)] power_off_wf[OF r(1)] show ?thesis
    using p Cb_Off r by (auto simp: power_at_def wf_frame_def has_wf_def)
next
  case (Cb_On n)
  with n have n5: "n < 5" by simp
  have sv: "drv_pwr_state sys ! n \<noteq> 0 \<longleftrightarrow> n \<in> S" and inv: "core_inv (core sys)" and on: "on_set (core sys) = S \<inter> {..<n}"
    using p Cb_On n5 by (simp_all add: power_at_def saved_def)
  have resume: "n = 4 \<Longrightarrow> on_at S (Cb_On (Suc n)) = S" "n = 4 \<Longrightarrow> ons_at S h (Cb_On (Suc n)) = wf_due S h"
    using S(2) by auto
  have "power_at S w h (to_pc (if n + 1 < 5 then Cb_On (n + 1) else Cb_Resume) sys1)"
    if "core_inv (core sys1)" "has_wf (consys (core sys1)) = h" "on_set (core sys1) = on_at S (Cb_On (Suc n))"
      "wf_ons (consys (core sys1)) = w + ons_at S h (Cb_On (Suc n))" "drv_pwr_state sys1 = drv_pwr_state sys" for sys1
  proof (cases "n = 4")
    case True
    then show ?thesis using that resume by (simp add: power_at_def)
  next
    case False
    then show ?thesis using that p Cb_On n5 by (simp add: power_at_def)
  qed
  note go = this
  have due: "n \<notin> S \<Longrightarrow> ons_at S h (Cb_On (Suc n)) = ons_at S h (Cb_On n)"
    by (cases "n = 3") (auto simp: wf_due_def)
  show ?thesis
  proof (cases "n \<in> S")
    case False
    then have "S \<inter> {..<Suc n} = S \<inter> {..<n}" by (auto simp: less_Suc_eq)
    moreover have "sys' = to_pc (if n + 1 < 5 then Cb_On (n + 1) else Cb_Resume) sys"
      using c Cb_On False sv by (simp add: cb_step_def arr_get_def split: if_splits)
    ultimately show ?thesis using go[of sys] p Cb_On due[OF False] by (simp add: power_at_def)
  next
    case True
    let ?t = "of_nat n :: u32"
    have t: "?t < CONNDRV_TYPE_MAX" "unat ?t = n" using n5 by (simp_all add: word_less_nat_alt unat_of_nat)
    obtain ret ctx where r: "opfunc_power_on_internal 0 ?t (core sys) = Some (ret, ctx)"
      "sys' = to_pc (if n + 1 < 5 then Cb_On (n + 1) else Cb_Resume) (sys\<lparr>core := ctx\<rparr>)"
      using c Cb_On True sv by (auto simp: cb_step_def arr_get_def bind_eq_Some_conv split: if_splits)
    have ins: "insert n (S \<inter> {..<n}) = S \<inter> {..<Suc n}" using True by (auto simp: less_Suc_eq)
    have ok: "core_inv ctx" "on_set ctx = S \<inter> {..<Suc n}"
      using postD[OF power_on_ok[OF inv t(1)] r(1)] unfolding t(2) on ins by simp_all
    have "unat ?t \<notin> on_set (core sys)" unfolding t(2) on by simp
    note w = power_on_wf[OF inv t(1) this r(1)]
    have "?t = CONNDRV_TYPE_WIFI \<longleftrightarrow> n = 3"
    proof
      assume "?t = CONNDRV_TYPE_WIFI"
      then have "unat ?t = 3" by simp
      then show "n = 3" unfolding t(2) .
    qed simp
    then have "wf_ons (consys ctx) = w + ons_at S h (Cb_On (Suc n))"
      using w(2) p Cb_On on True by (auto simp: power_at_def wf_due_def)
    moreover have "has_wf (consys ctx) = h" using w(1) p by (simp add: power_at_def has_wf_def)
    ultimately show ?thesis using go[of "sys\<lparr>core := ctx\<rparr>"] ok r(2) by simp
  qed
next
  case Cb_Resume
  then show ?thesis using p c by (auto simp: cb_step_def power_at_def clear_rst_state_def conninfra_core_update_rst_status_def)
next
  case (Cb_Post n)
  then show ?thesis using p c by (cases "n < 4") (auto simp: cb_step_def power_at_def)
next
  case Cb_Wait_Post
  with c have "wait_done timed_out ([Finished], to_pc Cb_Idle
      (update_core (\<lambda>ctx. conninfra_core_update_rst_status CHIP_RST_NONE (reset_chip_rst_trg_data ctx)) sys)) sys = Some (es, sys')"
    by (simp add: cb_step_def)
  then show ?thesis
    by (cases rule: wait_done_cases)
      (use p Cb_Wait_Post in \<open>auto simp: power_at_def conninfra_core_update_rst_status_def reset_chip_rst_trg_data_def\<close>)
qed (use pc in simp)

section \<open>Progress\<close>

text \<open>Every subsystem that has been told and has not yet answered has the operation in its queue.\<close>

definition told :: "infra_subdrv_op \<Rightarrow> nat \<Rightarrow> nat set \<Rightarrow> infra_subdrv_op list list \<Rightarrow> bool" where
  "told op n T qs \<longleftrightarrow> (\<forall>j < n. j \<in> T \<or> qs ! j = [op])"

fun told_at :: "cb_pc \<Rightarrow> infra_subdrv_op list list \<Rightarrow> rst_spec \<Rightarrow> bool" where
  "told_at (Cb_Pre n) qs (A_Pre T) = told INFRA_SUBDRV_OPID_PRE_RESET n T qs"
| "told_at Cb_Wait_Pre qs (A_Pre T) = told INFRA_SUBDRV_OPID_PRE_RESET 5 T qs"
| "told_at (Cb_Post n) qs (A_Post T) = told INFRA_SUBDRV_OPID_POST_RESET n T qs"
| "told_at Cb_Wait_Post qs (A_Post T) = told INFRA_SUBDRV_OPID_POST_RESET 5 T qs"
| "told_at pc qs a = True"

lemma told_run:
  assumes "told op n T qs" and "pending op n T qs" and "i < length qs" and "qs ! i = op' # ops"
  shows "told op n (insert i T) (qs[i := ops])"
  using assms pending_run[OF assms(2-4)] by (auto simp: told_def pending_def nth_list_update)

lemma told_send:
  assumes "told op n T (drv_queue sys)" and "pending op n T (drv_queue sys)" and "n < 5"
  shows "told op (Suc n) T (drv_queue (send_subdrv 0 n op sys))"
proof -
  have "drv_queue sys ! n = []" "n < length (drv_queue sys)" using assms(2,3) by (auto simp: pending_def)
  then show ?thesis using assms(1) by (auto simp: told_def send_subdrv_def nth_list_update less_Suc_eq)
qed

lemma subdrv_told:
  assumes "sim sys a" and "told_at (cb_pc sys) (drv_queue sys) a" and "subdrv_step i sys = Some (es, sys')" and "spec_run a es = Some a'"
  shows "told_at (cb_pc sys') (drv_queue sys') a'"
proof -
  obtain op ops where i: "i < length (drv_queue sys)" and q: "drv_queue sys ! i = op # ops"
    and q': "drv_queue sys' = (drv_queue sys)[i := ops]" and pc: "cb_pc sys' = cb_pc sys"
    and es: "es = [case op of INFRA_SUBDRV_OPID_PRE_RESET \<Rightarrow> Pre_Cb i | INFRA_SUBDRV_OPID_POST_RESET \<Rightarrow> Post_Cb i]"
    using assms(3) by (auto simp: subdrv_step_def Let_def bind_eq_Some_conv split: if_splits list.splits infra_subdrv_op.splits)
  have no: "\<not> quiet_queues (drv_queue sys)" using i q by (auto simp: quiet_queues_def)
  show ?thesis
  proof (cases a)
    case (A_Pre T)
    then obtain n where n: "pending INFRA_SUBDRV_OPID_PRE_RESET n T (drv_queue sys)" using assms(1) no by (auto simp: sim_def)
    have a': "a' = A_Pre (insert i T)" using assms(4) es pending_run(1,3,4)[OF n i q] A_Pre by simp
    show ?thesis
      by (cases "cb_pc sys") (use assms(1,2) told_run[OF _ _ i q] a' A_Pre q' pc in \<open>auto simp: sim_def\<close>)
  next
    case (A_Post T)
    then obtain n where n: "pending INFRA_SUBDRV_OPID_POST_RESET n T (drv_queue sys)" using assms(1) no by (auto simp: sim_def)
    have a': "a' = A_Post (insert i T)" using assms(4) es pending_run(1,3,4)[OF n i q] A_Post by simp
    show ?thesis
      by (cases "cb_pc sys") (use assms(1,2) told_run[OF _ _ i q] a' A_Post q' pc in \<open>auto simp: sim_def\<close>)
  qed (use assms(1) no in \<open>auto simp: sim_def\<close>)
qed

lemma told_0 [simp]: "told op 0 T qs"
  by (simp add: told_def)

lemma cb_told:
  assumes s: "sim sys a" and t: "told_at (cb_pc sys) (drv_queue sys) a" and c: "cb_step 0 0 timed_out sys = Some (es, sys')"
    and a': "spec_run a es = Some a'"
  shows "told_at (cb_pc sys') (drv_queue sys') a'"
proof (cases "cb_pc sys")
  case (Cb_Pre n)
  then obtain T where a: "a = A_Pre T" and n: "n < 5" "pending INFRA_SUBDRV_OPID_PRE_RESET n T (drv_queue sys)"
    using s by (cases a) (auto simp: sim_def)
  define sys1 where "sys1 = sys\<lparr>drv_pwr_state := (drv_pwr_state sys)[n := drv_status (drv_inst (core sys) ! n)]\<rparr>"
  have c': "es = []" "sys' = to_pc (if n + 1 < 5 then Cb_Pre (n + 1) else Cb_Wait_Pre) (send_subdrv 0 n INFRA_SUBDRV_OPID_PRE_RESET sys1)"
    using c Cb_Pre n(1) s by (simp_all add: cb_step_def sizes_ok_def sim_def arr_set_def arr_get_def sys1_def Let_def)
  have "told INFRA_SUBDRV_OPID_PRE_RESET (Suc n) T (drv_queue (send_subdrv 0 n INFRA_SUBDRV_OPID_PRE_RESET sys1))"
    by (rule told_send) (use t n a Cb_Pre in \<open>simp_all add: sys1_def\<close>)
  moreover have "Suc n < 5 \<or> Suc n = 5" using n by linarith
  ultimately show ?thesis using c' a a' by auto
next
  case (Cb_Post n)
  then obtain T where a: "a = A_Post T" and n: "n < 5" "pending INFRA_SUBDRV_OPID_POST_RESET n T (drv_queue sys)"
    using s by (cases a) (auto simp: sim_def)
  have c': "es = []" "sys' = to_pc (if n + 1 < 5 then Cb_Post (n + 1) else Cb_Wait_Post) (send_subdrv 0 n INFRA_SUBDRV_OPID_POST_RESET sys)"
    using c Cb_Post by (simp_all add: cb_step_def)
  have "told INFRA_SUBDRV_OPID_POST_RESET (Suc n) T (drv_queue (send_subdrv 0 n INFRA_SUBDRV_OPID_POST_RESET sys))"
    by (rule told_send) (use t n a Cb_Post in simp_all)
  moreover have "Suc n < 5 \<or> Suc n = 5" using n by linarith
  ultimately show ?thesis using c' a a' by auto
next
  case Cb_Wait_Pre
  then obtain T where a: "a = A_Pre T" using s by (cases a) (auto simp: sim_def)
  show ?thesis using c a a' t Cb_Wait_Pre by (auto simp: cb_step_def wait_done_def split: if_splits)
next
  case Cb_Wait_Post
  then obtain T where a: "a = A_Post T" using s by (cases a) (auto simp: sim_def)
  show ?thesis using c a a' t Cb_Wait_Post by (auto simp: cb_step_def wait_done_def split: if_splits)
next
  case Cb_Idle
  show ?thesis using c Cb_Idle by (auto simp: cb_step_def Let_def split: if_splits; cases a'; simp)
next
  case Cb_Off
  show ?thesis using c Cb_Off by (auto simp: cb_step_def bind_eq_Some_conv)
next
  case (Cb_On n)
  show ?thesis using c Cb_On by (auto simp: cb_step_def bind_eq_Some_conv Let_def split: if_splits)
next
  case Cb_Resume
  show ?thesis using c Cb_Resume by (auto simp: cb_step_def; cases a'; simp)
qed

section \<open>Work that is left\<close>

fun pc_work :: "cb_pc \<Rightarrow> nat" where
  "pc_work Cb_Idle = 0"
| "pc_work Cb_Wait_Post = 1"
| "pc_work (Cb_Post n) = 1 + 3 * (5 - n)"
| "pc_work Cb_Resume = 18"
| "pc_work (Cb_On n) = 18 + (5 - n)"
| "pc_work Cb_Off = 24"
| "pc_work Cb_Wait_Pre = 25"
| "pc_work (Cb_Pre n) = 25 + 3 * (5 - n)"

definition waiting :: "infra_subdrv_op list list \<Rightarrow> nat" where
  "waiting qs = sum_list (map length qs)"

definition work :: "'w rst_sys \<Rightarrow> nat" where
  "work sys = pc_work (cb_pc sys) + 2 * waiting (drv_queue sys) + rst_sema (core sys)"

lemma waiting_run:
  assumes "i < length qs" and "qs ! i = op # ops"
  shows "waiting qs = Suc (waiting (qs[i := ops]))"
proof -
  have "length (qs ! i) \<le> waiting qs" using elem_le_sum_list[of i "map length qs"] assms(1) by (simp add: waiting_def)
  then show ?thesis using assms by (simp add: waiting_def map_update sum_list_update)
qed

lemma waiting_send: "waiting (drv_queue (send_subdrv 0 i op sys)) \<le> Suc (waiting (drv_queue sys))"
  by (cases "i < length (drv_queue sys)") (simp_all add: send_subdrv_def waiting_def map_update sum_list_update list_update_beyond)

lemma subdrv_work:
  assumes "subdrv_step i sys = Some (es, sys')"
  shows "work sys' < work sys"
proof -
  obtain op ops where i: "i < length (drv_queue sys)" and q: "drv_queue sys ! i = op # ops"
    and q': "drv_queue sys' = (drv_queue sys)[i := ops]" "cb_pc sys' = cb_pc sys" "rst_sema (core sys') = rst_sema (core sys) + 1"
    using assms
    by (auto simp: subdrv_step_def opfunc_subdrv_pre_reset_def opfunc_subdrv_post_reset_def subdrv_done_def Let_def
        bind_eq_Some_conv split: if_splits list.splits infra_subdrv_op.splits)
  then show ?thesis using waiting_run[OF i q] by (simp add: work_def)
qed

lemma cb_work:
  assumes s: "sim sys a" and pc: "cb_pc sys \<noteq> Cb_Idle" and c: "cb_step 0 0 False sys = Some (es, sys')"
  shows "work sys' < work sys"
proof (cases "cb_pc sys")
  case (Cb_Pre n)
  then have n: "n < 5" using s by (cases a) (auto simp: sim_def)
  define sys1 where "sys1 = sys\<lparr>drv_pwr_state := (drv_pwr_state sys)[n := drv_status (drv_inst (core sys) ! n)]\<rparr>"
  have "sys' = to_pc (if n + 1 < 5 then Cb_Pre (n + 1) else Cb_Wait_Pre) (send_subdrv 0 n INFRA_SUBDRV_OPID_PRE_RESET sys1)"
    using c Cb_Pre n s by (simp add: cb_step_def sizes_ok_def sim_def arr_set_def arr_get_def sys1_def Let_def)
  moreover have "core sys1 = core sys" "drv_queue sys1 = drv_queue sys" by (simp_all add: sys1_def)
  ultimately show ?thesis using waiting_send[of n INFRA_SUBDRV_OPID_PRE_RESET sys1] Cb_Pre n
    by (simp add: work_def) arith
next
  case (Cb_Post n)
  then have n: "n < 5" using s by (cases a) (auto simp: sim_def)
  have "sys' = to_pc (if n + 1 < 5 then Cb_Post (n + 1) else Cb_Wait_Post) (send_subdrv 0 n INFRA_SUBDRV_OPID_POST_RESET sys)"
    using c Cb_Post by (simp add: cb_step_def)
  then show ?thesis using waiting_send[of n INFRA_SUBDRV_OPID_POST_RESET sys] Cb_Post n
    by (simp add: work_def) arith
next
  case Cb_Wait_Pre
  then show ?thesis using c by (auto simp: cb_step_def wait_done_def work_def split: if_splits)
next
  case Cb_Wait_Post
  then show ?thesis using c by (auto simp: cb_step_def wait_done_def work_def split: if_splits)
next
  case Cb_Off
  then show ?thesis using c power_off_frame
    by (fastforce simp: cb_step_def work_def bind_eq_Some_conv opfunc_power_off_internal_def rst_frame_def)
next
  case (Cb_On n)
  then have n: "n < 5" using s by (cases a) (auto simp: sim_def)
  obtain pc ctx where "sys' = to_pc pc (sys\<lparr>core := ctx\<rparr>)" "pc = (if n + 1 < 5 then Cb_On (n + 1) else Cb_Resume)"
      "rst_frame (core sys) ctx"
    using c Cb_On power_on_frame that[of _ "core sys"]
    by (fastforce simp: cb_step_def bind_eq_Some_conv Let_def to_pc_def split: if_splits)
  then show ?thesis using n Cb_On by (simp add: work_def rst_frame_def) arith
next
  case Cb_Resume
  then show ?thesis using c by (auto simp: cb_step_def work_def)
qed (use pc in simp)

lemma reset_work: "sim sys a \<Longrightarrow> cb_pc sys \<noteq> Cb_Idle \<Longrightarrow> reset_step sys es sys' \<Longrightarrow> work sys' < work sys"
  using cb_work subdrv_work by (auto simp: reset_step_def)

lemma wait_progress:
  assumes "bs = bits T" and "T \<subseteq> {..<5}" and "pending op 5 T qs" and "told op 5 T qs" and "bs \<noteq> subdrv_all_done"
  shows "\<exists>i < 5. i < length qs \<and> qs ! i = [op]"
proof -
  from assms(1,2,5) have "T \<noteq> {..<5}" using bits_all by blast
  then obtain i where "i < 5" "i \<notin> T" using assms(2) by auto
  then show ?thesis using assms(3,4) by (auto simp: told_def pending_def)
qed

lemma subdrv_enabled:
  assumes "sizes_ok sys" and "i < length (drv_queue sys)" and "i < 5" and "drv_queue sys ! i = [op]"
  shows "\<exists>es sys'. subdrv_step i sys = Some (es, sys')"
  using assms
  by (cases op) (auto simp: subdrv_step_def opfunc_subdrv_pre_reset_def opfunc_subdrv_post_reset_def arr_get_def sizes_ok_def Let_def)

lemma reset_progress:
  assumes s: "sim sys a" and t: "told_at (cb_pc sys) (drv_queue sys) a" and p: "power_at S w h sys" and S: "S \<noteq> {}"
    and pc: "cb_pc sys \<noteq> Cb_Idle"
  shows "\<exists>es sys'. reset_step sys es sys'"
proof -
  have z: "sizes_ok sys" using s by (simp add: sim_def)
  have cb: "cb_step 0 0 False sys \<noteq> None \<Longrightarrow> ?thesis" by (auto simp: reset_step_def)
  have sub: "i < length (drv_queue sys) \<Longrightarrow> i < 5 \<Longrightarrow> drv_queue sys ! i = [op] \<Longrightarrow> ?thesis" for i op
    using subdrv_enabled[OF z, of i op] by (auto simp: reset_step_def)
  show ?thesis
  proof (cases "cb_pc sys")
    case (Cb_Pre n)
    then have n: "n < 5" using s by (cases a) (auto simp: sim_def)
    show ?thesis by (rule cb) (use z n Cb_Pre in \<open>simp add: cb_step_def sizes_ok_def arr_set_def arr_get_def\<close>)
  next
    case (Cb_Post n)
    show ?thesis by (rule cb) (use Cb_Post in \<open>simp add: cb_step_def\<close>)
  next
    case Cb_Resume
    show ?thesis by (rule cb) (use Cb_Resume in \<open>simp add: cb_step_def\<close>)
  next
    case Cb_Off
    have "core_inv (core sys)" "on_set (core sys) \<noteq> {}" using p Cb_Off S by (simp_all add: power_at_def)
    from power_off_forced[OF this, of "opfunc_get_current_status (core sys)"] obtain r where
      "power_off_with (opfunc_get_current_status (core sys)) 0 CONNDRV_TYPE_CONNINFRA (core sys) = Some r"
      by (meson post_iff)
    then show ?thesis by (intro cb) (use Cb_Off in \<open>cases r, simp add: cb_step_def opfunc_power_off_internal_def\<close>)
  next
    case (Cb_On n)
    then have n: "n < 5" using s by (cases a) (auto simp: sim_def)
    have "(of_nat n :: u32) < CONNDRV_TYPE_MAX" using n by (simp add: word_less_nat_alt unat_of_nat)
    moreover have "core_inv (core sys)" using p by (simp add: power_at_def)
    ultimately obtain r where "opfunc_power_on_internal 0 (of_nat n) (core sys) = Some r"
      using power_on_ok[of "core sys" "of_nat n"] by (meson post_iff)
    then show ?thesis by (intro cb) (use Cb_On z n in \<open>cases r, simp add: cb_step_def sizes_ok_def arr_get_def\<close>)
  next
    case Cb_Wait_Pre
    then obtain T where a: "a = A_Pre T" using s by (cases a) (auto simp: sim_def)
    show ?thesis
    proof (cases "rst_state (core sys) = subdrv_all_done")
      case True
      show ?thesis by (rule cb) (use True Cb_Wait_Pre in \<open>simp add: cb_step_def wait_done_def\<close>)
    next
      case False
      with wait_progress[of "rst_state (core sys)" T INFRA_SUBDRV_OPID_PRE_RESET "drv_queue sys"] s t a Cb_Wait_Pre sub
      show ?thesis by (auto simp: sim_def)
    qed
  next
    case Cb_Wait_Post
    then obtain T where a: "a = A_Post T" using s by (cases a) (auto simp: sim_def)
    show ?thesis
    proof (cases "rst_state (core sys) = subdrv_all_done")
      case True
      show ?thesis by (rule cb) (use True Cb_Wait_Post in \<open>simp add: cb_step_def wait_done_def\<close>)
    next
      case False
      with wait_progress[of "rst_state (core sys)" T INFRA_SUBDRV_OPID_POST_RESET "drv_queue sys"] s t a Cb_Wait_Post sub
      show ?thesis by (auto simp: sim_def)
    qed
  qed (use pc in simp)
qed

section \<open>Whole runs\<close>

definition reset_inv :: "nat set \<Rightarrow> nat \<Rightarrow> bool \<Rightarrow> 'w rst_sys \<Rightarrow> rst_spec \<Rightarrow> bool" where
  "reset_inv S w h sys a \<longleftrightarrow> sim sys a \<and> told_at (cb_pc sys) (drv_queue sys) a \<and> power_at S w h sys"

lemma sim_index:
  "sim sys a \<Longrightarrow> cb_pc sys \<in> {Cb_Pre n, Cb_On n, Cb_Post n} \<Longrightarrow> n < 5"
  by (cases a) (auto simp: sim_def)

lemma cb_inv:
  assumes i: "reset_inv S w h sys a" and S: "S \<noteq> {}" "S \<subseteq> {..<5}" and pc: "cb_pc sys \<noteq> Cb_Idle"
    and c: "cb_step 0 0 timed_out sys = Some (es, sys')"
  shows "\<exists>a'. spec_run a es = Some a' \<and> reset_inv S w h sys' a'"
proof -
  have s: "sim sys a" and t: "told_at (cb_pc sys) (drv_queue sys) a" and p: "power_at S w h sys"
    using i by (simp_all add: reset_inv_def)
  obtain a' where a': "spec_run a es = Some a'" "sim sys' a'" using cb_sim[OF s c] by blast
  have "sizes_ok sys" using s by (simp add: sim_def)
  from cb_power[OF p this S pc sim_index[OF s] c] cb_told[OF s t c a'(1)] a' show ?thesis by (auto simp: reset_inv_def)
qed

lemma subdrv_inv:
  assumes i: "reset_inv S w h sys a" and c: "subdrv_step i sys = Some (es, sys')"
  shows "\<exists>a'. spec_run a es = Some a' \<and> reset_inv S w h sys' a'"
proof -
  have s: "sim sys a" and t: "told_at (cb_pc sys) (drv_queue sys) a" and p: "power_at S w h sys"
    using i by (simp_all add: reset_inv_def)
  obtain a' where a': "spec_run a es = Some a'" "sim sys' a'" using subdrv_sim[OF s c] by blast
  from power_at_frame[OF p subdrv_power[OF c]] subdrv_told[OF s t c a'(1)] a' show ?thesis by (auto simp: reset_inv_def)
qed

text \<open>A step of another task: what it leaves alone.\<close>

lemma frame_inv:
  assumes i: "reset_inv S w h sys a" and r: "rst_frame (core sys) (core sys')" and p: "power_frame (core sys) (core sys')"
    and f: "cb_pc sys' = cb_pc sys" "drv_queue sys' = drv_queue sys" "cb_queue sys' = cb_queue sys" "drv_pwr_state sys' = drv_pwr_state sys"
  shows "reset_inv S w h sys' a" "work sys' = work sys"
proof -
  have "power_at S w h sys'" using i power_at_frame[OF _ p f(1,4)] by (simp add: reset_inv_def)
  then show "reset_inv S w h sys' a" using i r f by (simp add: reset_inv_def sim_def sizes_ok_def rst_frame_def)
  show "work sys' = work sys" using r f by (simp add: work_def rst_frame_def)
qed

lemma other_inv:
  assumes i: "reset_inv S w h sys a" and S: "S \<noteq> {}" "S \<subseteq> {..<5}" and pc: "cb_pc sys \<noteq> Cb_Idle"
    and o: "rst_step False quiet_op sys es sys'" and n: "\<not> reset_step sys es sys'"
  shows "(\<exists>a'. spec_run a es = Some a' \<and> reset_inv S w h sys' a') \<and> work sys' \<le> work sys"
  using o
proof (cases rule: rst_step.cases)
  case (cb lk send timed_out)
  then have c: "cb_step 0 0 timed_out sys = Some (es, sys')" by simp
  have s: "sim sys a" using i by (simp add: reset_inv_def)
  have "work sys' \<le> work sys"
  proof (cases timed_out)
    case False
    then show ?thesis using cb_work[OF s pc] c by fastforce
  next
    case True
    then show ?thesis using c n pc
      by (cases "cb_pc sys") (auto simp: reset_step_def cb_step_def wait_done_def work_def split: if_splits)
  qed
  then show ?thesis using cb_inv[OF i S pc c] by blast
next
  case (subdrv i)
  then show ?thesis using n by (auto simp: reset_step_def)
next
  case (trigger send who reason)
  have s: "sim sys a" using i by (simp add: reset_inv_def)
  then have st: "CHIP_RST_NONE < rst_status (core sys)" "rst_status (core sys) < CHIP_RST_DONE" "CHIP_RST_START \<le> rst_status (core sys)"
    using pc by (cases a; auto simp: sim_def)+
  then have "es = [Trigger_Busy] \<and> sys' = sys"
    using trigger by (auto simp: trigger_step_def conninfra_trigger_whole_chip_rst_def conninfra_core_lock_rst_def)
  moreover have "spec_run a [Trigger_Busy] = Some a" using s pc by (cases a) (auto simp: sim_def)
  ultimately show ?thesis using i by auto
next
  case (core_op op lk r ctx)
  then have "lk = 0" by simp
  with core_op have "rst_frame (core sys) ctx" "power_frame (core sys) ctx" using core_op_frame other_op_power by blast+
  then show ?thesis using frame_inv[OF i, of sys'] core_op(1,2) by simp
next
  case (register ty callbacks r ctx)
  then have "rst_frame (core sys) ctx" "power_frame (core sys) ctx" using register_frame register_power by blast+
  then show ?thesis using frame_inv[OF i, of sys'] register(1,2) by simp
qed

lemma reset_run_inv:
  assumes "reset_run sys n es sys'" and "reset_inv S w h sys a" and "S \<noteq> {}" "S \<subseteq> {..<5}"
  shows "(\<exists>a'. spec_run a es = Some a' \<and> reset_inv S w h sys' a') \<and> n + work sys' \<le> work sys"
  using assms
proof (induction rule: reset_run.induct)
  case start
  then show ?case by simp
next
  case (own n es sys' es' sys'')
  then obtain a' where a': "spec_run a es = Some a'" "reset_inv S w h sys' a'" and n: "n + work sys' \<le> work sys" by blast
  have s: "sim sys' a'" using a'(2) by (simp add: reset_inv_def)
  have "\<exists>a''. spec_run a' es' = Some a'' \<and> reset_inv S w h sys'' a''"
    using own(3) cb_inv[OF a'(2) own.prems(2,3) own(2)] subdrv_inv[OF a'(2)] by (auto simp: reset_step_def)
  then show ?case using a'(1) n reset_work[OF s own(2,3)] by (auto simp: spec_run_append)
next
  case (other n es sys' es' sys'')
  then obtain a' where a': "spec_run a es = Some a'" "reset_inv S w h sys' a'" and n: "n + work sys' \<le> work sys" by blast
  from other_inv[OF a'(2) other.prems(2,3) other(2,3,4)] a'(1) n show ?case by (auto simp: spec_run_append)
qed

text \<open>The state in which a reset has been taken.\<close>

lemma taken_inv:
  assumes s: "sim sys A_Queued" and inv: "core_inv (core sys)" and on: "on_set (core sys) \<noteq> {}"
    and c: "cb_step 0 0 False sys = Some (es, sys')"
  shows "es = [Taken]" "work sys' = 41"
    "reset_inv (on_set (core sys)) (wf_ons (consys (core sys))) (has_wf (consys (core sys))) sys' (A_Pre {})"
proof -
  have infra: "infra_drv_status (core sys) \<noteq> 0" using inv on by (simp add: core_inv_def)
  have e: "es = [Taken]" "sys' = to_pc (Cb_Pre 0) (update_core
      (\<lambda>ctx. conninfra_core_update_rst_status CHIP_RST_PRE_CB (clear_rst_state ctx)) (sys\<lparr>cb_queue := 0\<rparr>))"
    using s c infra by (auto simp: sim_def cb_step_def Let_def)
  show "es = [Taken]" by (rule e(1))
  have w: "waiting (drv_queue sys) = 0"
    using s by (auto simp: sim_def quiet_queues_def waiting_def in_set_conv_nth)
  show "work sys' = 41" using w by (simp add: e(2) work_def)
  have "sim sys' (A_Pre {})" using s by (simp add: e(2) sim_def sizes_ok_def pending_none)
  moreover have "power_at (on_set (core sys)) (wf_ons (consys (core sys))) (has_wf (consys (core sys))) sys'"
    using inv by (simp add: e(2) power_at_def clear_rst_state_def conninfra_core_update_rst_status_def saved_def)
  ultimately show "reset_inv (on_set (core sys)) (wf_ons (consys (core sys))) (has_wf (consys (core sys))) sys' (A_Pre {})"
    by (simp add: reset_inv_def e(2))
qed

lemma triggered:
  assumes "rst_ready sys" and "trigger_step 0 who reason sys = (es, sys')"
  shows "es = [Triggered]" "sim sys' A_Queued" "power_frame (core sys) (core sys')"
  using assms trigger_power[OF assms(2)]
  by (auto simp: trigger_step_def conninfra_trigger_whole_chip_rst_def conninfra_core_lock_rst_def
      conninfra_core_trg_chip_rst_def Let_def rst_ready_def sim_def sizes_ok_def quiet_queues_def)

lemma rst_step_events: "rst_step faults allowed sys es sys' \<Longrightarrow> length es \<le> 1"
proof (induction rule: rst_step.induct)
  case (cb lk send timed_out sys es sys')
  then show ?case
    by (cases "cb_pc sys") (auto simp: cb_step_def wait_done_def Let_def bind_eq_Some_conv split: if_splits)
next
  case (subdrv i sys es sys')
  then show ?case
    by (auto simp: subdrv_step_def Let_def bind_eq_Some_conv split: if_splits list.splits infra_subdrv_op.splits)
next
  case (trigger send who reason sys es sys')
  then show ?case by (auto simp: trigger_step_def Let_def split: if_splits prod.splits)
qed simp_all

lemma reset_step_rst_step: "reset_step sys es sys' \<Longrightarrow> rst_step False quiet_op sys es sys'"
  using rst_step.cb[of 0 0 False sys es sys' False] rst_step.subdrv by (auto simp: reset_step_def)

lemma spec_within:
  assumes "length es \<le> 1" and "spec_run a es = Some a'" and "a \<notin> {A_Idle, A_Queued, A_Lost}"
  shows "a' \<notin> {A_Queued, A_Lost}"
proof (cases es)
  case Nil
  then show ?thesis using assms by auto
next
  case (Cons e es')
  then have "spec_step a e = Some a'" using assms(1,2) by simp
  then show ?thesis using assms(3) by (cases a; cases e) (auto split: if_splits)
qed

lemma reset_run_spec:
  assumes "reset_run sys n es sys'" and "sim sys a" and "a \<notin> {A_Queued, A_Lost}"
  shows "\<exists>a'. spec_run a es = Some a' \<and> sim sys' a' \<and> a' \<notin> {A_Queued, A_Lost}"
  using assms
proof (induction rule: reset_run.induct)
  case start
  then show ?case by auto
next
  case (own n es sys' es' sys'')
  then obtain a' where a': "spec_run a es = Some a'" "sim sys' a'" "a' \<notin> {A_Queued, A_Lost}" by blast
  then have "a' \<noteq> A_Idle" using own(2) by (auto simp: sim_def)
  moreover note step_sim[OF reset_step_rst_step[OF own(3)] a'(2)]
  ultimately show ?case using spec_within[OF rst_step_events[OF reset_step_rst_step[OF own(3)]]] a' by (fastforce simp: spec_run_append)
next
  case (other n es sys' es' sys'')
  then obtain a' where a': "spec_run a es = Some a'" "sim sys' a'" "a' \<notin> {A_Queued, A_Lost}" by blast
  then have "a' \<noteq> A_Idle" using other(2) by (auto simp: sim_def)
  moreover note step_sim[OF other(3) a'(2)]
  ultimately show ?case using spec_within[OF rst_step_events[OF other(3)]] a' by (fastforce simp: spec_run_append)
qed

lemma reset_over:
  assumes "reset_run sys n es sys'" and "sim sys (A_Pre {})" and "cb_pc sys' = Cb_Idle"
  shows "spec_run (A_Pre {}) es = Some A_Idle" "rst_ready sys'"
proof -
  obtain a' where a': "spec_run (A_Pre {}) es = Some a'" "sim sys' a'" "a' \<notin> {A_Queued, A_Lost}"
    using reset_run_spec[OF assms(1,2)] by auto
  then have i: "a' = A_Idle" using assms(3) by (cases a') (auto simp: sim_def)
  with a'(1) show "spec_run (A_Pre {}) es = Some A_Idle" by simp
  have "drv_queue sys' = replicate 5 []"
    using a'(2) i by (intro nth_equalityI) (simp_all add: sim_def quiet_queues_def)
  then show "rst_ready sys'" using a'(2) i by (simp add: rst_ready_def sim_def sizes_ok_def)
qed

text \<open>A trigger whose operation has been lost.\<close>

lemma lost:
  assumes "rst_ready sys" and "send \<noteq> 0" and "trigger_step send who reason sys = (es, sys')"
  shows "fst (conninfra_trigger_whole_chip_rst send who reason (core sys)) = 0" "sim sys' A_Lost"
  using assms
  by (auto simp: trigger_step_def conninfra_trigger_whole_chip_rst_def conninfra_core_lock_rst_def
      conninfra_core_trg_chip_rst_def Let_def rst_ready_def sim_def sizes_ok_def quiet_queues_def)

lemma lost_spec: "spec_run A_Lost es = Some a \<Longrightarrow> a = A_Lost \<and> set es \<subseteq> {Trigger_Busy}"
proof (induction es)
  case (Cons e es)
  then show ?case by (cases e) auto
qed simp

end
