(* ===== verification/Core_Sample.thy ===== *)
theory Core_Sample
  imports Core_Reset_Live
begin

text \<open>
  A chip with the functions that the MT7981 has, each of which succeeds and does nothing else, and schedules of the steps
  of a reset: a schedule that can be executed is a run.
\<close>

section \<open>A chip\<close>

definition plt_ok :: "'w plt" where "plt_ok = Some (\<lambda>w. (0, w))"
definition plt_ok_switch :: "'w plt_switch" where "plt_ok_switch = Some (\<lambda>b w. (0, w))"

definition chip_sample_ops :: "'w consys_hw_ops_struct" where
  "chip_sample_ops = \<lparr>
     consys_plt_xtal_ctrl_fast_mode = plt_ok, consys_plt_connsys_sw_reset_ctrl = plt_ok_switch,
     consys_plt_set_if_pinmux = Some (\<lambda>b w. w), consys_plt_tx_rx_bus_slp_prot_ctrl = plt_ok_switch,
     consys_plt_polling_consys_chipid = plt_ok, consys_plt_bus_clock_ctrl = Some (\<lambda>t c w. (0, w)), consys_plt_d_die_cfg = plt_ok,
     consys_plt_conninfra_sysram_hw_ctrl = plt_ok, consys_plt_spi_master_cfg = plt_ok, consys_plt_a_die_cfg = plt_ok,
     consys_plt_afe_wbg_cal = plt_ok, consys_plt_subsys_pll_initial = plt_ok, consys_plt_osc_legacy_mode = plt_ok,
     consys_plt_top_pwr_ctrl = plt_ok, consys_plt_conn_infra_bus_timeout = plt_ok, consys_plt_clkgen_wpll_hw_ctrl = plt_ok,
     consys_plt_conninfra_wakeup = plt_ok, consys_plt_conninfra_sleep = plt_ok,
     consys_plt_adie_top_ck_en_on_off_ctrl = Some (\<lambda>t b w. (0, w)), consys_plt_wpll_ctrl = plt_ok_switch,
     consys_plt_conninfra_wf_wakeup = plt_ok, consys_plt_conninfra_wf_sleep = plt_ok, consys_plt_conn_wmcpu_sw_reset = plt_ok_switch,
     consys_plt_wf_bus_slp_prot_ctrl = plt_ok_switch, consys_plt_wfsys_top_on_ctrl = plt_ok_switch,
     consys_plt_wfsys_bus_slp_prot_check = plt_ok_switch, consys_plt_wfsys_bus_timeout_ctrl = plt_ok,
     consys_plt_conn_wmcpu_idle_loop_check = plt_ok, consys_plt_conninfra_wf_req_clr = plt_ok,
     consys_plt_spi_read = Some (\<lambda>s a v w. ((0, 0), w)), consys_plt_spi_write = Some (\<lambda>s a v w. (0, w)),
     consys_plt_spi_clock_switch = None, consys_plt_power_state = None, consys_plt_adie_type_check = None,
     consys_plt_adie_type_cfg = plt_ok\<rparr>"

definition chip_sample :: "unit consys_hw" where
  "chip_sample = \<lparr>hw_ops = chip_sample_ops, pmic_ops = None, emi_ops = None, reg_ops = None, reg_map = \<lambda>a. True,
     reg_load = \<lambda>a w. (0, w), reg_store = \<lambda>a v w. w, wakeup_ref_cnt = 0, world = (), hw_calls = []\<rparr>"

definition core_sample_off :: "unit conninfra_ctx" where
  "core_sample_off = conninfra_core_init chip_sample"

text \<open>The driver turns the infrastructure on when it is loaded, and the WiFi driver turns WiFi on.\<close>

definition power_up :: "u32 list \<Rightarrow> 'w conninfra_ctx \<Rightarrow> 'w conninfra_ctx option" where
  "power_up ts ctx = fold (\<lambda>t m. Option.bind m (\<lambda>ctx. map_option snd (opfunc_power_on_internal 0 t ctx))) ts (Some ctx)"

definition core_sample_on :: "unit conninfra_ctx" where
  "core_sample_on = the (power_up [CONNDRV_TYPE_CONNINFRA, CONNDRV_TYPE_WIFI] core_sample_off)"

lemma core_sample_off_inv: "core_inv core_sample_off" "on_set core_sample_off = {}"
  by (auto simp: core_sample_off_def conninfra_core_init_def reset_chip_rst_trg_data_def core_inv_def status_ok_def on_set_def
      hw_ok_def chip_powered_def chip_sample_def chip_sample_ops_def plt_ok_switch_def plt_ok_def nth_Cons' numeral_eq_Suc)

lemma core_sample_on_inv: "core_inv core_sample_on" "on_set core_sample_on = {3, 4}"
proof -
  have a: "post (opfunc_power_on_internal 0 CONNDRV_TYPE_CONNINFRA core_sample_off) (\<lambda>(r, c). core_inv c \<and> on_set c = {4})"
    by (rule post_mono[OF power_on_ok[OF core_sample_off_inv(1)]]) (auto simp: core_sample_off_inv)
  then obtain r1 c1 where 1: "opfunc_power_on_internal 0 CONNDRV_TYPE_CONNINFRA core_sample_off = Some (r1, c1)" "core_inv c1" "on_set c1 = {4}"
    by (auto elim: postE)
  have "post (opfunc_power_on_internal 0 CONNDRV_TYPE_WIFI c1) (\<lambda>(r, c). core_inv c \<and> on_set c = {3, 4})"
    by (rule post_mono[OF power_on_ok[OF 1(2)]]) (auto simp: 1)
  then obtain r2 c2 where 2: "opfunc_power_on_internal 0 CONNDRV_TYPE_WIFI c1 = Some (r2, c2)" "core_inv c2" "on_set c2 = {3, 4}"
    by (auto elim: postE)
  have "core_sample_on = c2" using 1(1) 2(1) by (simp add: core_sample_on_def power_up_def)
  then show "core_inv core_sample_on" "on_set core_sample_on = {3, 4}" using 2 by simp_all
qed

definition rst_sample_sys :: "unit rst_sys" where
  "rst_sample_sys = \<lparr>core = core_sample_on, cb_pc = Cb_Idle, cb_queue = 0, drv_queue = replicate 5 [], drv_pwr_state = replicate 5 0\<rparr>"

section \<open>Schedules\<close>

datatype rst_choice = By_Cb | By_Subdrv nat

fun rst_sched_step :: "rst_choice \<Rightarrow> 'w rst_sys \<Rightarrow> (rst_event list \<times> 'w rst_sys) option" where
  "rst_sched_step By_Cb sys = cb_step 0 0 False sys"
| "rst_sched_step (By_Subdrv i) sys = subdrv_step i sys"

fun rst_sched :: "rst_choice list \<Rightarrow> 'w rst_sys \<Rightarrow> (rst_event list \<times> 'w rst_sys) option" where
  "rst_sched [] sys = Some ([], sys)"
| "rst_sched (ch # chs) sys =
     (if cb_pc sys = Cb_Idle then None
      else case rst_sched_step ch sys of
        None \<Rightarrow> None
      | Some (es, sys') \<Rightarrow> (case rst_sched chs sys' of None \<Rightarrow> None | Some (es', sys'') \<Rightarrow> Some (es @ es', sys'')))"

lemma reset_run_first:
  assumes "reset_run sys' n es sys''" and "cb_pc sys \<noteq> Cb_Idle" and "reset_step sys es' sys'"
  shows "reset_run sys (Suc n) (es' @ es) sys''"
  using assms
proof (induction rule: reset_run.induct)
  case start
  then show ?case using reset_run.own[OF reset_run.start] by fastforce
next
  case (own n es s1 es1 s2)
  then show ?case using reset_run.own[of sys "Suc n" "es' @ es" s1 es1 s2] by simp
next
  case (other n es s1 es1 s2)
  then show ?case using reset_run.other[of sys "Suc n" "es' @ es" s1 es1 s2] by simp
qed

lemma rst_sched_ok: "rst_sched chs sys = Some (es, sys') \<Longrightarrow> reset_run sys (length chs) es sys'"
proof (induction chs arbitrary: sys es)
  case Nil
  then show ?case by (simp add: reset_run.start)
next
  case (Cons ch chs)
  then obtain es1 sys1 es2 where "cb_pc sys \<noteq> Cb_Idle" "rst_sched_step ch sys = Some (es1, sys1)"
    "rst_sched chs sys1 = Some (es2, sys')" "es = es1 @ es2"
    by (auto split: if_splits option.splits)
  moreover from this(2) have "reset_step sys es1 sys1" by (cases ch) (auto simp: reset_step_def)
  ultimately show ?case using reset_run_first[OF Cons.IH] by simp
qed

text \<open>The callback thread goes first, then the subsystems in order, in both phases.\<close>

definition reset_sched :: "rst_choice list" where
  "reset_sched = replicate 5 By_Cb @ map By_Subdrv [0..<5] @ replicate 13 By_Cb @ map By_Subdrv [0..<5] @ [By_Cb]"

definition rst_sample_taken :: "unit rst_sys" where
  "rst_sample_taken = snd (the (cb_step 0 0 False (snd (trigger_step 0 CONNDRV_TYPE_WIFI [] rst_sample_sys))))"

lemma reset_sample_events:
  "map_option fst (rst_sched reset_sched rst_sample_taken) = Some
     (map Pre_Cb [0..<5] @ [Power_Cut 0, Power_Restored 3 0, Power_Restored 4 0, Resumed] @ map Post_Cb [0..<5] @ [Finished])"
  by code_simp

lemma reset_sample_end:
  "map_option (\<lambda>(es, sys). cb_pc sys) (rst_sched reset_sched rst_sample_taken) = Some Cb_Idle"
  by code_simp

lemma reset_run_rst_run:
  assumes "reset_run sys n es sys'" and "rst_run False quiet_op sys0 es0 sys"
  shows "rst_run False quiet_op sys0 (es0 @ es) sys'"
  using assms
proof (induction rule: reset_run.induct)
  case start
  then show ?case by simp
next
  case (own n es sys' es' sys'')
  have "rst_step False quiet_op sys' es' sys''"
    using own(3) rst_step.cb[of 0 0 False sys' es' sys'' False] rst_step.subdrv by (auto simp: reset_step_def)
  then show ?case using rst_run.more[OF own.IH[OF own.prems]] by simp
next
  case (other n es sys' es' sys'')
  then show ?case using rst_run.more[OF other.IH[OF other.prems] other(3)] by simp
qed

text \<open>The states of the sample: ready, triggered, taken.\<close>

lemma rst_sample_start:
  "rst_ready rst_sample_sys" "core_inv (core rst_sample_sys)" "on_set (core rst_sample_sys) = {3, 4}"
  "fst (trigger_step 0 CONNDRV_TYPE_WIFI [] rst_sample_sys) = [Triggered]"
  "map_option fst (cb_step 0 0 False (snd (trigger_step 0 CONNDRV_TYPE_WIFI [] rst_sample_sys))) = Some [Taken]"
proof -
  show r: "rst_ready rst_sample_sys" by code_simp
  show i: "core_inv (core rst_sample_sys)" "on_set (core rst_sample_sys) = {3, 4}"
    using core_sample_on_inv by (simp_all add: rst_sample_sys_def)
  show "fst (trigger_step 0 CONNDRV_TYPE_WIFI [] rst_sample_sys) = [Triggered]" by code_simp
  show "map_option fst (cb_step 0 0 False (snd (trigger_step 0 CONNDRV_TYPE_WIFI [] rst_sample_sys))) = Some [Taken]" by code_simp
qed

lemma rst_sample_take:
  "cb_step 0 0 False (snd (trigger_step 0 CONNDRV_TYPE_WIFI [] rst_sample_sys)) = Some ([Taken], rst_sample_taken)"
  using rst_sample_start(5) by (auto simp: rst_sample_taken_def)

end
