(* ===== verification/Core_Properties.thy ===== *)
theory Core_Properties
  imports Core_Sample
begin

text \<open>
  The properties of the core of \<open>conninfra\<close>: the power states, the core lock, and the reset of the whole chip.
\<close>

section \<open>Power states\<close>

text \<open>C34: Every operation of the core thread, when the power states are consistent, ends with consistent power states again: the
  lock is free, the infrastructure counts as on exactly when some subsystem is on, and the last software reset of
  the chip was released exactly then.  The set of the subsystems that are on changes as the name of the operation
  says: power-on adds one, power-off removes one or all, no other operation changes it.  The one exception is the
  forced power-off of a chip that is off.\<close>

theorem core_power_refines:
  assumes "core_inv ctx" and "op_type_ok op"
    and "op = CONNINFRA_OPID_PWR_OFF CONNDRV_TYPE_CONNINFRA \<Longrightarrow> on_set ctx \<noteq> {}"
  shows "\<exists>ret ctx'. conninfra_core_opfunc op 0 ctx = Some (ret, ctx') \<and> core_inv ctx' \<and>
    on_set ctx' = power_spec op (on_set ctx) \<and> (is_power_op op \<longrightarrow> ret = 0)"
proof (cases "is_power_op op")
  case False
  then have "power_spec op S = S" for S by (cases op) simp_all
  with other_op_ok[OF assms(1) False] False show ?thesis by (auto simp: post_iff)
next
  case True
  then consider t where "op = CONNINFRA_OPID_PWR_ON t" | t where "op = CONNINFRA_OPID_PWR_OFF t" by (cases op) simp_all
  then show ?thesis
  proof cases
    case 1
    then show ?thesis using power_on_ok[OF assms(1), of t] assms(2) by (auto simp: post_iff)
  next
    case 2
    show ?thesis
    proof (cases "t = CONNDRV_TYPE_CONNINFRA")
      case True
      have "on_set ctx \<noteq> {}" using assms(3) 2 True by simp
      then show ?thesis
        using power_off_forced[OF assms(1), of "opfunc_get_current_status ctx"] 2 True
        by (auto simp: post_iff opfunc_power_off_internal_def)
    next
      case False
      then have "t < CONNDRV_TYPE_CONNINFRA" using assms(2) 2 by (auto simp: word_less_nat_alt word_unat_eq_iff)
      then show ?thesis using power_off_subsys[OF assms(1), of t] 2 False by (auto simp: post_iff)
    qed
  qed
qed

theorem core_power_refines_sample:
  "\<exists>ret ctx'. conninfra_core_opfunc (CONNINFRA_OPID_PWR_OFF CONNDRV_TYPE_WIFI) 0 core_sample_on = Some (ret, ctx') \<and> core_inv ctx' \<and>
     on_set ctx' = power_spec (CONNINFRA_OPID_PWR_OFF CONNDRV_TYPE_WIFI) (on_set core_sample_on) \<and>
     (is_power_op (CONNINFRA_OPID_PWR_OFF CONNDRV_TYPE_WIFI) \<longrightarrow> ret = 0)"
  by (rule core_power_refines) (simp_all add: core_sample_on_inv)

text \<open>\<open>opfunc_power_off_internal\<close> reads the current status before it takes the lock.  When the status is read while a reset has
  everything off, and the operation goes on after the reset, the chip loses its power although other subsystems
  count as on.\<close>

lemma stale_status_cuts_power:
  assumes "core_inv ctx" and "t < CONNDRV_TYPE_CONNINFRA" and "unat t \<in> on_set ctx" and "on_set ctx \<noteq> {unat t}"
  shows "\<exists>ctx'. power_off_with 0 0 t ctx = Some (0, ctx') \<and> on_set ctx' \<noteq> {} \<and> infra_drv_status ctx' = DRV_STS_POWER_ON \<and>
    \<not> chip_powered (consys ctx')"
proof -
  obtain ret c where r: "power_off_with 0 0 t ctx = Some (ret, c)" "ret = 0" "on_set c = on_set ctx - {unat t}"
    "infra_drv_status c = (if on_set c = {} then DRV_STS_POWER_OFF else DRV_STS_POWER_ON)" "\<not> chip_powered (consys c)"
    using power_off_with_subsys[OF assms(1-3), of 0] by (auto elim!: postE)
  moreover have "on_set c \<noteq> {}" using r(3) assms(3,4) by blast
  ultimately show ?thesis by auto
qed

text \<open>A failed SPI access to one of the subsystems of the second A-die reads behind the table of names.\<close>

lemma failed_spi_reads_out_of_table:
  assumes "0x10 < subsystem" and "e \<noteq> 0"
  shows "conninfra_core_spi_write (Not_Sent e) subsystem addr data ctx = None"
  using assms
  by (simp add: conninfra_core_spi_write_def send_core_def spi_result_def conninfra_core_spi_subsys_string_def arr_get_def
      subsys_name_def word_less_nat_alt)

section \<open>The core lock\<close>

text \<open>C37: The lock after an operation of the core thread.  Whatever the state and whatever taking the lock returns, an operation that
  returns leaves the lock as it was, with two exceptions: the forced power-off that finds the infrastructure off keeps
  the lock it has taken, and the two clock operations and the SPI clock switch release the lock of another task
  when they could not get it.\<close>

theorem lock_kept:
  assumes "conninfra_core_opfunc op lk ctx = Some (ret, ctx')"
  shows "core_lock ctx' = (if lock_leaks op lk ctx then True else if lock_stolen op lk then False else core_lock ctx)"
proof (cases "is_power_op op")
  case True
  then show ?thesis using assms power_on_lock power_off_lock by (cases op) (fastforce simp: opfunc_power_off_internal_def)+
next
  case False
  then have "\<not> lock_leaks op lk ctx" by (cases op) simp_all
  then show ?thesis using other_op_lock[OF False assms] by simp
qed

theorem lock_kept_sample:
  "\<exists>ctx'. conninfra_core_opfunc (CONNINFRA_OPID_ADIE_TOP_CK_EN_ON CONNDRV_TYPE_WIFI) (- 4) (core_sample_on\<lparr>core_lock := True\<rparr>) = Some (- 1, ctx') \<and>
     \<not> core_lock ctx'"
proof -
  have r: "conninfra_core_opfunc (CONNINFRA_OPID_ADIE_TOP_CK_EN_ON CONNDRV_TYPE_WIFI) (- 4) (core_sample_on\<lparr>core_lock := True\<rparr>) =
      Some (- 1, core_sample_on\<lparr>core_lock := True, core_lock := False\<rparr>)"
    by (simp add: core_op_defs)
  show ?thesis using lock_kept[OF r] r by (auto simp: word_less_nat_alt)
qed

text \<open>C38: A forced power-off of a chip that is off reports success and blocks the core: from then on every operation of the
  core thread with valid data waits for the lock for ever.\<close>

theorem forced_off_blocks:
  assumes "core_inv ctx" and "on_set ctx = {}"
  shows "\<exists>ctx'. conninfra_core_opfunc (CONNINFRA_OPID_PWR_OFF CONNDRV_TYPE_CONNINFRA) 0 ctx = Some (0, ctx') \<and>
    (\<forall>op. op_type_ok op \<longrightarrow> conninfra_core_opfunc op 0 ctx' = None)"
proof -
  have "status_ok (ctx\<lparr>core_lock := True\<rparr>)" using assms(1) by (simp add: core_inv_def)
  from op_waits[OF _ this] show ?thesis
    using power_off_forced_off[OF assms] by (simp add: opfunc_power_off_internal_def)
qed

theorem forced_off_blocks_sample:
  "\<exists>ctx'. conninfra_core_opfunc (CONNINFRA_OPID_PWR_OFF CONNDRV_TYPE_CONNINFRA) 0 core_sample_off = Some (0, ctx') \<and>
    (\<forall>op. op_type_ok op \<longrightarrow> conninfra_core_opfunc op 0 ctx' = None)"
  by (rule forced_off_blocks) (rule core_sample_off_inv)+

section \<open>Reset of the chip\<close>



text \<open>C36: A reset that has been taken ends: when no sending fails, no lock is refused and the core thread runs no power operation
  meanwhile, the callback thread and the subsystems make at most 41 steps, whatever the other tasks do and however
  often a time runs out; and until the reset is over one of them can make a step.\<close>

theorem reset_ends:
  assumes "rst_ready sys" and "core_inv (core sys)" and "on_set (core sys) \<noteq> {}"
    and "trigger_step 0 who reason sys = (es0, sys0)" and "cb_step 0 0 False sys0 = Some (es1, sys1)"
    and "reset_run sys1 n es sys2"
  shows "n \<le> 41 \<and> (cb_pc sys2 \<noteq> Cb_Idle \<longrightarrow> (\<exists>es' sys'. reset_step sys2 es' sys'))"
proof -
  note t = triggered[OF assms(1,4)]
  have on: "core_inv (core sys0)" "on_set (core sys0) \<noteq> {}" using t(3) assms(2,3) by (auto simp: power_frame_def)
  note k = taken_inv[OF t(2) on assms(5)]
  from reset_run_inv[OF assms(6) k(3) on(2) on_set_subset] k(2) obtain a' where
    i: "reset_inv (on_set (core sys0)) (wf_ons (consys (core sys0))) (has_wf (consys (core sys0))) sys2 a'" and n: "n + work sys2 \<le> 41"
    by auto
  from i reset_progress[OF _ _ _ on(2)] have "cb_pc sys2 \<noteq> Cb_Idle \<Longrightarrow> \<exists>es' sys'. reset_step sys2 es' sys'"
    unfolding reset_inv_def by blast
  then show ?thesis using n by simp
qed

theorem reset_ends_sample:
  "\<exists>n es sys2. reset_run rst_sample_taken n es sys2 \<and> n = 29 \<and> cb_pc sys2 = Cb_Idle \<and>
     n \<le> 41 \<and> (cb_pc sys2 \<noteq> Cb_Idle \<longrightarrow> (\<exists>es' sys'. reset_step sys2 es' sys'))"
proof -
  obtain es sys2 where r: "rst_sched reset_sched rst_sample_taken = Some (es, sys2)" and e: "cb_pc sys2 = Cb_Idle"
    using reset_sample_end by (auto simp: map_option_eq_Some)
  have l: "length reset_sched = 29" by code_simp
  obtain sys0 where t: "trigger_step 0 CONNDRV_TYPE_WIFI [] rst_sample_sys = ([Triggered], sys0)"
    using rst_sample_start(4) by (metis prod.collapse)
  have on: "on_set (core rst_sample_sys) \<noteq> {}" by (simp add: rst_sample_start)
  note run = rst_sched_ok[OF r]
  from reset_ends[OF rst_sample_start(1,2) on t rst_sample_take[unfolded t snd_conv] run] run l e show ?thesis by auto
qed

text \<open>C35: When such a reset is over, the power states are consistent, the same subsystems are on as before, the guard is free, the
  five callbacks before and after have run, and the power has been cut and restored in between.  But the function of
  the chip that turns WiFi on has been called once more only when a subsystem with a smaller number than WiFi was on:
  with the infrastructure and WiFi on, WiFi counts as on again without it.\<close>

theorem reset_restores:
  assumes "rst_ready sys" and "core_inv (core sys)" and "on_set (core sys) \<noteq> {}"
    and "trigger_step 0 who reason sys = (es0, sys0)" and "cb_step 0 0 False sys0 = Some (es1, sys1)"
    and "reset_run sys1 n es sys2" and "cb_pc sys2 = Cb_Idle"
  shows "core_inv (core sys2) \<and> on_set (core sys2) = on_set (core sys) \<and> rst_ready sys2 \<and>
    spec_run A_Idle (es0 @ es1 @ es) = Some A_Idle \<and>
    wf_ons (consys (core sys2)) = wf_ons (consys (core sys)) +
      (if 3 \<in> on_set (core sys) \<and> on_set (core sys) \<inter> {0, 1, 2} \<noteq> {} \<and> has_wf (consys (core sys)) then 1 else 0)"
proof -
  note t = triggered[OF assms(1,4)]
  have f: "on_set (core sys0) = on_set (core sys)" "core_inv (core sys0)" using t(3) assms(2) by (auto simp: power_frame_def)
  have on: "on_set (core sys0) \<noteq> {}" using f assms(3) by simp
  note k = taken_inv[OF t(2) f(2) on assms(5)]
  from reset_run_inv[OF assms(6) k(3) on on_set_subset] obtain a' where a': "spec_run (A_Pre {}) es = Some a'" and
    i: "reset_inv (on_set (core sys0)) (wf_ons (consys (core sys0))) (has_wf (consys (core sys0))) sys2 a'"
    by auto
  have "sim sys1 (A_Pre {})" using k(3) by (simp add: reset_inv_def)
  note idle = reset_over[OF assms(6) this assms(7)]
  have "{..<3} = {0, 1, 2 :: nat}" by auto
  then have due: "wf_due (on_set (core sys0)) h =
      (if 3 \<in> on_set (core sys) \<and> on_set (core sys) \<inter> {0, 1, 2} \<noteq> {} \<and> h then 1 else 0)" for h
    by (simp add: wf_due_def f)
  have "power_at (on_set (core sys0)) (wf_ons (consys (core sys0))) (has_wf (consys (core sys0))) sys2"
    using i by (simp add: reset_inv_def)
  then have "core_inv (core sys2)" "on_set (core sys2) = on_set (core sys)"
    "wf_ons (consys (core sys2)) = wf_ons (consys (core sys)) + wf_due (on_set (core sys0)) (has_wf (consys (core sys)))"
    using assms(7) f power_frameD[OF t(3)] by (simp_all add: power_at_def)
  moreover have "spec_run A_Idle (es0 @ es1 @ es) = Some A_Idle" using idle(1) t(1) k(1) by simp
  ultimately show ?thesis using idle(2) unfolding due by (intro conjI)
qed

text \<open>The infrastructure and WiFi are on.  After the reset they still are, and no call has turned WiFi on.\<close>

theorem reset_restores_sample:
  "\<exists>n es sys2. reset_run rst_sample_taken n es sys2 \<and> core_inv (core sys2) \<and> on_set (core sys2) = {3, 4} \<and> rst_ready sys2 \<and>
     spec_run A_Idle (Triggered # Taken # es) = Some A_Idle \<and>
     wf_ons (consys (core sys2)) = wf_ons (consys (core rst_sample_sys))"
proof -
  obtain es sys2 where r: "rst_sched reset_sched rst_sample_taken = Some (es, sys2)" and e: "cb_pc sys2 = Cb_Idle"
    using reset_sample_end by (auto simp: map_option_eq_Some)
  obtain sys0 where t: "trigger_step 0 CONNDRV_TYPE_WIFI [] rst_sample_sys = ([Triggered], sys0)"
    using rst_sample_start(4) by (metis prod.collapse)
  have on: "on_set (core rst_sample_sys) \<noteq> {}" by (simp add: rst_sample_start)
  note run = rst_sched_ok[OF r]
  have "{3, 4} \<inter> {0, 1, 2 :: nat} = {}" by auto
  with reset_restores[OF rst_sample_start(1,2) on t rst_sample_take[unfolded t snd_conv] run e, unfolded rst_sample_start(3)]
  have "core_inv (core sys2) \<and> on_set (core sys2) = {3, 4} \<and> rst_ready sys2 \<and>
     spec_run A_Idle (Triggered # Taken # es) = Some A_Idle \<and>
     wf_ons (consys (core sys2)) = wf_ons (consys (core rst_sample_sys))" by simp
  with run show ?thesis by blast
qed

text \<open>C39: When the operation of a trigger cannot be sent, the trigger reports success all the same, and nothing ever clears the
  guard: from then on, whatever the tasks do, no reset starts, every further trigger is told that one is going on, and
  the drivers can turn nothing on or off.\<close>

theorem lost_trigger_blocks:
  assumes "rst_ready sys" and "send \<noteq> 0" and "trigger_step send who reason sys = (es0, sys0)"
    and "rst_run faults allowed sys0 es sys1"
  shows "fst (conninfra_trigger_whole_chip_rst send who reason (core sys)) = 0 \<and> set es \<subseteq> {Trigger_Busy} \<and> cb_pc sys1 = Cb_Idle \<and>
    fst (conninfra_trigger_whole_chip_rst send' who' reason' (core sys1)) = 1 \<and>
    conninfra_pwr_on m ty (core sys1) = Some (CONNINFRA_ERR_RST_ONGOING, core sys1) \<and>
    conninfra_pwr_off m ty (core sys1) = Some (CONNINFRA_ERR_RST_ONGOING, core sys1)"
proof -
  note l = lost[OF assms(1-3)]
  obtain a where a: "spec_run A_Lost es = Some a" "sim sys1 a" using run_sim[OF assms(4) l(2)] by blast
  note lost_spec[OF a(1)]
  with a(2) l(1) show ?thesis
    by (auto simp: sim_def conninfra_pwr_on_def conninfra_pwr_off_def unless_rst_def conninfra_core_is_rst_locking_def
        conninfra_trigger_whole_chip_rst_def conninfra_core_lock_rst_def)
qed

theorem lost_trigger_blocks_sample:
  "\<exists>sys1. rst_run True (\<lambda>op. True) (snd (trigger_step (- 1) CONNDRV_TYPE_WIFI [] rst_sample_sys)) [Trigger_Busy] sys1 \<and>
     cb_pc sys1 = Cb_Idle \<and> conninfra_pwr_on (Handled 0) CONNDRV_TYPE_BT (core sys1) = Some (CONNINFRA_ERR_RST_ONGOING, core sys1)"
proof -
  obtain es0 sys0 where t: "trigger_step (- 1) CONNDRV_TYPE_WIFI [] rst_sample_sys = (es0, sys0)" by fastforce
  note l = lost[OF rst_sample_start(1) _ t]
  have b: "trigger_step 0 CONNDRV_TYPE_BT [] sys0 = ([Trigger_Busy], sys0)"
    using l(2) by (auto simp: sim_def trigger_step_def conninfra_trigger_whole_chip_rst_def conninfra_core_lock_rst_def)
  have r: "rst_run True (\<lambda>op. True) sys0 [Trigger_Busy] sys0"
    using rst_run.more[OF rst_run.none rst_step.trigger[OF b]] by fastforce
  have "(- 1 :: int) \<noteq> 0" by simp
  from lost_trigger_blocks[OF rst_sample_start(1) this t r] r t show ?thesis by auto
qed

end
