(* ===== verification/Spec2Isabelle.thy ===== *)
theory Spec2Isabelle
  imports Nmbm_Properties Mtd_Properties Kvc_Properties Pc_Properties Pc_Json_Properties Conn_Properties Core_Properties
begin

text \<open>
  A verification development for four parts of the firmware tree of the GL-MT7981 routers: NMBM, the
  bad-block management layer between the flash device and its users; datconf, the library and tool
  that edit the key-value files the wireless driver is configured with; the kernel module for parental control;
  and conninfra, which switches the connectivity chip on and off for its subsystems and resets it, with the ring buffers and message
  threads of its base library.  The four do not call each other.  Paths
  below are relative to \<open>src/\<close>; \<open>nmbm/\<close> is \<open>target/linux/generic/files-5.4/drivers/mtd/nmbm/\<close>, with the headers
  \<open>nmbm.h\<close> and \<open>nmbm-os.h\<close> in \<open>target/linux/generic/files-5.4/include/nmbm/\<close>, \<open>datconf/\<close> is
  \<open>package/datconf/src/\<close>, \<open>pc/\<close> is \<open>package/parental-control-main/src/\<close>, and \<open>base/\<close>, \<open>core/\<close>
  and \<open>platform/\<close> are directories of \<open>package/conninfra/src/\<close>, as is \<open>src/\<close> with \<open>src/conninfra.c\<close>.

  \<^bold>\<open>How the C code is modelled.\<close>  A function of the code is a HOL function of the same name, from the
  state it reads to its result and the state it leaves.  Its value is an \<open>option\<close>: \<^term>\<open>None\<close> stands for
  an access outside an object, through a null pointer, or for a loop that does not end, and
  \<^term>\<open>Some\<close> for a return, with whatever error number the code returns.  A statement
  \<open>post (f s) P\<close> (theory Prelude) therefore says that \<open>f\<close> returns, stays in bounds, and that \<open>P\<close> holds of
  what it returns.  Integers of the code are words of their width (\<open>u8\<close>, \<open>u32\<close>, \<open>u64\<close>), so they wrap as
  in C; a C string is the list of its bytes before the null byte.  The flash device, the MTD core, the CRC
  of the kernel, memory allocation, and the calls of the C library and of the kernel on files and strings are
  parameters: their outcomes are arguments, and what the code relies on is a named hypothesis (\<open>driver_ok\<close>,
  \<open>core_keeps_buffers\<close>, \<open>file_ok\<close>, \<open>commit_ok\<close>, and those on the records \<open>klib\<close> and \<open>json_mem\<close>) that the
  samples satisfy.

  \<^bold>\<open>NMBM.\<close>  A chip has physical blocks; NMBM presents logical blocks and keeps two tables, the state of
  every physical block (two bits each) and the mapping from logical to physical blocks.  Both are written to
  the chip as an information table, in a main and a backup copy, behind a signature block that tells where the
  management area is.
  \<^item> Nmbm_Types: structures and constants of \<open>nmbm/nmbm-private.h\<close> and \<open>nmbm.h\<close>; the byte images of the two
    on-flash structures, whose contract is the locale \<open>mem_image\<close>.  The instance is one record \<open>nmbm_instance\<close>; the device it drives is the field
    \<open>lower_dev\<close> of a type left open, reached only through the functions of \<open>nmbm_lower_device\<close>.
  \<^item> Nmbm_Chip: addresses, reading, writing, erasing and marking pages and blocks with retries.  Lemmas: each
    operation returns and changes the device only.
  \<^item> Nmbm_State: checksums, the state table (locale \<open>state_table\<close>), walks over good blocks, scanning, the first mapping.
  \<^item> Nmbm_Mgmt: erasing with a check, the signature, reads and verified writes of the management area.
  \<^item> Nmbm_Tables: generating, rebuilding, rescuing and updating the tables, mapping a logical block to a
    spare one.  Lemmas: every operation keeps the invariant of the instance; the update ends.
  \<^item> Nmbm_Attach: loading or creating the tables when a device is attached.  Nmbm_Attach_Spec: attaching an erased chip
    establishes the invariant \<open>nmbm_ok\<close>, in the memory that \<open>nmbm_calc_structure_size\<close> asks for.
  \<^item> Nmbm_Api: reading, writing, erasing and marking by logical address, with the invariant \<open>nmbm_ok\<close> and what a
    read returns.
  \<^item> Nmbm_Mtd: \<open>nmbm/nmbm-mtd.c\<close>, the callbacks to the MTD device below, the lock of the device, and the
    operations of the MTD device presented above.  The lock is a step relation over any number of tasks.
  \<^item> Nmbm_Sample: a driver for a small chip, and an instance on it, on which the samples run.
  \<^item> Nmbm_Properties, Mtd_Properties: the properties, each followed by an instance.

  \<^bold>\<open>Datconf.\<close>  A file is parsed into items that keep the text of every line; keys are looked up, set and deleted
  in these items and in a second group of new items; committing writes both groups back.
  \<^item> Kvc: \<open>datconf/kvcutil/libkvcutil.c\<close>, with a definition for every operation.
  \<^item> Kvc_Store: the invariant \<open>kvc_ok\<close>, the map that a context stands for (\<open>lookup\<close>), and the effect of setting and
    deleting on it.  The locale \<open>keyed_store\<close> states what the batch operation needs of setting one key, and is
    interpreted on \<open>kvc_set\<close>.
  \<^item> Kvc_Text: the lines of a text, what the parser makes of them, what is written back, and that a written
    file loads to the same map.
  \<^item> Kvc_Enum: counting, collecting and enumerating.
  \<^item> Datconf: \<open>datconf/datconf/libdatconf.c\<close> and the commands of \<open>datconf/datconf/datconf.c\<close>.
  \<^item> Kvc_Properties: the properties of both.

  \<^bold>\<open>Parental control.\<close>  A character device takes commands in JSON that set applications, rules (which applications
  to drop or to accept) and groups of addresses; a packet hook looks up the rule of the source address, dissects the
  packet and decides.
  \<^item> Pc_Utils: \<open>pc/pc_utils.c\<close>, with the module's own \<open>sscanf\<close>.
  \<^item> Pc_Json: parser, accessors and printer of \<open>pc/cJSON.c\<close>; every allocation is an argument, and the printer writes
    into the block it has.  Pc_Json_Spec: which values the printer writes, and that the parser reads them back.
  \<^item> Pc_App: the feature strings and the table of applications of \<open>pc/pc_app.c\<close>.  Pc_App_Spec: what a feature stands for.
  \<^item> Pc_Policy: rules and groups of \<open>pc/pc_policy.c\<close>, in a store of rules by address.  Pc_Policy_Inv: every rule counts the groups
    that point to it, in every state that commands lead to.
  \<^item> Pc_Regexp: \<open>pc/regexp.c\<close>.  Pc_Regexp_Lang: the language of a pattern, and that the matcher decides it.
  \<^item> Pc_Config: \<open>pc/pc_config.c\<close>.
  \<^item> Pc_Filter: \<open>pc/pc_filter.c\<close>.  Pc_Filter_Spec: the bounds of the fields that are found in a packet.
  \<^item> Pc_Sample: a library, applications, rules and packets.  Pc_Properties, Pc_Json_Properties: the properties.

  \<^bold>\<open>Conninfra.\<close>  Tasks send operations to a thread, which handles them in order and keeps the last ones in a history.
  \<^item> Ring: \<open>base/ring.c\<close> and the loops of \<open>base/include/ring.h\<close>.  Ring_Spec: the cells that such a loop visits (locale
    \<open>ring_pass\<close>, interpreted for reading, writing and overwriting), also where the positions wrap.
  \<^item> Op_History: the history of \<open>base/msg_thread.c\<close> and \<open>base/osal.c\<close>.  Op_History_Spec: it holds the last entries.
  \<^item> Msg_Queue: the queues of operations; the locale \<open>op_queue\<close> states that they are first-in first-out queues.
  \<^item> Msg_Thread: requests, senders, the thread and its creation in \<open>base/msg_thread.c\<close>.  A sender and the thread are cut
    into steps, between which others run: \<open>sender_step\<close> and \<open>worker_step\<close>.
  \<^item> Msg_Protocol, Msg_Protocol_Inv, Msg_Protocol_Spec: the step relation \<open>msg_step\<close> of one thread and any number of senders, the
    invariant \<open>own_inv\<close> that every operation is in one place and counts its references, and the bound of a run.
  \<^item> Msg_Results: \<open>res_inv\<close>, which results the senders get, and that nobody waits forever.
  \<^item> Msg_Sample: a thread with a handler, and schedules of its steps.  Conn_Properties: the properties.

  \<^bold>\<open>The core of conninfra.\<close>  Five subsystems share one chip, which has power as long as one of them is on.  One thread
  (\<open>msg_ctx\<close>) runs the power operations, a second one (\<open>cb_ctx\<close>) the reset of the chip, with the callbacks of the
  subsystems on a thread for each.
  \<^item> Consys_Hw: \<open>platform/consys_hw.c\<close>, \<open>pmic_mng.c\<close>, \<open>emi_mng.c\<close> and \<open>consys_reg_mng.c\<close>.  The functions of a chip
    are fields of a record, some of which may be missing, as in the tables of the code; each call of one is recorded (\<open>plt_call\<close>).
  \<^item> Core_Power: the context \<open>conninfra_ctx\<close> and the operations of \<open>core/conninfra_core.c\<close> that the core thread runs, with
    the lock \<open>core_lock\<close>: taking a lock that is held is \<^term>\<open>None\<close>, and what an interruptible wait returns is an argument.
  \<^item> Core_Api: the functions of \<open>core/conninfra_core.c\<close> and \<open>src/conninfra.c\<close> that run in the task of the caller.
  \<^item> Core_Reset: the reset of the chip in \<open>core/conninfra_core.c\<close>, cut into steps of the callback thread (\<open>cb_step\<close>), of the threads of
    the subsystems (\<open>subdrv_step\<close>) and of a trigger (\<open>trigger_step\<close>), in the step relation \<open>rst_step\<close> with the core thread and
    new callbacks; and the automaton \<open>rst_spec\<close> of the events that a reset may have.
  \<^item> Core_Power_Spec: the locale \<open>power_layer\<close>, what the core relies on of the platform layer, interpreted on Consys_Hw.
  \<^item> Core_State_Spec: the set \<open>on_set\<close> of the subsystems that are on, the invariant \<open>core_inv\<close>, the effect of each operation on
    the set, and on the lock.
  \<^item> Core_Reset_Spec: a simulation of the steps by \<open>rst_spec\<close>.  Core_Wifi_Spec: which operations turn the power of WiFi on.
  \<^item> Core_Reset_Live: a measure that every step of a reset decreases, progress, and what a reset restores.
  \<^item> Core_Sample: a chip, and a schedule of a reset.  Core_Properties: the properties.

  \<^bold>\<open>Bounds and fuel.\<close>  Loops are structural recursions, \<open>function\<close>s with a measure, or
  \<open>partial_function (option)\<close>, whose value \<^term>\<open>None\<close> is also what a loop without end has; the properties
  show that the value is \<^term>\<open>Some\<close>.  No fuel is used.  Geometry is bounded by the device: sizes are powers of
  two and the number of blocks fits in 31 bits (\<open>chip_ok\<close>); for attaching, the sizes are such that no
  number of the layout wraps (\<open>sizes_fit\<close>).  Rings and queues have a power of two of cells; a run of
  a message thread has at most sixteen steps for each sender, a reset of the chip at most 41.

  \<^bold>\<open>What the model shows to be wrong.\<close>  The bounds property of loading fails for a text with a null byte
  (\<open>kvc_load_null_byte\<close>); enumeration skips new keys (\<open>enumeration_shows\<close> and its instance); a failed set
  brings a deleted value back (\<open>failed_set_resurrects\<close>); page addresses beyond four gigabytes are cut
  (\<open>page_address_32_bits\<close>); freeing all rules leaves groups with pointers to them (\<open>clean_rule_dangles\<close>); a sender can get
  the result of another one (\<open>stale_result\<close>).  In the core of conninfra, the forced power-off of a chip that is off keeps the
  lock for ever (\<open>forced_off_blocks\<close>), and three operations release a lock that they do not hold (\<open>lock_kept\<close>); a reset
  leaves WiFi without power unless a subsystem before it is on (\<open>reset_restores\<close>); a trigger that cannot be sent blocks
  all resets and power functions (\<open>lost_trigger_blocks\<close>); a power-off that overlaps a reset cuts the power of the others
  (\<open>stale_status_cuts_power\<close>); a failed SPI access reads behind a table (\<open>failed_spi_reads_out_of_table\<close>).

  \<^bold>\<open>Not modelled.\<close>  Printing and logging (of the log functions only the level is state), the listings in procfs, freeing
  of memory, locks that are held for the whole of an operation, registration with the device model, with the
  packet hooks and module entry points, command-line parsing, and the second tool
  \<open>kvcedit\<close>, which repeats the commands of \<open>datconf\<close>.  Of \<open>pc/cJSON.c\<close> the constructors and the minifier; of
  \<open>base/msg_thread.c\<close> the checks of engineering builds, dumping, and stopping a thread that has work; the properties of its
  runs are about senders that wait, since a sender that does not wait reads the operation after it has queued it.
  Of conninfra the functions of the chips behind the tables (\<open>platform/mt7981/\<close> and others), which write registers, probing and removal,
  dumping, the engineering commands in procfs, and the creation of the threads of the core.  The other parts of the tree are
  drivers bound to registers and firmware commands (\<open>mt_wifi\<close>, \<open>warp\<close>, switch and flash controllers), packaging of
  third-party programs, and scripts.
\<close>

end
